(* ===== verification/Prelude.thy ===== *)
theory Prelude
  imports Main "HOL-Library.Multiset"
begin

text \<open>
  What every component shares: exceptions as values, the result type and its sequencing
  operator, \<open>std::map\<close> as an ordered association list, and generic lemmas on lists.

  \<^item> A C++ function that may throw returns \<open>'a result\<close>: \<open>Inl e\<close> is the exception
    \<open>e\<close>, \<open>Inr x\<close> the returned value. \<open>Undefined_behavior\<close> marks an access that
    the language leaves undefined (an index past the end of a vector, \<open>front()\<close> of an empty
    vector); \<open>Out_of_fuel\<close> marks a recursion over the node graph that was cut off.
  \<^item> \<open>std::map\<close> is a list of key-value pairs in strictly ascending key order, so that
    iterating the map is walking the list.
\<close>

named_theorems result_simps \<open>unfolding and splitting of exception sequencing\<close>

section \<open>Exceptions as values\<close>

datatype cpp_error =
    Invalid_argument string
  | Logic_error string
  | Out_of_range string
  | Overflow_error string
  | Runtime_error string
  | Undefined_behavior string
  | Out_of_fuel

type_synonym 'a result = "cpp_error + 'a"

fun and_then :: "'a result \<Rightarrow> ('a \<Rightarrow> 'b result) \<Rightarrow> 'b result" where
  "and_then (Inl e) f = Inl e"
| "and_then (Inr x) f = f x"

text \<open>The exception, if any, of evaluating a check before going on.\<close>

definition throw_if :: "bool \<Rightarrow> cpp_error \<Rightarrow> 'a result \<Rightarrow> 'a result" where
  "throw_if c e r = (if c then Inl e else r)"

lemma and_then_Inr_iff [result_simps]:
  "and_then r f = Inr y \<longleftrightarrow> (\<exists>x. r = Inr x \<and> f x = Inr y)"
  by (cases r) auto

lemma and_then_Inl_iff [result_simps]:
  "and_then r f = Inl e \<longleftrightarrow> r = Inl e \<or> (\<exists>x. r = Inr x \<and> f x = Inl e)"
  by (cases r) auto

lemma throw_if_Inr_iff [result_simps]:
  "throw_if c e r = Inr y \<longleftrightarrow> \<not> c \<and> r = Inr y"
  by (simp add: throw_if_def)

lemma throw_if_False [simp]: "throw_if False e r = r"
  and throw_if_True [simp]: "throw_if True e r = Inl e"
  by (simp_all add: throw_if_def)

text \<open>\<open>optional::value\<close> on an optional that the code has checked, or an error.\<close>

definition require :: "cpp_error \<Rightarrow> 'a option \<Rightarrow> 'a result" where
  "require e x = (case x of None \<Rightarrow> Inl e | Some y \<Rightarrow> Inr y)"

lemma require_simps [simp]: "require e None = Inl e" "require e (Some x) = Inr x"
  by (simp_all add: require_def)

lemma require_Inr_iff [result_simps]: "require e x = Inr y \<longleftrightarrow> x = Some y"
  by (cases x) auto

text \<open>A loop that may throw in each iteration, over a list of inputs.\<close>

fun fold_result :: "('a \<Rightarrow> 's \<Rightarrow> 's result) \<Rightarrow> 'a list \<Rightarrow> 's \<Rightarrow> 's result" where
  "fold_result f [] s = Inr s"
| "fold_result f (x # xs) s = and_then (f x s) (fold_result f xs)"

lemma fold_result_append:
  "fold_result f (xs @ ys) s = and_then (fold_result f xs s) (fold_result f ys)"
proof (induction xs arbitrary: s)
  case (Cons x xs)
  then show ?case by (cases "f x s") auto
qed simp

fun map_result :: "('a \<Rightarrow> 'b result) \<Rightarrow> 'a list \<Rightarrow> 'b list result" where
  "map_result f [] = Inr []"
| "map_result f (x # xs) = and_then (f x) (\<lambda>y. and_then (map_result f xs) (\<lambda>ys. Inr (y # ys)))"

lemma map_result_Inr:
  "(\<And>x. x \<in> set xs \<Longrightarrow> f x = Inr (g x)) \<Longrightarrow> map_result f xs = Inr (map g xs)"
  by (induction xs) auto

text \<open>
  Signed arithmetic on \<open>int\<close> (32 bits) has no defined result outside its range: a result that
  is not representable is an error of its own.
\<close>

definition INT32_MIN :: int where "INT32_MIN = - 2147483648"
definition INT32_MAX :: int where "INT32_MAX = 2147483647"

definition checked_int :: "int \<Rightarrow> int result" where
  "checked_int x = (if INT32_MIN \<le> x \<and> x \<le> INT32_MAX then Inr x
     else Inl (Undefined_behavior ''signed integer overflow''))"

lemma checked_int_ok [simp]: "INT32_MIN \<le> x \<Longrightarrow> x \<le> INT32_MAX \<Longrightarrow> checked_int x = Inr x"
  by (simp add: checked_int_def)

lemma find_SomeD: "find P xs = Some x \<Longrightarrow> x \<in> set xs \<and> P x"
  by (induction xs) (auto split: if_splits)

section \<open>std::map as an ordered association list\<close>

type_synonym ('k, 'v) smap = "('k \<times> 'v) list"

definition smap_ok :: "('k::linorder, 'v) smap \<Rightarrow> bool" where
  "smap_ok m \<longleftrightarrow> sorted_wrt (<) (map fst m)"

definition smap_find :: "('k, 'v) smap \<Rightarrow> 'k \<Rightarrow> 'v option" where
  "smap_find m k = map_of m k"

lemma smap_find_map_of: "smap_find m = map_of m"
  by (simp add: smap_find_def fun_eq_iff)

lemma finite_dom_smap [simp]: "finite (dom (smap_find m))"
  by (simp add: smap_find_map_of finite_dom_map_of)

text \<open>\<open>map::at\<close> throws \<open>out_of_range\<close> for a missing key.\<close>

definition smap_at :: "('k, 'v) smap \<Rightarrow> 'k \<Rightarrow> 'v result" where
  "smap_at m k = require (Out_of_range ''map::at'') (smap_find m k)"

text \<open>Writing the entry of a key, inserting it at its place in the order if it is new.\<close>

fun smap_put :: "'k::linorder \<Rightarrow> 'v \<Rightarrow> ('k, 'v) smap \<Rightarrow> ('k, 'v) smap" where
  "smap_put k v [] = [(k, v)]"
| "smap_put k v ((k', v') # m) =
     (if k < k' then (k, v) # (k', v') # m
      else if k = k' then (k, v) # m
      else (k', v') # smap_put k v m)"

text \<open>\<open>map::emplace\<close> leaves an existing entry alone.\<close>

definition smap_emplace :: "'k::linorder \<Rightarrow> 'v \<Rightarrow> ('k, 'v) smap \<Rightarrow> ('k, 'v) smap" where
  "smap_emplace k v m = (if smap_find m k = None then smap_put k v m else m)"

definition smap_erase :: "'k \<Rightarrow> ('k, 'v) smap \<Rightarrow> ('k, 'v) smap" where
  "smap_erase k m = filter (\<lambda>e. fst e \<noteq> k) m"

text \<open>The interface the components rely on, and what follows from it alone.\<close>

locale ordered_map =
  fixes look :: "'m \<Rightarrow> 'k::linorder \<Rightarrow> 'v option"
    and store :: "'k \<Rightarrow> 'v \<Rightarrow> 'm \<Rightarrow> 'm"
    and emplace :: "'k \<Rightarrow> 'v \<Rightarrow> 'm \<Rightarrow> 'm"
    and erase :: "'k \<Rightarrow> 'm \<Rightarrow> 'm"
    and entries :: "'m \<Rightarrow> ('k \<times> 'v) list"
    and ok :: "'m \<Rightarrow> bool"
  assumes look_store: "look (store k v m) = (look m)(k \<mapsto> v)"
    and look_emplace: "look m k = None \<Longrightarrow> look (emplace k v m) = (look m)(k \<mapsto> v)"
    and emplace_present: "look m k \<noteq> None \<Longrightarrow> emplace k v m = m"
    and look_erase: "look (erase k m) = (look m)(k := None)"
    and ok_store: "ok m \<Longrightarrow> ok (store k v m)"
    and ok_emplace: "ok m \<Longrightarrow> ok (emplace k v m)"
    and ok_erase: "ok m \<Longrightarrow> ok (erase k m)"
    and entries_look: "ok m \<Longrightarrow> (k, v) \<in> set (entries m) \<longleftrightarrow> look m k = Some v"
begin

lemma look_emplace_other: "j \<noteq> k \<Longrightarrow> look (emplace k v m) j = look m j"
  by (cases "look m k") (simp_all add: look_emplace emplace_present)

lemma dom_emplace: "dom (look (emplace k v m)) = insert k (dom (look m))"
  by (cases "look m k") (auto simp: look_emplace emplace_present)

lemma emplace_then_erase:
  "look m k = None \<Longrightarrow> look (erase k (emplace k v m)) = look m"
  by (auto simp: look_erase look_emplace fun_eq_iff)

lemma keys_of_entries:
  assumes "ok m"
  shows "fst ` set (entries m) = dom (look m)"
proof (intro equalityI subsetI)
  fix k assume "k \<in> fst ` set (entries m)"
  then obtain v where "(k, v) \<in> set (entries m)" by auto
  then show "k \<in> dom (look m)" using entries_look [OF assms] by auto
next
  fix k assume "k \<in> dom (look m)"
  then obtain v where "(k, v) \<in> set (entries m)" using entries_look [OF assms] by auto
  then show "k \<in> fst ` set (entries m)" by (rule image_eqI [rotated]) simp
qed

end

lemma smap_find_put: "smap_find (smap_put k v m) = (smap_find m)(k \<mapsto> v)"
  unfolding smap_find_def by (induction k v m rule: smap_put.induct) (auto simp: fun_eq_iff)

lemma keys_smap_put: "fst ` set (smap_put k v m) = insert k (fst ` set m)"
  by (induction k v m rule: smap_put.induct) auto

lemma smap_ok_put: "smap_ok m \<Longrightarrow> smap_ok (smap_put k v m)"
  unfolding smap_ok_def
proof (induction k v m rule: smap_put.induct)
  case (2 k v k' v' m)
  have "\<forall>x \<in> fst ` set (smap_put k v m). k' < x" if "k' < k"
    using "2.prems" that by (auto simp: keys_smap_put)
  then show ?case using 2 by auto
qed simp

lemma smap_find_erase: "smap_find (smap_erase k m) = (smap_find m)(k := None)"
  unfolding smap_find_def smap_erase_def by (induction m) (auto simp: fun_eq_iff)

lemma smap_ok_erase: "smap_ok m \<Longrightarrow> smap_ok (smap_erase k m)"
  unfolding smap_ok_def smap_erase_def by (induction m) auto

lemma smap_ok_distinct: "smap_ok m \<Longrightarrow> distinct (map fst m)"
  unfolding smap_ok_def by (induction m) auto

interpretation smap: ordered_map smap_find smap_put smap_emplace smap_erase "\<lambda>m. m" smap_ok
  by unfold_locales
    (auto simp: smap_find_put smap_find_erase smap_emplace_def smap_ok_put smap_ok_erase
       smap_find_def smap_ok_distinct)

lemma smap_find_emplace:
  "smap_find m k = None \<Longrightarrow> smap_find (smap_emplace k v m) = (smap_find m)(k \<mapsto> v)"
  by (rule smap.look_emplace)

lemma smap_at_Inr_iff [result_simps]: "smap_at m k = Inr v \<longleftrightarrow> smap_find m k = Some v"
  by (simp add: smap_at_def result_simps)

lemma smap_at_Some [simp]: "smap_find m k = Some v \<Longrightarrow> smap_at m k = Inr v"
  by (simp add: smap_at_def)

lemma smap_at_None [simp]: "smap_find m k = None \<Longrightarrow> smap_at m k = Inl (Out_of_range ''map::at'')"
  by (simp add: smap_at_def)

end
