(* ===== verification/Pane_Percentage.thy ===== *)
theory Pane_Percentage
  imports Prelude
begin

text \<open>
  Integer percentages of the children of a split (src/src/parent/pane/pane_percentage.h and
  .cc): the validated range 0..100, equal shares, and the largest-remainder distribution of a
  total over weights. The rounding itself, which \<open>distribute_pane_percentage_total\<close> and the
  geometry's \<open>allocate_extent\<close> both contain, is stated once as \<open>largest_remainder\<close>; its
  laws (the shares sum to the total, each is its exact quota rounded down or up, a zero weight
  gets nothing) are lemmas over it.

  C++ \<open>int\<close> and \<open>long long\<close> are \<open>int\<close> here: the weights are 32-bit, so no product or
  sum of \<open>distribute_pane_percentage_total\<close> reaches the 64-bit bound. All dividends are
  non-negative, where C++ division and \<open>div\<close> agree.
\<close>

section \<open>Definitions\<close>

definition MIN_VALUE :: int where "MIN_VALUE = 0"

definition MAX_VALUE :: int where "MAX_VALUE = 100"

definition percentage_from_int :: "int \<Rightarrow> int option" where
  "percentage_from_int value = (if value < MIN_VALUE \<or> value > MAX_VALUE then None else Some value)"

definition validate_weights :: "int list \<Rightarrow> unit result" where
  "validate_weights weights =
     throw_if (weights = []) (Invalid_argument ''pane percentages require at least one weight'')
       (throw_if (\<exists>w \<in> set weights. w < 0)
          (Invalid_argument ''pane percentage weights cannot be negative'') (Inr ()))"

definition required_normalized_percentage :: "int \<Rightarrow> int result" where
  "required_normalized_percentage value =
     require (Logic_error ''normalized pane percentage is outside 0..100'')
       (percentage_from_int value)"

text \<open>The indices, stably sorted by descending remainder.\<close>

definition remainder_order :: "int list \<Rightarrow> nat list" where
  "remainder_order remainders = sort_key (\<lambda>i. - (remainders ! i)) [0..<length remainders]"

text \<open>The final loop: the first \<open>k\<close> indices of the order get one more.\<close>

fun bump_each :: "nat \<Rightarrow> nat list \<Rightarrow> int list \<Rightarrow> int list result" where
  "bump_each 0 order sizes = Inr sizes"
| "bump_each (Suc k) [] sizes = Inl (Undefined_behavior ''remainder order index'')"
| "bump_each (Suc k) (i # order) sizes = bump_each k order (sizes[i := sizes ! i + 1])"

definition largest_remainder :: "int list \<Rightarrow> int \<Rightarrow> int \<Rightarrow> int list result" where
  "largest_remainder scaled divisor amount =
     (let sizes = map (\<lambda>s. s div divisor) scaled;
          remainders = map (\<lambda>s. s mod divisor) scaled;
          assigned = sum_list sizes
      in bump_each (nat (amount - assigned)) (remainder_order remainders) sizes)"

definition distribute_pane_percentage_total :: "int list \<Rightarrow> int \<Rightarrow> int list result" where
  "distribute_pane_percentage_total weights amount =
     and_then (validate_weights weights) (\<lambda>_.
     throw_if (amount < MIN_VALUE \<or> amount > MAX_VALUE)
       (Invalid_argument ''pane percentage total must be within 0..100'')
       (let weight_sum = sum_list weights;
            effective_sum = (if weight_sum = 0 then int (length weights) else weight_sum);
            scaled = map (\<lambda>w. (if weight_sum = 0 then 1 else w) * amount) weights
        in largest_remainder scaled effective_sum amount))"

definition normalize_pane_percentages :: "int list \<Rightarrow> int list result" where
  "normalize_pane_percentages weights =
     and_then (distribute_pane_percentage_total weights MAX_VALUE)
       (map_result required_normalized_percentage)"

definition equal_pane_percentages :: "int \<Rightarrow> int list result" where
  "equal_pane_percentages num =
     throw_if (num \<le> 0)
       (Invalid_argument ''equal pane percentages require at least one pane'')
       (let base = MAX_VALUE div num; remainder = MAX_VALUE mod num
        in map_result
             (\<lambda>index. required_normalized_percentage (base + (if index < remainder then 1 else 0)))
             (map int [0..<nat num]))"

section \<open>The rounding\<close>

lemma remainder_order_set: "set (remainder_order rs) = {..<length rs}"
  by (simp add: remainder_order_def atLeast0LessThan)

lemma remainder_order_distinct: "distinct (remainder_order rs)"
  by (simp add: remainder_order_def)

lemma remainder_order_length: "length (remainder_order rs) = length rs"
  by (simp add: remainder_order_def)

lemma bump_each_eq:
  "distinct order \<Longrightarrow> set order \<subseteq> {..<length r} \<Longrightarrow> k \<le> length order \<Longrightarrow>
   bump_each k order r
     = Inr (map (\<lambda>i. r ! i + (if i \<in> set (take k order) then 1 else 0)) [0..<length r])"
proof (induction k order r rule: bump_each.induct)
  case (1 order sizes)
  then show ?case by (simp add: map_nth)
next
  case (3 k i order sizes)
  let ?r = "sizes[i := sizes ! i + 1]"
  from 3 have "bump_each k order ?r
      = Inr (map (\<lambda>j. ?r ! j + (if j \<in> set (take k order) then 1 else 0)) [0..<length sizes])"
    by simp
  moreover have "i \<notin> set (take k order)" using "3.prems"(1) by (auto dest: in_set_takeD)
  ultimately show ?case using "3.prems"(2) by (auto simp: nth_list_update)
qed simp

lemma sum_list_indicator:
  "A \<subseteq> {..<n} \<Longrightarrow> (\<Sum>i\<leftarrow>[0..<n]. f i + (if i \<in> A then 1 else 0)) = (\<Sum>i\<leftarrow>[0..<n]. f i) + int (card A)"
  for f :: "nat \<Rightarrow> int"
proof -
  assume A: "A \<subseteq> {..<n}"
  have "(\<Sum>i\<leftarrow>[0..<n]. f i + (if i \<in> A then 1 else 0))
      = (\<Sum>i\<in>{..<n}. f i) + (\<Sum>i\<in>{..<n}. if i \<in> A then 1 else 0)"
    by (simp add: interv_sum_list_conv_sum_set_nat sum.distrib atLeast0LessThan)
  also have "(\<Sum>i\<in>{..<n}. if i \<in> A then 1 else (0::int)) = int (card A)"
    using A by (simp add: sum.If_cases Int_absorb1)
  finally show ?thesis by (simp add: interv_sum_list_conv_sum_set_nat atLeast0LessThan)
qed

text \<open>
  The exact quotas miss the total by fewer than one unit per entry: the remainders sum to the
  divisor times what is missing.
\<close>

lemma missing_units:
  fixes scaled :: "int list"
  assumes "0 < divisor" "sum_list scaled = divisor * amount"
  shows "divisor * (amount - (\<Sum>s\<leftarrow>scaled. s div divisor)) = (\<Sum>s\<leftarrow>scaled. s mod divisor)"
proof -
  have "sum_list scaled = (\<Sum>s\<leftarrow>scaled. divisor * (s div divisor) + s mod divisor)"
    by simp
  also have "\<dots> = divisor * (\<Sum>s\<leftarrow>scaled. s div divisor) + (\<Sum>s\<leftarrow>scaled. s mod divisor)"
    by (simp only: sum_list_addf sum_list_const_mult)
  finally show ?thesis using assms(2) by (simp add: algebra_simps)
qed

lemma sum_list_mod_bounds:
  fixes scaled :: "int list"
  assumes "0 < divisor"
  shows "0 \<le> (\<Sum>s\<leftarrow>scaled. s mod divisor)"
    and "scaled \<noteq> [] \<Longrightarrow> (\<Sum>s\<leftarrow>scaled. s mod divisor) < divisor * int (length scaled)"
proof -
  show "0 \<le> (\<Sum>s\<leftarrow>scaled. s mod divisor)"
    using assms by (intro sum_list_nonneg) auto
  show "scaled \<noteq> [] \<Longrightarrow> (\<Sum>s\<leftarrow>scaled. s mod divisor) < divisor * int (length scaled)"
  proof (induction scaled)
    case (Cons s ss)
    have "s mod divisor < divisor" using assms by simp
    with Cons show ?case by (cases "ss = []") (auto simp: algebra_simps)
  qed simp
qed

lemma missing_units_bounds:
  fixes scaled :: "int list"
  assumes "0 < divisor" "sum_list scaled = divisor * amount" "scaled \<noteq> []"
  shows "0 \<le> amount - (\<Sum>s\<leftarrow>scaled. s div divisor)"
    and "amount - (\<Sum>s\<leftarrow>scaled. s div divisor) < int (length scaled)"
proof -
  let ?k = "amount - (\<Sum>s\<leftarrow>scaled. s div divisor)"
  have eq: "divisor * ?k = (\<Sum>s\<leftarrow>scaled. s mod divisor)"
    by (rule missing_units [OF assms(1,2)])
  show "0 \<le> ?k"
    using sum_list_mod_bounds(1) [OF assms(1), of scaled] assms(1) eq
    by (metis mult_less_cancel_left_pos mult_zero_right not_le)
  show "?k < int (length scaled)"
    using sum_list_mod_bounds(2) [OF assms(1) assms(3)] assms(1) eq
    by (metis mult_less_cancel_left_pos)
qed

text \<open>
  What the loop computes: one unit more for the entries among the first \<open>k\<close> of the order,
  where \<open>k\<close> is exactly what is missing.
\<close>

lemma largest_remainder_eq:
  fixes scaled :: "int list"
  assumes "0 < divisor" "sum_list scaled = divisor * amount" "scaled \<noteq> []"
  defines "k \<equiv> nat (amount - (\<Sum>s\<leftarrow>scaled. s div divisor))"
    and "order \<equiv> remainder_order (map (\<lambda>s. s mod divisor) scaled)"
  shows "largest_remainder scaled divisor amount
     = Inr (map (\<lambda>i. scaled ! i div divisor + (if i \<in> set (take k order) then 1 else 0))
             [0..<length scaled])"
    and "int k = amount - (\<Sum>s\<leftarrow>scaled. s div divisor)" and "k < length scaled"
proof -
  show k: "int k = amount - (\<Sum>s\<leftarrow>scaled. s div divisor)" and kl: "k < length scaled"
    using missing_units_bounds [OF assms(1-3)] by (auto simp: k_def)
  have "bump_each k order (map (\<lambda>s. s div divisor) scaled)
      = Inr (map (\<lambda>i. map (\<lambda>s. s div divisor) scaled ! i
                 + (if i \<in> set (take k order) then 1 else 0)) [0..<length scaled])"
    using kl by (subst bump_each_eq)
      (auto simp: order_def remainder_order_distinct remainder_order_set remainder_order_length)
  then show "largest_remainder scaled divisor amount
     = Inr (map (\<lambda>i. scaled ! i div divisor + (if i \<in> set (take k order) then 1 else 0))
             [0..<length scaled])"
    by (simp add: largest_remainder_def Let_def k_def order_def cong: map_cong)
qed

text \<open>The laws of the rounding: length, sum, and each share its quota rounded down or up.\<close>

lemma largest_remainder_laws:
  fixes scaled :: "int list"
  assumes "0 < divisor" "sum_list scaled = divisor * amount" "scaled \<noteq> []"
  obtains sizes where "largest_remainder scaled divisor amount = Inr sizes"
    and "length sizes = length scaled" and "sum_list sizes = amount"
    and "\<And>i. i < length scaled \<Longrightarrow>
           sizes ! i = scaled ! i div divisor \<or> sizes ! i = scaled ! i div divisor + 1"
proof -
  let ?k = "nat (amount - (\<Sum>s\<leftarrow>scaled. s div divisor))"
  let ?order = "remainder_order (map (\<lambda>s. s mod divisor) scaled)"
  let ?A = "set (take ?k ?order)"
  let ?sizes = "map (\<lambda>i. scaled ! i div divisor + (if i \<in> ?A then 1 else 0)) [0..<length scaled]"
  note lr = largest_remainder_eq [OF assms]
  have "distinct (take ?k ?order)" by (simp add: remainder_order_distinct)
  then have "card ?A = ?k"
    using lr(3) by (simp add: distinct_card remainder_order_length)
  moreover have "?A \<subseteq> {..<length scaled}"
    using remainder_order_set [of "map (\<lambda>s. s mod divisor) scaled"]
    by (auto dest: in_set_takeD)
  ultimately have "sum_list ?sizes = (\<Sum>i\<leftarrow>[0..<length scaled]. scaled ! i div divisor) + int ?k"
    by (simp add: sum_list_indicator)
  also have "(\<Sum>i\<leftarrow>[0..<length scaled]. scaled ! i div divisor) = (\<Sum>s\<leftarrow>scaled. s div divisor)"
    by (rule arg_cong [where f = sum_list]) (rule nth_equalityI, auto)
  finally have "sum_list ?sizes = amount" using lr(2) by simp
  then show ?thesis by (intro that [OF lr(1)]) auto
qed

text \<open>
  Every entry that is rounded up has a positive remainder: there are at least as many positive
  remainders as missing units, and the order puts them first.
\<close>

lemma missing_units_le_positive:
  fixes scaled :: "int list"
  assumes "0 < divisor" "sum_list scaled = divisor * amount"
  shows "amount - (\<Sum>s\<leftarrow>scaled. s div divisor)
     \<le> int (card {i. i < length scaled \<and> 0 < scaled ! i mod divisor})"
proof -
  let ?P = "{i. i < length scaled \<and> 0 < scaled ! i mod divisor}"
  have "divisor * (amount - (\<Sum>s\<leftarrow>scaled. s div divisor)) = (\<Sum>s\<leftarrow>scaled. s mod divisor)"
    by (rule missing_units [OF assms])
  also have "\<dots> = (\<Sum>i\<in>{..<length scaled}. scaled ! i mod divisor)"
    by (simp add: sum_list_sum_nth atLeast0LessThan)
  also have "\<dots> = (\<Sum>i\<in>?P. scaled ! i mod divisor)"
    by (rule sum.mono_neutral_right) (use pos_mod_sign [OF assms(1)] in \<open>force simp: le_less\<close>)+
  also have "\<dots> \<le> (\<Sum>i\<in>?P. divisor)"
    by (rule sum_mono) (use assms(1) in \<open>auto intro: order.strict_implies_order\<close>)
  finally show ?thesis using assms(1) by simp
qed

lemma remainder_order_descending:
  assumes "a < b" "b < length rs"
  shows "rs ! (remainder_order rs ! b) \<le> rs ! (remainder_order rs ! a)"
proof -
  let ?f = "\<lambda>i. - (rs ! i)"
  have "sorted (map ?f (remainder_order rs))" by (simp add: remainder_order_def)
  then have "map ?f (remainder_order rs) ! a \<le> map ?f (remainder_order rs) ! b"
    using assms by (intro sorted_nth_mono) (auto simp: remainder_order_length)
  then show ?thesis using assms by (simp add: remainder_order_length)
qed

lemma first_units_positive:
  assumes "k \<le> card {i. i < length rs \<and> (0::int) < rs ! i}" "j < k"
  shows "0 < rs ! (remainder_order rs ! j)"
proof (rule ccontr)
  assume neg: "\<not> 0 < rs ! (remainder_order rs ! j)"
  let ?P = "{i. i < length rs \<and> 0 < rs ! i}"
  have "?P \<subseteq> set (take j (remainder_order rs))"
  proof
    fix i assume i: "i \<in> ?P"
    then have "i \<in> set (remainder_order rs)" by (simp add: remainder_order_set)
    then obtain a where a: "a < length rs" "remainder_order rs ! a = i"
      by (auto simp: in_set_conv_nth remainder_order_length)
    have "a < j"
    proof (rule ccontr)
      assume "\<not> a < j"
      then have "rs ! (remainder_order rs ! a) \<le> rs ! (remainder_order rs ! j)"
        using remainder_order_descending [of j a rs] a(1) by (cases "a = j") auto
      with neg i a(2) show False by simp
    qed
    with a show "i \<in> set (take j (remainder_order rs))"
      by (auto simp: in_set_conv_nth remainder_order_length)
  qed
  then have "card ?P \<le> card (set (take j (remainder_order rs)))" by (rule card_mono [rotated]) simp
  also have "\<dots> \<le> j" by (rule order_trans [OF card_length]) simp
  finally show False using assms by simp
qed

lemma largest_remainder_exact:
  fixes scaled :: "int list"
  assumes "0 < divisor" "sum_list scaled = divisor * amount"
    and "largest_remainder scaled divisor amount = Inr sizes"
    and "i < length scaled" "scaled ! i mod divisor = 0"
  shows "sizes ! i = scaled ! i div divisor"
proof -
  let ?k = "nat (amount - (\<Sum>s\<leftarrow>scaled. s div divisor))"
  let ?rs = "map (\<lambda>s. s mod divisor) scaled"
  let ?order = "remainder_order ?rs"
  have ne: "scaled \<noteq> []" using assms(4) by auto
  have "i \<notin> set (take ?k ?order)"
  proof
    assume "i \<in> set (take ?k ?order)"
    then obtain j where j: "j < ?k" "j < length ?order" "?order ! j = i"
      by (auto simp: in_set_conv_nth)
    have eq: "{i. i < length ?rs \<and> 0 < ?rs ! i} = {i. i < length scaled \<and> 0 < scaled ! i mod divisor}"
      by auto
    have "?k \<le> card {i. i < length ?rs \<and> 0 < ?rs ! i}"
      unfolding eq using missing_units_le_positive [OF assms(1,2)] by simp
    from first_units_positive [OF this j(1)] j(3) assms(4,5) show False by simp
  qed
  then show ?thesis
    using largest_remainder_eq(1) [OF assms(1,2) ne] assms(3,4) by simp
qed

section \<open>Shares: the interface the layout and the geometry rely on\<close>

text \<open>
  A share allocator splits an amount over weights: as many shares as weights, none negative,
  summing to the amount. Bounds on single shares and on prefixes follow.
\<close>

locale share_allocator =
  fixes allocate :: "int list \<Rightarrow> int \<Rightarrow> int list result"
    and valid :: "int list \<Rightarrow> int \<Rightarrow> bool"
  assumes allocates: "valid ws amount \<Longrightarrow>
    \<exists>r. allocate ws amount = Inr r \<and> length r = length ws \<and> sum_list r = amount
      \<and> (\<forall>x \<in> set r. 0 \<le> x)"
begin

lemma shares:
  assumes "valid ws amount"
  obtains r where "allocate ws amount = Inr r" "length r = length ws" "sum_list r = amount"
    "\<And>x. x \<in> set r \<Longrightarrow> 0 \<le> x"
  using allocates [OF assms] by blast

lemma returned_shares:
  assumes "valid ws amount" "allocate ws amount = Inr r"
  shows "length r = length ws" "sum_list r = amount" "\<forall>x \<in> set r. 0 \<le> x"
  using allocates [OF assms(1)] assms(2) by auto

lemma prefix_within:
  assumes "valid ws amount" "allocate ws amount = Inr r"
  shows "0 \<le> sum_list (take i r)" "sum_list (take i r) \<le> amount"
proof -
  note r = returned_shares [OF assms]
  have "sum_list (take i r) + sum_list (drop i r) = amount"
    using r(2) by (metis append_take_drop_id sum_list_append)
  moreover have "0 \<le> sum_list (drop i r)" "0 \<le> sum_list (take i r)"
    using r(3) by (auto intro!: sum_list_nonneg dest: in_set_dropD in_set_takeD)
  ultimately show "0 \<le> sum_list (take i r)" "sum_list (take i r) \<le> amount" by auto
qed

lemma share_within:
  assumes "valid ws amount" "allocate ws amount = Inr r" "x \<in> set r"
  shows "0 \<le> x" "x \<le> amount"
proof -
  note r = returned_shares [OF assms(1,2)]
  show "0 \<le> x" using r(3) assms(3) by blast
  obtain xs ys where "r = xs @ x # ys" using split_list [OF assms(3)] by blast
  with r(2,3) show "x \<le> amount"
    using sum_list_nonneg [of xs] sum_list_nonneg [of ys] by auto
qed

end

section \<open>The distribution over weights\<close>

definition valid_weights :: "int list \<Rightarrow> int \<Rightarrow> bool" where
  "valid_weights weights amount \<longleftrightarrow>
     weights \<noteq> [] \<and> (\<forall>w \<in> set weights. 0 \<le> w) \<and> 0 \<le> amount \<and> amount \<le> 100"

definition effective_weights :: "int list \<Rightarrow> int list" where
  "effective_weights weights = (if sum_list weights = 0 then map (\<lambda>_. 1) weights else weights)"

lemma length_effective_weights [simp]: "length (effective_weights ws) = length ws"
  by (simp add: effective_weights_def)

lemma effective_weights_sum:
  "ws \<noteq> [] \<Longrightarrow> \<forall>w \<in> set ws. 0 \<le> w \<Longrightarrow> 0 < sum_list (effective_weights ws)"
  using sum_list_nonneg [of ws] by (auto simp: effective_weights_def sum_list_triv less_le)

lemma distribute_eq:
  assumes "valid_weights ws amount"
  shows "distribute_pane_percentage_total ws amount
    = largest_remainder (map (\<lambda>w. w * amount) (effective_weights ws))
        (sum_list (effective_weights ws)) amount"
  using assms
  by (auto simp: distribute_pane_percentage_total_def validate_weights_def valid_weights_def
      effective_weights_def Let_def MIN_VALUE_def MAX_VALUE_def sum_list_triv comp_def throw_if_def)

lemma scaled_sum:
  fixes ws :: "int list"
  shows "sum_list (map (\<lambda>w. w * amount) ws) = sum_list ws * amount"
  by (simp add: sum_list_mult_const)

text \<open>The distribution succeeds, and its shares sum to the total and follow the quotas.\<close>

lemma distribute_laws:
  assumes "valid_weights ws amount"
  obtains r where "distribute_pane_percentage_total ws amount = Inr r"
    "length r = length ws" "sum_list r = amount" "\<And>x. x \<in> set r \<Longrightarrow> 0 \<le> x"
    "\<And>i. i < length ws \<Longrightarrow>
       r ! i = effective_weights ws ! i * amount div sum_list (effective_weights ws)
       \<or> r ! i = effective_weights ws ! i * amount div sum_list (effective_weights ws) + 1"
    "\<And>i. i < length ws \<Longrightarrow>
       effective_weights ws ! i * amount mod sum_list (effective_weights ws) = 0 \<Longrightarrow>
       r ! i = effective_weights ws ! i * amount div sum_list (effective_weights ws)"
proof -
  let ?e = "effective_weights ws"
  from assms have ne: "ws \<noteq> []" and nn: "\<forall>w \<in> set ws. 0 \<le> w" and am: "0 \<le> amount"
    by (auto simp: valid_weights_def)
  have pos: "0 < sum_list ?e" by (rule effective_weights_sum [OF ne nn])
  have enn: "\<forall>w \<in> set ?e. 0 \<le> w" using nn by (auto simp: effective_weights_def)
  have sum: "sum_list (map (\<lambda>w. w * amount) ?e) = sum_list ?e * amount" by (rule scaled_sum)
  have "map (\<lambda>w. w * amount) ?e \<noteq> []"
    using ne length_effective_weights [of ws] by (metis length_0_conv map_is_Nil_conv)
  from largest_remainder_laws [OF pos sum this] obtain r
    where r: "largest_remainder (map (\<lambda>w. w * amount) ?e) (sum_list ?e) amount = Inr r"
      "length r = length ws" "sum_list r = amount"
      and q: "\<And>i. i < length ws \<Longrightarrow> r ! i = ?e ! i * amount div sum_list ?e
             \<or> r ! i = ?e ! i * amount div sum_list ?e + 1"
    by (auto simp del: map_map)
  have "0 \<le> x" if "x \<in> set r" for x
  proof -
    from that r(2) obtain i where i: "i < length ws" "x = r ! i" by (auto simp: in_set_conv_nth)
    then have "0 \<le> ?e ! i" using enn by auto
    then have "0 \<le> ?e ! i * amount div sum_list ?e" using pos am
      by (simp add: pos_imp_zdiv_nonneg_iff)
    with q [OF i(1)] i(2) show ?thesis by auto
  qed
  moreover have "distribute_pane_percentage_total ws amount = Inr r"
    using r(1) distribute_eq [OF assms] by simp
  moreover have "r ! i = ?e ! i * amount div sum_list ?e"
    if "i < length ws" "?e ! i * amount mod sum_list ?e = 0" for i
    using largest_remainder_exact [OF pos sum r(1), of i] that by simp
  ultimately show ?thesis using r(2,3) q that by blast
qed

interpretation pct: share_allocator distribute_pane_percentage_total valid_weights
proof
  fix ws amount assume "valid_weights ws amount"
  then show "\<exists>r. distribute_pane_percentage_total ws amount = Inr r \<and> length r = length ws
      \<and> sum_list r = amount \<and> (\<forall>x \<in> set r. 0 \<le> x)"
    by (rule distribute_laws) blast
qed

text \<open>Weights that already sum to the total are returned unchanged.\<close>

lemma distribute_identity:
  assumes "valid_weights ws (sum_list ws)"
  shows "sum_list ws \<noteq> 0 \<Longrightarrow> distribute_pane_percentage_total ws (sum_list ws) = Inr ws"
proof -
  assume nz: "sum_list ws \<noteq> 0"
  then have e: "effective_weights ws = ws" by (simp add: effective_weights_def)
  obtain r where r: "distribute_pane_percentage_total ws (sum_list ws) = Inr r"
    "length r = length ws" and ex: "\<And>i. i < length ws \<Longrightarrow>
       effective_weights ws ! i * sum_list ws mod sum_list (effective_weights ws) = 0 \<Longrightarrow>
       r ! i = effective_weights ws ! i * sum_list ws div sum_list (effective_weights ws)"
    by (rule distribute_laws [OF assms]) (rule that; assumption)
  have "r ! i = ws ! i" if "i < length ws" for i
    using ex [OF that] nz by (simp add: e)
  then have "r = ws" using r(2) by (simp add: nth_equalityI)
  with r(1) show ?thesis by simp
qed

lemma required_normalized_ok:
  "0 \<le> x \<Longrightarrow> x \<le> 100 \<Longrightarrow> required_normalized_percentage x = Inr x"
  by (simp add: required_normalized_percentage_def percentage_from_int_def MIN_VALUE_def MAX_VALUE_def)

lemma normalize_eq_distribute:
  assumes "ws \<noteq> []" "\<forall>w \<in> set ws. 0 \<le> w"
  shows "normalize_pane_percentages ws = distribute_pane_percentage_total ws 100"
proof -
  have v: "valid_weights ws 100" using assms by (simp add: valid_weights_def)
  obtain r where r: "distribute_pane_percentage_total ws 100 = Inr r"
    using pct.shares [OF v] by blast
  have "map_result required_normalized_percentage r = Inr (map (\<lambda>x. x) r)"
    using pct.share_within [OF v r] by (intro map_result_Inr) (auto intro: required_normalized_ok)
  with r show ?thesis by (simp add: normalize_pane_percentages_def MAX_VALUE_def)
qed

lemma normalize_laws:
  assumes "ws \<noteq> []" "\<forall>w \<in> set ws. 0 \<le> w"
  obtains r where "normalize_pane_percentages ws = Inr r" "length r = length ws"
    "sum_list r = 100" "\<And>x. x \<in> set r \<Longrightarrow> 0 \<le> x \<and> x \<le> 100"
proof -
  have v: "valid_weights ws 100" using assms by (simp add: valid_weights_def)
  obtain r where r: "distribute_pane_percentage_total ws 100 = Inr r" "length r = length ws"
    "sum_list r = 100"
    using pct.shares [OF v] by blast
  show ?thesis
    using pct.share_within [OF v r(1)] r normalize_eq_distribute [OF assms] by (intro that) auto
qed

lemma normalize_identity:
  assumes "\<forall>w \<in> set ws. 0 \<le> w" "sum_list ws = 100"
  shows "normalize_pane_percentages ws = Inr ws"
proof -
  from assms(2) have ne: "ws \<noteq> []" by auto
  then show ?thesis
    using distribute_identity [of ws] normalize_eq_distribute [OF ne assms(1)] assms
    by (simp add: valid_weights_def)
qed

lemma equal_laws:
  assumes "0 < n"
  defines "share \<equiv> \<lambda>i. 100 div int n + (if int i < 100 mod int n then 1 else 0)"
  shows "equal_pane_percentages (int n) = Inr (map share [0..<n])"
    and "sum_list (map share [0..<n]) = 100"
    and "\<And>i. 0 \<le> share i \<and> share i \<le> 100"
proof -
  have b: "100 div int n + (if int i < 100 mod int n then 1 else 0) \<le> 100" for i
  proof (cases "n = 1")
    case False
    then have "100 div int n \<le> 100 div 2" using assms(1) by (intro zdiv_mono2) auto
    then show ?thesis by simp
  qed simp
  show bounds: "\<And>i. 0 \<le> share i \<and> share i \<le> 100"
    using b assms(1) by (auto simp: share_def pos_imp_zdiv_nonneg_iff)
  let ?g = "\<lambda>index. 100 div int n + (if index < 100 mod int n then 1 else 0)"
  have g: "?g (int i) = share i" for i by (simp add: share_def)
  have "map_result (\<lambda>index. required_normalized_percentage (?g index)) (map int [0..<n])
      = Inr (map ?g (map int [0..<n]))"
  proof (rule map_result_Inr)
    fix x assume "x \<in> set (map int [0..<n])"
    then obtain i where x: "x = int i" by auto
    show "required_normalized_percentage (?g x) = Inr (?g x)"
      unfolding x g using bounds [of i] by (intro required_normalized_ok) auto
  qed
  also have "map ?g (map int [0..<n]) = map share [0..<n]" by (simp add: g comp_def)
  finally show "equal_pane_percentages (int n) = Inr (map share [0..<n])"
    using assms(1) by (simp add: equal_pane_percentages_def MAX_VALUE_def Let_def)
  have m: "nat (100 mod int n) \<le> n" using assms(1) by (simp add: nat_le_iff less_imp_le)
  have "sum_list (map share [0..<n])
     = (\<Sum>i\<leftarrow>[0..<n]. 100 div int n + (if i \<in> {..<nat (100 mod int n)} then 1 else 0))"
    by (rule arg_cong [where f = sum_list]) (auto simp: share_def)
  also have "\<dots> = (\<Sum>i\<leftarrow>[0..<n]. 100 div int n) + int (card {..<nat (100 mod int n)})"
    by (rule sum_list_indicator) (use m in auto)
  also have "\<dots> = int n * (100 div int n) + 100 mod int n" using assms(1) by (simp add: sum_list_triv)
  finally show "sum_list (map share [0..<n]) = 100" by simp
qed

lemma distribution_follows_quotas:
  assumes "valid_weights ws amount"
  shows "\<exists>r. distribute_pane_percentage_total ws amount = Inr r \<and> length r = length ws
    \<and> sum_list r = amount
    \<and> (\<forall>i < length ws.
         (let exact = effective_weights ws ! i * amount; whole = sum_list (effective_weights ws)
          in 0 \<le> r ! i \<and> r ! i \<le> amount \<and> r ! i - exact div whole \<in> {0, 1}
             \<and> (exact mod whole = 0 \<longrightarrow> r ! i = exact div whole)))"
proof -
  obtain r where r: "distribute_pane_percentage_total ws amount = Inr r" "length r = length ws"
    "sum_list r = amount"
    and q: "\<And>i. i < length ws \<Longrightarrow>
       r ! i = effective_weights ws ! i * amount div sum_list (effective_weights ws)
       \<or> r ! i = effective_weights ws ! i * amount div sum_list (effective_weights ws) + 1"
      "\<And>i. i < length ws \<Longrightarrow>
       effective_weights ws ! i * amount mod sum_list (effective_weights ws) = 0 \<Longrightarrow>
       r ! i = effective_weights ws ! i * amount div sum_list (effective_weights ws)"
    by (rule distribute_laws [OF assms]) (rule that; assumption)
  have "0 \<le> r ! i \<and> r ! i \<le> amount" if "i < length ws" for i
    using pct.share_within [OF assms r(1)] that r(2) by (metis nth_mem)
  then show ?thesis using r q by (fastforce simp: Let_def)
qed

lemma distribution_follows_quotas_witness:
  "\<exists>r. distribute_pane_percentage_total [1, 1, 1] 100 = Inr r \<and> sum_list r = 100"
  using distribution_follows_quotas [of "[1, 1, 1]" 100] by (auto simp: valid_weights_def)

lemma distribution_rejects_invalid:
  "(\<exists>m. distribute_pane_percentage_total ws amount = Inl (Invalid_argument m)) = (\<not> valid_weights ws amount)"
proof (cases "valid_weights ws amount")
  case True
  then show ?thesis using pct.shares [OF True] by fastforce
next
  case False
  then show ?thesis
    by (auto simp: distribute_pane_percentage_total_def validate_weights_def valid_weights_def
        throw_if_def MIN_VALUE_def MAX_VALUE_def)
qed

lemma normalization_is_a_projection:
  assumes "ws \<noteq> []" "\<forall>w \<in> set ws. 0 \<le> w"
  shows "\<exists>r. normalize_pane_percentages ws = Inr r \<and> length r = length ws \<and> sum_list r = 100
    \<and> (\<forall>x \<in> set r. 0 \<le> x \<and> x \<le> 100) \<and> normalize_pane_percentages r = Inr r"
proof -
  obtain r where r: "normalize_pane_percentages ws = Inr r" "length r = length ws"
    "sum_list r = 100" "\<And>x. x \<in> set r \<Longrightarrow> 0 \<le> x \<and> x \<le> 100"
    by (rule normalize_laws [OF assms]) (rule that; assumption)
  have "normalize_pane_percentages r = Inr r"
    by (rule normalize_identity) (use r in auto)
  with r show ?thesis by blast
qed

lemma normalization_is_a_projection_witness:
  "\<exists>r. normalize_pane_percentages [2, 0, 5] = Inr r \<and> sum_list r = 100"
  using normalization_is_a_projection [of "[2, 0, 5]"] by auto

lemma equal_percentages_even:
  assumes "0 < n"
  shows "\<exists>r. equal_pane_percentages (int n) = Inr r \<and> length r = n \<and> sum_list r = 100
    \<and> (\<forall>x \<in> set r. x = 100 div int n \<or> x = 100 div int n + 1) \<and> sorted (rev r)"
proof -
  let ?share = "\<lambda>i. 100 div int n + (if int i < 100 mod int n then 1 else 0)"
  have "sorted (rev (map ?share [0..<n]))"
    by (auto simp: sorted_iff_nth_mono_less rev_nth)
  then show ?thesis using equal_laws(1,2) [OF assms] by auto
qed

lemma equal_percentages_even_witness: "\<exists>r. equal_pane_percentages 3 = Inr r \<and> sum_list r = 100"
  using equal_percentages_even [of 3] by auto

end
