(* ===== verification/Pane_Layout.thy ===== *)
theory Pane_Layout
  imports Pane_Percentage
begin

text \<open>
  The pane layout of a tray (src/src/parent/pane/pane_id.h, pane_node_id.h,
  pane_split_axis.h, pane_layout.h and pane_layout.cc): a map from node identifiers to nodes,
  each with its parent and either a pane (a leaf) or a split with an axis and weighted
  children, a root, and the next free identifier. Every operation of \<open>PaneLayout\<close> is
  translated statement by statement; an exception is a value \<open>Inl e\<close>, and a mutated layout
  is returned with the result.

  Identifiers are \<open>uint64_t\<close> values that the code never increments past their maximum
  (\<open>allocate_node_id\<close> throws instead), so they are natural numbers. The two recursions over
  the node graph (\<open>append_leaf_nodes\<close>, \<open>toggle_split_axes\<close>) take a depth bound; their
  callers give them one more than the number of nodes, which is enough for every tree
  (theory \<open>Pane_Tree\<close>).
\<close>

section \<open>Data\<close>

type_synonym pane_id = nat
type_synonym node_id = nat

definition UINT64_MAX :: int where "UINT64_MAX = 18446744073709551615"

definition pane_id_from_value :: "nat \<Rightarrow> pane_id option" where
  "pane_id_from_value value = (if value = 0 then None else Some value)"

definition node_id_from_value :: "nat \<Rightarrow> node_id option" where
  "node_id_from_value value = (if value = 0 then None else Some value)"

datatype pane_split_axis = LEFT_TO_RIGHT | TOP_TO_BOTTOM

datatype pane_insertion = BEFORE | AFTER

record pane_split_child =
  sc_node :: node_id
  sc_pct :: int

record pane_split =
  sp_axis :: pane_split_axis
  sp_children :: "pane_split_child list"

datatype node_contents = Pane_leaf pane_id | Pane_split pane_split

record pane_layout_node =
  nd_id :: node_id
  nd_parent :: "node_id option"
  nd_contents :: node_contents

record pane_layout =
  ly_root :: node_id
  ly_nodes :: "(node_id, pane_layout_node) smap"
  ly_next :: nat

section \<open>Helpers of the source file\<close>

definition required_node_id :: "nat \<Rightarrow> node_id result" where
  "required_node_id value =
     require (Logic_error ''pane node id cannot be zero'') (node_id_from_value value)"

definition required_percentage :: "int \<Rightarrow> int result" where
  "required_percentage value =
     require (Logic_error ''pane percentage is outside 0..100'') (percentage_from_int value)"

fun child_position :: "pane_split_child list \<Rightarrow> node_id \<Rightarrow> nat option" where
  "child_position [] child = None"
| "child_position (c # cs) child =
     (if sc_node c = child then Some 0 else map_option Suc (child_position cs child))"

definition child_index :: "pane_split \<Rightarrow> node_id \<Rightarrow> nat result" where
  "child_index split child =
     require (Logic_error ''pane split does not contain its child'')
       (child_position (sp_children split) child)"

definition other_axis :: "pane_split_axis \<Rightarrow> pane_split_axis" where
  "other_axis axis = (if axis = LEFT_TO_RIGHT then TOP_TO_BOTTOM else LEFT_TO_RIGHT)"

text \<open>Writing new percentages into a list of children, position by position.\<close>

definition with_percentages :: "pane_split_child list \<Rightarrow> int list \<Rightarrow> pane_split_child list" where
  "with_percentages children percentages =
     map (\<lambda>(c, p). c\<lparr>sc_pct := p\<rparr>) (zip children percentages)"

text \<open>The same, each percentage checked to be within 0..100 first.\<close>

definition with_required_percentages ::
  "pane_split_child list \<Rightarrow> int list \<Rightarrow> pane_split_child list result" where
  "with_required_percentages children percentages =
     map_result (\<lambda>(c, p). and_then (required_percentage p) (\<lambda>q. Inr (c\<lparr>sc_pct := q\<rparr>)))
       (zip children percentages)"

section \<open>Nodes\<close>

definition is_leaf :: "pane_layout_node \<Rightarrow> bool" where
  "is_leaf nd = (case nd_contents nd of Pane_leaf _ \<Rightarrow> True | Pane_split _ \<Rightarrow> False)"

definition node_pane_id :: "pane_layout_node \<Rightarrow> pane_id result" where
  "node_pane_id nd = (case nd_contents nd of
       Pane_leaf p \<Rightarrow> Inr p
     | Pane_split _ \<Rightarrow> Inl (Logic_error ''split pane node has no pane id''))"

definition node_split :: "pane_layout_node \<Rightarrow> pane_split result" where
  "node_split nd = (case nd_contents nd of
       Pane_leaf _ \<Rightarrow> Inl (Logic_error ''leaf pane node has no split'')
     | Pane_split s \<Rightarrow> Inr s)"

text \<open>
  \<open>nodes.at(id)\<close> with a write through the reference it returns: a new split, or a new parent.
\<close>

definition at_split :: "pane_layout \<Rightarrow> node_id \<Rightarrow> pane_split result" where
  "at_split L n = and_then (smap_at (ly_nodes L) n) node_split"

definition put_split :: "node_id \<Rightarrow> pane_split \<Rightarrow> pane_layout \<Rightarrow> pane_layout result" where
  "put_split n s L = and_then (smap_at (ly_nodes L) n) (\<lambda>nd.
     Inr (L\<lparr>ly_nodes := smap_put n (nd\<lparr>nd_contents := Pane_split s\<rparr>) (ly_nodes L)\<rparr>))"

definition set_parent :: "node_id option \<Rightarrow> node_id \<Rightarrow> pane_layout \<Rightarrow> pane_layout result" where
  "set_parent p n L = and_then (smap_at (ly_nodes L) n) (\<lambda>nd.
     Inr (L\<lparr>ly_nodes := smap_put n (nd\<lparr>nd_parent := p\<rparr>) (ly_nodes L)\<rparr>))"

definition emplace_node :: "pane_layout_node \<Rightarrow> pane_layout \<Rightarrow> pane_layout" where
  "emplace_node nd L = L\<lparr>ly_nodes := smap_emplace (nd_id nd) nd (ly_nodes L)\<rparr>"

definition erase_node :: "node_id \<Rightarrow> pane_layout \<Rightarrow> pane_layout" where
  "erase_node n L = L\<lparr>ly_nodes := smap_erase n (ly_nodes L)\<rparr>"

section \<open>Queries\<close>

definition single :: "pane_id \<Rightarrow> pane_layout" where
  "single pane =
     \<lparr>ly_root = 1,
      ly_nodes = smap_emplace 1 \<lparr>nd_id = 1, nd_parent = None, nd_contents = Pane_leaf pane\<rparr> [],
      ly_next = 2\<rparr>"

definition node :: "pane_layout \<Rightarrow> node_id \<Rightarrow> pane_layout_node result" where
  "node L n = require (Out_of_range ''pane layout node does not exist'') (smap_find (ly_nodes L) n)"

definition find_pane :: "pane_layout \<Rightarrow> pane_id \<Rightarrow> node_id option" where
  "find_pane L pane =
     map_option fst (find (\<lambda>(n, nd). nd_contents nd = Pane_leaf pane) (ly_nodes L))"

primrec append_leaf_nodes ::
  "pane_layout \<Rightarrow> nat \<Rightarrow> node_id \<Rightarrow> node_id list \<Rightarrow> node_id list result" where
  "append_leaf_nodes L 0 = (\<lambda>n out. Inl Out_of_fuel)"
| "append_leaf_nodes L (Suc depth) = (\<lambda>n out.
     and_then (node L n) (\<lambda>nd. case nd_contents nd of
       Pane_leaf _ \<Rightarrow> Inr (out @ [n])
     | Pane_split s \<Rightarrow>
         fold_result (\<lambda>c. append_leaf_nodes L depth (sc_node c)) (sp_children s) out))"

definition layout_depth_bound :: "pane_layout \<Rightarrow> nat" where
  "layout_depth_bound L = Suc (length (ly_nodes L))"

definition leaf_nodes :: "pane_layout \<Rightarrow> node_id list result" where
  "leaf_nodes L = append_leaf_nodes L (layout_depth_bound L) (ly_root L) []"

section \<open>Private operations\<close>

definition allocate_node_id :: "pane_layout \<Rightarrow> (node_id \<times> pane_layout) result" where
  "allocate_node_id L =
     throw_if (ly_next L = 0 \<or> int (ly_next L) = UINT64_MAX)
       (Overflow_error ''pane layout exhausted node ids'')
       (and_then (required_node_id (ly_next L)) (\<lambda>r. Inr (r, L\<lparr>ly_next := ly_next L + 1\<rparr>)))"

primrec toggle_split_axes_upto :: "nat \<Rightarrow> node_id \<Rightarrow> pane_layout \<Rightarrow> pane_layout result" where
  "toggle_split_axes_upto 0 = (\<lambda>n L. Inl Out_of_fuel)"
| "toggle_split_axes_upto (Suc depth) = (\<lambda>n L.
     and_then (smap_at (ly_nodes L) n) (\<lambda>nd. case nd_contents nd of
       Pane_leaf _ \<Rightarrow> Inr L
     | Pane_split s \<Rightarrow>
         and_then (put_split n (s\<lparr>sp_axis := other_axis (sp_axis s)\<rparr>) L)
           (fold_result (toggle_split_axes_upto depth) (map sc_node (sp_children s)))))"

definition toggle_split_axes :: "node_id \<Rightarrow> pane_layout \<Rightarrow> pane_layout result" where
  "toggle_split_axes n L = toggle_split_axes_upto (layout_depth_bound L) n L"

text \<open>The split of a node that is not a leaf and has the given axis.\<close>

definition matching_split :: "pane_layout_node \<Rightarrow> pane_split_axis \<Rightarrow> pane_split option" where
  "matching_split nd axis = (case nd_contents nd of
       Pane_leaf _ \<Rightarrow> None
     | Pane_split s \<Rightarrow> if sp_axis s = axis then Some s else None)"

definition dissolve_unary_split :: "node_id \<Rightarrow> pane_layout \<Rightarrow> pane_layout result" where
  "dissolve_unary_split split_node L =
     and_then (node L split_node) (\<lambda>unary_node.
     and_then (node_split unary_node) (\<lambda>unary_split.
     throw_if (length (sp_children unary_split) \<noteq> 1)
       (Logic_error ''only a unary pane split can be dissolved'')
     (let child_id = sc_node (hd (sp_children unary_split)) in
     case nd_parent unary_node of
       None \<Rightarrow>
         and_then (set_parent None child_id (L\<lparr>ly_root := child_id\<rparr>)) (\<lambda>L1.
         Inr (erase_node split_node L1))
     | Some grandparent_id \<Rightarrow>
         and_then (at_split L grandparent_id) (\<lambda>grandparent_split.
         and_then (child_index grandparent_split split_node) (\<lambda>inherited_index.
         and_then (node L child_id) (\<lambda>child_nd.
         case matching_split child_nd (sp_axis grandparent_split) of
           Some promoted_split \<Rightarrow>
             (let inherited_percentage = sc_pct (sp_children grandparent_split ! inherited_index);
                  promoted_weights = map sc_pct (sp_children promoted_split) in
             and_then (distribute_pane_percentage_total promoted_weights inherited_percentage)
               (\<lambda>inherited_percentages.
             and_then (with_required_percentages (sp_children promoted_split) inherited_percentages)
               (\<lambda>promoted_children.
             and_then (put_split grandparent_id
                 (grandparent_split\<lparr>sp_children :=
                    take inherited_index (sp_children grandparent_split) @ promoted_children
                    @ drop (Suc inherited_index) (sp_children grandparent_split)\<rparr>) L) (\<lambda>L1.
             and_then (fold_result (set_parent (Some grandparent_id))
                 (map sc_node (sp_children promoted_split)) L1) (\<lambda>L2.
             Inr (erase_node split_node (erase_node child_id L2)))))))
         | None \<Rightarrow>
             and_then (put_split grandparent_id
                 (grandparent_split\<lparr>sp_children := (sp_children grandparent_split)
                    [inherited_index := (sp_children grandparent_split ! inherited_index)
                       \<lparr>sc_node := child_id\<rparr>]\<rparr>) L) (\<lambda>L1.
             and_then (set_parent (Some grandparent_id) child_id L1) (\<lambda>L2.
             Inr (erase_node split_node L2)))))))))"

text \<open>
  One round of the loop of \<open>flatten_matching_split_children\<close>: the children collected so far
  and the split nodes whose children have been promoted.
\<close>

definition flatten_child :: "pane_layout \<Rightarrow> pane_split_axis \<Rightarrow> pane_split_child \<Rightarrow>
    pane_split_child list \<times> node_id list \<Rightarrow> (pane_split_child list \<times> node_id list) result" where
  "flatten_child L axis split_child = (\<lambda>(children, flattened).
     and_then (node L (sc_node split_child)) (\<lambda>child.
     case matching_split child axis of
       None \<Rightarrow> Inr (children @ [split_child], flattened)
     | Some child_split \<Rightarrow>
         and_then (distribute_pane_percentage_total
             (map sc_pct (sp_children child_split)) (sc_pct split_child)) (\<lambda>distributed.
         and_then (with_required_percentages (sp_children child_split) distributed) (\<lambda>promoted.
         Inr (children @ promoted, flattened @ [sc_node split_child])))))"

definition flatten_matching_split_children :: "node_id \<Rightarrow> pane_layout \<Rightarrow> pane_layout result" where
  "flatten_matching_split_children split_node L =
     and_then (at_split L split_node) (\<lambda>split.
     and_then (fold_result (flatten_child L (sp_axis split)) (sp_children split) ([], []))
       (\<lambda>(children, flattened).
     and_then (put_split split_node (split\<lparr>sp_children := children\<rparr>) L) (\<lambda>L1.
     and_then (fold_result (set_parent (Some split_node)) (map sc_node children) L1) (\<lambda>L2.
     Inr (fold erase_node flattened L2)))))"

section \<open>Public mutations\<close>

definition split_leaf :: "node_id \<Rightarrow> pane_split_axis \<Rightarrow> pane_id \<Rightarrow> pane_insertion \<Rightarrow> pane_layout \<Rightarrow>
    (node_id \<times> pane_layout) result" where
  "split_leaf target axis new_pane insertion L =
     and_then (smap_at (ly_nodes L) target) (\<lambda>target_node.
     throw_if (\<not> is_leaf target_node) (Invalid_argument ''only leaf pane nodes can be split'')
     (throw_if (find_pane L new_pane \<noteq> None)
        (Invalid_argument ''pane id already exists in layout'')
     (and_then (allocate_node_id L) (\<lambda>(new_leaf_id, L1).
     and_then (case nd_parent target_node of
         None \<Rightarrow> Inr None
       | Some p \<Rightarrow> and_then (node L1 p) (\<lambda>pn. and_then (node_split pn) (\<lambda>ps.
           Inr (if sp_axis ps = axis then Some (p, ps) else None)))) (\<lambda>same_axis_parent.
     case same_axis_parent of
       Some (p, parent_split) \<Rightarrow>
         and_then (child_index parent_split target) (\<lambda>target_index.
         (let target_percentage = sc_pct (sp_children parent_split ! target_index);
              first_percentage = (target_percentage + 1) div 2;
              second_percentage = target_percentage div 2;
              new_index = (if insertion = BEFORE then target_index else target_index + 1) in
         and_then (required_percentage
             (if insertion = BEFORE then second_percentage else first_percentage)) (\<lambda>target_pct.
         and_then (required_percentage
             (if insertion = BEFORE then first_percentage else second_percentage)) (\<lambda>new_pct.
         (let shrunk = (sp_children parent_split)[target_index :=
                (sp_children parent_split ! target_index)\<lparr>sc_pct := target_pct\<rparr>];
              children = take new_index shrunk
                @ [\<lparr>sc_node = new_leaf_id, sc_pct = new_pct\<rparr>] @ drop new_index shrunk in
         and_then (put_split p (parent_split\<lparr>sp_children := children\<rparr>) L1) (\<lambda>L2.
         Inr (new_leaf_id,
              emplace_node \<lparr>nd_id = new_leaf_id, nd_parent = Some p,
                            nd_contents = Pane_leaf new_pane\<rparr> L2)))))))
     | None \<Rightarrow>
         and_then (allocate_node_id L1) (\<lambda>(split_id, L2).
         and_then (required_percentage 50) (\<lambda>half.
         (let new_child = \<lparr>sc_node = new_leaf_id, sc_pct = half\<rparr>;
              target_child = \<lparr>sc_node = target, sc_pct = half\<rparr>;
              split = \<lparr>sp_axis = axis, sp_children =
                (if insertion = BEFORE then [new_child, target_child]
                 else [target_child, new_child])\<rparr> in
         and_then (case nd_parent target_node of
             None \<Rightarrow> Inr (L2\<lparr>ly_root := split_id\<rparr>)
           | Some p \<Rightarrow>
               and_then (at_split L2 p) (\<lambda>parent_split.
               and_then (child_index parent_split target) (\<lambda>i.
               put_split p (parent_split\<lparr>sp_children := (sp_children parent_split)
                 [i := (sp_children parent_split ! i)\<lparr>sc_node := split_id\<rparr>]\<rparr>) L2))) (\<lambda>L3.
         and_then (set_parent (Some split_id) target L3) (\<lambda>L4.
         Inr (new_leaf_id,
              emplace_node \<lparr>nd_id = split_id, nd_parent = nd_parent target_node,
                            nd_contents = Pane_split split\<rparr>
                (emplace_node \<lparr>nd_id = new_leaf_id, nd_parent = Some split_id,
                               nd_contents = Pane_leaf new_pane\<rparr> L4))))))))))))"

fun position_of :: "'a \<Rightarrow> 'a list \<Rightarrow> nat option" where
  "position_of x [] = None"
| "position_of x (y # ys) = (if x = y then Some 0 else map_option Suc (position_of x ys))"

definition remove_leaf :: "node_id \<Rightarrow> pane_layout \<Rightarrow> (node_id option \<times> pane_layout) result" where
  "remove_leaf target L =
     and_then (node L target) (\<lambda>target_node.
     throw_if (\<not> is_leaf target_node) (Invalid_argument ''only leaf pane nodes can be removed'')
     (and_then (leaf_nodes L) (\<lambda>leaves.
     if length leaves = 1 then Inr (None, L)
     else
       and_then (require (Logic_error ''pane leaf is not reachable from the layout root'')
           (position_of target leaves)) (\<lambda>target_leaf_index.
       (let next_focus = (if target_leaf_index + 1 < length leaves
              then leaves ! (target_leaf_index + 1) else leaves ! (target_leaf_index - 1)) in
       and_then (require (Logic_error ''multi-pane layout leaf has no parent'')
           (nd_parent target_node)) (\<lambda>parent.
       and_then (at_split L parent) (\<lambda>parent_split.
       and_then (child_index parent_split target) (\<lambda>i.
       (let remaining = take i (sp_children parent_split) @ drop (Suc i) (sp_children parent_split) in
       and_then (normalize_pane_percentages (map sc_pct remaining)) (\<lambda>normalized.
       (let children = with_percentages remaining normalized in
       and_then (put_split parent (parent_split\<lparr>sp_children := children\<rparr>) L) (\<lambda>L1.
       (let L2 = erase_node target L1 in
       and_then (if length children = 1 then dissolve_unary_split parent L2 else Inr L2) (\<lambda>L3.
       Inr (Some next_focus, L3)))))))))))))))"

definition rotate_split :: "node_id \<Rightarrow> pane_layout \<Rightarrow> (bool \<times> pane_layout) result" where
  "rotate_split split_node L =
     and_then (node L split_node) (\<lambda>nd.
     if is_leaf nd then Inr (False, L)
     else
       and_then (toggle_split_axes split_node L) (\<lambda>L1.
       case nd_parent nd of
         None \<Rightarrow> Inr (True, L1)
       | Some parent \<Rightarrow>
           and_then (node L1 parent) (\<lambda>pn.
           and_then (node_split pn) (\<lambda>ps.
           and_then (node L1 split_node) (\<lambda>sn.
           and_then (node_split sn) (\<lambda>ss.
           if sp_axis ps = sp_axis ss then
             and_then (flatten_matching_split_children parent L1) (\<lambda>L2. Inr (True, L2))
           else Inr (True, L1)))))))"

definition rotate_sibling_range :: "node_id list \<Rightarrow> pane_layout \<Rightarrow> (node_id \<times> pane_layout) result" where
  "rotate_sibling_range siblings L =
     throw_if (length siblings < 2)
       (Invalid_argument ''pane rotation range requires at least two siblings'')
     (and_then (node L (hd siblings)) (\<lambda>first_node.
     and_then (require (Invalid_argument ''pane rotation range must have a parent'')
         (nd_parent first_node)) (\<lambda>parent.
     and_then (at_split L parent) (\<lambda>parent_split.
     and_then (child_index parent_split (hd siblings)) (\<lambda>first_index.
     throw_if (first_index + length siblings > length (sp_children parent_split))
       (Invalid_argument ''pane rotation range must be contiguous siblings'')
     (throw_if (\<exists>offset < length siblings.
          sc_node (sp_children parent_split ! (first_index + offset)) \<noteq> siblings ! offset)
       (Invalid_argument ''pane rotation range must be contiguous siblings'')
     (throw_if (length siblings = length (sp_children parent_split))
       (Invalid_argument ''complete pane rotation levels must rotate their parent split'')
     (let selected_weights =
            map (\<lambda>offset. sc_pct (sp_children parent_split ! (first_index + offset)))
              [0..<length siblings];
          selected_share = sum_list selected_weights in
     and_then (normalize_pane_percentages selected_weights) (\<lambda>selected_percentages.
     (let selected_children =
            map (\<lambda>(s, p). \<lparr>sc_node = s, sc_pct = p\<rparr>) (zip siblings selected_percentages) in
     and_then (allocate_node_id L) (\<lambda>(group_id, L1).
     (let group = \<lparr>sp_axis = other_axis (sp_axis parent_split), sp_children = selected_children\<rparr> in
     and_then (required_percentage selected_share) (\<lambda>share.
     and_then (put_split parent (parent_split\<lparr>sp_children :=
         take first_index (sp_children parent_split)
         @ [\<lparr>sc_node = group_id, sc_pct = share\<rparr>]
         @ drop (first_index + length siblings) (sp_children parent_split)\<rparr>) L1) (\<lambda>L2.
     and_then (fold_result
         (\<lambda>sibling L'. and_then (set_parent (Some group_id) sibling L') (toggle_split_axes sibling))
         siblings L2) (\<lambda>L3.
     Inr (group_id, emplace_node \<lparr>nd_id = group_id, nd_parent = Some parent,
                                   nd_contents = Pane_split group\<rparr> L3))))))))))))))))"

definition set_split_percentages :: "node_id \<Rightarrow> int list \<Rightarrow> pane_layout \<Rightarrow> pane_layout result" where
  "set_split_percentages split_node weights L =
     and_then (at_split L split_node) (\<lambda>split.
     throw_if (length weights \<noteq> length (sp_children split))
       (Invalid_argument ''pane percentage count must match split child count'')
     (and_then (normalize_pane_percentages weights) (\<lambda>percentages.
     put_split split_node
       (split\<lparr>sp_children := with_percentages (sp_children split) percentages\<rparr>) L)))"

end
