(* ===== verification/Pane_Tree.thy ===== *)
theory Pane_Tree
  imports Pane_Layout
begin

text \<open>
  The abstract specification of the pane layout: an ordered tree of panes, independent of the
  node map. A leaf carries its node and pane identifiers, a split its node identifier, its axis
  and its weighted subtrees. \<open>represents L t\<close> relates a layout of the code to the tree it
  stores; a one-hole context (a list of frames, innermost first) names a place in a tree, and
  the \<open>plug\<close> lemmas split every predicate on a tree into its part outside and inside that
  place. \<open>well_formed\<close> is what every operation must keep, \<open>alternates\<close> the documented
  normal form (no split directly contains a split of its own axis).
\<close>

named_theorems tree_simps \<open>decomposition of tree predicates over contexts\<close>

section \<open>Trees\<close>

datatype ptree =
    TLeaf node_id pane_id
  | TSplit node_id pane_split_axis "(ptree \<times> int) list"

lemma kid_size [termination_simp]:
  "k \<in> set ks \<Longrightarrow> size (fst k) < Suc (size_list (size_prod size (\<lambda>_. 0)) ks)"
  by (induction ks) auto

lemma ptree_induct [case_names TLeaf TSplit]:
  assumes "\<And>n p. P (TLeaf n p)"
    and "\<And>n ax ks. (\<And>k. k \<in> set ks \<Longrightarrow> P (fst k)) \<Longrightarrow> P (TSplit n ax ks)"
  shows "P t"
  by (induction t) (use assms in \<open>auto simp: fsts.simps\<close>)

fun tid :: "ptree \<Rightarrow> node_id" where
  "tid (TLeaf n p) = n"
| "tid (TSplit n ax ks) = n"

fun top_axis :: "ptree \<Rightarrow> pane_split_axis option" where
  "top_axis (TLeaf n p) = None"
| "top_axis (TSplit n ax ks) = Some ax"

fun tree_ids :: "ptree \<Rightarrow> node_id list" where
  "tree_ids (TLeaf n p) = [n]"
| "tree_ids (TSplit n ax ks) = n # concat (map (\<lambda>k. tree_ids (fst k)) ks)"

text \<open>The leaves in display order, with their panes.\<close>

fun tree_leaves :: "ptree \<Rightarrow> (node_id \<times> pane_id) list" where
  "tree_leaves (TLeaf n p) = [(n, p)]"
| "tree_leaves (TSplit n ax ks) = concat (map (\<lambda>k. tree_leaves (fst k)) ks)"

definition tree_panes :: "ptree \<Rightarrow> pane_id list" where
  "tree_panes t = map snd (tree_leaves t)"

fun tree_height :: "ptree \<Rightarrow> nat" where
  "tree_height (TLeaf n p) = 1"
| "tree_height (TSplit n ax ks) = Suc (Max (insert 0 (set (map (\<lambda>k. tree_height (fst k)) ks))))"

definition kids_ok :: "(ptree \<times> int) list \<Rightarrow> bool" where
  "kids_ok ks \<longleftrightarrow> sum_list (map snd ks) = 100 \<and> (\<forall>k \<in> set ks. 0 \<le> snd k)"

fun well_formed :: "ptree \<Rightarrow> bool" where
  "well_formed (TLeaf n p) = True"
| "well_formed (TSplit n ax ks) =
     (2 \<le> length ks \<and> kids_ok ks \<and> (\<forall>k \<in> set ks. well_formed (fst k)))"

fun alternates :: "ptree \<Rightarrow> bool" where
  "alternates (TLeaf n p) = True"
| "alternates (TSplit n ax ks) =
     (\<forall>k \<in> set ks. top_axis (fst k) \<noteq> Some ax \<and> alternates (fst k))"

lemma tid_in_ids [simp, intro]: "tid t \<in> set (tree_ids t)"
  by (cases t) auto

lemma leaf_ids: "fst ` set (tree_leaves t) \<subseteq> set (tree_ids t)"
  by (induction t rule: ptree_induct) force+

lemma tree_leaves_nonempty: "well_formed t \<Longrightarrow> tree_leaves t \<noteq> []"
proof (induction t rule: ptree_induct)
  case (TSplit n ax ks)
  then obtain k where k: "k \<in> set ks" by (cases ks) auto
  with TSplit have "tree_leaves (fst k) \<noteq> []" by simp
  with k show ?case by (simp only: tree_leaves.simps concat_eq_Nil_conv set_map) blast
qed simp

lemma height_kid: "k \<in> set ks \<Longrightarrow> tree_height (fst k) < tree_height (TSplit n ax ks)"
  by (simp add: less_Suc_eq_le)

lemma height_le_ids: "tree_height t \<le> length (tree_ids t)"
proof (induction t rule: ptree_induct)
  case (TSplit n ax ks)
  have "length (tree_ids (fst k)) \<le> length (concat (map (\<lambda>k. tree_ids (fst k)) ks))"
    if "k \<in> set ks" for k
    using that by (induction ks) auto
  with TSplit have "tree_height (fst k) \<le> length (concat (map (\<lambda>k. tree_ids (fst k)) ks))"
    if "k \<in> set ks" for k
    using that order_trans by blast
  then show ?case by auto
qed simp

section \<open>Contexts\<close>

datatype frame = Frame node_id pane_split_axis "(ptree \<times> int) list" int "(ptree \<times> int) list"

type_synonym ctx = "frame list"

fun plug :: "ctx \<Rightarrow> ptree \<Rightarrow> ptree" where
  "plug [] t = t"
| "plug (Frame n ax ls w rs # C) t = plug C (TSplit n ax (ls @ (t, w) # rs))"

fun ctx_parent :: "ctx \<Rightarrow> node_id option" where
  "ctx_parent [] = None"
| "ctx_parent (Frame n ax ls w rs # C) = Some n"

fun ctx_axis :: "ctx \<Rightarrow> pane_split_axis option" where
  "ctx_axis [] = None"
| "ctx_axis (Frame n ax ls w rs # C) = Some ax"

fun ids_before :: "ctx \<Rightarrow> node_id list" where
  "ids_before [] = []"
| "ids_before (Frame n ax ls w rs # C) = ids_before C @ n # concat (map (\<lambda>k. tree_ids (fst k)) ls)"

fun ids_after :: "ctx \<Rightarrow> node_id list" where
  "ids_after [] = []"
| "ids_after (Frame n ax ls w rs # C) = concat (map (\<lambda>k. tree_ids (fst k)) rs) @ ids_after C"

fun leaves_before :: "ctx \<Rightarrow> (node_id \<times> pane_id) list" where
  "leaves_before [] = []"
| "leaves_before (Frame n ax ls w rs # C) =
     leaves_before C @ concat (map (\<lambda>k. tree_leaves (fst k)) ls)"

fun leaves_after :: "ctx \<Rightarrow> (node_id \<times> pane_id) list" where
  "leaves_after [] = []"
| "leaves_after (Frame n ax ls w rs # C) =
     concat (map (\<lambda>k. tree_leaves (fst k)) rs) @ leaves_after C"

fun ctx_well_formed :: "ctx \<Rightarrow> bool" where
  "ctx_well_formed [] = True"
| "ctx_well_formed (Frame n ax ls w rs # C) =
     (ls @ rs \<noteq> [] \<and> 0 \<le> w \<and> w + sum_list (map snd (ls @ rs)) = 100
      \<and> (\<forall>k \<in> set (ls @ rs). 0 \<le> snd k \<and> well_formed (fst k)) \<and> ctx_well_formed C)"

text \<open>The context keeps the normal form around a tree whose own axis is \<open>a\<close>.\<close>

fun ctx_alternates :: "ctx \<Rightarrow> pane_split_axis option \<Rightarrow> bool" where
  "ctx_alternates [] a = True"
| "ctx_alternates (Frame n ax ls w rs # C) a =
     (a \<noteq> Some ax \<and> (\<forall>k \<in> set (ls @ rs). top_axis (fst k) \<noteq> Some ax \<and> alternates (fst k))
      \<and> ctx_alternates C (Some ax))"

lemma ids_plug [tree_simps]: "tree_ids (plug C t) = ids_before C @ tree_ids t @ ids_after C"
  by (induction C t rule: plug.induct) auto

lemma leaves_plug [tree_simps]:
  "tree_leaves (plug C t) = leaves_before C @ tree_leaves t @ leaves_after C"
  by (induction C t rule: plug.induct) auto

lemma well_formed_plug [tree_simps]:
  "well_formed (plug C t) \<longleftrightarrow> ctx_well_formed C \<and> well_formed t"
proof (induction C t rule: plug.induct)
  case (2 n ax ls w rs C t)
  have "2 \<le> length (ls @ (t, w) # rs) \<longleftrightarrow> ls @ rs \<noteq> []"
    by (cases ls; cases rs) auto
  with 2 show ?case by (auto simp: kids_ok_def)
qed simp

lemma alternates_plug [tree_simps]:
  "alternates (plug C t) \<longleftrightarrow> ctx_alternates C (top_axis t) \<and> alternates t"
  by (induction C t rule: plug.induct) auto

lemma ctx_alternates_leaf: "ctx_alternates C a \<Longrightarrow> ctx_alternates C None"
  by (cases "(C, a)" rule: ctx_alternates.cases) auto

lemma ctx_alternates_iff:
  "ctx_alternates C (Some a) \<longleftrightarrow> ctx_alternates C None \<and> ctx_axis C \<noteq> Some a"
  by (cases "(C, Some a)" rule: ctx_alternates.cases) auto

text \<open>Every node of a tree is the top of the subtree in exactly one context.\<close>

lemma node_context:
  "n \<in> set (tree_ids t) \<Longrightarrow> \<exists>C s. t = plug C s \<and> tid s = n"
proof (induction t rule: ptree_induct)
  case (TLeaf m p)
  then show ?case by (intro exI [of _ "[]"] exI [of _ "TLeaf m p"]) simp
next
  case (TSplit m ax ks)
  show ?case
  proof (cases "n = m")
    case True
    then show ?thesis by (intro exI [of _ "[]"] exI [of _ "TSplit m ax ks"]) simp
  next
    case False
    with TSplit.prems obtain k where k: "k \<in> set ks" "n \<in> set (tree_ids (fst k))" by auto
    from TSplit.IH [OF this] obtain C s where s: "fst k = plug C s" "tid s = n" by blast
    from k(1) obtain ls rs where ks: "ks = ls @ k # rs" by (auto dest: split_list)
    have "plug (C @ [Frame m ax ls (snd k) rs]) s = TSplit m ax (ls @ (plug C s, snd k) # rs)" for s
      by (induction C s rule: plug.induct) auto
    with ks s show ?thesis by (metis prod.collapse)
  qed
qed

lemma plug_append: "plug (C @ D) t = plug D (plug C t)"
  by (induction C t rule: plug.induct) auto

section \<open>The node map of a tree\<close>

abbreviation look :: "pane_layout \<Rightarrow> node_id \<Rightarrow> pane_layout_node option" where
  "look L \<equiv> smap_find (ly_nodes L)"

definition kid_entry :: "ptree \<times> int \<Rightarrow> pane_split_child" where
  "kid_entry k = \<lparr>sc_node = tid (fst k), sc_pct = snd k\<rparr>"

lemma kid_entry_fields [simp]: "sc_node (kid_entry k) = tid (fst k)" "sc_pct (kid_entry k) = snd k"
  by (simp_all add: kid_entry_def)

abbreviation split_node_of ::
  "node_id \<Rightarrow> node_id option \<Rightarrow> pane_split_axis \<Rightarrow> pane_split_child list \<Rightarrow> pane_layout_node" where
  "split_node_of n p ax cs \<equiv>
     \<lparr>nd_id = n, nd_parent = p, nd_contents = Pane_split \<lparr>sp_axis = ax, sp_children = cs\<rparr>\<rparr>"

abbreviation leaf_node_of :: "node_id \<Rightarrow> node_id option \<Rightarrow> pane_id \<Rightarrow> pane_layout_node" where
  "leaf_node_of n p q \<equiv> \<lparr>nd_id = n, nd_parent = p, nd_contents = Pane_leaf q\<rparr>"

fun stored :: "(node_id \<rightharpoonup> pane_layout_node) \<Rightarrow> node_id option \<Rightarrow> ptree \<Rightarrow> bool" where
  "stored M p (TLeaf n q) = (M n = Some (leaf_node_of n p q))"
| "stored M p (TSplit n ax ks) =
     (M n = Some (split_node_of n p ax (map kid_entry ks)) \<and> (\<forall>k \<in> set ks. stored M (Some n) (fst k)))"

fun ctx_stored :: "(node_id \<rightharpoonup> pane_layout_node) \<Rightarrow> ctx \<Rightarrow> node_id \<Rightarrow> bool" where
  "ctx_stored M [] h = True"
| "ctx_stored M (Frame n ax ls w rs # C) h =
     (M n = Some (split_node_of n (ctx_parent C) ax
        (map kid_entry ls @ \<lparr>sc_node = h, sc_pct = w\<rparr> # map kid_entry rs))
      \<and> (\<forall>k \<in> set (ls @ rs). stored M (Some n) (fst k)) \<and> ctx_stored M C n)"

lemma stored_plug [tree_simps]:
  "stored M None (plug C t) \<longleftrightarrow> ctx_stored M C (tid t) \<and> stored M (ctx_parent C) t"
  by (induction C t rule: plug.induct) (auto simp: kid_entry_def)

lemma stored_cong:
  "(\<And>n. n \<in> set (tree_ids t) \<Longrightarrow> M n = M' n) \<Longrightarrow> stored M p t = stored M' p t"
proof (induction t arbitrary: p rule: ptree_induct)
  case (TSplit n ax ks)
  have "stored M (Some n) (fst k) = stored M' (Some n) (fst k)" if "k \<in> set ks" for k
    by (rule TSplit.IH [OF that]) (use TSplit.prems that in force)
  moreover have "M n = M' n" by (rule TSplit.prems) simp
  ultimately show ?case by simp
qed simp

lemma stored_frame: "m \<notin> set (tree_ids t) \<Longrightarrow> stored (M(m := x)) p t = stored M p t"
  by (rule stored_cong) auto

lemma ctx_stored_cong:
  "(\<And>n. n \<in> set (ids_before C) \<union> set (ids_after C) \<Longrightarrow> M n = M' n) \<Longrightarrow>
   ctx_stored M C h = ctx_stored M' C h"
proof (induction C arbitrary: h)
  case (Cons f C)
  obtain n ax ls w rs where f: "f = Frame n ax ls w rs" by (cases f)
  have "stored M (Some n) (fst k) = stored M' (Some n) (fst k)" if "k \<in> set (ls @ rs)" for k
    by (rule stored_cong) (use Cons.prems f that in auto)
  moreover have "ctx_stored M C n = ctx_stored M' C n"
    by (rule Cons.IH) (use Cons.prems f in auto)
  ultimately show ?case using Cons.prems f by auto
qed simp

lemma ctx_stored_frame:
  "m \<notin> set (ids_before C) \<Longrightarrow> m \<notin> set (ids_after C) \<Longrightarrow>
   ctx_stored (M(m := x)) C h = ctx_stored M C h"
  by (rule ctx_stored_cong) auto

text \<open>Giving a stored tree another parent changes its top node only.\<close>

lemma stored_reparent:
  assumes "stored M p t" "distinct (tree_ids t)" "M (tid t) = Some nd"
  shows "stored (M(tid t \<mapsto> nd\<lparr>nd_parent := p'\<rparr>)) p' t"
proof (cases t)
  case (TLeaf n q)
  with assms show ?thesis by auto
next
  case (TSplit n ax ks)
  have "stored (M(n \<mapsto> x)) (Some n) (fst k) = stored M (Some n) (fst k)" if "k \<in> set ks" for k x
    by (rule stored_frame) (use assms(2) TSplit that in auto)
  with assms TSplit show ?thesis by auto
qed

lemma stored_parent: "stored M p t \<Longrightarrow> \<exists>nd. M (tid t) = Some nd \<and> nd_parent nd = p \<and> nd_id nd = tid t"
  by (cases t) auto

lemma stored_leaf_iff: "stored M p t \<Longrightarrow> M (tid t) = Some nd \<Longrightarrow> is_leaf nd \<longleftrightarrow> top_axis t = None"
  by (cases t) (auto simp: is_leaf_def)

text \<open>
  A layout represents a forest: the trees are stored in its map, and the map holds nothing
  else. It represents one tree when that tree's top is the root.
\<close>

definition represents_forest :: "pane_layout \<Rightarrow> ptree list \<Rightarrow> bool" where
  "represents_forest L ts \<longleftrightarrow>
     smap_ok (ly_nodes L) \<and> (\<forall>t \<in> set ts. stored (look L) None t)
     \<and> distinct (concat (map tree_ids ts)) \<and> dom (look L) = set (concat (map tree_ids ts))
     \<and> (\<forall>n \<in> set (concat (map tree_ids ts)). 0 < n \<and> n < ly_next L)
     \<and> 0 < ly_next L \<and> int (ly_next L) \<le> UINT64_MAX"

definition represents :: "pane_layout \<Rightarrow> ptree \<Rightarrow> bool" where
  "represents L t \<longleftrightarrow> represents_forest L [t] \<and> ly_root L = tid t"

end
