(* ===== verification/Pane_Represent.thy ===== *)
theory Pane_Represent
  imports Pane_Tree
begin

text \<open>
  Reading and writing a layout that represents a tree: what the elementary accesses of
  \<open>PaneLayout\<close> (\<open>nodes.at\<close>, \<open>set_parent\<close>, \<open>emplace\<close>, \<open>erase\<close>) return and change, that a
  node of the map is a node of the tree, and that the queries (\<open>leaf_nodes\<close>, \<open>find_pane\<close>) and
  the axis flip of a subtree compute the tree's functions within their depth bound.
\<close>

named_theorems layout_access \<open>elementary accesses to the node map\<close>

section \<open>Elementary accesses\<close>

definition write_node :: "node_id \<Rightarrow> pane_layout_node \<Rightarrow> pane_layout \<Rightarrow> pane_layout" where
  "write_node n nd L = L\<lparr>ly_nodes := smap_put n nd (ly_nodes L)\<rparr>"

lemma write_node_fields [simp]:
  "look (write_node n nd L) = (look L)(n \<mapsto> nd)"
  "ly_root (write_node n nd L) = ly_root L"
  "ly_next (write_node n nd L) = ly_next L"
  "smap_ok (ly_nodes L) \<Longrightarrow> smap_ok (ly_nodes (write_node n nd L))"
  by (simp_all add: write_node_def smap_find_put smap_ok_put)

lemma erase_node_fields [simp]:
  "look (erase_node n L) = (look L)(n := None)"
  "ly_root (erase_node n L) = ly_root L"
  "ly_next (erase_node n L) = ly_next L"
  "smap_ok (ly_nodes L) \<Longrightarrow> smap_ok (ly_nodes (erase_node n L))"
  by (simp_all add: erase_node_def smap_find_erase smap_ok_erase)

lemma node_Inr [layout_access]: "look L n = Some nd \<Longrightarrow> node L n = Inr nd"
  by (simp add: node_def)

lemma node_missing: "look L n = None \<Longrightarrow>
    node L n = Inl (Out_of_range ''pane layout node does not exist'')"
  by (simp add: node_def)

lemma node_Inr_iff [result_simps]: "node L n = Inr nd \<longleftrightarrow> look L n = Some nd"
  by (simp add: node_def result_simps)

lemma node_split_split [layout_access]: "node_split (split_node_of n p ax cs) = Inr \<lparr>sp_axis = ax, sp_children = cs\<rparr>"
  by (simp add: node_split_def)

lemma at_split_split [layout_access]:
  "look L n = Some (split_node_of n p ax cs) \<Longrightarrow>
   at_split L n = Inr \<lparr>sp_axis = ax, sp_children = cs\<rparr>"
  by (simp add: at_split_def node_split_def)

lemma put_split_eq [layout_access]:
  "look L n = Some nd \<Longrightarrow> put_split n s L = Inr (write_node n (nd\<lparr>nd_contents := Pane_split s\<rparr>) L)"
  by (simp add: put_split_def write_node_def)

lemma set_parent_eq [layout_access]:
  "look L n = Some nd \<Longrightarrow> set_parent p n L = Inr (write_node n (nd\<lparr>nd_parent := p\<rparr>) L)"
  by (simp add: set_parent_def write_node_def)

lemma emplace_node_eq [layout_access]:
  "look L (nd_id nd) = None \<Longrightarrow> emplace_node nd L = write_node (nd_id nd) nd L"
  by (simp add: emplace_node_def write_node_def smap_emplace_def)

lemma is_leaf_simps [simp]:
  "is_leaf (leaf_node_of n p q)" "\<not> is_leaf (split_node_of n p ax cs)"
  by (simp_all add: is_leaf_def)

lemma matching_split_simps [layout_access]:
  "matching_split (leaf_node_of n p q) ax = None"
  "matching_split (split_node_of n p ax' cs) ax
     = (if ax' = ax then Some \<lparr>sp_axis = ax', sp_children = cs\<rparr> else None)"
  by (simp_all add: matching_split_def)

lemma child_position_append [simp]:
  "n \<notin> sc_node ` set cs \<Longrightarrow>
   child_position (cs @ \<lparr>sc_node = n, sc_pct = w\<rparr> # ds) n = Some (length cs)"
  by (induction cs) auto

lemma required_percentage_ok [layout_access]:
  "0 \<le> x \<Longrightarrow> x \<le> 100 \<Longrightarrow> required_percentage x = Inr x"
  by (simp add: required_percentage_def percentage_from_int_def MIN_VALUE_def MAX_VALUE_def)

lemma other_axis_simps [simp]:
  "other_axis LEFT_TO_RIGHT = TOP_TO_BOTTOM" "other_axis TOP_TO_BOTTOM = LEFT_TO_RIGHT"
  "other_axis ax \<noteq> ax" "ax \<noteq> other_axis ax" "other_axis (other_axis ax) = ax"
  by (cases ax; simp add: other_axis_def)+

lemma axis_cases2: "ax \<noteq> ax' \<Longrightarrow> ax' = other_axis ax"
  by (cases ax; cases ax') auto

text \<open>Reparenting the children of a split, one after the other.\<close>

lemma set_parents_eq:
  assumes "\<And>n. n \<in> set ns \<Longrightarrow> look L n \<noteq> None"
  obtains L' where "fold_result (set_parent p) ns L = Inr L'"
    "look L' = (\<lambda>n. if n \<in> set ns then map_option (\<lambda>nd. nd\<lparr>nd_parent := p\<rparr>) (look L n) else look L n)"
    "ly_root L' = ly_root L" "ly_next L' = ly_next L"
    "smap_ok (ly_nodes L) \<longrightarrow> smap_ok (ly_nodes L')"
proof -
  have "\<exists>L'. fold_result (set_parent p) ns L = Inr L'
      \<and> look L' = (\<lambda>n. if n \<in> set ns then map_option (\<lambda>nd. nd\<lparr>nd_parent := p\<rparr>) (look L n) else look L n)
      \<and> ly_root L' = ly_root L \<and> ly_next L' = ly_next L
      \<and> (smap_ok (ly_nodes L) \<longrightarrow> smap_ok (ly_nodes L'))"
    using assms
  proof (induction ns arbitrary: L)
    case (Cons n ns)
    then obtain nd where nd: "look L n = Some nd" by fastforce
    let ?L = "write_node n (nd\<lparr>nd_parent := p\<rparr>) L"
    have "look ?L m \<noteq> None" if "m \<in> set ns" for m using Cons.prems [of m] that by simp
    from Cons.IH [OF this] obtain L' where L': "fold_result (set_parent p) ns ?L = Inr L'"
      "look L' = (\<lambda>m. if m \<in> set ns then map_option (\<lambda>nd. nd\<lparr>nd_parent := p\<rparr>) (look ?L m) else look ?L m)"
      "ly_root L' = ly_root L" "ly_next L' = ly_next L"
      "smap_ok (ly_nodes ?L) \<longrightarrow> smap_ok (ly_nodes L')" by auto
    show ?case
      by (rule exI [of _ L'])
        (use L' nd write_node_fields(4) in \<open>auto simp: set_parent_eq fun_eq_iff\<close>)
  qed simp
  then show ?thesis using that by blast
qed

lemma fold_erase_fields:
  "look (fold erase_node ns L) = (\<lambda>n. if n \<in> set ns then None else look L n)"
  "ly_root (fold erase_node ns L) = ly_root L"
  "ly_next (fold erase_node ns L) = ly_next L"
  "smap_ok (ly_nodes L) \<Longrightarrow> smap_ok (ly_nodes (fold erase_node ns L))"
  by (induction ns arbitrary: L) (auto simp: fun_eq_iff)

section \<open>Nodes of the map are nodes of the tree\<close>

lemma representsD:
  assumes "represents L t"
  shows "stored (look L) None t" "distinct (tree_ids t)" "dom (look L) = set (tree_ids t)"
    "ly_root L = tid t" "smap_ok (ly_nodes L)" "\<And>n. n \<in> set (tree_ids t) \<Longrightarrow> 0 < n \<and> n < ly_next L"
    "0 < ly_next L" "int (ly_next L) \<le> UINT64_MAX"
  using assms by (auto simp: represents_def represents_forest_def)

lemma representsI:
  assumes "stored (look L) None t" "distinct (tree_ids t)" "dom (look L) = set (tree_ids t)"
    "ly_root L = tid t" "smap_ok (ly_nodes L)" "\<And>n. n \<in> set (tree_ids t) \<Longrightarrow> 0 < n \<and> n < ly_next L"
    "0 < ly_next L" "int (ly_next L) \<le> UINT64_MAX"
  shows "represents L t"
  using assms by (auto simp: represents_def represents_forest_def)

lemma look_context:
  assumes "represents L t" "look L n = Some nd"
  obtains C s where "t = plug C s" "tid s = n" "stored (look L) (ctx_parent C) s"
    "ctx_stored (look L) C n" "nd_parent nd = ctx_parent C"
proof -
  from assms have "n \<in> set (tree_ids t)" using representsD(3) by blast
  from node_context [OF this] obtain C s where s: "t = plug C s" "tid s = n" by blast
  with representsD(1) [OF assms(1)] have st: "ctx_stored (look L) C n" "stored (look L) (ctx_parent C) s"
    by (auto simp: tree_simps)
  from stored_parent [OF st(2)] s assms(2) have "nd_parent nd = ctx_parent C" by auto
  with s st that show ?thesis by blast
qed


lemma nodes_count:
  assumes "represents L t"
  shows "length (ly_nodes L) = length (tree_ids t)"
proof -
  have "distinct (map fst (ly_nodes L))" using representsD(5) [OF assms] by (rule smap_ok_distinct)
  then have "length (ly_nodes L) = card (dom (look L))"
    by (metis distinct_card dom_map_of_conv_image_fst length_map set_map smap_find_def ext)
  then show ?thesis using representsD(2,3) [OF assms] by (simp add: distinct_card)
qed

lemma depth_bound:
  assumes "represents L (plug C s)"
  shows "tree_height s < layout_depth_bound L"
proof -
  have "tree_height s \<le> length (tree_ids s)" by (rule height_le_ids)
  also have "\<dots> \<le> length (ly_nodes L)" using nodes_count [OF assms] by (simp add: tree_simps)
  finally show ?thesis by (simp add: layout_depth_bound_def)
qed

section \<open>Queries\<close>

lemma append_leaf_nodes_eq:
  assumes "stored (look L) p s" "tree_height s \<le> d"
  shows "append_leaf_nodes L d (tid s) out = Inr (out @ map fst (tree_leaves s))"
  using assms
proof (induction s arbitrary: p d out rule: ptree_induct)
  case (TLeaf n q)
  then show ?case by (cases d) (auto simp: layout_access)
next
  case (TSplit n ax ks)
  then obtain d' where d: "d = Suc d'" by (cases d) auto
  have kid: "append_leaf_nodes L d' (tid (fst k)) out = Inr (out @ map fst (tree_leaves (fst k)))"
    if "k \<in> set ks" for k out
    using height_kid [OF that, of n ax] TSplit.prems d that by (intro TSplit.IH [OF that]) auto
  have "fold_result (\<lambda>c. append_leaf_nodes L d' (sc_node c)) (map kid_entry ks') out
      = Inr (out @ map fst (concat (map (\<lambda>k. tree_leaves (fst k)) ks')))"
    if "set ks' \<subseteq> set ks" for ks' out
    using that by (induction ks' arbitrary: out) (auto simp: kid)
  with TSplit.prems d show ?case by (auto simp: layout_access)
qed

lemma leaf_nodes_eq:
  assumes "represents L t"
  shows "leaf_nodes L = Inr (map fst (tree_leaves t))"
  using append_leaf_nodes_eq [of L None t "layout_depth_bound L" "[]"] representsD(1,4) [OF assms]
    depth_bound [of L "[]" t] assms
  by (simp add: leaf_nodes_def)

lemma stored_leaf_pane:
  assumes "stored M p t" "M n = Some nd" "nd_contents nd = Pane_leaf q" "n \<in> set (tree_ids t)"
  shows "(n, q) \<in> set (tree_leaves t)"
proof -
  show ?thesis using assms(1,4)
  proof (induction t arbitrary: p rule: ptree_induct)
    case (TLeaf m r)
    with assms(2,3) show ?case by auto
  next
    case (TSplit m ax ks)
    show ?case
    proof (cases "n = m")
      case False
      with TSplit.prems obtain k where k: "k \<in> set ks" "n \<in> set (tree_ids (fst k))" by auto
      from TSplit.prems(1) k(1) have "stored M (Some m) (fst k)" by simp
      from TSplit.IH [OF k(1) this k(2)] k(1) show ?thesis by (simp, intro bexI [of _ k])
    qed (use TSplit.prems assms(2,3) in auto)
  qed
qed

lemma stored_leaves:
  "stored M p t \<Longrightarrow> (n, q) \<in> set (tree_leaves t) \<Longrightarrow> \<exists>r. M n = Some (leaf_node_of n r q)"
  by (induction t arbitrary: p rule: ptree_induct) auto

text \<open>\<open>find_pane\<close> finds the leaf of a pane, whatever the order of the map.\<close>

lemma find_pane_Some_leaf:
  assumes "represents L t" "find_pane L q = Some n"
  shows "(n, q) \<in> set (tree_leaves t)"
proof -
  from assms(2) obtain nd where f: "find (\<lambda>(n, nd). nd_contents nd = Pane_leaf q) (ly_nodes L) = Some (n, nd)"
    unfolding find_pane_def by (cases "find (\<lambda>(n, nd). nd_contents nd = Pane_leaf q) (ly_nodes L)") auto
  from find_SomeD [OF this] have "(n, nd) \<in> set (ly_nodes L)" "nd_contents nd = Pane_leaf q"
    by simp_all
  moreover from this(1) have l: "look L n = Some nd"
    using smap.entries_look [OF representsD(5) [OF assms(1)]] by simp
  moreover from l have "n \<in> set (tree_ids t)" using representsD(3) [OF assms(1)] by auto
  ultimately show ?thesis by (intro stored_leaf_pane [OF representsD(1) [OF assms(1)]])
qed

lemma find_pane_present:
  assumes "represents L t" "(n, q) \<in> set (tree_leaves t)"
  shows "find_pane L q \<noteq> None"
proof -
  from stored_leaves [OF representsD(1) [OF assms(1)] assms(2)] obtain r
    where "look L n = Some (leaf_node_of n r q)" by blast
  then have "(n, leaf_node_of n r q) \<in> set (ly_nodes L)"
    using smap.entries_look [OF representsD(5) [OF assms(1)]] by simp
  then have "\<exists>e \<in> set (ly_nodes L). case e of (n, nd) \<Rightarrow> nd_contents nd = Pane_leaf q"
    by (rule bexI [rotated]) simp
  then show ?thesis by (simp add: find_pane_def find_None_iff) blast
qed

lemma find_pane_None_iff:
  "represents L t \<Longrightarrow> find_pane L q = None \<longleftrightarrow> q \<notin> set (tree_panes t)"
  using find_pane_Some_leaf [of L t q] find_pane_present [of L t _ q]
  by (cases "find_pane L q") (force simp: tree_panes_def)+

lemma find_pane_eq:
  assumes "represents L t" "distinct (tree_panes t)" "(n, q) \<in> set (tree_leaves t)"
  shows "find_pane L q = Some n"
proof -
  from find_pane_present [OF assms(1,3)] obtain m where m: "find_pane L q = Some m" by auto
  from find_pane_Some_leaf [OF assms(1) m] have "(m, q) \<in> set (tree_leaves t)" .
  with assms(2,3) have "m = n"
    unfolding tree_panes_def distinct_map inj_on_def by (metis fst_conv snd_conv)
  with m show ?thesis by simp
qed

lemma represents_single: "represents (single q) (TLeaf 1 q)"
  by (rule representsI)
    (auto simp: single_def smap_emplace_def smap_find_def smap_ok_def UINT64_MAX_def split: if_splits)

section \<open>Flipping the axes of a subtree\<close>

fun flip :: "ptree \<Rightarrow> ptree" where
  "flip (TLeaf n p) = TLeaf n p"
| "flip (TSplit n ax ks) = TSplit n (other_axis ax) (map (\<lambda>k. (flip (fst k), snd k)) ks)"

lemma flip_simps [simp]:
  "tid (flip t) = tid t" "tree_ids (flip t) = tree_ids t" "tree_leaves (flip t) = tree_leaves t"
  "well_formed (flip t) = well_formed t" "top_axis (flip t) = map_option other_axis (top_axis t)"
proof -
  show "tid (flip t) = tid t" "top_axis (flip t) = map_option other_axis (top_axis t)"
    by (cases t; simp)+
  show "tree_ids (flip t) = tree_ids t" "tree_leaves (flip t) = tree_leaves t"
    by (induction t rule: ptree_induct) (simp_all add: comp_def cong: map_cong)
  show "well_formed (flip t) = well_formed t"
    by (induction t rule: ptree_induct) (simp_all add: kids_ok_def comp_def)
qed

lemma flip_flip [simp]: "flip (flip t) = t"
  by (induction t rule: ptree_induct) (simp_all add: comp_def map_idI)

lemma other_axis_eq_iff [simp]: "other_axis a = other_axis b \<longleftrightarrow> a = b"
  by (cases a; cases b) auto

lemma map_other_axis_eq: "map_option other_axis a = Some (other_axis b) \<longleftrightarrow> a = Some b"
  by (cases a) auto

lemma flip_alternates [simp]: "alternates (flip t) = alternates t"
  by (induction t rule: ptree_induct) (simp_all add: map_other_axis_eq del: map_option_eq_Some)

text \<open>A layout that differs from another in the entries of some nodes only.\<close>

definition only_changes :: "node_id set \<Rightarrow> pane_layout \<Rightarrow> pane_layout \<Rightarrow> bool" where
  "only_changes S L L' \<longleftrightarrow>
     (\<forall>m. m \<notin> S \<longrightarrow> look L' m = look L m) \<and> dom (look L') = dom (look L)
     \<and> ly_root L' = ly_root L \<and> ly_next L' = ly_next L
     \<and> (smap_ok (ly_nodes L) \<longrightarrow> smap_ok (ly_nodes L'))"

lemma only_changes_refl: "only_changes S L L"
  by (simp add: only_changes_def)

lemma only_changes_trans:
  "only_changes S L L' \<Longrightarrow> only_changes T L' L'' \<Longrightarrow> only_changes (S \<union> T) L L''"
  by (auto simp: only_changes_def)

lemma only_changes_mono: "only_changes S L L' \<Longrightarrow> S \<subseteq> T \<Longrightarrow> only_changes T L L'"
  by (auto simp: only_changes_def)

lemma only_changes_write:
  "look L n \<noteq> None \<Longrightarrow> only_changes {n} L (write_node n nd L)"
  by (auto simp: only_changes_def)

lemma only_changes_stored:
  "only_changes S L L' \<Longrightarrow> S \<inter> set (tree_ids t) = {} \<Longrightarrow> stored (look L') p t = stored (look L) p t"
  by (rule stored_cong) (auto simp: only_changes_def)

lemma only_changes_layout_bound: 
  "only_changes S L L' \<Longrightarrow> smap_ok (ly_nodes L) \<Longrightarrow> layout_depth_bound L' = layout_depth_bound L"
proof -
  assume c: "only_changes S L L'" and ok: "smap_ok (ly_nodes L)"
  have len: "length (ly_nodes M) = card (dom (look M))" if "smap_ok (ly_nodes M)" for M
    using smap_ok_distinct [OF that]
    by (metis distinct_card dom_map_of_conv_image_fst length_map set_map smap_find_def ext)
  from c ok have "smap_ok (ly_nodes L')" "dom (look L') = dom (look L)"
    by (auto simp: only_changes_def)
  with ok show ?thesis by (simp add: layout_depth_bound_def len)
qed

text \<open>A step that treats each subtree on its own treats a list of disjoint subtrees.\<close>

lemma fold_over_kids:
  assumes "\<And>k L. k \<in> set ks \<Longrightarrow> stored (look L) p (fst k) \<Longrightarrow> smap_ok (ly_nodes L) \<Longrightarrow> 
             dom (look L) = D \<Longrightarrow>
             \<exists>L'. f (tid (fst k)) L = Inr L' \<and> stored (look L') p' (g (fst k))
               \<and> only_changes (set (tree_ids (fst k))) L L'"
    and "\<And>t. tree_ids (g t) = tree_ids t" 
    and "\<forall>k \<in> set ks. stored (look L) p (fst k)"
    and "distinct (concat (map (\<lambda>k. tree_ids (fst k)) ks))"
    and "smap_ok (ly_nodes L)" "dom (look L) = D"
  shows "\<exists>L'. fold_result f (map (\<lambda>k. tid (fst k)) ks) L = Inr L'
     \<and> (\<forall>k \<in> set ks. stored (look L') p' (g (fst k)))
     \<and> only_changes (set (concat (map (\<lambda>k. tree_ids (fst k)) ks))) L L'"
  using assms
proof (induction ks arbitrary: L)
  case Nil
  then show ?case by (simp add: only_changes_refl)
next
  case (Cons k ks)
  from Cons.prems(1) [of k L] Cons.prems(3,5,6) obtain L1
    where L1: "f (tid (fst k)) L = Inr L1" "stored (look L1) p' (g (fst k))"
      "only_changes (set (tree_ids (fst k))) L L1" by auto
  have disj: "set (tree_ids (fst k)) \<inter> set (tree_ids (fst k')) = {}" if "k' \<in> set ks" for k'
    using Cons.prems(4) that by auto
  have "\<exists>L'. fold_result f (map (\<lambda>k. tid (fst k)) ks) L1 = Inr L'
     \<and> (\<forall>k \<in> set ks. stored (look L') p' (g (fst k)))
     \<and> only_changes (set (concat (map (\<lambda>k. tree_ids (fst k)) ks))) L1 L'"
  proof (rule Cons.IH)
    show "\<forall>k' \<in> set ks. stored (look L1) p (fst k')"
      using Cons.prems(3) only_changes_stored [OF L1(3) disj] by simp
    show "smap_ok (ly_nodes L1)" "dom (look L1) = D"
      using Cons.prems(5,6) L1(3) by (simp_all add: only_changes_def)
  qed (use Cons.prems(1,2,4) in auto)
  then obtain L2 where L2: "fold_result f (map (\<lambda>k. tid (fst k)) ks) L1 = Inr L2"
    "\<forall>k \<in> set ks. stored (look L2) p' (g (fst k))"
    "only_changes (set (concat (map (\<lambda>k. tree_ids (fst k)) ks))) L1 L2" by blast
  have "set (concat (map (\<lambda>k. tree_ids (fst k)) ks)) \<inter> set (tree_ids (g (fst k))) = {}"
    using disj Cons.prems(2) by auto
  from only_changes_stored [OF L2(3) this] L1(2) have "stored (look L2) p' (g (fst k))" by simp
  with L1(1) L2 only_changes_trans [OF L1(3) L2(3)] show ?case
    by (intro exI [of _ L2]) simp
qed

lemma toggle_split_axes_upto_eq:
  assumes "stored (look L) p s" "distinct (tree_ids s)" "tree_height s \<le> d" "smap_ok (ly_nodes L)"
  shows "\<exists>L'. toggle_split_axes_upto d (tid s) L = Inr L' \<and> stored (look L') p (flip s)
     \<and> only_changes (set (tree_ids s)) L L'"
  using assms
proof (induction s arbitrary: p d L rule: ptree_induct)
  case (TLeaf n q)
  then show ?case by (cases d) (auto simp: only_changes_refl)
next
  case (TSplit n ax ks)
  then obtain d' where d: "d = Suc d'" by (cases d) auto
  from TSplit.prems have look: "look L n = Some (split_node_of n p ax (map kid_entry ks))" by simp
  define L0 where "L0 = write_node n (split_node_of n p (other_axis ax) (map kid_entry ks)) L"
  have c0: "only_changes {n} L L0" unfolding L0_def by (rule only_changes_write) (simp add: look)
  have n: "n \<notin> set (concat (map (\<lambda>k. tree_ids (fst k)) ks))" using TSplit.prems(2) by simp
  have "\<exists>L'. fold_result (toggle_split_axes_upto d') (map (\<lambda>k. tid (fst k)) ks) L0 = Inr L'
     \<and> (\<forall>k \<in> set ks. stored (look L') (Some n) (flip (fst k)))
     \<and> only_changes (set (concat (map (\<lambda>k. tree_ids (fst k)) ks))) L0 L'"
  proof (rule fold_over_kids [where p = "Some n" and D = "dom (look L0)"])
    fix k L1 assume k: "k \<in> set ks" "stored (look L1) (Some n) (fst k)" "smap_ok (ly_nodes L1)"
    have "distinct (tree_ids (fst k))" using TSplit.prems(2) k(1) by (auto simp: distinct_concat_iff)
    moreover have "tree_height (fst k) \<le> d'"
      using TSplit.prems(3) d k(1) by simp
    ultimately show "\<exists>L'. toggle_split_axes_upto d' (tid (fst k)) L1 = Inr L'
        \<and> stored (look L') (Some n) (flip (fst k)) \<and> only_changes (set (tree_ids (fst k))) L1 L'"
      using TSplit.IH [OF k(1) k(2)] k(3) by blast
  next
    have "{n} \<inter> set (tree_ids (fst k)) = {}" if "k \<in> set ks" for k using n that by auto
    then show "\<forall>k \<in> set ks. stored (look L0) (Some n) (fst k)"
      using TSplit.prems(1) only_changes_stored [OF c0] by simp
    show "smap_ok (ly_nodes L0)" using TSplit.prems(4) c0 by (simp add: only_changes_def)
  qed (use TSplit.prems(2) in auto)
  then obtain L' where L': "fold_result (toggle_split_axes_upto d') (map (\<lambda>k. tid (fst k)) ks) L0 = Inr L'"
     "\<forall>k \<in> set ks. stored (look L') (Some n) (flip (fst k))"
     "only_changes (set (concat (map (\<lambda>k. tree_ids (fst k)) ks))) L0 L'" by blast
  have "look L' n = look L0 n" using L'(3) n unfolding only_changes_def by blast
  then have "look L' n = Some (split_node_of n p (other_axis ax) (map kid_entry ks))"
    by (simp add: L0_def)
  moreover have "map kid_entry (map (\<lambda>k. (flip (fst k), snd k)) ks) = map kid_entry ks"
    by (simp add: kid_entry_def)
  ultimately have "stored (look L') p (flip (TSplit n ax ks))" using L'(2) by (simp del: map_map)
  moreover have "only_changes (set (tree_ids (TSplit n ax ks))) L L'"
    using only_changes_trans [OF c0 L'(3)] by simp
  moreover have "toggle_split_axes_upto d n L = Inr L'"
    using L'(1) look by (simp add: d put_split_eq L0_def comp_def)
  ultimately show ?case by auto
qed

lemma toggle_split_axes_eq:
  assumes "stored (look L) p s" "distinct (tree_ids s)" "smap_ok (ly_nodes L)"
    and "set (tree_ids s) \<subseteq> dom (look L)"
  shows "\<exists>L'. toggle_split_axes (tid s) L = Inr L' \<and> stored (look L') p (flip s)
     \<and> only_changes (set (tree_ids s)) L L'"
proof -
  have "tree_height s \<le> length (tree_ids s)" by (rule height_le_ids)
  also have "\<dots> = card (set (tree_ids s))" using assms(2) by (simp add: distinct_card)
  also have "\<dots> \<le> card (dom (look L))"
    by (rule card_mono [OF finite_dom_smap assms(4)])
  also have "\<dots> \<le> length (ly_nodes L)"
    using card_length [of "map fst (ly_nodes L)"]
    by (simp add: smap_find_map_of dom_map_of_conv_image_fst)
  finally have "tree_height s \<le> layout_depth_bound L" by (simp add: layout_depth_bound_def)
  from toggle_split_axes_upto_eq [OF assms(1,2) this assms(3)] show ?thesis
    by (simp add: toggle_split_axes_def)
qed

section \<open>Holes and fresh identifiers\<close>

lemma child_index_hole [layout_access]:
  "h \<notin> (\<lambda>k. tid (fst k)) ` set ls \<Longrightarrow>
   child_index \<lparr>sp_axis = ax, sp_children = map kid_entry ls @ \<lparr>sc_node = h, sc_pct = w\<rparr> # cs\<rparr> h
     = Inr (length ls)"
  using child_position_append [of h "map kid_entry ls" w cs] by (auto simp: child_index_def image_image)

lemma hole_update [simp]:
  "length xs = n \<Longrightarrow> (xs @ y # ys) ! n = y" "length xs = n \<Longrightarrow> (xs @ y # ys)[n := z] = xs @ z # ys"
  "length xs = n \<Longrightarrow> take n (xs @ y # ys) = xs" "length xs = n \<Longrightarrow> drop (Suc n) (xs @ y # ys) = ys"
  by auto

lemma kid_tid_in_ids: "k \<in> set ks \<Longrightarrow> tid (fst k) \<in> set (concat (map (\<lambda>k. tree_ids (fst k)) ks))"
  by force

lemma hole_not_sibling:
  assumes "distinct (concat (map (\<lambda>k. tree_ids (fst k)) ls) @ tree_ids t)"
  shows "tid t \<notin> (\<lambda>k. tid (fst k)) ` set ls"
proof
  assume "tid t \<in> (\<lambda>k. tid (fst k)) ` set ls"
  then have "tid t \<in> set (concat (map (\<lambda>k. tree_ids (fst k)) ls))"
    using kid_tid_in_ids [of _ ls] by auto
  moreover have "set (concat (map (\<lambda>k. tree_ids (fst k)) ls)) \<inter> set (tree_ids t) = {}"
    using assms by (simp only: distinct_append)
  ultimately show False using tid_in_ids [of t] by blast
qed

lemma tid_plug: "C \<noteq> [] \<Longrightarrow> tid (plug C t) = tid (plug C t')"
proof (induction C t arbitrary: t' rule: plug.induct)
  case (2 n ax ls w rs C t)
  then show ?case by (cases "C = []") auto
qed simp

lemma tid_plug_same: "tid t = tid t' \<Longrightarrow> tid (plug C t) = tid (plug C t')"
  by (cases "C = []") (simp, metis tid_plug)

lemma fresh_id:
  "represents L t \<Longrightarrow> ly_next L \<le> m \<Longrightarrow> look L m = None \<and> m \<notin> set (tree_ids t)"
  using representsD(3,6) [of L t] by (metis domIff leD)

lemma allocate_eq:
  assumes "0 < ly_next L" "int (ly_next L) < UINT64_MAX"
  shows "allocate_node_id L = Inr (ly_next L, L\<lparr>ly_next := ly_next L + 1\<rparr>)"
  using assms by (simp add: allocate_node_id_def required_node_id_def node_id_from_value_def)

lemma write_node_next [simp]: "write_node n nd (L\<lparr>ly_next := x\<rparr>) = (write_node n nd L)\<lparr>ly_next := x\<rparr>"
  by (simp add: write_node_def)

text \<open>Replacing the hole's node in the split that holds it, or in the root.\<close>

lemma ctx_stored_rehole:
  assumes "ctx_stored M (Frame p ax ls w rs # C) h"
    and "distinct (ids_before (Frame p ax ls w rs # C) @ ids_after (Frame p ax ls w rs # C))"
    and M: "\<And>n. n \<in> set (ids_before (Frame p ax ls w rs # C)) \<union> set (ids_after (Frame p ax ls w rs # C)) \<Longrightarrow>
      n \<noteq> p \<Longrightarrow> M' n = M n"
    and Mp: "M' p = Some (split_node_of p (ctx_parent C) ax
        (map kid_entry ls @ \<lparr>sc_node = h', sc_pct = w\<rparr> # map kid_entry rs))"
  shows "ctx_stored M' (Frame p ax ls w rs # C) h'"
proof -
  have "\<forall>k \<in> set (ls @ rs). stored M' (Some p) (fst k)"
  proof
    fix k assume k: "k \<in> set (ls @ rs)"
    have "stored M' (Some p) (fst k) = stored M (Some p) (fst k)"
    proof (rule stored_cong)
      fix n assume n: "n \<in> set (tree_ids (fst k))"
      show "M' n = M n" by (rule M) (use k n assms(2) in auto)
    qed
    with k assms(1) show "stored M' (Some p) (fst k)" by simp
  qed
  moreover have "ctx_stored M' C p = ctx_stored M C p"
    by (rule ctx_stored_cong, rule M) (use assms(2) in auto)
  ultimately show ?thesis using Mp assms(1) by simp
qed

lemma hole_entry:
  assumes "ctx_stored M (Frame p ax ls w rs # C) h" "h \<notin> set (ids_before (Frame p ax ls w rs # C))"
  shows "M p = Some (split_node_of p (ctx_parent C) ax
        (map kid_entry ls @ \<lparr>sc_node = h, sc_pct = w\<rparr> # map kid_entry rs))"
    and "h \<notin> (\<lambda>k. tid (fst k)) ` set ls"
proof -
  show "h \<notin> (\<lambda>k. tid (fst k)) ` set ls"
  proof
    assume "h \<in> (\<lambda>k. tid (fst k)) ` set ls"
    then have "h \<in> set (concat (map (\<lambda>k. tree_ids (fst k)) ls))" using kid_tid_in_ids [of _ ls] by auto
    with assms(2) show False by simp
  qed
qed (use assms(1) in simp)

text \<open>
  A layout that represents a well-formed tree with one leaf per pane: the invariant that
  every operation keeps.
\<close>

definition layout_inv :: "pane_layout \<Rightarrow> ptree \<Rightarrow> bool" where
  "layout_inv L t \<longleftrightarrow> represents L t \<and> well_formed t \<and> distinct (tree_panes t)"

lemma leaf_context:
  "(n, q) \<in> set (tree_leaves t) \<Longrightarrow> \<exists>C. t = plug C (TLeaf n q)"
proof (induction t rule: ptree_induct)
  case (TLeaf m p)
  then show ?case by (intro exI [of _ "[]"]) simp
next
  case (TSplit m ax ks)
  then obtain k where k: "k \<in> set ks" "(n, q) \<in> set (tree_leaves (fst k))" by auto
  from TSplit.IH [OF this] obtain C where C: "fst k = plug C (TLeaf n q)" by blast
  from k(1) obtain ls rs where ks: "ks = ls @ k # rs" by (auto dest: split_list)
  have "plug (C @ [Frame m ax ls (snd k) rs]) (TLeaf n q) = TSplit m ax ks"
    using ks by (simp add: plug_append flip: C)
  then show ?case by metis
qed

lemma frame_weight:
  assumes "ctx_well_formed (Frame p ax ls w rs # C)"
  shows "0 \<le> w \<and> w \<le> 100"
proof -
  have "0 \<le> sum_list (map snd (ls @ rs))" by (rule sum_list_nonneg) (use assms in auto)
  with assms show ?thesis by simp
qed

section \<open>An example\<close>

text \<open>
  Two columns, the right one two stacked panes: the layout on which the properties are
  evaluated.
\<close>

definition stacked_layout :: pane_layout where
  "stacked_layout =
     \<lparr>ly_root = 3,
      ly_nodes =
        [(1, leaf_node_of 1 (Some 3) 1), (2, leaf_node_of 2 (Some 5) 2),
         (3, split_node_of 3 None LEFT_TO_RIGHT
              [\<lparr>sc_node = 1, sc_pct = 50\<rparr>, \<lparr>sc_node = 5, sc_pct = 50\<rparr>]),
         (4, leaf_node_of 4 (Some 5) 3),
         (5, split_node_of 5 (Some 3) TOP_TO_BOTTOM
              [\<lparr>sc_node = 2, sc_pct = 50\<rparr>, \<lparr>sc_node = 4, sc_pct = 50\<rparr>])],
      ly_next = 6\<rparr>"

definition stacked_tree :: ptree where
  "stacked_tree = TSplit 3 LEFT_TO_RIGHT
     [(TLeaf 1 1, 50), (TSplit 5 TOP_TO_BOTTOM [(TLeaf 2 2, 50), (TLeaf 4 3, 50)], 50)]"

lemma stacked_layout_inv: "layout_inv stacked_layout stacked_tree"
  by (auto simp: layout_inv_def represents_def represents_forest_def stacked_layout_def stacked_tree_def
      smap_ok_def smap_find_def kid_entry_def kids_ok_def
      tree_panes_def UINT64_MAX_def split: if_splits)

lemma stacked_facts:
  "tree_leaves stacked_tree = [(1, 1), (2, 2), (4, 3)]" "tree_panes stacked_tree = [1, 2, 3]"
  "alternates stacked_tree" "int (ly_next stacked_layout) + 1 < UINT64_MAX"
  "ly_next stacked_layout = 6" "ly_root stacked_layout = 3"
  by (simp_all add: stacked_tree_def stacked_layout_def tree_panes_def UINT64_MAX_def)

lemma stacked_contexts:
  "stacked_tree = plug [] (TSplit 3 LEFT_TO_RIGHT ([] @ [(TLeaf 1 1, 50)]
      @ [(TSplit 5 TOP_TO_BOTTOM [(TLeaf 2 2, 50), (TLeaf 4 3, 50)], 50)]))"
  "stacked_tree = plug [Frame 5 TOP_TO_BOTTOM [] 50 [(TLeaf 4 3, 50)],
      Frame 3 LEFT_TO_RIGHT [(TLeaf 1 1, 50)] 50 []] (TLeaf 2 2)"
  "stacked_tree = plug [Frame 3 LEFT_TO_RIGHT [] 50 [(TSplit 5 TOP_TO_BOTTOM [(TLeaf 2 2, 50), (TLeaf 4 3, 50)], 50)]] (TLeaf 1 1)"
  by (simp_all add: stacked_tree_def)

text \<open>
  C9: The recursive enumeration of leaves returns within the depth bound, in reading order,
  and find_pane finds exactly the panes of the layout at their leaves.
\<close>

lemma leaf_enumeration_terminates:
  assumes "layout_inv L t"
  shows "leaf_nodes L = Inr (map fst (tree_leaves t))
    \<and> (\<forall>q. find_pane L q = None \<longleftrightarrow> q \<notin> set (tree_panes t))
    \<and> (\<forall>(n, q) \<in> set (tree_leaves t). find_pane L q = Some n)"
  using assms leaf_nodes_eq find_pane_None_iff find_pane_eq unfolding layout_inv_def by blast

lemma leaf_enumeration_terminates_witness:
  "leaf_nodes stacked_layout = Inr [1, 2, 4] \<and> find_pane stacked_layout 3 = Some 4
     \<and> find_pane stacked_layout 9 = None"
  using leaf_enumeration_terminates [OF stacked_layout_inv] by (simp add: stacked_facts)

end
