(* ===== verification/Pane_Split.thy ===== *)
theory Pane_Split
  imports Pane_Represent
begin

text \<open>
  \<open>PaneLayout::split_leaf\<close> implements the splitting of a leaf of the tree: inside a split of
  the same axis the new pane becomes a sibling that takes half of the old share (rounded as the
  code rounds), otherwise the leaf is wrapped in a new split of two equal halves. The invariant
  and the normal form are kept, and the new pane stands directly before or after the old one.
\<close>

lemma split_leaf_same_axis:
  assumes rep: "represents L (plug (Frame p axis ls w rs # C) (TLeaf n q))"
    and w: "0 \<le> w" "w \<le> 100"
    and fresh: "find_pane L q' = None"
    and room: "int (ly_next L) < UINT64_MAX"
  defines "m \<equiv> ly_next L"
  shows "\<exists>L'. split_leaf n axis q' ins L = Inr (m, L') \<and>
     represents L' (plug C (TSplit p axis (ls @
       (if ins = BEFORE then [(TLeaf m q', (w + 1) div 2), (TLeaf n q, w div 2)]
        else [(TLeaf n q, (w + 1) div 2), (TLeaf m q', w div 2)]) @ rs)))"
proof -
  note D = representsD [OF rep]
  let ?kids = "ls @ (if ins = BEFORE then [(TLeaf m q', (w + 1) div 2), (TLeaf n q, w div 2)]
        else [(TLeaf n q, (w + 1) div 2), (TLeaf m q', w div 2)]) @ rs"
  from D(1) have st: "look L n = Some (leaf_node_of n (Some p) q)"
    "look L p = Some (split_node_of p (ctx_parent C) axis
        (map kid_entry ls @ \<lparr>sc_node = n, sc_pct = w\<rparr> # map kid_entry rs))"
    "\<forall>k \<in> set (ls @ rs). stored (look L) (Some p) (fst k)" "ctx_stored (look L) C p"
    by (auto simp: tree_simps)
  from D(2) have dist: "distinct (ids_before C @ p # concat (map (\<lambda>k. tree_ids (fst k)) ls) @ n #
      concat (map (\<lambda>k. tree_ids (fst k)) rs) @ ids_after C)" by (simp add: tree_simps)
  have m: "look L m = None" "m \<notin> set (tree_ids (plug (Frame p axis ls w rs # C) (TLeaf n q)))"
    using fresh_id [OF rep] by (auto simp: m_def)
  have hole: "n \<notin> (\<lambda>k. tid (fst k)) ` set ls"
    using hole_not_sibling [of ls "TLeaf n q"] dist by simp
  define L' where "L' = write_node m (leaf_node_of m (Some p) q')
    (write_node p (split_node_of p (ctx_parent C) axis (map kid_entry ?kids)) L)\<lparr>ly_next := m + 1\<rparr>"
  have "split_leaf n axis q' ins L = Inr (m, L')"
    using st(1,2) w hole fresh room D(7) m(1) dist
    by (cases ins) (auto simp: split_leaf_def layout_access allocate_eq m_def L'_def Let_def
        node_def at_split_def kid_entry_def smap_at_def node_split_def put_split_def
        write_node_def emplace_node_def smap_emplace_def smap_find_put take_Cons' split: if_splits)
  moreover have "represents L' (plug C (TSplit p axis ?kids))"
  proof (rule representsI)
    have mC: "m \<notin> set (ids_before C)" "m \<notin> set (ids_after C)" "m \<noteq> p" "m \<noteq> n"
      using m(2) by (auto simp: tree_simps)
    have M: "look L' = (look L)(p \<mapsto> split_node_of p (ctx_parent C) axis (map kid_entry ?kids),
        m \<mapsto> leaf_node_of m (Some p) q')"
      by (simp add: L'_def write_node_def smap_find_put)
    have 1: "ctx_stored (look L') C p"
      unfolding M using st(4) dist mC by (simp add: ctx_stored_frame)
    have 2: "\<forall>k \<in> set (ls @ rs). stored (look L') (Some p) (fst k)"
    proof
      fix k assume k: "k \<in> set (ls @ rs)"
      then have "p \<notin> set (tree_ids (fst k))" "m \<notin> set (tree_ids (fst k))"
        using dist m(2) by (auto simp: tree_simps)
      then show "stored (look L') (Some p) (fst k)"
        unfolding M using st(3) k by (simp add: stored_frame)
    qed
    have 3: "look L' p = Some (split_node_of p (ctx_parent C) axis (map kid_entry ?kids))"
      "look L' m = Some (leaf_node_of m (Some p) q')" "look L' n = Some (leaf_node_of n (Some p) q)"
      using mC dist st(1) by (auto simp: M)
    show "stored (look L') None (plug C (TSplit p axis ?kids))"
      using 1 2 3 by (simp add: tree_simps)
    show "distinct (tree_ids (plug C (TSplit p axis ?kids)))"
      using dist m(2) by (auto simp: tree_simps)
    show "dom (look L') = set (tree_ids (plug C (TSplit p axis ?kids)))"
      using D(3) unfolding M by (auto simp: tree_simps)
    show "ly_root L' = tid (plug C (TSplit p axis ?kids))"
      using D(4) by (cases C) (simp_all add: L'_def write_node_def tid_plug)
    show "smap_ok (ly_nodes L')" using D(5) by (simp add: L'_def write_node_def smap_ok_put)
    show "0 < x \<and> x < ly_next L'" if "x \<in> set (tree_ids (plug C (TSplit p axis ?kids)))" for x
    proof -
      from that have "x = m \<or> x \<in> set (tree_ids (plug (Frame p axis ls w rs # C) (TLeaf n q)))"
        by (auto simp: tree_simps split: if_splits)
      then show ?thesis using D(6) [of x] D(7) by (auto simp: L'_def m_def less_Suc_eq)
    qed
  qed (use room in \<open>simp_all add: L'_def m_def\<close>)
  ultimately show ?thesis by auto
qed


lemma split_leaf_wrap:
  assumes rep: "represents L (plug C (TLeaf n q))"
    and axis: "ctx_axis C \<noteq> Some axis"
    and fresh: "find_pane L q' = None"
    and room: "int (ly_next L) + 1 < UINT64_MAX"
  defines "m \<equiv> ly_next L"
  shows "\<exists>L'. split_leaf n axis q' ins L = Inr (m, L') \<and>
     represents L' (plug C (TSplit (m + 1) axis
       (if ins = BEFORE then [(TLeaf m q', 50), (TLeaf n q, 50)]
        else [(TLeaf n q, 50), (TLeaf m q', 50)])))"
proof -
  note D = representsD [OF rep]
  let ?kids = "if ins = BEFORE then [(TLeaf m q', 50), (TLeaf n q, 50)]
        else [(TLeaf n q, 50), (TLeaf m q', 50::int)]"
  let ?t = "plug C (TSplit (m + 1) axis ?kids)"
  from D(1) have st: "look L n = Some (leaf_node_of n (ctx_parent C) q)" "ctx_stored (look L) C n"
    by (simp_all add: tree_simps)
  from D(2) have dist: "distinct (ids_before C @ n # ids_after C)" by (simp add: tree_simps)
  have m: "look L m = None" "m \<notin> set (tree_ids (plug C (TLeaf n q)))"
    "look L (m + 1) = None" "m + 1 \<notin> set (tree_ids (plug C (TLeaf n q)))"
    using fresh_id [OF rep] by (auto simp: m_def)
  then have mC: "m \<notin> set (ids_before C)" "m \<notin> set (ids_after C)" "m \<noteq> n"
    "m + 1 \<notin> set (ids_before C)" "m + 1 \<notin> set (ids_after C)" "m + 1 \<noteq> n"
    by (auto simp: tree_simps)
  have ids: "set (tree_ids ?t) = insert m (insert (m + 1) (set (tree_ids (plug C (TLeaf n q)))))"
    by (auto simp: tree_simps)
  have "\<exists>L'. split_leaf n axis q' ins L = Inr (m, L') \<and> stored (look L') None ?t
      \<and> dom (look L') = insert m (insert (m + 1) (dom (look L))) \<and> ly_root L' = tid ?t
      \<and> smap_ok (ly_nodes L') \<and> ly_next L' = m + 2"
  proof (cases C)
    case Nil
    define L' where "L' = (write_node (m + 1) (split_node_of (m + 1) None axis (map kid_entry ?kids))
      (write_node m (leaf_node_of m (Some (m + 1)) q')
      (write_node n (leaf_node_of n (Some (m + 1)) q) L)))\<lparr>ly_next := m + 2, ly_root := m + 1\<rparr>"
    have M: "look L' = (look L)(n \<mapsto> leaf_node_of n (Some (m + 1)) q,
        m \<mapsto> leaf_node_of m (Some (m + 1)) q',
        m + 1 \<mapsto> split_node_of (m + 1) None axis (map kid_entry ?kids))"
      by (simp add: L'_def write_node_def smap_find_put)
    have "split_leaf n axis q' ins L = Inr (m, L')"
      using st(1) fresh room D(7) m(1,3) mC Nil
      by (cases ins) (simp_all add: split_leaf_def layout_access allocate_eq m_def L'_def Let_def
        kid_entry_def set_parent_def write_node_def emplace_node_def smap_emplace_def smap_find_put)
    moreover have "stored (look L') None ?t" using mC by (simp add: M Nil)
    moreover have "dom (look L') = insert m (insert (m + 1) (dom (look L)))"
      using domI [of "look L", OF st(1)] unfolding M by (simp add: insert_absorb insert_commute)
    ultimately show ?thesis using Nil D(5)
      by (intro exI [of _ L']) (simp add: L'_def write_node_def smap_ok_put)
  next
    case (Cons f Cr)
    then have ne: "C \<noteq> []" by simp
    have dc: "distinct (ids_before C @ ids_after C)" "n \<notin> set (ids_before C)" using dist by auto
    obtain p ax ls w rs C' where C: "C = Frame p ax ls w rs # C'"
      using ne by (cases C rule: ctx_parent.cases) auto
    note p = hole_entry [OF st(2) [unfolded C] dc(2) [unfolded C]]
    note h = p(2)
    have pne: "p \<noteq> n" "p \<noteq> m" "p \<noteq> m + 1" using C dist mC by auto
    define L' where "L' = (write_node (m + 1) (split_node_of (m + 1) (Some p) axis (map kid_entry ?kids))
      (write_node m (leaf_node_of m (Some (m + 1)) q')
      (write_node n (leaf_node_of n (Some (m + 1)) q)
      (write_node p (split_node_of p (ctx_parent C') ax
        (map kid_entry ls @ \<lparr>sc_node = m + 1, sc_pct = w\<rparr> # map kid_entry rs)) L))))\<lparr>ly_next := m + 2\<rparr>"
    have M: "look L' = (look L)(p \<mapsto> split_node_of p (ctx_parent C') ax
        (map kid_entry ls @ \<lparr>sc_node = m + 1, sc_pct = w\<rparr> # map kid_entry rs),
        n \<mapsto> leaf_node_of n (Some (m + 1)) q, m \<mapsto> leaf_node_of m (Some (m + 1)) q',
        m + 1 \<mapsto> split_node_of (m + 1) (Some p) axis (map kid_entry ?kids))"
      by (simp add: L'_def write_node_def smap_find_put)
    have "split_leaf n axis q' ins L = Inr (m, L')"
      using st(1) p fresh room D(7) m(1,3) mC pne C axis
      by (cases ins) (simp_all add: split_leaf_def layout_access allocate_eq m_def L'_def Let_def
        kid_entry_def node_def at_split_def node_split_def put_split_def smap_at_def
        set_parent_def write_node_def emplace_node_def smap_emplace_def smap_find_put)
    moreover have "ctx_stored (look L') C (m + 1)"
      unfolding C by (rule ctx_stored_rehole [OF st(2) [unfolded C] dc(1) [unfolded C]])
        (use mC dist pne C in \<open>auto simp: M\<close>)
    then have "stored (look L') None ?t" using mC pne C by (simp add: M tree_simps)
    moreover have "ly_root L' = tid ?t"
      using D(4) tid_plug [OF ne, of "TLeaf n q" "TSplit (m + 1) axis ?kids"]
      by (simp add: L'_def write_node_def)
    moreover have "dom (look L') = insert m (insert (m + 1) (dom (look L)))"
      using domI [of "look L", OF st(1)] domI [of "look L", OF p(1)]
      unfolding M by (simp add: insert_absorb insert_commute)
    ultimately show ?thesis using D(5)
      by (intro exI [of _ L']) (simp add: L'_def write_node_def smap_ok_put)
  qed
  then obtain L' where L': "split_leaf n axis q' ins L = Inr (m, L')" "stored (look L') None ?t"
      "dom (look L') = insert m (insert (m + 1) (dom (look L)))" "ly_root L' = tid ?t"
      "smap_ok (ly_nodes L')" "ly_next L' = m + 2" by blast
  have "represents L' ?t"
  proof (rule representsI [OF L'(2) _ _ L'(4,5)])
    show "distinct (tree_ids ?t)" using dist mC by (auto simp: tree_simps)
    show "dom (look L') = set (tree_ids ?t)" unfolding ids L'(3) D(3) ..
    show "0 < x \<and> x < ly_next L'" if "x \<in> set (tree_ids ?t)" for x
    proof -
      from that have "x = m \<or> x = m + 1 \<or> x \<in> set (tree_ids (plug C (TLeaf n q)))"
        unfolding ids by simp
      then show ?thesis using D(6) [of x] D(7) L'(6) by (auto simp: m_def)
    qed
  qed (use room L'(6) in \<open>simp_all add: m_def\<close>)
  with L'(1) show ?thesis by blast
qed

text \<open>The pane list after a split: the new pane is put beside the first occurrence of the old.\<close>

fun insert_beside :: "pane_insertion \<Rightarrow> 'a \<Rightarrow> 'a \<Rightarrow> 'a list \<Rightarrow> 'a list" where
  "insert_beside ins x y [] = []"
| "insert_beside ins x y (z # zs) =
     (if z = x then (if ins = BEFORE then y # z # zs else z # y # zs)
      else z # insert_beside ins x y zs)"

lemma insert_beside_append:
  "x \<notin> set xs \<Longrightarrow> insert_beside ins x y (xs @ x # zs) = xs @ (if ins = BEFORE then [y, x] else [x, y]) @ zs"
  by (induction xs) auto

lemma split_leaf_inv:
  assumes inv: "layout_inv L t" and leaf: "(n, q) \<in> set (tree_leaves t)"
    and fresh: "q' \<notin> set (tree_panes t)" and room: "int (ly_next L) + 1 < UINT64_MAX"
  shows "\<exists>L' t'. split_leaf n axis q' ins L = Inr (ly_next L, L') \<and> layout_inv L' t'
     \<and> (alternates t \<longrightarrow> alternates t')
     \<and> tree_panes t' = insert_beside ins q q' (tree_panes t)
     \<and> (ly_next L, q') \<in> set (tree_leaves t')"
proof -
  from inv have rep: "represents L t" and wf: "well_formed t" and dp: "distinct (tree_panes t)"
    by (auto simp: layout_inv_def)
  from leaf_context [OF leaf] obtain C where t: "t = plug C (TLeaf n q)" by blast
  have fp: "find_pane L q' = None" using find_pane_None_iff [OF rep] fresh by simp
  have panes: "tree_panes t = map snd (leaves_before C) @ q # map snd (leaves_after C)"
    by (simp add: t tree_panes_def tree_simps)
  have new: "insert_beside ins q q' (tree_panes t) = map snd (leaves_before C) @
      (if ins = BEFORE then [q', q] else [q, q']) @ map snd (leaves_after C)"
    unfolding panes by (rule insert_beside_append) (use dp panes in auto)
  have dn: "distinct (insert_beside ins q q' (tree_panes t))"
    unfolding new using dp [unfolded panes] fresh [unfolded panes] by auto
  show ?thesis
  proof (cases "ctx_axis C = Some axis")
    case True
    then obtain p ls w rs C' where C: "C = Frame p axis ls w rs # C'"
      by (cases C rule: ctx_axis.cases) auto
    have w: "0 \<le> w" "w \<le> 100"
      using frame_weight wf unfolding t C well_formed_plug by blast+
    let ?t' = "plug C' (TSplit p axis (ls @
       (if ins = BEFORE then [(TLeaf (ly_next L) q', (w + 1) div 2), (TLeaf n q, w div 2)]
        else [(TLeaf n q, (w + 1) div 2), (TLeaf (ly_next L) q', w div 2)]) @ rs))"
    obtain L' where L': "split_leaf n axis q' ins L = Inr (ly_next L, L')" "represents L' ?t'"
      using split_leaf_same_axis [OF rep [unfolded t C] w fp] room by auto
    have "well_formed ?t'" using wf unfolding t C
      by (auto simp: tree_simps kids_ok_def simp del: plug.simps)
    moreover have "tree_panes ?t' = insert_beside ins q q' (tree_panes t)"
      unfolding new C by (simp add: tree_panes_def tree_simps)
    moreover have "alternates t \<longrightarrow> alternates ?t'"
      unfolding t C by (auto simp: tree_simps simp del: plug.simps)
    moreover have "(ly_next L, q') \<in> set (tree_leaves ?t')" by (simp add: tree_simps)
    ultimately show ?thesis using L' dn unfolding layout_inv_def by metis
  next
    case False
    let ?t' = "plug C (TSplit (ly_next L + 1) axis
       (if ins = BEFORE then [(TLeaf (ly_next L) q', 50), (TLeaf n q, 50)]
        else [(TLeaf n q, 50), (TLeaf (ly_next L) q', 50)]))"
    obtain L' where L': "split_leaf n axis q' ins L = Inr (ly_next L, L')" "represents L' ?t'"
      using split_leaf_wrap [OF rep [unfolded t] False fp room] by auto
    have "well_formed ?t'" using wf unfolding t by (auto simp: tree_simps kids_ok_def)
    moreover have "tree_panes ?t' = insert_beside ins q q' (tree_panes t)"
      unfolding new by (simp add: tree_panes_def tree_simps)
    moreover have "alternates t \<longrightarrow> alternates ?t'"
      using False unfolding t by (auto simp: tree_simps ctx_alternates_iff)
    moreover have "(ly_next L, q') \<in> set (tree_leaves ?t')" by (simp add: tree_simps)
    ultimately show ?thesis using L' dn unfolding layout_inv_def by metis
  qed
qed

text \<open>
  C2: Splitting a leaf with a fresh pane succeeds while identifiers last: it returns the next
  identifier, the new layout represents a well-formed tree, the panes in reading order are the
  old ones with the new pane inserted beside the split one, and normal form is preserved.
\<close>

lemma split_leaf_correct:
  assumes inv: "layout_inv L t" and leaf: "(n, q) \<in> set (tree_leaves t)"
    and fresh: "q' \<notin> set (tree_panes t)" and room: "int (ly_next L) + 1 < UINT64_MAX"
  shows "\<exists>L' t'. split_leaf n axis q' ins L = Inr (ly_next L, L') \<and> layout_inv L' t'
     \<and> (alternates t \<longrightarrow> alternates t')
     \<and> tree_panes t' = insert_beside ins q q' (tree_panes t)
     \<and> (ly_next L, q') \<in> set (tree_leaves t')"
  by (rule split_leaf_inv [OF assms])

lemma split_leaf_correct_witness:
  "\<exists>L' t'. split_leaf 1 TOP_TO_BOTTOM 9 AFTER stacked_layout = Inr (6, L') \<and> layout_inv L' t'
     \<and> alternates t' \<and> tree_panes t' = [1, 9, 2, 3]"
proof -
  have "(1, 1) \<in> set (tree_leaves stacked_tree)" "9 \<notin> set (tree_panes stacked_tree)"
    by (simp_all add: stacked_facts)
  from split_leaf_correct [OF stacked_layout_inv this stacked_facts(4), of TOP_TO_BOTTOM AFTER]
  show ?thesis unfolding stacked_facts(2,5) insert_beside.simps using stacked_facts(3) by auto
qed

end
