(* ===== verification/Pane_Geometry.thy ===== *)
theory Pane_Geometry
  imports Pane_Represent "HOL-Library.Signed_Division"
begin

text \<open>
  The screen regions of a layout (src/src/base/terminal_size.h,
  src/src/parent/terminal/screen/terminal_position.h, src/src/parent/pane/pane_geometry.h and
  pane_geometry.cc). \<open>int\<close> arithmetic that may leave 32 bits (a percentage times an extent, a
  cursor plus an extent) is checked. The theorem is the tiling: every cell of the outer region
  belongs to exactly one leaf or separator, and no cell outside it belongs to any.
\<close>

section \<open>Data\<close>

record terminal_size =
  ts_rows :: int
  ts_cols :: int

record terminal_position =
  tp_row :: int
  tp_column :: int

record pane_region =
  rg_origin :: terminal_position
  rg_size :: terminal_size

record pane_separator =
  sep_split_node :: node_id
  sep_axis :: pane_split_axis
  sep_region :: pane_region

record pane_geometry =
  node_regions :: "(node_id, pane_region) smap"
  split_separators :: "pane_separator list"

definition geometry_region :: "pane_geometry \<Rightarrow> node_id \<Rightarrow> pane_region result" where
  "geometry_region G n =
     require (Out_of_range ''pane geometry node does not exist'') (smap_find (node_regions G) n)"

section \<open>The calculation\<close>

definition allocate_extent :: "pane_split_child list \<Rightarrow> int \<Rightarrow> int list result" where
  "allocate_extent children extent =
     throw_if (sum_list (map sc_pct children) \<noteq> MAX_VALUE)
       (Logic_error ''pane percentages must sum to 100 before geometry calculation'')
     (and_then (map_result (\<lambda>child. checked_int (sc_pct child * extent)) children) (\<lambda>scaled.
       (let sizes = map (\<lambda>s. s sdiv MAX_VALUE) scaled;
            remainders = map (\<lambda>s. s smod MAX_VALUE) scaled;
            assigned = sum_list sizes
        in bump_each (nat (extent - assigned)) (remainder_order remainders) sizes)))"

definition axis_extent :: "pane_split_axis \<Rightarrow> pane_region \<Rightarrow> int" where
  "axis_extent axis region =
     (if axis = LEFT_TO_RIGHT then ts_cols (rg_size region) else ts_rows (rg_size region))"

definition axis_origin :: "pane_split_axis \<Rightarrow> pane_region \<Rightarrow> int" where
  "axis_origin axis region =
     (if axis = LEFT_TO_RIGHT then tp_column (rg_origin region) else tp_row (rg_origin region))"

text \<open>The region with another origin and size along the axis.\<close>

definition axis_slice :: "pane_split_axis \<Rightarrow> pane_region \<Rightarrow> int \<Rightarrow> int \<Rightarrow> pane_region" where
  "axis_slice axis region cursor extent =
     (if axis = LEFT_TO_RIGHT
      then region\<lparr>rg_origin := (rg_origin region)\<lparr>tp_column := cursor\<rparr>,
                  rg_size := (rg_size region)\<lparr>ts_cols := extent\<rparr>\<rparr>
      else region\<lparr>rg_origin := (rg_origin region)\<lparr>tp_row := cursor\<rparr>,
                  rg_size := (rg_size region)\<lparr>ts_rows := extent\<rparr>\<rparr>)"

text \<open>One round of the loop over the children: \<open>place\<close> is the recursive call.\<close>

definition append_child ::
  "(node_id \<Rightarrow> pane_region \<Rightarrow> pane_geometry \<Rightarrow> pane_geometry result) \<Rightarrow> node_id \<Rightarrow> pane_split \<Rightarrow>
   pane_region \<Rightarrow> int \<Rightarrow> nat \<times> pane_split_child \<times> int \<Rightarrow> int \<times> pane_geometry \<Rightarrow>
   (int \<times> pane_geometry) result" where
  "append_child place node_id split region separator_count = (\<lambda>(index, child, extent) (cursor, G).
     and_then (place (sc_node child) (axis_slice (sp_axis split) region cursor extent) G) (\<lambda>G'.
     and_then (checked_int (cursor + extent)) (\<lambda>cursor'.
     if separator_count > 0 \<and> index + 1 < length (sp_children split)
     then and_then (checked_int (cursor' + 1)) (\<lambda>cursor''.
       Inr (cursor'', G'\<lparr>split_separators := split_separators G' @
         [\<lparr>sep_split_node = node_id, sep_axis = sp_axis split,
           sep_region = axis_slice (sp_axis split) region cursor' 1\<rparr>]\<rparr>))
     else Inr (cursor', G'))))"

primrec append_region ::
  "pane_layout \<Rightarrow> nat \<Rightarrow> node_id \<Rightarrow> pane_region \<Rightarrow> pane_geometry \<Rightarrow> pane_geometry result" where
  "append_region L 0 = (\<lambda>node_id region G. Inl Out_of_fuel)"
| "append_region L (Suc depth) = (\<lambda>node_id region G.
     (let G1 = G\<lparr>node_regions := smap_emplace node_id region (node_regions G)\<rparr> in
      and_then (node L node_id) (\<lambda>nd. case nd_contents nd of
        Pane_leaf _ \<Rightarrow> Inr G1
      | Pane_split split \<Rightarrow>
          (let full_extent = axis_extent (sp_axis split) region;
               requested_separator_count = int (length (sp_children split)) - 1;
               separator_count =
                 (if full_extent \<ge> requested_separator_count then requested_separator_count else 0);
               content_extent = full_extent - separator_count in
           and_then (allocate_extent (sp_children split) content_extent) (\<lambda>child_extents.
           and_then (fold_result
               (append_child (append_region L depth) node_id split region separator_count)
               (zip [0..<length (sp_children split)] (zip (sp_children split) child_extents))
               (axis_origin (sp_axis split) region, G1)) (\<lambda>(cursor, G'). Inr G'))))))"

definition calculate_pane_geometry :: "pane_layout \<Rightarrow> pane_region \<Rightarrow> pane_geometry result" where
  "calculate_pane_geometry L outer_region =
     throw_if (ts_rows (rg_size outer_region) < 0 \<or> ts_cols (rg_size outer_region) < 0)
       (Invalid_argument ''pane geometry cannot use a negative terminal size'')
     (append_region L (layout_depth_bound L) (ly_root L) outer_region
       \<lparr>node_regions = [], split_separators = []\<rparr>)"

section \<open>Extents\<close>

lemma sdiv_smod_nonneg: "0 \<le> a \<Longrightarrow> 0 < b \<Longrightarrow> a sdiv b = a div b \<and> a smod b = a mod (b::int)"
  by (cases "a = 0") (simp_all add: signed_divide_int_def signed_modulo_int_def)

lemma allocate_extent_laws:
  assumes kids: "kids_ok ks" and extent: "0 \<le> extent" "100 * extent \<le> INT32_MAX"
  obtains es where "allocate_extent (map kid_entry ks) extent = Inr es" "length es = length ks"
    "sum_list es = extent" "\<forall>e \<in> set es. 0 \<le> e"
    "\<And>i. i < length ks \<Longrightarrow> es ! i = snd (ks ! i) * extent div 100 \<or> es ! i = snd (ks ! i) * extent div 100 + 1"
proof -
  from kids have ne: "ks \<noteq> []" and nn: "\<forall>k \<in> set ks. 0 \<le> snd k" and s: "sum_list (map snd ks) = 100"
    by (auto simp: kids_ok_def)
  let ?scaled = "map (\<lambda>k. snd k * extent) ks"
  have le: "snd k \<le> 100" if k: "k \<in> set ks" for k
  proof -
    have "snd k \<le> sum_list (map snd ks)"
      by (rule member_le_sum_list) (use k nn in \<open>auto simp del: split_paired_All\<close>)
    with s show ?thesis by simp
  qed
  have b: "0 \<le> snd k * extent" "snd k * extent \<le> INT32_MAX" "INT32_MIN \<le> snd k * extent" if k: "k \<in> set ks" for k
  proof -
    show n: "0 \<le> snd k * extent" using nn k extent by simp
    then show "INT32_MIN \<le> snd k * extent" by (simp add: INT32_MIN_def)
    have "snd k * extent \<le> 100 * extent" using le [OF k] extent by (intro mult_right_mono) auto
    with extent show "snd k * extent \<le> INT32_MAX" by simp
  qed
  have "map_result (\<lambda>child. checked_int (sc_pct child * extent)) (map kid_entry ks)
      = Inr (map (\<lambda>child. sc_pct child * extent) (map kid_entry ks))"
    by (rule map_result_Inr) (use b in \<open>auto simp del: split_paired_All\<close>)
  then have mr: "map_result (\<lambda>child. checked_int (sc_pct child * extent)) (map kid_entry ks) = Inr ?scaled"
    by (simp add: comp_def)
  have dm: "map (\<lambda>s. s sdiv MAX_VALUE) ?scaled = map (\<lambda>s. s div MAX_VALUE) ?scaled"
    "map (\<lambda>s. s smod MAX_VALUE) ?scaled = map (\<lambda>s. s mod MAX_VALUE) ?scaled"
    using b sdiv_smod_nonneg [of _ MAX_VALUE] by (auto simp: MAX_VALUE_def)
  have sum: "sum_list (map sc_pct (map kid_entry ks)) = MAX_VALUE"
    using s by (simp add: comp_def MAX_VALUE_def)
  have eq: "allocate_extent (map kid_entry ks) extent = largest_remainder ?scaled MAX_VALUE extent"
    unfolding allocate_extent_def largest_remainder_def Let_def mr and_then.simps dm sum by simp
  have "sum_list ?scaled = MAX_VALUE * extent"
    using s by (simp add: sum_list_mult_const MAX_VALUE_def)
  from largest_remainder_laws [OF _ this] ne obtain es
    where es: "largest_remainder ?scaled MAX_VALUE extent = Inr es" "length es = length ks"
      "sum_list es = extent"
      "\<And>i. i < length ks \<Longrightarrow> es ! i = ?scaled ! i div MAX_VALUE \<or> es ! i = ?scaled ! i div MAX_VALUE + 1"
    by (auto simp: MAX_VALUE_def)
  have q: "es ! i = snd (ks ! i) * extent div 100 \<or> es ! i = snd (ks ! i) * extent div 100 + 1" if "i < length ks" for i
    using es(4) [OF that] that by (simp add: MAX_VALUE_def)
  have "0 \<le> e" if "e \<in> set es" for e
  proof -
    from that es(2) obtain i where i: "i < length ks" "e = es ! i" by (auto simp: in_set_conv_nth)
    then have "ks ! i \<in> set ks" by simp
    then have "0 \<le> snd (ks ! i) * extent div 100" using b(1) by (simp add: pos_imp_zdiv_nonneg_iff)
    with q [OF i(1)] i(2) show ?thesis by auto
  qed
  then show ?thesis using es(1-3) q eq by (intro that [of es]) simp_all
qed


section \<open>The tiling of the outer region\<close>

fun in_region :: "int \<times> int \<Rightarrow> pane_region \<Rightarrow> bool" where
  "in_region (r, c) region \<longleftrightarrow>
     tp_row (rg_origin region) \<le> r \<and> r < tp_row (rg_origin region) + ts_rows (rg_size region)
     \<and> tp_column (rg_origin region) \<le> c \<and> c < tp_column (rg_origin region) + ts_cols (rg_size region)"

text \<open>The regions whose arithmetic stays within 32 bits, whatever the layout.\<close>

definition region_fits :: "pane_region \<Rightarrow> bool" where
  "region_fits region \<longleftrightarrow>
     0 \<le> ts_rows (rg_size region) \<and> 100 * ts_rows (rg_size region) \<le> INT32_MAX
     \<and> 0 \<le> ts_cols (rg_size region) \<and> 100 * ts_cols (rg_size region) \<le> INT32_MAX
     \<and> INT32_MIN \<le> tp_row (rg_origin region)
     \<and> tp_row (rg_origin region) + ts_rows (rg_size region) \<le> INT32_MAX
     \<and> INT32_MIN \<le> tp_column (rg_origin region)
     \<and> tp_column (rg_origin region) + ts_cols (rg_size region) \<le> INT32_MAX"

definition along :: "pane_split_axis \<Rightarrow> int \<times> int \<Rightarrow> int" where
  "along axis cell = (if axis = LEFT_TO_RIGHT then snd cell else fst cell)"

definition across :: "pane_split_axis \<Rightarrow> int \<times> int \<Rightarrow> pane_region \<Rightarrow> bool" where
  "across axis cell region \<longleftrightarrow>
     (if axis = LEFT_TO_RIGHT
      then tp_row (rg_origin region) \<le> fst cell
         \<and> fst cell < tp_row (rg_origin region) + ts_rows (rg_size region)
      else tp_column (rg_origin region) \<le> snd cell
         \<and> snd cell < tp_column (rg_origin region) + ts_cols (rg_size region))"

lemma in_slice: "in_region cell (axis_slice axis region c e) \<longleftrightarrow>
    c \<le> along axis cell \<and> along axis cell < c + e \<and> across axis cell region"
  by (cases cell) (auto simp: axis_slice_def along_def across_def)

lemma in_region_axis: "in_region cell region \<longleftrightarrow>
    axis_origin axis region \<le> along axis cell
    \<and> along axis cell < axis_origin axis region + axis_extent axis region \<and> across axis cell region"
  by (cases cell) (auto simp: axis_origin_def axis_extent_def along_def across_def)

lemma slice_fits:
  "region_fits region \<Longrightarrow> axis_origin axis region \<le> c \<Longrightarrow> 0 \<le> e \<Longrightarrow>
   c + e \<le> axis_origin axis region + axis_extent axis region \<Longrightarrow> region_fits (axis_slice axis region c e)"
  by (cases axis) (auto simp: region_fits_def axis_slice_def axis_origin_def axis_extent_def)

text \<open>A region no larger than \<open>B\<close>.\<close>

definition within :: "terminal_size \<Rightarrow> pane_region \<Rightarrow> bool" where
  "within B region \<longleftrightarrow> ts_rows (rg_size region) \<le> ts_rows B \<and> ts_cols (rg_size region) \<le> ts_cols B"

lemma slice_within:
  "within B region \<Longrightarrow> axis_origin axis region \<le> c \<Longrightarrow>
   c + e \<le> axis_origin axis region + axis_extent axis region \<Longrightarrow> within B (axis_slice axis region c e)"
  by (cases axis) (auto simp: within_def axis_slice_def axis_origin_def axis_extent_def)

text \<open>How many of the leaves and separators of a geometry hold a cell.\<close>

definition holders :: "int \<times> int \<Rightarrow> pane_geometry \<Rightarrow> node_id list \<Rightarrow> nat" where
  "holders cell G ns =
     length (filter (\<lambda>n. case smap_find (node_regions G) n of None \<Rightarrow> False
                        | Some region \<Rightarrow> in_region cell region) ns)
     + length (filter (\<lambda>s. in_region cell (sep_region s)) (split_separators G))"

definition indicator_of :: "bool \<Rightarrow> nat" where
  "indicator_of b = (if b then 1 else 0)"

text \<open>
  \<open>placed B ns ids G G' covered\<close>: a step from \<open>G\<close> to \<open>G'\<close> gives regions to exactly the nodes
  \<open>ids\<close>, none larger than \<open>B\<close>, and adds leaves \<open>ns\<close> and separators that hold the cells \<open>covered\<close> once each.
\<close>

definition placed ::
  "terminal_size \<Rightarrow> node_id list \<Rightarrow> node_id set \<Rightarrow> pane_geometry \<Rightarrow> pane_geometry \<Rightarrow> (int \<times> int \<Rightarrow> bool) \<Rightarrow> bool" where
  "placed B ns ids G G' covered \<longleftrightarrow>
     (\<forall>n. n \<notin> ids \<longrightarrow> smap_find (node_regions G') n = smap_find (node_regions G) n)
     \<and> dom (smap_find (node_regions G')) = dom (smap_find (node_regions G)) \<union> ids
     \<and> (\<forall>n region. n \<in> ids \<longrightarrow> smap_find (node_regions G') n = Some region \<longrightarrow> within B region)
     \<and> (\<exists>new. split_separators G' = split_separators G @ new
          \<and> (\<forall>cell. length (filter (\<lambda>n. case smap_find (node_regions G') n of None \<Rightarrow> False
                        | Some region \<Rightarrow> in_region cell region) ns)
                 + length (filter (\<lambda>s. in_region cell (sep_region s)) new) = indicator_of (covered cell)))"

lemma placed_refl: "placed B [] {} G G (\<lambda>_. False)"
  by (simp add: placed_def indicator_of_def)

lemma placed_trans:
  assumes a: "placed B ns ids G G1 c" and b: "placed B ns' ids' G1 G2 c'"
    and disj: "ids \<inter> ids' = {}" "set ns \<subseteq> ids" and excl: "\<And>cell. \<not> (c cell \<and> c' cell)"
  shows "placed B (ns @ ns') (ids \<union> ids') G G2 (\<lambda>cell. c cell \<or> c' cell)"
proof -
  from a obtain new where new: "split_separators G1 = split_separators G @ new"
    "\<And>cell. length (filter (\<lambda>n. case smap_find (node_regions G1) n of None \<Rightarrow> False
        | Some region \<Rightarrow> in_region cell region) ns)
      + length (filter (\<lambda>s. in_region cell (sep_region s)) new) = indicator_of (c cell)"
    unfolding placed_def by blast
  from b obtain new' where new': "split_separators G2 = split_separators G1 @ new'"
    "\<And>cell. length (filter (\<lambda>n. case smap_find (node_regions G2) n of None \<Rightarrow> False
        | Some region \<Rightarrow> in_region cell region) ns')
      + length (filter (\<lambda>s. in_region cell (sep_region s)) new') = indicator_of (c' cell)"
    unfolding placed_def by blast
  have keep: "filter (\<lambda>n. case smap_find (node_regions G2) n of None \<Rightarrow> False
        | Some region \<Rightarrow> in_region cell region) ns
      = filter (\<lambda>n. case smap_find (node_regions G1) n of None \<Rightarrow> False
        | Some region \<Rightarrow> in_region cell region) ns" for cell
  proof (rule filter_cong [OF refl])
    fix n assume "n \<in> set ns"
    then have "n \<notin> ids'" using disj by blast
    then have "smap_find (node_regions G2) n = smap_find (node_regions G1) n"
      using b unfolding placed_def by blast
    then show "(case smap_find (node_regions G2) n of None \<Rightarrow> False | Some region \<Rightarrow> in_region cell region)
      = (case smap_find (node_regions G1) n of None \<Rightarrow> False | Some region \<Rightarrow> in_region cell region)"
      by simp
  qed
  have "length (filter (\<lambda>n. case smap_find (node_regions G2) n of None \<Rightarrow> False
        | Some region \<Rightarrow> in_region cell region) (ns @ ns'))
      + length (filter (\<lambda>s. in_region cell (sep_region s)) (new @ new'))
      = indicator_of (c cell \<or> c' cell)" for cell
    using new(2) [of cell] new'(2) [of cell] excl [of cell]
    by (simp add: keep indicator_of_def split: if_splits)
  moreover have "split_separators G2 = split_separators G @ new @ new'" using new(1) new'(1) by simp
  moreover have "within B region" if "n \<in> ids \<union> ids'" "smap_find (node_regions G2) n = Some region" for n region
    using that a b disj(1) unfolding placed_def by (metis Un_iff disjoint_iff)
  ultimately show ?thesis using a b unfolding placed_def by auto
qed

lemma placed_separator:
  "placed B [] {} G (G\<lparr>split_separators := split_separators G @ [s]\<rparr>) (\<lambda>cell. in_region cell (sep_region s))"
  by (auto simp: placed_def indicator_of_def)

lemma placed_leaf:
  "smap_find (node_regions G) n = None \<Longrightarrow> within B region \<Longrightarrow>
   placed B [n] {n} G (G\<lparr>node_regions := smap_emplace n region (node_regions G)\<rparr>)
     (\<lambda>cell. in_region cell region)"
  by (auto simp: placed_def indicator_of_def smap_find_emplace)

lemma placed_split:
  "smap_find (node_regions G) n = None \<Longrightarrow> within B region \<Longrightarrow>
   placed B [] {n} G (G\<lparr>node_regions := smap_emplace n region (node_regions G)\<rparr>) (\<lambda>_. False)"
  by (auto simp: placed_def indicator_of_def smap_find_emplace)

lemma placed_cong:
  "placed B ns ids G G' c \<Longrightarrow> (\<And>cell. c cell = c' cell) \<Longrightarrow> placed B ns ids G G' c'"
  by (simp add: placed_def)

lemma children_placed:
  fixes region :: pane_region and sepc c :: int and split :: pane_split
  defines "gaps \<equiv> \<lambda>ks::(ptree \<times> int) list. if 0 < sepc \<and> ks \<noteq> [] then int (length ks) - 1 else 0"
    and "end_of \<equiv> axis_origin (sp_axis split) region + axis_extent (sp_axis split) region"
  assumes place: "\<And>k rg G. k \<in> set ks \<Longrightarrow> region_fits rg \<Longrightarrow> within B rg \<Longrightarrow>
      dom (smap_find (node_regions G)) \<inter> set (tree_ids (fst k)) = {} \<Longrightarrow>
      \<exists>G'. place (tid (fst k)) rg G = Inr G' \<and>
        placed B (map fst (tree_leaves (fst k))) (set (tree_ids (fst k))) G G' (\<lambda>cell. in_region cell rg)"
    and "length es = length ks" "\<forall>e \<in> set es. 0 \<le> e" "i + length ks = length (sp_children split)"
    and fits: "region_fits region" "within B region"
    and "distinct (concat (map (\<lambda>k. tree_ids (fst k)) ks))"
    and "dom (smap_find (node_regions G)) \<inter> set (concat (map (\<lambda>k. tree_ids (fst k)) ks)) = {}"
    and "axis_origin (sp_axis split) region \<le> c" "c + sum_list es + gaps ks \<le> end_of"
  shows "\<exists>c' G'. fold_result (append_child place n split region sepc)
        (zip [i..<i + length ks] (zip (map kid_entry ks) es)) (c, G) = Inr (c', G')
     \<and> placed B (map fst (concat (map (\<lambda>k. tree_leaves (fst k)) ks)))
          (set (concat (map (\<lambda>k. tree_ids (fst k)) ks))) G G'
          (\<lambda>cell. c \<le> along (sp_axis split) cell \<and> along (sp_axis split) cell < c + sum_list es + gaps ks
             \<and> across (sp_axis split) cell region)"
  using assms(3-6,9-)
proof (induction ks arbitrary: es i c G)
  case Nil
  then show ?case using placed_refl [of B G] placed_cong
    by (simp add: gaps_def)
next
  case (Cons k ks)
  obtain e es' where es: "es = e # es'" using Cons.prems(2) by (cases es) simp_all
  let ?ax = "sp_axis split"
  let ?ids = "\<lambda>ks. concat (map (\<lambda>k. tree_ids (fst k)) ks)"
  have nn: "0 \<le> e" "\<forall>e \<in> set es'. 0 \<le> e" "0 \<le> sum_list es'" "length es' = length ks"
    using Cons.prems(2,3) es by (auto intro!: sum_list_nonneg)
  have g0: "0 \<le> gaps ks'" for ks' unfolding gaps_def by (cases ks') simp_all
  define extra where "extra = (if 0 < sepc \<and> ks \<noteq> [] then 1 else 0 :: int)"
  have gk: "gaps (k # ks) = extra + gaps ks" by (cases ks) (simp_all add: gaps_def extra_def)
  have bound: "c + e + extra + sum_list es' + gaps ks \<le> end_of" using Cons.prems(8) es gk by simp
  have extra: "0 \<le> extra" by (simp add: extra_def)
  have range: "INT32_MIN \<le> axis_origin ?ax region" "end_of \<le> INT32_MAX"
    using fits by (auto simp: region_fits_def axis_origin_def axis_extent_def end_of_def)
  have fe: "region_fits (axis_slice ?ax region c e)"
    using fits Cons.prems(7) nn bound extra g0 [of ks]
    by (intro slice_fits) (auto simp: end_of_def)
  have we: "within B (axis_slice ?ax region c e)"
    using fits Cons.prems(7) bound extra nn g0 [of ks] by (intro slice_within) (auto simp: end_of_def)
  have dj: "dom (smap_find (node_regions G)) \<inter> set (tree_ids (fst k)) = {}"
    using Cons.prems(6) by auto
  obtain G1 where G1: "place (tid (fst k)) (axis_slice ?ax region c e) G = Inr G1"
    "placed B (map fst (tree_leaves (fst k))) (set (tree_ids (fst k))) G G1
       (\<lambda>cell. in_region cell (axis_slice ?ax region c e))"
    using Cons.prems(1) [OF _ fe we dj] by auto
  define G2 where "G2 = (if extra = 1 then G1\<lparr>split_separators := split_separators G1 @
         [\<lparr>sep_split_node = n, sep_axis = ?ax, sep_region = axis_slice ?ax region (c + e) 1\<rparr>]\<rparr> else G1)"
  have G2: "placed B [] {} G1 G2 (\<lambda>cell. in_region cell (axis_slice ?ax region (c + e) extra))"
  proof (cases "extra = 1")
    case True
    then show ?thesis using placed_separator [of B G1 "\<lparr>sep_split_node = n, sep_axis = ?ax,
        sep_region = axis_slice ?ax region (c + e) 1\<rparr>"] by (simp add: G2_def)
  next
    case False
    then have "extra = 0" by (simp add: extra_def split: if_splits)
    then show ?thesis using placed_refl [of B G1]
      by (simp add: G2_def) (erule placed_cong, simp add: in_slice)
  qed
  have p12: "placed B (map fst (tree_leaves (fst k))) (set (tree_ids (fst k))) G G2
      (\<lambda>cell. in_region cell (axis_slice ?ax region c e) \<or> in_region cell (axis_slice ?ax region (c + e) extra))"
    using placed_trans [OF G1(2) G2] leaf_ids [of "fst k"] by (auto simp: in_slice)
  have c1: "checked_int (c + e) = Inr (c + e)" "checked_int (c + e + extra) = Inr (c + e + extra)"
    using range Cons.prems(7) nn bound extra g0 [of ks] by (auto intro!: checked_int_ok)
  have step: "append_child place n split region sepc (i, kid_entry k, e) (c, G) = Inr (c + e + extra, G2)"
  proof -
    have "0 < sepc \<and> i + 1 < length (sp_children split) \<longleftrightarrow> extra = 1"
      using Cons.prems(4) by (cases ks) (auto simp: extra_def)
    then show ?thesis using G1(1) c1
      by (cases "extra = 1") (auto simp: append_child_def G2_def extra_def split: if_splits)
  qed
  have dj2: "dom (smap_find (node_regions G2)) \<inter> set (?ids ks) = {}"
  proof -
    have "dom (smap_find (node_regions G2)) = dom (smap_find (node_regions G)) \<union> set (tree_ids (fst k))"
      using p12 unfolding placed_def by blast
    then show ?thesis using Cons.prems(5,6) by auto
  qed
  obtain c' G' where G': "fold_result (append_child place n split region sepc)
        (zip [i + 1..<i + 1 + length ks] (zip (map kid_entry ks) es')) (c + e + extra, G2) = Inr (c', G')"
     "placed B (map fst (concat (map (\<lambda>k. tree_leaves (fst k)) ks))) (set (?ids ks)) G2 G'
          (\<lambda>cell. c + e + extra \<le> along ?ax cell \<and> along ?ax cell < c + e + extra + sum_list es' + gaps ks
             \<and> across ?ax cell region)"
  proof -
    have "\<exists>c' G'. fold_result (append_child place n split region sepc)
        (zip [i + 1..<i + 1 + length ks] (zip (map kid_entry ks) es')) (c + e + extra, G2) = Inr (c', G')
     \<and> placed B (map fst (concat (map (\<lambda>k. tree_leaves (fst k)) ks))) (set (?ids ks)) G2 G'
          (\<lambda>cell. c + e + extra \<le> along ?ax cell \<and> along ?ax cell < c + e + extra + sum_list es' + gaps ks
             \<and> across ?ax cell region)"
      by (rule Cons.IH) (use Cons.prems nn dj2 bound extra in auto)
    then show ?thesis using that by blast
  qed
  have "placed B (map fst (tree_leaves (fst k)) @ map fst (concat (map (\<lambda>k. tree_leaves (fst k)) ks)))
      (set (tree_ids (fst k)) \<union> set (?ids ks)) G G'
      (\<lambda>cell. (in_region cell (axis_slice ?ax region c e) \<or> in_region cell (axis_slice ?ax region (c + e) extra))
        \<or> (c + e + extra \<le> along ?ax cell \<and> along ?ax cell < c + e + extra + sum_list es' + gaps ks
             \<and> across ?ax cell region))"
    by (rule placed_trans [OF p12 G'(2)])
      (use Cons.prems(5) leaf_ids [of "fst k"] extra nn in \<open>auto simp: in_slice\<close>)
  then have "placed B (map fst (concat (map (\<lambda>k. tree_leaves (fst k)) (k # ks)))) (set (?ids (k # ks))) G G'
      (\<lambda>cell. c \<le> along ?ax cell \<and> along ?ax cell < c + sum_list es + gaps (k # ks)
         \<and> across ?ax cell region)"
    using nn extra g0 [of ks] es gk
    by (simp del: set_concat) (erule placed_cong, auto simp: in_slice)
  moreover have "zip [i..<i + length (k # ks)] (zip (map kid_entry (k # ks)) es)
      = (i, kid_entry k, e) # zip [i + 1..<i + 1 + length ks] (zip (map kid_entry ks) es')"
    using es by (simp add: upt_conv_Cons del: upt_Suc)
  ultimately show ?case using step G'(1) by (intro exI [of _ c'] exI [of _ G']) simp
qed

lemma append_region_placed:
  assumes "stored (look L) p s" "well_formed s" "tree_height s \<le> d" "distinct (tree_ids s)"
    and "region_fits region" "within B region" "dom (smap_find (node_regions G)) \<inter> set (tree_ids s) = {}"
  shows "\<exists>G'. append_region L d (tid s) region G = Inr G'
     \<and> placed B (map fst (tree_leaves s)) (set (tree_ids s)) G G' (\<lambda>cell. in_region cell region)
     \<and> smap_find (node_regions G') (tid s) = Some region"
  using assms
proof (induction s arbitrary: p d region G rule: ptree_induct)
  case (TLeaf n q)
  then obtain d' where d: "d = Suc d'" by (cases d) auto
  have nn: "smap_find (node_regions G) n = None" using TLeaf.prems(7) by (auto simp: domIff)
  show ?case using TLeaf.prems(1) placed_leaf [OF nn TLeaf.prems(6)] nn
    by (simp add: d layout_access Let_def smap_find_emplace)
next
  case (TSplit n ax ks)
  then obtain d' where d: "d = Suc d'" by (cases d) auto
  let ?ids = "concat (map (\<lambda>k. tree_ids (fst k)) ks)"
  have st: "look L n = Some (split_node_of n p ax (map kid_entry ks))"
    "\<forall>k \<in> set ks. stored (look L) (Some n) (fst k)" using TSplit.prems(1) by simp_all
  have wf: "2 \<le> length ks" "kids_ok ks" "\<forall>k \<in> set ks. well_formed (fst k)"
    using TSplit.prems(2) by simp_all
  have nn: "smap_find (node_regions G) n = None" using TSplit.prems(7) by (auto simp: domIff)
  let ?split = "\<lparr>sp_axis = ax, sp_children = map kid_entry ks\<rparr>"
  define full where "full = axis_extent ax region"
  define sepc where "sepc = (if full \<ge> int (length ks) - 1 then int (length ks) - 1 else 0)"
  have f0: "0 \<le> full" "100 * full \<le> INT32_MAX"
    using TSplit.prems(5) by (auto simp: full_def region_fits_def axis_extent_def)
  have content: "0 \<le> full - sepc" "100 * (full - sepc) \<le> INT32_MAX"
    using f0 wf(1) by (auto simp: sepc_def)
  obtain es where es: "allocate_extent (map kid_entry ks) (full - sepc) = Inr es" "length es = length ks"
    "sum_list es = full - sepc" "\<forall>e \<in> set es. 0 \<le> e"
    by (rule allocate_extent_laws [OF wf(2) content]) (rule that; assumption)
  define G1 where "G1 = G\<lparr>node_regions := smap_emplace n region (node_regions G)\<rparr>"
  have p1: "placed B [] {n} G G1 (\<lambda>_. False)" unfolding G1_def by (rule placed_split [OF nn TSplit.prems(6)])
  have dist: "distinct ?ids" "n \<notin> set ?ids" using TSplit.prems(4) by simp_all
  have dj: "dom (smap_find (node_regions G1)) \<inter> set ?ids = {}"
    using TSplit.prems(7) dist(2) p1 unfolding placed_def by auto
  have gaps: "(if 0 < sepc \<and> ks \<noteq> [] then int (length ks) - 1 else 0) = sepc"
    using wf(1) by (auto simp: sepc_def)
  have kid: "\<exists>G'. append_region L d' (tid (fst k)) rg G0 = Inr G' \<and>
        placed B (map fst (tree_leaves (fst k))) (set (tree_ids (fst k))) G0 G' (\<lambda>cell. in_region cell rg)"
    if k: "k \<in> set ks" and fits: "region_fits rg" "within B rg"
      and dj0: "dom (smap_find (node_regions G0)) \<inter> set (tree_ids (fst k)) = {}" for k rg G0
  proof -
    have "tree_height (fst k) \<le> d'" using height_kid [OF k, of n ax] TSplit.prems(3) d by linarith
    moreover have "distinct (tree_ids (fst k))" using dist(1) k by (auto simp: distinct_concat_iff)
    moreover have "stored (look L) (Some n) (fst k)" "well_formed (fst k)" using st(2) wf(3) k by blast+
    ultimately show ?thesis using TSplit.IH [OF k] fits dj0 by meson
  qed
  obtain c' G' where G': "fold_result (append_child (append_region L d') n ?split region sepc)
        (zip [0..<length ks] (zip (map kid_entry ks) es)) (axis_origin ax region, G1) = Inr (c', G')"
     "placed B (map fst (concat (map (\<lambda>k. tree_leaves (fst k)) ks))) (set ?ids) G1 G'
          (\<lambda>cell. axis_origin ax region \<le> along ax cell
             \<and> along ax cell < axis_origin ax region + sum_list es + sepc \<and> across ax cell region)"
  proof -
    have "\<exists>c' G'. fold_result (append_child (append_region L d') n ?split region sepc)
        (zip [0..<0 + length ks] (zip (map kid_entry ks) es)) (axis_origin (sp_axis ?split) region, G1) = Inr (c', G')
     \<and> placed B (map fst (concat (map (\<lambda>k. tree_leaves (fst k)) ks))) (set ?ids) G1 G'
          (\<lambda>cell. axis_origin (sp_axis ?split) region \<le> along (sp_axis ?split) cell
             \<and> along (sp_axis ?split) cell < axis_origin (sp_axis ?split) region + sum_list es
                + (if 0 < sepc \<and> ks \<noteq> [] then int (length ks) - 1 else 0)
             \<and> across (sp_axis ?split) cell region)"
      by (rule children_placed [OF kid es(2,4) _ TSplit.prems(5,6) dist(1) dj])
        (use es(3) gaps in \<open>simp_all add: full_def\<close>)
    then show ?thesis unfolding gaps using that by auto
  qed
  have "placed B (map fst (tree_leaves (TSplit n ax ks))) (set (tree_ids (TSplit n ax ks))) G G'
      (\<lambda>cell. in_region cell region)"
  proof -
    have "placed B ([] @ map fst (concat (map (\<lambda>k. tree_leaves (fst k)) ks))) ({n} \<union> set ?ids) G G'
        (\<lambda>cell. False \<or> (axis_origin ax region \<le> along ax cell
             \<and> along ax cell < axis_origin ax region + sum_list es + sepc \<and> across ax cell region))"
      by (rule placed_trans [OF p1 G'(2)]) (use dist(2) in auto)
    then show ?thesis using es(3) in_region_axis [of _ region ax]
      by (simp add: full_def)
  qed
  moreover have "smap_find (node_regions G') n = Some region"
  proof -
    have "smap_find (node_regions G') n = smap_find (node_regions G1) n"
      using G'(2) dist(2) unfolding placed_def by blast
    then show ?thesis using nn by (simp add: G1_def smap_find_emplace)
  qed
  moreover have "append_region L d n region G = Inr G'"
    using st(1) es(1) G'(1) by (simp add: d layout_access Let_def G1_def full_def sepc_def)
  ultimately show ?case by auto
qed

lemma geometry_tiles:
  assumes inv: "layout_inv L t" and fits: "region_fits outer"
  shows "\<exists>G. calculate_pane_geometry L outer = Inr G
     \<and> dom (smap_find (node_regions G)) = set (tree_ids t)
     \<and> smap_find (node_regions G) (ly_root L) = Some outer
     \<and> (\<forall>cell. holders cell G (map fst (tree_leaves t)) = indicator_of (in_region cell outer))
     \<and> (\<forall>n region. smap_find (node_regions G) n = Some region \<longrightarrow> within (rg_size outer) region)"
proof -
  from inv have rep: "represents L t" and wf: "well_formed t" by (auto simp: layout_inv_def)
  note D = representsD [OF rep]
  let ?G = "\<lparr>node_regions = [], split_separators = []\<rparr>"
  have "tree_height t \<le> layout_depth_bound L" using depth_bound [of L "[]" t] rep by simp
  moreover have "dom (smap_find (node_regions ?G)) \<inter> set (tree_ids t) = {}" by (simp add: smap_find_map_of)
  ultimately obtain G where G: "append_region L (layout_depth_bound L) (tid t) outer ?G = Inr G"
    "placed (rg_size outer) (map fst (tree_leaves t)) (set (tree_ids t)) ?G G (\<lambda>cell. in_region cell outer)"
    "smap_find (node_regions G) (tid t) = Some outer"
    using append_region_placed [OF D(1) wf _ D(2) fits, where B = "rg_size outer"] unfolding within_def by blast
  have "0 \<le> ts_rows (rg_size outer)" "0 \<le> ts_cols (rg_size outer)"
    using fits by (simp_all add: region_fits_def)
  then have "calculate_pane_geometry L outer = Inr G"
    using G(1) D(4) by (simp add: calculate_pane_geometry_def)
  moreover have "dom (smap_find (node_regions G)) = set (tree_ids t)"
    using G(2) unfolding placed_def by (simp add: smap_find_map_of)
  moreover have "holders cell G (map fst (tree_leaves t)) = indicator_of (in_region cell outer)" for cell
  proof -
    obtain new where "split_separators G = split_separators ?G @ new"
      "length (filter (\<lambda>n. case smap_find (node_regions G) n of None \<Rightarrow> False
          | Some region \<Rightarrow> in_region cell region) (map fst (tree_leaves t)))
        + length (filter (\<lambda>s. in_region cell (sep_region s)) new) = indicator_of (in_region cell outer)"
      using G(2) unfolding placed_def by blast
    then show ?thesis unfolding holders_def by simp
  qed
  moreover have "within (rg_size outer) region" if "smap_find (node_regions G) n = Some region" for n region
    using G(2) that unfolding placed_def by (auto simp: smap_find_map_of)
  ultimately show ?thesis using G(3) D(4) by auto
qed

text \<open>
  C4: The geometry of a layout on any region whose arithmetic fits 32 bits is computed without
  overflow or error, gives a region to exactly the nodes of the layout, the outer region to
  the root, and every cell of the outer region lies in exactly one leaf or separator while no
  cell outside lies in any.
\<close>

lemma calculate_pane_geometry_tiles:
  assumes inv: "layout_inv L t" and fits: "region_fits outer"
  shows "\<exists>G. calculate_pane_geometry L outer = Inr G
     \<and> dom (smap_find (node_regions G)) = set (tree_ids t)
     \<and> smap_find (node_regions G) (ly_root L) = Some outer
     \<and> (\<forall>cell. holders cell G (map fst (tree_leaves t)) = indicator_of (in_region cell outer))"
  using geometry_tiles [OF assms] by blast

lemma calculate_pane_geometry_tiles_witness:
  "\<exists>G. calculate_pane_geometry stacked_layout
       \<lparr>rg_origin = \<lparr>tp_row = 0, tp_column = 0\<rparr>, rg_size = \<lparr>ts_rows = 24, ts_cols = 80\<rparr>\<rparr> = Inr G
     \<and> dom (smap_find (node_regions G)) = {1, 2, 3, 4, 5}"
proof -
  let ?o = "\<lparr>rg_origin = \<lparr>tp_row = 0, tp_column = 0\<rparr>, rg_size = \<lparr>ts_rows = 24, ts_cols = 80\<rparr>\<rparr>"
  have "region_fits ?o" by (simp add: region_fits_def INT32_MAX_def INT32_MIN_def)
  from calculate_pane_geometry_tiles [OF stacked_layout_inv this] obtain G
    where "calculate_pane_geometry stacked_layout ?o = Inr G"
      "dom (smap_find (node_regions G)) = set (tree_ids stacked_tree)" by blast
  then show ?thesis by (auto simp: stacked_tree_def)
qed

end
