(* ===== verification/Pane_Navigation.thy ===== *)
theory Pane_Navigation
  imports Pane_Geometry
begin

text \<open>
  Moving the focus between panes (src/src/parent/pane/pane_navigation.h and
  pane_navigation.cc): the nearest leaf in a direction, scored lexicographically, the parent
  and the first child of a node, each optionally restricted by an eligibility predicate. The
  predicate may throw, so it returns a result. The regions are those of a calculated geometry,
  whose edges lie within 32 bits, so the interval arithmetic is on plain integers.
\<close>

section \<open>Scores\<close>

datatype pane_focus_direction = Focus_LEFT | Focus_RIGHT | Focus_UP | Focus_DOWN

record interval =
  iv_begin :: int
  iv_end :: int

datatype directional_score = Directional_score
  (primary_gap: int) (perpendicular_gap: int) (perpendicular_center_distance: int)

text \<open>\<open>std::tie\<close> of the three fields compares lexicographically.\<close>

definition score_less :: "directional_score \<Rightarrow> directional_score \<Rightarrow> bool" where
  "score_less a b \<longleftrightarrow> primary_gap a < primary_gap b
     \<or> (primary_gap a = primary_gap b
        \<and> (perpendicular_gap a < perpendicular_gap b
           \<or> (perpendicular_gap a = perpendicular_gap b
              \<and> perpendicular_center_distance a < perpendicular_center_distance b)))"

instantiation directional_score :: linorder
begin

definition less_directional_score :: "directional_score \<Rightarrow> directional_score \<Rightarrow> bool" where
  "a < b \<longleftrightarrow> score_less a b"

definition less_eq_directional_score :: "directional_score \<Rightarrow> directional_score \<Rightarrow> bool" where
  "a \<le> b \<longleftrightarrow> a < b \<or> a = (b :: directional_score)"

instance
  by standard
    (auto simp: less_directional_score_def score_less_def less_eq_directional_score_def directional_score.expand
      intro: directional_score.expand)

end

definition horizontal_interval :: "pane_region \<Rightarrow> interval" where
  "horizontal_interval region =
     \<lparr>iv_begin = tp_column (rg_origin region),
      iv_end = tp_column (rg_origin region) + ts_cols (rg_size region)\<rparr>"

definition vertical_interval :: "pane_region \<Rightarrow> interval" where
  "vertical_interval region =
     \<lparr>iv_begin = tp_row (rg_origin region),
      iv_end = tp_row (rg_origin region) + ts_rows (rg_size region)\<rparr>"

definition interval_gap :: "interval \<Rightarrow> interval \<Rightarrow> int" where
  "interval_gap first second =
     (if iv_end first < iv_begin second then iv_begin second - iv_end first
      else if iv_end second < iv_begin first then iv_begin first - iv_end second
      else 0)"

definition center_distance :: "interval \<Rightarrow> interval \<Rightarrow> int" where
  "center_distance first second =
     \<bar>(iv_begin first + iv_end first) - (iv_begin second + iv_end second)\<bar>"

definition score_candidate ::
  "pane_region \<Rightarrow> pane_region \<Rightarrow> pane_focus_direction \<Rightarrow> directional_score option" where
  "score_candidate source candidate direction =
     (let source_horizontal = horizontal_interval source;
          source_vertical = vertical_interval source;
          candidate_horizontal = horizontal_interval candidate;
          candidate_vertical = vertical_interval candidate in
      case direction of
        Focus_LEFT \<Rightarrow>
          if iv_end candidate_horizontal > iv_begin source_horizontal then None
          else Some (Directional_score (iv_begin source_horizontal - iv_end candidate_horizontal)
                 (interval_gap source_vertical candidate_vertical)
                 (center_distance source_vertical candidate_vertical))
      | Focus_RIGHT \<Rightarrow>
          if iv_begin candidate_horizontal < iv_end source_horizontal then None
          else Some (Directional_score (iv_begin candidate_horizontal - iv_end source_horizontal)
                 (interval_gap source_vertical candidate_vertical)
                 (center_distance source_vertical candidate_vertical))
      | Focus_UP \<Rightarrow>
          if iv_end candidate_vertical > iv_begin source_vertical then None
          else Some (Directional_score (iv_begin source_vertical - iv_end candidate_vertical)
                 (interval_gap source_horizontal candidate_horizontal)
                 (center_distance source_horizontal candidate_horizontal))
      | Focus_DOWN \<Rightarrow>
          if iv_begin candidate_vertical < iv_end source_vertical then None
          else Some (Directional_score (iv_begin candidate_vertical - iv_end source_vertical)
                 (interval_gap source_horizontal candidate_horizontal)
                 (center_distance source_horizontal candidate_horizontal)))"

section \<open>Searches\<close>

text \<open>One round of the loop over the leaves; the state is the best node with its score.\<close>

definition consider_candidate ::
  "pane_geometry \<Rightarrow> node_id \<Rightarrow> pane_region \<Rightarrow> pane_focus_direction \<Rightarrow> node_id \<Rightarrow>
   (node_id \<times> directional_score) option \<Rightarrow> (node_id \<times> directional_score) option result" where
  "consider_candidate G source source_region direction = (\<lambda>candidate best.
     if candidate = source then Inr best
     else and_then (geometry_region G candidate) (\<lambda>candidate_region.
       if ts_rows (rg_size candidate_region) \<le> 0 \<or> ts_cols (rg_size candidate_region) \<le> 0 then Inr best
       else case score_candidate source_region candidate_region direction of
           None \<Rightarrow> Inr best
         | Some score \<Rightarrow> Inr (case best of
               None \<Rightarrow> Some (candidate, score)
             | Some (best_node, best_score) \<Rightarrow>
                 if score < best_score then Some (candidate, score) else best)))"

definition find_immediate_directional_pane ::
  "pane_layout \<Rightarrow> pane_geometry \<Rightarrow> node_id \<Rightarrow> pane_focus_direction \<Rightarrow> node_id option result" where
  "find_immediate_directional_pane L G source direction =
     and_then (geometry_region G source) (\<lambda>source_region.
     and_then (leaf_nodes L) (\<lambda>leaves.
     and_then (fold_result (consider_candidate G source source_region direction) leaves None)
       (\<lambda>best. Inr (map_option fst best))))"

definition find_directional_pane ::
  "pane_layout \<Rightarrow> pane_geometry \<Rightarrow> node_id \<Rightarrow> pane_focus_direction \<Rightarrow> node_id option result" where
  "find_directional_pane L G source direction = find_immediate_directional_pane L G source direction"

text \<open>The loop over \<open>remaining\<close>, which starts at the number of leaves.\<close>

primrec search_directional_pane ::
  "nat \<Rightarrow> pane_layout \<Rightarrow> pane_geometry \<Rightarrow> pane_focus_direction \<Rightarrow> (node_id \<Rightarrow> bool result) \<Rightarrow>
   node_id \<Rightarrow> node_id option result" where
  "search_directional_pane 0 L G direction eligible = (\<lambda>cursor. Inr None)"
| "search_directional_pane (Suc remaining) L G direction eligible = (\<lambda>cursor.
     and_then (find_immediate_directional_pane L G cursor direction) (\<lambda>candidate.
     case candidate of
       None \<Rightarrow> Inr None
     | Some cursor' \<Rightarrow>
         and_then (eligible cursor') (\<lambda>e.
         if e then Inr (Some cursor')
         else search_directional_pane remaining L G direction eligible cursor')))"

definition find_eligible_directional_pane ::
  "pane_layout \<Rightarrow> pane_geometry \<Rightarrow> node_id \<Rightarrow> pane_focus_direction \<Rightarrow> (node_id \<Rightarrow> bool result) \<Rightarrow>
   node_id option result" where
  "find_eligible_directional_pane L G source direction eligible =
     and_then (leaf_nodes L) (\<lambda>leaves.
       search_directional_pane (length leaves) L G direction eligible source)"

definition find_parent_pane_node :: "pane_layout \<Rightarrow> node_id \<Rightarrow> node_id option result" where
  "find_parent_pane_node L source = and_then (node L source) (\<lambda>nd. Inr (nd_parent nd))"

definition find_eligible_parent_pane_node ::
  "pane_layout \<Rightarrow> node_id \<Rightarrow> (node_id \<Rightarrow> bool result) \<Rightarrow> node_id option result" where
  "find_eligible_parent_pane_node L source eligible =
     and_then (find_parent_pane_node L source) (\<lambda>parent.
     case parent of
       None \<Rightarrow> Inr None
     | Some p \<Rightarrow> and_then (eligible p) (\<lambda>e. Inr (if e then parent else None)))"

definition find_first_child_pane_node :: "pane_layout \<Rightarrow> node_id \<Rightarrow> node_id option result" where
  "find_first_child_pane_node L source =
     and_then (node L source) (\<lambda>nd. case nd_contents nd of
       Pane_leaf _ \<Rightarrow> Inr None
     | Pane_split split \<Rightarrow> (case sp_children split of
           [] \<Rightarrow> Inl (Undefined_behavior ''front of an empty vector'')
         | child # _ \<Rightarrow> Inr (Some (sc_node child))))"

fun find_eligible_child ::
  "(node_id \<Rightarrow> bool result) \<Rightarrow> pane_split_child list \<Rightarrow> node_id option result" where
  "find_eligible_child eligible [] = Inr None"
| "find_eligible_child eligible (child # children) =
     and_then (eligible (sc_node child)) (\<lambda>e.
     if e then Inr (Some (sc_node child)) else find_eligible_child eligible children)"

definition find_eligible_first_child_pane_node ::
  "pane_layout \<Rightarrow> node_id \<Rightarrow> (node_id \<Rightarrow> bool result) \<Rightarrow> node_id option result" where
  "find_eligible_first_child_pane_node L source eligible =
     and_then (node L source) (\<lambda>nd. case nd_contents nd of
       Pane_leaf _ \<Rightarrow> Inr None
     | Pane_split split \<Rightarrow> find_eligible_child eligible (sp_children split))"

section \<open>The nearest pane\<close>

text \<open>The score of a leaf as the specification sees it; \<open>None\<close> for a leaf out of the running.\<close>

definition candidate_score ::
  "pane_geometry \<Rightarrow> node_id \<Rightarrow> pane_region \<Rightarrow> pane_focus_direction \<Rightarrow> node_id \<Rightarrow> directional_score option" where
  "candidate_score G source source_region direction n =
     (if n = source then None
      else case smap_find (node_regions G) n of
          None \<Rightarrow> None
        | Some region \<Rightarrow>
            if ts_rows (rg_size region) \<le> 0 \<or> ts_cols (rg_size region) \<le> 0 then None
            else score_candidate source_region region direction)"

text \<open>\<open>best\<close> is a leaf of least score among \<open>ns\<close>, and the first such leaf.\<close>

fun best_among ::
  "(node_id \<Rightarrow> directional_score option) \<Rightarrow> node_id list \<Rightarrow> (node_id \<times> directional_score) option \<Rightarrow> bool" where
  "best_among f ns None \<longleftrightarrow> (\<forall>n \<in> set ns. f n = None)"
| "best_among f ns (Some (n, s)) \<longleftrightarrow>
     f n = Some s \<and> (\<exists>ms rest. ns = ms @ n # rest
       \<and> (\<forall>m \<in> set ms. \<forall>s'. f m = Some s' \<longrightarrow> s < s')
       \<and> (\<forall>m \<in> set rest. \<forall>s'. f m = Some s' \<longrightarrow> s \<le> s'))"

lemma consider_candidate_eq:
  assumes "n \<in> dom (smap_find (node_regions G))"
  shows "consider_candidate G source source_region direction n best =
    Inr (case candidate_score G source source_region direction n of
        None \<Rightarrow> best
      | Some s \<Rightarrow> (case best of None \<Rightarrow> Some (n, s)
          | Some (b, bs) \<Rightarrow> if s < bs then Some (n, s) else best))"
  using assms
  by (auto simp: consider_candidate_def candidate_score_def geometry_region_def split: option.splits)

lemma best_amongI:
  "f n = Some s \<Longrightarrow> ns = ms @ n # rest \<Longrightarrow> \<forall>m \<in> set ms. \<forall>s'. f m = Some s' \<longrightarrow> s < s' \<Longrightarrow>
   \<forall>m \<in> set rest. \<forall>s'. f m = Some s' \<longrightarrow> s \<le> s' \<Longrightarrow> best_among f ns (Some (n, s))"
  by auto

lemma best_among_snoc:
  assumes "best_among f ns best"
  shows "best_among f (ns @ [n]) (case f n of
        None \<Rightarrow> best
      | Some s \<Rightarrow> (case best of None \<Rightarrow> Some (n, s)
          | Some (b, bs) \<Rightarrow> if s < bs then Some (n, s) else best))"
proof (cases best)
  case None
  with assms best_amongI [of f n _ "ns @ [n]" ns "[]"] show ?thesis
    by (cases "f n") simp_all
next
  case (Some e)
  obtain b bs where e: "best = Some (b, bs)" using Some by (cases e) auto
  with assms obtain ms rest where r: "f b = Some bs" "ns = ms @ b # rest"
    "\<forall>m \<in> set ms. \<forall>s'. f m = Some s' \<longrightarrow> bs < s'" "\<forall>m \<in> set rest. \<forall>s'. f m = Some s' \<longrightarrow> bs \<le> s'"
    by auto
  show ?thesis
  proof (cases "\<exists>s. f n = Some s \<and> s < bs")
    case True
    then obtain s where s: "f n = Some s" "s < bs" by blast
    have "\<forall>m \<in> set ns. \<forall>s'. f m = Some s' \<longrightarrow> s < s'"
      using r s(2) by (auto dest: order.strict_trans order.strict_trans2)
    then show ?thesis using s e best_amongI [of f n s "ns @ [n]" ns "[]"] by simp
  next
    case False
    then have n: "\<forall>s'. f n = Some s' \<longrightarrow> bs \<le> s'" by (auto simp: not_less)
    have "best_among f (ns @ [n]) best"
      using r n e best_amongI [of f b bs "ns @ [n]" ms "rest @ [n]"] by auto
    then show ?thesis using False e by (auto split: option.splits)
  qed
qed

lemma fold_consider_candidate:
  assumes "best_among (candidate_score G source source_region direction) done best"
    and "set ns \<subseteq> dom (smap_find (node_regions G))"
  shows "\<exists>best'. fold_result (consider_candidate G source source_region direction) ns best = Inr best'
     \<and> best_among (candidate_score G source source_region direction) (done @ ns) best'"
  using assms
proof (induction ns arbitrary: "done" best)
  case (Cons n ns)
  have n: "n \<in> dom (smap_find (node_regions G))" and ns: "set ns \<subseteq> dom (smap_find (node_regions G))"
    using Cons.prems(2) by simp_all
  from Cons.IH [OF best_among_snoc [OF Cons.prems(1)] ns, of n]
  show ?case by (simp add: consider_candidate_eq [OF n])
qed simp

lemma nearest_pane:
  assumes inv: "layout_inv L t"
    and regions: "fst ` set (tree_leaves t) \<subseteq> dom (smap_find (node_regions G))"
    and source: "smap_find (node_regions G) source = Some source_region"
  shows "\<exists>best. find_directional_pane L G source direction = Inr (map_option fst best)
     \<and> best_among (candidate_score G source source_region direction) (map fst (tree_leaves t)) best"
proof -
  from inv have rep: "represents L t" by (simp add: layout_inv_def)
  have "best_among (candidate_score G source source_region direction) [] None" by simp
  from fold_consider_candidate [OF this, of "map fst (tree_leaves t)"] regions obtain best
    where "fold_result (consider_candidate G source source_region direction) (map fst (tree_leaves t)) None = Inr best"
      "best_among (candidate_score G source source_region direction) (map fst (tree_leaves t)) best"
    by auto
  then show ?thesis using leaf_nodes_eq [OF rep] source
    by (auto simp: find_directional_pane_def find_immediate_directional_pane_def geometry_region_def)
qed


lemma search_directional_pane_eligible:
  "search_directional_pane k L G direction eligible cursor = Inr (Some n) \<Longrightarrow> eligible n = Inr True"
  by (induction k arbitrary: cursor) (auto simp: result_simps split: option.splits if_splits)

lemma eligible_search_total:
  assumes inv: "layout_inv L t"
    and regions: "fst ` set (tree_leaves t) \<subseteq> dom (smap_find (node_regions G))"
    and source: "source \<in> dom (smap_find (node_regions G))"
    and total: "\<And>n. n \<in> fst ` set (tree_leaves t) \<Longrightarrow> \<exists>b. eligible n = Inr b"
  shows "\<exists>r. find_eligible_directional_pane L G source direction eligible = Inr r
     \<and> (\<forall>n. r = Some n \<longrightarrow> n \<in> fst ` set (tree_leaves t) \<and> eligible n = Inr True)"
proof -
  have "\<exists>r. search_directional_pane k L G direction eligible cursor = Inr r
     \<and> (\<forall>n. r = Some n \<longrightarrow> n \<in> fst ` set (tree_leaves t) \<and> eligible n = Inr True)"
    if "cursor \<in> dom (smap_find (node_regions G))" for k cursor
    using that
  proof (induction k arbitrary: cursor)
    case (Suc k)
    from Suc.prems obtain region where "smap_find (node_regions G) cursor = Some region" by blast
    from nearest_pane [OF inv regions this, of direction] obtain best
      where b: "find_immediate_directional_pane L G cursor direction = Inr (map_option fst best)"
        "best_among (candidate_score G cursor region direction) (map fst (tree_leaves t)) best"
      by (auto simp: find_directional_pane_def)
    show ?case
    proof (cases best)
      case None
      then show ?thesis using b(1) by simp
    next
      case (Some e)
      obtain n s where e: "e = (n, s)" by fastforce
      with b(2) Some have n: "n \<in> fst ` set (tree_leaves t)" by (auto simp flip: set_map)
      then have "n \<in> dom (smap_find (node_regions G))" using regions by blast
      from Suc.IH [OF this] obtain r where r: "search_directional_pane k L G direction eligible n = Inr r"
        "\<forall>n. r = Some n \<longrightarrow> n \<in> fst ` set (tree_leaves t) \<and> eligible n = Inr True" by blast
      from total [OF n] obtain b where "eligible n = Inr b" by blast
      with r n b(1) Some e show ?thesis by (cases b) (simp_all del: image_iff)
    qed
  qed simp
  moreover have "leaf_nodes L = Inr (map fst (tree_leaves t))"
    using inv by (simp add: layout_inv_def leaf_nodes_eq)
  ultimately show ?thesis using source by (simp add: find_eligible_directional_pane_def)
qed


end
