(* ===== verification/Pane_Selection.thy ===== *)
theory Pane_Selection
  imports Pane_Navigation
begin

text \<open>
  A selection of panes (src/src/parent/pane/pane_selection.h and pane_selection.cc): a
  contiguous range of siblings with an anchor and an active end, or a single node. The lemmas
  show that every operation yields a selection of the layout it is given: a non-empty block of
  the children of one split, anchored and active at its two ends.
\<close>

section \<open>The operations\<close>

datatype pane_sibling_direction = Sibling_PREVIOUS | Sibling_NEXT

record pane_selection =
  sel_parent :: "node_id option"
  sel_anchor :: node_id
  sel_active :: node_id
  sel_nodes :: "node_id list"

definition sibling_index :: "pane_split \<Rightarrow> node_id \<Rightarrow> nat result" where
  "sibling_index split n =
     require (Logic_error ''pane selection node is not a child of its parent'')
       (child_position (sp_children split) n)"

definition selection_single :: "pane_layout \<Rightarrow> node_id \<Rightarrow> pane_selection result" where
  "selection_single L n =
     and_then (node L n) (\<lambda>nd.
       Inr \<lparr>sel_parent = nd_parent nd, sel_anchor = n, sel_active = n, sel_nodes = [n]\<rparr>)"

definition selection_range :: "pane_layout \<Rightarrow> node_id \<Rightarrow> node_id \<Rightarrow> pane_selection result" where
  "selection_range L anchor active =
     and_then (node L anchor) (\<lambda>anchor_node.
     and_then (node L active) (\<lambda>active_node.
     throw_if (nd_parent active_node \<noteq> nd_parent anchor_node)
       (Invalid_argument ''pane selection nodes must have the same direct parent'')
     (case nd_parent anchor_node of
       None \<Rightarrow>
         throw_if (anchor \<noteq> active)
           (Invalid_argument ''pane selection cannot span separate roots'')
           (selection_single L anchor)
     | Some parent \<Rightarrow>
         and_then (node L parent) (\<lambda>parent_node.
         and_then (node_split parent_node) (\<lambda>siblings.
         and_then (sibling_index siblings anchor) (\<lambda>anchor_index.
         and_then (sibling_index siblings active) (\<lambda>active_index.
         (let first_index = min anchor_index active_index;
              last_index = max anchor_index active_index in
          Inr \<lparr>sel_parent = Some parent, sel_anchor = anchor, sel_active = active,
               sel_nodes = map (\<lambda>i. sc_node (sp_children siblings ! i))
                 [first_index..<last_index + 1]\<rparr>))))))))"

definition selection_contains :: "pane_selection \<Rightarrow> node_id \<Rightarrow> bool" where
  "selection_contains sel n = List.member (sel_nodes sel) n"

definition selection_step ::
  "pane_layout \<Rightarrow> pane_sibling_direction \<Rightarrow> pane_selection \<Rightarrow> pane_selection result" where
  "selection_step L direction sel =
     (case sel_parent sel of
       None \<Rightarrow> Inr sel
     | Some parent \<Rightarrow>
         and_then (node L parent) (\<lambda>parent_node.
         and_then (node_split parent_node) (\<lambda>siblings.
         and_then (sibling_index siblings (sel_active sel)) (\<lambda>active_index.
         if direction = Sibling_PREVIOUS then
           (if active_index = 0 then Inr sel
            else selection_range L (sel_anchor sel) (sc_node (sp_children siblings ! (active_index - 1))))
         else if active_index + 1 \<ge> length (sp_children siblings) then Inr sel
         else selection_range L (sel_anchor sel) (sc_node (sp_children siblings ! (active_index + 1)))))))"

definition selection_promote :: "pane_layout \<Rightarrow> pane_selection \<Rightarrow> pane_selection result" where
  "selection_promote L sel =
     and_then (find_parent_pane_node L (sel_active sel)) (\<lambda>parent.
     case parent of None \<Rightarrow> Inr sel | Some p \<Rightarrow> selection_single L p)"

definition selection_descend :: "pane_layout \<Rightarrow> pane_selection \<Rightarrow> pane_selection result" where
  "selection_descend L sel =
     (if length (sel_nodes sel) \<noteq> 1 then Inr sel
      else and_then (find_first_child_pane_node L (hd (sel_nodes sel))) (\<lambda>child.
        case child of None \<Rightarrow> Inr sel | Some c \<Rightarrow> selection_single L c))"

section \<open>Selections of a layout\<close>

fun block_ends :: "node_id \<Rightarrow> node_id \<Rightarrow> node_id list \<Rightarrow> bool" where
  "block_ends a b ns \<longleftrightarrow> ns \<noteq> [] \<and> ((a = hd ns \<and> b = last ns) \<or> (a = last ns \<and> b = hd ns))"

definition selection_ok :: "ptree \<Rightarrow> pane_selection \<Rightarrow> bool" where
  "selection_ok t sel \<longleftrightarrow>
     block_ends (sel_anchor sel) (sel_active sel) (sel_nodes sel)
     \<and> (case sel_parent sel of
          None \<Rightarrow> sel_nodes sel = [tid t]
        | Some p \<Rightarrow> (\<exists>C ax ls ms rs. t = plug C (TSplit p ax (ls @ ms @ rs))
            \<and> sel_nodes sel = map (\<lambda>k. tid (fst k)) ms))"

lemma selection_okI:
  "t = plug C (TSplit p ax (ls @ ms @ rs)) \<Longrightarrow> ms \<noteq> [] \<Longrightarrow>
   (a = tid (fst (hd ms)) \<and> b = tid (fst (last ms))) \<or> (a = tid (fst (last ms)) \<and> b = tid (fst (hd ms))) \<Longrightarrow>
   selection_ok t \<lparr>sel_parent = Some p, sel_anchor = a, sel_active = b,
     sel_nodes = map (\<lambda>k. tid (fst k)) ms\<rparr>"
  unfolding selection_ok_def by (simp add: hd_map last_map) blast

lemma selection_ok_cases:
  assumes "selection_ok t sel"
  obtains (root) "sel = \<lparr>sel_parent = None, sel_anchor = tid t, sel_active = tid t, sel_nodes = [tid t]\<rparr>"
  | (block) C p ax ls ms rs where "t = plug C (TSplit p ax (ls @ ms @ rs))" "sel_parent sel = Some p"
      "sel_nodes sel = map (\<lambda>k. tid (fst k)) ms" "ms \<noteq> []"
      "(sel_anchor sel = tid (fst (hd ms)) \<and> sel_active sel = tid (fst (last ms)))
       \<or> (sel_anchor sel = tid (fst (last ms)) \<and> sel_active sel = tid (fst (hd ms)))"
proof (cases "sel_parent sel")
  case None
  with assms show ?thesis by (intro root) (cases sel, auto simp: selection_ok_def)
next
  case (Some p)
  with assms obtain C ax ls ms rs where m: "t = plug C (TSplit p ax (ls @ ms @ rs))"
    "sel_nodes sel = map (\<lambda>k. tid (fst k)) ms"
    and e: "block_ends (sel_anchor sel) (sel_active sel) (sel_nodes sel)"
    by (auto simp: selection_ok_def simp del: split_paired_Ex)
  from e m(2) have "ms \<noteq> []" by auto
  with e m Some show ?thesis by (intro block) (simp_all add: hd_map last_map)
qed

lemma kid_tids_distinct:
  "distinct (concat (map (\<lambda>k. tree_ids (fst k)) ks)) \<Longrightarrow> distinct (map (\<lambda>k. tid (fst k)) ks)"
proof (induction ks)
  case (Cons k ks)
  have "tid (fst k) \<notin> (\<lambda>k. tid (fst k)) ` set ks"
  proof
    assume "tid (fst k) \<in> (\<lambda>k. tid (fst k)) ` set ks"
    then have "tid (fst k) \<in> set (concat (map (\<lambda>k. tree_ids (fst k)) ks))"
      using kid_tid_in_ids [of _ ks] by auto
    with Cons.prems tid_in_ids [of "fst k"] show False by auto
  qed
  with Cons show ?case by simp
qed simp

lemma child_position_nth:
  "distinct (map (\<lambda>k. tid (fst k)) ks) \<Longrightarrow> i < length ks \<Longrightarrow>
   child_position (map kid_entry ks) (tid (fst (ks ! i))) = Some i"
proof (induction ks arbitrary: i)
  case (Cons k ks)
  then show ?case using nth_mem [of "i - 1" ks] by (cases i) force+
qed simp

lemma split_kids:
  assumes "represents L (plug C (TSplit p ax ks))"
  shows "look L p = Some (split_node_of p (ctx_parent C) ax (map kid_entry ks))"
    "distinct (map (\<lambda>k. tid (fst k)) ks)"
    "\<And>i. i < length ks \<Longrightarrow> \<exists>nd. look L (tid (fst (ks ! i))) = Some nd \<and> nd_parent nd = Some p"
proof -
  note D = representsD [OF assms]
  show "look L p = Some (split_node_of p (ctx_parent C) ax (map kid_entry ks))"
    using D(1) by (simp add: tree_simps)
  show "distinct (map (\<lambda>k. tid (fst k)) ks)"
    by (rule kid_tids_distinct) (use D(2) in \<open>simp add: tree_simps\<close>)
  fix i assume "i < length ks"
  then have "ks ! i \<in> set ks" by simp
  moreover have "\<forall>k \<in> set ks. stored (look L) (Some p) (fst k)" using D(1) by (simp add: tree_simps)
  ultimately have "stored (look L) (Some p) (fst (ks ! i))" by blast
  from stored_parent [OF this]
  show "\<exists>nd. look L (tid (fst (ks ! i))) = Some nd \<and> nd_parent nd = Some p" by blast
qed

lemma segment:
  assumes "a \<le> b" "b < length xs"
  shows "map (\<lambda>m. xs ! m) [a..<b + 1] = take (b + 1 - a) (drop a xs)"
    "hd (take (b + 1 - a) (drop a xs)) = xs ! a" "last (take (b + 1 - a) (drop a xs)) = xs ! b"
    "take (b + 1 - a) (drop a xs) \<noteq> []"
proof -
  show "map (\<lambda>m. xs ! m) [a..<b + 1] = take (b + 1 - a) (drop a xs)"
    by (rule nth_equalityI) (use assms in \<open>auto simp del: upt_Suc\<close>)
  have "length (take (b + 1 - a) (drop a xs)) = b + 1 - a" using assms by simp
  then show "hd (take (b + 1 - a) (drop a xs)) = xs ! a" "last (take (b + 1 - a) (drop a xs)) = xs ! b"
    "take (b + 1 - a) (drop a xs) \<noteq> []"
    using assms by (auto simp: hd_conv_nth last_conv_nth hd_drop_conv_nth)
qed

text \<open>A range of children is the block between them, whichever end is the anchor.\<close>

lemma selection_range_children:
  assumes rep: "represents L (plug C (TSplit p ax ks))" and i: "i < length ks" and j: "j < length ks"
  shows "selection_range L (tid (fst (ks ! i))) (tid (fst (ks ! j))) =
    Inr \<lparr>sel_parent = Some p, sel_anchor = tid (fst (ks ! i)), sel_active = tid (fst (ks ! j)),
      sel_nodes = map (\<lambda>k. tid (fst k)) (take (max i j + 1 - min i j) (drop (min i j) ks))\<rparr>"
proof -
  note K = split_kids [OF rep]
  have "map (\<lambda>m. sc_node (map kid_entry ks ! m)) [min i j..<max i j + 1]
      = map (\<lambda>k. tid (fst k)) (map (\<lambda>m. ks ! m) [min i j..<max i j + 1])"
    using i j by (auto simp del: upt_Suc)
  also have "\<dots> = map (\<lambda>k. tid (fst k)) (take (max i j + 1 - min i j) (drop (min i j) ks))"
    by (subst segment(1)) (use i j in simp_all)
  finally have "map (\<lambda>m. sc_node (map kid_entry ks ! m)) [min i j..<max i j + 1]
      = map (\<lambda>k. tid (fst k)) (take (max i j + 1 - min i j) (drop (min i j) ks))" .
  then show ?thesis
    using K(1) K(3) [OF i] K(3) [OF j] child_position_nth [OF K(2) i] child_position_nth [OF K(2) j]
    by (auto simp: selection_range_def layout_access sibling_index_def Let_def simp del: upt_Suc)
qed

lemma selection_range_ok:
  assumes rep: "represents L (plug C (TSplit p ax ks))" and i: "i < length ks" and j: "j < length ks"
  shows "\<exists>sel. selection_range L (tid (fst (ks ! i))) (tid (fst (ks ! j))) = Inr sel
    \<and> selection_ok (plug C (TSplit p ax ks)) sel
    \<and> sel_anchor sel = tid (fst (ks ! i)) \<and> sel_active sel = tid (fst (ks ! j))"
proof -
  let ?a = "min i j" and ?b = "max i j"
  let ?ms = "take (?b + 1 - ?a) (drop ?a ks)"
  have "ks = take ?a ks @ ?ms @ drop (?b + 1 - ?a) (drop ?a ks)"
    by (simp only: append_take_drop_id)
  then have t: "plug C (TSplit p ax ks) = plug C (TSplit p ax (take ?a ks @ ?ms @ drop (?b + 1 - ?a) (drop ?a ks)))"
    by (rule arg_cong)
  have seg: "?a \<le> ?b" "?b < length ks" using i j by auto
  note ne = segment(4) [OF seg] and h = segment(2) [OF seg] and l = segment(3) [OF seg]
  have "selection_ok (plug C (TSplit p ax ks)) \<lparr>sel_parent = Some p, sel_anchor = tid (fst (ks ! i)),
      sel_active = tid (fst (ks ! j)), sel_nodes = map (\<lambda>k. tid (fst k)) ?ms\<rparr>"
    by (rule selection_okI [OF t ne]) (unfold h l, auto simp: min_def max_def)
  then show ?thesis unfolding selection_range_children [OF assms] by simp
qed

lemma selection_single_ok:
  assumes rep: "represents L t" and n: "n \<in> set (tree_ids t)"
  shows "\<exists>sel. selection_single L n = Inr sel \<and> selection_ok t sel \<and> sel_nodes sel = [n]"
proof -
  from node_context [OF n] obtain C s where s: "t = plug C s" "tid s = n" by blast
  have "stored (look L) (ctx_parent C) s" using representsD(1) [OF rep] s by (simp add: tree_simps)
  from stored_parent [OF this] s obtain nd where nd: "look L n = Some nd" "nd_parent nd = ctx_parent C"
    by auto
  let ?sel = "\<lparr>sel_parent = ctx_parent C, sel_anchor = n, sel_active = n, sel_nodes = [n]\<rparr>"
  have "selection_ok t ?sel"
  proof (cases C rule: ctx_parent.cases)
    case 1
    then show ?thesis using s by (simp add: selection_ok_def)
  next
    case (2 p ax ls w rs C')
    then have "t = plug C' (TSplit p ax (ls @ [(s, w)] @ rs))" using s by simp
    from selection_okI [OF this, of n n] s 2 show ?thesis by simp
  qed
  then show ?thesis using nd by (simp add: selection_single_def layout_access)
qed

lemma selection_step_ok:
  assumes rep: "represents L t" and ok: "selection_ok t sel"
  shows "\<exists>sel'. selection_step L direction sel = Inr sel' \<and> selection_ok t sel'
    \<and> sel_anchor sel' = sel_anchor sel"
  using ok
proof (cases rule: selection_ok_cases)
  case root
  then show ?thesis using ok by (simp add: selection_step_def)
next
  case (block C p ax ls ms rs)
  let ?ks = "ls @ ms @ rs"
  from rep block(1) have rp: "represents L (plug C (TSplit p ax ?ks))" by simp
  note K = split_kids [OF rp]
  define a where "a = length ls"
  define b where "b = length ls + length ms - 1"
  have ab: "a < length ?ks" "b < length ?ks" "?ks ! a = hd ms" "?ks ! b = last ms"
    using block(4) by (cases ms; simp add: a_def b_def nth_append last_conv_nth)+
  obtain i j where ij: "i < length ?ks" "j < length ?ks" "sel_anchor sel = tid (fst (?ks ! i))"
    "sel_active sel = tid (fst (?ks ! j))"
    using block(5) ab by metis
  note pos = child_position_nth [OF K(2) ij(2)]
  have at: "sc_node (map kid_entry ?ks ! m) = tid (fst (?ks ! m))" if "m < length ?ks" for m
    using that by (simp del: map_append)
  have range: "\<exists>sel'. selection_range L (sel_anchor sel) (tid (fst (?ks ! m))) = Inr sel' \<and> selection_ok t sel'
      \<and> sel_anchor sel' = sel_anchor sel" if "m < length ?ks" for m
    using selection_range_ok [OF rp ij(1) that] block(1) ij(3) by auto
  have look: "selection_step L direction sel =
     (if direction = Sibling_PREVIOUS then
        (if j = 0 then Inr sel else selection_range L (sel_anchor sel) (sc_node (map kid_entry ?ks ! (j - 1))))
      else if j + 1 \<ge> length ?ks then Inr sel
      else selection_range L (sel_anchor sel) (sc_node (map kid_entry ?ks ! (j + 1))))"
    using K(1) pos block(2) ij(4)
    by (simp add: selection_step_def layout_access sibling_index_def del: map_append)
  show ?thesis
  proof (cases "direction = Sibling_PREVIOUS")
    case True
    then show ?thesis using look ok range [of "j - 1"] at [of "j - 1"] ij(2) by (cases "j = 0") simp_all
  next
    case False
    then show ?thesis using look ok range [of "j + 1"] at [of "j + 1"]
      by (cases "j + 1 \<ge> length ?ks") simp_all
  qed
qed

lemma selection_nodes_in_tree:
  assumes "selection_ok t sel" "n \<in> set (sel_nodes sel)"
  shows "n \<in> set (tree_ids t)"
  using assms(1)
proof (cases rule: selection_ok_cases)
  case root
  with assms(2) show ?thesis by simp
next
  case (block C p ax ls ms rs)
  from assms(2) block(3) have "n \<in> set (concat (map (\<lambda>k. tree_ids (fst k)) ms))"
    using kid_tid_in_ids [of _ ms] by auto
  then show ?thesis unfolding block(1) by (simp add: ids_plug)
qed

lemma selection_active_selected: "selection_ok t sel \<Longrightarrow> sel_active sel \<in> set (sel_nodes sel)"
  by (auto simp: selection_ok_def)

lemma selection_promote_ok:
  assumes rep: "represents L t" and ok: "selection_ok t sel"
  shows "\<exists>sel'. selection_promote L sel = Inr sel' \<and> selection_ok t sel'
    \<and> (\<forall>p. sel_parent sel = Some p \<longrightarrow> sel_nodes sel' = [p])"
proof -
  have a: "sel_active sel \<in> set (tree_ids t)"
    using selection_nodes_in_tree [OF ok selection_active_selected [OF ok]] .
  then obtain nd where nd: "look L (sel_active sel) = Some nd" using representsD(3) [OF rep] by auto
  have par: "nd_parent nd = sel_parent sel"
    using ok
  proof (cases rule: selection_ok_cases)
    case root
    then show ?thesis using stored_parent [OF representsD(1) [OF rep]] nd by auto
  next
    case (block C p ax ls ms rs)
    from rep block(1) have rp: "represents L (plug C (TSplit p ax (ls @ ms @ rs)))" by simp
    obtain i where i: "i < length (ls @ ms @ rs)" "sel_active sel = tid (fst ((ls @ ms @ rs) ! i))"
    proof -
      have "sel_active sel \<in> set (map (\<lambda>k. tid (fst k)) (ls @ ms @ rs))"
        using selection_active_selected [OF ok] block(3) by auto
      then show ?thesis using that unfolding in_set_conv_nth by (auto simp del: map_append)
    qed
    from split_kids(3) [OF rp i(1)] i(2) nd block(2) show ?thesis by auto
  qed
  show ?thesis
  proof (cases "sel_parent sel")
    case None
    then show ?thesis using nd par ok
      by (simp add: selection_promote_def find_parent_pane_node_def layout_access)
  next
    case (Some p)
    then have "p \<in> set (tree_ids t)" using ok
      by (auto simp: selection_ok_def ids_plug simp del: split_paired_Ex)
    from selection_single_ok [OF rep this] Some nd par show ?thesis
      by (simp add: selection_promote_def find_parent_pane_node_def layout_access)
  qed
qed

lemma selection_descend_ok:
  assumes inv: "layout_inv L t" and ok: "selection_ok t sel"
  shows "\<exists>sel'. selection_descend L sel = Inr sel' \<and> selection_ok t sel'"
proof (cases "length (sel_nodes sel) = 1")
  case True
  from inv have rep: "represents L t" and wf: "well_formed t" by (auto simp: layout_inv_def)
  from True obtain n where n: "sel_nodes sel = [n]" by (cases "sel_nodes sel") auto
  have nt: "n \<in> set (tree_ids t)" using selection_nodes_in_tree [OF ok, of n] n by simp
  from node_context [OF nt] obtain C s where s: "t = plug C s" "tid s = n" by blast
  have st: "stored (look L) (ctx_parent C) s" using representsD(1) [OF rep] s by (simp add: tree_simps)
  show ?thesis
  proof (cases s)
    case (TLeaf m q)
    then show ?thesis using st s n ok
      by (simp add: selection_descend_def find_first_child_pane_node_def layout_access)
  next
    case (TSplit m ax ks)
    have "2 \<le> length ks" using wf unfolding s well_formed_plug TSplit by simp
    then obtain k ks' where k: "ks = k # ks'" by (cases ks) auto
    have "tid (fst k) \<in> set (tree_ids t)"
      unfolding s TSplit ids_plug k using tid_in_ids [of "fst k"] by simp
    from selection_single_ok [OF rep this] st s n k TSplit show ?thesis
      by (auto simp: selection_descend_def find_first_child_pane_node_def layout_access)
  qed
qed (use ok in \<open>simp add: selection_descend_def\<close>)

lemma selection_operations_well_formed:
  assumes inv: "layout_inv L t"
  shows "(\<forall>n \<in> set (tree_ids t). \<exists>sel. selection_single L n = Inr sel \<and> selection_ok t sel)
    \<and> (\<forall>sel direction. selection_ok t sel \<longrightarrow>
         (\<exists>sel'. selection_step L direction sel = Inr sel' \<and> selection_ok t sel')
         \<and> (\<exists>sel'. selection_promote L sel = Inr sel' \<and> selection_ok t sel')
         \<and> (\<exists>sel'. selection_descend L sel = Inr sel' \<and> selection_ok t sel'))"
proof -
  from inv have rep: "represents L t" by (simp add: layout_inv_def)
  show ?thesis
    using selection_single_ok [OF rep] selection_step_ok [OF rep] selection_promote_ok [OF rep]
      selection_descend_ok [OF inv] by meson
qed

lemma selection_operations_well_formed_witness:
  "\<exists>sel sel'. selection_single stacked_layout 2 = Inr sel \<and> selection_ok stacked_tree sel
     \<and> selection_step stacked_layout Sibling_NEXT sel = Inr sel' \<and> selection_ok stacked_tree sel'"
proof -
  have "2 \<in> set (tree_ids stacked_tree)" by (simp add: stacked_tree_def)
  then show ?thesis using selection_operations_well_formed [OF stacked_layout_inv] by meson
qed

end
