(* ===== verification/Pane_Restructure.thy ===== *)
theory Pane_Restructure
  imports Pane_Represent
begin

text \<open>
  The two private restructurings of \<open>PaneLayout\<close>: dissolving a split that is left with one
  child, and promoting the children of nested splits of the same axis. Each is shown to store
  the restructured tree.
\<close>

section \<open>Reparenting subtrees\<close>

lemma stored_reparented:
  assumes "stored M p t" "distinct (tree_ids t)"
    and "M' (tid t) = map_option (\<lambda>nd. nd\<lparr>nd_parent := p'\<rparr>) (M (tid t))"
    and "\<And>n. n \<in> set (tree_ids t) \<Longrightarrow> n \<noteq> tid t \<Longrightarrow> M' n = M n"
  shows "stored M' p' t"
proof (cases t)
  case (TLeaf n q)
  with assms show ?thesis by auto
next
  case (TSplit n ax ks)
  have "stored M' (Some n) (fst k) = stored M (Some n) (fst k)" if k: "k \<in> set ks" for k
  proof (rule stored_cong)
    fix m assume m: "m \<in> set (tree_ids (fst k))"
    show "M' m = M m" by (rule assms(4)) (use m k assms(2) TSplit in auto)
  qed
  with assms TSplit show ?thesis by auto
qed

lemma kids_reparented:
  assumes "\<forall>k \<in> set ks. \<exists>p. stored M p (fst k)" "distinct (concat (map (\<lambda>k. tree_ids (fst k)) ks))"
    and "\<And>n. n \<in> set (concat (map (\<lambda>k. tree_ids (fst k)) ks)) \<Longrightarrow>
       M' n = (if n \<in> (\<lambda>k. tid (fst k)) ` set ks
               then map_option (\<lambda>nd. nd\<lparr>nd_parent := p'\<rparr>) (M n) else M n)"
  shows "\<forall>k \<in> set ks. stored M' p' (fst k)"
proof
  fix k assume k: "k \<in> set ks"
  then obtain as bs where ks: "ks = as @ k # bs" by (auto dest: split_list)
  have sub: "n \<in> set (concat (map (\<lambda>k. tree_ids (fst k)) ks))" if "n \<in> set (tree_ids (fst k))" for n
    using that k by auto
  from assms(1) k obtain p where p: "stored M p (fst k)" by blast
  show "stored M' p' (fst k)"
  proof (rule stored_reparented [OF p])
    show "distinct (tree_ids (fst k))" using assms(2) ks by simp
    show "M' (tid (fst k)) = map_option (\<lambda>nd. nd\<lparr>nd_parent := p'\<rparr>) (M (tid (fst k)))"
      using assms(3) [OF sub [OF tid_in_ids]] k by auto
    fix n assume n: "n \<in> set (tree_ids (fst k))" "n \<noteq> tid (fst k)"
    have "n \<notin> (\<lambda>k. tid (fst k)) ` set ks"
    proof
      assume "n \<in> (\<lambda>k. tid (fst k)) ` set ks"
      then obtain k' where k': "k' \<in> set as \<union> set bs" "n = tid (fst k')" using n ks by auto
      then have "n \<in> set (concat (map (\<lambda>k. tree_ids (fst k)) as))
          \<union> set (concat (map (\<lambda>k. tree_ids (fst k)) bs))"
        using kid_tid_in_ids [of k' as] kid_tid_in_ids [of k' bs] by auto
      with assms(2) ks n(1) show False by auto
    qed
    with assms(3) [OF sub [OF n(1)]] show "M' n = M n" by simp
  qed
qed

section \<open>New weights for the children of a split\<close>

definition reweigh :: "(ptree \<times> int) list \<Rightarrow> int list \<Rightarrow> (ptree \<times> int) list" where
  "reweigh ks r = zip (map fst ks) r"

lemma reweigh_fields [simp]:
  assumes "length r = length ks"
  shows "map fst (reweigh ks r) = map fst ks" "map snd (reweigh ks r) = r"
    "length (reweigh ks r) = length ks"
    "map (\<lambda>k. f (fst k)) (reweigh ks r) = map (\<lambda>k. f (fst k)) ks"
    "(\<forall>k \<in> set (reweigh ks r). P (fst k)) \<longleftrightarrow> (\<forall>k \<in> set ks. P (fst k))"
proof -
  show 1: "map fst (reweigh ks r) = map fst ks" and "map snd (reweigh ks r) = r"
    "length (reweigh ks r) = length ks"
    using assms by (simp_all add: reweigh_def)
  have "map (\<lambda>k. f (fst k)) (reweigh ks r) = map f (map fst (reweigh ks r))" by simp
  also have "\<dots> = map (\<lambda>k. f (fst k)) ks" unfolding 1 by simp
  finally show "map (\<lambda>k. f (fst k)) (reweigh ks r) = map (\<lambda>k. f (fst k)) ks" .
  have "(\<forall>k \<in> set ks'. P (fst k)) \<longleftrightarrow> (\<forall>t \<in> set (map fst ks'). P t)" for ks' :: "(ptree \<times> int) list"
    by auto
  then show "(\<forall>k \<in> set (reweigh ks r). P (fst k)) \<longleftrightarrow> (\<forall>k \<in> set ks. P (fst k))" using 1 by metis
qed

lemma reweigh_entries:
  assumes "length r = length ks"
  shows "map kid_entry (reweigh ks r) = with_percentages (map kid_entry ks) r"
  using assms by (induction ks r rule: list_induct2')
    (auto simp: reweigh_def with_percentages_def kid_entry_def)

lemma with_required_percentages_ok:
  assumes "length r = length ks" "\<forall>x \<in> set r. 0 \<le> x \<and> x \<le> 100"
  shows "with_required_percentages (map kid_entry ks) r = Inr (map kid_entry (reweigh ks r))"
  using assms by (induction ks r rule: list_induct2')
    (auto simp: reweigh_def with_required_percentages_def kid_entry_def layout_access)

text \<open>
  Promoting the children of a split into a share of its parent: the shares they get. For the
  children of a well-formed split they are non-negative and sum to the share.
\<close>

definition promote :: "(ptree \<times> int) list \<Rightarrow> int \<Rightarrow> (ptree \<times> int) list" where
  "promote ks w = reweigh ks (projr (distribute_pane_percentage_total (map snd ks) w))"

lemma promote_shares:
  assumes "kids_ok ks" "0 \<le> w" "w \<le> 100"
  obtains r where "distribute_pane_percentage_total (map snd ks) w = Inr r" "length r = length ks"
    "promote ks w = reweigh ks r" "sum_list r = w" "\<forall>x \<in> set r. 0 \<le> x \<and> x \<le> 100"
proof -
  from assms(1) have "ks \<noteq> []" by (auto simp: kids_ok_def)
  then have v: "valid_weights (map snd ks) w"
    using assms by (auto simp: valid_weights_def kids_ok_def)
  obtain r where r: "distribute_pane_percentage_total (map snd ks) w = Inr r"
    "length r = length (map snd ks)" "sum_list r = w"
    using pct.shares [OF v] by blast
  have "\<forall>x \<in> set r. 0 \<le> x \<and> x \<le> 100"
    using pct.share_within [OF v r(1)] assms(3) by force
  then show ?thesis using r by (intro that) (auto simp: promote_def)
qed

lemma promote_fields [simp]:
  assumes "kids_ok ks" "0 \<le> w" "w \<le> 100"
  shows "map (\<lambda>k. f (fst k)) (promote ks w) = map (\<lambda>k. f (fst k)) ks"
    "(\<forall>k \<in> set (promote ks w). P (fst k)) \<longleftrightarrow> (\<forall>k \<in> set ks. P (fst k))"
    "sum_list (map snd (promote ks w)) = w" "length (promote ks w) = length ks"
    "k \<in> set (promote ks w) \<Longrightarrow> 0 \<le> snd k"
proof -
  obtain r where r: "length r = length ks" "promote ks w = reweigh ks r" "sum_list r = w"
    "\<forall>x \<in> set r. 0 \<le> x \<and> x \<le> 100"
    by (rule promote_shares [OF assms]) (rule that; assumption)
  note rw = reweigh_fields [OF r(1), folded r(2)]
  show "map (\<lambda>k. f (fst k)) (promote ks w) = map (\<lambda>k. f (fst k)) ks"
    "(\<forall>k \<in> set (promote ks w). P (fst k)) \<longleftrightarrow> (\<forall>k \<in> set ks. P (fst k))"
    "length (promote ks w) = length ks" by (rule rw)+
  show "sum_list (map snd (promote ks w)) = w" using rw(2) r(3) by simp
  show "0 \<le> snd k" if "k \<in> set (promote ks w)"
  proof -
    from that have "snd k \<in> set (map snd (promote ks w))" by (simp del: map_map)
    then show ?thesis using rw(2) r(4) by simp
  qed
qed

section \<open>Dissolving a unary split\<close>

fun dissolved :: "ctx \<Rightarrow> ptree \<Rightarrow> ptree" where
  "dissolved [] s = s"
| "dissolved (Frame g axg ls wg rs # C) (TLeaf n q) = plug (Frame g axg ls wg rs # C) (TLeaf n q)"
| "dissolved (Frame g axg ls wg rs # C) (TSplit c ax ks) =
     (if ax = axg then plug C (TSplit g axg (ls @ promote ks wg @ rs))
      else plug (Frame g axg ls wg rs # C) (TSplit c ax ks))"

lemma dissolved_other:
  "top_axis s = None \<or> top_axis s \<noteq> ctx_axis C \<Longrightarrow> dissolved C s = plug C s"
  by (cases "(C, s)" rule: dissolved.cases) auto

lemma dissolve_into_root:
  assumes rep: "represents L (TSplit p ax [(s, w)])"
  shows "\<exists>L'. dissolve_unary_split p L = Inr L' \<and> represents L' s"
proof -
  note D = representsD [OF rep]
  from D(1) have st: "look L p = Some (split_node_of p None ax [kid_entry (s, w)])"
    "stored (look L) (Some p) s" by simp_all
  from stored_parent [OF st(2)] obtain nd where nd: "look L (tid s) = Some nd" by blast
  define L' where "L' = erase_node p (write_node (tid s) (nd\<lparr>nd_parent := None\<rparr>) (L\<lparr>ly_root := tid s\<rparr>))"
  have M: "look L' = (look L)(tid s \<mapsto> nd\<lparr>nd_parent := None\<rparr>, p := None)"
    by (simp add: L'_def write_node_def smap_find_put)
  have "dissolve_unary_split p L = Inr L'"
    using st(1) nd by (simp add: dissolve_unary_split_def layout_access L'_def Let_def
        set_parent_def write_node_def)
  moreover have "represents L' s"
  proof (rule representsI)
    show "stored (look L') None s"
      by (rule stored_reparented [OF st(2)]) (use D(2) nd in \<open>auto simp: M\<close>)
    show "dom (look L') = set (tree_ids s)"
    proof -
      have "dom (look L') = dom (look L) - {p}" using nd D(2) unfolding M by auto
      also have "\<dots> = set (tree_ids s)" using D(2) unfolding D(3) by auto
      finally show ?thesis .
    qed
    show "smap_ok (ly_nodes L')"
      using D(5) by (simp add: L'_def write_node_def smap_ok_put erase_node_def smap_ok_erase)
    show "0 < n \<and> n < ly_next L'" if "n \<in> set (tree_ids s)" for n
      using D(6) [of n] that by (simp add: L'_def)
  qed (use D in \<open>auto simp: L'_def\<close>)
  ultimately show ?thesis by blast
qed

lemma dissolve_replace:
  assumes rep: "represents L (plug C (TSplit p ax [(s, w)]))"
    and C: "C = Frame g axg ls wg rs # C'" and other: "top_axis s \<noteq> Some axg"
  shows "\<exists>L'. dissolve_unary_split p L = Inr L' \<and> represents L' (plug C s)"
proof -
  note D = representsD [OF rep]
  from D(1) have st: "look L p = Some (split_node_of p (Some g) ax [kid_entry (s, w)])"
    "stored (look L) (Some p) s" "ctx_stored (look L) C p"
    by (simp_all add: tree_simps C del: plug.simps)
  have dist: "distinct (ids_before C @ (p # tree_ids s) @ ids_after C)"
    using D(2) by (simp add: tree_simps)
  have pg: "p \<notin> set (ids_before C)" "p \<notin> set (ids_after C)" "g \<noteq> p" "g \<notin> set (tree_ids s)"
    "p \<notin> set (tree_ids s)" "g \<in> set (ids_before C)"
    using dist C by auto
  note g = hole_entry [OF st(3) [unfolded C] pg(1) [unfolded C]]
  from stored_parent [OF st(2)] obtain nd where nd: "look L (tid s) = Some nd" by blast
  have m: "matching_split nd axg = None"
    using st(2) nd other by (cases s) (auto simp: layout_access)
  have ts: "tid s \<noteq> g" "tid s \<noteq> p" "tid s \<notin> set (ids_before C)" "tid s \<notin> set (ids_after C)"
    using pg dist by (auto simp: disjoint_iff)
  define L' where "L' = erase_node p (write_node (tid s) (nd\<lparr>nd_parent := Some g\<rparr>)
    (write_node g (split_node_of g (ctx_parent C') axg
      (map kid_entry ls @ \<lparr>sc_node = tid s, sc_pct = wg\<rparr> # map kid_entry rs)) L))"
  have M: "look L' = (look L)(g \<mapsto> split_node_of g (ctx_parent C') axg
      (map kid_entry ls @ \<lparr>sc_node = tid s, sc_pct = wg\<rparr> # map kid_entry rs),
      tid s \<mapsto> nd\<lparr>nd_parent := Some g\<rparr>, p := None)"
    by (simp add: L'_def)
  have "dissolve_unary_split p L = Inr L'"
    using st(1) nd g pg m ts unfolding C
    by (simp add: dissolve_unary_split_def layout_access L'_def Let_def)
  moreover have "represents L' (plug C s)"
  proof (rule representsI)
    have "ctx_stored (look L') C (tid s)"
      by (rule ctx_stored_rehole [OF st(3) [unfolded C], folded C])
        (use dist pg ts in \<open>auto simp: M\<close>)
    moreover have "stored (look L') (Some g) s"
      by (rule stored_reparented [OF st(2)]) (use dist pg ts nd in \<open>auto simp: M\<close>)
    ultimately show "stored (look L') None (plug C s)" by (simp add: tree_simps C del: plug.simps)
    show "distinct (tree_ids (plug C s))" using dist by (auto simp: tree_simps)
    have "dom (look L') = dom (look L) - {p}"
      using nd g(1) pg ts unfolding M by auto
    also have "\<dots> = set (tree_ids (plug C s))"
      using pg unfolding D(3) by (auto simp: tree_simps)
    finally show "dom (look L') = set (tree_ids (plug C s))" .
    show "ly_root L' = tid (plug C s)"
      using D(4) tid_plug [of C s "TSplit p ax [(s, w)]"] C by (simp add: L'_def)
    show "smap_ok (ly_nodes L')" using D(5) by (simp add: L'_def)
    show "0 < n \<and> n < ly_next L'" if "n \<in> set (tree_ids (plug C s))" for n
      using D(6) [of n] that by (auto simp: L'_def tree_simps)
  qed (use D in \<open>simp_all add: L'_def\<close>)
  ultimately show ?thesis by blast
qed

lemma dissolve_promote:
  assumes rep: "represents L (plug C (TSplit p ax [(TSplit c axg ks, w)]))"
    and C: "C = Frame g axg ls wg rs # C'" and ks: "kids_ok ks" and wg: "0 \<le> wg" "wg \<le> 100"
  shows "\<exists>L'. dissolve_unary_split p L = Inr L'
     \<and> represents L' (plug C' (TSplit g axg (ls @ promote ks wg @ rs)))"
proof -
  note D = representsD [OF rep]
  let ?kid_ids = "concat (map (\<lambda>k. tree_ids (fst k)) ks)"
  let ?t' = "plug C' (TSplit g axg (ls @ promote ks wg @ rs))"
  from D(1) have st: "look L p = Some (split_node_of p (Some g) ax [\<lparr>sc_node = c, sc_pct = w\<rparr>])"
    "look L c = Some (split_node_of c (Some p) axg (map kid_entry ks))"
    "\<forall>k \<in> set ks. stored (look L) (Some c) (fst k)" "ctx_stored (look L) C p"
    by (simp_all add: tree_simps C kid_entry_def del: plug.simps)
  have dist: "distinct (ids_before C @ (p # c # ?kid_ids) @ ids_after C)"
    using D(2) by (simp add: tree_simps)
  have pg: "p \<notin> set (ids_before C)" "p \<notin> set (ids_after C)" "g \<noteq> p" "g \<noteq> c" "g \<notin> set ?kid_ids"
    "p \<noteq> c" "p \<notin> set ?kid_ids" "c \<notin> set ?kid_ids" "g \<in> set (ids_before C)"
    "c \<notin> set (ids_before C)" "c \<notin> set (ids_after C)"
    using dist C by auto
  note g = hole_entry [OF st(4) [unfolded C] pg(1) [unfolded C]]
  obtain r where r: "distribute_pane_percentage_total (map snd ks) wg = Inr r" "length r = length ks"
    "promote ks wg = reweigh ks r" "sum_list r = wg" "\<forall>x \<in> set r. 0 \<le> x \<and> x \<le> 100"
    by (rule promote_shares [OF ks wg]) (rule that; assumption)
  define L1 where "L1 = write_node g (split_node_of g (ctx_parent C') axg
      (map kid_entry ls @ map kid_entry (promote ks wg) @ map kid_entry rs)) L"
  let ?tops = "map (\<lambda>k. tid (fst k)) ks"
  have tops: "set ?tops \<subseteq> set ?kid_ids" using kid_tid_in_ids by force
  have "set ?kid_ids \<inter> (set (ids_before C) \<union> set (ids_after C)) = {}" using dist by auto
  with tops have topsC: "set ?tops \<inter> (set (ids_before C) \<union> set (ids_after C)) = {}" by blast
  have present: "look L1 n \<noteq> None" if "n \<in> set ?tops" for n
  proof -
    from that obtain k where k: "k \<in> set ks" "n = tid (fst k)" by auto
    from stored_parent [of "look L" "Some c" "fst k"] st(3) k show ?thesis by (auto simp: L1_def)
  qed
  obtain L2 where L2: "fold_result (set_parent (Some g)) ?tops L1 = Inr L2"
    "look L2 = (\<lambda>n. if n \<in> set ?tops then map_option (\<lambda>nd. nd\<lparr>nd_parent := Some g\<rparr>) (look L1 n) else look L1 n)"
    "ly_root L2 = ly_root L1" "ly_next L2 = ly_next L1" "smap_ok (ly_nodes L1) \<longrightarrow> smap_ok (ly_nodes L2)"
    by (rule set_parents_eq [of ?tops L1 "Some g"], erule present) (rule that; assumption)
  define L' where "L' = erase_node p (erase_node c L2)"
  have M: "look L' n = (if n = p \<or> n = c then None
      else if n = g then Some (split_node_of g (ctx_parent C') axg
        (map kid_entry ls @ map kid_entry (promote ks wg) @ map kid_entry rs))
      else if n \<in> set ?tops then map_option (\<lambda>nd. nd\<lparr>nd_parent := Some g\<rparr>) (look L n) else look L n)" for n
    using pg(5) tops by (auto simp: L'_def L2(2) L1_def)
  have tk: "map (sc_node \<circ> kid_entry) ks = ?tops" by simp
  have "dissolve_unary_split p L = Inr L'"
    using st(1,2) g pg r(1) with_required_percentages_ok [OF r(2,5)] L2(1) unfolding C
    by (simp add: dissolve_unary_split_def layout_access L'_def Let_def comp_def L1_def r(3))
  moreover have "represents L' ?t'"
  proof (rule representsI)
    have fr: "stored (look L') (Some g) (fst k) = stored (look L) (Some g) (fst k)"
      if "k \<in> set (ls @ rs)" for k
    proof (rule stored_cong)
      fix n assume n: "n \<in> set (tree_ids (fst k))"
      with that have nC: "n \<in> set (ids_before C) \<union> set (ids_after C)" using C by auto
      have "n \<noteq> g" using that n dist C by auto
      moreover have "n \<noteq> p" "n \<noteq> c" using nC pg by auto
      moreover have "n \<notin> set ?tops" using nC topsC by blast
      ultimately show "look L' n = look L n" by (simp add: M)
    qed
    have cs: "ctx_stored (look L') C' g = ctx_stored (look L) C' g"
    proof (rule ctx_stored_cong)
      fix n assume n: "n \<in> set (ids_before C') \<union> set (ids_after C')"
      then have nC: "n \<in> set (ids_before C) \<union> set (ids_after C)" using C by auto
      have "n \<noteq> g" using n dist C by auto
      moreover have "n \<noteq> p" "n \<noteq> c" using nC pg by auto
      moreover have "n \<notin> set ?tops" using nC topsC by blast
      ultimately show "look L' n = look L n" by (simp add: M)
    qed
    have "\<forall>k \<in> set ks. stored (look L') (Some g) (fst k)"
    proof (rule kids_reparented)
      show "\<forall>k \<in> set ks. \<exists>p. stored (look L) p (fst k)" using st(3) by blast
      show "distinct ?kid_ids" using dist by simp
      fix n assume "n \<in> set ?kid_ids"
      with pg have "n \<noteq> p" "n \<noteq> c" "n \<noteq> g" by auto
      then show "look L' n = (if n \<in> (\<lambda>k. tid (fst k)) ` set ks
          then map_option (\<lambda>nd. nd\<lparr>nd_parent := Some g\<rparr>) (look L n) else look L n)"
        by (simp add: M)
    qed
    then have "\<forall>k \<in> set (promote ks wg). stored (look L') (Some g) (fst k)"
      using promote_fields(2) [OF ks wg] by blast
    moreover have "\<forall>k \<in> set (ls @ rs). stored (look L') (Some g) (fst k)"
      using fr st(4) C by simp
    moreover have "look L' g = Some (split_node_of g (ctx_parent C') axg
        (map kid_entry (ls @ promote ks wg @ rs)))" using pg by (simp add: M)
    moreover have "ctx_stored (look L') C' g" using cs st(4) C by simp
    ultimately show "stored (look L') None ?t'" by (simp add: tree_simps ball_Un)
    have ids: "tree_ids ?t' = ids_before C @ ?kid_ids @ ids_after C"
      using promote_fields(1) [OF ks wg, of tree_ids] C by (simp add: tree_simps)
    show "distinct (tree_ids ?t')" unfolding ids using dist by auto
    have "dom (look L') = dom (look L) - {p, c}"
    proof (rule set_eqI)
      fix n show "n \<in> dom (look L') \<longleftrightarrow> n \<in> dom (look L) - {p, c}"
        using g(1) by (cases "look L n") (auto simp: M dom_def)
    qed
    also have "\<dots> = set (tree_ids ?t')"
      unfolding D(3) ids using pg by (auto simp: tree_simps)
    finally show "dom (look L') = set (tree_ids ?t')" .
    show "ly_root L' = tid ?t'"
    proof -
      have "ly_root L' = ly_root L" by (simp add: L'_def L2(3) L1_def)
      also have "\<dots> = tid (plug C' (TSplit g axg (ls @ (TSplit p ax [(TSplit c axg ks, w)], wg) # rs)))"
        using D(4) C by simp
      also have "\<dots> = tid ?t'" by (rule tid_plug_same) simp
      finally show ?thesis .
    qed
    show "smap_ok (ly_nodes L')" using D(5) L2(5) by (simp add: L'_def L1_def)
    show "0 < n \<and> n < ly_next L'" if "n \<in> set (tree_ids ?t')" for n
    proof -
      have "n \<in> set (tree_ids (plug C (TSplit p ax [(TSplit c axg ks, w)])))"
        using that [unfolded ids] by (auto simp: ids_plug)
      then show ?thesis using D(6) [of n] by (simp add: L'_def L2(4) L1_def)
    qed
  qed (use D L2(4) in \<open>simp_all add: L'_def L1_def\<close>)
  ultimately show ?thesis by blast
qed

text \<open>All cases together: the code dissolves the split as the tree does.\<close>

lemma dissolve_unary_split_eq:
  assumes "represents L (plug C (TSplit p ax [(s, w)]))" "ctx_well_formed C" "well_formed s"
  shows "\<exists>L'. dissolve_unary_split p L = Inr L' \<and> represents L' (dissolved C s)"
proof (cases C rule: ctx_parent.cases)
  case 1
  then show ?thesis using dissolve_into_root [of L p ax s w] assms(1) by simp
next
  case (2 g axg ls wg rs C')
  show ?thesis
  proof (cases "top_axis s = Some axg")
    case True
    then obtain c ks where s: "s = TSplit c axg ks" by (cases s) auto
    have "kids_ok ks" using assms(3) s by simp
    with dissolve_promote [OF assms(1) [unfolded s] 2] frame_weight assms(2) 2 s
    show ?thesis by (metis dissolved.simps(3))
  next
    case False
    then have "dissolved C s = plug C s" using 2 by (intro dissolved_other) auto
    with dissolve_replace [OF assms(1) 2 False] show ?thesis by simp
  qed
qed

lemma dissolved_leaves:
  assumes "ctx_well_formed C" "well_formed s"
  shows "tree_leaves (dissolved C s) = leaves_before C @ tree_leaves s @ leaves_after C"
proof (cases "(C, s)" rule: dissolved.cases)
  case (3 g axg ls wg rs C' c ax ks)
  have w: "0 \<le> wg" "wg \<le> 100" and k: "kids_ok ks" using assms 3 frame_weight by auto
  show ?thesis
    using 3 promote_fields(1) [OF k w, of tree_leaves] by (simp add: tree_simps)
qed (simp_all add: tree_simps)

lemma dissolved_well_formed:
  assumes "ctx_well_formed C" "well_formed s"
  shows "well_formed (dissolved C s)"
proof (cases "(C, s)" rule: dissolved.cases)
  case (3 g axg ls wg rs C' c ax ks)
  have w: "0 \<le> wg" "wg \<le> 100" and k: "kids_ok ks" using assms 3 frame_weight by auto
  note pf = promote_fields [OF k w]
  have "\<forall>k \<in> set (promote ks wg). well_formed (fst k)" using pf(2) [of well_formed] assms(2) 3 by simp
  moreover have "2 \<le> length (promote ks wg)" using pf(4) assms(2) 3 by simp
  ultimately have "ax = axg \<Longrightarrow> well_formed (plug C' (TSplit g axg (ls @ promote ks wg @ rs)))"
    using assms(1) 3 pf(3,5) by (auto simp: tree_simps kids_ok_def ball_Un)
  moreover have "ax \<noteq> axg \<Longrightarrow> dissolved C s = plug C s" using 3 by (intro dissolved_other) simp
  then have "ax \<noteq> axg \<Longrightarrow> well_formed (dissolved C s)" using assms well_formed_plug by simp
  ultimately show ?thesis using 3 by (cases "ax = axg") simp_all
qed (use assms well_formed_plug [of C s] in \<open>simp_all del: plug.simps\<close>)

lemma dissolved_alternates:
  assumes "ctx_alternates C None" "alternates s" "ctx_well_formed C" "well_formed s"
  shows "alternates (dissolved C s)"
proof (cases "top_axis s = None \<or> top_axis s \<noteq> ctx_axis C")
  case True
  then show ?thesis
    using assms(1,2) dissolved_other [OF True] ctx_alternates_iff [of C]
    by (cases "top_axis s") (auto simp: alternates_plug)
next
  case False
  then obtain axg where ax: "top_axis s = Some axg" "ctx_axis C = Some axg"
    by (cases "top_axis s") simp_all
  then obtain g ls wg rs C' c ks where CS: "C = Frame g axg ls wg rs # C'" "s = TSplit c axg ks"
    by (cases C rule: ctx_axis.cases; cases s) simp_all
  have w: "0 \<le> wg" "wg \<le> 100" using frame_weight assms(3) unfolding CS(1) by blast+
  have k: "kids_ok ks" using assms(4) unfolding CS(2) by simp
  have "\<forall>k \<in> set (promote ks wg). top_axis (fst k) \<noteq> Some axg \<and> alternates (fst k)"
    using promote_fields(2) [OF k w, of "\<lambda>t. top_axis t \<noteq> Some axg \<and> alternates t"] assms(2) CS by simp
  then show ?thesis using CS assms(1) by (simp add: alternates_plug ball_Un)
qed

section \<open>Promoting nested splits of the same axis\<close>

fun flatten_kid :: "pane_split_axis \<Rightarrow> ptree \<times> int \<Rightarrow> (ptree \<times> int) list" where
  "flatten_kid ax (TLeaf n q, w) = [(TLeaf n q, w)]"
| "flatten_kid ax (TSplit c ax' ks, w) = (if ax' = ax then promote ks w else [(TSplit c ax' ks, w)])"

definition flatten_kids :: "pane_split_axis \<Rightarrow> (ptree \<times> int) list \<Rightarrow> (ptree \<times> int) list" where
  "flatten_kids ax ks = concat (map (flatten_kid ax) ks)"

definition flattened_ids :: "pane_split_axis \<Rightarrow> (ptree \<times> int) list \<Rightarrow> node_id list" where
  "flattened_ids ax ks = map (\<lambda>k. tid (fst k)) (filter (\<lambda>k. top_axis (fst k) = Some ax) ks)"

lemma flatten_kids_simps [simp]:
  "flatten_kids ax [] = []" "flatten_kids ax (k # ks) = flatten_kid ax k @ flatten_kids ax ks"
  "flatten_kids ax (ks @ ks') = flatten_kids ax ks @ flatten_kids ax ks'"
  by (simp_all add: flatten_kids_def)

lemma flatten_kid_other: "top_axis (fst k) \<noteq> Some ax \<Longrightarrow> flatten_kid ax k = [k]"
  by (cases "(ax, k)" rule: flatten_kid.cases) auto

lemma flatten_kids_other: "\<forall>k \<in> set ks. top_axis (fst k) \<noteq> Some ax \<Longrightarrow> flatten_kids ax ks = ks"
  by (induction ks) (auto simp: flatten_kid_other simp del: split_paired_All)

text \<open>The weights and subtrees for which promotion is defined.\<close>

definition flattenable :: "(ptree \<times> int) list \<Rightarrow> bool" where
  "flattenable ks \<longleftrightarrow> (\<forall>k \<in> set ks. 0 \<le> snd k \<and> snd k \<le> 100 \<and> well_formed (fst k))"

lemma flatten_kid_facts:
  assumes "0 \<le> snd k" "snd k \<le> 100" "well_formed (fst k)"
  shows "concat (map (\<lambda>k. tree_leaves (fst k)) (flatten_kid ax k)) = tree_leaves (fst k)
    \<and> sum_list (map snd (flatten_kid ax k)) = snd k
    \<and> tree_ids (fst k) = (if top_axis (fst k) = Some ax then [tid (fst k)] else [])
       @ concat (map (\<lambda>k. tree_ids (fst k)) (flatten_kid ax k))
    \<and> (\<forall>k' \<in> set (flatten_kid ax k). 0 \<le> snd k' \<and> well_formed (fst k'))
    \<and> (alternates (fst k) \<longrightarrow>
        (\<forall>k' \<in> set (flatten_kid ax k). top_axis (fst k') \<noteq> Some ax \<and> alternates (fst k')))
    \<and> flatten_kid ax k \<noteq> []"
proof (cases "top_axis (fst k) = Some ax")
  case True
  then obtain c ks w where k: "k = (TSplit c ax ks, w)" by (cases k; cases "fst k") auto
  with assms have ok: "kids_ok ks" "0 \<le> w" "w \<le> 100" and len: "2 \<le> length ks" by auto
  note pf = promote_fields [OF ok]
  have "\<forall>k' \<in> set (promote ks w). well_formed (fst k')"
    using pf(2) [of well_formed] assms(3) k by simp
  moreover have "alternates (fst k) \<longrightarrow>
      (\<forall>k' \<in> set (promote ks w). top_axis (fst k') \<noteq> Some ax \<and> alternates (fst k'))"
    using pf(2) [of "\<lambda>t. top_axis t \<noteq> Some ax \<and> alternates t"] k by simp
  moreover have "promote ks w \<noteq> []" using pf(4) len by (metis length_0_conv not_numeral_le_zero)
  ultimately show ?thesis using k pf(1) [of tree_leaves] pf(1) [of tree_ids] pf(3,5) by simp
next
  case False
  then show ?thesis using assms by (simp add: flatten_kid_other)
qed

lemma flatten_kids_facts:
  assumes "flattenable ks"
  shows "concat (map (\<lambda>k. tree_leaves (fst k)) (flatten_kids ax ks)) = concat (map (\<lambda>k. tree_leaves (fst k)) ks)"
    "sum_list (map snd (flatten_kids ax ks)) = sum_list (map snd ks)"
    "mset (concat (map (\<lambda>k. tree_ids (fst k)) ks))
       = mset (flattened_ids ax ks @ concat (map (\<lambda>k. tree_ids (fst k)) (flatten_kids ax ks)))"
    "\<forall>k' \<in> set (flatten_kids ax ks). 0 \<le> snd k' \<and> well_formed (fst k')"
    "\<forall>k \<in> set ks. alternates (fst k) \<Longrightarrow>
       \<forall>k' \<in> set (flatten_kids ax ks). top_axis (fst k') \<noteq> Some ax \<and> alternates (fst k')"
    "length ks \<le> length (flatten_kids ax ks)"
proof -
  have "concat (map (\<lambda>k. tree_leaves (fst k)) (flatten_kids ax ks)) = concat (map (\<lambda>k. tree_leaves (fst k)) ks)
    \<and> sum_list (map snd (flatten_kids ax ks)) = sum_list (map snd ks)
    \<and> mset (concat (map (\<lambda>k. tree_ids (fst k)) ks))
       = mset (flattened_ids ax ks @ concat (map (\<lambda>k. tree_ids (fst k)) (flatten_kids ax ks)))
    \<and> (\<forall>k' \<in> set (flatten_kids ax ks). 0 \<le> snd k' \<and> well_formed (fst k'))
    \<and> ((\<forall>k \<in> set ks. alternates (fst k)) \<longrightarrow>
       (\<forall>k' \<in> set (flatten_kids ax ks). top_axis (fst k') \<noteq> Some ax \<and> alternates (fst k')))
    \<and> length ks \<le> length (flatten_kids ax ks)"
    using assms
  proof (induction ks)
    case Nil
    then show ?case by (simp add: flattened_ids_def)
  next
    case (Cons k ks)
    then have "flattenable ks" by (simp add: flattenable_def)
    note IH = Cons.IH [OF this]
    have k: "0 \<le> snd k" "snd k \<le> 100" "well_formed (fst k)"
      using Cons.prems by (simp_all add: flattenable_def)
    note F = flatten_kid_facts [OF k, of ax]
    have "tree_ids (fst k) = (if top_axis (fst k) = Some ax then [tid (fst k)] else [])
       @ concat (map (\<lambda>k. tree_ids (fst k)) (flatten_kid ax k))" using F by blast
    then have ids: "mset (tree_ids (fst k)) = mset (if top_axis (fst k) = Some ax then [tid (fst k)] else [])
       + mset (concat (map (\<lambda>k. tree_ids (fst k)) (flatten_kid ax k)))" by (metis mset_append)
    have fl: "mset (flattened_ids ax (k # ks))
       = mset (if top_axis (fst k) = Some ax then [tid (fst k)] else []) + mset (flattened_ids ax ks)"
      by (simp add: flattened_ids_def)
    have "mset (concat (map (\<lambda>k. tree_ids (fst k)) (k # ks)))
       = mset (flattened_ids ax (k # ks) @ concat (map (\<lambda>k. tree_ids (fst k)) (flatten_kids ax (k # ks))))"
      using IH by (simp only: list.map concat.simps mset_append ids fl flatten_kids_simps map_append
          concat_append ac_simps)
    moreover have "length (k # ks) \<le> length (flatten_kids ax (k # ks))"
    proof -
      have "1 \<le> length (flatten_kid ax k)" using F by (cases "flatten_kid ax k") simp_all
      with IH show ?thesis by simp
    qed
    moreover have "\<forall>k' \<in> set (flatten_kids ax (k # ks)). 0 \<le> snd k' \<and> well_formed (fst k')"
      unfolding flatten_kids_simps set_append ball_Un using IH F by blast
    moreover have "(\<forall>k \<in> set (k # ks). alternates (fst k)) \<longrightarrow>
       (\<forall>k' \<in> set (flatten_kids ax (k # ks)). top_axis (fst k') \<noteq> Some ax \<and> alternates (fst k'))"
      unfolding flatten_kids_simps set_append ball_Un list.set ball_simps using IH F by blast
    moreover have "sum_list (map snd (flatten_kids ax (k # ks))) = sum_list (map snd (k # ks))"
      using IH F by simp
    moreover have "concat (map (\<lambda>k. tree_leaves (fst k)) (flatten_kids ax (k # ks)))
        = concat (map (\<lambda>k. tree_leaves (fst k)) (k # ks))"
      using IH F by simp
    ultimately show ?case by (intro conjI)
  qed
  note F = this
  note r = F [THEN conjunct2] F [THEN conjunct2, THEN conjunct2]
    F [THEN conjunct2, THEN conjunct2, THEN conjunct2]
    F [THEN conjunct2, THEN conjunct2, THEN conjunct2, THEN conjunct2]
  show "concat (map (\<lambda>k. tree_leaves (fst k)) (flatten_kids ax ks)) = concat (map (\<lambda>k. tree_leaves (fst k)) ks)"
    by (rule F [THEN conjunct1])
  show "sum_list (map snd (flatten_kids ax ks)) = sum_list (map snd ks)"
    by (rule r(1) [THEN conjunct1])
  show "mset (concat (map (\<lambda>k. tree_ids (fst k)) ks))
       = mset (flattened_ids ax ks @ concat (map (\<lambda>k. tree_ids (fst k)) (flatten_kids ax ks)))"
    by (rule r(2) [THEN conjunct1])
  show "\<forall>k' \<in> set (flatten_kids ax ks). 0 \<le> snd k' \<and> well_formed (fst k')"
    by (rule r(3) [THEN conjunct1])
  show "\<forall>k \<in> set ks. alternates (fst k) \<Longrightarrow>
       \<forall>k' \<in> set (flatten_kids ax ks). top_axis (fst k') \<noteq> Some ax \<and> alternates (fst k')"
    by (rule r(4) [THEN conjunct1, THEN mp])
  show "length ks \<le> length (flatten_kids ax ks)"
    by (rule r(4) [THEN conjunct2])
qed

lemma flatten_kid_stored:
  assumes "stored M p (fst k)" "0 \<le> snd k" "snd k \<le> 100" "well_formed (fst k)"
  shows "\<forall>k' \<in> set (flatten_kid ax k). \<exists>p. stored M p (fst k')"
proof (cases "top_axis (fst k) = Some ax")
  case True
  then obtain c ks w where k: "k = (TSplit c ax ks, w)" by (cases k; cases "fst k") auto
  then have ok: "kids_ok ks" "0 \<le> w" "w \<le> 100" using assms by simp_all
  have "\<forall>k' \<in> set ks. \<exists>p. stored M p (fst k')" using assms(1) k by auto
  then show ?thesis using promote_fields(2) [OF ok, of "\<lambda>t. \<exists>p. stored M p t"] k by simp
next
  case False
  then show ?thesis using assms(1) by (simp add: flatten_kid_other) blast
qed

lemma flatten_kids_stored:
  assumes "\<forall>k \<in> set ks. stored M p (fst k)" "flattenable ks"
  shows "\<forall>k' \<in> set (flatten_kids ax ks). \<exists>p. stored M p (fst k')"
proof
  fix k' assume "k' \<in> set (flatten_kids ax ks)"
  then obtain k where k: "k \<in> set ks" "k' \<in> set (flatten_kid ax k)"
    unfolding flatten_kids_def set_concat set_map by blast
  have "0 \<le> snd k \<and> snd k \<le> 100 \<and> well_formed (fst k)" using assms(2) k(1) unfolding flattenable_def by blast
  with flatten_kid_stored [of M p k ax] assms(1) k show "\<exists>p. stored M p (fst k')" by blast
qed

lemma flatten_child_eq:
  assumes "stored (look L) p (fst k)" "0 \<le> snd k" "snd k \<le> 100" "well_formed (fst k)"
  shows "flatten_child L ax (kid_entry k) (acc, fl) =
    Inr (acc @ map kid_entry (flatten_kid ax k), fl @ flattened_ids ax [k])"
proof (cases "top_axis (fst k) = Some ax")
  case True
  then obtain c ks w where k: "k = (TSplit c ax ks, w)" by (cases k; cases "fst k") auto
  with assms have ok: "kids_ok ks" "0 \<le> w" "w \<le> 100" by simp_all
  obtain r where r: "distribute_pane_percentage_total (map snd ks) w = Inr r" "length r = length ks"
    "promote ks w = reweigh ks r" "sum_list r = w" "\<forall>x \<in> set r. 0 \<le> x \<and> x \<le> 100"
    by (rule promote_shares [OF ok]) (rule that; assumption)
  show ?thesis using assms(1) r(1,3) with_required_percentages_ok [OF r(2,5)] k
    by (simp add: flatten_child_def layout_access comp_def flattened_ids_def)
next
  case False
  then show ?thesis using assms(1)
    by (cases "fst k") (auto simp: flatten_child_def layout_access flatten_kid_other flattened_ids_def)
qed

lemma flatten_children_eq:
  assumes "\<forall>k \<in> set ks. stored (look L) p (fst k)" "flattenable ks"
  shows "fold_result (flatten_child L ax) (map kid_entry ks) (acc, fl) =
    Inr (acc @ map kid_entry (flatten_kids ax ks), fl @ flattened_ids ax ks)"
  using assms
proof (induction ks arbitrary: acc fl)
  case Nil
  then show ?case by (simp add: flattened_ids_def)
next
  case (Cons k ks)
  have k: "stored (look L) p (fst k)" "0 \<le> snd k" "snd k \<le> 100" "well_formed (fst k)"
    using Cons.prems by (simp_all add: flattenable_def)
  have "\<forall>k \<in> set ks. stored (look L) p (fst k)" "flattenable ks"
    using Cons.prems by (simp_all add: flattenable_def)
  note IH = Cons.IH [OF this]
  have f: "flattened_ids ax (k # ks) = flattened_ids ax [k] @ flattened_ids ax ks"
    by (simp add: flattened_ids_def)
  show ?case unfolding f using flatten_child_eq [OF k] IH by simp
qed

lemma flattened_ids_sub: "set (flattened_ids ax ks) \<subseteq> set (concat (map (\<lambda>k. tree_ids (fst k)) ks))"
  unfolding flattened_ids_def using kid_tid_in_ids by fastforce

text \<open>Flattening stores the tree with the flattened list of subtrees.\<close>

lemma flatten_matching_split_children_eq:
  assumes rep: "represents L (plug C (TSplit n ax ks))" and fl: "flattenable ks"
  shows "\<exists>L'. flatten_matching_split_children n L = Inr L'
     \<and> represents L' (plug C (TSplit n ax (flatten_kids ax ks)))"
proof -
  note D = representsD [OF rep]
  let ?fs = "flatten_kids ax ks" and ?er = "flattened_ids ax ks"
  let ?kid_ids = "concat (map (\<lambda>k. tree_ids (fst k)) ks)"
  let ?new_ids = "concat (map (\<lambda>k. tree_ids (fst k)) ?fs)"
  let ?t' = "plug C (TSplit n ax ?fs)"
  have ms: "mset ?kid_ids = mset (?er @ ?new_ids)" using flatten_kids_facts(3) [OF fl] .
  from D(1) have st: "look L n = Some (split_node_of n (ctx_parent C) ax (map kid_entry ks))"
    "\<forall>k \<in> set ks. stored (look L) (Some n) (fst k)" "ctx_stored (look L) C n"
    by (simp_all add: tree_simps)
  have "distinct (ids_before C @ (n # ?kid_ids) @ ids_after C)"
    using D(2) by (simp add: tree_simps)
  moreover have "mset (ids_before C @ (n # ?kid_ids) @ ids_after C)
      = mset (ids_before C @ (n # ?er @ ?new_ids) @ ids_after C)"
    using ms by (simp only: mset_append mset.simps)
  ultimately have dist: "distinct (ids_before C @ (n # ?er @ ?new_ids) @ ids_after C)"
    by (metis mset_eq_imp_distinct_iff)
  let ?tops = "map (\<lambda>k. tid (fst k)) ?fs"
  have tops: "set ?tops \<subseteq> set ?new_ids" using kid_tid_in_ids by fastforce
  define L1 where "L1 = write_node n (split_node_of n (ctx_parent C) ax (map kid_entry ?fs)) L"
  note fst_st = flatten_kids_stored [OF st(2) fl, of ax]
  have present: "look L1 m \<noteq> None" if "m \<in> set ?tops" for m
  proof -
    from that obtain k where k: "k \<in> set ?fs" "m = tid (fst k)" by auto
    with fst_st obtain p where "stored (look L) p (fst k)" by blast
    from stored_parent [OF this] k show ?thesis by (auto simp: L1_def)
  qed
  obtain L2 where L2: "fold_result (set_parent (Some n)) ?tops L1 = Inr L2"
    "look L2 = (\<lambda>m. if m \<in> set ?tops then map_option (\<lambda>nd. nd\<lparr>nd_parent := Some n\<rparr>) (look L1 m) else look L1 m)"
    "ly_root L2 = ly_root L1" "ly_next L2 = ly_next L1" "smap_ok (ly_nodes L1) \<longrightarrow> smap_ok (ly_nodes L2)"
    by (rule set_parents_eq [of ?tops L1 "Some n"], erule present) (rule that; assumption)
  define L' where "L' = fold erase_node ?er L2"
  have nn: "n \<notin> set ?new_ids" "n \<notin> set ?er" "n \<notin> set ?tops" using dist tops by auto
  have M: "look L' m = (if m \<in> set ?er then None
      else if m = n then Some (split_node_of n (ctx_parent C) ax (map kid_entry ?fs))
      else if m \<in> set ?tops then map_option (\<lambda>nd. nd\<lparr>nd_parent := Some n\<rparr>) (look L m) else look L m)" for m
    using nn(3) by (simp add: L'_def fold_erase_fields L2(2) L1_def)
  have tk: "map sc_node (map kid_entry ?fs) = ?tops" by simp
  have fc: "fold_result (flatten_child L ax) (map kid_entry ks) ([], []) = Inr (map kid_entry ?fs, ?er)"
    using flatten_children_eq [OF st(2) fl, of ax "[]" "[]"] by simp
  have "flatten_matching_split_children n L = Inr L'"
    using st(1) fc L2(1) tk
    by (simp add: flatten_matching_split_children_def layout_access L'_def L1_def del: map_map)
  moreover have "represents L' ?t'"
  proof (rule representsI)
    have cs: "ctx_stored (look L') C n = ctx_stored (look L) C n"
    proof (rule ctx_stored_cong)
      fix m assume m: "m \<in> set (ids_before C) \<union> set (ids_after C)"
      then have "m \<noteq> n" "m \<notin> set ?er" "m \<notin> set ?new_ids" using dist by auto
      moreover have "m \<notin> set ?tops" using calculation(3) tops by blast
      ultimately show "look L' m = look L m" by (simp add: M)
    qed
    have "\<forall>k \<in> set ?fs. stored (look L') (Some n) (fst k)"
    proof (rule kids_reparented [OF fst_st])
      show "distinct ?new_ids" using dist by simp
      fix m assume m: "m \<in> set ?new_ids"
      have "m \<notin> set ?er" "m \<noteq> n" using m dist by auto
      then show "look L' m = (if m \<in> (\<lambda>k. tid (fst k)) ` set ?fs
          then map_option (\<lambda>nd. nd\<lparr>nd_parent := Some n\<rparr>) (look L m) else look L m)"
        by (simp add: M)
    qed
    moreover have "look L' n = Some (split_node_of n (ctx_parent C) ax (map kid_entry ?fs))"
      using nn(2) by (simp add: M)
    ultimately show "stored (look L') None ?t'" using cs st(3) by (simp add: tree_simps)
    have ids: "tree_ids ?t' = ids_before C @ n # ?new_ids @ ids_after C" by (simp add: tree_simps)
    show "distinct (tree_ids ?t')" unfolding ids using dist by auto
    have sk: "set ?kid_ids = set ?er \<union> set ?new_ids"
      using mset_eq_setD [OF ms] by (simp only: set_append)
    have "dom (look L') = dom (look L) - set ?er"
    proof (rule set_eqI)
      fix m show "m \<in> dom (look L') \<longleftrightarrow> m \<in> dom (look L) - set ?er"
        using st(1) nn(2) by (cases "look L m") (auto simp: M dom_def)
    qed
    also have "\<dots> = set (tree_ids ?t')"
      unfolding D(3) ids using dist sk by (auto simp: tree_simps simp del: set_concat)
    finally show "dom (look L') = set (tree_ids ?t')" .
    show "ly_root L' = tid ?t'"
      using D(4) tid_plug_same [of "TSplit n ax ks" "TSplit n ax ?fs" C]
      by (simp add: L'_def fold_erase_fields L2(3) L1_def)
    show "smap_ok (ly_nodes L')" using D(5) L2(5) by (simp add: L'_def L1_def fold_erase_fields)
    show "0 < m \<and> m < ly_next L'" if "m \<in> set (tree_ids ?t')" for m
    proof -
      have "m \<in> set (tree_ids (plug C (TSplit n ax ks)))"
        using that [unfolded ids] sk by (auto simp: ids_plug simp del: set_concat)
      then show ?thesis using D(6) [of m] by (simp add: L'_def L2(4) L1_def fold_erase_fields)
    qed
  qed (use D L2(4) in \<open>simp_all add: L'_def L1_def fold_erase_fields\<close>)
  ultimately show ?thesis by blast
qed

end
