(* ===== verification/Pane_Remove.thy ===== *)
theory Pane_Remove
  imports Pane_Restructure
begin

text \<open>
  \<open>PaneLayout::remove_leaf\<close> implements the removal of a pane from the tree: the remaining
  siblings share 100 percent, a split left with one child is dissolved, and the focus moves to
  the pane that follows in display order, or to the one before when the removed pane was last.
\<close>

section \<open>The siblings that remain\<close>

definition renormalized :: "(ptree \<times> int) list \<Rightarrow> (ptree \<times> int) list" where
  "renormalized ks = reweigh ks (projr (normalize_pane_percentages (map snd ks)))"

lemma renormalized_shares:
  assumes "ks \<noteq> []" "\<forall>k \<in> set ks. 0 \<le> snd k"
  obtains r where "normalize_pane_percentages (map snd ks) = Inr r" "length r = length ks"
    "renormalized ks = reweigh ks r" "sum_list r = 100" "\<forall>x \<in> set r. 0 \<le> x \<and> x \<le> 100"
proof -
  obtain r where "normalize_pane_percentages (map snd ks) = Inr r" "length r = length (map snd ks)"
    "sum_list r = 100" "\<And>x. x \<in> set r \<Longrightarrow> 0 \<le> x \<and> x \<le> 100"
    by (rule normalize_laws [of "map snd ks"]) (use assms in auto)
  then show ?thesis by (intro that [of r]) (simp_all add: renormalized_def)
qed

lemma renormalized_fields:
  assumes "ks \<noteq> []" "\<forall>k \<in> set ks. 0 \<le> snd k"
  shows "map (\<lambda>k. f (fst k)) (renormalized ks) = map (\<lambda>k. f (fst k)) ks"
    "(\<forall>k \<in> set (renormalized ks). P (fst k)) \<longleftrightarrow> (\<forall>k \<in> set ks. P (fst k))"
    "kids_ok (renormalized ks)" "length (renormalized ks) = length ks"
    "map kid_entry (renormalized ks)
      = with_percentages (map kid_entry ks) (projr (normalize_pane_percentages (map snd ks)))"
    "normalize_pane_percentages (map snd ks) = Inr (projr (normalize_pane_percentages (map snd ks)))"
    "map fst (renormalized ks) = map fst ks"
proof -
  obtain r where r: "normalize_pane_percentages (map snd ks) = Inr r" "length r = length ks"
    "renormalized ks = reweigh ks r" "sum_list r = 100" "\<forall>x \<in> set r. 0 \<le> x \<and> x \<le> 100"
    by (rule renormalized_shares [OF assms]) (rule that; assumption)
  note rw = reweigh_fields [OF r(2), folded r(3)]
  show "map (\<lambda>k. f (fst k)) (renormalized ks) = map (\<lambda>k. f (fst k)) ks"
    "(\<forall>k \<in> set (renormalized ks). P (fst k)) \<longleftrightarrow> (\<forall>k \<in> set ks. P (fst k))"
    "length (renormalized ks) = length ks" "map fst (renormalized ks) = map fst ks" by (rule rw)+
  show "map kid_entry (renormalized ks)
      = with_percentages (map kid_entry ks) (projr (normalize_pane_percentages (map snd ks)))"
    using reweigh_entries [OF r(2)] r(1,3) by simp
  show "normalize_pane_percentages (map snd ks) = Inr (projr (normalize_pane_percentages (map snd ks)))"
    using r(1) by simp
  have "0 \<le> snd k" if "k \<in> set (renormalized ks)" for k
  proof -
    from that have "snd k \<in> set (map snd (renormalized ks))" by (simp del: map_map)
    then show ?thesis using rw(2) r(5) by simp
  qed
  then show "kids_ok (renormalized ks)" using rw(2) r(4) by (simp add: kids_ok_def)
qed

section \<open>Taking the hole out of a split\<close>

definition rejoined :: "ctx \<Rightarrow> node_id \<Rightarrow> pane_split_axis \<Rightarrow> (ptree \<times> int) list \<Rightarrow> ptree" where
  "rejoined C p ax ks =
     (if length ks = 1 then dissolved C (fst (hd ks)) else plug C (TSplit p ax ks))"

lemma rejoined_facts:
  assumes "ctx_well_formed C" "kids_ok ks" "\<forall>k \<in> set ks. well_formed (fst k)"
  shows "tree_leaves (rejoined C p ax ks)
      = leaves_before C @ concat (map (\<lambda>k. tree_leaves (fst k)) ks) @ leaves_after C"
    "well_formed (rejoined C p ax ks)"
    "\<lbrakk>ctx_alternates C (Some ax); \<forall>k \<in> set ks. top_axis (fst k) \<noteq> Some ax \<and> alternates (fst k)\<rbrakk> \<Longrightarrow>
       alternates (rejoined C p ax ks)"
proof -
  have ne: "ks \<noteq> []" using assms(2) by (auto simp: kids_ok_def)
  then have one: "length ks = 1 \<Longrightarrow> ks = [hd ks]" by (cases ks) simp_all
  have s: "length ks = 1 \<Longrightarrow> well_formed (fst (hd ks))" using assms(3) ne by simp
  have "length ks = 1 \<Longrightarrow> concat (map (\<lambda>k. tree_leaves (fst k)) ks) = tree_leaves (fst (hd ks))"
    using one by (metis concat.simps list.simps(8,9) append_Nil2)
  then show "tree_leaves (rejoined C p ax ks)
      = leaves_before C @ concat (map (\<lambda>k. tree_leaves (fst k)) ks) @ leaves_after C"
    using dissolved_leaves [OF assms(1) s] by (simp add: rejoined_def tree_simps)
  have "length ks \<noteq> 1 \<Longrightarrow> 2 \<le> length ks" using ne by (cases ks; cases "tl ks") simp_all
  then show "well_formed (rejoined C p ax ks)"
    using dissolved_well_formed [OF assms(1) s] assms by (simp add: rejoined_def tree_simps)
  assume alt: "ctx_alternates C (Some ax)"
    "\<forall>k \<in> set ks. top_axis (fst k) \<noteq> Some ax \<and> alternates (fst k)"
  have "ctx_alternates C None" using alt(1) by (rule ctx_alternates_leaf)
  moreover have "alternates (fst (hd ks))" using alt(2) ne by simp
  ultimately show "alternates (rejoined C p ax ks)"
    using dissolved_alternates [of C "fst (hd ks)"] assms(1) s alt
    by (simp add: rejoined_def tree_simps)
qed

text \<open>The dissolve call both \<open>remove_leaf\<close> and \<open>move\<close> end with.\<close>

lemma dissolve_if_unary:
  assumes "represents L (plug C (TSplit p ax ks))" "ctx_well_formed C" "\<forall>k \<in> set ks. well_formed (fst k)"
  shows "\<exists>L'. (if length ks = 1 then dissolve_unary_split p L else Inr L) = Inr L'
     \<and> represents L' (rejoined C p ax ks)"
proof (cases "length ks = 1")
  case True
  then obtain s w where "ks = [(s, w)]" by (cases ks) auto
  then show ?thesis using dissolve_unary_split_eq [of L C p ax s w] assms by (simp add: rejoined_def)
next
  case False
  then show ?thesis using assms(1) by (simp add: rejoined_def)
qed

lemma kids_leaf_ids:
  "fst ` set (concat (map (\<lambda>k. tree_leaves (fst k)) ks)) \<subseteq> set (concat (map (\<lambda>k. tree_ids (fst k)) ks))"
proof (induction ks)
  case (Cons k ks)
  then show ?case using leaf_ids [of "fst k"] by (simp add: image_Un le_supI1 le_supI2 del: set_concat)
qed simp

lemma leaves_before_ids: "fst ` set (leaves_before C) \<subseteq> set (ids_before C)"
proof (induction C rule: leaves_before.induct)
  case (2 n ax ls w rs C)
  then show ?case using kids_leaf_ids [of ls]
    by (simp add: image_Un le_supI1 le_supI2 subset_insertI2 del: set_concat)
qed simp

lemma leaves_after_ids: "fst ` set (leaves_after C) \<subseteq> set (ids_after C)"
proof (induction C rule: leaves_after.induct)
  case (2 n ax ls w rs C)
  then show ?case using kids_leaf_ids [of rs]
    by (simp add: image_Un le_supI1 le_supI2 del: set_concat)
qed simp

lemma leaf_not_beside:
  assumes "distinct (tree_ids (plug C (TLeaf n q)))"
  shows "n \<notin> set (map fst (leaves_before C))" "n \<notin> set (map fst (leaves_after C))"
  using assms leaves_before_ids [of C] leaves_after_ids [of C] by (auto simp: ids_plug)

lemma position_of_append: "x \<notin> set xs \<Longrightarrow> position_of x (xs @ x # ys) = Some (length xs)"
  by (induction xs) auto

lemma represents_without_leaf:
  assumes rep: "represents L (plug C (TSplit p ax (ls @ (TLeaf n q, w) # rs)))"
    and ks: "map fst ks = map fst (ls @ rs)"
  shows "represents (erase_node n (write_node p (split_node_of p (ctx_parent C) ax (map kid_entry ks)) L))
    (plug C (TSplit p ax ks))"
proof (rule representsI)
  note D = representsD [OF rep]
  let ?L' = "erase_node n (write_node p (split_node_of p (ctx_parent C) ax (map kid_entry ks)) L)"
  from D(1) have st: "look L n = Some (leaf_node_of n (Some p) q)"
    "\<forall>k \<in> set (ls @ rs). stored (look L) (Some p) (fst k)" "ctx_stored (look L) C p"
    "look L p \<noteq> None"
    by (simp_all add: tree_simps)
  have mf: "map (\<lambda>k. f (fst k)) ks = map (\<lambda>k. f (fst k)) (ls @ rs)" for f :: "ptree \<Rightarrow> 'a"
    using arg_cong [OF ks, of "map f"] by (simp add: comp_def)
  have sf: "(\<forall>k \<in> set ks. P (fst k)) \<longleftrightarrow> (\<forall>k \<in> set (ls @ rs). P (fst k))" for P
  proof -
    have "(\<forall>k \<in> set zs. P (fst k)) \<longleftrightarrow> (\<forall>t \<in> set (map fst zs). P t)" for zs :: "(ptree \<times> int) list"
      by simp
    then show ?thesis using ks by metis
  qed
  have dist: "distinct (ids_before C @ p # concat (map (\<lambda>k. tree_ids (fst k)) ls) @ n #
      concat (map (\<lambda>k. tree_ids (fst k)) rs) @ ids_after C)"
    using D(2) by (simp add: tree_simps)
  have ids: "tree_ids (plug C (TSplit p ax ks)) = ids_before C @ p #
      concat (map (\<lambda>k. tree_ids (fst k)) ls) @ concat (map (\<lambda>k. tree_ids (fst k)) rs) @ ids_after C"
    by (simp add: tree_simps mf)
  have M: "look ?L' m = (if m = n then None else if m = p then
      Some (split_node_of p (ctx_parent C) ax (map kid_entry ks)) else look L m)" for m by simp
  have "stored (look ?L') (Some p) (fst k)" if k: "k \<in> set (ls @ rs)" for k
  proof -
    have "stored (look ?L') (Some p) (fst k) = stored (look L) (Some p) (fst k)"
    proof (rule stored_cong)
      fix m assume "m \<in> set (tree_ids (fst k))"
      then have "m \<noteq> n" "m \<noteq> p" using k dist by auto
      then show "look ?L' m = look L m" by simp
    qed
    with st(2) k show ?thesis by blast
  qed
  then have "\<forall>k \<in> set ks. stored (look ?L') (Some p) (fst k)" using sf by blast
  moreover have "ctx_stored (look ?L') C p = ctx_stored (look L) C p"
    by (rule ctx_stored_cong) (use dist in auto)
  moreover have "p \<noteq> n" using dist by auto
  ultimately show "stored (look ?L') None (plug C (TSplit p ax ks))"
    using st(3) by (simp add: tree_simps)
  show "distinct (tree_ids (plug C (TSplit p ax ks)))" unfolding ids using dist by auto
  have "dom (look ?L') = dom (look L) - {n}" using st(4) \<open>p \<noteq> n\<close> by auto
  also have "\<dots> = set (tree_ids (plug C (TSplit p ax ks)))"
    unfolding D(3) ids using dist by (auto simp: tree_simps simp del: set_concat)
  finally show "dom (look ?L') = set (tree_ids (plug C (TSplit p ax ks)))" .
  show "ly_root ?L' = tid (plug C (TSplit p ax ks))"
    using D(4) tid_plug_same [of "TSplit p ax ks" "TSplit p ax (ls @ (TLeaf n q, w) # rs)" C] by simp
  show "smap_ok (ly_nodes ?L')" using D(5) by simp
  show "0 < m \<and> m < ly_next ?L'" if "m \<in> set (tree_ids (plug C (TSplit p ax ks)))" for m
    using D(6) [of m] that [unfolded ids] by (auto simp: ids_plug simp del: set_concat)
qed (use representsD [OF rep] in simp_all)

lemma remove_leaf_eq:
  assumes rep: "represents L (plug (Frame p ax ls w rs # C) (TLeaf n q))"
    and wf: "well_formed (plug (Frame p ax ls w rs # C) (TLeaf n q))"
  defines "xs \<equiv> leaves_before (Frame p ax ls w rs # C)"
    and "ys \<equiv> leaves_after (Frame p ax ls w rs # C)"
  shows "\<exists>L'. remove_leaf n L = Inr (Some (if ys \<noteq> [] then fst (hd ys) else fst (last xs)), L')
     \<and> represents L' (rejoined C p ax (renormalized (ls @ rs)))"
proof -
  note D = representsD [OF rep]
  from D(1) have st: "look L n = Some (leaf_node_of n (Some p) q)"
    "look L p = Some (split_node_of p (ctx_parent C) ax
        (map kid_entry ls @ \<lparr>sc_node = n, sc_pct = w\<rparr> # map kid_entry rs))"
    by (simp_all add: tree_simps kid_entry_def)
  have dist: "distinct (ids_before (Frame p ax ls w rs # C) @ n # ids_after (Frame p ax ls w rs # C))"
    using D(2) by (simp add: ids_plug del: plug.simps)
  have cwf: "ctx_well_formed (Frame p ax ls w rs # C)" using wf unfolding well_formed_plug by blast
  then have ne: "ls @ rs \<noteq> []" and nn: "\<forall>k \<in> set (ls @ rs). 0 \<le> snd k"
    and kwf: "\<forall>k \<in> set (ls @ rs). well_formed (fst k)" and cw: "ctx_well_formed C" by simp_all
  note rn = renormalized_fields [OF ne nn]
  let ?ks = "renormalized (ls @ rs)"
  have hole: "n \<notin> (\<lambda>k. tid (fst k)) ` set ls" 
    using hole_not_sibling [of ls "TLeaf n q"] dist by simp
  have leaves: "leaf_nodes L = Inr (map fst xs @ n # map fst ys)"
    using leaf_nodes_eq [OF rep] by (simp add: leaves_plug xs_def ys_def del: plug.simps)
  have nx: "n \<notin> set (map fst xs)"
    unfolding xs_def by (rule leaf_not_beside) (rule D(2))
  have "\<exists>k \<in> set (ls @ rs). tree_leaves (fst k) \<noteq> []"
    using ne kwf tree_leaves_nonempty by (metis last_in_set)
  then have xy: "xs \<noteq> [] \<or> ys \<noteq> []" unfolding xs_def ys_def by auto
  let ?L2 = "erase_node n (write_node p (split_node_of p (ctx_parent C) ax (map kid_entry ?ks)) L)"
  have rep2: "represents ?L2 (plug C (TSplit p ax ?ks))"
    using represents_without_leaf [of L C p ax ls n q w rs ?ks] rep rn(7) by simp
  obtain L' where L': "(if length ?ks = 1 then dissolve_unary_split p ?L2 else Inr ?L2) = Inr L'"
    "represents L' (rejoined C p ax ?ks)"
    using dissolve_if_unary [OF rep2 cw] rn(2) [of well_formed] kwf by blast
  define r where "r = projr (normalize_pane_percentages (map snd (ls @ rs)))"
  have norm: "normalize_pane_percentages (map snd ls @ map snd rs) = Inr r"
    "with_percentages (map kid_entry ls @ map kid_entry rs) r = map kid_entry ?ks"
    using rn(5,6) by (simp_all add: r_def)
  have next_leaf: "Suc (length xs + length ys) \<noteq> 1"
    "ys = [] \<Longrightarrow> (map fst xs @ [n]) ! (length xs - Suc 0) = fst (last xs)"
    "\<And>y zs. (map fst xs @ n # y # zs) ! Suc (length xs) = y"
    using xy by (auto simp: nth_append last_conv_nth)
  have pos: "position_of n (map fst xs @ n # map fst ys) = Some (length xs)"
    using position_of_append [OF nx] by simp
  have len: "length (map kid_entry ?ks) = length ?ks" by simp
  have "remove_leaf n L = Inr (Some (if ys \<noteq> [] then fst (hd ys) else fst (last xs)), L')"
    using st leaves pos hole norm L'(1) next_leaf
    by (cases ys) (simp_all add: remove_leaf_def layout_access Let_def comp_def split: if_splits)
  with L'(2) show ?thesis by blast
qed


section \<open>Removal keeps the invariant\<close>

definition focus_after_removal :: "'a \<Rightarrow> 'a list \<Rightarrow> 'a" where
  "focus_after_removal x xs = (case dropWhile (\<lambda>y. y \<noteq> x) xs of
       _ # y # _ \<Rightarrow> y | _ \<Rightarrow> last (takeWhile (\<lambda>y. y \<noteq> x) xs))"

lemma focus_after_removal_append:
  "x \<notin> set xs \<Longrightarrow> focus_after_removal x (xs @ x # ys) = (if ys \<noteq> [] then hd ys else last xs)"
  by (cases ys) (simp_all add: focus_after_removal_def dropWhile_append takeWhile_append)

lemma remove_last_leaf:
  assumes "layout_inv L t" "tree_leaves t = [(n, q)]"
  shows "remove_leaf n L = Inr (None, L)"
proof -
  from assms have rep: "represents L t" by (simp add: layout_inv_def)
  obtain r where "look L n = Some (leaf_node_of n r q)"
    using stored_leaves [OF representsD(1) [OF rep], of n q] assms(2) by auto
  then show ?thesis using leaf_nodes_eq [OF rep] assms(2)
    by (simp add: remove_leaf_def layout_access)
qed

lemma remove_leaf_inv:
  assumes inv: "layout_inv L t" and leaf: "(n, q) \<in> set (tree_leaves t)"
    and many: "tree_panes t \<noteq> [q]"
  shows "\<exists>L' t'. remove_leaf n L = Inr (Some (focus_after_removal n (map fst (tree_leaves t))), L')
     \<and> layout_inv L' t' \<and> (alternates t \<longrightarrow> alternates t')
     \<and> tree_leaves t' = removeAll (n, q) (tree_leaves t)
     \<and> focus_after_removal n (map fst (tree_leaves t)) \<in> fst ` set (tree_leaves t')"
proof -
  from inv have rep: "represents L t" and wf: "well_formed t" and dp: "distinct (tree_panes t)"
    by (auto simp: layout_inv_def)
  from leaf_context [OF leaf] obtain C0 where t0: "t = plug C0 (TLeaf n q)" by blast
  with many have "C0 \<noteq> []" by (auto simp: tree_panes_def)
  then obtain p ax ls w rs C where t: "t = plug (Frame p ax ls w rs # C) (TLeaf n q)"
    using t0 by (cases C0 rule: ctx_parent.cases) auto
  define xs where "xs = leaves_before (Frame p ax ls w rs # C)"
  define ys where "ys = leaves_after (Frame p ax ls w rs # C)"
  have tl: "tree_leaves t = xs @ (n, q) # ys"
    by (simp add: t leaves_plug xs_def ys_def del: plug.simps)
  let ?t' = "rejoined C p ax (renormalized (ls @ rs))"
  let ?f = "if ys \<noteq> [] then fst (hd ys) else fst (last xs)"
  obtain L' where L': "remove_leaf n L = Inr (Some ?f, L')" "represents L' ?t'"
    using remove_leaf_eq [OF rep [unfolded t] wf [unfolded t]] unfolding xs_def ys_def by blast
  have cwf: "ctx_well_formed (Frame p ax ls w rs # C)" using wf unfolding t well_formed_plug by blast
  then have ne: "ls @ rs \<noteq> []" and nn: "\<forall>k \<in> set (ls @ rs). 0 \<le> snd k"
    and kwf: "\<forall>k \<in> set (ls @ rs). well_formed (fst k)" and cw: "ctx_well_formed C" by simp_all
  note rn = renormalized_fields [OF ne nn]
  have wf': "\<forall>k \<in> set (renormalized (ls @ rs)). well_formed (fst k)" using rn(2) kwf by blast
  note rj = rejoined_facts [OF cw rn(3) wf', where p = p and ax = ax]
  have leaves': "tree_leaves ?t' = xs @ ys"
    unfolding rj(1) rn(1) xs_def ys_def by simp
  have dq: "distinct (map snd xs @ q # map snd ys)"
    using dp by (simp add: tree_panes_def tl)
  then have "(n, q) \<notin> set xs" "(n, q) \<notin> set ys"
    using imageI [of "(n, q)" "set xs" snd] imageI [of "(n, q)" "set ys" snd] by auto
  then have rem: "tree_leaves ?t' = removeAll (n, q) (tree_leaves t)"
    unfolding leaves' tl by simp
  have "layout_inv L' ?t'"
    using L'(2) rj(2) dq by (simp add: layout_inv_def tree_panes_def leaves')
  moreover have "alternates t \<longrightarrow> alternates ?t'"
  proof
    assume "alternates t"
    then have a: "ctx_alternates (Frame p ax ls w rs # C) None" unfolding t alternates_plug by simp
    have "\<forall>k \<in> set (renormalized (ls @ rs)). top_axis (fst k) \<noteq> Some ax \<and> alternates (fst k)"
      using rn(2) [of "\<lambda>t. top_axis t \<noteq> Some ax \<and> alternates t"] a by simp
    with a show "alternates ?t'" by (intro rj(3)) simp_all
  qed
  moreover have nx: "n \<notin> set (map fst xs)"
    unfolding xs_def by (rule leaf_not_beside) (use representsD(2) [OF rep] t in simp)
  have xy: "xs \<noteq> [] \<or> ys \<noteq> []" using many by (auto simp: tree_panes_def tl)
  have f: "focus_after_removal n (map fst (tree_leaves t)) = ?f"
    using focus_after_removal_append [OF nx, of "map fst ys"] xy
    by (cases "ys = []") (simp_all add: tl hd_map last_map)
  moreover have "?f \<in> fst ` set (tree_leaves ?t')" unfolding leaves' using xy by auto
  ultimately show ?thesis unfolding f using L'(1) rem by (intro exI conjI)
qed

text \<open>
  C3: Removing one of several leaves succeeds, returns the neighbour that receives the focus
  (the next leaf, or the previous one for the last), removes exactly that leaf from the
  reading order and keeps the layout invariant and normal form.
\<close>

lemma remove_leaf_correct:
  assumes inv: "layout_inv L t" and leaf: "(n, q) \<in> set (tree_leaves t)"
    and many: "tree_panes t \<noteq> [q]"
  shows "\<exists>L' t'. remove_leaf n L = Inr (Some (focus_after_removal n (map fst (tree_leaves t))), L')
     \<and> layout_inv L' t' \<and> (alternates t \<longrightarrow> alternates t')
     \<and> tree_leaves t' = removeAll (n, q) (tree_leaves t)
     \<and> focus_after_removal n (map fst (tree_leaves t)) \<in> fst ` set (tree_leaves t')"
  by (rule remove_leaf_inv [OF assms])

lemma remove_leaf_correct_witness:
  "\<exists>L' t'. remove_leaf 2 stacked_layout = Inr (Some 4, L') \<and> layout_inv L' t'
     \<and> alternates t' \<and> tree_leaves t' = [(1, 1), (4, 3)]"
proof -
  have "(2, 2) \<in> set (tree_leaves stacked_tree)" "tree_panes stacked_tree \<noteq> [2]"
    by (simp_all add: stacked_facts)
  from remove_leaf_correct [OF stacked_layout_inv this] show ?thesis
    using stacked_facts(3) by (auto simp: stacked_facts(1) focus_after_removal_def)
qed

lemma remove_last_leaf_witness: "remove_leaf 1 (single 7) = Inr (None, single 7)"
proof (rule remove_last_leaf)
  show "layout_inv (single 7) (TLeaf 1 7)"
    unfolding layout_inv_def using represents_single by (simp add: tree_panes_def)
qed simp

end
