(* ===== verification/Pane_Regroup.thy ===== *)
theory Pane_Regroup
  imports Pane_Remove
begin

text \<open>
  The operations of \<open>PaneLayout\<close> that keep every pane in its place in display order:
  \<open>set_split_percentages\<close> (new weights for one split), \<open>rotate_split\<close> (flipping every axis
  below a split, then merging it into its parent when the axes coincide) and
  \<open>rotate_sibling_range\<close> (putting a range of siblings into a new split of the other axis).
\<close>

section \<open>New children over the same subtrees\<close>

lemma mset_fst_all:
  fixes ks ks' :: "('a \<times> 'b) list"
  assumes "mset (map fst ks') = mset (map fst ks)"
  shows "(\<forall>k \<in> set ks'. P (fst k)) \<longleftrightarrow> (\<forall>k \<in> set ks. P (fst k))"
proof -
  have all: "(\<forall>k \<in> set zs. P (fst k)) \<longleftrightarrow> (\<forall>t \<in> set (map fst zs). P t)" for zs :: "('a \<times> 'b) list"
    by simp
  show ?thesis unfolding all mset_eq_setD [OF assms] ..
qed

lemma mset_concat_fst:
  fixes ks ks' :: "('a \<times> 'b) list"
  assumes "mset (map fst ks') = mset (map fst ks)"
  shows "mset (concat (map (\<lambda>k. f (fst k)) ks')) = mset (concat (map (\<lambda>k. f (fst k)) ks))"
proof -
  have all: "mset (concat (map (\<lambda>k. f (fst k)) zs)) = \<Sum>\<^sub># (image_mset (\<lambda>t. mset (f t)) (mset (map fst zs)))"
    for zs :: "('a \<times> 'b) list"
    by (induction zs) simp_all
  show ?thesis unfolding all assms ..
qed

lemma represents_rekid:
  assumes rep: "represents L (plug C (TSplit n ax ks))"
    and ks': "mset (map fst ks') = mset (map fst ks)"
  shows "represents (write_node n (split_node_of n (ctx_parent C) ax (map kid_entry ks')) L)
    (plug C (TSplit n ax ks'))"
proof (rule representsI)
  note D = representsD [OF rep]
  let ?L' = "write_node n (split_node_of n (ctx_parent C) ax (map kid_entry ks')) L"
  let ?t' = "plug C (TSplit n ax ks')"
  from D(1) have st: "look L n = Some (split_node_of n (ctx_parent C) ax (map kid_entry ks))"
    "\<forall>k \<in> set ks. stored (look L) (Some n) (fst k)" "ctx_stored (look L) C n"
    by (simp_all add: tree_simps)
  have ms: "mset (tree_ids ?t') = mset (tree_ids (plug C (TSplit n ax ks)))"
    using mset_concat_fst [OF ks', of tree_ids] by (simp add: ids_plug)
  have dist: "distinct (ids_before C @ n # concat (map (\<lambda>k. tree_ids (fst k)) ks) @ ids_after C)"
    using D(2) by (simp add: tree_simps)
  have "\<forall>k \<in> set ks. stored (look ?L') (Some n) (fst k)"
  proof
    fix k assume k: "k \<in> set ks"
    have "n \<notin> set (tree_ids (fst k))" using k dist by auto
    then show "stored (look ?L') (Some n) (fst k)" using st(2) k by (simp add: stored_frame)
  qed
  then have "\<forall>k \<in> set ks'. stored (look ?L') (Some n) (fst k)"
    using mset_fst_all [OF ks'] by blast
  moreover have "ctx_stored (look ?L') C n" using st(3) dist by (simp add: ctx_stored_frame)
  ultimately show "stored (look ?L') None ?t'" by (simp add: tree_simps)
  show "distinct (tree_ids ?t')" using D(2) ms by (metis mset_eq_imp_distinct_iff)
  have same: "set (tree_ids ?t') = set (tree_ids (plug C (TSplit n ax ks)))"
    using ms by (rule mset_eq_setD)
  show "dom (look ?L') = set (tree_ids ?t')"
    unfolding same using D(3) st(1) by auto
  show "ly_root ?L' = tid ?t'"
    using D(4) tid_plug_same [of "TSplit n ax ks'" "TSplit n ax ks" C] by simp
  show "smap_ok (ly_nodes ?L')" using D(5) by simp
  show "0 < m \<and> m < ly_next ?L'" if "m \<in> set (tree_ids ?t')" for m
    using D(6) [of m] that unfolding same by simp
qed (use representsD [OF rep] in simp_all)

lemma represents_reweighed:
  assumes "represents L (plug C (TSplit n ax ks))" "map fst ks' = map fst ks"
  shows "represents (write_node n (split_node_of n (ctx_parent C) ax (map kid_entry ks')) L)
    (plug C (TSplit n ax ks'))"
  by (rule represents_rekid) (simp_all add: assms)

section \<open>New weights\<close>

lemma set_split_percentages_correct:
  assumes inv: "layout_inv L (plug C (TSplit n ax ks))"
    and ws: "length ws = length ks" "\<forall>w \<in> set ws. 0 \<le> w"
  obtains r L' where "normalize_pane_percentages ws = Inr r"
    "set_split_percentages n ws L = Inr L'" "layout_inv L' (plug C (TSplit n ax (reweigh ks r)))"
    "length r = length ks"
proof -
  from inv have rep: "represents L (plug C (TSplit n ax ks))"
    and wf: "well_formed (plug C (TSplit n ax ks))"
    and dp: "distinct (tree_panes (plug C (TSplit n ax ks)))"
    by (auto simp: layout_inv_def)
  have cwf: "ctx_well_formed C" "2 \<le> length ks" "\<forall>k \<in> set ks. well_formed (fst k)"
    using wf by (simp_all add: tree_simps)
  have "ws \<noteq> []" using ws(1) cwf(2) by auto
  then obtain r where r: "normalize_pane_percentages ws = Inr r" "length r = length ws"
    "sum_list r = 100" "\<And>x. x \<in> set r \<Longrightarrow> 0 \<le> x \<and> x \<le> 100"
    by (rule normalize_laws) (use ws in auto)
  have len: "length r = length ks" using r(2) ws(1) by simp
  note rw = reweigh_fields [OF len]
  let ?ks = "reweigh ks r"
  let ?L' = "write_node n (split_node_of n (ctx_parent C) ax (map kid_entry ?ks)) L"
  have st: "look L n = Some (split_node_of n (ctx_parent C) ax (map kid_entry ks))"
    using representsD(1) [OF rep] by (simp add: tree_simps)
  have "set_split_percentages n ws L = Inr ?L'"
    using st ws(1) r(1) reweigh_entries [OF len] by (simp add: set_split_percentages_def layout_access)
  moreover have "\<forall>k \<in> set ?ks. 0 \<le> snd k"
  proof
    fix k assume "k \<in> set ?ks"
    then have "snd k \<in> set (map snd ?ks)" by (simp del: map_map)
    then show "0 \<le> snd k" using rw(2) r(4) by simp
  qed
  then have "well_formed (plug C (TSplit n ax ?ks))"
    using cwf rw(2,3,5) r(3) by (simp add: tree_simps kids_ok_def)
  moreover have "tree_panes (plug C (TSplit n ax ?ks)) = tree_panes (plug C (TSplit n ax ks))"
    using rw(4) [of tree_leaves] by (simp add: tree_panes_def tree_simps)
  ultimately show ?thesis
    using represents_reweighed [OF rep rw(1)] r(1) len dp by (intro that) (simp_all add: layout_inv_def)
qed

section \<open>Rotating a split\<close>

text \<open>A subtree flipped in place, and merged into a parent split of its new axis.\<close>

fun rotated :: "ctx \<Rightarrow> ptree \<Rightarrow> ptree" where
  "rotated [] s = flip s"
| "rotated (Frame g axg ls wg rs # C) s =
     (if top_axis (flip s) = Some axg
      then plug C (TSplit g axg (flatten_kids axg (ls @ (flip s, wg) # rs)))
      else plug (Frame g axg ls wg rs # C) (flip s))"

lemma represents_flip:
  assumes rep: "represents L (plug C s)"
  shows "\<exists>L'. toggle_split_axes (tid s) L = Inr L' \<and> represents L' (plug C (flip s))"
proof -
  note D = representsD [OF rep]
  from D(1) have st: "stored (look L) (ctx_parent C) s" "ctx_stored (look L) C (tid s)"
    by (simp_all add: tree_simps)
  have dist: "distinct (ids_before C @ tree_ids s @ ids_after C)" using D(2) by (simp add: tree_simps)
  have sub: "set (tree_ids s) \<subseteq> dom (look L)" unfolding D(3) ids_plug by auto
  obtain L' where L': "toggle_split_axes (tid s) L = Inr L'" "stored (look L') (ctx_parent C) (flip s)"
    "only_changes (set (tree_ids s)) L L'"
    using toggle_split_axes_eq [OF st(1) _ D(5) sub] dist by auto
  have ids: "tree_ids (plug C (flip s)) = tree_ids (plug C s)" by (simp add: ids_plug)
  have "ctx_stored (look L') C (tid s) = ctx_stored (look L) C (tid s)"
    by (rule ctx_stored_cong) (use L'(3) dist in \<open>auto simp: only_changes_def\<close>)
  then have "represents L' (plug C (flip s))"
    using L'(2,3) st(2) D tid_plug_same [of "flip s" s C]
    by (intro representsI) (simp_all add: only_changes_def ids stored_plug)
  with L'(1) show ?thesis by blast
qed

lemma kids_flattenable:
  assumes "ctx_well_formed (Frame g axg ls wg rs # C)" "well_formed s"
  shows "flattenable (ls @ (s, wg) # rs)"
proof -
  have s: "0 \<le> sum_list (map snd (ls @ rs))" by (rule sum_list_nonneg) (use assms in auto)
  have "snd k \<le> sum_list (map snd (ls @ rs))" if "k \<in> set (ls @ rs)" for k
  proof -
    have "\<And>x. x \<in> set (map snd (ls @ rs)) \<Longrightarrow> 0 \<le> x" using assms by auto
    then show ?thesis using that by (intro member_le_sum_list) auto
  qed
  then have "\<forall>k \<in> set (ls @ rs). snd k \<le> 100" using assms(1) by fastforce
  then show ?thesis using assms s by (simp add: flattenable_def ball_Un)
qed

lemma flattened_split_facts:
  assumes fl: "flattenable ks" and wf: "2 \<le> length ks" "sum_list (map snd ks) = 100"
  shows "well_formed (TSplit g ax (flatten_kids ax ks))"
    "tree_leaves (TSplit g ax (flatten_kids ax ks)) = tree_leaves (TSplit g ax ks)"
    "\<forall>k \<in> set ks. alternates (fst k) \<Longrightarrow> alternates (TSplit g ax (flatten_kids ax ks))"
proof -
  note F = flatten_kids_facts [OF fl, of ax]
  show "well_formed (TSplit g ax (flatten_kids ax ks))"
    using F(2,4,6) wf by (simp add: kids_ok_def)
  show "tree_leaves (TSplit g ax (flatten_kids ax ks)) = tree_leaves (TSplit g ax ks)"
    using F(1) by simp
  assume "\<forall>k \<in> set ks. alternates (fst k)"
  from F(5) [OF this] show "alternates (TSplit g ax (flatten_kids ax ks))" by simp
qed

lemma rotated_facts:
  assumes wf: "ctx_well_formed C" "well_formed s"
  shows "tree_leaves (rotated C s) = leaves_before C @ tree_leaves s @ leaves_after C"
    "well_formed (rotated C s)"
    "ctx_alternates C None \<Longrightarrow> alternates s \<Longrightarrow> alternates (rotated C s)"
proof -
  have "tree_leaves (rotated C s) = leaves_before C @ tree_leaves s @ leaves_after C
    \<and> well_formed (rotated C s)
    \<and> (ctx_alternates C None \<and> alternates s \<longrightarrow> alternates (rotated C s))"
  proof (cases C rule: ctx_parent.cases)
    case 1
    then show ?thesis using wf by simp
  next
    case (2 g axg ls wg rs C')
    show ?thesis
    proof (cases "top_axis (flip s) = Some axg")
      case True
      have fl: "flattenable (ls @ (flip s, wg) # rs)"
        by (rule kids_flattenable [of g axg ls wg rs C']) (use wf 2 in simp_all)
      have "ls @ rs \<noteq> []" "sum_list (map snd (ls @ (flip s, wg) # rs)) = 100"
        "ctx_well_formed C'" using wf(1) 2 by simp_all
      moreover from this(1) have "2 \<le> length (ls @ (flip s, wg) # rs)" by (cases ls; cases rs) simp_all
      ultimately have ff: "well_formed (TSplit g axg (flatten_kids axg (ls @ (flip s, wg) # rs)))"
        "tree_leaves (TSplit g axg (flatten_kids axg (ls @ (flip s, wg) # rs)))
          = tree_leaves (TSplit g axg (ls @ (flip s, wg) # rs))"
        "\<forall>k \<in> set (ls @ (flip s, wg) # rs). alternates (fst k) \<Longrightarrow>
          alternates (TSplit g axg (flatten_kids axg (ls @ (flip s, wg) # rs)))"
        and cw: "ctx_well_formed C'"
        using flattened_split_facts [OF fl] by blast+
      have r: "rotated C s = plug C' (TSplit g axg (flatten_kids axg (ls @ (flip s, wg) # rs)))"
        using 2 True by simp
      have "tree_leaves (rotated C s) = leaves_before C @ tree_leaves s @ leaves_after C"
        unfolding r leaves_plug ff(2) using 2 by simp
      moreover have "well_formed (rotated C s)" unfolding r well_formed_plug using ff(1) cw by blast
      moreover have "alternates (rotated C s)" if "ctx_alternates C None" "alternates s"
      proof -
        have "\<forall>k \<in> set (ls @ (flip s, wg) # rs). alternates (fst k)" "ctx_alternates C' (Some axg)"
          using that 2 by simp_all
        then show ?thesis unfolding r alternates_plug using ff(3) by simp
      qed
      ultimately show ?thesis by blast
    next
      case False
      then have r: "rotated C s = plug C (flip s)" using 2 by (simp del: flip_simps(5))
      have "ctx_alternates C (top_axis (flip s))" if "ctx_alternates C None"
        using that False 2 by simp
      then show ?thesis using wf unfolding r leaves_plug well_formed_plug alternates_plug by simp
    qed
  qed
  then show "tree_leaves (rotated C s) = leaves_before C @ tree_leaves s @ leaves_after C"
    "well_formed (rotated C s)"
    "ctx_alternates C None \<Longrightarrow> alternates s \<Longrightarrow> alternates (rotated C s)" by blast+
qed

lemma rotate_split_eq:
  assumes rep: "represents L (plug C (TSplit n ax ks))" and wf: "well_formed (plug C (TSplit n ax ks))"
  shows "\<exists>L'. rotate_split n L = Inr (True, L') \<and> represents L' (rotated C (TSplit n ax ks))"
proof -
  let ?s = "TSplit n ax ks"
  have look: "look L n = Some (split_node_of n (ctx_parent C) ax (map kid_entry ks))"
    using representsD(1) [OF rep] by (simp add: tree_simps)
  obtain L1 where L1: "toggle_split_axes n L = Inr L1" "represents L1 (plug C (flip ?s))"
    using represents_flip [OF rep] by auto
  have look1: "look L1 n = Some (split_node_of n (ctx_parent C) (other_axis ax)
      (map kid_entry (map (\<lambda>k. (flip (fst k), snd k)) ks)))"
    using representsD(1) [OF L1(2)] by (simp add: tree_simps del: map_map)
  have wfs: "ctx_well_formed C" "well_formed ?s" using wf unfolding well_formed_plug by blast+
  show ?thesis
  proof (cases C rule: ctx_parent.cases)
    case 1
    then show ?thesis using look L1 by (simp add: rotate_split_def layout_access)
  next
    case (2 g axg ls wg rs C')
    then have rep1: "represents L1 (plug C' (TSplit g axg (ls @ (flip ?s, wg) # rs)))"
      using L1(2) by simp
    have lookg: "look L1 g = Some (split_node_of g (ctx_parent C') axg
        (map kid_entry (ls @ (flip ?s, wg) # rs)))"
      using representsD(1) [OF rep1] by (simp add: tree_simps)
    show ?thesis
    proof (cases "other_axis ax = axg")
      case True
      have "flattenable (ls @ (flip ?s, wg) # rs)"
        by (rule kids_flattenable [of g axg ls wg rs C'])
          (use wfs 2 in \<open>simp_all del: flip.simps well_formed.simps\<close>)
      from flatten_matching_split_children_eq [OF rep1 this]
      obtain L2 where "flatten_matching_split_children g L1 = Inr L2"
        "represents L2 (rotated C ?s)" using 2 True by auto
      then show ?thesis using look L1(1) look1 lookg 2 True
        by (simp add: rotate_split_def layout_access del: map_append list.map)
    next
      case False
      then show ?thesis using look L1 look1 lookg 2
        by (simp add: rotate_split_def layout_access del: map_append list.map)
    qed
  qed
qed

lemma rotate_split_correct:
  assumes inv: "layout_inv L t" and t: "t = plug C (TSplit n ax ks)"
  shows "\<exists>L' t'. rotate_split n L = Inr (True, L') \<and> layout_inv L' t'
     \<and> (alternates t \<longrightarrow> alternates t') \<and> tree_leaves t' = tree_leaves t"
proof -
  from inv have rep: "represents L t" and wf: "well_formed t" and dp: "distinct (tree_panes t)"
    by (auto simp: layout_inv_def)
  obtain L' where L': "rotate_split n L = Inr (True, L')" "represents L' (rotated C (TSplit n ax ks))"
    using rotate_split_eq [OF rep [unfolded t] wf [unfolded t]] by blast
  have wfs: "ctx_well_formed C" "well_formed (TSplit n ax ks)"
    using wf unfolding t well_formed_plug by blast+
  note rf = rotated_facts [OF wfs]
  have "tree_leaves (rotated C (TSplit n ax ks)) = tree_leaves t"
    unfolding rf(1) t leaves_plug ..
  moreover have "alternates t \<longrightarrow> alternates (rotated C (TSplit n ax ks))"
    using rf(3) ctx_alternates_leaf unfolding t alternates_plug by blast
  ultimately show ?thesis using L' rf(2) dp unfolding layout_inv_def tree_panes_def by metis
qed


section \<open>Rotating a range of siblings\<close>

text \<open>The range becomes a new split of the other axis, and each of its members is flipped.\<close>

definition grouped_range :: "node_id \<Rightarrow> pane_split_axis \<Rightarrow> (ptree \<times> int) list \<Rightarrow> ptree" where
  "grouped_range m ax ms =
     TSplit m (other_axis ax) (map (\<lambda>k. (flip (fst k), snd k)) (renormalized ms))"

lemma sibling_steps:
  assumes st: "\<forall>k \<in> set ms. stored (look L) p (fst k)"
    and dist: "distinct (concat (map (\<lambda>k. tree_ids (fst k)) ms))"
    and ok: "smap_ok (ly_nodes L)"
    and sub: "set (concat (map (\<lambda>k. tree_ids (fst k)) ms)) \<subseteq> dom (look L)"
  shows "\<exists>L'. fold_result (\<lambda>s L'. and_then (set_parent q s L') (toggle_split_axes s))
        (map (\<lambda>k. tid (fst k)) ms) L = Inr L'
     \<and> (\<forall>k \<in> set ms. stored (look L') q (flip (fst k)))
     \<and> only_changes (set (concat (map (\<lambda>k. tree_ids (fst k)) ms))) L L'"
proof (rule fold_over_kids [where p = p and D = "dom (look L)"])
  fix k L1 assume k: "k \<in> set ms" "stored (look L1) p (fst k)" "smap_ok (ly_nodes L1)"
    "dom (look L1) = dom (look L)"
  have dk: "distinct (tree_ids (fst k))" using dist k(1) by (auto simp: distinct_concat_iff)
  have sk: "set (tree_ids (fst k)) \<subseteq> dom (look L1)" using sub k(1,4) by auto
  obtain nd where nd: "look L1 (tid (fst k)) = Some nd" using stored_parent [OF k(2)] by blast
  define L2 where "L2 = write_node (tid (fst k)) (nd\<lparr>nd_parent := q\<rparr>) L1"
  have "stored (look L2) q (fst k)"
    by (rule stored_reparented [OF k(2) dk]) (simp_all add: L2_def nd)
  moreover have "smap_ok (ly_nodes L2)" using k(3) by (simp add: L2_def)
  moreover have "set (tree_ids (fst k)) \<subseteq> dom (look L2)" using sk by (auto simp: L2_def)
  ultimately obtain L3 where L3: "toggle_split_axes (tid (fst k)) L2 = Inr L3"
    "stored (look L3) q (flip (fst k))" "only_changes (set (tree_ids (fst k))) L2 L3"
    using toggle_split_axes_eq [OF _ dk] by blast
  have "only_changes {tid (fst k)} L1 L2"
    unfolding L2_def by (rule only_changes_write) (simp add: nd)
  from only_changes_trans [OF this L3(3)] have "only_changes (set (tree_ids (fst k))) L1 L3"
    by (simp add: insert_absorb)
  moreover have "and_then (set_parent q (tid (fst k)) L1) (toggle_split_axes (tid (fst k))) = Inr L3"
    using L3(1) nd by (simp add: layout_access L2_def)
  ultimately show "\<exists>L'. and_then (set_parent q (tid (fst k)) L1) (toggle_split_axes (tid (fst k))) = Inr L'
      \<and> stored (look L') q (flip (fst k)) \<and> only_changes (set (tree_ids (fst k))) L1 L'"
    using L3(2) by blast
qed (use assms in auto)

lemma rotate_sibling_range_eq:
  assumes rep: "represents L (plug C (TSplit p ax (ls @ ms @ rs)))"
    and wf: "well_formed (plug C (TSplit p ax (ls @ ms @ rs)))"
    and ms: "2 \<le> length ms" "ls @ rs \<noteq> []" and room: "int (ly_next L) < UINT64_MAX"
  defines "m \<equiv> ly_next L"
  shows "\<exists>L'. rotate_sibling_range (map (\<lambda>k. tid (fst k)) ms) L = Inr (m, L')
     \<and> represents L' (plug C (TSplit p ax
          (ls @ (grouped_range m ax ms, sum_list (map snd ms)) # rs)))"
proof -
  note D = representsD [OF rep]
  let ?ids = "\<lambda>ks. concat (map (\<lambda>k. tree_ids (fst k)) ks)"
  let ?tops = "map (\<lambda>k. tid (fst k)) ms"
  from D(1) have st: "look L p = Some (split_node_of p (ctx_parent C) ax (map kid_entry (ls @ ms @ rs)))"
    "\<forall>k \<in> set (ls @ ms @ rs). stored (look L) (Some p) (fst k)" "ctx_stored (look L) C p"
    by (simp_all add: tree_simps)
  have dist: "distinct (ids_before C @ (p # ?ids ls @ ?ids ms @ ?ids rs) @ ids_after C)"
    using D(2) by (simp add: tree_simps)
  have m: "look L m = None" "m \<notin> set (tree_ids (plug C (TSplit p ax (ls @ ms @ rs))))"
    using fresh_id [OF rep] by (auto simp: m_def)
  then have mC: "m \<noteq> p" "m \<notin> set (ids_before C)" "m \<notin> set (ids_after C)"
    "m \<notin> set (?ids ls)" "m \<notin> set (?ids ms)" "m \<notin> set (?ids rs)"
    by (simp_all add: tree_simps)
  have wfk: "2 \<le> length (ls @ ms @ rs)" "kids_ok (ls @ ms @ rs)"
    "\<forall>k \<in> set (ls @ ms @ rs). well_formed (fst k)"
    using wf unfolding well_formed_plug well_formed.simps by blast+
  have nn: "\<forall>k \<in> set (ls @ ms @ rs). 0 \<le> snd k" and s100: "sum_list (map snd (ls @ ms @ rs)) = 100"
    using wfk(2) unfolding kids_ok_def by blast+
  have share: "0 \<le> sum_list (map snd ms)" "sum_list (map snd ms) \<le> 100"
  proof -
    have nonneg: "0 \<le> sum_list (map snd ls)" "0 \<le> sum_list (map snd ms)" "0 \<le> sum_list (map snd rs)"
      by (rule sum_list_nonneg; use nn in auto)+
    from nonneg(2) show "0 \<le> sum_list (map snd ms)" .
    show "sum_list (map snd ms) \<le> 100" using nonneg s100 by simp
  qed
  have msne: "ms \<noteq> []" and msnn: "\<forall>k \<in> set ms. 0 \<le> snd k" using ms nn by auto
  note rn = renormalized_fields [OF msne msnn]
  define r where "r = projr (normalize_pane_percentages (map snd ms))"
  have norm: "normalize_pane_percentages (map snd ms) = Inr r" using rn(6) by (simp add: r_def)
  let ?share = "sum_list (map snd ms)"
  define cs where "cs = map kid_entry ls @ \<lparr>sc_node = m, sc_pct = ?share\<rparr> # map kid_entry rs"
  define L2 where "L2 = write_node p (split_node_of p (ctx_parent C) ax cs) (L\<lparr>ly_next := m + 1\<rparr>)"
  have L2: "look L2 = (look L)(p \<mapsto> split_node_of p (ctx_parent C) ax cs)"
    "ly_root L2 = ly_root L" "ly_next L2 = m + 1" "smap_ok (ly_nodes L2)"
    using D(5) by (simp_all add: L2_def write_node_def smap_find_put smap_ok_put)
  have st2: "\<forall>k \<in> set (ls @ ms @ rs). stored (look L2) (Some p) (fst k)"
  proof
    fix k assume k: "k \<in> set (ls @ ms @ rs)"
    have "p \<notin> set (tree_ids (fst k))" using k dist by auto
    then show "stored (look L2) (Some p) (fst k)" using st(2) k by (simp add: L2(1) stored_frame)
  qed
  have dom2: "dom (look L2) = dom (look L)" using st(1) by (auto simp: L2(1))
  have ids_ms: "set (?ids ms) \<subseteq> dom (look L2)" unfolding dom2 D(3) by (auto simp: ids_plug)
  obtain L3 where L3: "fold_result (\<lambda>s L'. and_then (set_parent (Some m) s L') (toggle_split_axes s)) ?tops L2 = Inr L3"
    "\<forall>k \<in> set ms. stored (look L3) (Some m) (flip (fst k))" "only_changes (set (?ids ms)) L2 L3"
    using sibling_steps [of ms L2 "Some p" "Some m"] st2 dist L2(4) ids_ms by auto
  have L3f: "ly_root L3 = ly_root L" "ly_next L3 = m + 1" "smap_ok (ly_nodes L3)" "dom (look L3) = dom (look L)"
    "\<And>n. n \<notin> set (?ids ms) \<Longrightarrow> look L3 n = look L2 n"
    using L3(3) L2 dom2 unfolding only_changes_def by simp_all
  let ?gks = "map (\<lambda>k. (flip (fst k), snd k)) (renormalized ms)"
  have entries: "map kid_entry ?gks = with_percentages (map kid_entry ms) r"
  proof -
    have "map kid_entry ?gks = map kid_entry (renormalized ms)" by (simp add: kid_entry_def)
    then show ?thesis using rn(5) by (simp add: r_def)
  qed
  have zips: "map (\<lambda>(s, p). \<lparr>sc_node = s, sc_pct = p\<rparr>) (zip ?tops r) = map kid_entry ?gks"
    unfolding entries with_percentages_def
    by (simp add: zip_map1 comp_def case_prod_beta kid_entry_def)
  define L' where "L' = write_node m (split_node_of m (Some p) (other_axis ax) (map kid_entry ?gks)) L3"
  have lookm: "look L3 m = None" using L3f(4) m(1) by (auto simp: domIff)
  have "rotate_sibling_range ?tops L = Inr (m, L')"
  proof -
    have hd: "hd ?tops = tid (fst (hd ms))" "hd ms \<in> set ms" using msne by (simp_all add: hd_map)
    obtain nd where nd: "look L (tid (fst (hd ms))) = Some nd" "nd_parent nd = Some p"
      using stored_parent [of "look L" "Some p" "fst (hd ms)"] st(2) hd(2) by auto
    have hole: "tid (fst (hd ms)) \<notin> (\<lambda>k. tid (fst k)) ` set ls"
      by (rule hole_not_sibling) (use dist msne in \<open>cases ms; auto\<close>)
    have idx: "child_index \<lparr>sp_axis = ax, sp_children = map kid_entry (ls @ ms @ rs)\<rparr> (tid (fst (hd ms)))
        = Inr (length ls)"
      using child_index_hole [OF hole, of ax "snd (hd ms)" "map kid_entry (tl ms @ rs)"] msne
      by (cases ms) (simp_all add: kid_entry_def)
    have at: "map kid_entry (ls @ ms @ rs) ! (length ls + i) = kid_entry (ms ! i)" if "i < length ms" for i
      using that by (simp add: nth_append)
    have sw: "map (\<lambda>i. sc_pct (map kid_entry (ls @ ms @ rs) ! (length ls + i))) [0..<length ms] = map snd ms"
      by (rule nth_equalityI) (simp_all add: nth_append del: map_append)
    have cont: "(\<exists>i < length ms. sc_node (map kid_entry (ls @ ms @ rs) ! (length ls + i)) \<noteq> ?tops ! i) = False"
      by (simp add: nth_append del: map_append)
    have both: "(ls = [] \<and> rs = []) = False" using ms(2) by simp
    have parts: "take (length ls) (map kid_entry (ls @ ms @ rs)) = map kid_entry ls"
      "drop (length ls + length ms) (map kid_entry (ls @ ms @ rs)) = map kid_entry rs" by simp_all
    have lens: "\<not> length ?tops < 2" "length ?tops = length ms"
      "length (map kid_entry (ls @ ms @ rs)) = length ls + length ms + length rs"
      "length ms \<noteq> length ls + length ms + length rs"
      using ms by auto
    have alloc: "allocate_node_id L = Inr (m, L\<lparr>ly_next := m + 1\<rparr>)"
      unfolding m_def by (rule allocate_eq [OF D(7) room])
    have put: "put_split p \<lparr>sp_axis = ax, sp_children = cs\<rparr> (L\<lparr>ly_next := m + 1\<rparr>) = Inr L2"
      unfolding L2_def using st(1) by (simp add: put_split_def write_node_def)
    have emp: "emplace_node (split_node_of m (Some p) (other_axis ax) (map kid_entry ?gks)) L3 = L'"
      unfolding L'_def using emplace_node_eq [of L3 "split_node_of m (Some p) (other_axis ax) (map kid_entry ?gks)"] lookm
      by simp
    show ?thesis
      unfolding rotate_sibling_range_def
      using hd nd idx sw parts lens alloc put emp norm zips L3(1) share
        at_split_split [OF st(1)] required_percentage_ok [OF share]
      by (simp add: node_Inr Let_def cs_def cont both del: map_append map_map)
  qed
  moreover have "represents L' (plug C (TSplit p ax (ls @ (grouped_range m ax ms, ?share) # rs)))"
  proof (rule representsI)
    let ?t' = "plug C (TSplit p ax (ls @ (grouped_range m ax ms, ?share) # rs))"
    have gids: "tree_ids (grouped_range m ax ms) = m # ?ids ms"
      using rn(1) [of tree_ids] by (simp add: grouped_range_def comp_def)
    have ids: "tree_ids ?t' = ids_before C @ p # ?ids ls @ (m # ?ids ms) @ ?ids rs @ ids_after C"
      by (simp add: ids_plug gids)
    have M: "look L' n = (if n = m then Some (split_node_of m (Some p) (other_axis ax) (map kid_entry ?gks))
        else look L3 n)" for n by (simp add: L'_def)
    have out: "look L' n = look L2 n" if "n \<notin> set (?ids ms)" "n \<noteq> m" for n
      using that L3f(5) by (simp add: M)
    have side: "\<forall>k \<in> set (ls @ rs). stored (look L') (Some p) (fst k)"
    proof
      fix k assume k: "k \<in> set (ls @ rs)"
      have "stored (look L') (Some p) (fst k) = stored (look L2) (Some p) (fst k)"
      proof (rule stored_cong, rule out)
        fix n assume n: "n \<in> set (tree_ids (fst k))"
        then have "n \<in> set (?ids ls) \<union> set (?ids rs)" using k by auto
        then show "n \<notin> set (?ids ms)" "n \<noteq> m" using dist mC by auto
      qed
      moreover have "k \<in> set (ls @ ms @ rs)" using k unfolding set_append by blast
      ultimately show "stored (look L') (Some p) (fst k)" using st2 by blast
    qed
    have grp: "stored (look L') (Some p) (grouped_range m ax ms)"
    proof -
      have "stored (look L') (Some m) (flip (fst k))" if k: "k \<in> set ms" for k
      proof -
        have "stored (look L') (Some m) (flip (fst k)) = stored (look L3) (Some m) (flip (fst k))"
          by (rule stored_cong) (use k mC in \<open>auto simp: M\<close>)
        then show ?thesis using L3(2) k by blast
      qed
      then have "\<forall>k \<in> set (renormalized ms). stored (look L') (Some m) (flip (fst k))"
        using rn(2) [of "\<lambda>t. stored (look L') (Some m) (flip t)"] by blast
      then show ?thesis by (simp add: grouped_range_def M)
    qed
    have "ctx_stored (look L') C p = ctx_stored (look L) C p"
    proof (rule ctx_stored_cong)
      fix n assume n: "n \<in> set (ids_before C) \<union> set (ids_after C)"
      then have "n \<notin> set (?ids ms)" "n \<noteq> m" "n \<noteq> p" using dist mC by auto
      then show "look L' n = look L n" by (simp add: out L2(1))
    qed
    moreover have "look L' p = Some (split_node_of p (ctx_parent C) ax
        (map kid_entry (ls @ (grouped_range m ax ms, ?share) # rs)))"
    proof -
      have "p \<notin> set (?ids ms)" using dist by auto
      then show ?thesis using mC(1) by (simp add: out L2(1) cs_def kid_entry_def grouped_range_def)
    qed
    ultimately show "stored (look L') None ?t'" using side grp st(3) by (simp add: tree_simps)
    show "distinct (tree_ids ?t')" unfolding ids using dist mC by auto
    show "dom (look L') = set (tree_ids ?t')"
    proof -
      have "dom (look L') = insert m (dom (look L))" using L3f(4) unfolding M by (auto simp: dom_def)
      also have "\<dots> = set (tree_ids ?t')" unfolding D(3) ids by (auto simp: ids_plug)
      finally show ?thesis .
    qed
    show "ly_root L' = tid ?t'"
      using D(4) L3f(1) tid_plug_same [of "TSplit p ax (ls @ ms @ rs)"
          "TSplit p ax (ls @ (grouped_range m ax ms, ?share) # rs)" C] by (simp add: L'_def)
    show "smap_ok (ly_nodes L')" using L3f(3) by (simp add: L'_def)
    show "0 < n \<and> n < ly_next L'" if "n \<in> set (tree_ids ?t')" for n
    proof -
      have "n = m \<or> n \<in> set (tree_ids (plug C (TSplit p ax (ls @ ms @ rs))))"
        using that [unfolded ids] by (auto simp: ids_plug)
      then show ?thesis using D(6) [of n] D(7) L3f(2) by (auto simp: L'_def m_def)
    qed
  qed (use room L3f(2) in \<open>simp_all add: L'_def m_def\<close>)
  ultimately show ?thesis by blast
qed


lemma rotated_range_inv:
  assumes inv: "layout_inv L t" and t: "t = plug C (TSplit p ax (ls @ ms @ rs))"
    and ms: "2 \<le> length ms" "ls @ rs \<noteq> []" and room: "int (ly_next L) < UINT64_MAX"
  shows "\<exists>L' t'. rotate_sibling_range (map (\<lambda>k. tid (fst k)) ms) L = Inr (ly_next L, L')
     \<and> layout_inv L' t' \<and> (alternates t \<longrightarrow> alternates t') \<and> tree_leaves t' = tree_leaves t
     \<and> ly_next L \<in> set (tree_ids t')"
proof -
  from inv have rep: "represents L t" and wf: "well_formed t" and dp: "distinct (tree_panes t)"
    by (auto simp: layout_inv_def)
  let ?m = "ly_next L" and ?share = "sum_list (map snd ms)"
  let ?ks = "ls @ (grouped_range ?m ax ms, ?share) # rs"
  obtain L' where L': "rotate_sibling_range (map (\<lambda>k. tid (fst k)) ms) L = Inr (?m, L')"
    "represents L' (plug C (TSplit p ax ?ks))"
    using rotate_sibling_range_eq [OF rep [unfolded t] wf [unfolded t] ms room] by blast
  have wfk: "kids_ok (ls @ ms @ rs)" "\<forall>k \<in> set (ls @ ms @ rs). well_formed (fst k)" "ctx_well_formed C"
    using wf unfolding t well_formed_plug well_formed.simps by blast+
  have msne: "ms \<noteq> []" and msnn: "\<forall>k \<in> set ms. 0 \<le> snd k"
    using ms(1) wfk(1) by (auto simp: kids_ok_def)
  note rn = renormalized_fields [OF msne msnn]
  have "well_formed (grouped_range ?m ax ms)"
    using rn(2) [of well_formed] rn(3,4) ms(1) wfk(2)
    by (simp add: grouped_range_def kids_ok_def comp_def ball_Un)
  moreover have "2 \<le> length ?ks" using ms(2) by (cases ls; cases rs) simp_all
  moreover have "0 \<le> ?share" by (rule sum_list_nonneg) (use msnn in auto)
  then have "kids_ok ?ks" using wfk(1) by (simp add: kids_ok_def ball_Un)
  ultimately have "well_formed (plug C (TSplit p ax ?ks))"
    using wfk(2,3) by (simp add: well_formed_plug ball_Un)
  moreover have lv: "tree_leaves (plug C (TSplit p ax ?ks)) = tree_leaves t"
    using rn(1) [of tree_leaves] by (simp add: t leaves_plug grouped_range_def comp_def)
  moreover have "alternates t \<longrightarrow> alternates (plug C (TSplit p ax ?ks))"
  proof
    assume "alternates t"
    then have a: "ctx_alternates C (Some ax)"
      "\<forall>k \<in> set (ls @ ms @ rs). top_axis (fst k) \<noteq> Some ax \<and> alternates (fst k)"
      unfolding t alternates_plug by simp_all
    have "\<forall>k \<in> set ms. top_axis (flip (fst k)) \<noteq> Some (other_axis ax) \<and> alternates (flip (fst k))"
      using a(2) by (simp add: ball_Un map_other_axis_eq del: map_option_eq_Some)
    then have "\<forall>k \<in> set (renormalized ms).
        top_axis (flip (fst k)) \<noteq> Some (other_axis ax) \<and> alternates (flip (fst k))"
      using rn(2) [of "\<lambda>t. top_axis (flip t) \<noteq> Some (other_axis ax) \<and> alternates (flip t)"] by blast
    then have "alternates (grouped_range ?m ax ms)" "top_axis (grouped_range ?m ax ms) \<noteq> Some ax"
      by (simp_all add: grouped_range_def del: flip_simps(5))
    with a show "alternates (plug C (TSplit p ax ?ks))"
      by (simp add: alternates_plug ball_Un)
  qed
  moreover have "?m \<in> set (tree_ids (plug C (TSplit p ax ?ks)))"
    by (simp add: ids_plug grouped_range_def)
  ultimately show ?thesis using L' dp unfolding layout_inv_def tree_panes_def by metis
qed

lemma rotate_sibling_range_correct:
  assumes inv: "layout_inv L t" and t: "t = plug C (TSplit p ax (ls @ ms @ rs))"
    and ms: "2 \<le> length ms" "ls @ rs \<noteq> []" and room: "int (ly_next L) < UINT64_MAX"
  shows "\<exists>L' t'. rotate_sibling_range (map (\<lambda>k. tid (fst k)) ms) L = Inr (ly_next L, L')
     \<and> layout_inv L' t' \<and> (alternates t \<longrightarrow> alternates t') \<and> tree_leaves t' = tree_leaves t
     \<and> ly_next L \<in> set (tree_ids t')"
  by (rule rotated_range_inv [OF assms])

definition columns_layout :: pane_layout where
  "columns_layout =
     \<lparr>ly_root = 3,
      ly_nodes =
        [(1, leaf_node_of 1 (Some 3) 1), (2, leaf_node_of 2 (Some 3) 2),
         (3, split_node_of 3 None LEFT_TO_RIGHT
              [\<lparr>sc_node = 1, sc_pct = 50\<rparr>, \<lparr>sc_node = 2, sc_pct = 25\<rparr>, \<lparr>sc_node = 4, sc_pct = 25\<rparr>]),
         (4, leaf_node_of 4 (Some 3) 3)],
      ly_next = 5\<rparr>"

definition columns_tree :: ptree where
  "columns_tree = TSplit 3 LEFT_TO_RIGHT [(TLeaf 1 1, 50), (TLeaf 2 2, 25), (TLeaf 4 3, 25)]"

lemma columns_layout_inv: "layout_inv columns_layout columns_tree"
  by (auto simp: layout_inv_def represents_def represents_forest_def columns_layout_def columns_tree_def
      smap_ok_def smap_find_def kid_entry_def kids_ok_def
      tree_panes_def UINT64_MAX_def split: if_splits)

lemma rotate_split_correct_witness:
  "\<exists>L' t'. rotate_split 5 stacked_layout = Inr (True, L') \<and> layout_inv L' t' \<and> alternates t'
     \<and> tree_leaves t' = [(1, 1), (2, 2), (4, 3)]"
proof -
  have "stacked_tree = plug [Frame 3 LEFT_TO_RIGHT [(TLeaf 1 1, 50)] 50 []]
      (TSplit 5 TOP_TO_BOTTOM [(TLeaf 2 2, 50), (TLeaf 4 3, 50)])"
    by (simp add: stacked_tree_def)
  from rotate_split_correct [OF stacked_layout_inv this] show ?thesis
    using stacked_facts(1,3) by auto
qed

lemma rotate_sibling_range_correct_witness:
  "\<exists>L' t'. rotate_sibling_range [2, 4] columns_layout = Inr (5, L') \<and> layout_inv L' t'
     \<and> alternates t' \<and> tree_leaves t' = [(1, 1), (2, 2), (4, 3)]"
proof -
  let ?ms = "[(TLeaf 2 2, 25), (TLeaf 4 3, 25)]"
  have t: "columns_tree = plug [] (TSplit 3 LEFT_TO_RIGHT ([(TLeaf 1 1, 50)] @ ?ms @ []))"
    by (simp add: columns_tree_def)
  have "2 \<le> length ?ms" "[(TLeaf 1 1, 50::int)] @ [] \<noteq> []" "int (ly_next columns_layout) < UINT64_MAX"
    by (simp_all add: columns_layout_def UINT64_MAX_def)
  from rotate_sibling_range_correct [OF columns_layout_inv t this]
  show ?thesis by (simp add: columns_layout_def columns_tree_def) blast
qed

lemma set_split_percentages_normalizes:
  assumes inv: "layout_inv L (plug C (TSplit n ax ks))"
    and ws: "length ws = length ks" "\<forall>w \<in> set ws. 0 \<le> w"
  shows "\<exists>r L'. normalize_pane_percentages ws = Inr r \<and> length r = length ks
     \<and> set_split_percentages n ws L = Inr L' \<and> layout_inv L' (plug C (TSplit n ax (reweigh ks r)))"
  using set_split_percentages_correct [OF inv ws] by metis

lemma set_split_percentages_normalizes_witness:
  "\<exists>r L'. normalize_pane_percentages [1, 2, 3] = Inr r \<and> set_split_percentages 3 [1, 2, 3] columns_layout = Inr L'"
proof -
  have "layout_inv columns_layout (plug [] (TSplit 3 LEFT_TO_RIGHT [(TLeaf 1 1, 50), (TLeaf 2 2, 25), (TLeaf 4 3, 25)]))"
    using columns_layout_inv by (simp add: columns_tree_def)
  from set_split_percentages_normalizes [OF this, of "[1, 2, 3]"] show ?thesis by auto
qed

end
