(* ===== verification/Pane_Move.thy ===== *)
theory Pane_Move
  imports Pane_Selection Pane_Regroup
begin

text \<open>
  Moving a selection next to another node, and exchanging two nodes
  (src/src/parent/pane/pane_move.h and pane_move.cc, class \<open>PaneLayoutMover\<close>). Both public
  functions work on a copy and replace the layout only when the operation returns and reports a
  change, so a result \<open>Inl e\<close> leaves the caller's layout as it was.
\<close>

section \<open>Data and helpers\<close>

datatype pane_drop_direction = Drop_LEFT | Drop_RIGHT | Drop_UP | Drop_DOWN

record drop_placement =
  dp_axis :: pane_split_axis
  dp_insertion :: pane_insertion

fun placement_for :: "pane_drop_direction \<Rightarrow> drop_placement" where
  "placement_for Drop_LEFT = \<lparr>dp_axis = LEFT_TO_RIGHT, dp_insertion = BEFORE\<rparr>"
| "placement_for Drop_RIGHT = \<lparr>dp_axis = LEFT_TO_RIGHT, dp_insertion = AFTER\<rparr>"
| "placement_for Drop_UP = \<lparr>dp_axis = TOP_TO_BOTTOM, dp_insertion = BEFORE\<rparr>"
| "placement_for Drop_DOWN = \<lparr>dp_axis = TOP_TO_BOTTOM, dp_insertion = AFTER\<rparr>"

definition percentage_values :: "pane_split_child list \<Rightarrow> int list" where
  "percentage_values children = map sc_pct children"

definition move_required_percentage :: "int \<Rightarrow> int result" where
  "move_required_percentage value =
     require (Logic_error ''pane move produced an invalid percentage'') (percentage_from_int value)"

definition assign_percentages ::
  "pane_split_child list \<Rightarrow> int list \<Rightarrow> pane_split_child list result" where
  "assign_percentages children percentages =
     throw_if (length children \<noteq> length percentages)
       (Logic_error ''pane move child and percentage counts differ'')
       (map_result (\<lambda>(c, p). and_then (move_required_percentage p) (\<lambda>q. Inr (c\<lparr>sc_pct := q\<rparr>)))
         (zip children percentages))"

definition normalize_percentages :: "pane_split_child list \<Rightarrow> pane_split_child list result" where
  "normalize_percentages children =
     and_then (normalize_pane_percentages (percentage_values children)) (\<lambda>normalized.
       Inr (with_percentages children normalized))"

definition move_child_index :: "pane_split \<Rightarrow> node_id \<Rightarrow> nat result" where
  "move_child_index split n =
     require (Logic_error ''pane split does not contain child'') (child_position (sp_children split) n)"

definition required_selection_parent :: "pane_selection \<Rightarrow> node_id result" where
  "required_selection_parent sel =
     require (Invalid_argument ''pane layout root cannot be moved'') (sel_parent sel)"

text \<open>The loop over the parents of a node.\<close>

primrec climb_to_ancestor ::
  "nat \<Rightarrow> pane_layout \<Rightarrow> node_id \<Rightarrow> node_id option \<Rightarrow> bool result" where
  "climb_to_ancestor 0 L ancestor = (\<lambda>parent. Inl Out_of_fuel)"
| "climb_to_ancestor (Suc fuel) L ancestor = (\<lambda>parent.
     case parent of
       None \<Rightarrow> Inr False
     | Some p \<Rightarrow>
         if p = ancestor then Inr True
         else and_then (node L p) (\<lambda>nd. climb_to_ancestor fuel L ancestor (nd_parent nd)))"

definition is_ancestor :: "pane_layout \<Rightarrow> node_id \<Rightarrow> node_id \<Rightarrow> bool result" where
  "is_ancestor L ancestor descendant =
     and_then (node L descendant) (\<lambda>nd.
       climb_to_ancestor (layout_depth_bound L) L ancestor (nd_parent nd))"

section \<open>The mover\<close>

definition check_overlap :: "pane_layout \<Rightarrow> node_id \<Rightarrow> node_id \<Rightarrow> unit \<Rightarrow> unit result" where
  "check_overlap L target source = (\<lambda>_.
     if source = target
     then Inl (Invalid_argument ''pane move source and target cannot overlap by ancestry'')
     else and_then (is_ancestor L source target) (\<lambda>below.
       if below then Inl (Invalid_argument ''pane move source and target cannot overlap by ancestry'')
       else and_then (is_ancestor L target source) (\<lambda>above.
         throw_if above
           (Invalid_argument ''pane move source and target cannot overlap by ancestry'') (Inr ()))))"

definition validate :: "pane_layout \<Rightarrow> pane_selection \<Rightarrow> node_id \<Rightarrow> unit result" where
  "validate L sel target =
     and_then (required_selection_parent sel) (\<lambda>source_parent.
     and_then (node L source_parent) (\<lambda>parent_node.
     and_then (node_split parent_node) (\<lambda>siblings.
     throw_if (sel_nodes sel = []) (Invalid_argument ''pane move requires a source node'')
     (and_then (move_child_index siblings (hd (sel_nodes sel))) (\<lambda>first_index.
     throw_if (first_index + length (sel_nodes sel) > length (sp_children siblings))
       (Invalid_argument ''pane move selection must be a contiguous sibling range'')
     (throw_if (\<exists>index < length (sel_nodes sel).
          sc_node (sp_children siblings ! (first_index + index)) \<noteq> sel_nodes sel ! index)
       (Invalid_argument ''pane move selection must be a contiguous sibling range'')
     (and_then (node L target) (\<lambda>_.
     and_then (fold_result (check_overlap L target) (sel_nodes sel) ()) (\<lambda>_.
     throw_if (length (sel_nodes sel) = length (sp_children siblings) \<and> source_parent = ly_root L)
       (Invalid_argument ''entire pane layout cannot be moved'')
       (Inr ()))))))))))"

definition reorder_at_same_level ::
  "pane_selection \<Rightarrow> node_id \<Rightarrow> pane_insertion \<Rightarrow> pane_layout \<Rightarrow> (bool \<times> pane_layout) result" where
  "reorder_at_same_level sel target insertion L =
     and_then (required_selection_parent sel) (\<lambda>parent_id.
     and_then (at_split L parent_id) (\<lambda>split.
     (let original_children = sp_children split;
          moved_children = filter (\<lambda>c. selection_contains sel (sc_node c)) original_children;
          remaining_children = filter (\<lambda>c. \<not> selection_contains sel (sc_node c)) original_children in
     and_then (require (Logic_error ''pane move target disappeared during same-level reorder'')
         (child_position remaining_children target)) (\<lambda>position.
     (let target_index = (if insertion = AFTER then position + 1 else position);
          reordered = take target_index remaining_children @ moved_children
            @ drop target_index remaining_children in
      if map sc_node reordered = map sc_node original_children then Inr (False, L)
      else and_then (put_split parent_id (split\<lparr>sp_children := reordered\<rparr>) L)
        (\<lambda>L'. Inr (True, L')))))))"

definition detach_child :: "node_id \<Rightarrow> node_id \<Rightarrow> pane_layout \<Rightarrow> pane_layout result" where
  "detach_child parent child L =
     and_then (at_split L parent) (\<lambda>split.
     and_then (require (Logic_error ''pane move source parent does not contain source node'')
         (child_position (sp_children split) child)) (\<lambda>position.
     and_then (normalize_percentages
         (take position (sp_children split) @ drop (Suc position) (sp_children split))) (\<lambda>children.
     put_split parent (split\<lparr>sp_children := children\<rparr>) L)))"

text \<open>Returns the extracted source, the parent to clean up, and the layout.\<close>

definition extract_selection ::
  "pane_selection \<Rightarrow> pane_layout \<Rightarrow> ((node_id \<times> node_id) \<times> pane_layout) result" where
  "extract_selection sel L =
     and_then (required_selection_parent sel) (\<lambda>parent_id.
     and_then (at_split L parent_id) (\<lambda>split.
     if length (sel_nodes sel) = length (sp_children split) then
       and_then (node L parent_id) (\<lambda>parent_node.
       and_then (require (Logic_error ''validated move unexpectedly tried to extract its root'')
           (nd_parent parent_node)) (\<lambda>grandparent.
       and_then (detach_child grandparent parent_id L) (\<lambda>L1.
       and_then (set_parent None parent_id L1) (\<lambda>L2.
       Inr ((parent_id, grandparent), L2)))))
     else
       (let selected_children = filter (\<lambda>c. selection_contains sel (sc_node c)) (sp_children split);
            remaining_children = filter (\<lambda>c. \<not> selection_contains sel (sc_node c)) (sp_children split) in
        throw_if (length selected_children \<noteq> length (sel_nodes sel))
          (Logic_error ''validated pane move selection changed during extraction'')
        (and_then (normalize_percentages remaining_children) (\<lambda>remaining.
         and_then (put_split parent_id (split\<lparr>sp_children := remaining\<rparr>) L) (\<lambda>L1.
         if length selected_children = 1 then
           (let source = sc_node (hd selected_children) in
            and_then (set_parent None source L1) (\<lambda>L2. Inr ((source, parent_id), L2)))
         else
           and_then (allocate_node_id L1) (\<lambda>(group_id, L2).
           and_then (normalize_percentages selected_children) (\<lambda>group_children.
           and_then (fold_result (set_parent (Some group_id)) (map sc_node group_children) L2) (\<lambda>L3.
           Inr ((group_id, parent_id),
             emplace_node \<lparr>nd_id = group_id, nd_parent = None,
               nd_contents = Pane_split \<lparr>sp_axis = sp_axis split, sp_children = group_children\<rparr>\<rparr> L3))))))))))"

definition flatten_source_for_axis ::
  "node_id \<Rightarrow> pane_split_axis \<Rightarrow> int \<Rightarrow> pane_layout \<Rightarrow> (pane_split_child list \<times> pane_layout) result" where
  "flatten_source_for_axis source axis source_share L =
     and_then (node L source) (\<lambda>source_node.
     case matching_split source_node axis of
       Some source_split \<Rightarrow>
         and_then (distribute_pane_percentage_total
             (percentage_values (sp_children source_split)) source_share) (\<lambda>shares.
         and_then (assign_percentages (sp_children source_split) shares) (\<lambda>children.
         Inr (children, erase_node source L)))
     | None \<Rightarrow>
         and_then (move_required_percentage source_share) (\<lambda>share.
         Inr ([\<lparr>sc_node = source, sc_pct = share\<rparr>], L)))"

definition insert_into_matching_split ::
  "node_id \<Rightarrow> node_id \<Rightarrow> node_id \<Rightarrow> pane_insertion \<Rightarrow> pane_layout \<Rightarrow> pane_layout result" where
  "insert_into_matching_split source target parent_id insertion L =
     and_then (at_split L parent_id) (\<lambda>split.
     and_then (move_child_index split target) (\<lambda>target_index.
     (let target_share = sc_pct (sp_children split ! target_index);
          earlier_share = (target_share + 1) div 2;
          later_share = target_share div 2;
          source_share = (if insertion = BEFORE then earlier_share else later_share);
          retained_target_share = (if insertion = BEFORE then later_share else earlier_share) in
     and_then (flatten_source_for_axis source (sp_axis split) source_share L)
       (\<lambda>(inserted_children, L1).
     and_then (move_required_percentage retained_target_share) (\<lambda>retained.
     (let children = (sp_children split)[target_index :=
            (sp_children split ! target_index)\<lparr>sc_pct := retained\<rparr>];
          insertion_index = (if insertion = BEFORE then target_index else target_index + 1) in
     and_then (put_split parent_id (split\<lparr>sp_children :=
         take insertion_index children @ inserted_children @ drop insertion_index children\<rparr>) L1)
       (fold_result (set_parent (Some parent_id)) (map sc_node inserted_children))))))))"

definition wrap_target ::
  "node_id \<Rightarrow> node_id \<Rightarrow> node_id option \<Rightarrow> drop_placement \<Rightarrow> pane_layout \<Rightarrow> pane_layout result" where
  "wrap_target source target target_parent placement L =
     and_then (allocate_node_id L) (\<lambda>(wrapper_id, L1).
     and_then (flatten_source_for_axis source (dp_axis placement) 50 L1) (\<lambda>(source_children, L2).
     and_then (move_required_percentage 50) (\<lambda>half.
     (let target_child = \<lparr>sc_node = target, sc_pct = half\<rparr>;
          children = (if dp_insertion placement = BEFORE then source_children @ [target_child]
                      else target_child # source_children) in
     and_then (case target_parent of
         Some p \<Rightarrow>
           and_then (at_split L2 p) (\<lambda>parent_split.
           and_then (move_child_index parent_split target) (\<lambda>i.
           put_split p (parent_split\<lparr>sp_children := (sp_children parent_split)
             [i := (sp_children parent_split ! i)\<lparr>sc_node := wrapper_id\<rparr>]\<rparr>) L2))
       | None \<Rightarrow> Inr (L2\<lparr>ly_root := wrapper_id\<rparr>)) (\<lambda>L3.
     and_then (set_parent (Some wrapper_id) target L3) (\<lambda>L4.
     and_then (fold_result (set_parent (Some wrapper_id)) (map sc_node source_children) L4) (\<lambda>L5.
     Inr (emplace_node \<lparr>nd_id = wrapper_id, nd_parent = target_parent,
            nd_contents = Pane_split \<lparr>sp_axis = dp_axis placement, sp_children = children\<rparr>\<rparr> L5))))))))"

definition insert_at_target ::
  "node_id \<Rightarrow> node_id \<Rightarrow> drop_placement \<Rightarrow> pane_layout \<Rightarrow> pane_layout result" where
  "insert_at_target source target placement L =
     and_then (node L target) (\<lambda>target_node.
     case nd_parent target_node of
       Some p \<Rightarrow>
         and_then (node L p) (\<lambda>pn.
         and_then (node_split pn) (\<lambda>ps.
         if sp_axis ps = dp_axis placement
         then insert_into_matching_split source target p (dp_insertion placement) L
         else wrap_target source target (Some p) placement L))
     | None \<Rightarrow> wrap_target source target None placement L)"

definition mover_move ::
  "pane_selection \<Rightarrow> node_id \<Rightarrow> pane_drop_direction \<Rightarrow> pane_layout \<Rightarrow> (bool \<times> pane_layout) result" where
  "mover_move sel target direction L =
     and_then (validate L sel target) (\<lambda>_.
     (let placement = placement_for direction in
     and_then (required_selection_parent sel) (\<lambda>source_parent.
     and_then (node L source_parent) (\<lambda>parent_node.
     and_then (node_split parent_node) (\<lambda>parent_split.
     and_then (node L target) (\<lambda>target_node.
     if nd_parent target_node = sel_parent sel \<and> sp_axis parent_split = dp_axis placement
     then reorder_at_same_level sel target (dp_insertion placement) L
     else
       and_then (extract_selection sel L) (\<lambda>((source, cleanup_parent), L1).
       and_then (insert_at_target source target placement L1) (\<lambda>L2.
       and_then (node L2 cleanup_parent) (\<lambda>cleanup_node.
       and_then (node_split cleanup_node) (\<lambda>cleanup.
       and_then (if length (sp_children cleanup) = 1 then dissolve_unary_split cleanup_parent L2
                 else Inr L2) (\<lambda>L3. Inr (True, L3))))))))))))"

definition exchange_nodes ::
  "node_id \<Rightarrow> node_id \<Rightarrow> pane_layout \<Rightarrow> (bool \<times> pane_layout) result" where
  "exchange_nodes source target L =
     (if source = target then Inr (False, L)
      else
        and_then (node L source) (\<lambda>source_node.
        and_then (node L target) (\<lambda>target_node.
        and_then (is_ancestor L source target) (\<lambda>below.
        and_then (if below then Inr True else is_ancestor L target source) (\<lambda>overlap.
        throw_if overlap
          (Invalid_argument ''pane swap source and target cannot overlap by ancestry'')
        (case (nd_parent source_node, nd_parent target_node) of
          (Some source_parent, Some target_parent) \<Rightarrow>
            and_then (at_split L source_parent) (\<lambda>source_split.
            and_then (at_split L target_parent) (\<lambda>target_split.
            and_then (move_child_index source_split source) (\<lambda>source_index.
            and_then (move_child_index target_split target) (\<lambda>target_index.
            and_then (put_split source_parent (source_split\<lparr>sp_children :=
                (sp_children source_split)[source_index :=
                  (sp_children source_split ! source_index)\<lparr>sc_node := target\<rparr>]\<rparr>) L) (\<lambda>L1.
            and_then (at_split L1 target_parent) (\<lambda>target_split1.
            and_then (put_split target_parent (target_split1\<lparr>sp_children :=
                (sp_children target_split1)[target_index :=
                  (sp_children target_split1 ! target_index)\<lparr>sc_node := source\<rparr>]\<rparr>) L1) (\<lambda>L2.
            and_then (set_parent (Some target_parent) source L2) (\<lambda>L3.
            and_then (set_parent (Some source_parent) target L3) (\<lambda>L4.
            and_then (flatten_matching_split_children source_parent L4) (\<lambda>L5.
            and_then (if target_parent \<noteq> source_parent
                      then flatten_matching_split_children target_parent L5 else Inr L5) (\<lambda>L6.
            Inr (True, L6))))))))))))
        | _ \<Rightarrow> Inl (Invalid_argument ''pane layout root cannot be swapped'')))))))"

definition move_pane_selection ::
  "pane_selection \<Rightarrow> node_id \<Rightarrow> pane_drop_direction \<Rightarrow> pane_layout \<Rightarrow> (bool \<times> pane_layout) result" where
  "move_pane_selection sel target direction L =
     and_then (mover_move sel target direction L) (\<lambda>(changed, moved).
       Inr (changed, if changed then moved else L))"

definition swap_pane_nodes ::
  "node_id \<Rightarrow> node_id \<Rightarrow> pane_layout \<Rightarrow> (bool \<times> pane_layout) result" where
  "swap_pane_nodes source target L =
     and_then (exchange_nodes source target L) (\<lambda>(changed, swapped).
       Inr (changed, if changed then swapped else L))"

end
