(* ===== verification/Pane_Ancestry.thy ===== *)
theory Pane_Ancestry
  imports Pane_Move
begin

text \<open>
  The ancestors of a node of a represented tree: the loop over parents decides membership in
  the path of the node's context, and the validation of a move accepts exactly the targets
  outside the moved subtrees and their ancestors.
\<close>

section \<open>Paths\<close>

fun ctx_path :: "ctx \<Rightarrow> node_id list" where
  "ctx_path [] = []"
| "ctx_path (Frame n ax ls w rs # C) = n # ctx_path C"

lemma ctx_path_append [simp]: "ctx_path (C @ D) = ctx_path C @ ctx_path D"
  by (induction C rule: ctx_path.induct) auto

lemma length_ctx_path [simp]: "length (ctx_path C) = length C"
  by (induction C rule: ctx_path.induct) auto

lemma ctx_path_ids: "set (ctx_path C) \<subseteq> set (ids_before C)"
  by (induction C rule: ctx_path.induct) auto

lemma length_ctx_ids: "length C \<le> length (ids_before C)"
  by (induction C rule: ids_before.induct) auto

lemma ctx_path_split:
  "n \<in> set (ctx_path C) \<Longrightarrow> \<exists>C1 ax ls w rs C2. C = C1 @ Frame n ax ls w rs # C2"
proof (induction C rule: ctx_path.induct)
  case (2 m ax ls w rs C)
  show ?case
  proof (cases "n = m")
    case True
    then show ?thesis by (intro exI [of _ "[]"]) blast
  next
    case False
    with 2 obtain C1 ax' ls' w' rs' C2 where "C = C1 @ Frame n ax' ls' w' rs' # C2" by auto
    then show ?thesis by (intro exI [of _ "Frame m ax ls w rs # C1"]) auto
  qed
qed simp

lemma climb_to_ancestor_eq:
  assumes "ctx_stored (look L) C h" "length C < fuel"
  shows "climb_to_ancestor fuel L a (ctx_parent C) = Inr (a \<in> set (ctx_path C))"
  using assms
proof (induction C arbitrary: h fuel rule: ctx_path.induct)
  case 1
  then show ?case by (cases fuel) auto
next
  case (2 n ax ls w rs C)
  then obtain fuel' where "fuel = Suc fuel'" by (cases fuel) auto
  moreover from 2 have "look L n = Some (split_node_of n (ctx_parent C) ax
        (map kid_entry ls @ \<lparr>sc_node = h, sc_pct = w\<rparr> # map kid_entry rs))" "ctx_stored (look L) C n"
    by simp_all
  ultimately show ?case using 2 by (auto simp: layout_access)
qed

lemma is_ancestor_eq:
  assumes rep: "represents L (plug C s)"
  shows "is_ancestor L a (tid s) = Inr (a \<in> set (ctx_path C))"
proof -
  note D = representsD [OF rep]
  from D(1) have st: "ctx_stored (look L) C (tid s)" "stored (look L) (ctx_parent C) s"
    by (simp_all add: tree_simps)
  from stored_parent [OF st(2)] obtain nd where nd: "look L (tid s) = Some nd" "nd_parent nd = ctx_parent C"
    by blast
  have "length C \<le> length (tree_ids (plug C s))" using length_ctx_ids [of C] by (simp add: ids_plug)
  then have "length C < layout_depth_bound L"
    unfolding layout_depth_bound_def nodes_count [OF rep] by simp
  from climb_to_ancestor_eq [OF st(1) this] nd show ?thesis
    by (simp add: is_ancestor_def layout_access)
qed

lemma path_unique:
  assumes "represents L t" "t = plug C s" "t = plug C' s'" "tid s = tid s'"
  shows "set (ctx_path C) = set (ctx_path C')"
  using is_ancestor_eq [of L C s] is_ancestor_eq [of L C' s'] assms by auto

lemma stored_unique:
  "stored M p s \<Longrightarrow> stored M p' s' \<Longrightarrow> tid s = tid s' \<Longrightarrow> s = s'"
proof (induction s arbitrary: p p' s' rule: ptree_induct)
  case (TLeaf n q)
  then show ?case by (cases s') auto
next
  case (TSplit n ax ks)
  then obtain ks' where s': "s' = TSplit n ax ks'" "map kid_entry ks = map kid_entry ks'"
    "\<forall>k \<in> set ks'. stored M (Some n) (fst k)"
    by (cases s') auto
  have len: "length ks = length ks'" using s'(2) map_eq_imp_length_eq by blast
  have "ks ! i = ks' ! i" if i: "i < length ks" for i
  proof -
    have e: "kid_entry (ks ! i) = kid_entry (ks' ! i)"
      using arg_cong [OF s'(2), of "\<lambda>xs. xs ! i"] i len by simp
    then have "tid (fst (ks ! i)) = tid (fst (ks' ! i))" "snd (ks ! i) = snd (ks' ! i)"
      by (simp_all add: kid_entry_def)
    moreover have "stored M (Some n) (fst (ks ! i))" using TSplit.prems(1) i by simp
    moreover have "stored M (Some n) (fst (ks' ! i))" using s'(3) i len by simp
    ultimately have "fst (ks ! i) = fst (ks' ! i)" "snd (ks ! i) = snd (ks' ! i)"
      using TSplit.IH [of "ks ! i"] i by auto
    then show ?thesis by (rule prod_eqI)
  qed
  then have "ks = ks'" using len by (intro nth_equalityI) auto
  with s' show ?case by simp
qed

lemma subtree_unique:
  assumes "represents L t" "t = plug C s" "t = plug C' s'" "tid s = tid s'"
  shows "s = s'"
proof -
  have "stored (look L) (ctx_parent C) s" "stored (look L) (ctx_parent C') s'"
    using representsD(1) [OF assms(1)] assms(2,3) stored_plug by metis+
  then show ?thesis using assms(4) by (rule stored_unique)
qed

lemma tid_plug_path: "C \<noteq> [] \<Longrightarrow> tid (plug C s) = last (ctx_path C)"
proof (induction C arbitrary: s rule: ctx_path.induct)
  case (2 n ax ls w rs C)
  then show ?case by (cases C rule: ctx_path.cases) auto
qed simp

text \<open>A node outside a subtree and not above it has a subtree disjoint from it.\<close>

lemma descendant_context: "n \<in> set (tree_ids s) \<Longrightarrow> \<exists>D u. plug C s = plug (D @ C) u \<and> tid u = n"
  using node_context [of n s] plug_append by metis

lemma top_or_path:
  assumes "s = plug D u"
  shows "tid s = tid u \<or> tid s \<in> set (ctx_path D)"
  using assms
proof (induction D u arbitrary: s rule: plug.induct)
  case (2 n ax ls w rs C t)
  then show ?case by auto
qed simp

lemma unrelated_disjoint:
  assumes rep: "represents L t" and t: "t = plug C s" "t = plug E u"
    and out: "tid u \<notin> set (tree_ids s)" "tid u \<notin> set (ctx_path C)"
  shows "set (tree_ids u) \<inter> (set (tree_ids s) \<union> set (ctx_path C)) = {}"
proof -
  have False if n: "n \<in> set (tree_ids u)" "n \<in> set (tree_ids s) \<union> set (ctx_path C)" for n
  proof -
    from node_context [OF n(1)] obtain D v where D: "u = plug D v" "tid v = n" by blast
    then have tE: "t = plug (D @ E) v" using t(2) by (simp add: plug_append)
    have up: "tid u = n \<or> tid u \<in> set (ctx_path (D @ E))" using top_or_path [OF D(1)] D(2) by auto
    from n(2) consider "n \<in> set (tree_ids s)" | "n \<in> set (ctx_path C)" by blast
    then show False
    proof cases
      case 1
      from node_context [OF 1] obtain F v' where F: "s = plug F v'" "tid v' = n" by blast
      then have "t = plug (F @ C) v'" using t(1) by (simp add: plug_append)
      from path_unique [OF rep tE this] D(2) F(2) have "set (ctx_path (D @ E)) = set (ctx_path (F @ C))" by simp
      then have "tid u = n \<or> tid u \<in> set (ctx_path F) \<or> tid u \<in> set (ctx_path C)" using up by auto
      moreover have "set (ctx_path F) \<subseteq> set (tree_ids s)" using ctx_path_ids [of F] F(1) by (auto simp: ids_plug)
      ultimately show False using out 1 by auto
    next
      case 2
      from ctx_path_split [OF 2] obtain C1 ax ls w rs C2 where C: "C = C1 @ Frame n ax ls w rs # C2" by blast
      then have "t = plug C2 (TSplit n ax (ls @ (plug C1 s, w) # rs))" using t(1) by (simp add: plug_append)
      from path_unique [OF rep tE this] D(2) have "set (ctx_path (D @ E)) = set (ctx_path C2)" by simp
      then have "tid u = n \<or> tid u \<in> set (ctx_path C2)" using up by auto
      then show False using out(2) C by auto
    qed
  qed
  then show ?thesis by blast
qed


lemma below_iff:
  assumes rep: "represents L t" and t: "t = plug C s" "t = plug E u"
  shows "tid u \<in> set (tree_ids s) \<longleftrightarrow> tid s = tid u \<or> tid s \<in> set (ctx_path E)"
proof
  assume "tid u \<in> set (tree_ids s)"
  from node_context [OF this] obtain F v where F: "s = plug F v" "tid v = tid u" by blast
  then have "t = plug (F @ C) v" using t(1) by (simp add: plug_append)
  from path_unique [OF rep t(2) this] F(2) have "set (ctx_path E) = set (ctx_path (F @ C))" by simp
  then show "tid s = tid u \<or> tid s \<in> set (ctx_path E)" using top_or_path [OF F(1)] F(2) by auto
next
  assume "tid s = tid u \<or> tid s \<in> set (ctx_path E)"
  then consider "tid s = tid u" | "tid s \<in> set (ctx_path E)" by blast
  then show "tid u \<in> set (tree_ids s)"
  proof cases
    case 1
    from tid_in_ids [of s] show ?thesis unfolding 1 .
  next
    case 2
    from ctx_path_split [OF 2] obtain E1 ax ls w rs E2 where E: "E = E1 @ Frame (tid s) ax ls w rs # E2"
      by blast
    then have "t = plug E2 (TSplit (tid s) ax (ls @ (plug E1 u, w) # rs))"
      using t(2) by (simp add: plug_append)
    from subtree_unique [OF rep t(1) this] have "s = TSplit (tid s) ax (ls @ (plug E1 u, w) # rs)" by simp
    then have "tree_ids s = tree_ids (TSplit (tid s) ax (ls @ (plug E1 u, w) # rs))" by (rule arg_cong)
    also have "tid u \<in> set \<dots>" by (simp add: ids_plug)
    finally show ?thesis .
  qed
qed

section \<open>Validation\<close>

lemma check_overlap_eq:
  assumes rep: "represents L t" and t: "t = plug (Frame p ax ls w rs # C) s" "t = plug E u"
  shows "check_overlap L (tid u) (tid s) x =
    (if tid u \<in> set (tree_ids s) \<or> tid u \<in> set (p # ctx_path C)
     then Inl (Invalid_argument ''pane move source and target cannot overlap by ancestry'')
     else Inr ())"
proof -
  have 1: "is_ancestor L (tid s) (tid u) = Inr (tid s \<in> set (ctx_path E))"
    using is_ancestor_eq [of L E u] rep t(2) by simp
  have 2: "is_ancestor L (tid u) (tid s) = Inr (tid u \<in> set (p # ctx_path C))"
    using is_ancestor_eq [of L "Frame p ax ls w rs # C" s] rep t(1) by simp
  show ?thesis using 1 2 below_iff [OF rep t] by (auto simp: check_overlap_def)
qed

lemma check_overlaps_eq:
  assumes rep: "represents L t" and t: "t = plug E u"
    and ks: "\<forall>k \<in> set ks. \<exists>ls w rs. t = plug (Frame p ax ls w rs # C) (fst k)"
  shows "fold_result (check_overlap L (tid u)) (map (\<lambda>k. tid (fst k)) ks) () =
    (if tid u \<in> set (concat (map (\<lambda>k. tree_ids (fst k)) ks)) \<or> (ks \<noteq> [] \<and> tid u \<in> set (p # ctx_path C))
     then Inl (Invalid_argument ''pane move source and target cannot overlap by ancestry'')
     else Inr ())"
  using ks
proof (induction ks)
  case (Cons k ks)
  from Cons.prems obtain ls w rs where "t = plug (Frame p ax ls w rs # C) (fst k)" by auto
  from check_overlap_eq [OF rep this t] Cons show ?case by auto
qed simp

text \<open>The targets a block of siblings may be moved to.\<close>

definition movable_to :: "ctx \<Rightarrow> node_id \<Rightarrow> (ptree \<times> int) list \<Rightarrow> (ptree \<times> int) list \<Rightarrow>
    (ptree \<times> int) list \<Rightarrow> node_id \<Rightarrow> bool" where
  "movable_to C p ls ms rs target \<longleftrightarrow>
     target \<notin> set (concat (map (\<lambda>k. tree_ids (fst k)) ms)) \<and> target \<notin> set (p # ctx_path C)"

lemma block_member_context:
  assumes "k \<in> set ms"
  shows "\<exists>ls' w rs'. plug C (TSplit p ax (ls @ ms @ rs)) = plug (Frame p ax ls' w rs' # C) (fst k)"
proof -
  from assms obtain ms1 ms2 where "ms = ms1 @ k # ms2" by (auto dest: split_list)
  then have "ls @ ms @ rs = (ls @ ms1) @ (fst k, snd k) # (ms2 @ rs)" by simp
  then have "plug C (TSplit p ax (ls @ ms @ rs)) = plug (Frame p ax (ls @ ms1) (snd k) (ms2 @ rs) # C) (fst k)"
    by (simp only: plug.simps)
  then show ?thesis by blast
qed

lemma validate_block:
  assumes rep: "represents L t" and t: "t = plug C (TSplit p ax (ls @ ms @ rs))" "t = plug E u"
    and sel: "sel_parent sel = Some p" "sel_nodes sel = map (\<lambda>k. tid (fst k)) ms" "ms \<noteq> []"
  shows "movable_to C p ls ms rs (tid u) \<Longrightarrow> validate L sel (tid u) = Inr ()"
    "\<not> movable_to C p ls ms rs (tid u) \<Longrightarrow> \<exists>m. validate L sel (tid u) = Inl (Invalid_argument m)"
proof -
  let ?ks = "ls @ ms @ rs"
  from rep t(1) have rp: "represents L (plug C (TSplit p ax ?ks))" by simp
  note K = split_kids [OF rp] and D = representsD [OF rep]
  have i: "length ls < length ?ks" "?ks ! length ls = hd ms" using sel(3) by (cases ms; simp)+
  have idx: "move_child_index \<lparr>sp_axis = ax, sp_children = map kid_entry ?ks\<rparr> (tid (fst (hd ms))) = Inr (length ls)"
    using child_position_nth [OF K(2) i(1)] i(2) by (simp add: move_child_index_def del: map_append)
  have same: "(\<exists>index < length ms. sc_node (map kid_entry ?ks ! (length ls + index)) \<noteq> map (\<lambda>k. tid (fst k)) ms ! index) = False"
    by (simp add: nth_append del: map_append)
  have hd: "hd (map (\<lambda>k. tid (fst k)) ms) = tid (fst (hd ms))" using sel(3) by (simp add: hd_map)
  obtain nd where nd: "look L (tid u) = Some nd"
    using D(3) t(2) by (metis domD UnCI ids_plug set_append tid_in_ids)
  have cs: "\<forall>k \<in> set ms. \<exists>ls' w rs'. t = plug (Frame p ax ls' w rs' # C) (fst k)"
    using block_member_context unfolding t(1) by blast
  note co = check_overlaps_eq [OF rep t(2) cs]
  have root: "p = ly_root L \<longleftrightarrow> C = []"
  proof -
    have "C \<noteq> [] \<Longrightarrow> tid t \<noteq> p"
    proof -
      assume "C \<noteq> []"
      have "tid t = p \<or> tid t \<in> set (ctx_path C)" using top_or_path [OF t(1)] by simp
      moreover have "p \<notin> set (ctx_path C)" using D(2) ctx_path_ids [of C] by (auto simp: t(1) ids_plug)
      moreover have "tid t = last (ctx_path C)"
        using tid_plug_path [OF \<open>C \<noteq> []\<close>] unfolding t(1) .
      ultimately show "tid t \<noteq> p" using \<open>C \<noteq> []\<close> by (metis last_in_set length_0_conv length_ctx_path)
    qed
    then show ?thesis using D(4) t(1) by (cases "C = []") auto
  qed
  have v: "validate L sel (tid u) =
    (if tid u \<in> set (concat (map (\<lambda>k. tree_ids (fst k)) ms)) \<or> tid u \<in> set (p # ctx_path C)
     then Inl (Invalid_argument ''pane move source and target cannot overlap by ancestry'')
     else throw_if (length ms = length ?ks \<and> p = ly_root L)
       (Invalid_argument ''entire pane layout cannot be moved'') (Inr ()))"
    using K(1) idx hd nd co sel
    by (simp add: validate_def required_selection_parent_def layout_access same del: map_append)
  {
    assume m: "movable_to C p ls ms rs (tid u)"
    have "\<not> (length ms = length ?ks \<and> p = ly_root L)"
    proof
      assume "length ms = length ?ks \<and> p = ly_root L"
      then have "ls = []" "rs = []" "C = []" using root by auto
      then have "set (tree_ids t) = set (p # concat (map (\<lambda>k. tree_ids (fst k)) ms))" using t(1) by simp
      moreover have "tid u \<in> set (tree_ids t)" unfolding t(2) ids_plug by simp
      ultimately show False using m by (auto simp: movable_to_def)
    qed
    then have no: "(length ms = length ?ks \<and> p = ly_root L) = False" by blast
    show "validate L sel (tid u) = Inr ()" using v m unfolding no movable_to_def by simp
  next
    assume "\<not> movable_to C p ls ms rs (tid u)"
    then show "\<exists>m. validate L sel (tid u) = Inl (Invalid_argument m)" using v by (auto simp: movable_to_def)
  }
qed

end
