(* ===== verification/Pane_Extract.thy ===== *)
theory Pane_Extract
  imports Pane_Ancestry
begin

text \<open>
  The first step of a move: \<open>extract\<close> takes the selected block out of the tree. The result is a
  forest of two trees, the remaining layout (whose cleanup node may be left with one child) and
  the detached source.
\<close>

section \<open>Trees with one split that may be unary\<close>

fun wf_except :: "node_id \<Rightarrow> ptree \<Rightarrow> bool" where
  "wf_except c (TLeaf n p) = True"
| "wf_except c (TSplit n ax ks) =
     ((n = c \<or> 2 \<le> length ks) \<and> kids_ok ks \<and> (\<forall>k \<in> set ks. wf_except c (fst k)))"

fun ctx_wf_except :: "node_id \<Rightarrow> ctx \<Rightarrow> bool" where
  "ctx_wf_except c [] = True"
| "ctx_wf_except c (Frame n ax ls w rs # C) =
     ((n = c \<or> ls @ rs \<noteq> []) \<and> 0 \<le> w \<and> w + sum_list (map snd (ls @ rs)) = 100
      \<and> (\<forall>k \<in> set (ls @ rs). 0 \<le> snd k \<and> wf_except c (fst k)) \<and> ctx_wf_except c C)"

lemma wf_except_plug: "wf_except c (plug C t) \<longleftrightarrow> ctx_wf_except c C \<and> wf_except c t"
proof (induction C t rule: plug.induct)
  case (2 n ax ls w rs C t)
  have "2 \<le> length (ls @ (t, w) # rs) \<longleftrightarrow> ls @ rs \<noteq> []"
    by (cases ls; cases rs) auto
  with 2 show ?case by (auto simp: kids_ok_def)
qed simp

lemma wf_except_fresh: "c \<notin> set (tree_ids t) \<Longrightarrow> wf_except c t = well_formed t"
proof (induction t rule: ptree_induct)
  case (TSplit n ax ks)
  have "wf_except c (fst k) = well_formed (fst k)" if "k \<in> set ks" for k
    by (rule TSplit.IH [OF that]) (use TSplit.prems that in auto)
  with TSplit.prems show ?case by simp
qed simp

lemma well_formed_imp_except: "well_formed t \<Longrightarrow> wf_except c t"
  by (induction t rule: ptree_induct) auto

lemma ctx_wf_except_fresh:
  "c \<notin> set (ids_before C) \<Longrightarrow> c \<notin> set (ids_after C) \<Longrightarrow> ctx_wf_except c C = ctx_well_formed C"
proof (induction C rule: ctx_well_formed.induct)
  case (2 n ax ls w rs C)
  have "wf_except c (fst k) = well_formed (fst k)" if "k \<in> set (ls @ rs)" for k
    by (rule wf_except_fresh) (use 2 that in auto)
  with 2 show ?case by simp
qed simp

lemma ctx_weight: "ctx_wf_except c (Frame p ax ls w rs # C) \<Longrightarrow> 0 \<le> w \<and> w \<le> 100"
proof -
  assume a: "ctx_wf_except c (Frame p ax ls w rs # C)"
  have "0 \<le> sum_list (map snd (ls @ rs))" by (rule sum_list_nonneg) (use a in auto)
  with a show ?thesis by simp
qed

section \<open>Forests of two trees\<close>

definition represents_pair :: "pane_layout \<Rightarrow> ptree \<Rightarrow> ptree \<Rightarrow> bool" where
  "represents_pair L t s \<longleftrightarrow> represents_forest L [t, s] \<and> ly_root L = tid t"

lemma represents_pairD:
  assumes "represents_pair L t s"
  shows "stored (look L) None t" "stored (look L) None s" "distinct (tree_ids t @ tree_ids s)"
    "dom (look L) = set (tree_ids t) \<union> set (tree_ids s)" "ly_root L = tid t" "smap_ok (ly_nodes L)"
    "\<And>n. n \<in> set (tree_ids t) \<union> set (tree_ids s) \<Longrightarrow> 0 < n \<and> n < ly_next L"
    "0 < ly_next L" "int (ly_next L) \<le> UINT64_MAX"
  using assms by (auto simp: represents_pair_def represents_forest_def)

lemma represents_pairI:
  assumes "stored (look L) None t" "stored (look L) None s" "distinct (tree_ids t @ tree_ids s)"
    "dom (look L) = set (tree_ids t) \<union> set (tree_ids s)" "ly_root L = tid t" "smap_ok (ly_nodes L)"
    "\<And>n. n \<in> set (tree_ids t) \<union> set (tree_ids s) \<Longrightarrow> 0 < n \<and> n < ly_next L"
    "0 < ly_next L" "int (ly_next L) \<le> UINT64_MAX"
  shows "represents_pair L t s"
  using assms by (auto simp: represents_pair_def represents_forest_def)

text \<open>Taking a block of children out of a split and into a tree of its own.\<close>

lemma detach_block:
  fixes ls ms rs ks :: "(ptree \<times> int) list"
  defines "ids \<equiv> \<lambda>ks::(ptree \<times> int) list. concat (map (\<lambda>k. tree_ids (fst k)) ks)"
  assumes rep: "represents L (plug C (TSplit p ax (ls @ ms @ rs)))"
    and ks: "map fst ks = map fst (ls @ rs)"
    and at: "look L1 p = Some (split_node_of p (ctx_parent C) ax (map kid_entry ks))"
    and src: "stored (look L1) None src" "distinct (tree_ids src)"
      "set (tree_ids src) = set (ids ms) \<union> F" "set (ids ms) \<inter> F = {}"
      "\<And>n. n \<in> F \<Longrightarrow> look L n = None \<and> 0 < n \<and> n < ly_next L1"
    and other: "\<And>n. n \<noteq> p \<Longrightarrow> n \<notin> set (tree_ids src) \<Longrightarrow> look L1 n = look L n"
    and ok: "ly_root L1 = ly_root L" "smap_ok (ly_nodes L1)" "ly_next L \<le> ly_next L1"
      "int (ly_next L1) \<le> UINT64_MAX"
  shows "represents_pair L1 (plug C (TSplit p ax ks)) src"
proof (rule represents_pairI)
  note D = representsD [OF rep]
  let ?t1 = "plug C (TSplit p ax ks)"
  from D(1) have st: "\<forall>k \<in> set (ls @ ms @ rs). stored (look L) (Some p) (fst k)" "ctx_stored (look L) C p"
    by (simp_all add: tree_simps)
  have dist: "distinct (ids_before C @ (p # ids ls @ ids ms @ ids rs) @ ids_after C)"
    using D(2) by (simp add: tree_simps ids_def)
  have F: "F \<inter> set (tree_ids (plug C (TSplit p ax (ls @ ms @ rs)))) = {}"
    using src(5) unfolding D(3) [symmetric] by auto
  then have Fs: "F \<inter> set (ids_before C) = {}" "F \<inter> set (ids_after C) = {}" "p \<notin> F"
    "F \<inter> set (ids ls) = {}" "F \<inter> set (ids rs) = {}"
    unfolding ids_plug by (auto simp: ids_def)
  have mf: "map (\<lambda>k. f (fst k)) ks = map (\<lambda>k. f (fst k)) (ls @ rs)" for f :: "ptree \<Rightarrow> 'a"
    using arg_cong [OF ks, of "map f"] by (simp add: comp_def)
  have t1: "tree_ids ?t1 = ids_before C @ p # ids ls @ ids rs @ ids_after C"
    by (simp add: ids_plug mf ids_def)
  have full: "set (tree_ids (plug C (TSplit p ax (ls @ ms @ rs)))) = set (tree_ids ?t1) \<union> set (ids ms)"
    unfolding t1 unfolding ids_plug by (auto simp: ids_def)
  have disj: "set (tree_ids ?t1) \<inter> set (tree_ids src) = {}"
    unfolding t1 src(3) using dist Fs by auto
  have "stored (look L1) (Some p) (fst k)" if k: "k \<in> set (ls @ rs)" for k
  proof -
    have sub: "set (tree_ids (fst k)) \<subseteq> set (ids ls) \<union> set (ids rs)"
      using k by (auto simp: ids_def)
    have "stored (look L1) (Some p) (fst k) = stored (look L) (Some p) (fst k)"
    proof (rule stored_cong, rule other)
      fix n assume n: "n \<in> set (tree_ids (fst k))"
      then show "n \<noteq> p" using sub dist by auto
      have "n \<in> set (tree_ids ?t1)" using n sub unfolding t1 by auto
      then show "n \<notin> set (tree_ids src)" using disj by blast
    qed
    moreover have "k \<in> set (ls @ ms @ rs)" using k unfolding set_append by blast
    ultimately show ?thesis using st(1) by blast
  qed
  then have "\<forall>k \<in> set ks. stored (look L1) (Some p) (fst k)"
    using mset_fst_all [of ks "ls @ rs" "stored (look L1) (Some p)"] ks by simp
  moreover have "ctx_stored (look L1) C p = ctx_stored (look L) C p"
  proof (rule ctx_stored_cong, rule other)
    fix n assume n: "n \<in> set (ids_before C) \<union> set (ids_after C)"
    then show "n \<noteq> p" using dist by auto
    have "n \<in> set (tree_ids ?t1)" using n unfolding t1 by auto
    then show "n \<notin> set (tree_ids src)" using disj by blast
  qed
  ultimately show "stored (look L1) None ?t1" using at st(2) by (simp add: tree_simps)
  have "distinct (tree_ids ?t1)" unfolding t1 using dist by auto
  then show "distinct (tree_ids ?t1 @ tree_ids src)" using disj src(2) by simp
  show "dom (look L1) = set (tree_ids ?t1) \<union> set (tree_ids src)"
  proof (rule set_eqI)
    fix n
    consider "n = p" | "n \<noteq> p" "n \<in> set (tree_ids src)" | "n \<noteq> p" "n \<notin> set (tree_ids src)" by blast
    then show "n \<in> dom (look L1) \<longleftrightarrow> n \<in> set (tree_ids ?t1) \<union> set (tree_ids src)"
    proof cases
      case 1
      then show ?thesis using at t1 by auto
    next
      case 2
      have "tid u \<in> dom (look L1)" if "stored (look L1) q u" for q u using stored_parent [OF that] by auto
      moreover from node_context [OF 2(2)] obtain G v where G: "src = plug G v" "tid v = n" by blast
      ultimately show ?thesis using 2 src(1) by (auto simp: stored_plug)
    next
      case 3
      then have "look L1 n = look L n" by (rule other)
      moreover have "n \<in> dom (look L) \<longleftrightarrow> n \<in> set (tree_ids (plug C (TSplit p ax (ls @ ms @ rs))))"
        unfolding D(3) ..
      ultimately show ?thesis using 3(2) unfolding full src(3) domIff by simp
    qed
  qed
  show "ly_root L1 = tid ?t1"
    using D(4) ok(1) tid_plug_same [of "TSplit p ax ks" "TSplit p ax (ls @ ms @ rs)" C] by simp
  show "0 < n \<and> n < ly_next L1" if "n \<in> set (tree_ids ?t1) \<union> set (tree_ids src)" for n
  proof (cases "n \<in> F")
    case True
    then show ?thesis using src(5) by blast
  next
    case False
    then have "n \<in> set (tree_ids (plug C (TSplit p ax (ls @ ms @ rs))))"
      using that unfolding full src(3) by blast
    from D(6) [OF this] ok(3) show ?thesis by auto
  qed
  show "0 < ly_next L1" using D(7) ok(3) by simp
qed (use src(1) ok in simp_all)


section \<open>The three ways of extracting a block\<close>

lemma normalize_percentages_eq:
  assumes "ks \<noteq> []" "\<forall>k \<in> set ks. 0 \<le> snd k"
  shows "normalize_percentages (map kid_entry ks) = Inr (map kid_entry (renormalized ks))"
proof -
  note rn = renormalized_fields [OF assms]
  have "percentage_values (map kid_entry ks) = map snd ks" by (simp add: percentage_values_def comp_def)
  then show ?thesis using rn(5,6) unfolding normalize_percentages_def by (metis and_then.simps(2))
qed

text \<open>What an extraction leaves: \<open>t1\<close> with cleanup node \<open>c\<close>, the source, and \<open>kept\<close> leaves.\<close>

definition extraction :: "pane_layout \<Rightarrow> ptree \<Rightarrow> node_id set \<Rightarrow> node_id set \<Rightarrow> (node_id \<times> pane_id) list \<Rightarrow>
    (node_id \<times> pane_id) list \<Rightarrow> node_id \<Rightarrow> pane_layout \<Rightarrow> ptree \<Rightarrow> ptree \<Rightarrow> bool" where
  "extraction L t moved_ids path moved kept c L1 t1 src \<longleftrightarrow>
     represents_pair L1 t1 src \<and> wf_except c t1 \<and> well_formed src
     \<and> (\<exists>D ax ks. t1 = plug D (TSplit c ax ks)) \<and> c \<in> path
     \<and> tree_leaves src = moved \<and> tree_leaves t1 = kept
     \<and> (\<forall>n. n \<notin> insert c (set (tree_ids src)) \<longrightarrow> look L1 n = look L n)
     \<and> set (tree_ids src) \<subseteq> moved_ids \<union> path \<union> {n. look L n = None}
     \<and> ly_next L1 \<le> ly_next L + 1
     \<and> (alternates t \<longrightarrow> alternates t1 \<and> alternates src)"

lemma selected_filter:
  fixes ls ms rs :: "(ptree \<times> int) list"
  assumes "distinct (map (\<lambda>k. tid (fst k)) (ls @ ms @ rs))" "sel_nodes sel = map (\<lambda>k. tid (fst k)) ms"
  shows "filter (\<lambda>c. selection_contains sel (sc_node c)) (map kid_entry (ls @ ms @ rs)) = map kid_entry ms"
    "filter (\<lambda>c. \<not> selection_contains sel (sc_node c)) (map kid_entry (ls @ ms @ rs)) = map kid_entry (ls @ rs)"
proof -
  have c: "selection_contains sel (sc_node (kid_entry k)) \<longleftrightarrow> tid (fst k) \<in> set (map (\<lambda>k. tid (fst k)) ms)" for k
    by (simp add: selection_contains_def assms(2))
  have d: "set (map (\<lambda>k. tid (fst k)) ls) \<inter> set (map (\<lambda>k. tid (fst k)) ms) = {}"
    "set (map (\<lambda>k. tid (fst k)) rs) \<inter> set (map (\<lambda>k. tid (fst k)) ms) = {}"
    using assms(1) by auto
  have out: "\<not> selection_contains sel (sc_node (kid_entry k))" if "k \<in> set ls \<union> set rs" for k
    using that d unfolding c by auto
  have inn: "selection_contains sel (sc_node (kid_entry k))" if "k \<in> set ms" for k
    using that unfolding c by auto
  have l: "filter (\<lambda>c. selection_contains sel (sc_node c)) (map kid_entry zs) = []"
    "filter (\<lambda>c. \<not> selection_contains sel (sc_node c)) (map kid_entry zs) = map kid_entry zs"
    if "set zs \<subseteq> set ls \<union> set rs" for zs
    using that out by (induction zs) auto
  have m: "filter (\<lambda>c. selection_contains sel (sc_node c)) (map kid_entry zs) = map kid_entry zs"
    "filter (\<lambda>c. \<not> selection_contains sel (sc_node c)) (map kid_entry zs) = []"
    if "set zs \<subseteq> set ms" for zs
    using that inn by (induction zs) auto
  show "filter (\<lambda>c. selection_contains sel (sc_node c)) (map kid_entry (ls @ ms @ rs)) = map kid_entry ms"
    "filter (\<lambda>c. \<not> selection_contains sel (sc_node c)) (map kid_entry (ls @ ms @ rs)) = map kid_entry (ls @ rs)"
    unfolding map_append filter_append using l [of ls] l [of rs] m [of ms] by auto
qed

text \<open>The remaining tree and what is known of it, whatever the source.\<close>

lemma remaining_facts:
  assumes wf: "well_formed (plug C (TSplit p ax (ls @ ms @ rs)))" and ne: "ls @ rs \<noteq> []"
  defines "t1 \<equiv> plug C (TSplit p ax (renormalized (ls @ rs)))"
  shows "wf_except p t1"
    "tree_leaves t1 = leaves_before C @ concat (map (\<lambda>k. tree_leaves (fst k)) (ls @ rs)) @ leaves_after C"
    "alternates (plug C (TSplit p ax (ls @ ms @ rs))) \<Longrightarrow> alternates t1"
    "map fst (renormalized (ls @ rs)) = map fst (ls @ rs)"
    "normalize_percentages (map kid_entry (ls @ rs)) = Inr (map kid_entry (renormalized (ls @ rs)))"
    "\<forall>k \<in> set (ls @ ms @ rs). 0 \<le> snd k" "\<forall>k \<in> set ms. well_formed (fst k)"
proof -
  have wfk: "kids_ok (ls @ ms @ rs)" "\<forall>k \<in> set (ls @ ms @ rs). well_formed (fst k)" "ctx_well_formed C"
    using wf unfolding well_formed_plug well_formed.simps by blast+
  show nn: "\<forall>k \<in> set (ls @ ms @ rs). 0 \<le> snd k" using wfk(1) unfolding kids_ok_def by blast
  show "\<forall>k \<in> set ms. well_formed (fst k)" using wfk(2) by (simp add: ball_Un)
  have nn': "\<forall>k \<in> set (ls @ rs). 0 \<le> snd k" using nn by (simp add: ball_Un)
  note rn = renormalized_fields [OF ne nn']
  show "map fst (renormalized (ls @ rs)) = map fst (ls @ rs)" by (rule rn(7))
  show "normalize_percentages (map kid_entry (ls @ rs)) = Inr (map kid_entry (renormalized (ls @ rs)))"
    by (rule normalize_percentages_eq [OF ne nn'])
  have "\<forall>k \<in> set (renormalized (ls @ rs)). well_formed (fst k)" using rn(2) wfk(2) by (simp add: ball_Un)
  then have "\<forall>k \<in> set (renormalized (ls @ rs)). wf_except p (fst k)" using well_formed_imp_except by blast
  moreover have "ctx_wf_except p C"
    using wfk(3) well_formed_imp_except by (induction C rule: ctx_wf_except.induct) auto
  ultimately show "wf_except p t1" unfolding t1_def wf_except_plug using rn(3) by simp
  show "tree_leaves t1 = leaves_before C @ concat (map (\<lambda>k. tree_leaves (fst k)) (ls @ rs)) @ leaves_after C"
    unfolding t1_def leaves_plug tree_leaves.simps rn(1) ..
  assume "alternates (plug C (TSplit p ax (ls @ ms @ rs)))"
  then have a: "ctx_alternates C (Some ax)"
    "\<forall>k \<in> set (ls @ ms @ rs). top_axis (fst k) \<noteq> Some ax \<and> alternates (fst k)"
    unfolding alternates_plug by simp_all
  then have "\<forall>k \<in> set (ls @ rs). top_axis (fst k) \<noteq> Some ax \<and> alternates (fst k)" by (simp add: ball_Un)
  then have "\<forall>k \<in> set (renormalized (ls @ rs)). top_axis (fst k) \<noteq> Some ax \<and> alternates (fst k)"
    using rn(2) [of "\<lambda>t. top_axis t \<noteq> Some ax \<and> alternates t"] by simp
  with a(1) show "alternates t1" unfolding t1_def alternates_plug by simp
qed

text \<open>Detaching one child, as both the single-source and the whole-split case do.\<close>

lemma detach_one:
  assumes rep: "represents L (plug C (TSplit p ax (ls @ (s, w) # rs)))"
    and wf: "well_formed (plug C (TSplit p ax (ls @ (s, w) # rs)))" and ne: "ls @ rs \<noteq> []"
    and nd: "look L (tid s) = Some nd"
  defines "L1 \<equiv> write_node (tid s) (nd\<lparr>nd_parent := None\<rparr>)
      (write_node p (split_node_of p (ctx_parent C) ax (map kid_entry (renormalized (ls @ rs)))) L)"
  shows "represents_pair L1 (plug C (TSplit p ax (renormalized (ls @ rs)))) s"
    "\<And>n. n \<notin> insert p (set (tree_ids s)) \<Longrightarrow> look L1 n = look L n"
    "ly_next L1 = ly_next L" "tid s \<noteq> p"
proof -
  note D = representsD [OF rep]
  have wf': "well_formed (plug C (TSplit p ax (ls @ [(s, w)] @ rs)))" using wf by simp
  note rf = remaining_facts [OF wf' ne]
  from D(1) have st: "stored (look L) (Some p) s" by (simp add: tree_simps)
  have dist: "distinct (tree_ids s)" "p \<notin> set (tree_ids s)" using D(2) by (auto simp: ids_plug)
  have tp: "tid s \<noteq> p" using dist(2) tid_in_ids [of s] by metis
  then show "tid s \<noteq> p" .
  have M: "look L1 n = (if n = tid s then Some (nd\<lparr>nd_parent := None\<rparr>) else if n = p then
      Some (split_node_of p (ctx_parent C) ax (map kid_entry (renormalized (ls @ rs)))) else look L n)" for n
    by (simp add: L1_def)
  have s1: "stored (look L1) None s"
    by (rule stored_reparented [OF st dist(1)]) (use nd dist(2) in \<open>auto simp: M\<close>)
  show "represents_pair L1 (plug C (TSplit p ax (renormalized (ls @ rs)))) s"
    by (rule detach_block [where L = L and ls = ls and ms = "[(s, w)]" and rs = rs and F = "{}"])
      (use rep rf(4) tp s1 dist D in \<open>auto simp: M L1_def\<close>)
  show "look L1 n = look L n" if "n \<notin> insert p (set (tree_ids s))" for n
    using that by (auto simp: M)
  show "ly_next L1 = ly_next L" by (simp add: L1_def)
qed


lemma extract_single:
  assumes rep: "represents L (plug C (TSplit p ax (ls @ [k] @ rs)))"
    and wf: "well_formed (plug C (TSplit p ax (ls @ [k] @ rs)))" and ne: "ls @ rs \<noteq> []"
    and sel: "sel_parent sel = Some p" "sel_nodes sel = [tid (fst k)]"
  defines "t \<equiv> plug C (TSplit p ax (ls @ [k] @ rs))"
  shows "\<exists>L1 t1. extract_selection sel L = Inr ((tid (fst k), p), L1)
    \<and> extraction L t (set (tree_ids (fst k))) (set (p # ctx_path C)) (tree_leaves (fst k))
        (leaves_before C @ concat (map (\<lambda>k. tree_leaves (fst k)) (ls @ rs)) @ leaves_after C) p L1 t1 (fst k)"
proof -
  note K = split_kids [OF rep]
  note rf = remaining_facts [OF wf ne]
  have "length ls < length (ls @ [k] @ rs)" "(ls @ [k] @ rs) ! length ls = k" by simp_all
  with K(3) [of "length ls"] obtain nd where nd: "look L (tid (fst k)) = Some nd" by auto
  have rep1: "represents L (plug C (TSplit p ax (ls @ (fst k, snd k) # rs)))"
    and wf1: "well_formed (plug C (TSplit p ax (ls @ (fst k, snd k) # rs)))"
    using rep wf by simp_all
  define L1 where "L1 = write_node (tid (fst k)) (nd\<lparr>nd_parent := None\<rparr>)
      (write_node p (split_node_of p (ctx_parent C) ax (map kid_entry (renormalized (ls @ rs)))) L)"
  note d1 = detach_one [OF rep1 wf1 ne nd, folded L1_def]
  have sf: "filter (\<lambda>c. selection_contains sel (sc_node c)) (map kid_entry (ls @ [k] @ rs)) = [kid_entry k]"
    "filter (\<lambda>c. \<not> selection_contains sel (sc_node c)) (map kid_entry (ls @ [k] @ rs)) = map kid_entry (ls @ rs)"
    using selected_filter [OF K(2), of sel] sel(2) by simp_all
  have len: "(Suc 0 = length (map kid_entry (ls @ k # rs))) = False" using ne by (cases ls; cases rs) simp_all
  have "extract_selection sel L = Inr ((tid (fst k), p), L1)"
    unfolding extract_selection_def using K(1) sf rf(5) sel nd d1(4)
    by (simp add: required_selection_parent_def layout_access Let_def len L1_def del: map_append length_map length_append)
  moreover have "alternates t \<longrightarrow> alternates (fst k)" unfolding t_def alternates_plug by simp
  ultimately show ?thesis
    using d1(1,2,3) rf(1,2,3,7) unfolding extraction_def t_def by auto
qed

lemma extract_group:
  assumes rep: "represents L (plug C (TSplit p ax (ls @ ms @ rs)))"
    and wf: "well_formed (plug C (TSplit p ax (ls @ ms @ rs)))" and ne: "ls @ rs \<noteq> []"
    and ms: "2 \<le> length ms" and room: "int (ly_next L) < UINT64_MAX"
    and sel: "sel_parent sel = Some p" "sel_nodes sel = map (\<lambda>k. tid (fst k)) ms"
  defines "t \<equiv> plug C (TSplit p ax (ls @ ms @ rs))" and "g \<equiv> ly_next L"
  shows "\<exists>L1 t1. extract_selection sel L = Inr ((g, p), L1)
    \<and> extraction L t (set (concat (map (\<lambda>k. tree_ids (fst k)) ms))) (set (p # ctx_path C))
        (concat (map (\<lambda>k. tree_leaves (fst k)) ms))
        (leaves_before C @ concat (map (\<lambda>k. tree_leaves (fst k)) (ls @ rs)) @ leaves_after C)
        p L1 t1 (TSplit g ax (renormalized ms))"
proof -
  note D = representsD [OF rep] and K = split_kids [OF rep] and rf = remaining_facts [OF wf ne]
  let ?ids = "\<lambda>ks. concat (map (\<lambda>k. tree_ids (fst k)) ks)"
  let ?tops = "map (\<lambda>k. tid (fst k)) ms"
  have msne: "ms \<noteq> []" and msnn: "\<forall>k \<in> set ms. 0 \<le> snd k" using ms rf(6) by (auto simp: ball_Un)
  note rn = renormalized_fields [OF msne msnn]
  have st: "\<forall>k \<in> set ms. stored (look L) (Some p) (fst k)" using D(1) by (simp add: tree_simps ball_Un)
  have dist: "distinct (ids_before C @ (p # ?ids ls @ ?ids ms @ ?ids rs) @ ids_after C)"
    using D(2) by (simp add: tree_simps)
  have g: "look L g = None" "g \<notin> set (tree_ids (plug C (TSplit p ax (ls @ ms @ rs))))"
    using fresh_id [OF rep] by (auto simp: g_def)
  then have gC: "g \<noteq> p" "g \<notin> set (?ids ms)" by (simp_all add: ids_plug)
  have pm: "p \<notin> set (?ids ms)" using dist by auto
  define L0 where "L0 = (write_node p (split_node_of p (ctx_parent C) ax (map kid_entry (renormalized (ls @ rs)))) L)
      \<lparr>ly_next := g + 1\<rparr>"
  have L0: "look L0 = (look L)(p \<mapsto> split_node_of p (ctx_parent C) ax (map kid_entry (renormalized (ls @ rs))))"
    "ly_root L0 = ly_root L" "ly_next L0 = g + 1" "smap_ok (ly_nodes L0)"
    using D(5) by (simp_all add: L0_def write_node_def smap_find_put smap_ok_put)
  have tops: "set ?tops \<subseteq> set (?ids ms)" using kid_tid_in_ids by force
  have present: "look L0 n \<noteq> None" if "n \<in> set ?tops" for n
  proof -
    from that obtain k where k: "k \<in> set ms" "n = tid (fst k)" by auto
    from stored_parent [of "look L" "Some p" "fst k"] st k show ?thesis by (auto simp: L0)
  qed
  obtain L2 where L2: "fold_result (set_parent (Some g)) ?tops L0 = Inr L2"
    "look L2 = (\<lambda>n. if n \<in> set ?tops then map_option (\<lambda>nd. nd\<lparr>nd_parent := Some g\<rparr>) (look L0 n) else look L0 n)"
    "ly_root L2 = ly_root L0" "ly_next L2 = ly_next L0" "smap_ok (ly_nodes L0) \<longrightarrow> smap_ok (ly_nodes L2)"
    by (rule set_parents_eq [of ?tops L0 "Some g"], erule present) (rule that; assumption)
  let ?src = "TSplit g ax (renormalized ms)"
  define L1 where "L1 = write_node g (split_node_of g None ax (map kid_entry (renormalized ms))) L2"
  have gt: "g \<notin> set ?tops" "p \<notin> set ?tops" using tops gC pm by auto
  have M: "look L1 n = (if n = g then Some (split_node_of g None ax (map kid_entry (renormalized ms)))
      else if n = p then Some (split_node_of p (ctx_parent C) ax (map kid_entry (renormalized (ls @ rs))))
      else if n \<in> set ?tops then map_option (\<lambda>nd. nd\<lparr>nd_parent := Some g\<rparr>) (look L n) else look L n)" for n
    using gt by (simp add: L1_def L2(2) L0(1))
  have sids: "tree_ids ?src = g # ?ids ms" using rn(1) [of tree_ids] by simp
  have "\<forall>k \<in> set ms. stored (look L1) (Some g) (fst k)"
  proof (rule kids_reparented)
    show "\<forall>k \<in> set ms. \<exists>p. stored (look L) p (fst k)" using st by blast
    show "distinct (?ids ms)" using dist by simp
    fix n assume "n \<in> set (?ids ms)"
    then have "n \<noteq> g" "n \<noteq> p" using gC pm by auto
    then show "look L1 n = (if n \<in> (\<lambda>k. tid (fst k)) ` set ms
        then map_option (\<lambda>nd. nd\<lparr>nd_parent := Some g\<rparr>) (look L n) else look L n)" by (simp add: M)
  qed
  then have "\<forall>k \<in> set (renormalized ms). stored (look L1) (Some g) (fst k)" using rn(2) by blast
  then have s1: "stored (look L1) None ?src" by (simp add: M)
  have pair: "represents_pair L1 (plug C (TSplit p ax (renormalized (ls @ rs)))) ?src"
  proof (rule detach_block [where L = L and ls = ls and ms = ms and rs = rs and F = "{g}"])
    show "set (tree_ids ?src) = set (?ids ms) \<union> {g}" unfolding sids by auto
    show "distinct (tree_ids ?src)" unfolding sids using dist gC by simp
    show "look L1 n = look L n" if "n \<noteq> p" "n \<notin> set (tree_ids ?src)" for n
      using that tops unfolding sids by (auto simp: M)
    show "look L n = None \<and> 0 < n \<and> n < ly_next L1" if "n \<in> {g}" for n
      using that g(1) D(7) L2(4) L0(3) by (simp add: L1_def g_def)
    show "look L1 p = Some (split_node_of p (ctx_parent C) ax (map kid_entry (renormalized (ls @ rs))))"
      using gC(1) by (simp add: M)
    show "set (?ids ms) \<inter> {g} = {}" using gC(2) by simp
  qed (use rep rf(4) s1 L2(3,4,5) L0(2,3,4) room in \<open>simp_all add: L1_def g_def\<close>)
  note sf = selected_filter [OF K(2) sel(2)]
  have len: "(length ms = length (ls @ ms @ rs)) = False" "(length ms = Suc 0) = False"
    using ne ms by (cases ls; cases rs; simp)+
  have alloc: "allocate_node_id (write_node p (split_node_of p (ctx_parent C) ax (map kid_entry (renormalized (ls @ rs)))) L)
      = Inr (g, L0)"
    using allocate_eq [of "write_node p (split_node_of p (ctx_parent C) ax (map kid_entry (renormalized (ls @ rs)))) L"]
      D(7) room by (simp add: g_def L0_def)
  have lg: "look L2 g = None" using g(1) gC gt by (simp add: L2(2) L0(1))
  have emp: "emplace_node (split_node_of g None ax (map kid_entry (renormalized ms))) L2 = L1"
    unfolding L1_def using emplace_node_eq [of L2 "split_node_of g None ax (map kid_entry (renormalized ms))"] lg by simp
  have tk: "map sc_node (map kid_entry (renormalized ms)) = ?tops" using rn(1) [of tid] by (simp add: comp_def)
  have "extract_selection sel L = Inr ((g, p), L1)"
    unfolding extract_selection_def
    using K(1) sf rf(5) sel normalize_percentages_eq [OF msne msnn] alloc L2(1) emp tk
    by (simp add: required_selection_parent_def layout_access Let_def len del: map_append length_append map_map)
  moreover have "well_formed ?src" using rn(2) [of well_formed] rn(3,4) ms rf(7) by simp
  moreover have "alternates t \<longrightarrow> alternates ?src"
  proof
    assume "alternates t"
    then have "\<forall>k \<in> set ms. top_axis (fst k) \<noteq> Some ax \<and> alternates (fst k)"
      unfolding t_def alternates_plug by (simp add: ball_Un)
    then show "alternates ?src" using rn(2) [of "\<lambda>t. top_axis t \<noteq> Some ax \<and> alternates t"] by simp
  qed
  moreover have "tree_leaves ?src = concat (map (\<lambda>k. tree_leaves (fst k)) ms)"
    using rn(1) [of tree_leaves] by simp
  moreover have "\<forall>n. n \<notin> insert p (set (tree_ids ?src)) \<longrightarrow> look L1 n = look L n"
    using tops unfolding sids by (auto simp: M)
  moreover have "set (tree_ids ?src) \<subseteq> set (?ids ms) \<union> set (p # ctx_path C) \<union> {n. look L n = None}"
    using g(1) unfolding sids by auto
  moreover have "ly_next L1 \<le> ly_next L + 1" using L2(4) L0(3) by (simp add: L1_def g_def)
  ultimately show ?thesis using pair rf(1,2,3) unfolding extraction_def t_def by auto
qed


lemma extract_whole:
  assumes rep: "represents L (plug (Frame g axg ls w rs # C) (TSplit p ax ms))"
    and wf: "well_formed (plug (Frame g axg ls w rs # C) (TSplit p ax ms))"
    and sel: "sel_parent sel = Some p" "length (sel_nodes sel) = length ms"
  defines "t \<equiv> plug (Frame g axg ls w rs # C) (TSplit p ax ms)"
  shows "\<exists>L1 t1. extract_selection sel L = Inr ((p, g), L1)
    \<and> extraction L t (set (concat (map (\<lambda>k. tree_ids (fst k)) ms)))
        (set (p # ctx_path (Frame g axg ls w rs # C)))
        (concat (map (\<lambda>k. tree_leaves (fst k)) ms))
        (leaves_before (Frame g axg ls w rs # C) @ leaves_after (Frame g axg ls w rs # C))
        g L1 t1 (TSplit p ax ms)"
proof -
  let ?s = "TSplit p ax ms"
  have rep1: "represents L (plug C (TSplit g axg (ls @ (?s, w) # rs)))"
    and wf1: "well_formed (plug C (TSplit g axg (ls @ (?s, w) # rs)))"
    using rep wf by simp_all
  then have wf2: "well_formed (plug C (TSplit g axg (ls @ [(?s, w)] @ rs)))" by simp
  have cwf: "ctx_well_formed (Frame g axg ls w rs # C)" "well_formed ?s"
    using wf unfolding well_formed_plug by blast+
  then have ne: "ls @ rs \<noteq> []" by simp
  note K = split_kids [OF rep1] and rf = remaining_facts [OF wf2 ne]
  from representsD(1) [OF rep] have look: "look L p = Some (split_node_of p (Some g) ax (map kid_entry ms))"
    by (simp add: stored_plug del: plug.simps)
  then have nd: "look L (tid ?s) = Some (split_node_of p (Some g) ax (map kid_entry ms))" by simp
  define L1 where "L1 = write_node p (split_node_of p None ax (map kid_entry ms))
      (write_node g (split_node_of g (ctx_parent C) axg (map kid_entry (renormalized (ls @ rs)))) L)"
  have d1: "represents_pair L1 (plug C (TSplit g axg (renormalized (ls @ rs)))) ?s"
    "\<And>n. n \<notin> insert g (set (tree_ids ?s)) \<Longrightarrow> look L1 n = look L n" "ly_next L1 = ly_next L" "p \<noteq> g"
    using detach_one [OF rep1 wf1 ne nd] unfolding L1_def by simp_all
  have i: "length ls < length (ls @ (?s, w) # rs)" by simp
  have pos: "child_position (map kid_entry ls @ \<lparr>sc_node = p, sc_pct = w\<rparr> # map kid_entry rs) p = Some (length ls)"
    using child_position_nth [OF K(2) i] by (simp add: kid_entry_def)
  have "detach_child g p L = Inr (write_node g (split_node_of g (ctx_parent C) axg (map kid_entry (renormalized (ls @ rs)))) L)"
    using K(1) pos rf(5) by (simp add: detach_child_def layout_access kid_entry_def)
  then have "extract_selection sel L = Inr ((p, g), L1)"
    unfolding extract_selection_def using look sel d1(4)
    by (simp add: required_selection_parent_def layout_access L1_def)
  moreover have "alternates t \<longrightarrow> alternates ?s" unfolding t_def alternates_plug by simp
  moreover have "tree_leaves (plug C (TSplit g axg (renormalized (ls @ rs))))
      = leaves_before (Frame g axg ls w rs # C) @ leaves_after (Frame g axg ls w rs # C)"
    unfolding rf(2) by simp
  moreover have "alternates t \<longrightarrow> alternates (plug C (TSplit g axg (renormalized (ls @ rs))))"
    using rf(3) unfolding t_def by simp
  ultimately show ?thesis
    using d1(1,2,3) rf(1) cwf(2) unfolding extraction_def by (intro exI conjI) auto
qed

lemma extract_block:
  assumes rep: "represents L t" and wf: "well_formed t" and t: "t = plug C (TSplit p ax (ls @ ms @ rs))"
    and sel: "sel_parent sel = Some p" "sel_nodes sel = map (\<lambda>k. tid (fst k)) ms" "ms \<noteq> []"
    and proper: "C \<noteq> [] \<or> ls @ rs \<noteq> []" and room: "int (ly_next L) < UINT64_MAX"
  shows "\<exists>src c L1 t1. extract_selection sel L = Inr ((tid src, c), L1)
    \<and> extraction L t (set (concat (map (\<lambda>k. tree_ids (fst k)) ms))) (set (p # ctx_path C))
        (concat (map (\<lambda>k. tree_leaves (fst k)) ms))
        (leaves_before C @ concat (map (\<lambda>k. tree_leaves (fst k)) (ls @ rs)) @ leaves_after C) c L1 t1 src"
proof (cases "ls @ rs = []")
  case True
  with proper obtain g axg ls' w rs' C' where C: "C = Frame g axg ls' w rs' # C'"
    by (cases C rule: ctx_parent.cases) auto
  have t': "t = plug (Frame g axg ls' w rs' # C') (TSplit p ax ms)" using t C True by simp
  have "length (sel_nodes sel) = length ms" using sel(2) by simp
  from extract_whole [OF rep [unfolded t'] wf [unfolded t'] sel(1) this]
  obtain L1 t1 where "extract_selection sel L = Inr ((p, g), L1)"
    "extraction L t (set (concat (map (\<lambda>k. tree_ids (fst k)) ms))) (set (p # ctx_path C))
      (concat (map (\<lambda>k. tree_leaves (fst k)) ms)) (leaves_before C @ leaves_after C) g L1 t1 (TSplit p ax ms)"
    unfolding C t' by blast
  then show ?thesis using True by (intro exI [of _ "TSplit p ax ms"] exI [of _ g]) auto
next
  case False
  show ?thesis
  proof (cases "2 \<le> length ms")
    case True
    from extract_group [OF rep [unfolded t] wf [unfolded t] False True room sel(1,2)] show ?thesis
      unfolding t by (metis tid.simps(2))
  next
    case one: False
    then obtain k where k: "ms = [k]" using sel(3) by (cases ms; cases "tl ms") auto
    have "sel_nodes sel = [tid (fst k)]" using sel(2) k by simp
    from extract_single [OF rep [unfolded t k] wf [unfolded t k] False sel(1) this] show ?thesis
      unfolding t k by auto
  qed
qed

end
