(* ===== verification/Pane_Insert.thy ===== *)
theory Pane_Insert
  imports Pane_Extract
begin

text \<open>
  The second step of a move: the detached source is put beside the target, inside the target's
  split when the axes agree and otherwise in a new split around the target. A source split of
  the placement's axis is spliced in child by child.
\<close>

section \<open>Splicing the source\<close>

lemma move_required_percentage_ok [simp]:
  "0 \<le> x \<Longrightarrow> x \<le> 100 \<Longrightarrow> move_required_percentage x = Inr x"
  by (simp add: move_required_percentage_def percentage_from_int_def MIN_VALUE_def MAX_VALUE_def)

lemma assign_percentages_ok:
  assumes "length r = length ks" "\<forall>x \<in> set r. 0 \<le> x \<and> x \<le> 100"
  shows "assign_percentages (map kid_entry ks) r = Inr (map kid_entry (reweigh ks r))"
proof -
  have "map_result (\<lambda>(c, p). and_then (move_required_percentage p) (\<lambda>q. Inr (c\<lparr>sc_pct := q\<rparr>)))
      (zip (map kid_entry ks) r) = Inr (map kid_entry (reweigh ks r))"
    using assms by (induction ks r rule: list_induct2') (auto simp: reweigh_def kid_entry_def)
  then show ?thesis using assms(1) by (simp add: assign_percentages_def)
qed

lemma flatten_source_eq:
  assumes "stored (look L) p src" "well_formed src" "0 \<le> share" "share \<le> 100"
  shows "flatten_source_for_axis (tid src) axis share L =
    Inr (map kid_entry (flatten_kid axis (src, share)),
         if top_axis src = Some axis then erase_node (tid src) L else L)"
proof (cases "top_axis src = Some axis")
  case True
  then obtain c ks where s: "src = TSplit c axis ks" by (cases src) auto
  with assms have ok: "kids_ok ks" by simp
  obtain r where r: "distribute_pane_percentage_total (map snd ks) share = Inr r" "length r = length ks"
    "promote ks share = reweigh ks r" "sum_list r = share" "\<forall>x \<in> set r. 0 \<le> x \<and> x \<le> 100"
    by (rule promote_shares [OF ok assms(3,4)]) (rule that; assumption)
  show ?thesis using assms(1) r(1,3) assign_percentages_ok [OF r(2,5)] s
    by (simp add: flatten_source_for_axis_def layout_access percentage_values_def comp_def)
next
  case False
  then show ?thesis using assms
    by (cases src) (auto simp: flatten_source_for_axis_def layout_access kid_entry_def)
qed

text \<open>
  Hanging a detached tree's pieces under a node \<open>q\<close>: the layout after the source's top has been
  erased (when it is spliced) and the pieces have got their parent.
\<close>

definition spliced_ids :: "pane_split_axis \<Rightarrow> ptree \<Rightarrow> node_id set" where
  "spliced_ids axis src = (if top_axis src = Some axis then {tid src} else {})"

lemma pieces_facts:
  fixes src :: ptree and share :: int and axis
  defines "ps \<equiv> flatten_kid axis (src, share)"
  assumes "well_formed src" "0 \<le> share" "share \<le> 100"
  shows "concat (map (\<lambda>k. tree_leaves (fst k)) ps) = tree_leaves src" "sum_list (map snd ps) = share"
    "set (tree_ids src) = spliced_ids axis src \<union> set (concat (map (\<lambda>k. tree_ids (fst k)) ps))"
    "distinct (tree_ids src) \<Longrightarrow> distinct (concat (map (\<lambda>k. tree_ids (fst k)) ps))"
    "distinct (tree_ids src) \<Longrightarrow> spliced_ids axis src \<inter> set (concat (map (\<lambda>k. tree_ids (fst k)) ps)) = {}"
    "\<forall>k \<in> set ps. 0 \<le> snd k \<and> well_formed (fst k)" "ps \<noteq> []"
    "alternates src \<Longrightarrow> \<forall>k \<in> set ps. top_axis (fst k) \<noteq> Some axis \<and> alternates (fst k)"
proof -
  note F = flatten_kid_facts [of "(src, share)" axis, unfolded fst_conv snd_conv, OF assms(3,4,2), folded ps_def]
  have ids: "tree_ids src = (if top_axis src = Some axis then [tid src] else [])
     @ concat (map (\<lambda>k. tree_ids (fst k)) ps)" using F by blast
  show "concat (map (\<lambda>k. tree_leaves (fst k)) ps) = tree_leaves src" "sum_list (map snd ps) = share"
    "\<forall>k \<in> set ps. 0 \<le> snd k \<and> well_formed (fst k)" "ps \<noteq> []"
    "alternates src \<Longrightarrow> \<forall>k \<in> set ps. top_axis (fst k) \<noteq> Some axis \<and> alternates (fst k)"
    using F by blast+
  show "set (tree_ids src) = spliced_ids axis src \<union> set (concat (map (\<lambda>k. tree_ids (fst k)) ps))"
    by (subst ids) (simp add: spliced_ids_def)
  assume "distinct (tree_ids src)"
  then have d: "distinct ((if top_axis src = Some axis then [tid src] else [])
     @ concat (map (\<lambda>k. tree_ids (fst k)) ps))" using ids by simp
  then show "distinct (concat (map (\<lambda>k. tree_ids (fst k)) ps))"
    "spliced_ids axis src \<inter> set (concat (map (\<lambda>k. tree_ids (fst k)) ps)) = {}"
    by (auto simp: spliced_ids_def)
qed

lemma pieces_stored:
  assumes st: "stored M p src" and wf: "well_formed src" and share: "0 \<le> share" "share \<le> 100"
    and dist: "distinct (tree_ids src)"
    and M': "\<And>n. n \<in> set (concat (map (\<lambda>k. tree_ids (fst k)) (flatten_kid axis (src, share)))) \<Longrightarrow>
      M' n = (if n \<in> (\<lambda>k. tid (fst k)) ` set (flatten_kid axis (src, share))
              then map_option (\<lambda>nd. nd\<lparr>nd_parent := q\<rparr>) (M n) else M n)"
  shows "\<forall>k \<in> set (flatten_kid axis (src, share)). stored M' q (fst k)"
proof (rule kids_reparented)
  show "\<forall>k \<in> set (flatten_kid axis (src, share)). \<exists>p. stored M p (fst k)"
    using flatten_kid_stored [of M p "(src, share)" axis] assms by simp
  show "distinct (concat (map (\<lambda>k. tree_ids (fst k)) (flatten_kid axis (src, share))))"
    by (rule pieces_facts(4) [OF wf share dist])
qed (use M' in blast)

text \<open>The layout with the source's pieces as parentless entries of the map.\<close>

lemma pieces_present:
  assumes "stored (look L) p src" "well_formed src" "0 \<le> share" "share \<le> 100"
    and "n \<in> set (map (\<lambda>k. tid (fst k)) (flatten_kid axis (src, share)))"
  shows "look L n \<noteq> None"
proof -
  from assms(5) obtain k where k: "k \<in> set (flatten_kid axis (src, share))" "n = tid (fst k)" by auto
  from flatten_kid_stored [of "look L" p "(src, share)" axis] assms k(1) obtain p'
    where "stored (look L) p' (fst k)" by auto
  from stored_parent [OF this] k(2) show ?thesis by auto
qed

lemma move_child_index_hole [layout_access]:
  "h \<notin> (\<lambda>k. tid (fst k)) ` set ls \<Longrightarrow>
   move_child_index \<lparr>sp_axis = ax, sp_children = map kid_entry ls @ \<lparr>sc_node = h, sc_pct = w\<rparr> # cs\<rparr> h
     = Inr (length ls)"
  using child_position_append [of h "map kid_entry ls" w cs] by (auto simp: move_child_index_def image_image)

section \<open>Insertion into the target's split\<close>

definition beside_pieces ::
  "pane_split_axis \<Rightarrow> pane_insertion \<Rightarrow> ptree \<Rightarrow> ptree \<Rightarrow> int \<Rightarrow> (ptree \<times> int) list" where
  "beside_pieces axis insertion src target w =
     (if insertion = BEFORE then flatten_kid axis (src, (w + 1) div 2) @ [(target, w div 2)]
      else (target, (w + 1) div 2) # flatten_kid axis (src, w div 2))"

lemma distinct_splice:
  "distinct (a @ (q # b @ c @ d) @ e @ s) \<Longrightarrow> distinct p \<Longrightarrow> set p \<subseteq> set s \<Longrightarrow>
   distinct (a @ q # b @ c @ p @ d @ e)"
  by auto

lemma insert_into_matching_split_eq:
  assumes pair: "represents_pair L (plug (Frame q axis ls w rs # E) u) src"
    and wf: "well_formed src" and w: "0 \<le> w" "w \<le> 100"
  shows "\<exists>L'. insert_into_matching_split (tid src) (tid u) q ins L = Inr L' \<and> ly_next L' = ly_next L
     \<and> represents L' (plug E (TSplit q axis (ls @ beside_pieces axis ins src u w @ rs)))"
proof -
  note D = represents_pairD [OF pair]
  let ?ids = "\<lambda>ks. concat (map (\<lambda>k. tree_ids (fst k)) ks)"
  define share where "share = (if ins = BEFORE then (w + 1) div 2 else w div 2)"
  define keep where "keep = (if ins = BEFORE then w div 2 else (w + 1) div 2)"
  have sh: "0 \<le> share" "share \<le> 100" "0 \<le> keep" "keep \<le> 100" using w by (auto simp: share_def keep_def)
  let ?ps = "flatten_kid axis (src, share)"
  let ?kids = "ls @ beside_pieces axis ins src u w @ rs"
  let ?t' = "plug E (TSplit q axis ?kids)"
  have bp: "beside_pieces axis ins src u w = (if ins = BEFORE then ?ps @ [(u, keep)] else (u, keep) # ?ps)"
    by (simp add: beside_pieces_def share_def keep_def)
  from D(1) have st: "stored (look L) (Some q) u"
    "look L q = Some (split_node_of q (ctx_parent E) axis
        (map kid_entry ls @ \<lparr>sc_node = tid u, sc_pct = w\<rparr> # map kid_entry rs))"
    "\<forall>k \<in> set (ls @ rs). stored (look L) (Some q) (fst k)" "ctx_stored (look L) E q"
    by (auto simp: tree_simps kid_entry_def)
  have dist: "distinct (ids_before E @ (q # ?ids ls @ tree_ids u @ ?ids rs) @ ids_after E @ tree_ids src)"
    using D(3) by (simp add: tree_simps)
  have ds: "distinct (tree_ids src)" using dist by simp
  note pf = pieces_facts [OF wf sh(1,2), of axis]
  note er = pf(5) [OF ds]
  let ?tops = "map (\<lambda>k. tid (fst k)) ?ps"
  have tops: "set ?tops \<subseteq> set (?ids ?ps)" using kid_tid_in_ids by fastforce
  have hole: "tid u \<notin> (\<lambda>k. tid (fst k)) ` set ls"
    by (rule hole_not_sibling) (use dist in auto)
  define L1 where "L1 = (if top_axis src = Some axis then erase_node (tid src) L else L)"
  have fs: "flatten_source_for_axis (tid src) axis share L = Inr (map kid_entry ?ps, L1)"
    unfolding L1_def by (rule flatten_source_eq [OF D(2) wf sh(1,2)])
  have L1: "look L1 n = (if n \<in> spliced_ids axis src then None else look L n)" for n
    by (simp add: L1_def spliced_ids_def)
  have L1f: "ly_root L1 = ly_root L" "ly_next L1 = ly_next L" "smap_ok (ly_nodes L1)"
    using D(6) by (simp_all add: L1_def)
  have qs: "q \<notin> set (tree_ids src)" "set (?ids ?ps) \<subseteq> set (tree_ids src)" "spliced_ids axis src \<subseteq> set (tree_ids src)"
  proof -
    show "q \<notin> set (tree_ids src)" using dist by auto
  qed (use pf(3) in blast)+
  define L2 where "L2 = write_node q (split_node_of q (ctx_parent E) axis (map kid_entry ?kids)) L1"
  have present: "look L2 n \<noteq> None" if n: "n \<in> set ?tops" for n
  proof -
    have "n \<notin> spliced_ids axis src" using er n tops by blast
    then show ?thesis using pieces_present [OF D(2) wf sh(1,2) n] by (simp add: L2_def L1)
  qed
  obtain L' where L': "fold_result (set_parent (Some q)) ?tops L2 = Inr L'"
    "look L' = (\<lambda>n. if n \<in> set ?tops then map_option (\<lambda>nd. nd\<lparr>nd_parent := Some q\<rparr>) (look L2 n) else look L2 n)"
    "ly_root L' = ly_root L2" "ly_next L' = ly_next L2" "smap_ok (ly_nodes L2) \<longrightarrow> smap_ok (ly_nodes L')"
    by (rule set_parents_eq [of ?tops L2 "Some q"], erule present) (rule that; assumption)
  have M: "look L' n = (if n = q then Some (split_node_of q (ctx_parent E) axis (map kid_entry ?kids))
      else if n \<in> spliced_ids axis src then None
      else if n \<in> set ?tops then map_option (\<lambda>nd. nd\<lparr>nd_parent := Some q\<rparr>) (look L n) else look L n)" for n
  proof -
    have "q \<notin> set ?tops" using qs tops by blast
    then show ?thesis by (simp add: L'(2) L2_def L1)
  qed
  have out: "look L' n = look L n" if "n \<noteq> q" "n \<notin> set (tree_ids src)" for n
    using that qs tops by (auto simp: M)
  have kids: "map kid_entry ?kids = (if ins = BEFORE
      then map kid_entry ls @ map kid_entry ?ps @ \<lparr>sc_node = tid u, sc_pct = keep\<rparr> # map kid_entry rs
      else map kid_entry ls @ \<lparr>sc_node = tid u, sc_pct = keep\<rparr> # map kid_entry ?ps @ map kid_entry rs)"
    by (simp add: bp kid_entry_def)
  have at1: "look L1 q = look L q" using qs by (auto simp: L1)
  have ins: "insert_into_matching_split (tid src) (tid u) q ins L = Inr L'"
  proof -
    have tk: "map sc_node (map kid_entry ?ps) = ?tops" by simp
    have put: "put_split q \<lparr>sp_axis = axis, sp_children = map kid_entry ?kids\<rparr> L1 = Inr L2"
      unfolding L2_def using at1 st(2) by (simp add: put_split_eq)
    show ?thesis
      using st(2) fs sh put L'(1) tk hole kids
      by (cases "ins = BEFORE")
        (simp_all add: insert_into_matching_split_def layout_access Let_def share_def keep_def
          del: map_map map_append)
  qed
  have "represents L' ?t'"
  proof (rule representsI)
    have sideq: "stored (look L') (Some q) (fst k)" if k: "k \<in> set (ls @ rs)" for k
    proof -
      have "stored (look L') (Some q) (fst k) = stored (look L) (Some q) (fst k)"
      proof (rule stored_cong, rule out)
        fix n assume n: "n \<in> set (tree_ids (fst k))"
        then have "n \<in> set (?ids ls) \<union> set (?ids rs)" using k by auto
        then show "n \<noteq> q" "n \<notin> set (tree_ids src)" using dist by auto
      qed
      then show ?thesis using st(3) k by blast
    qed
    have "stored (look L') (Some q) u = stored (look L) (Some q) u"
      by (rule stored_cong, rule out) (use dist in auto)
    moreover have "\<forall>k \<in> set ?ps. stored (look L') (Some q) (fst k)"
    proof (rule pieces_stored [OF D(2) wf sh(1,2) ds])
      fix n assume n: "n \<in> set (?ids ?ps)"
      then have "n \<noteq> q" "n \<notin> spliced_ids axis src" using er qs by auto
      then show "look L' n = (if n \<in> (\<lambda>k. tid (fst k)) ` set ?ps
          then map_option (\<lambda>nd. nd\<lparr>nd_parent := Some q\<rparr>) (look L n) else look L n)" by (simp add: M)
    qed
    ultimately have "\<forall>k \<in> set ?kids. stored (look L') (Some q) (fst k)"
      using st(1) sideq by (simp add: bp ball_Un)
    moreover have "ctx_stored (look L') E q = ctx_stored (look L) E q"
      by (rule ctx_stored_cong, rule out) (use dist in auto)
    ultimately show "stored (look L') None ?t'" using st(4) by (simp add: stored_plug M)
    have ms: "mset (tree_ids ?t') = mset (ids_before E @ q # ?ids ls @ tree_ids u @ ?ids ?ps @ ?ids rs @ ids_after E)"
      by (simp add: ids_plug bp)
    have "distinct (ids_before E @ q # ?ids ls @ tree_ids u @ ?ids ?ps @ ?ids rs @ ids_after E)"
      by (rule distinct_splice [OF dist pf(4) [OF ds] qs(2)])
    then show "distinct (tree_ids ?t')" using ms by (metis mset_eq_imp_distinct_iff)
    have sids: "set (tree_ids ?t') = set (tree_ids (plug (Frame q axis ls w rs # E) u)) \<union> set (?ids ?ps)"
      unfolding mset_eq_setD [OF ms] by (auto simp: ids_plug)
    show "dom (look L') = set (tree_ids ?t')"
    proof -
      have "dom (look L') = dom (look L) - spliced_ids axis src"
      proof (rule set_eqI)
        fix n
        have "q \<notin> spliced_ids axis src" using qs by blast
        then show "n \<in> dom (look L') \<longleftrightarrow> n \<in> dom (look L) - spliced_ids axis src"
          using st(2) by (cases "look L n") (auto simp: M domIff)
      qed
      also have "\<dots> = (set (tree_ids (plug (Frame q axis ls w rs # E) u)) \<union> set (tree_ids src)) - spliced_ids axis src"
        unfolding D(4) ..
      also have "\<dots> = set (tree_ids ?t')" unfolding sids using D(3) er pf(3) by auto
      finally show ?thesis .
    qed
    show "ly_root L' = tid ?t'"
      using D(5) L'(3) L1f(1) tid_plug_same [of "TSplit q axis ?kids" "TSplit q axis (ls @ (u, w) # rs)" E]
      by (simp add: L2_def)
    show "smap_ok (ly_nodes L')" using L'(5) L1f(3) by (simp add: L2_def)
    show "0 < n \<and> n < ly_next L'" if "n \<in> set (tree_ids ?t')" for n
    proof -
      have "n \<in> set (tree_ids (plug (Frame q axis ls w rs # E) u)) \<union> set (tree_ids src)"
        using that qs(2) unfolding sids by blast
      from D(7) [OF this] show ?thesis using L'(4) L1f(2) by (simp add: L2_def)
    qed
  qed (use D L'(4) L1f in \<open>simp_all add: L2_def\<close>)
  moreover have "ly_next L' = ly_next L" using L'(4) L1f(2) by (simp add: L2_def)
  ultimately show ?thesis using ins by blast
qed


section \<open>Wrapping the target\<close>

definition wrap_pieces :: "pane_split_axis \<Rightarrow> pane_insertion \<Rightarrow> ptree \<Rightarrow> ptree \<Rightarrow> (ptree \<times> int) list" where
  "wrap_pieces axis insertion src target =
     (if insertion = BEFORE then flatten_kid axis (src, 50) @ [(target, 50)]
      else (target, 50) # flatten_kid axis (src, 50))"

text \<open>The frame that holds the hole, with another node in it.\<close>

fun rehole :: "ctx \<Rightarrow> node_id \<Rightarrow> (node_id \<rightharpoonup> pane_layout_node) \<Rightarrow> (node_id \<rightharpoonup> pane_layout_node)" where
  "rehole [] h M = M"
| "rehole (Frame p ax ls w rs # C) h M = M(p \<mapsto> split_node_of p (ctx_parent C) ax
     (map kid_entry ls @ \<lparr>sc_node = h, sc_pct = w\<rparr> # map kid_entry rs))"

lemma rehole_other: "ctx_parent C \<noteq> Some n \<Longrightarrow> rehole C h M n = M n"
  by (cases "(C, h, M)" rule: rehole.cases) auto

lemma rehole_dom: "ctx_stored M C h \<Longrightarrow> dom (rehole C h' M') = dom M' \<union> set_option (ctx_parent C)"
  by (cases "(C, h', M')" rule: rehole.cases) auto

lemma ctx_stored_rehole_ctx:
  assumes "ctx_stored M C h" "distinct (ids_before C @ ids_after C)"
    and "\<And>n. n \<in> set (ids_before C) \<union> set (ids_after C) \<Longrightarrow> M' n = rehole C h' M n"
  shows "ctx_stored M' C h'"
proof (cases C rule: ctx_parent.cases)
  case (2 p ax ls w rs C')
  show ?thesis unfolding 2
  proof (rule ctx_stored_rehole)
    show "ctx_stored M (Frame p ax ls w rs # C') h"
      "distinct (ids_before (Frame p ax ls w rs # C') @ ids_after (Frame p ax ls w rs # C'))"
      using assms(1,2) 2 by simp_all
    show "M' n = M n"
      if "n \<in> set (ids_before (Frame p ax ls w rs # C')) \<union> set (ids_after (Frame p ax ls w rs # C'))" "n \<noteq> p" for n
      using assms(3) [of n] that 2 by auto
    show "M' p = Some (split_node_of p (ctx_parent C') ax
        (map kid_entry ls @ \<lparr>sc_node = h', sc_pct = w\<rparr> # map kid_entry rs))"
      using assms(3) [of p] 2 by simp
  qed
qed simp

lemma parent_in_ids: "set_option (ctx_parent C) \<subseteq> set (ids_before C)"
  by (cases C rule: ctx_parent.cases) auto

lemma distinct_wrap:
  "distinct (a @ u @ e @ s) \<Longrightarrow> distinct p \<Longrightarrow> set p \<subseteq> set s \<Longrightarrow> m \<notin> set (a @ u @ e @ s) \<Longrightarrow>
   distinct (a @ (m # u @ p) @ e)"
  by auto

lemma relink_parent:
  assumes "ctx_stored (look L) E h" "h \<notin> set (ids_before E)" "smap_ok (ly_nodes L)"
  shows "\<exists>L3. (case ctx_parent E of
         Some p \<Rightarrow>
           and_then (at_split L p) (\<lambda>parent_split.
           and_then (move_child_index parent_split h) (\<lambda>i.
           put_split p (parent_split\<lparr>sp_children := (sp_children parent_split)
             [i := (sp_children parent_split ! i)\<lparr>sc_node := m\<rparr>]\<rparr>) L))
       | None \<Rightarrow> Inr (L\<lparr>ly_root := m\<rparr>)) = Inr L3
     \<and> look L3 = rehole E m (look L) \<and> ly_root L3 = (if E = [] then m else ly_root L)
     \<and> ly_next L3 = ly_next L \<and> smap_ok (ly_nodes L3)"
proof (cases E rule: ctx_parent.cases)
  case 1
  then show ?thesis using assms(3) by simp
next
  case (2 p ax ls w rs E')
  note h = hole_entry [OF assms(1) [unfolded 2] assms(2) [unfolded 2]]
  show ?thesis using h assms(3) unfolding 2
    by (simp add: layout_access smap_find_put write_node_def smap_ok_put)
qed

lemma wrap_target_eq:
  assumes pair: "represents_pair L (plug E u) src" and wf: "well_formed src"
    and room: "int (ly_next L) < UINT64_MAX"
  defines "m \<equiv> ly_next L"
  shows "\<exists>L'. wrap_target (tid src) (tid u) (ctx_parent E) \<lparr>dp_axis = axis, dp_insertion = ins\<rparr> L = Inr L'
     \<and> represents L' (plug E (TSplit m axis (wrap_pieces axis ins src u)))"
proof -
  note D = represents_pairD [OF pair]
  let ?ids = "\<lambda>ks. concat (map (\<lambda>k. tree_ids (fst k)) ks)"
  let ?ps = "flatten_kid axis (src, 50)"
  let ?kids = "wrap_pieces axis ins src u"
  let ?t' = "plug E (TSplit m axis ?kids)"
  have sh: "(0::int) \<le> 50" "(50::int) \<le> 100" by simp_all
  from D(1) have st: "stored (look L) (ctx_parent E) u" "ctx_stored (look L) E (tid u)"
    by (simp_all add: tree_simps)
  have dist: "distinct (ids_before E @ tree_ids u @ ids_after E @ tree_ids src)"
    using D(3) by (simp add: tree_simps)
  have ds: "distinct (tree_ids src)" using dist by simp
  note pf = pieces_facts [OF wf sh, of axis]
  note er = pf(5) [OF ds]
  let ?tops = "map (\<lambda>k. tid (fst k)) ?ps"
  have tops: "set ?tops \<subseteq> set (?ids ?ps)" using kid_tid_in_ids by fastforce
  have sub: "set (?ids ?ps) \<subseteq> set (tree_ids src)" "spliced_ids axis src \<subseteq> set (tree_ids src)"
    using pf(3) by blast+
  have lookm: "look L m = None" using D(4,7) by (metis Un_iff domIff m_def order_less_irrefl)
  then have m: "m \<notin> set (ids_before E @ tree_ids u @ ids_after E @ tree_ids src)"
    using D(4) by (auto simp: ids_plug domIff)
  have par: "set_option (ctx_parent E) \<subseteq> set (ids_before E)" by (rule parent_in_ids)
  define L1 where "L1 = L\<lparr>ly_next := m + 1\<rparr>"
  define L2 where "L2 = (if top_axis src = Some axis then erase_node (tid src) L1 else L1)"
  have fs: "flatten_source_for_axis (tid src) axis 50 L1 = Inr (map kid_entry ?ps, L2)"
    unfolding L2_def by (rule flatten_source_eq [OF _ wf sh]) (use D(2) in \<open>simp add: L1_def\<close>)
  have L2: "look L2 n = (if n \<in> spliced_ids axis src then None else look L n)" for n
    by (simp add: L2_def L1_def spliced_ids_def)
  have L2f: "ly_root L2 = ly_root L" "ly_next L2 = m + 1" "smap_ok (ly_nodes L2)"
    using D(6) by (simp_all add: L2_def L1_def)
  have c2: "ctx_stored (look L2) E (tid u)"
  proof -
    have "ctx_stored (look L2) E (tid u) = ctx_stored (look L) E (tid u)"
      by (rule ctx_stored_cong) (use dist sub(2) in \<open>auto simp: L2\<close>)
    then show ?thesis using st(2) by simp
  qed
  have hole: "tid u \<notin> set (ids_before E)" using dist tid_in_ids [of u] by auto
  obtain L3 where L3: "(case ctx_parent E of
         Some p \<Rightarrow>
           and_then (at_split L2 p) (\<lambda>parent_split.
           and_then (move_child_index parent_split (tid u)) (\<lambda>i.
           put_split p (parent_split\<lparr>sp_children := (sp_children parent_split)
             [i := (sp_children parent_split ! i)\<lparr>sc_node := m\<rparr>]\<rparr>) L2))
       | None \<Rightarrow> Inr (L2\<lparr>ly_root := m\<rparr>)) = Inr L3"
     "look L3 = rehole E m (look L2)" "ly_root L3 = (if E = [] then m else ly_root L2)"
     "ly_next L3 = ly_next L2" "smap_ok (ly_nodes L3)"
    using relink_parent [OF c2 hole L2f(3)] by blast
  have notpar: "ctx_parent E \<noteq> Some n" if "n \<notin> set (ids_before E)" for n using par that by auto
  have tu: "tid u \<notin> set (ids_before E)" "tid u \<notin> set (ids_after E)" "tid u \<notin> set (tree_ids src)"
    using dist tid_in_ids [of u] by auto
  obtain nd where nd: "look L (tid u) = Some nd" using stored_parent [OF st(1)] by blast
  have nd3: "look L3 (tid u) = Some nd"
    using nd tu sub(2) rehole_other [OF notpar [OF tu(1)]] by (auto simp: L3(2) L2)
  define L4 where "L4 = write_node (tid u) (nd\<lparr>nd_parent := Some m\<rparr>) L3"
  have present: "look L4 n \<noteq> None" if n: "n \<in> set ?tops" for n
  proof -
    have s: "n \<notin> spliced_ids axis src" "n \<in> set (tree_ids src)" using er n tops sub(1) by blast+
    then have "n \<notin> set (ids_before E)" using dist by auto
    then show ?thesis using pieces_present [OF D(2) wf sh n] s rehole_other [OF notpar]
      by (simp add: L4_def L3(2) L2)
  qed
  obtain L5 where L5: "fold_result (set_parent (Some m)) ?tops L4 = Inr L5"
    "look L5 = (\<lambda>n. if n \<in> set ?tops then map_option (\<lambda>nd. nd\<lparr>nd_parent := Some m\<rparr>) (look L4 n) else look L4 n)"
    "ly_root L5 = ly_root L4" "ly_next L5 = ly_next L4" "smap_ok (ly_nodes L4) \<longrightarrow> smap_ok (ly_nodes L5)"
    by (rule set_parents_eq [of ?tops L4 "Some m"], erule present) (rule that; assumption)
  define L' where "L' = write_node m (split_node_of m (ctx_parent E) axis (map kid_entry ?kids)) L5"
  have M: "look L' n = (if n = m then Some (split_node_of m (ctx_parent E) axis (map kid_entry ?kids))
      else if n \<in> set ?tops then map_option (\<lambda>nd. nd\<lparr>nd_parent := Some m\<rparr>) (look L n)
      else if n = tid u then Some (nd\<lparr>nd_parent := Some m\<rparr>)
      else rehole E m (look L2) n)" for n
  proof -
    have "n \<noteq> tid u \<and> rehole E m (look L2) n = look L n" if n: "n \<in> set ?tops"
    proof -
      have s: "n \<notin> spliced_ids axis src" "n \<in> set (tree_ids src)" using er n tops sub(1) by blast+
      then have "n \<notin> set (ids_before E)" using dist by auto
      then show ?thesis using s tu(3) rehole_other [OF notpar] by (auto simp: L2)
    qed
    then show ?thesis by (simp add: L'_def L5(2) L4_def L3(2))
  qed
  have out: "look L' n = rehole E m (look L2) n" if "n \<noteq> m" "n \<notin> set (tree_ids src)" "n \<noteq> tid u" for n
  proof -
    have "n \<notin> set ?tops" using that tops sub(1) by blast
    then show ?thesis using that by (simp add: M)
  qed
  have look_m: "look L5 m = None"
  proof -
    have "m \<notin> set ?tops" "m \<noteq> tid u" using m tops sub(1) tid_in_ids [of u] by auto
    then show ?thesis using rehole_other [OF notpar] m lookm by (simp add: L5(2) L4_def L3(2) L2)
  qed
  have wrap: "wrap_target (tid src) (tid u) (ctx_parent E) \<lparr>dp_axis = axis, dp_insertion = ins\<rparr> L = Inr L'"
  proof -
    have alloc: "allocate_node_id L = Inr (m, L1)"
      unfolding m_def L1_def by (rule allocate_eq) (use D(8) room in auto)
    have tk: "map sc_node (map kid_entry ?ps) = ?tops" by simp
    have kids: "(if ins = BEFORE then map kid_entry ?ps @ [\<lparr>sc_node = tid u, sc_pct = 50\<rparr>]
        else \<lparr>sc_node = tid u, sc_pct = 50\<rparr> # map kid_entry ?ps) = map kid_entry ?kids"
      by (simp add: wrap_pieces_def kid_entry_def)
    have emp: "emplace_node (split_node_of m (ctx_parent E) axis (map kid_entry ?kids)) L5 = L'"
      unfolding L'_def
      using emplace_node_eq [of L5 "split_node_of m (ctx_parent E) axis (map kid_entry ?kids)"] look_m by simp
    have sp: "set_parent (Some m) (tid u) L3 = Inr L4" unfolding L4_def by (rule set_parent_eq [OF nd3])
    show ?thesis unfolding wrap_target_def
      using alloc fs L3(1) sp L5(1) emp tk kids
      by (simp add: Let_def del: map_map map_append)
  qed
  have "represents L' ?t'"
  proof (rule representsI)
    have "stored (look L') (Some m) u"
    proof (rule stored_reparented [OF st(1)])
      show "distinct (tree_ids u)" using dist by simp
      have "tid u \<notin> set ?tops" "tid u \<noteq> m" using tu tops sub(1) m tid_in_ids [of u] by auto
      then show "look L' (tid u) = map_option (\<lambda>nd. nd\<lparr>nd_parent := Some m\<rparr>) (look L (tid u))"
        using nd by (simp add: M)
      fix n assume n: "n \<in> set (tree_ids u)" "n \<noteq> tid u"
      then have x: "n \<noteq> m" "n \<notin> set (tree_ids src)" "n \<notin> set (ids_before E)" using dist m by auto
      then have "n \<notin> spliced_ids axis src" using sub(2) by blast
      then show "look L' n = look L n" using out [OF x(1,2) n(2)] rehole_other [OF notpar [OF x(3)]] by (simp add: L2)
    qed
    moreover have "\<forall>k \<in> set ?ps. stored (look L') (Some m) (fst k)"
    proof (rule pieces_stored [OF D(2) wf sh ds])
      fix n assume n: "n \<in> set (?ids ?ps)"
      then have s: "n \<in> set (tree_ids src)" "n \<notin> spliced_ids axis src" using sub(1) er by blast+
      then have "n \<noteq> m" "n \<noteq> tid u" "n \<notin> set (ids_before E)" using m tu dist by auto
      then show "look L' n = (if n \<in> (\<lambda>k. tid (fst k)) ` set ?ps
          then map_option (\<lambda>nd. nd\<lparr>nd_parent := Some m\<rparr>) (look L n) else look L n)"
        using s rehole_other [OF notpar] by (simp add: M L2)
    qed
    ultimately have "\<forall>k \<in> set ?kids. stored (look L') (Some m) (fst k)" by (simp add: wrap_pieces_def ball_Un)
    moreover have "ctx_stored (look L') E m"
    proof (rule ctx_stored_rehole_ctx [OF c2])
      show "distinct (ids_before E @ ids_after E)" using dist by auto
      fix n assume "n \<in> set (ids_before E) \<union> set (ids_after E)"
      then show "look L' n = rehole E m (look L2) n" using m tu dist by (intro out) auto
    qed
    ultimately show "stored (look L') None ?t'" by (simp add: stored_plug M)
    have ms: "mset (tree_ids ?t') = mset (ids_before E @ (m # tree_ids u @ ?ids ?ps) @ ids_after E)"
      by (simp add: ids_plug wrap_pieces_def)
    have "distinct (ids_before E @ (m # tree_ids u @ ?ids ?ps) @ ids_after E)"
      by (rule distinct_wrap [OF dist pf(4) [OF ds] sub(1) m])
    then show "distinct (tree_ids ?t')" using ms by (metis mset_eq_imp_distinct_iff)
    have sids: "set (tree_ids ?t') = insert m (set (tree_ids (plug E u)) \<union> set (?ids ?ps))"
      unfolding mset_eq_setD [OF ms] unfolding ids_plug by auto
    show "dom (look L') = set (tree_ids ?t')"
    proof -
      have "dom (look L') = insert m (dom (look L) - spliced_ids axis src)"
      proof (rule set_eqI)
        fix n
        have 1: "n \<in> dom (rehole E m (look L2)) \<longleftrightarrow> n \<in> dom (look L2)"
          unfolding rehole_dom [OF c2]
          using c2 by (cases E rule: ctx_parent.cases) auto
        have 2: "n \<in> dom (look L2) \<longleftrightarrow> n \<in> dom (look L) - spliced_ids axis src" by (auto simp: L2 domIff)
        have 3: "n \<in> set ?tops \<Longrightarrow> n \<in> dom (look L) - spliced_ids axis src"
          using pieces_present [OF D(2) wf sh, of n axis] er tops by blast
        have 4: "n = tid u \<Longrightarrow> n \<in> dom (look L) - spliced_ids axis src" using nd tu(3) sub(2) by auto
        show "n \<in> dom (look L') \<longleftrightarrow> n \<in> insert m (dom (look L) - spliced_ids axis src)"
        proof -
          consider "n = m" | "n \<noteq> m" "n \<in> set ?tops" | "n \<noteq> m" "n \<notin> set ?tops" "n = tid u"
            | "n \<noteq> m" "n \<notin> set ?tops" "n \<noteq> tid u" by blast
          then show ?thesis
          proof cases
            case 2
            then show ?thesis using 3 by (simp add: M domIff)
          next
            case 3
            then show ?thesis using 4 by (simp add: M domIff)
          next
            case 4
            then have "look L' n = rehole E m (look L2) n" by (simp add: M)
            then show ?thesis using 1 2 \<open>n \<noteq> m\<close> by (simp add: domIff)
          qed (simp add: M domIff)
        qed
      qed
      also have "\<dots> = insert m ((set (tree_ids (plug E u)) \<union> set (tree_ids src)) - spliced_ids axis src)"
        unfolding D(4) ..
      also have "\<dots> = set (tree_ids ?t')" unfolding sids using D(3) er pf(3) by auto
      finally show ?thesis .
    qed
    show "ly_root L' = tid ?t'"
    proof (cases "E = []")
      case True
      then show ?thesis using L3(3) L5(3) by (simp add: L'_def L4_def)
    next
      case False
      then show ?thesis using D(5) L3(3) L5(3) L2f(1) tid_plug [OF False, of u "TSplit m axis ?kids"]
        by (simp add: L'_def L4_def)
    qed
    show "smap_ok (ly_nodes L')" using L5(5) L3(5) by (simp add: L'_def L4_def)
    have nx: "ly_next L' = m + 1" using L5(4) L3(4) L2f(2) by (simp add: L'_def L4_def)
    show "0 < ly_next L'" "int (ly_next L') \<le> UINT64_MAX" using room nx by (simp_all add: m_def)
    show "0 < n \<and> n < ly_next L'" if "n \<in> set (tree_ids ?t')" for n
    proof -
      have "n = m \<or> n \<in> set (tree_ids (plug E u)) \<union> set (tree_ids src)"
        using that sub(1) unfolding sids by blast
      then show ?thesis using D(7) [of n] D(8) nx by (auto simp: m_def)
    qed
  qed
  with wrap show ?thesis by blast
qed

end
