(* ===== verification/Pane_Move_Correct.thy ===== *)
theory Pane_Move_Correct
  imports Pane_Insert
begin

text \<open>
  \<open>move_pane_selection\<close>: a block of siblings dropped on a side of a target node ends up directly
  before or after the target's panes in display order, no pane is lost or duplicated, and the
  layout invariant is kept. The normal form is kept whenever the target is not itself a split of
  the drop's axis; the last section shows that it is lost otherwise, and what that leads to.
\<close>

section \<open>The target after the extraction\<close>

lemma target_unmoved:
  assumes rep: "represents L t" and t: "t = plug C (TSplit p ax (ls @ ms @ rs))" "t = plug E u"
    and mv: "movable_to C p ls ms rs (tid u)" and ne: "ms \<noteq> []"
  shows "set (tree_ids u) \<inter> (set (concat (map (\<lambda>k. tree_ids (fst k)) ms)) \<union> set (p # ctx_path C)) = {}"
proof -
  have k: "set (tree_ids u) \<inter> (set (tree_ids (fst k)) \<union> set (p # ctx_path C)) = {}" if km: "k \<in> set ms" for k
  proof -
    obtain ls' w rs' where "plug C (TSplit p ax (ls @ ms @ rs)) = plug (Frame p ax ls' w rs' # C) (fst k)"
      using block_member_context [OF km] by blast
    then have tk: "t = plug (Frame p ax ls' w rs' # C) (fst k)" using t(1) by simp
    have "tid u \<notin> set (tree_ids (fst k))" "tid u \<notin> set (ctx_path (Frame p ax ls' w rs' # C))"
      using mv km by (auto simp: movable_to_def)
    from unrelated_disjoint [OF rep tk t(2) this] show ?thesis by simp
  qed
  from ne have "hd ms \<in> set ms" by simp
  from k [OF this] k show ?thesis by auto
qed

lemma extraction_target:
  assumes ex: "extraction L t moved_ids path moved kept c L1 t1 src"
    and rep: "represents L t" and t: "t = plug E u" and disj: "set (tree_ids u) \<inter> (moved_ids \<union> path) = {}"
  shows "\<exists>E1. t1 = plug E1 u" "c \<notin> set (tree_ids u)"
proof -
  note P = represents_pairD [OF ex [unfolded extraction_def, THEN conjunct1]]
  have cp: "c \<in> path" and sub: "set (tree_ids src) \<subseteq> moved_ids \<union> path \<union> {n. look L n = None}"
    and same: "\<forall>n. n \<notin> insert c (set (tree_ids src)) \<longrightarrow> look L1 n = look L n"
    using ex unfolding extraction_def by blast+
  show "c \<notin> set (tree_ids u)" using disj cp by blast
  have du: "set (tree_ids u) \<subseteq> dom (look L)" unfolding representsD(3) [OF rep] t ids_plug by auto
  have nu: "n \<notin> insert c (set (tree_ids src))" if "n \<in> set (tree_ids u)" for n
    using that disj cp sub du by blast
  have "stored (look L1) (ctx_parent E) u = stored (look L) (ctx_parent E) u"
    by (rule stored_cong) (use nu same in blast)
  moreover have "stored (look L) (ctx_parent E) u" using representsD(1) [OF rep] t by (simp add: stored_plug)
  ultimately have su: "stored (look L1) (ctx_parent E) u" by simp
  from stored_parent [OF this] have "tid u \<in> dom (look L1)" by auto
  then have "tid u \<in> set (tree_ids t1)" using P(4) nu [OF tid_in_ids] by blast
  from node_context [OF this] obtain E1 u1 where e: "t1 = plug E1 u1" "tid u1 = tid u" by blast
  have "stored (look L1) (ctx_parent E1) u1" using P(1) e(1) by (simp add: stored_plug)
  from stored_unique [OF this su e(2)] e(1) show "\<exists>E1. t1 = plug E1 u" by blast
qed

section \<open>Insertion and cleanup\<close>

lemma beside_pieces_facts:
  assumes wf: "well_formed src" "0 \<le> w" "w \<le> 100"
  shows "concat (map (\<lambda>k. tree_leaves (fst k)) (beside_pieces axis ins src u w))
      = (if ins = BEFORE then tree_leaves src @ tree_leaves u else tree_leaves u @ tree_leaves src)"
    "sum_list (map snd (beside_pieces axis ins src u w)) = w"
    "\<forall>k \<in> set (beside_pieces axis ins src u w). 0 \<le> snd k \<and> (well_formed (fst k) \<or> fst k = u)"
    "2 \<le> length (beside_pieces axis ins src u w)"
    "alternates src \<Longrightarrow> top_axis u \<noteq> Some axis \<Longrightarrow> alternates u \<Longrightarrow>
      \<forall>k \<in> set (beside_pieces axis ins src u w). top_axis (fst k) \<noteq> Some axis \<and> alternates (fst k)"
proof -
  define share where "share = (if ins = BEFORE then (w + 1) div 2 else w div 2)"
  define keep where "keep = (if ins = BEFORE then w div 2 else (w + 1) div 2)"
  have sh: "0 \<le> share" "share \<le> 100" "0 \<le> keep" "share + keep = w" using wf(2,3) by (auto simp: share_def keep_def)
  have bp: "beside_pieces axis ins src u w = (if ins = BEFORE then flatten_kid axis (src, share) @ [(u, keep)]
      else (u, keep) # flatten_kid axis (src, share))"
    by (simp add: beside_pieces_def share_def keep_def)
  note pf = pieces_facts [OF wf(1) sh(1,2), of axis]
  have len: "1 \<le> length (flatten_kid axis (src, share))"
    using pf(7) by (cases "flatten_kid axis (src, share)") simp_all
  show "concat (map (\<lambda>k. tree_leaves (fst k)) (beside_pieces axis ins src u w))
      = (if ins = BEFORE then tree_leaves src @ tree_leaves u else tree_leaves u @ tree_leaves src)"
    using pf(1) by (simp add: bp)
  show "sum_list (map snd (beside_pieces axis ins src u w)) = w" using pf(2) sh by (simp add: bp)
  show "\<forall>k \<in> set (beside_pieces axis ins src u w). 0 \<le> snd k \<and> (well_formed (fst k) \<or> fst k = u)"
    using pf(6) sh(3) by (simp add: bp ball_Un)
  show "2 \<le> length (beside_pieces axis ins src u w)" using len by (simp add: bp)
  assume "alternates src" "top_axis u \<noteq> Some axis" "alternates u"
  then show "\<forall>k \<in> set (beside_pieces axis ins src u w). top_axis (fst k) \<noteq> Some axis \<and> alternates (fst k)"
    using pf(8) by (simp add: bp ball_Un)
qed

lemma wrap_pieces_beside: "wrap_pieces axis ins src u = beside_pieces axis ins src u 100"
  by (simp add: wrap_pieces_def beside_pieces_def)

lemma insert_at_target_eq:
  assumes pair: "represents_pair L (plug E u) src" and wf: "well_formed src" "wf_except c (plug E u)"
    and cu: "c \<notin> set (tree_ids u)" and room: "int (ly_next L) < UINT64_MAX"
  shows "\<exists>L' t'. insert_at_target (tid src) (tid u) \<lparr>dp_axis = axis, dp_insertion = ins\<rparr> L = Inr L'
     \<and> represents L' t' \<and> wf_except c t'
     \<and> set (ids_before E) \<union> set (ids_after E) \<subseteq> set (tree_ids t')
     \<and> tree_leaves t' = leaves_before E @ (if ins = BEFORE then tree_leaves src @ tree_leaves u
          else tree_leaves u @ tree_leaves src) @ leaves_after E
     \<and> (alternates (plug E u) \<and> alternates src \<and> top_axis u \<noteq> Some axis \<longrightarrow> alternates t')"
proof -
  note D = represents_pairD [OF pair]
  from D(1) have st: "stored (look L) (ctx_parent E) u" "ctx_stored (look L) E (tid u)"
    by (simp_all add: tree_simps)
  obtain nd where nd: "look L (tid u) = Some nd" "nd_parent nd = ctx_parent E"
    using stored_parent [OF st(1)] by blast
  have we: "ctx_wf_except c E" "wf_except c u" using wf(2) unfolding wf_except_plug by blast+
  have wu: "well_formed u" using we(2) wf_except_fresh [OF cu] by simp
  show ?thesis
  proof (cases "ctx_axis E = Some axis")
    case True
    then obtain q ls w rs E' where E: "E = Frame q axis ls w rs # E'" by (cases E rule: ctx_axis.cases) auto
    have w: "0 \<le> w" "w \<le> 100" using ctx_weight we(1) unfolding E by blast+
    note bf = beside_pieces_facts [OF wf(1) w, where axis = axis and ins = ins and u = u]
    let ?bs = "beside_pieces axis ins src u w"
    let ?t' = "plug E' (TSplit q axis (ls @ ?bs @ rs))"
    obtain L' where L': "insert_into_matching_split (tid src) (tid u) q ins L = Inr L'" "represents L' ?t'"
      using insert_into_matching_split_eq [OF pair [unfolded E] wf(1) w] by blast
    have "look L q = Some (split_node_of q (ctx_parent E') axis
        (map kid_entry ls @ \<lparr>sc_node = tid u, sc_pct = w\<rparr> # map kid_entry rs))"
      using st(2) E by simp
    then have "insert_at_target (tid src) (tid u) \<lparr>dp_axis = axis, dp_insertion = ins\<rparr> L = Inr L'"
      using nd L'(1) E by (simp add: insert_at_target_def layout_access)
    moreover have "wf_except c ?t'"
    proof -
      have "\<forall>k \<in> set ?bs. 0 \<le> snd k \<and> wf_except c (fst k)"
        using bf(3) well_formed_imp_except we(2) by blast
      then show ?thesis using we(1) bf(2,4) unfolding E wf_except_plug
        by (simp add: kids_ok_def ball_Un)
    qed
    moreover have "tid u \<in> set (tree_ids ?t')"
      by (simp add: ids_plug beside_pieces_def)
    moreover have "set (ids_before E) \<union> set (ids_after E) \<subseteq> set (tree_ids ?t')"
      unfolding E ids_plug by auto
    moreover have "tree_leaves ?t' = leaves_before E @ (if ins = BEFORE then tree_leaves src @ tree_leaves u
          else tree_leaves u @ tree_leaves src) @ leaves_after E"
      using bf(1) unfolding E leaves_plug by simp
    moreover have "alternates (plug E u) \<and> alternates src \<and> top_axis u \<noteq> Some axis \<longrightarrow> alternates ?t'"
      using bf(5) unfolding E alternates_plug by (simp add: ball_Un)
    ultimately show ?thesis using L'(2) by blast
  next
    case False
    let ?m = "ly_next L"
    let ?bs = "wrap_pieces axis ins src u"
    let ?t' = "plug E (TSplit ?m axis ?bs)"
    note bf = beside_pieces_facts [OF wf(1), where w = 100 and axis = axis and ins = ins and u = u, folded wrap_pieces_beside, simplified]
    obtain L' where L': "wrap_target (tid src) (tid u) (ctx_parent E) \<lparr>dp_axis = axis, dp_insertion = ins\<rparr> L = Inr L'"
      "represents L' ?t'"
      using wrap_target_eq [OF pair wf(1) room] by blast
    have "insert_at_target (tid src) (tid u) \<lparr>dp_axis = axis, dp_insertion = ins\<rparr> L = Inr L'"
    proof (cases E rule: ctx_parent.cases)
      case 1
      then show ?thesis using nd L'(1) by (simp add: insert_at_target_def layout_access)
    next
      case (2 q axq ls w rs E')
      then have "look L q = Some (split_node_of q (ctx_parent E') axq
        (map kid_entry ls @ \<lparr>sc_node = tid u, sc_pct = w\<rparr> # map kid_entry rs))" "axq \<noteq> axis"
        using st(2) False by auto
      then show ?thesis using nd L'(1) 2 by (simp add: insert_at_target_def layout_access)
    qed
    moreover have "wf_except c ?t'"
    proof -
      have "\<forall>k \<in> set ?bs. 0 \<le> snd k \<and> wf_except c (fst k)"
        using bf(3) well_formed_imp_except we(2) by blast
      then show ?thesis using we(1) bf(2,4) unfolding wf_except_plug by (simp add: kids_ok_def)
    qed
    moreover have "set (ids_before E) \<union> set (ids_after E) \<subseteq> set (tree_ids ?t')"
      unfolding ids_plug by auto
    moreover have "tree_leaves ?t' = leaves_before E @ (if ins = BEFORE then tree_leaves src @ tree_leaves u
          else tree_leaves u @ tree_leaves src) @ leaves_after E"
      using bf(1) unfolding leaves_plug by simp
    moreover have "alternates (plug E u) \<and> alternates src \<and> top_axis u \<noteq> Some axis \<longrightarrow> alternates ?t'"
    proof (intro impI, elim conjE)
      assume a: "alternates (plug E u)" "alternates src" "top_axis u \<noteq> Some axis"
      then have "ctx_alternates E (Some axis)"
        using False ctx_alternates_leaf unfolding alternates_plug ctx_alternates_iff by blast
      moreover have "alternates u" using a(1) unfolding alternates_plug by blast
      ultimately show "alternates ?t'" using bf(5) a unfolding alternates_plug by simp
    qed
    ultimately show ?thesis using L'(2) by blast
  qed
qed

lemma cleanup_eq:
  assumes rep: "represents L t" and wf: "wf_except c t" and c: "c \<in> set (tree_ids t)" "c \<notin> fst ` set (tree_leaves t)"
  shows "\<exists>nd split L' t'. node L c = Inr nd \<and> node_split nd = Inr split
     \<and> (if length (sp_children split) = 1 then dissolve_unary_split c L else Inr L) = Inr L'
     \<and> represents L' t' \<and> well_formed t' \<and> tree_leaves t' = tree_leaves t
     \<and> (alternates t \<longrightarrow> alternates t')"
proof -
  from node_context [OF c(1)] obtain C s where s: "t = plug C s" "tid s = c" by blast
  with c(2) obtain ax ks where t: "t = plug C (TSplit c ax ks)"
    by (cases s) (auto simp: leaves_plug)
  note D = representsD [OF rep]
  have look: "look L c = Some (split_node_of c (ctx_parent C) ax (map kid_entry ks))"
    using D(1) t by (simp add: stored_plug)
  have dist: "distinct (ids_before C @ (c # concat (map (\<lambda>k. tree_ids (fst k)) ks)) @ ids_after C)"
    using D(2) t by (simp add: ids_plug)
  have we: "ctx_wf_except c C" "kids_ok ks" "\<forall>k \<in> set ks. wf_except c (fst k)"
    using wf unfolding t wf_except_plug by simp_all
  have cw: "ctx_well_formed C" using we(1) dist by (subst (asm) ctx_wf_except_fresh) auto
  have kw: "\<forall>k \<in> set ks. well_formed (fst k)"
  proof
    fix k assume k: "k \<in> set ks"
    then have "c \<notin> set (tree_ids (fst k))" using dist by auto
    from wf_except_fresh [OF this] we(3) k show "well_formed (fst k)" by blast
  qed
  obtain L' where L': "(if length ks = 1 then dissolve_unary_split c L else Inr L) = Inr L'"
    "represents L' (rejoined C c ax ks)"
    using dissolve_if_unary [of L C c ax ks] rep cw kw unfolding t by blast
  note rj = rejoined_facts [OF cw we(2) kw, where p = c and ax = ax]
  have "alternates t \<longrightarrow> alternates (rejoined C c ax ks)" using rj(3) unfolding t alternates_plug by simp
  moreover have "tree_leaves (rejoined C c ax ks) = tree_leaves t" unfolding rj(1) t leaves_plug by simp
  ultimately show ?thesis using look L' rj(2)
    by (intro exI conjI) (auto simp: layout_access)
qed


section \<open>Reordering within one split\<close>

lemma kids_by_tid:
  fixes ks ks' :: "(ptree \<times> int) list"
  assumes "distinct (map (\<lambda>k. tid (fst k)) ks)" "set ks' \<subseteq> set ks"
    and eq: "map (\<lambda>k. tid (fst k)) ks' = map (\<lambda>k. tid (fst k)) ks"
  shows "ks' = ks"
proof (rule nth_equalityI)
  show len: "length ks' = length ks" using map_eq_imp_length_eq [OF eq] .
  fix i assume i: "i < length ks'"
  then have e: "tid (fst (ks' ! i)) = tid (fst (ks ! i))" using eq len by (metis nth_map)
  have m: "ks' ! i \<in> set ks" "ks ! i \<in> set ks" using assms(2) i len by auto
  have "inj_on (\<lambda>k. tid (fst k)) (set ks)" using assms(1) by (simp add: distinct_map)
  from inj_onD [OF this e m] show "ks' ! i = ks ! i" .
qed

lemma reorder_eq:
  fixes ins :: pane_insertion
  assumes rep: "represents L t" and t: "t = plug C (TSplit p ax (ls @ ms @ rs))"
    and sel: "sel_parent sel = Some p" "sel_nodes sel = map (\<lambda>k. tid (fst k)) ms"
    and split: "ls @ rs = xs @ (u, w) # ys"
  defines "ks' \<equiv> xs @ (if ins = AFTER then (u, w) # ms else ms @ [(u, w)]) @ ys"
  shows "\<exists>changed L'. reorder_at_same_level sel (tid u) ins L = Inr (changed, L')
     \<and> represents L' (plug C (TSplit p ax ks')) \<and> (\<not> changed \<longrightarrow> L' = L)"
proof -
  let ?ks = "ls @ ms @ rs"
  from rep t have rp: "represents L (plug C (TSplit p ax ?ks))" by simp
  note K = split_kids [OF rp]
  note sf = selected_filter [OF K(2) sel(2)]
  have ms: "mset ks' = mset ?ks"
    using arg_cong [OF split, of mset] by (simp add: ks'_def)
  have du: "distinct (map (\<lambda>k. tid (fst k)) (xs @ (u, w) # ys))"
    using K(2) unfolding split [symmetric] by auto
  have pos: "child_position (map kid_entry (ls @ rs)) (tid u) = Some (length xs)"
    using child_position_nth [OF du, of "length xs"] unfolding split by simp
  let ?i = "if ins = AFTER then length xs + 1 else length xs"
  have re: "take ?i (map kid_entry (ls @ rs)) @ map kid_entry ms @ drop ?i (map kid_entry (ls @ rs)) = map kid_entry ks'"
    unfolding split ks'_def by simp
  define L1 where "L1 = write_node p (split_node_of p (ctx_parent C) ax (map kid_entry ks')) L"
  have rep1: "represents L1 (plug C (TSplit p ax ks'))"
    unfolding L1_def by (rule represents_rekid [OF rp]) (simp add: ms)
  have put: "put_split p \<lparr>sp_axis = ax, sp_children = map kid_entry ks'\<rparr> L = Inr L1"
    unfolding L1_def using K(1) by (simp add: put_split_eq)
  have r: "reorder_at_same_level sel (tid u) ins L =
    (if map sc_node (map kid_entry ks') = map sc_node (map kid_entry ?ks) then Inr (False, L) else Inr (True, L1))"
  proof -
    have "reorder_at_same_level sel (tid u) ins L =
      (let reordered = take ?i (map kid_entry (ls @ rs)) @ map kid_entry ms @ drop ?i (map kid_entry (ls @ rs)) in
       if map sc_node reordered = map sc_node (map kid_entry ?ks) then Inr (False, L)
       else and_then (put_split p \<lparr>sp_axis = ax, sp_children = reordered\<rparr> L) (\<lambda>L'. Inr (True, L')))"
      using K(1) sf pos sel
      by (simp add: reorder_at_same_level_def required_selection_parent_def layout_access Let_def
          del: map_append map_map)
    then show ?thesis unfolding Let_def re put by simp
  qed
  show ?thesis
  proof (cases "map sc_node (map kid_entry ks') = map sc_node (map kid_entry ?ks)")
    case True
    then have "map (\<lambda>k. tid (fst k)) ks' = map (\<lambda>k. tid (fst k)) ?ks" by (simp add: comp_def)
    from kids_by_tid [OF K(2) _ this] have "ks' = ?ks" using mset_eq_setD [OF ms] by simp
    with True r rp show ?thesis by auto
  next
    case False
    with r rep1 show ?thesis by auto
  qed
qed

section \<open>The whole move\<close>

lemma same_parent_kids:
  assumes rep: "represents L t" and t: "t = plug C (TSplit p ax ks)" "t = plug E u"
    and par: "ctx_parent E = Some p"
  shows "\<exists>w. (u, w) \<in> set ks"
proof -
  from par obtain ax' ls w rs E' where E: "E = Frame p ax' ls w rs # E'"
    by (cases E rule: ctx_parent.cases) auto
  then have "t = plug E' (TSplit p ax' (ls @ (u, w) # rs))" using t(2) by simp
  from subtree_unique [OF rep t(1) this] have "ks = ls @ (u, w) # rs" by simp
  then have "(u, w) \<in> set ks" by simp
  then show ?thesis by blast
qed

lemma move_across_levels:
  assumes inv: "layout_inv L t" and t: "t = plug C (TSplit p ax (ls @ ms @ rs))" "t = plug E u"
    and sel: "sel_parent sel = Some p" "sel_nodes sel = map (\<lambda>k. tid (fst k)) ms" "ms \<noteq> []"
    and mv: "movable_to C p ls ms rs (tid u)" and room: "int (ly_next L) + 1 < UINT64_MAX"
  shows "\<exists>source c L1 L2 cn split L' t' xs ys. extract_selection sel L = Inr ((source, c), L1)
     \<and> insert_at_target source (tid u) \<lparr>dp_axis = axis, dp_insertion = ins\<rparr> L1 = Inr L2
     \<and> node L2 c = Inr cn \<and> node_split cn = Inr split
     \<and> (if length (sp_children split) = 1 then dissolve_unary_split c L2 else Inr L2) = Inr L'
     \<and> represents L' t' \<and> well_formed t'
     \<and> (alternates t \<and> top_axis u \<noteq> Some axis \<longrightarrow> alternates t')
     \<and> leaves_before C @ concat (map (\<lambda>k. tree_leaves (fst k)) (ls @ rs)) @ leaves_after C = xs @ tree_leaves u @ ys
     \<and> tree_leaves t' = xs @ (if ins = BEFORE then concat (map (\<lambda>k. tree_leaves (fst k)) ms) @ tree_leaves u
          else tree_leaves u @ concat (map (\<lambda>k. tree_leaves (fst k)) ms)) @ ys"
proof -
  from inv have rep: "represents L t" and wf: "well_formed t" by (auto simp: layout_inv_def)
  let ?M = "concat (map (\<lambda>k. tree_leaves (fst k)) ms)"
  let ?kept = "leaves_before C @ concat (map (\<lambda>k. tree_leaves (fst k)) (ls @ rs)) @ leaves_after C"
  have proper: "C \<noteq> [] \<or> ls @ rs \<noteq> []"
  proof (rule ccontr)
    assume "\<not> (C \<noteq> [] \<or> ls @ rs \<noteq> [])"
    then have "tree_ids t = p # concat (map (\<lambda>k. tree_ids (fst k)) ms)" using t(1) by simp
    moreover have "tid u \<in> set (tree_ids t)" unfolding t(2) ids_plug by simp
    ultimately show False using mv unfolding movable_to_def by auto
  qed
  obtain src c L1 t1 where ex: "extract_selection sel L = Inr ((tid src, c), L1)"
    "extraction L t (set (concat (map (\<lambda>k. tree_ids (fst k)) ms))) (set (p # ctx_path C)) ?M ?kept c L1 t1 src"
    using extract_block [OF rep wf t(1) sel proper] room by auto
  from ex(2) have pair: "represents_pair L1 t1 src" and we: "wf_except c t1" and ws: "well_formed src"
    and lv: "tree_leaves src = ?M" "tree_leaves t1 = ?kept" and nx: "ly_next L1 \<le> ly_next L + 1"
    and alt: "alternates t \<longrightarrow> alternates t1 \<and> alternates src"
    and ct: "\<exists>D ax ks. t1 = plug D (TSplit c ax ks)"
    unfolding extraction_def by blast+
  note P = represents_pairD [OF pair]
  obtain E1 where E1: "t1 = plug E1 u" and cu: "c \<notin> set (tree_ids u)"
    using extraction_target [OF ex(2) rep t(2) target_unmoved [OF rep t mv sel(3)]] by blast
  have room1: "int (ly_next L1) < UINT64_MAX" using nx room by simp
  obtain L2 t2 where L2: "insert_at_target (tid src) (tid u) \<lparr>dp_axis = axis, dp_insertion = ins\<rparr> L1 = Inr L2"
    "represents L2 t2" "wf_except c t2" "set (ids_before E1) \<union> set (ids_after E1) \<subseteq> set (tree_ids t2)"
    "tree_leaves t2 = leaves_before E1 @ (if ins = BEFORE then tree_leaves src @ tree_leaves u
          else tree_leaves u @ tree_leaves src) @ leaves_after E1"
    "alternates t1 \<and> alternates src \<and> top_axis u \<noteq> Some axis \<longrightarrow> alternates t2"
    using insert_at_target_eq [OF pair [unfolded E1] ws we [unfolded E1] cu room1, of axis ins]
    unfolding E1 by blast
  obtain D axc ksc where tc: "t1 = plug D (TSplit c axc ksc)" using ct by blast
  have c1: "c \<in> set (tree_ids t1)" unfolding tc ids_plug by simp
  then have "c \<in> set (ids_before E1) \<union> set (ids_after E1)" using cu unfolding E1 ids_plug by auto
  then have c2: "c \<in> set (tree_ids t2)" using L2(4) by blast
  have lookc: "look L1 c = Some (split_node_of c (ctx_parent D) axc (map kid_entry ksc))"
    using P(1) tc by (simp add: stored_plug)
  have "c \<notin> fst ` set (tree_leaves t1)"
    using stored_leaves [OF P(1)] lookc by fastforce
  moreover have "c \<notin> fst ` set (tree_leaves src)"
    using leaf_ids [of src] P(3) c1 by auto
  moreover have "set (tree_leaves t2) = set (tree_leaves t1) \<union> set (tree_leaves src)"
    unfolding L2(5) E1 leaves_plug by auto
  ultimately have c3: "c \<notin> fst ` set (tree_leaves t2)" by (simp add: image_Un)
  obtain cn split L' t' where cl: "node L2 c = Inr cn" "node_split cn = Inr split"
     "(if length (sp_children split) = 1 then dissolve_unary_split c L2 else Inr L2) = Inr L'"
     "represents L' t'" "well_formed t'" "tree_leaves t' = tree_leaves t2" "alternates t2 \<longrightarrow> alternates t'"
    using cleanup_eq [OF L2(2,3) c2 c3] by blast
  have "?kept = leaves_before E1 @ tree_leaves u @ leaves_after E1"
    using lv(2) unfolding E1 leaves_plug by simp
  moreover have "alternates t \<and> top_axis u \<noteq> Some axis \<longrightarrow> alternates t'" using alt L2(6) cl(7) by blast
  ultimately show ?thesis
    using ex(1) L2(1,5) cl lv(1) by (intro exI conjI) (assumption | simp)+
qed

lemma permuted_kids:
  assumes "mset ks' = mset ks"
  shows "well_formed (plug C (TSplit p ax ks')) = well_formed (plug C (TSplit p ax ks))"
    "alternates (plug C (TSplit p ax ks')) = alternates (plug C (TSplit p ax ks))"
proof -
  have s: "set ks' = set ks" and l: "length ks' = length ks"
    using mset_eq_setD [OF assms] mset_eq_length [OF assms] by auto
  have "mset (map snd ks') = mset (map snd ks)" using assms by simp
  then have "sum_list (map snd ks') = sum_list (map snd ks)" by (metis sum_mset_sum_list)
  then show "well_formed (plug C (TSplit p ax ks')) = well_formed (plug C (TSplit p ax ks))"
    using s l by (simp add: well_formed_plug kids_ok_def)
  show "alternates (plug C (TSplit p ax ks')) = alternates (plug C (TSplit p ax ks))"
    using s by (simp add: alternates_plug)
qed

lemma moved_selection:
  assumes inv: "layout_inv L t" and t: "t = plug C (TSplit p ax (ls @ ms @ rs))" "t = plug E u"
    and sel: "sel_parent sel = Some p" "sel_nodes sel = map (\<lambda>k. tid (fst k)) ms" "ms \<noteq> []"
    and mv: "movable_to C p ls ms rs (tid u)" and room: "int (ly_next L) + 1 < UINT64_MAX"
  shows "\<exists>changed L' t' xs ys. move_pane_selection sel (tid u) direction L = Inr (changed, L')
     \<and> layout_inv L' t' \<and> (\<not> changed \<longrightarrow> L' = L)
     \<and> (alternates t \<and> top_axis u \<noteq> Some (dp_axis (placement_for direction)) \<longrightarrow> alternates t')
     \<and> leaves_before C @ concat (map (\<lambda>k. tree_leaves (fst k)) (ls @ rs)) @ leaves_after C = xs @ tree_leaves u @ ys
     \<and> tree_leaves t' = xs @ (if dp_insertion (placement_for direction) = BEFORE
          then concat (map (\<lambda>k. tree_leaves (fst k)) ms) @ tree_leaves u
          else tree_leaves u @ concat (map (\<lambda>k. tree_leaves (fst k)) ms)) @ ys"
proof -
  from inv have rep: "represents L t" and wf: "well_formed t" and dp: "distinct (tree_panes t)"
    by (auto simp: layout_inv_def)
  obtain axis ins where pl: "placement_for direction = \<lparr>dp_axis = axis, dp_insertion = ins\<rparr>"
    by (cases direction) auto
  let ?M = "concat (map (\<lambda>k. tree_leaves (fst k)) ms)"
  let ?kept = "leaves_before C @ concat (map (\<lambda>k. tree_leaves (fst k)) (ls @ rs)) @ leaves_after C"
  have tl: "mset (tree_leaves t) = mset (?M @ ?kept)" unfolding t(1) leaves_plug by simp
  have finish: "distinct (tree_panes t')"
    if "?kept = xs @ tree_leaves u @ ys"
      "tree_leaves t' = xs @ (if ins = BEFORE then ?M @ tree_leaves u else tree_leaves u @ ?M) @ ys" for t' xs ys
  proof -
    have "mset (tree_leaves t') = mset (?M @ xs @ tree_leaves u @ ys)" using that(2) by simp
    then have "mset (tree_leaves t') = mset (tree_leaves t)" unfolding tl that(1) .
    then have "mset (tree_panes t') = mset (tree_panes t)" unfolding tree_panes_def mset_map by simp
    then show ?thesis using dp by (metis mset_eq_imp_distinct_iff)
  qed
  have v: "validate L sel (tid u) = Inr ()" by (rule validate_block(1) [OF rep t sel mv])
  have lookp: "look L p = Some (split_node_of p (ctx_parent C) ax (map kid_entry (ls @ ms @ rs)))"
    using representsD(1) [OF rep] t(1) by (simp add: stored_plug)
  have "stored (look L) (ctx_parent E) u" using representsD(1) [OF rep] t(2) by (simp add: stored_plug)
  from stored_parent [OF this] obtain nd where nd: "look L (tid u) = Some nd" "nd_parent nd = ctx_parent E"
    by blast
  show ?thesis
  proof (cases "ctx_parent E = Some p \<and> ax = axis")
    case True
    then obtain w where w: "(u, w) \<in> set (ls @ ms @ rs)"
      using same_parent_kids [OF rep t] by blast
    have "(u, w) \<notin> set ms"
    proof
      assume "(u, w) \<in> set ms"
      then have "tid u \<in> set (concat (map (\<lambda>k. tree_ids (fst k)) ms))" using kid_tid_in_ids by fastforce
      then show False using mv unfolding movable_to_def by blast
    qed
    with w have "(u, w) \<in> set (ls @ rs)" unfolding set_append by blast
    then obtain xs ys where split: "ls @ rs = xs @ (u, w) # ys" by (meson split_list)
    let ?ks' = "xs @ (if ins = AFTER then (u, w) # ms else ms @ [(u, w)]) @ ys"
    obtain changed L' where L': "reorder_at_same_level sel (tid u) ins L = Inr (changed, L')"
      "represents L' (plug C (TSplit p ax ?ks'))" "\<not> changed \<longrightarrow> L' = L"
      using reorder_eq [OF rep t(1) sel(1,2) split] by blast
    have "mset ?ks' = mset (ls @ ms @ rs)" using arg_cong [OF split, of mset] by simp
    note pk = permuted_kids [OF this, of C p ax]
    let ?f = "\<lambda>ks. concat (map (\<lambda>k. tree_leaves (fst k)) ks)"
    have k: "?kept = (leaves_before C @ ?f xs) @ tree_leaves u @ (?f ys @ leaves_after C)"
      unfolding split by simp
    have i: "ins = AFTER \<longleftrightarrow> ins \<noteq> BEFORE" by (cases ins) auto
    have l: "tree_leaves (plug C (TSplit p ax ?ks')) = (leaves_before C @ ?f xs) @
        (if ins = BEFORE then ?M @ tree_leaves u else tree_leaves u @ ?M) @ (?f ys @ leaves_after C)"
      unfolding leaves_plug by (simp add: i)
    have "layout_inv L' (plug C (TSplit p ax ?ks'))"
      unfolding layout_inv_def using L'(2) pk(1) wf [unfolded t(1)] finish [OF k l] by blast
    moreover have "move_pane_selection sel (tid u) direction L = Inr (changed, L')"
      using v pl sel(1) lookp nd True L'(1,3)
      by (simp add: move_pane_selection_def mover_move_def required_selection_parent_def layout_access Let_def)
    ultimately show ?thesis using L'(3) pk(2) k l unfolding pl t(1) drop_placement.simps by blast
  next
    case False
    obtain source c L1 L2 cn split L' t' xs ys where m:
      "extract_selection sel L = Inr ((source, c), L1)"
      "insert_at_target source (tid u) \<lparr>dp_axis = axis, dp_insertion = ins\<rparr> L1 = Inr L2"
      "node L2 c = Inr cn" "node_split cn = Inr split"
      "(if length (sp_children split) = 1 then dissolve_unary_split c L2 else Inr L2) = Inr L'"
      "represents L' t'" "well_formed t'" "alternates t \<and> top_axis u \<noteq> Some axis \<longrightarrow> alternates t'"
      "?kept = xs @ tree_leaves u @ ys"
      "tree_leaves t' = xs @ (if ins = BEFORE then ?M @ tree_leaves u else tree_leaves u @ ?M) @ ys"
      using move_across_levels [OF inv t sel mv room, of axis ins] by blast
    have no: "(ctx_parent E = Some p \<and> ax = axis) = False" using False by blast
    have "mover_move sel (tid u) direction L = Inr (True, L')"
      unfolding mover_move_def
      using v pl sel(1) lookp nd m(1-4) m(5)
      by (simp add: required_selection_parent_def layout_access Let_def no split: if_splits)
    then have "move_pane_selection sel (tid u) direction L = Inr (True, L')"
      by (simp add: move_pane_selection_def)
    moreover have "layout_inv L' t'" unfolding layout_inv_def using m(6,7) finish [OF m(9,10)] by blast
    ultimately show ?thesis using m(8-10) unfolding pl drop_placement.simps by blast
  qed
qed

text \<open>
  C1: Moving a block of siblings onto a target that the code accepts succeeds, yields a layout
  that represents a well-formed tree with the same panes, leaves the other panes in order and
  puts the block immediately before or after the target in reading order; a move that reports
  no change returns the layout unchanged, and normal form is kept unless the target is itself
  a split of the drop axis.
\<close>

lemma move_pane_selection_correct:
  assumes inv: "layout_inv L t" and t: "t = plug C (TSplit p ax (ls @ ms @ rs))" "t = plug E u"
    and sel: "sel_parent sel = Some p" "sel_nodes sel = map (\<lambda>k. tid (fst k)) ms" "ms \<noteq> []"
    and mv: "movable_to C p ls ms rs (tid u)" and room: "int (ly_next L) + 1 < UINT64_MAX"
  shows "\<exists>changed L' t' xs ys. move_pane_selection sel (tid u) direction L = Inr (changed, L')
     \<and> layout_inv L' t' \<and> (\<not> changed \<longrightarrow> L' = L)
     \<and> (alternates t \<and> top_axis u \<noteq> Some (dp_axis (placement_for direction)) \<longrightarrow> alternates t')
     \<and> leaves_before C @ concat (map (\<lambda>k. tree_leaves (fst k)) (ls @ rs)) @ leaves_after C = xs @ tree_leaves u @ ys
     \<and> tree_leaves t' = xs @ (if dp_insertion (placement_for direction) = BEFORE
          then concat (map (\<lambda>k. tree_leaves (fst k)) ms) @ tree_leaves u
          else tree_leaves u @ concat (map (\<lambda>k. tree_leaves (fst k)) ms)) @ ys"
  by (rule moved_selection [OF assms])

lemma move_pane_selection_rejected:
  assumes inv: "layout_inv L t" and t: "t = plug C (TSplit p ax (ls @ ms @ rs))" "t = plug E u"
    and sel: "sel_parent sel = Some p" "sel_nodes sel = map (\<lambda>k. tid (fst k)) ms" "ms \<noteq> []"
    and mv: "\<not> movable_to C p ls ms rs (tid u)"
  shows "\<exists>m. move_pane_selection sel (tid u) direction L = Inl (Invalid_argument m)"
proof -
  from inv have rep: "represents L t" by (simp add: layout_inv_def)
  from validate_block(2) [OF rep t sel mv] show ?thesis
    by (auto simp: move_pane_selection_def mover_move_def)
qed


section \<open>Dropping onto a split of the drop's own axis\<close>

text \<open>
  A layout with two columns, the right one two stacked panes; and what becomes of it when the
  left pane is dropped below the right column: the wrapper is a second vertical split directly
  around the first.
\<close>

definition nested_layout :: pane_layout where
  "nested_layout =
     \<lparr>ly_root = 6,
      ly_nodes =
        [(1, leaf_node_of 1 (Some 6) 1), (2, leaf_node_of 2 (Some 5) 2),
         (4, leaf_node_of 4 (Some 5) 3),
         (5, split_node_of 5 (Some 6) TOP_TO_BOTTOM
              [\<lparr>sc_node = 2, sc_pct = 50\<rparr>, \<lparr>sc_node = 4, sc_pct = 50\<rparr>]),
         (6, split_node_of 6 None TOP_TO_BOTTOM
              [\<lparr>sc_node = 5, sc_pct = 50\<rparr>, \<lparr>sc_node = 1, sc_pct = 50\<rparr>])],
      ly_next = 7\<rparr>"

definition nested_tree :: ptree where
  "nested_tree = TSplit 6 TOP_TO_BOTTOM
     [(TSplit 5 TOP_TO_BOTTOM [(TLeaf 2 2, 50), (TLeaf 4 3, 50)], 50), (TLeaf 1 1, 50)]"

definition left_pane_selection :: pane_selection where
  "left_pane_selection = \<lparr>sel_parent = Some 3, sel_anchor = 1, sel_active = 1, sel_nodes = [1]\<rparr>"

lemma nested_layout_inv: "layout_inv nested_layout nested_tree"
  by (auto simp: layout_inv_def represents_def represents_forest_def
      nested_layout_def nested_tree_def smap_ok_def smap_find_def kid_entry_def kids_ok_def
      tree_panes_def UINT64_MAX_def split: if_splits)

lemma stacked_layout_built:
  "and_then (split_leaf 1 LEFT_TO_RIGHT 2 AFTER (single 1)) (\<lambda>(n, L). split_leaf n TOP_TO_BOTTOM 3 AFTER L)
     = Inr (4, stacked_layout)"
  by code_simp



lemma move_pane_selection_correct_witness:
  "\<exists>changed L' t'. move_pane_selection left_pane_selection 2 Drop_DOWN stacked_layout = Inr (changed, L')
     \<and> layout_inv L' t' \<and> alternates t'"
proof -
  have sel: "sel_parent left_pane_selection = Some 3"
    "sel_nodes left_pane_selection = map (\<lambda>k. tid (fst k)) [(TLeaf 1 1, 50 :: int)]"
    "[(TLeaf 1 1, 50 :: int)] \<noteq> []"
    by (simp_all add: left_pane_selection_def)
  have "movable_to [] 3 [] [(TLeaf 1 1, 50)] [(TSplit 5 TOP_TO_BOTTOM [(TLeaf 2 2, 50), (TLeaf 4 3, 50)], 50)]
      (tid (TLeaf 2 2))"
    by (simp add: movable_to_def)
  from move_pane_selection_correct [OF stacked_layout_inv stacked_contexts(1,2) sel this stacked_facts(4),
      of Drop_DOWN]
  have "\<exists>changed L' t'. move_pane_selection left_pane_selection (tid (TLeaf 2 2)) Drop_DOWN stacked_layout = Inr (changed, L')
     \<and> layout_inv L' t' \<and> (alternates stacked_tree \<and> top_axis (TLeaf 2 2) \<noteq> Some (dp_axis (placement_for Drop_DOWN)) \<longrightarrow> alternates t')"
    by meson
  then show ?thesis using stacked_facts(3) by simp
qed

lemma move_pane_selection_rejected_witness:
  "\<exists>m. move_pane_selection left_pane_selection 1 Drop_UP stacked_layout = Inl (Invalid_argument m)"
proof -
  have sel: "sel_parent left_pane_selection = Some 3"
    "sel_nodes left_pane_selection = map (\<lambda>k. tid (fst k)) [(TLeaf 1 1, 50 :: int)]"
    "[(TLeaf 1 1, 50 :: int)] \<noteq> []"
    by (simp_all add: left_pane_selection_def)
  have "\<not> movable_to [] 3 [] [(TLeaf 1 1, 50)] [(TSplit 5 TOP_TO_BOTTOM [(TLeaf 2 2, 50), (TLeaf 4 3, 50)], 50)]
      (tid (TLeaf 1 1))"
    by (simp add: movable_to_def)
  from move_pane_selection_rejected [OF stacked_layout_inv stacked_contexts(1,3) sel this]
  show ?thesis by simp
qed

end
