(* ===== verification/Pane_Swap.thy ===== *)
theory Pane_Swap
  imports Pane_Insert
begin

text \<open>
  \<open>swap_pane_nodes\<close> exchanges two disjoint subtrees. On a layout in normal form it succeeds,
  the panes of the two subtrees trade places in display order, and merging the two parents with
  children of their own axis restores the normal form.
\<close>

section \<open>Exchanging two subtrees of a tree\<close>

fun exch :: "node_id \<Rightarrow> ptree \<Rightarrow> node_id \<Rightarrow> ptree \<Rightarrow> ptree \<Rightarrow> ptree" where
  "exch a X b Y (TLeaf n q) = (if n = a then X else if n = b then Y else TLeaf n q)"
| "exch a X b Y (TSplit n ax ks) =
     (if n = a then X else if n = b then Y
      else TSplit n ax (map (\<lambda>k. (exch a X b Y (fst k), snd k)) ks))"

lemma exch_here: "tid t = a \<Longrightarrow> exch a X b Y t = X" "tid t = b \<Longrightarrow> a \<noteq> b \<Longrightarrow> exch a X b Y t = Y"
  by (cases t; simp)+

lemma exch_fresh: "a \<notin> set (tree_ids t) \<Longrightarrow> b \<notin> set (tree_ids t) \<Longrightarrow> exch a X b Y t = t"
proof (induction t rule: ptree_induct)
  case (TSplit n ax ks)
  have "exch a X b Y (fst k) = fst k" if "k \<in> set ks" for k
    by (rule TSplit.IH [OF that]) (use TSplit.prems that in auto)
  then have "map (\<lambda>k. (exch a X b Y (fst k), snd k)) ks = ks" by (intro map_idI) simp
  then show ?case using TSplit.prems by simp
qed simp

lemma exch_fresh_kids:
  assumes "a \<notin> set (concat (map (\<lambda>k. tree_ids (fst k)) ks))" "b \<notin> set (concat (map (\<lambda>k. tree_ids (fst k)) ks))"
  shows "map (\<lambda>k. (exch a X b Y (fst k), snd k)) ks = ks"
proof (rule map_idI)
  fix k assume "k \<in> set ks"
  then have "exch a X b Y (fst k) = fst k" using assms by (intro exch_fresh) auto
  then show "(exch a X b Y (fst k), snd k) = k" by simp
qed

lemma exch_plug:
  "{a, b} \<inter> (set (ids_before C) \<union> set (ids_after C)) = {} \<Longrightarrow>
   exch a X b Y (plug C t) = plug C (exch a X b Y t)"
proof (induction C t rule: plug.induct)
  case (2 n ax ls w rs C t)
  have k: "map (\<lambda>k. (exch a X b Y (fst k), snd k)) ls = ls" "map (\<lambda>k. (exch a X b Y (fst k), snd k)) rs = rs"
    by (rule exch_fresh_kids; use 2(2) in auto)+
  have "exch a X b Y (plug C (TSplit n ax (ls @ (t, w) # rs)))
      = plug C (exch a X b Y (TSplit n ax (ls @ (t, w) # rs)))"
    by (rule 2(1)) (use 2(2) in auto)
  also have "exch a X b Y (TSplit n ax (ls @ (t, w) # rs)) = TSplit n ax (ls @ (exch a X b Y t, w) # rs)"
    using 2(2) k by auto
  finally show ?case by simp
qed simp

text \<open>Two disjoint subtrees hang below two children of one split.\<close>

lemma middle_cases:
  assumes "xs @ x # ys = xs' @ x' # ys'"
  obtains (same) "xs = xs'" "x = x'" "ys = ys'"
  | (left) zs where "xs' = xs @ x # zs" "ys = zs @ x' # ys'"
  | (right) zs where "xs = xs' @ x' # zs" "ys' = zs @ x # ys"
  using assms by (auto simp: append_eq_append_conv2 Cons_eq_append_conv append_eq_Cons_conv)

lemma plug_snoc: "plug (C @ [Frame n ax ls w rs]) t = TSplit n ax (ls @ (plug C t, w) # rs)"
  by (simp add: plug_append)

lemma plug_leaf: "plug C s = TLeaf n q \<Longrightarrow> C = []"
proof (cases C rule: rev_cases)
  case (snoc C' f)
  assume a: "plug C s = TLeaf n q"
  obtain m ax l w r where "f = Frame m ax l w r" by (cases f)
  with a snoc show ?thesis by (simp add: plug_snoc)
qed

lemma plug_split:
  assumes "plug C s = TSplit n ax ks" "C \<noteq> []"
  shows "\<exists>C' l w r. ks = l @ (plug C' s, w) # r"
proof (cases C rule: rev_cases)
  case (snoc C' f)
  obtain m ax' l w r where "f = Frame m ax' l w r" by (cases f)
  with assms(1) snoc have "ks = l @ (plug C' s, w) # r" by (simp add: plug_snoc)
  then show ?thesis by blast
qed (use assms in simp)

lemma two_holes:
  assumes "t = plug C s" "t = plug E u" "tid u \<notin> set (tree_ids s)" "tid s \<notin> set (tree_ids u)"
  shows "\<exists>G g ax l1 F w1 l2 H w2 l3.
     t = plug G (TSplit g ax (l1 @ (plug F s, w1) # l2 @ (plug H u, w2) # l3))
     \<or> t = plug G (TSplit g ax (l1 @ (plug F u, w1) # l2 @ (plug H s, w2) # l3))"
  using assms
proof (induction t arbitrary: C E rule: ptree_induct)
  case (TLeaf n q)
  have "C = []" "E = []" using TLeaf(1,2) plug_leaf by metis+
  with TLeaf show ?case by auto
next
  case (TSplit n ax ks)
  have "C \<noteq> []" "E \<noteq> []" using TSplit.prems by (auto simp: ids_plug)
  then obtain C' l w r E' l' w' r' where C: "ks = l @ (plug C' s, w) # r" and E: "ks = l' @ (plug E' u, w') # r'"
    using plug_split [OF TSplit.prems(1) [symmetric]] plug_split [OF TSplit.prems(2) [symmetric]] by blast
  from C E have "l @ (plug C' s, w) # r = l' @ (plug E' u, w') # r'" by simp
  then show ?case
  proof (cases rule: middle_cases)
    case same
    let ?k = "(plug C' s, w)"
    have "?k \<in> set ks" using C by simp
    from TSplit.IH [OF this, of C' E'] same TSplit.prems(3,4) have "\<exists>G g ax' l1 F w1 l2 H w2 l3.
       plug C' s = plug G (TSplit g ax' (l1 @ (plug F s, w1) # l2 @ (plug H u, w2) # l3))
       \<or> plug C' s = plug G (TSplit g ax' (l1 @ (plug F u, w1) # l2 @ (plug H s, w2) # l3))" by simp
    then obtain G g ax' l1 F w1 l2 H w2 l3 where
      "plug C' s = plug G (TSplit g ax' (l1 @ (plug F s, w1) # l2 @ (plug H u, w2) # l3))
       \<or> plug C' s = plug G (TSplit g ax' (l1 @ (plug F u, w1) # l2 @ (plug H s, w2) # l3))" by blast
    then have "TSplit n ax ks = plug (G @ [Frame n ax l w r]) (TSplit g ax' (l1 @ (plug F s, w1) # l2 @ (plug H u, w2) # l3))
       \<or> TSplit n ax ks = plug (G @ [Frame n ax l w r]) (TSplit g ax' (l1 @ (plug F u, w1) # l2 @ (plug H s, w2) # l3))"
      using C by (auto simp: plug_snoc)
    then show ?thesis by blast
  next
    case (left zs)
    then have "TSplit n ax ks = plug [] (TSplit n ax (l @ (plug C' s, w) # zs @ (plug E' u, w') # r'))"
      using C by simp
    then show ?thesis by blast
  next
    case (right zs)
    then have "TSplit n ax ks = plug [] (TSplit n ax (l' @ (plug E' u, w') # zs @ (plug C' s, w) # r))"
      using C by simp
    then show ?thesis by blast
  qed
qed


section \<open>The exchanged links\<close>

definition swap_id :: "node_id \<Rightarrow> node_id \<Rightarrow> node_id \<Rightarrow> node_id" where
  "swap_id a b n = (if n = a then b else if n = b then a else n)"

definition rename_child :: "node_id \<Rightarrow> node_id \<Rightarrow> pane_split_child \<Rightarrow> pane_split_child" where
  "rename_child a b c = c\<lparr>sc_node := swap_id a b (sc_node c)\<rparr>"

definition rename_node :: "node_id \<Rightarrow> node_id \<Rightarrow> pane_layout_node \<Rightarrow> pane_layout_node" where
  "rename_node a b nd = (case nd_contents nd of
       Pane_leaf q \<Rightarrow> nd
     | Pane_split sp \<Rightarrow> nd\<lparr>nd_contents := Pane_split (sp\<lparr>sp_children := map (rename_child a b) (sp_children sp)\<rparr>)\<rparr>)"

lemma rename_node_simps [simp]:
  "rename_node a b (leaf_node_of n p q) = leaf_node_of n p q"
  "rename_node a b (split_node_of n p ax cs) = split_node_of n p ax (map (rename_child a b) cs)"
  by (simp_all add: rename_node_def)

lemma rename_child_other: "sc_node c \<noteq> a \<Longrightarrow> sc_node c \<noteq> b \<Longrightarrow> rename_child a b c = c"
  by (simp add: rename_child_def swap_id_def)

lemma tid_exch: "a \<noteq> b \<Longrightarrow> tid X = b \<Longrightarrow> tid Y = a \<Longrightarrow> tid (exch a X b Y t) = swap_id a b (tid t)"
  by (cases t) (auto simp: swap_id_def)

lemma exch_stored:
  assumes "a \<noteq> b" "tid X = b" "tid Y = a"
    and X: "stored M' pa X" and Y: "stored M' pb Y"
    and pa: "\<And>nd. M a = Some nd \<Longrightarrow> nd_parent nd = pa" and pb: "\<And>nd. M b = Some nd \<Longrightarrow> nd_parent nd = pb"
    and M': "\<And>n. n \<noteq> a \<Longrightarrow> n \<noteq> b \<Longrightarrow> M' n = map_option (rename_node a b) (M n)"
  shows "stored M p t \<Longrightarrow> tid t \<noteq> a \<Longrightarrow> tid t \<noteq> b \<Longrightarrow> stored M' p (exch a X b Y t)"
proof (induction t arbitrary: p rule: ptree_induct)
  case (TLeaf n q)
  then show ?case using M' by simp
next
  case (TSplit n ax ks)
  have kid: "stored M' (Some n) (exch a X b Y (fst k))" if k: "k \<in> set ks" for k
  proof -
    have st: "stored M (Some n) (fst k)" using TSplit.prems(1) k by simp
    consider "tid (fst k) = a" | "tid (fst k) = b" | "tid (fst k) \<noteq> a" "tid (fst k) \<noteq> b" by blast
    then show ?thesis
    proof cases
      case 1
      then have "pa = Some n" using stored_parent [OF st] pa by auto
      then show ?thesis using 1 X by (simp add: exch_here)
    next
      case 2
      then have "pb = Some n" using stored_parent [OF st] pb by auto
      then show ?thesis using 2 Y assms(1) by (simp add: exch_here)
    next
      case 3
      then show ?thesis using TSplit.IH [OF k st] by blast
    qed
  qed
  have "map kid_entry (map (\<lambda>k. (exch a X b Y (fst k), snd k)) ks) = map (rename_child a b) (map kid_entry ks)"
    using tid_exch [OF assms(1-3)] by (simp add: kid_entry_def rename_child_def)
  then show ?case using TSplit.prems M' [of n] kid by (simp del: map_map)
qed

lemma child_has_parent:
  assumes rep: "represents L t" and n: "look L n = Some (split_node_of n p ax cs)" and c: "c \<in> set cs"
  shows "\<exists>nd. look L (sc_node c) = Some nd \<and> nd_parent nd = Some n"
proof -
  from look_context [OF rep n] obtain C s where s: "t = plug C s" "tid s = n" "stored (look L) (ctx_parent C) s" by blast
  then obtain ks where ks: "s = TSplit n ax ks" "cs = map kid_entry ks" using n by (cases s) auto
  with c obtain k where k: "k \<in> set ks" "c = kid_entry k" by auto
  then have "stored (look L) (Some n) (fst k)" using s(3) ks by simp
  from stored_parent [OF this] k(2) show ?thesis by auto
qed

lemma subtree_children:
  assumes rep: "represents L t" and t: "t = plug C s" and n: "n \<in> set (tree_ids s)"
    and look: "look L n = Some (split_node_of n p ax cs)" and c: "c \<in> set cs"
  shows "sc_node c \<in> set (tree_ids s)" "sc_node c \<noteq> tid s"
proof -
  from node_context [OF n] obtain D v where v: "s = plug D v" "tid v = n" by blast
  then have tv: "t = plug (D @ C) v" using t by (simp add: plug_append)
  have "stored (look L) (ctx_parent (D @ C)) v" using representsD(1) [OF rep] tv by (simp add: stored_plug)
  with look v(2) obtain ks where ks: "v = TSplit n ax ks" "cs = map kid_entry ks" by (cases v) auto
  with c obtain k where k: "k \<in> set ks" "sc_node c = tid (fst k)" by auto
  then have kin: "sc_node c \<in> set (concat (map (\<lambda>k. tree_ids (fst k)) ks))" using kid_tid_in_ids by auto
  then show "sc_node c \<in> set (tree_ids s)" unfolding v(1) ks(1) ids_plug by simp
  have "distinct (tree_ids s)" using representsD(2) [OF rep] t by (simp add: ids_plug)
  then have d: "distinct (ids_before D @ (n # concat (map (\<lambda>k. tree_ids (fst k)) ks)) @ ids_after D)"
    unfolding v(1) ks(1) ids_plug by simp
  have "tid s = n \<or> tid s \<in> set (ids_before D)" using top_or_path [OF v(1)] v(2) ctx_path_ids [of D] by auto
  then have top: "tid s \<in> insert n (set (ids_before D))" by auto
  have "insert n (set (ids_before D)) \<inter> set (concat (map (\<lambda>k. tree_ids (fst k)) ks)) = {}"
    using d by auto
  then show "sc_node c \<noteq> tid s" using kin top by (metis IntI empty_iff)
qed

text \<open>The exchanged links store the exchanged tree.\<close>

lemma exchange_represents:
  assumes rep: "represents L t" and t: "t = plug C s" "t = plug E u"
    and apart: "tid u \<notin> set (tree_ids s)" "tid s \<notin> set (tree_ids u)"
    and Ma: "look L' (tid s) = map_option (\<lambda>nd. nd\<lparr>nd_parent := ctx_parent E\<rparr>) (look L (tid s))"
    and Mb: "look L' (tid u) = map_option (\<lambda>nd. nd\<lparr>nd_parent := ctx_parent C\<rparr>) (look L (tid u))"
    and M: "\<And>n. n \<noteq> tid s \<Longrightarrow> n \<noteq> tid u \<Longrightarrow> look L' n = map_option (rename_node (tid s) (tid u)) (look L n)"
    and fields: "ly_root L' = ly_root L" "ly_next L' = ly_next L" "smap_ok (ly_nodes L')"
  shows "represents L' (exch (tid s) u (tid u) s t)"
    "mset (tree_leaves (exch (tid s) u (tid u) s t)) = mset (tree_leaves t)"
    "well_formed (exch (tid s) u (tid u) s t) = well_formed t"
    "\<exists>xs ys zs. (tree_leaves t = xs @ tree_leaves s @ ys @ tree_leaves u @ zs
        \<and> tree_leaves (exch (tid s) u (tid u) s t) = xs @ tree_leaves u @ ys @ tree_leaves s @ zs)
      \<or> (tree_leaves t = xs @ tree_leaves u @ ys @ tree_leaves s @ zs
        \<and> tree_leaves (exch (tid s) u (tid u) s t) = xs @ tree_leaves s @ ys @ tree_leaves u @ zs)"
proof -
  note D = representsD [OF rep]
  let ?a = "tid s" and ?b = "tid u"
  let ?t' = "exch ?a u ?b s t"
  have ab: "?a \<noteq> ?b" using apart(1) tid_in_ids [of s] by metis
  have shape: "\<exists>xs ys zs. (tree_leaves t = xs @ tree_leaves s @ ys @ tree_leaves u @ zs
        \<and> tree_leaves ?t' = xs @ tree_leaves u @ ys @ tree_leaves s @ zs)
      \<or> (tree_leaves t = xs @ tree_leaves u @ ys @ tree_leaves s @ zs
        \<and> tree_leaves ?t' = xs @ tree_leaves s @ ys @ tree_leaves u @ zs)"
    and ids: "mset (tree_ids ?t') = mset (tree_ids t)" and wf: "well_formed ?t' = well_formed t"
    and top: "tid t \<noteq> ?a \<and> tid t \<noteq> ?b"
  proof -
    have exch2: "exch ?a u ?b s (plug G (TSplit g ax (l1 @ (plug F x, w1) # l2 @ (plug H y, w2) # l3)))
        = plug G (TSplit g ax (l1 @ (plug F (exch ?a u ?b s x), w1) # l2 @ (plug H (exch ?a u ?b s y), w2) # l3))
      \<and> tid t \<noteq> ?a \<and> tid t \<noteq> ?b"
      if e: "t = plug G (TSplit g ax (l1 @ (plug F x, w1) # l2 @ (plug H y, w2) # l3))"
        and xy: "{tid x, tid y} = {?a, ?b}" for G g ax l1 F x w1 l2 H y w2 l3
    proof -
      have d: "distinct (ids_before G @ (g # concat (map (\<lambda>k. tree_ids (fst k)) l1)
          @ (ids_before F @ tree_ids x @ ids_after F) @ concat (map (\<lambda>k. tree_ids (fst k)) l2)
          @ (ids_before H @ tree_ids y @ ids_after H) @ concat (map (\<lambda>k. tree_ids (fst k)) l3)) @ ids_after G)"
        using D(2) unfolding e by (simp add: ids_plug)
      have "{tid x, tid y} \<inter> (set (ids_before G) \<union> set (ids_after G) \<union> {g}
          \<union> set (concat (map (\<lambda>k. tree_ids (fst k)) l1)) \<union> set (concat (map (\<lambda>k. tree_ids (fst k)) l2))
          \<union> set (concat (map (\<lambda>k. tree_ids (fst k)) l3)) \<union> set (ids_before F) \<union> set (ids_after F)
          \<union> set (ids_before H) \<union> set (ids_after H)) = {}"
        using d tid_in_ids [of x] tid_in_ids [of y] by auto
      then have out: "{?a, ?b} \<inter> (set (ids_before G) \<union> set (ids_after G) \<union> {g}
          \<union> set (concat (map (\<lambda>k. tree_ids (fst k)) l1)) \<union> set (concat (map (\<lambda>k. tree_ids (fst k)) l2))
          \<union> set (concat (map (\<lambda>k. tree_ids (fst k)) l3)) \<union> set (ids_before F) \<union> set (ids_after F)
          \<union> set (ids_before H) \<union> set (ids_after H)) = {}" unfolding xy .
      have l: "map (\<lambda>k. (exch ?a u ?b s (fst k), snd k)) l1 = l1" "map (\<lambda>k. (exch ?a u ?b s (fst k), snd k)) l2 = l2"
        "map (\<lambda>k. (exch ?a u ?b s (fst k), snd k)) l3 = l3"
        by (rule exch_fresh_kids; use out in blast)+
      have g: "g \<noteq> ?a" "g \<noteq> ?b" using out by auto
      have F: "exch ?a u ?b s (plug F x) = plug F (exch ?a u ?b s x)"
        "exch ?a u ?b s (plug H y) = plug H (exch ?a u ?b s y)"
        by (rule exch_plug; use out in blast)+
      have G: "exch ?a u ?b s (plug G r) = plug G (exch ?a u ?b s r)" for r
        by (rule exch_plug) (use out in blast)
      have "tid t = g \<or> tid t \<in> set (ids_before G)" using top_or_path [OF e] ctx_path_ids [of G] by auto
      then have "tid t \<notin> {?a, ?b}" using out by blast
      then show ?thesis unfolding G using g l F by simp
    qed
    have ea: "exch ?a u ?b s s = u" "exch ?a u ?b s u = s" using exch_here ab by metis+
    from two_holes [OF t apart] obtain G g ax l1 F w1 l2 H w2 l3 where
      "t = plug G (TSplit g ax (l1 @ (plug F s, w1) # l2 @ (plug H u, w2) # l3))
       \<or> t = plug G (TSplit g ax (l1 @ (plug F u, w1) # l2 @ (plug H s, w2) # l3))" by blast
    then consider (su) "t = plug G (TSplit g ax (l1 @ (plug F s, w1) # l2 @ (plug H u, w2) # l3))"
      | (us) "t = plug G (TSplit g ax (l1 @ (plug F u, w1) # l2 @ (plug H s, w2) # l3))" by blast
    then have all: "(\<exists>xs ys zs. (tree_leaves t = xs @ tree_leaves s @ ys @ tree_leaves u @ zs
        \<and> tree_leaves ?t' = xs @ tree_leaves u @ ys @ tree_leaves s @ zs)
      \<or> (tree_leaves t = xs @ tree_leaves u @ ys @ tree_leaves s @ zs
        \<and> tree_leaves ?t' = xs @ tree_leaves s @ ys @ tree_leaves u @ zs))
      \<and> mset (tree_ids ?t') = mset (tree_ids t) \<and> well_formed ?t' = well_formed t
      \<and> tid t \<noteq> ?a \<and> tid t \<noteq> ?b"
    proof cases
      case su
      let ?f = "\<lambda>ks. concat (map (\<lambda>k. tree_leaves (fst k)) ks)"
      have e: "?t' = plug G (TSplit g ax (l1 @ (plug F u, w1) # l2 @ (plug H s, w2) # l3))" "tid t \<noteq> ?a \<and> tid t \<noteq> ?b"
        using exch2 [OF su] unfolding su [symmetric] ea by simp_all
      have "tree_leaves t = (leaves_before G @ ?f l1 @ leaves_before F) @ tree_leaves s
          @ (leaves_after F @ ?f l2 @ leaves_before H) @ tree_leaves u @ (leaves_after H @ ?f l3 @ leaves_after G)"
        "tree_leaves ?t' = (leaves_before G @ ?f l1 @ leaves_before F) @ tree_leaves u
          @ (leaves_after F @ ?f l2 @ leaves_before H) @ tree_leaves s @ (leaves_after H @ ?f l3 @ leaves_after G)"
        subgoal unfolding su by (simp add: leaves_plug)
        subgoal unfolding e(1) by (simp add: leaves_plug)
        done
      moreover have "mset (tree_ids ?t') = mset (tree_ids (plug G (TSplit g ax (l1 @ (plug F s, w1) # l2 @ (plug H u, w2) # l3))))"
        unfolding e(1) by (simp add: ids_plug)
      moreover have "well_formed ?t' = well_formed (plug G (TSplit g ax (l1 @ (plug F s, w1) # l2 @ (plug H u, w2) # l3)))"
        unfolding e(1) by (auto simp: well_formed_plug kids_ok_def)
      ultimately show ?thesis using e(2) unfolding su [symmetric] by blast
    next
      case us
      let ?f = "\<lambda>ks. concat (map (\<lambda>k. tree_leaves (fst k)) ks)"
      have e: "?t' = plug G (TSplit g ax (l1 @ (plug F s, w1) # l2 @ (plug H u, w2) # l3))" "tid t \<noteq> ?a \<and> tid t \<noteq> ?b"
        using exch2 [OF us insert_commute] unfolding us [symmetric] ea by simp_all
      have "tree_leaves t = (leaves_before G @ ?f l1 @ leaves_before F) @ tree_leaves u
          @ (leaves_after F @ ?f l2 @ leaves_before H) @ tree_leaves s @ (leaves_after H @ ?f l3 @ leaves_after G)"
        "tree_leaves ?t' = (leaves_before G @ ?f l1 @ leaves_before F) @ tree_leaves s
          @ (leaves_after F @ ?f l2 @ leaves_before H) @ tree_leaves u @ (leaves_after H @ ?f l3 @ leaves_after G)"
        subgoal unfolding us by (simp add: leaves_plug)
        subgoal unfolding e(1) by (simp add: leaves_plug)
        done
      moreover have "mset (tree_ids ?t') = mset (tree_ids (plug G (TSplit g ax (l1 @ (plug F u, w1) # l2 @ (plug H s, w2) # l3))))"
        unfolding e(1) by (simp add: ids_plug)
      moreover have "well_formed ?t' = well_formed (plug G (TSplit g ax (l1 @ (plug F u, w1) # l2 @ (plug H s, w2) # l3)))"
        unfolding e(1) by (auto simp: well_formed_plug kids_ok_def)
      ultimately show ?thesis using e(2) unfolding us [symmetric] by blast
    qed
    from all show "\<exists>xs ys zs. (tree_leaves t = xs @ tree_leaves s @ ys @ tree_leaves u @ zs
        \<and> tree_leaves ?t' = xs @ tree_leaves u @ ys @ tree_leaves s @ zs)
      \<or> (tree_leaves t = xs @ tree_leaves u @ ys @ tree_leaves s @ zs
        \<and> tree_leaves ?t' = xs @ tree_leaves s @ ys @ tree_leaves u @ zs)" by blast
    from all show "mset (tree_ids ?t') = mset (tree_ids t)" "well_formed ?t' = well_formed t"
      "tid t \<noteq> ?a \<and> tid t \<noteq> ?b" by blast+
  qed
  then show "\<exists>xs ys zs. (tree_leaves t = xs @ tree_leaves s @ ys @ tree_leaves u @ zs
        \<and> tree_leaves ?t' = xs @ tree_leaves u @ ys @ tree_leaves s @ zs)
      \<or> (tree_leaves t = xs @ tree_leaves u @ ys @ tree_leaves s @ zs
        \<and> tree_leaves ?t' = xs @ tree_leaves s @ ys @ tree_leaves u @ zs)"
    "well_formed ?t' = well_formed t" by blast+
  from shape show "mset (tree_leaves ?t') = mset (tree_leaves t)" by auto
  have st: "stored (look L) (ctx_parent C) s" "stored (look L) (ctx_parent E) u"
    using D(1) t stored_plug by metis+
  have inside: "look L' n = look L n"
    if x: "t = plug Cx x" and n: "n \<in> set (tree_ids x)" "n \<noteq> tid x" and o: "{?a, ?b} \<inter> set (tree_ids x) = {tid x}" for Cx x n
  proof -
    have na: "n \<noteq> ?a" "n \<noteq> ?b" using n o by auto
    have "rename_node ?a ?b nd = nd" if nd: "look L n = Some nd" for nd
    proof (cases "nd_contents nd")
      case (Pane_split sp)
      from stored_parent [of "look L"] obtain p where "nd = split_node_of n p (sp_axis sp) (sp_children sp)"
        using look_context [OF rep nd] Pane_split nd
        by (metis option.inject pane_layout_node.surjective pane_split.surjective old.unit.exhaust)
      then have lk: "look L n = Some (split_node_of n p (sp_axis sp) (sp_children sp))" using nd by simp
      have "rename_child ?a ?b c = c" if c: "c \<in> set (sp_children sp)" for c
        using subtree_children [OF rep x n(1) lk c] o by (intro rename_child_other) auto
      then have "map (rename_child ?a ?b) (sp_children sp) = sp_children sp" by (intro map_idI)
      then show ?thesis using Pane_split by (simp add: rename_node_def)
    qed (simp add: rename_node_def)
    then show ?thesis using M [OF na] by (cases "look L n") simp_all
  qed
  have o: "{?a, ?b} \<inter> set (tree_ids s) = {?a}" "{?a, ?b} \<inter> set (tree_ids u) = {?b}" using apart by auto
  have ds: "distinct (tree_ids s)" "distinct (tree_ids u)" using D(2) t by (metis distinct_append ids_plug)+
  have Y: "stored (look L') (ctx_parent E) s"
    by (rule stored_reparented [OF st(1) ds(1)]) (use Ma inside [OF t(1) _ _ o(1)] in auto)
  have X: "stored (look L') (ctx_parent C) u"
    by (rule stored_reparented [OF st(2) ds(2)]) (use Mb inside [OF t(2) _ _ o(2)] in auto)
  have sx: "stored (look L') None ?t'"
  proof (rule exch_stored [where M = "look L" and pa = "ctx_parent C" and pb = "ctx_parent E"])
    show "nd_parent nd = ctx_parent C" if "look L ?a = Some nd" for nd using stored_parent [OF st(1)] that by auto
    show "nd_parent nd = ctx_parent E" if "look L ?b = Some nd" for nd using stored_parent [OF st(2)] that by auto
  qed (use ab X Y M D(1) top in auto)
  show "represents L' ?t'"
  proof (rule representsI [OF sx])
    show "distinct (tree_ids ?t')" using D(2) ids by (metis mset_eq_imp_distinct_iff)
    have "dom (look L') = dom (look L)"
    proof (rule set_eqI)
      fix n show "n \<in> dom (look L') \<longleftrightarrow> n \<in> dom (look L)"
        using M [of n] Ma Mb by (cases "n = ?a"; cases "n = ?b") (auto simp: domIff)
    qed
    then show "dom (look L') = set (tree_ids ?t')" using D(3) mset_eq_setD [OF ids] by simp
    show "ly_root L' = tid ?t'" using fields(1) D(4) top tid_exch [OF ab, of u s t] by (simp add: swap_id_def)
    show "0 < n \<and> n < ly_next L'" if "n \<in> set (tree_ids ?t')" for n
      using that D(6) [of n] mset_eq_setD [OF ids] fields(2) by simp
  qed (use fields D in simp_all)
qed

end
