(* ===== verification/Pane_Swap_Correct.thy ===== *)
theory Pane_Swap_Correct
  imports Pane_Swap
begin

text \<open>
  \<open>swap_pane_nodes\<close> on a layout: the links it writes exchange two disjoint subtrees
  (theory \<open>Pane_Swap\<close>), and the two flattenings restore the normal form. Outside
  normal form the first flattening may erase the parent the second one asks for, and then the
  swap throws; \<open>alternates_but\<close> is the normal form with some splits excepted, which is
  how far the exchange can disturb it.
\<close>

section \<open>The links the code writes\<close>

lemma split_node_shape:
  assumes "represents L t" "look L n = Some nd" "nd_contents nd = Pane_split sp"
  shows "nd = split_node_of n (nd_parent nd) (sp_axis sp) (sp_children sp)"
proof -
  from look_context [OF assms(1,2)] obtain C s where s: "tid s = n" "stored (look L) (ctx_parent C) s" by blast
  from stored_parent [OF s(2)] s(1) assms(2) have "nd_id nd = n" by auto
  with assms(3) show ?thesis by (cases nd; cases sp) simp
qed

lemma child_position_nth_iff:
  "child_position cs x = Some i \<Longrightarrow> i < length cs \<and> sc_node (cs ! i) = x"
  by (induction cs arbitrary: i) (auto split: if_splits)

lemma rename_one:
  assumes "distinct (map sc_node cs)" "child_position cs a = Some i" "b \<notin> set (map sc_node cs)"
  shows "cs[i := (cs ! i)\<lparr>sc_node := b\<rparr>] = map (rename_child a b) cs"
proof (rule nth_equalityI)
  fix k assume "k < length (cs[i := (cs ! i)\<lparr>sc_node := b\<rparr>])"
  then have k: "k < length cs" by simp
  note i = child_position_nth_iff [OF assms(2)]
  have "sc_node (cs ! k) \<noteq> b" using assms(3) k by (metis length_map nth_map nth_mem)
  moreover have "sc_node (cs ! k) = a \<longleftrightarrow> k = i"
    using i k nth_eq_iff_index_eq [OF assms(1), of k i] by auto
  ultimately show "cs[i := (cs ! i)\<lparr>sc_node := b\<rparr>] ! k = map (rename_child a b) cs ! k"
    using k i by (cases "k = i") (simp_all add: rename_child_def swap_id_def)
qed simp

lemma rename_one': "rename_child a b = rename_child b a"
  by (simp add: rename_child_def swap_id_def fun_eq_iff)

lemma rename_two:
  assumes "distinct (map sc_node cs)" "child_position cs a = Some i" "child_position cs b = Some j" "a \<noteq> b"
  shows "(cs[i := (cs ! i)\<lparr>sc_node := b\<rparr>])
     [j := (cs[i := (cs ! i)\<lparr>sc_node := b\<rparr>] ! j)\<lparr>sc_node := a\<rparr>] = map (rename_child a b) cs"
proof (rule nth_equalityI)
  fix k assume "k < length ((cs[i := (cs ! i)\<lparr>sc_node := b\<rparr>])
     [j := (cs[i := (cs ! i)\<lparr>sc_node := b\<rparr>] ! j)\<lparr>sc_node := a\<rparr>])"
  then have k: "k < length cs" by simp
  note i = child_position_nth_iff [OF assms(2)] and j = child_position_nth_iff [OF assms(3)]
  have ij: "i \<noteq> j" using i j assms(4) by auto
  have "sc_node (cs ! k) = a \<longleftrightarrow> k = i" "sc_node (cs ! k) = b \<longleftrightarrow> k = j"
    using i j k nth_eq_iff_index_eq [OF assms(1), of k i] nth_eq_iff_index_eq [OF assms(1), of k j] by auto
  then show "(cs[i := (cs ! i)\<lparr>sc_node := b\<rparr>])
     [j := (cs[i := (cs ! i)\<lparr>sc_node := b\<rparr>] ! j)\<lparr>sc_node := a\<rparr>] ! k = map (rename_child a b) cs ! k"
    using k i j ij assms(4) by (cases "k = i"; cases "k = j") (simp_all add: rename_child_def swap_id_def)
qed simp

lemma rename_node_other:
  assumes rep: "represents L t" and nd: "look L n = Some nd"
    and a: "look L a = Some na" "nd_parent na \<noteq> Some n" and b: "look L b = Some nb" "nd_parent nb \<noteq> Some n"
  shows "rename_node a b nd = nd"
proof (cases "nd_contents nd")
  case (Pane_split sp)
  note sh = split_node_shape [OF rep nd Pane_split]
  have "rename_child a b c = c" if c: "c \<in> set (sp_children sp)" for c
  proof -
    from child_has_parent [OF rep _ c] nd sh obtain cd
      where "look L (sc_node c) = Some cd" "nd_parent cd = Some n" by metis
    with a b have "sc_node c \<noteq> a" "sc_node c \<noteq> b" by auto
    then show ?thesis by (rule rename_child_other)
  qed
  then have "map (rename_child a b) (sp_children sp) = sp_children sp" by (intro map_idI)
  then show ?thesis using Pane_split by (simp add: rename_node_def)
qed (simp add: rename_node_def)


lemma parent_split_facts:
  assumes rep: "represents L t" and t: "t = plug (Frame p ax ls w rs # C) s"
  shows "look L p = Some (split_node_of p (ctx_parent C) ax (map kid_entry (ls @ (s, w) # rs)))"
    "distinct (map sc_node (map kid_entry (ls @ (s, w) # rs)))"
    "child_position (map kid_entry (ls @ (s, w) # rs)) (tid s) = Some (length ls)"
    "\<exists>nd. look L (tid s) = Some nd \<and> nd_parent nd = Some p" "p \<noteq> tid s"
proof -
  note D = representsD [OF rep]
  have st: "stored (look L) (Some p) s" "ctx_stored (look L) (Frame p ax ls w rs # C) (tid s)"
    using D(1) t stored_plug by (metis ctx_parent.simps(2))+
  show "look L p = Some (split_node_of p (ctx_parent C) ax (map kid_entry (ls @ (s, w) # rs)))"
    using st(2) by (simp add: kid_entry_def)
  have d: "distinct (tree_ids (TSplit p ax (ls @ (s, w) # rs)))"
    using D(2) unfolding t plug.simps ids_plug distinct_append by blast
  have "distinct (map (\<lambda>k. tid (fst k)) (ls @ (s, w) # rs))"
    by (rule kid_tids_distinct) (use d in simp)
  then show dd: "distinct (map sc_node (map kid_entry (ls @ (s, w) # rs)))" by (simp add: comp_def)
  then have "tid s \<notin> sc_node ` set (map kid_entry ls)" by (auto simp: image_image)
  from child_position_append [OF this]
  show "child_position (map kid_entry (ls @ (s, w) # rs)) (tid s) = Some (length ls)"
    by (simp add: kid_entry_def)
  show "\<exists>nd. look L (tid s) = Some nd \<and> nd_parent nd = Some p" using stored_parent [OF st(1)] by auto
  show "p \<noteq> tid s" using d tid_in_ids [of s] by auto
qed


lemma map_memberD: "x \<in> set (map f xs) \<Longrightarrow> \<exists>c. c \<in> set xs \<and> f c = x"
  by auto

lemma parents_apart:
  assumes rep: "represents L t" and t: "t = plug (Frame p ax ls w rs # C) s" "t = plug E u"
    and apart: "tid s \<notin> set (tree_ids u)"
  shows "p \<noteq> tid u"
proof
  assume "p = tid u"
  then have "TSplit p ax (ls @ (s, w) # rs) = u"
    using subtree_unique [OF rep _ t(2), of C "TSplit p ax (ls @ (s, w) # rs)"] t(1) by simp
  then have "tid s \<in> set (tree_ids u)" using tid_in_ids [of s] by auto
  with apart show False by simp
qed

lemma exchange_same_parent:
  assumes "a \<noteq> b" "look L a = Some na" "nd_parent na = Some p" "look L b = Some nb" "nd_parent nb = Some p"
    and "is_ancestor L a b = Inr False" "is_ancestor L b a = Inr False"
    and "look L p = Some (split_node_of p r ax cs)" "p \<noteq> a" "p \<noteq> b"
    and "child_position cs a = Some i" "child_position cs b = Some j"
    and cs1: "cs[i := (cs ! i)\<lparr>sc_node := b\<rparr>] = cs1" and cs2: "cs1[j := (cs1 ! j)\<lparr>sc_node := a\<rparr>] = cs2"
  shows "exchange_nodes a b L = and_then (flatten_matching_split_children p
     (write_node b (nb\<lparr>nd_parent := Some p\<rparr>) (write_node a (na\<lparr>nd_parent := Some p\<rparr>)
       (write_node p (split_node_of p r ax cs2) (write_node p (split_node_of p r ax cs1) L))))) (\<lambda>L5. Inr (True, L5))"
  using assms by (simp add: exchange_nodes_def layout_access move_child_index_def)

lemma exchange_two_parents:
  assumes "a \<noteq> b" "look L a = Some na" "nd_parent na = Some p" "look L b = Some nb" "nd_parent nb = Some q"
    and "is_ancestor L a b = Inr False" "is_ancestor L b a = Inr False"
    and "look L p = Some (split_node_of p r ax cs)" "look L q = Some (split_node_of q r' ay ds)"
    and "p \<noteq> a" "p \<noteq> b" "q \<noteq> a" "q \<noteq> b" "p \<noteq> q"
    and "child_position cs a = Some i" "child_position ds b = Some j"
    and cs1: "cs[i := (cs ! i)\<lparr>sc_node := b\<rparr>] = cs1" and ds1: "ds[j := (ds ! j)\<lparr>sc_node := a\<rparr>] = ds1"
  shows "exchange_nodes a b L = and_then (flatten_matching_split_children p
     (write_node b (nb\<lparr>nd_parent := Some p\<rparr>) (write_node a (na\<lparr>nd_parent := Some q\<rparr>)
       (write_node q (split_node_of q r' ay ds1) (write_node p (split_node_of p r ax cs1) L)))))
     (\<lambda>L5. and_then (flatten_matching_split_children q L5) (\<lambda>L6. Inr (True, L6)))"
  using assms by (simp add: exchange_nodes_def layout_access move_child_index_def)

text \<open>Up to the two flattenings, the code exchanges exactly the four links of the two nodes.\<close>

lemma exchange_links:
  assumes rep: "represents L t" and t: "t = plug (Frame p ax ls w rs # C) s" "t = plug (Frame q ay ls' w' rs' # E) u"
    and apart: "tid u \<notin> set (tree_ids s)" "tid s \<notin> set (tree_ids u)"
  shows "\<exists>L4. exchange_nodes (tid s) (tid u) L =
       and_then (flatten_matching_split_children p L4) (\<lambda>L5.
       and_then (if q \<noteq> p then flatten_matching_split_children q L5 else Inr L5) (\<lambda>L6. Inr (True, L6)))
     \<and> look L4 (tid s) = map_option (\<lambda>nd. nd\<lparr>nd_parent := Some q\<rparr>) (look L (tid s))
     \<and> look L4 (tid u) = map_option (\<lambda>nd. nd\<lparr>nd_parent := Some p\<rparr>) (look L (tid u))
     \<and> (\<forall>n. n \<noteq> tid s \<longrightarrow> n \<noteq> tid u \<longrightarrow> look L4 n = map_option (rename_node (tid s) (tid u)) (look L n))
     \<and> ly_root L4 = ly_root L \<and> ly_next L4 = ly_next L \<and> smap_ok (ly_nodes L4)"
proof -
  let ?a = "tid s" and ?b = "tid u"
  let ?cs = "map kid_entry (ls @ (s, w) # rs)" and ?ds = "map kid_entry (ls' @ (u, w') # rs')"
  note P = parent_split_facts [OF rep t(1)] and Q = parent_split_facts [OF rep t(2)]
  obtain na nb where na: "look L ?a = Some na" "nd_parent na = Some p"
    and nb: "look L ?b = Some nb" "nd_parent nb = Some q" using P(4) Q(4) by blast
  have ab: "?a \<noteq> ?b" using apart(1) tid_in_ids [of s] by metis
  have pb: "p \<noteq> ?b" by (rule parents_apart [OF rep t apart(2)])
  have qa: "q \<noteq> ?a" by (rule parents_apart [OF rep t(2,1) apart(1)])
  have "?a \<notin> set (ctx_path (Frame q ay ls' w' rs' # E))" "?b \<notin> set (ctx_path (Frame p ax ls w rs # C))"
    using apart below_iff [OF rep t] below_iff [OF rep t(2,1)] by blast+
  then have anc: "is_ancestor L ?a ?b = Inr False" "is_ancestor L ?b ?a = Inr False"
    using is_ancestor_eq [OF rep [unfolded t(2)], of ?a] is_ancestor_eq [OF rep [unfolded t(1)], of ?b]
    by (simp_all del: ctx_path.simps)
  have other: "rename_node ?a ?b nd = nd" if "look L n = Some nd" "n \<noteq> p" "n \<noteq> q" for n nd
    by (rule rename_node_other [OF rep that(1) na(1) _ nb(1)]) (use na nb that in auto)
  show ?thesis
  proof (cases "q = p")
    case True
    have "TSplit p ax (ls @ (s, w) # rs) = TSplit q ay (ls' @ (u, w') # rs')"
      using subtree_unique [OF rep, of C "TSplit p ax (ls @ (s, w) # rs)" E "TSplit q ay (ls' @ (u, w') # rs')"]
        t True by simp
    then have same: "ls' @ (u, w') # rs' = ls @ (s, w) # rs" by simp
    have cp: "child_position ?cs ?b = Some (length ls')" using Q(3) unfolding same .
    note two = rename_two [OF P(2,3) cp ab]
    let ?L2 = "write_node p (split_node_of p (ctx_parent C) ax (map (rename_child ?a ?b) ?cs)) L"
    let ?L4 = "write_node ?b (nb\<lparr>nd_parent := Some p\<rparr>) (write_node ?a (na\<lparr>nd_parent := Some p\<rparr>)
      (write_node p (split_node_of p (ctx_parent C) ax (map (rename_child ?a ?b) ?cs))
        (write_node p (split_node_of p (ctx_parent C) ax
          (?cs[length ls := (?cs ! length ls)\<lparr>sc_node := ?b\<rparr>])) L)))"
    have "exchange_nodes ?a ?b L = and_then (flatten_matching_split_children p ?L4) (\<lambda>L5. Inr (True, L5))"
      by (rule exchange_same_parent [OF ab na nb(1) _ anc P(1,5) pb P(3) cp refl two]) (use nb(2) True in simp)
    moreover have "look ?L4 n = map_option (rename_node ?a ?b) (look L n)" if "n \<noteq> ?a" "n \<noteq> ?b" for n
      using that P(1) other [of n] True by (cases "look L n") auto
    ultimately show ?thesis using True ab na nb representsD(5) [OF rep]
      by (intro exI [of _ ?L4]) simp
  next
    case False
    have b_out: "?b \<notin> set (map sc_node ?cs)"
    proof
      assume "?b \<in> set (map sc_node ?cs)"
      from map_memberD [OF this] obtain c where "c \<in> set ?cs" "sc_node c = ?b" by blast
      from child_has_parent [OF rep P(1) this(1)] this(2) nb False show False by auto
    qed
    have a_out: "?a \<notin> set (map sc_node ?ds)"
    proof
      assume "?a \<in> set (map sc_node ?ds)"
      from map_memberD [OF this] obtain c where "c \<in> set ?ds" "sc_node c = ?a" by blast
      from child_has_parent [OF rep Q(1) this(1)] this(2) na False show False by auto
    qed
    note one = rename_one [OF P(2,3) b_out] and one' = rename_one [OF Q(2,3) a_out, folded rename_one' [of ?a]]
    let ?L4 = "write_node ?b (nb\<lparr>nd_parent := Some p\<rparr>) (write_node ?a (na\<lparr>nd_parent := Some q\<rparr>)
      (write_node q (split_node_of q (ctx_parent E) ay (map (rename_child ?a ?b) ?ds))
        (write_node p (split_node_of p (ctx_parent C) ax (map (rename_child ?a ?b) ?cs)) L)))"
    have "exchange_nodes ?a ?b L = and_then (flatten_matching_split_children p ?L4) (\<lambda>L5.
       and_then (flatten_matching_split_children q L5) (\<lambda>L6. Inr (True, L6)))"
      by (rule exchange_two_parents [OF ab na nb anc P(1) Q(1) P(5) pb qa Q(5) _ P(3) Q(3) one one'])
        (use False in simp)
    moreover have "look ?L4 n = map_option (rename_node ?a ?b) (look L n)" if "n \<noteq> ?a" "n \<noteq> ?b" for n
      using that P(1) Q(1) other [of n] False by (cases "look L n") auto
    ultimately show ?thesis using False ab na nb representsD(5) [OF rep]
      by (intro exI [of _ ?L4]) simp
  qed
qed


section \<open>The normal form around the exchanged subtrees\<close>

text \<open>Normal form, the splits \<open>S\<close> excepted.\<close>

fun alternates_but :: "node_id set \<Rightarrow> ptree \<Rightarrow> bool" where
  "alternates_but S (TLeaf n p) = True"
| "alternates_but S (TSplit n ax ks) =
     ((n \<in> S \<or> (\<forall>k \<in> set ks. top_axis (fst k) \<noteq> Some ax)) \<and> (\<forall>k \<in> set ks. alternates_but S (fst k)))"

lemma alternates_but_none: "alternates_but {} t = alternates t"
  by (induction t rule: ptree_induct) (simp_all add: ball_conj_distrib)

lemma alternates_but_mono: "alternates_but S t \<Longrightarrow> S \<subseteq> T \<Longrightarrow> alternates_but T t"
  by (induction t rule: ptree_induct) auto

lemma alternates_imp_but: "alternates t \<Longrightarrow> alternates_but S t"
  using alternates_but_mono [of "{}" t S] by (simp add: alternates_but_none)

lemma alternates_but_plug: "alternates_but S (plug C v) \<Longrightarrow> alternates_but S v"
  by (induction C v rule: plug.induct) auto

lemma alternates_but_cong: "S \<inter> set (tree_ids t) = T \<inter> set (tree_ids t) \<Longrightarrow> alternates_but S t = alternates_but T t"
proof (induction t rule: ptree_induct)
  case (TSplit n ax ks)
  have "alternates_but S (fst k) = alternates_but T (fst k)" if k: "k \<in> set ks" for k
  proof (rule TSplit.IH [OF k])
    have "set (tree_ids (fst k)) \<subseteq> set (tree_ids (TSplit n ax ks))" using k by auto
    with TSplit.prems show "S \<inter> set (tree_ids (fst k)) = T \<inter> set (tree_ids (fst k))" by blast
  qed
  moreover have "n \<in> S \<longleftrightarrow> n \<in> T" using TSplit.prems by auto
  ultimately show ?case by simp
qed simp

lemma exch_alternates:
  assumes X: "alternates X" and Y: "alternates Y"
    and pa: "\<And>nd. M a = Some nd \<Longrightarrow> nd_parent nd = Some p" and pb: "\<And>nd. M b = Some nd \<Longrightarrow> nd_parent nd = Some q"
  shows "stored M r t \<Longrightarrow> alternates t \<Longrightarrow> alternates_but {p, q} (exch a X b Y t)"
proof (induction t arbitrary: r rule: ptree_induct)
  case (TSplit n ax ks)
  show ?case
  proof (cases "n = a \<or> n = b")
    case True
    then show ?thesis using X Y by (auto intro: alternates_imp_but)
  next
    case False
    have kid: "alternates_but {p, q} (exch a X b Y (fst k))"
      "n \<in> {p, q} \<or> top_axis (exch a X b Y (fst k)) \<noteq> Some ax" if k: "k \<in> set ks" for k
    proof -
      have st: "stored M (Some n) (fst k)" and al: "alternates (fst k)" and ax: "top_axis (fst k) \<noteq> Some ax"
        using TSplit.prems k by simp_all
      show "alternates_but {p, q} (exch a X b Y (fst k))" by (rule TSplit.IH [OF k st al])
      show "n \<in> {p, q} \<or> top_axis (exch a X b Y (fst k)) \<noteq> Some ax"
      proof (cases "tid (fst k) = a \<or> tid (fst k) = b")
        case True
        then show ?thesis using stored_parent [OF st] pa pb by auto
      next
        case False
        then have "top_axis (exch a X b Y (fst k)) = top_axis (fst k)" by (cases "fst k") simp_all
        with ax show ?thesis by simp
      qed
    qed
    then show ?thesis using False by auto
  qed
qed (use X Y in \<open>auto intro: alternates_imp_but\<close>)

text \<open>Flattening a split takes it out of the exceptions.\<close>

lemma flatten_alternates:
  assumes fl: "flattenable ks"
    and al: "alternates_but (insert n S) (TSplit n ax ks)" and fresh: "n \<notin> set (concat (map (\<lambda>k. tree_ids (fst k)) ks))"
    and top: "\<forall>k \<in> set ks. top_axis (fst k) = Some ax \<longrightarrow> tid (fst k) \<notin> S"
  shows "alternates_but S (TSplit n ax (flatten_kids ax ks))"
proof -
  have one: "\<forall>k' \<in> set (flatten_kid ax k). top_axis (fst k') \<noteq> Some ax \<and> alternates_but S (fst k')"
    if k: "k \<in> set ks" for k
  proof -
    have n: "n \<notin> set (tree_ids (fst k))" using fresh k by auto
    have but: "alternates_but S (fst k)"
      using al k alternates_but_cong [of "insert n S" "fst k" S] n by auto
    show ?thesis
    proof (cases "top_axis (fst k) = Some ax")
      case True
      then obtain c js w where k': "k = (TSplit c ax js, w)" by (cases k; cases "fst k") auto
      have f: "0 \<le> snd k" "snd k \<le> 100" "well_formed (fst k)" using fl k unfolding flattenable_def by blast+
      then have ok: "kids_ok js" "0 \<le> w" "w \<le> 100" using k' by simp_all
      have "c \<notin> S" using top k k' by fastforce
      then have "\<forall>j \<in> set js. top_axis (fst j) \<noteq> Some ax \<and> alternates_but S (fst j)"
        using but k' by simp
      then show ?thesis
        using promote_fields(2) [OF ok, of "\<lambda>t. top_axis t \<noteq> Some ax \<and> alternates_but S t"] k' by simp
    next
      case False
      then show ?thesis using but by (simp add: flatten_kid_other)
    qed
  qed
  have "\<forall>k' \<in> set (flatten_kids ax ks). top_axis (fst k') \<noteq> Some ax \<and> alternates_but S (fst k')"
  proof
    fix k' assume "k' \<in> set (flatten_kids ax ks)"
    then obtain k where "k \<in> set ks" "k' \<in> set (flatten_kid ax k)"
      unfolding flatten_kids_def set_concat set_map by blast
    with one show "top_axis (fst k') \<noteq> Some ax \<and> alternates_but S (fst k')" by blast
  qed
  then show ?thesis by simp
qed

lemma plug_alternates_but:
  assumes "alternates_but T (plug C v)" "top_axis v' = top_axis v" "alternates_but S v'"
    and "T \<inter> (set (ids_before C) \<union> set (ids_after C)) \<subseteq> S"
  shows "alternates_but S (plug C v')"
  using assms
proof (induction C v arbitrary: v' rule: plug.induct)
  case (2 n ax ls w rs C v)
  have sub: "alternates_but T (TSplit n ax (ls @ (v, w) # rs))"
    by (rule alternates_but_plug) (use 2(2) in simp)
  have k: "alternates_but S (fst k)" if "k \<in> set (ls @ rs)" for k
  proof -
    have "alternates_but T (fst k)" using sub that by auto
    then have "alternates_but (T \<inter> set (tree_ids (fst k))) (fst k)"
      using alternates_but_cong [of T "fst k" "T \<inter> set (tree_ids (fst k))"] by blast
    moreover have "set (tree_ids (fst k)) \<subseteq> set (ids_before (Frame n ax ls w rs # C)) \<union> set (ids_after (Frame n ax ls w rs # C))"
      using that by auto
    then have "T \<inter> set (tree_ids (fst k)) \<subseteq> S" using 2(5) by blast
    ultimately show ?thesis by (rule alternates_but_mono)
  qed
  have "alternates_but S (plug C (TSplit n ax (ls @ (v', w) # rs)))"
  proof (rule 2(1))
    show "alternates_but T (plug C (TSplit n ax (ls @ (v, w) # rs)))" using 2(2) by simp
    have "n \<in> T \<Longrightarrow> n \<in> S" using 2(5) by auto
    then show "alternates_but S (TSplit n ax (ls @ (v', w) # rs))"
      using sub k 2(3,4) by (auto simp: ball_Un)
    show "T \<inter> (set (ids_before C) \<union> set (ids_after C)) \<subseteq> S" using 2(5) by auto
  qed simp
  then show ?case by simp
qed simp


lemma well_formed_flattenable:
  assumes "well_formed (TSplit n ax ks)"
  shows "flattenable ks"
  unfolding flattenable_def
proof
  fix k assume k: "k \<in> set ks"
  have nn: "\<forall>x \<in> set (map snd ks). 0 \<le> x" and s: "sum_list (map snd ks) = 100"
    using assms by (auto simp: kids_ok_def)
  have "snd k \<in> set (map snd ks)" using k by auto
  then have "snd k \<le> sum_list (map snd ks)" by (rule member_le_sum_list) (use nn in blast)
  then show "0 \<le> snd k \<and> snd k \<le> 100 \<and> well_formed (fst k)" using nn s k assms by simp
qed

text \<open>One flattening of a represented tree.\<close>

lemma flatten_step:
  assumes rep: "represents L t" and wf: "well_formed t"
    and n: "look L n = Some (split_node_of n r ax cs)"
  shows "\<exists>L' C ks. t = plug C (TSplit n ax ks) \<and> cs = map kid_entry ks
    \<and> flatten_matching_split_children n L = Inr L'
    \<and> represents L' (plug C (TSplit n ax (flatten_kids ax ks)))
    \<and> well_formed (plug C (TSplit n ax (flatten_kids ax ks)))
    \<and> tree_leaves (plug C (TSplit n ax (flatten_kids ax ks))) = tree_leaves t
    \<and> set (tree_ids t) - set (flattened_ids ax ks) \<subseteq> set (tree_ids (plug C (TSplit n ax (flatten_kids ax ks))))
    \<and> (\<forall>S. alternates_but (insert n S) t \<and> (\<forall>k \<in> set ks. top_axis (fst k) = Some ax \<longrightarrow> tid (fst k) \<notin> S)
         \<longrightarrow> alternates_but S (plug C (TSplit n ax (flatten_kids ax ks))))"
proof -
  from look_context [OF rep n] obtain C v where v: "t = plug C v" "tid v = n" "stored (look L) (ctx_parent C) v" by blast
  with n obtain ks where ks: "v = TSplit n ax ks" "cs = map kid_entry ks" by (cases v) auto
  have t: "t = plug C (TSplit n ax ks)" using v(1) ks(1) by simp
  have wfs: "ctx_well_formed C" "well_formed (TSplit n ax ks)" using wf unfolding t well_formed_plug by blast+
  note fl = well_formed_flattenable [OF wfs(2)]
  have len: "2 \<le> length ks" "sum_list (map snd ks) = 100" using wfs(2) by (simp_all add: kids_ok_def)
  note ff = flattened_split_facts [OF fl len, of n ax]
  obtain L' where L': "flatten_matching_split_children n L = Inr L'"
    "represents L' (plug C (TSplit n ax (flatten_kids ax ks)))"
    using flatten_matching_split_children_eq [OF rep [unfolded t] fl] by blast
  have "well_formed (plug C (TSplit n ax (flatten_kids ax ks)))" unfolding well_formed_plug using wfs ff(1) by blast
  moreover have "tree_leaves (plug C (TSplit n ax (flatten_kids ax ks))) = tree_leaves t"
    unfolding t leaves_plug ff(2) ..
  moreover have "set (tree_ids t) - set (flattened_ids ax ks) \<subseteq> set (tree_ids (plug C (TSplit n ax (flatten_kids ax ks))))"
    using mset_eq_setD [OF flatten_kids_facts(3) [OF fl, of ax]] unfolding t ids_plug by auto
  moreover have "alternates_but S (plug C (TSplit n ax (flatten_kids ax ks)))"
    if a: "alternates_but (insert n S) t" "\<forall>k \<in> set ks. top_axis (fst k) = Some ax \<longrightarrow> tid (fst k) \<notin> S" for S
  proof (rule plug_alternates_but)
    show "alternates_but (insert n S) (plug C (TSplit n ax ks))" using a(1) t by simp
    have d: "distinct (ids_before C @ (n # concat (map (\<lambda>k. tree_ids (fst k)) ks)) @ ids_after C)"
      using representsD(2) [OF rep] unfolding t ids_plug by simp
    then have "n \<notin> set (ids_before C) \<union> set (ids_after C)" by auto
    then show "insert n S \<inter> (set (ids_before C) \<union> set (ids_after C)) \<subseteq> S" by blast
    have "n \<notin> set (concat (map (\<lambda>k. tree_ids (fst k)) ks))" using d unfolding distinct_append distinct.simps by blast
    then show "alternates_but S (TSplit n ax (flatten_kids ax ks))"
      using flatten_alternates [OF fl _ _ a(2)] a(1) alternates_but_plug unfolding t by blast
  qed simp
  ultimately show ?thesis using L' t ks(2) by blast
qed

lemma missing_split_throws:
  "look L n = None \<Longrightarrow> flatten_matching_split_children n L = Inl (Out_of_range ''map::at'')"
  by (simp add: flatten_matching_split_children_def at_split_def)

lemma leaf_not_split:
  assumes "represents L t" "look L n = Some (split_node_of n r ax cs)"
  shows "n \<notin> fst ` set (tree_leaves t)"
proof
  assume "n \<in> fst ` set (tree_leaves t)"
  then obtain q where "(n, q) \<in> set (tree_leaves t)" by auto
  from leaf_context [OF this] obtain C where "t = plug C (TLeaf n q)" by blast
  then have "stored (look L) (ctx_parent C) (TLeaf n q)" using representsD(1) [OF assms(1)] stored_plug by metis
  with assms(2) show False by simp
qed

lemma split_if_not_leaf:
  assumes rep: "represents L t" and n: "n \<in> set (tree_ids t)" "n \<notin> fst ` set (tree_leaves t)"
  shows "\<exists>r ax cs. look L n = Some (split_node_of n r ax cs)"
proof -
  from node_context [OF n(1)] obtain C v where v: "t = plug C v" "tid v = n" by blast
  have st: "stored (look L) (ctx_parent C) v" using representsD(1) [OF rep] v stored_plug by metis
  show ?thesis
  proof (cases v)
    case (TLeaf m q)
    then have "(n, q) \<in> set (tree_leaves t)" using v by (simp add: leaves_plug)
    with n(2) show ?thesis by force
  next
    case (TSplit m ax ks)
    then show ?thesis using st v(2) by auto
  qed
qed


section \<open>Swapping\<close>

text \<open>In normal form a split has another axis than its parent.\<close>

lemma nested_axes_differ:
  assumes rep: "represents L t" and al: "alternates t"
    and p: "look L p = Some (split_node_of p r ax cs)" and q: "look L q = Some (split_node_of q (Some p) ay ds)"
  shows "ay \<noteq> ax"
proof -
  from look_context [OF rep q] obtain C v where v: "t = plug C v" "tid v = q" "stored (look L) (ctx_parent C) v"
    "ctx_stored (look L) C q" "Some p = ctx_parent C" unfolding pane_layout_node.simps by blast
  then obtain ax' ls w rs C' where C: "C = Frame p ax' ls w rs # C'" using v(5) by (cases C rule: ctx_parent.cases) auto
  with v(4) p have "ax' = ax" by simp
  moreover have "top_axis v = Some ay" using v(2,3) q by (cases v) auto
  moreover have "ctx_alternates C (top_axis v)" using al v(1) alternates_plug by blast
  ultimately show ?thesis using C by simp
qed

lemma kid_stored_axis:
  assumes rep: "represents L (plug C (TSplit n ax ks))" and k: "k \<in> set ks"
  shows "\<exists>nd. look L (tid (fst k)) = Some nd \<and> nd_parent nd = Some n
    \<and> (\<forall>ay. top_axis (fst k) = Some ay \<longrightarrow> (\<exists>cs. nd = split_node_of (tid (fst k)) (Some n) ay cs))"
proof -
  have "stored (look L) (Some n) (fst k)" using representsD(1) [OF rep] k by (simp add: tree_simps)
  then show ?thesis by (cases "fst k") auto
qed

lemma swapped_subtrees:
  assumes inv: "layout_inv L t" and t: "t = plug C s" "t = plug E u"
    and apart: "tid u \<notin> set (tree_ids s)" "tid s \<notin> set (tree_ids u)"
  shows "(\<not> alternates t \<and> swap_pane_nodes (tid s) (tid u) L = Inl (Out_of_range ''map::at''))
    \<or> (\<exists>L' t' xs ys zs. swap_pane_nodes (tid s) (tid u) L = Inr (True, L') \<and> layout_inv L' t'
        \<and> (alternates t \<longrightarrow> alternates t')
        \<and> ((tree_leaves t = xs @ tree_leaves s @ ys @ tree_leaves u @ zs
             \<and> tree_leaves t' = xs @ tree_leaves u @ ys @ tree_leaves s @ zs)
          \<or> (tree_leaves t = xs @ tree_leaves u @ ys @ tree_leaves s @ zs
             \<and> tree_leaves t' = xs @ tree_leaves s @ ys @ tree_leaves u @ zs)))"
proof -
  let ?a = "tid s" and ?b = "tid u"
  let ?t1 = "exch ?a u ?b s t"
  from inv have rep: "represents L t" and wf: "well_formed t" and dp: "distinct (tree_panes t)"
    by (auto simp: layout_inv_def)
  have "C \<noteq> []" "E \<noteq> []" using t apart tid_in_ids [of s] tid_in_ids [of u] by (auto simp: ids_plug)
  then obtain p ax ls w rs C0 q ay ls' w' rs' E0
    where CE: "C = Frame p ax ls w rs # C0" "E = Frame q ay ls' w' rs' # E0"
    by (metis ctx_parent.cases)
  note t' = t [unfolded CE]
  note P = parent_split_facts [OF rep t'(1)] and Q = parent_split_facts [OF rep t'(2)]
  have ab: "?a \<noteq> ?b" using apart(1) tid_in_ids [of s] by metis
  have pb: "p \<noteq> ?b" by (rule parents_apart [OF rep t'(1) t(2) apart(2)])
  have qa: "q \<noteq> ?a" by (rule parents_apart [OF rep t'(2) t(1) apart(1)])
  obtain L4 where ex: "exchange_nodes ?a ?b L =
       and_then (flatten_matching_split_children p L4) (\<lambda>L5.
       and_then (if q \<noteq> p then flatten_matching_split_children q L5 else Inr L5) (\<lambda>L6. Inr (True, L6)))"
    and L4: "look L4 ?a = map_option (\<lambda>nd. nd\<lparr>nd_parent := Some q\<rparr>) (look L ?a)"
      "look L4 ?b = map_option (\<lambda>nd. nd\<lparr>nd_parent := Some p\<rparr>) (look L ?b)"
      "\<And>n. n \<noteq> ?a \<Longrightarrow> n \<noteq> ?b \<Longrightarrow> look L4 n = map_option (rename_node ?a ?b) (look L n)"
      "ly_root L4 = ly_root L" "ly_next L4 = ly_next L" "smap_ok (ly_nodes L4)"
    using exchange_links [OF rep t' apart] by blast
  have "represents L4 ?t1" "well_formed ?t1"
    and lv: "\<exists>xs ys zs. (tree_leaves t = xs @ tree_leaves s @ ys @ tree_leaves u @ zs
        \<and> tree_leaves ?t1 = xs @ tree_leaves u @ ys @ tree_leaves s @ zs)
      \<or> (tree_leaves t = xs @ tree_leaves u @ ys @ tree_leaves s @ zs
        \<and> tree_leaves ?t1 = xs @ tree_leaves s @ ys @ tree_leaves u @ zs)"
    and ml: "mset (tree_leaves ?t1) = mset (tree_leaves t)"
    using exchange_represents [OF rep t apart, of L4] L4 wf CE by simp_all
  note rep4 = this(1) and wf4 = this(2)
  have p4: "look L4 p = Some (split_node_of p (ctx_parent C0) ax (map (rename_child ?a ?b) (map kid_entry (ls @ (s, w) # rs))))"
    using L4(3) [of p] P(1,5) pb by simp
  have q4: "look L4 q = Some (split_node_of q (ctx_parent E0) ay (map (rename_child ?a ?b) (map kid_entry (ls' @ (u, w') # rs'))))"
    using L4(3) [of q] Q(1,5) qa by simp
  have al4: "alternates t \<Longrightarrow> alternates_but {p, q} ?t1"
  proof (rule exch_alternates)
    assume a: "alternates t"
    then show "alternates t" "alternates u" "alternates s" using t alternates_plug by metis+
    show "stored (look L) None t" by (rule representsD(1) [OF rep])
  qed (use P(4) Q(4) in auto)
  obtain L5 C1 ks where F1: "?t1 = plug C1 (TSplit p ax ks)"
    "flatten_matching_split_children p L4 = Inr L5"
    "represents L5 (plug C1 (TSplit p ax (flatten_kids ax ks)))"
    "well_formed (plug C1 (TSplit p ax (flatten_kids ax ks)))"
    "tree_leaves (plug C1 (TSplit p ax (flatten_kids ax ks))) = tree_leaves ?t1"
    "set (tree_ids ?t1) - set (flattened_ids ax ks) \<subseteq> set (tree_ids (plug C1 (TSplit p ax (flatten_kids ax ks))))"
    "\<And>S. alternates_but (insert p S) ?t1 \<Longrightarrow> \<forall>k \<in> set ks. top_axis (fst k) = Some ax \<longrightarrow> tid (fst k) \<notin> S \<Longrightarrow>
         alternates_but S (plug C1 (TSplit p ax (flatten_kids ax ks)))"
    using flatten_step [OF rep4 wf4 p4] by blast
  let ?t2 = "plug C1 (TSplit p ax (flatten_kids ax ks))"
  have panes: "layout_inv L' t2" if "represents L' t2" "well_formed t2" "tree_leaves t2 = tree_leaves ?t1" for L' t2
  proof -
    have "mset (tree_panes t2) = mset (tree_panes t)" unfolding tree_panes_def that(3) using ml by simp
    then show ?thesis using that dp mset_eq_imp_distinct_iff unfolding layout_inv_def by blast
  qed
  have finish: ?thesis if "exchange_nodes ?a ?b L = Inr (True, L')" "represents L' t2" "well_formed t2"
    "tree_leaves t2 = tree_leaves ?t1" "alternates t \<longrightarrow> alternates t2" for L' t2
  proof -
    have "swap_pane_nodes ?a ?b L = Inr (True, L')" using that(1) by (simp add: swap_pane_nodes_def)
    then show ?thesis using panes [OF that(2-4)] that(5) lv unfolding that(4) [symmetric] by blast
  qed
  show ?thesis
  proof (cases "q = p")
    case True
    then have "alternates t \<longrightarrow> alternates ?t2"
      using F1(7) [of "{}"] al4 by (simp add: alternates_but_none)
    then show ?thesis using finish [of L5 ?t2] ex F1(2-5) True by simp
  next
    case False
    have qk: "top_axis (fst k) = Some ax \<longrightarrow> tid (fst k) \<noteq> q" if a: "alternates t" and k: "k \<in> set ks" for k
    proof (intro impI notI)
      assume top: "top_axis (fst k) = Some ax" and id: "tid (fst k) = q"
      from kid_stored_axis [OF rep4 [unfolded F1(1)] k] top id q4
      have "ay = ax" "ctx_parent E0 = Some p" by auto
      with nested_axes_differ [OF rep a P(1)] Q(1) show False by metis
    qed
    show ?thesis
    proof (cases "q \<in> set (tree_ids ?t2)")
      case True
      have "q \<notin> fst ` set (tree_leaves ?t2)" unfolding F1(5) by (rule leaf_not_split [OF rep4 q4])
      from split_if_not_leaf [OF F1(3) True this] obtain r ay' cs
        where q5: "look L5 q = Some (split_node_of q r ay' cs)" by blast
      from flatten_step [OF F1(3,4) q5] obtain L6 C2 ks2 where
        F2: "flatten_matching_split_children q L5 = Inr L6"
        "represents L6 (plug C2 (TSplit q ay' (flatten_kids ay' ks2)))"
        "well_formed (plug C2 (TSplit q ay' (flatten_kids ay' ks2)))"
        "tree_leaves (plug C2 (TSplit q ay' (flatten_kids ay' ks2))) = tree_leaves ?t2"
        "\<And>S. alternates_but (insert q S) ?t2 \<Longrightarrow> \<forall>k \<in> set ks2. top_axis (fst k) = Some ay' \<longrightarrow> tid (fst k) \<notin> S \<Longrightarrow>
         alternates_but S (plug C2 (TSplit q ay' (flatten_kids ay' ks2)))" by blast
      have "alternates (plug C2 (TSplit q ay' (flatten_kids ay' ks2)))" if a: "alternates t"
      proof -
        have "alternates_but {q} ?t2" using F1(7) [of "{q}"] al4 [OF a] qk [OF a] by simp
        then show ?thesis using F2(5) [of "{}"] by (simp add: alternates_but_none)
      qed
      moreover have "exchange_nodes ?a ?b L = Inr (True, L6)" using ex F1(2) F2(1) False by simp
      moreover have "tree_leaves (plug C2 (TSplit q ay' (flatten_kids ay' ks2))) = tree_leaves ?t1"
        using F2(4) F1(5) by simp
      ultimately show ?thesis using finish F2(2,3) by blast
    next
      case out: False
      have "\<not> alternates t"
      proof
        assume a: "alternates t"
        have "q \<in> set (tree_ids ?t1)" using q4 representsD(3) [OF rep4] by blast
        with out F1(6) have "q \<in> set (flattened_ids ax ks)" by blast
        then obtain k where "k \<in> set ks" "top_axis (fst k) = Some ax" "tid (fst k) = q"
          by (auto simp: flattened_ids_def)
        with qk [OF a] show False by blast
      qed
      moreover have "look L5 q = None" using out representsD(3) [OF F1(3)] by blast
      from missing_split_throws [OF this] have "exchange_nodes ?a ?b L = Inl (Out_of_range ''map::at'')"
        using ex F1(2) False by simp
      then have "swap_pane_nodes ?a ?b L = Inl (Out_of_range ''map::at'')" by (simp add: swap_pane_nodes_def)
      ultimately show ?thesis by blast
    qed
  qed
qed

text \<open>
  C6: Swapping two disjoint subtrees exchanges their leaves in reading order and keeps the
  layout invariant, and normal form where the layout has it; the only other outcome, in a
  layout out of normal form, is the out_of_range exception of the node map.
\<close>

theorem swap_disjoint_subtrees:
  assumes inv: "layout_inv L t" and t: "t = plug C s" "t = plug E u"
    and apart: "tid u \<notin> set (tree_ids s)" "tid s \<notin> set (tree_ids u)"
  shows "(\<not> alternates t \<and> swap_pane_nodes (tid s) (tid u) L = Inl (Out_of_range ''map::at''))
    \<or> (\<exists>L' t' xs ys zs. swap_pane_nodes (tid s) (tid u) L = Inr (True, L') \<and> layout_inv L' t'
        \<and> (alternates t \<longrightarrow> alternates t')
        \<and> ((tree_leaves t = xs @ tree_leaves s @ ys @ tree_leaves u @ zs
             \<and> tree_leaves t' = xs @ tree_leaves u @ ys @ tree_leaves s @ zs)
          \<or> (tree_leaves t = xs @ tree_leaves u @ ys @ tree_leaves s @ zs
             \<and> tree_leaves t' = xs @ tree_leaves s @ ys @ tree_leaves u @ zs)))"
  by (rule swapped_subtrees [OF assms])

text \<open>Nodes of which one contains the other, and roots, are not swapped.\<close>

theorem swap_overlapping_rejected:
  assumes inv: "layout_inv L t" and t: "t = plug C s" and u: "tid u \<in> set (tree_ids s)" "tid u \<noteq> tid s"
    and E: "t = plug E u"
  shows "\<exists>m. swap_pane_nodes (tid s) (tid u) L = Inl (Invalid_argument m)
    \<and> swap_pane_nodes (tid u) (tid s) L = Inl (Invalid_argument m)"
proof -
  from inv have rep: "represents L t" by (simp add: layout_inv_def)
  have "tid s \<in> set (ctx_path E)" using below_iff [OF rep t E] u by auto
  then have anc: "is_ancestor L (tid s) (tid u) = Inr True" using is_ancestor_eq [OF rep [unfolded E]] by simp
  have st: "stored (look L) (ctx_parent C) s" "stored (look L) (ctx_parent E) u"
    using representsD(1) [OF rep] t E stored_plug by metis+
  obtain ns nu where n: "look L (tid s) = Some ns" "look L (tid u) = Some nu"
    using stored_parent [OF st(1)] stored_parent [OF st(2)] by blast
  obtain b where b: "is_ancestor L (tid u) (tid s) = Inr b" using is_ancestor_eq [OF rep [unfolded t]] by blast
  show ?thesis using n anc b u(2)
    by (cases b) (simp_all add: swap_pane_nodes_def exchange_nodes_def layout_access)
qed

lemma swap_disjoint_subtrees_witness:
  "\<exists>L' t'. swap_pane_nodes 1 2 stacked_layout = Inr (True, L') \<and> layout_inv L' t' \<and> alternates t'"
proof -
  have "tid (TLeaf 2 2) \<notin> set (tree_ids (TLeaf 1 1))" "tid (TLeaf 1 1) \<notin> set (tree_ids (TLeaf 2 2))" by simp_all
  from swap_disjoint_subtrees [OF stacked_layout_inv stacked_contexts(3,2) this] show ?thesis
    using stacked_facts(3) by auto
qed

lemma swap_overlapping_rejected_witness: "\<exists>m. swap_pane_nodes 3 2 stacked_layout = Inl (Invalid_argument m)"
proof -
  have "stacked_tree = plug [] stacked_tree" by simp
  from swap_overlapping_rejected [OF stacked_layout_inv this _ _ stacked_contexts(2)] show ?thesis
    by (simp add: stacked_tree_def) blast
qed

end
