(* ===== verification/Pane_Resize.thy ===== *)
theory Pane_Resize
  imports Pane_Regroup Pane_Selection
begin

text \<open>
  Resizing and equalising a selection (src/src/parent/pane/pane_resize.cc). The selected
  children of a split get a new total, distributed over them in proportion, and the others
  the rest; the result is installed by \<open>set_split_percentages\<close>. The sum of the selected
  total and the requested change is an \<open>int\<close> and is checked.
\<close>

section \<open>The operations\<close>

record selection_partition =
  selected_indices :: "nat list"
  unselected_indices :: "nat list"

definition partition_selection :: "pane_split \<Rightarrow> pane_selection \<Rightarrow> selection_partition result" where
  "partition_selection split sel =
     (let inside = (\<lambda>i. selection_contains sel (sc_node (sp_children split ! i)));
          indices = [0..<length (sp_children split)];
          partition = \<lparr>selected_indices = filter inside indices,
                       unselected_indices = filter (\<lambda>i. \<not> inside i) indices\<rparr> in
      throw_if (length (selected_indices partition) \<noteq> length (sel_nodes sel))
        (Invalid_argument ''pane selection is stale or belongs to another split'')
        (Inr partition))"

definition weights_at :: "pane_split \<Rightarrow> nat list \<Rightarrow> int list" where
  "weights_at split indices = map (\<lambda>i. sc_pct (sp_children split ! i)) indices"

definition split_percentage_values :: "pane_split \<Rightarrow> int list" where
  "split_percentage_values split = map sc_pct (sp_children split)"

definition assign_at :: "int list \<Rightarrow> nat list \<Rightarrow> int list \<Rightarrow> int list result" where
  "assign_at destination indices values =
     throw_if (length indices \<noteq> length values)
       (Logic_error ''pane percentage assignment size mismatch'')
       (Inr (fold (\<lambda>(i, v) d. d[i := v]) (zip indices values) destination))"

definition equalize_split :: "pane_layout \<Rightarrow> node_id \<Rightarrow> (bool \<times> pane_layout) result" where
  "equalize_split L n =
     and_then (node L n) (\<lambda>nd.
     and_then (node_split nd) (\<lambda>split.
     and_then (equal_pane_percentages (int (length (sp_children split)))) (\<lambda>percentages.
     if percentages = split_percentage_values split then Inr (False, L)
     else and_then (set_split_percentages n percentages L) (\<lambda>L'. Inr (True, L')))))"

definition resize_pane_selection ::
  "pane_layout \<Rightarrow> pane_selection \<Rightarrow> int \<Rightarrow> (bool \<times> pane_layout) result" where
  "resize_pane_selection L sel delta_percentage =
     (case sel_parent sel of
       None \<Rightarrow> Inr (False, L)
     | Some parent \<Rightarrow>
         if delta_percentage = 0 then Inr (False, L)
         else
           and_then (node L parent) (\<lambda>nd.
           and_then (node_split nd) (\<lambda>split.
           and_then (partition_selection split sel) (\<lambda>partition.
           if unselected_indices partition = [] then Inr (False, L)
           else
             (let selected_weights = weights_at split (selected_indices partition);
                  unselected_weights = weights_at split (unselected_indices partition);
                  selected_total = sum_list selected_weights in
              and_then (checked_int (selected_total + delta_percentage)) (\<lambda>moved_total.
              (let resized_total = max MIN_VALUE (min MAX_VALUE moved_total) in
               if resized_total = selected_total then Inr (False, L)
               else
                 and_then (distribute_pane_percentage_total selected_weights resized_total) (\<lambda>selected.
                 and_then (assign_at (replicate (length (sp_children split)) 0)
                     (selected_indices partition) selected) (\<lambda>percentages.
                 and_then (distribute_pane_percentage_total unselected_weights (MAX_VALUE - resized_total))
                   (\<lambda>unselected.
                 and_then (assign_at percentages (unselected_indices partition) unselected) (\<lambda>all_percentages.
                 and_then (set_split_percentages parent all_percentages L) (\<lambda>L'. Inr (True, L')))))))))))))"

definition equalize_pane_selection :: "pane_layout \<Rightarrow> pane_selection \<Rightarrow> (bool \<times> pane_layout) result" where
  "equalize_pane_selection L sel =
     (let equalize_range =
        (case sel_parent sel of
          None \<Rightarrow> Inr (False, L)
        | Some parent \<Rightarrow>
            and_then (node L parent) (\<lambda>nd.
            and_then (node_split nd) (\<lambda>split.
            and_then (partition_selection split sel) (\<lambda>partition.
            (let selected_total = sum_list (weights_at split (selected_indices partition));
                 current = split_percentage_values split in
             and_then (distribute_pane_percentage_total
                 (replicate (length (selected_indices partition)) 1) selected_total) (\<lambda>equal.
             and_then (assign_at current (selected_indices partition) equal) (\<lambda>percentages.
             if percentages = current then Inr (False, L)
             else and_then (set_split_percentages parent percentages L) (\<lambda>L'. Inr (True, L')))))))))
      in
      if length (sel_nodes sel) = 1 then
        and_then (node L (hd (sel_nodes sel))) (\<lambda>nd.
          if \<not> is_leaf nd then equalize_split L (hd (sel_nodes sel)) else equalize_range)
      else equalize_range)"

definition equalize_pane_selection_level ::
  "pane_layout \<Rightarrow> pane_selection \<Rightarrow> (bool \<times> pane_layout) result" where
  "equalize_pane_selection_level L sel =
     (case sel_parent sel of None \<Rightarrow> Inr (False, L) | Some parent \<Rightarrow> equalize_split L parent)"

section \<open>Assignments at indices\<close>

lemma fold_assign:
  assumes "distinct indices" "\<forall>i \<in> set indices. i < length d" "length indices = length vals"
  shows "length (fold (\<lambda>(i, v) d. d[i := v]) (zip indices vals) d) = length d
    \<and> map (\<lambda>i. fold (\<lambda>(i, v) d. d[i := v]) (zip indices vals) d ! i) indices = vals
    \<and> (\<forall>j. j \<notin> set indices \<longrightarrow> fold (\<lambda>(i, v) d. d[i := v]) (zip indices vals) d ! j = d ! j)"
  using assms
proof (induction indices arbitrary: d vals)
  case (Cons i indices)
  then obtain v vs where v: "vals = v # vs" by (cases vals) auto
  let ?F = "fold (\<lambda>(i, v) d. d[i := v]) (zip indices vs) (d[i := v])"
  have IH: "length ?F = length (d[i := v])" "map (\<lambda>i. ?F ! i) indices = vs"
    "\<forall>j. j \<notin> set indices \<longrightarrow> ?F ! j = d[i := v] ! j"
    using Cons.IH [of "d[i := v]" vs] Cons.prems v by simp_all
  have "?F ! i = v" using IH(3) Cons.prems by simp
  then show ?case using IH v by (auto simp: nth_list_update)
qed simp

lemma sum_filter_partition:
  fixes f :: "nat \<Rightarrow> int"
  shows "sum_list (map f xs) = sum_list (map f (filter P xs)) + sum_list (map f (filter (\<lambda>i. \<not> P i) xs))"
  by (induction xs) auto


section \<open>New weights for one split\<close>

lemma filter_interval:
  assumes "a + b \<le> (n::nat)"
  shows "filter (\<lambda>i. a \<le> i \<and> i < a + b) [0..<n] = [a..<a + b]"
    "filter (\<lambda>i. \<not> (a \<le> i \<and> i < a + b)) [0..<n] = [0..<a] @ [a + b..<n]"
proof -
  have s: "[0..<n] = [0..<a] @ [a..<a + b] @ [a + b..<n]"
    using assms upt_add_eq_append [of 0 a "n - a"] upt_add_eq_append [of a "a + b" "n - (a + b)"] by simp
  have "filter (\<lambda>i. a \<le> i \<and> i < a + b) [0..<a] = []" "filter (\<lambda>i. a \<le> i \<and> i < a + b) [a + b..<n] = []"
    "filter (\<lambda>i. a \<le> i \<and> i < a + b) [a..<a + b] = [a..<a + b]"
    by (auto simp: filter_empty_conv filter_id_conv)
  then show "filter (\<lambda>i. a \<le> i \<and> i < a + b) [0..<n] = [a..<a + b]" unfolding s filter_append by simp
  have "filter (\<lambda>i. \<not> (a \<le> i \<and> i < a + b)) [0..<a] = [0..<a]"
    "filter (\<lambda>i. \<not> (a \<le> i \<and> i < a + b)) [a + b..<n] = [a + b..<n]"
    "filter (\<lambda>i. \<not> (a \<le> i \<and> i < a + b)) [a..<a + b] = []"
    by (auto simp: filter_empty_conv filter_id_conv)
  then show "filter (\<lambda>i. \<not> (a \<le> i \<and> i < a + b)) [0..<n] = [0..<a] @ [a + b..<n]"
    unfolding s filter_append by simp
qed

text \<open>The facts about a split that holds a selected block of children.\<close>

lemma partition_block:
  assumes rep: "represents L (plug C (TSplit p ax (ls @ ms @ rs)))"
    and sel: "sel_nodes sel = map (\<lambda>k. tid (fst k)) ms"
  shows "partition_selection \<lparr>sp_axis = ax, sp_children = map kid_entry (ls @ ms @ rs)\<rparr> sel =
    Inr \<lparr>selected_indices = [length ls..<length ls + length ms],
         unselected_indices = [0..<length ls] @ [length ls + length ms..<length (ls @ ms @ rs)]\<rparr>"
proof -
  let ?ks = "ls @ ms @ rs"
  let ?inside = "\<lambda>i. selection_contains sel (sc_node (map kid_entry ?ks ! i))"
  have d: "distinct (map (\<lambda>k. tid (fst k)) ?ks)"
  proof (rule kid_tids_distinct)
    have "distinct (tree_ids (TSplit p ax ?ks))"
      using representsD(2) [OF rep] unfolding ids_plug distinct_append by blast
    then show "distinct (concat (map (\<lambda>k. tree_ids (fst k)) ?ks))" by (simp only: tree_ids.simps distinct.simps)
  qed
  have inside: "?inside i \<longleftrightarrow> length ls \<le> i \<and> i < length ls + length ms" if i: "i < length ?ks" for i
  proof -
    have "?inside i \<longleftrightarrow> (\<exists>j < length ms. map (\<lambda>k. tid (fst k)) ?ks ! (length ls + j) = map (\<lambda>k. tid (fst k)) ?ks ! i)"
    proof -
      have "sc_node (map kid_entry ?ks ! i) = map (\<lambda>k. tid (fst k)) ?ks ! i" using i by (simp del: map_append)
      moreover have "map (\<lambda>k. tid (fst k)) ?ks ! (length ls + j) = map (\<lambda>k. tid (fst k)) ms ! j"
        if "j < length ms" for j using that by (simp add: nth_append)
      ultimately show ?thesis
        unfolding selection_contains_def sel List.member_iff in_set_conv_nth length_map by (simp cong: conj_cong)
    qed
    also have "\<dots> \<longleftrightarrow> (\<exists>j < length ms. length ls + j = i)"
    proof -
      have "map (\<lambda>k. tid (fst k)) ?ks ! (length ls + j) = map (\<lambda>k. tid (fst k)) ?ks ! i \<longleftrightarrow> length ls + j = i"
        if "j < length ms" for j
        by (rule nth_eq_iff_index_eq [OF d]) (use i that in simp_all)
      then show ?thesis by blast
    qed
    also have "\<dots> \<longleftrightarrow> length ls \<le> i \<and> i < length ls + length ms"
      by (metis add_less_cancel_left le_add1 le_add_diff_inverse)
    finally show ?thesis .
  qed
  have n: "length ls + length ms \<le> length ?ks" by simp
  have "filter ?inside [0..<length ?ks] = filter (\<lambda>i. length ls \<le> i \<and> i < length ls + length ms) [0..<length ?ks]"
    by (rule filter_cong) (use inside in simp_all)
  then have "filter ?inside [0..<length ?ks] = [length ls..<length ls + length ms]"
    using filter_interval(1) [OF n] by simp
  moreover have "filter (\<lambda>i. \<not> ?inside i) [0..<length ?ks]
      = filter (\<lambda>i. \<not> (length ls \<le> i \<and> i < length ls + length ms)) [0..<length ?ks]"
    by (rule filter_cong) (use inside in simp_all)
  then have "filter (\<lambda>i. \<not> ?inside i) [0..<length ?ks]
      = [0..<length ls] @ [length ls + length ms..<length ?ks]"
    using filter_interval(2) [OF n] by simp
  ultimately show ?thesis unfolding partition_selection_def Let_def
    by (simp del: map_append length_append upt_conv_Nil add: sel)
qed


lemma assign_block:
  assumes "a + b \<le> length d" "length vals = b"
  shows "assign_at d [a..<a + b] vals = Inr (take a d @ vals @ drop (a + b) d)"
proof -
  define F where "F = fold (\<lambda>(i, v) d. d[i := v]) (zip [a..<a + b] vals) d"
  have "distinct [a..<a + b]" "\<forall>i \<in> set [a..<a + b]. i < length d" "length [a..<a + b] = length vals"
    using assms by auto
  from fold_assign [OF this] have F: "length F = length d" "map (\<lambda>i. F ! i) [a..<a + b] = vals"
    "\<forall>j. j \<notin> set [a..<a + b] \<longrightarrow> F ! j = d ! j"
    unfolding F_def by blast+
  have "F = take a d @ vals @ drop (a + b) d"
  proof (rule nth_equalityI)
    fix i assume "i < length F"
    then have i: "i < length d" using F(1) by simp
    show "F ! i = (take a d @ vals @ drop (a + b) d) ! i"
    proof (cases "a \<le> i \<and> i < a + b")
      case True
      then have k: "i - a < length [a..<a + b]" "[a..<a + b] ! (i - a) = i" "i - a < b" by auto
      have "vals ! (i - a) = map (\<lambda>i. F ! i) [a..<a + b] ! (i - a)" using F(2) by simp
      also have "\<dots> = F ! i" unfolding nth_map [OF k(1)] k(2) ..
      finally show ?thesis using True assms k(3) by (simp add: nth_append)
    next
      case False
      then show ?thesis using F(3) i assms by (auto simp: nth_append)
    qed
  qed (use F(1) assms in simp)
  then show ?thesis using assms unfolding assign_at_def F_def by simp
qed

lemma assign_outside:
  assumes "length d = a + b + c" "length us = a" "length vs = c"
  shows "assign_at d ([0..<a] @ [a + b..<length d]) (us @ vs) = Inr (us @ take b (drop a d) @ vs)"
proof -
  let ?I = "[0..<a] @ [a + b..<length d]"
  define F where "F = fold (\<lambda>(i, v) d. d[i := v]) (zip ?I (us @ vs)) d"
  have "distinct ?I" "\<forall>i \<in> set ?I. i < length d" "length ?I = length (us @ vs)"
    using assms by auto
  from fold_assign [OF this] have F: "length F = length d" "map (\<lambda>i. F ! i) ?I = us @ vs"
    "\<forall>j. j \<notin> set ?I \<longrightarrow> F ! j = d ! j"
    unfolding F_def by blast+
  have m: "map (\<lambda>i. F ! i) [0..<a] = us" "map (\<lambda>i. F ! i) [a + b..<length d] = vs"
    using F(2) assms unfolding map_append by (simp_all add: append_eq_append_conv)
  have "F = us @ take b (drop a d) @ vs"
  proof (rule nth_equalityI)
    fix i assume "i < length F"
    then have i: "i < length d" using F(1) by simp
    consider "i < a" | "a \<le> i" "i < a + b" | "a + b \<le> i" by linarith
    then show "F ! i = (us @ take b (drop a d) @ vs) ! i"
    proof cases
      case 1
      then have "us ! i = map (\<lambda>i. F ! i) [0..<a] ! i" using m(1) by simp
      then show ?thesis using 1 assms by (simp add: nth_append)
    next
      case 2
      then show ?thesis using F(3) i assms by (auto simp: nth_append)
    next
      case 3
      then have k: "i - (a + b) < length [a + b..<length d]" "[a + b..<length d] ! (i - (a + b)) = i"
        "\<not> i - a < b" using i by auto
      have "vs ! (i - (a + b)) = map (\<lambda>i. F ! i) [a + b..<length d] ! (i - (a + b))" using m(2) by simp
      also have "\<dots> = F ! i" unfolding nth_map [OF k(1)] k(2) ..
      finally show ?thesis using 3 i assms k(3) by (simp add: nth_append)
    qed
  qed (use F(1) assms in simp)
  then show ?thesis using assms unfolding assign_at_def F_def by simp
qed

lemma weights_of_block:
  fixes ls ms rs :: "(ptree \<times> int) list"
  shows "weights_at \<lparr>sp_axis = ax, sp_children = map kid_entry (ls @ ms @ rs)\<rparr> [length ls..<length ls + length ms] = map snd ms"
    "weights_at \<lparr>sp_axis = ax, sp_children = map kid_entry (ls @ ms @ rs)\<rparr>
       ([0..<length ls] @ [length ls + length ms..<length (ls @ ms @ rs)]) = map snd ls @ map snd rs"
proof -
  have f: "weights_at \<lparr>sp_axis = ax, sp_children = map kid_entry ks\<rparr> [i..<j] = map snd (take (j - i) (drop i ks))"
    if "j \<le> length ks" for ks :: "(ptree \<times> int) list" and i j
    using that by (intro nth_equalityI) (simp_all add: weights_at_def)
  show "weights_at \<lparr>sp_axis = ax, sp_children = map kid_entry (ls @ ms @ rs)\<rparr> [length ls..<length ls + length ms] = map snd ms"
    using f [of "length ls + length ms" "ls @ ms @ rs" "length ls"] by simp
  have "weights_at s (xs @ ys) = weights_at s xs @ weights_at s ys" for s xs ys by (simp add: weights_at_def)
  then show "weights_at \<lparr>sp_axis = ax, sp_children = map kid_entry (ls @ ms @ rs)\<rparr>
       ([0..<length ls] @ [length ls + length ms..<length (ls @ ms @ rs)]) = map snd ls @ map snd rs"
    using f [of "length ls" "ls @ ms @ rs" 0] f [of "length (ls @ ms @ rs)" "ls @ ms @ rs" "length ls + length ms"]
    by simp
qed


section \<open>Resizing\<close>

text \<open>What installing percentages that already sum to 100 does.\<close>

lemma install_percentages:
  assumes inv: "layout_inv L (plug C (TSplit n ax ks))"
    and ws: "length ws = length ks" "\<forall>w \<in> set ws. 0 \<le> w" "sum_list ws = 100"
  shows "\<exists>L'. set_split_percentages n ws L = Inr L' \<and> layout_inv L' (plug C (TSplit n ax (reweigh ks ws)))"
proof -
  obtain r L' where r: "normalize_pane_percentages ws = Inr r" "set_split_percentages n ws L = Inr L'"
    "layout_inv L' (plug C (TSplit n ax (reweigh ks r)))"
    by (rule set_split_percentages_correct [OF inv ws(1,2)]) (rule that; assumption)
  moreover have "r = ws" using normalize_identity [OF ws(2,3)] r(1) by simp
  ultimately show ?thesis by blast
qed

lemma resized_selection:
  fixes ms :: "(ptree \<times> int) list"
  assumes inv: "layout_inv L (plug C (TSplit p ax (ls @ ms @ rs)))"
    and sel: "sel_parent sel = Some p" "sel_nodes sel = map (\<lambda>k. tid (fst k)) ms" "ms \<noteq> []"
    and delta: "INT32_MIN \<le> delta" "delta + 100 \<le> INT32_MAX"
    and old: "old = sum_list (map snd ms)" and new: "new = max 0 (min 100 (old + delta))"
  shows "(if ls @ rs = [] \<or> new = old then resize_pane_selection L sel delta = Inr (False, L)
    else \<exists>L' r. resize_pane_selection L sel delta = Inr (True, L')
      \<and> layout_inv L' (plug C (TSplit p ax (reweigh (ls @ ms @ rs) r)))
      \<and> length r = length (ls @ ms @ rs) \<and> sum_list r = 100
      \<and> sum_list (take (length ms) (drop (length ls) r)) = new)"
proof -
  let ?ks = "ls @ ms @ rs"
  let ?split = "\<lparr>sp_axis = ax, sp_children = map kid_entry ?ks\<rparr>"
  from inv have rep: "represents L (plug C (TSplit p ax ?ks))" and wf: "well_formed (plug C (TSplit p ax ?ks))"
    by (auto simp: layout_inv_def)
  have look: "look L p = Some (split_node_of p (ctx_parent C) ax (map kid_entry ?ks))"
    using representsD(1) [OF rep] by (simp add: tree_simps)
  have ok: "kids_ok ?ks" using wf by (simp add: tree_simps)
  have nn: "\<forall>w \<in> set (map snd ?ks). 0 \<le> w" using ok by (auto simp: kids_ok_def)
  have total: "sum_list (map snd ls) + old + sum_list (map snd rs) = 100" using ok by (simp add: kids_ok_def old)
  have pos: "0 \<le> old" "0 \<le> sum_list (map snd ls)" "0 \<le> sum_list (map snd rs)"
    unfolding old by (rule sum_list_nonneg; use nn in auto)+
  note pb = partition_block [OF rep sel(2)]
  note wb = weights_of_block [of ax ls ms rs]
  have unsel: "[0..<length ls] @ [length ls + length ms..<length ?ks] = [] \<longleftrightarrow> ls @ rs = []" by auto
  have checked: "checked_int (old + delta) = Inr (old + delta)"
    by (rule checked_int_ok) (use total pos delta in auto)
  have nd: "node L p = Inr (split_node_of p (ctx_parent C) ax (map kid_entry ?ks))"
    "node_split (split_node_of p (ctx_parent C) ax (map kid_entry ?ks)) = Inr ?split"
    using look by (simp_all add: layout_access del: map_append)
  have m: "max MIN_VALUE (min MAX_VALUE (old + delta)) = new" by (simp add: new MIN_VALUE_def MAX_VALUE_def)
  show ?thesis
  proof (cases "ls @ rs = [] \<or> new = old")
    case True
    have "resize_pane_selection L sel delta = Inr (False, L)"
      unfolding resize_pane_selection_def sel(1) option.case nd and_then.simps pb Let_def
        selection_partition.simps unsel wb old [symmetric] checked m
      using True by auto
    then show ?thesis using True by simp
  next
    case False
    then have delta0: "delta \<noteq> 0" using total pos by (auto simp: new)
    have v1: "valid_weights (map snd ms) new" using sel(3) nn by (simp add: valid_weights_def new)
    have v2: "valid_weights (map snd ls @ map snd rs) (100 - new)"
      unfolding valid_weights_def using False nn by (auto simp: new)
    obtain s where s: "distribute_pane_percentage_total (map snd ms) new = Inr s" "length s = length ms"
      "sum_list s = new" "\<And>x. x \<in> set s \<Longrightarrow> 0 \<le> x"
      using pct.shares [OF v1] by auto
    obtain v where v: "distribute_pane_percentage_total (map snd ls @ map snd rs) (100 - new) = Inr v"
      "length v = length ls + length rs" "sum_list v = 100 - new" "\<And>x. x \<in> set v \<Longrightarrow> 0 \<le> x"
      using pct.shares [OF v2] by auto
    let ?us = "take (length ls) v" and ?vs = "drop (length ls) v"
    let ?d = "replicate (length ls) 0 @ s @ replicate (length rs) 0"
    let ?r = "?us @ s @ ?vs"
    have a1: "assign_at (replicate (length (map kid_entry ?ks)) 0) [length ls..<length ls + length ms] s = Inr ?d"
      using assign_block [of "length ls" "length ms" "replicate (length (map kid_entry ?ks)) 0" s] s(2) by simp
    have a2: "assign_at ?d ([0..<length ls] @ [length ls + length ms..<length ?ks]) v = Inr ?r"
      using assign_outside [of ?d "length ls" "length ms" "length rs" ?us ?vs] s(2) v(2) by simp
    have r: "length ?r = length ?ks" "sum_list ?r = 100" "\<forall>w \<in> set ?r. 0 \<le> w"
      using s v by (simp, metis append_take_drop_id sum_list_append add.commute add.left_commute
          diff_add_cancel, auto dest: in_set_takeD in_set_dropD)
    from install_percentages [OF inv r(1,3,2)] obtain L' where L': "set_split_percentages p ?r L = Inr L'"
      "layout_inv L' (plug C (TSplit p ax (reweigh ?ks ?r)))" by blast
    have M: "MAX_VALUE - new = 100 - new" by (simp add: MAX_VALUE_def)
    have "resize_pane_selection L sel delta = Inr (True, L')"
      unfolding resize_pane_selection_def sel(1) option.case nd and_then.simps pb Let_def
        selection_partition.simps pane_split.simps unsel wb old [symmetric] checked m M s(1) a1 v(1) a2 L'(1)
      using False delta0 by auto
    moreover have "take (length ms) (drop (length ls) ?r) = s" using v(2) s(2) by simp
    ultimately show ?thesis using False L'(2) r s(3) by auto
  qed
qed

text \<open>
  C8: Resizing a selected block changes nothing when the block is the whole level or the
  clamped new share is the old one; otherwise it installs percentages that sum to 100 and give
  the block exactly the clamped share, in an unchanged tree.
\<close>

lemma resize_pane_selection_correct:
  fixes ms :: "(ptree \<times> int) list"
  assumes inv: "layout_inv L (plug C (TSplit p ax (ls @ ms @ rs)))"
    and sel: "sel_parent sel = Some p" "sel_nodes sel = map (\<lambda>k. tid (fst k)) ms" "ms \<noteq> []"
    and delta: "INT32_MIN \<le> delta" "delta + 100 \<le> INT32_MAX"
    and old: "old = sum_list (map snd ms)" and new: "new = max 0 (min 100 (old + delta))"
  shows "(if ls @ rs = [] \<or> new = old then resize_pane_selection L sel delta = Inr (False, L)
    else \<exists>L' r. resize_pane_selection L sel delta = Inr (True, L')
      \<and> layout_inv L' (plug C (TSplit p ax (reweigh (ls @ ms @ rs) r)))
      \<and> length r = length (ls @ ms @ rs) \<and> sum_list r = 100
      \<and> sum_list (take (length ms) (drop (length ls) r)) = new)"
  by (rule resized_selection [OF assms])

section \<open>Equalising\<close>

text \<open>A tree without its weights: what resizing and equalising keep.\<close>

fun unweighted :: "ptree \<Rightarrow> ptree" where
  "unweighted (TLeaf n q) = TLeaf n q"
| "unweighted (TSplit n ax ks) = TSplit n ax (map (\<lambda>k. (unweighted (fst k), 0)) ks)"

lemma tid_unweighted [simp]: "tid (unweighted t) = tid t"
  by (cases t) simp_all

lemma unweighted_plug:
  "unweighted v = unweighted v' \<Longrightarrow> unweighted (plug C v) = unweighted (plug C v')"
  by (induction C v arbitrary: v' rule: plug.induct) simp_all

lemma unweighted_kids:
  assumes "map (\<lambda>k. unweighted (fst k)) ks = map (\<lambda>k. unweighted (fst k)) ks'"
  shows "unweighted (TSplit n ax ks) = unweighted (TSplit n ax ks')"
proof -
  have "map (\<lambda>k. (unweighted (fst k), 0 :: int)) ks = map (\<lambda>t. (t, 0)) (map (\<lambda>k. unweighted (fst k)) ks)" for ks :: "(ptree \<times> int) list"
    by simp
  then show ?thesis unfolding unweighted.simps using assms by metis
qed

lemma unweighted_reweigh:
  assumes "length r = length ks"
  shows "unweighted (TSplit n ax (reweigh ks r)) = unweighted (TSplit n ax ks)"
proof (rule unweighted_kids)
  have "map fst (reweigh ks r) = map fst ks" by (rule reweigh_fields(1) [OF assms])
  then have "map unweighted (map fst (reweigh ks r)) = map unweighted (map fst ks)" by simp
  then show "map (\<lambda>k. unweighted (fst k)) (reweigh ks r) = map (\<lambda>k. unweighted (fst k)) ks" by (simp add: comp_def)
qed

lemma unweighted_leaves: "tree_leaves (unweighted t) = tree_leaves t"
proof (induction t rule: ptree_induct)
  case (TSplit n ax ks)
  then have "map (\<lambda>k. tree_leaves (unweighted (fst k))) ks = map (\<lambda>k. tree_leaves (fst k)) ks" by (intro map_cong) simp_all
  then show ?case by (simp add: comp_def del: map_eq_conv)
qed simp

lemma unweighted_ids: "tree_ids (unweighted t) = tree_ids t"
proof (induction t rule: ptree_induct)
  case (TSplit n ax ks)
  then have "map (\<lambda>k. tree_ids (unweighted (fst k))) ks = map (\<lambda>k. tree_ids (fst k)) ks" by (intro map_cong) simp_all
  then show ?case by (simp add: comp_def del: map_eq_conv)
qed simp

lemma unweighted_alternates: "alternates (unweighted t) = alternates t"
proof (induction t rule: ptree_induct)
  case (TSplit n ax ks)
  have "top_axis (unweighted t) = top_axis t" for t by (cases t) simp_all
  then show ?case using TSplit by simp
qed simp

text \<open>A subtree of a tree is a subtree, at the same node, of every tree of the same shape.\<close>

lemma unweighted_context:
  assumes "unweighted (plug C v) = unweighted t'"
  shows "\<exists>C' v'. t' = plug C' v' \<and> unweighted v' = unweighted v"
  using assms
proof (induction C arbitrary: t' rule: rev_induct)
  case Nil
  then show ?case by (intro exI [of _ "[]"] exI [of _ t']) simp
next
  case (snoc f C)
  obtain n ax ls w rs where f: "f = Frame n ax ls w rs" by (cases f)
  have e: "plug (C @ [f]) v = TSplit n ax (ls @ (plug C v, w) # rs)" using f by (simp add: plug_append)
  with snoc.prems obtain ks' where t': "t' = TSplit n ax ks'" by (cases t') auto
  have "map (\<lambda>k. unweighted (fst k)) ks' = map (\<lambda>k. unweighted (fst k)) (ls @ (plug C v, w) # rs)"
  proof -
    have "map fst (map (\<lambda>k. (unweighted (fst k), 0 :: int)) ks')
        = map fst (map (\<lambda>k. (unweighted (fst k), 0 :: int)) (ls @ (plug C v, w) # rs))"
      using snoc.prems unfolding e t' unweighted.simps by simp
    then show ?thesis by (simp add: comp_def)
  qed
  then have "map (\<lambda>k. unweighted (fst k)) ks'
      = map (\<lambda>k. unweighted (fst k)) ls @ unweighted (plug C v) # map (\<lambda>k. unweighted (fst k)) rs" by simp
  then obtain ls' k' rs' where ks': "ks' = ls' @ k' # rs'" "unweighted (fst k') = unweighted (plug C v)"
    by (auto simp: map_eq_append_conv map_eq_Cons_conv)
  from snoc.IH [of "fst k'"] ks'(2) obtain C' v' where v': "fst k' = plug C' v'" "unweighted v' = unweighted v" by metis
  have "t' = plug (C' @ [Frame n ax ls' (snd k') rs']) v'"
    using t' ks'(1) v'(1) by (simp add: plug_append) (metis prod.collapse)
  then show ?case using v'(2) by blast
qed

lemma selection_ok_unweighted:
  assumes ok: "selection_ok t sel" and e: "unweighted t = unweighted t'"
  shows "selection_ok t' sel"
proof (cases "sel_parent sel")
  case None
  have "tid t = tid t'" using e tid_unweighted by metis
  with ok None show ?thesis by (auto simp: selection_ok_def)
next
  case (Some p)
  with ok obtain C ax ls ms rs where t: "t = plug C (TSplit p ax (ls @ ms @ rs))"
    "sel_nodes sel = map (\<lambda>k. tid (fst k)) ms" by (auto simp: selection_ok_def)
  from unweighted_context [of C "TSplit p ax (ls @ ms @ rs)" t'] e t obtain C' v'
    where v': "t' = plug C' v'" "unweighted v' = unweighted (TSplit p ax (ls @ ms @ rs))" by metis
  then obtain ks' where k: "v' = TSplit p ax ks'" by (cases v') auto
  have "map fst (map (\<lambda>k. (unweighted (fst k), 0 :: int)) ks') = map fst (map (\<lambda>k. (unweighted (fst k), 0 :: int)) (ls @ ms @ rs))"
    using v'(2) unfolding k unweighted.simps by simp
  then have "map (\<lambda>k. unweighted (fst k)) ks' = map (\<lambda>k. unweighted (fst k)) ls @ map (\<lambda>k. unweighted (fst k)) ms @ map (\<lambda>k. unweighted (fst k)) rs"
    by (simp add: comp_def)
  then obtain ls' ms' rs' where ks': "ks' = ls' @ ms' @ rs'"
    "map (\<lambda>k. unweighted (fst k)) ms' = map (\<lambda>k. unweighted (fst k)) ms"
    unfolding map_eq_append_conv append_eq_map_conv by metis
  then have "map tid (map (\<lambda>k. unweighted (fst k)) ms') = map tid (map (\<lambda>k. unweighted (fst k)) ms)" by simp
  then have "map (\<lambda>k. tid (fst k)) ms' = map (\<lambda>k. tid (fst k)) ms" by (simp add: comp_def)
  then have "\<exists>C ax ls ms rs. t' = plug C (TSplit p ax (ls @ ms @ rs)) \<and> sel_nodes sel = map (\<lambda>k. tid (fst k)) ms"
    using v'(1) k ks'(1) t(2) by metis
  then show ?thesis using ok Some by (simp add: selection_ok_def)
qed


lemma equalize_split_correct:
  assumes inv: "layout_inv L (plug C (TSplit n ax ks))"
  shows "\<exists>changed L' t'. equalize_split L n = Inr (changed, L') \<and> layout_inv L' t'
    \<and> unweighted t' = unweighted (plug C (TSplit n ax ks)) \<and> (\<not> changed \<longrightarrow> L' = L)
    \<and> (changed \<longrightarrow> (\<exists>r. equal_pane_percentages (int (length ks)) = Inr r \<and> t' = plug C (TSplit n ax (reweigh ks r))))"
proof -
  let ?share = "\<lambda>i. 100 div int (length ks) + (if int i < 100 mod int (length ks) then 1 else 0)"
  let ?r = "map ?share [0..<length ks]"
  from inv have rep: "represents L (plug C (TSplit n ax ks))" and wf: "well_formed (plug C (TSplit n ax ks))"
    by (auto simp: layout_inv_def)
  have look: "look L n = Some (split_node_of n (ctx_parent C) ax (map kid_entry ks))"
    using representsD(1) [OF rep] by (simp add: tree_simps)
  have "0 < length ks" using wf by (auto simp: tree_simps)
  note eq = equal_laws [OF this]
  have r: "length ?r = length ks" "\<forall>w \<in> set ?r. 0 \<le> w" "sum_list ?r = 100"
    using eq(2,3) by auto
  from install_percentages [OF inv r] obtain L' where L': "set_split_percentages n ?r L = Inr L'"
    "layout_inv L' (plug C (TSplit n ax (reweigh ks ?r)))" by blast
  show ?thesis
  proof (cases "?r = split_percentage_values \<lparr>sp_axis = ax, sp_children = map kid_entry ks\<rparr>")
    case True
    then have "equalize_split L n = Inr (False, L)"
      using look eq(1) by (simp add: equalize_split_def layout_access)
    then show ?thesis using inv by blast
  next
    case False
    then have "equalize_split L n = Inr (True, L')"
      using look eq(1) L'(1) by (simp add: equalize_split_def layout_access)
    then show ?thesis using L'(2) eq(1) unweighted_plug [OF unweighted_reweigh [OF r(1)]] by blast
  qed
qed

text \<open>Equalising a block of siblings keeps its share of the split and evens it out.\<close>

lemma equalize_block:
  fixes ms :: "(ptree \<times> int) list"
  assumes inv: "layout_inv L (plug C (TSplit p ax (ls @ ms @ rs)))"
    and sel: "sel_parent sel = Some p" "sel_nodes sel = map (\<lambda>k. tid (fst k)) ms" "ms \<noteq> []"
    and range: "length ms \<noteq> 1 \<or> (\<exists>nd. look L (hd (sel_nodes sel)) = Some nd \<and> is_leaf nd)"
  shows "\<exists>changed L' e. equalize_pane_selection L sel = Inr (changed, L')
    \<and> layout_inv L' (plug C (TSplit p ax (reweigh (ls @ ms @ rs) (map snd ls @ e @ map snd rs))))
    \<and> length e = length ms \<and> sum_list e = sum_list (map snd ms)
    \<and> (\<forall>x \<in> set e. x = sum_list (map snd ms) div int (length ms) \<or> x = sum_list (map snd ms) div int (length ms) + 1)
    \<and> (\<not> changed \<longrightarrow> L' = L)"
proof -
  let ?ks = "ls @ ms @ rs" and ?total = "sum_list (map snd ms)"
  let ?split = "\<lparr>sp_axis = ax, sp_children = map kid_entry ?ks\<rparr>"
  from inv have rep: "represents L (plug C (TSplit p ax ?ks))" and wf: "well_formed (plug C (TSplit p ax ?ks))"
    by (auto simp: layout_inv_def)
  have look: "look L p = Some (split_node_of p (ctx_parent C) ax (map kid_entry ?ks))"
    using representsD(1) [OF rep] by (simp add: tree_simps)
  have ok: "kids_ok ?ks" using wf by (simp add: tree_simps)
  have nn: "\<forall>w \<in> set (map snd ?ks). 0 \<le> w" using ok by (auto simp: kids_ok_def)
  have sum: "sum_list (map snd ls) + ?total + sum_list (map snd rs) = 100" using ok by (simp add: kids_ok_def)
  have pos: "0 \<le> ?total" "0 \<le> sum_list (map snd ls)" "0 \<le> sum_list (map snd rs)"
    by (rule sum_list_nonneg; use nn in auto)+
  note pb = partition_block [OF rep sel(2)] and wb = weights_of_block [of ax ls ms rs]
  have nd: "node L p = Inr (split_node_of p (ctx_parent C) ax (map kid_entry ?ks))"
    "node_split (split_node_of p (ctx_parent C) ax (map kid_entry ?ks)) = Inr ?split"
    using look by (simp_all add: layout_access del: map_append)
  let ?ones = "replicate (length ms) (1 :: int)"
  have v: "valid_weights ?ones ?total" using sel(3) pos sum by (simp add: valid_weights_def)
  obtain e where e: "distribute_pane_percentage_total ?ones ?total = Inr e" "length e = length ?ones"
    "sum_list e = ?total" and q: "\<And>i. i < length ?ones \<Longrightarrow>
       e ! i = effective_weights ?ones ! i * ?total div sum_list (effective_weights ?ones)
       \<or> e ! i = effective_weights ?ones ! i * ?total div sum_list (effective_weights ?ones) + 1"
    by (rule distribute_laws [OF v]) (rule that; assumption)
  have el: "length e = length ms" using e(2) by simp
  have ew: "effective_weights ?ones = ?ones" using sel(3) by (simp add: effective_weights_def sum_list_replicate)
  have even: "\<forall>x \<in> set e. x = ?total div int (length ms) \<or> x = ?total div int (length ms) + 1"
  proof
    fix x assume "x \<in> set e"
    then obtain i where "i < length e" "x = e ! i" by (metis in_set_conv_nth)
    then show "x = ?total div int (length ms) \<or> x = ?total div int (length ms) + 1"
      using q [of i] e(2) unfolding ew by (simp add: sum_list_replicate)
  qed
  have ge: "\<forall>x \<in> set e. 0 \<le> x" using pct.share_within [OF v e(1)] by blast
  let ?r = "map snd ls @ e @ map snd rs"
  have cur: "split_percentage_values ?split = map snd ls @ map snd ms @ map snd rs"
    by (simp add: split_percentage_values_def comp_def)
  have a: "assign_at (map snd ls @ map snd ms @ map snd rs) [length ls..<length ls + length ms] e = Inr ?r"
    using assign_block [of "length ls" "length ms" "map snd ls @ map snd ms @ map snd rs" e] e(2) by simp
  have r: "length ?r = length ?ks" "\<forall>w \<in> set ?r. 0 \<le> w" "sum_list ?r = 100"
    using e ge nn sum by auto
  from install_percentages [OF inv r] obtain L' where L': "set_split_percentages p ?r L = Inr L'"
    "layout_inv L' (plug C (TSplit p ax (reweigh ?ks ?r)))" by blast
  have len: "length [length ls..<length ls + length ms] = length ms" by simp
  have single: "(if length (sel_nodes sel) = 1 then and_then (node L (hd (sel_nodes sel)))
      (\<lambda>nd. if \<not> is_leaf nd then X else Y) else Y) = Y" for X and Y :: "(bool \<times> pane_layout) result"
    using range sel(2) by (auto simp: layout_access)
  have run: "equalize_pane_selection L sel =
     (if ?r = map snd ls @ map snd ms @ map snd rs then Inr (False, L) else Inr (True, L'))"
    unfolding equalize_pane_selection_def Let_def single sel(1) option.case nd and_then.simps pb
      selection_partition.simps wb len cur e(1) a L'(1) ..
  show ?thesis
  proof (cases "?r = map snd ls @ map snd ms @ map snd rs")
    case True
    have "?r = map snd ?ks" unfolding True by simp
    then have "reweigh ?ks ?r = ?ks" by (simp only: reweigh_def zip_map_fst_snd)
    then have "layout_inv L (plug C (TSplit p ax (reweigh ?ks ?r)))" using inv by simp
    moreover have "equalize_pane_selection L sel = Inr (False, L)" using run True by simp
    ultimately show ?thesis using el e(3) even by blast
  next
    case False
    then have "equalize_pane_selection L sel = Inr (True, L')" using run by simp
    then show ?thesis using L'(2) el e(3) even by blast
  qed
qed

lemma equalized_selection:
  assumes inv: "layout_inv L t" and ok: "selection_ok t sel"
  shows "\<exists>changed L' t'. equalize_pane_selection L sel = Inr (changed, L') \<and> layout_inv L' t'
    \<and> unweighted t' = unweighted t \<and> (\<not> changed \<longrightarrow> L' = L)"
proof -
  from inv have rep: "represents L t" by (simp add: layout_inv_def)
  have one: "\<exists>changed L' t'. equalize_pane_selection L sel = Inr (changed, L') \<and> layout_inv L' t'
    \<and> unweighted t' = unweighted t \<and> (\<not> changed \<longrightarrow> L' = L)"
    if n: "sel_nodes sel = [n]" and c: "t = plug C (TSplit n ax ks)" for n C ax ks
  proof -
    have "look L n = Some (split_node_of n (ctx_parent C) ax (map kid_entry ks))"
      using representsD(1) [OF rep] c by (simp add: tree_simps)
    then have "equalize_pane_selection L sel = equalize_split L n"
      unfolding equalize_pane_selection_def Let_def n by (simp add: layout_access)
    then show ?thesis using equalize_split_correct [OF inv [unfolded c]] unfolding c by metis
  qed
  from ok show ?thesis
  proof (cases rule: selection_ok_cases)
    case root
    show ?thesis
    proof (cases t)
      case (TLeaf n q)
      then have "look L n = Some (leaf_node_of n None q)" using representsD(1) [OF rep] by simp
      then have "equalize_pane_selection L sel = Inr (False, L)"
        unfolding equalize_pane_selection_def Let_def root TLeaf by (simp add: layout_access)
      then show ?thesis using inv by blast
    next
      case (TSplit n ax ks)
      then show ?thesis using one [of n "[]" ax ks] root by simp
    qed
  next
    case (block C p ax ls ms rs)
    show ?thesis
    proof (cases "length ms = 1")
      case True
      then obtain k where k: "ms = [k]" by (cases ms) auto
      then have tk: "t = plug (Frame p ax ls (snd k) rs # C) (fst k)" using block(1) by simp
      show ?thesis
      proof (cases "fst k")
        case (TSplit n ay ks)
        then show ?thesis using one [of n "Frame p ax ls (snd k) rs # C" ay ks] tk block(3) k by simp
      next
        case (TLeaf n q)
        then have "look L n = Some (leaf_node_of n (Some p) q)"
          using representsD(1) [OF rep] tk by (simp add: tree_simps)
        then have "\<exists>nd. look L (hd (sel_nodes sel)) = Some nd \<and> is_leaf nd" using block(3) k TLeaf by simp
        then show ?thesis using equalize_block [OF inv [unfolded block(1)] block(2-4)] block(1)
            unweighted_plug [OF unweighted_reweigh] by (metis length_append length_map)
      qed
    next
      case False
      then show ?thesis using equalize_block [OF inv [unfolded block(1)] block(2-4)] block(1)
            unweighted_plug [OF unweighted_reweigh] by (metis length_append length_map)
    qed
  qed
qed

lemma equalize_pane_selection_correct:
  assumes inv: "layout_inv L t" and ok: "selection_ok t sel"
  shows "\<exists>changed L' t'. equalize_pane_selection L sel = Inr (changed, L') \<and> layout_inv L' t'
    \<and> unweighted t' = unweighted t \<and> (\<not> changed \<longrightarrow> L' = L)"
  by (rule equalized_selection [OF assms])

text \<open>Every resizing operation keeps the invariant and the shape of the tree.\<close>

lemma resize_pane_selection_shape:
  assumes inv: "layout_inv L t" and ok: "selection_ok t sel"
    and delta: "INT32_MIN \<le> delta" "delta + 100 \<le> INT32_MAX"
  shows "\<exists>changed L' t'. resize_pane_selection L sel delta = Inr (changed, L') \<and> layout_inv L' t'
    \<and> unweighted t' = unweighted t \<and> (\<not> changed \<longrightarrow> L' = L)"
  using ok
proof (cases rule: selection_ok_cases)
  case root
  then show ?thesis using inv by (auto simp: resize_pane_selection_def)
next
  case (block C p ax ls ms rs)
  note R = resized_selection [OF inv [unfolded block(1)] block(2-4) delta refl refl]
  have shape: "unweighted (plug C (TSplit p ax (reweigh (ls @ ms @ rs) r))) = unweighted t"
    if "length r = length (ls @ ms @ rs)" for r
    unfolding block(1) by (rule unweighted_plug [OF unweighted_reweigh [OF that]])
  show ?thesis
  proof (cases "ls @ rs = [] \<or> max 0 (min 100 (sum_list (map snd ms) + delta)) = sum_list (map snd ms)")
    case True
    then have "resize_pane_selection L sel delta = Inr (False, L)" using R by argo
    then show ?thesis using inv by blast
  next
    case False
    then obtain L' r where "resize_pane_selection L sel delta = Inr (True, L')"
      "layout_inv L' (plug C (TSplit p ax (reweigh (ls @ ms @ rs) r)))" "length r = length (ls @ ms @ rs)"
      using R [unfolded if_not_P [OF False]] by blast
    then show ?thesis using shape by blast
  qed
qed

lemma equalize_level_shape:
  assumes inv: "layout_inv L t" and ok: "selection_ok t sel"
  shows "\<exists>changed L' t'. equalize_pane_selection_level L sel = Inr (changed, L') \<and> layout_inv L' t'
    \<and> unweighted t' = unweighted t \<and> (\<not> changed \<longrightarrow> L' = L)"
  using ok
proof (cases rule: selection_ok_cases)
  case root
  then show ?thesis using inv by (auto simp: equalize_pane_selection_level_def)
next
  case (block C p ax ls ms rs)
  then show ?thesis using equalize_split_correct [OF inv [unfolded block(1)]]
    by (simp add: equalize_pane_selection_level_def) metis
qed

text \<open>An evaluated resize: the first of three columns grows by ten percent.\<close>

definition first_column_selection :: pane_selection where
  "first_column_selection = \<lparr>sel_parent = Some 3, sel_anchor = 1, sel_active = 1, sel_nodes = [1]\<rparr>"

lemma resize_pane_selection_correct_witness:
  "\<exists>L' r. resize_pane_selection columns_layout first_column_selection 10 = Inr (True, L')
     \<and> layout_inv L' (TSplit 3 LEFT_TO_RIGHT (reweigh [(TLeaf 1 1, 50), (TLeaf 2 2, 25), (TLeaf 4 3, 25)] r))
     \<and> sum_list r = 100 \<and> sum_list (take 1 r) = 60"
proof -
  have "layout_inv columns_layout (plug [] (TSplit 3 LEFT_TO_RIGHT
      ([] @ [(TLeaf 1 1, 50)] @ [(TLeaf 2 2, 25), (TLeaf 4 3, 25)])))"
    using columns_layout_inv by (simp add: columns_tree_def)
  from resize_pane_selection_correct [OF this, of first_column_selection 10 50 60] show ?thesis
    by (simp add: first_column_selection_def INT32_MIN_def INT32_MAX_def) blast
qed

lemma equalize_pane_selection_correct_witness:
  "\<exists>changed L' t'. equalize_pane_selection columns_layout first_column_selection = Inr (changed, L')
     \<and> layout_inv L' t' \<and> unweighted t' = unweighted columns_tree"
proof -
  have "columns_tree = plug [] (TSplit 3 LEFT_TO_RIGHT ([] @ [(TLeaf 1 1, 50)] @ [(TLeaf 2 2, 25), (TLeaf 4 3, 25)]))"
    by (simp add: columns_tree_def)
  from selection_okI [OF this, of 1 1] have "selection_ok columns_tree first_column_selection"
    by (simp add: first_column_selection_def)
  from equalize_pane_selection_correct [OF columns_layout_inv this] show ?thesis by blast
qed

end
