(* ===== verification/Pane_Rotate.thy ===== *)
theory Pane_Rotate
  imports Pane_Regroup Pane_Selection
begin

text \<open>
  Rotating a selection (src/src/parent/pane/pane_rotate.cc): a selected split, or the split
  around a selected leaf or a completely selected level, changes its axis; a proper range of
  siblings is grouped under a new split. The new selection names the nodes that were moved.
\<close>

section \<open>The operations\<close>

definition child_node_ids :: "pane_split \<Rightarrow> node_id list" where
  "child_node_ids split = map sc_node (sp_children split)"

definition range_selection :: "pane_layout \<Rightarrow> node_id list \<Rightarrow> bool \<Rightarrow> pane_selection result" where
  "range_selection L nodes anchor_at_front =
     throw_if (nodes = []) (Logic_error ''pane rotation cannot produce an empty selection'')
     (if length nodes = 1 then selection_single L (hd nodes)
      else if anchor_at_front then selection_range L (hd nodes) (last nodes)
      else selection_range L (last nodes) (hd nodes))"

definition anchor_is_first :: "pane_selection \<Rightarrow> bool" where
  "anchor_is_first sel \<longleftrightarrow> sel_anchor sel = hd (sel_nodes sel)"

definition rotate_pane_selection_level ::
  "pane_layout \<Rightarrow> pane_selection \<Rightarrow> (bool \<times> pane_selection \<times> pane_layout) result" where
  "rotate_pane_selection_level L sel =
     (let selected_nodes = sel_nodes sel in
      if length selected_nodes > 1 then
        and_then (require (Logic_error ''multi-node pane rotation selection has no parent'') (sel_parent sel))
          (\<lambda>parent.
        and_then (node L parent) (\<lambda>nd.
        and_then (node_split nd) (\<lambda>split.
        if length selected_nodes = length (sp_children split) then
          (let anchor_at_front = anchor_is_first sel in
           and_then (rotate_split parent L) (\<lambda>(_, L').
           and_then (range_selection L' selected_nodes anchor_at_front) (\<lambda>sel'.
           Inr (True, sel', L'))))
        else
          and_then (rotate_sibling_range selected_nodes L) (\<lambda>(group, L').
          and_then (selection_single L' group) (\<lambda>sel'.
          Inr (True, sel', L'))))))
      else if selected_nodes = [] then Inl (Undefined_behavior ''front of an empty vector'')
      else
        (let selected = hd selected_nodes in
         and_then (node L selected) (\<lambda>nd.
         if \<not> is_leaf nd then
           and_then (node_split nd) (\<lambda>split.
           (let children = child_node_ids split in
            and_then (rotate_split selected L) (\<lambda>(_, L').
            and_then (if nd_parent nd \<noteq> None then range_selection L' children True
                      else selection_single L' selected) (\<lambda>sel'.
            Inr (True, sel', L')))))
         else
           (case sel_parent sel of
             None \<Rightarrow> Inr (False, sel, L)
           | Some parent \<Rightarrow>
               and_then (node L parent) (\<lambda>pn.
               and_then (node_split pn) (\<lambda>split.
               (let siblings = child_node_ids split in
                and_then (rotate_split parent L) (\<lambda>(_, L').
                and_then (range_selection L' siblings True) (\<lambda>sel'.
                Inr (True, sel', L'))))))))))"

section \<open>Where the rotated children end up\<close>

lemma range_selection_ok:
  assumes rep: "represents L (plug C (TSplit p ax (ls @ ms @ rs)))" and ne: "ms \<noteq> []"
  shows "\<exists>sel. range_selection L (map (\<lambda>k. tid (fst k)) ms) front = Inr sel
    \<and> selection_ok (plug C (TSplit p ax (ls @ ms @ rs))) sel \<and> sel_nodes sel = map (\<lambda>k. tid (fst k)) ms"
proof (cases "length ms = 1")
  case True
  then obtain k where k: "ms = [k]" by (cases ms) auto
  have "tid (fst k) \<in> set (tree_ids (plug C (TSplit p ax (ls @ ms @ rs))))" by (simp add: ids_plug k)
  from selection_single_ok [OF rep this] show ?thesis by (simp add: range_selection_def k)
next
  case False
  let ?ks = "ls @ ms @ rs"
  define i where "i = length ls"
  define j where "j = length ls + length ms - 1"
  from ne obtain m ms' where m: "ms = m # ms'" by (cases ms) auto
  have ij: "i < length ?ks" "j < length ?ks" "i \<le> j" "?ks ! i = hd ms" "?ks ! j = last ms"
    "j + 1 - i = length ms"
    using ne by (simp_all add: i_def j_def nth_append last_conv_nth hd_conv_nth m)
  have seg: "take (j + 1 - i) (drop i ?ks) = ms" unfolding ij(6) by (simp add: i_def)
  have e: "hd (map (\<lambda>k. tid (fst k)) ms) = tid (fst (?ks ! i))"
    "last (map (\<lambda>k. tid (fst k)) ms) = tid (fst (?ks ! j))"
    unfolding ij(4,5) using ne by (simp_all add: hd_map last_map)
  have mm: "max i j = j" "min i j = i" "max j i = j" "min j i = i" using ij(3) by simp_all
  note r = selection_range_children [OF rep ij(1,2), unfolded mm seg]
    selection_range_children [OF rep ij(2,1), unfolded mm seg]
  note o = selection_range_ok [OF rep ij(1,2)] selection_range_ok [OF rep ij(2,1)]
  show ?thesis
  proof (cases front)
    case True
    with False ne have "range_selection L (map (\<lambda>k. tid (fst k)) ms) front
        = selection_range L (tid (fst (?ks ! i))) (tid (fst (?ks ! j)))"
      unfolding range_selection_def e by simp
    then show ?thesis using r(1) o(1) by (metis Inr_inject pane_selection.select_convs(4))
  next
    case behind: False
    with False ne have "range_selection L (map (\<lambda>k. tid (fst k)) ms) front
        = selection_range L (tid (fst (?ks ! j))) (tid (fst (?ks ! i)))"
      unfolding range_selection_def e by simp
    then show ?thesis using r(2) o(2) by (metis Inr_inject pane_selection.select_convs(4))
  qed
qed

lemma rotated_block:
  assumes wf: "ctx_well_formed C" "well_formed (TSplit n ax ks)"
  shows "\<exists>C' q ay ls' ms' rs'. rotated C (TSplit n ax ks) = plug C' (TSplit q ay (ls' @ ms' @ rs'))
     \<and> map (\<lambda>k. tid (fst k)) ms' = map (\<lambda>k. tid (fst k)) ks"
proof (cases C rule: ctx_parent.cases)
  case 1
  have "rotated C (TSplit n ax ks) = plug [] (TSplit n (other_axis ax)
      ([] @ map (\<lambda>k. (flip (fst k), snd k)) ks @ []))" using 1 by simp
  moreover have "map (\<lambda>k. tid (fst k)) (map (\<lambda>k. (flip (fst k), snd k)) ks) = map (\<lambda>k. tid (fst k)) ks"
    by simp
  ultimately show ?thesis by blast
next
  case (2 g axg ls wg rs C')
  let ?fs = "map (\<lambda>k. (flip (fst k), snd k)) ks"
  have fs: "map (\<lambda>k. tid (fst k)) ?fs = map (\<lambda>k. tid (fst k)) ks" by simp
  show ?thesis
  proof (cases "top_axis (flip (TSplit n ax ks)) = Some axg")
    case True
    have w: "0 \<le> wg" "wg \<le> 100" using frame_weight [of g axg ls wg rs C'] wf(1) 2 by simp_all
    have "kids_ok ?fs" using wf(2) by (simp add: kids_ok_def comp_def)
    note pf = promote_fields [OF this w]
    have "rotated C (TSplit n ax ks)
        = plug C' (TSplit g axg (flatten_kids axg ls @ promote ?fs wg @ flatten_kids axg rs))"
      using True 2 by simp
    then show ?thesis using pf(1) [of tid] fs by metis
  next
    case False
    then have "rotated C (TSplit n ax ks) = plug C (TSplit n (other_axis ax) ([] @ ?fs @ []))"
      using 2 by simp
    then show ?thesis using fs by blast
  qed
qed

text \<open>Rotating the split at a place, with everything the selection needs afterwards.\<close>

lemma rotate_split_selects:
  assumes inv: "layout_inv L t" and t: "t = plug C (TSplit n ax ks)"
  shows "\<exists>L' t'. rotate_split n L = Inr (True, L') \<and> layout_inv L' t'
     \<and> (alternates t \<longrightarrow> alternates t') \<and> tree_leaves t' = tree_leaves t
     \<and> (\<forall>front. \<exists>sel'. range_selection L' (map (\<lambda>k. tid (fst k)) ks) front = Inr sel'
          \<and> selection_ok t' sel' \<and> sel_nodes sel' = map (\<lambda>k. tid (fst k)) ks)
     \<and> (C = [] \<longrightarrow> (\<exists>sel'. selection_single L' n = Inr sel' \<and> selection_ok t' sel'))"
proof -
  from inv have rep: "represents L t" and wf: "well_formed t" and dp: "distinct (tree_panes t)"
    by (auto simp: layout_inv_def)
  let ?t' = "rotated C (TSplit n ax ks)"
  obtain L' where L': "rotate_split n L = Inr (True, L')" "represents L' ?t'"
    using rotate_split_eq [OF rep [unfolded t] wf [unfolded t]] by blast
  have wfs: "ctx_well_formed C" "well_formed (TSplit n ax ks)"
    using wf unfolding t well_formed_plug by blast+
  note rf = rotated_facts [OF wfs]
  have lv: "tree_leaves ?t' = tree_leaves t"
    unfolding rf(1) t leaves_plug ..
  have alt: "alternates t \<longrightarrow> alternates ?t'"
    using rf(3) ctx_alternates_leaf unfolding t alternates_plug by blast
  have inv': "layout_inv L' ?t'" using L' rf(2) dp lv unfolding layout_inv_def tree_panes_def by metis
  obtain C' q ay ls' ms' rs' where b: "?t' = plug C' (TSplit q ay (ls' @ ms' @ rs'))"
    "map (\<lambda>k. tid (fst k)) ms' = map (\<lambda>k. tid (fst k)) ks"
    using rotated_block [OF wfs] by blast
  have "ms' \<noteq> []" using b(2) wfs(2) by auto
  then have "\<forall>front. \<exists>sel'. range_selection L' (map (\<lambda>k. tid (fst k)) ks) front = Inr sel'
      \<and> selection_ok ?t' sel' \<and> sel_nodes sel' = map (\<lambda>k. tid (fst k)) ks"
    using range_selection_ok [OF L'(2) [unfolded b(1)]] unfolding b(1) b(2) [symmetric] by blast
  moreover have "\<exists>sel'. selection_single L' n = Inr sel' \<and> selection_ok ?t' sel'" if "C = []"
  proof -
    have "n \<in> set (tree_ids ?t')" using that by simp
    from selection_single_ok [OF L'(2) this] show ?thesis by blast
  qed
  ultimately show ?thesis using L'(1) inv' alt lv by blast
qed

lemma plug_split_not_leaf: "\<nexists>n q. plug C (TSplit p ax ks) = TLeaf n q"
proof (induction C arbitrary: p ax ks)
  case (Cons f C)
  then show ?case by (cases f) simp
qed simp

text \<open>Every rotation of a selection keeps the tree in shape and leaves a selection of it.\<close>

lemma rotated_selection:
  assumes inv: "layout_inv L t" and ok: "selection_ok t sel" and room: "int (ly_next L) < UINT64_MAX"
  shows "\<exists>changed sel' L' t'. rotate_pane_selection_level L sel = Inr (changed, sel', L')
     \<and> layout_inv L' t' \<and> selection_ok t' sel' \<and> tree_leaves t' = tree_leaves t
     \<and> (alternates t \<longrightarrow> alternates t')
     \<and> (\<not> changed \<longleftrightarrow> (\<exists>n q. t = TLeaf n q)) \<and> (\<not> changed \<longrightarrow> sel' = sel \<and> L' = L)"
proof -
  from inv have rep: "represents L t" by (simp add: layout_inv_def)
  have nf: "\<nexists>n q. plug C (TSplit p ax ks) = TLeaf n q" for C p ax ks
    by (rule plug_split_not_leaf)
  have fin: ?thesis
    if "rotate_pane_selection_level L sel = Inr (True, sel', L')" "layout_inv L' t'" "selection_ok t' sel'"
      "tree_leaves t' = tree_leaves t" "alternates t \<longrightarrow> alternates t'" "t = plug C (TSplit p ax ks)"
    for sel' L' t' C p ax ks
    using that nf [of C p ax ks] by blast
  have split_look: "look L n = Some (split_node_of n (ctx_parent C) ax (map kid_entry ks))"
    if "t = plug C (TSplit n ax ks)" for n C ax ks
    using representsD(1) [OF rep] unfolding that by (simp add: tree_simps)
  have leaf_look: "look L n = Some (leaf_node_of n (ctx_parent C) q)"
    if "t = plug C (TLeaf n q)" for n C q
    using representsD(1) [OF rep] unfolding that by (simp add: tree_simps)
  have child: "child_node_ids \<lparr>sp_axis = ax, sp_children = map kid_entry ks\<rparr> = map (\<lambda>k. tid (fst k)) ks" for ax ks
    by (simp add: child_node_ids_def comp_def)
  have one: ?thesis if n: "sel_nodes sel = [n]" and c: "t = plug C (TSplit n ax ks)" for n C ax ks
  proof -
    obtain L' t' where R: "rotate_split n L = Inr (True, L')" "layout_inv L' t'"
      "alternates t \<longrightarrow> alternates t'" "tree_leaves t' = tree_leaves t"
      "\<forall>front. \<exists>sel'. range_selection L' (map (\<lambda>k. tid (fst k)) ks) front = Inr sel'
          \<and> selection_ok t' sel' \<and> sel_nodes sel' = map (\<lambda>k. tid (fst k)) ks"
      "C = [] \<longrightarrow> (\<exists>sel'. selection_single L' n = Inr sel' \<and> selection_ok t' sel')"
      using rotate_split_selects [OF inv c] by blast
    note lk = split_look [OF c]
    show ?thesis
    proof (cases "C = []")
      case True
      with R(6) obtain sel' where s: "selection_single L' n = Inr sel'" "selection_ok t' sel'" by blast
      have "rotate_pane_selection_level L sel = Inr (True, sel', L')"
        unfolding rotate_pane_selection_level_def Let_def n
        using lk R(1) s(1) True by (simp add: layout_access)
      from fin [OF this R(2) s(2) R(4) R(3) c] show ?thesis .
    next
      case False
      then have cp: "ctx_parent C \<noteq> None" by (cases C rule: ctx_parent.cases) simp_all
      from R(5) obtain sel' where s: "range_selection L' (map (\<lambda>k. tid (fst k)) ks) True = Inr sel'"
        "selection_ok t' sel'" by blast
      have "rotate_pane_selection_level L sel = Inr (True, sel', L')"
        unfolding rotate_pane_selection_level_def Let_def n
        using lk R(1) s(1) cp by (simp add: layout_access child del: not_None_eq)
      from fin [OF this R(2) s(2) R(4) R(3) c] show ?thesis .
    qed
  qed
  from ok show ?thesis
  proof (cases rule: selection_ok_cases)
    case root
    show ?thesis
    proof (cases t)
      case (TLeaf n q)
      then have "look L n = Some (leaf_node_of n None q)" using leaf_look [of "[]" n q] by simp
      then have "rotate_pane_selection_level L sel = Inr (False, sel, L)"
        unfolding rotate_pane_selection_level_def Let_def root TLeaf by (simp add: layout_access)
      then show ?thesis using inv ok TLeaf by blast
    next
      case (TSplit n ax ks)
      then show ?thesis using one [of n "[]" ax ks] root by simp
    qed
  next
    case (block C p ax ls ms rs)
    note lp = split_look [OF block(1)]
    show ?thesis
    proof (cases "length ms = 1")
      case True
      then obtain k where k: "ms = [k]" by (cases ms) auto
      then have tk: "t = plug (Frame p ax ls (snd k) rs # C) (fst k)" using block(1) by simp
      show ?thesis
      proof (cases "fst k")
        case (TSplit n ay ks)
        then show ?thesis using one [of n "Frame p ax ls (snd k) rs # C" ay ks] tk block(3) k by simp
      next
        case (TLeaf n q)
        have n: "sel_nodes sel = [n]" using block(3) k TLeaf by simp
        have ln: "look L n = Some (leaf_node_of n (Some p) q)"
          using leaf_look [of "Frame p ax ls (snd k) rs # C" n q] tk TLeaf by simp
        obtain L' t' where R: "rotate_split p L = Inr (True, L')" "layout_inv L' t'"
          "alternates t \<longrightarrow> alternates t'" "tree_leaves t' = tree_leaves t"
          "\<forall>front. \<exists>sel'. range_selection L' (map (\<lambda>k. tid (fst k)) (ls @ ms @ rs)) front = Inr sel'
            \<and> selection_ok t' sel' \<and> sel_nodes sel' = map (\<lambda>k. tid (fst k)) (ls @ ms @ rs)"
          using rotate_split_selects [OF inv block(1)] by blast
        from R(5) obtain sel' where
          s: "range_selection L' (map (\<lambda>k. tid (fst k)) (ls @ ms @ rs)) True = Inr sel'"
          "selection_ok t' sel'" by blast
        have "rotate_pane_selection_level L sel = Inr (True, sel', L')"
          unfolding rotate_pane_selection_level_def Let_def n block(2)
          using ln lp R(1) s(1) by (simp add: layout_access child del: map_append)
        from fin [OF this R(2) s(2) R(4) R(3) block(1)] show ?thesis .
      qed
    next
      case False
      with block(4) have two: "2 \<le> length ms" by (cases ms rule: list.exhaust) (auto simp: Suc_le_eq)
      show ?thesis
      proof (cases "ls @ rs = []")
        case True
        then have whole: "length (sel_nodes sel) = length (ls @ ms @ rs)" and all: "ls @ ms @ rs = ms"
          using block(3) by simp_all
        obtain L' t' where R: "rotate_split p L = Inr (True, L')" "layout_inv L' t'"
          "alternates t \<longrightarrow> alternates t'" "tree_leaves t' = tree_leaves t"
          "\<forall>front. \<exists>sel'. range_selection L' (map (\<lambda>k. tid (fst k)) (ls @ ms @ rs)) front = Inr sel'
            \<and> selection_ok t' sel' \<and> sel_nodes sel' = map (\<lambda>k. tid (fst k)) (ls @ ms @ rs)"
          using rotate_split_selects [OF inv block(1)] by blast
        from R(5) obtain sel' where
          s: "range_selection L' (sel_nodes sel) (anchor_is_first sel) = Inr sel'" "selection_ok t' sel'"
          unfolding all block(3) by blast
        have "rotate_pane_selection_level L sel = Inr (True, sel', L')"
          unfolding rotate_pane_selection_level_def Let_def block(2)
          using lp R(1) s(1) two block(3) whole by (simp add: layout_access)
        from fin [OF this R(2) s(2) R(4) R(3) block(1)] show ?thesis .
      next
        case False
        then have part: "length (sel_nodes sel) \<noteq> length (ls @ ms @ rs)" using block(3) by auto
        obtain L' t' where R: "rotate_sibling_range (map (\<lambda>k. tid (fst k)) ms) L = Inr (ly_next L, L')"
          "layout_inv L' t'" "alternates t \<longrightarrow> alternates t'" "tree_leaves t' = tree_leaves t"
          "ly_next L \<in> set (tree_ids t')"
          using rotated_range_inv [OF inv block(1) two False room] by blast
        have "represents L' t'" using R(2) by (simp add: layout_inv_def)
        from selection_single_ok [OF this R(5)] obtain sel' where
          s: "selection_single L' (ly_next L) = Inr sel'" "selection_ok t' sel'" by blast
        have "rotate_pane_selection_level L sel = Inr (True, sel', L')"
          unfolding rotate_pane_selection_level_def Let_def block(2)
          using lp R(1) s(1) two block(3) part False by (auto simp: layout_access)
        from fin [OF this R(2) s(2) R(4) R(3) block(1)] show ?thesis .
      qed
    qed
  qed
qed

lemma rotate_pane_selection_level_correct:
  assumes inv: "layout_inv L t" and ok: "selection_ok t sel" and room: "int (ly_next L) < UINT64_MAX"
  shows "\<exists>changed sel' L' t'. rotate_pane_selection_level L sel = Inr (changed, sel', L')
     \<and> layout_inv L' t' \<and> selection_ok t' sel' \<and> tree_leaves t' = tree_leaves t
     \<and> (alternates t \<longrightarrow> alternates t')
     \<and> (\<not> changed \<longleftrightarrow> (\<exists>n q. t = TLeaf n q)) \<and> (\<not> changed \<longrightarrow> sel' = sel \<and> L' = L)"
  by (rule rotated_selection [OF assms])

text \<open>An evaluated rotation: the last two of three columns are grouped under a new split.\<close>

definition last_columns_selection :: pane_selection where
  "last_columns_selection = \<lparr>sel_parent = Some 3, sel_anchor = 2, sel_active = 4, sel_nodes = [2, 4]\<rparr>"

lemma rotate_pane_selection_level_correct_witness:
  "\<exists>changed sel' L' t'. rotate_pane_selection_level columns_layout last_columns_selection
       = Inr (changed, sel', L')
     \<and> layout_inv L' t' \<and> selection_ok t' sel' \<and> changed \<and> tree_panes t' = [1, 2, 3]"
proof -
  have "columns_tree = plug [] (TSplit 3 LEFT_TO_RIGHT ([(TLeaf 1 1, 50)] @ [(TLeaf 2 2, 25), (TLeaf 4 3, 25)] @ []))"
    by (simp add: columns_tree_def)
  from selection_okI [OF this, of 2 4] have ok: "selection_ok columns_tree last_columns_selection"
    by (simp add: last_columns_selection_def)
  have "int (ly_next columns_layout) < UINT64_MAX" by (simp add: columns_layout_def UINT64_MAX_def)
  from rotate_pane_selection_level_correct [OF columns_layout_inv ok this]
  obtain changed sel' L' t' where
    r: "rotate_pane_selection_level columns_layout last_columns_selection = Inr (changed, sel', L')"
      "layout_inv L' t'" "selection_ok t' sel'" "tree_leaves t' = tree_leaves columns_tree"
      "\<not> changed \<longleftrightarrow> (\<exists>n q. columns_tree = TLeaf n q)" by blast
  have "changed" "tree_panes t' = [1, 2, 3]"
    using r(4,5) unfolding tree_panes_def by (simp_all add: columns_tree_def)
  with r(1,2,3) show ?thesis by blast
qed

end
