(* ===== verification/Text.thy ===== *)
theory Text
  imports Prelude
begin

text \<open>
  Decimal numbers as the program writes them (\<open>std::to_string\<close>) and the escape sequences its
  output is made of. Reading a written number back gives the number, so different numbers are
  written differently.
\<close>

section \<open>std::to_string\<close>

definition digit_char :: "nat \<Rightarrow> char" where
  "digit_char d = char_of (48 + d)"

definition is_digit :: "char \<Rightarrow> bool" where
  "is_digit c \<longleftrightarrow> 48 \<le> (of_char c :: nat) \<and> (of_char c :: nat) \<le> 57"

definition digit_value :: "char \<Rightarrow> nat" where
  "digit_value c = of_char c - 48"

fun decimal :: "nat \<Rightarrow> string" where
  "decimal n = (if n < 10 then [digit_char n] else decimal (n div 10) @ [digit_char (n mod 10)])"

declare decimal.simps [simp del]

definition to_string :: "int \<Rightarrow> string" where
  "to_string i = (if i < 0 then ''-'' @ decimal (nat (- i)) else decimal (nat i))"

definition decimal_value :: "string \<Rightarrow> nat" where
  "decimal_value s = foldl (\<lambda>v c. 10 * v + digit_value c) 0 s"

lemma digit_facts [simp]:
  assumes "d < 10"
  shows "digit_value (digit_char d) = d" "is_digit (digit_char d)"
  using assms by (simp_all add: digit_char_def digit_value_def is_digit_def)

lemma decimal_value_snoc: "decimal_value (s @ [c]) = 10 * decimal_value s + digit_value c"
  by (simp add: decimal_value_def)

lemma decimal_digits: "\<forall>c \<in> set (decimal n). is_digit c"
proof (induction n rule: decimal.induct)
  case (1 n)
  then show ?case by (subst decimal.simps) auto
qed

lemma decimal_nonempty [simp]: "decimal n \<noteq> []"
  by (subst decimal.simps) simp

lemma decimal_value_decimal [simp]: "decimal_value (decimal n) = n"
proof (induction n rule: decimal.induct)
  case (1 n)
  show ?case
  proof (cases "n < 10")
    case True
    then show ?thesis by (subst decimal.simps) (simp add: decimal_value_def)
  next
    case False
    then show ?thesis using 1 by (subst decimal.simps) (simp add: decimal_value_snoc)
  qed
qed

lemma decimal_inj: "decimal m = decimal n \<longleftrightarrow> m = n"
  by (metis decimal_value_decimal)

lemma to_string_nonneg: "0 \<le> i \<Longrightarrow> to_string i = decimal (nat i)"
  by (simp add: to_string_def)

lemma minus_not_digit: "\<not> is_digit (CHR ''-'')"
  by (simp add: is_digit_def)

lemma to_string_inj: "to_string i = to_string j \<longleftrightarrow> i = j"
proof
  assume e: "to_string i = to_string j"
  have minus: "''-'' @ s \<noteq> decimal n" for s n
    using decimal_digits [of n] minus_not_digit by (cases "decimal n") auto
  show "i = j"
    using e minus minus [symmetric] by (auto simp: to_string_def decimal_inj split: if_splits)
qed simp

section \<open>Escape sequences\<close>

definition ESC :: char where "ESC = CHR 0x1B"

text \<open>A control sequence: escape, a bracket and the rest.\<close>

definition csi :: "string \<Rightarrow> string" where
  "csi s = ESC # CHR ''['' # s"

end
