(* ===== verification/Path.thy ===== *)
theory Path
  imports Text "HOL-Library.Char_ord" "HOL-Library.List_Lexorder"
begin

text \<open>
  File-system paths (\<open>std::filesystem::path\<close>), as the program compares and prints them. The
  library compares paths by their elements, so a path is its list of elements, the root
  directory being the element \<open>/\<close>; the order of such lists is the order of \<open>std::map\<close> keys.
  \<open>path_string\<close> is \<open>string()\<close>; for a well-formed path it can be read back.
\<close>

type_synonym path = "string list"

definition root_directory :: path where
  "root_directory = [''/'']"

fun join_elements :: "string list \<Rightarrow> string" where
  "join_elements [] = []"
| "join_elements [e] = e"
| "join_elements (e # f # es) = e @ CHR ''/'' # join_elements (f # es)"

definition path_string :: "path \<Rightarrow> string" where
  "path_string p = (case p of
     [] \<Rightarrow> []
   | e # es \<Rightarrow> if e = ''/'' then CHR ''/'' # join_elements es else join_elements p)"

definition parent_path :: "path \<Rightarrow> path" where
  "parent_path p = (if p = root_directory then p else butlast p)"

definition root_path :: "path \<Rightarrow> path" where
  "root_path p = (if p \<noteq> [] \<and> hd p = ''/'' then root_directory else [])"

text \<open>
  \<open>path / element\<close>, for a relative element, \<open>is_absolute\<close> and \<open>path / path\<close>. A trailing separator is an
  empty last element, which the appended one replaces.
\<close>

definition path_append :: "path \<Rightarrow> string \<Rightarrow> path" where
  "path_append p e = (if p \<noteq> [] \<and> last p = [] then butlast p @ [e] else p @ [e])"

definition is_absolute :: "path \<Rightarrow> bool" where
  "is_absolute p \<longleftrightarrow> p \<noteq> [] \<and> hd p = ''/''"

text \<open>\<open>is_absolute\<close> of the native string.\<close>

definition native_absolute :: "string \<Rightarrow> bool" where
  "native_absolute p \<longleftrightarrow> p \<noteq> [] \<and> hd p = CHR ''/''"

definition path_join :: "path \<Rightarrow> path \<Rightarrow> path" where
  "path_join p q =
     (if is_absolute q then q
      else if q = [] then (if p = [] \<or> p = root_directory \<or> last p = [] then p else p @ [[]])
      else if p \<noteq> [] \<and> last p = [] then butlast p @ q
      else p @ q)"

section \<open>Reading a path back\<close>

definition element_ok :: "string \<Rightarrow> bool" where
  "element_ok e \<longleftrightarrow> e \<noteq> [] \<and> CHR ''/'' \<notin> set e"

definition path_ok :: "path \<Rightarrow> bool" where
  "path_ok p \<longleftrightarrow> (\<exists>es. (p = es \<or> p = ''/'' # es) \<and> (\<forall>e \<in> set es. element_ok e))"

fun split_elements :: "string \<Rightarrow> string \<Rightarrow> string list" where
  "split_elements e [] = (if e = [] then [] else [e])"
| "split_elements e (c # cs) =
     (if c = CHR ''/'' then (if e = [] then split_elements [] cs else e # split_elements [] cs)
      else split_elements (e @ [c]) cs)"

text \<open>A separator at the end, after an element, leaves an empty last element.\<close>

definition path_of_string :: "string \<Rightarrow> path" where
  "path_of_string s = (case s of [] \<Rightarrow> []
     | c # cs \<Rightarrow>
         let es = split_elements [] s in
         (if c = CHR ''/'' then [''/''] else []) @ es @ (if es \<noteq> [] \<and> last s = CHR ''/'' then [[]] else []))"

lemma split_elements_skip:
  "CHR ''/'' \<notin> set d \<Longrightarrow> split_elements e (d @ cs) = split_elements (e @ d) cs"
  by (induction d arbitrary: e) auto

lemma split_join: "\<forall>e \<in> set es. element_ok e \<Longrightarrow> split_elements [] (join_elements es) = es"
proof (induction es rule: join_elements.induct)
  case (2 e)
  then show ?case using split_elements_skip [of e "[]" "[]"] by (simp add: element_ok_def)
next
  case (3 e f es)
  then show ?case using split_elements_skip [of e "[]" "CHR ''/'' # join_elements (f # es)"]
    by (simp add: element_ok_def)
qed simp

lemma join_starts: "es \<noteq> [] \<Longrightarrow> element_ok (hd es) \<Longrightarrow>
    \<exists>c cs. join_elements es = c # cs \<and> c \<noteq> CHR ''/''"
  by (induction es rule: join_elements.induct) (auto simp: element_ok_def neq_Nil_conv)

lemma join_ends:
  "es \<noteq> [] \<Longrightarrow> \<forall>e \<in> set es. element_ok e \<Longrightarrow> last (join_elements es) \<noteq> CHR ''/''"
proof (induction es rule: join_elements.induct)
  case (2 e)
  then show ?case by (auto simp: element_ok_def) (metis last_in_set)
next
  case (3 e f es)
  then show ?case using join_starts [of "f # es"] by (auto simp: element_ok_def)
qed simp

lemma path_of_path_string:
  assumes "path_ok p"
  shows "path_of_string (path_string p) = p"
proof -
  from assms obtain es where es: "p = es \<or> p = ''/'' # es" "\<forall>e \<in> set es. element_ok e" by (auto simp: path_ok_def)
  show ?thesis
  proof (cases "p = ''/'' # es")
    case True
    then show ?thesis using split_join [OF es(2)] join_ends [OF _ es(2)]
      by (auto simp: path_string_def path_of_string_def Let_def)
  next
    case False
    then have p: "p = es" using es(1) by blast
    show ?thesis
    proof (cases es)
      case Nil
      then show ?thesis using p by (simp add: path_string_def path_of_string_def)
    next
      case (Cons e es')
      then have "e \<noteq> ''/''" using es(2) by (auto simp: element_ok_def)
      moreover obtain c cs where "join_elements es = c # cs" "c \<noteq> CHR ''/''"
        using join_starts [of es] es(2) Cons by auto
      ultimately show ?thesis using split_join [OF es(2)] join_ends [OF _ es(2)] p Cons
        by (simp add: path_string_def path_of_string_def Let_def)
    qed
  qed
qed

lemma path_string_inj: "path_ok p \<Longrightarrow> path_ok q \<Longrightarrow> path_string p = path_string q \<longleftrightarrow> p = q"
  by (metis path_of_path_string)

lemma parent_path_ok:
  assumes "path_ok p"
  shows "path_ok (parent_path p)"
proof -
  from assms obtain es where es: "p = es \<or> p = ''/'' # es" "\<forall>e \<in> set es. element_ok e" by (auto simp: path_ok_def)
  then have "\<forall>e \<in> set (butlast es). element_ok e" by (auto dest: in_set_butlastD)
  moreover have "parent_path p = p \<or> parent_path p = butlast es \<or> parent_path p = ''/'' # butlast es"
    using es(1) by (cases "es = []") (auto simp: parent_path_def root_directory_def)
  ultimately show ?thesis using assms by (auto simp: path_ok_def)
qed

end
