(* ===== verification/Tray_Id.thy ===== *)
theory Tray_Id
  imports Path
begin

text \<open>
  Tray numbers and identifiers (src/src/parent/tray/tray_number.h, tray_number.cc, tray_id.h,
  tray_id.cc, tray_id_kind.h). A tray is anonymous, with a number from 1 to 9, or belongs to a
  worktree, named by its root path. The key of a well-formed identifier determines it.
\<close>

type_synonym tray_number = int

definition TRAY_MIN_VALUE :: int where "TRAY_MIN_VALUE = 1"
definition TRAY_MAX_VALUE :: int where "TRAY_MAX_VALUE = 9"

definition tray_number_from_int :: "int \<Rightarrow> tray_number option" where
  "tray_number_from_int value =
     (if value < TRAY_MIN_VALUE \<or> value > TRAY_MAX_VALUE then None else Some value)"

definition tray_number_one :: tray_number where
  "tray_number_one = TRAY_MIN_VALUE"

datatype tray_id_kind = Kind_ANONYMOUS | Kind_WORKTREE

datatype tray_id = Anonymous_tray tray_number | Worktree_tray path

definition tray_kind :: "tray_id \<Rightarrow> tray_id_kind" where
  "tray_kind i = (case i of Anonymous_tray _ \<Rightarrow> Kind_ANONYMOUS | Worktree_tray _ \<Rightarrow> Kind_WORKTREE)"

definition tray_anonymous_number :: "tray_id \<Rightarrow> tray_number result" where
  "tray_anonymous_number i = (case i of
     Anonymous_tray n \<Rightarrow> Inr n
   | Worktree_tray _ \<Rightarrow> Inl (Logic_error ''tray id is not anonymous''))"

definition tray_worktree_root :: "tray_id \<Rightarrow> path result" where
  "tray_worktree_root i = (case i of
     Anonymous_tray _ \<Rightarrow> Inl (Logic_error ''tray id is not a worktree'')
   | Worktree_tray root \<Rightarrow> Inr root)"

definition tray_key :: "tray_id \<Rightarrow> string" where
  "tray_key i = (case i of
     Anonymous_tray n \<Rightarrow> ''anonymous:'' @ to_string n
   | Worktree_tray root \<Rightarrow> ''worktree:'' @ path_string root)"

definition tray_label :: "tray_id \<Rightarrow> string" where
  "tray_label i = (case i of
     Anonymous_tray n \<Rightarrow> ''tray '' @ to_string n
   | Worktree_tray root \<Rightarrow> ''worktree '' @ path_string root)"

text \<open>An identifier with a number in range or a well-formed root; its key determines it.\<close>

definition tray_id_ok :: "tray_id \<Rightarrow> bool" where
  "tray_id_ok i = (case i of
     Anonymous_tray n \<Rightarrow> TRAY_MIN_VALUE \<le> n \<and> n \<le> TRAY_MAX_VALUE
   | Worktree_tray root \<Rightarrow> path_ok root)"

lemma tray_key_inj: "tray_id_ok i \<Longrightarrow> tray_id_ok j \<Longrightarrow> tray_key i = tray_key j \<longleftrightarrow> i = j"
  by (cases i; cases j) (auto simp: tray_key_def tray_id_ok_def to_string_inj path_string_inj)

end
