(* ===== verification/Pane_Process.thy ===== *)
theory Pane_Process
  imports Pane_Geometry Path
begin

text \<open>
  A pane (src/src/parent/pane/pane.h, pane.cc, pane_config.h): a content process behind a
  pseudo terminal, a terminal screen that follows its output, and the size both were last
  given. The process and the screen are opaque, of types \<open>'c\<close> and \<open>'s\<close>; what the code asks of
  them is a record of functions, an argument of every definition that uses them. A call into
  them that can throw returns a result, one that changes them returns the new value.
\<close>

section \<open>Configuration and runtime\<close>

record pane_config =
  pc_command :: "string list"
  pc_directory :: path
  pc_initial_size :: terminal_size
  pc_estimate :: bool

record ('c, 's, 'o) pane_runtime =
  rt_start :: "string list \<Rightarrow> path \<Rightarrow> terminal_size \<Rightarrow> 'c option result"
  rt_write :: "string \<Rightarrow> 'c \<Rightarrow> 'c result"
  rt_read :: "'c \<Rightarrow> (string option \<times> 'c) result"
  rt_content_resize :: "terminal_size \<Rightarrow> 'c \<Rightarrow> 'c result"
  rt_exit :: "'c \<Rightarrow> int option"
  rt_descriptor :: "'c \<Rightarrow> int"
  rt_child :: "'c \<Rightarrow> int"
  rt_screen :: "terminal_size \<Rightarrow> 's result"
  rt_ingest :: "string \<Rightarrow> 's \<Rightarrow> 's"
  rt_screen_resize :: "terminal_size \<Rightarrow> 's \<Rightarrow> 's result"
  rt_snapshot :: "'s \<Rightarrow> string"
  rt_region_snapshot :: "terminal_position \<Rightarrow> 's \<Rightarrow> string"
  rt_sized_snapshot :: "terminal_position \<Rightarrow> terminal_size \<Rightarrow> 's \<Rightarrow> string"
  rt_overlay_resize :: "terminal_size \<Rightarrow> 'o \<Rightarrow> 'o result"

section \<open>The operations of a pane\<close>

record ('c, 's) pane =
  pn_content :: 'c
  pn_screen :: 's
  pn_size :: terminal_size

definition pane_start :: "('c, 's, 'o) pane_runtime \<Rightarrow> pane_config \<Rightarrow> ('c, 's) pane result" where
  "pane_start rt config =
     and_then (rt_start rt (pc_command config) (pc_directory config) (pc_initial_size config)) (\<lambda>started.
     and_then (rt_screen rt (pc_initial_size config)) (\<lambda>screen.
     and_then (require (Invalid_argument ''pane requires a content pty'') started) (\<lambda>content.
     Inr \<lparr>pn_content = content, pn_screen = screen, pn_size = pc_initial_size config\<rparr>)))"

definition pane_write_input :: "('c, 's, 'o) pane_runtime \<Rightarrow> string \<Rightarrow> ('c, 's) pane \<Rightarrow> ('c, 's) pane result" where
  "pane_write_input rt bytes p =
     and_then (rt_write rt bytes (pn_content p)) (\<lambda>content. Inr (p\<lparr>pn_content := content\<rparr>))"

definition pane_read_output :: "('c, 's, 'o) pane_runtime \<Rightarrow> ('c, 's) pane \<Rightarrow>
    (string option \<times> ('c, 's) pane) result" where
  "pane_read_output rt p =
     and_then (rt_read rt (pn_content p)) (\<lambda>(output, content).
     Inr (output, p\<lparr>pn_content := content,
       pn_screen := (case output of None \<Rightarrow> pn_screen p | Some s \<Rightarrow> rt_ingest rt s (pn_screen p))\<rparr>))"

definition pane_redraw_output :: "('c, 's, 'o) pane_runtime \<Rightarrow> ('c, 's) pane \<Rightarrow> string" where
  "pane_redraw_output rt p = rt_snapshot rt (pn_screen p)"

definition pane_redraw_output_at :: "('c, 's, 'o) pane_runtime \<Rightarrow> terminal_position \<Rightarrow> ('c, 's) pane \<Rightarrow> string" where
  "pane_redraw_output_at rt origin p = rt_region_snapshot rt origin (pn_screen p)"

definition pane_preview_output :: "('c, 's, 'o) pane_runtime \<Rightarrow> terminal_position \<Rightarrow> terminal_size \<Rightarrow>
    ('c, 's) pane \<Rightarrow> string" where
  "pane_preview_output rt origin region_size p = rt_sized_snapshot rt origin region_size (pn_screen p)"

definition pane_resize :: "('c, 's, 'o) pane_runtime \<Rightarrow> terminal_size \<Rightarrow> ('c, 's) pane \<Rightarrow> ('c, 's) pane result" where
  "pane_resize rt new_size p =
     (if ts_rows new_size = ts_rows (pn_size p) \<and> ts_cols new_size = ts_cols (pn_size p) then Inr p
      else and_then (rt_content_resize rt new_size (pn_content p)) (\<lambda>content.
        and_then (rt_screen_resize rt new_size (pn_screen p)) (\<lambda>screen.
        Inr (p\<lparr>pn_content := content, pn_screen := screen, pn_size := new_size\<rparr>))))"

definition pane_try_wait_for_exit :: "('c, 's, 'o) pane_runtime \<Rightarrow> ('c, 's) pane \<Rightarrow> int option" where
  "pane_try_wait_for_exit rt p = rt_exit rt (pn_content p)"

definition pane_file_descriptor :: "('c, 's, 'o) pane_runtime \<Rightarrow> ('c, 's) pane \<Rightarrow> int" where
  "pane_file_descriptor rt p = rt_descriptor rt (pn_content p)"

definition pane_child_pid :: "('c, 's, 'o) pane_runtime \<Rightarrow> ('c, 's) pane \<Rightarrow> int" where
  "pane_child_pid rt p = rt_child rt (pn_content p)"

text \<open>
  What the tray needs of the operating system: a process starts, and a pseudo terminal and a
  screen take every size of 1 to 65535 rows and columns, the bounds \<open>validate_size\<close> of
  src/src/parent/terminal/content_pty_session.cc checks (the screen only asks for positive
  ones). Nothing is asked for other sizes.
\<close>

definition usable_size :: "terminal_size \<Rightarrow> bool" where
  "usable_size sz \<longleftrightarrow> 1 \<le> ts_rows sz \<and> ts_rows sz \<le> 65535 \<and> 1 \<le> ts_cols sz \<and> ts_cols sz \<le> 65535"

definition runtime_obliges :: "('c, 's, 'o) pane_runtime \<Rightarrow> bool" where
  "runtime_obliges rt \<longleftrightarrow>
     (\<forall>sz. usable_size sz \<longrightarrow>
        (\<forall>command directory. command \<noteq> [] \<longrightarrow> (\<exists>content. rt_start rt command directory sz = Inr (Some content)))
        \<and> (\<exists>screen. rt_screen rt sz = Inr screen)
        \<and> (\<forall>content. \<exists>content'. rt_content_resize rt sz content = Inr content')
        \<and> (\<forall>screen. \<exists>screen'. rt_screen_resize rt sz screen = Inr screen')
        \<and> (\<forall>overlay. \<exists>overlay'. rt_overlay_resize rt sz overlay = Inr overlay'))"

lemma pane_start_total:
  assumes rt: "runtime_obliges rt" and sz: "usable_size (pc_initial_size config)" and cmd: "pc_command config \<noteq> []"
  shows "\<exists>p. pane_start rt config = Inr p"
proof -
  obtain content screen where
    "rt_start rt (pc_command config) (pc_directory config) (pc_initial_size config) = Inr (Some content)"
    "rt_screen rt (pc_initial_size config) = Inr screen"
    using rt sz cmd unfolding runtime_obliges_def by blast
  then show ?thesis by (simp add: pane_start_def)
qed

lemma pane_resize_total:
  assumes rt: "runtime_obliges rt" and sz: "usable_size new_size"
  shows "\<exists>p'. pane_resize rt new_size p = Inr p' \<and> pn_size p' = new_size"
proof -
  obtain content screen where "rt_content_resize rt new_size (pn_content p) = Inr content"
    "rt_screen_resize rt new_size (pn_screen p) = Inr screen"
    using rt sz unfolding runtime_obliges_def by blast
  then show ?thesis by (auto simp: pane_resize_def intro: terminal_size.equality)
qed

end
