(* ===== verification/Pane_Move_Session.thy ===== *)
theory Pane_Move_Session
  imports Pane_Move_Correct Pane_Swap_Correct Pane_Selection
begin

text \<open>
  An interactive move (src/src/parent/pane/pane_move_session.h and pane_move_session.cc): a
  state machine that holds a source selection, steps a target around the layout, toggles
  between moving and swapping, locks the target and takes a drop direction. The layout is
  only changed by \<open>confirm\<close>. A mutating method returns its result and the new session.
\<close>

section \<open>The operations\<close>

datatype pane_move_stage = Stage_TARGET | Stage_DROP

datatype pane_move_operation = Operation_MOVE | Operation_SWAP

record pane_move_session =
  ms_source :: pane_selection
  ms_target :: "node_id option"
  ms_stage :: pane_move_stage
  ms_operation :: pane_move_operation
  ms_drop :: "pane_drop_direction option"

text \<open>The private constructor, with the initialisers of the fields.\<close>

definition session_begin :: "pane_selection \<Rightarrow> pane_move_session" where
  "session_begin source = \<lparr>ms_source = source, ms_target = None, ms_stage = Stage_TARGET,
     ms_operation = Operation_MOVE, ms_drop = None\<rparr>"

text \<open>The file has its own copy of the loop over parents.\<close>

primrec session_climb :: "nat \<Rightarrow> pane_layout \<Rightarrow> node_id \<Rightarrow> node_id option \<Rightarrow> bool result" where
  "session_climb 0 L ancestor = (\<lambda>parent. Inl Out_of_fuel)"
| "session_climb (Suc fuel) L ancestor = (\<lambda>parent. case parent of
     None \<Rightarrow> Inr False
   | Some p \<Rightarrow>
       if p = ancestor then Inr True
       else and_then (node L p) (\<lambda>nd. session_climb fuel L ancestor (nd_parent nd)))"

definition session_is_ancestor :: "pane_layout \<Rightarrow> node_id \<Rightarrow> node_id \<Rightarrow> bool result" where
  "session_is_ancestor L ancestor descendant =
     and_then (node L descendant) (\<lambda>nd.
       session_climb (layout_depth_bound L) L ancestor (nd_parent nd))"

text \<open>\<open>none_of\<close> over the source nodes, stopping at the first that is related to the candidate.\<close>

definition related_to_source :: "pane_layout \<Rightarrow> node_id \<Rightarrow> node_id \<Rightarrow> bool result" where
  "related_to_source L candidate source =
     (if source = candidate then Inr True
      else and_then (session_is_ancestor L source candidate) (\<lambda>above.
        if above then Inr True else session_is_ancestor L candidate source))"

fun none_related :: "pane_layout \<Rightarrow> node_id \<Rightarrow> node_id list \<Rightarrow> bool result" where
  "none_related L candidate [] = Inr True"
| "none_related L candidate (source # sources) =
     and_then (related_to_source L candidate source) (\<lambda>related.
     if related then Inr False else none_related L candidate sources)"

definition target_is_eligible :: "pane_layout \<Rightarrow> pane_move_session \<Rightarrow> node_id \<Rightarrow> bool result" where
  "target_is_eligible L S candidate = none_related L candidate (sel_nodes (ms_source S))"

text \<open>The common end of the three navigation methods: keep the found node as the target.\<close>

definition take_target :: "node_id option \<Rightarrow> pane_move_session \<Rightarrow> bool \<times> pane_move_session" where
  "take_target found S = (case found of
     None \<Rightarrow> (False, S)
   | Some n \<Rightarrow> (True, S\<lparr>ms_target := Some n\<rparr>))"

definition step_target :: "pane_layout \<Rightarrow> pane_geometry \<Rightarrow> pane_focus_direction \<Rightarrow> pane_move_session \<Rightarrow>
    (bool \<times> pane_move_session) result" where
  "step_target L G direction S =
     (if ms_stage S \<noteq> Stage_TARGET then Inr (False, S)
      else
        and_then (find_eligible_directional_pane L G
            (case ms_target S of None \<Rightarrow> sel_active (ms_source S) | Some n \<Rightarrow> n)
            direction (target_is_eligible L S)) (\<lambda>candidate.
        Inr (take_target candidate S)))"

definition promote_target :: "pane_layout \<Rightarrow> pane_move_session \<Rightarrow> (bool \<times> pane_move_session) result" where
  "promote_target L S =
     (if ms_stage S \<noteq> Stage_TARGET then Inr (False, S)
      else case ms_target S of
        None \<Rightarrow> Inr (False, S)
      | Some n \<Rightarrow>
          and_then (find_eligible_parent_pane_node L n (target_is_eligible L S)) (\<lambda>parent.
          Inr (take_target parent S)))"

definition descend_target :: "pane_layout \<Rightarrow> pane_move_session \<Rightarrow> (bool \<times> pane_move_session) result" where
  "descend_target L S =
     (if ms_stage S \<noteq> Stage_TARGET then Inr (False, S)
      else case ms_target S of
        None \<Rightarrow> Inr (False, S)
      | Some n \<Rightarrow>
          and_then (find_eligible_first_child_pane_node L n (target_is_eligible L S)) (\<lambda>child.
          Inr (take_target child S)))"

definition toggle_swap :: "pane_move_session \<Rightarrow> bool \<times> pane_move_session" where
  "toggle_swap S =
     (if ms_stage S \<noteq> Stage_TARGET \<or> length (sel_nodes (ms_source S)) \<noteq> 1 then (False, S)
      else (True, S\<lparr>ms_operation :=
        (if ms_operation S = Operation_MOVE then Operation_SWAP else Operation_MOVE)\<rparr>))"

definition lock_target :: "pane_move_session \<Rightarrow> bool \<times> pane_move_session" where
  "lock_target S =
     (if ms_stage S \<noteq> Stage_TARGET \<or> ms_operation S \<noteq> Operation_MOVE \<or> ms_target S = None then (False, S)
      else (True, S\<lparr>ms_stage := Stage_DROP\<rparr>))"

definition set_drop_direction :: "pane_drop_direction \<Rightarrow> pane_move_session \<Rightarrow> bool \<times> pane_move_session" where
  "set_drop_direction direction S =
     (if ms_stage S \<noteq> Stage_DROP then (False, S)
      else (ms_drop S \<noteq> Some direction, S\<lparr>ms_drop := Some direction\<rparr>))"

definition session_preview :: "pane_layout \<Rightarrow> pane_move_session \<Rightarrow> pane_layout option result" where
  "session_preview L S =
     (case ms_target S of
       None \<Rightarrow> Inr None
     | Some n \<Rightarrow>
         and_then
           (if ms_operation S = Operation_SWAP then
              (case sel_nodes (ms_source S) of
                [] \<Rightarrow> Inl (Undefined_behavior ''front of an empty vector'')
              | source # _ \<Rightarrow> swap_pane_nodes source n L)
            else if ms_stage S = Stage_DROP then
              (case ms_drop S of
                None \<Rightarrow> Inr (False, L)
              | Some direction \<Rightarrow> move_pane_selection (ms_source S) n direction L)
            else Inr (False, L)) (\<lambda>(changed, L').
         Inr (if changed then Some L' else None)))"

definition session_confirm :: "pane_layout \<Rightarrow> pane_move_session \<Rightarrow> (bool \<times> pane_layout) result" where
  "session_confirm L S =
     and_then (session_preview L S) (\<lambda>candidate.
     Inr (case candidate of None \<Rightarrow> (False, L) | Some L' \<Rightarrow> (True, L')))"

section \<open>Eligible targets\<close>

lemma session_climb_eq: "session_climb fuel L a = climb_to_ancestor fuel L a"
  by (induction fuel) (auto simp: fun_eq_iff split: option.splits)

lemma session_is_ancestor_eq: "session_is_ancestor = is_ancestor"
  by (simp add: fun_eq_iff session_is_ancestor_def is_ancestor_def session_climb_eq)

text \<open>A target the mover accepts for a selection.\<close>

definition target_ok :: "ptree \<Rightarrow> pane_selection \<Rightarrow> node_id \<Rightarrow> bool" where
  "target_ok t sel n \<longleftrightarrow> n \<in> set (tree_ids t) \<and>
     (\<exists>C p ax ls ms rs. t = plug C (TSplit p ax (ls @ ms @ rs)) \<and> sel_parent sel = Some p
        \<and> sel_nodes sel = map (\<lambda>k. tid (fst k)) ms \<and> ms \<noteq> [] \<and> movable_to C p ls ms rs n)"

lemma related_to_source_eq:
  assumes rep: "represents L t" and t: "t = plug C s" "t = plug E u"
  shows "related_to_source L (tid u) (tid s) =
    Inr (tid u \<in> set (tree_ids s) \<or> tid u \<in> set (ctx_path C))"
proof -
  have 1: "is_ancestor L (tid s) (tid u) = Inr (tid s \<in> set (ctx_path E))"
    using is_ancestor_eq [of L E u] rep t(2) by simp
  have 2: "is_ancestor L (tid u) (tid s) = Inr (tid u \<in> set (ctx_path C))"
    using is_ancestor_eq [of L C s] rep t(1) by simp
  show ?thesis using 1 2 below_iff [OF rep t] by (auto simp: related_to_source_def session_is_ancestor_eq)
qed

lemma none_related_block:
  assumes rep: "represents L t" and t: "t = plug E u"
    and ks: "\<forall>k \<in> set ks. \<exists>ls w rs. t = plug (Frame p ax ls w rs # C) (fst k)"
  shows "none_related L (tid u) (map (\<lambda>k. tid (fst k)) ks) =
    Inr (tid u \<notin> set (concat (map (\<lambda>k. tree_ids (fst k)) ks)) \<and> (ks = [] \<or> tid u \<notin> set (p # ctx_path C)))"
  using ks
proof (induction ks)
  case (Cons k ks)
  from Cons.prems obtain ls w rs where "t = plug (Frame p ax ls w rs # C) (fst k)" by auto
  from related_to_source_eq [OF rep this t] Cons show ?case by auto
qed simp

lemma eligible_block:
  assumes rep: "represents L t" and t: "t = plug C (TSplit p ax (ls @ ms @ rs))" "n \<in> set (tree_ids t)"
    and sel: "sel_nodes sel = map (\<lambda>k. tid (fst k)) ms" "ms \<noteq> []"
  shows "none_related L n (sel_nodes sel) = Inr (movable_to C p ls ms rs n)"
proof -
  from node_context [OF t(2)] obtain E u where u: "t = plug E u" "tid u = n" by blast
  have "\<forall>k \<in> set ms. \<exists>ls w rs. t = plug (Frame p ax ls w rs # C) (fst k)"
    unfolding t(1) using block_member_context by blast
  from none_related_block [OF rep u(1) this] sel(2) show ?thesis
    unfolding sel(1) movable_to_def u(2) by simp
qed

lemma eligible_eq:
  assumes rep: "represents L t" and ok: "selection_ok t sel" and n: "n \<in> set (tree_ids t)"
  shows "none_related L n (sel_nodes sel) = Inr (target_ok t sel n)"
  using ok
proof (cases rule: selection_ok_cases)
  case root
  from node_context [OF n] obtain E u where u: "t = plug E u" "tid u = n" by blast
  have "related_to_source L n (tid t) = Inr True"
    using related_to_source_eq [OF rep _ u(1), of "[]" t] n u(2) by simp
  moreover have "\<not> target_ok t sel n" by (simp add: target_ok_def root)
  ultimately show ?thesis by (simp add: root)
next
  case (block C p ax ls ms rs)
  note e = eligible_block [OF rep block(1) n block(3,4)]
  have "movable_to C p ls ms rs n \<longleftrightarrow> target_ok t sel n"
  proof
    assume "target_ok t sel n"
    then obtain C' p' ax' ls' ms' rs' where d: "t = plug C' (TSplit p' ax' (ls' @ ms' @ rs'))"
      "sel_nodes sel = map (\<lambda>k. tid (fst k)) ms'" "ms' \<noteq> []" "movable_to C' p' ls' ms' rs' n"
      unfolding target_ok_def by blast
    from eligible_block [OF rep d(1) n d(2,3)] d(4) e show "movable_to C p ls ms rs n" by simp
  next
    assume "movable_to C p ls ms rs n"
    then show "target_ok t sel n" unfolding target_ok_def using n block(1-4) by blast
  qed
  with e show ?thesis by simp
qed

section \<open>The state machine\<close>

definition session_ok :: "ptree \<Rightarrow> pane_move_session \<Rightarrow> bool" where
  "session_ok t S \<longleftrightarrow> selection_ok t (ms_source S)
     \<and> (\<forall>n. ms_target S = Some n \<longrightarrow> target_ok t (ms_source S) n)
     \<and> (ms_operation S = Operation_SWAP \<longrightarrow> length (sel_nodes (ms_source S)) = 1 \<and> ms_stage S = Stage_TARGET)
     \<and> (ms_stage S = Stage_DROP \<longrightarrow> ms_target S \<noteq> None)
     \<and> (ms_drop S \<noteq> None \<longrightarrow> ms_stage S = Stage_DROP)"

lemma target_is_eligible_eq:
  "represents L t \<Longrightarrow> session_ok t S \<Longrightarrow> n \<in> set (tree_ids t) \<Longrightarrow>
   target_is_eligible L S n = Inr (target_ok t (ms_source S) n)"
  by (simp add: target_is_eligible_def session_ok_def eligible_eq)

text \<open>A session may ask for anything at any time.\<close>

inductive session_step :: "pane_layout \<Rightarrow> pane_geometry \<Rightarrow> pane_move_session \<Rightarrow> pane_move_session \<Rightarrow> bool"
  for L :: pane_layout and G :: pane_geometry where
  step: "step_target L G direction S = Inr (changed, S') \<Longrightarrow> session_step L G S S'"
| promote: "promote_target L S = Inr (changed, S') \<Longrightarrow> session_step L G S S'"
| descend: "descend_target L S = Inr (changed, S') \<Longrightarrow> session_step L G S S'"
| toggle: "toggle_swap S = (changed, S') \<Longrightarrow> session_step L G S S'"
| lock: "lock_target S = (changed, S') \<Longrightarrow> session_step L G S S'"
| drop_at: "set_drop_direction drop_direction S = (changed, S') \<Longrightarrow> session_step L G S S'"

inductive session_reachable :: "pane_layout \<Rightarrow> pane_geometry \<Rightarrow> pane_selection \<Rightarrow> pane_move_session \<Rightarrow> bool"
  for L :: pane_layout and G :: pane_geometry and source :: pane_selection where
  start: "session_reachable L G source (session_begin source)"
| continue: "session_reachable L G source S \<Longrightarrow> session_step L G S S' \<Longrightarrow> session_reachable L G source S'"

lemma take_target_ok:
  "session_ok t S \<Longrightarrow> (\<forall>n. found = Some n \<longrightarrow> target_ok t (ms_source S) n) \<Longrightarrow>
   take_target found S = (changed, S') \<Longrightarrow> session_ok t S' \<and> ms_source S' = ms_source S"
  by (cases found) (auto simp: take_target_def session_ok_def)

lemma find_eligible_child_ok:
  "\<forall>c \<in> set cs. \<exists>b. eligible (sc_node c) = Inr b \<Longrightarrow>
   \<exists>r. find_eligible_child eligible cs = Inr r \<and> (\<forall>n. r = Some n \<longrightarrow> n \<in> sc_node ` set cs \<and> eligible n = Inr True)"
  by (induction cs) (auto split: if_splits)

lemma selected_nodes_in_tree:
  assumes "selection_ok t sel"
  shows "set (sel_nodes sel) \<subseteq> set (tree_ids t)" "sel_active sel \<in> set (tree_ids t)" "sel_nodes sel \<noteq> []"
proof -
  have s: "set (sel_nodes sel) \<subseteq> set (tree_ids t)" using assms
  proof (cases rule: selection_ok_cases)
    case (block C p ax ls ms rs)
    have "tid (fst k) \<in> set (tree_ids t)" if "k \<in> set ms" for k
      unfolding block(1) ids_plug using that kid_tid_in_ids [of k ms] by auto
    then show ?thesis unfolding block(3) by auto
  qed simp
  have "block_ends (sel_anchor sel) (sel_active sel) (sel_nodes sel)" using assms by (simp add: selection_ok_def)
  then have "sel_nodes sel \<noteq> []" "sel_active sel \<in> set (sel_nodes sel)" by auto
  with s show "set (sel_nodes sel) \<subseteq> set (tree_ids t)" "sel_active sel \<in> set (tree_ids t)" "sel_nodes sel \<noteq> []"
    by blast+
qed

lemma parent_in_tree:
  assumes rep: "represents L t" and n: "n \<in> set (tree_ids t)"
  shows "\<exists>nd. look L n = Some nd \<and> (\<forall>p. nd_parent nd = Some p \<longrightarrow> p \<in> set (tree_ids t))"
proof -
  from node_context [OF n] obtain C s where s: "t = plug C s" "tid s = n" by blast
  have "stored (look L) (ctx_parent C) s" using representsD(1) [OF rep] s by (simp add: tree_simps)
  from stored_parent [OF this] s obtain nd where nd: "look L n = Some nd" "nd_parent nd = ctx_parent C" by auto
  have "p \<in> set (tree_ids t)" if "ctx_parent C = Some p" for p
    using that s(1) by (cases C rule: ctx_parent.cases) (auto simp: ids_plug)
  with nd show ?thesis by auto
qed

lemma children_in_tree:
  assumes rep: "represents L t" and n: "n \<in> set (tree_ids t)"
  shows "\<exists>nd. look L n = Some nd \<and> (\<forall>sp. nd_contents nd = Pane_split sp \<longrightarrow> sc_node ` set (sp_children sp) \<subseteq> set (tree_ids t))"
proof -
  from node_context [OF n] obtain C s where s: "t = plug C s" "tid s = n" by blast
  show ?thesis
  proof (cases s)
    case (TLeaf m q)
    then have "look L n = Some (leaf_node_of n (ctx_parent C) q)"
      using representsD(1) [OF rep] s by (simp add: tree_simps)
    then show ?thesis by simp
  next
    case (TSplit m ax ks)
    then have "look L n = Some (split_node_of n (ctx_parent C) ax (map kid_entry ks))"
      using representsD(1) [OF rep] s by (simp add: tree_simps)
    moreover have "sc_node ` set (map kid_entry ks) \<subseteq> set (tree_ids t)"
      unfolding s(1) ids_plug TSplit using kid_tid_in_ids [of _ ks] by (auto simp: kid_entry_def)
    ultimately show ?thesis by simp
  qed
qed

lemma session_targets_total:
  assumes inv: "layout_inv L t" and ok: "session_ok t S"
    and regions: "set (tree_ids t) \<subseteq> dom (smap_find (node_regions G))"
  shows "\<exists>changed S'. step_target L G direction S = Inr (changed, S') \<and> session_ok t S' \<and> ms_source S' = ms_source S"
    "\<exists>changed S'. promote_target L S = Inr (changed, S') \<and> session_ok t S' \<and> ms_source S' = ms_source S"
    "\<exists>changed S'. descend_target L S = Inr (changed, S') \<and> session_ok t S' \<and> ms_source S' = ms_source S"
proof -
  from inv have rep: "represents L t" by (simp add: layout_inv_def)
  note E = target_is_eligible_eq [OF rep ok]
  have tgt: "n \<in> set (tree_ids t)" if "ms_target S = Some n" for n
    using ok that by (simp add: session_ok_def target_ok_def)
  have take: "\<exists>changed S'. Inr (take_target found S) = Inr (changed, S') \<and> session_ok t S' \<and> ms_source S' = ms_source S"
    if "\<forall>n. found = Some n \<longrightarrow> target_ok t (ms_source S) n" for found
    using take_target_ok [OF ok that] by (cases "take_target found S") auto
  have leaf_ids: "fst ` set (tree_leaves t) \<subseteq> set (tree_ids t)" by (rule leaf_ids)
  show "\<exists>changed S'. step_target L G direction S = Inr (changed, S') \<and> session_ok t S' \<and> ms_source S' = ms_source S"
  proof -
    define n0 where "n0 = (case ms_target S of None \<Rightarrow> sel_active (ms_source S) | Some n \<Rightarrow> n)"
    have "n0 \<in> set (tree_ids t)"
      using tgt selected_nodes_in_tree(2) ok by (auto simp: n0_def session_ok_def split: option.splits)
    then have n: "n0 \<in> dom (smap_find (node_regions G))" using regions by blast
    have "\<exists>b. target_is_eligible L S m = Inr b" if "m \<in> fst ` set (tree_leaves t)" for m
      using E [of m] leaf_ids that by blast
    from eligible_search_total [where eligible = "target_is_eligible L S", OF inv order_trans [OF leaf_ids regions] n this]
    obtain r where r: "find_eligible_directional_pane L G n0 direction (target_is_eligible L S) = Inr r"
      "\<forall>m. r = Some m \<longrightarrow> m \<in> fst ` set (tree_leaves t) \<and> target_is_eligible L S m = Inr True" by blast
    have "\<forall>m. r = Some m \<longrightarrow> target_ok t (ms_source S) m" using r(2) E leaf_ids by fastforce
    from take [OF this] r(1) ok show ?thesis by (simp add: step_target_def n0_def [symmetric]) blast
  qed
  show "\<exists>changed S'. promote_target L S = Inr (changed, S') \<and> session_ok t S' \<and> ms_source S' = ms_source S"
  proof (cases "ms_target S")
    case (Some n)
    from parent_in_tree [OF rep tgt [OF Some]] obtain nd where
      nd: "look L n = Some nd" "\<forall>p. nd_parent nd = Some p \<longrightarrow> p \<in> set (tree_ids t)" by blast
    then have "\<exists>r. find_eligible_parent_pane_node L n (target_is_eligible L S) = Inr r
        \<and> (\<forall>m. r = Some m \<longrightarrow> target_ok t (ms_source S) m)"
      by (auto simp: find_eligible_parent_pane_node_def find_parent_pane_node_def layout_access E split: option.splits)
    then obtain r where r: "find_eligible_parent_pane_node L n (target_is_eligible L S) = Inr r"
      "\<forall>m. r = Some m \<longrightarrow> target_ok t (ms_source S) m" by blast
    from take [OF r(2)] r(1) Some ok show ?thesis by (simp add: promote_target_def) blast?
  qed (use ok in \<open>auto simp: promote_target_def\<close>)
  show "\<exists>changed S'. descend_target L S = Inr (changed, S') \<and> session_ok t S' \<and> ms_source S' = ms_source S"
  proof (cases "ms_target S")
    case (Some n)
    from children_in_tree [OF rep tgt [OF Some]] obtain nd where
      nd: "look L n = Some nd" "\<forall>sp. nd_contents nd = Pane_split sp \<longrightarrow> sc_node ` set (sp_children sp) \<subseteq> set (tree_ids t)"
      by blast
    have "\<exists>r. find_eligible_first_child_pane_node L n (target_is_eligible L S) = Inr r
        \<and> (\<forall>m. r = Some m \<longrightarrow> target_ok t (ms_source S) m)"
    proof (cases "nd_contents nd")
      case (Pane_split sp)
      with nd(2) have sub: "sc_node ` set (sp_children sp) \<subseteq> set (tree_ids t)" by blast
      then have "\<forall>c \<in> set (sp_children sp). \<exists>b. target_is_eligible L S (sc_node c) = Inr b" using E by blast
      from find_eligible_child_ok [OF this] obtain r where
        r: "find_eligible_child (target_is_eligible L S) (sp_children sp) = Inr r"
        "\<forall>m. r = Some m \<longrightarrow> m \<in> sc_node ` set (sp_children sp) \<and> target_is_eligible L S m = Inr True" by blast
      have "\<forall>m. r = Some m \<longrightarrow> target_ok t (ms_source S) m" using r(2) E sub by fastforce
      with r(1) nd(1) Pane_split show ?thesis
        by (simp add: find_eligible_first_child_pane_node_def layout_access)
    qed (use nd(1) in \<open>simp add: find_eligible_first_child_pane_node_def layout_access\<close>)
    then obtain r where r: "find_eligible_first_child_pane_node L n (target_is_eligible L S) = Inr r"
      "\<forall>m. r = Some m \<longrightarrow> target_ok t (ms_source S) m" by blast
    from take [OF r(2)] r(1) Some ok show ?thesis by (simp add: descend_target_def) blast?
  qed (use ok in \<open>auto simp: descend_target_def\<close>)
qed

lemma session_local_steps:
  assumes ok: "session_ok t S"
  shows "toggle_swap S = (b, S') \<Longrightarrow> session_ok t S' \<and> ms_source S' = ms_source S"
    "lock_target S = (b, S') \<Longrightarrow> session_ok t S' \<and> ms_source S' = ms_source S"
    "set_drop_direction d S = (b, S') \<Longrightarrow> session_ok t S' \<and> ms_source S' = ms_source S"
  using ok unfolding toggle_swap_def lock_target_def set_drop_direction_def session_ok_def
  by (auto split: if_splits)

text \<open>
  Every session that can be reached holds a target the mover accepts, swaps only a single
  source, and has left the target stage only with a target.
\<close>

text \<open>
  C7: Every state an interactive move can reach keeps its source, holds only a target outside
  the moved subtrees and their ancestors, swaps only a single source and has left the target
  stage only with a target to move to.
\<close>

lemma session_reachable_ok:
  assumes inv: "layout_inv L t" and source: "selection_ok t source"
    and regions: "set (tree_ids t) \<subseteq> dom (smap_find (node_regions G))"
    and reach: "session_reachable L G source S"
  shows "session_ok t S \<and> ms_source S = source"
  using reach
proof (induction rule: session_reachable.induct)
  case start
  then show ?case using source by (simp add: session_begin_def session_ok_def)
next
  case (continue S S')
  then have ok: "session_ok t S" and src: "ms_source S = source" by simp_all
  note T = session_targets_total [OF inv ok regions] and Lc = session_local_steps [OF ok]
  from continue.hyps(2) have "session_ok t S' \<and> ms_source S' = ms_source S"
  proof (cases rule: session_step.cases)
    case (step direction changed)
    with T(1) [of direction] show ?thesis by force
  next
    case promote
    with T(2) show ?thesis by force
  next
    case descend
    with T(3) show ?thesis by force
  next
    case toggle
    from Lc(1) [OF this] show ?thesis .
  next
    case lock
    from Lc(2) [OF this] show ?thesis .
  next
    case drop_at
    from Lc(3) [OF this] show ?thesis .
  qed
  with src show ?case by simp
qed

section \<open>Previews\<close>

lemma session_swap:
  assumes inv: "layout_inv L t" and ok: "session_ok t S"
    and op: "ms_operation S = Operation_SWAP" and tg: "ms_target S = Some n"
  shows "\<exists>source. sel_nodes (ms_source S) = [source] \<and>
    ((\<not> alternates t \<and> swap_pane_nodes source n L = Inl (Out_of_range ''map::at''))
     \<or> (\<exists>L' t'. swap_pane_nodes source n L = Inr (True, L') \<and> layout_inv L' t'
          \<and> mset (tree_leaves t') = mset (tree_leaves t)))"
proof -
  from inv have rep: "represents L t" by (simp add: layout_inv_def)
  from ok op tg have one: "length (sel_nodes (ms_source S)) = 1" and tok: "target_ok t (ms_source S) n"
    by (simp_all add: session_ok_def)
  from tok obtain C p ax ls ms rs where b: "t = plug C (TSplit p ax (ls @ ms @ rs))"
    "sel_nodes (ms_source S) = map (\<lambda>k. tid (fst k)) ms" "movable_to C p ls ms rs n" "n \<in> set (tree_ids t)"
    unfolding target_ok_def by blast
  from one b(2) obtain k where k: "ms = [k]" by (cases ms) auto
  have t1: "t = plug (Frame p ax ls (snd k) rs # C) (fst k)" using b(1) k by simp
  from node_context [OF b(4)] obtain E u where u: "t = plug E u" "tid u = n" by blast
  have out: "tid u \<notin> set (tree_ids (fst k))" "tid u \<notin> set (ctx_path (Frame p ax ls (snd k) rs # C))"
    using b(3) k u(2) by (simp_all add: movable_to_def)
  from unrelated_disjoint [OF rep t1 u(1) out] have "tid (fst k) \<notin> set (tree_ids u)"
    using tid_in_ids [of "fst k"] by blast
  from swapped_subtrees [OF inv t1 u(1) out(1) this]
  have "(\<not> alternates t \<and> swap_pane_nodes (tid (fst k)) n L = Inl (Out_of_range ''map::at''))
     \<or> (\<exists>L' t'. swap_pane_nodes (tid (fst k)) n L = Inr (True, L') \<and> layout_inv L' t'
          \<and> mset (tree_leaves t') = mset (tree_leaves t))"
    unfolding u(2)
  proof (elim disjE exE conjE)
    fix L' t' xs ys zs assume s: "swap_pane_nodes (tid (fst k)) n L = Inr (True, L')" "layout_inv L' t'"
    { assume "tree_leaves t = xs @ tree_leaves (fst k) @ ys @ tree_leaves u @ zs"
        "tree_leaves t' = xs @ tree_leaves u @ ys @ tree_leaves (fst k) @ zs"
      then have "mset (tree_leaves t') = mset (tree_leaves t)" by simp
      with s show ?thesis by blast }
    { assume "tree_leaves t = xs @ tree_leaves u @ ys @ tree_leaves (fst k) @ zs"
        "tree_leaves t' = xs @ tree_leaves (fst k) @ ys @ tree_leaves u @ zs"
      then have "mset (tree_leaves t') = mset (tree_leaves t)" by simp
      with s show ?thesis by blast }
  qed blast
  with b(2) k show ?thesis by simp
qed

lemma session_move:
  assumes inv: "layout_inv L t" and ok: "session_ok t S" and tg: "ms_target S = Some n"
    and room: "int (ly_next L) + 1 < UINT64_MAX"
  shows "\<exists>changed L' t'. move_pane_selection (ms_source S) n direction L = Inr (changed, L')
    \<and> layout_inv L' t' \<and> mset (tree_leaves t') = mset (tree_leaves t) \<and> (\<not> changed \<longrightarrow> L' = L)"
proof -
  from ok tg have tok: "target_ok t (ms_source S) n" by (simp add: session_ok_def)
  from tok obtain C p ax ls ms rs where b: "t = plug C (TSplit p ax (ls @ ms @ rs))"
    "sel_parent (ms_source S) = Some p" "sel_nodes (ms_source S) = map (\<lambda>k. tid (fst k)) ms" "ms \<noteq> []"
    "movable_to C p ls ms rs n" "n \<in> set (tree_ids t)"
    unfolding target_ok_def by blast
  from node_context [OF b(6)] obtain E u where u: "t = plug E u" "tid u = n" by blast
  have mv: "movable_to C p ls ms rs (tid u)" using b(5) u(2) by simp
  let ?M = "concat (map (\<lambda>k. tree_leaves (fst k)) ms)"
  obtain changed L' t' xs ys where m: "move_pane_selection (ms_source S) n direction L = Inr (changed, L')"
    "layout_inv L' t'" "\<not> changed \<longrightarrow> L' = L"
    "leaves_before C @ concat (map (\<lambda>k. tree_leaves (fst k)) (ls @ rs)) @ leaves_after C = xs @ tree_leaves u @ ys"
    "tree_leaves t' = xs @ (if dp_insertion (placement_for direction) = BEFORE
          then ?M @ tree_leaves u else tree_leaves u @ ?M) @ ys"
    using moved_selection [OF inv b(1) u(1) b(2,3,4) mv room, of direction] unfolding u(2) by blast
  have "mset (tree_leaves t') = mset ?M + mset (xs @ tree_leaves u @ ys)" unfolding m(5) by simp
  also have "\<dots> = mset (tree_leaves t)" unfolding m(4) [symmetric] b(1) leaves_plug by simp
  finally show ?thesis using m(1-3) by blast
qed

text \<open>A preview shows the same panes in a sound layout, or nothing.\<close>

lemma previewed_layout:
  assumes inv: "layout_inv L t" and ok: "session_ok t S" and room: "int (ly_next L) + 1 < UINT64_MAX"
  shows "(ms_operation S = Operation_SWAP \<and> \<not> alternates t \<and> session_preview L S = Inl (Out_of_range ''map::at''))
    \<or> (\<exists>r. session_preview L S = Inr r
        \<and> (\<forall>L'. r = Some L' \<longrightarrow> (\<exists>t'. layout_inv L' t' \<and> mset (tree_leaves t') = mset (tree_leaves t)))
        \<and> (r \<noteq> None \<longrightarrow> ms_target S \<noteq> None \<and> (ms_operation S = Operation_SWAP \<or> ms_drop S \<noteq> None)))"
proof (cases "ms_target S")
  case (Some n)
  show ?thesis
  proof (cases "ms_operation S")
    case Operation_SWAP
    from session_swap [OF inv ok this Some] obtain source where s: "sel_nodes (ms_source S) = [source]"
      "(\<not> alternates t \<and> swap_pane_nodes source n L = Inl (Out_of_range ''map::at''))
       \<or> (\<exists>L' t'. swap_pane_nodes source n L = Inr (True, L') \<and> layout_inv L' t'
          \<and> mset (tree_leaves t') = mset (tree_leaves t))" by blast
    have p: "session_preview L S = and_then (swap_pane_nodes source n L) (\<lambda>(changed, L').
        Inr (if changed then Some L' else None))"
      using Some s(1) Operation_SWAP by (simp add: session_preview_def)
    from s(2) show ?thesis
    proof (elim disjE exE conjE)
      assume "\<not> alternates t" "swap_pane_nodes source n L = Inl (Out_of_range ''map::at'')"
      then show ?thesis using p Operation_SWAP by simp
    next
      fix L' t' assume "swap_pane_nodes source n L = Inr (True, L')" "layout_inv L' t'"
        "mset (tree_leaves t') = mset (tree_leaves t)"
      then show ?thesis using p Operation_SWAP Some by auto
    qed
  next
    case Operation_MOVE
    show ?thesis
    proof (cases "ms_stage S = Stage_DROP \<and> ms_drop S \<noteq> None")
      case True
      then obtain direction where d: "ms_drop S = Some direction" "ms_stage S = Stage_DROP" by blast
      from session_move [OF inv ok Some room, of direction] obtain changed L' t' where
        m: "move_pane_selection (ms_source S) n direction L = Inr (changed, L')"
        "layout_inv L' t'" "mset (tree_leaves t') = mset (tree_leaves t)" by blast
      have "session_preview L S = Inr (if changed then Some L' else None)"
        using Some Operation_MOVE d m(1) by (simp add: session_preview_def)
      then show ?thesis using m(2,3) d Some by auto
    next
      case False
      then have "session_preview L S = Inr None"
        using Some Operation_MOVE by (auto simp: session_preview_def split: option.splits)
      then show ?thesis by simp
    qed
  qed
qed (simp add: session_preview_def)

lemma session_preview_correct:
  assumes inv: "layout_inv L t" and ok: "session_ok t S" and room: "int (ly_next L) + 1 < UINT64_MAX"
  shows "(ms_operation S = Operation_SWAP \<and> \<not> alternates t \<and> session_preview L S = Inl (Out_of_range ''map::at''))
    \<or> (\<exists>r. session_preview L S = Inr r
        \<and> (\<forall>L'. r = Some L' \<longrightarrow> (\<exists>t'. layout_inv L' t' \<and> mset (tree_leaves t') = mset (tree_leaves t)))
        \<and> (r \<noteq> None \<longrightarrow> ms_target S \<noteq> None \<and> (ms_operation S = Operation_SWAP \<or> ms_drop S \<noteq> None)))"
  by (rule previewed_layout [OF assms])

section \<open>Every drop can be reached\<close>

lemma drop_reachable:
  assumes ok: "session_ok t S" and tg: "ms_target S \<noteq> None"
  shows "\<exists>S'. (session_step L G)\<^sup>*\<^sup>* S S' \<and> ms_stage S' = Stage_DROP \<and> ms_operation S' = Operation_MOVE
    \<and> ms_drop S' = Some direction \<and> ms_target S' = ms_target S \<and> ms_source S' = ms_source S"
proof -
  let ?goal = "\<lambda>S0. \<exists>S'. (session_step L G)\<^sup>*\<^sup>* S0 S' \<and> ms_stage S' = Stage_DROP
    \<and> ms_operation S' = Operation_MOVE \<and> ms_drop S' = Some direction
    \<and> ms_target S' = ms_target S \<and> ms_source S' = ms_source S"
  have dropping: "?goal S0" if "ms_stage S0 = Stage_DROP" "ms_operation S0 = Operation_MOVE"
    "ms_target S0 = ms_target S" "ms_source S0 = ms_source S" for S0
  proof -
    have "session_step L G S0 (S0\<lparr>ms_drop := Some direction\<rparr>)"
      by (rule session_step.drop_at [of direction]) (simp add: set_drop_direction_def that(1))
    then have "(session_step L G)\<^sup>*\<^sup>* S0 (S0\<lparr>ms_drop := Some direction\<rparr>)" by (rule r_into_rtranclp)
    then show ?thesis using that by (intro exI [of _ "S0\<lparr>ms_drop := Some direction\<rparr>"]) simp
  qed
  have locking: "?goal S0" if "ms_stage S0 = Stage_TARGET" "ms_operation S0 = Operation_MOVE"
    "ms_target S0 = ms_target S" "ms_source S0 = ms_source S" for S0
  proof -
    have s: "session_step L G S0 (S0\<lparr>ms_stage := Stage_DROP\<rparr>)"
      by (rule session_step.lock [where changed = True]) (use that tg in \<open>simp add: lock_target_def\<close>)
    show ?thesis using dropping [of "S0\<lparr>ms_stage := Stage_DROP\<rparr>"] that
        converse_rtranclp_into_rtranclp [of "session_step L G", OF s] by auto
  qed
  show ?thesis
  proof (cases "ms_operation S")
    case Operation_MOVE
    then show ?thesis using dropping [of S] locking [of S] by (cases "ms_stage S") simp_all
  next
    case Operation_SWAP
    with ok have o: "length (sel_nodes (ms_source S)) = 1" "ms_stage S = Stage_TARGET"
      by (simp_all add: session_ok_def)
    have s: "session_step L G S (S\<lparr>ms_operation := Operation_MOVE\<rparr>)"
      by (rule session_step.toggle [where changed = True]) (use o Operation_SWAP in \<open>simp add: toggle_swap_def\<close>)
    show ?thesis using locking [of "S\<lparr>ms_operation := Operation_MOVE\<rparr>"] o(2)
        converse_rtranclp_into_rtranclp [of "session_step L G", OF s] by auto
  qed
qed

text \<open>
  Moving the left pane of the evaluated layout: from its start, a session can step the target
  to the right column and drop the pane there.
\<close>

definition left_pane_session :: pane_move_session where
  "left_pane_session = (session_begin left_pane_selection)\<lparr>ms_target := Some 5\<rparr>"

lemma left_pane_session_ok: "session_ok stacked_tree left_pane_session"
proof -
  have c: "stacked_tree = plug [] (TSplit 3 LEFT_TO_RIGHT ([] @ [(TLeaf 1 1, 50)]
      @ [(TSplit 5 TOP_TO_BOTTOM [(TLeaf 2 2, 50), (TLeaf 4 3, 50)], 50)]))"
    by (simp add: stacked_tree_def)
  have n: "5 \<in> set (tree_ids stacked_tree)" by (simp add: stacked_tree_def)
  have "selection_ok stacked_tree left_pane_selection"
    using selection_okI [OF c, of 1 1] by (simp add: left_pane_selection_def)
  moreover have "target_ok stacked_tree left_pane_selection 5"
    unfolding target_ok_def
    by (intro conjI [OF n] exI conjI, rule c)
      (simp_all add: left_pane_selection_def movable_to_def)
  ultimately show ?thesis by (simp add: session_ok_def left_pane_session_def session_begin_def)
qed

lemma session_preview_correct_witness:
  "\<exists>r. session_preview stacked_layout left_pane_session = Inr r"
proof -
  have "int (ly_next stacked_layout) + 1 < UINT64_MAX" by (simp add: stacked_layout_def UINT64_MAX_def)
  from session_preview_correct [OF stacked_layout_inv left_pane_session_ok this]
  show ?thesis by (auto simp: left_pane_session_def session_begin_def)
qed

lemma drop_reachable_witness:
  "\<forall>G direction. \<exists>S'. (session_step stacked_layout G)\<^sup>*\<^sup>* left_pane_session S' \<and> ms_drop S' = Some direction"
proof -
  have "ms_target left_pane_session \<noteq> None" by (simp add: left_pane_session_def)
  from drop_reachable [OF left_pane_session_ok this] show ?thesis by blast
qed

lemma session_reachable_ok_witness:
  "\<exists>G. calculate_pane_geometry stacked_layout
       \<lparr>rg_origin = \<lparr>tp_row = 0, tp_column = 0\<rparr>, rg_size = \<lparr>ts_rows = 24, ts_cols = 80\<rparr>\<rparr> = Inr G
     \<and> session_ok stacked_tree (session_begin left_pane_selection)
     \<and> ms_source (session_begin left_pane_selection) = left_pane_selection"
proof -
  let ?o = "\<lparr>rg_origin = \<lparr>tp_row = 0, tp_column = 0\<rparr>, rg_size = \<lparr>ts_rows = 24, ts_cols = 80\<rparr>\<rparr>"
  have "region_fits ?o" by (simp add: region_fits_def INT32_MAX_def INT32_MIN_def)
  from geometry_tiles [OF stacked_layout_inv this] obtain G
    where G: "calculate_pane_geometry stacked_layout ?o = Inr G"
      "set (tree_ids stacked_tree) \<subseteq> dom (smap_find (node_regions G))" by blast
  have "selection_ok stacked_tree left_pane_selection"
    using left_pane_session_ok by (simp add: session_ok_def left_pane_session_def session_begin_def)
  from session_reachable_ok [OF stacked_layout_inv this G(2) session_reachable.start] G(1)
  show ?thesis by blast
qed

end
