(* ===== verification/Tray.thy ===== *)
theory Tray
  imports Tray_Id Pane_Process Pane_Resize Pane_Rotate Pane_Move_Session
begin

text \<open>
  A tray (src/src/parent/tray/tray.h, tray.cc, tray_config.h, tray_snapshot.h,
  tray_output_source.h): the panes of one screen, their layout, the focused pane, whether it is
  maximised, a selection or an interactive move, and an overlay. Every public method is a
  function of the tray that returns its result and the new tray, in the order of the source
  file. An exception loses the tray: the callers let it end the daemon. What a tray draws is
  in \<open>Tray_Render\<close>.
\<close>

section \<open>State\<close>

type_synonym tray_config = pane_config

record ('c, 's, 'o) tray =
  tr_id :: tray_id
  tr_label :: string
  tr_cwd :: path
  tr_config :: pane_config
  tr_size :: terminal_size
  tr_layout :: pane_layout
  tr_focused :: pane_id
  tr_next_pane :: nat
  tr_panes :: "(pane_id, ('c, 's) pane) smap"
  tr_maximized :: bool
  tr_selection :: "pane_selection option"
  tr_session :: "pane_move_session option"
  tr_overlay :: "'o option"

record tray_exit_update =
  eu_changed :: bool
  eu_status :: "int option"

record tray_snapshot =
  sn_id :: tray_id
  sn_label :: string
  sn_directory :: path
  sn_child :: int

record tray_pane_output_source =
  os_tray :: tray_id
  os_pane :: pane_id
  os_descriptor :: int

section \<open>Helpers of the source file\<close>

definition required_pane_id :: "nat \<Rightarrow> pane_id result" where
  "required_pane_id value = require (Logic_error ''pane id cannot be zero'') (pane_id_from_value value)"

definition required_pane_node :: "node_id option \<Rightarrow> node_id result" where
  "required_pane_node n = require (Logic_error ''pane is missing from its tray layout'') n"

definition pty_size :: "pane_region \<Rightarrow> terminal_size" where
  "pty_size region = \<lparr>ts_rows = max (ts_rows (rg_size region)) 1, ts_cols = max (ts_cols (rg_size region)) 1\<rparr>"

definition screen_region :: "terminal_size \<Rightarrow> pane_region" where
  "screen_region sz = \<lparr>rg_origin = \<lparr>tp_row = 0, tp_column = 0\<rparr>, rg_size = sz\<rparr>"

text \<open>The layout's node of a pane, and the pane shown at a node.\<close>

definition pane_node :: "pane_layout \<Rightarrow> pane_id \<Rightarrow> node_id result" where
  "pane_node L q = required_pane_node (find_pane L q)"

definition pane_at :: "pane_layout \<Rightarrow> node_id \<Rightarrow> pane_id result" where
  "pane_at L n = and_then (node L n) node_pane_id"

section \<open>Private methods\<close>

definition tray_pane :: "('c, 's, 'o) tray \<Rightarrow> pane_id \<Rightarrow> ('c, 's) pane result" where
  "tray_pane T q = require (Out_of_range ''pane does not exist in tray'') (smap_find (tr_panes T) q)"

text \<open>A call on \<open>mutable_pane\<close>: the pane is replaced by what the call makes of it.\<close>

definition on_pane :: "(('c, 's) pane \<Rightarrow> ('c, 's) pane result) \<Rightarrow> pane_id \<Rightarrow> ('c, 's, 'o) tray \<Rightarrow>
    ('c, 's, 'o) tray result" where
  "on_pane f q T = and_then (tray_pane T q) (\<lambda>p. and_then (f p) (\<lambda>p'.
     Inr (T\<lparr>tr_panes := smap_put q p' (tr_panes T)\<rparr>)))"

definition allocate_pane_id :: "('c, 's, 'o) tray \<Rightarrow> (pane_id \<times> ('c, 's, 'o) tray) result" where
  "allocate_pane_id T =
     throw_if (tr_next_pane T = 0 \<or> int (tr_next_pane T) = UINT64_MAX)
       (Overflow_error ''tray exhausted pane ids'')
       (and_then (required_pane_id (tr_next_pane T)) (\<lambda>r. Inr (r, T\<lparr>tr_next_pane := tr_next_pane T + 1\<rparr>)))"

definition selection_or_focused_pane :: "('c, 's, 'o) tray \<Rightarrow> pane_selection result" where
  "selection_or_focused_pane T = (case tr_selection T of
     Some sel \<Rightarrow> Inr sel
   | None \<Rightarrow> and_then (pane_node (tr_layout T) (tr_focused T)) (selection_single (tr_layout T)))"

definition resize_leaf_pane :: "('c, 's, 'o) pane_runtime \<Rightarrow> pane_geometry \<Rightarrow> node_id \<Rightarrow>
    ('c, 's, 'o) tray \<Rightarrow> ('c, 's, 'o) tray result" where
  "resize_leaf_pane rt G n T =
     and_then (pane_at (tr_layout T) n) (\<lambda>q.
     and_then (geometry_region G n) (\<lambda>region.
     on_pane (pane_resize rt (pty_size region)) q T))"

definition resize_panes :: "('c, 's, 'o) pane_runtime \<Rightarrow> ('c, 's, 'o) tray \<Rightarrow> ('c, 's, 'o) tray result" where
  "resize_panes rt T =
     (if \<not> pc_estimate (tr_config T) then Inr T
      else
        and_then (calculate_pane_geometry (tr_layout T) (screen_region (tr_size T))) (\<lambda>G.
        and_then (leaf_nodes (tr_layout T)) (\<lambda>leaves.
        and_then (fold_result (resize_leaf_pane rt G) leaves T) (\<lambda>T1.
        if tr_maximized T1 then on_pane (pane_resize rt (pty_size (screen_region (tr_size T1)))) (tr_focused T1) T1
        else Inr T1))))"

section \<open>Construction, input and output\<close>

definition tray_start :: "('c, 's, 'o) pane_runtime \<Rightarrow> tray_id \<Rightarrow> tray_config \<Rightarrow> ('c, 's, 'o) tray result" where
  "tray_start rt i config =
     and_then (required_pane_id 1) (\<lambda>initial_pane_id.
     and_then (pane_start rt config) (\<lambda>initial_pane.
     Inr \<lparr>tr_id = i, tr_label = tray_label i, tr_cwd = pc_directory config, tr_config = config,
          tr_size = pc_initial_size config, tr_layout = single initial_pane_id,
          tr_focused = initial_pane_id, tr_next_pane = 2,
          tr_panes = smap_emplace initial_pane_id initial_pane [], tr_maximized = False,
          tr_selection = None, tr_session = None, tr_overlay = None\<rparr>))"

definition tray_write_input :: "('c, 's, 'o) pane_runtime \<Rightarrow> string \<Rightarrow> ('c, 's, 'o) tray \<Rightarrow>
    ('c, 's, 'o) tray result" where
  "tray_write_input rt bytes T = on_pane (pane_write_input rt bytes) (tr_focused T) T"

definition tray_read_output :: "('c, 's, 'o) pane_runtime \<Rightarrow> pane_id \<Rightarrow> ('c, 's, 'o) tray \<Rightarrow>
    (string option \<times> ('c, 's, 'o) tray) result" where
  "tray_read_output rt q T =
     and_then (tray_pane T q) (\<lambda>p.
     and_then (pane_read_output rt p) (\<lambda>(output, p').
     Inr (output, T\<lparr>tr_panes := smap_put q p' (tr_panes T)\<rparr>)))"

definition tray_read_focused_output :: "('c, 's, 'o) pane_runtime \<Rightarrow> ('c, 's, 'o) tray \<Rightarrow>
    (string option \<times> ('c, 's, 'o) tray) result" where
  "tray_read_focused_output rt T = tray_read_output rt (tr_focused T) T"

definition can_passthrough_output :: "pane_id \<Rightarrow> ('c, 's, 'o) tray \<Rightarrow> bool" where
  "can_passthrough_output q T \<longleftrightarrow>
     q = tr_focused T \<and> (length (tr_panes T) = 1 \<or> tr_maximized T)
     \<and> tr_selection T = None \<and> tr_session T = None"

definition tray_resize :: "('c, 's, 'o) pane_runtime \<Rightarrow> terminal_size \<Rightarrow> ('c, 's, 'o) tray \<Rightarrow>
    ('c, 's, 'o) tray result" where
  "tray_resize rt sz T =
     and_then (resize_panes rt (T\<lparr>tr_size := sz\<rparr>)) (\<lambda>T1.
     case tr_overlay T1 of
       None \<Rightarrow> Inr T1
     | Some overlay \<Rightarrow> and_then (rt_overlay_resize rt sz overlay) (\<lambda>overlay'. Inr (T1\<lparr>tr_overlay := Some overlay'\<rparr>)))"

definition resize_pane_viewport :: "('c, 's, 'o) pane_runtime \<Rightarrow> pane_id \<Rightarrow> terminal_size \<Rightarrow>
    ('c, 's, 'o) tray \<Rightarrow> (bool \<times> ('c, 's, 'o) tray) result" where
  "resize_pane_viewport rt q sz T =
     (if find_pane (tr_layout T) q = None then Inr (False, T)
      else and_then (on_pane (pane_resize rt sz) q T) (\<lambda>T1. Inr (True, T1)))"

section \<open>Exited panes\<close>

definition exited_panes :: "('c, 's, 'o) pane_runtime \<Rightarrow> ('c, 's, 'o) tray \<Rightarrow> (pane_id \<times> int) list" where
  "exited_panes rt T = concat (map (\<lambda>(q, p). case pane_try_wait_for_exit rt p of
     None \<Rightarrow> [] | Some status \<Rightarrow> [(q, status)]) (tr_panes T))"

definition reap_pane :: "pane_id \<times> int \<Rightarrow> ('c, 's, 'o) tray \<Rightarrow> ('c, 's, 'o) tray result" where
  "reap_pane e T =
     (let q = fst e in
     and_then (pane_node (tr_layout T) q) (\<lambda>n.
     and_then (remove_leaf n (tr_layout T)) (\<lambda>(next_focus, L').
     and_then (require (Logic_error ''cannot remove the last live pane from a tray'') next_focus) (\<lambda>focus_node.
     and_then (if q = tr_focused T then pane_at L' focus_node else Inr (tr_focused T)) (\<lambda>focused.
     Inr (T\<lparr>tr_layout := L', tr_focused := focused, tr_panes := smap_erase q (tr_panes T)\<rparr>))))))"

definition first_leaf_pane :: "pane_layout \<Rightarrow> pane_id result" where
  "first_leaf_pane L = and_then (leaf_nodes L) (\<lambda>leaves. case leaves of
     [] \<Rightarrow> Inl (Undefined_behavior ''front of an empty vector'') | n # _ \<Rightarrow> pane_at L n)"

text \<open>Dropping every interaction with the layout, as after a change of its panes.\<close>

definition without_interaction :: "('c, 's, 'o) tray \<Rightarrow> ('c, 's, 'o) tray" where
  "without_interaction T = T\<lparr>tr_maximized := False, tr_selection := None, tr_session := None\<rparr>"

definition reap_exited_panes :: "('c, 's, 'o) pane_runtime \<Rightarrow> ('c, 's, 'o) tray \<Rightarrow>
    (tray_exit_update \<times> ('c, 's, 'o) tray) result" where
  "reap_exited_panes rt T =
     (let exited = exited_panes rt T in
      case exited of
        [] \<Rightarrow> Inr (\<lparr>eu_changed = False, eu_status = None\<rparr>, T)
      | first # _ \<Rightarrow>
          if length exited = length (tr_panes T) then Inr (\<lparr>eu_changed = True, eu_status = Some (snd first)\<rparr>, T)
          else
            and_then (fold_result reap_pane exited T) (\<lambda>T1.
            and_then (if smap_find (tr_panes T1) (tr_focused T1) = None then first_leaf_pane (tr_layout T1)
                else Inr (tr_focused T1)) (\<lambda>focused.
            and_then (resize_panes rt (without_interaction (T1\<lparr>tr_focused := focused\<rparr>))) (\<lambda>T2.
            Inr (\<lparr>eu_changed = True, eu_status = None\<rparr>, T2)))))"

section \<open>Panes and focus\<close>

definition output_sources :: "('c, 's, 'o) pane_runtime \<Rightarrow> ('c, 's, 'o) tray \<Rightarrow> tray_pane_output_source list" where
  "output_sources rt T = map (\<lambda>(q, p). \<lparr>os_tray = tr_id T, os_pane = q,
     os_descriptor = pane_file_descriptor rt p\<rparr>) (tr_panes T)"

definition tray_file_descriptor :: "('c, 's, 'o) pane_runtime \<Rightarrow> ('c, 's, 'o) tray \<Rightarrow> int result" where
  "tray_file_descriptor rt T =
     and_then (tray_pane T (tr_focused T)) (\<lambda>p. Inr (pane_file_descriptor rt p))"

definition split_focused_pane :: "('c, 's, 'o) pane_runtime \<Rightarrow> pane_split_axis \<Rightarrow> pane_insertion \<Rightarrow>
    ('c, 's, 'o) tray \<Rightarrow> (pane_id \<times> ('c, 's, 'o) tray) result" where
  "split_focused_pane rt axis insertion T =
     and_then (allocate_pane_id T) (\<lambda>(new_pane_id, T1).
     and_then (pane_start rt ((tr_config T1)\<lparr>pc_initial_size := tr_size T1\<rparr>)) (\<lambda>new_pane.
     and_then (pane_node (tr_layout T1) (tr_focused T1)) (\<lambda>focused_node.
     and_then (split_leaf focused_node axis new_pane_id insertion (tr_layout T1)) (\<lambda>(_, L').
     and_then (resize_panes rt (without_interaction (T1\<lparr>tr_layout := L',
         tr_panes := smap_emplace new_pane_id new_pane (tr_panes T1), tr_focused := new_pane_id\<rparr>))) (\<lambda>T2.
     Inr (new_pane_id, T2))))))"

definition focus_pane :: "('c, 's, 'o) pane_runtime \<Rightarrow> pane_id \<Rightarrow> ('c, 's, 'o) tray \<Rightarrow>
    (bool \<times> ('c, 's, 'o) tray) result" where
  "focus_pane rt q T =
     (if smap_find (tr_panes T) q = None then Inr (False, T)
      else
        (let changed = (q \<noteq> tr_focused T);
             T1 = T\<lparr>tr_focused := q\<rparr>;
             T2 = (if changed then T1\<lparr>tr_selection := None, tr_session := None\<rparr> else T1) in
         and_then (if tr_maximized T2 \<and> changed then resize_panes rt T2 else Inr T2) (\<lambda>T3.
         Inr (True, T3))))"

definition focus_pane_direction :: "('c, 's, 'o) pane_runtime \<Rightarrow> pane_focus_direction \<Rightarrow> ('c, 's, 'o) tray \<Rightarrow>
    (bool \<times> ('c, 's, 'o) tray) result" where
  "focus_pane_direction rt direction T =
     and_then (calculate_pane_geometry (tr_layout T) (screen_region (tr_size T))) (\<lambda>G.
     and_then (pane_node (tr_layout T) (tr_focused T)) (\<lambda>focused_node.
     and_then (find_directional_pane (tr_layout T) G focused_node direction) (\<lambda>target.
     case target of
       None \<Rightarrow> Inr (False, T)
     | Some n \<Rightarrow> and_then (pane_at (tr_layout T) n) (\<lambda>q. focus_pane rt q T))))"

definition close_focused_pane :: "('c, 's, 'o) pane_runtime \<Rightarrow> ('c, 's, 'o) tray \<Rightarrow>
    (bool \<times> ('c, 's, 'o) tray) result" where
  "close_focused_pane rt T =
     (if length (tr_panes T) = 1 then Inr (False, T)
      else
        (let closing_pane = tr_focused T in
         and_then (pane_node (tr_layout T) closing_pane) (\<lambda>closing_node.
         and_then (remove_leaf closing_node (tr_layout T)) (\<lambda>(next_focus, L').
         and_then (require (Logic_error ''multi-pane tray close did not choose a surviving pane'') next_focus)
           (\<lambda>focus_node.
         and_then (pane_at L' focus_node) (\<lambda>focused.
         and_then (resize_panes rt (without_interaction (T\<lparr>tr_layout := L', tr_focused := focused,
             tr_panes := smap_erase closing_pane (tr_panes T)\<rparr>))) (\<lambda>T1.
         Inr (True, T1))))))))"

definition toggle_focused_pane_maximized :: "('c, 's, 'o) pane_runtime \<Rightarrow> ('c, 's, 'o) tray \<Rightarrow>
    (bool \<times> ('c, 's, 'o) tray) result" where
  "toggle_focused_pane_maximized rt T =
     (if length (tr_panes T) = 1 then Inr (False, T)
      else and_then (resize_panes rt (T\<lparr>tr_selection := None, tr_session := None,
          tr_maximized := \<not> tr_maximized T\<rparr>)) (\<lambda>T1. Inr (True, T1)))"

section \<open>Selections\<close>

text \<open>Leaving the maximised state, with the resize it needs, or nothing.\<close>

definition leave_maximized :: "('c, 's, 'o) pane_runtime \<Rightarrow> ('c, 's, 'o) tray \<Rightarrow> ('c, 's, 'o) tray result" where
  "leave_maximized rt T =
     (if tr_maximized T then resize_panes rt (T\<lparr>tr_maximized := False\<rparr>) else Inr T)"

definition toggle_pane_selection :: "('c, 's, 'o) pane_runtime \<Rightarrow> ('c, 's, 'o) tray \<Rightarrow>
    (bool \<times> ('c, 's, 'o) tray) result" where
  "toggle_pane_selection rt T =
     (let T0 = T\<lparr>tr_session := None\<rparr> in
      if tr_selection T0 \<noteq> None then Inr (True, T0\<lparr>tr_selection := None\<rparr>)
      else
        and_then (leave_maximized rt T0) (\<lambda>T1.
        and_then (pane_node (tr_layout T1) (tr_focused T1)) (\<lambda>focused_node.
        and_then (selection_single (tr_layout T1) focused_node) (\<lambda>sel.
        Inr (True, T1\<lparr>tr_selection := Some sel\<rparr>)))))"

fun sibling_direction :: "pane_split_axis \<Rightarrow> pane_focus_direction \<Rightarrow> pane_sibling_direction option" where
  "sibling_direction LEFT_TO_RIGHT Focus_LEFT = Some Sibling_PREVIOUS"
| "sibling_direction LEFT_TO_RIGHT Focus_RIGHT = Some Sibling_NEXT"
| "sibling_direction TOP_TO_BOTTOM Focus_UP = Some Sibling_PREVIOUS"
| "sibling_direction TOP_TO_BOTTOM Focus_DOWN = Some Sibling_NEXT"
| "sibling_direction _ _ = None"

definition step_pane_selection :: "pane_focus_direction \<Rightarrow> ('c, 's, 'o) tray \<Rightarrow>
    (bool \<times> ('c, 's, 'o) tray) result" where
  "step_pane_selection direction T = (case tr_selection T of
     None \<Rightarrow> Inr (False, T)
   | Some sel \<Rightarrow> (case sel_parent sel of
       None \<Rightarrow> Inr (False, T)
     | Some parent \<Rightarrow>
         and_then (node (tr_layout T) parent) (\<lambda>nd.
         and_then (node_split nd) (\<lambda>split.
         case sibling_direction (sp_axis split) direction of
           None \<Rightarrow> Inr (False, T)
         | Some d \<Rightarrow>
             and_then (selection_step (tr_layout T) d sel) (\<lambda>stepped.
             Inr (if sel_active stepped = sel_active sel then (False, T)
                  else (True, T\<lparr>tr_selection := Some stepped\<rparr>)))))))"

definition promote_pane_selection :: "('c, 's, 'o) tray \<Rightarrow> (bool \<times> ('c, 's, 'o) tray) result" where
  "promote_pane_selection T = (case tr_selection T of
     None \<Rightarrow> Inr (False, T)
   | Some sel \<Rightarrow> and_then (selection_promote (tr_layout T) sel) (\<lambda>promoted.
       Inr (if sel_nodes promoted = sel_nodes sel then (False, T)
            else (True, T\<lparr>tr_selection := Some promoted\<rparr>))))"

definition descend_pane_selection :: "('c, 's, 'o) tray \<Rightarrow> (bool \<times> ('c, 's, 'o) tray) result" where
  "descend_pane_selection T = (case tr_selection T of
     None \<Rightarrow> Inr (False, T)
   | Some sel \<Rightarrow> and_then (selection_descend (tr_layout T) sel) (\<lambda>descended.
       Inr (if sel_nodes descended = sel_nodes sel then (False, T)
            else (True, T\<lparr>tr_selection := Some descended\<rparr>))))"

definition resize_selected_panes :: "('c, 's, 'o) pane_runtime \<Rightarrow> int \<Rightarrow> ('c, 's, 'o) tray \<Rightarrow>
    (bool \<times> ('c, 's, 'o) tray) result" where
  "resize_selected_panes rt delta_percentage T =
     (let T0 = T\<lparr>tr_session := None\<rparr> in
      and_then (selection_or_focused_pane T0) (\<lambda>sel.
      and_then (resize_pane_selection (tr_layout T0) sel delta_percentage) (\<lambda>(changed, L').
      if changed then
        and_then (resize_panes rt (T0\<lparr>tr_layout := L', tr_maximized := False\<rparr>)) (\<lambda>T1. Inr (True, T1))
      else Inr (False, T0\<lparr>tr_layout := L'\<rparr>))))"

definition equalize_selected_panes :: "('c, 's, 'o) pane_runtime \<Rightarrow> ('c, 's, 'o) tray \<Rightarrow>
    (bool \<times> ('c, 's, 'o) tray) result" where
  "equalize_selected_panes rt T =
     (let T0 = T\<lparr>tr_session := None\<rparr> in
      and_then (case tr_selection T0 of
          Some sel \<Rightarrow> equalize_pane_selection (tr_layout T0) sel
        | None \<Rightarrow> and_then (selection_or_focused_pane T0) (equalize_pane_selection_level (tr_layout T0)))
        (\<lambda>(changed, L').
      if changed then
        and_then (resize_panes rt (T0\<lparr>tr_layout := L', tr_maximized := False\<rparr>)) (\<lambda>T1. Inr (True, T1))
      else Inr (False, T0\<lparr>tr_layout := L'\<rparr>)))"

definition rotate_selected_pane_level :: "('c, 's, 'o) pane_runtime \<Rightarrow> ('c, 's, 'o) tray \<Rightarrow>
    (bool \<times> ('c, 's, 'o) tray) result" where
  "rotate_selected_pane_level rt T =
     (let T0 = T\<lparr>tr_session := None\<rparr> in
      and_then (selection_or_focused_pane T0) (\<lambda>sel.
      and_then (rotate_pane_selection_level (tr_layout T0) sel) (\<lambda>(changed, rotated, L').
      if changed then
        and_then (resize_panes rt (T0\<lparr>tr_layout := L', tr_maximized := False,
            tr_selection := map_option (\<lambda>_. rotated) (tr_selection T0)\<rparr>)) (\<lambda>T1. Inr (True, T1))
      else Inr (False, T0\<lparr>tr_layout := L'\<rparr>))))"

section \<open>Interactive moves\<close>

definition toggle_pane_move :: "('c, 's, 'o) pane_runtime \<Rightarrow> ('c, 's, 'o) tray \<Rightarrow>
    (bool \<times> ('c, 's, 'o) tray) result" where
  "toggle_pane_move rt T =
     (if tr_session T \<noteq> None then Inr (True, T\<lparr>tr_session := None\<rparr>)
      else if length (tr_panes T) = 1 then Inr (False, T)
      else
        and_then (selection_or_focused_pane T) (\<lambda>source.
        and_then (leave_maximized rt (T\<lparr>tr_selection := None\<rparr>)) (\<lambda>T1.
        Inr (True, T1\<lparr>tr_session := Some (session_begin source)\<rparr>))))"

text \<open>A method of the session in place, when there is one.\<close>

definition on_session :: "(pane_move_session \<Rightarrow> (bool \<times> pane_move_session) result) \<Rightarrow> ('c, 's, 'o) tray \<Rightarrow>
    (bool \<times> ('c, 's, 'o) tray) result" where
  "on_session f T = (case tr_session T of
     None \<Rightarrow> Inr (False, T)
   | Some S \<Rightarrow> and_then (f S) (\<lambda>(changed, S'). Inr (changed, T\<lparr>tr_session := Some S'\<rparr>)))"

definition step_pane_move_target :: "pane_focus_direction \<Rightarrow> ('c, 's, 'o) tray \<Rightarrow>
    (bool \<times> ('c, 's, 'o) tray) result" where
  "step_pane_move_target direction T = on_session (\<lambda>S.
     and_then (calculate_pane_geometry (tr_layout T) (screen_region (tr_size T))) (\<lambda>G.
     step_target (tr_layout T) G direction S)) T"

definition promote_pane_move_target :: "('c, 's, 'o) tray \<Rightarrow> (bool \<times> ('c, 's, 'o) tray) result" where
  "promote_pane_move_target T = on_session (promote_target (tr_layout T)) T"

definition descend_pane_move_target :: "('c, 's, 'o) tray \<Rightarrow> (bool \<times> ('c, 's, 'o) tray) result" where
  "descend_pane_move_target T = on_session (descend_target (tr_layout T)) T"

definition toggle_pane_move_swap :: "('c, 's, 'o) tray \<Rightarrow> (bool \<times> ('c, 's, 'o) tray) result" where
  "toggle_pane_move_swap T = on_session (\<lambda>S. Inr (toggle_swap S)) T"

definition set_pane_move_drop_direction :: "pane_drop_direction \<Rightarrow> ('c, 's, 'o) tray \<Rightarrow>
    (bool \<times> ('c, 's, 'o) tray) result" where
  "set_pane_move_drop_direction direction T = on_session (\<lambda>S. Inr (set_drop_direction direction S)) T"

definition advance_pane_move :: "('c, 's, 'o) pane_runtime \<Rightarrow> ('c, 's, 'o) tray \<Rightarrow>
    (bool \<times> ('c, 's, 'o) tray) result" where
  "advance_pane_move rt T = (case tr_session T of
     None \<Rightarrow> Inr (False, T)
   | Some S \<Rightarrow>
       if ms_operation S = Operation_MOVE \<and> ms_stage S = Stage_TARGET then
         on_session (\<lambda>S. Inr (lock_target S)) T
       else
         and_then (session_confirm (tr_layout T) S) (\<lambda>(confirmed, L').
         if \<not> confirmed then Inr (False, T)
         else and_then (resize_panes rt (without_interaction (T\<lparr>tr_layout := L'\<rparr>))) (\<lambda>T1. Inr (True, T1))))"

section \<open>Snapshot and overlay\<close>

definition snapshot_of :: "('c, 's, 'o) pane_runtime \<Rightarrow> ('c, 's, 'o) tray \<Rightarrow> tray_snapshot result" where
  "snapshot_of rt T =
     and_then (tray_pane T (tr_focused T)) (\<lambda>p.
     Inr \<lparr>sn_id = tr_id T, sn_label = tr_label T, sn_directory = tr_cwd T, sn_child = pane_child_pid rt p\<rparr>)"

definition set_worktree_management_overlay :: "'o option \<Rightarrow> ('c, 's, 'o) tray \<Rightarrow> ('c, 's, 'o) tray result" where
  "set_worktree_management_overlay overlay T =
     throw_if (overlay = None) (Invalid_argument ''tray overlay must not be null'')
       (Inr (T\<lparr>tr_overlay := overlay\<rparr>))"

definition clear_worktree_management_overlay :: "('c, 's, 'o) tray \<Rightarrow> ('c, 's, 'o) tray" where
  "clear_worktree_management_overlay T = T\<lparr>tr_overlay := None\<rparr>"

end
