(* ===== verification/Tray_Invariant.thy ===== *)
theory Tray_Invariant
  imports Tray
begin

text \<open>
  The invariant of a tray and the resizing of its panes: the layout shows exactly the panes
  the tray holds, the focused pane is one of them, fresh identifiers are above all used ones,
  a selection or an interactive move refers to the current layout, there is never both, and a
  maximised pane excludes either. Resizing gives every pane the size of its region.
\<close>

definition screen_fits :: "terminal_size \<Rightarrow> bool" where
  "screen_fits sz \<longleftrightarrow> 0 \<le> ts_rows sz \<and> ts_rows sz \<le> 65535 \<and> 0 \<le> ts_cols sz \<and> ts_cols sz \<le> 65535"

lemma screen_region_fits: "screen_fits sz \<Longrightarrow> region_fits (screen_region sz)"
  by (simp add: screen_fits_def region_fits_def screen_region_def INT32_MAX_def INT32_MIN_def)

lemma pty_size_usable: "screen_fits sz \<Longrightarrow> within sz region \<Longrightarrow> usable_size (pty_size region)"
  by (auto simp: screen_fits_def within_def usable_size_def pty_size_def)

lemma screen_within: "within sz (screen_region sz)" "rg_size (screen_region sz) = sz"
  by (simp_all add: within_def screen_region_def)

definition tray_inv :: "('c, 's, 'o) tray \<Rightarrow> ptree \<Rightarrow> bool" where
  "tray_inv T t \<longleftrightarrow>
     layout_inv (tr_layout T) t \<and> smap_ok (tr_panes T)
     \<and> fst ` set (tr_panes T) = set (tree_panes t)
     \<and> tr_focused T \<in> set (tree_panes t)
     \<and> (\<forall>q \<in> set (tree_panes t). 0 < q \<and> q < tr_next_pane T)
     \<and> 0 < tr_next_pane T \<and> int (tr_next_pane T) \<le> UINT64_MAX
     \<and> screen_fits (tr_size T)
     \<and> (\<forall>sel. tr_selection T = Some sel \<longrightarrow> selection_ok t sel)
     \<and> (\<forall>S. tr_session T = Some S \<longrightarrow> session_ok t S)
     \<and> (tr_selection T = None \<or> tr_session T = None)
     \<and> (tr_maximized T \<longrightarrow> tr_selection T = None \<and> tr_session T = None \<and> 1 < length (tree_panes t))"

text \<open>Identifiers for one more request.\<close>

definition tray_room :: "('c, 's, 'o) tray \<Rightarrow> bool" where
  "tray_room T \<longleftrightarrow> int (ly_next (tr_layout T)) + 1 < UINT64_MAX \<and> int (tr_next_pane T) < UINT64_MAX"

lemma tray_invD:
  assumes "tray_inv T t"
  shows "layout_inv (tr_layout T) t" "represents (tr_layout T) t" "smap_ok (tr_panes T)"
    "fst ` set (tr_panes T) = set (tree_panes t)" "tr_focused T \<in> set (tree_panes t)"
    "region_fits (screen_region (tr_size T))" "distinct (tree_panes t)"
    "tr_selection T = Some sel \<Longrightarrow> selection_ok t sel" "tr_session T = Some S \<Longrightarrow> session_ok t S"
    "screen_fits (tr_size T)"
  using assms screen_region_fits by (auto simp: tray_inv_def layout_inv_def)

lemma panes_counted:
  assumes "tray_inv T t"
  shows "length (tr_panes T) = length (tree_panes t)"
proof -
  have "distinct (map fst (tr_panes T))" using assms smap_ok_distinct by (auto simp: tray_inv_def)
  then have "length (tr_panes T) = card (fst ` set (tr_panes T))" by (metis distinct_card length_map set_map)
  also have "\<dots> = length (tree_panes t)" using tray_invD(4,7) [OF assms] by (simp add: distinct_card)
  finally show ?thesis .
qed

section \<open>Nodes and panes\<close>

lemma pane_has_leaf: "q \<in> set (tree_panes t) \<Longrightarrow> \<exists>n. (n, q) \<in> set (tree_leaves t)"
  by (auto simp: tree_panes_def)

lemma pane_node_eq:
  assumes "layout_inv L t" "(n, q) \<in> set (tree_leaves t)"
  shows "pane_node L q = Inr n"
  using assms find_pane_eq by (auto simp: layout_inv_def pane_node_def required_pane_node_def)

lemma pane_at_eq:
  assumes inv: "layout_inv L t" and leaf: "(n, q) \<in> set (tree_leaves t)"
  shows "pane_at L n = Inr q"
proof -
  from leaf_context [OF leaf] obtain C where t: "t = plug C (TLeaf n q)" by blast
  have "look L n = Some (leaf_node_of n (ctx_parent C) q)"
    using inv representsD(1) [of L t] unfolding t by (simp add: layout_inv_def tree_simps)
  then show ?thesis by (simp add: pane_at_def layout_access node_pane_id_def)
qed

lemma smap_put_present:
  "smap_ok m \<Longrightarrow> k \<in> fst ` set m \<Longrightarrow> map fst (smap_put k v m) = map fst m"
  unfolding smap_ok_def by (induction k v m rule: smap_put.induct) auto

lemma smap_find_key: "smap_ok m \<Longrightarrow> k \<in> fst ` set m \<longleftrightarrow> smap_find m k \<noteq> None"
  by (auto simp: smap_find_def map_of_eq_None_iff)

lemma on_pane_resize:
  assumes rt: "runtime_obliges rt" and ok: "smap_ok (tr_panes T)" and q: "q \<in> fst ` set (tr_panes T)"
    and sz: "usable_size sz"
  shows "\<exists>p'. on_pane (pane_resize rt sz) q T = Inr (T\<lparr>tr_panes := smap_put q p' (tr_panes T)\<rparr>)
    \<and> pn_size p' = sz"
proof -
  obtain p where p: "smap_find (tr_panes T) q = Some p" using smap_find_key [OF ok] q by blast
  from pane_resize_total [OF rt sz] obtain p' where "pane_resize rt sz p = Inr p'" "pn_size p' = sz" by blast
  then show ?thesis using p by (auto simp: on_pane_def tray_pane_def)
qed

lemma resize_leaves:
  assumes rt: "runtime_obliges rt" and inv: "layout_inv (tr_layout T) t"
    and regions: "set (tree_ids t) \<subseteq> dom (smap_find (node_regions G))"
    and usable: "\<forall>n region. smap_find (node_regions G) n = Some region \<longrightarrow> usable_size (pty_size region)"
    and xs: "set xs \<subseteq> set (tree_leaves t)" "distinct (map snd xs)"
    and ok: "smap_ok (tr_panes T)" "set (tree_panes t) \<subseteq> fst ` set (tr_panes T)"
  shows "\<exists>ps. fold_result (resize_leaf_pane rt G) (map fst xs) T = Inr (T\<lparr>tr_panes := ps\<rparr>)
    \<and> map fst ps = map fst (tr_panes T)
    \<and> (\<forall>q. q \<notin> snd ` set xs \<longrightarrow> smap_find ps q = smap_find (tr_panes T) q)
    \<and> (\<forall>x \<in> set xs. \<exists>p region. smap_find ps (snd x) = Some p \<and> smap_find (node_regions G) (fst x) = Some region
         \<and> pn_size p = pty_size region)"
  using inv xs ok
proof (induction xs arbitrary: T)
  case Nil
  then show ?case by (intro exI [of _ "tr_panes T"]) simp
next
  case (Cons x xs)
  obtain n q where x: "x = (n, q)" by fastforce
  have leaf: "(n, q) \<in> set (tree_leaves t)" using Cons.prems(2) x by simp
  then have q: "q \<in> fst ` set (tr_panes T)" using Cons.prems(5) by (force simp: tree_panes_def)
  have "n \<in> set (tree_ids t)" using leaf leaf_ids [of t] by force
  then obtain region where region: "smap_find (node_regions G) n = Some region" using regions by blast
  from on_pane_resize [OF rt Cons.prems(4) q usable [rule_format, OF region]] obtain p' where
    p': "on_pane (pane_resize rt (pty_size region)) q T = Inr (T\<lparr>tr_panes := smap_put q p' (tr_panes T)\<rparr>)"
    "pn_size p' = pty_size region" by blast
  define T1 where "T1 = T\<lparr>tr_panes := smap_put q p' (tr_panes T)\<rparr>"
  have keys: "map fst (tr_panes T1) = map fst (tr_panes T)"
    using smap_put_present [OF Cons.prems(4) q] by (simp add: T1_def)
  then have "fst ` set (tr_panes T1) = fst ` set (tr_panes T)" by (metis set_map)
  moreover have "smap_ok (tr_panes T1)" using Cons.prems(4) keys by (simp add: smap_ok_def)
  moreover have "layout_inv (tr_layout T1) t" using Cons.prems(1) by (simp add: T1_def)
  ultimately obtain ps where ps: "fold_result (resize_leaf_pane rt G) (map fst xs) T1 = Inr (T1\<lparr>tr_panes := ps\<rparr>)"
    "map fst ps = map fst (tr_panes T1)"
    "\<forall>q. q \<notin> snd ` set xs \<longrightarrow> smap_find ps q = smap_find (tr_panes T1) q"
    "\<forall>x \<in> set xs. \<exists>p region. smap_find ps (snd x) = Some p \<and> smap_find (node_regions G) (fst x) = Some region
       \<and> pn_size p = pty_size region"
    using Cons.IH [of T1] Cons.prems by auto
  have "resize_leaf_pane rt G n T = Inr T1"
    using pane_at_eq [OF Cons.prems(1) leaf] region p'(1)
    by (simp add: resize_leaf_pane_def geometry_region_def T1_def)
  then have "fold_result (resize_leaf_pane rt G) (map fst (x # xs)) T = Inr (T\<lparr>tr_panes := ps\<rparr>)"
    using ps(1) x by (simp add: T1_def)
  moreover have "q \<notin> snd ` set xs" using Cons.prems(3) x by force
  then have "smap_find ps q = Some p'" using ps(3) by (simp add: T1_def smap_find_put)
  moreover have "\<forall>q'. q' \<notin> snd ` set (x # xs) \<longrightarrow> smap_find ps q' = smap_find (tr_panes T) q'"
    using ps(3) x by (simp add: T1_def smap_find_put)
  ultimately show ?case using ps(2,4) keys region p'(2) x by auto
qed

lemma tray_inv_panes:
  assumes "tray_inv T t" "map fst ps = map fst (tr_panes T)"
  shows "tray_inv (T\<lparr>tr_panes := ps\<rparr>) t"
proof -
  have "fst ` set ps = fst ` set (tr_panes T)" using assms(2) by (metis set_map)
  moreover have "smap_ok ps = smap_ok (tr_panes T)" using assms(2) by (simp add: smap_ok_def)
  ultimately show ?thesis using assms(1) by (simp add: tray_inv_def)
qed

text \<open>What resizing promises about a pane: the size of its region, or of the whole screen.\<close>

definition sized_to_layout :: "('c, 's, 'o) tray \<Rightarrow> ptree \<Rightarrow> bool" where
  "sized_to_layout T t \<longleftrightarrow> (\<exists>G. calculate_pane_geometry (tr_layout T) (screen_region (tr_size T)) = Inr G
     \<and> (\<forall>x \<in> set (tree_leaves t). \<exists>p region. smap_find (tr_panes T) (snd x) = Some p
          \<and> smap_find (node_regions G) (fst x) = Some region
          \<and> pn_size p = (if tr_maximized T \<and> snd x = tr_focused T then pty_size (screen_region (tr_size T))
               else pty_size region)))"

lemma resize_panes_inv:
  assumes rt: "runtime_obliges rt" and inv: "tray_inv T t"
  shows "\<exists>ps. resize_panes rt T = Inr (T\<lparr>tr_panes := ps\<rparr>) \<and> tray_inv (T\<lparr>tr_panes := ps\<rparr>) t
    \<and> (pc_estimate (tr_config T) \<longrightarrow> sized_to_layout (T\<lparr>tr_panes := ps\<rparr>) t)"
proof (cases "pc_estimate (tr_config T)")
  case False
  then show ?thesis using inv by (intro exI [of _ "tr_panes T"]) (simp add: resize_panes_def)
next
  case True
  note I = tray_invD [OF inv]
  from geometry_tiles [OF I(1,6)] obtain G where
    G: "calculate_pane_geometry (tr_layout T) (screen_region (tr_size T)) = Inr G"
    "dom (smap_find (node_regions G)) = set (tree_ids t)"
    "\<forall>n region. smap_find (node_regions G) n = Some region \<longrightarrow> within (tr_size T) region"
    unfolding screen_within(2) by blast
  have usable: "\<forall>n region. smap_find (node_regions G) n = Some region \<longrightarrow> usable_size (pty_size region)"
    using pty_size_usable [OF I(10)] G(3) by blast
  have lv: "leaf_nodes (tr_layout T) = Inr (map fst (tree_leaves t))" using I(1) by (simp add: layout_inv_def leaf_nodes_eq)
  have dist: "distinct (map snd (tree_leaves t))" using I(7) by (simp add: tree_panes_def)
  have sub: "set (tree_ids t) \<subseteq> dom (smap_find (node_regions G))" "set (tree_panes t) \<subseteq> fst ` set (tr_panes T)"
    using G(2) I(4) by simp_all
  from resize_leaves [OF rt I(1) sub(1) usable order_refl dist I(3) sub(2)] obtain ps where
    ps: "fold_result (resize_leaf_pane rt G) (map fst (tree_leaves t)) T = Inr (T\<lparr>tr_panes := ps\<rparr>)"
    "map fst ps = map fst (tr_panes T)"
    "\<forall>x \<in> set (tree_leaves t). \<exists>p region. smap_find ps (snd x) = Some p \<and> smap_find (node_regions G) (fst x) = Some region
       \<and> pn_size p = pty_size region" by blast
  let ?T1 = "T\<lparr>tr_panes := ps\<rparr>"
  have inv1: "tray_inv ?T1 t" by (rule tray_inv_panes [OF inv ps(2)])
  show ?thesis
  proof (cases "tr_maximized T")
    case False
    have "sized_to_layout ?T1 t" unfolding sized_to_layout_def using G(1) ps(3) False by auto
    then show ?thesis using True False G(1) lv ps(1) inv1 by (auto simp: resize_panes_def)
  next
    case max: True
    have "tr_focused T \<in> fst ` set (tr_panes ?T1)" using tray_invD(4,5) [OF inv1] by simp
    from on_pane_resize [OF rt tray_invD(3) [OF inv1] this pty_size_usable [OF I(10) screen_within(1)]] obtain p' where
      p': "on_pane (pane_resize rt (pty_size (screen_region (tr_size T)))) (tr_focused T) ?T1
        = Inr (?T1\<lparr>tr_panes := smap_put (tr_focused T) p' ps\<rparr>)"
      "pn_size p' = pty_size (screen_region (tr_size T))" by auto
    let ?ps = "smap_put (tr_focused T) p' ps"
    have "map fst ?ps = map fst ps"
      using smap_put_present [of ps] tray_invD(3-5) [OF inv1] by simp
    then have "tray_inv (T\<lparr>tr_panes := ?ps\<rparr>) t" using tray_inv_panes [OF inv] ps(2) by metis
    moreover have "sized_to_layout (T\<lparr>tr_panes := ?ps\<rparr>) t"
      unfolding sized_to_layout_def
      using G(1) ps(3) max p'(2) by (intro exI [of _ G]) (auto simp: smap_find_put)
    moreover have "resize_panes rt T = Inr (T\<lparr>tr_panes := ?ps\<rparr>)"
      using True max G(1) lv ps(1) p'(1) by (simp add: resize_panes_def)
    ultimately show ?thesis by blast
  qed
qed

end
