(* ===== verification/Tray_Correct.thy ===== *)
theory Tray_Correct
  imports Tray_Invariant Pane_Split
begin

text \<open>
  Every request to a tray is answered and leaves a tray that satisfies the invariant. Splitting,
  closing and focusing act on the panes in reading order as an abstract list; the other
  requests permute it at most.
\<close>

section \<open>Starting, focusing, splitting, closing\<close>

lemma tray_start_inv:
  assumes p: "pane_start rt config = Inr p" and fits: "screen_fits (pc_initial_size config)"
  shows "\<exists>T. tray_start rt i config = Inr T \<and> tray_inv T (TLeaf 1 1) \<and> tr_id T = i
    \<and> tr_size T = pc_initial_size config \<and> tr_next_pane T = 2 \<and> tr_layout T = single 1"
proof -
  have "layout_inv (single 1) (TLeaf 1 1)"
    by (auto simp: layout_inv_def represents_def represents_forest_def single_def smap_emplace_def
        smap_ok_def smap_find_def tree_panes_def UINT64_MAX_def split: if_splits)
  then show ?thesis using p fits
    by (simp add: tray_start_def required_pane_id_def pane_id_from_value_def tray_inv_def
        smap_emplace_def smap_find_def smap_ok_def tree_panes_def UINT64_MAX_def)
qed

lemma focus_pane_inv:
  assumes rt: "runtime_obliges rt" and inv: "tray_inv T t"
  shows "\<exists>T'. focus_pane rt q T = Inr (q \<in> set (tree_panes t), T') \<and> tray_inv T' t
    \<and> tr_focused T' = (if q \<in> set (tree_panes t) then q else tr_focused T) \<and> tr_layout T' = tr_layout T"
proof (cases "smap_find (tr_panes T) q = None")
  case True
  then have "q \<notin> set (tree_panes t)" using smap_find_key tray_invD(3,4) [OF inv] by metis
  then show ?thesis using True inv by (simp add: focus_pane_def)
next
  case False
  then have q: "q \<in> set (tree_panes t)" using smap_find_key tray_invD(3,4) [OF inv] by metis
  define T2 where "T2 = (if q \<noteq> tr_focused T then T\<lparr>tr_focused := q, tr_selection := None, tr_session := None\<rparr>
    else T\<lparr>tr_focused := q\<rparr>)"
  have inv2: "tray_inv T2 t" using inv q by (auto simp: T2_def tray_inv_def)
  from resize_panes_inv [OF rt inv2] obtain ps where
    ps: "resize_panes rt T2 = Inr (T2\<lparr>tr_panes := ps\<rparr>)" "tray_inv (T2\<lparr>tr_panes := ps\<rparr>) t" by blast
  have "focus_pane rt q T = and_then (if tr_maximized T2 \<and> q \<noteq> tr_focused T then resize_panes rt T2 else Inr T2)
      (\<lambda>T3. Inr (True, T3))"
    unfolding focus_pane_def Let_def T2_def if_not_P [OF False] by (cases "q \<noteq> tr_focused T") simp_all
  then have "focus_pane rt q T = Inr (True, T2\<lparr>tr_panes := ps\<rparr>) \<or> focus_pane rt q T = Inr (True, T2)"
    using ps(1) by simp
  moreover have "tr_focused T2 = q" "tr_layout T2 = tr_layout T" by (simp_all add: T2_def)
  ultimately show ?thesis using ps(2) inv2 q by (elim disjE) simp_all
qed

lemma insert_beside_set:
  "x \<in> set xs \<Longrightarrow> set (insert_beside ins x y xs) = insert y (set xs)"
  by (induction xs) auto

lemma insert_beside_length:
  "x \<in> set xs \<Longrightarrow> length (insert_beside ins x y xs) = Suc (length xs)"
  by (induction xs) auto

lemma split_focused_pane_inv:
  assumes rt: "runtime_obliges rt" and inv: "tray_inv T t" and room: "tray_room T"
    and p: "pane_start rt ((tr_config T)\<lparr>pc_initial_size := tr_size T\<rparr>) = Inr p"
  shows "\<exists>T' t'. split_focused_pane rt axis ins T = Inr (tr_next_pane T, T') \<and> tray_inv T' t'
    \<and> tree_panes t' = insert_beside ins (tr_focused T) (tr_next_pane T) (tree_panes t)
    \<and> tr_focused T' = tr_next_pane T \<and> (alternates t \<longrightarrow> alternates t')
    \<and> (pc_estimate (tr_config T) \<longrightarrow> sized_to_layout T' t')"
proof -
  note I = tray_invD [OF inv]
  let ?new = "tr_next_pane T"
  have fresh: "?new \<notin> set (tree_panes t)" and pos: "0 < ?new" using inv by (auto simp: tray_inv_def)
  from pane_has_leaf [OF I(5)] obtain n where n: "(n, tr_focused T) \<in> set (tree_leaves t)" by blast
  have room': "int (ly_next (tr_layout T)) + 1 < UINT64_MAX" using room by (simp add: tray_room_def)
  from split_leaf_inv [OF I(1) n fresh room', of axis ins] obtain m L' t' where
    s: "split_leaf n axis ?new ins (tr_layout T) = Inr (m, L')" "layout_inv L' t'" "alternates t \<longrightarrow> alternates t'"
    "tree_panes t' = insert_beside ins (tr_focused T) ?new (tree_panes t)" by blast
  have none: "smap_find (tr_panes T) ?new = None" using fresh smap_find_key I(3,4) by metis
  define T1 where "T1 = without_interaction (T\<lparr>tr_next_pane := ?new + 1, tr_layout := L',
    tr_panes := smap_put ?new p (tr_panes T), tr_focused := ?new\<rparr>)"
  have "set (tree_panes t') = insert ?new (set (tree_panes t))" using s(4) insert_beside_set [OF I(5)] by metis
  then have inv1: "tray_inv T1 t'"
    using inv s(2) pos room smap_ok_put [OF I(3)]
    by (auto simp: tray_inv_def T1_def without_interaction_def keys_smap_put tray_room_def)
  from resize_panes_inv [OF rt inv1] obtain ps where
    ps: "resize_panes rt T1 = Inr (T1\<lparr>tr_panes := ps\<rparr>)" "tray_inv (T1\<lparr>tr_panes := ps\<rparr>) t'"
    "pc_estimate (tr_config T1) \<longrightarrow> sized_to_layout (T1\<lparr>tr_panes := ps\<rparr>) t'" by blast
  have "allocate_pane_id T = Inr (?new, T\<lparr>tr_next_pane := ?new + 1\<rparr>)"
    using pos room by (simp add: allocate_pane_id_def required_pane_id_def pane_id_from_value_def tray_room_def)
  then have "split_focused_pane rt axis ins T = Inr (?new, T1\<lparr>tr_panes := ps\<rparr>)"
    using p none s(1) ps(1) pane_node_eq [OF I(1) n]
    by (simp add: split_focused_pane_def smap_emplace_def T1_def)
  then show ?thesis using ps(2,3) s(3,4) by (intro exI conjI) (assumption | simp add: T1_def without_interaction_def)+
qed

text \<open>Removing the leaf of a pane that is not the last.\<close>

lemma remove_pane:
  assumes inv: "layout_inv L t" and q: "q \<in> set (tree_panes t)" and many: "1 < length (tree_panes t)"
  shows "\<exists>n focus_node L' t' q'. pane_node L q = Inr n \<and> remove_leaf n L = Inr (Some focus_node, L')
    \<and> layout_inv L' t' \<and> (alternates t \<longrightarrow> alternates t') \<and> tree_panes t' = removeAll q (tree_panes t)
    \<and> pane_at L' focus_node = Inr q' \<and> q' \<in> set (tree_panes t')"
proof -
  from pane_has_leaf [OF q] obtain n where n: "(n, q) \<in> set (tree_leaves t)" by blast
  have dp: "distinct (tree_panes t)" using inv by (simp add: layout_inv_def)
  have "tree_panes t \<noteq> [q]" using many by auto
  from remove_leaf_inv [OF inv n this] obtain f L' t' where
    r: "remove_leaf n L = Inr (Some f, L')" "layout_inv L' t'" "alternates t \<longrightarrow> alternates t'"
    "tree_leaves t' = removeAll (n, q) (tree_leaves t)" "f \<in> fst ` set (tree_leaves t')" by blast
  from r(5) obtain q' where q': "(f, q') \<in> set (tree_leaves t')" by auto
  have "map snd (removeAll (n, q) xs) = removeAll q (map snd xs)" if "distinct (map snd xs)" "(n, q) \<in> set xs" for xs
    using that
  proof (induction xs)
    case (Cons x xs)
    show ?case
    proof (cases "x = (n, q)")
      case True
      then have "q \<notin> set (map snd xs)" "(n, q) \<notin> set xs" using Cons.prems(1) by force+
      then show ?thesis using True by simp
    next
      case False
      then have "(n, q) \<in> set xs" using Cons.prems by auto
      moreover from this have "q \<in> set (map snd xs)" by force
      then have "snd x \<noteq> q" using Cons.prems(1) by auto
      ultimately show ?thesis using Cons False by auto
    qed
  qed simp
  then have "tree_panes t' = removeAll q (tree_panes t)"
    using dp n r(4) by (simp add: tree_panes_def)
  moreover have "q' \<in> set (tree_panes t')" using q' by (force simp: tree_panes_def)
  ultimately show ?thesis using pane_node_eq [OF inv n] r(1-3) pane_at_eq [OF r(2) q'] by blast
qed

lemma close_focused_pane_inv:
  assumes rt: "runtime_obliges rt" and inv: "tray_inv T t"
  shows "\<exists>T' t'. close_focused_pane rt T = Inr (1 < length (tree_panes t), T') \<and> tray_inv T' t'
    \<and> (alternates t \<longrightarrow> alternates t')
    \<and> tree_panes t' = (if 1 < length (tree_panes t) then removeAll (tr_focused T) (tree_panes t) else tree_panes t)
    \<and> (1 < length (tree_panes t) \<and> pc_estimate (tr_config T) \<longrightarrow> sized_to_layout T' t')"
proof -
  note I = tray_invD [OF inv]
  have pos: "0 < length (tree_panes t)" using I(5) by (cases "tree_panes t") auto
  show ?thesis
  proof (cases "1 < length (tree_panes t)")
    case False
    then have "length (tr_panes T) = 1" using panes_counted [OF inv] pos by linarith
    then show ?thesis using False inv by (auto simp: close_focused_pane_def)
  next
    case True
    then have many: "length (tr_panes T) \<noteq> 1" using panes_counted [OF inv] by simp
    let ?q = "tr_focused T"
    from remove_pane [OF I(1,5) True] obtain n f L' t' q' where
      r: "pane_node (tr_layout T) ?q = Inr n" "remove_leaf n (tr_layout T) = Inr (Some f, L')" "layout_inv L' t'"
      "alternates t \<longrightarrow> alternates t'" "tree_panes t' = removeAll ?q (tree_panes t)"
      "pane_at L' f = Inr q'" "q' \<in> set (tree_panes t')" by blast
    define T1 where "T1 = without_interaction (T\<lparr>tr_layout := L', tr_focused := q',
      tr_panes := smap_erase ?q (tr_panes T)\<rparr>)"
    have "fst ` set (smap_erase ?q (tr_panes T)) = fst ` set (tr_panes T) - {?q}"
      by (auto simp: smap_erase_def)
    then have inv1: "tray_inv T1 t'"
      using inv r(3,5,7) smap_ok_erase [OF I(3)] by (auto simp: tray_inv_def T1_def without_interaction_def)
    from resize_panes_inv [OF rt inv1] obtain ps where
      ps: "resize_panes rt T1 = Inr (T1\<lparr>tr_panes := ps\<rparr>)" "tray_inv (T1\<lparr>tr_panes := ps\<rparr>) t'"
      "pc_estimate (tr_config T1) \<longrightarrow> sized_to_layout (T1\<lparr>tr_panes := ps\<rparr>) t'" by blast
    have "close_focused_pane rt T = Inr (True, T1\<lparr>tr_panes := ps\<rparr>)"
      using many r ps(1) by (simp add: close_focused_pane_def Let_def T1_def)
    then show ?thesis using True ps(2,3) r(4,5)
      by (intro exI conjI) (assumption | simp add: T1_def without_interaction_def)+
  qed
qed

section \<open>Exited panes\<close>

lemma reap_pane_inv:
  assumes inv: "tray_inv (without_interaction T) t" and q: "fst e \<in> set (tree_panes t)"
    and many: "1 < length (tree_panes t)"
  shows "\<exists>T' t'. reap_pane e T = Inr T' \<and> tray_inv (without_interaction T') t'
    \<and> tree_panes t' = removeAll (fst e) (tree_panes t) \<and> (alternates t \<longrightarrow> alternates t')
    \<and> tr_config T' = tr_config T"
proof -
  note I = tray_invD [OF inv]
  have L: "layout_inv (tr_layout T) t" using I(1) by (simp add: without_interaction_def)
  let ?q = "fst e"
  from remove_pane [OF L q many] obtain n f L' t' q' where
    r: "pane_node (tr_layout T) ?q = Inr n" "remove_leaf n (tr_layout T) = Inr (Some f, L')" "layout_inv L' t'"
    "alternates t \<longrightarrow> alternates t'" "tree_panes t' = removeAll ?q (tree_panes t)"
    "pane_at L' f = Inr q'" "q' \<in> set (tree_panes t')" by blast
  define focused where "focused = (if ?q = tr_focused T then q' else tr_focused T)"
  define T1 where "T1 = T\<lparr>tr_layout := L', tr_focused := focused, tr_panes := smap_erase ?q (tr_panes T)\<rparr>"
  have keys: "fst ` set (smap_erase ?q (tr_panes T)) = fst ` set (tr_panes T) - {?q}"
    by (auto simp: smap_erase_def)
  have "focused \<in> set (tree_panes t')"
    using r(5,7) I(5) by (auto simp: focused_def without_interaction_def)
  then have inv1: "tray_inv (without_interaction T1) t'"
    using inv r(3,5) smap_ok_erase [of "tr_panes T" ?q] keys
    by (auto simp: tray_inv_def T1_def without_interaction_def)
  have "reap_pane e T = Inr T1"
    using r(1,2,6) by (simp add: reap_pane_def Let_def T1_def focused_def)
  then show ?thesis using inv1 r(4,5) by (auto simp: T1_def)
qed

lemma reap_panes_inv:
  assumes "tray_inv (without_interaction T) t" "fst ` set es \<subseteq> set (tree_panes t)"
    "distinct (map fst es)" "length es < length (tree_panes t)"
  shows "\<exists>T' t'. fold_result reap_pane es T = Inr T' \<and> tray_inv (without_interaction T') t'
    \<and> tree_panes t' = filter (\<lambda>q. q \<notin> fst ` set es) (tree_panes t) \<and> (alternates t \<longrightarrow> alternates t')
    \<and> tr_config T' = tr_config T"
  using assms
proof (induction es arbitrary: T t)
  case Nil
  then show ?case by auto
next
  case (Cons e es)
  have dp: "distinct (tree_panes t)" using tray_invD(7) [OF Cons.prems(1)] .
  from reap_pane_inv [OF Cons.prems(1), of e] Cons.prems(2,4) obtain T1 t1 where
    r: "reap_pane e T = Inr T1" "tray_inv (without_interaction T1) t1"
    "tree_panes t1 = removeAll (fst e) (tree_panes t)" "alternates t \<longrightarrow> alternates t1" "tr_config T1 = tr_config T"
    by auto
  have "length (tree_panes t1) = length (tree_panes t) - 1"
    using r(3) dp Cons.prems(2) by (simp add: distinct_remove1_removeAll [symmetric] length_remove1)
  then have "length es < length (tree_panes t1)" using Cons.prems(4) by simp
  moreover have "fst e \<notin> fst ` set es" "fst ` set es \<subseteq> set (tree_panes t)"
    using Cons.prems(2,3) by simp_all
  then have "fst ` set es \<subseteq> set (tree_panes t1)" unfolding r(3) set_removeAll by blast
  ultimately obtain T' t' where f: "fold_result reap_pane es T1 = Inr T'" "tray_inv (without_interaction T') t'"
    "tree_panes t' = filter (\<lambda>q. q \<notin> fst ` set es) (tree_panes t1)" "alternates t1 \<longrightarrow> alternates t'"
    "tr_config T' = tr_config T1"
    using Cons.IH [OF r(2)] Cons.prems(3) by auto
  have "tree_panes t' = filter (\<lambda>q. q \<notin> fst ` set (e # es)) (tree_panes t)"
    unfolding f(3) r(3) removeAll_filter_not_eq filter_filter by (rule filter_cong) auto
  moreover have "fold_result reap_pane (e # es) T = Inr T'" using r(1) f(1) by simp
  ultimately show ?case using f(2,4,5) r(4,5) by (intro exI [of _ T'] exI [of _ t']) simp
qed

lemma map_fst_present:
  "map fst (concat (map (\<lambda>(q, p). case f p of None \<Rightarrow> [] | Some status \<Rightarrow> [(q, status)]) xs))
    = map fst (filter (\<lambda>(q, p). f p \<noteq> None) xs)"
  by (induction xs) (auto split: option.splits)

lemma exited_panes_facts:
  assumes inv: "tray_inv T t"
  shows "fst ` set (exited_panes rt T) \<subseteq> set (tree_panes t)" "distinct (map fst (exited_panes rt T))"
    "length (exited_panes rt T) \<le> length (tr_panes T)"
proof -
  have e: "map fst (exited_panes rt T) = map fst (filter (\<lambda>(q, p). pane_try_wait_for_exit rt p \<noteq> None) (tr_panes T))"
    unfolding exited_panes_def by (rule map_fst_present)
  show "fst ` set (exited_panes rt T) \<subseteq> set (tree_panes t)"
    using arg_cong [OF e, of set] tray_invD(4) [OF inv] by auto
  have "distinct (map fst (tr_panes T))" using smap_ok_distinct tray_invD(3) [OF inv] by blast
  then show "distinct (map fst (exited_panes rt T))" unfolding e by (simp add: distinct_map_filter)
  have "length (exited_panes rt T) = length (map fst (exited_panes rt T))" by simp
  also have "\<dots> \<le> length (tr_panes T)" unfolding e by simp
  finally show "length (exited_panes rt T) \<le> length (tr_panes T)" .
qed

text \<open>
  Reaping removes exactly the panes whose processes have exited, unless that is all of them:
  then the tray reports the status of the first and is left for its manager to destroy.
\<close>

lemma reap_exited_panes_inv:
  assumes rt: "runtime_obliges rt" and inv: "tray_inv T t"
  shows "\<exists>update T' t'. reap_exited_panes rt T = Inr (update, T') \<and> tray_inv T' t'
    \<and> (alternates t \<longrightarrow> alternates t')
    \<and> (eu_changed update \<longleftrightarrow> exited_panes rt T \<noteq> [])
    \<and> (eu_status update \<noteq> None \<longleftrightarrow> fst ` set (exited_panes rt T) = set (tree_panes t))
    \<and> tree_panes t' = (if eu_status update = None
         then filter (\<lambda>q. q \<notin> fst ` set (exited_panes rt T)) (tree_panes t) else tree_panes t)"
proof -
  let ?es = "exited_panes rt T"
  note F = exited_panes_facts [OF inv, of rt] and I = tray_invD [OF inv]
  note n = panes_counted [OF inv]
  have all: "fst ` set ?es = set (tree_panes t) \<longleftrightarrow> length ?es = length (tree_panes t)"
  proof
    assume "fst ` set ?es = set (tree_panes t)"
    then have "card (set (map fst ?es)) = card (set (tree_panes t))" by simp
    then show "length ?es = length (tree_panes t)" using F(2) I(7) by (metis distinct_card length_map)
  next
    assume "length ?es = length (tree_panes t)"
    then have "card (set (map fst ?es)) = card (set (tree_panes t))" using F(2) I(7) by (metis distinct_card length_map)
    then show "fst ` set ?es = set (tree_panes t)" using F(1) card_subset_eq [of "set (tree_panes t)"] by auto
  qed
  have pos: "0 < length (tree_panes t)" using I(5) by (cases "tree_panes t") auto
  show ?thesis
  proof (cases ?es)
    case Nil
    then have "reap_exited_panes rt T = Inr (\<lparr>eu_changed = False, eu_status = None\<rparr>, T)"
      by (simp add: reap_exited_panes_def)
    then show ?thesis using inv Nil pos by (intro exI conjI) (assumption | simp)+
  next
    case (Cons first rest)
    show ?thesis
    proof (cases "length ?es = length (tree_panes t)")
      case True
      then have "reap_exited_panes rt T = Inr (\<lparr>eu_changed = True, eu_status = Some (snd first)\<rparr>, T)"
        using Cons n by (simp add: reap_exited_panes_def)
      then show ?thesis using inv Cons True all by (intro exI conjI) (assumption | simp)+
    next
      case False
      then have less: "length ?es < length (tree_panes t)" using F(3) n by simp
      have base: "tray_inv (without_interaction T) t" using inv by (auto simp: tray_inv_def without_interaction_def)
      from reap_panes_inv [OF base F(1,2) less] obtain T1 t1 where
        r: "fold_result reap_pane ?es T = Inr T1" "tray_inv (without_interaction T1) t1"
        "tree_panes t1 = filter (\<lambda>q. q \<notin> fst ` set ?es) (tree_panes t)" "alternates t \<longrightarrow> alternates t1" by blast
      note I1 = tray_invD [OF r(2)]
      obtain p where focused: "smap_find (tr_panes T1) (tr_focused T1) = Some p"
        using smap_find_key [OF I1(3)] I1(4,5) by (auto simp: without_interaction_def)
      from resize_panes_inv [OF rt r(2)] obtain ps where
        ps: "resize_panes rt (without_interaction T1) = Inr ((without_interaction T1)\<lparr>tr_panes := ps\<rparr>)"
        "tray_inv ((without_interaction T1)\<lparr>tr_panes := ps\<rparr>) t1" by blast
      have "reap_exited_panes rt T = Inr (\<lparr>eu_changed = True, eu_status = None\<rparr>, (without_interaction T1)\<lparr>tr_panes := ps\<rparr>)"
        using Cons False n r(1) focused ps(1) by (simp add: reap_exited_panes_def)
      then show ?thesis using ps(2) r(3,4) Cons False all by (intro exI conjI) (assumption | simp)+
    qed
  qed
qed

end
