(* ===== verification/Tray_Requests.thy ===== *)
theory Tray_Requests
  imports Tray_Correct
begin

text \<open>
  The requests that rearrange a tray: the maximised state, selections, percentages, rotations
  and interactive moves. Each is answered on every tray that satisfies the invariant, and
  leaves such a tray with the same panes. The one exception is confirming a swap in a layout
  out of normal form, which throws.
\<close>

section \<open>Answers that keep the panes\<close>

definition answers :: "(bool \<times> ('c, 's, 'o) tray) result \<Rightarrow> ptree \<Rightarrow> bool" where
  "answers r t \<longleftrightarrow> (\<exists>b T' t'. r = Inr (b, T') \<and> tray_inv T' t' \<and> mset (tree_panes t') = mset (tree_panes t))"

lemma answers_tray: "tray_inv T t' \<Longrightarrow> mset (tree_panes t') = mset (tree_panes t) \<Longrightarrow> answers (Inr (b, T)) t"
  by (auto simp: answers_def)

lemma answers_unchanged: "tray_inv T t \<Longrightarrow> answers (Inr (b, T)) t"
  by (rule answers_tray) simp_all

lemma answers_resized:
  assumes rt: "runtime_obliges rt" and inv: "tray_inv T t'" and same: "mset (tree_panes t') = mset (tree_panes t)"
  shows "answers (and_then (resize_panes rt T) (\<lambda>T1. Inr (b, T1))) t"
proof -
  from resize_panes_inv [OF rt inv] obtain ps where
    "resize_panes rt T = Inr (T\<lparr>tr_panes := ps\<rparr>)" "tray_inv (T\<lparr>tr_panes := ps\<rparr>) t'" by blast
  then show ?thesis using same by (simp add: answers_tray)
qed

text \<open>A layout with the same panes in place of the old one, every interaction dropped but one selection.\<close>

lemma tray_inv_layout:
  assumes inv: "tray_inv T t" and L': "layout_inv L' t'" and same: "mset (tree_panes t') = mset (tree_panes t)"
    and sel: "\<And>s. sel = Some s \<Longrightarrow> selection_ok t' s"
  shows "tray_inv (T\<lparr>tr_layout := L', tr_maximized := False, tr_selection := sel, tr_session := None\<rparr>) t'"
proof -
  have "set (tree_panes t') = set (tree_panes t)" using same by (metis set_mset_mset)
  then show ?thesis using inv L' sel by (auto simp: tray_inv_def)
qed

lemma tray_inv_no_session: "tray_inv T t \<Longrightarrow> tray_inv (T\<lparr>tr_session := None\<rparr>) t"
  by (auto simp: tray_inv_def)

lemma mset_leaves_panes: "mset (tree_leaves t') = mset (tree_leaves t) \<Longrightarrow> mset (tree_panes t') = mset (tree_panes t)"
  by (simp add: tree_panes_def)

lemma unweighted_panes: "unweighted t' = unweighted t \<Longrightarrow> tree_panes t' = tree_panes t"
  unfolding tree_panes_def by (metis unweighted_leaves)

section \<open>Selections\<close>

lemma focused_node:
  assumes "tray_inv T t"
  shows "\<exists>n. pane_node (tr_layout T) (tr_focused T) = Inr n \<and> (n, tr_focused T) \<in> set (tree_leaves t)
    \<and> n \<in> set (tree_ids t)"
proof -
  note I = tray_invD [OF assms]
  from pane_has_leaf [OF I(5)] obtain n where n: "(n, tr_focused T) \<in> set (tree_leaves t)" by blast
  then have "n \<in> set (tree_ids t)" using leaf_ids [of t] by force
  then show ?thesis using n pane_node_eq [OF I(1) n] by blast
qed

lemma selection_or_focused_ok:
  assumes inv: "tray_inv T t"
  shows "\<exists>sel. selection_or_focused_pane T = Inr sel \<and> selection_ok t sel \<and> (\<forall>s. tr_selection T = Some s \<longrightarrow> sel = s)"
proof (cases "tr_selection T")
  case None
  from focused_node [OF inv] obtain n where n: "pane_node (tr_layout T) (tr_focused T) = Inr n" "n \<in> set (tree_ids t)"
    by blast
  from selection_single_ok [OF tray_invD(2) [OF inv] n(2)] n(1) None show ?thesis
    by (auto simp: selection_or_focused_pane_def)
next
  case (Some s)
  then show ?thesis using inv by (simp add: selection_or_focused_pane_def tray_inv_def)
qed

lemma leave_maximized_inv:
  assumes rt: "runtime_obliges rt" and inv: "tray_inv T t"
  shows "\<exists>ps. leave_maximized rt T = Inr (T\<lparr>tr_maximized := False, tr_panes := ps\<rparr>)
    \<and> tray_inv (T\<lparr>tr_maximized := False, tr_panes := ps\<rparr>) t"
proof (cases "tr_maximized T")
  case True
  have "tray_inv (T\<lparr>tr_maximized := False\<rparr>) t" using inv by (auto simp: tray_inv_def)
  from resize_panes_inv [OF rt this] True show ?thesis by (auto simp: leave_maximized_def)
next
  case False
  then have "T\<lparr>tr_maximized := False, tr_panes := tr_panes T\<rparr> = T" by simp
  moreover have "leave_maximized rt T = Inr T" using False by (simp add: leave_maximized_def)
  ultimately show ?thesis using inv by metis
qed

lemma toggle_maximized_answers:
  assumes rt: "runtime_obliges rt" and inv: "tray_inv T t"
  shows "answers (toggle_focused_pane_maximized rt T) t"
proof (cases "length (tr_panes T) = 1")
  case True
  then show ?thesis using inv by (simp add: toggle_focused_pane_maximized_def answers_unchanged)
next
  case False
  have "0 < length (tree_panes t)" using tray_invD(5) [OF inv] by (cases "tree_panes t") auto
  then have "1 < length (tree_panes t)" using False panes_counted [OF inv] by linarith
  then have "tray_inv (T\<lparr>tr_selection := None, tr_session := None, tr_maximized := \<not> tr_maximized T\<rparr>) t"
    using inv by (simp add: tray_inv_def)
  from answers_resized [OF rt this refl] False show ?thesis by (simp add: toggle_focused_pane_maximized_def)
qed

lemma toggle_selection_answers:
  assumes rt: "runtime_obliges rt" and inv: "tray_inv T t"
  shows "answers (toggle_pane_selection rt T) t"
proof (cases "tr_selection T")
  case (Some s)
  then have "toggle_pane_selection rt T = Inr (True, T\<lparr>tr_session := None, tr_selection := None\<rparr>)"
    by (simp add: toggle_pane_selection_def)
  moreover have "tray_inv (T\<lparr>tr_session := None, tr_selection := None\<rparr>) t" using inv by (auto simp: tray_inv_def)
  ultimately show ?thesis by (simp add: answers_unchanged)
next
  case None
  from leave_maximized_inv [OF rt tray_inv_no_session [OF inv]] obtain ps where
    m: "leave_maximized rt (T\<lparr>tr_session := None\<rparr>) = Inr (T\<lparr>tr_session := None, tr_maximized := False, tr_panes := ps\<rparr>)"
    "tray_inv (T\<lparr>tr_session := None, tr_maximized := False, tr_panes := ps\<rparr>) t" by auto
  define T1 where "T1 = T\<lparr>tr_session := None, tr_maximized := False, tr_panes := ps\<rparr>"
  have inv1: "tray_inv T1 t" using m(2) by (simp add: T1_def)
  from focused_node [OF inv1] obtain n where n: "pane_node (tr_layout T1) (tr_focused T1) = Inr n" "n \<in> set (tree_ids t)"
    by blast
  from selection_single_ok [OF tray_invD(2) [OF inv1] n(2)] obtain sel where
    s: "selection_single (tr_layout T1) n = Inr sel" "selection_ok t sel" by blast
  have "toggle_pane_selection rt T = Inr (True, T1\<lparr>tr_selection := Some sel\<rparr>)"
    using None m(1) n(1) s(1) by (simp add: toggle_pane_selection_def Let_def T1_def)
  moreover have "tray_inv (T1\<lparr>tr_selection := Some sel\<rparr>) t"
    using inv1 s(2) by (simp add: tray_inv_def T1_def)
  ultimately show ?thesis by (simp add: answers_unchanged)
qed

lemma reselected:
  assumes "tray_inv T t" "tr_selection T = Some s" "selection_ok t s'"
  shows "tray_inv (T\<lparr>tr_selection := Some s'\<rparr>) t"
  using assms by (auto simp: tray_inv_def)

lemma step_selection_answers:
  assumes inv: "tray_inv T t"
  shows "answers (step_pane_selection direction T) t"
proof (cases "tr_selection T")
  case None
  then show ?thesis using inv by (simp add: step_pane_selection_def answers_unchanged)
next
  case (Some sel)
  note I = tray_invD [OF inv]
  have ok: "selection_ok t sel" using I(8) [OF Some] .
  show ?thesis
  proof (cases "sel_parent sel")
    case None
    then show ?thesis using inv Some by (simp add: step_pane_selection_def answers_unchanged)
  next
    case parent: (Some p)
    with ok obtain C ax ks where t: "t = plug C (TSplit p ax ks)"
      unfolding selection_ok_def by (simp, blast)
    have lk: "look (tr_layout T) p = Some (split_node_of p (ctx_parent C) ax (map kid_entry ks))"
      using representsD(1) [OF I(2)] unfolding t by (simp add: tree_simps)
    show ?thesis
    proof (cases "sibling_direction ax direction")
      case None
      then show ?thesis using inv Some parent lk by (simp add: step_pane_selection_def layout_access answers_unchanged)
    next
      case d: (Some d)
      from selection_step_ok [OF I(2) ok, of d] obtain s' where
        s': "selection_step (tr_layout T) d sel = Inr s'" "selection_ok t s'" by blast
      show ?thesis using inv Some parent lk d s' reselected [OF inv Some s'(2)]
        by (simp add: step_pane_selection_def layout_access answers_unchanged)
    qed
  qed
qed

lemma promote_selection_answers:
  assumes inv: "tray_inv T t"
  shows "answers (promote_pane_selection T) t"
proof (cases "tr_selection T")
  case None
  then show ?thesis using inv by (simp add: promote_pane_selection_def answers_unchanged)
next
  case (Some sel)
  note I = tray_invD [OF inv]
  from selection_promote_ok [OF I(2) I(8) [OF Some]] obtain s' where
    s': "selection_promote (tr_layout T) sel = Inr s'" "selection_ok t s'" by blast
  show ?thesis using inv Some s'(1) reselected [OF inv Some s'(2)]
    by (simp add: promote_pane_selection_def answers_unchanged)
qed

lemma descend_selection_answers:
  assumes inv: "tray_inv T t"
  shows "answers (descend_pane_selection T) t"
proof (cases "tr_selection T")
  case None
  then show ?thesis using inv by (simp add: descend_pane_selection_def answers_unchanged)
next
  case (Some sel)
  note I = tray_invD [OF inv]
  from selection_descend_ok [OF I(1) I(8) [OF Some]] obtain s' where
    s': "selection_descend (tr_layout T) sel = Inr s'" "selection_ok t s'" by blast
  show ?thesis using inv Some s'(1) reselected [OF inv Some s'(2)]
    by (simp add: descend_pane_selection_def answers_unchanged)
qed

section \<open>Percentages and rotations\<close>

lemma relaid_answers:
  assumes rt: "runtime_obliges rt" and inv: "tray_inv T t" and L': "layout_inv L' t'"
    and same: "mset (tree_panes t') = mset (tree_panes t)" and sel: "\<And>s. sel = Some s \<Longrightarrow> selection_ok t' s"
  shows "answers (and_then (resize_panes rt
      (T\<lparr>tr_layout := L', tr_maximized := False, tr_selection := sel, tr_session := None\<rparr>)) (\<lambda>T1. Inr (b, T1))) t"
  by (rule answers_resized [OF rt tray_inv_layout [OF inv L' same sel] same])

lemma unweighted_selection:
  assumes inv: "tray_inv T t" and e: "unweighted t' = unweighted t" and s: "tr_selection T = Some s"
  shows "selection_ok t' s"
  using selection_ok_unweighted [OF tray_invD(8) [OF inv s] e [symmetric]] .

lemma reweighed_answers:
  assumes rt: "runtime_obliges rt" and inv: "tray_inv T t" and none: "tr_session T = None"
    and L': "layout_inv L' t'" and e: "unweighted t' = unweighted t" and keep: "\<not> changed \<longrightarrow> L' = tr_layout T"
  shows "answers (if changed then
        and_then (resize_panes rt (T\<lparr>tr_layout := L', tr_maximized := False\<rparr>)) (\<lambda>T1. Inr (True, T1))
      else Inr (False, T\<lparr>tr_layout := L'\<rparr>)) t"
proof (cases changed)
  case True
  have "T\<lparr>tr_layout := L', tr_maximized := False\<rparr>
      = T\<lparr>tr_layout := L', tr_maximized := False, tr_selection := tr_selection T, tr_session := None\<rparr>"
    using none by (cases T) simp
  moreover have "answers (and_then (resize_panes rt (T\<lparr>tr_layout := L', tr_maximized := False,
      tr_selection := tr_selection T, tr_session := None\<rparr>)) (\<lambda>T1. Inr (True, T1))) t"
    by (rule relaid_answers [OF rt inv L']) (simp_all add: unweighted_panes [OF e] unweighted_selection [OF inv e])
  ultimately show ?thesis using True by simp
next
  case False
  then show ?thesis using inv keep by (simp add: answers_unchanged)
qed

lemma resize_selected_answers:
  assumes rt: "runtime_obliges rt" and inv: "tray_inv T t"
    and delta: "INT32_MIN \<le> delta" "delta + 100 \<le> INT32_MAX"
  shows "answers (resize_selected_panes rt delta T) t"
proof -
  let ?T0 = "T\<lparr>tr_session := None\<rparr>"
  note inv0 = tray_inv_no_session [OF inv]
  from selection_or_focused_ok [OF inv0] obtain sel where
    s: "selection_or_focused_pane ?T0 = Inr sel" "selection_ok t sel" by blast
  from resize_pane_selection_shape [OF tray_invD(1) [OF inv0] s(2) delta] obtain changed L' t' where
    r: "resize_pane_selection (tr_layout ?T0) sel delta = Inr (changed, L')" "layout_inv L' t'"
    "unweighted t' = unweighted t" "\<not> changed \<longrightarrow> L' = tr_layout ?T0" by blast
  show ?thesis using reweighed_answers [OF rt inv0 _ r(2-4)] s(1) r(1)
    by (simp add: resize_selected_panes_def Let_def)
qed

lemma equalize_selected_answers:
  assumes rt: "runtime_obliges rt" and inv: "tray_inv T t"
  shows "answers (equalize_selected_panes rt T) t"
proof -
  let ?T0 = "T\<lparr>tr_session := None\<rparr>"
  note inv0 = tray_inv_no_session [OF inv]
  from selection_or_focused_ok [OF inv0] obtain sel where
    s: "selection_or_focused_pane ?T0 = Inr sel" "selection_ok t sel"
    "\<forall>s. tr_selection ?T0 = Some s \<longrightarrow> sel = s" by blast
  have "\<exists>changed L' t'. (case tr_selection ?T0 of
        Some sel \<Rightarrow> equalize_pane_selection (tr_layout ?T0) sel
      | None \<Rightarrow> and_then (selection_or_focused_pane ?T0) (equalize_pane_selection_level (tr_layout ?T0)))
        = Inr (changed, L') \<and> layout_inv L' t' \<and> unweighted t' = unweighted t \<and> (\<not> changed \<longrightarrow> L' = tr_layout ?T0)"
  proof (cases "tr_selection ?T0")
    case None
    then show ?thesis using equalize_level_shape [OF tray_invD(1) [OF inv0] s(2)] s(1) by simp
  next
    case (Some s')
    then show ?thesis using equalized_selection [OF tray_invD(1) [OF inv0] s(2)] s(3) by simp
  qed
  then obtain changed L' t' where
    r: "(case tr_selection ?T0 of
        Some sel \<Rightarrow> equalize_pane_selection (tr_layout ?T0) sel
      | None \<Rightarrow> and_then (selection_or_focused_pane ?T0) (equalize_pane_selection_level (tr_layout ?T0)))
        = Inr (changed, L')"
    "layout_inv L' t'" "unweighted t' = unweighted t" "\<not> changed \<longrightarrow> L' = tr_layout ?T0" by blast
  show ?thesis using reweighed_answers [OF rt inv0 _ r(2-4)]
    unfolding equalize_selected_panes_def Let_def r(1) by simp
qed

lemma rotate_selected_answers:
  assumes rt: "runtime_obliges rt" and inv: "tray_inv T t" and room: "tray_room T"
  shows "answers (rotate_selected_pane_level rt T) t"
proof -
  let ?T0 = "T\<lparr>tr_session := None\<rparr>"
  note inv0 = tray_inv_no_session [OF inv]
  from selection_or_focused_ok [OF inv0] obtain sel where
    s: "selection_or_focused_pane ?T0 = Inr sel" "selection_ok t sel" by blast
  have "int (ly_next (tr_layout ?T0)) < UINT64_MAX" using room by (simp add: tray_room_def)
  from rotated_selection [OF tray_invD(1) [OF inv0] s(2) this] obtain changed sel' L' t' where
    r: "rotate_pane_selection_level (tr_layout ?T0) sel = Inr (changed, sel', L')" "layout_inv L' t'"
    "selection_ok t' sel'" "tree_leaves t' = tree_leaves t" "\<not> changed \<longrightarrow> sel' = sel \<and> L' = tr_layout ?T0" by blast
  show ?thesis
  proof (cases changed)
    case True
    have same: "mset (tree_panes t') = mset (tree_panes t)" using r(4) by (simp add: tree_panes_def)
    have "selection_ok t' x" if "map_option (\<lambda>_. sel') (tr_selection ?T0) = Some x" for x
      using that r(3) by auto
    from relaid_answers [OF rt inv0 r(2) same this, where b = True]
    have "answers (and_then (resize_panes rt (?T0\<lparr>tr_layout := L', tr_maximized := False,
        tr_selection := map_option (\<lambda>_. sel') (tr_selection ?T0), tr_session := None\<rparr>)) (\<lambda>T1. Inr (True, T1))) t" .
    moreover have "rotate_selected_pane_level rt T = and_then (resize_panes rt (?T0\<lparr>tr_layout := L', tr_maximized := False,
        tr_selection := map_option (\<lambda>_. sel') (tr_selection ?T0), tr_session := None\<rparr>)) (\<lambda>T1. Inr (True, T1))"
      using s(1) r(1) True by (cases T) (simp add: rotate_selected_pane_level_def Let_def)
    ultimately show ?thesis by (simp only:)
  next
    case False
    then show ?thesis using s(1) r(1,5) inv0 by (simp add: rotate_selected_pane_level_def Let_def answers_unchanged)
  qed
qed

section \<open>Interactive moves\<close>

lemma session_begin_ok: "selection_ok t source \<Longrightarrow> session_ok t (session_begin source)"
  by (simp add: session_begin_def session_ok_def)

lemma toggle_move_answers:
  assumes rt: "runtime_obliges rt" and inv: "tray_inv T t"
  shows "answers (toggle_pane_move rt T) t"
proof (cases "tr_session T = None")
  case False
  then show ?thesis using answers_unchanged [OF tray_inv_no_session [OF inv]] by (simp add: toggle_pane_move_def)
next
  case True
  show ?thesis
  proof (cases "length (tr_panes T) = 1")
    case one: True
    then show ?thesis using True inv by (simp add: toggle_pane_move_def answers_unchanged)
  next
    case False
    from selection_or_focused_ok [OF inv] obtain sel where
      s: "selection_or_focused_pane T = Inr sel" "selection_ok t sel" by blast
    have "tray_inv (T\<lparr>tr_selection := None\<rparr>) t" using inv by (auto simp: tray_inv_def)
    from leave_maximized_inv [OF rt this] obtain ps where
      m: "leave_maximized rt (T\<lparr>tr_selection := None\<rparr>) = Inr (T\<lparr>tr_selection := None, tr_maximized := False, tr_panes := ps\<rparr>)"
      "tray_inv (T\<lparr>tr_selection := None, tr_maximized := False, tr_panes := ps\<rparr>) t" by blast
    have "tray_inv (T\<lparr>tr_selection := None, tr_maximized := False, tr_panes := ps,
        tr_session := Some (session_begin sel)\<rparr>) t"
      using m(2) session_begin_ok [OF s(2)] by (simp add: tray_inv_def)
    then show ?thesis using True False s(1) m(1) by (simp add: toggle_pane_move_def answers_unchanged)
  qed
qed

lemma on_session_answers:
  assumes inv: "tray_inv T t"
    and f: "\<And>S. tr_session T = Some S \<Longrightarrow> \<exists>b S'. f S = Inr (b, S') \<and> session_ok t S'"
  shows "answers (on_session f T) t"
proof (cases "tr_session T")
  case None
  then show ?thesis using inv by (simp add: on_session_def answers_unchanged)
next
  case (Some S)
  from f [OF Some] obtain b S' where S': "f S = Inr (b, S')" "session_ok t S'" by blast
  have "tray_inv (T\<lparr>tr_session := Some S'\<rparr>) t" using inv Some S'(2) by (auto simp: tray_inv_def)
  then show ?thesis using Some S'(1) by (simp add: on_session_def answers_unchanged)
qed

lemma session_requests_answers:
  assumes inv: "tray_inv T t"
  shows "answers (step_pane_move_target direction T) t" "answers (promote_pane_move_target T) t"
    "answers (descend_pane_move_target T) t" "answers (toggle_pane_move_swap T) t"
    "answers (set_pane_move_drop_direction side T) t" "answers (on_session (\<lambda>S. Inr (lock_target S)) T) t"
proof -
  note I = tray_invD [OF inv]
  from geometry_tiles [OF I(1,6)] obtain G where
    G: "calculate_pane_geometry (tr_layout T) (screen_region (tr_size T)) = Inr G"
    "set (tree_ids t) \<subseteq> dom (smap_find (node_regions G))" by blast
  note tot = session_targets_total [OF I(1) _ G(2)] and loc = session_local_steps
  show "answers (step_pane_move_target direction T) t"
    unfolding step_pane_move_target_def using tot(1) [OF I(9)] G(1)
    by (intro on_session_answers [OF inv]) (simp, blast)
  show "answers (promote_pane_move_target T) t"
    unfolding promote_pane_move_target_def using tot(2) [OF I(9)] by (intro on_session_answers [OF inv]) blast
  show "answers (descend_pane_move_target T) t"
    unfolding descend_pane_move_target_def using tot(3) [OF I(9)] by (intro on_session_answers [OF inv]) blast
  show "answers (toggle_pane_move_swap T) t"
    unfolding toggle_pane_move_swap_def using loc(1) [OF I(9)] 
    by (intro on_session_answers [OF inv]) (metis surj_pair)
  show "answers (set_pane_move_drop_direction side T) t"
    unfolding set_pane_move_drop_direction_def using loc(3) [OF I(9)]
    by (intro on_session_answers [OF inv]) (metis surj_pair)
  show "answers (on_session (\<lambda>S. Inr (lock_target S)) T) t"
    using loc(2) [OF I(9)] by (intro on_session_answers [OF inv]) (metis surj_pair)
qed

text \<open>Confirming commits what the preview shows, or throws for a swap out of normal form.\<close>

lemma advance_answers:
  assumes rt: "runtime_obliges rt" and inv: "tray_inv T t" and room: "tray_room T"
  shows "answers (advance_pane_move rt T) t
    \<or> (\<not> alternates t \<and> advance_pane_move rt T = Inl (Out_of_range ''map::at''))"
proof (cases "tr_session T")
  case None
  then show ?thesis using inv by (simp add: advance_pane_move_def answers_unchanged)
next
  case (Some S)
  note I = tray_invD [OF inv]
  show ?thesis
  proof (cases "ms_operation S = Operation_MOVE \<and> ms_stage S = Stage_TARGET")
    case True
    then show ?thesis using Some session_requests_answers(6) [OF inv] by (simp add: advance_pane_move_def)
  next
    case False
    have room': "int (ly_next (tr_layout T)) + 1 < UINT64_MAX" using room by (simp add: tray_room_def)
    from previewed_layout [OF I(1) I(9) [OF Some] room'] show ?thesis
    proof (elim disjE exE conjE)
      assume "\<not> alternates t" "session_preview (tr_layout T) S = Inl (Out_of_range ''map::at'')"
      then show ?thesis using Some by (simp add: advance_pane_move_def session_confirm_def if_not_P [OF False])
    next
      fix r assume r: "session_preview (tr_layout T) S = Inr r"
        "\<forall>L'. r = Some L' \<longrightarrow> (\<exists>t'. layout_inv L' t' \<and> mset (tree_leaves t') = mset (tree_leaves t))"
      show ?thesis
      proof (cases r)
        case None
        then show ?thesis using Some r(1) inv
          by (simp add: advance_pane_move_def session_confirm_def answers_unchanged if_not_P [OF False])
      next
        case L': (Some L')
        with r(2) obtain t' where t': "layout_inv L' t'" "mset (tree_leaves t') = mset (tree_leaves t)" by blast
        have "without_interaction (T\<lparr>tr_layout := L'\<rparr>)
            = T\<lparr>tr_layout := L', tr_maximized := False, tr_selection := None, tr_session := None\<rparr>"
          by (simp add: without_interaction_def)
        then show ?thesis
          using relaid_answers [OF rt inv t'(1) mset_leaves_panes [OF t'(2)], of None True] Some r(1) L'
          by (simp add: advance_pane_move_def session_confirm_def if_not_P [OF False])
      qed
    qed
  qed
qed

end
