(* ===== verification/Tray_Reachable.thy ===== *)
theory Tray_Reachable
  imports Tray_Requests
begin

text \<open>
  The tray as a state machine: its public methods are the steps, and the invariant holds in
  every state they reach.
\<close>

section \<open>Input, output and sizes\<close>

lemma tray_inv_put:
  assumes "tray_inv T t" "smap_find (tr_panes T) q = Some p"
  shows "tray_inv (T\<lparr>tr_panes := smap_put q p' (tr_panes T)\<rparr>) t"
proof -
  have "q \<in> fst ` set (tr_panes T)" using assms smap_find_key [OF tray_invD(3) [OF assms(1)]] by auto
  from tray_inv_panes [OF assms(1) smap_put_present [OF tray_invD(3) [OF assms(1)] this]] show ?thesis .
qed

lemma on_pane_inv:
  assumes "tray_inv T t" "on_pane f q T = Inr T'"
  shows "tray_inv T' t"
  using assms tray_inv_put by (auto simp: on_pane_def tray_pane_def result_simps)

lemma tray_read_output_inv:
  assumes "tray_inv T t" "tray_read_output rt q T = Inr (output, T')"
  shows "tray_inv T' t"
  using assms tray_inv_put by (auto simp: tray_read_output_def tray_pane_def result_simps split: prod.splits)

lemma sized_overlay: "sized_to_layout (T\<lparr>tr_overlay := x\<rparr>) t = sized_to_layout T t"
  by (simp add: sized_to_layout_def)

lemma tray_resize_inv:
  assumes rt: "runtime_obliges rt" and inv: "tray_inv T t" and fits: "screen_fits sz"
    and overlay: "tr_overlay T = None \<or> usable_size sz \<or> (\<exists>T'. tray_resize rt sz T = Inr T')"
  shows "\<exists>T'. tray_resize rt sz T = Inr T' \<and> tray_inv T' t \<and> tr_size T' = sz
    \<and> (pc_estimate (tr_config T) \<longrightarrow> sized_to_layout T' t)"
proof -
  have "tray_inv (T\<lparr>tr_size := sz\<rparr>) t" using inv fits by (simp add: tray_inv_def)
  from resize_panes_inv [OF rt this] obtain ps where
    ps: "resize_panes rt (T\<lparr>tr_size := sz\<rparr>) = Inr (T\<lparr>tr_size := sz, tr_panes := ps\<rparr>)"
    "tray_inv (T\<lparr>tr_size := sz, tr_panes := ps\<rparr>) t"
    "pc_estimate (tr_config T) \<longrightarrow> sized_to_layout (T\<lparr>tr_size := sz, tr_panes := ps\<rparr>) t" by auto
  show ?thesis
  proof (cases "tr_overlay T")
    case None
    then show ?thesis using ps by (simp add: tray_resize_def)
  next
    case (Some overlay)
    have "\<exists>overlay'. rt_overlay_resize rt sz overlay = Inr overlay'"
      using overlay
    proof (elim disjE exE)
      assume "usable_size sz"
      then show ?thesis using rt unfolding runtime_obliges_def by blast
    next
      fix T' assume "tray_resize rt sz T = Inr T'"
      then show ?thesis using ps(1) Some by (auto simp: tray_resize_def result_simps)
    qed (simp add: Some)
    then obtain overlay' where "rt_overlay_resize rt sz overlay = Inr overlay'" by blast
    then have "tray_resize rt sz T = Inr (T\<lparr>tr_size := sz, tr_panes := ps, tr_overlay := Some overlay'\<rparr>)"
      using ps(1) Some by (simp add: tray_resize_def)
    moreover have "tray_inv (T\<lparr>tr_size := sz, tr_panes := ps, tr_overlay := Some overlay'\<rparr>) t"
      using ps(2) by (simp add: tray_inv_def)
    moreover have "pc_estimate (tr_config T) \<longrightarrow>
        sized_to_layout (T\<lparr>tr_size := sz, tr_panes := ps, tr_overlay := Some overlay'\<rparr>) t"
      using ps(3) by (simp only: sized_overlay)
    ultimately show ?thesis by simp
  qed
qed

lemma focus_direction_answers:
  assumes rt: "runtime_obliges rt" and inv: "tray_inv T t"
  shows "answers (focus_pane_direction rt direction T) t"
proof -
  note I = tray_invD [OF inv]
  from geometry_tiles [OF I(1,6)] obtain G where
    G: "calculate_pane_geometry (tr_layout T) (screen_region (tr_size T)) = Inr G"
    "dom (smap_find (node_regions G)) = set (tree_ids t)" by blast
  from focused_node [OF inv] obtain n where
    n: "pane_node (tr_layout T) (tr_focused T) = Inr n" "n \<in> set (tree_ids t)" by blast
  have regions: "fst ` set (tree_leaves t) \<subseteq> dom (smap_find (node_regions G))" using G(2) leaf_ids by simp
  from n(2) G(2) obtain region where "smap_find (node_regions G) n = Some region" by blast
  from nearest_pane [OF I(1) regions this, of direction] obtain best where
    b: "find_directional_pane (tr_layout T) G n direction = Inr (map_option fst best)"
    "best_among (candidate_score G n region direction) (map fst (tree_leaves t)) best" by blast
  show ?thesis
  proof (cases best)
    case None
    then show ?thesis using G(1) n(1) b(1) inv by (simp add: focus_pane_direction_def answers_unchanged)
  next
    case (Some e)
    obtain m s where e: "e = (m, s)" by fastforce
    with b(2) Some have "\<exists>ms rest. map fst (tree_leaves t) = ms @ m # rest" by auto
    then have "m \<in> set (map fst (tree_leaves t))" by (metis in_set_conv_decomp)
    then obtain q where q: "(m, q) \<in> set (tree_leaves t)" by auto
    from focus_pane_inv [OF rt inv] obtain b' T' where "focus_pane rt q T = Inr (b', T')" "tray_inv T' t" by blast
    then show ?thesis using G(1) n(1) b(1) Some e pane_at_eq [OF I(1) q]
      by (simp add: focus_pane_direction_def answers_unchanged)
  qed
qed

section \<open>The state machine\<close>

inductive tray_step :: "('c, 's, 'o) pane_runtime \<Rightarrow> ('c, 's, 'o) tray \<Rightarrow> ('c, 's, 'o) tray \<Rightarrow> bool"
  for rt :: "('c, 's, 'o) pane_runtime" where
  write_step: "tray_write_input rt bytes T = Inr T' \<Longrightarrow> tray_step rt T T'"
| read_step: "tray_read_output rt q T = Inr (output, T') \<Longrightarrow> tray_step rt T T'"
| resize_step: "tray_resize rt sz T = Inr T' \<Longrightarrow> screen_fits sz \<Longrightarrow> tray_step rt T T'"
| viewport_step: "resize_pane_viewport rt q sz T = Inr (b, T') \<Longrightarrow> tray_step rt T T'"
| reap_step: "reap_exited_panes rt T = Inr (update, T') \<Longrightarrow> tray_step rt T T'"
| split_step: "split_focused_pane rt axis ins T = Inr (q, T') \<Longrightarrow> tray_step rt T T'"
| focus_step: "focus_pane rt q T = Inr (b, T') \<Longrightarrow> tray_step rt T T'"
| focus_direction_step: "focus_pane_direction rt d T = Inr (b, T') \<Longrightarrow> tray_step rt T T'"
| close_step: "close_focused_pane rt T = Inr (b, T') \<Longrightarrow> tray_step rt T T'"
| maximize_step: "toggle_focused_pane_maximized rt T = Inr (b, T') \<Longrightarrow> tray_step rt T T'"
| select_step: "toggle_pane_selection rt T = Inr (b, T') \<Longrightarrow> tray_step rt T T'"
| step_selection_step: "step_pane_selection d T = Inr (b, T') \<Longrightarrow> tray_step rt T T'"
| promote_selection_step: "promote_pane_selection T = Inr (b, T') \<Longrightarrow> tray_step rt T T'"
| descend_selection_step: "descend_pane_selection T = Inr (b, T') \<Longrightarrow> tray_step rt T T'"
| grow_step: "resize_selected_panes rt delta T = Inr (b, T') \<Longrightarrow> INT32_MIN \<le> delta \<Longrightarrow>
    delta + 100 \<le> INT32_MAX \<Longrightarrow> tray_step rt T T'"
| equalize_step: "equalize_selected_panes rt T = Inr (b, T') \<Longrightarrow> tray_step rt T T'"
| rotate_step: "rotate_selected_pane_level rt T = Inr (b, T') \<Longrightarrow> tray_step rt T T'"
| move_step: "toggle_pane_move rt T = Inr (b, T') \<Longrightarrow> tray_step rt T T'"
| step_target_step: "step_pane_move_target d T = Inr (b, T') \<Longrightarrow> tray_step rt T T'"
| promote_target_step: "promote_pane_move_target T = Inr (b, T') \<Longrightarrow> tray_step rt T T'"
| descend_target_step: "descend_pane_move_target T = Inr (b, T') \<Longrightarrow> tray_step rt T T'"
| swap_step: "toggle_pane_move_swap T = Inr (b, T') \<Longrightarrow> tray_step rt T T'"
| drop_step: "set_pane_move_drop_direction side T = Inr (b, T') \<Longrightarrow> tray_step rt T T'"
| advance_step: "advance_pane_move rt T = Inr (b, T') \<Longrightarrow> tray_step rt T T'"
| overlay_step: "set_worktree_management_overlay overlay T = Inr T' \<Longrightarrow> tray_step rt T T'"
| no_overlay_step: "tray_step rt T (clear_worktree_management_overlay T)"

lemma answersD: "answers r t \<Longrightarrow> r = Inr (b, T') \<Longrightarrow> \<exists>t'. tray_inv T' t'"
  by (auto simp: answers_def)

lemma split_starts:
  "split_focused_pane rt axis ins T = Inr r \<Longrightarrow> \<exists>p. pane_start rt ((tr_config T)\<lparr>pc_initial_size := tr_size T\<rparr>) = Inr p"
  by (auto simp: split_focused_pane_def allocate_pane_id_def result_simps split: prod.splits)

lemma start_starts: "tray_start rt i config = Inr T \<Longrightarrow> \<exists>p. pane_start rt config = Inr p"
  by (auto simp: tray_start_def result_simps)

lemma tray_step_inv:
  assumes rt: "runtime_obliges rt" and inv: "tray_inv T t" and room: "tray_room T" and st: "tray_step rt T T'"
  shows "\<exists>t'. tray_inv T' t'"
  using st
proof (cases rule: tray_step.cases)
  case (write_step bytes)
  then show ?thesis using on_pane_inv [OF inv] by (auto simp: tray_write_input_def)
next
  case (read_step q data)
  then show ?thesis using tray_read_output_inv [OF inv] by blast
next
  case (resize_step sz)
  then have "tr_overlay T = None \<or> usable_size sz \<or> (\<exists>T'. tray_resize rt sz T = Inr T')" by blast
  from tray_resize_inv [OF rt inv resize_step(2) this] resize_step(1) show ?thesis by auto
next
  case (viewport_step q sz b)
  then show ?thesis using inv on_pane_inv [OF inv]
    by (auto simp: resize_pane_viewport_def result_simps split: if_splits)
next
  case (reap_step update)
  then show ?thesis using reap_exited_panes_inv [OF rt inv] by auto
next
  case (split_step axis ins q)
  from split_starts [OF this] obtain p where
    "pane_start rt ((tr_config T)\<lparr>pc_initial_size := tr_size T\<rparr>) = Inr p" by blast
  from split_focused_pane_inv [OF rt inv room this, of axis ins] split_step show ?thesis by auto
next
  case (focus_step q b)
  then show ?thesis using focus_pane_inv [OF rt inv, of q] by auto
next
  case (close_step b)
  then show ?thesis using close_focused_pane_inv [OF rt inv] by auto
next
  case (advance_step b)
  then show ?thesis using advance_answers [OF rt inv room] by (auto simp: answers_def)
next
  case (overlay_step overlay)
  then show ?thesis using inv by (auto simp: set_worktree_management_overlay_def result_simps tray_inv_def)
next
  case no_overlay_step
  then show ?thesis using inv by (auto simp: clear_worktree_management_overlay_def tray_inv_def)
qed (blast intro: answersD [OF focus_direction_answers [OF rt inv]] answersD [OF toggle_maximized_answers [OF rt inv]]
    answersD [OF toggle_selection_answers [OF rt inv]] answersD [OF step_selection_answers [OF inv]]
    answersD [OF promote_selection_answers [OF inv]] answersD [OF descend_selection_answers [OF inv]]
    answersD [OF resize_selected_answers [OF rt inv]] answersD [OF equalize_selected_answers [OF rt inv]]
    answersD [OF rotate_selected_answers [OF rt inv room]] answersD [OF toggle_move_answers [OF rt inv]]
    answersD [OF session_requests_answers(1) [OF inv]] answersD [OF session_requests_answers(2) [OF inv]]
    answersD [OF session_requests_answers(3) [OF inv]] answersD [OF session_requests_answers(4) [OF inv]]
    answersD [OF session_requests_answers(5) [OF inv]])+

inductive tray_reachable :: "('c, 's, 'o) pane_runtime \<Rightarrow> tray_id \<Rightarrow> pane_config \<Rightarrow> ('c, 's, 'o) tray \<Rightarrow> bool"
  for rt :: "('c, 's, 'o) pane_runtime" and i :: tray_id and config :: pane_config where
  started: "tray_start rt i config = Inr T \<Longrightarrow> tray_reachable rt i config T"
| stepped: "tray_reachable rt i config T \<Longrightarrow> tray_room T \<Longrightarrow> tray_step rt T T' \<Longrightarrow> tray_reachable rt i config T'"

lemma tray_reachable_inv:
  assumes rt: "runtime_obliges rt" and fits: "screen_fits (pc_initial_size config)"
    and reach: "tray_reachable rt i config T"
  shows "\<exists>t. tray_inv T t"
  using reach
proof (induction rule: tray_reachable.induct)
  case (started T)
  from start_starts [OF this] obtain p where "pane_start rt config = Inr p" by blast
  from tray_start_inv [OF this fits, of i] started show ?case by auto
next
  case (stepped T T')
  then show ?case using tray_step_inv [OF rt] by blast
qed

section \<open>Properties\<close>

text \<open>
  C12: In every tray a sequence of requests reaches, the layout represents a tree whose panes
  are exactly the panes the tray holds, the focused pane is one of them, fresh ids are above
  all used ones, a selection or an interactive move refers to that tree, there is never both,
  and a maximised tray has several panes and neither.
\<close>

lemma reachable_tray_consistent:
  assumes rt: "runtime_obliges rt" and fits: "screen_fits (pc_initial_size config)"
    and reach: "tray_reachable rt i config T"
  shows "\<exists>t. layout_inv (tr_layout T) t \<and> map fst (tr_panes T) = sorted_list_of_set (set (tree_panes t))
     \<and> tr_focused T \<in> set (tree_panes t)
     \<and> (\<forall>q \<in> set (tree_panes t). q < tr_next_pane T)
     \<and> (\<forall>sel. tr_selection T = Some sel \<longrightarrow> selection_ok t sel)
     \<and> (\<forall>S. tr_session T = Some S \<longrightarrow> session_ok t S)
     \<and> (tr_selection T = None \<or> tr_session T = None)
     \<and> (tr_maximized T \<longrightarrow> tr_selection T = None \<and> tr_session T = None \<and> 1 < length (tree_panes t))"
proof -
  from tray_reachable_inv [OF assms] obtain t where inv: "tray_inv T t" by blast
  have "sorted_wrt (<) (map fst (tr_panes T))" using tray_invD(3) [OF inv] by (simp add: smap_ok_def)
  then have "map fst (tr_panes T) = sorted_list_of_set (set (map fst (tr_panes T)))"
    by (metis sorted_list_of_set.idem_if_sorted_distinct strict_sorted_iff)
  then have "map fst (tr_panes T) = sorted_list_of_set (set (tree_panes t))" using tray_invD(4) [OF inv] by simp
  with inv show ?thesis by (auto simp: tray_inv_def)
qed

text \<open>
  C13: On a tray that satisfies the invariant every interactive request is answered without an
  error and leaves a tray that satisfies it with the same panes; the one exception is
  confirming a swap in a layout out of normal form, which throws.
\<close>

lemma interactive_requests_answered:
  assumes rt: "runtime_obliges rt" and inv: "tray_inv T t" and room: "tray_room T"
    and delta: "INT32_MIN \<le> delta" "delta + 100 \<le> INT32_MAX"
  shows "answers (focus_pane_direction rt d T) t \<and> answers (toggle_focused_pane_maximized rt T) t
     \<and> answers (toggle_pane_selection rt T) t \<and> answers (step_pane_selection d T) t
     \<and> answers (promote_pane_selection T) t \<and> answers (descend_pane_selection T) t
     \<and> answers (resize_selected_panes rt delta T) t \<and> answers (equalize_selected_panes rt T) t
     \<and> answers (rotate_selected_pane_level rt T) t \<and> answers (toggle_pane_move rt T) t
     \<and> answers (step_pane_move_target d T) t \<and> answers (promote_pane_move_target T) t
     \<and> answers (descend_pane_move_target T) t \<and> answers (toggle_pane_move_swap T) t
     \<and> answers (set_pane_move_drop_direction side T) t
     \<and> (answers (advance_pane_move rt T) t
        \<or> (\<not> alternates t \<and> advance_pane_move rt T = Inl (Out_of_range ''map::at'')))"
  using focus_direction_answers [OF rt inv] toggle_maximized_answers [OF rt inv] toggle_selection_answers [OF rt inv]
    step_selection_answers [OF inv] promote_selection_answers [OF inv] descend_selection_answers [OF inv]
    resize_selected_answers [OF rt inv delta] equalize_selected_answers [OF rt inv]
    rotate_selected_answers [OF rt inv room] toggle_move_answers [OF rt inv] session_requests_answers [OF inv]
    advance_answers [OF rt inv room]
  by blast

lemma split_focused_pane_correct:
  assumes rt: "runtime_obliges rt" and inv: "tray_inv T t" and room: "tray_room T"
    and usable: "usable_size (tr_size T)" and cmd: "pc_command (tr_config T) \<noteq> []"
  shows "\<exists>T' t'. split_focused_pane rt axis ins T = Inr (tr_next_pane T, T') \<and> tray_inv T' t'
    \<and> tree_panes t' = insert_beside ins (tr_focused T) (tr_next_pane T) (tree_panes t)
    \<and> tr_focused T' = tr_next_pane T \<and> (alternates t \<longrightarrow> alternates t')
    \<and> (pc_estimate (tr_config T) \<longrightarrow> sized_to_layout T' t')"
proof -
  from pane_start_total [OF rt, of "(tr_config T)\<lparr>pc_initial_size := tr_size T\<rparr>"] usable cmd obtain p where
    "pane_start rt ((tr_config T)\<lparr>pc_initial_size := tr_size T\<rparr>) = Inr p" by auto
  from split_focused_pane_inv [OF rt inv room this] show ?thesis .
qed

lemma close_focused_pane_correct:
  assumes rt: "runtime_obliges rt" and inv: "tray_inv T t"
  shows "\<exists>T' t'. close_focused_pane rt T = Inr (1 < length (tree_panes t), T') \<and> tray_inv T' t'
    \<and> (alternates t \<longrightarrow> alternates t')
    \<and> tree_panes t' = (if 1 < length (tree_panes t) then removeAll (tr_focused T) (tree_panes t) else tree_panes t)
    \<and> (1 < length (tree_panes t) \<and> pc_estimate (tr_config T) \<longrightarrow> sized_to_layout T' t')"
  by (rule close_focused_pane_inv [OF assms])

lemma reap_exited_panes_correct:
  assumes rt: "runtime_obliges rt" and inv: "tray_inv T t"
  shows "\<exists>update T' t'. reap_exited_panes rt T = Inr (update, T') \<and> tray_inv T' t'
    \<and> (alternates t \<longrightarrow> alternates t')
    \<and> (eu_changed update \<longleftrightarrow> exited_panes rt T \<noteq> [])
    \<and> (eu_status update \<noteq> None \<longleftrightarrow> fst ` set (exited_panes rt T) = set (tree_panes t))
    \<and> tree_panes t' = (if eu_status update = None
         then filter (\<lambda>q. q \<notin> fst ` set (exited_panes rt T)) (tree_panes t) else tree_panes t)"
  by (rule reap_exited_panes_inv [OF assms])

lemma tray_resize_sizes_panes:
  assumes rt: "runtime_obliges rt" and inv: "tray_inv T t" and fits: "screen_fits sz"
    and overlay: "tr_overlay T = None \<or> usable_size sz" and estimate: "pc_estimate (tr_config T)"
  shows "\<exists>T' G. tray_resize rt sz T = Inr T' \<and> tray_inv T' t \<and> tr_size T' = sz
    \<and> calculate_pane_geometry (tr_layout T') (screen_region sz) = Inr G
    \<and> (\<forall>x \<in> set (tree_leaves t). \<exists>p region. smap_find (tr_panes T') (snd x) = Some p
         \<and> smap_find (node_regions G) (fst x) = Some region
         \<and> pn_size p = (if tr_maximized T' \<and> snd x = tr_focused T' then pty_size (screen_region sz) else pty_size region)
         \<and> 1 \<le> ts_rows (pn_size p) \<and> 1 \<le> ts_cols (pn_size p))"
proof -
  have one: "1 \<le> ts_rows (pty_size region)" "1 \<le> ts_cols (pty_size region)" for region
    by (simp_all add: pty_size_def)
  from tray_resize_inv [OF rt inv fits] overlay estimate obtain T' where
    T': "tray_resize rt sz T = Inr T'" "tray_inv T' t" "tr_size T' = sz" "sized_to_layout T' t" by blast
  from T'(4) obtain G where G: "calculate_pane_geometry (tr_layout T') (screen_region sz) = Inr G"
    "\<forall>x \<in> set (tree_leaves t). \<exists>p region. smap_find (tr_panes T') (snd x) = Some p
       \<and> smap_find (node_regions G) (fst x) = Some region
       \<and> pn_size p = (if tr_maximized T' \<and> snd x = tr_focused T' then pty_size (screen_region sz) else pty_size region)"
    unfolding sized_to_layout_def T'(3) by blast
  have "\<forall>x \<in> set (tree_leaves t). \<exists>p region. smap_find (tr_panes T') (snd x) = Some p
       \<and> smap_find (node_regions G) (fst x) = Some region
       \<and> pn_size p = (if tr_maximized T' \<and> snd x = tr_focused T' then pty_size (screen_region sz) else pty_size region)
       \<and> 1 \<le> ts_rows (pn_size p) \<and> 1 \<le> ts_cols (pn_size p)"
  proof
    fix x assume "x \<in> set (tree_leaves t)"
    with G(2) obtain p region where "smap_find (tr_panes T') (snd x) = Some p"
      "smap_find (node_regions G) (fst x) = Some region"
      "pn_size p = (if tr_maximized T' \<and> snd x = tr_focused T' then pty_size (screen_region sz) else pty_size region)"
      by blast
    then show "\<exists>p region. smap_find (tr_panes T') (snd x) = Some p
       \<and> smap_find (node_regions G) (fst x) = Some region
       \<and> pn_size p = (if tr_maximized T' \<and> snd x = tr_focused T' then pty_size (screen_region sz) else pty_size region)
       \<and> 1 \<le> ts_rows (pn_size p) \<and> 1 \<le> ts_cols (pn_size p)"
      using one by auto
  qed
  with T'(1-3) G(1) show ?thesis by blast
qed

section \<open>A tray of two panes\<close>

text \<open>A runtime that always obliges and whose only exited content is the one numbered 7.\<close>

definition calm_runtime :: "(nat, string, unit) pane_runtime" where
  "calm_runtime = \<lparr>rt_start = \<lambda>command directory sz. Inr (Some (length command)),
     rt_write = \<lambda>bytes c. Inr c, rt_read = \<lambda>c. Inr (None, c), rt_content_resize = \<lambda>sz c. Inr c,
     rt_exit = \<lambda>c. if c = 7 then Some 0 else None, rt_descriptor = int, rt_child = int,
     rt_screen = \<lambda>sz. Inr [], rt_ingest = \<lambda>s screen. screen @ s, rt_screen_resize = \<lambda>sz screen. Inr screen,
     rt_snapshot = \<lambda>screen. screen, rt_region_snapshot = \<lambda>origin screen. screen,
     rt_sized_snapshot = \<lambda>origin sz screen. screen, rt_overlay_resize = \<lambda>sz overlay. Inr overlay\<rparr>"

definition shell_config :: pane_config where
  "shell_config = \<lparr>pc_command = [''bash''], pc_directory = [''/'', ''home''],
     pc_initial_size = \<lparr>ts_rows = 24, ts_cols = 80\<rparr>, pc_estimate = True\<rparr>"

lemma calm_obliges: "runtime_obliges calm_runtime"
  by (simp add: runtime_obliges_def calm_runtime_def)

lemma shell_fits: "screen_fits (pc_initial_size shell_config)"
  by (simp add: shell_config_def screen_fits_def)

lemma shell_starts: "\<exists>p. pane_start calm_runtime shell_config = Inr p"
  by (rule pane_start_total [OF calm_obliges]) (simp_all add: shell_config_def usable_size_def)

lemma shell_tray:
  obtains T where "tray_start calm_runtime (Anonymous_tray 1) shell_config = Inr T" "tray_inv T (TLeaf 1 1)"
    "tr_next_pane T = 2" "tray_room T" "tr_config T = shell_config" "tr_overlay T = None"
    "tr_size T = \<lparr>ts_rows = 24, ts_cols = 80\<rparr>"
proof -
  obtain p where "pane_start calm_runtime shell_config = Inr p" using shell_starts by blast
  from tray_start_inv [OF this shell_fits, of "Anonymous_tray 1"] obtain T where
    T: "tray_start calm_runtime (Anonymous_tray 1) shell_config = Inr T" "tray_inv T (TLeaf 1 1)"
      "tr_next_pane T = 2" "tr_layout T = single 1" by blast
  have "tray_room T" using T(3,4) by (simp add: tray_room_def single_def UINT64_MAX_def)
  moreover have "tr_config T = shell_config" "tr_overlay T = None" using T(1) by (auto simp: tray_start_def result_simps)
  moreover from this(1) have "tr_size T = \<lparr>ts_rows = 24, ts_cols = 80\<rparr>"
    using T(1) by (auto simp: tray_start_def result_simps shell_config_def)
  ultimately show ?thesis using T(1-3) that by blast
qed

lemma reachable_tray_consistent_witness:
  "\<exists>T t. tray_reachable calm_runtime (Anonymous_tray 1) shell_config T \<and> layout_inv (tr_layout T) t
     \<and> tr_focused T \<in> set (tree_panes t)"
proof -
  obtain T where T: "tray_start calm_runtime (Anonymous_tray 1) shell_config = Inr T" by (rule shell_tray) blast
  then have "tray_reachable calm_runtime (Anonymous_tray 1) shell_config T" by (rule tray_reachable.started)
  with reachable_tray_consistent [OF calm_obliges shell_fits this] show ?thesis by blast
qed

lemma interactive_requests_answered_witness:
  "\<exists>T. tray_start calm_runtime (Anonymous_tray 1) shell_config = Inr T
     \<and> answers (resize_selected_panes calm_runtime 5 T) (TLeaf 1 1)"
proof -
  obtain T where T: "tray_start calm_runtime (Anonymous_tray 1) shell_config = Inr T" "tray_inv T (TLeaf 1 1)"
    "tray_room T" by (rule shell_tray)
  have "INT32_MIN \<le> 5" "5 + 100 \<le> INT32_MAX" by (simp_all add: INT32_MIN_def INT32_MAX_def)
  from interactive_requests_answered [OF calm_obliges T(2,3) this] T(1) show ?thesis by blast
qed

lemma split_focused_pane_correct_witness:
  "\<exists>T T' t'. tray_start calm_runtime (Anonymous_tray 1) shell_config = Inr T
     \<and> split_focused_pane calm_runtime LEFT_TO_RIGHT AFTER T = Inr (2, T') \<and> tray_inv T' t' \<and> tree_panes t' = [1, 2]"
proof -
  obtain T where T: "tray_start calm_runtime (Anonymous_tray 1) shell_config = Inr T" "tray_inv T (TLeaf 1 1)"
    "tr_next_pane T = 2" "tray_room T" "tr_config T = shell_config" "tr_size T = \<lparr>ts_rows = 24, ts_cols = 80\<rparr>"
    by (rule shell_tray)
  have "usable_size (tr_size T)" "pc_command (tr_config T) \<noteq> []"
    using T(5,6) by (simp_all add: usable_size_def shell_config_def)
  note split = split_focused_pane_correct [OF calm_obliges T(2,4) this, of LEFT_TO_RIGHT AFTER]
  have "tr_focused T = 1" using tray_invD(5) [OF T(2)] by (simp add: tree_panes_def)
  moreover have "tree_panes (TLeaf 1 1) = [1]" by (simp add: tree_panes_def)
  ultimately show ?thesis
    using split T(1,3) by auto
qed

lemma close_focused_pane_correct_witness:
  "\<exists>T T' t'. tray_start calm_runtime (Anonymous_tray 1) shell_config = Inr T
     \<and> close_focused_pane calm_runtime T = Inr (False, T') \<and> tray_inv T' t' \<and> tree_panes t' = [1]"
proof -
  obtain T where T: "tray_start calm_runtime (Anonymous_tray 1) shell_config = Inr T" "tray_inv T (TLeaf 1 1)"
    by (rule shell_tray)
  have "tree_panes (TLeaf 1 1) = [1]" by (simp add: tree_panes_def)
  then show ?thesis using close_focused_pane_correct [OF calm_obliges T(2)] T(1) by auto
qed

lemma reap_exited_panes_correct_witness:
  "\<exists>T update T'. tray_start calm_runtime (Anonymous_tray 1) shell_config = Inr T
     \<and> reap_exited_panes calm_runtime T = Inr (update, T')"
proof -
  obtain T where T: "tray_start calm_runtime (Anonymous_tray 1) shell_config = Inr T" "tray_inv T (TLeaf 1 1)"
    by (rule shell_tray)
  from reap_exited_panes_correct [OF calm_obliges T(2)] T(1) show ?thesis by blast
qed

lemma tray_resize_sizes_panes_witness:
  "\<exists>T T'. tray_start calm_runtime (Anonymous_tray 1) shell_config = Inr T
     \<and> tray_resize calm_runtime \<lparr>ts_rows = 0, ts_cols = 5\<rparr> T = Inr T' \<and> tr_size T' = \<lparr>ts_rows = 0, ts_cols = 5\<rparr>
     \<and> (\<exists>p. smap_find (tr_panes T') 1 = Some p \<and> 1 \<le> ts_rows (pn_size p))"
proof -
  obtain T where T: "tray_start calm_runtime (Anonymous_tray 1) shell_config = Inr T" "tray_inv T (TLeaf 1 1)"
    "tr_config T = shell_config" "tr_overlay T = None" by (rule shell_tray)
  have fits: "screen_fits \<lparr>ts_rows = 0, ts_cols = 5\<rparr>" by (simp add: screen_fits_def)
  have "pc_estimate (tr_config T)" using T(3) by (simp add: shell_config_def)
  from tray_resize_sizes_panes [OF calm_obliges T(2) fits disjI1 [OF T(4)] this] T(1) show ?thesis by (simp, blast)
qed

end
