(* ===== verification/Tray_Render.thy ===== *)
theory Tray_Render
  imports Tray_Reachable
begin

text \<open>
  What a tray draws (the rendering functions of src/src/parent/tray/tray.cc): the panes at
  their regions, the separators between them, the borders of a selection, and the source and
  target of an interactive move or of its preview. The strings are byte for byte those of the
  code; coordinates are plain integers, within the 32 bits of the calculated geometry.
\<close>

section \<open>Separators and borders\<close>

text \<open>Moving the cursor to a cell, one-based.\<close>

definition cursor_to :: "int \<Rightarrow> int \<Rightarrow> string" where
  "cursor_to row column = csi (to_string (row + 1) @ '';'' @ to_string (column + 1) @ ''H'')"

definition hide_cursor :: string where
  "hide_cursor = csi ''?25l'' @ csi ''?7l''"

definition restore_modes :: string where
  "restore_modes = csi ''0m'' @ csi ''?7h'' @ csi ''?25l''"

definition separator_rows :: "pane_separator \<Rightarrow> string" where
  "separator_rows separator =
     (let region = sep_region separator;
          rows = max (ts_rows (rg_size region)) 0;
          columns = max (ts_cols (rg_size region)) 0;
          fill = replicate (nat columns) (CHR '' '') in
      concat (map (\<lambda>row. cursor_to (tp_row (rg_origin region) + int row) (tp_column (rg_origin region))
          @ csi ''0;48;5;240m'' @ fill) [0..<nat rows]))"

definition render_separators :: "pane_separator list \<Rightarrow> string" where
  "render_separators separators = hide_cursor @ concat (map separator_rows separators) @ restore_modes"

record colored_cells =
  cc_row :: int
  cc_column :: int
  cc_count :: int
  cc_color :: int

definition colored_cells_output :: "colored_cells \<Rightarrow> string" where
  "colored_cells_output cells =
     (if cc_count cells \<le> 0 then []
      else cursor_to (cc_row cells) (cc_column cells) @ csi (''0;48;5;'' @ to_string (cc_color cells) @ ''m'')
        @ replicate (nat (cc_count cells)) (CHR '' ''))"

definition selection_border :: "pane_region \<Rightarrow> int \<Rightarrow> string" where
  "selection_border region color =
     (let rows = max (ts_rows (rg_size region)) 0;
          columns = max (ts_cols (rg_size region)) 0;
          top = tp_row (rg_origin region);
          left = tp_column (rg_origin region) in
      if rows = 0 \<or> columns = 0 then []
      else colored_cells_output \<lparr>cc_row = top, cc_column = left, cc_count = columns, cc_color = color\<rparr>
        @ (if rows > 1 then colored_cells_output
            \<lparr>cc_row = top + rows - 1, cc_column = left, cc_count = columns, cc_color = color\<rparr> else [])
        @ concat (map (\<lambda>row. colored_cells_output
              \<lparr>cc_row = top + int row, cc_column = left, cc_count = 1, cc_color = color\<rparr>
            @ (if columns > 1 then colored_cells_output
                \<lparr>cc_row = top + int row, cc_column = left + columns - 1, cc_count = 1, cc_color = color\<rparr>
               else [])) [1..<nat rows - 1]))"

text \<open>\<open>append_selection_border(output, geometry.region(node), color)\<close>.\<close>

definition node_border :: "pane_geometry \<Rightarrow> int \<Rightarrow> node_id \<Rightarrow> string \<Rightarrow> string result" where
  "node_border G color n out = and_then (geometry_region G n) (\<lambda>region. Inr (out @ selection_border region color))"

definition SELECTED_COLOR :: int where "SELECTED_COLOR = 25"
definition ACTIVE_COLOR :: int where "ACTIVE_COLOR = 33"
definition SOURCE_COLOR :: int where "SOURCE_COLOR = 166"
definition PREVIEW_SOURCE_COLOR :: int where "PREVIEW_SOURCE_COLOR = 34"
definition TARGET_COLOR :: int where "TARGET_COLOR = 31"

definition render_selection :: "pane_geometry \<Rightarrow> pane_selection \<Rightarrow> string result" where
  "render_selection G sel =
     and_then (fold_result (node_border G SELECTED_COLOR) (filter (\<lambda>n. n \<noteq> sel_active sel) (sel_nodes sel)) hide_cursor)
       (\<lambda>out.
     and_then (node_border G ACTIVE_COLOR (sel_active sel) out) (\<lambda>out'.
     Inr (out' @ restore_modes)))"

section \<open>Interactive moves\<close>

primrec append_leaf_pane_ids :: "pane_layout \<Rightarrow> nat \<Rightarrow> node_id \<Rightarrow> pane_id list \<Rightarrow> pane_id list result" where
  "append_leaf_pane_ids L 0 = (\<lambda>n out. Inl Out_of_fuel)"
| "append_leaf_pane_ids L (Suc depth) = (\<lambda>n out.
     and_then (node L n) (\<lambda>nd. case nd_contents nd of
       Pane_leaf q \<Rightarrow> Inr (out @ [q])
     | Pane_split s \<Rightarrow> fold_result (\<lambda>c. append_leaf_pane_ids L depth (sc_node c)) (sp_children s) out))"

definition pane_id_border :: "pane_layout \<Rightarrow> pane_geometry \<Rightarrow> int \<Rightarrow> pane_id \<Rightarrow> string \<Rightarrow> string result" where
  "pane_id_border L G color q out = (case find_pane L q of
     None \<Rightarrow> Inr out
   | Some n \<Rightarrow> node_border G color n out)"

text \<open>The panes below some nodes of the original layout, bordered where they are now.\<close>

definition moved_borders :: "pane_layout \<Rightarrow> pane_layout \<Rightarrow> pane_geometry \<Rightarrow> int \<Rightarrow> node_id list \<Rightarrow>
    string \<Rightarrow> string result" where
  "moved_borders original rendered G color ns out =
     and_then (fold_result (append_leaf_pane_ids original (layout_depth_bound original)) ns []) (\<lambda>panes.
     fold_result (pane_id_border rendered G color) panes out)"

definition target_list :: "pane_move_session \<Rightarrow> node_id list" where
  "target_list S = (case ms_target S of None \<Rightarrow> [] | Some n \<Rightarrow> [n])"

definition render_move_session :: "pane_layout \<Rightarrow> pane_layout \<Rightarrow> pane_geometry \<Rightarrow> pane_move_session \<Rightarrow> bool \<Rightarrow>
    string result" where
  "render_move_session original rendered G S preview_active =
     and_then
       (if \<not> preview_active then
          and_then (fold_result (node_border G SOURCE_COLOR) (sel_nodes (ms_source S)) hide_cursor)
            (fold_result (node_border G TARGET_COLOR) (target_list S))
        else
          and_then (moved_borders original rendered G PREVIEW_SOURCE_COLOR (sel_nodes (ms_source S)) hide_cursor)
            (moved_borders original rendered G TARGET_COLOR (target_list S)))
       (\<lambda>out. Inr (out @ restore_modes))"

section \<open>The whole tray\<close>

definition render_layout_pane :: "('c, 's, 'o) pane_runtime \<Rightarrow> ('c, 's, 'o) tray \<Rightarrow> pane_layout \<Rightarrow> pane_geometry \<Rightarrow>
    bool \<Rightarrow> node_id \<Rightarrow> string \<Rightarrow> string result" where
  "render_layout_pane rt T rendered G defer_focused n out =
     and_then (pane_at rendered n) (\<lambda>q.
     if defer_focused \<and> q = tr_focused T then Inr out
     else
       and_then (geometry_region G n) (\<lambda>region.
       and_then (tray_pane T q) (\<lambda>p.
       Inr (out @ pane_preview_output rt (rg_origin region) (rg_size region) p))))"

definition render_layout :: "('c, 's, 'o) pane_runtime \<Rightarrow> terminal_position \<Rightarrow> terminal_size \<Rightarrow> bool \<Rightarrow>
    ('c, 's, 'o) tray \<Rightarrow> string result" where
  "render_layout rt origin sz restore_focused_cursor T =
     (if tr_maximized T then
        and_then (tray_pane T (tr_focused T)) (\<lambda>p.
        Inr (if restore_focused_cursor \<and> ts_rows sz > 0 \<and> ts_cols sz > 0
             then pane_redraw_output_at rt origin p else pane_preview_output rt origin sz p))
      else
        and_then (case tr_session T of None \<Rightarrow> Inr None | Some S \<Rightarrow> session_preview (tr_layout T) S) (\<lambda>move_preview.
        (let rendered = (case move_preview of None \<Rightarrow> tr_layout T | Some L \<Rightarrow> L) in
        and_then (calculate_pane_geometry rendered \<lparr>rg_origin = origin, rg_size = sz\<rparr>) (\<lambda>G.
        and_then (pane_node rendered (tr_focused T)) (\<lambda>focused_node.
        and_then (geometry_region G focused_node) (\<lambda>focused_region.
        (let visible = (ts_rows (rg_size focused_region) > 0 \<and> ts_cols (rg_size focused_region) > 0);
             interaction_active = (tr_selection T \<noteq> None \<or> tr_session T \<noteq> None);
             defer_focused = (restore_focused_cursor \<and> \<not> interaction_active \<and> visible) in
        and_then (leaf_nodes rendered) (\<lambda>leaves.
        and_then (fold_result (render_layout_pane rt T rendered G defer_focused) leaves []) (\<lambda>out.
        and_then
          (case tr_session T of
             Some S \<Rightarrow> render_move_session (tr_layout T) rendered G S (move_preview \<noteq> None)
           | None \<Rightarrow> (case tr_selection T of
               Some sel \<Rightarrow> render_selection G sel
             | None \<Rightarrow>
                 if restore_focused_cursor \<and> visible then
                   and_then (tray_pane T (tr_focused T)) (\<lambda>p.
                   Inr (pane_redraw_output_at rt (rg_origin focused_region) p))
                 else Inr [])) (\<lambda>tail.
        Inr (out @ render_separators (split_separators G) @ tail)))))))))))"

definition redraw_output :: "('c, 's, 'o) pane_runtime \<Rightarrow> ('c, 's, 'o) tray \<Rightarrow> string result" where
  "redraw_output rt T =
     (if can_passthrough_output (tr_focused T) T then
        and_then (tray_pane T (tr_focused T)) (\<lambda>p. Inr (pane_redraw_output rt p))
      else
        and_then (render_layout rt \<lparr>tp_row = 0, tp_column = 0\<rparr> (tr_size T) True T) (\<lambda>out.
        Inr (csi ''0m'' @ csi ''H'' @ csi ''2J'' @ csi ''3J'' @ out)))"

definition preview_output :: "('c, 's, 'o) pane_runtime \<Rightarrow> terminal_position \<Rightarrow> terminal_size \<Rightarrow>
    ('c, 's, 'o) tray \<Rightarrow> string result" where
  "preview_output rt origin region_size T = render_layout rt origin region_size False T"

section \<open>Every tray can be drawn\<close>

lemma fold_result_total:
  "\<forall>x \<in> set xs. \<forall>s. \<exists>s'. f x s = Inr s' \<Longrightarrow> \<exists>s'. fold_result f xs s = Inr s'"
proof (induction xs arbitrary: s)
  case (Cons x xs)
  from Cons.prems obtain s1 where s1: "f x s = Inr s1" by (meson list.set_intros(1))
  obtain s2 where "fold_result f xs s1 = Inr s2" using Cons.IH [of s1] Cons.prems by (meson list.set_intros(2))
  with s1 show ?case by simp
qed simp

lemma append_leaf_pane_ids_eq:
  assumes "stored (look L) p s" "tree_height s \<le> d"
  shows "append_leaf_pane_ids L d (tid s) out = Inr (out @ tree_panes s)"
  using assms
proof (induction s arbitrary: p d out rule: ptree_induct)
  case (TLeaf n q)
  then show ?case by (cases d) (auto simp: layout_access tree_panes_def)
next
  case (TSplit n ax ks)
  then obtain d' where d: "d = Suc d'" by (cases d) auto
  have kid: "append_leaf_pane_ids L d' (tid (fst k)) out = Inr (out @ map snd (tree_leaves (fst k)))"
    if "k \<in> set ks" for k out
    using height_kid [OF that, of n ax] TSplit.prems d that TSplit.IH [OF that, of "Some n" d' out]
    by (auto simp: tree_panes_def)
  have "fold_result (\<lambda>c. append_leaf_pane_ids L d' (sc_node c)) (map kid_entry ks') out
      = Inr (out @ map snd (concat (map (\<lambda>k. tree_leaves (fst k)) ks')))"
    if "set ks' \<subseteq> set ks" for ks' out
    using that by (induction ks' arbitrary: out) (auto simp: kid)
  with TSplit.prems d show ?case by (auto simp: layout_access tree_panes_def)
qed

lemma node_border_total:
  "n \<in> dom (smap_find (node_regions G)) \<Longrightarrow> \<exists>out'. node_border G color n out = Inr out'"
  by (auto simp: node_border_def geometry_region_def)

lemma node_borders_total:
  assumes "set ns \<subseteq> dom (smap_find (node_regions G))"
  shows "\<exists>out'. fold_result (node_border G color) ns out = Inr out'"
  by (rule fold_result_total) (use assms node_border_total in blast)

lemma moved_borders_total:
  assumes rep: "represents L t" and ns: "set ns \<subseteq> set (tree_ids t)"
    and rep': "represents L' t'" and regions: "set (tree_ids t') \<subseteq> dom (smap_find (node_regions G))"
  shows "\<exists>out'. moved_borders L L' G color ns out = Inr out'"
proof -
  have "\<exists>ps'. append_leaf_pane_ids L (layout_depth_bound L) n ps = Inr ps'" if n: "n \<in> set ns" for n ps
  proof -
    from n ns have "n \<in> set (tree_ids t)" by blast
    from node_context [OF this] obtain C s where s: "t = plug C s" "tid s = n" by blast
    have "stored (look L) (ctx_parent C) s" using representsD(1) [OF rep] s by (simp add: tree_simps)
    moreover have "tree_height s \<le> layout_depth_bound L" using depth_bound [of L C s] rep s(1) by simp
    ultimately show ?thesis using append_leaf_pane_ids_eq s(2) by blast
  qed
  from fold_result_total [of ns "append_leaf_pane_ids L (layout_depth_bound L)" "[]"] this obtain ps where
    ps: "fold_result (append_leaf_pane_ids L (layout_depth_bound L)) ns [] = Inr ps" by blast
  have "\<exists>out'. pane_id_border L' G color q out = Inr out'" for q out
  proof (cases "find_pane L' q")
    case (Some n)
    from find_pane_Some_leaf [OF rep' Some] have "n \<in> dom (smap_find (node_regions G))"
      using leaf_ids [of t'] regions by force
    then show ?thesis using Some node_border_total by (simp add: pane_id_border_def)
  qed (simp add: pane_id_border_def)
  then have "\<exists>out'. fold_result (pane_id_border L' G color) ps out = Inr out'" by (intro fold_result_total) blast
  then show ?thesis using ps by (simp add: moved_borders_def)
qed

text \<open>The layout drawn: the tray's own, or the preview of its interactive move.\<close>

lemma rendered_layout:
  assumes inv: "tray_inv T t" and room: "tray_room T"
  shows "(\<not> alternates t \<and> (case tr_session T of None \<Rightarrow> Inr None | Some S \<Rightarrow> session_preview (tr_layout T) S)
        = Inl (Out_of_range ''map::at''))
    \<or> (\<exists>p L' t'. (case tr_session T of None \<Rightarrow> Inr None | Some S \<Rightarrow> session_preview (tr_layout T) S) = Inr p
        \<and> L' = (case p of None \<Rightarrow> tr_layout T | Some L \<Rightarrow> L) \<and> layout_inv L' t'
        \<and> set (tree_panes t') = set (tree_panes t) \<and> (p = None \<longrightarrow> t' = t) \<and> (p \<noteq> None \<longrightarrow> tr_session T \<noteq> None))"
proof (cases "tr_session T")
  case None
  then show ?thesis using tray_invD(1) [OF inv] by auto
next
  case (Some S)
  note I = tray_invD [OF inv]
  have room': "int (ly_next (tr_layout T)) + 1 < UINT64_MAX" using room by (simp add: tray_room_def)
  from previewed_layout [OF I(1) I(9) [OF Some] room'] show ?thesis
  proof (elim disjE exE conjE)
    assume "\<not> alternates t" "session_preview (tr_layout T) S = Inl (Out_of_range ''map::at'')"
    then show ?thesis using Some by simp
  next
    fix r assume r: "session_preview (tr_layout T) S = Inr r"
      "\<forall>L'. r = Some L' \<longrightarrow> (\<exists>t'. layout_inv L' t' \<and> mset (tree_leaves t') = mset (tree_leaves t))"
    show ?thesis
    proof (cases r)
      case None
      then show ?thesis using Some r(1) I(1) by auto
    next
      case L': (Some L')
      with r(2) obtain t' where t': "layout_inv L' t'" "mset (tree_leaves t') = mset (tree_leaves t)" by blast
      have "set (tree_panes t') = set (tree_panes t)" using mset_leaves_panes [OF t'(2)] by (metis set_mset_mset)
      then show ?thesis using Some r(1) t'(1) L' by auto
    qed
  qed
qed

lemma render_pane_total:
  assumes inv: "tray_inv T t" and L': "layout_inv L' t'" and panes: "set (tree_panes t') \<subseteq> set (tree_panes t)"
    and regions: "set (tree_ids t') \<subseteq> dom (smap_find (node_regions G))" and n: "n \<in> set (map fst (tree_leaves t'))"
  shows "\<exists>out'. render_layout_pane rt T L' G defer n out = Inr out'"
proof -
  from n obtain q where q: "(n, q) \<in> set (tree_leaves t')" by auto
  then have "q \<in> set (tree_panes t)" using panes by (force simp: tree_panes_def)
  then obtain p where "smap_find (tr_panes T) q = Some p"
    using smap_find_key tray_invD(3,4) [OF inv] by (metis option.exhaust)
  moreover have "n \<in> dom (smap_find (node_regions G))" using q leaf_ids [of t'] regions by force
  then obtain region where "smap_find (node_regions G) n = Some region" by blast
  ultimately show ?thesis using pane_at_eq [OF L' q]
    by (simp add: render_layout_pane_def geometry_region_def tray_pane_def)
qed

lemma render_selection_total:
  assumes ok: "selection_ok t sel" and regions: "set (tree_ids t) \<subseteq> dom (smap_find (node_regions G))"
  shows "\<exists>out. render_selection G sel = Inr out"
proof -
  note s = selected_nodes_in_tree [OF ok]
  have "set (filter (\<lambda>n. n \<noteq> sel_active sel) (sel_nodes sel)) \<subseteq> dom (smap_find (node_regions G))"
    using s(1) regions by auto
  from node_borders_total [OF this, of SELECTED_COLOR hide_cursor] obtain out1 where
    o1: "fold_result (node_border G SELECTED_COLOR) (filter (\<lambda>n. n \<noteq> sel_active sel) (sel_nodes sel)) hide_cursor = Inr out1"
    by blast
  have "sel_active sel \<in> dom (smap_find (node_regions G))" using s(2) regions by blast
  from node_border_total [OF this, of ACTIVE_COLOR out1] obtain out2 where
    "node_border G ACTIVE_COLOR (sel_active sel) out1 = Inr out2" by blast
  with o1 show ?thesis by (simp add: render_selection_def)
qed

lemma render_move_total:
  assumes ok: "session_ok t S" and rep: "represents L t" and rep': "represents L' t'"
    and regions: "set (tree_ids t') \<subseteq> dom (smap_find (node_regions G))" and same: "\<not> active \<longrightarrow> t' = t"
  shows "\<exists>out. render_move_session L L' G S active = Inr out"
proof -
  have src: "set (sel_nodes (ms_source S)) \<subseteq> set (tree_ids t)"
    using selected_nodes_in_tree(1) ok by (auto simp: session_ok_def)
  have tgt: "set (target_list S) \<subseteq> set (tree_ids t)"
    using ok by (auto simp: target_list_def session_ok_def target_ok_def split: option.splits)
  show ?thesis
  proof (cases active)
    case True
    obtain out1 where o1: "moved_borders L L' G PREVIEW_SOURCE_COLOR (sel_nodes (ms_source S)) hide_cursor = Inr out1"
      using moved_borders_total [OF rep src rep' regions] by blast
    obtain out2 where "moved_borders L L' G TARGET_COLOR (target_list S) out1 = Inr out2"
      using moved_borders_total [OF rep tgt rep' regions] by blast
    with o1 True show ?thesis by (simp add: render_move_session_def)
  next
    case False
    with same src tgt regions have
      "set (sel_nodes (ms_source S)) \<subseteq> dom (smap_find (node_regions G))"
      "set (target_list S) \<subseteq> dom (smap_find (node_regions G))" by blast+
    note b = node_borders_total [OF this(1), of SOURCE_COLOR hide_cursor] node_borders_total [OF this(2), of TARGET_COLOR]
    from b(1) obtain out1 where o1: "fold_result (node_border G SOURCE_COLOR) (sel_nodes (ms_source S)) hide_cursor = Inr out1"
      by blast
    from b(2) obtain out2 where "fold_result (node_border G TARGET_COLOR) (target_list S) out1 = Inr out2" by blast
    with o1 False show ?thesis by (simp add: render_move_session_def)
  qed
qed

lemma render_layout_total:
  assumes inv: "tray_inv T t" and room: "tray_room T" and fits: "region_fits \<lparr>rg_origin = origin, rg_size = sz\<rparr>"
  shows "(\<exists>out. render_layout rt origin sz restore T = Inr out)
    \<or> (\<not> alternates t \<and> tr_session T \<noteq> None \<and> render_layout rt origin sz restore T = Inl (Out_of_range ''map::at''))"
proof -
  note I = tray_invD [OF inv]
  obtain fp where fp: "smap_find (tr_panes T) (tr_focused T) = Some fp"
    using smap_find_key I(3,4,5) by (metis option.exhaust)
  then have fpane: "tray_pane T (tr_focused T) = Inr fp" by (simp add: tray_pane_def)
  show ?thesis
  proof (cases "tr_maximized T")
    case True
    then show ?thesis using fpane by (simp add: render_layout_def)
  next
    case False
    let ?preview = "case tr_session T of None \<Rightarrow> Inr None | Some S \<Rightarrow> session_preview (tr_layout T) S"
    from rendered_layout [OF inv room] show ?thesis
    proof (elim disjE exE conjE)
      assume na: "\<not> alternates t" and e: "?preview = Inl (Out_of_range ''map::at'')"
      from e have "tr_session T \<noteq> None" by (auto split: option.splits)
      then show ?thesis using False na unfolding render_layout_def if_not_P [OF False] e by simp
    next
      fix p L' t'
      assume p: "?preview = Inr p" and L': "L' = (case p of None \<Rightarrow> tr_layout T | Some L \<Rightarrow> L)"
        "layout_inv L' t'" "set (tree_panes t') = set (tree_panes t)" "p = None \<longrightarrow> t' = t" "p \<noteq> None \<longrightarrow> tr_session T \<noteq> None"
      from L'(2) have rep': "represents L' t'" by (simp add: layout_inv_def)
      from geometry_tiles [OF L'(2) fits] obtain G where
        G: "calculate_pane_geometry L' \<lparr>rg_origin = origin, rg_size = sz\<rparr> = Inr G"
        "set (tree_ids t') \<subseteq> dom (smap_find (node_regions G))" by blast
      from I(5) L'(3) have "tr_focused T \<in> set (tree_panes t')" by simp
      from pane_has_leaf [OF this] obtain n where n: "(n, tr_focused T) \<in> set (tree_leaves t')" by blast
      then have "n \<in> dom (smap_find (node_regions G))" using leaf_ids [of t'] G(2) by force
      then obtain fr where fr: "geometry_region G n = Inr fr" by (auto simp: geometry_region_def)
      let ?visible = "ts_rows (rg_size fr) > 0 \<and> ts_cols (rg_size fr) > 0"
      let ?defer = "restore \<and> \<not> (tr_selection T \<noteq> None \<or> tr_session T \<noteq> None) \<and> ?visible"
      have lv: "leaf_nodes L' = Inr (map fst (tree_leaves t'))" using rep' by (rule leaf_nodes_eq)
      have "\<exists>out. fold_result (render_layout_pane rt T L' G ?defer) (map fst (tree_leaves t')) [] = Inr out"
        by (rule fold_result_total) (use render_pane_total [OF inv L'(2) _ G(2)] L'(3) in blast)
      then obtain out where out: "fold_result (render_layout_pane rt T L' G ?defer) (map fst (tree_leaves t')) [] = Inr out"
        by blast
      let ?tail = "case tr_session T of
             Some S \<Rightarrow> render_move_session (tr_layout T) L' G S (p \<noteq> None)
           | None \<Rightarrow> (case tr_selection T of
               Some sel \<Rightarrow> render_selection G sel
             | None \<Rightarrow> if restore \<and> ?visible then
                   and_then (tray_pane T (tr_focused T)) (\<lambda>p. Inr (pane_redraw_output_at rt (rg_origin fr) p))
                 else Inr [])"
      have "\<exists>tail. ?tail = Inr tail"
      proof (cases "tr_session T")
        case (Some S)
        from render_move_total [OF I(9) [OF Some] I(2) rep' G(2), of "p \<noteq> None"] L'(4) Some show ?thesis by simp
      next
        case None
        then have "t' = t" using L'(4,5) by blast
        then show ?thesis using None fpane render_selection_total [OF I(8)] G(2) by (cases "tr_selection T") simp_all
      qed
      then obtain tail where tail: "?tail = Inr tail" by blast
      have "render_layout rt origin sz restore T = Inr (out @ render_separators (split_separators G) @ tail)"
        unfolding render_layout_def if_not_P [OF False] p and_then.simps Let_def L'(1) [symmetric] G(1)
          pane_node_eq [OF L'(2) n] fr lv out tail ..
      then show ?thesis by blast
    qed
  qed
qed

lemma redraw_total:
  assumes inv: "tray_inv T t" and room: "tray_room T"
  shows "(\<exists>out. redraw_output rt T = Inr out)
    \<or> (\<not> alternates t \<and> tr_session T \<noteq> None \<and> redraw_output rt T = Inl (Out_of_range ''map::at''))"
proof (cases "can_passthrough_output (tr_focused T) T")
  case True
  obtain fp where "smap_find (tr_panes T) (tr_focused T) = Some fp"
    using smap_find_key tray_invD(3,4,5) [OF inv] by (metis option.exhaust)
  then show ?thesis using True by (simp add: redraw_output_def tray_pane_def)
next
  case False
  have "region_fits \<lparr>rg_origin = \<lparr>tp_row = 0, tp_column = 0\<rparr>, rg_size = tr_size T\<rparr>"
    using tray_invD(6) [OF inv] by (simp add: screen_region_def)
  from render_layout_total [OF inv room this, of rt True] False show ?thesis
    by (auto simp: redraw_output_def)
qed

text \<open>
  C14: A tray in normal form that satisfies the invariant is always drawn without an error,
  with and without a selection or an interactive move.
\<close>

lemma tray_always_drawn:
  assumes inv: "tray_inv T t" and room: "tray_room T"
  shows "(\<exists>out. redraw_output rt T = Inr out)
    \<or> (\<not> alternates t \<and> tr_session T \<noteq> None \<and> redraw_output rt T = Inl (Out_of_range ''map::at''))"
  by (rule redraw_total [OF assms])

lemma tray_always_drawn_witness:
  "\<exists>T out. tray_start calm_runtime (Anonymous_tray 1) shell_config = Inr T \<and> redraw_output calm_runtime T = Inr out"
proof -
  obtain T where T: "tray_start calm_runtime (Anonymous_tray 1) shell_config = Inr T" "tray_inv T (TLeaf 1 1)"
    "tray_room T" by (rule shell_tray)
  from tray_always_drawn [OF T(2,3), of calm_runtime] T(1) show ?thesis by auto
qed

section \<open>A tray that cannot be drawn\<close>

text \<open>
  A sequence of requests: two columns, the right one split in two; the left pane is moved
  below the right column, which leaves a vertical split inside a vertical split; then a swap of
  that pane with the one above it is previewed.
\<close>

definition request :: "('a \<times> ('c, 's, 'o) tray) result \<Rightarrow> ('c, 's, 'o) tray result" where
  "request r = and_then r (\<lambda>(_, T). Inr T)"

definition guarded :: "(('c, 's, 'o) tray \<Rightarrow> ('c, 's, 'o) tray result) \<Rightarrow> ('c, 's, 'o) tray \<Rightarrow>
    ('c, 's, 'o) tray result" where
  "guarded f T = throw_if (\<not> tray_room T) (Overflow_error ''no identifiers left'') (f T)"

definition swap_after_move :: "((nat, string, unit) tray \<Rightarrow> (nat, string, unit) tray result) list" where
  "swap_after_move =
     [\<lambda>T. request (split_focused_pane calm_runtime LEFT_TO_RIGHT AFTER T),
      \<lambda>T. request (split_focused_pane calm_runtime TOP_TO_BOTTOM AFTER T),
      \<lambda>T. request (focus_pane calm_runtime 1 T),
      \<lambda>T. request (toggle_pane_move calm_runtime T),
      \<lambda>T. request (step_pane_move_target Focus_RIGHT T),
      \<lambda>T. request (promote_pane_move_target T),
      \<lambda>T. request (advance_pane_move calm_runtime T),
      \<lambda>T. request (set_pane_move_drop_direction Drop_DOWN T),
      \<lambda>T. request (advance_pane_move calm_runtime T),
      \<lambda>T. request (toggle_pane_move calm_runtime T),
      \<lambda>T. request (step_pane_move_target Focus_UP T),
      \<lambda>T. request (toggle_pane_move_swap T)]"

lemma guarded_reachable:
  "tray_reachable rt i config T \<Longrightarrow> \<forall>f \<in> set fs. \<forall>T T'. f T = Inr T' \<longrightarrow> tray_step rt T T' \<Longrightarrow>
   fold_result guarded fs T = Inr T' \<Longrightarrow> tray_reachable rt i config T'"
proof (induction fs arbitrary: T)
  case (Cons f fs)
  from Cons.prems(3) obtain T1 where g: "guarded f T = Inr T1" "fold_result guarded fs T1 = Inr T'"
    by (auto simp: and_then_Inr_iff)
  then have T1: "tray_room T" "f T = Inr T1" "fold_result guarded fs T1 = Inr T'"
    by (auto simp: guarded_def throw_if_Inr_iff)
  have "tray_step rt T T1" using Cons.prems(2) T1(2) by simp
  from Cons.IH [OF tray_reachable.stepped [OF Cons.prems(1) T1(1) this]] Cons.prems(2) T1(3) show ?case by simp
qed simp

lemma swap_after_move_steps:
  "\<forall>f \<in> set swap_after_move. \<forall>T T'. f T = Inr T' \<longrightarrow> tray_step calm_runtime T T'"
  by (auto simp: swap_after_move_def request_def result_simps intro: tray_step.intros)

text \<open>
  C15: A sequence of public requests, starting from a fresh tray and moving a pane onto a
  split of the drop axis, reaches a tray whose next redraw throws out_of_range while it
  previews a swap.
\<close>

lemma reachable_tray_cannot_be_drawn:
  "\<exists>T. tray_reachable calm_runtime (Anonymous_tray 1) shell_config T
     \<and> redraw_output calm_runtime T = Inl (Out_of_range ''map::at'')"
proof -
  have e: "case and_then (tray_start calm_runtime (Anonymous_tray 1) shell_config) (fold_result guarded swap_after_move) of
      Inl _ \<Rightarrow> False | Inr T \<Rightarrow> redraw_output calm_runtime T = Inl (Out_of_range ''map::at'')"
    by code_simp
  obtain T0 where T0: "tray_start calm_runtime (Anonymous_tray 1) shell_config = Inr T0" by (rule shell_tray)
  with e obtain T where T: "fold_result guarded swap_after_move T0 = Inr T"
    "redraw_output calm_runtime T = Inl (Out_of_range ''map::at'')"
    by (auto split: sum.splits)
  from guarded_reachable [OF tray_reachable.started [OF T0] swap_after_move_steps T(1)] T(2) show ?thesis by blast
qed

end
