(* ===== verification/Tray_Preview.thy ===== *)
theory Tray_Preview
  imports Tray_Render
begin

text \<open>
  The preview of a tray below the picker (src/src/parent/tray/tray_preview_renderer.cc,
  tray_preview_request.h and the blank region of
  src/src/parent/terminal/screen/terminal_screen.cc): one header line and the tray itself, or
  blank rows when there is none.
\<close>

record tray_preview_request =
  pr_tray :: tray_id
  pr_origin :: terminal_position
  pr_size :: terminal_size

definition preview_target :: "tray_id \<Rightarrow> string" where
  "preview_target i = (case i of
     Anonymous_tray n \<Rightarrow> ''/anonymous/'' @ to_string n
   | Worktree_tray root \<Rightarrow> path_string root)"

text \<open>\<open>string::resize\<close> with a fill character.\<close>

definition resize_string :: "nat \<Rightarrow> char \<Rightarrow> string \<Rightarrow> string" where
  "resize_string n c s = take n s @ replicate (n - length s) c"

definition header_title :: "nat \<Rightarrow> string \<Rightarrow> string" where
  "header_title width target =
     (let title = ''Preview: '' in
      resize_string width (CHR '' '')
        (if length title + length target \<le> width then title @ target
         else if width > length title + 3 then
           (let target_width = width - length title - 3 in
            title @ ''...'' @ drop (length target - target_width) target)
         else title))"

definition render_tray_preview_header :: "tray_preview_request \<Rightarrow> string" where
  "render_tray_preview_header preview =
     (let width = nat (max (ts_cols (pr_size preview)) 0) in
      if width = 0 \<or> ts_rows (pr_size preview) \<le> 0 then []
      else csi ''?25l'' @ cursor_to (tp_row (pr_origin preview)) (tp_column (pr_origin preview))
        @ csi ''48;5;236m'' @ csi ''38;5;252m''
        @ header_title width (preview_target (pr_tray preview)) @ csi ''0m'')"

definition content_preview_for :: "tray_preview_request \<Rightarrow> tray_preview_request" where
  "content_preview_for preview =
     \<lparr>pr_tray = pr_tray preview,
      pr_origin = \<lparr>tp_row = tp_row (pr_origin preview) + 1, tp_column = tp_column (pr_origin preview)\<rparr>,
      pr_size = \<lparr>ts_rows = max (ts_rows (pr_size preview) - 1) 0, ts_cols = ts_cols (pr_size preview)\<rparr>\<rparr>"

definition blank_region :: "terminal_position \<Rightarrow> terminal_size \<Rightarrow> string" where
  "blank_region origin sz =
     (let rows = max (ts_rows sz) 0;
          columns = max (ts_cols sz) 0 in
      concat (map (\<lambda>row. cursor_to (tp_row origin + int row) (tp_column origin) @ csi ''0;48;5;232m''
          @ replicate (nat columns) (CHR '' '')) [0..<nat rows]))"

definition render_blank_region_snapshot :: "terminal_position \<Rightarrow> terminal_size \<Rightarrow> string" where
  "render_blank_region_snapshot origin sz =
     csi ''?25l'' @ csi ''?7l'' @ blank_region origin sz @ csi ''0m'' @ csi ''?7h'' @ csi ''?25l''"

definition render_tray_preview :: "('c, 's, 'o) pane_runtime \<Rightarrow> tray_preview_request \<Rightarrow>
    ('c, 's, 'o) tray option \<Rightarrow> string result" where
  "render_tray_preview rt preview previewed_tray =
     (let content = content_preview_for preview in
      and_then (case previewed_tray of
          None \<Rightarrow> Inr (render_blank_region_snapshot (pr_origin content) (pr_size content))
        | Some T \<Rightarrow> preview_output rt (pr_origin content) (pr_size content) T)
        (\<lambda>body. Inr (body @ render_tray_preview_header preview)))"

section \<open>Properties\<close>

lemma length_resize_string [simp]: "length (resize_string n c s) = n"
  by (simp add: resize_string_def)

lemma resize_string_fits: "length s \<le> n \<Longrightarrow> resize_string n c s = s @ replicate (n - length s) c"
  by (simp add: resize_string_def)

text \<open>
  The title fills its line exactly. It shows the whole target when there is room, and
  otherwise its end behind three dots.
\<close>

lemma header_title_cases:
  "length (header_title width target) = width"
  "9 + length target \<le> width \<Longrightarrow> \<exists>n. header_title width target = ''Preview: '' @ target @ replicate n (CHR '' '')"
  "width < 9 + length target \<Longrightarrow> 12 < width \<Longrightarrow>
   \<exists>hidden shown. target = hidden @ shown \<and> length shown = width - 12
     \<and> header_title width target = ''Preview: ...'' @ shown"
proof -
  show "length (header_title width target) = width" by (simp add: header_title_def Let_def)
  show "\<exists>n. header_title width target = ''Preview: '' @ target @ replicate n (CHR '' '')"
    if "9 + length target \<le> width"
    using that by (simp add: header_title_def resize_string_fits)
  show "\<exists>hidden shown. target = hidden @ shown \<and> length shown = width - 12
     \<and> header_title width target = ''Preview: ...'' @ shown"
    if "width < 9 + length target" "12 < width"
  proof (intro exI conjI)
    let ?k = "length target - (width - 12)"
    show "target = take ?k target @ drop ?k target" by simp
    show "length (drop ?k target) = width - 12" using that by simp
    show "header_title width target = ''Preview: ...'' @ drop ?k target"
      using that by (simp add: header_title_def resize_string_fits)
  qed
qed

end
