(* ===== verification/Tray_Manager.thy ===== *)
theory Tray_Manager
  imports Tray_Preview
begin

text \<open>
  The tray manager (src/src/parent/tray/tray_manager.h, tray_manager.cc): nine anonymous slots,
  the trays of worktrees in path order, and the active one. Requests go to the active tray;
  switching starts a tray on demand, and destroying the active one falls back to tray one.
  The file system and the overlay a tray may show are records of functions, arguments of the
  operations that use them.
\<close>

section \<open>What the manager is given\<close>

record file_system =
  fs_weakly_canonical :: "path \<Rightarrow> path option"
  fs_is_directory :: "path \<Rightarrow> bool result"
  fs_exists :: "path \<Rightarrow> bool"

record 'o overlay_view =
  ov_process_descriptor :: "'o \<Rightarrow> int option"
  ov_preview_request :: "'o \<Rightarrow> tray_preview_request option"
  ov_redraw_output :: "'o \<Rightarrow> string"
  ov_update_session_trays :: "tray_snapshot list \<Rightarrow> 'o \<Rightarrow> 'o result"

section \<open>The root of a worktree\<close>

definition has_git_marker :: "file_system \<Rightarrow> path \<Rightarrow> bool" where
  "has_git_marker fs p = fs_exists fs (path_append p ''.git'')"

definition canonical_path :: "file_system \<Rightarrow> path \<Rightarrow> path result" where
  "canonical_path fs p =
     require (Invalid_argument (''failed to resolve path: '' @ path_string p)) (fs_weakly_canonical fs p)"

function marked_ancestor :: "file_system \<Rightarrow> path \<Rightarrow> path option" where
  "marked_ancestor fs current =
     (if current = [] then None
      else if has_git_marker fs current then Some current
      else if current = root_path current then None
      else marked_ancestor fs (parent_path current))"
  by pat_completeness auto
termination
  by (relation "measure (\<lambda>(fs, current). length current)")
    (auto simp: parent_path_def root_path_def root_directory_def)

declare marked_ancestor.simps [simp del]

definition worktree_root_for :: "file_system \<Rightarrow> path \<Rightarrow> path result" where
  "worktree_root_for fs p =
     throw_if (p = []) (Invalid_argument ''worktree path must not be empty'')
       (and_then (canonical_path fs p) (\<lambda>current.
        and_then (fs_is_directory fs current) (\<lambda>directory.
        require (Invalid_argument (''path is not inside a git worktree: '' @ path_string p))
          (marked_ancestor fs (if directory then current else parent_path current)))))"

section \<open>State\<close>

record ('c, 's, 'o) tray_manager =
  tm_config :: tray_config
  tm_size :: terminal_size
  tm_active :: tray_id
  tm_anonymous :: "('c, 's, 'o) tray option list"
  tm_worktrees :: "(path, ('c, 's, 'o) tray) smap"

record tray_output_source =
  to_tray :: tray_id
  to_descriptor :: int

record tray_pane_preview =
  pp_tray :: tray_id
  pp_origin :: terminal_position
  pp_size :: terminal_size
  pp_layout :: pane_layout
  pp_focused :: pane_id
  pp_maximized :: bool

text \<open>\<open>array::at\<close>.\<close>

definition array_at :: "'a list \<Rightarrow> nat \<Rightarrow> 'a result" where
  "array_at xs i = (if i < length xs then Inr (xs ! i) else Inl (Out_of_range ''array::at''))"

section \<open>Finding trays\<close>

definition tray_index :: "tray_number \<Rightarrow> nat" where
  "tray_index n = nat (n - TRAY_MIN_VALUE)"

definition worktree_tray :: "path \<Rightarrow> ('c, 's, 'o) tray_manager \<Rightarrow> ('c, 's, 'o) tray result" where
  "worktree_tray root M = require (Logic_error ''requested worktree tray is missing'')
     (smap_find (tm_worktrees M) root)"

definition tray_of :: "tray_id \<Rightarrow> ('c, 's, 'o) tray_manager \<Rightarrow> ('c, 's, 'o) tray result" where
  "tray_of i M = (case i of
     Worktree_tray root \<Rightarrow> worktree_tray root M
   | Anonymous_tray n \<Rightarrow> and_then (array_at (tm_anonymous M) (tray_index n))
       (require (Logic_error ''requested anonymous tray is missing'')))"

definition find_tray :: "tray_id \<Rightarrow> ('c, 's, 'o) tray_manager \<Rightarrow> ('c, 's, 'o) tray option result" where
  "find_tray i M = (case i of
     Worktree_tray root \<Rightarrow> Inr (smap_find (tm_worktrees M) root)
   | Anonymous_tray n \<Rightarrow> array_at (tm_anonymous M) (tray_index n))"

text \<open>Every live tray and its place: the anonymous slots in order, then the worktrees.\<close>

definition live_trays :: "('c, 's, 'o) tray_manager \<Rightarrow> ('c, 's, 'o) tray list" where
  "live_trays M = concat (map (case_option [] (\<lambda>T. [T])) (tm_anonymous M)) @ map snd (tm_worktrees M)"

definition live_ids :: "('c, 's, 'o) tray_manager \<Rightarrow> tray_id list" where
  "live_ids M =
     map (\<lambda>n. Anonymous_tray (TRAY_MIN_VALUE + int n))
       (filter (\<lambda>n. tm_anonymous M ! n \<noteq> None) [0..<length (tm_anonymous M)])
     @ map (\<lambda>e. Worktree_tray (fst e)) (tm_worktrees M)"

text \<open>The place of the first live tray whose own identifier has the key.\<close>

definition find_tray_by_key :: "string \<Rightarrow> ('c, 's, 'o) tray_manager \<Rightarrow> tray_id option" where
  "find_tray_by_key key M = List.find
     (\<lambda>i. case tray_of i M of Inl _ \<Rightarrow> False | Inr T \<Rightarrow> tray_key (tr_id T) = key) (live_ids M)"

definition active_tray :: "('c, 's, 'o) tray_manager \<Rightarrow> ('c, 's, 'o) tray result" where
  "active_tray M = tray_of (tm_active M) M"

text \<open>A tray replaced by what a call made of it.\<close>

definition put_tray :: "tray_id \<Rightarrow> ('c, 's, 'o) tray \<Rightarrow> ('c, 's, 'o) tray_manager \<Rightarrow>
    ('c, 's, 'o) tray_manager" where
  "put_tray i T M = (case i of
     Worktree_tray root \<Rightarrow> M\<lparr>tm_worktrees := smap_put root T (tm_worktrees M)\<rparr>
   | Anonymous_tray n \<Rightarrow> M\<lparr>tm_anonymous := (tm_anonymous M)[tray_index n := Some T]\<rparr>)"

text \<open>A call on \<open>mutable_tray\<close>, and on \<open>mutable_active_tray\<close>.\<close>

definition on_tray :: "(('c, 's, 'o) tray \<Rightarrow> ('a \<times> ('c, 's, 'o) tray) result) \<Rightarrow> tray_id \<Rightarrow>
    ('c, 's, 'o) tray_manager \<Rightarrow> ('a \<times> ('c, 's, 'o) tray_manager) result" where
  "on_tray f i M = and_then (tray_of i M) (\<lambda>T. and_then (f T) (\<lambda>(x, T'). Inr (x, put_tray i T' M)))"

definition on_active :: "(('c, 's, 'o) tray \<Rightarrow> ('a \<times> ('c, 's, 'o) tray) result) \<Rightarrow>
    ('c, 's, 'o) tray_manager \<Rightarrow> ('a \<times> ('c, 's, 'o) tray_manager) result" where
  "on_active f M = on_tray f (tm_active M) M"

text \<open>A call that only changes the tray.\<close>

definition silent :: "('b \<Rightarrow> 'b result) \<Rightarrow> 'b \<Rightarrow> (unit \<times> 'b) result" where
  "silent f T = and_then (f T) (\<lambda>T'. Inr ((), T'))"

section \<open>Input, output and the active tray's panes\<close>

definition manager_write_input :: "('c, 's, 'o) pane_runtime \<Rightarrow> string \<Rightarrow> ('c, 's, 'o) tray_manager \<Rightarrow>
    (unit \<times> ('c, 's, 'o) tray_manager) result" where
  "manager_write_input rt bytes = on_active (silent (tray_write_input rt bytes))"

definition read_active_output :: "('c, 's, 'o) pane_runtime \<Rightarrow> ('c, 's, 'o) tray_manager \<Rightarrow>
    (string option \<times> ('c, 's, 'o) tray_manager) result" where
  "read_active_output rt = on_active (tray_read_focused_output rt)"

definition manager_read_output :: "('c, 's, 'o) pane_runtime \<Rightarrow> tray_id \<Rightarrow> ('c, 's, 'o) tray_manager \<Rightarrow>
    (string option \<times> ('c, 's, 'o) tray_manager) result" where
  "manager_read_output rt i = on_tray (tray_read_focused_output rt) i"

definition manager_read_pane_output :: "('c, 's, 'o) pane_runtime \<Rightarrow> tray_id \<Rightarrow> pane_id \<Rightarrow>
    ('c, 's, 'o) tray_manager \<Rightarrow> (string option \<times> ('c, 's, 'o) tray_manager) result" where
  "manager_read_pane_output rt i q = on_tray (tray_read_output rt q) i"

definition active_pane_output_can_passthrough :: "pane_id \<Rightarrow> ('c, 's, 'o) tray_manager \<Rightarrow> bool result" where
  "active_pane_output_can_passthrough q M = and_then (active_tray M) (\<lambda>T. Inr (can_passthrough_output q T))"

definition active_redraw_output :: "('c, 's, 'o) pane_runtime \<Rightarrow> ('c, 's, 'o) tray_manager \<Rightarrow> string result" where
  "active_redraw_output rt M = and_then (active_tray M) (redraw_output rt)"

definition resize_active :: "('c, 's, 'o) pane_runtime \<Rightarrow> terminal_size \<Rightarrow> ('c, 's, 'o) tray_manager \<Rightarrow>
    (unit \<times> ('c, 's, 'o) tray_manager) result" where
  "resize_active rt sz M = on_active (silent (tray_resize rt sz)) (M\<lparr>tm_size := sz\<rparr>)"

definition manager_resize_pane_viewport :: "('c, 's, 'o) pane_runtime \<Rightarrow> string \<Rightarrow> pane_id \<Rightarrow> terminal_size \<Rightarrow>
    ('c, 's, 'o) tray_manager \<Rightarrow> (bool \<times> ('c, 's, 'o) tray_manager) result" where
  "manager_resize_pane_viewport rt key q sz M = (case find_tray_by_key key M of
     None \<Rightarrow> Inr (False, M)
   | Some i \<Rightarrow> on_tray (resize_pane_viewport rt q sz) i M)"

definition split_active_focused_pane :: "('c, 's, 'o) pane_runtime \<Rightarrow> pane_split_axis \<Rightarrow> pane_insertion \<Rightarrow>
    ('c, 's, 'o) tray_manager \<Rightarrow> (pane_id \<times> ('c, 's, 'o) tray_manager) result" where
  "split_active_focused_pane rt axis insertion = on_active (split_focused_pane rt axis insertion)"

definition focus_active_pane :: "('c, 's, 'o) pane_runtime \<Rightarrow> pane_id \<Rightarrow> ('c, 's, 'o) tray_manager \<Rightarrow>
    (bool \<times> ('c, 's, 'o) tray_manager) result" where
  "focus_active_pane rt q = on_active (focus_pane rt q)"

definition focus_active_pane_direction :: "('c, 's, 'o) pane_runtime \<Rightarrow> pane_focus_direction \<Rightarrow>
    ('c, 's, 'o) tray_manager \<Rightarrow> (bool \<times> ('c, 's, 'o) tray_manager) result" where
  "focus_active_pane_direction rt direction = on_active (focus_pane_direction rt direction)"

definition toggle_active_focused_pane_maximized :: "('c, 's, 'o) pane_runtime \<Rightarrow>
    ('c, 's, 'o) tray_manager \<Rightarrow> (bool \<times> ('c, 's, 'o) tray_manager) result" where
  "toggle_active_focused_pane_maximized rt = on_active (toggle_focused_pane_maximized rt)"

definition toggle_active_pane_selection :: "('c, 's, 'o) pane_runtime \<Rightarrow>
    ('c, 's, 'o) tray_manager \<Rightarrow> (bool \<times> ('c, 's, 'o) tray_manager) result" where
  "toggle_active_pane_selection rt = on_active (toggle_pane_selection rt)"

definition step_active_pane_selection :: "pane_focus_direction \<Rightarrow>
    ('c, 's, 'o) tray_manager \<Rightarrow> (bool \<times> ('c, 's, 'o) tray_manager) result" where
  "step_active_pane_selection direction = on_active (step_pane_selection direction)"

definition promote_active_pane_selection ::
    "('c, 's, 'o) tray_manager \<Rightarrow> (bool \<times> ('c, 's, 'o) tray_manager) result" where
  "promote_active_pane_selection = on_active promote_pane_selection"

definition descend_active_pane_selection ::
    "('c, 's, 'o) tray_manager \<Rightarrow> (bool \<times> ('c, 's, 'o) tray_manager) result" where
  "descend_active_pane_selection = on_active descend_pane_selection"

definition resize_active_pane_selection :: "('c, 's, 'o) pane_runtime \<Rightarrow> int \<Rightarrow>
    ('c, 's, 'o) tray_manager \<Rightarrow> (bool \<times> ('c, 's, 'o) tray_manager) result" where
  "resize_active_pane_selection rt delta = on_active (resize_selected_panes rt delta)"

definition equalize_active_pane_selection :: "('c, 's, 'o) pane_runtime \<Rightarrow>
    ('c, 's, 'o) tray_manager \<Rightarrow> (bool \<times> ('c, 's, 'o) tray_manager) result" where
  "equalize_active_pane_selection rt = on_active (equalize_selected_panes rt)"

definition rotate_active_pane_level :: "('c, 's, 'o) pane_runtime \<Rightarrow>
    ('c, 's, 'o) tray_manager \<Rightarrow> (bool \<times> ('c, 's, 'o) tray_manager) result" where
  "rotate_active_pane_level rt = on_active (rotate_selected_pane_level rt)"

definition toggle_active_pane_move :: "('c, 's, 'o) pane_runtime \<Rightarrow>
    ('c, 's, 'o) tray_manager \<Rightarrow> (bool \<times> ('c, 's, 'o) tray_manager) result" where
  "toggle_active_pane_move rt = on_active (toggle_pane_move rt)"

definition step_active_pane_move_target :: "pane_focus_direction \<Rightarrow>
    ('c, 's, 'o) tray_manager \<Rightarrow> (bool \<times> ('c, 's, 'o) tray_manager) result" where
  "step_active_pane_move_target direction = on_active (step_pane_move_target direction)"

definition promote_active_pane_move_target ::
    "('c, 's, 'o) tray_manager \<Rightarrow> (bool \<times> ('c, 's, 'o) tray_manager) result" where
  "promote_active_pane_move_target = on_active promote_pane_move_target"

definition descend_active_pane_move_target ::
    "('c, 's, 'o) tray_manager \<Rightarrow> (bool \<times> ('c, 's, 'o) tray_manager) result" where
  "descend_active_pane_move_target = on_active descend_pane_move_target"

definition toggle_active_pane_move_swap ::
    "('c, 's, 'o) tray_manager \<Rightarrow> (bool \<times> ('c, 's, 'o) tray_manager) result" where
  "toggle_active_pane_move_swap = on_active toggle_pane_move_swap"

definition set_active_pane_move_drop_direction :: "pane_drop_direction \<Rightarrow>
    ('c, 's, 'o) tray_manager \<Rightarrow> (bool \<times> ('c, 's, 'o) tray_manager) result" where
  "set_active_pane_move_drop_direction direction = on_active (set_pane_move_drop_direction direction)"

definition advance_active_pane_move :: "('c, 's, 'o) pane_runtime \<Rightarrow>
    ('c, 's, 'o) tray_manager \<Rightarrow> (bool \<times> ('c, 's, 'o) tray_manager) result" where
  "advance_active_pane_move rt = on_active (advance_pane_move rt)"

definition active_pane_move_session :: "('c, 's, 'o) tray_manager \<Rightarrow> pane_move_session option result" where
  "active_pane_move_session M = and_then (active_tray M) (\<lambda>T. Inr (tr_session T))"

definition active_pane_selection :: "('c, 's, 'o) tray_manager \<Rightarrow> pane_selection option result" where
  "active_pane_selection M = and_then (active_tray M) (\<lambda>T. Inr (tr_selection T))"

definition active_pane_layout :: "('c, 's, 'o) tray_manager \<Rightarrow> pane_layout result" where
  "active_pane_layout M = and_then (active_tray M) (\<lambda>T. Inr (tr_layout T))"

definition active_focused_pane_id :: "('c, 's, 'o) tray_manager \<Rightarrow> pane_id result" where
  "active_focused_pane_id M = and_then (active_tray M) (\<lambda>T. Inr (tr_focused T))"

definition active_focused_pane_is_maximized :: "('c, 's, 'o) tray_manager \<Rightarrow> bool result" where
  "active_focused_pane_is_maximized M = and_then (active_tray M) (\<lambda>T. Inr (tr_maximized T))"

section \<open>Starting, switching and destroying trays\<close>

definition ensure_tray :: "('c, 's, 'o) pane_runtime \<Rightarrow> tray_number \<Rightarrow> ('c, 's, 'o) tray_manager \<Rightarrow>
    ('c, 's, 'o) tray_manager result" where
  "ensure_tray rt n M =
     and_then (array_at (tm_anonymous M) (tray_index n)) (\<lambda>slot.
     case slot of
       Some _ \<Rightarrow> Inr M
     | None \<Rightarrow>
         and_then (tray_start rt (Anonymous_tray n)
           \<lparr>pc_command = pc_command (tm_config M), pc_directory = pc_directory (tm_config M),
            pc_initial_size = tm_size M, pc_estimate = pc_estimate (tm_config M)\<rparr>) (\<lambda>T.
         Inr (put_tray (Anonymous_tray n) T M)))"

definition ensure_worktree_tray :: "('c, 's, 'o) pane_runtime \<Rightarrow> path \<Rightarrow> ('c, 's, 'o) tray_manager \<Rightarrow>
    ('c, 's, 'o) tray_manager result" where
  "ensure_worktree_tray rt root M = (case smap_find (tm_worktrees M) root of
     Some _ \<Rightarrow> Inr M
   | None \<Rightarrow>
       and_then (tray_start rt (Worktree_tray root)
         \<lparr>pc_command = pc_command (tm_config M), pc_directory = root,
          pc_initial_size = tm_size M, pc_estimate = pc_estimate (tm_config M)\<rparr>) (\<lambda>T.
       Inr (M\<lparr>tm_worktrees := smap_emplace root T (tm_worktrees M)\<rparr>)))"

definition resize_to_screen :: "('c, 's, 'o) pane_runtime \<Rightarrow> tray_id \<Rightarrow> ('c, 's, 'o) tray_manager \<Rightarrow>
    ('c, 's, 'o) tray_manager result" where
  "resize_to_screen rt i M = and_then (on_tray (silent (tray_resize rt (tm_size M))) i M) (\<lambda>(_, M'). Inr M')"

definition manager_snapshots :: "('c, 's, 'o) pane_runtime \<Rightarrow> ('c, 's, 'o) tray_manager \<Rightarrow>
    tray_snapshot list result" where
  "manager_snapshots rt M = map_result (snapshot_of rt) (live_trays M)"

definition refresh_active_overlay_session_trays :: "('c, 's, 'o) pane_runtime \<Rightarrow> 'o overlay_view \<Rightarrow>
    ('c, 's, 'o) tray_manager \<Rightarrow> ('c, 's, 'o) tray_manager result" where
  "refresh_active_overlay_session_trays rt ov M =
     and_then (active_tray M) (\<lambda>T.
     case tr_overlay T of
       None \<Rightarrow> Inr M
     | Some overlay \<Rightarrow>
         and_then (manager_snapshots rt M) (\<lambda>snapshots.
         and_then (ov_update_session_trays ov snapshots overlay) (\<lambda>overlay'.
         Inr (put_tray (tm_active M) (T\<lparr>tr_overlay := Some overlay'\<rparr>) M))))"

definition activate_anonymous_tray_one :: "('c, 's, 'o) pane_runtime \<Rightarrow> ('c, 's, 'o) tray_manager \<Rightarrow>
    ('c, 's, 'o) tray_manager result" where
  "activate_anonymous_tray_one rt M =
     and_then (ensure_tray rt tray_number_one (M\<lparr>tm_active := Anonymous_tray tray_number_one\<rparr>))
       (resize_to_screen rt (Anonymous_tray tray_number_one))"

definition manager_start :: "('c, 's, 'o) pane_runtime \<Rightarrow> tray_config \<Rightarrow> ('c, 's, 'o) tray_manager result" where
  "manager_start rt config =
     throw_if (pc_command config = []) (Invalid_argument ''tray manager command must not be empty'')
       (ensure_tray rt tray_number_one
         \<lparr>tm_config = config, tm_size = pc_initial_size config, tm_active = Anonymous_tray tray_number_one,
          tm_anonymous = replicate (nat TRAY_MAX_VALUE) None, tm_worktrees = []\<rparr>)"

text \<open>What both ways of switching do once the tray exists.\<close>

definition show_tray :: "('c, 's, 'o) pane_runtime \<Rightarrow> 'o overlay_view \<Rightarrow> tray_id \<Rightarrow>
    ('c, 's, 'o) tray_manager \<Rightarrow> (tray_snapshot \<times> ('c, 's, 'o) tray_manager) result" where
  "show_tray rt ov i M =
     and_then (resize_to_screen rt i (M\<lparr>tm_active := i\<rparr>)) (\<lambda>M1.
     and_then (refresh_active_overlay_session_trays rt ov M1) (\<lambda>M2.
     and_then (tray_of i M2) (\<lambda>T.
     and_then (snapshot_of rt T) (\<lambda>snapshot. Inr (snapshot, M2)))))"

definition switch_to :: "('c, 's, 'o) pane_runtime \<Rightarrow> 'o overlay_view \<Rightarrow> tray_number \<Rightarrow>
    ('c, 's, 'o) tray_manager \<Rightarrow> (tray_snapshot \<times> ('c, 's, 'o) tray_manager) result" where
  "switch_to rt ov n M = and_then (ensure_tray rt n M) (show_tray rt ov (Anonymous_tray n))"

definition switch_to_worktree :: "('c, 's, 'o) pane_runtime \<Rightarrow> 'o overlay_view \<Rightarrow> file_system \<Rightarrow> path \<Rightarrow>
    ('c, 's, 'o) tray_manager \<Rightarrow> (tray_snapshot \<times> ('c, 's, 'o) tray_manager) result" where
  "switch_to_worktree rt ov fs p M =
     and_then (worktree_root_for fs p) (\<lambda>root.
     and_then (ensure_worktree_tray rt root M) (show_tray rt ov (Worktree_tray root)))"

definition remove_tray :: "tray_id \<Rightarrow> ('c, 's, 'o) tray_manager \<Rightarrow>
    (bool \<times> ('c, 's, 'o) tray_manager) result" where
  "remove_tray i M = (case i of
     Anonymous_tray n \<Rightarrow>
       and_then (array_at (tm_anonymous M) (tray_index n)) (\<lambda>slot.
       Inr (slot \<noteq> None, M\<lparr>tm_anonymous := (tm_anonymous M)[tray_index n := None]\<rparr>))
   | Worktree_tray root \<Rightarrow>
       Inr (smap_find (tm_worktrees M) root \<noteq> None, M\<lparr>tm_worktrees := smap_erase root (tm_worktrees M)\<rparr>))"

definition destroy_tray :: "('c, 's, 'o) pane_runtime \<Rightarrow> 'o overlay_view \<Rightarrow> tray_id \<Rightarrow>
    ('c, 's, 'o) tray_manager \<Rightarrow> (bool \<times> ('c, 's, 'o) tray_manager) result" where
  "destroy_tray rt ov i M =
     and_then (remove_tray i M) (\<lambda>(destroyed, M1).
     if \<not> destroyed then Inr (False, M1)
     else
       and_then (if i = tm_active M1 then activate_anonymous_tray_one rt M1 else Inr M1) (\<lambda>M2.
       and_then (refresh_active_overlay_session_trays rt ov M2) (\<lambda>M3. Inr (True, M3))))"

definition close_active_focused_pane :: "('c, 's, 'o) pane_runtime \<Rightarrow> 'o overlay_view \<Rightarrow>
    ('c, 's, 'o) tray_manager \<Rightarrow> (bool \<times> ('c, 's, 'o) tray_manager) result" where
  "close_active_focused_pane rt ov M =
     and_then (active_tray M) (\<lambda>T.
     and_then (leaf_nodes (tr_layout T)) (\<lambda>leaves.
     if length leaves > 1 then on_active (close_focused_pane rt) M
     else destroy_tray rt ov (tm_active M) M))"

text \<open>Reaping the panes of one tray, and noting its identifier when all of them have exited.\<close>

definition reap_tray :: "('c, 's, 'o) pane_runtime \<Rightarrow> tray_id \<Rightarrow>
    bool \<times> tray_id list \<times> ('c, 's, 'o) tray_manager \<Rightarrow> (bool \<times> tray_id list \<times> ('c, 's, 'o) tray_manager) result" where
  "reap_tray rt i s = (case s of (changed, exited, M) \<Rightarrow>
     and_then (on_tray (\<lambda>T. and_then (reap_exited_panes rt T) (\<lambda>(update, T'). Inr ((update, tr_id T'), T'))) i M)
       (\<lambda>((update, j), M').
     Inr (eu_changed update \<or> changed,
          exited @ (if eu_status update = None then [] else [j]), M')))"

definition destroy_exited_trays :: "('c, 's, 'o) pane_runtime \<Rightarrow> 'o overlay_view \<Rightarrow>
    ('c, 's, 'o) tray_manager \<Rightarrow> (bool \<times> ('c, 's, 'o) tray_manager) result" where
  "destroy_exited_trays rt ov M =
     and_then (fold_result (reap_tray rt) (live_ids M) (False, [], M)) (\<lambda>(changed, exited, M1).
     and_then (fold_result (\<lambda>i M. and_then (destroy_tray rt ov i M) (\<lambda>(_, M'). Inr M')) exited M1) (\<lambda>M2.
     Inr (changed, M2)))"

section \<open>Snapshots, output sources and the overlay\<close>

definition active_content_file_descriptor :: "('c, 's, 'o) pane_runtime \<Rightarrow> ('c, 's, 'o) tray_manager \<Rightarrow>
    int result" where
  "active_content_file_descriptor rt M = and_then (active_tray M) (tray_file_descriptor rt)"

definition active_snapshot :: "('c, 's, 'o) pane_runtime \<Rightarrow> ('c, 's, 'o) tray_manager \<Rightarrow>
    tray_snapshot result" where
  "active_snapshot rt M = and_then (active_tray M) (snapshot_of rt)"

definition manager_output_sources :: "('c, 's, 'o) pane_runtime \<Rightarrow> ('c, 's, 'o) tray_manager \<Rightarrow>
    tray_pane_output_source list" where
  "manager_output_sources rt M = concat (map (output_sources rt) (live_trays M))"

definition set_active_overlay :: "'o option \<Rightarrow> ('c, 's, 'o) tray_manager \<Rightarrow>
    (unit \<times> ('c, 's, 'o) tray_manager) result" where
  "set_active_overlay overlay = on_active (silent (set_worktree_management_overlay overlay))"

definition clear_active_overlay :: "('c, 's, 'o) tray_manager \<Rightarrow>
    (unit \<times> ('c, 's, 'o) tray_manager) result" where
  "clear_active_overlay = on_active (\<lambda>T. Inr ((), clear_worktree_management_overlay T))"

definition clear_overlay_of :: "tray_id \<Rightarrow> ('c, 's, 'o) tray_manager \<Rightarrow>
    (unit \<times> ('c, 's, 'o) tray_manager) result" where
  "clear_overlay_of i = on_tray (\<lambda>T. Inr ((), clear_worktree_management_overlay T)) i"

definition active_overlay :: "('c, 's, 'o) tray_manager \<Rightarrow> 'o option result" where
  "active_overlay M = and_then (active_tray M) (\<lambda>T. Inr (tr_overlay T))"

definition overlay_of :: "tray_id \<Rightarrow> ('c, 's, 'o) tray_manager \<Rightarrow> 'o option result" where
  "overlay_of i M = and_then (tray_of i M) (\<lambda>T. Inr (tr_overlay T))"

definition overlay_source :: "'o overlay_view \<Rightarrow> ('c, 's, 'o) tray \<Rightarrow> tray_output_source list" where
  "overlay_source ov T = (case tr_overlay T of
     None \<Rightarrow> []
   | Some overlay \<Rightarrow> (case ov_process_descriptor ov overlay of
       None \<Rightarrow> []
     | Some descriptor \<Rightarrow> [\<lparr>to_tray = tr_id T, to_descriptor = descriptor\<rparr>]))"

definition overlay_output_sources :: "'o overlay_view \<Rightarrow> ('c, 's, 'o) tray_manager \<Rightarrow> tray_output_source list" where
  "overlay_output_sources ov M = concat (map (overlay_source ov) (live_trays M))"

definition active_overlay_redraw_output :: "('c, 's, 'o) pane_runtime \<Rightarrow> 'o overlay_view \<Rightarrow> bool \<Rightarrow>
    ('c, 's, 'o) tray_manager \<Rightarrow> string result" where
  "active_overlay_redraw_output rt ov include_preview M =
     and_then (active_overlay M) (\<lambda>overlay.
     case overlay of
       None \<Rightarrow> Inr []
     | Some x \<Rightarrow>
         and_then (case ov_preview_request ov x of
             None \<Rightarrow> Inr []
           | Some preview \<Rightarrow>
               and_then (find_tray (pr_tray preview) M) (\<lambda>previewed.
               if include_preview \<or> previewed = None then render_tray_preview rt preview previewed
               else Inr (render_tray_preview_header preview)))
           (\<lambda>preview_bytes. Inr (preview_bytes @ ov_redraw_output ov x)))"

definition active_overlay_previews :: "'o overlay_view \<Rightarrow> tray_id \<Rightarrow> ('c, 's, 'o) tray_manager \<Rightarrow> bool result" where
  "active_overlay_previews ov i M =
     and_then (active_overlay M) (\<lambda>overlay.
     Inr (case overlay of None \<Rightarrow> False
       | Some x \<Rightarrow> (case ov_preview_request ov x of None \<Rightarrow> False | Some preview \<Rightarrow> pr_tray preview = i)))"

definition active_pane_preview :: "'o overlay_view \<Rightarrow> ('c, 's, 'o) tray_manager \<Rightarrow>
    tray_pane_preview option result" where
  "active_pane_preview ov M =
     and_then (active_overlay M) (\<lambda>overlay.
     case overlay of
       None \<Rightarrow> Inr None
     | Some x \<Rightarrow> (case ov_preview_request ov x of
         None \<Rightarrow> Inr None
       | Some preview \<Rightarrow>
           if ts_rows (pr_size preview) \<le> 1 \<or> ts_cols (pr_size preview) \<le> 0 then Inr None
           else
             and_then (find_tray (pr_tray preview) M) (\<lambda>previewed.
             Inr (map_option (\<lambda>T.
               \<lparr>pp_tray = tr_id T,
                pp_origin = \<lparr>tp_row = tp_row (pr_origin preview) + 1, tp_column = tp_column (pr_origin preview)\<rparr>,
                pp_size = \<lparr>ts_rows = ts_rows (pr_size preview) - 1, ts_cols = ts_cols (pr_size preview)\<rparr>,
                pp_layout = tr_layout T, pp_focused = tr_focused T, pp_maximized = tr_maximized T\<rparr>) previewed))))"

end
