(* ===== verification/Tray_Frame.thy ===== *)
theory Tray_Frame
  imports Tray_Reachable
begin

text \<open>
  What no request to a tray changes: its identifier, its label, its directory and its
  configuration. The rules \<open>keeps\<close> follow the structure of an operation, so that each proof
  only names its definition.
\<close>

definition same_frame :: "('c, 's, 'o) tray \<Rightarrow> ('c, 's, 'o) tray \<Rightarrow> bool" where
  "same_frame T T' \<longleftrightarrow> tr_id T' = tr_id T \<and> tr_label T' = tr_label T \<and> tr_cwd T' = tr_cwd T \<and> tr_config T' = tr_config T"

definition keeps :: "('c, 's, 'o) tray \<Rightarrow> ('c, 's, 'o) tray result \<Rightarrow> bool" where
  "keeps T r \<longleftrightarrow> (\<forall>T'. r = Inr T' \<longrightarrow> same_frame T T')"

definition keeps_with :: "('c, 's, 'o) tray \<Rightarrow> ('a \<times> ('c, 's, 'o) tray) result \<Rightarrow> bool" where
  "keeps_with T r \<longleftrightarrow> (\<forall>x T'. r = Inr (x, T') \<longrightarrow> same_frame T T')"

lemma keeps_withD: "keeps_with T r \<Longrightarrow> r = Inr (x, T') \<Longrightarrow> same_frame T T'"
  by (simp add: keeps_with_def)

lemma keepsD: "keeps T r \<Longrightarrow> r = Inr T' \<Longrightarrow> same_frame T T'"
  by (simp add: keeps_def)

lemma same_frame_refl [simp]: "same_frame T T"
  by (simp add: same_frame_def)

lemma same_frame_trans: "same_frame T T' \<Longrightarrow> same_frame T' T'' \<Longrightarrow> same_frame T T''"
  by (simp add: same_frame_def)

lemma same_frame_eq: "same_frame T T' \<Longrightarrow> tr_id T' = tr_id T"
  by (simp add: same_frame_def)

lemma without_interaction_frame [simp]: "same_frame T (without_interaction T') = same_frame T T'"
  by (simp add: without_interaction_def same_frame_def)

section \<open>Rules for the structure of an operation\<close>

lemma keeps_Inr: "same_frame T T' \<Longrightarrow> keeps T (Inr T')" "keeps T (Inl e)"
  "same_frame T T' \<Longrightarrow> keeps_with T (Inr (x, T'))" "keeps_with T (Inl e)"
  by (simp_all add: keeps_def keeps_with_def)

lemma keeps_tray:
  "keeps T1 r \<Longrightarrow> same_frame T T1 \<Longrightarrow> (\<And>T2. same_frame T T2 \<Longrightarrow> keeps T (f T2)) \<Longrightarrow> keeps T (and_then r f)"
  "keeps T1 r \<Longrightarrow> same_frame T T1 \<Longrightarrow> (\<And>T2. same_frame T T2 \<Longrightarrow> keeps_with T (g T2)) \<Longrightarrow> keeps_with T (and_then r g)"
proof -
  show "keeps T (and_then r f)" if "keeps T1 r" "same_frame T T1" "\<And>T2. same_frame T T2 \<Longrightarrow> keeps T (f T2)"
    unfolding keeps_def
  proof (intro allI impI)
    fix T' assume "and_then r f = Inr T'"
    then obtain T2 where "r = Inr T2" "f T2 = Inr T'" by (auto simp: result_simps)
    moreover from this(1) that(1,2) have "same_frame T T2" unfolding keeps_def by (blast intro: same_frame_trans)
    ultimately show "same_frame T T'" using that(3) unfolding keeps_def by blast
  qed
  show "keeps_with T (and_then r g)" if "keeps T1 r" "same_frame T T1" "\<And>T2. same_frame T T2 \<Longrightarrow> keeps_with T (g T2)"
    unfolding keeps_with_def
  proof (intro allI impI)
    fix x T' assume "and_then r g = Inr (x, T')"
    then obtain T2 where "r = Inr T2" "g T2 = Inr (x, T')" by (auto simp: result_simps)
    moreover from this(1) that(1,2) have "same_frame T T2" unfolding keeps_def by (blast intro: same_frame_trans)
    ultimately show "same_frame T T'" using that(3) unfolding keeps_with_def by blast
  qed
qed

lemma keeps_any:
  "(\<And>y. keeps T (f y)) \<Longrightarrow> keeps T (and_then r f)"
  "(\<And>y. keeps_with T (g y)) \<Longrightarrow> keeps_with T (and_then r g)"
  by (auto simp: keeps_def keeps_with_def result_simps)

lemma keeps_cases:
  "(c \<Longrightarrow> keeps_with T r) \<Longrightarrow> (\<not> c \<Longrightarrow> keeps_with T r') \<Longrightarrow> keeps_with T (if c then r else r')"
  "(c \<Longrightarrow> keeps T s) \<Longrightarrow> (\<not> c \<Longrightarrow> keeps T s') \<Longrightarrow> keeps T (if c then s else s')"
  "(x = None \<Longrightarrow> keeps_with T r) \<Longrightarrow> (\<And>y. x = Some y \<Longrightarrow> keeps_with T (g y)) \<Longrightarrow>
    keeps_with T (case x of None \<Rightarrow> r | Some y \<Rightarrow> g y)"
  "(x = None \<Longrightarrow> keeps T s) \<Longrightarrow> (\<And>y. x = Some y \<Longrightarrow> keeps T (h y)) \<Longrightarrow>
    keeps T (case x of None \<Rightarrow> s | Some y \<Rightarrow> h y)"
  "(\<And>a b. keeps_with T (k a b)) \<Longrightarrow> keeps_with T (case p of (a, b) \<Rightarrow> k a b)"
  "(c \<Longrightarrow> same_frame T (snd u)) \<Longrightarrow> (\<not> c \<Longrightarrow> same_frame T (snd v)) \<Longrightarrow> keeps_with T (Inr (if c then u else v))"
  by (auto simp: keeps_with_def split: option.splits prod.splits)

lemma keeps_from: "keeps T1 r \<Longrightarrow> same_frame T T1 \<Longrightarrow> keeps T r"
  unfolding keeps_def by (blast intro: same_frame_trans)

lemma fold_keeps:
  assumes "\<And>x T. keeps T (f x T)"
  shows "keeps T (fold_result f xs T)"
proof (induction xs arbitrary: T)
  case (Cons x xs)
  have "keeps T (fold_result f xs T2)" if "same_frame T T2" for T2
    using Cons.IH [of T2] that unfolding keeps_def by (blast intro: same_frame_trans)
  then show ?case using keeps_tray(1) [OF assms same_frame_refl] by simp
qed (simp add: keeps_Inr)

section \<open>The operations\<close>

lemma on_pane_keeps: "keeps T (on_pane f q T)"
  by (auto simp: keeps_def on_pane_def result_simps same_frame_def)

lemma resize_panes_keeps: "keeps T (resize_panes rt T)"
proof -
  have leaves: "keeps T (fold_result (resize_leaf_pane rt G) leaves T)" for G leaves
    by (rule fold_keeps) (simp only: resize_leaf_pane_def, intro keeps_any on_pane_keeps)
  have focused: "keeps T (if c then on_pane f q T1 else Inr T1)" if "same_frame T T1" for c f q T1
    using keeps_from [OF on_pane_keeps that] that by (simp add: keeps_Inr)
  show ?thesis
    unfolding resize_panes_def
    by (rule keeps_cases(2), simp add: keeps_Inr,
        rule keeps_any(1), rule keeps_any(1), rule keeps_tray(1) [OF leaves same_frame_refl], rule focused)
qed

lemma leave_maximized_keeps: "keeps T (leave_maximized rt T)"
  unfolding leave_maximized_def
  by (rule keeps_cases(2), rule keeps_from [OF resize_panes_keeps]) (simp_all add: keeps_Inr same_frame_def)

lemma reap_panes_keeps: "keeps T (fold_result reap_pane es T)"
  by (rule fold_keeps) (auto simp: keeps_def reap_pane_def Let_def result_simps same_frame_def)

lemma on_session_keeps: "keeps_with T (on_session f T)"
  by (auto simp: keeps_with_def on_session_def result_simps same_frame_def split: option.splits)

lemmas keep_rules = keeps_Inr keeps_cases
  keeps_tray(2) [OF resize_panes_keeps] keeps_tray(2) [OF leave_maximized_keeps]
  keeps_tray(2) [OF reap_panes_keeps] keeps_any on_session_keeps

lemma focus_pane_keeps: "keeps_with T (focus_pane rt q T)"
proof -
  have "keeps T1 (if c then resize_panes rt T1 else Inr T1)" for c T1
    by (simp add: resize_panes_keeps keeps_Inr)
  note step = keeps_tray(2) [OF this]
  show ?thesis
    unfolding focus_pane_def Let_def
    by (rule keeps_cases(1), simp add: keeps_Inr, rule step) (simp_all add: keeps_Inr same_frame_def)
qed

lemma reap_exited_panes_keeps: "keeps_with T (reap_exited_panes rt T)"
proof -
  have "keeps_with T (case xs of [] \<Rightarrow> r | y # ys \<Rightarrow> g y)" if "keeps_with T r" "\<And>y. keeps_with T (g y)" for xs r g
    using that by (cases xs) auto
  note list_case = this
  show ?thesis
    unfolding reap_exited_panes_def Let_def
    by ((rule list_case keep_rules | (simp add: same_frame_def without_interaction_def; fail))+)
qed

lemma split_keeps: "keeps_with T (split_focused_pane rt axis ins T)"
proof -
  have "keeps_with T (and_then (allocate_pane_id T) f)" if "\<And>q T1. same_frame T T1 \<Longrightarrow> keeps_with T (f (q, T1))" for f
  proof (cases "allocate_pane_id T")
    case (Inr y)
    then have "same_frame T (snd y)" by (auto simp: allocate_pane_id_def result_simps same_frame_def)
    then show ?thesis using Inr that [of "snd y" "fst y"] by simp
  qed (simp add: keeps_Inr)
  note start = this
  show ?thesis
    unfolding split_focused_pane_def
    by (rule start, unfold case_prod_conv) ((rule keep_rules | (simp add: same_frame_def without_interaction_def; fail))+)
qed

lemma tray_resize_keeps: "keeps T (tray_resize rt sz T)"
  unfolding tray_resize_def
  by (rule keeps_tray(1) [OF resize_panes_keeps], simp add: same_frame_def)
    ((rule keeps_Inr keeps_cases keeps_any | (simp add: same_frame_def without_interaction_def; fail))+)

lemma interactive_keep:
  "keeps_with T (focus_pane_direction rt d T)" "keeps_with T (close_focused_pane rt T)"
  "keeps_with T (toggle_focused_pane_maximized rt T)" "keeps_with T (toggle_pane_selection rt T)"
  "keeps_with T (step_pane_selection d T)" "keeps_with T (promote_pane_selection T)"
  "keeps_with T (descend_pane_selection T)" "keeps_with T (resize_selected_panes rt delta T)"
  "keeps_with T (equalize_selected_panes rt T)" "keeps_with T (rotate_selected_pane_level rt T)"
  "keeps_with T (toggle_pane_move rt T)" "keeps_with T (advance_pane_move rt T)"
  unfolding focus_pane_direction_def close_focused_pane_def toggle_focused_pane_maximized_def
    toggle_pane_selection_def step_pane_selection_def promote_pane_selection_def descend_pane_selection_def
    resize_selected_panes_def equalize_selected_panes_def rotate_selected_pane_level_def toggle_pane_move_def
    advance_pane_move_def Let_def
  by ((rule keep_rules focus_pane_keeps | (simp add: same_frame_def without_interaction_def; fail))+)

lemma session_requests_keep:
  "keeps_with T (step_pane_move_target d T)" "keeps_with T (promote_pane_move_target T)"
  "keeps_with T (descend_pane_move_target T)" "keeps_with T (toggle_pane_move_swap T)"
  "keeps_with T (set_pane_move_drop_direction side T)"
  by (simp_all add: step_pane_move_target_def promote_pane_move_target_def descend_pane_move_target_def
      toggle_pane_move_swap_def set_pane_move_drop_direction_def on_session_keeps)

lemma tray_step_frame:
  assumes "tray_step rt T T'"
  shows "same_frame T T'"
  using assms
proof (cases rule: tray_step.cases)
  case (write_step bytes)
  then show ?thesis unfolding tray_write_input_def by (rule keepsD [OF on_pane_keeps])
next
  case (read_step q data)
  then show ?thesis by (auto simp: tray_read_output_def result_simps same_frame_def split: prod.splits)
next
  case (resize_step sz)
  then show ?thesis by (blast intro: keepsD [OF tray_resize_keeps])
next
  case (viewport_step q sz b)
  then show ?thesis
    by (auto simp: resize_pane_viewport_def result_simps split: if_splits dest: keepsD [OF on_pane_keeps])
next
  case (overlay_step overlay)
  then show ?thesis by (auto simp: set_worktree_management_overlay_def result_simps same_frame_def)
next
  case no_overlay_step
  then show ?thesis by (simp add: clear_worktree_management_overlay_def same_frame_def)
qed (erule keeps_withD [rotated], rule interactive_keep session_requests_keep focus_pane_keeps
    reap_exited_panes_keeps split_keeps)+

end
