(* ===== verification/Tray_Manager_Correct.thy ===== *)
theory Tray_Manager_Correct
  imports Tray_Manager Tray_Frame
begin

text \<open>
  The invariant of the tray manager: the active tray exists, and every tray sits in the place
  of its own identifier and satisfies the invariant of a tray. Every request keeps it.
\<close>

section \<open>The invariant\<close>

definition number_ok :: "tray_id \<Rightarrow> bool" where
  "number_ok i = (case i of Anonymous_tray n \<Rightarrow> TRAY_MIN_VALUE \<le> n \<and> n \<le> TRAY_MAX_VALUE | Worktree_tray _ \<Rightarrow> True)"

definition good_tray :: "tray_id \<Rightarrow> ('c, 's, 'o) tray \<Rightarrow> bool" where
  "good_tray i T \<longleftrightarrow> tr_id T = i \<and> (\<exists>t. tray_inv T t)"

text \<open>A manager whose trays are good, the active one possibly missing.\<close>

definition manager_ok :: "('c, 's, 'o) tray_manager \<Rightarrow> bool" where
  "manager_ok M \<longleftrightarrow>
     length (tm_anonymous M) = nat TRAY_MAX_VALUE \<and> smap_ok (tm_worktrees M) \<and> screen_fits (tm_size M)
     \<and> number_ok (tm_active M) \<and> (\<forall>i T. number_ok i \<longrightarrow> tray_of i M = Inr T \<longrightarrow> good_tray i T)"

definition manager_inv :: "('c, 's, 'o) tray_manager \<Rightarrow> bool" where
  "manager_inv M \<longleftrightarrow> manager_ok M \<and> (\<exists>T. active_tray M = Inr T)"

lemma manager_okD:
  assumes "manager_ok M"
  shows "length (tm_anonymous M) = 9" "smap_ok (tm_worktrees M)" "screen_fits (tm_size M)" "number_ok (tm_active M)"
    "number_ok i \<Longrightarrow> tray_of i M = Inr T \<Longrightarrow> good_tray i T"
  using assms by (auto simp: manager_ok_def TRAY_MAX_VALUE_def)

lemma tray_index_less: "number_ok (Anonymous_tray n) \<Longrightarrow> tray_index n < 9"
  by (auto simp: number_ok_def tray_index_def TRAY_MIN_VALUE_def TRAY_MAX_VALUE_def)

lemma tray_index_eq:
  "number_ok (Anonymous_tray n) \<Longrightarrow> number_ok (Anonymous_tray k) \<Longrightarrow> tray_index n = tray_index k \<longleftrightarrow> n = k"
  by (auto simp: number_ok_def tray_index_def TRAY_MIN_VALUE_def TRAY_MAX_VALUE_def)

lemma tray_of_frame [simp]:
  "tray_of i (M\<lparr>tm_active := a\<rparr>) = tray_of i M" "tray_of i (M\<lparr>tm_size := sz\<rparr>) = tray_of i M"
  by (simp_all add: tray_of_def worktree_tray_def split: tray_id.split)

lemma put_tray_frame [simp]:
  "tm_active (put_tray i T M) = tm_active M" "tm_size (put_tray i T M) = tm_size M"
  "tm_config (put_tray i T M) = tm_config M"
  by (simp_all add: put_tray_def split: tray_id.split)

lemma tray_of_put:
  assumes len: "length (tm_anonymous M) = 9" and i: "number_ok i" and j: "number_ok j"
  shows "tray_of j (put_tray i T M) = (if j = i then Inr T else tray_of j M)"
proof (cases i)
  case (Worktree_tray root)
  then show ?thesis by (auto simp: tray_of_def put_tray_def worktree_tray_def smap_find_put split: tray_id.split)
next
  case (Anonymous_tray n)
  have less: "tray_index n < 9" using i Anonymous_tray tray_index_less by blast
  show ?thesis
  proof (cases j)
    case (Anonymous_tray k)
    have "tray_index k < 9" "tray_index k = tray_index n \<longleftrightarrow> k = n"
      using i j \<open>i = Anonymous_tray n\<close> Anonymous_tray tray_index_less tray_index_eq by blast+
    then show ?thesis using less len Anonymous_tray \<open>i = Anonymous_tray n\<close>
      by (auto simp: tray_of_def put_tray_def array_at_def)
  next
    case (Worktree_tray r)
    then show ?thesis using \<open>i = Anonymous_tray n\<close> by (simp add: tray_of_def put_tray_def worktree_tray_def)
  qed
qed

lemma manager_ok_put:
  assumes ok: "manager_ok M" and i: "number_ok i" and T: "good_tray i T"
  shows "manager_ok (put_tray i T M)"
proof -
  note D = manager_okD [OF ok]
  have "length (tm_anonymous (put_tray i T M)) = 9" "smap_ok (tm_worktrees (put_tray i T M))"
    using D(1,2) smap_ok_put by (auto simp: put_tray_def split: tray_id.split)
  moreover have "good_tray j T'" if "number_ok j" "tray_of j (put_tray i T M) = Inr T'" for j T'
    using that D(5) T tray_of_put [OF D(1) i that(1)] by (auto split: if_splits)
  ultimately show ?thesis using D(3,4) by (simp add: manager_ok_def TRAY_MAX_VALUE_def)
qed

lemma active_put:
  assumes inv: "manager_inv M" and i: "number_ok i" and T: "good_tray i T"
  shows "manager_inv (put_tray i T M)"
proof -
  have ok: "manager_ok M" using inv by (simp add: manager_inv_def)
  note D = manager_okD [OF ok]
  show ?thesis
    using inv manager_ok_put [OF ok i T] tray_of_put [OF D(1) i D(4)]
    by (auto simp: manager_inv_def active_tray_def)
qed

section \<open>Requests to one tray\<close>

definition tray_keeper :: "(('c, 's, 'o) tray \<Rightarrow> ('a \<times> ('c, 's, 'o) tray) result) \<Rightarrow> bool" where
  "tray_keeper f \<longleftrightarrow> (\<forall>T t x T'. tray_inv T t \<longrightarrow> tray_room T \<longrightarrow> f T = Inr (x, T') \<longrightarrow>
     tr_id T' = tr_id T \<and> (\<exists>t'. tray_inv T' t'))"

definition manager_room :: "('c, 's, 'o) tray_manager \<Rightarrow> bool" where
  "manager_room M \<longleftrightarrow> (\<forall>T \<in> set (live_trays M). tray_room T)"

lemma live_tray:
  assumes "tray_of i M = Inr T"
  shows "T \<in> set (live_trays M)"
proof (cases i)
  case (Anonymous_tray n)
  then have "tm_anonymous M ! tray_index n = Some T" "tray_index n < length (tm_anonymous M)"
    using assms by (auto simp: tray_of_def array_at_def result_simps split: if_splits)
  then have "Some T \<in> set (tm_anonymous M)" by (metis nth_mem)
  then show ?thesis by (force simp: live_trays_def)
next
  case (Worktree_tray root)
  then have "map_of (tm_worktrees M) root = Some T"
    using assms by (simp add: tray_of_def worktree_tray_def result_simps smap_find_def)
  then show ?thesis by (force simp: live_trays_def dest: map_of_SomeD)
qed

lemma on_tray_inv:
  assumes inv: "manager_inv M" and room: "manager_room M" and keep: "tray_keeper f"
    and i: "number_ok i" and r: "on_tray f i M = Inr (x, M')"
  shows "manager_inv M'"
proof -
  from r obtain T T' where T: "tray_of i M = Inr T" "f T = Inr (x, T')" "M' = put_tray i T' M"
    by (auto simp: on_tray_def result_simps split: prod.splits)
  have "good_tray i T" using manager_okD(5) i T(1) inv by (auto simp: manager_inv_def)
  moreover have "tray_room T" using room live_tray [OF T(1)] by (simp add: manager_room_def)
  ultimately have "good_tray i T'" using keep T(2) unfolding tray_keeper_def good_tray_def by metis
  then show ?thesis using active_put [OF inv i] T(3) by simp
qed

lemma on_active_inv:
  assumes "manager_inv M" "manager_room M" "tray_keeper f" "on_active f M = Inr (x, M')"
  shows "manager_inv M'"
proof -
  have "number_ok (tm_active M)" using assms(1) by (auto simp: manager_inv_def manager_ok_def)
  from on_tray_inv [OF assms(1-3) this assms(4) [unfolded on_active_def]] show ?thesis .
qed

lemma keeper_step:
  assumes rt: "runtime_obliges rt" and st: "\<And>T x T'. f T = Inr (x, T') \<Longrightarrow> tray_step rt T T'"
  shows "tray_keeper f"
  unfolding tray_keeper_def
  using tray_step_inv [OF rt] tray_step_frame st same_frame_eq by metis

text \<open>Every request the manager passes on is a step of the tray.\<close>

lemma silent_Inr: "silent f T = Inr (x, T') \<longleftrightarrow> f T = Inr T'"
  by (auto simp: silent_def result_simps)

lemma request_keepers:
  fixes rt :: "('c, 's, 'o) pane_runtime"
  assumes rt: "runtime_obliges rt"
  shows "tray_keeper (silent (tray_write_input rt bytes))"
    "tray_keeper (tray_read_output rt q)"
    "tray_keeper (tray_read_focused_output rt)"
    "tray_keeper (resize_pane_viewport rt q sz)"
    "tray_keeper (split_focused_pane rt axis ins)"
    "tray_keeper (focus_pane rt q)"
    "tray_keeper (focus_pane_direction rt d)"
    "tray_keeper (close_focused_pane rt)"
    "tray_keeper (toggle_focused_pane_maximized rt)"
    "tray_keeper (toggle_pane_selection rt)"
    "tray_keeper (step_pane_selection d :: ('c, 's, 'o) tray \<Rightarrow> _)"
    "tray_keeper (promote_pane_selection :: ('c, 's, 'o) tray \<Rightarrow> _)"
    "tray_keeper (descend_pane_selection :: ('c, 's, 'o) tray \<Rightarrow> _)"
    "tray_keeper (equalize_selected_panes rt)"
    "tray_keeper (rotate_selected_pane_level rt)"
    "tray_keeper (toggle_pane_move rt)"
    "tray_keeper (step_pane_move_target d :: ('c, 's, 'o) tray \<Rightarrow> _)"
    "tray_keeper (promote_pane_move_target :: ('c, 's, 'o) tray \<Rightarrow> _)"
    "tray_keeper (descend_pane_move_target :: ('c, 's, 'o) tray \<Rightarrow> _)"
    "tray_keeper (toggle_pane_move_swap :: ('c, 's, 'o) tray \<Rightarrow> _)"
    "tray_keeper (set_pane_move_drop_direction side :: ('c, 's, 'o) tray \<Rightarrow> _)"
    "tray_keeper (advance_pane_move rt)"
    "tray_keeper (silent (set_worktree_management_overlay overlay) :: ('c, 's, 'o) tray \<Rightarrow> _)"
    "tray_keeper (\<lambda>T :: ('c, 's, 'o) tray. Inr ((), clear_worktree_management_overlay T))"
  by (rule keeper_step [OF rt]; (simp add: silent_Inr tray_read_focused_output_def)?; (rule tray_step.intros, assumption | fastforce intro: tray_step.no_overlay_step))+

lemma grow_keeper:
  "runtime_obliges rt \<Longrightarrow> INT32_MIN \<le> delta \<Longrightarrow> delta + 100 \<le> INT32_MAX \<Longrightarrow>
   tray_keeper (resize_selected_panes rt delta)"
  by (rule keeper_step) (auto intro: tray_step.intros)

lemma resize_keeper:
  "runtime_obliges rt \<Longrightarrow> screen_fits sz \<Longrightarrow> tray_keeper (silent (tray_resize rt sz))"
  by (rule keeper_step) (auto simp: silent_Inr intro: tray_step.intros)

end
