(* ===== verification/Tray_Manager_Reachable.thy ===== *)
theory Tray_Manager_Reachable
  imports Tray_Manager_Correct
begin

text \<open>
  The tray manager as a state machine: its public methods are the steps. The invariant holds
  in every state they reach, so that the active tray always exists.
\<close>

section \<open>Starting, switching and destroying trays\<close>

lemma manager_ok_active:
  "manager_ok M \<Longrightarrow> number_ok i \<Longrightarrow> manager_ok (M\<lparr>tm_active := i\<rparr>)"
  by (simp add: manager_ok_def)

lemma manager_ok_size:
  "manager_ok M \<Longrightarrow> screen_fits sz \<Longrightarrow> manager_ok (M\<lparr>tm_size := sz\<rparr>)"
  by (simp add: manager_ok_def)

lemma tray_start_good:
  assumes "tray_start rt i config = Inr T" "screen_fits (pc_initial_size config)"
  shows "good_tray i T \<and> tray_room T"
proof -
  obtain p where "pane_start rt config = Inr p" using start_starts [OF assms(1)] by blast
  from tray_start_inv [OF this assms(2), of i] assms(1) obtain t where
    "tray_inv T t" "tr_id T = i" "tr_next_pane T = 2" "tr_layout T = single 1" by auto
  then show ?thesis by (auto simp: good_tray_def tray_room_def single_def UINT64_MAX_def)
qed

text \<open>A tray exists after it is ensured, and no other tray changes.\<close>

definition adds :: "tray_id \<Rightarrow> ('c, 's, 'o) tray_manager \<Rightarrow> ('c, 's, 'o) tray_manager \<Rightarrow> bool" where
  "adds i M M' \<longleftrightarrow> manager_ok M' \<and> tm_active M' = tm_active M \<and> tm_size M' = tm_size M \<and> tm_config M' = tm_config M
     \<and> (\<exists>T. tray_of i M' = Inr T) \<and> (\<forall>j. number_ok j \<longrightarrow> j \<noteq> i \<longrightarrow> tray_of j M' = tray_of j M)
     \<and> (\<forall>T. tray_of i M = Inr T \<longrightarrow> M' = M)"

lemma put_adds:
  assumes ok: "manager_ok M" and i: "number_ok i" and T: "good_tray i T" and new: "\<nexists>T. tray_of i M = Inr T"
  shows "adds i M (put_tray i T M)"
  using manager_ok_put [OF ok i T] tray_of_put [OF manager_okD(1) [OF ok] i] i new by (simp add: adds_def)

lemma ensure_tray_adds:
  assumes ok: "manager_ok M" and n: "number_ok (Anonymous_tray n)" and r: "ensure_tray rt n M = Inr M'"
  shows "adds (Anonymous_tray n) M M'"
proof -
  have at: "array_at (tm_anonymous M) (tray_index n) = Inr (tm_anonymous M ! tray_index n)"
    using tray_index_less [OF n] manager_okD(1) [OF ok] by (simp add: array_at_def)
  show ?thesis
  proof (cases "tm_anonymous M ! tray_index n")
    case (Some T)
    then show ?thesis using ok r at by (simp add: ensure_tray_def adds_def tray_of_def)
  next
    case None
    with r at obtain config T where T: "tray_start rt (Anonymous_tray n) config = Inr T"
      "pc_initial_size config = tm_size M" "M' = put_tray (Anonymous_tray n) T M"
      by (auto simp: ensure_tray_def result_simps)
    have "good_tray (Anonymous_tray n) T" using tray_start_good [OF T(1)] T(2) manager_okD(3) [OF ok] by simp
    moreover have "\<nexists>T. tray_of (Anonymous_tray n) M = Inr T" using at None by (simp add: tray_of_def)
    ultimately show ?thesis using put_adds [OF ok n] T(3) by simp
  qed
qed

lemma ensure_worktree_adds:
  assumes ok: "manager_ok M" and r: "ensure_worktree_tray rt root M = Inr M'"
  shows "adds (Worktree_tray root) M M'"
proof (cases "smap_find (tm_worktrees M) root")
  case (Some T)
  then show ?thesis using ok r by (simp add: ensure_worktree_tray_def adds_def tray_of_def worktree_tray_def)
next
  case None
  with r obtain config T where T: "tray_start rt (Worktree_tray root) config = Inr T"
    "pc_initial_size config = tm_size M" "M' = put_tray (Worktree_tray root) T M"
    by (auto simp: ensure_worktree_tray_def result_simps put_tray_def smap_emplace_def)
  have "good_tray (Worktree_tray root) T" using tray_start_good [OF T(1)] T(2) manager_okD(3) [OF ok] by simp
  moreover have "\<nexists>T. tray_of (Worktree_tray root) M = Inr T" using None by (simp add: tray_of_def worktree_tray_def)
  moreover have "number_ok (Worktree_tray root)" by (simp add: number_ok_def)
  ultimately show ?thesis using put_adds [OF ok] T(3) by blast
qed

text \<open>A manager with the same trays in the same places, each possibly changed.\<close>

definition same_trays :: "('c, 's, 'o) tray_manager \<Rightarrow> ('c, 's, 'o) tray_manager \<Rightarrow> bool" where
  "same_trays M M' \<longleftrightarrow> manager_ok M' \<and> tm_active M' = tm_active M \<and> tm_size M' = tm_size M \<and> tm_config M' = tm_config M
     \<and> (\<forall>j. number_ok j \<longrightarrow> ((\<exists>T. tray_of j M' = Inr T) \<longleftrightarrow> (\<exists>T. tray_of j M = Inr T)))"

lemma same_trays_refl: "manager_ok M \<Longrightarrow> same_trays M M"
  by (simp add: same_trays_def)

lemma same_trays_trans: "same_trays M M' \<Longrightarrow> same_trays M' M'' \<Longrightarrow> same_trays M M''"
  by (simp add: same_trays_def)

lemma put_same:
  assumes ok: "manager_ok M" and i: "number_ok i" and T: "good_tray i T'" and old: "tray_of i M = Inr T"
  shows "same_trays M (put_tray i T' M)"
  using manager_ok_put [OF ok i T] tray_of_put [OF manager_okD(1) [OF ok] i] old by (simp add: same_trays_def)

lemma same_trays_inv: "same_trays M M' \<Longrightarrow> manager_inv M \<Longrightarrow> manager_inv M'"
  by (auto simp: same_trays_def manager_inv_def active_tray_def dest: manager_okD(4))

lemma resize_to_screen_same:
  assumes rt: "runtime_obliges rt" and ok: "manager_ok M" and i: "number_ok i"
    and r: "resize_to_screen rt i M = Inr M'"
  shows "same_trays M M'"
proof -
  from r obtain T T' where T: "tray_of i M = Inr T" "tray_resize rt (tm_size M) T = Inr T'" "M' = put_tray i T' M"
    by (auto simp: resize_to_screen_def on_tray_def silent_def result_simps split: prod.splits)
  have g: "good_tray i T" using manager_okD(5) [OF ok i T(1)] .
  then obtain t where "tray_inv T t" by (auto simp: good_tray_def)
  from tray_resize_inv [OF rt this manager_okD(3) [OF ok]] T(2) have "\<exists>t. tray_inv T' t" by auto
  moreover have "tr_id T' = tr_id T" using T(2) by (intro same_frame_eq keepsD [OF tray_resize_keeps])
  ultimately have "good_tray i T'" using g by (simp add: good_tray_def)
  then show ?thesis using put_same [OF ok i _ T(1)] T(3) by simp
qed

lemma refresh_same:
  assumes inv: "manager_inv M" and r: "refresh_active_overlay_session_trays rt ov M = Inr M'"
  shows "same_trays M M'"
proof -
  have ok: "manager_ok M" using inv by (simp add: manager_inv_def)
  note D = manager_okD [OF ok]
  from inv obtain T where T: "tray_of (tm_active M) M = Inr T" by (auto simp: manager_inv_def active_tray_def)
  show ?thesis
  proof (cases "tr_overlay T")
    case None
    then show ?thesis using r T same_trays_refl [OF ok]
      by (simp add: refresh_active_overlay_session_trays_def active_tray_def)
  next
    case (Some overlay)
    with r T obtain overlay' where "M' = put_tray (tm_active M) (T\<lparr>tr_overlay := Some overlay'\<rparr>) M"
      by (auto simp: refresh_active_overlay_session_trays_def active_tray_def result_simps)
    moreover have "good_tray (tm_active M) (T\<lparr>tr_overlay := Some overlay'\<rparr>)"
      using D(5) [OF D(4) T] by (simp add: good_tray_def tray_inv_def)
    ultimately show ?thesis using put_same [OF ok D(4) _ T] by simp
  qed
qed

lemma tray_one_ok: "number_ok (Anonymous_tray tray_number_one)"
  by (simp add: number_ok_def tray_number_one_def TRAY_MIN_VALUE_def TRAY_MAX_VALUE_def)

text \<open>The trays of a manager that shows \<open>i\<close>: those of the old one, and \<open>i\<close>.\<close>

definition shows_tray :: "tray_id \<Rightarrow> ('c, 's, 'o) tray_manager \<Rightarrow> ('c, 's, 'o) tray_manager \<Rightarrow> bool" where
  "shows_tray i M M' \<longleftrightarrow> manager_inv M' \<and> tm_active M' = i \<and> tm_size M' = tm_size M \<and> tm_config M' = tm_config M
     \<and> (\<forall>j. number_ok j \<longrightarrow> ((\<exists>T. tray_of j M' = Inr T) \<longleftrightarrow> j = i \<or> (\<exists>T. tray_of j M = Inr T)))"

lemma adds_shows:
  assumes a: "adds i M M1" and s: "same_trays (M1\<lparr>tm_active := i\<rparr>) M2" and i: "number_ok i"
  shows "shows_tray i M M2"
  using assms unfolding adds_def same_trays_def shows_tray_def manager_inv_def active_tray_def
  by simp metis

lemma activate_one_shows:
  assumes rt: "runtime_obliges rt" and ok: "manager_ok M" and r: "activate_anonymous_tray_one rt M = Inr M'"
  shows "shows_tray (Anonymous_tray tray_number_one) M M'"
proof -
  let ?one = "Anonymous_tray tray_number_one"
  let ?M = "M\<lparr>tm_active := ?one\<rparr>"
  from r obtain M1 where M1: "ensure_tray rt tray_number_one ?M = Inr M1" "resize_to_screen rt ?one M1 = Inr M'"
    by (auto simp: activate_anonymous_tray_one_def result_simps)
  have a: "adds ?one ?M M1" by (rule ensure_tray_adds [OF manager_ok_active [OF ok tray_one_ok] tray_one_ok M1(1)])
  then have "manager_ok M1" "tm_active M1 = ?one" by (simp_all add: adds_def)
  from resize_to_screen_same [OF rt this(1) tray_one_ok M1(2)] this(2)
  have "same_trays (M1\<lparr>tm_active := ?one\<rparr>) M'" by (simp add: same_trays_def)
  from adds_shows [OF a this tray_one_ok] show ?thesis by (simp add: shows_tray_def)
qed

lemma show_tray_shows:
  assumes rt: "runtime_obliges rt" and i: "number_ok i" and a: "adds i M M1"
    and r: "show_tray rt ov i M1 = Inr (snapshot, M')"
  shows "shows_tray i M M'"
proof -
  from r obtain M2 where M2: "resize_to_screen rt i (M1\<lparr>tm_active := i\<rparr>) = Inr M2"
    "refresh_active_overlay_session_trays rt ov M2 = Inr M'"
    by (auto simp: show_tray_def result_simps)
  have "manager_ok M1" using a by (simp add: adds_def)
  from resize_to_screen_same [OF rt manager_ok_active [OF this i] i M2(1)]
  have s: "same_trays (M1\<lparr>tm_active := i\<rparr>) M2" .
  then have inv: "manager_inv M2" using adds_shows [OF a s i] by (simp add: shows_tray_def)
  from adds_shows [OF a same_trays_trans [OF s refresh_same [OF inv M2(2)]] i] show ?thesis .
qed

lemma tray_of_remove:
  assumes len: "length (tm_anonymous M) = 9" and i: "number_ok i" and j: "number_ok j"
    and r: "remove_tray i M = Inr (b, M')"
  shows "(\<exists>T. tray_of j M' = Inr T) \<longleftrightarrow> j \<noteq> i \<and> (\<exists>T. tray_of j M = Inr T)"
    "j \<noteq> i \<Longrightarrow> tray_of j M' = tray_of j M" "b \<longleftrightarrow> (\<exists>T. tray_of i M = Inr T)"
proof -
  have "((\<exists>T. tray_of j M' = Inr T) \<longleftrightarrow> j \<noteq> i \<and> (\<exists>T. tray_of j M = Inr T)) \<and> (j \<noteq> i \<longrightarrow> tray_of j M' = tray_of j M)
    \<and> (b \<longleftrightarrow> (\<exists>T. tray_of i M = Inr T))"
  proof (cases i)
    case (Worktree_tray root)
    then show ?thesis using r
      by (auto simp: remove_tray_def tray_of_def worktree_tray_def smap_find_erase require_Inr_iff split: tray_id.split if_splits)
  next
    case (Anonymous_tray n)
    have n: "tray_index n < 9" using i Anonymous_tray tray_index_less by blast
    then have M': "M' = M\<lparr>tm_anonymous := (tm_anonymous M)[tray_index n := None]\<rparr>"
      "b \<longleftrightarrow> tm_anonymous M ! tray_index n \<noteq> None"
      using r Anonymous_tray len by (auto simp: remove_tray_def array_at_def result_simps)
    show ?thesis
    proof (cases j)
      case (Anonymous_tray k)
      have "tray_index k < 9" "tray_index k = tray_index n \<longleftrightarrow> k = n"
        using i j \<open>i = Anonymous_tray n\<close> Anonymous_tray tray_index_less tray_index_eq by blast+
      then show ?thesis using n len Anonymous_tray \<open>i = Anonymous_tray n\<close> M'
        by (auto simp: tray_of_def array_at_def nth_list_update require_Inr_iff)
    next
      case (Worktree_tray r)
      then show ?thesis using \<open>i = Anonymous_tray n\<close> M' n len
        by (auto simp: tray_of_def worktree_tray_def array_at_def require_Inr_iff)
    qed
  qed
  then show "(\<exists>T. tray_of j M' = Inr T) \<longleftrightarrow> j \<noteq> i \<and> (\<exists>T. tray_of j M = Inr T)"
    "j \<noteq> i \<Longrightarrow> tray_of j M' = tray_of j M" "b \<longleftrightarrow> (\<exists>T. tray_of i M = Inr T)" by auto
qed

lemma remove_tray_ok:
  assumes ok: "manager_ok M" and i: "number_ok i" and r: "remove_tray i M = Inr (b, M')"
  shows "manager_ok M' \<and> tm_active M' = tm_active M \<and> tm_size M' = tm_size M \<and> tm_config M' = tm_config M"
proof -
  note D = manager_okD [OF ok]
  have frame: "tm_active M' = tm_active M" "tm_size M' = tm_size M" "tm_config M' = tm_config M"
    "length (tm_anonymous M') = 9" "smap_ok (tm_worktrees M')"
    using r D(1,2) smap_ok_erase by (auto simp: remove_tray_def result_simps split: tray_id.splits)
  have "good_tray j T" if "number_ok j" "tray_of j M' = Inr T" for j T
    using tray_of_remove(1,2) [OF D(1) i that(1) r] that D(5) by metis
  then show ?thesis using frame D(3,4) by (simp add: manager_ok_def TRAY_MAX_VALUE_def)
qed

lemma destroy_tray_spec:
  assumes rt: "runtime_obliges rt" and inv: "manager_inv M" and i: "number_ok i"
    and r: "destroy_tray rt ov i M = Inr (b, M')"
  shows "manager_inv M' \<and> (b \<longleftrightarrow> (\<exists>T. tray_of i M = Inr T))
    \<and> tm_active M' = (if i = tm_active M then Anonymous_tray tray_number_one else tm_active M)
    \<and> tm_size M' = tm_size M
    \<and> (\<forall>j. number_ok j \<longrightarrow> ((\<exists>T. tray_of j M' = Inr T) \<longleftrightarrow>
         (if j = i then i = tm_active M \<and> i = Anonymous_tray tray_number_one else
            (i = tm_active M \<and> j = Anonymous_tray tray_number_one) \<or> (\<exists>T. tray_of j M = Inr T))))"
proof -
  have ok: "manager_ok M" and act: "\<exists>T. tray_of (tm_active M) M = Inr T"
    using inv by (auto simp: manager_inv_def active_tray_def)
  note D = manager_okD [OF ok]
  from r obtain destroyed M1 where M1: "remove_tray i M = Inr (destroyed, M1)"
    by (auto simp: destroy_tray_def result_simps)
  note ok1 = remove_tray_ok [OF ok i M1]
  note rem = tray_of_remove [OF D(1) i _ M1]
  have b: "destroyed \<longleftrightarrow> (\<exists>T. tray_of i M = Inr T)" using rem(3) [OF i] .
  show ?thesis
  proof (cases destroyed)
    case False
    then have eq: "b = False" "M' = M1" using r M1 by (simp_all add: destroy_tray_def)
    have "i \<noteq> tm_active M" using False b act by auto
    moreover have "\<exists>T. tray_of (tm_active M) M1 = Inr T" using rem(1) [OF D(4)] act calculation by metis
    ultimately show ?thesis using eq ok1 rem(1) False b by (simp add: manager_inv_def active_tray_def)
  next
    case True
    from r M1 True ok1 obtain M2 where
      M2: "(if i = tm_active M then activate_anonymous_tray_one rt M1 else Inr M1) = Inr M2"
      and M': "refresh_active_overlay_session_trays rt ov M2 = Inr M'" "b"
      by (auto simp: destroy_tray_def result_simps)
    have "manager_inv M2 \<and> tm_active M2 = (if i = tm_active M then Anonymous_tray tray_number_one else tm_active M)
      \<and> tm_size M2 = tm_size M
      \<and> (\<forall>j. number_ok j \<longrightarrow> ((\<exists>T. tray_of j M2 = Inr T) \<longleftrightarrow>
         (if j = i then i = tm_active M \<and> i = Anonymous_tray tray_number_one else
            (i = tm_active M \<and> j = Anonymous_tray tray_number_one) \<or> (\<exists>T. tray_of j M = Inr T))))"
    proof (cases "i = tm_active M")
      case True
      have s: "shows_tray (Anonymous_tray tray_number_one) M1 M2"
        using activate_one_shows [OF rt, of M1 M2] ok1 M2 True by simp
      show ?thesis using s ok1 rem(1) True unfolding shows_tray_def by auto
    next
      case False
      then have "M2 = M1" using M2 by simp
      moreover have "\<exists>T. tray_of (tm_active M) M1 = Inr T" using rem(1) [OF D(4)] act False by metis
      ultimately show ?thesis using False ok1 rem(1) by (simp add: manager_inv_def active_tray_def)
    qed
    note M2s = this
    then have s: "same_trays M2 M'" using refresh_same M'(1) by blast
    have "manager_inv M'" using same_trays_inv [OF s] M2s by blast
    then show ?thesis using M2s s b True M'(2) unfolding same_trays_def by simp
  qed
qed

section \<open>Exited trays\<close>

lemma on_tray_same:
  assumes ok: "manager_ok M" and i: "number_ok i" and r: "on_tray f i M = Inr (x, M')"
    and good: "\<And>T T'. good_tray i T \<Longrightarrow> f T = Inr (x, T') \<Longrightarrow> good_tray i T'"
  shows "same_trays M M'"
proof -
  from r obtain T T' where T: "tray_of i M = Inr T" "f T = Inr (x, T')" "M' = put_tray i T' M"
    by (auto simp: on_tray_def result_simps split: prod.splits)
  have "good_tray i T'" using good manager_okD(5) [OF ok i T(1)] T(2) by blast
  then show ?thesis using put_same [OF ok i _ T(1)] T(3) by simp
qed

lemma reap_good:
  assumes rt: "runtime_obliges rt" and T: "good_tray i T"
    and r: "and_then (reap_exited_panes rt T) (\<lambda>(update, T'). Inr ((update, tr_id T'), T')) = Inr ((update, j), T')"
  shows "good_tray i T' \<and> j = i"
proof -
  from r have e: "reap_exited_panes rt T = Inr (update, T')" "j = tr_id T'"
    by (auto simp: result_simps split: prod.splits)
  from T obtain t where t: "tray_inv T t" by (auto simp: good_tray_def)
  from reap_exited_panes_inv [OF rt t] e(1) have "\<exists>t'. tray_inv T' t'" by auto
  moreover have "tr_id T' = tr_id T" using e(1) by (intro same_frame_eq keeps_withD [OF reap_exited_panes_keeps])
  ultimately show ?thesis using T e(2) by (simp add: good_tray_def)
qed

lemma reap_trays_same:
  assumes rt: "runtime_obliges rt"
  shows "manager_ok M \<Longrightarrow> \<forall>i \<in> set xs. number_ok i \<Longrightarrow>
     fold_result (reap_tray rt) xs (c, exited, M) = Inr (c', exited', M') \<Longrightarrow>
     same_trays M M' \<and> set exited' \<subseteq> set exited \<union> set xs"
proof (induction xs arbitrary: c exited M)
  case Nil
  then show ?case by (simp add: same_trays_refl)
next
  case (Cons i xs)
  from Cons.prems(3) obtain s where s0: "reap_tray rt i (c, exited, M) = Inr s"
    "fold_result (reap_tray rt) xs s = Inr (c', exited', M')" by (auto simp: result_simps)
  from s0(1) obtain update j M1 where
    r: "on_tray (\<lambda>T. and_then (reap_exited_panes rt T) (\<lambda>(update, T'). Inr ((update, tr_id T'), T'))) i M
      = Inr ((update, j), M1)"
    and s: "s = (eu_changed update \<or> c, exited @ (if eu_status update = None then [] else [j]), M1)"
    by (auto simp: reap_tray_def result_simps split: prod.splits)
  note rest = s0(2) [unfolded s]
  have i: "number_ok i" using Cons.prems(2) by simp
  have s: "same_trays M M1" by (rule on_tray_same [OF Cons.prems(1) i r]) (use reap_good [OF rt] in blast)
  from r obtain T T' where "tray_of i M = Inr T"
    "and_then (reap_exited_panes rt T) (\<lambda>(update, T'). Inr ((update, tr_id T'), T')) = Inr ((update, j), T')"
    by (auto simp: on_tray_def result_simps split: prod.splits)
  then have "j = i" using reap_good [OF rt manager_okD(5) [OF Cons.prems(1) i]] by blast
  moreover have "manager_ok M1" using s by (simp add: same_trays_def)
  from Cons.IH [OF this _ rest] Cons.prems(2)
  have "same_trays M1 M'" "set exited' \<subseteq> set (exited @ (if eu_status update = None then [] else [j])) \<union> set xs" by auto
  ultimately show ?case using same_trays_trans [OF s] by (auto split: if_splits)
qed

lemma destroy_all_inv:
  assumes rt: "runtime_obliges rt"
  shows "manager_inv M \<Longrightarrow> \<forall>i \<in> set xs. number_ok i \<Longrightarrow>
     fold_result (\<lambda>i M. and_then (destroy_tray rt ov i M) (\<lambda>(_, M'). Inr M')) xs M = Inr M' \<Longrightarrow> manager_inv M'"
proof (induction xs arbitrary: M)
  case (Cons i xs)
  from Cons.prems(3) obtain b M1 where M1: "destroy_tray rt ov i M = Inr (b, M1)"
    "fold_result (\<lambda>i M. and_then (destroy_tray rt ov i M) (\<lambda>(_, M'). Inr M')) xs M1 = Inr M'"
    by (auto simp: result_simps split: prod.splits)
  have "number_ok i" using Cons.prems(2) by simp
  from destroy_tray_spec [OF rt Cons.prems(1) this M1(1)] have "manager_inv M1" by blast
  with Cons.IH [OF this _ M1(2)] Cons.prems(2) show ?case by simp
qed simp

lemma live_ids_ok: "manager_ok M \<Longrightarrow> i \<in> set (live_ids M) \<Longrightarrow> number_ok i"
  by (auto simp: live_ids_def manager_ok_def number_ok_def TRAY_MIN_VALUE_def TRAY_MAX_VALUE_def)

lemma destroy_exited_inv:
  assumes rt: "runtime_obliges rt" and inv: "manager_inv M"
    and r: "destroy_exited_trays rt ov M = Inr (b, M')"
  shows "manager_inv M'"
proof -
  have ok: "manager_ok M" using inv by (simp add: manager_inv_def)
  from r obtain exited M1 where
    M1: "fold_result (reap_tray rt) (live_ids M) (False, [], M) = Inr (b, exited, M1)"
    "fold_result (\<lambda>i M. and_then (destroy_tray rt ov i M) (\<lambda>(_, M'). Inr M')) exited M1 = Inr M'"
    by (auto simp: destroy_exited_trays_def result_simps split: prod.splits)
  from reap_trays_same [OF rt ok _ M1(1)] live_ids_ok [OF ok]
  have "same_trays M M1" "\<forall>i \<in> set exited. number_ok i" by auto
  from destroy_all_inv [OF rt same_trays_inv [OF this(1) inv] this(2) M1(2)] show ?thesis .
qed

section \<open>The state machine\<close>

inductive manager_step :: "('c, 's, 'o) pane_runtime \<Rightarrow> 'o overlay_view \<Rightarrow> file_system \<Rightarrow>
    ('c, 's, 'o) tray_manager \<Rightarrow> ('c, 's, 'o) tray_manager \<Rightarrow> bool"
  for rt :: "('c, 's, 'o) pane_runtime" and ov :: "'o overlay_view" and fs :: file_system where
  send: "manager_write_input rt bytes M = Inr (u, M') \<Longrightarrow> manager_step rt ov fs M M'"
| read_active: "read_active_output rt M = Inr (s, M') \<Longrightarrow> manager_step rt ov fs M M'"
| read_tray: "manager_read_output rt i M = Inr (s, M') \<Longrightarrow> number_ok i \<Longrightarrow> manager_step rt ov fs M M'"
| read_pane: "manager_read_pane_output rt i q M = Inr (s, M') \<Longrightarrow> number_ok i \<Longrightarrow> manager_step rt ov fs M M'"
| resize: "resize_active rt sz M = Inr (u, M') \<Longrightarrow> screen_fits sz \<Longrightarrow> manager_step rt ov fs M M'"
| viewport: "manager_resize_pane_viewport rt key q sz M = Inr (b, M') \<Longrightarrow> manager_step rt ov fs M M'"
| split: "split_active_focused_pane rt axis ins M = Inr (p, M') \<Longrightarrow> manager_step rt ov fs M M'"
| focus: "focus_active_pane rt q M = Inr (b, M') \<Longrightarrow> manager_step rt ov fs M M'"
| focus_direction: "focus_active_pane_direction rt d M = Inr (b, M') \<Longrightarrow> manager_step rt ov fs M M'"
| close: "close_active_focused_pane rt ov M = Inr (b, M') \<Longrightarrow> manager_step rt ov fs M M'"
| maximize: "toggle_active_focused_pane_maximized rt M = Inr (b, M') \<Longrightarrow> manager_step rt ov fs M M'"
| select: "toggle_active_pane_selection rt M = Inr (b, M') \<Longrightarrow> manager_step rt ov fs M M'"
| step_selection: "step_active_pane_selection d M = Inr (b, M') \<Longrightarrow> manager_step rt ov fs M M'"
| promote_selection: "promote_active_pane_selection M = Inr (b, M') \<Longrightarrow> manager_step rt ov fs M M'"
| descend_selection: "descend_active_pane_selection M = Inr (b, M') \<Longrightarrow> manager_step rt ov fs M M'"
| grow: "resize_active_pane_selection rt delta M = Inr (b, M') \<Longrightarrow> INT32_MIN \<le> delta \<Longrightarrow>
    delta + 100 \<le> INT32_MAX \<Longrightarrow> manager_step rt ov fs M M'"
| equalize: "equalize_active_pane_selection rt M = Inr (b, M') \<Longrightarrow> manager_step rt ov fs M M'"
| rotate: "rotate_active_pane_level rt M = Inr (b, M') \<Longrightarrow> manager_step rt ov fs M M'"
| move: "toggle_active_pane_move rt M = Inr (b, M') \<Longrightarrow> manager_step rt ov fs M M'"
| step_move: "step_active_pane_move_target d M = Inr (b, M') \<Longrightarrow> manager_step rt ov fs M M'"
| promote_move: "promote_active_pane_move_target M = Inr (b, M') \<Longrightarrow> manager_step rt ov fs M M'"
| descend_move: "descend_active_pane_move_target M = Inr (b, M') \<Longrightarrow> manager_step rt ov fs M M'"
| swap_move: "toggle_active_pane_move_swap M = Inr (b, M') \<Longrightarrow> manager_step rt ov fs M M'"
| drop_move: "set_active_pane_move_drop_direction side M = Inr (b, M') \<Longrightarrow> manager_step rt ov fs M M'"
| advance_move: "advance_active_pane_move rt M = Inr (b, M') \<Longrightarrow> manager_step rt ov fs M M'"
| switch: "switch_to rt ov n M = Inr (sn, M') \<Longrightarrow> number_ok (Anonymous_tray n) \<Longrightarrow> manager_step rt ov fs M M'"
| switch_worktree: "switch_to_worktree rt ov fs p M = Inr (sn, M') \<Longrightarrow> manager_step rt ov fs M M'"
| destroy: "destroy_tray rt ov i M = Inr (b, M') \<Longrightarrow> number_ok i \<Longrightarrow> manager_step rt ov fs M M'"
| destroy_exited: "destroy_exited_trays rt ov M = Inr (b, M') \<Longrightarrow> manager_step rt ov fs M M'"
| set_overlay: "set_active_overlay overlay M = Inr (u, M') \<Longrightarrow> manager_step rt ov fs M M'"
| clear_active: "clear_active_overlay M = Inr (u, M') \<Longrightarrow> manager_step rt ov fs M M'"
| clear_tray: "clear_overlay_of i M = Inr (u, M') \<Longrightarrow> number_ok i \<Longrightarrow> manager_step rt ov fs M M'"

lemma find_by_key_ok:
  "manager_ok M \<Longrightarrow> find_tray_by_key key M = Some i \<Longrightarrow> number_ok i"
  unfolding find_tray_by_key_def by (blast dest: find_SomeD live_ids_ok)

lemma close_active_inv:
  assumes rt: "runtime_obliges rt" and inv: "manager_inv M" and room: "manager_room M"
    and r: "close_active_focused_pane rt ov M = Inr (b, M')"
  shows "manager_inv M'"
proof -
  have a: "number_ok (tm_active M)" using inv by (simp add: manager_inv_def manager_ok_def)
  from r consider "on_active (close_focused_pane rt) M = Inr (b, M')" | "destroy_tray rt ov (tm_active M) M = Inr (b, M')"
    by (auto simp: close_active_focused_pane_def result_simps split: if_splits)
  then show ?thesis
  proof cases
    case 1
    then show ?thesis by (rule on_active_inv [OF inv room request_keepers(8) [OF rt]])
  next
    case 2
    from destroy_tray_spec [OF rt inv a this] show ?thesis by blast
  qed
qed

lemma resize_active_inv:
  assumes rt: "runtime_obliges rt" and inv: "manager_inv M" and room: "manager_room M" and fits: "screen_fits sz"
    and r: "resize_active rt sz M = Inr (u, M')"
  shows "manager_inv M'"
proof -
  let ?M = "M\<lparr>tm_size := sz\<rparr>"
  have "manager_inv ?M" using inv manager_ok_size [of M, OF _ fits] by (simp add: manager_inv_def active_tray_def)
  moreover have "manager_room ?M" using room by (simp add: manager_room_def live_trays_def)
  ultimately show ?thesis using on_active_inv [OF _ _ resize_keeper [OF rt fits]] r by (simp add: resize_active_def)
qed

lemma switch_shows:
  assumes rt: "runtime_obliges rt" and ok: "manager_ok M"
  shows "number_ok (Anonymous_tray n) \<Longrightarrow> switch_to rt ov n M = Inr (sn, M') \<Longrightarrow> shows_tray (Anonymous_tray n) M M'"
    "switch_to_worktree rt ov fs p M = Inr (sn, M') \<Longrightarrow>
       \<exists>root. worktree_root_for fs p = Inr root \<and> shows_tray (Worktree_tray root) M M'"
proof -
  show "shows_tray (Anonymous_tray n) M M'"
    if n: "number_ok (Anonymous_tray n)" and r: "switch_to rt ov n M = Inr (sn, M')"
  proof -
    from r obtain M1 where M1: "ensure_tray rt n M = Inr M1" "show_tray rt ov (Anonymous_tray n) M1 = Inr (sn, M')"
      by (auto simp: switch_to_def result_simps)
    show ?thesis by (rule show_tray_shows [OF rt n ensure_tray_adds [OF ok n M1(1)] M1(2)])
  qed
  show "\<exists>root. worktree_root_for fs p = Inr root \<and> shows_tray (Worktree_tray root) M M'"
    if r: "switch_to_worktree rt ov fs p M = Inr (sn, M')"
  proof -
    from r obtain root M1 where M1: "worktree_root_for fs p = Inr root" "ensure_worktree_tray rt root M = Inr M1"
      "show_tray rt ov (Worktree_tray root) M1 = Inr (sn, M')"
      by (auto simp: switch_to_worktree_def result_simps)
    have "number_ok (Worktree_tray root)" by (simp add: number_ok_def)
    from show_tray_shows [OF rt this ensure_worktree_adds [OF ok M1(2)] M1(3)] M1(1) show ?thesis by blast
  qed
qed

lemmas delegations = manager_write_input_def read_active_output_def manager_read_output_def
  manager_read_pane_output_def split_active_focused_pane_def focus_active_pane_def
  focus_active_pane_direction_def toggle_active_focused_pane_maximized_def toggle_active_pane_selection_def
  step_active_pane_selection_def promote_active_pane_selection_def descend_active_pane_selection_def
  resize_active_pane_selection_def equalize_active_pane_selection_def rotate_active_pane_level_def
  toggle_active_pane_move_def step_active_pane_move_target_def promote_active_pane_move_target_def
  descend_active_pane_move_target_def toggle_active_pane_move_swap_def set_active_pane_move_drop_direction_def
  advance_active_pane_move_def set_active_overlay_def clear_active_overlay_def clear_overlay_of_def

lemma manager_step_inv:
  assumes rt: "runtime_obliges rt" and inv: "manager_inv M" and room: "manager_room M"
    and st: "manager_step rt ov fs M M'"
  shows "manager_inv M'"
proof -
  have ok: "manager_ok M" using inv by (simp add: manager_inv_def)
  note keep = request_keepers [OF rt]
  note active = on_active_inv [OF inv room] and one = on_tray_inv [OF inv room]
  show ?thesis
    using st
  proof (cases rule: manager_step.cases)
    case (resize sz u)
    then show ?thesis using resize_active_inv [OF rt inv room] by blast
  next
    case (viewport key q sz b)
    then show ?thesis using inv one [OF keep(4) find_by_key_ok [OF ok]]
      by (auto simp: manager_resize_pane_viewport_def split: option.splits)
  next
    case (close b)
    then show ?thesis by (rule close_active_inv [OF rt inv room])
  next
    case (grow delta b)
    then show ?thesis using active [OF grow_keeper [OF rt]] unfolding delegations by blast
  next
    case (switch n sn)
    then show ?thesis using switch_shows(1) [OF rt ok] by (auto simp: shows_tray_def)
  next
    case (switch_worktree p sn)
    then show ?thesis using switch_shows(2) [OF rt ok] by (fastforce simp: shows_tray_def)
  next
    case (destroy i b)
    then show ?thesis using destroy_tray_spec [OF rt inv] by blast
  next
    case (destroy_exited b)
    then show ?thesis by (rule destroy_exited_inv [OF rt inv])
  qed (unfold delegations, (erule active [OF keep(1)] active [OF keep(2)] active [OF keep(3)] active [OF keep(5)]
      active [OF keep(6)] active [OF keep(7)] active [OF keep(9)] active [OF keep(10)] active [OF keep(11)]
      active [OF keep(12)] active [OF keep(13)] active [OF keep(14)] active [OF keep(15)] active [OF keep(16)]
      active [OF keep(17)] active [OF keep(18)] active [OF keep(19)] active [OF keep(20)] active [OF keep(21)]
      active [OF keep(22)] active [OF keep(23)] active [OF keep(24)]
      | (rule one [OF keep(2)], assumption, assumption) | (rule one [OF keep(3)], assumption, assumption)
      | (rule one [OF keep(24)], assumption, assumption))+)
qed

inductive manager_reachable :: "('c, 's, 'o) pane_runtime \<Rightarrow> 'o overlay_view \<Rightarrow> file_system \<Rightarrow> tray_config \<Rightarrow>
    ('c, 's, 'o) tray_manager \<Rightarrow> bool"
  for rt :: "('c, 's, 'o) pane_runtime" and ov :: "'o overlay_view" and fs :: file_system and config :: tray_config where
  started: "manager_start rt config = Inr M \<Longrightarrow> manager_reachable rt ov fs config M"
| stepped: "manager_reachable rt ov fs config M \<Longrightarrow> manager_room M \<Longrightarrow> manager_step rt ov fs M M' \<Longrightarrow>
    manager_reachable rt ov fs config M'"

lemma manager_start_inv:
  assumes fits: "screen_fits (pc_initial_size config)" and r: "manager_start rt config = Inr M"
  shows "manager_inv M \<and> tm_active M = Anonymous_tray 1
     \<and> (\<forall>j. number_ok j \<longrightarrow> ((\<exists>T. tray_of j M = Inr T) \<longleftrightarrow> j = Anonymous_tray 1))"
proof -
  let ?M = "\<lparr>tm_config = config, tm_size = pc_initial_size config, tm_active = Anonymous_tray tray_number_one,
     tm_anonymous = replicate (nat TRAY_MAX_VALUE) None, tm_worktrees = []\<rparr> :: ('a, 'b, 'c) tray_manager"
  have none: "\<nexists>T. tray_of j ?M = Inr T" for j
    by (auto simp: tray_of_def worktree_tray_def array_at_def smap_find_def split: tray_id.split)
  then have "manager_ok ?M" using fits tray_one_ok by (auto simp: manager_ok_def smap_ok_def)
  moreover from r have "ensure_tray rt tray_number_one ?M = Inr M" by (simp add: manager_start_def result_simps)
  ultimately have a: "adds (Anonymous_tray tray_number_one) ?M M" using ensure_tray_adds [OF _ tray_one_ok] by blast
  have one: "tray_number_one = 1" by (simp add: tray_number_one_def TRAY_MIN_VALUE_def)
  have "tm_active M = Anonymous_tray 1" "manager_ok M" "\<exists>T. tray_of (Anonymous_tray 1) M = Inr T"
    using a unfolding adds_def one by simp_all
  moreover have "\<nexists>T. tray_of j M = Inr T" if "number_ok j" "j \<noteq> Anonymous_tray 1" for j
    using a none [of j] that unfolding adds_def one by metis
  ultimately show ?thesis unfolding manager_inv_def active_tray_def by metis
qed

lemma manager_reachable_inv:
  assumes rt: "runtime_obliges rt" and fits: "screen_fits (pc_initial_size config)"
    and reach: "manager_reachable rt ov fs config M"
  shows "manager_inv M"
  using reach
proof (induction rule: manager_reachable.induct)
  case (started M)
  then show ?case using manager_start_inv [OF fits] by blast
next
  case (stepped M M')
  then show ?case using manager_step_inv [OF rt] by blast
qed

end
