(* ===== verification/Tray_Manager_Properties.thy ===== *)
theory Tray_Manager_Properties
  imports Tray_Manager_Reachable
begin

text \<open>What the tray manager guarantees: its reachable states, destroying a tray, finding trays.\<close>

section \<open>Answers\<close>

definition overlay_updates :: "'o overlay_view \<Rightarrow> bool" where
  "overlay_updates ov \<longleftrightarrow> (\<forall>snapshots overlay. \<exists>overlay'. ov_update_session_trays ov snapshots overlay = Inr overlay')"

lemma snapshot_total:
  assumes "tray_inv T t"
  shows "\<exists>s. snapshot_of rt T = Inr s"
proof -
  have "tr_focused T \<in> fst ` set (tr_panes T)" using tray_invD(4,5) [OF assms] by simp
  then obtain p where "smap_find (tr_panes T) (tr_focused T) = Some p"
    using smap_find_key [OF tray_invD(3) [OF assms]] by blast
  then show ?thesis by (simp add: snapshot_of_def tray_pane_def)
qed

lemma live_ids_tray: "T \<in> set (live_trays M) \<Longrightarrow> \<exists>i. i \<in> set (live_ids M) \<and> (smap_ok (tm_worktrees M) \<longrightarrow> tray_of i M = Inr T)"
proof -
  assume "T \<in> set (live_trays M)"
  then consider (slot) n where "n < length (tm_anonymous M)" "tm_anonymous M ! n = Some T"
    | (root) root where "(root, T) \<in> set (tm_worktrees M)"
    by (auto simp: live_trays_def in_set_conv_nth split: option.splits)
  then show ?thesis
  proof cases
    case slot
    then have "tray_of (Anonymous_tray (TRAY_MIN_VALUE + int n)) M = Inr T"
      by (simp add: tray_of_def array_at_def tray_index_def)
    moreover have "Anonymous_tray (TRAY_MIN_VALUE + int n) \<in> set (live_ids M)"
      using slot by (auto simp: live_ids_def)
    ultimately show ?thesis by blast
  next
    case root
    then have "smap_ok (tm_worktrees M) \<Longrightarrow> tray_of (Worktree_tray root) M = Inr T"
      by (simp add: tray_of_def worktree_tray_def smap_find_def smap_ok_distinct)
    moreover have "Worktree_tray root \<in> set (live_ids M)" using root by (force simp: live_ids_def)
    ultimately show ?thesis by blast
  qed
qed

lemma live_tray_good:
  assumes ok: "manager_ok M" and T: "T \<in> set (live_trays M)"
  shows "\<exists>t. tray_inv T t"
proof -
  from live_ids_tray [OF T] manager_okD(2) [OF ok] obtain i where "i \<in> set (live_ids M)" "tray_of i M = Inr T" by blast
  then have "good_tray i T" using live_ids_ok [OF ok] manager_okD(5) [OF ok] by blast
  then show ?thesis by (auto simp: good_tray_def)
qed

lemma map_result_total: "(\<forall>x \<in> set xs. \<exists>y. f x = Inr y) \<Longrightarrow> \<exists>ys. map_result f xs = Inr ys"
  by (induction xs) auto

lemma refresh_total:
  assumes inv: "manager_inv M" and ov: "overlay_updates ov"
  shows "\<exists>M'. refresh_active_overlay_session_trays rt ov M = Inr M'"
proof -
  have ok: "manager_ok M" using inv by (simp add: manager_inv_def)
  from inv obtain T where T: "active_tray M = Inr T" by (auto simp: manager_inv_def)
  obtain snapshots where s: "manager_snapshots rt M = Inr snapshots"
    using map_result_total [of "live_trays M" "snapshot_of rt"] live_tray_good [OF ok] snapshot_total
    unfolding manager_snapshots_def by metis
  show ?thesis
  proof (cases "tr_overlay T")
    case (Some overlay)
    obtain overlay' where "ov_update_session_trays ov snapshots overlay = Inr overlay'"
      using ov unfolding overlay_updates_def by blast
    then show ?thesis using T s Some by (simp add: refresh_active_overlay_session_trays_def)
  qed (simp add: T refresh_active_overlay_session_trays_def)
qed

lemma resize_to_screen_total:
  assumes rt: "runtime_obliges rt" and ok: "manager_ok M" and i: "number_ok i" and T: "tray_of i M = Inr T"
    and sz: "usable_size (tm_size M)"
  shows "\<exists>M'. resize_to_screen rt i M = Inr M'"
proof -
  from manager_okD(5) [OF ok i T] obtain t where "tray_inv T t" by (auto simp: good_tray_def)
  from tray_resize_inv [OF rt this manager_okD(3) [OF ok]] sz obtain T' where "tray_resize rt (tm_size M) T = Inr T'" by blast
  then show ?thesis using T by (simp add: resize_to_screen_def on_tray_def silent_def)
qed

lemma tray_start_total:
  assumes rt: "runtime_obliges rt" and sz: "usable_size (pc_initial_size config)" and cmd: "pc_command config \<noteq> []"
  shows "\<exists>T. tray_start rt i config = Inr T"
proof -
  from pane_start_total [OF rt sz cmd] obtain p where "pane_start rt config = Inr p" by blast
  moreover have "screen_fits (pc_initial_size config)" using sz by (simp add: screen_fits_def usable_size_def)
  ultimately show ?thesis using tray_start_inv by blast
qed

lemma ensure_tray_total:
  assumes rt: "runtime_obliges rt" and ok: "manager_ok M" and n: "number_ok (Anonymous_tray n)"
    and sz: "usable_size (tm_size M)" and cmd: "pc_command (tm_config M) \<noteq> []"
  shows "\<exists>M'. ensure_tray rt n M = Inr M'"
proof -
  have "array_at (tm_anonymous M) (tray_index n) = Inr (tm_anonymous M ! tray_index n)"
    using tray_index_less [OF n] manager_okD(1) [OF ok] by (simp add: array_at_def)
  moreover obtain T where "tray_start rt (Anonymous_tray n)
      \<lparr>pc_command = pc_command (tm_config M), pc_directory = pc_directory (tm_config M),
       pc_initial_size = tm_size M, pc_estimate = pc_estimate (tm_config M)\<rparr> = Inr T"
    using tray_start_total [OF rt, of "\<lparr>pc_command = pc_command (tm_config M), pc_directory = pc_directory (tm_config M),
       pc_initial_size = tm_size M, pc_estimate = pc_estimate (tm_config M)\<rparr>"] sz cmd by auto
  ultimately show ?thesis by (cases "tm_anonymous M ! tray_index n") (simp_all add: ensure_tray_def)
qed

lemma activate_one_total:
  assumes rt: "runtime_obliges rt" and ok: "manager_ok M"
    and sz: "usable_size (tm_size M)" and cmd: "pc_command (tm_config M) \<noteq> []"
  shows "\<exists>M'. activate_anonymous_tray_one rt M = Inr M'"
proof -
  let ?M = "M\<lparr>tm_active := Anonymous_tray tray_number_one\<rparr>"
  have ok': "manager_ok ?M" by (rule manager_ok_active [OF ok tray_one_ok])
  from ensure_tray_total [OF rt ok' tray_one_ok] sz cmd obtain M1 where M1: "ensure_tray rt tray_number_one ?M = Inr M1" by auto
  from ensure_tray_adds [OF ok' tray_one_ok M1] obtain T where
    "manager_ok M1" "tm_size M1 = tm_size M" "tray_of (Anonymous_tray tray_number_one) M1 = Inr T"
    by (auto simp: adds_def)
  with resize_to_screen_total [OF rt _ tray_one_ok] sz M1 show ?thesis
    unfolding activate_anonymous_tray_one_def by (metis and_then.simps(2))
qed

lemma destroy_tray_total:
  assumes rt: "runtime_obliges rt" and inv: "manager_inv M" and i: "number_ok i" and ov: "overlay_updates ov"
    and sz: "usable_size (tm_size M)" and cmd: "pc_command (tm_config M) \<noteq> []"
  shows "\<exists>b M'. destroy_tray rt ov i M = Inr (b, M')"
proof -
  have ok: "manager_ok M" and act: "\<exists>T. tray_of (tm_active M) M = Inr T"
    using inv by (auto simp: manager_inv_def active_tray_def)
  note D = manager_okD [OF ok]
  obtain b M1 where M1: "remove_tray i M = Inr (b, M1)"
    using D(1) i tray_index_less by (cases i) (auto simp: remove_tray_def array_at_def)
  note ok1 = remove_tray_ok [OF ok i M1]
  show ?thesis
  proof (cases b)
    case False
    then have "destroy_tray rt ov i M = Inr (False, M1)" using M1 by (simp add: destroy_tray_def)
    then show ?thesis by blast
  next
    case True
    have "\<exists>M2. (if i = tm_active M then activate_anonymous_tray_one rt M1 else Inr M1) = Inr M2 \<and> manager_inv M2"
    proof (cases "i = tm_active M")
      case True
      from activate_one_total [OF rt, of M1] ok1 sz cmd obtain M2 where
        M2: "activate_anonymous_tray_one rt M1 = Inr M2" by auto
      have "shows_tray (Anonymous_tray tray_number_one) M1 M2" using activate_one_shows [OF rt _ M2] ok1 by blast
      then show ?thesis using True M2 by (simp add: shows_tray_def)
    next
      case False
      have "\<exists>T. tray_of (tm_active M) M1 = Inr T" using tray_of_remove(1) [OF D(1) i D(4) M1] act False by metis
      then show ?thesis using False ok1 by (simp add: manager_inv_def active_tray_def)
    qed
    then obtain M2 where M2: "(if i = tm_active M then activate_anonymous_tray_one rt M1 else Inr M1) = Inr M2"
      "manager_inv M2" by blast
    from refresh_total [OF M2(2) ov] obtain M3 where "refresh_active_overlay_session_trays rt ov M2 = Inr M3" by blast
    then have "destroy_tray rt ov i M = Inr (True, M3)" using M1 True M2(1) ok1 by (simp add: destroy_tray_def)
    then show ?thesis by blast
  qed
qed

section \<open>Properties\<close>

text \<open>
  C18: In every state a sequence of requests to the tray manager reaches, the active tray
  exists, there are nine anonymous slots, the worktree trays are in path order, and every tray
  sits in the place of its own identifier and satisfies the invariant of a tray.
\<close>

lemma reachable_manager_consistent:
  assumes rt: "runtime_obliges rt" and fits: "screen_fits (pc_initial_size config)"
    and reach: "manager_reachable rt ov fs config M"
  shows "(\<exists>T. active_tray M = Inr T) \<and> number_ok (tm_active M) \<and> length (tm_anonymous M) = 9
     \<and> smap_ok (tm_worktrees M)
     \<and> (\<forall>i T. number_ok i \<longrightarrow> tray_of i M = Inr T \<longrightarrow> tr_id T = i \<and> (\<exists>t. tray_inv T t))"
proof -
  have inv: "manager_inv M" by (rule manager_reachable_inv [OF rt fits reach])
  then have ok: "manager_ok M" by (simp add: manager_inv_def)
  from inv manager_okD [OF ok] show ?thesis by (auto simp: manager_inv_def good_tray_def)
qed

lemma destroy_tray_correct:
  assumes rt: "runtime_obliges rt" and inv: "manager_inv M" and i: "number_ok i" and ov: "overlay_updates ov"
    and sz: "usable_size (tm_size M)" and cmd: "pc_command (tm_config M) \<noteq> []"
  shows "\<exists>b M'. destroy_tray rt ov i M = Inr (b, M') \<and> manager_inv M' \<and> (b \<longleftrightarrow> (\<exists>T. tray_of i M = Inr T))
    \<and> tm_active M' = (if i = tm_active M then Anonymous_tray 1 else tm_active M)
    \<and> (\<forall>j. number_ok j \<longrightarrow> ((\<exists>T. tray_of j M' = Inr T) \<longleftrightarrow>
         (if j = i then i = tm_active M \<and> i = Anonymous_tray 1 else
            (i = tm_active M \<and> j = Anonymous_tray 1) \<or> (\<exists>T. tray_of j M = Inr T))))"
proof -
  have one: "tray_number_one = 1" by (simp add: tray_number_one_def TRAY_MIN_VALUE_def)
  from destroy_tray_total [OF assms] obtain b M' where r: "destroy_tray rt ov i M = Inr (b, M')" by blast
  from destroy_tray_spec [OF rt inv i r, unfolded one] r show ?thesis by blast
qed

text \<open>The root of a worktree is the nearest marked directory on the way up.\<close>

definition upward :: "path \<Rightarrow> path list" where
  "upward p = map (\<lambda>n. take n p) (rev [1..<Suc (length p)])"

lemma upward_snoc: "upward (p @ [e]) = (p @ [e]) # upward p"
  by (auto simp: upward_def)

lemma marked_ancestor_finds: "marked_ancestor fs p = List.find (has_git_marker fs) (upward p)"
proof (induction p rule: rev_induct)
  case Nil
  then show ?case by (simp add: marked_ancestor.simps upward_def)
next
  case (snoc e p)
  show ?case
  proof (cases "p @ [e] = root_path (p @ [e])")
    case True
    then have "p = []" by (auto simp: root_path_def root_directory_def split: if_splits)
    then show ?thesis using True by (simp add: marked_ancestor.simps [of fs "[e]"] upward_def)
  next
    case False
    then have "p @ [e] \<noteq> root_directory" by (auto simp: root_path_def root_directory_def)
    then have "parent_path (p @ [e]) = p" by (simp add: parent_path_def)
    then show ?thesis using False snoc marked_ancestor.simps [of fs "p @ [e]"] by (simp add: upward_snoc)
  qed
qed

lemma worktree_root_for_nearest:
  "worktree_root_for fs p = Inr root \<longleftrightarrow>
     p \<noteq> [] \<and> (\<exists>c d. fs_weakly_canonical fs p = Some c \<and> fs_is_directory fs c = Inr d
       \<and> List.find (has_git_marker fs) (upward (if d then c else parent_path c)) = Some root)"
  by (simp add: worktree_root_for_def canonical_path_def result_simps marked_ancestor_finds)

text \<open>A tray is found by the key of its identifier.\<close>

lemma find_only: "\<forall>j \<in> set xs. P j \<longrightarrow> j = i \<Longrightarrow> i \<in> set xs \<Longrightarrow> P i \<Longrightarrow> List.find P xs = Some i"
proof (induction xs)
  case (Cons x xs)
  show ?case
  proof (cases "P x")
    case True
    then have "x = i" using Cons.prems(1) by (meson list.set_intros(1))
    then show ?thesis using True by simp
  next
    case False
    then have "i \<in> set xs" using Cons.prems(2,3) by auto
    moreover have "\<forall>j \<in> set xs. P j \<longrightarrow> j = i" using Cons.prems(1) by (meson list.set_intros(2))
    ultimately have "List.find P xs = Some i" using Cons.IH Cons.prems(3) by blast
    then show ?thesis using False by simp
  qed
qed simp

lemma tray_of_live: "manager_ok M \<Longrightarrow> number_ok i \<Longrightarrow> tray_of i M = Inr T \<Longrightarrow> i \<in> set (live_ids M)"
proof (cases i)
  case (Anonymous_tray n)
  assume "manager_ok M" "number_ok i" "tray_of i M = Inr T"
  then have "tray_index n < length (tm_anonymous M)" "tm_anonymous M ! tray_index n = Some T"
    "n = TRAY_MIN_VALUE + int (tray_index n)"
    using Anonymous_tray by (auto simp: tray_of_def array_at_def result_simps number_ok_def tray_index_def split: if_splits)
  then have "n = TRAY_MIN_VALUE + int (tray_index n)
      \<and> tray_index n \<in> set (filter (\<lambda>n. tm_anonymous M ! n \<noteq> None) [0..<length (tm_anonymous M)])" by simp
  then have "i \<in> set (map (\<lambda>n. Anonymous_tray (TRAY_MIN_VALUE + int n))
      (filter (\<lambda>n. tm_anonymous M ! n \<noteq> None) [0..<length (tm_anonymous M)]))"
    unfolding Anonymous_tray set_map by (metis (no_types, lifting) image_eqI)
  then show ?thesis by (simp add: live_ids_def)
next
  case (Worktree_tray root)
  assume "tray_of i M = Inr T"
  then have "(root, T) \<in> set (tm_worktrees M)"
    using Worktree_tray by (auto simp: tray_of_def worktree_tray_def result_simps smap_find_def dest: map_of_SomeD)
  then show ?thesis unfolding Worktree_tray live_ids_def by force
qed

lemma found_by_key:
  assumes ok: "manager_ok M" and i: "number_ok i" and T: "tray_of i M = Inr T"
    and ids: "\<forall>j \<in> set (live_ids M). tray_id_ok j"
  shows "find_tray_by_key (tray_key i) M = Some i"
proof -
  let ?P = "\<lambda>j. case tray_of j M of Inl _ \<Rightarrow> False | Inr T \<Rightarrow> tray_key (tr_id T) = tray_key i"
  have live: "i \<in> set (live_ids M)" by (rule tray_of_live [OF ok i T])
  have "j = i" if "j \<in> set (live_ids M)" "?P j" for j
  proof -
    have j: "number_ok j" using live_ids_ok [OF ok that(1)] .
    from that(2) obtain T' where T': "tray_of j M = Inr T'" "tray_key (tr_id T') = tray_key i" by (auto split: sum.splits)
    then have "tray_key j = tray_key i" using manager_okD(5) [OF ok j T'(1)] by (simp add: good_tray_def)
    then show ?thesis using tray_key_inj ids that(1) live by blast
  qed
  moreover have "?P i" using T manager_okD(5) [OF ok i T] by (simp add: good_tray_def)
  ultimately show ?thesis unfolding find_tray_by_key_def by (intro find_only live) blast+
qed

section \<open>A manager with one tray\<close>

definition calm_view :: "unit overlay_view" where
  "calm_view = \<lparr>ov_process_descriptor = \<lambda>o'. None, ov_preview_request = \<lambda>o'. None, ov_redraw_output = \<lambda>o'. [],
     ov_update_session_trays = \<lambda>snapshots o'. Inr ()\<rparr>"

definition marked_home :: file_system where
  "marked_home = \<lparr>fs_weakly_canonical = Some, fs_is_directory = \<lambda>p. Inr (p \<noteq> [''/'', ''home'', ''code'', ''a.c'']),
     fs_exists = \<lambda>p. p = [''/'', ''home'', ''.git'']\<rparr>"

lemma shell_manager_of:
  fixes rt :: "('c, 's, 'o) pane_runtime"
  assumes rt: "runtime_obliges rt"
  obtains M where "manager_start rt shell_config = Inr M" "manager_inv M" "tm_active M = Anonymous_tray 1"
    "usable_size (tm_size M)" "pc_command (tm_config M) \<noteq> []" "\<exists>T. tray_of (Anonymous_tray 1) M = Inr T"
proof -
  let ?M = "\<lparr>tm_config = shell_config, tm_size = pc_initial_size shell_config, tm_active = Anonymous_tray tray_number_one,
     tm_anonymous = replicate (nat TRAY_MAX_VALUE) None, tm_worktrees = []\<rparr> :: ('c, 's, 'o) tray_manager"
  have none: "\<nexists>T. tray_of j ?M = Inr T" for j
    by (auto simp: tray_of_def worktree_tray_def array_at_def smap_find_def split: tray_id.split)
  then have ok: "manager_ok ?M" using shell_fits tray_one_ok by (auto simp: manager_ok_def smap_ok_def)
  have sz: "usable_size (tm_size ?M)" "pc_command (tm_config ?M) \<noteq> []" by (simp_all add: usable_size_def shell_config_def)
  from ensure_tray_total [OF rt ok tray_one_ok this] obtain M where
    M: "ensure_tray rt tray_number_one ?M = Inr M" by blast
  then have start: "manager_start rt shell_config = Inr M"
    by (simp add: manager_start_def shell_config_def)
  from ensure_tray_adds [OF ok tray_one_ok M] sz have "usable_size (tm_size M)" "pc_command (tm_config M) \<noteq> []"
    by (simp_all add: adds_def)
  moreover have "number_ok (Anonymous_tray 1)" using tray_one_ok by (simp add: tray_number_one_def TRAY_MIN_VALUE_def)
  ultimately show ?thesis using manager_start_inv [OF shell_fits start] start that by blast
qed

lemmas shell_manager = shell_manager_of [OF calm_obliges]

lemma reachable_manager_consistent_witness:
  "\<exists>M. manager_reachable calm_runtime calm_view marked_home shell_config M \<and> (\<exists>T. active_tray M = Inr T)"
proof -
  obtain M where M: "manager_start calm_runtime shell_config = Inr M" by (rule shell_manager)
  then have "manager_reachable calm_runtime calm_view marked_home shell_config M" by (rule manager_reachable.started)
  with reachable_manager_consistent [OF calm_obliges shell_fits this] show ?thesis by blast
qed

lemma destroy_tray_correct_witness:
  "\<exists>M M'. manager_start calm_runtime shell_config = Inr M
     \<and> destroy_tray calm_runtime calm_view (Anonymous_tray 1) M = Inr (True, M') \<and> manager_inv M'
     \<and> tm_active M' = Anonymous_tray 1"
proof -
  obtain M where M: "manager_start calm_runtime shell_config = Inr M" "manager_inv M" "tm_active M = Anonymous_tray 1"
    "usable_size (tm_size M)" "pc_command (tm_config M) \<noteq> []" "\<exists>T. tray_of (Anonymous_tray 1) M = Inr T"
    by (rule shell_manager)
  have "number_ok (Anonymous_tray 1)" "overlay_updates calm_view"
    by (simp_all add: number_ok_def TRAY_MIN_VALUE_def TRAY_MAX_VALUE_def overlay_updates_def calm_view_def)
  from destroy_tray_correct [OF calm_obliges M(2) this M(4,5)] M(1,3,6) show ?thesis by auto
qed

lemma found_by_key_witness:
  "\<exists>M. manager_start calm_runtime shell_config = Inr M
     \<and> find_tray_by_key ''anonymous:1'' M = Some (Anonymous_tray 1)"
proof -
  obtain M where M: "manager_start calm_runtime shell_config = Inr M" "manager_inv M"
    "\<exists>T. tray_of (Anonymous_tray 1) M = Inr T" by (rule shell_manager)
  then obtain T where T: "tray_of (Anonymous_tray 1) M = Inr T" by blast
  have ok: "manager_ok M" using M(2) by (simp add: manager_inv_def)
  have one: "number_ok (Anonymous_tray 1)" by (simp add: number_ok_def TRAY_MIN_VALUE_def TRAY_MAX_VALUE_def)
  have "tm_worktrees M = []"
    using M(1) by (auto simp: manager_start_def ensure_tray_def put_tray_def result_simps split: option.splits)
  then have "\<exists>n. j = Anonymous_tray n" if "j \<in> set (live_ids M)" for j
    using that by (auto simp: live_ids_def)
  then have "\<forall>j \<in> set (live_ids M). tray_id_ok j"
    using live_ids_ok [OF ok] by (fastforce simp: tray_id_ok_def number_ok_def)
  from found_by_key [OF ok one T this] have "find_tray_by_key (tray_key (Anonymous_tray 1)) M = Some (Anonymous_tray 1)" .
  moreover have "tray_key (Anonymous_tray 1) = ''anonymous:1''" by code_simp
  ultimately show ?thesis using M(1) by auto
qed

end
