(* ===== verification/Input_Protocol.thy ===== *)
theory Input_Protocol
  imports Tray_Id
begin

text \<open>
  What a terminal client types (src/src/parent/input/): the two-byte commands, their encoding
  and decoding (parent_input_protocol.cc), and the decoder that separates them from literal
  input across reads (parent_input_decoder.cc). The byte of every command is decoded to that
  command, and the decoder neither loses nor invents a byte, however the input is cut.
\<close>

section \<open>Commands\<close>

datatype tray_action_intent = Intent_CLEAR | Intent_REMOVE

datatype confirmation_decision = Decision_CONFIRM | Decision_CANCEL

datatype overlay_navigation =
    Navigation_UP | Navigation_DOWN | Navigation_RIGHT | Navigation_LEFT
  | Navigation_TAB | Navigation_BACKTAB | Navigation_ENTER

datatype pane_command_action =
    Action_UP | Action_DOWN | Action_LEFT | Action_RIGHT
  | Action_SPLIT_LEFT_TO_RIGHT | Action_SPLIT_ABOVE_BELOW | Action_TOGGLE_SELECTION_OR_SWAP
  | Action_PROMOTE | Action_DESCEND | Action_GROW | Action_SHRINK | Action_EQUALIZE
  | Action_TOGGLE_MOVE | Action_CONFIRM_MOVE | Action_ROTATE | Action_TOGGLE_MAXIMIZE | Action_CLOSE

datatype parent_input_command =
    Toggle_command_mode
  | Switch_anonymous_tray tray_number
  | Toggle_worktree_overlay
  | Begin_tray_action tray_action_intent
  | Resolve_tray_action confirmation_decision
  | Navigate_overlay overlay_navigation
  | Pane_command pane_command_action

definition PARENT_INPUT_COMMAND_PREFIX :: char where
  "PARENT_INPUT_COMMAND_PREFIX = CHR 0x18"

definition is_parent_input_command_prefix :: "char \<Rightarrow> bool" where
  "is_parent_input_command_prefix byte \<longleftrightarrow> byte = PARENT_INPUT_COMMAND_PREFIX"

fun navigation_byte :: "overlay_navigation \<Rightarrow> char" where
  "navigation_byte Navigation_UP = CHR ''A''"
| "navigation_byte Navigation_DOWN = CHR ''B''"
| "navigation_byte Navigation_RIGHT = CHR ''C''"
| "navigation_byte Navigation_LEFT = CHR ''D''"
| "navigation_byte Navigation_TAB = CHR ''I''"
| "navigation_byte Navigation_BACKTAB = CHR ''Z''"
| "navigation_byte Navigation_ENTER = CHR ''M''"

fun action_byte :: "pane_command_action \<Rightarrow> char" where
  "action_byte Action_UP = CHR ''i''"
| "action_byte Action_DOWN = CHR ''k''"
| "action_byte Action_LEFT = CHR ''j''"
| "action_byte Action_RIGHT = CHR ''l''"
| "action_byte Action_SPLIT_LEFT_TO_RIGHT = CHR ''v''"
| "action_byte Action_SPLIT_ABOVE_BELOW = CHR ''h''"
| "action_byte Action_TOGGLE_SELECTION_OR_SWAP = CHR ''s''"
| "action_byte Action_PROMOTE = CHR ''[''"
| "action_byte Action_DESCEND = CHR '']''"
| "action_byte Action_GROW = CHR ''+''"
| "action_byte Action_SHRINK = CHR ''-''"
| "action_byte Action_EQUALIZE = CHR ''=''"
| "action_byte Action_TOGGLE_MOVE = CHR ''m''"
| "action_byte Action_CONFIRM_MOVE = CHR 0x0D"
| "action_byte Action_ROTATE = CHR ''t''"
| "action_byte Action_TOGGLE_MAXIMIZE = CHR ''z''"
| "action_byte Action_CLOSE = CHR ''x''"

fun command_byte :: "parent_input_command \<Rightarrow> char" where
  "command_byte Toggle_command_mode = CHR ''e''"
| "command_byte (Switch_anonymous_tray n) = char_of (nat (48 + n))"
| "command_byte Toggle_worktree_overlay = CHR ''w''"
| "command_byte (Begin_tray_action a) = (if a = Intent_CLEAR then CHR ''c'' else CHR ''r'')"
| "command_byte (Resolve_tray_action d) = (if d = Decision_CONFIRM then CHR ''y'' else CHR ''n'')"
| "command_byte (Navigate_overlay n) = navigation_byte n"
| "command_byte (Pane_command a) = action_byte a"

definition encode_parent_input_command :: "parent_input_command \<Rightarrow> string" where
  "encode_parent_input_command command = [PARENT_INPUT_COMMAND_PREFIX, command_byte command]"

text \<open>The switch over the bytes that are not digits.\<close>

definition decode_letter :: "char \<Rightarrow> parent_input_command option" where
  "decode_letter b =
     (if b = CHR ''e'' then Some Toggle_command_mode
      else if b = CHR ''w'' then Some Toggle_worktree_overlay
      else if b = CHR ''c'' then Some (Begin_tray_action Intent_CLEAR)
      else if b = CHR ''r'' then Some (Begin_tray_action Intent_REMOVE)
      else if b = CHR ''y'' then Some (Resolve_tray_action Decision_CONFIRM)
      else if b = CHR ''n'' then Some (Resolve_tray_action Decision_CANCEL)
      else if b = CHR ''A'' then Some (Navigate_overlay Navigation_UP)
      else if b = CHR ''B'' then Some (Navigate_overlay Navigation_DOWN)
      else if b = CHR ''C'' then Some (Navigate_overlay Navigation_RIGHT)
      else if b = CHR ''D'' then Some (Navigate_overlay Navigation_LEFT)
      else if b = CHR ''I'' then Some (Navigate_overlay Navigation_TAB)
      else if b = CHR ''Z'' then Some (Navigate_overlay Navigation_BACKTAB)
      else if b = CHR ''M'' then Some (Navigate_overlay Navigation_ENTER)
      else if b = CHR ''i'' then Some (Pane_command Action_UP)
      else if b = CHR ''k'' then Some (Pane_command Action_DOWN)
      else if b = CHR ''j'' then Some (Pane_command Action_LEFT)
      else if b = CHR ''l'' then Some (Pane_command Action_RIGHT)
      else if b = CHR ''v'' then Some (Pane_command Action_SPLIT_LEFT_TO_RIGHT)
      else if b = CHR ''h'' then Some (Pane_command Action_SPLIT_ABOVE_BELOW)
      else if b = CHR ''s'' then Some (Pane_command Action_TOGGLE_SELECTION_OR_SWAP)
      else if b = CHR ''['' then Some (Pane_command Action_PROMOTE)
      else if b = CHR '']'' then Some (Pane_command Action_DESCEND)
      else if b = CHR ''+'' then Some (Pane_command Action_GROW)
      else if b = CHR ''-'' then Some (Pane_command Action_SHRINK)
      else if b = CHR ''='' then Some (Pane_command Action_EQUALIZE)
      else if b = CHR ''m'' then Some (Pane_command Action_TOGGLE_MOVE)
      else if b = CHR 0x0D then Some (Pane_command Action_CONFIRM_MOVE)
      else if b = CHR ''t'' then Some (Pane_command Action_ROTATE)
      else if b = CHR ''z'' then Some (Pane_command Action_TOGGLE_MAXIMIZE)
      else if b = CHR ''x'' then Some (Pane_command Action_CLOSE)
      else None)"

definition decode_parent_input_command :: "char \<Rightarrow> parent_input_command option" where
  "decode_parent_input_command b =
     (case (if 49 \<le> (of_char b :: int) \<and> (of_char b :: int) \<le> 57
            then tray_number_from_int (of_char b - 48) else None) of
       Some n \<Rightarrow> Some (Switch_anonymous_tray n)
     | None \<Rightarrow> decode_letter b)"

section \<open>The decoder\<close>

datatype decoder_state = Literal_input_state | Command_byte_state

datatype parent_input_event = Literal_input string | Command_input parent_input_command

record input_decoder =
  dc_state :: decoder_state
  dc_pending :: char

definition initial_decoder :: input_decoder where
  "initial_decoder = \<lparr>dc_state = Literal_input_state, dc_pending = CHR 0x00\<rparr>"

text \<open>The locals of \<open>consume\<close>: the decoder, the literal bytes not yet emitted, the events.\<close>

record consumption =
  cn_decoder :: input_decoder
  cn_literal :: string
  cn_events :: "parent_input_event list"

definition flush_literal_bytes :: "consumption \<Rightarrow> consumption" where
  "flush_literal_bytes s =
     (if cn_literal s = [] then s
      else s\<lparr>cn_events := cn_events s @ [Literal_input (cn_literal s)], cn_literal := []\<rparr>)"

definition consume_byte :: "char \<Rightarrow> consumption \<Rightarrow> consumption" where
  "consume_byte byte s =
     (if dc_state (cn_decoder s) = Literal_input_state then
        (if is_parent_input_command_prefix byte then
           (flush_literal_bytes s)\<lparr>cn_decoder := \<lparr>dc_state = Command_byte_state, dc_pending = byte\<rparr>\<rparr>
         else s\<lparr>cn_literal := cn_literal s @ [byte]\<rparr>)
      else
        (case decode_parent_input_command byte of
           Some command \<Rightarrow> s\<lparr>cn_events := cn_events s @ [Command_input command],
             cn_decoder := (cn_decoder s)\<lparr>dc_state := Literal_input_state\<rparr>\<rparr>
         | None \<Rightarrow> s\<lparr>cn_events := cn_events s @ [Literal_input [dc_pending (cn_decoder s)], Literal_input [byte]],
             cn_decoder := (cn_decoder s)\<lparr>dc_state := Literal_input_state\<rparr>\<rparr>))"

definition consume :: "input_decoder \<Rightarrow> string \<Rightarrow> parent_input_event list \<times> input_decoder" where
  "consume D bytes =
     (let s = flush_literal_bytes (fold consume_byte bytes
            \<lparr>cn_decoder = D, cn_literal = [], cn_events = []\<rparr>)
      in (cn_events s, cn_decoder s))"

section \<open>Commands and their bytes\<close>

definition command_ok :: "parent_input_command \<Rightarrow> bool" where
  "command_ok c = (case c of Switch_anonymous_tray n \<Rightarrow> tray_number_from_int n = Some n | _ \<Rightarrow> True)"

lemma decode_digit:
  assumes "1 \<le> n" "n \<le> 9"
  shows "decode_parent_input_command (char_of (nat (48 + n))) = Some (Switch_anonymous_tray n)"
proof -
  have "of_char (char_of (nat (48 + n)) :: char) = (48 + n :: int)"
  proof -
    have "(of_char (char_of (nat (48 + n)) :: char) :: nat) = nat (48 + n)" using assms by simp
    then have "int (of_char (char_of (nat (48 + n)) :: char)) = int (nat (48 + n))" by (rule arg_cong)
    moreover have "int (nat (48 + n)) = 48 + n" using assms by simp
    ultimately show ?thesis by (metis of_nat_of_char)
  qed
  then show ?thesis using assms
    by (simp add: decode_parent_input_command_def tray_number_from_int_def TRAY_MIN_VALUE_def TRAY_MAX_VALUE_def)
qed

lemma decode_command_byte: "command_ok c \<Longrightarrow> decode_parent_input_command (command_byte c) = Some c"
proof (cases c)
  case (Switch_anonymous_tray n)
  assume "command_ok c"
  then show ?thesis using Switch_anonymous_tray decode_digit [of n]
    by (auto simp: command_ok_def tray_number_from_int_def TRAY_MIN_VALUE_def TRAY_MAX_VALUE_def split: if_splits)
next
  case (Begin_tray_action a)
  then show ?thesis by (cases a) (simp_all add: decode_parent_input_command_def decode_letter_def)
next
  case (Resolve_tray_action d)
  then show ?thesis by (cases d) (simp_all add: decode_parent_input_command_def decode_letter_def)
next
  case (Navigate_overlay n)
  then show ?thesis by (cases n) (simp_all add: decode_parent_input_command_def decode_letter_def)
next
  case (Pane_command a)
  then show ?thesis by (cases a) (simp_all add: decode_parent_input_command_def decode_letter_def)
qed (simp_all add: decode_parent_input_command_def decode_letter_def)

lemma decode_letter_byte: "decode_letter b = Some c \<Longrightarrow> command_byte c = b \<and> command_ok c"
  unfolding decode_letter_def by (auto simp: command_ok_def split: if_splits)

lemma command_byte_decode:
  assumes "decode_parent_input_command b = Some c"
  shows "command_byte c = b \<and> command_ok c"
proof (cases "49 \<le> (of_char b :: int) \<and> (of_char b :: int) \<le> 57")
  case True
  then have "c = Switch_anonymous_tray (of_char b - 48)"
    using assms by (auto simp: decode_parent_input_command_def tray_number_from_int_def TRAY_MIN_VALUE_def
        TRAY_MAX_VALUE_def split: if_splits)
  moreover have "nat (of_char b :: int) = (of_char b :: nat)" by (metis nat_int of_nat_of_char)
  then have "char_of (nat (of_char b :: int)) = b" by simp
  ultimately show ?thesis using True
    by (simp add: command_ok_def tray_number_from_int_def TRAY_MIN_VALUE_def TRAY_MAX_VALUE_def)
next
  case False
  then show ?thesis using assms decode_letter_byte by (auto simp: decode_parent_input_command_def split: if_splits)
qed

text \<open>A byte means a command exactly when it is that command's byte.\<close>

text \<open>
  C16: Every input command whose tray number is in range is encoded as the prefix and one byte
  that decodes to that command, and every byte that decodes is the byte of the command it
  decodes to.
\<close>

lemma command_bytes_roundtrip:
  "decode_parent_input_command b = Some c \<longleftrightarrow> command_ok c \<and> encode_parent_input_command c = [PARENT_INPUT_COMMAND_PREFIX, b]"
  using decode_command_byte command_byte_decode by (auto simp: encode_parent_input_command_def)

section \<open>What the decoder emits\<close>

text \<open>Events as a stream of single bytes and commands, and the bytes they stand for.\<close>

fun event_tokens :: "parent_input_event \<Rightarrow> (char + parent_input_command) list" where
  "event_tokens (Literal_input s) = map Inl s"
| "event_tokens (Command_input c) = [Inr c]"

definition tokens :: "parent_input_event list \<Rightarrow> (char + parent_input_command) list" where
  "tokens es = concat (map event_tokens es)"

fun event_bytes :: "parent_input_event \<Rightarrow> string" where
  "event_bytes (Literal_input s) = s"
| "event_bytes (Command_input c) = encode_parent_input_command c"

definition events_bytes :: "parent_input_event list \<Rightarrow> string" where
  "events_bytes es = concat (map event_bytes es)"

definition pending_bytes :: "input_decoder \<Rightarrow> string" where
  "pending_bytes D = (if dc_state D = Command_byte_state then [dc_pending D] else [])"

lemma stream_simps [simp]:
  "tokens [] = []" "tokens (es @ fs) = tokens es @ tokens fs" "tokens [e] = event_tokens e"
  "tokens (e # es) = event_tokens e @ tokens es"
  "events_bytes [] = []" "events_bytes (es @ fs) = events_bytes es @ events_bytes fs"
  "events_bytes (e # es) = event_bytes e @ events_bytes es"
  by (simp_all add: tokens_def events_bytes_def)

definition emitted :: "consumption \<Rightarrow> (char + parent_input_command) list" where
  "emitted s = tokens (cn_events s) @ map Inl (cn_literal s)"

definition emitted_bytes :: "consumption \<Rightarrow> string" where
  "emitted_bytes s = events_bytes (cn_events s) @ cn_literal s @ pending_bytes (cn_decoder s)"

lemma flush_emits [simp]:
  "emitted (flush_literal_bytes s) = emitted s" "cn_literal (flush_literal_bytes s) = []"
  "cn_decoder (flush_literal_bytes s) = cn_decoder s"
  "tokens (cn_events (flush_literal_bytes s)) = emitted s"
  "events_bytes (cn_events (flush_literal_bytes s)) = events_bytes (cn_events s) @ cn_literal s"
  by (auto simp: flush_literal_bytes_def emitted_def)

text \<open>One byte, seen from outside: the decoder alone decides what is emitted.\<close>

definition decode_byte :: "char \<Rightarrow> input_decoder \<Rightarrow> (char + parent_input_command) list \<times> input_decoder" where
  "decode_byte b D =
     (if dc_state D = Literal_input_state then
        (if b = PARENT_INPUT_COMMAND_PREFIX then ([], \<lparr>dc_state = Command_byte_state, dc_pending = b\<rparr>)
         else ([Inl b], D))
      else (case decode_parent_input_command b of
          Some c \<Rightarrow> ([Inr c], D\<lparr>dc_state := Literal_input_state\<rparr>)
        | None \<Rightarrow> ([Inl (dc_pending D), Inl b], D\<lparr>dc_state := Literal_input_state\<rparr>)))"

fun decode_stream :: "string \<Rightarrow> input_decoder \<Rightarrow> (char + parent_input_command) list \<times> input_decoder" where
  "decode_stream [] D = ([], D)"
| "decode_stream (b # bs) D = (let (e, D1) = decode_byte b D; (es, D2) = decode_stream bs D1 in (e @ es, D2))"

lemma decode_stream_append:
  "decode_stream (as @ bs) D = (let (e, D1) = decode_stream as D; (es, D2) = decode_stream bs D1 in (e @ es, D2))"
  by (induction as arbitrary: D) (auto simp: Let_def split: prod.splits)

text \<open>Between bytes, a decoder that waits for a command byte has nothing buffered.\<close>

definition consumption_ok :: "consumption \<Rightarrow> bool" where
  "consumption_ok s \<longleftrightarrow> (dc_state (cn_decoder s) = Command_byte_state \<longrightarrow> cn_literal s = [])"

lemma consume_byte_emits:
  assumes "consumption_ok s"
  shows "emitted (consume_byte b s) = emitted s @ fst (decode_byte b (cn_decoder s))"
    "cn_decoder (consume_byte b s) = snd (decode_byte b (cn_decoder s))" "consumption_ok (consume_byte b s)"
  using assms flush_emits(1) [of s] unfolding emitted_def consume_byte_def decode_byte_def consumption_ok_def
    is_parent_input_command_prefix_def
  by (cases "dc_state (cn_decoder s)"; auto split: option.splits)+

lemma fold_consume:
  "consumption_ok s \<Longrightarrow> emitted (fold consume_byte bs s) = emitted s @ fst (decode_stream bs (cn_decoder s))
     \<and> cn_decoder (fold consume_byte bs s) = snd (decode_stream bs (cn_decoder s))"
proof (induction bs arbitrary: s)
  case (Cons b bs)
  from consume_byte_emits [OF Cons.prems, of b] Cons.IH [of "consume_byte b s"] show ?case
    by (simp add: Let_def split: prod.splits)
qed simp

lemma consume_stream:
  "tokens (fst (consume D bs)) = fst (decode_stream bs D)" "snd (consume D bs) = snd (decode_stream bs D)"
proof -
  let ?s = "\<lparr>cn_decoder = D, cn_literal = [], cn_events = []\<rparr>"
  have "consumption_ok ?s" by (simp add: consumption_ok_def)
  from fold_consume [OF this, of bs] show "tokens (fst (consume D bs)) = fst (decode_stream bs D)"
    "snd (consume D bs) = snd (decode_stream bs D)"
    by (simp_all add: consume_def Let_def emitted_def)
qed

text \<open>
  C17: However the input bytes are cut into chunks, the decoder emits the same literal bytes
  and commands in the same order and ends in the same state.
\<close>

lemma chunks_do_not_matter:
  "tokens (fst (consume D (as @ bs))) = tokens (fst (consume D as)) @ tokens (fst (consume (snd (consume D as)) bs))
   \<and> snd (consume D (as @ bs)) = snd (consume (snd (consume D as)) bs)"
  by (simp add: consume_stream decode_stream_append Let_def split: prod.splits)

text \<open>Every byte read is in an event or still pending.\<close>

definition decoder_ok :: "input_decoder \<Rightarrow> bool" where
  "decoder_ok D \<longleftrightarrow> (dc_state D = Command_byte_state \<longrightarrow> dc_pending D = PARENT_INPUT_COMMAND_PREFIX)"

lemma consume_byte_bytes:
  assumes "consumption_ok s" "decoder_ok (cn_decoder s)"
  shows "emitted_bytes (consume_byte b s) = emitted_bytes s @ [b]" "decoder_ok (cn_decoder (consume_byte b s))"
  using assms command_byte_decode [of b] unfolding emitted_bytes_def consume_byte_def consumption_ok_def decoder_ok_def
    is_parent_input_command_prefix_def
  by (cases "dc_state (cn_decoder s)"; auto simp: pending_bytes_def encode_parent_input_command_def split: option.splits)+

lemma fold_consume_bytes:
  "consumption_ok s \<Longrightarrow> decoder_ok (cn_decoder s) \<Longrightarrow>
   emitted_bytes (fold consume_byte bs s) = emitted_bytes s @ bs \<and> decoder_ok (cn_decoder (fold consume_byte bs s))"
proof (induction bs arbitrary: s)
  case (Cons b bs)
  from consume_byte_bytes [OF Cons.prems, of b] consume_byte_emits(3) [OF Cons.prems(1), of b]
    Cons.IH [of "consume_byte b s"] show ?case by simp
qed simp

lemma no_byte_lost:
  assumes "decoder_ok D"
  shows "pending_bytes D @ bs = events_bytes (fst (consume D bs)) @ pending_bytes (snd (consume D bs))
     \<and> decoder_ok (snd (consume D bs))"
proof -
  let ?s = "\<lparr>cn_decoder = D, cn_literal = [], cn_events = []\<rparr>"
  have "consumption_ok ?s" by (simp add: consumption_ok_def)
  from fold_consume_bytes [OF this, of bs] assms show ?thesis
    by (simp add: consume_def Let_def emitted_bytes_def)
qed

lemma no_byte_lost_witness:
  "events_bytes (fst (consume initial_decoder [CHR 0x18, CHR ''v'', CHR ''a'', CHR 0x18]))
     @ pending_bytes (snd (consume initial_decoder [CHR 0x18, CHR ''v'', CHR ''a'', CHR 0x18]))
   = [CHR 0x18, CHR ''v'', CHR ''a'', CHR 0x18]"
proof -
  have d: "decoder_ok initial_decoder" and p: "pending_bytes initial_decoder = []"
    by (simp_all add: decoder_ok_def initial_decoder_def pending_bytes_def)
  show ?thesis using no_byte_lost [OF d, of "[CHR 0x18, CHR ''v'', CHR ''a'', CHR 0x18]"] unfolding p by simp
qed

end
