(* ===== verification/Overlay_Workflow.thy ===== *)
theory Overlay_Workflow
  imports Text
begin

text \<open>
  The form of the worktree dialog: a one-line text field that edits whole UTF-8 code points
  (src/src/parent/worktree/overlay/terminal_text_field.h, terminal_text_field.cc) and the mode,
  stage, fields and error messages of the dialog
  (src/src/parent/worktree/overlay/workflow/worktree_overlay_workflow_state.h and .cc).
\<close>

section \<open>A text field\<close>

record text_field =
  tf_value :: string
  tf_cursor :: nat

definition is_continuation :: "char \<Rightarrow> bool" where
  "is_continuation c \<longleftrightarrow> (of_char c :: nat) div 64 = 2"

text \<open>The loop walks back over continuation bytes to the byte that starts the code point.\<close>

fun back_to_start :: "string \<Rightarrow> nat \<Rightarrow> nat" where
  "back_to_start s 0 = 0"
| "back_to_start s (Suc n) = (if is_continuation (s ! Suc n) then back_to_start s n else Suc n)"

definition previous_utf8_code_point_start :: "string \<Rightarrow> nat \<Rightarrow> nat" where
  "previous_utf8_code_point_start s offset = (if offset = 0 then 0 else back_to_start s (offset - 1))"

definition next_utf8_code_point_end :: "string \<Rightarrow> nat \<Rightarrow> nat" where
  "next_utf8_code_point_end s offset =
     (if offset \<ge> length s then length s
      else offset + 1 + length (takeWhile is_continuation (drop (offset + 1) s)))"

definition empty_field :: text_field where
  "empty_field = \<lparr>tf_value = [], tf_cursor = 0\<rparr>"

definition field_clear :: "text_field \<Rightarrow> text_field" where
  "field_clear f = f\<lparr>tf_value := [], tf_cursor := 0\<rparr>"

definition field_set_value :: "string \<Rightarrow> text_field \<Rightarrow> text_field" where
  "field_set_value v f = f\<lparr>tf_value := v, tf_cursor := length v\<rparr>"

definition move_cursor_left :: "text_field \<Rightarrow> text_field" where
  "move_cursor_left f = f\<lparr>tf_cursor := previous_utf8_code_point_start (tf_value f) (tf_cursor f)\<rparr>"

definition move_cursor_right :: "text_field \<Rightarrow> text_field" where
  "move_cursor_right f = f\<lparr>tf_cursor := next_utf8_code_point_end (tf_value f) (tf_cursor f)\<rparr>"

definition move_cursor_to_start :: "text_field \<Rightarrow> text_field" where
  "move_cursor_to_start f = f\<lparr>tf_cursor := 0\<rparr>"

definition move_cursor_to_end :: "text_field \<Rightarrow> text_field" where
  "move_cursor_to_end f = f\<lparr>tf_cursor := length (tf_value f)\<rparr>"

text \<open>\<open>string::insert\<close> and \<open>string::erase\<close> throw when the position is past the end.\<close>

definition field_insert :: "char \<Rightarrow> text_field \<Rightarrow> text_field result" where
  "field_insert byte f =
     throw_if (tf_cursor f > length (tf_value f)) (Out_of_range ''string::insert'')
       (Inr (f\<lparr>tf_value := take (tf_cursor f) (tf_value f) @ byte # drop (tf_cursor f) (tf_value f),
            tf_cursor := tf_cursor f + 1\<rparr>))"

definition field_erase :: "nat \<Rightarrow> nat \<Rightarrow> string \<Rightarrow> string result" where
  "field_erase position n s =
     throw_if (position > length s) (Out_of_range ''string::erase'')
       (Inr (take position s @ drop (position + n) s))"

definition field_backspace :: "text_field \<Rightarrow> text_field result" where
  "field_backspace f =
     (let previous = previous_utf8_code_point_start (tf_value f) (tf_cursor f) in
      and_then (field_erase previous (tf_cursor f - previous) (tf_value f)) (\<lambda>v.
      Inr (f\<lparr>tf_value := v, tf_cursor := previous\<rparr>)))"

definition delete_at_cursor :: "text_field \<Rightarrow> text_field result" where
  "delete_at_cursor f =
     (let next = next_utf8_code_point_end (tf_value f) (tf_cursor f) in
      and_then (field_erase (tf_cursor f) (next - tf_cursor f) (tf_value f)) (\<lambda>v.
      Inr (f\<lparr>tf_value := v\<rparr>)))"

section \<open>The state of the dialog\<close>

datatype overlay_mode = Mode_SWITCH_WORKTREE | Mode_ADD_WORKTREE | Mode_ADD_REPOSITORY

datatype mode_direction = Direction_PREVIOUS | Direction_NEXT

datatype overlay_stage =
    Stage_SWITCH_WORKTREE | Stage_WORKTREE_REPOSITORY | Stage_WORKTREE_BRANCH
  | Stage_REPOSITORY_ROOT | Stage_REPOSITORY_CLONE_URL | Stage_RUNNING | Stage_RESULT

record workflow =
  wf_mode :: overlay_mode
  wf_worktree_stage :: overlay_stage
  wf_repository_stage :: overlay_stage
  wf_branch :: text_field
  wf_repository_root :: text_field
  wf_clone_url :: text_field
  wf_switch_error :: string
  wf_worktree_error :: string
  wf_repository_error :: string

definition initial_workflow :: workflow where
  "initial_workflow = \<lparr>wf_mode = Mode_SWITCH_WORKTREE, wf_worktree_stage = Stage_WORKTREE_REPOSITORY,
     wf_repository_stage = Stage_REPOSITORY_ROOT, wf_branch = empty_field, wf_repository_root = empty_field,
     wf_clone_url = empty_field, wf_switch_error = [], wf_worktree_error = [], wf_repository_error = []\<rparr>"

fun cycled_mode :: "overlay_mode \<Rightarrow> mode_direction \<Rightarrow> overlay_mode" where
  "cycled_mode Mode_SWITCH_WORKTREE Direction_NEXT = Mode_ADD_WORKTREE"
| "cycled_mode Mode_ADD_WORKTREE Direction_NEXT = Mode_ADD_REPOSITORY"
| "cycled_mode Mode_ADD_REPOSITORY Direction_NEXT = Mode_SWITCH_WORKTREE"
| "cycled_mode Mode_SWITCH_WORKTREE Direction_PREVIOUS = Mode_ADD_REPOSITORY"
| "cycled_mode Mode_ADD_WORKTREE Direction_PREVIOUS = Mode_SWITCH_WORKTREE"
| "cycled_mode Mode_ADD_REPOSITORY Direction_PREVIOUS = Mode_ADD_WORKTREE"

definition current_stage :: "workflow \<Rightarrow> overlay_stage" where
  "current_stage w = (case wf_mode w of
     Mode_SWITCH_WORKTREE \<Rightarrow> Stage_SWITCH_WORKTREE
   | Mode_ADD_WORKTREE \<Rightarrow> wf_worktree_stage w
   | Mode_ADD_REPOSITORY \<Rightarrow> wf_repository_stage w)"

definition set_current_stage :: "overlay_stage \<Rightarrow> workflow \<Rightarrow> workflow result" where
  "set_current_stage stage w =
     (if wf_mode w = Mode_ADD_WORKTREE then Inr (w\<lparr>wf_worktree_stage := stage\<rparr>)
      else if wf_mode w = Mode_ADD_REPOSITORY then Inr (w\<lparr>wf_repository_stage := stage\<rparr>)
      else Inl (Logic_error ''switch-worktree mode does not have a mutable stage''))"

definition workflow_reset :: "workflow \<Rightarrow> workflow" where
  "workflow_reset w = w\<lparr>wf_worktree_stage := Stage_WORKTREE_REPOSITORY,
     wf_repository_stage := Stage_REPOSITORY_ROOT, wf_branch := field_clear (wf_branch w),
     wf_repository_root := field_clear (wf_repository_root w), wf_clone_url := field_clear (wf_clone_url w),
     wf_switch_error := [], wf_worktree_error := [], wf_repository_error := []\<rparr>"

definition workflow_cycle_mode :: "mode_direction \<Rightarrow> workflow \<Rightarrow> workflow" where
  "workflow_cycle_mode direction w =
     (let next = cycled_mode (wf_mode w) direction in (workflow_reset w)\<lparr>wf_mode := next\<rparr>)"

definition active_text_field :: "workflow \<Rightarrow> text_field option" where
  "active_text_field w = (case current_stage w of
     Stage_WORKTREE_BRANCH \<Rightarrow> Some (wf_branch w)
   | Stage_REPOSITORY_ROOT \<Rightarrow> Some (wf_repository_root w)
   | Stage_REPOSITORY_CLONE_URL \<Rightarrow> Some (wf_clone_url w)
   | _ \<Rightarrow> None)"

text \<open>A write through the pointer the code returns.\<close>

definition put_active_field :: "text_field \<Rightarrow> workflow \<Rightarrow> workflow" where
  "put_active_field f w = (case current_stage w of
     Stage_WORKTREE_BRANCH \<Rightarrow> w\<lparr>wf_branch := f\<rparr>
   | Stage_REPOSITORY_ROOT \<Rightarrow> w\<lparr>wf_repository_root := f\<rparr>
   | Stage_REPOSITORY_CLONE_URL \<Rightarrow> w\<lparr>wf_clone_url := f\<rparr>
   | _ \<Rightarrow> w)"

definition error_message :: "overlay_mode \<Rightarrow> workflow \<Rightarrow> string" where
  "error_message mode w = (case mode of
     Mode_SWITCH_WORKTREE \<Rightarrow> wf_switch_error w
   | Mode_ADD_WORKTREE \<Rightarrow> wf_worktree_error w
   | Mode_ADD_REPOSITORY \<Rightarrow> wf_repository_error w)"

definition put_error_message :: "overlay_mode \<Rightarrow> string \<Rightarrow> workflow \<Rightarrow> workflow" where
  "put_error_message mode message w = (case mode of
     Mode_SWITCH_WORKTREE \<Rightarrow> w\<lparr>wf_switch_error := message\<rparr>
   | Mode_ADD_WORKTREE \<Rightarrow> w\<lparr>wf_worktree_error := message\<rparr>
   | Mode_ADD_REPOSITORY \<Rightarrow> w\<lparr>wf_repository_error := message\<rparr>)"

definition put_active_error :: "string \<Rightarrow> workflow \<Rightarrow> workflow" where
  "put_active_error message w = put_error_message (wf_mode w) message w"

section \<open>The cursor stays between code points\<close>

text \<open>
  A text in whole code points: a byte that is not a continuation, and the continuations after
  it. A field is well formed when its cursor lies between two of them.
\<close>

definition starts_at :: "string \<Rightarrow> nat \<Rightarrow> bool" where
  "starts_at s k \<longleftrightarrow> k \<le> length s \<and> (k < length s \<longrightarrow> \<not> is_continuation (s ! k))"

definition field_ok :: "text_field \<Rightarrow> bool" where
  "field_ok f \<longleftrightarrow> tf_cursor f \<le> length (tf_value f)"

definition field_aligned :: "text_field \<Rightarrow> bool" where
  "field_aligned f \<longleftrightarrow> starts_at (tf_value f) 0 \<and> starts_at (tf_value f) (tf_cursor f)"

lemma back_to_start_le: "back_to_start s n \<le> n"
  by (induction n) auto

lemma back_to_start_start: "back_to_start s n = 0 \<or> \<not> is_continuation (s ! back_to_start s n)"
  by (induction n) auto

lemma back_to_start_between: "back_to_start s n < k \<Longrightarrow> k \<le> n \<Longrightarrow> is_continuation (s ! k)"
proof (induction n)
  case (Suc n)
  then show ?case by (cases "is_continuation (s ! Suc n)"; cases "k = Suc n") auto
qed simp

lemma previous_start:
  assumes "0 < k" "k \<le> length s" "starts_at s 0"
  shows "previous_utf8_code_point_start s k < k" "starts_at s (previous_utf8_code_point_start s k)"
    "\<forall>j. previous_utf8_code_point_start s k < j \<longrightarrow> j < k \<longrightarrow> is_continuation (s ! j)"
proof -
  let ?p = "previous_utf8_code_point_start s k"
  have p: "?p = back_to_start s (k - 1)" using assms(1) by (simp add: previous_utf8_code_point_start_def)
  show "?p < k" using back_to_start_le [of s "k - 1"] p assms(1) by linarith
  then show "starts_at s ?p" using back_to_start_start [of s "k - 1"] p assms(2,3) by (auto simp: starts_at_def)
  show "\<forall>j. ?p < j \<longrightarrow> j < k \<longrightarrow> is_continuation (s ! j)"
    using back_to_start_between [of s "k - 1"] p by auto
qed

lemma next_end:
  assumes "k < length s"
  shows "k < next_utf8_code_point_end s k" "starts_at s (next_utf8_code_point_end s k)"
    "\<forall>j. k < j \<longrightarrow> j < next_utf8_code_point_end s k \<longrightarrow> is_continuation (s ! j)"
proof -
  let ?t = "takeWhile is_continuation (drop (k + 1) s)"
  have n: "next_utf8_code_point_end s k = k + 1 + length ?t"
    using assms by (simp add: next_utf8_code_point_end_def)
  have le: "length ?t \<le> length s - (k + 1)" using length_takeWhile_le [of is_continuation "drop (k + 1) s"] by simp
  show "k < next_utf8_code_point_end s k" using n by simp
  have "\<not> is_continuation (drop (k + 1) s ! length ?t)" if "length ?t < length (drop (k + 1) s)"
    using nth_length_takeWhile [OF that] .
  then show "starts_at s (next_utf8_code_point_end s k)" using n le assms by (auto simp: starts_at_def)
  show "\<forall>j. k < j \<longrightarrow> j < next_utf8_code_point_end s k \<longrightarrow> is_continuation (s ! j)"
  proof (intro allI impI)
    fix j assume j: "k < j" "j < next_utf8_code_point_end s k"
    then have "j - (k + 1) < length ?t" using n by simp
    then have "is_continuation (?t ! (j - (k + 1)))" by (metis nth_mem set_takeWhileD)
    moreover have "?t ! (j - (k + 1)) = s ! j"
      using \<open>j - (k + 1) < length ?t\<close> j le assms by (simp add: takeWhile_nth)
    ultimately show "is_continuation (s ! j)" by simp
  qed
qed

lemma erased_aligned:
  assumes "starts_at s a" "starts_at s b" "a \<le> b" "starts_at s 0"
  shows "starts_at (take a s @ drop b s) a \<and> starts_at (take a s @ drop b s) 0"
  using assms by (cases "a = 0") (auto simp: starts_at_def nth_append)

text \<open>
  Moving and deleting keep the cursor between code points, and a deletion removes exactly one
  code point: the bytes from its start up to the next start.
\<close>

lemma text_field_edits:
  assumes "field_aligned f"
  shows "field_aligned (move_cursor_left f) \<and> field_aligned (move_cursor_right f)
     \<and> field_aligned (move_cursor_to_start f) \<and> field_aligned (move_cursor_to_end f)
     \<and> (\<exists>g. field_backspace f = Inr g \<and> field_aligned g \<and> tf_cursor g = tf_cursor (move_cursor_left f)
          \<and> tf_value g = take (tf_cursor g) (tf_value f) @ drop (tf_cursor f) (tf_value f))
     \<and> (\<exists>g. delete_at_cursor f = Inr g \<and> field_aligned g \<and> tf_cursor g = tf_cursor f
          \<and> tf_value g = take (tf_cursor f) (tf_value f) @ drop (tf_cursor (move_cursor_right f)) (tf_value f))"
proof -
  let ?s = "tf_value f" and ?k = "tf_cursor f"
  have a: "starts_at ?s 0" "starts_at ?s ?k" and le: "?k \<le> length ?s"
    using assms by (auto simp: field_aligned_def starts_at_def)
  let ?p = "previous_utf8_code_point_start ?s ?k" and ?n = "next_utf8_code_point_end ?s ?k"
  have p: "?p \<le> ?k" "starts_at ?s ?p"
    using previous_start [of ?k ?s] a le by (cases "?k = 0"; auto simp: previous_utf8_code_point_start_def)+
  have n: "?k \<le> ?n" "starts_at ?s ?n"
    using next_end [of ?k ?s] a le by (cases "?k < length ?s"; auto simp: next_utf8_code_point_end_def starts_at_def)+
  have erased_back: "field_backspace f = Inr (f\<lparr>tf_value := take ?p ?s @ drop ?k ?s, tf_cursor := ?p\<rparr>)"
    using p le by (simp add: field_backspace_def field_erase_def Let_def)
  have erased_at: "delete_at_cursor f = Inr (f\<lparr>tf_value := take ?k ?s @ drop ?n ?s\<rparr>)"
    using n le by (simp add: delete_at_cursor_def field_erase_def Let_def)
  show ?thesis
    using a le p n erased_back erased_at erased_aligned [OF p(2) a(2) p(1) a(1)] erased_aligned [OF a(2) n(2) n(1) a(1)]
    by (auto simp: field_aligned_def move_cursor_left_def move_cursor_right_def move_cursor_to_start_def
        move_cursor_to_end_def starts_at_def)
qed

end
