(* ===== verification/Byte_Stream.thy ===== *)
theory Byte_Stream
  imports Main
begin

text \<open>
  Consumers of a byte stream that arrives in reads of any size. In its settled states, which it
  never leaves, feeding two pieces one after the other is feeding their concatenation, so that
  the result depends on the bytes alone and not on the reads.
\<close>

locale byte_stream =
  fixes feed :: "'b list \<Rightarrow> 's \<Rightarrow> 's"
    and settled :: "'s \<Rightarrow> bool"
  assumes feed_append: "settled s \<Longrightarrow> feed (a @ b) s = feed b (feed a s)"
    and feed_nil: "settled s \<Longrightarrow> feed [] s = s"
    and feed_settled: "settled s \<Longrightarrow> settled (feed a s)"
begin

lemma feed_concat: "settled s \<Longrightarrow> fold feed chunks s = feed (concat chunks) s"
  by (induction chunks arbitrary: s) (simp_all add: feed_nil feed_append feed_settled)

lemma cut_does_not_matter:
  "settled s \<Longrightarrow> concat chunks = concat chunks' \<Longrightarrow> fold feed chunks s = fold feed chunks' s"
  by (simp add: feed_concat)

end

text \<open>A consumer that takes one byte at a time is of this kind in the states its steps keep.\<close>

lemma byte_stream_fold:
  assumes "\<And>b s. ok s \<Longrightarrow> ok (step b s)"
  shows "byte_stream (fold step) ok"
proof -
  have "ok (fold step a s)" if "ok s" for a s
    using that by (induction a arbitrary: s) (auto intro: assms)
  then show ?thesis by unfold_locales simp_all
qed

end
