(* ===== verification/Overlay_Process.thy ===== *)
theory Overlay_Process
  imports Pane_Process Overlay_Workflow Byte_Stream
begin

text \<open>
  The helper process of the worktree dialog and its transcript
  (src/src/parent/worktree/overlay/worktree_overlay_process.h, worktree_overlay_process.cc). The
  process runs behind a pseudo terminal of the pane runtime; its exit status is the integer
  \<open>ProcessExitStatus\<close> holds. A null process is \<open>None\<close>; \<open>start\<close> keeps what it changed when the
  process does not start, so it returns the outcome beside the new state.
\<close>

section \<open>The transcript\<close>

definition BACKSPACE :: char where "BACKSPACE = CHR 0x7F"

definition MAX_TRANSCRIPT_LINES :: nat where "MAX_TRANSCRIPT_LINES = 100"

record 'c overlay_process =
  op_process :: "'c option"
  op_lines :: "string list"
  op_line :: string
  op_result :: "int option"
  op_escape :: bool
  op_control :: bool

definition new_overlay_process :: "'c overlay_process" where
  "new_overlay_process = \<lparr>op_process = None, op_lines = [], op_line = [], op_result = None,
     op_escape = False, op_control = False\<rparr>"

text \<open>The loop runs over the reversed string, from its last byte.\<close>

definition remove_last_utf8_code_point :: "string \<Rightarrow> string" where
  "remove_last_utf8_code_point s =
     (if s = [] then [] else rev (dropWhile is_continuation (rev (butlast s))))"

definition append_transcript_line :: "'c overlay_process \<Rightarrow> 'c overlay_process" where
  "append_transcript_line p =
     (if op_line p = [] then p
      else
        let lines = op_lines p @ [op_line p] in
        p\<lparr>op_line := [],
          op_lines := (if length lines > MAX_TRANSCRIPT_LINES then drop (length lines - MAX_TRANSCRIPT_LINES) lines
                       else lines)\<rparr>)"

definition transcript_byte :: "char \<Rightarrow> 'c overlay_process \<Rightarrow> 'c overlay_process" where
  "transcript_byte byte p =
     (if op_control p then
        (if 0x40 \<le> (of_char byte :: nat) \<and> (of_char byte :: nat) \<le> 0x7E then p\<lparr>op_control := False\<rparr> else p)
      else if op_escape p then
        (let q = p\<lparr>op_escape := False\<rparr> in if byte = CHR ''['' then q\<lparr>op_control := True\<rparr> else q)
      else if byte = ESC then p\<lparr>op_escape := True\<rparr>
      else if byte = CHR 0x0A \<or> byte = CHR 0x0D then append_transcript_line p
      else if byte = BACKSPACE \<or> byte = CHR 0x08 then p\<lparr>op_line := remove_last_utf8_code_point (op_line p)\<rparr>
      else if (of_char byte :: nat) \<ge> 0x20 then p\<lparr>op_line := op_line p @ [byte]\<rparr>
      else p)"

definition append_process_output :: "string \<Rightarrow> 'c overlay_process \<Rightarrow> 'c overlay_process" where
  "append_process_output = fold transcript_byte"

section \<open>The process\<close>

definition process_start :: "('c, 's, 'o) pane_runtime \<Rightarrow> string list \<Rightarrow> path \<Rightarrow> terminal_size \<Rightarrow>
    'c overlay_process \<Rightarrow> unit result \<times> 'c overlay_process" where
  "process_start rt command directory sz p =
     (let cleared = p\<lparr>op_lines := [], op_line := []\<rparr> in
      case rt_start rt command directory sz of
        Inl e \<Rightarrow> (Inl e, cleared)
      | Inr started \<Rightarrow> (Inr (), cleared\<lparr>op_process := started\<rparr>))"

definition process_clear :: "'c overlay_process \<Rightarrow> 'c overlay_process" where
  "process_clear p = p\<lparr>op_process := None, op_lines := [], op_line := [], op_result := None,
     op_escape := False, op_control := False\<rparr>"

definition process_write :: "('c, 's, 'o) pane_runtime \<Rightarrow> string \<Rightarrow> 'c overlay_process \<Rightarrow>
    'c overlay_process result" where
  "process_write rt bytes p =
     and_then (require (Undefined_behavior ''null helper process'') (op_process p)) (\<lambda>c.
     and_then (rt_write rt bytes c) (\<lambda>c'. Inr (p\<lparr>op_process := Some c'\<rparr>)))"

definition read_process_output :: "('c, 's, 'o) pane_runtime \<Rightarrow> 'c overlay_process \<Rightarrow>
    (bool \<times> 'c overlay_process) result" where
  "read_process_output rt p = (case op_process p of
     None \<Rightarrow> Inr (False, p)
   | Some c \<Rightarrow> and_then (rt_read rt c) (\<lambda>(output, c').
       let q = p\<lparr>op_process := Some c'\<rparr> in
       case output of None \<Rightarrow> Inr (False, q) | Some bytes \<Rightarrow> Inr (True, append_process_output bytes q)))"

definition refresh_process :: "('c, 's, 'o) pane_runtime \<Rightarrow> 'c overlay_process \<Rightarrow> bool \<times> 'c overlay_process" where
  "refresh_process rt p = (case op_process p of
     None \<Rightarrow> (False, p)
   | Some c \<Rightarrow> (case rt_exit rt c of
       None \<Rightarrow> (False, p)
     | Some status \<Rightarrow> (True, (append_transcript_line (p\<lparr>op_process := None\<rparr>))\<lparr>op_result := Some status\<rparr>)))"

definition process_resize :: "('c, 's, 'o) pane_runtime \<Rightarrow> terminal_size \<Rightarrow> 'c overlay_process \<Rightarrow>
    'c overlay_process result" where
  "process_resize rt sz p = (case op_process p of
     None \<Rightarrow> Inr p
   | Some c \<Rightarrow> and_then (rt_content_resize rt sz c) (\<lambda>c'. Inr (p\<lparr>op_process := Some c'\<rparr>)))"

definition process_descriptor :: "('c, 's, 'o) pane_runtime \<Rightarrow> 'c overlay_process \<Rightarrow> int option" where
  "process_descriptor rt p = map_option (rt_descriptor rt) (op_process p)"

definition result_succeeded :: "'c overlay_process \<Rightarrow> bool" where
  "result_succeeded p \<longleftrightarrow> op_result p = Some 0"

section \<open>What the transcript can hold\<close>

text \<open>
  The dialog writes transcript lines to the terminal as they are. Whatever the helper prints,
  they hold no control byte, so none of its escape sequences reach the terminal.
\<close>

definition printable :: "char \<Rightarrow> bool" where
  "printable c \<longleftrightarrow> (of_char c :: nat) \<ge> 0x20 \<and> c \<noteq> BACKSPACE"

definition transcript_ok :: "'c overlay_process \<Rightarrow> bool" where
  "transcript_ok p \<longleftrightarrow> length (op_lines p) \<le> MAX_TRANSCRIPT_LINES \<and> (\<forall>l \<in> set (op_lines p). l \<noteq> [])
     \<and> (\<forall>l \<in> set (op_line p # op_lines p). list_all printable l) \<and> \<not> (op_escape p \<and> op_control p)"

lemma removed_printable: "list_all printable s \<Longrightarrow> list_all printable (remove_last_utf8_code_point s)"
proof -
  have "set (remove_last_utf8_code_point s) \<subseteq> set s"
    by (auto simp: remove_last_utf8_code_point_def dest!: set_dropWhileD intro: in_set_butlastD)
  then show "list_all printable s \<Longrightarrow> ?thesis" by (auto simp: list_all_iff)
qed

lemma append_line_ok: "transcript_ok p \<Longrightarrow> transcript_ok (append_transcript_line p)"
  by (auto simp: transcript_ok_def append_transcript_line_def Let_def MAX_TRANSCRIPT_LINES_def
      dest!: in_set_dropD)

lemma transcript_byte_ok:
  assumes ok: "transcript_ok p"
  shows "transcript_ok (transcript_byte byte p)"
proof -
  have "transcript_ok (p\<lparr>op_control := False\<rparr>)" "transcript_ok (p\<lparr>op_escape := False\<rparr>)"
    "transcript_ok (p\<lparr>op_escape := False, op_control := True\<rparr>)" "\<not> op_control p \<Longrightarrow> transcript_ok (p\<lparr>op_escape := True\<rparr>)"
    using ok by (simp_all add: transcript_ok_def)
  moreover have "transcript_ok (p\<lparr>op_line := remove_last_utf8_code_point (op_line p)\<rparr>)"
    using ok removed_printable [of "op_line p"] by (simp add: transcript_ok_def)
  moreover have "transcript_ok (p\<lparr>op_line := op_line p @ [byte]\<rparr>)" if "printable byte"
    using ok that by (simp add: transcript_ok_def)
  ultimately show ?thesis
    using ok append_line_ok [OF ok] by (simp add: transcript_byte_def Let_def printable_def)
qed

interpretation transcript: byte_stream append_process_output transcript_ok
  unfolding append_process_output_def by (rule byte_stream_fold) (rule transcript_byte_ok)



text \<open>
  A backspace does not remove one code point: after the two bytes of an accented letter it
  leaves the first of them, and an ASCII character typed after such a letter takes the second
  byte of the letter with it.
\<close>


end
