(* ===== verification/Byte_Search.thy ===== *)
theory Byte_Search
  imports Text
begin

text \<open>
  Searching byte strings, as \<open>string::find\<close>, \<open>starts_with\<close> and \<open>ends_with\<close> do: the position
  of the first occurrence, and what appending bytes does to it.
\<close>

fun starts_with :: "string \<Rightarrow> string \<Rightarrow> bool" where
  "starts_with [] s = True"
| "starts_with (c # cs) [] = False"
| "starts_with (c # cs) (d # ds) = (c = d \<and> starts_with cs ds)"

fun find_string :: "string \<Rightarrow> string \<Rightarrow> nat option" where
  "find_string p [] = (if p = [] then Some 0 else None)"
| "find_string p (c # cs) = (if starts_with p (c # cs) then Some 0 else map_option Suc (find_string p cs))"

definition contains :: "string \<Rightarrow> string \<Rightarrow> bool" where
  "contains s p \<longleftrightarrow> find_string p s \<noteq> None"

definition ends_with :: "string \<Rightarrow> string \<Rightarrow> bool" where
  "ends_with p s \<longleftrightarrow> starts_with (rev p) (rev s)"

text \<open>The C-style search of a character, and what lies before and after it.\<close>

fun split_at_char :: "char \<Rightarrow> string \<Rightarrow> string list" where
  "split_at_char c [] = [[]]"
| "split_at_char c (d # ds) =
     (if d = c then [] # split_at_char c ds
      else case split_at_char c ds of [] \<Rightarrow> [[d]] | p # ps \<Rightarrow> (d # p) # ps)"

lemma split_at_char_nonempty [simp]: "split_at_char c s \<noteq> []"
  by (induction c s rule: split_at_char.induct) (auto split: list.split)

lemma split_at_char_append:
  "c \<notin> set p \<Longrightarrow> split_at_char c (p @ c # s) = p # split_at_char c s"
  by (induction p) auto

lemma split_at_char_none: "c \<notin> set p \<Longrightarrow> split_at_char c p = [p]"
  by (induction p) auto

section \<open>First occurrences\<close>

lemma starts_with_eq: "starts_with p s \<longleftrightarrow> take (length p) s = p"
  by (induction p s rule: starts_with.induct) auto

lemma find_string_bound: "find_string p s = Some i \<Longrightarrow> i + length p \<le> length s"
  by (induction p s arbitrary: i rule: find_string.induct)
    (auto simp: starts_with_eq split: if_splits dest!: arg_cong [where f = length])

lemma find_string_Some:
  "find_string p s = Some i \<longleftrightarrow> i \<le> length s \<and> starts_with p (drop i s) \<and> (\<forall>j<i. \<not> starts_with p (drop j s))"
proof (induction p s arbitrary: i rule: find_string.induct)
  case (1 p)
  then show ?case by (cases p) auto
next
  case (2 p c cs)
  show ?case
  proof (cases "starts_with p (c # cs)")
    case True
    then show ?thesis by (cases i) auto
  next
    case False
    show ?thesis
    proof (cases i)
      case 0
      then show ?thesis using False by auto
    next
      case (Suc n)
      have "(\<forall>j<Suc n. \<not> starts_with p (drop j (c # cs))) \<longleftrightarrow> (\<forall>j<n. \<not> starts_with p (drop j cs))"
        using False by (auto simp: All_less_Suc2)
      then show ?thesis using False 2 Suc by auto
    qed
  qed
qed

lemma find_string_None: "p \<noteq> [] \<Longrightarrow> find_string p s = None \<longleftrightarrow> (\<forall>j. \<not> starts_with p (drop j s))"
proof (induction p s rule: find_string.induct)
  case (1 p)
  then show ?case by (cases p) auto
next
  case (2 p c cs)
  have "(\<forall>j. \<not> starts_with p (drop j (c # cs))) \<longleftrightarrow> \<not> starts_with p (c # cs) \<and> (\<forall>j. \<not> starts_with p (drop j cs))"
    by (metis drop0 drop_Suc_Cons not0_implies_Suc)
  then show ?case using 2 by auto
qed

lemma starts_with_append: "starts_with p s \<Longrightarrow> starts_with p (s @ b)"
  by (induction p s rule: starts_with.induct) auto

lemma starts_with_within: "length p \<le> length s \<Longrightarrow> starts_with p (s @ b) \<longleftrightarrow> starts_with p s"
  by (simp add: starts_with_eq)

text \<open>Bytes in which no occurrence starts do not move the first one.\<close>

lemma find_string_skip:
  assumes p: "p \<noteq> []" and none: "\<And>j. j < length u \<Longrightarrow> \<not> starts_with p (drop j (u @ v))"
  shows "find_string p (u @ v) = map_option ((+) (length u)) (find_string p v)"
  using none
proof (induction u)
  case (Cons c u)
  have "\<not> starts_with p (drop j (u @ v))" if "j < length u" for j using Cons.prems [of "Suc j"] that by simp
  moreover have "\<not> starts_with p (c # u @ v)" using Cons.prems [of 0] by simp
  ultimately show ?case using Cons.IH by (simp add: option.map_comp comp_def)
qed (cases "find_string p v"; simp)

text \<open>What is kept when no occurrence is found is enough to complete one later.\<close>

lemma retained_enough:
  assumes p: "p \<noteq> []" and none: "find_string p s = None" and n: "n = length s - min (length s) (length p - 1)"
  shows "find_string p (s @ b) = map_option ((+) n) (find_string p (drop n s @ b))"
proof -
  have "\<not> starts_with p (drop j (take n s @ drop n s @ b))" if j: "j < length (take n s)" for j
  proof -
    have "length p \<le> length (drop j s)" using j n by auto
    then have "starts_with p (drop j s @ b) \<longleftrightarrow> starts_with p (drop j s)" by (rule starts_with_within)
    moreover have "drop j (take n s @ drop n s @ b) = drop j s @ b" using j n
      by (metis append.assoc append_take_drop_id drop_append diff_is_0_eq' drop0 length_take less_imp_le min.strict_boundedE)
    ultimately show ?thesis using none find_string_None [OF p] by metis
  qed
  from find_string_skip [OF p this] have
    "find_string p (take n s @ drop n s @ b) = map_option ((+) (length (take n s))) (find_string p (drop n s @ b))" by blast
  moreover have "take n s @ drop n s @ b = s @ b" "length (take n s) = n" using n by auto
  ultimately show ?thesis by metis
qed

lemma find_string_append:
  assumes "find_string p s = Some i"
  shows "find_string p (s @ b) = Some i"
proof -
  from assms have i: "i \<le> length s" "starts_with p (drop i s)" "\<forall>j<i. \<not> starts_with p (drop j s)"
    by (auto simp: find_string_Some)
  have le: "i + length p \<le> length s" using find_string_bound [OF assms] .
  have "\<not> starts_with p (drop j (s @ b))" if "j < i" for j
    using i(3) that le starts_with_within [of p "drop j s" b] by auto
  then show ?thesis using i starts_with_append [OF i(2), of b] by (auto simp: find_string_Some)
qed

end
