(* ===== verification/Path_Picker.thy ===== *)
theory Path_Picker
  imports Pane_Process Byte_Stream Byte_Search
begin

text \<open>
  The picker of the dialog and its footer (src/src/parent/overlay/path_picker_process.h and .cc,
  path_picker_overlay.h and .cc, overlay_footer.h and .cc): an fzf process behind a pseudo
  terminal, fed with candidate paths, whose focus notifications name the highlighted candidate
  and whose result names the selected one. A path is kept as the native string it was made from,
  which is all the picker asks of it. The operating system's side of the process is a record of
  functions on an opaque handle.
\<close>

section \<open>The process\<close>

text \<open>
  The outcomes of \<open>waitpid\<close> with \<open>WNOHANG\<close> once the interrupted calls have been repeated: the
  child still runs, there is no such child, it failed otherwise, or it has ended with a status.
\<close>

datatype wait_outcome = Wait_running | Wait_no_child | Wait_failed | Wait_ended int

record 'p picker_system =
  ps_spawn :: "string list \<Rightarrow> terminal_size \<Rightarrow> 'p result"
  ps_write :: "string \<Rightarrow> 'p \<Rightarrow> 'p result"
  ps_write_candidate :: "string \<Rightarrow> 'p \<Rightarrow> 'p result"
  ps_close_candidates :: "'p \<Rightarrow> 'p"
  ps_read :: "'p \<Rightarrow> (string option \<times> 'p) result"
  ps_read_result :: "'p \<Rightarrow> string result"
  ps_set_size :: "terminal_size \<Rightarrow> 'p \<Rightarrow> 'p result"
  ps_wait :: "'p \<Rightarrow> wait_outcome"
  ps_descriptor :: "'p \<Rightarrow> int"

record 'p picker_process =
  pp_handle :: 'p
  pp_child :: bool
  pp_exit :: "int option"
  pp_finished :: bool

definition MAX_UNSIGNED_SHORT :: int where "MAX_UNSIGNED_SHORT = 65535"

definition check_picker_size :: "terminal_size \<Rightarrow> unit result" where
  "check_picker_size sz =
     throw_if (ts_rows sz \<le> 0 \<or> ts_cols sz \<le> 0 \<or> ts_rows sz > MAX_UNSIGNED_SHORT \<or> ts_cols sz > MAX_UNSIGNED_SHORT)
       (Invalid_argument ''path picker terminal size is invalid'') (Inr ())"

definition focus_binding :: string where
  "focus_binding = ''--bind=focus:execute-silent(printf '' @ [CHR 0x27] @ [CHR 0x5C] @ ''033]697;focus;{n}'' @ [CHR 0x5C]
     @ ''007'' @ [CHR 0x27] @ '' > /dev/tty)''"

definition fzf_command :: "string \<Rightarrow> string \<Rightarrow> string list" where
  "fzf_command executable prompt =
     [executable, ''--read0'', ''--print0'', ''--accept-nth={n}'', ''--no-multi'', ''--layout=reverse'', ''--border'',
      ''--info=inline'', ''--prompt='' @ prompt, focus_binding]"

definition picker_process_start :: "'p picker_system \<Rightarrow> string \<Rightarrow> string \<Rightarrow> terminal_size \<Rightarrow>
    'p picker_process result" where
  "picker_process_start ps executable prompt sz =
     throw_if (executable = []) (Invalid_argument ''fzf executable must not be empty'')
       (and_then (check_picker_size sz) (\<lambda>_.
        and_then (ps_spawn ps (fzf_command executable prompt) sz) (\<lambda>h.
        Inr \<lparr>pp_handle = h, pp_child = True, pp_exit = None, pp_finished = False\<rparr>)))"

definition on_handle :: "('p \<Rightarrow> 'p result) \<Rightarrow> 'p picker_process \<Rightarrow> 'p picker_process result" where
  "on_handle f p = and_then (f (pp_handle p)) (\<lambda>h. Inr (p\<lparr>pp_handle := h\<rparr>))"

definition picker_process_refresh :: "'p picker_system \<Rightarrow> 'p picker_process \<Rightarrow> bool \<times> 'p picker_process" where
  "picker_process_refresh ps p =
     (if pp_finished p \<or> \<not> pp_child p then (False, p)
      else case ps_wait ps (pp_handle p) of
        Wait_running \<Rightarrow> (False, p)
      | Wait_no_child \<Rightarrow> (True, p\<lparr>pp_child := False, pp_finished := True\<rparr>)
      | Wait_failed \<Rightarrow> (False, p)
      | Wait_ended status \<Rightarrow> (True, p\<lparr>pp_child := False, pp_finished := True, pp_exit := Some status\<rparr>))"

definition picker_process_resize :: "'p picker_system \<Rightarrow> terminal_size \<Rightarrow> 'p picker_process \<Rightarrow>
    'p picker_process result" where
  "picker_process_resize ps sz p = and_then (check_picker_size sz) (\<lambda>_. on_handle (ps_set_size ps sz) p)"

definition picker_process_descriptor :: "'p picker_system \<Rightarrow> 'p picker_process \<Rightarrow> int option" where
  "picker_process_descriptor ps p = (if pp_finished p then None else Some (ps_descriptor ps (pp_handle p)))"

definition picker_process_succeeded :: "'p picker_process \<Rightarrow> bool" where
  "picker_process_succeeded p \<longleftrightarrow> pp_exit p = Some 0"

section \<open>Numbers in a byte string\<close>

text \<open>\<open>from_chars\<close> on a whole string, read as a \<open>size_t\<close>.\<close>

definition parse_index :: "string \<Rightarrow> nat option" where
  "parse_index s =
     (if s \<noteq> [] \<and> list_all is_digit s \<and> int (decimal_value s) < 18446744073709551616 then Some (decimal_value s) else None)"

section \<open>The picker\<close>

definition MAX_PICKER_ROWS :: int where "MAX_PICKER_ROWS = 12"
definition MIN_PICKER_ROWS :: int where "MIN_PICKER_ROWS = 6"

definition FOCUS_NOTIFICATION_PREFIX :: string where
  "FOCUS_NOTIFICATION_PREFIX = ESC # '']697;focus;''"

definition FOCUS_NOTIFICATION_TERMINATOR :: char where
  "FOCUS_NOTIFICATION_TERMINATOR = CHR 0x07"

record ('p, 's) path_picker =
  pk_process :: "'p picker_process"
  pk_candidates :: "string list"
  pk_parent_size :: terminal_size
  pk_size :: terminal_size
  pk_screen :: 's
  pk_selection :: "string option"
  pk_selected :: "nat option"
  pk_highlighted :: "nat option"
  pk_pending :: string

definition picker_size_for :: "terminal_size \<Rightarrow> terminal_size result" where
  "picker_size_for parent =
     and_then (check_picker_size parent) (\<lambda>_.
     Inr \<lparr>ts_rows = min (ts_rows parent) (min MAX_PICKER_ROWS (max MIN_PICKER_ROWS (ts_rows parent div 2))),
          ts_cols = ts_cols parent\<rparr>)"

definition write_candidates :: "'p picker_system \<Rightarrow> ('p, 's) path_picker \<Rightarrow> ('p, 's) path_picker result" where
  "write_candidates ps pk =
     and_then (fold_result (\<lambda>candidate. on_handle (ps_write_candidate ps (candidate @ [CHR 0x00]))) (pk_candidates pk)
       (pk_process pk)) (\<lambda>p.
     Inr (pk\<lparr>pk_process := p\<lparr>pp_handle := ps_close_candidates ps (pp_handle p)\<rparr>\<rparr>))"

definition picker_start :: "'p picker_system \<Rightarrow> ('c, 's, 'o) pane_runtime \<Rightarrow> string \<Rightarrow> string list \<Rightarrow> string \<Rightarrow>
    terminal_size \<Rightarrow> ('p, 's) path_picker result" where
  "picker_start ps rt executable candidates prompt parent =
     throw_if (executable = []) (Invalid_argument ''fzf executable must not be empty'')
       (and_then (picker_size_for parent) (\<lambda>sz.
        and_then (picker_process_start ps executable prompt sz) (\<lambda>p.
        and_then (rt_screen rt sz) (\<lambda>screen.
        write_candidates ps
          \<lparr>pk_process = p, pk_candidates = candidates, pk_parent_size = parent, pk_size = sz, pk_screen = screen,
           pk_selection = None, pk_selected = None,
           pk_highlighted = (if candidates \<noteq> [] then Some 0 else None), pk_pending = []\<rparr>))))"

definition picker_write_input :: "'p picker_system \<Rightarrow> string \<Rightarrow> ('p, 's) path_picker \<Rightarrow> ('p, 's) path_picker result" where
  "picker_write_input ps bytes pk =
     and_then (on_handle (ps_write ps bytes) (pk_process pk)) (\<lambda>p. Inr (pk\<lparr>pk_process := p\<rparr>))"

text \<open>
  One turn of the loop leaves the bytes after a complete notification and the index it names;
  the loop ends when no complete notification is left.
\<close>

definition named_candidate :: "string list \<Rightarrow> string \<Rightarrow> nat option \<Rightarrow> nat option" where
  "named_candidate candidates v highlighted = (case parse_index v of
     Some index \<Rightarrow> if index < length candidates then Some index else highlighted
   | None \<Rightarrow> highlighted)"

function scan_notifications :: "string list \<Rightarrow> string \<Rightarrow> nat option \<Rightarrow> string \<times> nat option" where
  "scan_notifications candidates pending highlighted = (case find_string FOCUS_NOTIFICATION_PREFIX pending of
     None \<Rightarrow>
       (drop (length pending - min (length pending) (length FOCUS_NOTIFICATION_PREFIX - 1)) pending, highlighted)
   | Some start \<Rightarrow>
       (let value_start = start + length FOCUS_NOTIFICATION_PREFIX in
        case find_string [FOCUS_NOTIFICATION_TERMINATOR] (drop value_start pending) of
          None \<Rightarrow> (drop start pending, highlighted)
        | Some n \<Rightarrow>
            scan_notifications candidates (drop (value_start + n + 1) pending)
              (named_candidate candidates (take n (drop value_start pending)) highlighted)))"
  by pat_completeness auto
termination
proof (relation "measure (\<lambda>(_, pending, _). length pending)", goal_cases)
  case (2 candidates pending highlighted start value_start n)
  from 2(3) have "n + 1 \<le> length pending - value_start" using find_string_bound by fastforce
  then show ?case by simp
qed simp

declare scan_notifications.simps [simp del]

definition ingest_focus_notifications :: "string \<Rightarrow> ('p, 's) path_picker \<Rightarrow> ('p, 's) path_picker" where
  "ingest_focus_notifications bytes pk =
     (case scan_notifications (pk_candidates pk) (pk_pending pk @ bytes) (pk_highlighted pk) of
        (pending, highlighted) \<Rightarrow> pk\<lparr>pk_pending := pending, pk_highlighted := highlighted\<rparr>)"

definition picker_read_output :: "'p picker_system \<Rightarrow> ('c, 's, 'o) pane_runtime \<Rightarrow> ('p, 's) path_picker \<Rightarrow>
    (bool \<times> ('p, 's) path_picker) result" where
  "picker_read_output ps rt pk =
     and_then (ps_read ps (pp_handle (pk_process pk))) (\<lambda>(output, h).
     let pk1 = pk\<lparr>pk_process := (pk_process pk)\<lparr>pp_handle := h\<rparr>\<rparr> in
     case output of
       None \<Rightarrow> Inr (False, pk1)
     | Some bytes \<Rightarrow>
         (let pk2 = ingest_focus_notifications bytes pk1 in
          Inr (True, pk2\<lparr>pk_screen := rt_ingest rt bytes (pk_screen pk2)\<rparr>)))"

definition read_selection :: "'p picker_system \<Rightarrow> ('p, 's) path_picker \<Rightarrow> ('p, 's) path_picker result" where
  "read_selection ps pk =
     and_then (ps_read_result ps (pp_handle (pk_process pk))) (\<lambda>bytes.
     case parse_index (takeWhile (\<lambda>c. c \<noteq> CHR 0x00) bytes) of
       None \<Rightarrow> Inr pk
     | Some index \<Rightarrow>
         if index \<ge> length (pk_candidates pk) then Inr pk
         else Inr (pk\<lparr>pk_selected := Some index, pk_selection := Some (pk_candidates pk ! index)\<rparr>))"

definition picker_refresh :: "'p picker_system \<Rightarrow> ('p, 's) path_picker \<Rightarrow> (bool \<times> ('p, 's) path_picker) result" where
  "picker_refresh ps pk = (case picker_process_refresh ps (pk_process pk) of (changed, p) \<Rightarrow>
     let pk1 = pk\<lparr>pk_process := p\<rparr> in
     if \<not> changed then Inr (False, pk1)
     else if picker_process_succeeded p then and_then (read_selection ps pk1) (\<lambda>pk2. Inr (True, pk2))
     else Inr (True, pk1))"

definition picker_resize :: "'p picker_system \<Rightarrow> ('c, 's, 'o) pane_runtime \<Rightarrow> terminal_size \<Rightarrow> ('p, 's) path_picker \<Rightarrow>
    ('p, 's) path_picker result" where
  "picker_resize ps rt sz pk =
     (let pk1 = pk\<lparr>pk_parent_size := sz\<rparr> in
      and_then (picker_size_for sz) (\<lambda>next.
      if next = pk_size pk1 then Inr pk1
      else
        and_then (rt_screen_resize rt next (pk_screen pk1)) (\<lambda>screen.
        and_then (picker_process_resize ps next (pk_process pk1)) (\<lambda>p.
        Inr (pk1\<lparr>pk_size := next, pk_screen := screen, pk_process := p\<rparr>)))))"

definition available_region_above :: "('p, 's) path_picker \<Rightarrow> terminal_size" where
  "available_region_above pk =
     \<lparr>ts_rows = max 0 (ts_rows (pk_parent_size pk) - ts_rows (pk_size pk)), ts_cols = ts_cols (pk_parent_size pk)\<rparr>"

definition picker_redraw_output :: "('c, 's, 'o) pane_runtime \<Rightarrow> ('p, 's) path_picker \<Rightarrow> string" where
  "picker_redraw_output rt pk =
     rt_region_snapshot rt \<lparr>tp_row = ts_rows (available_region_above pk), tp_column = 0\<rparr> (pk_screen pk)"

section \<open>The footer\<close>

definition OVERLAY_FOOTER_HEIGHT :: int where "OVERLAY_FOOTER_HEIGHT = 1"

fun footer_labels :: "nat \<Rightarrow> nat \<Rightarrow> string list \<Rightarrow> nat \<Rightarrow> string \<times> nat" where
  "footer_labels selected index [] remaining = ([], remaining)"
| "footer_labels selected index (label # labels) remaining =
     (if remaining = 0 then ([], 0)
      else
        let displayed = take remaining label;
            rest = remaining - length displayed;
            shown = (if index = selected then csi ''48;5;244m'' @ displayed @ csi ''48;5;236m'' else displayed);
            gap = (if labels \<noteq> [] \<and> rest > 0 then min 2 rest else 0)
        in case footer_labels selected (index + 1) labels (rest - gap) of
          (output, left) \<Rightarrow> (shown @ replicate gap (CHR '' '') @ output, left))"

definition render_overlay_footer :: "string list \<Rightarrow> nat \<Rightarrow> terminal_size \<Rightarrow> string" where
  "render_overlay_footer labels selected parent =
     (let row = max (ts_rows parent) 1;
          width = nat (max (ts_cols parent) 1) in
      case footer_labels selected 0 labels width of
        (output, remaining) \<Rightarrow>
          csi (to_string row @ '';1H'') @ csi ''48;5;236m'' @ csi ''38;5;252m'' @ output
          @ replicate remaining (CHR '' '') @ csi ''0m'')"

section \<open>Focus notifications do not depend on the reads\<close>

lemma picker_size_bounds:
  assumes "picker_size_for parent = Inr sz"
  shows "1 \<le> ts_rows sz" "ts_rows sz \<le> min 12 (ts_rows parent)" "usable_size sz"
  using assms by (auto simp: picker_size_for_def check_picker_size_def usable_size_def MAX_UNSIGNED_SHORT_def MAX_PICKER_ROWS_def
      MIN_PICKER_ROWS_def result_simps)

lemma prefix_length: "length FOCUS_NOTIFICATION_PREFIX = 12" "FOCUS_NOTIFICATION_PREFIX \<noteq> []"
  by (simp_all add: FOCUS_NOTIFICATION_PREFIX_def)

lemma scan_append:
  "scan_notifications C (s @ b) h = (case scan_notifications C s h of (r, h') \<Rightarrow> scan_notifications C (r @ b) h')"
proof (induction C s h rule: scan_notifications.induct)
  case (1 C s h)
  let ?P = FOCUS_NOTIFICATION_PREFIX
  show ?case
  proof (cases "find_string ?P s")
    case None
    define n where "n = length s - min (length s) (length ?P - 1)"
    have skip: "find_string ?P (s @ b) = map_option ((+) n) (find_string ?P (drop n s @ b))"
      using retained_enough [OF prefix_length(2) None n_def] .
    have here: "scan_notifications C s h = (drop n s, h)"
      using None by (subst scan_notifications.simps) (simp add: n_def)
    have n: "n \<le> length s" by (simp add: n_def)
    have "scan_notifications C (s @ b) h = scan_notifications C (drop n s @ b) h"
    proof (cases "find_string ?P (drop n s @ b)")
      case None
      have "length s + length b - min (length s + length b) 11 = n + (length (drop n s @ b) - min (length (drop n s @ b)) 11)"
        using n by (auto simp: n_def prefix_length)
      then show ?thesis using None skip n
        by (subst (1 2) scan_notifications.simps) (simp add: prefix_length drop_drop add.commute)
    next
      case (Some i)
      have x: "drop n s @ b = drop n (s @ b)" using n by simp
      have shift: "drop k (drop n s @ b) = drop (n + k) (s @ b)" for k
        unfolding x by (simp add: drop_drop add.commute del: drop_append)
      show ?thesis using skip Some
        by (subst (1 2) scan_notifications.simps) (simp add: shift Let_def add.assoc del: drop_append split: option.split)
    qed
    then show ?thesis by (simp add: here)
  next
    case (Some start)
    have later: "find_string ?P (s @ b) = Some start" using find_string_append [OF Some] .
    have bound: "start + length ?P \<le> length s" using find_string_bound [OF Some] .
    let ?v = "start + length ?P"
    show ?thesis
    proof (cases "find_string [FOCUS_NOTIFICATION_TERMINATOR] (drop ?v s)")
      case None
      have here: "scan_notifications C s h = (drop start s, h)"
        using Some None by (subst scan_notifications.simps) (simp add: Let_def)
      have "starts_with ?P (drop start s @ b)" using Some starts_with_append by (auto simp: find_string_Some)
      then have zero: "find_string ?P (drop start s @ b) = Some 0" by (simp add: find_string_Some)
      have "drop start s @ b = drop start (s @ b)" using bound by simp
      have shift: "drop k (drop start s @ b) = drop (start + k) (s @ b)" for k
        unfolding \<open>drop start s @ b = drop start (s @ b)\<close> by (simp add: drop_drop add.commute del: drop_append)
      have "scan_notifications C (s @ b) h = scan_notifications C (drop start s @ b) h"
        using zero later by (subst (1 2) scan_notifications.simps)
          (simp add: shift \<open>drop start s @ b = drop start (s @ b)\<close> [symmetric] Let_def add.assoc del: drop_append split: option.split)
      then show ?thesis by (simp add: here)
    next
      case (Some n)
      have end_bound: "n + 1 \<le> length s - ?v" using find_string_bound [OF Some] by simp
      have at: "find_string [FOCUS_NOTIFICATION_TERMINATOR] (drop ?v (s @ b)) = Some n"
        using find_string_append [OF Some, of b] bound by simp
      from 1 [OF \<open>find_string ?P s = Some start\<close> refl Some] show ?thesis
        using \<open>find_string ?P s = Some start\<close> Some later at end_bound bound
        by (subst (1 2) scan_notifications.simps) (simp add: Let_def)
    qed
  qed
qed

lemma scan_again:
  assumes "scan_notifications C s h = (r, h')"
  shows "scan_notifications C r h' = (r, h')"
  using scan_append [of C s "[]" h] unfolding append_Nil2 assms prod.case ..

lemma named_in_range: "\<forall>i. h = Some i \<longrightarrow> i < n \<Longrightarrow> n = length C \<Longrightarrow> \<forall>i. named_candidate C v h = Some i \<longrightarrow> i < n"
  by (auto simp: named_candidate_def split: option.splits if_splits)

lemma scan_named:
  "\<forall>i. h = Some i \<longrightarrow> i < length C \<Longrightarrow> \<forall>i. snd (scan_notifications C s h) = Some i \<longrightarrow> i < length C"
proof (induction C s h rule: scan_notifications.induct)
  case (1 C s h)
  show ?case
  proof (cases "find_string FOCUS_NOTIFICATION_PREFIX s")
    case None
    then show ?thesis using 1(2) by (subst scan_notifications.simps) simp
  next
    case (Some start)
    show ?thesis
    proof (cases "find_string [FOCUS_NOTIFICATION_TERMINATOR] (drop (start + length FOCUS_NOTIFICATION_PREFIX) s)")
      case None
      then show ?thesis using 1(2) Some by (subst scan_notifications.simps) (simp add: Let_def)
    next
      case n: (Some n)
      from 1(1) [OF Some refl n named_in_range [OF 1(2) refl]] show ?thesis
        using Some n by (subst scan_notifications.simps) (simp add: Let_def)
    qed
  qed
qed

text \<open>
  A settled picker has read all complete notifications of its pending bytes and highlights a
  candidate it has, if any.
\<close>

definition picker_settled :: "('p, 's) path_picker \<Rightarrow> bool" where
  "picker_settled pk \<longleftrightarrow>
     scan_notifications (pk_candidates pk) (pk_pending pk) (pk_highlighted pk) = (pk_pending pk, pk_highlighted pk)
     \<and> (\<forall>i. pk_highlighted pk = Some i \<longrightarrow> i < length (pk_candidates pk))"

interpretation focus: byte_stream ingest_focus_notifications picker_settled
proof unfold_locales
  fix pk :: "('p, 's) path_picker" and a b
  show "ingest_focus_notifications (a @ b) pk = ingest_focus_notifications b (ingest_focus_notifications a pk)"
    using scan_append [of "pk_candidates pk" "pk_pending pk @ a" b "pk_highlighted pk"]
    by (simp add: ingest_focus_notifications_def split: prod.splits)
  assume settled: "picker_settled pk"
  then show "ingest_focus_notifications [] pk = pk"
    by (simp add: ingest_focus_notifications_def picker_settled_def)
  obtain r h' where e: "scan_notifications (pk_candidates pk) (pk_pending pk @ a) (pk_highlighted pk) = (r, h')"
    by (metis surj_pair)
  have "\<forall>i. h' = Some i \<longrightarrow> i < length (pk_candidates pk)"
    using scan_named [OF settled [unfolded picker_settled_def, THEN conjunct2], of "pk_pending pk @ a"]
    unfolding e snd_conv .
  then show "picker_settled (ingest_focus_notifications a pk)"
    using scan_again [OF e] by (simp add: ingest_focus_notifications_def picker_settled_def e)
qed

lemma scan_nothing: "scan_notifications C [] h = ([], h)"
  by (subst scan_notifications.simps) (simp add: prefix_length)

lemma picker_start_settled:
  assumes "picker_start ps rt executable candidates prompt parent = Inr pk"
  shows "picker_settled pk \<and> pk_candidates pk = candidates \<and> pk_selected pk = None"
proof -
  have "pk_pending pk = [] \<and> pk_candidates pk = candidates \<and> pk_selected pk = None
    \<and> pk_highlighted pk = (if candidates \<noteq> [] then Some 0 else None)"
    using assms by (auto simp: picker_start_def write_candidates_def result_simps)
  then show ?thesis by (simp add: picker_settled_def scan_nothing)
qed

text \<open>
  The highlighted candidate depends on the bytes the process writes and not on how they are cut
  into reads, and it is always one of the candidates.
\<close>

lemma focus_notifications_whole:
  assumes "picker_settled pk"
  shows "fold ingest_focus_notifications chunks pk = ingest_focus_notifications (concat chunks) pk
     \<and> (\<forall>i. pk_highlighted (ingest_focus_notifications bytes pk) = Some i \<longrightarrow>
          i < length (pk_candidates (ingest_focus_notifications bytes pk)))"
  using focus.feed_concat [OF assms] focus.feed_settled [OF assms] by (simp add: picker_settled_def)

definition two_candidates :: "(unit, unit) path_picker" where
  "two_candidates =
     \<lparr>pk_process = \<lparr>pp_handle = (), pp_child = True, pp_exit = None, pp_finished = False\<rparr>,
      pk_candidates = [''/a'', ''/b''], pk_parent_size = \<lparr>ts_rows = 24, ts_cols = 80\<rparr>,
      pk_size = \<lparr>ts_rows = 12, ts_cols = 80\<rparr>, pk_screen = (), pk_selection = None, pk_selected = None,
      pk_highlighted = Some 0, pk_pending = []\<rparr>"

lemma focus_notifications_whole_witness:
  "pk_highlighted (fold ingest_focus_notifications [ESC # '']697;fo'', ''cus;1'', [CHR 0x07, CHR ''x'']] two_candidates) = Some 1
   \<and> picker_settled two_candidates"
proof -
  have "scan_notifications (pk_candidates two_candidates) (pk_pending two_candidates) (pk_highlighted two_candidates)
      = (pk_pending two_candidates, pk_highlighted two_candidates)"
    by code_simp
  then have settled: "picker_settled two_candidates" unfolding picker_settled_def by (simp add: two_candidates_def)
  have "pk_highlighted (ingest_focus_notifications (concat [ESC # '']697;fo'', ''cus;1'', [CHR 0x07, CHR ''x'']]) two_candidates) = Some 1"
    by code_simp
  then show ?thesis
    using focus_notifications_whole [OF settled, of "[ESC # '']697;fo'', ''cus;1'', [CHR 0x07, CHR ''x'']]"] settled
    by simp
qed

section \<open>The size of the picker and its selection\<close>

lemma selection_in_range:
  assumes "picker_refresh ps pk = Inr (changed, pk')"
    "\<forall>i. pk_selected pk = Some i \<longrightarrow> i < length (pk_candidates pk) \<and> pk_selection pk = Some (pk_candidates pk ! i)"
  shows "\<forall>i. pk_selected pk' = Some i \<longrightarrow> i < length (pk_candidates pk') \<and> pk_selection pk' = Some (pk_candidates pk' ! i)"
  using assms by (auto simp: picker_refresh_def read_selection_def Let_def result_simps split: prod.splits option.splits if_splits)

end
