(* ===== verification/Effects.thy ===== *)
theory Effects
  imports Path Byte_Search "HOL-Library.Word"
begin

text \<open>
  Code that acts on the file system and runs commands: a computation takes the world and
  returns its outcome and the changed world, also when it throws. What it asks of the system is
  a record of functions of the world, \<open>system\<close>. With it the few pieces that the worktree code
  shares: catching exceptions, trimming (src/src/base/ascii_whitespace.cc) and the entries of the
  registry.
\<close>

section \<open>Exceptions\<close>

text \<open>
  \<open>catch (std::exception const& error)\<close>: the handler gets the message. Undefined behaviour is
  not an exception.
\<close>

fun what :: "cpp_error \<Rightarrow> string option" where
  "what (Invalid_argument m) = Some m"
| "what (Logic_error m) = Some m"
| "what (Out_of_range m) = Some m"
| "what (Overflow_error m) = Some m"
| "what (Runtime_error m) = Some m"
| "what (Undefined_behavior m) = None"
| "what Out_of_fuel = None"

definition catch :: "(string \<Rightarrow> 'a result) \<Rightarrow> cpp_error \<Rightarrow> 'a result" where
  "catch handler e = (case what e of None \<Rightarrow> Inl e | Some message \<Rightarrow> handler message)"

section \<open>Computations in a world\<close>

type_synonym ('w, 'a) action = "'w \<Rightarrow> 'a result \<times> 'w"

definition return :: "'a \<Rightarrow> ('w, 'a) action" where
  "return x = (\<lambda>w. (Inr x, w))"

definition throw :: "cpp_error \<Rightarrow> ('w, 'a) action" where
  "throw e = (\<lambda>w. (Inl e, w))"

definition lift :: "'a result \<Rightarrow> ('w, 'a) action" where
  "lift r = (\<lambda>w. (r, w))"

definition query :: "('w \<Rightarrow> 'a) \<Rightarrow> ('w, 'a) action" where
  "query f = (\<lambda>w. (Inr (f w), w))"

definition bind :: "('w, 'a) action \<Rightarrow> ('a \<Rightarrow> ('w, 'b) action) \<Rightarrow> ('w, 'b) action" where
  "bind f g = (\<lambda>w. case f w of (Inl e, w') \<Rightarrow> (Inl e, w') | (Inr x, w') \<Rightarrow> g x w')"

definition guard :: "bool \<Rightarrow> cpp_error \<Rightarrow> ('w, unit) action" where
  "guard c e = (if c then return () else throw e)"

definition handle :: "('w, 'a) action \<Rightarrow> (string \<Rightarrow> ('w, 'a) action) \<Rightarrow> ('w, 'a) action" where
  "handle f h = (\<lambda>w. case f w of
     (Inr x, w') \<Rightarrow> (Inr x, w')
   | (Inl e, w') \<Rightarrow> (case what e of None \<Rightarrow> (Inl e, w') | Some m \<Rightarrow> h m w'))"

named_theorems action_simps \<open>running a computation step by step\<close>

lemma run_simps [action_simps]:
  "return x w = (Inr x, w)" "throw e w = (Inl e, w)" "lift r w = (r, w)" "query f w = (Inr (f w), w)"
  "guard c e w = (if c then (Inr (), w) else (Inl e, w))"
  by (simp_all add: return_def throw_def lift_def query_def guard_def)

lemma bind_run [action_simps]:
  "bind f g w = (case f w of (Inl e, w') \<Rightarrow> (Inl e, w') | (Inr x, w') \<Rightarrow> g x w')"
  by (simp add: bind_def)

lemma bind_Inr: "bind f g w = (Inr y, w2) \<longleftrightarrow> (\<exists>x w1. f w = (Inr x, w1) \<and> g x w1 = (Inr y, w2))"
  by (auto simp: bind_def split: prod.split sum.split)

lemma bind_Inl: "bind f g w = (Inl e, w2) \<longleftrightarrow> f w = (Inl e, w2) \<or> (\<exists>x w1. f w = (Inr x, w1) \<and> g x w1 = (Inl e, w2))"
  by (auto simp: bind_def split: prod.split sum.split)

section \<open>What the code asks of the system\<close>

text \<open>The registry of worktrees: a repository is its root and its worktrees, as strings.\<close>

record repository =
  rp_root :: string
  rp_worktrees :: "string list"

record registry =
  wr_version :: nat
  wr_repositories :: "repository list"

text \<open>
  The calls of the code, in the forms that report errors through an error code (\<open>None\<close>, or
  \<open>False\<close> for a change) or throw. Reading a file has no result when it cannot be opened and
  an empty one when it cannot be read. A command has a wait status and an output.
\<close>

record 'w system =
  sy_absolute :: "path \<Rightarrow> 'w \<Rightarrow> path option"
  sy_weakly_canonical :: "path \<Rightarrow> 'w \<Rightarrow> path option"
  sy_exists :: "path \<Rightarrow> 'w \<Rightarrow> bool option"
  sy_is_directory :: "path \<Rightarrow> 'w \<Rightarrow> bool option"
  sy_is_regular :: "path \<Rightarrow> 'w \<Rightarrow> bool option"
  sy_is_empty :: "path \<Rightarrow> 'w \<Rightarrow> bool option"
  sy_read_file :: "path \<Rightarrow> 'w \<Rightarrow> string option option"
  sy_write_file :: "path \<Rightarrow> string \<Rightarrow> ('w, bool) action"
  sy_create_directories :: "path \<Rightarrow> ('w, bool) action"
  sy_remove :: "path \<Rightarrow> ('w, unit) action"
  sy_remove_all :: "path \<Rightarrow> ('w, unit) action"
  sy_open_directory :: "path \<Rightarrow> ('w, unit) action"
  sy_make_temporary :: "path \<Rightarrow> ('w, path) action"
  sy_write_all :: "path \<Rightarrow> string \<Rightarrow> ('w, unit) action"
  sy_sync :: "path \<Rightarrow> ('w, unit) action"
  sy_rename :: "path \<Rightarrow> path \<Rightarrow> ('w, unit) action"
  sy_run :: "string list \<Rightarrow> ('w, 32 word \<times> string) action"
  sy_print :: "string \<Rightarrow> ('w, unit) action"
  sy_print_error :: "string \<Rightarrow> ('w, unit) action"
  sy_environment :: "string \<Rightarrow> string option"
  sy_error_text :: "string \<Rightarrow> path \<Rightarrow> string"
  sy_parse :: "string \<Rightarrow> registry option"
  sy_serialize :: "registry \<Rightarrow> string option"

definition filesystem_error :: "'w system \<Rightarrow> string \<Rightarrow> path \<Rightarrow> cpp_error" where
  "filesystem_error sy operation p = Runtime_error (sy_error_text sy operation p)"

text \<open>A query whose error code is thrown as an exception.\<close>

definition checked :: "cpp_error \<Rightarrow> ('w \<Rightarrow> 'a option) \<Rightarrow> ('w, 'a) action" where
  "checked e q = (\<lambda>w. (require e (q w), w))"

lemma checked_run [action_simps]: "checked e q w = (require e (q w), w)"
  by (simp add: checked_def)

text \<open>What a step that succeeds tells.\<close>

lemma run_results:
  "return x w = (Inr y, w') \<longleftrightarrow> y = x \<and> w' = w" "throw e w = (Inr y, w') \<longleftrightarrow> False"
  "lift r w = (Inr y, w') \<longleftrightarrow> r = Inr y \<and> w' = w" "query f w = (Inr y, w') \<longleftrightarrow> y = f w \<and> w' = w"
  "guard c e w = (Inr u, w') \<longleftrightarrow> c \<and> w' = w" "checked e q w = (Inr y, w') \<longleftrightarrow> q w = Some y \<and> w' = w"
  by (auto simp: action_simps result_simps)

text \<open>Computations that only look.\<close>

definition still :: "('w, 'a) action \<Rightarrow> bool" where
  "still a \<longleftrightarrow> (\<forall>w. snd (a w) = w)"

lemma stillD: "still a \<Longrightarrow> a w = (fst (a w), w)"
  by (metis prod.collapse still_def)

lemma still_bind: "still a \<Longrightarrow> (\<And>x. still (f x)) \<Longrightarrow> still (bind a f)"
  unfolding still_def bind_run by (auto split: prod.split sum.split) (metis snd_conv)+

lemma still_simple:
  "still (return x)" "still (throw e)" "still (lift r)" "still (query f)" "still (guard c e)" "still (checked e q)"
  by (simp_all add: still_def action_simps)

lemma still_if: "still a \<Longrightarrow> still b \<Longrightarrow> still (if c then a else b)"
  by simp

lemma still_case: "(\<And>x y. still (f x y)) \<Longrightarrow> still (case z of (x, y) \<Rightarrow> f x y)"
  by (cases z) simp

lemmas stillness = still_bind still_simple still_if still_case

fun fold_action :: "('a \<Rightarrow> 's \<Rightarrow> ('w, 's) action) \<Rightarrow> 'a list \<Rightarrow> 's \<Rightarrow> ('w, 's) action" where
  "fold_action f [] s = return s"
| "fold_action f (x # xs) s = bind (f x s) (fold_action f xs)"

text \<open>The handler of a last step: when what was done before cannot be undone, its error says so.\<close>

definition explained :: "bool \<Rightarrow> string \<Rightarrow> ('w, 'a) action \<Rightarrow> ('w, 'a) action" where
  "explained done_already explanation a = (\<lambda>w. case a w of
     (Inl e, w') \<Rightarrow> (if done_already then (case what e of Some m \<Rightarrow> Inl (Runtime_error (explanation @ m)) | None \<Rightarrow> Inl e)
                   else Inl e, w')
   | (Inr x, w') \<Rightarrow> (Inr x, w'))"

section \<open>Commands\<close>

text \<open>The exit status of a process, from the status of \<open>waitpid\<close> (src/src/process/process_exit_status.cc).\<close>

definition exited :: "int \<Rightarrow> int result" where
  "exited code = throw_if (code < 0 \<or> code > 255) (Invalid_argument ''process exit code must be within [0, 255]'') (Inr code)"

definition signaled :: "int \<Rightarrow> int result" where
  "signaled signal = throw_if (signal \<le> 0) (Invalid_argument ''process signal number must be positive'') (Inr (128 + signal))"

definition from_wait_status :: "32 word \<Rightarrow> int result" where
  "from_wait_status status =
     (let low = uint (take_bit 7 status) in
      if low = 0 then exited (uint (take_bit 8 (drop_bit 8 status)))
      else if low \<noteq> 127 then signaled low
      else exited 1)"

definition run_command :: "'w system \<Rightarrow> string list \<Rightarrow> ('w, int \<times> string) action" where
  "run_command sy command =
     bind (guard (command \<noteq> []) (Invalid_argument ''command must not be empty'')) (\<lambda>_.
     bind (sy_run sy command) (\<lambda>(status, output).
     bind (lift (from_wait_status status)) (\<lambda>exit.
     return (exit, output))))"

text \<open>Every status of a process has an exit status, which is 0 just for a normal exit with 0.\<close>

lemma from_wait_status_total:
  "\<exists>exit. from_wait_status status = Inr exit \<and> 0 \<le> exit \<and> exit \<le> 255
     \<and> (exit = 0 \<longleftrightarrow> take_bit 7 status = 0 \<and> take_bit 8 (drop_bit 8 status) = 0)"
proof -
  define low high where "low = take_bit 7 status" and "high = take_bit 8 (drop_bit 8 status)"
  have bounds: "uint low < 128" "uint high < 256"
    unfolding low_def high_def
    by (simp_all add: unsigned_take_bit_eq take_bit_int_less_exp [of 7, simplified] take_bit_int_less_exp [of 8, simplified])
  have zero: "uint low = 0 \<longleftrightarrow> low = 0" "uint high = 0 \<longleftrightarrow> high = 0" by (simp_all add: uint_0_iff)
  have nonneg: "0 \<le> uint low" "0 \<le> uint high" by simp_all
  then have "128 + uint low \<noteq> 0" by linarith
  with nonneg show ?thesis using bounds zero
    unfolding from_wait_status_def exited_def signaled_def Let_def low_def [symmetric] high_def [symmetric]
    by (cases "uint low = 0"; cases "uint low = 127") simp_all
qed

datatype repository_root_state = Root_EMPTY | Root_BARE_ROOT | Root_RECOVERABLE_BARE_ROOT

section \<open>Trimming\<close>

definition is_trimmable_ascii_whitespace :: "char \<Rightarrow> bool" where
  "is_trimmable_ascii_whitespace c \<longleftrightarrow> c = CHR '' '' \<or> c = CHR 0x09 \<or> c = CHR 0x0D \<or> c = CHR 0x0A"

definition trim_ascii_whitespace :: "string \<Rightarrow> string" where
  "trim_ascii_whitespace s =
     dropWhile is_trimmable_ascii_whitespace (rev (dropWhile is_trimmable_ascii_whitespace (rev s)))"

lemma trim_ends:
  "trim_ascii_whitespace s \<noteq> [] \<Longrightarrow> \<not> is_trimmable_ascii_whitespace (hd (trim_ascii_whitespace s))"
  by (simp add: trim_ascii_whitespace_def hd_dropWhile)

end
