(* ===== verification/Worktree_Overlay.thy ===== *)
theory Worktree_Overlay
  imports Overlay_Workflow Overlay_Process Path_Picker Tray_Preview Effects
begin

text \<open>
  The worktree dialog (src/src/parent/worktree/overlay/worktree_management_overlay.h and .cc): the
  pickers of trays and repositories, the forms that add a worktree or a repository and the
  helper process they start, the confirmation of an action on the highlighted tray, and the
  input state machines.

  What the dialog asks of the worktree registry, of Git and of the environment is a record of
  functions, \<open>dialog_world\<close>; each operation takes the one of its moment. A path is a list of
  elements where the code compares it or makes an identifier of it, and its native string where
  the code prints it.
\<close>

section \<open>The world and the state\<close>

record dialog_world =
  dw_load :: "string \<Rightarrow> repository list result"
  dw_find_available :: "string \<Rightarrow> string \<Rightarrow> path list result"
  dw_inspect_root :: "path \<Rightarrow> repository_root_state result"
  dw_derived_path :: "path \<Rightarrow> string \<Rightarrow> path result"
  dw_weakly_canonical :: "path \<Rightarrow> path option"
  dw_home :: "string option"

datatype tray_action_kind = Tray_CLEAR | Tray_REMOVE

record tray_action_request =
  ta_kind :: tray_action_kind
  ta_tray :: tray_id

datatype input_sequence_state = Input_NORMAL | Input_ESCAPE | Input_CONTROL_SEQUENCE

record ('c, 'p, 's) overlay =
  wo_executable :: string
  wo_registry :: string
  wo_directory :: path
  wo_git :: string
  wo_fzf :: string
  wo_size :: terminal_size
  wo_workflow :: workflow
  wo_switch_sequence :: string
  wo_input :: input_sequence_state
  wo_parameters :: string
  wo_repositories :: "string list"
  wo_session_trays :: "tray_id list"
  wo_candidate_trays :: "tray_id list"
  wo_candidate_available :: "bool list"
  wo_selected :: "string option"
  wo_root :: "path option"
  wo_pending :: "path option"
  wo_to_open :: "tray_id option"
  wo_confirmation :: "tray_action_request option"
  wo_action_error :: string
  wo_picker :: "('p, 's) path_picker option"
  wo_helper :: "'c overlay_process"
  wo_full_redraw :: bool

definition set_error :: "overlay_mode \<Rightarrow> string \<Rightarrow> ('c, 'p, 's) overlay \<Rightarrow> ('c, 'p, 's) overlay" where
  "set_error mode message ov = ov\<lparr>wo_workflow := put_error_message mode message (wo_workflow ov)\<rparr>"

definition set_stage :: "overlay_stage \<Rightarrow> ('c, 'p, 's) overlay \<Rightarrow> ('c, 'p, 's) overlay result" where
  "set_stage stage ov = and_then (set_current_stage stage (wo_workflow ov)) (\<lambda>w. Inr (ov\<lparr>wo_workflow := w\<rparr>))"

section \<open>The pickers\<close>

definition dialog_terminal_size :: "('c, 'p, 's) overlay \<Rightarrow> terminal_size" where
  "dialog_terminal_size ov =
     \<lparr>ts_rows = max (ts_rows (wo_size ov) - OVERLAY_FOOTER_HEIGHT) 1, ts_cols = max (ts_cols (wo_size ov)) 1\<rparr>"

text \<open>The candidate of a tracked worktree: its name in the picker, its tray, whether it is there.\<close>

definition worktree_candidate :: "path list \<Rightarrow> string \<Rightarrow> string \<times> tray_id \<times> bool" where
  "worktree_candidate available worktree =
     (let is_available = path_of_string worktree \<in> set available in
      (if is_available then worktree else worktree @ '' [unavailable]'',
       Worktree_tray (path_of_string worktree), is_available))"

definition session_candidates :: "tray_id \<Rightarrow> (string \<times> tray_id \<times> bool) list" where
  "session_candidates i = (case i of
     Anonymous_tray n \<Rightarrow> [(''/anonymous/'' @ to_string n, i, True)]
   | Worktree_tray _ \<Rightarrow> [])"

definition start_switch_worktree_picker :: "dialog_world \<Rightarrow> 'p picker_system \<Rightarrow> ('c, 's, 'o) pane_runtime \<Rightarrow>
    ('c, 'p, 's) overlay \<Rightarrow> ('c, 'p, 's) overlay result" where
  "start_switch_worktree_picker dw ps rt ov =
     (case dw_find_available dw (wo_git ov) (wo_registry ov) of
        Inl e \<Rightarrow> catch (\<lambda>m. Inr (set_error Mode_SWITCH_WORKTREE m ov)) e
      | Inr available \<Rightarrow>
     (case dw_load dw (wo_registry ov) of
        Inl e \<Rightarrow> catch (\<lambda>m. Inr (set_error Mode_SWITCH_WORKTREE m ov)) e
      | Inr registry \<Rightarrow>
          (let entries = map (worktree_candidate available) (concat (map rp_worktrees registry))
                 @ concat (map session_candidates (wo_session_trays ov));
               candidates = map fst entries;
               o1 = ov\<lparr>wo_candidate_trays := map (fst \<circ> snd) entries,
                 wo_candidate_available := map (snd \<circ> snd) entries\<rparr> in
           if candidates = [] then Inr (set_error Mode_SWITCH_WORKTREE ''No available tracked worktrees'' o1)
           else
             let o2 = set_error Mode_SWITCH_WORKTREE [] o1 in
             case picker_start ps rt (wo_fzf o2) candidates ''Worktree> '' (dialog_terminal_size o2) of
               Inl e \<Rightarrow> catch (\<lambda>m. Inr (set_error Mode_SWITCH_WORKTREE m o2)) e
             | Inr picker \<Rightarrow> Inr (o2\<lparr>wo_picker := Some picker\<rparr>))))"

definition start_repository_picker :: "'p picker_system \<Rightarrow> ('c, 's, 'o) pane_runtime \<Rightarrow>
    ('c, 'p, 's) overlay \<Rightarrow> ('c, 'p, 's) overlay result" where
  "start_repository_picker ps rt ov =
     (if wo_repositories ov = [] then Inr (set_error Mode_ADD_WORKTREE ''No registered repositories'' ov)
      else
        let o1 = set_error Mode_ADD_WORKTREE [] ov in
        case picker_start ps rt (wo_fzf o1) (wo_repositories o1) ''Repository> '' (dialog_terminal_size o1) of
          Inl e \<Rightarrow> catch (\<lambda>m. Inr (set_error Mode_ADD_WORKTREE m o1)) e
        | Inr picker \<Rightarrow> Inr (o1\<lparr>wo_picker := Some picker\<rparr>))"

definition load_repositories :: "dialog_world \<Rightarrow> ('c, 'p, 's) overlay \<Rightarrow> ('c, 'p, 's) overlay result" where
  "load_repositories dw ov =
     (let o1 = set_error Mode_ADD_WORKTREE [] (ov\<lparr>wo_repositories := []\<rparr>) in
      case dw_load dw (wo_registry o1) of
        Inl e \<Rightarrow> catch (\<lambda>m. Inr (set_error Mode_ADD_WORKTREE m o1)) e
      | Inr registry \<Rightarrow>
          (let o2 = o1\<lparr>wo_repositories := map rp_root registry\<rparr> in
           Inr (if wo_repositories o2 = [] then set_error Mode_ADD_WORKTREE ''No registered repositories'' o2 else o2)))"

definition activate_mode :: "dialog_world \<Rightarrow> 'p picker_system \<Rightarrow> ('c, 's, 'o) pane_runtime \<Rightarrow>
    ('c, 'p, 's) overlay \<Rightarrow> ('c, 'p, 's) overlay result" where
  "activate_mode dw ps rt ov =
     (let o1 = ov\<lparr>wo_picker := None, wo_switch_sequence := [], wo_input := Input_NORMAL, wo_parameters := []\<rparr> in
      if wf_mode (wo_workflow o1) = Mode_SWITCH_WORKTREE then start_switch_worktree_picker dw ps rt o1
      else if wf_mode (wo_workflow o1) = Mode_ADD_WORKTREE
          \<and> current_stage (wo_workflow o1) = Stage_WORKTREE_REPOSITORY
        then start_repository_picker ps rt o1
      else Inr o1)"

definition cycle_mode :: "dialog_world \<Rightarrow> 'p picker_system \<Rightarrow> ('c, 's, 'o) pane_runtime \<Rightarrow> mode_direction \<Rightarrow>
    ('c, 'p, 's) overlay \<Rightarrow> ('c, 'p, 's) overlay result" where
  "cycle_mode dw ps rt direction ov =
     and_then (load_repositories dw
       (ov\<lparr>wo_selected := None, wo_root := None, wo_pending := None, wo_helper := process_clear (wo_helper ov),
          wo_confirmation := None, wo_action_error := [],
          wo_workflow := workflow_cycle_mode direction (wo_workflow ov)\<rparr>)) (\<lambda>o1.
     and_then (activate_mode dw ps rt o1) (\<lambda>o2. Inr (o2\<lparr>wo_full_redraw := True\<rparr>)))"

section \<open>Session trays and the highlighted tray\<close>

definition update_session_trays :: "dialog_world \<Rightarrow> 'p picker_system \<Rightarrow> ('c, 's, 'o) pane_runtime \<Rightarrow>
    tray_snapshot list \<Rightarrow> ('c, 'p, 's) overlay \<Rightarrow> ('c, 'p, 's) overlay result" where
  "update_session_trays dw ps rt snapshots ov =
     (let next_ids = filter (\<lambda>i. tray_kind i = Kind_ANONYMOUS) (map sn_id snapshots) in
      if next_ids = wo_session_trays ov then Inr ov
      else
        let o1 = ov\<lparr>wo_session_trays := next_ids\<rparr> in
        if wf_mode (wo_workflow o1) = Mode_SWITCH_WORKTREE \<and> wo_picker o1 \<noteq> None then
          and_then (start_switch_worktree_picker dw ps rt (o1\<lparr>wo_picker := None\<rparr>)) (\<lambda>o2.
          Inr (o2\<lparr>wo_full_redraw := True\<rparr>))
        else Inr o1)"

definition overlay_start :: "dialog_world \<Rightarrow> 'p picker_system \<Rightarrow> ('c, 's, 'o) pane_runtime \<Rightarrow> string \<Rightarrow> string \<Rightarrow>
    path \<Rightarrow> string \<Rightarrow> string \<Rightarrow> tray_snapshot list \<Rightarrow> terminal_size \<Rightarrow> ('c, 'p, 's) overlay result" where
  "overlay_start dw ps rt executable registry directory git fzf session_trays sz =
     and_then (update_session_trays dw ps rt session_trays
       \<lparr>wo_executable = executable, wo_registry = registry, wo_directory = directory, wo_git = git, wo_fzf = fzf,
        wo_size = sz, wo_workflow = initial_workflow, wo_switch_sequence = [], wo_input = Input_NORMAL,
        wo_parameters = [], wo_repositories = [], wo_session_trays = [], wo_candidate_trays = [],
        wo_candidate_available = [], wo_selected = None, wo_root = None, wo_pending = None, wo_to_open = None,
        wo_confirmation = None, wo_action_error = [], wo_picker = None, wo_helper = new_overlay_process,
        wo_full_redraw = False\<rparr>) (\<lambda>o1.
     and_then (load_repositories dw o1) (\<lambda>o2. activate_mode dw ps rt o2))"

definition highlighted_tray_id :: "('c, 'p, 's) overlay \<Rightarrow> tray_id option" where
  "highlighted_tray_id ov =
     (if wf_mode (wo_workflow ov) \<noteq> Mode_SWITCH_WORKTREE then None
      else case wo_picker ov of
        None \<Rightarrow> None
      | Some picker \<Rightarrow> (case pk_highlighted picker of
          None \<Rightarrow> None
        | Some index \<Rightarrow>
            if index \<ge> length (wo_candidate_trays ov) then None else Some (wo_candidate_trays ov ! index)))"

definition preview_request :: "('c, 'p, 's) overlay \<Rightarrow> tray_preview_request option" where
  "preview_request ov =
     (if wf_mode (wo_workflow ov) \<noteq> Mode_SWITCH_WORKTREE then None
      else case wo_picker ov of
        None \<Rightarrow> None
      | Some picker \<Rightarrow> (case pk_highlighted picker of
          None \<Rightarrow> None
        | Some index \<Rightarrow>
            if index \<ge> length (wo_candidate_trays ov) \<or> ts_rows (available_region_above picker) \<le> 0 then None
            else Some \<lparr>pr_tray = wo_candidate_trays ov ! index, pr_origin = \<lparr>tp_row = 0, tp_column = 0\<rparr>,
              pr_size = available_region_above picker\<rparr>))"

definition begin_tray_action_confirmation :: "tray_action_kind \<Rightarrow> ('c, 'p, 's) overlay \<Rightarrow>
    bool \<times> ('c, 'p, 's) overlay" where
  "begin_tray_action_confirmation kind ov = (case highlighted_tray_id ov of
     None \<Rightarrow> (False, ov)
   | Some i \<Rightarrow> (True, ov\<lparr>wo_confirmation := Some \<lparr>ta_kind = kind, ta_tray = i\<rparr>, wo_action_error := [],
       wo_full_redraw := True\<rparr>))"

definition has_tray_action_confirmation :: "('c, 'p, 's) overlay \<Rightarrow> bool" where
  "has_tray_action_confirmation ov \<longleftrightarrow> wo_confirmation ov \<noteq> None"

definition resolve_confirmation :: "bool \<Rightarrow> ('c, 'p, 's) overlay \<Rightarrow>
    tray_action_request option \<times> ('c, 'p, 's) overlay" where
  "resolve_confirmation confirmed ov = (case wo_confirmation ov of
     None \<Rightarrow> (None, ov)
   | Some pending \<Rightarrow>
       (if confirmed then Some pending else None, ov\<lparr>wo_confirmation := None, wo_full_redraw := True\<rparr>))"

definition cancel_tray_action_confirmation :: "('c, 'p, 's) overlay \<Rightarrow> ('c, 'p, 's) overlay" where
  "cancel_tray_action_confirmation ov = ov\<lparr>wo_confirmation := None, wo_full_redraw := True\<rparr>"

definition set_picker_action_error :: "string \<Rightarrow> ('c, 'p, 's) overlay \<Rightarrow> ('c, 'p, 's) overlay" where
  "set_picker_action_error message ov =
     ov\<lparr>wo_confirmation := None, wo_action_error := message, wo_full_redraw := True\<rparr>"

definition refresh_worktree_picker :: "dialog_world \<Rightarrow> 'p picker_system \<Rightarrow> ('c, 's, 'o) pane_runtime \<Rightarrow>
    ('c, 'p, 's) overlay \<Rightarrow> ('c, 'p, 's) overlay result" where
  "refresh_worktree_picker dw ps rt ov =
     (if wf_mode (wo_workflow ov) \<noteq> Mode_SWITCH_WORKTREE then Inr ov
      else
        and_then (start_switch_worktree_picker dw ps rt
          (ov\<lparr>wo_confirmation := None, wo_action_error := [], wo_picker := None\<rparr>)) (\<lambda>o1.
        Inr (o1\<lparr>wo_full_redraw := True\<rparr>)))"

definition take_full_redraw_request :: "('c, 'p, 's) overlay \<Rightarrow> bool \<times> ('c, 'p, 's) overlay" where
  "take_full_redraw_request ov = (wo_full_redraw ov, ov\<lparr>wo_full_redraw := False\<rparr>)"

definition take_tray_to_open :: "('c, 'p, 's) overlay \<Rightarrow> tray_id option \<times> ('c, 'p, 's) overlay" where
  "take_tray_to_open ov = (wo_to_open ov, ov\<lparr>wo_to_open := None\<rparr>)"

section \<open>The forms\<close>

text \<open>\<open>path / path\<close> on native strings.\<close>

definition native_append :: "string \<Rightarrow> string \<Rightarrow> string" where
  "native_append p q =
     (if native_absolute q then q
      else if p = [] \<or> last p = CHR ''/'' then p @ q
      else p @ CHR ''/'' # q)"

definition resolved_path :: "dialog_world \<Rightarrow> path \<Rightarrow> text_field \<Rightarrow> string \<Rightarrow> path result" where
  "resolved_path dw directory field description =
     (let v = trim_ascii_whitespace (tf_value field) in
      throw_if (v = []) (Invalid_argument (description @ '' must not be empty''))
        (and_then (if v = ''~'' \<or> take 2 v = ''~/'' then
             (case dw_home dw of
                None \<Rightarrow> Inl (Runtime_error ''HOME is required to expand ~'')
              | Some home \<Rightarrow>
                  if home = [] then Inl (Runtime_error ''HOME is required to expand ~'')
                  else Inr (if v = ''~'' then home else native_append home (drop 2 v)))
           else Inr v) (\<lambda>expanded.
         let p = (if native_absolute expanded then expanded else native_append (path_string directory) expanded) in
         require (Invalid_argument (''Failed to resolve '' @ description @ '': '' @ p))
           (dw_weakly_canonical dw (path_of_string p)))))"

text \<open>Starting the helper and moving to the running stage; what was changed before a throw stays.\<close>

definition run_helper :: "('c, 's, 'o) pane_runtime \<Rightarrow> string list \<Rightarrow> ('c, 'p, 's) overlay \<Rightarrow>
    unit result \<times> ('c, 'p, 's) overlay" where
  "run_helper rt command ov =
     (case process_start rt command (wo_directory ov) (wo_size ov) (wo_helper ov) of
        (outcome, helper) \<Rightarrow>
          (let ov1 = ov\<lparr>wo_helper := helper\<rparr> in
           case and_then outcome (\<lambda>_. set_stage Stage_RUNNING ov1) of
             Inl e \<Rightarrow> (Inl e, ov1)
           | Inr ov2 \<Rightarrow> (Inr (), ov2)))"

definition start_registration :: "('c, 's, 'o) pane_runtime \<Rightarrow> string option \<Rightarrow> ('c, 'p, 's) overlay \<Rightarrow>
    unit result \<times> ('c, 'p, 's) overlay" where
  "start_registration rt clone_url ov = (case wo_root ov of
     None \<Rightarrow> (Inl (Logic_error ''repository root is missing''), ov)
   | Some root \<Rightarrow>
       run_helper rt
         ([wo_executable ov, ''--register-worktree-repository'', wo_registry ov, path_string root]
           @ (case clone_url of None \<Rightarrow> [] | Some url \<Rightarrow> [url])) ov)"

definition start_worktree_provision :: "('c, 's, 'o) pane_runtime \<Rightarrow> ('c, 'p, 's) overlay \<Rightarrow>
    unit result \<times> ('c, 'p, 's) overlay" where
  "start_worktree_provision rt ov = (case (wo_selected ov, wo_pending ov) of
     (Some repository_path, Some pending) \<Rightarrow>
       run_helper rt
         [wo_executable ov, ''--provision-worktree'', wo_registry ov, repository_path,
          tf_value (wf_branch (wo_workflow ov)), path_string pending] ov
   | _ \<Rightarrow> (Inl (Logic_error ''worktree provision inputs are missing''), ov))"

text \<open>The outcome of an attempt: its error becomes the message of the mode.\<close>

definition report :: "overlay_mode \<Rightarrow> unit result \<times> ('c, 'p, 's) overlay \<Rightarrow> ('c, 'p, 's) overlay result" where
  "report mode attempt = (case attempt of
     (Inl e, ov) \<Rightarrow> catch (\<lambda>m. Inr (set_error mode m ov)) e
   | (Inr _, ov) \<Rightarrow> Inr ov)"

definition submit_worktree_repository :: "'p picker_system \<Rightarrow> ('c, 's, 'o) pane_runtime \<Rightarrow>
    ('c, 'p, 's) overlay \<Rightarrow> ('c, 'p, 's) overlay result" where
  "submit_worktree_repository ps rt ov =
     (if wo_selected ov = None then start_repository_picker ps rt ov
      else set_stage Stage_WORKTREE_BRANCH (set_error Mode_ADD_WORKTREE [] ov))"

definition submit_worktree_branch :: "dialog_world \<Rightarrow> ('c, 's, 'o) pane_runtime \<Rightarrow> ('c, 'p, 's) overlay \<Rightarrow>
    ('c, 'p, 's) overlay result" where
  "submit_worktree_branch dw rt ov =
     (let branch = trim_ascii_whitespace (tf_value (wf_branch (wo_workflow ov))) in
      report Mode_ADD_WORKTREE
        (case wo_selected ov of
           None \<Rightarrow> (Inl (Logic_error ''selected repository is missing''), ov)
         | Some repository_path \<Rightarrow>
             (case dw_derived_path dw (path_of_string repository_path) branch of
                Inl e \<Rightarrow> (Inl e, ov)
              | Inr pending \<Rightarrow>
                  (let w = wo_workflow ov;
                       ov1 = ov\<lparr>wo_pending := Some pending,
                         wo_workflow := w\<lparr>wf_branch := field_set_value branch (wf_branch w)\<rparr>\<rparr> in
                   start_worktree_provision rt (set_error Mode_ADD_WORKTREE [] ov1)))))"

definition submit_repository_root :: "dialog_world \<Rightarrow> ('c, 's, 'o) pane_runtime \<Rightarrow> ('c, 'p, 's) overlay \<Rightarrow>
    ('c, 'p, 's) overlay result" where
  "submit_repository_root dw rt ov =
     report Mode_ADD_REPOSITORY
       (case resolved_path dw (wo_directory ov) (wf_repository_root (wo_workflow ov)) ''repository root'' of
          Inl e \<Rightarrow> (Inl e, ov)
        | Inr root \<Rightarrow>
            (let ov1 = ov\<lparr>wo_root := Some root\<rparr> in
             case dw_inspect_root dw root of
               Inl e \<Rightarrow> (Inl e, ov1)
             | Inr state \<Rightarrow>
                 (let ov2 = set_error Mode_ADD_REPOSITORY [] ov1 in
                  if state = Root_EMPTY then
                    (case set_stage Stage_REPOSITORY_CLONE_URL ov2 of
                       Inl e \<Rightarrow> (Inl e, ov2)
                     | Inr ov3 \<Rightarrow> (Inr (), ov3))
                  else start_registration rt None ov2)))"

definition submit_clone_url :: "('c, 's, 'o) pane_runtime \<Rightarrow> ('c, 'p, 's) overlay \<Rightarrow> ('c, 'p, 's) overlay result" where
  "submit_clone_url rt ov =
     (let clone_url = trim_ascii_whitespace (tf_value (wf_clone_url (wo_workflow ov))) in
      if clone_url = [] then Inr (set_error Mode_ADD_REPOSITORY ''Clone URL must not be empty'' ov)
      else report Mode_ADD_REPOSITORY
        (start_registration rt (Some clone_url) (set_error Mode_ADD_REPOSITORY [] ov)))"

definition submit_input :: "dialog_world \<Rightarrow> 'p picker_system \<Rightarrow> ('c, 's, 'o) pane_runtime \<Rightarrow>
    ('c, 'p, 's) overlay \<Rightarrow> ('c, 'p, 's) overlay result" where
  "submit_input dw ps rt ov = (case current_stage (wo_workflow ov) of
     Stage_WORKTREE_REPOSITORY \<Rightarrow> submit_worktree_repository ps rt ov
   | Stage_WORKTREE_BRANCH \<Rightarrow> submit_worktree_branch dw rt ov
   | Stage_REPOSITORY_ROOT \<Rightarrow> submit_repository_root dw rt ov
   | Stage_REPOSITORY_CLONE_URL \<Rightarrow> submit_clone_url rt ov
   | _ \<Rightarrow> Inr ov)"

section \<open>Input\<close>

text \<open>An edit of the active field, when there is one.\<close>

definition edit_field :: "(text_field \<Rightarrow> text_field result) \<Rightarrow> ('c, 'p, 's) overlay \<Rightarrow> ('c, 'p, 's) overlay result" where
  "edit_field f ov = (case active_text_field (wo_workflow ov) of
     None \<Rightarrow> Inr ov
   | Some field \<Rightarrow> and_then (f field) (\<lambda>field'. Inr (ov\<lparr>wo_workflow := put_active_field field' (wo_workflow ov)\<rparr>)))"

definition handle_input_control_sequence :: "char \<Rightarrow> ('c, 'p, 's) overlay \<Rightarrow> ('c, 'p, 's) overlay result" where
  "handle_input_control_sequence final_byte ov =
     (let tilde = (final_byte = CHR ''~''); parameters = wo_parameters ov in
      if final_byte = CHR ''D'' then edit_field (\<lambda>f. Inr (move_cursor_left f)) ov
      else if final_byte = CHR ''C'' then edit_field (\<lambda>f. Inr (move_cursor_right f)) ov
      else if final_byte = CHR ''H'' \<or> tilde \<and> (parameters = ''1'' \<or> parameters = ''7'') then
        edit_field (\<lambda>f. Inr (move_cursor_to_start f)) ov
      else if final_byte = CHR ''F'' \<or> tilde \<and> (parameters = ''4'' \<or> parameters = ''8'') then
        edit_field (\<lambda>f. Inr (move_cursor_to_end f)) ov
      else if tilde \<and> parameters = ''3'' then edit_field delete_at_cursor ov
      else Inr ov)"

definition clear_active_error :: "('c, 'p, 's) overlay \<Rightarrow> ('c, 'p, 's) overlay" where
  "clear_active_error ov = ov\<lparr>wo_workflow := put_active_error [] (wo_workflow ov)\<rparr>"

definition write_editing_input :: "dialog_world \<Rightarrow> 'p picker_system \<Rightarrow> ('c, 's, 'o) pane_runtime \<Rightarrow> char \<Rightarrow>
    ('c, 'p, 's) overlay \<Rightarrow> ('c, 'p, 's) overlay result" where
  "write_editing_input dw ps rt byte ov =
     (let code = (of_char byte :: nat) in
      if wo_input ov = Input_ESCAPE then
        Inr (ov\<lparr>wo_input := (if byte = CHR ''['' \<or> byte = CHR ''O'' then Input_CONTROL_SEQUENCE else Input_NORMAL),
               wo_parameters := []\<rparr>)
      else if wo_input ov = Input_CONTROL_SEQUENCE then
        (if 0x40 \<le> code \<and> code \<le> 0x7E then
           and_then (handle_input_control_sequence byte ov) (\<lambda>ov1.
           Inr (ov1\<lparr>wo_input := Input_NORMAL, wo_parameters := []\<rparr>))
         else if 0x20 \<le> code \<and> code \<le> 0x3F \<and> length (wo_parameters ov) < 16 then
           Inr (ov\<lparr>wo_parameters := wo_parameters ov @ [byte]\<rparr>)
         else Inr (ov\<lparr>wo_input := Input_NORMAL, wo_parameters := []\<rparr>))
      else if byte = ESC then Inr (ov\<lparr>wo_input := Input_ESCAPE\<rparr>)
      else if byte = CHR 0x0D \<or> byte = CHR 0x0A then submit_input dw ps rt ov
      else if active_text_field (wo_workflow ov) = None then Inr ov
      else if byte = BACKSPACE \<or> byte = CHR 0x08 then
        and_then (edit_field field_backspace ov) (\<lambda>ov1. Inr (clear_active_error ov1))
      else if code \<ge> 0x20 then
        and_then (edit_field (field_insert byte) ov) (\<lambda>ov1. Inr (clear_active_error ov1))
      else Inr ov)"

definition write_mode_input :: "dialog_world \<Rightarrow> 'p picker_system \<Rightarrow> ('c, 's, 'o) pane_runtime \<Rightarrow> string \<Rightarrow>
    ('c, 'p, 's) overlay \<Rightarrow> ('c, 'p, 's) overlay result" where
  "write_mode_input dw ps rt bytes ov = (case wo_picker ov of
     Some picker \<Rightarrow> and_then (picker_write_input ps bytes picker) (\<lambda>picker'. Inr (ov\<lparr>wo_picker := Some picker'\<rparr>))
   | None \<Rightarrow>
       if current_stage (wo_workflow ov) = Stage_RESULT then Inr ov
       else if current_stage (wo_workflow ov) = Stage_SWITCH_WORKTREE then
         (if CHR 0x0D \<in> set bytes \<or> CHR 0x0A \<in> set bytes then start_switch_worktree_picker dw ps rt ov else Inr ov)
       else fold_result (write_editing_input dw ps rt) bytes ov)"

definition write_mode_switch_input :: "dialog_world \<Rightarrow> 'p picker_system \<Rightarrow> ('c, 's, 'o) pane_runtime \<Rightarrow> char \<Rightarrow>
    ('c, 'p, 's) overlay \<Rightarrow> ('c, 'p, 's) overlay result" where
  "write_mode_switch_input dw ps rt byte ov =
     (if wo_switch_sequence ov = [] then
        (if byte = CHR 0x09 then cycle_mode dw ps rt Direction_NEXT ov
         else if byte = ESC then Inr (ov\<lparr>wo_switch_sequence := [byte]\<rparr>)
         else write_mode_input dw ps rt [byte] ov)
      else
        let pressed = wo_switch_sequence ov @ [byte];
            ov1 = ov\<lparr>wo_switch_sequence := pressed\<rparr>;
            code = (of_char byte :: nat) in
        if length pressed = 2 \<and> byte = CHR ''['' then Inr ov1
        else if pressed = ESC # ''[Z'' then cycle_mode dw ps rt Direction_PREVIOUS (ov1\<lparr>wo_switch_sequence := []\<rparr>)
        else if length pressed = 2 \<or> (0x40 \<le> code \<and> code \<le> 0x7E) then
          write_mode_input dw ps rt pressed (ov1\<lparr>wo_switch_sequence := []\<rparr>)
        else Inr ov1)"

definition write_input :: "dialog_world \<Rightarrow> 'p picker_system \<Rightarrow> ('c, 's, 'o) pane_runtime \<Rightarrow> string \<Rightarrow>
    ('c, 'p, 's) overlay \<Rightarrow> ('c, 'p, 's) overlay result" where
  "write_input dw ps rt bytes ov =
     (if current_stage (wo_workflow ov) = Stage_RUNNING then
        and_then (process_write rt bytes (wo_helper ov)) (\<lambda>helper. Inr (ov\<lparr>wo_helper := helper\<rparr>))
      else fold_result (write_mode_switch_input dw ps rt) bytes ov)"

section \<open>The processes\<close>

definition overlay_read_output :: "'p picker_system \<Rightarrow> ('c, 's, 'o) pane_runtime \<Rightarrow> ('c, 'p, 's) overlay \<Rightarrow>
    (bool \<times> ('c, 'p, 's) overlay) result" where
  "overlay_read_output ps rt ov = (case wo_picker ov of
     Some picker \<Rightarrow> and_then (picker_read_output ps rt picker) (\<lambda>(changed, picker'). Inr (changed, ov\<lparr>wo_picker := Some picker'\<rparr>))
   | None \<Rightarrow> and_then (read_process_output rt (wo_helper ov)) (\<lambda>(changed, helper). Inr (changed, ov\<lparr>wo_helper := helper\<rparr>)))"

text \<open>What a finished picker selected.\<close>

definition picker_finished :: "dialog_world \<Rightarrow> 'p picker_system \<Rightarrow> ('c, 's, 'o) pane_runtime \<Rightarrow> string option \<Rightarrow>
    nat option \<Rightarrow> ('c, 'p, 's) overlay \<Rightarrow> ('c, 'p, 's) overlay result" where
  "picker_finished dw ps rt selected selected_index ov = (case selected of
     None \<Rightarrow> Inr (ov\<lparr>wo_workflow := put_active_error ''No path selected'' (wo_workflow ov)\<rparr>)
   | Some chosen \<Rightarrow>
       (case wf_mode (wo_workflow ov) of
          Mode_SWITCH_WORKTREE \<Rightarrow>
            (case selected_index of
               None \<Rightarrow> Inr (set_error Mode_SWITCH_WORKTREE ''Selected tray is unavailable'' ov)
             | Some index \<Rightarrow>
                 if index \<ge> length (wo_candidate_trays ov) \<or> index \<ge> length (wo_candidate_available ov) then
                   Inr (set_error Mode_SWITCH_WORKTREE ''Selected tray is unavailable'' ov)
                 else if \<not> wo_candidate_available ov ! index then
                   and_then (start_switch_worktree_picker dw ps rt ov) (\<lambda>ov1.
                   Inr (set_picker_action_error ''Worktree is unavailable; use Shift+R to remove it'' ov1))
                 else
                   Inr (set_error Mode_SWITCH_WORKTREE []
                     (ov\<lparr>wo_to_open := Some (wo_candidate_trays ov ! index)\<rparr>)))
        | Mode_ADD_WORKTREE \<Rightarrow>
            set_stage Stage_WORKTREE_BRANCH (set_error Mode_ADD_WORKTREE [] (ov\<lparr>wo_selected := Some chosen\<rparr>))
        | Mode_ADD_REPOSITORY \<Rightarrow> Inr ov))"

definition overlay_refresh :: "dialog_world \<Rightarrow> 'p picker_system \<Rightarrow> ('c, 's, 'o) pane_runtime \<Rightarrow>
    ('c, 'p, 's) overlay \<Rightarrow> (bool \<times> ('c, 'p, 's) overlay) result" where
  "overlay_refresh dw ps rt ov = (case wo_picker ov of
     Some picker \<Rightarrow>
       and_then (picker_refresh ps picker) (\<lambda>(changed, picker').
       if \<not> pp_finished (pk_process picker') then Inr (changed, ov\<lparr>wo_picker := Some picker'\<rparr>)
       else and_then (picker_finished dw ps rt (pk_selection picker') (pk_selected picker')
              (ov\<lparr>wo_picker := None, wo_full_redraw := True\<rparr>)) (\<lambda>ov1. Inr (True, ov1)))
   | None \<Rightarrow>
       if current_stage (wo_workflow ov) \<noteq> Stage_RUNNING then Inr (False, ov)
       else (case refresh_process rt (wo_helper ov) of (changed, helper) \<Rightarrow>
         let ov1 = ov\<lparr>wo_helper := helper\<rparr> in
         if \<not> changed then Inr (False, ov1)
         else
           and_then (set_stage Stage_RESULT ov1) (\<lambda>ov2.
           if result_succeeded (wo_helper ov2) \<and> wf_mode (wo_workflow ov2) = Mode_ADD_WORKTREE then
             and_then (require (Logic_error ''successful worktree provision is missing its path'') (wo_pending ov2))
               (\<lambda>pending. Inr (True, ov2\<lparr>wo_to_open := Some (Worktree_tray pending)\<rparr>))
           else Inr (True, ov2))))"

definition overlay_resize :: "'p picker_system \<Rightarrow> ('c, 's, 'o) pane_runtime \<Rightarrow> terminal_size \<Rightarrow>
    ('c, 'p, 's) overlay \<Rightarrow> ('c, 'p, 's) overlay result" where
  "overlay_resize ps rt sz ov =
     (let ov1 = ov\<lparr>wo_size := sz\<rparr> in
      and_then (process_resize rt sz (wo_helper ov1)) (\<lambda>helper.
      let ov2 = ov1\<lparr>wo_helper := helper\<rparr> in
      case wo_picker ov2 of
        None \<Rightarrow> Inr ov2
      | Some picker \<Rightarrow>
          and_then (picker_resize ps rt (dialog_terminal_size ov2) picker) (\<lambda>picker'.
          Inr (ov2\<lparr>wo_picker := Some picker'\<rparr>))))"

definition overlay_descriptor :: "'p picker_system \<Rightarrow> ('c, 's, 'o) pane_runtime \<Rightarrow> ('c, 'p, 's) overlay \<Rightarrow>
    int option" where
  "overlay_descriptor ps rt ov = (case wo_picker ov of
     Some picker \<Rightarrow> picker_process_descriptor ps (pk_process picker)
   | None \<Rightarrow> process_descriptor rt (wo_helper ov))"

end
