(* ===== verification/Overlay_Render.thy ===== *)
theory Overlay_Render
  imports Worktree_Overlay
begin

text \<open>
  Drawing the worktree dialog
  (src/src/parent/worktree/overlay/worktree_management_overlay.cc): the footer with the modes,
  the form or the transcript in a box above it, and the confirmation or the error of an action.
\<close>

section \<open>Definitions\<close>

definition DIALOG_HEIGHT :: int where "DIALOG_HEIGHT = 7"

definition MODE_LABELS :: "string list" where
  "MODE_LABELS = [''Worktrees'', ''Add worktree'', ''Add repository'']"

fun mode_index :: "overlay_mode \<Rightarrow> nat" where
  "mode_index Mode_SWITCH_WORKTREE = 0"
| "mode_index Mode_ADD_WORKTREE = 1"
| "mode_index Mode_ADD_REPOSITORY = 2"

definition position_cursor :: "int \<Rightarrow> int \<Rightarrow> string" where
  "position_cursor row column = csi (to_string row @ '';'' @ to_string column @ ''H'')"

definition visible_tail :: "string \<Rightarrow> nat \<Rightarrow> string" where
  "visible_tail v width = (if length v \<le> width then v else drop (length v - width) v)"

definition filled_line :: "int \<Rightarrow> string \<Rightarrow> int \<Rightarrow> string" where
  "filled_line row content columns =
     (let width = nat (max columns 1);
          displayed = take width content in
      position_cursor row 1 @ csi ''48;5;236m'' @ csi ''38;5;252m'' @ displayed
      @ replicate (width - length displayed) (CHR '' '') @ csi ''0m'')"

definition footer_output :: "('c, 'p, 's) overlay \<Rightarrow> string" where
  "footer_output ov = render_overlay_footer MODE_LABELS (mode_index (wf_mode (wo_workflow ov))) (wo_size ov)"

definition dialog_height :: "('c, 'p, 's) overlay \<Rightarrow> int" where
  "dialog_height ov = min DIALOG_HEIGHT (max (ts_rows (wo_size ov) - OVERLAY_FOOTER_HEIGHT) 0)"

definition clamp_int :: "int \<Rightarrow> int \<Rightarrow> int \<Rightarrow> int" where
  "clamp_int v lo hi = (if v < lo then lo else if hi < v then hi else v)"

definition opaque_region_start_row :: "('c, 'p, 's) overlay \<Rightarrow> int" where
  "opaque_region_start_row ov = (case wo_picker ov of
     Some picker \<Rightarrow> clamp_int (ts_rows (available_region_above picker)) 0 (max (ts_rows (wo_size ov) - 1) 0)
   | None \<Rightarrow> max (max 1 (ts_rows (wo_size ov) - dialog_height ov) - 1) 0)"

definition action_question :: "tray_action_request \<Rightarrow> nat \<Rightarrow> string" where
  "action_question pending width =
     (let target = preview_target (ta_tray pending);
          clear = (ta_kind pending = Tray_CLEAR);
          prefix = (if clear then ''Clear '' else ''Remove '');
          suffix = ''? [y/N]'' in
      if length prefix + length target + length suffix \<le> width then prefix @ target @ suffix
      else if width > length prefix + length suffix + 3 then
        prefix @ ''...'' @ drop (length target - (width - length prefix - length suffix - 3)) target @ suffix
      else if clear then ''Clear? [y/N]'' else ''Remove? [y/N]'')"

definition picker_action_output :: "('c, 'p, 's) overlay \<Rightarrow> string" where
  "picker_action_output ov =
     (if wo_confirmation ov = None \<and> wo_action_error ov = [] then []
      else
        let width = nat (max (ts_cols (wo_size ov)) 1);
            (message, background) = (case wo_confirmation ov of
               Some pending \<Rightarrow> (action_question pending width, csi ''48;5;52m'')
             | None \<Rightarrow> (wo_action_error ov, csi ''48;5;88m''));
            row = max (ts_rows (wo_size ov) - OVERLAY_FOOTER_HEIGHT) 1 in
        position_cursor row 1 @ background @ csi ''38;5;255m''
        @ resize_string width (CHR '' '') (visible_tail message width) @ csi ''0m'')"

text \<open>A line is only written when the box has it.\<close>

definition put_line :: "nat \<Rightarrow> string \<Rightarrow> string list \<Rightarrow> string list" where
  "put_line k content ls = (if k < length ls then ls[k := content] else ls)"

text \<open>The visible part of a field, and the column of its cursor.\<close>

definition displayed_input :: "nat \<Rightarrow> text_field \<Rightarrow> string \<times> nat" where
  "displayed_input width field =
     (let prompt = ''> '' @ tf_value field;
          prompt_cursor = 2 + min (tf_cursor field) (length (tf_value field));
          first_visible = (if prompt_cursor \<ge> width then prompt_cursor - width + 1 else 0) in
      (take width (drop first_visible prompt), prompt_cursor - first_visible + 1))"

definition put_input :: "nat \<Rightarrow> workflow \<Rightarrow> string list \<times> nat \<Rightarrow> string list \<times> nat" where
  "put_input width w drawn = (case drawn of (ls, column) \<Rightarrow>
     (case active_text_field w of
        Some field \<Rightarrow> if length ls > 5 then (case displayed_input width field of (s, c) \<Rightarrow> (ls[5 := s], c)) else (ls, column)
      | None \<Rightarrow> (ls, column)))"

text \<open>
  The transcript from the first line that fits, between the first row of the box and the last,
  and the line being written while there is room.
\<close>

fun transcript_loop :: "nat \<Rightarrow> nat \<Rightarrow> string list \<Rightarrow> string list \<Rightarrow> string list \<times> nat" where
  "transcript_loop height output_row [] ls = (ls, output_row)"
| "transcript_loop height output_row (l # rest) ls =
     (if output_row + 1 < height then transcript_loop height (output_row + 1) rest (ls[output_row := l])
      else (ls, output_row))"

definition transcript_rows :: "nat \<Rightarrow> string list \<Rightarrow> string \<Rightarrow> string list \<Rightarrow> string list" where
  "transcript_rows height lines current ls =
     (let capacity = (if height > 2 then height - 2 else 0);
          start = (if length lines > capacity then length lines - capacity else 0) in
      case transcript_loop height 1 (drop start lines) ls of
        (ls1, output_row) \<Rightarrow> if current \<noteq> [] \<and> output_row + 1 < height then ls1[output_row := current] else ls1)"

definition dialog_lines :: "('c, 'p, 's) overlay \<Rightarrow> nat \<Rightarrow> nat \<Rightarrow> string list \<times> nat" where
  "dialog_lines ov height width =
     (let w = wo_workflow ov;
          blank = replicate height [];
          stage = current_stage w in
      if stage = Stage_SWITCH_WORKTREE then
        (put_line 5 ''Enter: reopen selector | Tab: next mode''
          (put_line 2 (error_message Mode_SWITCH_WORKTREE w) blank), 1)
      else if stage = Stage_WORKTREE_REPOSITORY then
        (put_line 6 ''Enter: reopen selector | Tab: next mode''
          (put_line 1 (error_message Mode_ADD_WORKTREE w) blank), 1)
      else if stage = Stage_WORKTREE_BRANCH then
        (case put_input width w
           (put_line 4 ''Branch:'' (put_line 2 (error_message Mode_ADD_WORKTREE w)
             (case wo_selected ov of None \<Rightarrow> blank | Some r \<Rightarrow> put_line 1 (visible_tail r width) blank)), 1) of
           (ls, column) \<Rightarrow> (put_line 6 ''Enter: continue | Tab: mode'' ls, column))
      else if stage = Stage_REPOSITORY_ROOT \<or> stage = Stage_REPOSITORY_CLONE_URL then
        (case put_input width w
           (put_line 4 (if stage = Stage_REPOSITORY_ROOT then ''Repository root:'' else ''Clone URL:'')
             (put_line 2 (error_message Mode_ADD_REPOSITORY w)
               (case wo_root ov of
                  Some r \<Rightarrow> if stage = Stage_REPOSITORY_CLONE_URL then put_line 1 (visible_tail (path_string r) width) blank
                           else blank
                | None \<Rightarrow> blank)), 1) of
           (ls, column) \<Rightarrow> (put_line 6 ''Enter: continue | Tab: mode'' ls, column))
      else
        (let ls = transcript_rows height (op_lines (wo_helper ov)) (op_line (wo_helper ov)) blank;
             result_line = (if stage = Stage_RESULT then
               (if result_succeeded (wo_helper ov) then ''Completed'' else ''Failed'') else ''Working'') in
         (if height > 1 then ls[height - 1 := result_line] else ls, 1)))"

definition dialog_redraw_output :: "('c, 'p, 's) overlay \<Rightarrow> string" where
  "dialog_redraw_output ov =
     (let height = dialog_height ov in
      if height = 0 then []
      else
        let first_row = max 1 (ts_rows (wo_size ov) - height);
            columns = max (ts_cols (wo_size ov)) 1;
            stage = current_stage (wo_workflow ov);
            (ls, input_cursor_column) = dialog_lines ov (nat height) (nat columns) in
        csi ''?25l''
        @ concat (map (\<lambda>offset. filled_line (first_row + int offset) (ls ! offset) columns) [0..<nat height])
        @ (if active_text_field (wo_workflow ov) \<noteq> None \<and> stage \<noteq> Stage_RUNNING \<and> stage \<noteq> Stage_RESULT \<and> height > 5
           then position_cursor (first_row + 5) (int input_cursor_column) @ csi ''?25h'' else []))"

definition overlay_redraw_output :: "('c, 's, 'o) pane_runtime \<Rightarrow> ('c, 'p, 's) overlay \<Rightarrow> string" where
  "overlay_redraw_output rt ov =
     footer_output ov
     @ (case wo_picker ov of Some picker \<Rightarrow> picker_redraw_output rt picker | None \<Rightarrow> dialog_redraw_output ov)
     @ picker_action_output ov"

section \<open>What is drawn fits the screen\<close>

lemma length_put_line [simp]: "length (put_line k content ls) = length ls"
  by (simp add: put_line_def)

lemma length_transcript_loop: "length (fst (transcript_loop height output_row shown ls)) = length ls"
  by (induction height output_row shown ls rule: transcript_loop.induct) auto

lemma length_transcript_rows [simp]: "length (transcript_rows height lines current ls) = length ls"
  using length_transcript_loop by (simp add: transcript_rows_def Let_def case_prod_beta)

lemma length_put_input [simp]: "length (fst (put_input width w drawn)) = length (fst drawn)"
  by (auto simp: put_input_def split: option.split prod.split)

lemma length_dialog_lines: "length (fst (dialog_lines ov height width)) = height"
  by (simp add: dialog_lines_def Let_def case_prod_beta option.case_distrib [where h = length] split: option.split)

lemma action_question_fits:
  assumes "16 \<le> width"
  shows "length (action_question pending width) \<le> width"
  using assms by (auto simp: action_question_def Let_def)

text \<open>
  The box of the dialog lies above the footer, which has the last row, and the rows the code
  reports as opaque are those of the box or of the picker and the footer.
\<close>

lemma displayed_input_visible:
  assumes "displayed_input width field = (shown, column)" "2 \<le> width" "tf_cursor field \<le> length (tf_value field)"
  shows "1 \<le> column \<and> column \<le> width \<and> length shown \<le> width
     \<and> (\<exists>first. shown = take width (drop first (''> '' @ tf_value field)) \<and> first + column = tf_cursor field + 3)"
  using assms by (auto simp: displayed_input_def Let_def min_def intro!: exI)

end
