(* ===== verification/Overlay_Correct.thy ===== *)
theory Overlay_Correct
  imports Overlay_Render
begin

text \<open>
  The dialog never gets stuck: in the states it reaches, no input, no output of its processes
  and no resize throws, except what writing to a process throws; it never writes to a process
  that is not there, and a finished provision always has the path of its worktree.
\<close>

section \<open>What the processes and the world promise\<close>

text \<open>
  A call outside the program either succeeds or throws an exception that the dialog can catch.
  A started process is never null, and writing to, reading and resizing a process succeed: the
  dialog does not handle their failure.
\<close>

definition catchable :: "'a result \<Rightarrow> bool" where
  "catchable r \<longleftrightarrow> (\<forall>e. r = Inl e \<longrightarrow> what e \<noteq> None)"

definition dialog_obliges :: "'p picker_system \<Rightarrow> ('c, 's, 'o) pane_runtime \<Rightarrow> bool" where
  "dialog_obliges ps rt \<longleftrightarrow>
     (\<forall>command directory sz. catchable (rt_start rt command directory sz) \<and> rt_start rt command directory sz \<noteq> Inr None)
     \<and> (\<forall>sz. catchable (rt_screen rt sz))
     \<and> (\<forall>command sz. catchable (ps_spawn ps command sz))
     \<and> (\<forall>bytes h. catchable (ps_write_candidate ps bytes h))
     \<and> (\<forall>bytes c. \<exists>c'. rt_write rt bytes c = Inr c')
     \<and> (\<forall>c. \<exists>x. rt_read rt c = Inr x)
     \<and> (\<forall>bytes h. \<exists>h'. ps_write ps bytes h = Inr h')
     \<and> (\<forall>h. \<exists>x. ps_read ps h = Inr x)
     \<and> (\<forall>h. \<exists>bytes. ps_read_result ps h = Inr bytes)
     \<and> (\<forall>sz. usable_size sz \<longrightarrow> (\<forall>c. \<exists>c'. rt_content_resize rt sz c = Inr c')
          \<and> (\<forall>screen. \<exists>screen'. rt_screen_resize rt sz screen = Inr screen')
          \<and> (\<forall>h. \<exists>h'. ps_set_size ps sz h = Inr h'))"

definition world_obliges :: "dialog_world \<Rightarrow> bool" where
  "world_obliges dw \<longleftrightarrow>
     (\<forall>r. catchable (dw_load dw r)) \<and> (\<forall>g r. catchable (dw_find_available dw g r))
     \<and> (\<forall>p. catchable (dw_inspect_root dw p)) \<and> (\<forall>p b. catchable (dw_derived_path dw p b))"

lemma catch_total: "what e \<noteq> None \<Longrightarrow> (\<And>m. P (h m)) \<Longrightarrow> P (catch h e)"
  by (auto simp: catch_def)

section \<open>The invariant\<close>

text \<open>
  The cursors lie in their fields. A picker is open only in the two stages that use one, it is
  settled, what it selected is one of its candidates, and in the switcher its candidates are the
  trays the dialog remembers for them. The current stage belongs to the mode and has its inputs:
  a branch is asked for a selected repository, a clone URL for a root, a running helper has a
  process, and a provision its path.
\<close>

fun stage_ok :: "overlay_stage \<Rightarrow> overlay_mode \<Rightarrow> bool \<Rightarrow> bool \<Rightarrow> bool \<Rightarrow> bool \<Rightarrow> bool" where
  "stage_ok Stage_SWITCH_WORKTREE mode selected root pending process = (mode = Mode_SWITCH_WORKTREE)"
| "stage_ok Stage_WORKTREE_REPOSITORY mode selected root pending process = (mode = Mode_ADD_WORKTREE \<and> \<not> selected)"
| "stage_ok Stage_WORKTREE_BRANCH mode selected root pending process = (mode = Mode_ADD_WORKTREE \<and> selected)"
| "stage_ok Stage_REPOSITORY_ROOT mode selected root pending process = (mode = Mode_ADD_REPOSITORY)"
| "stage_ok Stage_REPOSITORY_CLONE_URL mode selected root pending process = (mode = Mode_ADD_REPOSITORY \<and> root)"
| "stage_ok Stage_RUNNING mode selected root pending process = (process \<and> (mode = Mode_ADD_WORKTREE \<longrightarrow> pending))"
| "stage_ok Stage_RESULT mode selected root pending process = True"

definition stage_fits :: "('c, 'p, 's) overlay \<Rightarrow> bool" where
  "stage_fits ov \<longleftrightarrow> stage_ok (current_stage (wo_workflow ov)) (wf_mode (wo_workflow ov)) (wo_selected ov \<noteq> None)
     (wo_root ov \<noteq> None) (wo_pending ov \<noteq> None) (op_process (wo_helper ov) \<noteq> None)"

definition fields_ok :: "workflow \<Rightarrow> bool" where
  "fields_ok w \<longleftrightarrow> field_ok (wf_branch w) \<and> field_ok (wf_repository_root w) \<and> field_ok (wf_clone_url w)"

definition picker_ok :: "('p, 's) path_picker \<Rightarrow> bool" where
  "picker_ok pk \<longleftrightarrow> picker_settled pk
     \<and> (\<forall>i. pk_selected pk = Some i \<longrightarrow> i < length (pk_candidates pk))
     \<and> picker_size_for (pk_parent_size pk) = Inr (pk_size pk)"

definition picker_fits :: "('c, 'p, 's) overlay \<Rightarrow> bool" where
  "picker_fits ov \<longleftrightarrow> (\<forall>pk. wo_picker ov = Some pk \<longrightarrow>
     picker_ok pk \<and> pk_parent_size pk = dialog_terminal_size ov
     \<and> current_stage (wo_workflow ov) \<in> {Stage_SWITCH_WORKTREE, Stage_WORKTREE_REPOSITORY}
     \<and> (wf_mode (wo_workflow ov) = Mode_SWITCH_WORKTREE \<longrightarrow> length (pk_candidates pk) = length (wo_candidate_trays ov)))"

definition overlay_inv :: "('c, 'p, 's) overlay \<Rightarrow> bool" where
  "overlay_inv ov \<longleftrightarrow> fields_ok (wo_workflow ov) \<and> stage_fits ov \<and> picker_fits ov
     \<and> length (wo_candidate_available ov) = length (wo_candidate_trays ov) \<and> transcript_ok (wo_helper ov)"

text \<open>An operation that returns, in a state that satisfies the invariant.\<close>

definition safely :: "('c, 'p, 's) overlay result \<Rightarrow> bool" where
  "safely r \<longleftrightarrow> (\<exists>ov. r = Inr ov \<and> overlay_inv ov)"

lemma safely_Inr [simp]: "safely (Inr ov) \<longleftrightarrow> overlay_inv ov"
  by (simp add: safely_def)

lemma safely_bind: "safely r \<Longrightarrow> (\<And>ov. overlay_inv ov \<Longrightarrow> safely (f ov)) \<Longrightarrow> safely (and_then r f)"
  by (auto simp: safely_def)

lemma safely_fold: "(\<And>x ov. overlay_inv ov \<Longrightarrow> safely (f x ov)) \<Longrightarrow> overlay_inv ov \<Longrightarrow> safely (fold_result f xs ov)"
  by (induction xs arbitrary: ov) (simp_all add: safely_bind)

section \<open>Catchable errors\<close>

lemma catchable_simps [simp]:
  "catchable (Inr x)" "catchable (Inl (Invalid_argument m))" "catchable (Inl (Logic_error m))"
  "catchable (Inl (Runtime_error m))"
  by (simp_all add: catchable_def)

lemma catchable_bind: "catchable r \<Longrightarrow> (\<And>x. catchable (f x)) \<Longrightarrow> catchable (and_then r f)"
  by (cases r) (auto simp: catchable_def)

lemma catchable_fold: "(\<And>x s. catchable (f x s)) \<Longrightarrow> catchable (fold_result f xs s)"
  by (induction xs arbitrary: s) (simp_all add: catchable_bind)

lemma catchable_checks: "catchable (throw_if c (Invalid_argument m) r) \<longleftrightarrow> c \<or> catchable r"
  by (simp add: throw_if_def)

lemma catchable_require: "catchable (require (Invalid_argument m) x)"
  by (cases x) simp_all

lemma picker_size_catchable: "catchable (picker_size_for sz)"
  by (auto simp: picker_size_for_def check_picker_size_def catchable_checks intro!: catchable_bind)

lemma picker_start_catchable:
  assumes "dialog_obliges ps rt"
  shows "catchable (picker_start ps rt executable candidates prompt sz)"
proof -
  have h: "catchable (on_handle (ps_write_candidate ps bytes) p)" for bytes p
    using assms by (auto simp: dialog_obliges_def on_handle_def intro!: catchable_bind)
  have w: "catchable (write_candidates ps pk)" for pk :: "('a, 'c) path_picker"
    by (auto simp: write_candidates_def intro!: catchable_bind catchable_fold h)
  have p: "catchable (picker_process_start ps executable prompt sz')" for sz'
    using assms by (auto simp: dialog_obliges_def picker_process_start_def check_picker_size_def catchable_checks
        intro!: catchable_bind)
  show ?thesis
    using assms by (auto simp: dialog_obliges_def picker_start_def catchable_checks
        intro!: catchable_bind picker_size_catchable p w)
qed

lemma resolved_path_catchable: "catchable (resolved_path dw directory field description)"
  by (auto simp: resolved_path_def Let_def catchable_checks catchable_require intro!: catchable_bind split: option.split)

section \<open>Fields\<close>

lemma field_edits_ok:
  assumes "field_ok f"
  shows "field_ok (move_cursor_left f)" "field_ok (move_cursor_right f)" "field_ok (move_cursor_to_start f)"
    "field_ok (move_cursor_to_end f)" "\<exists>g. field_insert byte f = Inr g \<and> field_ok g"
    "\<exists>g. field_backspace f = Inr g \<and> field_ok g" "\<exists>g. delete_at_cursor f = Inr g \<and> field_ok g"
proof -
  let ?s = "tf_value f" and ?k = "tf_cursor f"
  have k: "?k \<le> length ?s" using assms by (simp add: field_ok_def)
  have p: "previous_utf8_code_point_start ?s ?k \<le> ?k"
    using back_to_start_le [of ?s "?k - 1"] by (auto simp: previous_utf8_code_point_start_def)
  have n: "?k \<le> next_utf8_code_point_end ?s ?k" "next_utf8_code_point_end ?s ?k \<le> length ?s"
    using k length_takeWhile_le [of is_continuation "drop (?k + 1) ?s"]
    by (auto simp: next_utf8_code_point_end_def)
  show "field_ok (move_cursor_left f)" using p k by (simp add: field_ok_def move_cursor_left_def)
  show "field_ok (move_cursor_right f)" using n by (simp add: field_ok_def move_cursor_right_def)
  show "field_ok (move_cursor_to_start f)" "field_ok (move_cursor_to_end f)"
    by (simp_all add: field_ok_def move_cursor_to_start_def move_cursor_to_end_def)
  show "\<exists>g. field_insert byte f = Inr g \<and> field_ok g" using k by (simp add: field_insert_def field_ok_def)
  show "\<exists>g. field_backspace f = Inr g \<and> field_ok g"
    using k p by (simp add: field_backspace_def field_erase_def field_ok_def Let_def)
  show "\<exists>g. delete_at_cursor f = Inr g \<and> field_ok g"
    using k n by (simp add: delete_at_cursor_def field_erase_def field_ok_def Let_def)
qed

lemma field_clear_ok: "field_ok (field_clear f)" "field_ok (field_set_value v f)" "field_ok empty_field"
  by (simp_all add: field_ok_def field_clear_def field_set_value_def empty_field_def)

section \<open>Changes that keep the invariant\<close>

lemma current_stage_frame [simp]:
  "current_stage (put_error_message mode m w) = current_stage w"
  "current_stage (put_active_error m w) = current_stage w"
  "wf_mode (put_error_message mode m w) = wf_mode w" "wf_mode (put_active_error m w) = wf_mode w"
  "fields_ok (put_error_message mode m w) = fields_ok w" "fields_ok (put_active_error m w) = fields_ok w"
  "current_stage (w\<lparr>wf_branch := f\<rparr>) = current_stage w" "current_stage (w\<lparr>wf_repository_root := f\<rparr>) = current_stage w"
  "current_stage (w\<lparr>wf_clone_url := f\<rparr>) = current_stage w"
  by (simp_all add: current_stage_def put_error_message_def put_active_error_def fields_ok_def split: overlay_mode.split)

lemma overlay_inv_cong:
  assumes "fields_ok (wo_workflow a) = fields_ok (wo_workflow b)" "current_stage (wo_workflow a) = current_stage (wo_workflow b)"
    "wf_mode (wo_workflow a) = wf_mode (wo_workflow b)" "wo_selected a = wo_selected b" "wo_root a = wo_root b"
    "wo_pending a = wo_pending b" "wo_helper a = wo_helper b" "wo_picker a = wo_picker b" "wo_size a = wo_size b"
    "wo_candidate_trays a = wo_candidate_trays b" "wo_candidate_available a = wo_candidate_available b"
  shows "overlay_inv a = overlay_inv b"
  unfolding overlay_inv_def stage_fits_def picker_fits_def dialog_terminal_size_def assms ..

lemma overlay_inv_error [simp]: "overlay_inv (set_error mode m ov) = overlay_inv ov"
  unfolding set_error_def by (rule overlay_inv_cong) simp_all

lemma overlay_inv_frame [simp]:
  "overlay_inv (ov\<lparr>wo_workflow := put_active_error m (wo_workflow ov)\<rparr>) = overlay_inv ov"
  "overlay_inv (ov\<lparr>wo_confirmation := c\<rparr>) = overlay_inv ov" "overlay_inv (ov\<lparr>wo_action_error := m\<rparr>) = overlay_inv ov"
  "overlay_inv (ov\<lparr>wo_full_redraw := b\<rparr>) = overlay_inv ov" "overlay_inv (ov\<lparr>wo_to_open := t\<rparr>) = overlay_inv ov"
  "overlay_inv (ov\<lparr>wo_session_trays := ids\<rparr>) = overlay_inv ov" "overlay_inv (ov\<lparr>wo_repositories := rs\<rparr>) = overlay_inv ov"
  "overlay_inv (ov\<lparr>wo_switch_sequence := q\<rparr>) = overlay_inv ov" "overlay_inv (ov\<lparr>wo_input := i\<rparr>) = overlay_inv ov"
  "overlay_inv (ov\<lparr>wo_parameters := q\<rparr>) = overlay_inv ov"
  by (rule overlay_inv_cong; simp)+

lemma overlay_inv_closed: "overlay_inv ov \<Longrightarrow> overlay_inv (ov\<lparr>wo_picker := None\<rparr>)"
  by (simp add: overlay_inv_def stage_fits_def picker_fits_def)

lemma set_error_frame [simp]:
  "wo_picker (set_error mode m ov) = wo_picker ov" "wf_mode (wo_workflow (set_error mode m ov)) = wf_mode (wo_workflow ov)"
  "current_stage (wo_workflow (set_error mode m ov)) = current_stage (wo_workflow ov)"
  "wo_candidate_trays (set_error mode m ov) = wo_candidate_trays ov"
  "dialog_terminal_size (set_error mode m ov) = dialog_terminal_size ov"
  "wo_selected (set_error mode m ov) = wo_selected ov" "wo_root (set_error mode m ov) = wo_root ov"
  "wo_pending (set_error mode m ov) = wo_pending ov" "wo_helper (set_error mode m ov) = wo_helper ov"
  by (simp_all add: set_error_def dialog_terminal_size_def)

lemma safely_catch: "what e \<noteq> None \<Longrightarrow> (\<And>m. safely (h m)) \<Longrightarrow> safely (catch h e)"
  by (auto simp: catch_def)

lemma catchable_Inl: "catchable r \<Longrightarrow> r = Inl e \<Longrightarrow> what e \<noteq> None"
  by (simp add: catchable_def)

section \<open>Pickers\<close>

text \<open>A dialog about to open a picker has none.\<close>

lemma picker_opened:
  assumes inv: "overlay_inv ov" and pk: "picker_start ps rt executable candidates prompt (dialog_terminal_size ov) = Inr pk"
    and stage: "current_stage (wo_workflow ov) \<in> {Stage_SWITCH_WORKTREE, Stage_WORKTREE_REPOSITORY}"
    and n: "wf_mode (wo_workflow ov) = Mode_SWITCH_WORKTREE \<Longrightarrow> length candidates = length (wo_candidate_trays ov)"
  shows "overlay_inv (ov\<lparr>wo_picker := Some pk\<rparr>)"
proof -
  have size: "pk_parent_size pk = dialog_terminal_size ov" "picker_size_for (dialog_terminal_size ov) = Inr (pk_size pk)"
    using pk by (auto simp: picker_start_def write_candidates_def result_simps)
  moreover have "dialog_terminal_size (ov\<lparr>wo_picker := Some pk\<rparr>) = dialog_terminal_size ov"
    by (simp add: dialog_terminal_size_def)
  ultimately have "picker_fits (ov\<lparr>wo_picker := Some pk\<rparr>)"
    using picker_start_settled [OF pk] stage n by (simp add: picker_fits_def picker_ok_def)
  then show ?thesis using inv by (simp add: overlay_inv_def stage_fits_def)
qed

lemma start_switch_safe:
  assumes obl: "dialog_obliges ps rt" "world_obliges dw" and inv: "overlay_inv ov" and none: "wo_picker ov = None"
    and mode: "wf_mode (wo_workflow ov) = Mode_SWITCH_WORKTREE"
  shows "safely (start_switch_worktree_picker dw ps rt ov)"
proof (cases "dw_find_available dw (wo_git ov) (wo_registry ov)")
  case (Inl e)
  then show ?thesis
    using obl(2) inv by (auto simp: start_switch_worktree_picker_def world_obliges_def
        intro!: safely_catch [OF catchable_Inl [OF _ Inl]])
next
  case avail: (Inr available)
  show ?thesis
  proof (cases "dw_load dw (wo_registry ov)")
    case (Inl e)
    then show ?thesis
      using obl(2) inv avail by (auto simp: start_switch_worktree_picker_def world_obliges_def
          intro!: safely_catch [OF catchable_Inl [OF _ Inl]])
  next
    case load: (Inr registry)
    define entries where "entries = map (worktree_candidate available) (concat (map rp_worktrees registry))
       @ concat (map session_candidates (wo_session_trays ov))"
    define ov1 where "ov1 = ov\<lparr>wo_candidate_trays := map (fst \<circ> snd) entries,
       wo_candidate_available := map (snd \<circ> snd) entries\<rparr>"
    have inv1: "overlay_inv ov1" and mode1: "wf_mode (wo_workflow ov1) = Mode_SWITCH_WORKTREE"
      and len: "length (wo_candidate_trays ov1) = length entries"
      using inv none mode by (simp_all add: ov1_def overlay_inv_def stage_fits_def picker_fits_def)
    define ov2 where "ov2 = set_error Mode_SWITCH_WORKTREE [] ov1"
    have inv2: "overlay_inv ov2" and mode2: "wf_mode (wo_workflow ov2) = Mode_SWITCH_WORKTREE"
      using inv1 mode1 by (simp_all add: ov2_def)
    then have stage2: "current_stage (wo_workflow ov2) = Stage_SWITCH_WORKTREE" by (simp add: current_stage_def)
    show ?thesis
    proof (cases "picker_start ps rt (wo_fzf ov2) (map fst entries) ''Worktree> '' (dialog_terminal_size ov2)")
      case (Inl e)
      then have "what e \<noteq> None" using picker_start_catchable [OF obl(1)] catchable_Inl by metis
      then show ?thesis
        using avail load Inl inv1 inv2
        by (auto simp: start_switch_worktree_picker_def Let_def ov2_def ov1_def entries_def intro!: safely_catch)
    next
      case (Inr pk)
      have "length (map fst entries) = length (wo_candidate_trays ov2)" using len by (simp add: ov2_def)
      then have "overlay_inv (ov2\<lparr>wo_picker := Some pk\<rparr>)"
        using picker_opened [OF inv2 Inr] stage2 by simp
      then show ?thesis
        using avail load Inr inv1
        by (simp add: start_switch_worktree_picker_def Let_def ov2_def ov1_def entries_def)
    qed
  qed
qed

lemma start_repository_safe:
  assumes obl: "dialog_obliges ps rt" and inv: "overlay_inv ov"
    and mode: "current_stage (wo_workflow ov) = Stage_WORKTREE_REPOSITORY" "wf_mode (wo_workflow ov) = Mode_ADD_WORKTREE"
  shows "safely (start_repository_picker ps rt ov)"
proof (cases "picker_start ps rt (wo_fzf (set_error Mode_ADD_WORKTREE [] ov)) (wo_repositories (set_error Mode_ADD_WORKTREE [] ov))
    ''Repository> '' (dialog_terminal_size (set_error Mode_ADD_WORKTREE [] ov))")
  case (Inl e)
  then have "what e \<noteq> None" using picker_start_catchable [OF obl] catchable_Inl by metis
  then show ?thesis using Inl inv by (auto simp: start_repository_picker_def Let_def intro!: safely_catch)
next
  case (Inr pk)
  have "overlay_inv ((set_error Mode_ADD_WORKTREE [] ov)\<lparr>wo_picker := Some pk\<rparr>)"
    using picker_opened [OF _ Inr] inv mode by simp
  then show ?thesis using Inr inv by (auto simp: start_repository_picker_def Let_def)
qed

section \<open>Modes and stages\<close>

lemma reset_stage:
  "current_stage (workflow_cycle_mode direction w) = (case wf_mode (workflow_cycle_mode direction w) of
     Mode_SWITCH_WORKTREE \<Rightarrow> Stage_SWITCH_WORKTREE | Mode_ADD_WORKTREE \<Rightarrow> Stage_WORKTREE_REPOSITORY
   | Mode_ADD_REPOSITORY \<Rightarrow> Stage_REPOSITORY_ROOT)"
  "fields_ok (workflow_cycle_mode direction w)"
  by (simp_all add: current_stage_def workflow_cycle_mode_def workflow_reset_def Let_def fields_ok_def field_clear_ok
      split: overlay_mode.split)

text \<open>Between leaving a mode and activating the next one, an open picker is of no account.\<close>

abbreviation closed_inv :: "('c, 'p, 's) overlay \<Rightarrow> bool" where
  "closed_inv ov \<equiv> overlay_inv (ov\<lparr>wo_picker := None\<rparr>)"

lemma closed_inv_error [simp]: "closed_inv (set_error mode m ov) = closed_inv ov"
  by (rule overlay_inv_cong) (simp_all add: set_error_def)

lemma closed_inv_frame [simp]:
  "closed_inv (ov\<lparr>wo_repositories := rs\<rparr>) = closed_inv ov"
  by (rule overlay_inv_cong; simp)+

lemma load_repositories_safe:
  assumes "world_obliges dw" "closed_inv ov"
  shows "\<exists>ov'. load_repositories dw ov = Inr ov' \<and> closed_inv ov'"
proof -
  define ov1 where "ov1 = set_error Mode_ADD_WORKTREE [] (ov\<lparr>wo_repositories := []\<rparr>)"
  have inv1: "closed_inv ov1" using assms(2) by (simp add: ov1_def)
  show ?thesis
  proof (cases "dw_load dw (wo_registry ov1)")
    case (Inl e)
    then have "what e \<noteq> None" using assms(1) by (auto simp: world_obliges_def catchable_def)
    then show ?thesis using inv1 Inl by (auto simp: load_repositories_def ov1_def [symmetric] catch_def)
  next
    case (Inr registry)
    then show ?thesis using inv1 by (simp add: load_repositories_def ov1_def [symmetric] Let_def)
  qed
qed

lemma activate_mode_safe:
  assumes obl: "dialog_obliges ps rt" "world_obliges dw" and inv: "closed_inv ov"
  shows "safely (activate_mode dw ps rt ov)"
proof -
  define ov1 where "ov1 = ov\<lparr>wo_picker := None, wo_switch_sequence := [], wo_input := Input_NORMAL, wo_parameters := []\<rparr>"
  have inv1: "overlay_inv ov1" using inv by (simp add: ov1_def)
  have none: "wo_picker ov1 = None" by (simp add: ov1_def)
  show ?thesis
    using start_switch_safe [OF obl inv1 none] start_repository_safe [OF obl(1) inv1] inv1
    by (simp add: activate_mode_def ov1_def [symmetric])
qed

lemma process_clear_ok: "transcript_ok (process_clear p)"
  by (simp add: transcript_ok_def process_clear_def)

lemma cycle_mode_safe:
  assumes obl: "dialog_obliges ps rt" "world_obliges dw" and inv: "overlay_inv ov"
  shows "safely (cycle_mode dw ps rt direction ov)"
proof -
  define ov1 where "ov1 = ov\<lparr>wo_selected := None, wo_root := None, wo_pending := None, wo_helper := process_clear (wo_helper ov),
     wo_confirmation := None, wo_action_error := [], wo_workflow := workflow_cycle_mode direction (wo_workflow ov)\<rparr>"
  have "stage_ok (current_stage (wo_workflow ov1)) (wf_mode (wo_workflow ov1)) False r p h" for r p h
    by (simp add: ov1_def reset_stage split: overlay_mode.split)
  then have "closed_inv ov1"
    using inv reset_stage(2) process_clear_ok by (simp add: overlay_inv_def stage_fits_def picker_fits_def ov1_def)
  from load_repositories_safe [OF obl(2) this] obtain ov2 where ov2: "load_repositories dw ov1 = Inr ov2" "closed_inv ov2" by blast
  from activate_mode_safe [OF obl ov2(2)] show ?thesis
    using ov2(1) by (auto simp: cycle_mode_def ov1_def [symmetric] safely_def)
qed

lemma update_session_trays_safe:
  assumes obl: "dialog_obliges ps rt" "world_obliges dw" and inv: "overlay_inv ov"
  shows "safely (update_session_trays dw ps rt snapshots ov)"
proof -
  define ov1 where "ov1 = ov\<lparr>wo_session_trays := filter (\<lambda>i. tray_kind i = Kind_ANONYMOUS) (map sn_id snapshots)\<rparr>"
  have inv1: "overlay_inv ov1" using inv by (simp add: ov1_def)
  have "safely (start_switch_worktree_picker dw ps rt (ov1\<lparr>wo_picker := None\<rparr>))"
    if "wf_mode (wo_workflow ov1) = Mode_SWITCH_WORKTREE"
    by (rule start_switch_safe [OF obl overlay_inv_closed [OF inv1]]) (simp_all add: that)
  then show ?thesis
    using inv inv1 by (auto simp: update_session_trays_def Let_def ov1_def [symmetric] safely_def)
qed

lemma refresh_worktree_picker_safe:
  assumes obl: "dialog_obliges ps rt" "world_obliges dw" and inv: "overlay_inv ov"
  shows "safely (refresh_worktree_picker dw ps rt ov)"
proof -
  define ov1 where "ov1 = ov\<lparr>wo_confirmation := None, wo_action_error := []\<rparr>"
  have inv1: "overlay_inv ov1" using inv by (simp add: ov1_def)
  have "safely (start_switch_worktree_picker dw ps rt (ov1\<lparr>wo_picker := None\<rparr>))"
    if "wf_mode (wo_workflow ov) = Mode_SWITCH_WORKTREE"
    by (rule start_switch_safe [OF obl overlay_inv_closed [OF inv1]]) (simp_all add: that ov1_def)
  then show ?thesis using inv by (auto simp: refresh_worktree_picker_def ov1_def safely_def)
qed

lemma overlay_start_safe:
  fixes ps :: "'p picker_system" and rt :: "('c, 's, 'o) pane_runtime"
  assumes obl: "dialog_obliges ps rt" "world_obliges dw"
  shows "safely (overlay_start dw ps rt executable registry directory git fzf session_trays sz)"
proof -
  define fresh :: "('c, 'p, 's) overlay" where "fresh = \<lparr>wo_executable = executable, wo_registry = registry, wo_directory = directory, wo_git = git, wo_fzf = fzf,
        wo_size = sz, wo_workflow = initial_workflow, wo_switch_sequence = [], wo_input = Input_NORMAL,
        wo_parameters = [], wo_repositories = [], wo_session_trays = [], wo_candidate_trays = [],
        wo_candidate_available = [], wo_selected = None, wo_root = None, wo_pending = None, wo_to_open = None,
        wo_confirmation = None, wo_action_error = [], wo_picker = None, wo_helper = new_overlay_process,
        wo_full_redraw = False\<rparr>"
  have "overlay_inv fresh"
    by (simp add: fresh_def overlay_inv_def stage_fits_def picker_fits_def initial_workflow_def fields_ok_def field_clear_ok
        current_stage_def transcript_ok_def new_overlay_process_def)
  from update_session_trays_safe [OF obl this] obtain ov1 where
    ov1: "update_session_trays dw ps rt session_trays fresh = Inr ov1" "overlay_inv ov1" by (auto simp: safely_def)
  from load_repositories_safe [OF obl(2) overlay_inv_closed [OF ov1(2)]] obtain ov2 where
    ov2: "load_repositories dw ov1 = Inr ov2" "closed_inv ov2" by blast
  show ?thesis
    using activate_mode_safe [OF obl ov2(2)] ov1(1) ov2(1) by (simp add: overlay_start_def fresh_def [symmetric])
qed

section \<open>Forms\<close>

lemma process_start_cases:
  assumes "dialog_obliges ps rt" "transcript_ok p"
  obtains p' where "process_start rt command directory sz p = (Inr (), p')" "transcript_ok p'" "op_process p' \<noteq> None"
  | e p' where "process_start rt command directory sz p = (Inl e, p')" "what e \<noteq> None" "transcript_ok p'"
      "op_process p' = op_process p"
proof (cases "rt_start rt command directory sz")
  case (Inl e)
  then have "what e \<noteq> None" using assms(1) by (auto simp: dialog_obliges_def catchable_def)
  then show ?thesis using that(2) Inl assms(2) by (simp add: process_start_def transcript_ok_def)
next
  case (Inr started)
  then have "started \<noteq> None" using assms(1) unfolding dialog_obliges_def by metis
  then show ?thesis using that(1) Inr assms(2) by (simp add: process_start_def transcript_ok_def)
qed

text \<open>The stages with a form have no picker open.\<close>

lemma form_closed:
  "overlay_inv ov \<Longrightarrow> current_stage (wo_workflow ov) \<notin> {Stage_SWITCH_WORKTREE, Stage_WORKTREE_REPOSITORY} \<Longrightarrow> wo_picker ov = None"
  by (cases "wo_picker ov") (auto simp: overlay_inv_def picker_fits_def)

lemma stage_set:
  assumes "wf_mode (wo_workflow ov) \<noteq> Mode_SWITCH_WORKTREE"
  obtains ov' where "set_stage stage ov = Inr ov'" "current_stage (wo_workflow ov') = stage"
    "wf_mode (wo_workflow ov') = wf_mode (wo_workflow ov)" "fields_ok (wo_workflow ov') = fields_ok (wo_workflow ov)"
    "wo_selected ov' = wo_selected ov" "wo_root ov' = wo_root ov" "wo_pending ov' = wo_pending ov"
    "wo_helper ov' = wo_helper ov" "wo_picker ov' = wo_picker ov" "wo_candidate_trays ov' = wo_candidate_trays ov"
    "wo_candidate_available ov' = wo_candidate_available ov"
  using assms by (cases "wf_mode (wo_workflow ov)")
    (auto simp: set_stage_def set_current_stage_def current_stage_def fields_ok_def)

lemma inv_without_picker:
  "wo_picker ov = None \<Longrightarrow> overlay_inv ov \<longleftrightarrow> fields_ok (wo_workflow ov) \<and> stage_fits ov
     \<and> length (wo_candidate_available ov) = length (wo_candidate_trays ov) \<and> transcript_ok (wo_helper ov)"
  by (simp add: overlay_inv_def picker_fits_def)

lemma run_helper_safe:
  assumes obl: "dialog_obliges ps rt" and inv: "overlay_inv ov" and none: "wo_picker ov = None"
    and mode: "wf_mode (wo_workflow ov) \<noteq> Mode_SWITCH_WORKTREE"
    and pending: "wf_mode (wo_workflow ov) = Mode_ADD_WORKTREE \<Longrightarrow> wo_pending ov \<noteq> None"
    and stage: "current_stage (wo_workflow ov) \<noteq> Stage_RUNNING"
  shows "safely (report m (run_helper rt command ov))"
proof -
  have ok: "transcript_ok (wo_helper ov)" using inv by (simp add: overlay_inv_def)
  from obl ok show ?thesis
  proof (rule process_start_cases [where command = command and directory = "wo_directory ov" and sz = "wo_size ov"])
    fix h assume h: "process_start rt command (wo_directory ov) (wo_size ov) (wo_helper ov) = (Inr (), h)"
      "transcript_ok h" "op_process h \<noteq> None"
    from mode have "wf_mode (wo_workflow (ov\<lparr>wo_helper := h\<rparr>)) \<noteq> Mode_SWITCH_WORKTREE" by simp
    then show ?thesis
      by (rule stage_set [where stage = Stage_RUNNING])
        (use inv none pending h in \<open>simp add: report_def run_helper_def inv_without_picker stage_fits_def\<close>)
  next
    fix e h assume h: "process_start rt command (wo_directory ov) (wo_size ov) (wo_helper ov) = (Inl e, h)"
      "what e \<noteq> None" "transcript_ok h" "op_process h = op_process (wo_helper ov)"
    have "overlay_inv (ov\<lparr>wo_helper := h\<rparr>)"
      using inv none h by (simp add: inv_without_picker stage_fits_def)
    then show ?thesis using h by (auto simp: report_def run_helper_def intro!: safely_catch)
  qed
qed

lemma report_error: "what e \<noteq> None \<Longrightarrow> overlay_inv ov \<Longrightarrow> safely (report m (Inl e, ov))"
  by (auto simp: report_def intro!: safely_catch)

lemma start_registration_safe:
  assumes obl: "dialog_obliges ps rt" and inv: "overlay_inv ov"
    and stage: "current_stage (wo_workflow ov) \<in> {Stage_REPOSITORY_ROOT, Stage_REPOSITORY_CLONE_URL}"
  shows "safely (report m (start_registration rt url ov))"
proof (cases "wo_root ov")
  case None
  then show ?thesis using inv by (simp add: start_registration_def report_error)
next
  case (Some root)
  have mode: "wf_mode (wo_workflow ov) = Mode_ADD_REPOSITORY" using inv stage by (auto simp: overlay_inv_def stage_fits_def)
  have "wo_picker ov = None" using form_closed [OF inv] stage by auto
  then show ?thesis using run_helper_safe [OF obl inv] Some stage mode by (auto simp: start_registration_def)
qed

lemma submit_branch_safe:
  assumes obl: "dialog_obliges ps rt" "world_obliges dw" and inv: "overlay_inv ov"
    and stage: "current_stage (wo_workflow ov) = Stage_WORKTREE_BRANCH"
  shows "safely (submit_worktree_branch dw rt ov)"
proof -
  define branch where "branch = trim_ascii_whitespace (tf_value (wf_branch (wo_workflow ov)))"
  have mode: "wf_mode (wo_workflow ov) = Mode_ADD_WORKTREE" and sel: "wo_selected ov \<noteq> None"
    using inv stage by (auto simp: overlay_inv_def stage_fits_def)
  have none: "wo_picker ov = None" using form_closed [OF inv] stage by simp
  obtain r where r: "wo_selected ov = Some r" using sel by blast
  show ?thesis
  proof (cases "dw_derived_path dw (path_of_string r) branch")
    case (Inl e)
    then have "what e \<noteq> None" using obl(2) by (auto simp: world_obliges_def catchable_def)
    then show ?thesis using r Inl inv by (simp add: submit_worktree_branch_def branch_def [symmetric] report_error)
  next
    case (Inr pending)
    define ov1 where "ov1 = set_error Mode_ADD_WORKTREE [] (ov\<lparr>wo_pending := Some pending,
      wo_workflow := (wo_workflow ov)\<lparr>wf_branch := field_set_value branch (wf_branch (wo_workflow ov))\<rparr>\<rparr>)"
    have same: "current_stage (wo_workflow ov1) = Stage_WORKTREE_BRANCH" "wf_mode (wo_workflow ov1) = Mode_ADD_WORKTREE"
      "wo_selected ov1 = Some r" "wo_pending ov1 = Some pending" "wo_picker ov1 = None"
      using stage mode r none by (simp_all add: ov1_def)
    have "fields_ok ((wo_workflow ov)\<lparr>wf_branch := field_set_value branch (wf_branch (wo_workflow ov))\<rparr>)"
      using inv by (simp add: overlay_inv_def fields_ok_def field_clear_ok)
    then have "fields_ok (wo_workflow ov1)" by (simp add: ov1_def set_error_def)
    then have inv1: "overlay_inv ov1"
      using inv same none by (simp add: inv_without_picker stage_fits_def ov1_def set_error_def)
    from run_helper_safe [OF obl(1) inv1] show ?thesis
      using r Inr same by (simp add: submit_worktree_branch_def branch_def [symmetric] ov1_def [symmetric] start_worktree_provision_def)
  qed
qed

lemma submit_root_safe:
  assumes obl: "dialog_obliges ps rt" "world_obliges dw" and inv: "overlay_inv ov"
    and stage: "current_stage (wo_workflow ov) = Stage_REPOSITORY_ROOT"
  shows "safely (submit_repository_root dw rt ov)"
proof (cases "resolved_path dw (wo_directory ov) (wf_repository_root (wo_workflow ov)) ''repository root''")
  case (Inl e)
  then have "what e \<noteq> None" using resolved_path_catchable catchable_Inl by metis
  then show ?thesis using Inl inv by (simp add: submit_repository_root_def report_error)
next
  case resolved: (Inr root)
  define ov1 where "ov1 = ov\<lparr>wo_root := Some root\<rparr>"
  have mode: "wf_mode (wo_workflow ov) = Mode_ADD_REPOSITORY" using inv stage by (auto simp: overlay_inv_def stage_fits_def)
  have none: "wo_picker ov = None" using form_closed [OF inv] stage by simp
  have inv1: "overlay_inv ov1"
    using inv none stage mode by (simp add: ov1_def inv_without_picker stage_fits_def)
  show ?thesis
  proof (cases "dw_inspect_root dw root")
    case (Inl e)
    then have "what e \<noteq> None" using obl(2) by (auto simp: world_obliges_def catchable_def)
    then show ?thesis using resolved Inl inv1 by (simp add: submit_repository_root_def ov1_def [symmetric] report_error)
  next
    case (Inr state)
    define ov2 where "ov2 = set_error Mode_ADD_REPOSITORY [] ov1"
    have inv2: "overlay_inv ov2" and stage2: "current_stage (wo_workflow ov2) = Stage_REPOSITORY_ROOT"
      and mode2: "wf_mode (wo_workflow ov2) = Mode_ADD_REPOSITORY"
      using inv1 stage mode by (simp_all add: ov2_def ov1_def)
    show ?thesis
    proof (cases "state = Root_EMPTY")
      case True
      from mode2 have "wf_mode (wo_workflow ov2) \<noteq> Mode_SWITCH_WORKTREE" by simp
      then obtain ov3 where ov3: "set_stage Stage_REPOSITORY_CLONE_URL ov2 = Inr ov3"
        "current_stage (wo_workflow ov3) = Stage_REPOSITORY_CLONE_URL" "wf_mode (wo_workflow ov3) = Mode_ADD_REPOSITORY"
        "fields_ok (wo_workflow ov3) = fields_ok (wo_workflow ov2)" "wo_root ov3 = wo_root ov2" "wo_helper ov3 = wo_helper ov2"
        "wo_picker ov3 = wo_picker ov2" "wo_candidate_trays ov3 = wo_candidate_trays ov2"
        "wo_candidate_available ov3 = wo_candidate_available ov2"
        by (rule stage_set [where stage = Stage_REPOSITORY_CLONE_URL]) (use mode2 in auto)
      moreover have "wo_root ov2 = Some root" "wo_picker ov2 = None" using none by (simp_all add: ov2_def ov1_def)
      ultimately have "overlay_inv ov3" using inv2 by (simp add: inv_without_picker stage_fits_def)
      then show ?thesis using resolved Inr True ov3(1)
        by (simp add: submit_repository_root_def ov1_def [symmetric] ov2_def [symmetric] report_def)
    next
      case False
      then show ?thesis using resolved Inr start_registration_safe [OF obl(1) inv2] stage2
        by (simp add: submit_repository_root_def ov1_def [symmetric] ov2_def [symmetric])
    qed
  qed
qed

lemma submit_url_safe:
  assumes obl: "dialog_obliges ps rt" and inv: "overlay_inv ov"
    and stage: "current_stage (wo_workflow ov) = Stage_REPOSITORY_CLONE_URL"
  shows "safely (submit_clone_url rt ov)"
  using start_registration_safe [OF obl, of "set_error Mode_ADD_REPOSITORY [] ov"] inv stage
  by (simp add: submit_clone_url_def Let_def)

lemma submit_input_safe:
  assumes obl: "dialog_obliges ps rt" "world_obliges dw" and inv: "overlay_inv ov"
  shows "safely (submit_input dw ps rt ov)"
proof (cases "current_stage (wo_workflow ov)")
  case Stage_WORKTREE_REPOSITORY
  then have "wf_mode (wo_workflow ov) = Mode_ADD_WORKTREE" "wo_selected ov = None"
    using inv by (auto simp: overlay_inv_def stage_fits_def)
  then show ?thesis
    using start_repository_safe [OF obl(1) inv] Stage_WORKTREE_REPOSITORY
    by (simp add: submit_input_def submit_worktree_repository_def)
qed (use inv submit_branch_safe [OF obl inv] submit_root_safe [OF obl inv] submit_url_safe [OF obl(1) inv] in
    \<open>simp_all add: submit_input_def\<close>)

section \<open>Input\<close>

lemma put_active_frame [simp]:
  "current_stage (put_active_field f w) = current_stage w" "wf_mode (put_active_field f w) = wf_mode w"
  by (simp_all add: put_active_field_def current_stage_def split: overlay_mode.split overlay_stage.split)

lemma active_field_ok:
  assumes "fields_ok w"
  shows "active_text_field w = Some f \<Longrightarrow> field_ok f" "field_ok g \<Longrightarrow> fields_ok (put_active_field g w)"
  using assms by (cases "current_stage w"; simp add: active_text_field_def put_active_field_def fields_ok_def)+

lemma edit_field_safe:
  assumes inv: "overlay_inv ov" and edit: "\<And>field. field_ok field \<Longrightarrow> \<exists>g. f field = Inr g \<and> field_ok g"
  shows "safely (edit_field f ov)"
proof (cases "active_text_field (wo_workflow ov)")
  case None
  then show ?thesis using inv by (simp add: edit_field_def)
next
  case (Some field)
  have w: "fields_ok (wo_workflow ov)" using inv by (simp add: overlay_inv_def)
  obtain g where g: "f field = Inr g" "field_ok g" using edit active_field_ok(1) [OF w Some] by blast
  have "overlay_inv (ov\<lparr>wo_workflow := put_active_field g (wo_workflow ov)\<rparr>) = overlay_inv ov"
    by (rule overlay_inv_cong) (simp_all add: w active_field_ok(2) [OF w g(2)])
  then show ?thesis using Some g inv by (simp add: edit_field_def)
qed

lemma control_sequence_safe:
  assumes "overlay_inv ov"
  shows "safely (handle_input_control_sequence byte ov)"
proof -
  note e = edit_field_safe [OF assms]
  have "safely (edit_field (\<lambda>f. Inr (move_cursor_left f)) ov)" "safely (edit_field (\<lambda>f. Inr (move_cursor_right f)) ov)"
    "safely (edit_field (\<lambda>f. Inr (move_cursor_to_start f)) ov)" "safely (edit_field (\<lambda>f. Inr (move_cursor_to_end f)) ov)"
    "safely (edit_field delete_at_cursor ov)"
    by (rule e, simp add: field_edits_ok)+
  then show ?thesis using assms by (simp add: handle_input_control_sequence_def Let_def)
qed

lemma clear_active_error_inv [simp]: "overlay_inv (clear_active_error ov) = overlay_inv ov"
  by (simp add: clear_active_error_def)

lemma editing_input_safe:
  assumes obl: "dialog_obliges ps rt" "world_obliges dw" and inv: "overlay_inv ov"
  shows "safely (write_editing_input dw ps rt byte ov)"
proof -
  have "safely (and_then (handle_input_control_sequence byte ov) (\<lambda>ov1. Inr (ov1\<lparr>wo_input := Input_NORMAL, wo_parameters := []\<rparr>)))"
    using control_sequence_safe [OF inv] by (rule safely_bind) simp
  moreover have "safely (and_then (edit_field field_backspace ov) (\<lambda>ov1. Inr (clear_active_error ov1)))"
    by (rule safely_bind, rule edit_field_safe [OF inv field_edits_ok(6)]) simp_all
  moreover have "safely (and_then (edit_field (field_insert byte) ov) (\<lambda>ov1. Inr (clear_active_error ov1)))"
    by (rule safely_bind, rule edit_field_safe [OF inv field_edits_ok(5)]) simp_all
  ultimately show ?thesis
    using submit_input_safe [OF obl inv] inv by (simp add: write_editing_input_def Let_def)
qed

lemma picker_changed:
  assumes inv: "overlay_inv ov" and pk: "wo_picker ov = Some pk" and ok: "picker_ok pk'"
    and same: "pk_parent_size pk' = pk_parent_size pk" "pk_candidates pk' = pk_candidates pk"
  shows "overlay_inv (ov\<lparr>wo_picker := Some pk'\<rparr>)"
proof -
  have "dialog_terminal_size (ov\<lparr>wo_picker := Some pk'\<rparr>) = dialog_terminal_size ov" by (simp add: dialog_terminal_size_def)
  then show ?thesis using inv pk ok same by (simp add: overlay_inv_def picker_fits_def stage_fits_def)
qed

lemma mode_input_safe:
  assumes obl: "dialog_obliges ps rt" "world_obliges dw" and inv: "overlay_inv ov"
  shows "safely (write_mode_input dw ps rt bytes ov)"
proof (cases "wo_picker ov")
  case (Some pk)
  have ok: "picker_ok pk" using inv Some by (simp add: overlay_inv_def picker_fits_def)
  obtain h where "ps_write ps bytes (pp_handle (pk_process pk)) = Inr h" using obl(1) unfolding dialog_obliges_def by blast
  then have "picker_write_input ps bytes pk = Inr (pk\<lparr>pk_process := (pk_process pk)\<lparr>pp_handle := h\<rparr>\<rparr>)"
    by (simp add: picker_write_input_def on_handle_def)
  moreover have "overlay_inv (ov\<lparr>wo_picker := Some (pk\<lparr>pk_process := (pk_process pk)\<lparr>pp_handle := h\<rparr>\<rparr>)\<rparr>)"
    by (rule picker_changed [OF inv Some]) (use ok in \<open>simp_all add: picker_ok_def picker_settled_def\<close>)
  ultimately show ?thesis using Some by (simp add: write_mode_input_def)
next
  case None
  have "wf_mode (wo_workflow ov) = Mode_SWITCH_WORKTREE" if "current_stage (wo_workflow ov) = Stage_SWITCH_WORKTREE"
    using inv that by (simp add: overlay_inv_def stage_fits_def)
  then show ?thesis
    using None inv start_switch_safe [OF obl inv None] safely_fold [where f = "write_editing_input dw ps rt", OF editing_input_safe [OF obl] inv]
    by (simp add: write_mode_input_def)
qed

lemma mode_switch_input_safe:
  assumes obl: "dialog_obliges ps rt" "world_obliges dw" and inv: "overlay_inv ov"
  shows "safely (write_mode_switch_input dw ps rt byte ov)"
  using inv cycle_mode_safe [OF obl] mode_input_safe [OF obl]
  by (simp add: write_mode_switch_input_def Let_def)

lemma write_input_safe:
  assumes obl: "dialog_obliges ps rt" "world_obliges dw" and inv: "overlay_inv ov"
  shows "safely (write_input dw ps rt bytes ov)"
proof (cases "current_stage (wo_workflow ov) = Stage_RUNNING")
  case True
  then obtain c where c: "op_process (wo_helper ov) = Some c" using inv by (auto simp: overlay_inv_def stage_fits_def)
  obtain c' where "rt_write rt bytes c = Inr c'" using obl(1) unfolding dialog_obliges_def by blast
  then have "process_write rt bytes (wo_helper ov) = Inr ((wo_helper ov)\<lparr>op_process := Some c'\<rparr>)"
    using c by (simp add: process_write_def)
  moreover have "overlay_inv (ov\<lparr>wo_helper := (wo_helper ov)\<lparr>op_process := Some c'\<rparr>\<rparr>)"
    using inv c form_closed [OF inv] True by (simp add: inv_without_picker stage_fits_def transcript_ok_def)
  ultimately show ?thesis using True by (simp add: write_input_def)
next
  case False
  then show ?thesis
    using safely_fold [where f = "write_mode_switch_input dw ps rt", OF mode_switch_input_safe [OF obl] inv]
    by (simp add: write_input_def)
qed

end
