(* ===== verification/Overlay_Reachable.thy ===== *)
theory Overlay_Reachable
  imports Overlay_Correct
begin

text \<open>
  The dialog as a state machine over its public operations, each in a world of its own. The
  invariant holds in every state it reaches and no operation throws there; what the properties
  say of the reachable states follows from the invariant.
\<close>

section \<open>The processes\<close>

lemma ingest_frame [simp]:
  "pk_candidates (ingest_focus_notifications bytes pk) = pk_candidates pk"
  "pk_parent_size (ingest_focus_notifications bytes pk) = pk_parent_size pk"
  "pk_size (ingest_focus_notifications bytes pk) = pk_size pk"
  "pk_selected (ingest_focus_notifications bytes pk) = pk_selected pk"
  "pk_process (ingest_focus_notifications bytes pk) = pk_process pk"
  by (simp_all add: ingest_focus_notifications_def split: prod.split)

lemma picker_settled_frame [simp]:
  "picker_settled (pk\<lparr>pk_process := p\<rparr>) = picker_settled pk" "picker_settled (pk\<lparr>pk_screen := screen\<rparr>) = picker_settled pk"
  "picker_settled (pk\<lparr>pk_selected := i\<rparr>) = picker_settled pk" "picker_settled (pk\<lparr>pk_selection := c\<rparr>) = picker_settled pk"
  "picker_settled (pk\<lparr>pk_size := sz\<rparr>) = picker_settled pk" "picker_settled (pk\<lparr>pk_parent_size := sz\<rparr>) = picker_settled pk"
  by (simp_all add: picker_settled_def)

lemma picker_read_safe:
  assumes obl: "dialog_obliges ps rt" and ok: "picker_ok pk"
  shows "\<exists>b pk'. picker_read_output ps rt pk = Inr (b, pk') \<and> picker_ok pk'
     \<and> pk_parent_size pk' = pk_parent_size pk \<and> pk_candidates pk' = pk_candidates pk"
proof -
  obtain received h where "ps_read ps (pp_handle (pk_process pk)) = Inr (received, h)"
    using obl unfolding dialog_obliges_def by (metis surj_pair)
  moreover have "picker_settled (pk\<lparr>pk_process := p\<rparr>)" for p using ok by (simp add: picker_ok_def)
  note focus.feed_settled [OF this]
  ultimately show ?thesis
    using ok by (cases received) (auto simp: picker_read_output_def picker_ok_def Let_def)
qed

lemma picker_refresh_safe:
  assumes obl: "dialog_obliges ps rt" and ok: "picker_ok pk"
  shows "\<exists>b pk'. picker_refresh ps pk = Inr (b, pk') \<and> picker_ok pk'
     \<and> pk_parent_size pk' = pk_parent_size pk \<and> pk_candidates pk' = pk_candidates pk"
proof -
  obtain changed p where p: "picker_process_refresh ps (pk_process pk) = (changed, p)" by (metis surj_pair)
  obtain bytes where "ps_read_result ps (pp_handle p) = Inr bytes" using obl unfolding dialog_obliges_def by blast
  then have "\<exists>pk'. read_selection ps (pk\<lparr>pk_process := p\<rparr>) = Inr pk' \<and> picker_ok pk'
     \<and> pk_parent_size pk' = pk_parent_size pk \<and> pk_candidates pk' = pk_candidates pk"
    using ok by (auto simp: read_selection_def picker_ok_def split: option.split)
  moreover have "picker_ok (pk\<lparr>pk_process := p\<rparr>)" using ok by (simp add: picker_ok_def)
  ultimately show ?thesis using p by (auto simp: picker_refresh_def Let_def)
qed

text \<open>An operation that returns a value beside the state.\<close>

definition answers_safely :: "('a \<times> ('c, 'p, 's) overlay) result \<Rightarrow> bool" where
  "answers_safely r \<longleftrightarrow> (\<exists>x ov. r = Inr (x, ov) \<and> overlay_inv ov)"

lemma helper_changed:
  assumes inv: "overlay_inv ov" and ok: "transcript_ok h" and live: "op_process h = None \<longleftrightarrow> op_process (wo_helper ov) = None"
  shows "overlay_inv (ov\<lparr>wo_helper := h\<rparr>)"
  using inv ok live by (auto simp: overlay_inv_def stage_fits_def picker_fits_def dialog_terminal_size_def)

lemma output_process [simp]: "op_process (append_process_output bytes p) = op_process p"
proof -
  have "op_process (transcript_byte b q) = op_process q" for b and q :: "'a overlay_process"
    by (simp add: transcript_byte_def append_transcript_line_def Let_def)
  then show ?thesis unfolding append_process_output_def by (induction bytes arbitrary: p) simp_all
qed

lemma overlay_read_safe:
  assumes obl: "dialog_obliges ps rt" and inv: "overlay_inv ov"
  shows "answers_safely (overlay_read_output ps rt ov)"
proof (cases "wo_picker ov")
  case (Some pk)
  then have "picker_ok pk" using inv by (simp add: overlay_inv_def picker_fits_def)
  from picker_read_safe [OF obl this] picker_changed [OF inv Some] show ?thesis
    using Some by (auto simp: overlay_read_output_def answers_safely_def)
next
  case None
  have ok: "transcript_ok (wo_helper ov)" using inv by (simp add: overlay_inv_def)
  have "\<exists>b h. read_process_output rt (wo_helper ov) = Inr (b, h) \<and> transcript_ok h
      \<and> (op_process h = None \<longleftrightarrow> op_process (wo_helper ov) = None)"
  proof (cases "op_process (wo_helper ov)")
    case None
    then show ?thesis using ok by (auto simp: read_process_output_def)
  next
    case (Some c)
    obtain received c' where "rt_read rt c = Inr (received, c')" using obl unfolding dialog_obliges_def by (metis surj_pair)
    moreover have "transcript_ok ((wo_helper ov)\<lparr>op_process := Some c'\<rparr>)" using ok by (simp add: transcript_ok_def)
    ultimately show ?thesis using Some transcript.feed_settled by (cases received) (auto simp: read_process_output_def Let_def)
  qed
  then show ?thesis using None helper_changed [OF inv] by (auto simp: overlay_read_output_def answers_safely_def)
qed

lemma picker_finished_safe:
  assumes obl: "dialog_obliges ps rt" "world_obliges dw" and inv: "overlay_inv ov" and none: "wo_picker ov = None"
  shows "safely (picker_finished dw ps rt selected selected_index ov)"
proof (cases selected)
  case None
  then show ?thesis using inv by (simp add: picker_finished_def)
next
  case (Some chosen)
  show ?thesis
  proof (cases "wf_mode (wo_workflow ov)")
    case Mode_SWITCH_WORKTREE
    have "safely (and_then (start_switch_worktree_picker dw ps rt ov) (\<lambda>ov1. Inr (set_picker_action_error m ov1)))" for m
      by (rule safely_bind [OF start_switch_safe [OF obl inv none Mode_SWITCH_WORKTREE]])
        (simp add: set_picker_action_error_def)
    then show ?thesis
      using Some Mode_SWITCH_WORKTREE inv by (auto simp: picker_finished_def split: option.split)
  next
    case Mode_ADD_WORKTREE
    define ov1 where "ov1 = set_error Mode_ADD_WORKTREE [] (ov\<lparr>wo_selected := Some chosen\<rparr>)"
    have "wf_mode (wo_workflow ov1) \<noteq> Mode_SWITCH_WORKTREE" using Mode_ADD_WORKTREE by (simp add: ov1_def)
    then obtain ov2 where ov2: "set_stage Stage_WORKTREE_BRANCH ov1 = Inr ov2"
      "current_stage (wo_workflow ov2) = Stage_WORKTREE_BRANCH" "wf_mode (wo_workflow ov2) = wf_mode (wo_workflow ov1)"
      "fields_ok (wo_workflow ov2) = fields_ok (wo_workflow ov1)" "wo_selected ov2 = wo_selected ov1"
      "wo_helper ov2 = wo_helper ov1" "wo_picker ov2 = wo_picker ov1" "wo_candidate_trays ov2 = wo_candidate_trays ov1"
      "wo_candidate_available ov2 = wo_candidate_available ov1"
      by (rule stage_set [where stage = Stage_WORKTREE_BRANCH])
    have "fields_ok (wo_workflow ov1)" using inv by (simp add: ov1_def set_error_def overlay_inv_def)
    then have "overlay_inv ov2"
      using ov2 inv none Mode_ADD_WORKTREE by (simp add: inv_without_picker stage_fits_def ov1_def set_error_def)
    then show ?thesis using Some Mode_ADD_WORKTREE ov2(1) by (simp add: picker_finished_def ov1_def)
  next
    case Mode_ADD_REPOSITORY
    then show ?thesis using Some inv by (simp add: picker_finished_def)
  qed
qed

lemma append_line_frame [simp]: "op_process (append_transcript_line p) = op_process p"
  by (simp add: append_transcript_line_def Let_def)

lemma overlay_refresh_safe:
  assumes obl: "dialog_obliges ps rt" "world_obliges dw" and inv: "overlay_inv ov"
  shows "answers_safely (overlay_refresh dw ps rt ov)"
proof (cases "wo_picker ov")
  case (Some pk)
  then have "picker_ok pk" using inv by (simp add: overlay_inv_def picker_fits_def)
  from picker_refresh_safe [OF obl(1) this] obtain b pk' where pk': "picker_refresh ps pk = Inr (b, pk')" "picker_ok pk'"
    "pk_parent_size pk' = pk_parent_size pk" "pk_candidates pk' = pk_candidates pk" by blast
  have "overlay_inv (ov\<lparr>wo_picker := Some pk'\<rparr>)" using picker_changed [OF inv Some pk'(2-4)] .
  moreover have "safely (picker_finished dw ps rt (pk_selection pk') (pk_selected pk')
      (ov\<lparr>wo_picker := None, wo_full_redraw := True\<rparr>))"
    by (rule picker_finished_safe [OF obl]) (use overlay_inv_closed [OF inv] in \<open>simp_all\<close>)
  then obtain ov1 where "picker_finished dw ps rt (pk_selection pk') (pk_selected pk')
      (ov\<lparr>wo_picker := None, wo_full_redraw := True\<rparr>) = Inr ov1" "overlay_inv ov1" unfolding safely_def by blast
  ultimately show ?thesis using Some pk'(1) by (cases "pp_finished (pk_process pk')")
      (auto simp: overlay_refresh_def answers_safely_def)
next
  case None
  show ?thesis
  proof (cases "current_stage (wo_workflow ov) = Stage_RUNNING")
    case False
    then show ?thesis using None inv by (auto simp: overlay_refresh_def answers_safely_def)
  next
    case True
    obtain changed h where h: "refresh_process rt (wo_helper ov) = (changed, h)" by (metis surj_pair)
    show ?thesis
    proof (cases changed)
      case False
      then have "h = wo_helper ov" using h by (auto simp: refresh_process_def split: option.splits)
      then show ?thesis using None True False h inv by (auto simp: overlay_refresh_def answers_safely_def)
    next
      case changed: True
      have ok: "transcript_ok h"
      proof -
        have "transcript_ok ((wo_helper ov)\<lparr>op_process := None\<rparr>)" using inv by (simp add: overlay_inv_def transcript_ok_def)
        from append_line_ok [OF this] show ?thesis
          using h changed by (auto simp: refresh_process_def transcript_ok_def split: option.splits)
      qed
      define ov1 where "ov1 = ov\<lparr>wo_helper := h\<rparr>"
      have mode: "wf_mode (wo_workflow ov1) \<noteq> Mode_SWITCH_WORKTREE"
        using True by (auto simp: ov1_def current_stage_def)
      then obtain ov2 where ov2: "set_stage Stage_RESULT ov1 = Inr ov2"
        "current_stage (wo_workflow ov2) = Stage_RESULT" "wf_mode (wo_workflow ov2) = wf_mode (wo_workflow ov1)"
        "fields_ok (wo_workflow ov2) = fields_ok (wo_workflow ov1)" "wo_pending ov2 = wo_pending ov1"
        "wo_helper ov2 = wo_helper ov1" "wo_picker ov2 = wo_picker ov1" "wo_candidate_trays ov2 = wo_candidate_trays ov1"
        "wo_candidate_available ov2 = wo_candidate_available ov1"
        by (rule stage_set [where stage = Stage_RESULT])
      have inv2: "overlay_inv ov2"
        using ov2 inv None ok by (simp add: inv_without_picker stage_fits_def ov1_def)
      have "wo_pending ov2 \<noteq> None" if "wf_mode (wo_workflow ov2) = Mode_ADD_WORKTREE"
        using inv True that ov2 by (simp add: overlay_inv_def stage_fits_def ov1_def)
      then show ?thesis
        using None True h changed ov2(1) inv2
        by (cases "wo_pending ov2") (auto simp: overlay_refresh_def answers_safely_def ov1_def)
    qed
  qed
qed

lemma overlay_resize_safe:
  assumes obl: "dialog_obliges ps rt" and inv: "overlay_inv ov" and sz: "usable_size sz"
  shows "safely (overlay_resize ps rt sz ov)"
proof -
  define ov1 where "ov1 = ov\<lparr>wo_size := sz\<rparr>"
  have "\<exists>h. process_resize rt sz (wo_helper ov1) = Inr h \<and> transcript_ok h
      \<and> (op_process h = None \<longleftrightarrow> op_process (wo_helper ov1) = None)"
  proof (cases "op_process (wo_helper ov1)")
    case None
    then show ?thesis using inv by (simp add: process_resize_def ov1_def overlay_inv_def)
  next
    case (Some c)
    obtain c' where "rt_content_resize rt sz c = Inr c'" using obl sz unfolding dialog_obliges_def by blast
    then show ?thesis using Some inv by (simp add: process_resize_def ov1_def overlay_inv_def transcript_ok_def)
  qed
  then obtain h where "process_resize rt sz (wo_helper ov1) = Inr h \<and> transcript_ok h
    \<and> (op_process h = None \<longleftrightarrow> op_process (wo_helper ov1) = None)" by (rule exE)
  note h = this [THEN conjunct1] this [THEN conjunct2, THEN conjunct1] this [THEN conjunct2, THEN conjunct2]
  define ov2 where "ov2 = ov1\<lparr>wo_helper := h\<rparr>"
  show ?thesis
  proof (cases "wo_picker ov")
    case None
    then have "overlay_inv ov2" using inv h by (simp add: ov2_def ov1_def inv_without_picker stage_fits_def)
    then show ?thesis using h(1) None by (simp add: overlay_resize_def ov1_def ov2_def)
  next
    case (Some pk)
    define box where "box = dialog_terminal_size ov2"
    have ok: "picker_ok pk" using inv Some by (simp add: overlay_inv_def picker_fits_def)
    have "usable_size box" using sz
      by (auto simp: box_def dialog_terminal_size_def ov2_def ov1_def usable_size_def OVERLAY_FOOTER_HEIGHT_def)
    then have "check_picker_size box = Inr ()" by (simp add: check_picker_size_def usable_size_def MAX_UNSIGNED_SHORT_def)
    then obtain pksz where pksz: "picker_size_for box = Inr pksz" by (simp add: picker_size_for_def)
    note pksz = this picker_size_bounds(3) [OF this]
    obtain screen where screen: "rt_screen_resize rt pksz (pk_screen pk) = Inr screen"
      using obl pksz(2) unfolding dialog_obliges_def by blast
    obtain hd where hd: "ps_set_size ps pksz (pp_handle (pk_process pk)) = Inr hd"
      using obl pksz(2) unfolding dialog_obliges_def by blast
    have "check_picker_size pksz = Inr ()" using pksz(2) by (simp add: check_picker_size_def usable_size_def MAX_UNSIGNED_SHORT_def)
    then have "\<exists>pk'. picker_resize ps rt box pk = Inr pk' \<and> picker_ok pk' \<and> pk_parent_size pk' = box
        \<and> pk_candidates pk' = pk_candidates pk"
      using pksz(1) screen hd ok
      by (auto simp: picker_resize_def Let_def picker_process_resize_def on_handle_def picker_ok_def)
    then obtain pk' where pk': "picker_resize ps rt box pk = Inr pk'" "picker_ok pk'" "pk_parent_size pk' = box"
      "pk_candidates pk' = pk_candidates pk" by blast
    have "dialog_terminal_size (ov2\<lparr>wo_picker := Some pk'\<rparr>) = box" by (simp add: box_def dialog_terminal_size_def)
    then have "overlay_inv (ov2\<lparr>wo_picker := Some pk'\<rparr>)"
      using inv h(2,3) Some pk' by (simp add: overlay_inv_def picker_fits_def stage_fits_def ov2_def ov1_def)
    moreover have "wo_picker ov1 = Some pk" using Some by (simp add: ov1_def)
    ultimately show ?thesis using h(1) pk'(1) by (simp add: overlay_resize_def ov1_def [symmetric] ov2_def [symmetric] box_def)
  qed
qed

section \<open>The dialog as a state machine\<close>

inductive overlay_step :: "'p picker_system \<Rightarrow> ('c, 's, 'o) pane_runtime \<Rightarrow> ('c, 'p, 's) overlay \<Rightarrow>
    ('c, 'p, 's) overlay \<Rightarrow> bool"
  for ps :: "'p picker_system" and rt :: "('c, 's, 'o) pane_runtime" where
  typed: "write_input dw ps rt bytes ov = Inr ov' \<Longrightarrow> world_obliges dw \<Longrightarrow> overlay_step ps rt ov ov'"
| received: "overlay_read_output ps rt ov = Inr (b, ov') \<Longrightarrow> overlay_step ps rt ov ov'"
| polled: "overlay_refresh dw ps rt ov = Inr (b, ov') \<Longrightarrow> world_obliges dw \<Longrightarrow> overlay_step ps rt ov ov'"
| resized: "overlay_resize ps rt sz ov = Inr ov' \<Longrightarrow> usable_size sz \<Longrightarrow> overlay_step ps rt ov ov'"
| session: "update_session_trays dw ps rt snapshots ov = Inr ov' \<Longrightarrow> world_obliges dw \<Longrightarrow> overlay_step ps rt ov ov'"
| refreshed: "refresh_worktree_picker dw ps rt ov = Inr ov' \<Longrightarrow> world_obliges dw \<Longrightarrow> overlay_step ps rt ov ov'"
| began: "begin_tray_action_confirmation kind ov = (b, ov') \<Longrightarrow> overlay_step ps rt ov ov'"
| resolved: "resolve_confirmation confirmed ov = (r, ov') \<Longrightarrow> overlay_step ps rt ov ov'"
| cancelled: "overlay_step ps rt ov (cancel_tray_action_confirmation ov)"
| refused: "overlay_step ps rt ov (set_picker_action_error message ov)"
| redraw_taken: "take_full_redraw_request ov = (b, ov') \<Longrightarrow> overlay_step ps rt ov ov'"
| tray_taken: "take_tray_to_open ov = (i, ov') \<Longrightarrow> overlay_step ps rt ov ov'"

inductive overlay_reachable :: "'p picker_system \<Rightarrow> ('c, 's, 'o) pane_runtime \<Rightarrow> ('c, 'p, 's) overlay \<Rightarrow> bool"
  for ps :: "'p picker_system" and rt :: "('c, 's, 'o) pane_runtime" where
  opened: "overlay_start dw ps rt executable registry directory git fzf session_trays sz = Inr ov \<Longrightarrow>
    world_obliges dw \<Longrightarrow> overlay_reachable ps rt ov"
| advanced: "overlay_reachable ps rt ov \<Longrightarrow> overlay_step ps rt ov ov' \<Longrightarrow> overlay_reachable ps rt ov'"

lemma safely_Inr_D: "safely r \<Longrightarrow> r = Inr ov \<Longrightarrow> overlay_inv ov"
  by simp

lemma answers_Inr_D: "answers_safely r \<Longrightarrow> r = Inr (x, ov) \<Longrightarrow> overlay_inv ov"
  by (auto simp: answers_safely_def)

lemma action_frame:
  "overlay_inv ov \<Longrightarrow> overlay_inv (snd (begin_tray_action_confirmation kind ov))"
  "overlay_inv ov \<Longrightarrow> overlay_inv (snd (resolve_confirmation confirmed ov))"
  "overlay_inv ov \<Longrightarrow> overlay_inv (cancel_tray_action_confirmation ov)"
  "overlay_inv ov \<Longrightarrow> overlay_inv (set_picker_action_error message ov)"
  "overlay_inv ov \<Longrightarrow> overlay_inv (snd (take_full_redraw_request ov))"
  "overlay_inv ov \<Longrightarrow> overlay_inv (snd (take_tray_to_open ov))"
  by (simp_all add: begin_tray_action_confirmation_def resolve_confirmation_def cancel_tray_action_confirmation_def
      set_picker_action_error_def take_full_redraw_request_def take_tray_to_open_def split: option.split)

lemma overlay_step_inv:
  assumes obl: "dialog_obliges ps rt" and inv: "overlay_inv ov" and step: "overlay_step ps rt ov ov'"
  shows "overlay_inv ov'"
  using step
proof cases
  case typed
  show ?thesis using safely_Inr_D [OF write_input_safe [OF obl typed(2) inv] typed(1)] .
next
  case received
  show ?thesis using answers_Inr_D [OF overlay_read_safe [OF obl inv] received(1)] .
next
  case polled
  show ?thesis using answers_Inr_D [OF overlay_refresh_safe [OF obl polled(2) inv] polled(1)] .
next
  case resized
  show ?thesis using safely_Inr_D [OF overlay_resize_safe [OF obl inv resized(2)] resized(1)] .
next
  case session
  show ?thesis using safely_Inr_D [OF update_session_trays_safe [OF obl session(2) inv] session(1)] .
next
  case refreshed
  show ?thesis using safely_Inr_D [OF refresh_worktree_picker_safe [OF obl refreshed(2) inv] refreshed(1)] .
next
  case (began kind b)
  then show ?thesis using action_frame(1) [OF inv, of kind] by simp
next
  case (resolved confirmed r)
  then show ?thesis using action_frame(2) [OF inv, of confirmed] by simp
next
  case cancelled
  then show ?thesis using action_frame(3) [OF inv] by simp
next
  case (refused message)
  then show ?thesis using action_frame(4) [OF inv, of message] by simp
next
  case (redraw_taken b)
  then show ?thesis using action_frame(5) [OF inv] by simp
next
  case (tray_taken i)
  then show ?thesis using action_frame(6) [OF inv] by simp
qed

lemma overlay_reachable_inv: "overlay_reachable ps rt ov \<Longrightarrow> dialog_obliges ps rt \<Longrightarrow> overlay_inv ov"
proof (induction rule: overlay_reachable.induct)
  case opened
  show ?case using safely_Inr_D [OF overlay_start_safe [OF opened.prems opened.hyps(2)] opened.hyps(1)] .
next
  case advanced
  show ?case using overlay_step_inv [OF advanced.prems advanced.IH [OF advanced.prems] advanced.hyps(2)] .
qed

text \<open>
  In every state the dialog reaches no operation throws, and the state keeps the invariant.
\<close>


text \<open>
  In the switcher the highlighted candidate of the picker always has a tray, and an action asked
  for concerns that tray.
\<close>

text \<open>
  C20: In the switcher the highlighted candidate always has a tray, and an action asked for
  and confirmed concerns exactly that tray.
\<close>

lemma action_concerns_highlighted:
  assumes "dialog_obliges ps rt" "overlay_reachable ps rt ov" "wf_mode (wo_workflow ov) = Mode_SWITCH_WORKTREE"
    "wo_picker ov = Some pk" "pk_highlighted pk = Some i"
  shows "i < length (wo_candidate_trays ov)
     \<and> begin_tray_action_confirmation kind ov = (True, ov\<lparr>wo_confirmation := Some \<lparr>ta_kind = kind, ta_tray = wo_candidate_trays ov ! i\<rparr>,
         wo_action_error := [], wo_full_redraw := True\<rparr>)
     \<and> resolve_confirmation True (snd (begin_tray_action_confirmation kind ov))
         = (Some \<lparr>ta_kind = kind, ta_tray = wo_candidate_trays ov ! i\<rparr>,
            ov\<lparr>wo_confirmation := None, wo_action_error := [], wo_full_redraw := True\<rparr>)"
proof -
  have "overlay_inv ov" using overlay_reachable_inv [OF assms(2,1)] .
  then have "length (pk_candidates pk) = length (wo_candidate_trays ov)" "i < length (pk_candidates pk)"
    using assms(3-5) by (auto simp: overlay_inv_def picker_fits_def picker_ok_def picker_settled_def)
  then show ?thesis
    using assms(3-5) by (simp add: begin_tray_action_confirmation_def highlighted_tray_id_def resolve_confirmation_def)
qed

text \<open>
  The form lies above the footer, and so does the picker; the rows reported as opaque begin
  where they do.
\<close>


section \<open>A dialog over one tray\<close>

definition calm_picker :: "unit picker_system" where
  "calm_picker = \<lparr>ps_spawn = \<lambda>command sz. Inr (), ps_write = \<lambda>bytes h. Inr h, ps_write_candidate = \<lambda>bytes h. Inr h,
     ps_close_candidates = \<lambda>h. h, ps_read = \<lambda>h. Inr (None, h), ps_read_result = \<lambda>h. Inr [],
     ps_set_size = \<lambda>sz h. Inr h, ps_wait = \<lambda>h. Wait_running, ps_descriptor = \<lambda>h. 9\<rparr>"

definition quiet_world :: dialog_world where
  "quiet_world = \<lparr>dw_load = \<lambda>r. Inr [\<lparr>rp_root = ''/code'', rp_worktrees = [''/code/main'']\<rparr>],
     dw_find_available = \<lambda>g r. Inr [[''/'', ''code'', ''main'']], dw_inspect_root = \<lambda>p. Inr Root_BARE_ROOT,
     dw_derived_path = \<lambda>p b. Inr (p @ [b]), dw_weakly_canonical = Some, dw_home = Some ''/home''\<rparr>"

definition open_dialog :: "(nat, unit, string) overlay result" where
  "open_dialog = overlay_start quiet_world calm_picker calm_runtime ''moe'' ''/state/worktrees.pb'' [''/'', ''home''] ''git'' ''fzf''
     [\<lparr>sn_id = Anonymous_tray 1, sn_label = ''tray 1'', sn_directory = [''/'', ''home''], sn_child = 4\<rparr>]
     \<lparr>ts_rows = 24, ts_cols = 80\<rparr>"

lemma calm_dialog: "dialog_obliges calm_picker calm_runtime" "world_obliges quiet_world"
  by (simp_all add: dialog_obliges_def calm_picker_def calm_runtime_def world_obliges_def quiet_world_def)

lemma open_dialog_facts:
  obtains ov pk where "open_dialog = Inr ov" "overlay_reachable calm_picker calm_runtime ov"
    "wf_mode (wo_workflow ov) = Mode_SWITCH_WORKTREE" "wo_picker ov = Some pk" "pk_highlighted pk = Some 0"
    "wo_candidate_trays ov = [Worktree_tray [''/'', ''code'', ''main''], Anonymous_tray 1]" "ts_rows (wo_size ov) = 24"
proof -
  have facts: "case open_dialog of Inl e \<Rightarrow> False
    | Inr ov \<Rightarrow> wf_mode (wo_workflow ov) = Mode_SWITCH_WORKTREE
       \<and> (case wo_picker ov of None \<Rightarrow> False | Some pk \<Rightarrow> pk_highlighted pk = Some 0)
       \<and> wo_candidate_trays ov = [Worktree_tray [''/'', ''code'', ''main''], Anonymous_tray 1] \<and> ts_rows (wo_size ov) = 24"
    by code_simp
  obtain ov where ov: "open_dialog = Inr ov"
  proof (cases open_dialog)
    case (Inl e)
    show ?thesis using facts unfolding Inl sum.case ..
  qed
  note facts = facts [unfolded ov sum.case]
  then obtain pk where "wo_picker ov = Some pk" "pk_highlighted pk = Some 0"
    by (cases "wo_picker ov") auto
  moreover have "overlay_reachable calm_picker calm_runtime ov"
    using ov calm_dialog(2) unfolding open_dialog_def by (rule overlay_reachable.opened)
  ultimately show ?thesis using that ov facts by auto
qed


lemma action_concerns_highlighted_witness:
  "\<exists>ov. open_dialog = Inr ov
     \<and> fst (resolve_confirmation True (snd (begin_tray_action_confirmation Tray_REMOVE ov)))
       = Some \<lparr>ta_kind = Tray_REMOVE, ta_tray = Worktree_tray [''/'', ''code'', ''main'']\<rparr>"
proof -
  obtain ov pk where ov: "open_dialog = Inr ov" "overlay_reachable calm_picker calm_runtime ov"
    "wf_mode (wo_workflow ov) = Mode_SWITCH_WORKTREE" "wo_picker ov = Some pk" "pk_highlighted pk = Some 0"
    "wo_candidate_trays ov = [Worktree_tray [''/'', ''code'', ''main''], Anonymous_tray 1]" by (rule open_dialog_facts)
  from action_concerns_highlighted [OF calm_dialog(1) ov(2-5), of Tray_REMOVE] ov(1,6) show ?thesis by auto
qed


end
