(* ===== verification/Command_Dispatcher.thy ===== *)
theory Command_Dispatcher
  imports Tray_Manager_Properties Overlay_Reachable Input_Protocol
begin

text \<open>
  The dispatcher of commands (src/src/parent/runtime/parent_command_dispatcher.h and .cc,
  parent_command_dispatcher_config.h, parent_command_dispatch_effects.h): what every command a
  client sends does to the trays and to the dialog of the active tray, and what is to be
  published and redrawn afterwards. The overlay of a tray is the worktree dialog; a write
  through the pointer to it puts the changed dialog back. Removing a worktree is a function
  of the world that may throw.
\<close>

section \<open>State and effects\<close>

record dispatcher_config =
  dc_executable :: string
  dc_protected :: path
  dc_registry :: string
  dc_git :: string
  dc_fzf :: string

record dispatch_effects =
  ef_publish_status :: bool
  ef_redraw :: bool
  ef_trays_destroyed :: bool

definition no_effects :: dispatch_effects where
  "no_effects = \<lparr>ef_publish_status = False, ef_redraw = False, ef_trays_destroyed = False\<rparr>"

definition publish_and_redraw :: dispatch_effects where
  "publish_and_redraw = \<lparr>ef_publish_status = True, ef_redraw = True, ef_trays_destroyed = False\<rparr>"

type_synonym ('c, 'p, 's) trays = "('c, 's, ('c, 'p, 's) overlay) tray_manager"

text \<open>What the dispatcher runs in: the panes, the pickers, the registry and the remover.\<close>

record ('c, 'p, 's) surroundings =
  en_panes :: "('c, 's, ('c, 'p, 's) overlay) pane_runtime"
  en_pickers :: "'p picker_system"
  en_world :: dialog_world
  en_remove :: "string \<Rightarrow> string \<Rightarrow> path \<Rightarrow> path \<Rightarrow> unit result"

record ('c, 'p, 's) dispatcher =
  dp_trays :: "('c, 'p, 's) trays"
  dp_config :: dispatcher_config
  dp_command_mode :: bool

definition dialog_view :: "('c, 'p, 's) surroundings \<Rightarrow> ('c, 'p, 's) overlay overlay_view" where
  "dialog_view en = \<lparr>ov_process_descriptor = overlay_descriptor (en_pickers en) (en_panes en),
     ov_preview_request = preview_request, ov_redraw_output = overlay_redraw_output (en_panes en),
     ov_update_session_trays = update_session_trays (en_world en) (en_pickers en) (en_panes en)\<rparr>"

definition put_overlay :: "('c, 'p, 's) overlay \<Rightarrow> ('c, 'p, 's) trays \<Rightarrow> ('c, 'p, 's) trays result" where
  "put_overlay ov M = and_then (set_active_overlay (Some ov) M) (\<lambda>(_, M'). Inr M')"

fun overlay_navigation_sequence :: "overlay_navigation \<Rightarrow> string" where
  "overlay_navigation_sequence Navigation_UP = ESC # ''[A''"
| "overlay_navigation_sequence Navigation_DOWN = ESC # ''[B''"
| "overlay_navigation_sequence Navigation_RIGHT = ESC # ''[C''"
| "overlay_navigation_sequence Navigation_LEFT = ESC # ''[D''"
| "overlay_navigation_sequence Navigation_TAB = [CHR 0x09]"
| "overlay_navigation_sequence Navigation_BACKTAB = ESC # ''[Z''"
| "overlay_navigation_sequence Navigation_ENTER = [CHR 0x0D]"

section \<open>Panes\<close>

fun action_direction :: "pane_command_action \<Rightarrow> pane_focus_direction option" where
  "action_direction Action_UP = Some Focus_UP"
| "action_direction Action_DOWN = Some Focus_DOWN"
| "action_direction Action_LEFT = Some Focus_LEFT"
| "action_direction Action_RIGHT = Some Focus_RIGHT"
| "action_direction _ = None"

fun drop_side :: "pane_focus_direction \<Rightarrow> pane_drop_direction" where
  "drop_side Focus_UP = Drop_UP"
| "drop_side Focus_DOWN = Drop_DOWN"
| "drop_side Focus_LEFT = Drop_LEFT"
| "drop_side Focus_RIGHT = Drop_RIGHT"

definition dispatch_pane_direction :: "('c, 'p, 's) surroundings \<Rightarrow> pane_command_action \<Rightarrow>
    ('c, 'p, 's) trays \<Rightarrow> (bool \<times> ('c, 'p, 's) trays) result" where
  "dispatch_pane_direction en action M = (case action_direction action of
     None \<Rightarrow> Inr (False, M)
   | Some direction \<Rightarrow>
       and_then (active_pane_move_session M) (\<lambda>move.
       case move of
         Some session \<Rightarrow>
           if ms_stage session = Stage_TARGET then step_active_pane_move_target direction M
           else set_active_pane_move_drop_direction (drop_side direction) M
       | None \<Rightarrow>
           and_then (active_pane_selection M) (\<lambda>selection.
           if selection \<noteq> None then step_active_pane_selection direction M
           else focus_active_pane_direction (en_panes en) direction M)))"

definition split_pane :: "('c, 'p, 's) surroundings \<Rightarrow> pane_split_axis \<Rightarrow> ('c, 'p, 's) trays \<Rightarrow>
    (bool \<times> ('c, 'p, 's) trays) result" where
  "split_pane en axis M =
     and_then (split_active_focused_pane (en_panes en) axis AFTER M) (\<lambda>(_, M'). Inr (True, M'))"

text \<open>The request a key means while a move is under way, and the one it means otherwise.\<close>

definition move_or_select :: "(('c, 'p, 's) trays \<Rightarrow> (bool \<times> ('c, 'p, 's) trays) result) \<Rightarrow>
    (('c, 'p, 's) trays \<Rightarrow> (bool \<times> ('c, 'p, 's) trays) result) \<Rightarrow> ('c, 'p, 's) trays \<Rightarrow>
    (bool \<times> ('c, 'p, 's) trays) result" where
  "move_or_select moving selecting M =
     and_then (active_pane_move_session M) (\<lambda>move. if move \<noteq> None then moving M else selecting M)"

definition dispatch_pane_command :: "('c, 'p, 's) surroundings \<Rightarrow> pane_command_action \<Rightarrow>
    ('c, 'p, 's) trays \<Rightarrow> (bool \<times> ('c, 'p, 's) trays) result" where
  "dispatch_pane_command en action M = (case action of
     Action_SPLIT_LEFT_TO_RIGHT \<Rightarrow> split_pane en LEFT_TO_RIGHT M
   | Action_SPLIT_ABOVE_BELOW \<Rightarrow> split_pane en TOP_TO_BOTTOM M
   | Action_TOGGLE_SELECTION_OR_SWAP \<Rightarrow>
       move_or_select toggle_active_pane_move_swap (toggle_active_pane_selection (en_panes en)) M
   | Action_PROMOTE \<Rightarrow> move_or_select promote_active_pane_move_target promote_active_pane_selection M
   | Action_DESCEND \<Rightarrow> move_or_select descend_active_pane_move_target descend_active_pane_selection M
   | Action_GROW \<Rightarrow> resize_active_pane_selection (en_panes en) 5 M
   | Action_SHRINK \<Rightarrow> resize_active_pane_selection (en_panes en) (- 5) M
   | Action_EQUALIZE \<Rightarrow> equalize_active_pane_selection (en_panes en) M
   | Action_TOGGLE_MOVE \<Rightarrow> toggle_active_pane_move (en_panes en) M
   | Action_CONFIRM_MOVE \<Rightarrow> advance_active_pane_move (en_panes en) M
   | Action_ROTATE \<Rightarrow> rotate_active_pane_level (en_panes en) M
   | Action_TOGGLE_MAXIMIZE \<Rightarrow> toggle_active_focused_pane_maximized (en_panes en) M
   | Action_CLOSE \<Rightarrow> close_active_focused_pane (en_panes en) (dialog_view en) M
   | _ \<Rightarrow> dispatch_pane_direction en action M)"

section \<open>The dialog\<close>

definition toggle_overlay :: "('c, 'p, 's) surroundings \<Rightarrow> terminal_size \<Rightarrow> ('c, 'p, 's) dispatcher \<Rightarrow>
    (bool \<times> ('c, 'p, 's) dispatcher) result" where
  "toggle_overlay en sz D =
     and_then (active_overlay (dp_trays D)) (\<lambda>overlay.
     if overlay \<noteq> None then
       and_then (clear_active_overlay (dp_trays D)) (\<lambda>(_, M). Inr (True, D\<lparr>dp_trays := M\<rparr>))
     else
       and_then (active_snapshot (en_panes en) (dp_trays D)) (\<lambda>snapshot.
       and_then (manager_snapshots (en_panes en) (dp_trays D)) (\<lambda>snapshots.
       and_then (overlay_start (en_world en) (en_pickers en) (en_panes en) (dc_executable (dp_config D))
           (dc_registry (dp_config D)) (sn_directory snapshot) (dc_git (dp_config D)) (dc_fzf (dp_config D))
           snapshots sz) (\<lambda>ov.
       and_then (put_overlay ov (dp_trays D)) (\<lambda>M. Inr (False, D\<lparr>dp_trays := M\<rparr>))))))"

text \<open>
  Carrying out a confirmed request: a worktree to be removed is removed first, then its tray is
  destroyed. The dialog is that of the tray that was active.
\<close>

definition remove_requested :: "('c, 'p, 's) surroundings \<Rightarrow> tray_action_request \<Rightarrow> dispatcher_config \<Rightarrow> unit result" where
  "remove_requested en r config = (case ta_tray r of
     Worktree_tray root \<Rightarrow>
       if ta_kind r = Tray_REMOVE then en_remove en (dc_git config) (dc_registry config) root (dc_protected config)
       else Inr ()
   | Anonymous_tray _ \<Rightarrow> Inr ())"

definition destroy_requested :: "('c, 'p, 's) surroundings \<Rightarrow> tray_action_request \<Rightarrow> ('c, 'p, 's) overlay \<Rightarrow>
    ('c, 'p, 's) trays \<Rightarrow> (bool \<times> ('c, 'p, 's) trays) result" where
  "destroy_requested en r ov M =
     and_then (destroy_tray (en_panes en) (dialog_view en) (ta_tray r) M) (\<lambda>(destroyed, M1).
     if \<not> destroyed \<and> ta_kind r = Tray_CLEAR then
       and_then (put_overlay (set_picker_action_error ''Tray has no in-session content'' ov) M1) (\<lambda>M2. Inr (False, M2))
     else if ta_tray r = tm_active M then Inr (destroyed, M1)
     else
       and_then (active_overlay M1) (\<lambda>overlay.
       case overlay of
         None \<Rightarrow> Inr (destroyed, M1)
       | Some ov1 \<Rightarrow>
           and_then (refresh_worktree_picker (en_world en) (en_pickers en) (en_panes en) ov1) (\<lambda>ov2.
           and_then (put_overlay ov2 M1) (\<lambda>M2. Inr (destroyed, M2)))))"

definition perform_tray_action :: "('c, 'p, 's) surroundings \<Rightarrow> tray_action_request \<Rightarrow> ('c, 'p, 's) overlay \<Rightarrow>
    ('c, 'p, 's) dispatcher \<Rightarrow> (bool \<times> ('c, 'p, 's) dispatcher) result" where
  "perform_tray_action en r ov D =
     (case remove_requested en r (dp_config D) of
        Inl e \<Rightarrow> catch (\<lambda>m.
          and_then (put_overlay (set_picker_action_error (''Remove failed: '' @ m) ov) (dp_trays D)) (\<lambda>M.
          Inr (False, D\<lparr>dp_trays := M\<rparr>))) e
      | Inr _ \<Rightarrow>
          and_then (destroy_requested en r ov (dp_trays D)) (\<lambda>(destroyed, M). Inr (destroyed, D\<lparr>dp_trays := M\<rparr>)))"

definition resolve_tray_action :: "('c, 'p, 's) surroundings \<Rightarrow> bool \<Rightarrow> ('c, 'p, 's) dispatcher \<Rightarrow>
    (bool \<times> ('c, 'p, 's) dispatcher) result" where
  "resolve_tray_action en confirmed D =
     and_then (active_overlay (dp_trays D)) (\<lambda>overlay.
     case overlay of
       None \<Rightarrow> Inr (False, D)
     | Some ov \<Rightarrow>
         if \<not> has_tray_action_confirmation ov then Inr (False, D)
         else
           (case resolve_confirmation confirmed ov of (request', ov1) \<Rightarrow>
             and_then (put_overlay ov1 (dp_trays D)) (\<lambda>M.
             let D1 = D\<lparr>dp_trays := M\<rparr> in
             case request' of
               None \<Rightarrow> Inr (False, D1)
             | Some r \<Rightarrow> perform_tray_action en r ov1 D1)))"

section \<open>Dispatching\<close>

text \<open>A change of the dialog of the active tray, if it has one.\<close>

definition on_dialog :: "(('c, 'p, 's) overlay \<Rightarrow> ('c, 'p, 's) overlay result) \<Rightarrow> ('c, 'p, 's) overlay \<Rightarrow>
    ('c, 'p, 's) dispatcher \<Rightarrow> ('c, 'p, 's) dispatcher result" where
  "on_dialog f ov D =
     and_then (f ov) (\<lambda>ov'. and_then (put_overlay ov' (dp_trays D)) (\<lambda>M. Inr (D\<lparr>dp_trays := M\<rparr>)))"

definition dispatch_navigation :: "('c, 'p, 's) surroundings \<Rightarrow> overlay_navigation \<Rightarrow> ('c, 'p, 's) dispatcher \<Rightarrow>
    (dispatch_effects \<times> ('c, 'p, 's) dispatcher) result" where
  "dispatch_navigation en navigation D =
     and_then (active_overlay (dp_trays D)) (\<lambda>overlay.
     case overlay of
       None \<Rightarrow> Inr (no_effects, D)
     | Some ov \<Rightarrow>
         if \<not> dp_command_mode D then Inr (no_effects, D)
         else if has_tray_action_confirmation ov then
           (if navigation = Navigation_ENTER then
              and_then (on_dialog (\<lambda>x. Inr (snd (resolve_confirmation False x))) ov D) (\<lambda>D'. Inr (publish_and_redraw, D'))
            else Inr (no_effects, D))
         else
           and_then (on_dialog (write_input (en_world en) (en_pickers en) (en_panes en)
               (overlay_navigation_sequence navigation)) ov D) (\<lambda>D'. Inr (no_effects, D')))"

definition action_kind :: "tray_action_intent \<Rightarrow> tray_action_kind" where
  "action_kind intent = (if intent = Intent_CLEAR then Tray_CLEAR else Tray_REMOVE)"

definition dispatch_begin_action :: "('c, 'p, 's) surroundings \<Rightarrow> tray_action_intent \<Rightarrow> ('c, 'p, 's) dispatcher \<Rightarrow>
    (dispatch_effects \<times> ('c, 'p, 's) dispatcher) result" where
  "dispatch_begin_action en intent D =
     (if \<not> dp_command_mode D then Inr (no_effects, D)
      else
        and_then (active_overlay (dp_trays D)) (\<lambda>overlay.
        case overlay of
          None \<Rightarrow> Inr (publish_and_redraw, D)
        | Some ov \<Rightarrow>
            and_then (on_dialog (\<lambda>x. Inr
                (if action_kind intent = Tray_REMOVE \<and> highlighted_tray_id x = Some (Worktree_tray (dc_protected (dp_config D)))
                 then set_picker_action_error ''Remove blocked: this worktree runs my-opiniated-editor'' x
                 else snd (begin_tray_action_confirmation (action_kind intent) x))) ov D) (\<lambda>D'.
            Inr (publish_and_redraw, D'))))"

definition dispatch_pane :: "('c, 'p, 's) surroundings \<Rightarrow> pane_command_action \<Rightarrow> ('c, 'p, 's) dispatcher \<Rightarrow>
    (dispatch_effects \<times> ('c, 'p, 's) dispatcher) result" where
  "dispatch_pane en action D =
     (if \<not> dp_command_mode D then Inr (no_effects, D)
      else
     and_then (active_overlay (dp_trays D)) (\<lambda>overlay.
     if overlay \<noteq> None then Inr (no_effects, D)
     else
       and_then (if action = Action_CLOSE then
           and_then (active_pane_layout (dp_trays D)) (\<lambda>L. and_then (leaf_nodes L) (\<lambda>leaves. Inr (length leaves = 1)))
         else Inr False) (\<lambda>closes_tray.
       and_then (dispatch_pane_command en action (dp_trays D)) (\<lambda>(changed, M).
       Inr (\<lparr>ef_publish_status = changed, ef_redraw = changed, ef_trays_destroyed = closes_tray \<and> changed\<rparr>,
            D\<lparr>dp_trays := M\<rparr>)))))"

definition dispatch_toggle_mode :: "('c, 'p, 's) dispatcher \<Rightarrow>
    (dispatch_effects \<times> ('c, 'p, 's) dispatcher) result" where
  "dispatch_toggle_mode D =
     and_then (active_overlay (dp_trays D)) (\<lambda>overlay.
     let toggled = D\<lparr>dp_command_mode := \<not> dp_command_mode D\<rparr> in
     case overlay of
       Some ov \<Rightarrow>
         if has_tray_action_confirmation ov then
           and_then (on_dialog (\<lambda>x. Inr (cancel_tray_action_confirmation x)) ov toggled) (\<lambda>D'.
           Inr (\<lparr>ef_publish_status = True, ef_redraw = True, ef_trays_destroyed = False\<rparr>, D'))
         else Inr (\<lparr>ef_publish_status = True, ef_redraw = False, ef_trays_destroyed = False\<rparr>, toggled)
     | None \<Rightarrow> Inr (\<lparr>ef_publish_status = True, ef_redraw = False, ef_trays_destroyed = False\<rparr>, toggled))"

definition dispatch :: "('c, 'p, 's) surroundings \<Rightarrow> parent_input_command \<Rightarrow> terminal_size \<Rightarrow>
    ('c, 'p, 's) dispatcher \<Rightarrow> (dispatch_effects \<times> ('c, 'p, 's) dispatcher) result" where
  "dispatch en command sz D = (case command of
     Toggle_command_mode \<Rightarrow> dispatch_toggle_mode D
   | Switch_anonymous_tray n \<Rightarrow>
       and_then (switch_to (en_panes en) (dialog_view en) n (dp_trays D)) (\<lambda>(_, M).
       Inr (publish_and_redraw, D\<lparr>dp_trays := M\<rparr>))
   | Toggle_worktree_overlay \<Rightarrow>
       and_then (toggle_overlay en sz D) (\<lambda>(closed, D').
       Inr (publish_and_redraw, if closed then D' else D'\<lparr>dp_command_mode := False\<rparr>))
   | Navigate_overlay navigation \<Rightarrow> dispatch_navigation en navigation D
   | Begin_tray_action intent \<Rightarrow> dispatch_begin_action en intent D
   | Resolve_tray_action decision \<Rightarrow>
       if \<not> dp_command_mode D then Inr (no_effects, D)
       else
         and_then (resolve_tray_action en (decision = Decision_CONFIRM) D) (\<lambda>(destroyed, D').
         Inr (publish_and_redraw\<lparr>ef_trays_destroyed := destroyed\<rparr>, D'))
   | Pane_command action \<Rightarrow> dispatch_pane en action D)"

end
