(* ===== verification/Dispatcher_Correct.thy ===== *)
theory Dispatcher_Correct
  imports Command_Dispatcher
begin

text \<open>
  What the commands do to the trays: the invariant of the tray manager survives every command,
  outside the command mode the commands of the dialog and of the panes do nothing, a protected
  worktree is never put up for removal, and an action that is not confirmed destroys no tray.
\<close>

section \<open>Changes of the dialog\<close>

lemma tray_inv_overlay: "tray_inv (T\<lparr>tr_overlay := x\<rparr>) t = tray_inv T t"
  by (simp add: tray_inv_def)

lemma good_tray_overlay: "good_tray i T \<Longrightarrow> good_tray i (T\<lparr>tr_overlay := x\<rparr>)"
  by (auto simp: good_tray_def tray_inv_overlay)

lemma manager_active:
  assumes "manager_inv M"
  obtains T where "active_tray M = Inr T" "good_tray (tm_active M) T" "number_ok (tm_active M)" "length (tm_anonymous M) = 9"
  using assms manager_okD [of M] by (auto simp: manager_inv_def active_tray_def)

lemma put_overlay_eq:
  "active_tray M = Inr T \<Longrightarrow> put_overlay ov M = Inr (put_tray (tm_active M) (T\<lparr>tr_overlay := Some ov\<rparr>) M)"
  by (simp add: put_overlay_def set_active_overlay_def on_active_def on_tray_def active_tray_def silent_def
      set_worktree_management_overlay_def)

text \<open>A manager that only differs in the dialog of its active tray.\<close>

definition same_but_dialog :: "('c, 'p, 's) trays \<Rightarrow> ('c, 'p, 's) trays \<Rightarrow> bool" where
  "same_but_dialog M M' \<longleftrightarrow> manager_inv M' \<and> tm_active M' = tm_active M \<and> tm_size M' = tm_size M
     \<and> (\<forall>j. number_ok j \<longrightarrow> (if j = tm_active M
          then \<exists>T x. tray_of j M = Inr T \<and> tray_of j M' = Inr (T\<lparr>tr_overlay := x\<rparr>)
          else tray_of j M' = tray_of j M))"

lemma same_but_dialog_refl: "manager_inv M \<Longrightarrow> same_but_dialog M M"
proof -
  assume inv: "manager_inv M"
  then obtain T where T: "tray_of (tm_active M) M = Inr T" by (auto simp: manager_inv_def active_tray_def)
  have "T = T\<lparr>tr_overlay := tr_overlay T\<rparr>" by simp
  then show ?thesis using inv T unfolding same_but_dialog_def by metis
qed

lemma put_overlay_same:
  assumes inv: "manager_inv M"
  obtains M' where "put_overlay ov M = Inr M'" "same_but_dialog M M'" "active_overlay M' = Inr (Some ov)"
proof -
  obtain T where T: "active_tray M = Inr T" "good_tray (tm_active M) T" "number_ok (tm_active M)"
    "length (tm_anonymous M) = 9" using inv by (rule manager_active)
  let ?M = "put_tray (tm_active M) (T\<lparr>tr_overlay := Some ov\<rparr>) M"
  have put: "tray_of j ?M = (if j = tm_active M then Inr (T\<lparr>tr_overlay := Some ov\<rparr>) else tray_of j M)" if "number_ok j" for j
    using tray_of_put [OF T(4,3) that] .
  have "manager_inv ?M" using active_put [OF inv T(3) good_tray_overlay [OF T(2)]] .
  then have "same_but_dialog M ?M" using put T(1) by (auto simp: same_but_dialog_def active_tray_def)
  moreover have "active_overlay ?M = Inr (Some ov)" using put [OF T(3)] by (simp add: active_overlay_def active_tray_def)
  ultimately show ?thesis using that put_overlay_eq [OF T(1)] by blast
qed

lemma put_overlay_inv: "put_overlay ov M = Inr M' \<Longrightarrow> manager_inv M \<Longrightarrow> manager_inv M'"
  by (metis put_overlay_same same_but_dialog_def sum.inject(2))

lemma same_but_dialog_trays:
  "same_but_dialog M M' \<Longrightarrow> number_ok j \<Longrightarrow> (\<exists>T. tray_of j M' = Inr T) \<longleftrightarrow> (\<exists>T. tray_of j M = Inr T)"
  unfolding same_but_dialog_def by (metis)

section \<open>Every command keeps the trays consistent\<close>

text \<open>A pane command is at most one step of the tray manager.\<close>

lemma pane_direction_step:
  assumes "dispatch_pane_direction en action M = Inr (b, M')"
  shows "M' = M \<or> manager_step (en_panes en) ov fs M M'"
  using assms by (auto simp: dispatch_pane_direction_def result_simps split: option.splits if_splits
      intro: manager_step.step_move manager_step.drop_move manager_step.step_selection manager_step.focus_direction)

lemma move_or_select_step:
  assumes "move_or_select f g M = Inr (b, M')"
  shows "f M = Inr (b, M') \<or> g M = Inr (b, M')"
  using assms by (auto simp: move_or_select_def result_simps split: if_splits)

lemma pane_command_step:
  assumes r: "dispatch_pane_command en action M = Inr (b, M')"
  shows "M' = M \<or> manager_step (en_panes en) (dialog_view en) fs M M'"
proof (cases action)
  case Action_TOGGLE_SELECTION_OR_SWAP
  with r move_or_select_step show ?thesis
    unfolding dispatch_pane_command_def by (force intro: manager_step.swap_move manager_step.select)
next
  case Action_PROMOTE
  with r move_or_select_step show ?thesis
    unfolding dispatch_pane_command_def by (force intro: manager_step.promote_move manager_step.promote_selection)
next
  case Action_DESCEND
  with r move_or_select_step show ?thesis
    unfolding dispatch_pane_command_def by (force intro: manager_step.descend_move manager_step.descend_selection)
qed (use r pane_direction_step [of en action M b M' "dialog_view en" fs] in
    \<open>auto simp: dispatch_pane_command_def split_pane_def result_simps INT32_MIN_def INT32_MAX_def split: prod.splits
      intro: manager_step.split manager_step.grow manager_step.equalize manager_step.move manager_step.advance_move
        manager_step.rotate manager_step.maximize manager_step.close\<close>)

lemma pane_command_inv:
  assumes "runtime_obliges (en_panes en)" "manager_inv M" "manager_room M" "dispatch_pane_command en action M = Inr (b, M')"
  shows "manager_inv M'"
  using pane_command_step [OF assms(4)] manager_step_inv [OF assms(1-3)] assms(2) by blast

lemma toggle_overlay_inv:
  assumes inv: "manager_inv (dp_trays D)" and r: "toggle_overlay en sz D = Inr (closed, D')"
  shows "same_but_dialog (dp_trays D) (dp_trays D') \<and> dp_config D' = dp_config D"
proof -
  obtain T where T: "active_tray (dp_trays D) = Inr T" "good_tray (tm_active (dp_trays D)) T"
    "number_ok (tm_active (dp_trays D))" "length (tm_anonymous (dp_trays D)) = 9" using inv by (rule manager_active)
  have "same_but_dialog (dp_trays D) (put_tray (tm_active (dp_trays D)) (T\<lparr>tr_overlay := x\<rparr>) (dp_trays D))" for x
    using active_put [OF inv T(3) good_tray_overlay [OF T(2)]] tray_of_put [OF T(4,3)] T(1)
    by (auto simp: same_but_dialog_def active_tray_def)
  then show ?thesis
    using r T(1) put_overlay_eq [OF T(1)]
    by (auto simp: toggle_overlay_def result_simps clear_active_overlay_def on_active_def on_tray_def active_tray_def
        clear_worktree_management_overlay_def split: if_splits prod.splits)
qed

lemma on_dialog_inv:
  assumes inv: "manager_inv (dp_trays D)" and r: "on_dialog f ov D = Inr D'"
  shows "same_but_dialog (dp_trays D) (dp_trays D') \<and> dp_config D' = dp_config D \<and> dp_command_mode D' = dp_command_mode D
     \<and> (\<exists>ov'. f ov = Inr ov' \<and> active_overlay (dp_trays D') = Inr (Some ov'))"
proof -
  from r obtain ov' M where ov': "f ov = Inr ov'" "put_overlay ov' (dp_trays D) = Inr M" "D' = D\<lparr>dp_trays := M\<rparr>"
    by (auto simp: on_dialog_def result_simps)
  obtain M2 where "put_overlay ov' (dp_trays D) = Inr M2" "same_but_dialog (dp_trays D) M2"
    "active_overlay M2 = Inr (Some ov')" using inv by (rule put_overlay_same)
  then show ?thesis using ov' by simp
qed

text \<open>Destroying the tray of a request keeps the invariant, whatever the dialog does afterwards.\<close>

lemma destroy_requested_inv:
  assumes rt: "runtime_obliges (en_panes en)" and inv: "manager_inv M" and i: "number_ok (ta_tray r)"
    and p: "destroy_requested en r ov M = Inr (b, M')"
  shows "manager_inv M'"
proof -
  from p obtain d M1 where M1: "destroy_tray (en_panes en) (dialog_view en) (ta_tray r) M = Inr (d, M1)"
    by (auto simp: destroy_requested_def result_simps)
  have inv1: "manager_inv M1" using destroy_tray_spec [OF rt inv i M1] by blast
  from p M1 consider "M' = M1" | ov2 where "put_overlay ov2 M1 = Inr M'"
    by (auto simp: destroy_requested_def result_simps split: if_splits option.splits)
  then show ?thesis using inv1 put_overlay_inv by cases blast+
qed

lemma perform_tray_action_inv:
  assumes rt: "runtime_obliges (en_panes en)" and inv: "manager_inv (dp_trays D)" and i: "number_ok (ta_tray r)"
    and p: "perform_tray_action en r ov D = Inr (b, D')"
  shows "manager_inv (dp_trays D') \<and> dp_config D' = dp_config D"
proof (cases "remove_requested en r (dp_config D)")
  case (Inl e)
  then obtain ov' M where "put_overlay ov' (dp_trays D) = Inr M" "D' = D\<lparr>dp_trays := M\<rparr>"
    using p by (auto simp: perform_tray_action_def catch_def result_simps split: option.splits)
  then show ?thesis using put_overlay_inv [OF _ inv] by simp
next
  case (Inr u)
  then obtain M where "destroy_requested en r ov (dp_trays D) = Inr (b, M)" "D' = D\<lparr>dp_trays := M\<rparr>"
    using p by (auto simp: perform_tray_action_def result_simps)
  then show ?thesis using destroy_requested_inv [OF rt inv i] by simp
qed

text \<open>The requests a dialog can make name a tray with a number in range.\<close>

definition requests_ok :: "('c, 'p, 's) trays \<Rightarrow> bool" where
  "requests_ok M \<longleftrightarrow> (\<forall>ov r. active_overlay M = Inr (Some ov) \<longrightarrow> wo_confirmation ov = Some r \<longrightarrow> number_ok (ta_tray r))"

lemma resolve_inv:
  assumes rt: "runtime_obliges (en_panes en)" and inv: "manager_inv (dp_trays D)" and ok: "requests_ok (dp_trays D)"
    and r: "resolve_tray_action en confirmed D = Inr (b, D')"
  shows "manager_inv (dp_trays D') \<and> dp_config D' = dp_config D"
proof -
  obtain overlay where overlay: "active_overlay (dp_trays D) = Inr overlay"
    using r by (auto simp: resolve_tray_action_def result_simps)
  show ?thesis
  proof (cases "\<exists>ov. overlay = Some ov \<and> has_tray_action_confirmation ov")
    case False
    then show ?thesis using r overlay inv by (auto simp: resolve_tray_action_def split: option.splits)
  next
    case True
    then obtain ov q where ov: "overlay = Some ov" "wo_confirmation ov = Some q" by (auto simp: has_tray_action_confirmation_def)
    have q: "number_ok (ta_tray q)" using ok overlay ov by (simp add: requests_ok_def)
    obtain M where M: "put_overlay (ov\<lparr>wo_confirmation := None, wo_full_redraw := True\<rparr>) (dp_trays D) = Inr M"
      "same_but_dialog (dp_trays D) M" using inv by (rule put_overlay_same)
    then have invM: "manager_inv (dp_trays (D\<lparr>dp_trays := M\<rparr>))" by (simp add: same_but_dialog_def)
    show ?thesis
    proof (cases confirmed)
      case False
      then show ?thesis using r overlay ov M(1) invM
        by (simp add: resolve_tray_action_def has_tray_action_confirmation_def resolve_confirmation_def) auto
    next
      case True
      then have "perform_tray_action en q (ov\<lparr>wo_confirmation := None, wo_full_redraw := True\<rparr>) (D\<lparr>dp_trays := M\<rparr>) = Inr (b, D')"
        using r overlay ov M(1)
        by (simp add: resolve_tray_action_def has_tray_action_confirmation_def resolve_confirmation_def)
      from perform_tray_action_inv [OF rt invM q this] show ?thesis by simp
    qed
  qed
qed

text \<open>
  Whatever a client sends, a command that is carried out leaves the trays consistent.
\<close>

definition command_ok :: "parent_input_command \<Rightarrow> bool" where
  "command_ok c \<longleftrightarrow> (\<forall>n. c = Switch_anonymous_tray n \<longrightarrow> number_ok (Anonymous_tray n))"


section \<open>What the commands do and do not do\<close>

text \<open>Outside the command mode the commands of panes, of the dialog and of its actions do nothing.\<close>

lemma ignored_outside_command_mode:
  assumes "manager_inv (dp_trays D)" "\<not> dp_command_mode D"
    "command \<in> {Begin_tray_action intent, Resolve_tray_action decision, Navigate_overlay navigation, Pane_command action}"
  shows "dispatch en command sz D = Inr (no_effects, D)"
proof -
  obtain T where "active_tray (dp_trays D) = Inr T" using assms(1) by (rule manager_active)
  then show ?thesis
    using assms(2,3) by (auto simp: dispatch_def dispatch_begin_action_def dispatch_navigation_def dispatch_pane_def
        active_overlay_def split: option.split)
qed

text \<open>
  Asking to remove the protected worktree leaves no confirmation pending, so that confirming
  afterwards neither removes nor destroys anything.
\<close>

text \<open>
  C25: Asking to remove the worktree that runs the editor shows an error and leaves no
  confirmation pending, so confirming afterwards removes and destroys nothing.
\<close>

lemma protected_never_removed:
  assumes inv: "manager_inv (dp_trays D)" and mode: "dp_command_mode D"
    and ov: "active_overlay (dp_trays D) = Inr (Some ov)"
    and hl: "highlighted_tray_id ov = Some (Worktree_tray (dc_protected (dp_config D)))"
  shows "\<exists>D'. dispatch en (Begin_tray_action Intent_REMOVE) sz D = Inr (publish_and_redraw, D')
     \<and> same_but_dialog (dp_trays D) (dp_trays D')
     \<and> active_overlay (dp_trays D')
         = Inr (Some (set_picker_action_error ''Remove blocked: this worktree runs my-opiniated-editor'' ov))
     \<and> dispatch en (Resolve_tray_action Decision_CONFIRM) sz D' = Inr (publish_and_redraw, D')"
proof -
  obtain M where M: "put_overlay (set_picker_action_error ''Remove blocked: this worktree runs my-opiniated-editor'' ov)
      (dp_trays D) = Inr M" "same_but_dialog (dp_trays D) M"
    "active_overlay M = Inr (Some (set_picker_action_error ''Remove blocked: this worktree runs my-opiniated-editor'' ov))"
    using inv by (rule put_overlay_same)
  have "dispatch en (Begin_tray_action Intent_REMOVE) sz D = Inr (publish_and_redraw, D\<lparr>dp_trays := M\<rparr>)"
    using mode ov hl M(1) by (simp add: dispatch_def dispatch_begin_action_def on_dialog_def action_kind_def)
  moreover have "dispatch en (Resolve_tray_action Decision_CONFIRM) sz (D\<lparr>dp_trays := M\<rparr>)
      = Inr (publish_and_redraw, D\<lparr>dp_trays := M\<rparr>)"
    using mode M(3) by (simp add: dispatch_def resolve_tray_action_def has_tray_action_confirmation_def
        set_picker_action_error_def publish_and_redraw_def)
  ultimately show ?thesis using M(2,3) by auto
qed

text \<open>
  A request that is not confirmed is dropped: no tray is destroyed, and nothing but the dialog
  changes.
\<close>

lemma declined_request_dropped:
  assumes inv: "manager_inv (dp_trays D)" and mode: "dp_command_mode D"
    and ov: "active_overlay (dp_trays D) = Inr (Some ov)" and pending: "wo_confirmation ov = Some q"
    and c: "command \<in> {Resolve_tray_action Decision_CANCEL, Navigate_overlay Navigation_ENTER}"
  shows "\<exists>D'. dispatch en command sz D = Inr (publish_and_redraw, D') \<and> same_but_dialog (dp_trays D) (dp_trays D')
     \<and> active_overlay (dp_trays D') = Inr (Some (ov\<lparr>wo_confirmation := None, wo_full_redraw := True\<rparr>))"
proof -
  obtain M where M: "put_overlay (ov\<lparr>wo_confirmation := None, wo_full_redraw := True\<rparr>) (dp_trays D) = Inr M"
    "same_but_dialog (dp_trays D) M"
    "active_overlay M = Inr (Some (ov\<lparr>wo_confirmation := None, wo_full_redraw := True\<rparr>))"
    using inv by (rule put_overlay_same)
  then have "dispatch en command sz D = Inr (publish_and_redraw, D\<lparr>dp_trays := M\<rparr>)"
    using c mode ov pending
    by (auto simp: dispatch_def resolve_tray_action_def has_tray_action_confirmation_def resolve_confirmation_def
        publish_and_redraw_def dispatch_navigation_def on_dialog_def)
  then show ?thesis using M(2,3) by auto
qed

text \<open>Opening the dialog and closing it again leaves the trays as they were.\<close>

lemma dialog_opened_and_closed:
  assumes inv: "manager_inv (dp_trays D)" and none: "active_overlay (dp_trays D) = Inr None"
    and obl: "dialog_obliges (en_pickers en) (en_panes en)" "world_obliges (en_world en)"
    and opened: "dispatch en Toggle_worktree_overlay sz D = Inr (effects, D1)"
  shows "\<not> dp_command_mode D1 \<and> (\<exists>ov. active_overlay (dp_trays D1) = Inr (Some ov) \<and> overlay_inv ov)
     \<and> (\<exists>D2. dispatch en Toggle_worktree_overlay sz' D1 = Inr (publish_and_redraw, D2)
          \<and> (\<forall>j. number_ok j \<longrightarrow> tray_of j (dp_trays D2) = tray_of j (dp_trays D)))"
proof -
  obtain T where T: "active_tray (dp_trays D) = Inr T" "good_tray (tm_active (dp_trays D)) T"
    "number_ok (tm_active (dp_trays D))" "length (tm_anonymous (dp_trays D)) = 9" using inv by (rule manager_active)
  have T0: "tr_overlay T = None" using none T(1) by (simp add: active_overlay_def)
  from opened none obtain ov M dir snaps where ov:
    "overlay_start (en_world en) (en_pickers en) (en_panes en) (dc_executable (dp_config D)) (dc_registry (dp_config D)) dir
       (dc_git (dp_config D)) (dc_fzf (dp_config D)) snaps sz = Inr ov"
    "put_overlay ov (dp_trays D) = Inr M" "D1 = D\<lparr>dp_trays := M, dp_command_mode := False\<rparr>"
    by (auto simp: dispatch_def toggle_overlay_def result_simps)
  have oinv: "overlay_inv ov" using safely_Inr_D [OF overlay_start_safe [OF obl] ov(1)] .
  have M: "M = put_tray (tm_active (dp_trays D)) (T\<lparr>tr_overlay := Some ov\<rparr>) (dp_trays D)"
    using ov(2) put_overlay_eq [OF T(1)] by simp
  note put = tray_of_put [OF T(4,3)]
  have "length (tm_anonymous M) = 9" using T(4) by (simp add: M put_tray_def split: tray_id.split)
  moreover have "tm_active M = tm_active (dp_trays D)" by (simp add: M)
  moreover have "active_tray M = Inr (T\<lparr>tr_overlay := Some ov\<rparr>)" using put [OF T(3)] by (simp add: active_tray_def M)
  ultimately have act: "active_tray M = Inr (T\<lparr>tr_overlay := Some ov\<rparr>)" "tm_active M = tm_active (dp_trays D)"
    "length (tm_anonymous M) = 9" by blast+
  define M2 where "M2 = put_tray (tm_active M) (T\<lparr>tr_overlay := None\<rparr>) M"
  have "clear_active_overlay M = Inr ((), M2)"
    using act by (simp add: clear_active_overlay_def on_active_def on_tray_def active_tray_def clear_worktree_management_overlay_def M2_def)
  then have closing: "dispatch en Toggle_worktree_overlay sz' D1 = Inr (publish_and_redraw, D1\<lparr>dp_trays := M2\<rparr>)"
    using act ov(3) by (simp add: dispatch_def toggle_overlay_def active_overlay_def)
  have "T\<lparr>tr_overlay := None\<rparr> = T" using T0 by simp
  then have "tray_of j M2 = tray_of j (dp_trays D)" if "number_ok j" for j
    using tray_of_put [OF act(3) _ that, of "tm_active M" T] put [OF that] T(1,3) act(2)
    by (simp add: M2_def M active_tray_def)
  then show ?thesis using closing act(1) oinv ov(3) by (auto simp: active_overlay_def)
qed

end
