(* ===== verification/Dispatcher_Witness.thy ===== *)
theory Dispatcher_Witness
  imports Dispatcher_Correct
begin

text \<open>
  The properties of the dispatcher at work: a session of one shell, with a dialog over its tray
  and one tracked worktree.
\<close>

definition quiet_panes :: "(nat, string, (nat, unit, string) overlay) pane_runtime" where
  "quiet_panes = \<lparr>rt_start = \<lambda>command directory sz. Inr (Some (length command)),
     rt_write = \<lambda>bytes c. Inr c, rt_read = \<lambda>c. Inr (None, c), rt_content_resize = \<lambda>sz c. Inr c,
     rt_exit = \<lambda>c. None, rt_descriptor = int, rt_child = int,
     rt_screen = \<lambda>sz. Inr [], rt_ingest = \<lambda>s screen. screen @ s, rt_screen_resize = \<lambda>sz screen. Inr screen,
     rt_snapshot = \<lambda>screen. screen, rt_region_snapshot = \<lambda>origin screen. screen,
     rt_sized_snapshot = \<lambda>origin sz screen. screen, rt_overlay_resize = \<lambda>sz overlay. Inr overlay\<rparr>"

definition quiet_surroundings :: "(nat, unit, string) surroundings" where
  "quiet_surroundings = \<lparr>en_panes = quiet_panes, en_pickers = calm_picker, en_world = quiet_world,
     en_remove = \<lambda>git registry root protected. Inr ()\<rparr>"

definition quiet_config :: dispatcher_config where
  "quiet_config = \<lparr>dc_executable = ''moe'', dc_protected = [''/'', ''code'', ''main''],
     dc_registry = ''/state/worktrees.pb'', dc_git = ''git'', dc_fzf = ''fzf''\<rparr>"

definition commanding :: "(nat, unit, string) trays \<Rightarrow> (nat, unit, string) dispatcher" where
  "commanding M = \<lparr>dp_trays = M, dp_config = quiet_config, dp_command_mode = True\<rparr>"

lemma quiet_obliges: "runtime_obliges (en_panes quiet_surroundings)"
  "dialog_obliges (en_pickers quiet_surroundings) (en_panes quiet_surroundings)" "world_obliges (en_world quiet_surroundings)"
  by (simp_all add: runtime_obliges_def dialog_obliges_def quiet_surroundings_def quiet_panes_def calm_picker_def calm_dialog(2))

text \<open>The session as it starts, and with the dialog opened over it.\<close>

lemma shell_session:
  obtains M where "manager_start quiet_panes shell_config = Inr M" "manager_inv M" "manager_room M" "active_overlay M = Inr None"
proof -
  obtain M where M: "manager_start quiet_panes shell_config = Inr M" "manager_inv M"
    using shell_manager_of [OF quiet_obliges(1)] by (metis quiet_surroundings_def surroundings.select_convs(1))
  have "case manager_start quiet_panes shell_config of Inl e \<Rightarrow> False
    | Inr M \<Rightarrow> list_all (\<lambda>T. int (ly_next (tr_layout T)) < 10 \<and> int (tr_next_pane T) < 10) (live_trays M)
        \<and> (case active_overlay M of Inl e \<Rightarrow> False | Inr x \<Rightarrow> x = None)"
    by code_simp
  then have facts: "\<forall>T \<in> set (live_trays M). int (ly_next (tr_layout T)) < 10 \<and> int (tr_next_pane T) < 10"
    "case active_overlay M of Inl e \<Rightarrow> False | Inr x \<Rightarrow> x = None"
    unfolding M(1) sum.case by (simp_all add: list_all_iff)
  have "manager_room M" using facts(1) by (auto simp: manager_room_def tray_room_def UINT64_MAX_def)
  moreover have "active_overlay M = Inr None" using facts(2) by (cases "active_overlay M") simp_all
  ultimately show ?thesis using that M by blast
qed

lemma dialog_session:
  obtains M :: "(nat, unit, string) trays" and ov where "manager_inv M" "active_overlay M = Inr (Some ov)" "open_dialog = Inr ov"
    "highlighted_tray_id ov = Some (Worktree_tray [''/'', ''code'', ''main''])"
proof -
  obtain ov pk where ov: "open_dialog = Inr ov" "wf_mode (wo_workflow ov) = Mode_SWITCH_WORKTREE" "wo_picker ov = Some pk"
    "pk_highlighted pk = Some 0" "wo_candidate_trays ov = [Worktree_tray [''/'', ''code'', ''main''], Anonymous_tray 1]"
    by (rule open_dialog_facts)
  obtain M0 :: "(nat, unit, string) trays" where "manager_inv M0" by (rule shell_session)
  then obtain M where M: "same_but_dialog M0 M" "active_overlay M = Inr (Some ov)" by (rule put_overlay_same)
  have "highlighted_tray_id ov = Some (Worktree_tray [''/'', ''code'', ''main''])" using ov by (simp add: highlighted_tray_id_def)
  moreover have "manager_inv M" using M(1) by (simp add: same_but_dialog_def)
  ultimately show ?thesis using that ov(1) M(2) by blast
qed


lemma ignored_outside_command_mode_witness:
  "\<exists>M. manager_start quiet_panes shell_config = Inr M
     \<and> dispatch quiet_surroundings (Pane_command Action_CLOSE) \<lparr>ts_rows = 24, ts_cols = 80\<rparr> ((commanding M)\<lparr>dp_command_mode := False\<rparr>)
       = Inr (no_effects, (commanding M)\<lparr>dp_command_mode := False\<rparr>)"
proof -
  obtain M where M: "manager_start quiet_panes shell_config = Inr M" "manager_inv M" by (rule shell_session)
  have "dispatch quiet_surroundings (Pane_command Action_CLOSE) \<lparr>ts_rows = 24, ts_cols = 80\<rparr> ((commanding M)\<lparr>dp_command_mode := False\<rparr>)
       = Inr (no_effects, (commanding M)\<lparr>dp_command_mode := False\<rparr>)"
    by (rule ignored_outside_command_mode) (use M in \<open>simp_all add: commanding_def\<close>)
  then show ?thesis using M(1) by blast
qed

lemma protected_never_removed_witness:
  "\<exists>D D' ov. open_dialog = Inr ov \<and> active_overlay (dp_trays D) = Inr (Some ov)
     \<and> dispatch quiet_surroundings (Begin_tray_action Intent_REMOVE) \<lparr>ts_rows = 24, ts_cols = 80\<rparr> D = Inr (publish_and_redraw, D')
     \<and> dispatch quiet_surroundings (Resolve_tray_action Decision_CONFIRM) \<lparr>ts_rows = 24, ts_cols = 80\<rparr> D' = Inr (publish_and_redraw, D')"
proof -
  obtain M :: "(nat, unit, string) trays" and ov where M: "manager_inv M" "active_overlay M = Inr (Some ov)" "open_dialog = Inr ov"
    "highlighted_tray_id ov = Some (Worktree_tray [''/'', ''code'', ''main''])" by (rule dialog_session)
  have "manager_inv (dp_trays (commanding M))" "dp_command_mode (commanding M)" "active_overlay (dp_trays (commanding M)) = Inr (Some ov)"
    "highlighted_tray_id ov = Some (Worktree_tray (dc_protected (dp_config (commanding M))))"
    using M by (simp_all add: commanding_def quiet_config_def)
  from protected_never_removed [OF this, of quiet_surroundings "\<lparr>ts_rows = 24, ts_cols = 80\<rparr>"] this(3) M(3)
  show ?thesis by blast
qed

lemma declined_request_dropped_witness:
  "\<exists>D D' ov. active_overlay (dp_trays D) = Inr (Some ov) \<and> wo_confirmation ov \<noteq> None
     \<and> dispatch quiet_surroundings (Resolve_tray_action Decision_CANCEL) \<lparr>ts_rows = 24, ts_cols = 80\<rparr> D = Inr (publish_and_redraw, D')
     \<and> same_but_dialog (dp_trays D) (dp_trays D')"
proof -
  obtain M :: "(nat, unit, string) trays" and ov where M: "manager_inv M" "active_overlay M = Inr (Some ov)" "open_dialog = Inr ov"
    "highlighted_tray_id ov = Some (Worktree_tray [''/'', ''code'', ''main''])" by (rule dialog_session)
  let ?ov = "snd (begin_tray_action_confirmation Tray_CLEAR ov)"
  have conf: "wo_confirmation ?ov = Some \<lparr>ta_kind = Tray_CLEAR, ta_tray = Worktree_tray [''/'', ''code'', ''main'']\<rparr>"
    using M(4) by (simp add: begin_tray_action_confirmation_def)
  obtain M1 where M1: "same_but_dialog M M1" "active_overlay M1 = Inr (Some ?ov)" using M(1) by (rule put_overlay_same)
  have "manager_inv (dp_trays (commanding M1))" "dp_command_mode (commanding M1)"
    "active_overlay (dp_trays (commanding M1)) = Inr (Some ?ov)"
    using M1 by (simp_all add: commanding_def same_but_dialog_def)
  from declined_request_dropped [OF this conf, of "Resolve_tray_action Decision_CANCEL" quiet_surroundings "\<lparr>ts_rows = 24, ts_cols = 80\<rparr>"]
    this(3) conf show ?thesis by (metis insertI1 option.distinct(1))
qed

lemma dialog_opened_and_closed_witness:
  "\<exists>M e D1. manager_start quiet_panes shell_config = Inr M
     \<and> dispatch quiet_surroundings Toggle_worktree_overlay \<lparr>ts_rows = 24, ts_cols = 80\<rparr> (commanding M) = Inr (e, D1)
     \<and> \<not> dp_command_mode D1 \<and> (\<exists>ov. active_overlay (dp_trays D1) = Inr (Some ov))"
proof -
  obtain M where M: "manager_start quiet_panes shell_config = Inr M" "manager_inv M" "active_overlay M = Inr None"
    by (rule shell_session)
  have "case manager_start quiet_panes shell_config of Inl e \<Rightarrow> False
    | Inr M \<Rightarrow> (case dispatch quiet_surroundings Toggle_worktree_overlay \<lparr>ts_rows = 24, ts_cols = 80\<rparr> (commanding M) of
        Inl e \<Rightarrow> False | Inr r \<Rightarrow> True)"
    by code_simp
  then obtain e D1 where d: "dispatch quiet_surroundings Toggle_worktree_overlay \<lparr>ts_rows = 24, ts_cols = 80\<rparr> (commanding M) = Inr (e, D1)"
    unfolding M(1) sum.case by (metis old.sum.exhaust sum.simps(5) surj_pair)
  have "manager_inv (dp_trays (commanding M))" "active_overlay (dp_trays (commanding M)) = Inr None"
    using M by (simp_all add: commanding_def)
  from dialog_opened_and_closed [OF this quiet_obliges(2,3) d] M(1) d show ?thesis by blast
qed

end
