(* ===== verification/Worktree_Registry.thy ===== *)
theory Worktree_Registry
  imports Effects "HOL-Library.Multiset"
begin

text \<open>
  The registry of repositories and worktrees
  (src/src/parent/worktree/registry/worktree_registry_store.h and .cc): normalising it, loading it
  and replacing its file. The encoding of the file is the protobuf library's (\<open>sy_parse\<close>,
  \<open>sy_serialize\<close>).
\<close>

section \<open>Paths\<close>

text \<open>The loop that drops trailing separators, which are empty last elements.\<close>

function without_trailing :: "path \<Rightarrow> path" where
  "without_trailing p = (if p \<noteq> root_path p \<and> (p = [] \<or> last p = []) then without_trailing (parent_path p) else p)"
  by pat_completeness auto
termination
  by (relation "measure length") (auto simp: parent_path_def root_path_def root_directory_def split: if_splits)

declare without_trailing.simps [simp del]

definition absolute_path :: "(path \<Rightarrow> path option) \<Rightarrow> string \<Rightarrow> string \<Rightarrow> path result" where
  "absolute_path canonical s field_name =
     throw_if (s = []) (Invalid_argument (field_name @ '' must not be empty''))
       (throw_if (\<not> native_absolute s) (Invalid_argument (field_name @ '' must be absolute: '' @ s))
         (and_then (require (Invalid_argument (''failed to normalize '' @ field_name @ '': '' @ s))
             (canonical (path_of_string s))) (\<lambda>normalized.
          Inr (without_trailing normalized))))"

text \<open>
  \<open>lexically_normal\<close> of an absolute path: dots vanish, two dots take the element before them
  away, and an element that vanishes at the end leaves a trailing separator.
\<close>

fun normal_elements :: "string list \<Rightarrow> string list \<Rightarrow> string list" where
  "normal_elements acc [] = rev acc"
| "normal_elements acc (e # es) =
     (if e = [] \<or> e = ''.'' then normal_elements acc es
      else if e = ''..'' then normal_elements (tl acc) es
      else normal_elements (e # acc) es)"

definition lexically_normal :: "path \<Rightarrow> path" where
  "lexically_normal p =
     (if \<not> is_absolute p then p
      else
        let es = normal_elements [] (tl p) in
        ''/'' # es @ (if es \<noteq> [] \<and> last p \<in> {[], ''.'', ''..''} then [[]] else []))"

section \<open>Normalising a registry\<close>

definition FORMAT_VERSION :: nat where "FORMAT_VERSION = 1"

record normalized_repository =
  nr_root :: string
  nr_worktrees :: "string list"

text \<open>The worktrees of one repository, with the worktree paths seen so far.\<close>

fun normalize_worktrees :: "(path \<Rightarrow> path option) \<Rightarrow> string list \<Rightarrow> string set \<times> string list \<Rightarrow>
    (string set \<times> string list) result" where
  "normalize_worktrees canonical [] seen = Inr seen"
| "normalize_worktrees canonical (worktree # worktrees) (worktree_paths, own) =
     and_then (absolute_path canonical worktree ''worktree path'') (\<lambda>p.
     let worktree_path = path_string p in
     throw_if (worktree_path \<in> worktree_paths) (Invalid_argument (''duplicate worktree path: '' @ worktree_path))
       (normalize_worktrees canonical worktrees (insert worktree_path worktree_paths, own @ [worktree_path])))"

fun normalize_repositories :: "(path \<Rightarrow> path option) \<Rightarrow> repository list \<Rightarrow>
    string set \<times> string set \<times> normalized_repository list \<Rightarrow> normalized_repository list result" where
  "normalize_repositories canonical [] (roots, worktree_paths, repositories) = Inr repositories"
| "normalize_repositories canonical (r # rs) (roots, worktree_paths, repositories) =
     and_then (absolute_path canonical (rp_root r) ''repository root'') (\<lambda>p.
     let root = path_string p in
     throw_if (root \<in> roots) (Invalid_argument (''duplicate repository root: '' @ root))
       (and_then (normalize_worktrees canonical (rp_worktrees r) (worktree_paths, [])) (\<lambda>(worktree_paths', own).
        normalize_repositories canonical rs
          (insert root roots, worktree_paths', repositories @ [\<lparr>nr_root = root, nr_worktrees = sort own\<rparr>]))))"

definition normalize_registry :: "(path \<Rightarrow> path option) \<Rightarrow> registry \<Rightarrow> registry result" where
  "normalize_registry canonical g =
     throw_if (wr_version g \<noteq> FORMAT_VERSION)
       (Invalid_argument (''unsupported worktree registry format version: '' @ decimal (wr_version g)))
       (and_then (normalize_repositories canonical (wr_repositories g) ({}, {}, [])) (\<lambda>repositories.
        Inr \<lparr>wr_version = FORMAT_VERSION,
             wr_repositories = map (\<lambda>r. \<lparr>rp_root = nr_root r, rp_worktrees = nr_worktrees r\<rparr>) (sort_key nr_root repositories)\<rparr>))"

definition empty_registry :: registry where
  "empty_registry = \<lparr>wr_version = FORMAT_VERSION, wr_repositories = []\<rparr>"

section \<open>The store\<close>

definition default_registry_path :: "(string \<Rightarrow> string option) \<Rightarrow> path result" where
  "default_registry_path env =
     (let set_to = (\<lambda>name. case env name of None \<Rightarrow> [] | Some v \<Rightarrow> v);
          state = set_to ''MOE_STATE_DIRECTORY''; xdg = set_to ''XDG_STATE_HOME''; home = set_to ''HOME'' in
      if state \<noteq> [] then
        throw_if (\<not> is_absolute (path_of_string state)) (Runtime_error ''MOE_STATE_DIRECTORY must be an absolute path'')
          (Inr (path_append (path_of_string state) ''worktrees.pb''))
      else if xdg \<noteq> [] then
        throw_if (\<not> is_absolute (path_of_string xdg)) (Runtime_error ''XDG_STATE_HOME must be an absolute path'')
          (Inr (path_append (path_append (path_of_string xdg) ''my-opiniated-editor'') ''worktrees.pb''))
      else
        throw_if (home = []) (Runtime_error ''HOME is required when XDG_STATE_HOME is unset'')
          (throw_if (\<not> is_absolute (path_of_string home)) (Runtime_error ''HOME must be an absolute path'')
            (Inr (fold (\<lambda>e p. path_append p e) [''.local'', ''state'', ''my-opiniated-editor'', ''worktrees.pb'']
              (path_of_string home)))))"

definition registry_store :: "'w system \<Rightarrow> path \<Rightarrow> ('w, path) action" where
  "registry_store sy p =
     bind (guard (p \<noteq> []) (Invalid_argument ''worktree registry path must not be empty'')) (\<lambda>_.
     bind (checked (Invalid_argument ''failed to resolve worktree registry path'') (sy_absolute sy p)) (\<lambda>absolute.
     return (lexically_normal absolute)))"

definition path_exists :: "'w system \<Rightarrow> string \<Rightarrow> path \<Rightarrow> ('w, bool) action" where
  "path_exists sy operation p = checked (filesystem_error sy operation p) (sy_exists sy p)"

definition registry_load :: "'w system \<Rightarrow> path \<Rightarrow> ('w, registry) action" where
  "registry_load sy registry_path =
     bind (path_exists sy ''inspect worktree registry'' registry_path) (\<lambda>exists.
     if \<not> exists then return empty_registry
     else
       bind (checked (Runtime_error (''failed to open worktree registry: '' @ path_string registry_path))
           (sy_read_file sy registry_path)) (\<lambda>contents.
       bind (lift (require (Runtime_error (''failed to read worktree registry: '' @ path_string registry_path)) contents)) (\<lambda>bytes.
       bind (lift (require (Runtime_error (''failed to parse worktree registry: '' @ path_string registry_path))
           (sy_parse sy bytes))) (\<lambda>parsed.
       \<lambda>w. (case normalize_registry (\<lambda>p. sy_weakly_canonical sy p w) parsed of
          Inl (Invalid_argument m) \<Rightarrow>
            (Inl (Runtime_error (''invalid worktree registry '' @ path_string registry_path @ '': '' @ m)), w)
        | r \<Rightarrow> (r, w))))))"

definition temporary_template :: "path \<Rightarrow> path" where
  "temporary_template registry_path = path_append (parent_path registry_path) (last registry_path @ ''.tmp.XXXXXX'')"

text \<open>
  The \<open>try\<close> block of \<open>save\<close>: the temporary file is removed when anything before the renaming,
  or the renaming itself, throws.
\<close>

definition replace_registry :: "'w system \<Rightarrow> path \<Rightarrow> string \<Rightarrow> ('w, unit) action" where
  "replace_registry sy registry_path serialized = (\<lambda>w.
     case sy_make_temporary sy (temporary_template registry_path) w of
       (Inl e, w1) \<Rightarrow> (Inl e, w1)
     | (Inr temporary, w1) \<Rightarrow>
         (case bind (sy_write_all sy temporary serialized) (\<lambda>_.
               bind (sy_sync sy temporary) (\<lambda>_.
               sy_rename sy temporary registry_path)) w1 of
            (Inl e, w2) \<Rightarrow> (Inl e, snd (sy_remove sy temporary w2))
          | (Inr _, w2) \<Rightarrow> sy_sync sy (parent_path registry_path) w2))"

text \<open>What precedes it: the old registry has to be readable, and the new one acceptable.\<close>

definition prepare_save :: "'w system \<Rightarrow> path \<Rightarrow> registry \<Rightarrow> ('w, string) action" where
  "prepare_save sy registry_path g =
     bind (path_exists sy ''inspect worktree registry'' registry_path) (\<lambda>exists.
     bind (if exists then bind (registry_load sy registry_path) (\<lambda>_. return ()) else return ()) (\<lambda>_.
     bind (\<lambda>w. (normalize_registry (\<lambda>p. sy_weakly_canonical sy p w) g, w)) (\<lambda>normalized.
     bind (lift (require (Runtime_error ''failed to serialize worktree registry'') (sy_serialize sy normalized))) (\<lambda>serialized.
     bind (sy_create_directories sy (parent_path registry_path)) (\<lambda>created.
     bind (guard created (filesystem_error sy ''create worktree registry directory'' (parent_path registry_path))) (\<lambda>_.
     bind (sy_open_directory sy (parent_path registry_path)) (\<lambda>_.
     return serialized)))))))"

definition registry_save :: "'w system \<Rightarrow> path \<Rightarrow> registry \<Rightarrow> ('w, unit) action" where
  "registry_save sy registry_path g =
     bind (prepare_save sy registry_path g) (\<lambda>serialized. replace_registry sy registry_path serialized)"

section \<open>What normalising yields\<close>

text \<open>Every path once, the roots in order, and the worktrees of each repository in order.\<close>

definition registry_normal :: "registry \<Rightarrow> bool" where
  "registry_normal g \<longleftrightarrow> wr_version g = FORMAT_VERSION
     \<and> sorted (map rp_root (wr_repositories g)) \<and> distinct (map rp_root (wr_repositories g))
     \<and> distinct (concat (map rp_worktrees (wr_repositories g)))
     \<and> (\<forall>r \<in> set (wr_repositories g). sorted (rp_worktrees r))"

text \<open>
  What is relied on of \<open>weakly_canonical\<close>: an absolute path resolves to an absolute path in
  normal form, which resolves to itself.
\<close>

definition canonical_obliges :: "(path \<Rightarrow> path option) \<Rightarrow> bool" where
  "canonical_obliges canonical \<longleftrightarrow> (\<forall>p q. is_absolute p \<longrightarrow> canonical p = Some q \<longrightarrow>
     is_absolute (without_trailing q) \<and> path_ok (without_trailing q)
     \<and> canonical (without_trailing q) = Some (without_trailing q))"

text \<open>A string that resolves to itself, and the string another one resolves to.\<close>

definition settled :: "(path \<Rightarrow> path option) \<Rightarrow> string \<Rightarrow> bool" where
  "settled canonical s \<longleftrightarrow> (\<forall>field_name. \<exists>p. absolute_path canonical s field_name = Inr p \<and> path_string p = s)"

definition resolved :: "(path \<Rightarrow> path option) \<Rightarrow> string \<Rightarrow> string" where
  "resolved canonical s = path_string (without_trailing (the (canonical (path_of_string s))))"

definition all_settled :: "(path \<Rightarrow> path option) \<Rightarrow> registry \<Rightarrow> bool" where
  "all_settled canonical g \<longleftrightarrow>
     (\<forall>r \<in> set (wr_repositories g). settled canonical (rp_root r) \<and> (\<forall>w \<in> set (rp_worktrees r). settled canonical w))"

lemma absolute_path_string:
  assumes "absolute_path canonical s field_name = Inr p"
  shows "path_string p = resolved canonical s"
  using assms by (auto simp: absolute_path_def resolved_def result_simps)

lemma native_of_absolute: "is_absolute p \<Longrightarrow> native_absolute (path_string p)"
  by (cases p) (auto simp: is_absolute_def native_absolute_def path_string_def)

lemma native_absolute_path: "native_absolute s \<Longrightarrow> is_absolute (path_of_string s)"
  by (cases s) (auto simp: is_absolute_def native_absolute_def path_of_string_def Let_def)

lemma without_trailing_again: "without_trailing (without_trailing p) = without_trailing p"
proof (induction p rule: without_trailing.induct)
  case (1 p)
  show ?case
  proof (cases "p \<noteq> root_path p \<and> (p = [] \<or> last p = [])")
    case True
    then show ?thesis using 1 without_trailing.simps [of p] by simp
  next
    case False
    then have "without_trailing p = p" by (subst without_trailing.simps) auto
    then show ?thesis by simp
  qed
qed

lemma resolved_settled:
  assumes c: "canonical_obliges canonical" and p: "absolute_path canonical s field_name = Inr p"
  shows "settled canonical (path_string p)"
proof -
  from p obtain q where s: "s \<noteq> []" "native_absolute s" and q: "canonical (path_of_string s) = Some q" "p = without_trailing q"
    by (auto simp: absolute_path_def result_simps)
  have p: "is_absolute p" "path_ok p" "canonical p = Some p"
    using c native_absolute_path [OF s(2)] q unfolding canonical_obliges_def by blast+
  then have "path_of_string (path_string p) = p" "path_string p \<noteq> []" "native_absolute (path_string p)"
    using path_of_path_string [OF p(2)] native_of_absolute [OF p(1)] by (auto simp: native_absolute_def)
  then show ?thesis using p(3) without_trailing_again [of q] q(2) by (simp add: settled_def absolute_path_def)
qed

subsection \<open>Worktrees\<close>

lemma normalize_worktrees_spec:
  assumes c: "canonical_obliges canonical"
  shows "normalize_worktrees canonical ws (seen, own) = Inr (seen', own') \<Longrightarrow>
     own' = own @ map (resolved canonical) ws \<and> seen' = seen \<union> set (map (resolved canonical) ws)
     \<and> distinct (map (resolved canonical) ws) \<and> set (map (resolved canonical) ws) \<inter> seen = {}
     \<and> (\<forall>w \<in> set ws. settled canonical (resolved canonical w))"
proof (induction ws arbitrary: seen own)
  case (Cons w ws)
  from Cons.prems obtain p where p: "absolute_path canonical w ''worktree path'' = Inr p" "path_string p \<notin> seen"
    "normalize_worktrees canonical ws (insert (path_string p) seen, own @ [path_string p]) = Inr (seen', own')"
    by (auto simp: result_simps Let_def)
  show ?case using Cons.IH [OF p(3)] p(2) resolved_settled [OF c p(1)] unfolding absolute_path_string [OF p(1)] by auto
qed simp

lemma normalize_worktrees_fixed:
  assumes "\<forall>w \<in> set ws. settled canonical w" "distinct ws" "set ws \<inter> seen = {}"
  shows "normalize_worktrees canonical ws (seen, own) = Inr (seen \<union> set ws, own @ ws)"
  using assms
proof (induction ws arbitrary: seen own)
  case (Cons w ws)
  from Cons.prems(1) obtain p where p: "absolute_path canonical w ''worktree path'' = Inr p" "path_string p = w"
    by (auto simp: settled_def)
  have "normalize_worktrees canonical ws (insert w seen, own @ [w]) = Inr (insert w seen \<union> set ws, (own @ [w]) @ ws)"
    using Cons.prems by (intro Cons.IH) auto
  then show ?case using p Cons.prems(3) by simp
qed simp

subsection \<open>Repositories\<close>

lemma normalize_repositories_spec:
  assumes c: "canonical_obliges canonical"
  shows "normalize_repositories canonical rs (roots, seen, acc) = Inr res \<Longrightarrow>
     (\<exists>new. res = acc @ new
       \<and> new = map (\<lambda>r. \<lparr>nr_root = resolved canonical (rp_root r), nr_worktrees = sort (map (resolved canonical) (rp_worktrees r))\<rparr>) rs
       \<and> distinct (map nr_root new) \<and> set (map nr_root new) \<inter> roots = {}
       \<and> distinct (concat (map nr_worktrees new)) \<and> set (concat (map nr_worktrees new)) \<inter> seen = {}
       \<and> (\<forall>n \<in> set new. settled canonical (nr_root n) \<and> (\<forall>w \<in> set (nr_worktrees n). settled canonical w)))"
proof (induction rs arbitrary: roots seen acc)
  case (Cons r rs)
  let ?root = "resolved canonical (rp_root r)" and ?ws = "map (resolved canonical) (rp_worktrees r)"
  from Cons.prems obtain p seen' own where p: "absolute_path canonical (rp_root r) ''repository root'' = Inr p"
    and fresh: "path_string p \<notin> roots"
    and ws: "normalize_worktrees canonical (rp_worktrees r) (seen, []) = Inr (seen', own)"
    and rest: "normalize_repositories canonical rs (insert (path_string p) roots, seen',
      acc @ [\<lparr>nr_root = path_string p, nr_worktrees = sort own\<rparr>]) = Inr res"
    by (auto simp: result_simps Let_def)
  note root = absolute_path_string [OF p] and own = normalize_worktrees_spec [OF c ws]
  from Cons.IH [OF rest] obtain new where new: "res = (acc @ [\<lparr>nr_root = path_string p, nr_worktrees = sort own\<rparr>]) @ new"
    "new = map (\<lambda>r. \<lparr>nr_root = resolved canonical (rp_root r), nr_worktrees = sort (map (resolved canonical) (rp_worktrees r))\<rparr>) rs"
    "distinct (map nr_root new)" "set (map nr_root new) \<inter> insert (path_string p) roots = {}"
    "distinct (concat (map nr_worktrees new))" "set (concat (map nr_worktrees new)) \<inter> seen' = {}"
    "\<forall>n \<in> set new. settled canonical (nr_root n) \<and> (\<forall>w \<in> set (nr_worktrees n). settled canonical w)" by blast
  have seen': "seen' = seen \<union> set ?ws" "own = ?ws" using own by auto
  have settled: "settled canonical (path_string p)" using resolved_settled [OF c p] .
  show ?case
  proof (intro exI [of _ "\<lparr>nr_root = path_string p, nr_worktrees = sort own\<rparr> # new"] conjI)
    show "distinct (concat (map nr_worktrees (\<lparr>nr_root = path_string p, nr_worktrees = sort own\<rparr> # new)))"
      using new(5,6) own unfolding seen' by auto
  qed (use new own settled fresh root in \<open>auto simp: seen'\<close>)
qed simp

lemma normalize_repositories_fixed:
  assumes "\<forall>r \<in> set rs. settled canonical (rp_root r) \<and> (\<forall>w \<in> set (rp_worktrees r). settled canonical w)"
    "distinct (map rp_root rs)" "set (map rp_root rs) \<inter> roots = {}"
    "distinct (concat (map rp_worktrees rs))" "set (concat (map rp_worktrees rs)) \<inter> seen = {}"
  shows "normalize_repositories canonical rs (roots, seen, acc)
    = Inr (acc @ map (\<lambda>r. \<lparr>nr_root = rp_root r, nr_worktrees = sort (rp_worktrees r)\<rparr>) rs)"
  using assms
proof (induction rs arbitrary: roots seen acc)
  case (Cons r rs)
  from Cons.prems(1) have "settled canonical (rp_root r)" by simp
  then obtain p where p: "absolute_path canonical (rp_root r) ''repository root'' = Inr p" "path_string p = rp_root r"
    unfolding settled_def by blast
  have ws: "normalize_worktrees canonical (rp_worktrees r) (seen, []) = Inr (seen \<union> set (rp_worktrees r), [] @ rp_worktrees r)"
    using Cons.prems by (intro normalize_worktrees_fixed) auto
  have "normalize_repositories canonical rs (insert (rp_root r) roots, seen \<union> set (rp_worktrees r),
      acc @ [\<lparr>nr_root = rp_root r, nr_worktrees = sort (rp_worktrees r)\<rparr>])
    = Inr ((acc @ [\<lparr>nr_root = rp_root r, nr_worktrees = sort (rp_worktrees r)\<rparr>])
        @ map (\<lambda>r. \<lparr>nr_root = rp_root r, nr_worktrees = sort (rp_worktrees r)\<rparr>) rs)"
    using Cons.prems by (intro Cons.IH) auto
  then show ?case using p ws Cons.prems(3) by simp
qed simp

subsection \<open>Registries\<close>

text \<open>The repositories with their worktrees, whatever the order they are listed in.\<close>

definition tracked :: "(string \<Rightarrow> string) \<Rightarrow> registry \<Rightarrow> (string \<times> string multiset) multiset" where
  "tracked f g = mset (map (\<lambda>r. (f (rp_root r), mset (map f (rp_worktrees r)))) (wr_repositories g))"

lemma mset_concat_map: "mset (concat (map f xs)) = sum_mset (image_mset (\<lambda>x. mset (f x)) (mset xs))"
  by (induction xs) simp_all

lemma normalize_registry_result:
  assumes c: "canonical_obliges canonical" and r: "normalize_registry canonical g = Inr g'"
  shows "registry_normal g'" "all_settled canonical g'" "tracked id g' = tracked (resolved canonical) g"
proof -
  from r obtain new where new: "normalize_repositories canonical (wr_repositories g) ({}, {}, []) = Inr new"
    and g': "g' = \<lparr>wr_version = FORMAT_VERSION,
      wr_repositories = map (\<lambda>r. \<lparr>rp_root = nr_root r, rp_worktrees = nr_worktrees r\<rparr>) (sort_key nr_root new)\<rparr>"
    by (auto simp: normalize_registry_def result_simps)
  note spec = normalize_repositories_spec [OF c new]
  have sorted: "\<forall>n \<in> set new. sorted (nr_worktrees n)" using spec by auto
  have dist: "distinct (map nr_root new)" "distinct (concat (map nr_worktrees new))" using spec by auto
  have perm: "mset (sort_key nr_root new) = mset new" by simp
  have "mset (map nr_root (sort_key nr_root new)) = mset (map nr_root new)" by simp
  then have roots: "distinct (map nr_root (sort_key nr_root new))"
    using dist(1) by (metis distinct_count_atmost_1 mset_eq_setD)
  have "mset (concat (map nr_worktrees (sort_key nr_root new))) = mset (concat (map nr_worktrees new))"
    by (simp add: mset_concat_map)
  then have worktrees: "distinct (concat (map nr_worktrees (sort_key nr_root new)))"
    using dist(2) by (metis distinct_count_atmost_1 mset_eq_setD)
  show "registry_normal g'"
    using roots worktrees sorted by (simp add: registry_normal_def g' comp_def)
  show "all_settled canonical g'" using spec by (auto simp: all_settled_def g')
  have "tracked id g' = image_mset (\<lambda>n. (nr_root n, mset (nr_worktrees n))) (mset new)"
    by (simp add: tracked_def g' comp_def)
  also have "\<dots> = tracked (resolved canonical) g"
    using spec by (auto simp: tracked_def comp_def simp flip: mset_map)
  finally show "tracked id g' = tracked (resolved canonical) g" .
qed

lemma normalize_registry_fixed:
  assumes "registry_normal g" "all_settled canonical g"
  shows "normalize_registry canonical g = Inr g"
proof -
  let ?f = "\<lambda>r. \<lparr>nr_root = rp_root r, nr_worktrees = sort (rp_worktrees r)\<rparr>"
  have new: "normalize_repositories canonical (wr_repositories g) ({}, {}, []) = Inr ([] @ map ?f (wr_repositories g))"
    using assms by (intro normalize_repositories_fixed) (auto simp: registry_normal_def all_settled_def)
  have "sort_key nr_root (map ?f (wr_repositories g)) = map ?f (wr_repositories g)"
    using assms by (intro sort_key_id_if_sorted) (simp add: registry_normal_def comp_def)
  moreover have "map (\<lambda>r. \<lparr>rp_root = nr_root r, rp_worktrees = nr_worktrees r\<rparr>) (map ?f (wr_repositories g)) = wr_repositories g"
    using assms by (auto simp: registry_normal_def comp_def sorted_sort_id intro!: map_idI)
  ultimately show ?thesis using new assms by (simp add: normalize_registry_def registry_normal_def)
qed

text \<open>
  A registry that is accepted is put into normal form: it tracks the same worktrees of the same
  repositories, by their resolved paths, and accepting it again changes nothing.
\<close>

lemma registry_normalization:
  assumes "canonical_obliges canonical" "normalize_registry canonical g = Inr g'"
  shows "registry_normal g' \<and> tracked id g' = tracked (resolved canonical) g \<and> normalize_registry canonical g' = Inr g'"
  using normalize_registry_result [OF assms] normalize_registry_fixed by blast

end
