(* ===== verification/Registry_Store.thy ===== *)
theory Registry_Store
  imports Worktree_Registry "HOL-Library.Sublist"
begin

text \<open>
  Replacing the file of the registry: a save that fails leaves the file as it was or, when only
  the last synchronisation failed, complete; a save that succeeds is what the next load reads.
\<close>

section \<open>What is relied on of the system\<close>

definition file_at :: "'w system \<Rightarrow> path \<Rightarrow> 'w \<Rightarrow> bool option \<times> string option option" where
  "file_at sy p w = (sy_exists sy p w, sy_read_file sy p w)"

text \<open>The action changes no file that satisfies \<open>P\<close>, and no link.\<close>

definition keeps :: "'w system \<Rightarrow> (path \<Rightarrow> bool) \<Rightarrow> ('w, 'a) action \<Rightarrow> bool" where
  "keeps sy P a \<longleftrightarrow> (\<forall>w. (\<forall>p. P p \<longrightarrow> file_at sy p (snd (a w)) = file_at sy p w)
     \<and> (\<forall>p. sy_weakly_canonical sy p (snd (a w)) = sy_weakly_canonical sy p w))"

definition reads_back :: "'w system \<Rightarrow> bool" where
  "reads_back sy \<longleftrightarrow> (\<forall>g b. sy_serialize sy g = Some b \<longrightarrow> sy_parse sy b = Some g)"

definition temporary_obliges :: "'w system \<Rightarrow> bool" where
  "temporary_obliges sy \<longleftrightarrow> (\<forall>t. keeps sy (\<lambda>p. length (last p) \<noteq> length (last t)) (sy_make_temporary sy t)
     \<and> (\<forall>w q w1. sy_make_temporary sy t w = (Inr q, w1) \<longrightarrow> length (last q) = length (last t)))"

definition write_obliges :: "'w system \<Rightarrow> bool" where
  "write_obliges sy \<longleftrightarrow> (\<forall>q b. keeps sy (\<lambda>p. p \<noteq> q) (sy_write_all sy q b)
     \<and> (\<forall>w w1. sy_write_all sy q b w = (Inr (), w1) \<longrightarrow> sy_read_file sy q w1 = Some (Some b)))"

definition rename_obliges :: "'w system \<Rightarrow> bool" where
  "rename_obliges sy \<longleftrightarrow> (\<forall>q p. keeps sy (\<lambda>p'. p' \<noteq> p \<and> p' \<noteq> q) (sy_rename sy q p)
     \<and> (\<forall>w w1. sy_rename sy q p w = (Inr (), w1) \<longrightarrow> file_at sy p w1 = (Some True, sy_read_file sy q w))
     \<and> (\<forall>w w1 e. sy_rename sy q p w = (Inl e, w1) \<longrightarrow> file_at sy p w1 = file_at sy p w))"

definition store_obliges :: "'w system \<Rightarrow> bool" where
  "store_obliges sy \<longleftrightarrow> reads_back sy \<and> temporary_obliges sy \<and> write_obliges sy \<and> rename_obliges sy
     \<and> (\<forall>d. keeps sy (\<lambda>p. \<not> prefix p d) (sy_create_directories sy d))
     \<and> (\<forall>d. keeps sy (\<lambda>_. True) (sy_open_directory sy d)) \<and> (\<forall>q. keeps sy (\<lambda>_. True) (sy_sync sy q))
     \<and> (\<forall>q. keeps sy (\<lambda>p. p \<noteq> q) (sy_remove sy q))"

lemma keeps_result:
  assumes "keeps sy P a" "P p" "a w = (r, w')"
  shows "file_at sy p w' = file_at sy p w" "sy_weakly_canonical sy q w' = sy_weakly_canonical sy q w"
  using assms unfolding keeps_def by (metis snd_conv)+

lemma read_of_file: "file_at sy p w' = file_at sy p w \<Longrightarrow> sy_read_file sy p w' = sy_read_file sy p w"
  by (simp add: file_at_def)

section \<open>Loading\<close>

lemma load_reads_only: "snd (registry_load sy p w) = w"
  by (simp add: registry_load_def path_exists_def action_simps split: sum.split option.split cpp_error.split)

lemma load_same:
  assumes "file_at sy p w' = file_at sy p w" "\<And>q. sy_weakly_canonical sy q w' = sy_weakly_canonical sy q w"
  shows "fst (registry_load sy p w') = fst (registry_load sy p w)"
  using assms unfolding registry_load_def path_exists_def file_at_def
  by (auto simp: action_simps split: sum.split option.split cpp_error.split)

section \<open>Saving\<close>

lemma replace_outcome:
  assumes sy: "store_obliges sy" and r: "replace_registry sy p b w = (r, w')"
  shows "sy_weakly_canonical sy q w' = sy_weakly_canonical sy q w
     \<and> (case r of Inr _ \<Rightarrow> file_at sy p w' = (Some True, Some (Some b))
        | Inl _ \<Rightarrow> file_at sy p w' = file_at sy p w \<or> file_at sy p w' = (Some True, Some (Some b)))"
proof (cases "sy_make_temporary sy (temporary_template p) w")
  case (Pair made w1)
  have other: "length (last p) \<noteq> length (last (temporary_template p))"
    by (simp add: temporary_template_def path_append_def)
  from sy have mk: "temporary_obliges sy" and wr: "write_obliges sy" and rn: "rename_obliges sy"
    and sn: "\<And>q. keeps sy (\<lambda>_. True) (sy_sync sy q)" and rm: "\<And>q. keeps sy (\<lambda>p. p \<noteq> q) (sy_remove sy q)"
    by (auto simp: store_obliges_def)
  have mk': "keeps sy (\<lambda>p'. length (last p') \<noteq> length (last (temporary_template p))) (sy_make_temporary sy (temporary_template p))"
    using mk by (simp add: temporary_obliges_def)
  have w1: "file_at sy p w1 = file_at sy p w" "\<And>q. sy_weakly_canonical sy q w1 = sy_weakly_canonical sy q w"
    using keeps_result [OF mk' _ Pair] other by blast+
  show ?thesis
  proof (cases made)
    case (Inl e)
    then show ?thesis using r Pair w1 by (auto simp: replace_registry_def)
  next
    case (Inr t)
    have t: "p \<noteq> t" using mk Pair Inr other unfolding temporary_obliges_def by metis
    obtain wrote w2 where w2: "sy_write_all sy t b w1 = (wrote, w2)" by fastforce
    have wr': "keeps sy (\<lambda>p. p \<noteq> t) (sy_write_all sy t b)" using wr by (simp add: write_obliges_def)
    have k2: "file_at sy p w2 = file_at sy p w" "\<And>q. sy_weakly_canonical sy q w2 = sy_weakly_canonical sy q w"
      using keeps_result [OF wr' _ w2] t w1 by simp_all
    obtain synced w3 where w3: "sy_sync sy t w2 = (synced, w3)" by fastforce
    have k3: "\<And>q. file_at sy q w3 = file_at sy q w2" "\<And>q. sy_weakly_canonical sy q w3 = sy_weakly_canonical sy q w2"
      using keeps_result [OF sn _ w3] by simp_all
    obtain renamed w4 where w4: "sy_rename sy t p w3 = (renamed, w4)" by fastforce
    have k4: "\<And>q. sy_weakly_canonical sy q w4 = sy_weakly_canonical sy q w3"
      using rn w4 unfolding rename_obliges_def keeps_def by (metis snd_conv)
    have removed: "file_at sy p (snd (sy_remove sy t v)) = file_at sy p v"
      "sy_weakly_canonical sy q (snd (sy_remove sy t v)) = sy_weakly_canonical sy q v" for v q
      using rm [of t] t unfolding keeps_def by blast+
    obtain last w5 where w5: "sy_sync sy (parent_path p) w4 = (last, w5)" by fastforce
    have k5: "\<And>q. file_at sy q w5 = file_at sy q w4" "\<And>q. sy_weakly_canonical sy q w5 = sy_weakly_canonical sy q w4"
      using keeps_result [OF sn _ w5] by simp_all
    show ?thesis
    proof (cases wrote)
      case (Inl e)
      then show ?thesis using r Pair \<open>made = Inr t\<close> w2 k2 removed by (auto simp: replace_registry_def bind_run)
    next
      case wrote: (Inr u)
      then have content: "sy_read_file sy t w3 = Some (Some b)"
        using wr w2 read_of_file [OF k3(1)] unfolding write_obliges_def by (metis old.unit.exhaust)
      show ?thesis
      proof (cases synced)
        case (Inl e)
        then show ?thesis using r Pair \<open>made = Inr t\<close> w2 w3 wrote k2 k3 removed by (auto simp: replace_registry_def bind_run)
      next
        case synced: (Inr u')
        show ?thesis
        proof (cases renamed)
          case (Inl e)
          then have "file_at sy p w4 = file_at sy p w3" using rn w4 unfolding rename_obliges_def by metis
          then show ?thesis using r Pair \<open>made = Inr t\<close> w2 w3 w4 wrote synced Inl k2 k3 k4 removed
            by (auto simp: replace_registry_def bind_run)
        next
          case (Inr u'')
          then have "file_at sy p w4 = (Some True, Some (Some b))"
            using rn w4 content unfolding rename_obliges_def by (metis old.unit.exhaust)
          then show ?thesis using r Pair \<open>made = Inr t\<close> w2 w3 w4 w5 wrote synced Inr k2 k3 k4 k5
            by (auto simp: replace_registry_def bind_run split: sum.split)
        qed
      qed
    qed
  qed
qed

text \<open>
  A save looks at the old registry, normalises the new one and then replaces the file; what it
  does before the replacement leaves the file alone.
\<close>

lemma keeps_at:
  assumes "keeps sy P a"
  shows "P p \<Longrightarrow> file_at sy p (snd (a w)) = file_at sy p w" "sy_weakly_canonical sy q (snd (a w)) = sy_weakly_canonical sy q w"
  using assms by (simp_all add: keeps_def)

lemma keeps_bind:
  assumes "keeps sy P a" "\<And>x. keeps sy P (f x)"
  shows "keeps sy P (bind a f)"
  unfolding keeps_def
proof (rule allI)
  fix w
  obtain r w1 where a: "a w = (r, w1)" by fastforce
  then show "(\<forall>p. P p \<longrightarrow> file_at sy p (snd (bind a f w)) = file_at sy p w)
      \<and> (\<forall>p. sy_weakly_canonical sy p (snd (bind a f w)) = sy_weakly_canonical sy p w)"
    using keeps_at [OF assms(1), where w = w] keeps_at [OF assms(2), where w = w1] by (cases r) (simp_all add: bind_run)
qed

lemma keeps_still: "(\<And>w. snd (a w) = w) \<Longrightarrow> keeps sy P a"
  by (simp add: keeps_def)

lemma keeps_weaken: "keeps sy P a \<Longrightarrow> (\<And>p. Q p \<Longrightarrow> P p) \<Longrightarrow> keeps sy Q a"
  by (simp add: keeps_def)

lemma parent_no_prefix: "p \<noteq> root_directory \<Longrightarrow> p \<noteq> [] \<Longrightarrow> \<not> prefix p (parent_path p)"
proof
  assume p: "p \<noteq> root_directory" "p \<noteq> []" "prefix p (parent_path p)"
  then have "length p \<le> length (butlast p)" by (intro prefix_length_le) (simp add: parent_path_def)
  moreover have "length (butlast p) < length p" using p(2) by simp
  ultimately show False by linarith
qed

lemma prepare_keeps:
  assumes "store_obliges sy"
  shows "keeps sy (\<lambda>p'. \<not> prefix p' (parent_path p)) (prepare_save sy p g)"
  unfolding prepare_save_def
proof (intro keeps_bind)
  show "keeps sy (\<lambda>p'. \<not> prefix p' (parent_path p)) (sy_create_directories sy (parent_path p))"
    using assms by (simp add: store_obliges_def)
  have "keeps sy (\<lambda>_. True) (sy_open_directory sy (parent_path p))" using assms by (simp add: store_obliges_def)
  then show "keeps sy (\<lambda>p'. \<not> prefix p' (parent_path p)) (sy_open_directory sy (parent_path p))"
    by (rule keeps_weaken) simp
qed (rule keeps_still; simp add: path_exists_def action_simps bind_def load_reads_only split: prod.split sum.split;
     metis load_reads_only snd_conv)+

lemma prepare_result:
  assumes "prepare_save sy p g w = (Inr b, w1)"
  shows "\<exists>g'. normalize_registry (\<lambda>q. sy_weakly_canonical sy q w) g = Inr g' \<and> sy_serialize sy g' = Some b"
    "sy_exists sy p w = Some True \<Longrightarrow> \<exists>old. fst (registry_load sy p w) = Inr old"
proof -
  from assms obtain exists u w2 where e: "sy_exists sy p w = Some exists"
    and l: "(if exists then bind (registry_load sy p) (\<lambda>_. return ()) else return ()) w = (Inr u, w2)"
    and rest: "bind (\<lambda>w. (normalize_registry (\<lambda>p. sy_weakly_canonical sy p w) g, w)) (\<lambda>normalized.
       bind (lift (require (Runtime_error ''failed to serialize worktree registry'') (sy_serialize sy normalized))) (\<lambda>serialized.
       bind (sy_create_directories sy (parent_path p)) (\<lambda>created.
       bind (guard created (filesystem_error sy ''create worktree registry directory'' (parent_path p))) (\<lambda>_.
       bind (sy_open_directory sy (parent_path p)) (\<lambda>_.
       return serialized))))) w2 = (Inr b, w1)"
    unfolding prepare_save_def path_exists_def by (auto simp: bind_Inr checked_run result_simps)
  have old: "exists \<longrightarrow> (\<exists>old. fst (registry_load sy p w) = Inr old)" and "w2 = w"
    using l load_reads_only [of sy p w] by (auto simp: bind_Inr run_simps split: if_splits)
  then show "\<exists>g'. normalize_registry (\<lambda>q. sy_weakly_canonical sy q w) g = Inr g' \<and> sy_serialize sy g' = Some b"
    using rest by (auto simp: bind_Inr run_simps result_simps)
  show "sy_exists sy p w = Some True \<Longrightarrow> \<exists>old. fst (registry_load sy p w) = Inr old" using old e by simp
qed

text \<open>
  A save that succeeds found an old registry it could read, or none, and leaves the new one
  whole; one that fails leaves the old file, or the new one whole. Loading afterwards gives the
  normalised registry that was saved.
\<close>

lemma save_outcome:
  assumes sy: "store_obliges sy" and p: "p \<noteq> []" "p \<noteq> root_directory" and r: "registry_save sy p g w = (r, w')"
  shows "sy_weakly_canonical sy q w' = sy_weakly_canonical sy q w"
    "r = Inr () \<Longrightarrow> \<exists>g' b. normalize_registry (\<lambda>q. sy_weakly_canonical sy q w) g = Inr g' \<and> sy_serialize sy g' = Some b
       \<and> file_at sy p w' = (Some True, Some (Some b))
       \<and> (sy_exists sy p w = Some True \<longrightarrow> (\<exists>old. fst (registry_load sy p w) = Inr old))"
    "r = Inl e \<Longrightarrow> file_at sy p w' = file_at sy p w
       \<or> (\<exists>g' b. normalize_registry (\<lambda>q. sy_weakly_canonical sy q w) g = Inr g' \<and> sy_serialize sy g' = Some b
            \<and> file_at sy p w' = (Some True, Some (Some b)))"
proof -
  obtain prepared w1 where w1: "prepare_save sy p g w = (prepared, w1)" by fastforce
  have k: "file_at sy p w1 = file_at sy p w" "\<And>q. sy_weakly_canonical sy q w1 = sy_weakly_canonical sy q w"
    using keeps_result [OF prepare_keeps [OF sy] _ w1] parent_no_prefix [OF p(2,1)] by simp_all
  have all: "sy_weakly_canonical sy q w' = sy_weakly_canonical sy q w
    \<and> (r = Inr () \<longrightarrow> (\<exists>g' b. normalize_registry (\<lambda>q. sy_weakly_canonical sy q w) g = Inr g' \<and> sy_serialize sy g' = Some b
       \<and> file_at sy p w' = (Some True, Some (Some b))
       \<and> (sy_exists sy p w = Some True \<longrightarrow> (\<exists>old. fst (registry_load sy p w) = Inr old))))
    \<and> (r = Inl e \<longrightarrow> file_at sy p w' = file_at sy p w
       \<or> (\<exists>g' b. normalize_registry (\<lambda>q. sy_weakly_canonical sy q w) g = Inr g' \<and> sy_serialize sy g' = Some b
            \<and> file_at sy p w' = (Some True, Some (Some b))))" for q e
  proof (cases prepared)
    case (Inl e)
    then have "r = Inl e" "w' = w1" using r w1 by (simp_all add: registry_save_def bind_run)
    then show ?thesis using k by simp
  next
    case (Inr b)
    have r: "replace_registry sy p b w1 = (r, w')" using r w1 Inr by (simp add: registry_save_def bind_run)
    note prepared = prepare_result [OF w1 [unfolded Inr]] and out = replace_outcome [OF sy r]
    show ?thesis using prepared out k by (cases r) auto
  qed
  show "sy_weakly_canonical sy q w' = sy_weakly_canonical sy q w" by (rule all [THEN conjunct1])
  show "r = Inr () \<Longrightarrow> \<exists>g' b. normalize_registry (\<lambda>q. sy_weakly_canonical sy q w) g = Inr g' \<and> sy_serialize sy g' = Some b
       \<and> file_at sy p w' = (Some True, Some (Some b))
       \<and> (sy_exists sy p w = Some True \<longrightarrow> (\<exists>old. fst (registry_load sy p w) = Inr old))"
    by (rule all [THEN conjunct2, THEN conjunct1, THEN mp])
  show "r = Inl e \<Longrightarrow> file_at sy p w' = file_at sy p w
       \<or> (\<exists>g' b. normalize_registry (\<lambda>q. sy_weakly_canonical sy q w) g = Inr g' \<and> sy_serialize sy g' = Some b
            \<and> file_at sy p w' = (Some True, Some (Some b)))" by (rule all [THEN conjunct2, THEN conjunct2, THEN mp])
qed

lemma load_stored:
  assumes "reads_back sy" "file_at sy p w = (Some True, Some (Some b))" "sy_serialize sy g = Some b"
    "normalize_registry (\<lambda>q. sy_weakly_canonical sy q w) g = Inr g"
  shows "registry_load sy p w = (Inr g, w)"
  using assms by (simp add: registry_load_def path_exists_def action_simps file_at_def reads_back_def)

lemma saved_is_loaded:
  assumes sy: "store_obliges sy" and c: "canonical_obliges (\<lambda>q. sy_weakly_canonical sy q w)"
    and p: "p \<noteq> []" "p \<noteq> root_directory" and r: "registry_save sy p g w = (Inr (), w')"
  shows "\<exists>g'. normalize_registry (\<lambda>q. sy_weakly_canonical sy q w) g = Inr g' \<and> registry_load sy p w' = (Inr g', w')"
proof -
  note out = save_outcome [OF sy p r]
  from out(2) [OF refl] obtain g' b where g': "normalize_registry (\<lambda>q. sy_weakly_canonical sy q w) g = Inr g'"
    "sy_serialize sy g' = Some b" "file_at sy p w' = (Some True, Some (Some b))" by blast
  have "normalize_registry (\<lambda>q. sy_weakly_canonical sy q w') g' = Inr g'"
    unfolding out(1) using normalize_registry_fixed normalize_registry_result [OF c g'(1)] by blast
  moreover have "reads_back sy" using sy by (simp add: store_obliges_def)
  ultimately show ?thesis using load_stored [OF _ g'(3,2)] g'(1) by simp
qed

text \<open>The same when other actions, which keep the file and the links, come before and after the save.\<close>

lemma loaded_after_save:
  assumes sy: "store_obliges sy" and c: "canonical_obliges (\<lambda>q. sy_weakly_canonical sy q w)"
    and p: "p \<noteq> []" "p \<noteq> root_directory" and r: "registry_save sy p g w1 = (Inr (), w2)"
    and before: "\<And>q. sy_weakly_canonical sy q w1 = sy_weakly_canonical sy q w"
    and after: "file_at sy p w' = file_at sy p w2" "\<And>q. sy_weakly_canonical sy q w' = sy_weakly_canonical sy q w2"
  shows "\<exists>g'. normalize_registry (\<lambda>q. sy_weakly_canonical sy q w) g = Inr g' \<and> registry_load sy p w' = (Inr g', w')"
proof -
  have c1: "canonical_obliges (\<lambda>q. sy_weakly_canonical sy q w1)" using c unfolding before .
  from saved_is_loaded [OF sy c1 p r] obtain g' where
    g': "normalize_registry (\<lambda>q. sy_weakly_canonical sy q w) g = Inr g'" "registry_load sy p w2 = (Inr g', w2)"
    unfolding before by blast
  have "registry_load sy p w' = (Inr g', w')"
    using load_same [OF after] g'(2) load_reads_only [of sy p w'] by (cases "registry_load sy p w'") simp
  then show ?thesis using g'(1) by blast
qed

end
