(* ===== verification/Git_Worktree_List.thy ===== *)
theory Git_Worktree_List
  imports Effects
begin

text \<open>
  What \<open>git worktree list --porcelain -z\<close> prints, read into entries
  (src/src/parent/worktree/git_worktree_list.h and .cc), and the worktrees among them that can be
  entered.
\<close>

section \<open>Reading the list\<close>

record git_worktree =
  gw_path :: path
  gw_branch :: "string option"
  gw_bare :: bool
  gw_prunable :: bool

definition WORKTREE_PREFIX :: string where "WORKTREE_PREFIX = ''worktree ''"
definition BRANCH_PREFIX :: string where "BRANCH_PREFIX = ''branch refs/heads/''"

definition finish_record :: "git_worktree list \<times> git_worktree option \<Rightarrow> git_worktree list \<times> git_worktree option" where
  "finish_record st = (case st of (entries, current) \<Rightarrow> (case current of
     Some e \<Rightarrow> (if gw_path e \<noteq> [] then entries @ [e] else entries, None)
   | None \<Rightarrow> (entries, None)))"

definition read_field :: "string \<Rightarrow> git_worktree list \<times> git_worktree option \<Rightarrow>
    git_worktree list \<times> git_worktree option" where
  "read_field field st =
     (if field = [] then finish_record st
      else if starts_with WORKTREE_PREFIX field then
        (fst (finish_record st),
         Some \<lparr>gw_path = path_of_string (drop (length WORKTREE_PREFIX) field), gw_branch = None, gw_bare = False,
           gw_prunable = False\<rparr>)
      else case st of
        (entries, None) \<Rightarrow> st
      | (entries, Some e) \<Rightarrow>
          if field = ''bare'' then (entries, Some (e\<lparr>gw_bare := True\<rparr>))
          else if starts_with BRANCH_PREFIX field then
            (entries, Some (e\<lparr>gw_branch := Some (drop (length BRANCH_PREFIX) field)\<rparr>))
          else if starts_with ''prunable'' field then (entries, Some (e\<lparr>gw_prunable := True\<rparr>))
          else st)"

definition parse_git_worktree_list :: "string \<Rightarrow> git_worktree list" where
  "parse_git_worktree_list output = fst (finish_record (fold read_field (split_at_char (CHR 0x00) output) ([], None)))"

section \<open>The worktrees that are there\<close>

definition normalized_worktree_path :: "'w system \<Rightarrow> path \<Rightarrow> ('w, path) action" where
  "normalized_worktree_path sy p =
     bind (guard (is_absolute p) (Invalid_argument ''git worktree path must be an absolute path'')) (\<lambda>_.
     checked (Invalid_argument (''failed to normalize git worktree path: '' @ path_string p)) (sy_weakly_canonical sy p))"

definition available_worktree :: "'w system \<Rightarrow> git_worktree \<Rightarrow> path list \<Rightarrow> ('w, path list) action" where
  "available_worktree sy e paths =
     (if gw_bare e \<or> gw_prunable e then return paths
      else
        bind (normalized_worktree_path sy (gw_path e)) (\<lambda>p.
        bind (checked (filesystem_error sy ''inspect git worktree'' p) (sy_exists sy p)) (\<lambda>exists.
        if \<not> exists then return paths
        else
          bind (checked (filesystem_error sy ''inspect git worktree'' p) (sy_is_directory sy p)) (\<lambda>directory.
          return (if directory then paths @ [p] else paths)))))"

definition available_git_worktree_paths :: "'w system \<Rightarrow> string \<Rightarrow> ('w, path list) action" where
  "available_git_worktree_paths sy output =
     bind (fold_action (available_worktree sy) (parse_git_worktree_list output) []) (\<lambda>paths.
     return (remdups_adj (sort paths)))"

section \<open>What Git prints is read back\<close>

text \<open>
  The record of a worktree, as Git documents it: attributes end with a zero byte, the first is the
  path, and an empty attribute ends the record. \<open>attributes\<close> are those the program does not
  look at, such as the commit.
\<close>

definition ignored_attribute :: "string \<Rightarrow> bool" where
  "ignored_attribute a \<longleftrightarrow> a \<noteq> [] \<and> CHR 0x00 \<notin> set a \<and> a \<noteq> ''bare''
     \<and> \<not> starts_with WORKTREE_PREFIX a \<and> \<not> starts_with BRANCH_PREFIX a \<and> \<not> starts_with ''prunable'' a"

definition record_fields :: "string list \<Rightarrow> git_worktree \<Rightarrow> string list" where
  "record_fields attributes e =
     (WORKTREE_PREFIX @ path_string (gw_path e)) # attributes
     @ (if gw_bare e then [''bare''] else [])
     @ (case gw_branch e of None \<Rightarrow> [] | Some b \<Rightarrow> [BRANCH_PREFIX @ b])
     @ (if gw_prunable e then [''prunable gitdir file points to non-existent location''] else []) @ [[]]"

definition porcelain :: "(string list \<times> git_worktree) list \<Rightarrow> string" where
  "porcelain records = concat (map (\<lambda>f. f @ [CHR 0x00]) (concat (map (case_prod record_fields) records)))"

definition entry_ok :: "git_worktree \<Rightarrow> bool" where
  "entry_ok e \<longleftrightarrow> gw_path e \<noteq> [] \<and> path_ok (gw_path e) \<and> CHR 0x00 \<notin> set (path_string (gw_path e))
     \<and> (\<forall>b. gw_branch e = Some b \<longrightarrow> CHR 0x00 \<notin> set b)"

lemma split_fields:
  "\<forall>f \<in> set fs. CHR 0x00 \<notin> set f \<Longrightarrow>
     split_at_char (CHR 0x00) (concat (map (\<lambda>f. f @ [CHR 0x00]) fs)) = fs @ [[]]"
  by (induction fs) (simp_all add: split_at_char_append)

lemma starts_with_self [simp]: "starts_with p (p @ s)"
  by (simp add: starts_with_eq)

lemma read_ignored:
  "\<forall>a \<in> set attributes. ignored_attribute a \<Longrightarrow> fold read_field attributes (entries, Some e) = (entries, Some e)"
  by (induction attributes) (simp_all add: read_field_def ignored_attribute_def)

lemma read_record:
  assumes "entry_ok e" "\<forall>a \<in> set attributes. ignored_attribute a"
  shows "fold read_field (record_fields attributes e) (entries, None) = (entries @ [e], None)"
proof -
  let ?e = "\<lparr>gw_path = gw_path e, gw_branch = None, gw_bare = False, gw_prunable = False\<rparr>"
  have "read_field (WORKTREE_PREFIX @ path_string (gw_path e)) (entries, None) = (entries, Some ?e)"
    using assms(1) by (simp add: read_field_def finish_record_def entry_ok_def path_of_path_string WORKTREE_PREFIX_def)
  then show ?thesis using assms
    by (cases e; cases "gw_branch e")
      (simp_all add: record_fields_def read_ignored, simp_all add: read_field_def finish_record_def entry_ok_def
        WORKTREE_PREFIX_def BRANCH_PREFIX_def)
qed

lemma read_records:
  assumes "\<forall>(attributes, e) \<in> set records. entry_ok e \<and> (\<forall>a \<in> set attributes. ignored_attribute a)"
  shows "fold read_field (concat (map (case_prod record_fields) records)) (entries, None) = (entries @ map snd records, None)"
  using assms by (induction records arbitrary: entries) (auto simp: read_record)

lemma record_fields_plain:
  assumes "entry_ok e" "\<forall>a \<in> set attributes. ignored_attribute a"
  shows "\<forall>f \<in> set (record_fields attributes e). CHR 0x00 \<notin> set f"
  using assms by (auto simp: record_fields_def entry_ok_def ignored_attribute_def WORKTREE_PREFIX_def BRANCH_PREFIX_def
      split: option.splits)

lemma porcelain_parsed:
  assumes "\<forall>(attributes, e) \<in> set records. entry_ok e \<and> (\<forall>a \<in> set attributes. ignored_attribute a)"
  shows "parse_git_worktree_list (porcelain records) = map snd records"
proof -
  have "\<forall>f \<in> set (concat (map (case_prod record_fields) records)). CHR 0x00 \<notin> set f"
    using assms record_fields_plain by fastforce
  from split_fields [OF this] show ?thesis using read_records [OF assms, of "[]"]
    by (simp add: parse_git_worktree_list_def porcelain_def read_field_def finish_record_def)
qed

text \<open>
  Whatever is read, the listed paths are directories that are there, in order and without
  repetition; bare and prunable worktrees are not among them.
\<close>

lemma available_fold:
  assumes "fold_action (available_worktree sy) es paths w = (Inr paths', w')"
  shows "w' = w \<and> (\<forall>p. p \<in> set paths' \<longleftrightarrow> p \<in> set paths \<or> (\<exists>e \<in> set es. \<not> gw_bare e \<and> \<not> gw_prunable e
      \<and> is_absolute (gw_path e) \<and> sy_weakly_canonical sy (gw_path e) w = Some p \<and> sy_exists sy p w = Some True
      \<and> sy_is_directory sy p w = Some True))"
  using assms
proof (induction es arbitrary: paths)
  case (Cons e es)
  from Cons.prems obtain mid w1 where e: "available_worktree sy e paths w = (Inr mid, w1)"
    and rest: "fold_action (available_worktree sy) es mid w1 = (Inr paths', w')" by (auto simp: bind_Inr)
  have w1: "w1 = w" and mid: "mid = paths @ (if \<exists>p. \<not> gw_bare e \<and> \<not> gw_prunable e
      \<and> is_absolute (gw_path e) \<and> sy_weakly_canonical sy (gw_path e) w = Some p \<and> sy_exists sy p w = Some True
      \<and> sy_is_directory sy p w = Some True then [the (sy_weakly_canonical sy (gw_path e) w)] else [])"
    using e by (auto simp: available_worktree_def normalized_worktree_path_def bind_Inr run_simps checked_run result_simps
        split: if_splits)
  show ?case using Cons.IH [OF rest [unfolded w1]] unfolding mid by auto
qed (simp add: run_simps)

lemma sorted_distinct_adj: "sorted xs \<Longrightarrow> distinct_adj xs \<Longrightarrow> distinct (xs :: path list)"
proof (induction xs)
  case (Cons x xs)
  then have "x \<noteq> y" if "y \<in> set xs" for y
    using that by (cases xs) (auto simp: distinct_adj_Cons)
  then show ?case using Cons by (auto simp: distinct_adj_Cons)
qed simp

lemma available_paths_correct:
  assumes "available_git_worktree_paths sy output w = (Inr paths, w')"
  shows "w' = w" "sorted paths" "distinct paths"
    "p \<in> set paths \<longleftrightarrow> (\<exists>e \<in> set (parse_git_worktree_list output). \<not> gw_bare e \<and> \<not> gw_prunable e
      \<and> is_absolute (gw_path e) \<and> sy_weakly_canonical sy (gw_path e) w = Some p \<and> sy_exists sy p w = Some True
      \<and> sy_is_directory sy p w = Some True)"
proof -
  from assms obtain found w1 where f: "fold_action (available_worktree sy) (parse_git_worktree_list output) [] w = (Inr found, w1)"
    and paths: "paths = remdups_adj (sort found)" and w1: "w1 = w'" by (auto simp: available_git_worktree_paths_def bind_Inr run_simps)
  from available_fold [OF f] show "w' = w" "p \<in> set paths \<longleftrightarrow> (\<exists>e \<in> set (parse_git_worktree_list output). \<not> gw_bare e \<and> \<not> gw_prunable e
      \<and> is_absolute (gw_path e) \<and> sy_weakly_canonical sy (gw_path e) w = Some p \<and> sy_exists sy p w = Some True
      \<and> sy_is_directory sy p w = Some True)" unfolding paths w1 [symmetric] by auto
  show "sorted paths" "distinct paths" unfolding paths by (simp_all add: sorted_remdups_adj sorted_distinct_adj)
qed

end
