(* ===== verification/Worktree_Remover.thy ===== *)
theory Worktree_Remover
  imports Registry_Store Git_Worktree_List
begin

text \<open>
  Which tracked worktrees can be entered (src/src/parent/worktree/worktree_candidate_finder.cc)
  and the removal of one (src/src/parent/worktree/removal/worktree_remover.cc): Git removes the
  worktree and its branch, then the registry forgets it.
\<close>

section \<open>Git's list of worktrees\<close>

definition worktree_list_command :: "string \<Rightarrow> path \<Rightarrow> string list" where
  "worktree_list_command git bare = [git, ''--git-dir'', path_string bare, ''worktree'', ''list'', ''--porcelain'', ''-z'']"

section \<open>Candidates\<close>

definition is_existing_directory :: "'w system \<Rightarrow> path \<Rightarrow> 'w \<Rightarrow> bool" where
  "is_existing_directory sy p w \<longleftrightarrow> sy_is_directory sy p w = Some True"

definition candidate_has_marker :: "'w system \<Rightarrow> path \<Rightarrow> 'w \<Rightarrow> bool" where
  "candidate_has_marker sy p w \<longleftrightarrow> sy_exists sy (path_append p ''.git'') w = Some True"

text \<open>\<open>set::insert\<close> into a sorted list of paths.\<close>

definition path_set_insert :: "path \<Rightarrow> path list \<Rightarrow> path list" where
  "path_set_insert p ps = (if p \<in> set ps then ps else insort p ps)"

definition repository_candidates :: "'w system \<Rightarrow> string \<Rightarrow> repository \<Rightarrow> path list \<Rightarrow> ('w, path list) action" where
  "repository_candidates sy git r candidates =
     (let root = path_of_string (rp_root r); bare = path_append root ''.bare'' in
      bind (query (\<lambda>w. is_existing_directory sy root w \<and> is_existing_directory sy bare w)) (\<lambda>present.
      if \<not> present then return candidates
      else
        bind (run_command sy (worktree_list_command git bare)) (\<lambda>(exit, output).
        if exit \<noteq> 0 then return candidates
        else
          bind (available_git_worktree_paths sy output) (\<lambda>live.
          query (\<lambda>w. fold (\<lambda>t candidates.
            if path_of_string t \<in> set live \<and> candidate_has_marker sy (path_of_string t) w
            then path_set_insert (path_of_string t) candidates else candidates) (rp_worktrees r) candidates)))))"

definition find_available :: "'w system \<Rightarrow> string \<Rightarrow> path \<Rightarrow> ('w, path list) action" where
  "find_available sy git registry_path =
     bind (guard (git \<noteq> []) (Invalid_argument ''git executable must not be empty'')) (\<lambda>_.
     bind (registry_store sy registry_path) (\<lambda>store.
     bind (registry_load sy store) (\<lambda>g.
     fold_action (repository_candidates sy git) (wr_repositories g) [])))"

section \<open>Removal\<close>

record removal_request =
  rr_registry :: path
  rr_worktree :: path
  rr_protected :: path

definition normalized_path :: "'w system \<Rightarrow> path \<Rightarrow> string \<Rightarrow> ('w, path) action" where
  "normalized_path sy p description =
     bind (guard (is_absolute p) (Invalid_argument (description @ '' must be an absolute path''))) (\<lambda>_.
     checked (Invalid_argument (''failed to normalize '' @ description @ '': '' @ path_string p)) (sy_weakly_canonical sy p))"

fun position :: "('a \<Rightarrow> bool) \<Rightarrow> 'a list \<Rightarrow> nat option" where
  "position P [] = None"
| "position P (x # xs) = (if P x then Some 0 else map_option Suc (position P xs))"

record tracked_worktree =
  tw_repository :: nat
  tw_worktree :: nat
  tw_root :: path

fun find_tracked :: "nat \<Rightarrow> repository list \<Rightarrow> string \<Rightarrow> tracked_worktree option" where
  "find_tracked i [] s = None"
| "find_tracked i (r # rs) s = (case position ((=) s) (rp_worktrees r) of
     Some j \<Rightarrow> Some \<lparr>tw_repository = i, tw_worktree = j, tw_root = path_of_string (rp_root r)\<rparr>
   | None \<Rightarrow> find_tracked (i + 1) rs s)"

definition find_tracked_worktree :: "registry \<Rightarrow> path \<Rightarrow> tracked_worktree result" where
  "find_tracked_worktree g p =
     require (Invalid_argument (''Worktree is not tracked: '' @ path_string p)) (find_tracked 0 (wr_repositories g) (path_string p))"

fun find_entry :: "'w system \<Rightarrow> path \<Rightarrow> git_worktree list \<Rightarrow> ('w, git_worktree option) action" where
  "find_entry sy worktree [] = return None"
| "find_entry sy worktree (e # es) =
     bind (normalized_path sy (gw_path e) ''Git worktree path'') (\<lambda>p.
     if p = worktree then return (Some e) else find_entry sy worktree es)"

definition find_git_worktree :: "'w system \<Rightarrow> string \<Rightarrow> path \<Rightarrow> path \<Rightarrow> ('w, git_worktree option) action" where
  "find_git_worktree sy git bare worktree =
     bind (run_command sy (worktree_list_command git bare)) (\<lambda>(exit, output).
     bind (guard (exit = 0) (Runtime_error (''git worktree list failed with exit code '' @ to_string exit))) (\<lambda>_.
     find_entry sy worktree (parse_git_worktree_list output)))"

definition prune_missing :: "'w system \<Rightarrow> string \<Rightarrow> path \<Rightarrow> path \<Rightarrow> int \<Rightarrow> ('w, unit) action" where
  "prune_missing sy git bare worktree remove_status =
     bind (path_exists sy ''inspect worktree path'' worktree) (\<lambda>exists.
     bind (guard (\<not> exists) (Runtime_error (''git worktree remove failed with exit code '' @ to_string remove_status))) (\<lambda>_.
     bind (run_command sy [git, ''--git-dir'', path_string bare, ''worktree'', ''prune'', ''--expire'', ''now'']) (\<lambda>(prune_status, _).
     if prune_status \<noteq> 0 then throw (Runtime_error ''git worktree purge failed for missing worktree'')
     else
       bind (find_git_worktree sy git bare worktree) (\<lambda>found.
       guard (found = None) (Runtime_error ''git worktree purge failed for missing worktree'')))))"

definition delete_branch :: "'w system \<Rightarrow> string \<Rightarrow> path \<Rightarrow> string option \<Rightarrow> ('w, unit) action" where
  "delete_branch sy git bare branch = (case branch of
     None \<Rightarrow> return ()
   | Some b \<Rightarrow>
       bind (run_command sy [git, ''--git-dir'', path_string bare, ''branch'', ''--delete'', ''--force'', ''--'', b]) (\<lambda>(exit, _).
       guard (exit = 0) (Runtime_error (''worktree was purged but git branch delete failed with exit code '' @ to_string exit))))"

definition purge_git_worktree :: "'w system \<Rightarrow> string \<Rightarrow> path \<Rightarrow> path \<Rightarrow> ('w, bool) action" where
  "purge_git_worktree sy git bare worktree =
     bind (find_git_worktree sy git bare worktree) (\<lambda>found.
     case found of
       None \<Rightarrow> return False
     | Some e \<Rightarrow>
         bind (run_command sy [git, ''--git-dir'', path_string bare, ''worktree'', ''remove'', ''--force'', ''--force'',
             path_string worktree]) (\<lambda>(remove_status, _).
         bind (if remove_status = 0 then return () else prune_missing sy git bare worktree remove_status) (\<lambda>_.
         bind (delete_branch sy git bare (gw_branch e)) (\<lambda>_. return True))))"

text \<open>The registry without one worktree.\<close>

definition without_worktree :: "tracked_worktree \<Rightarrow> registry \<Rightarrow> registry" where
  "without_worktree t g =
     (let r = wr_repositories g ! tw_repository t; ws = rp_worktrees r in
      g\<lparr>wr_repositories := (wr_repositories g)[tw_repository t :=
        r\<lparr>rp_worktrees := take (tw_worktree t) ws @ drop (tw_worktree t + 1) ws\<rparr>]\<rparr>)"

definition prepare_removal :: "'w system \<Rightarrow> string \<Rightarrow> removal_request \<Rightarrow> ('w, path \<times> registry \<times> bool) action" where
  "prepare_removal sy git request' =
     bind (guard (git \<noteq> []) (Invalid_argument ''Git executable must not be empty'')) (\<lambda>_.
     bind (normalized_path sy (rr_worktree request') ''worktree path'') (\<lambda>worktree.
     bind (normalized_path sy (rr_protected request') ''protected worktree path'') (\<lambda>protected.
     bind (guard (worktree \<noteq> protected)
       (Runtime_error (''protected worktree runs my-opiniated-editor and cannot be removed: '' @ path_string worktree))) (\<lambda>_.
     bind (registry_store sy (rr_registry request')) (\<lambda>store.
     bind (registry_load sy store) (\<lambda>g.
     bind (lift (find_tracked_worktree g worktree)) (\<lambda>t.
     let bare = path_append (tw_root t) ''.bare'' in
     bind (path_exists sy ''inspect worktree path'' bare) (\<lambda>exists.
     bind (if exists then purge_git_worktree sy git bare worktree else return False) (\<lambda>owned.
     return (store, without_worktree t g, owned))))))))))"

definition remove_worktree :: "'w system \<Rightarrow> string \<Rightarrow> removal_request \<Rightarrow> ('w, unit) action" where
  "remove_worktree sy git request' =
     bind (prepare_removal sy git request') (\<lambda>(store, g, owned).
     explained owned ''worktree was purged but registry update failed: '' (registry_save sy store g))"

end
