(* ===== verification/Worktree_Provisioner.thy ===== *)
theory Worktree_Provisioner
  imports Registry_Store
begin

text \<open>
  Creating or adopting a worktree (src/src/parent/worktree/provision/worktree_provisioner.cc): the
  names of branches, the path derived from one, the checks on the path, and the commands that
  are run before the registry tracks the worktree.
\<close>

section \<open>Names of branches\<close>

definition FORBIDDEN :: string where
  "FORBIDDEN = '' ~^:?*['' @ [CHR 0x5C]"

definition invalid_branch :: cpp_error where
  "invalid_branch = Invalid_argument ''Branch is not a valid Git branch name''"

definition forbidden_byte :: "char \<Rightarrow> bool" where
  "forbidden_byte c \<longleftrightarrow> (of_char c :: nat) < 0x20 \<or> c = CHR 0x7F \<or> c \<in> set FORBIDDEN"

definition component_ok :: "string \<Rightarrow> bool" where
  "component_ok component \<longleftrightarrow> component \<noteq> [] \<and> hd component \<noteq> CHR ''.'' \<and> last component \<noteq> CHR ''.''
     \<and> \<not> ends_with ''.lock'' component"

text \<open>The loop over the bytes, with the component read so far.\<close>

fun check_components :: "string \<Rightarrow> string \<Rightarrow> bool" where
  "check_components component [] = component_ok component"
| "check_components component (c # cs) =
     (\<not> forbidden_byte c \<and>
      (if c = CHR ''/'' then component_ok component \<and> check_components [] cs
       else check_components (component @ [c]) cs))"

definition validate_branch :: "string \<Rightarrow> unit result" where
  "validate_branch branch =
     throw_if (branch = []) (Invalid_argument ''Branch must not be empty'')
       (throw_if (branch = ''@'' \<or> hd branch = CHR ''/'' \<or> last branch = CHR ''/'' \<or> contains branch ''//''
            \<or> contains branch ''..'' \<or> contains branch [CHR ''@'', CHR ''{'']) invalid_branch
         (throw_if (\<not> check_components [] branch) invalid_branch (Inr ())))"

section \<open>Paths below a directory\<close>

text \<open>
  \<open>lexically_relative\<close> on normal absolute paths: what is left of both after their common elements,
  the ancestor's as a number of steps up.
\<close>

fun mismatch :: "'a list \<Rightarrow> 'a list \<Rightarrow> 'a list \<times> 'a list" where
  "mismatch (x # xs) (y # ys) = (if x = y then mismatch xs ys else (x # xs, y # ys))"
| "mismatch xs ys = (xs, ys)"

definition steps_up :: "path \<Rightarrow> int" where
  "steps_up b = sum_list (map (\<lambda>e. if e = ''..'' then - 1 else if e \<noteq> [] \<and> e \<noteq> ''.'' then 1 else 0) b)"

definition lexically_relative :: "path \<Rightarrow> path \<Rightarrow> path" where
  "lexically_relative p base =
     (if is_absolute p \<noteq> is_absolute base then []
      else case mismatch p base of (a, b) \<Rightarrow>
        if a = [] \<and> b = [] then [''.'']
        else if steps_up b < 0 then []
        else if steps_up b = 0 \<and> (a = [] \<or> hd a = []) then [''.'']
        else replicate (nat (steps_up b)) ''..'' @ a)"

definition is_strict_descendant :: "path \<Rightarrow> path \<Rightarrow> bool" where
  "is_strict_descendant p ancestor \<longleftrightarrow>
     (let relative = lexically_relative p ancestor in
      relative \<noteq> [] \<and> relative \<noteq> [''.''] \<and> list_all (\<lambda>component. component \<noteq> ''..'') relative)"

section \<open>The checks\<close>

definition resolve_path :: "'w system \<Rightarrow> path \<Rightarrow> string \<Rightarrow> ('w, path) action" where
  "resolve_path sy p description =
     bind (guard (is_absolute p) (Invalid_argument (description @ '' must be an absolute path''))) (\<lambda>_.
     checked (Invalid_argument (''failed to resolve '' @ description @ '': '' @ path_string p)) (sy_weakly_canonical sy p))"

definition derived_worktree_path :: "'w system \<Rightarrow> path \<Rightarrow> string \<Rightarrow> ('w, path) action" where
  "derived_worktree_path sy repository_root branch =
     bind (lift (validate_branch branch)) (\<lambda>_.
     bind (resolve_path sy repository_root ''repository root'') (\<lambda>root.
     return (path_append root (map (\<lambda>c. if c = CHR ''/'' then CHR ''-'' else c) branch))))"

record provision_request =
  pv_root :: path
  pv_branch :: string
  pv_worktree :: path
  pv_registry :: path

datatype provision_kind = Provision_ADOPTED | Provision_CREATED

record provision_result =
  vr_worktree :: path
  vr_kind :: provision_kind

definition validated_worktree_path :: "'w system \<Rightarrow> provision_request \<Rightarrow> path \<Rightarrow> ('w, path) action" where
  "validated_worktree_path sy request' root =
     bind (resolve_path sy (pv_worktree request') ''worktree path'') (\<lambda>p.
     bind (guard (is_strict_descendant p root \<and> \<not> is_strict_descendant p (path_append root ''.bare'')
         \<and> p \<noteq> path_append root ''.bare'') (Invalid_argument ''Worktree path must be below the repository root'')) (\<lambda>_.
     return p))"

definition read_text :: "'w system \<Rightarrow> path \<Rightarrow> string \<Rightarrow> ('w, string) action" where
  "read_text sy p description =
     bind (checked (Invalid_argument (''failed to read '' @ description @ '': '' @ path_string p)) (sy_read_file sy p)) (\<lambda>contents.
     lift (require (Invalid_argument (''failed to read '' @ description @ '': '' @ path_string p)) contents))"

definition validate_existing_worktree :: "'w system \<Rightarrow> path \<Rightarrow> path \<Rightarrow> string \<Rightarrow> ('w, unit) action" where
  "validate_existing_worktree sy worktree root branch =
     bind (query (sy_is_directory sy worktree)) (\<lambda>directory.
     bind (guard (directory = Some True) (Invalid_argument ''Existing worktree path must be a directory'')) (\<lambda>_.
     let pointer_path = path_append worktree ''.git'' in
     bind (query (sy_is_regular sy pointer_path)) (\<lambda>regular.
     bind (guard (regular = Some True) (Invalid_argument ''Existing worktree must contain a .git pointer file'')) (\<lambda>_.
     bind (read_text sy pointer_path ''worktree .git pointer'') (\<lambda>contents.
     let pointer = trim_ascii_whitespace contents in
     bind (guard (starts_with ''gitdir: '' pointer) (Invalid_argument ''Existing worktree has an invalid .git pointer'')) (\<lambda>_.
     let named = path_of_string (drop (length ''gitdir: '') pointer);
         absolute = (if is_absolute named then named else path_join worktree named) in
     bind (resolve_path sy absolute ''worktree administrative path'') (\<lambda>administrative.
     bind (resolve_path sy (path_append (path_append root ''.bare'') ''worktrees'')
         ''repository worktree administrative directory'') (\<lambda>administrative_root.
     bind (guard (is_strict_descendant administrative administrative_root)
         (Invalid_argument ''Existing worktree does not belong to the selected repository'')) (\<lambda>_.
     bind (read_text sy (path_append administrative ''HEAD'') ''worktree HEAD'') (\<lambda>head.
     guard (trim_ascii_whitespace head = ''ref: refs/heads/'' @ branch)
       (Invalid_argument ''Existing worktree branch does not match the entered branch'')))))))))))"

section \<open>The registry\<close>

text \<open>The worktree is added to the first repository with the root.\<close>

fun add_worktree :: "string \<Rightarrow> string \<Rightarrow> repository list \<Rightarrow> repository list" where
  "add_worktree root worktree [] = []"
| "add_worktree root worktree (r # rs) =
     (if rp_root r = root then r\<lparr>rp_worktrees := rp_worktrees r @ [worktree]\<rparr> # rs else r # add_worktree root worktree rs)"

definition registered_repository :: "registry \<Rightarrow> string \<Rightarrow> unit result" where
  "registered_repository g root =
     throw_if (\<not> list_ex (\<lambda>r. rp_root r = root) (wr_repositories g))
       (Invalid_argument ''Selected repository is not registered'') (Inr ())"

definition register_worktree :: "string \<Rightarrow> string \<Rightarrow> registry \<Rightarrow> registry result" where
  "register_worktree root worktree g =
     (case find (\<lambda>r. worktree \<in> set (rp_worktrees r)) (wr_repositories g) of
        Some entry \<Rightarrow>
          throw_if (rp_root entry \<noteq> root) (Invalid_argument ''Worktree is already registered to another repository'') (Inr g)
      | None \<Rightarrow> Inr (g\<lparr>wr_repositories := add_worktree root worktree (wr_repositories g)\<rparr>))"

section \<open>Commands\<close>

definition git_command :: "string \<Rightarrow> path \<Rightarrow> string list \<Rightarrow> string list" where
  "git_command git bare arguments = [git, ''--git-dir'', path_string bare] @ arguments"

definition verify_commit :: "'w system \<Rightarrow> string \<Rightarrow> path \<Rightarrow> string \<Rightarrow> ('w, int \<times> string) action" where
  "verify_commit sy git bare reference =
     run_command sy (git_command git bare [''rev-parse'', ''--verify'', ''--quiet'', reference @ ''^{commit}''])"

definition resolves_to_commit :: "'w system \<Rightarrow> string \<Rightarrow> path \<Rightarrow> string \<Rightarrow> ('w, bool) action" where
  "resolves_to_commit sy git bare reference =
     bind (verify_commit sy git bare reference) (\<lambda>(exit, output). return (exit = 0 \<and> trim_ascii_whitespace output \<noteq> []))"

definition resolve_default_branch :: "'w system \<Rightarrow> string \<Rightarrow> path \<Rightarrow> ('w, string) action" where
  "resolve_default_branch sy git bare =
     bind (run_command sy (git_command git bare [''symbolic-ref'', ''--quiet'', ''HEAD''])) (\<lambda>(exit, output).
     bind (guard (exit = 0)
       (Runtime_error (''resolve repository default branch failed with exit code '' @ to_string exit))) (\<lambda>_.
     let reference = trim_ascii_whitespace output in
     bind (guard (starts_with ''refs/heads/'' reference \<and> length reference \<noteq> length ''refs/heads/'')
       (Runtime_error ''repository does not expose a default branch'')) (\<lambda>_.
     bind (verify_commit sy git bare reference) (\<lambda>(commit, name).
     bind (guard (commit = 0 \<and> trim_ascii_whitespace name \<noteq> [])
       (Runtime_error ''repository default branch does not resolve to a commit'')) (\<lambda>_.
     return (drop (length ''refs/heads/'') reference))))))"

text \<open>The arguments of \<open>git worktree add\<close>, from the local branch, the remote one or the default one.\<close>

definition creation_arguments :: "'w system \<Rightarrow> string \<Rightarrow> path \<Rightarrow> string \<Rightarrow> path \<Rightarrow> ('w, string list) action" where
  "creation_arguments sy git bare branch worktree =
     (let remote_reference = ''refs/remotes/origin/'' @ branch in
     bind (sy_print sy (''Fetching origin branch '' @ branch @ ''...'' @ [CHR 0x0A])) (\<lambda>_.
     bind (run_command sy (git_command git bare [''fetch'', ''origin'',
         ''+refs/heads/'' @ branch @ '':'' @ remote_reference])) (\<lambda>(fetched, _).
     bind (if fetched = 0 then return ()
         else sy_print sy (''Origin branch was not fetched; checking local refs...'' @ [CHR 0x0A])) (\<lambda>_.
     bind (resolves_to_commit sy git bare (''refs/heads/'' @ branch)) (\<lambda>local.
     if local then
       bind (sy_print sy (''Checking out existing branch '' @ branch @ ''...'' @ [CHR 0x0A])) (\<lambda>_.
       return [path_string worktree, branch])
     else
       bind (resolves_to_commit sy git bare remote_reference) (\<lambda>remote.
       if remote then
         bind (sy_print sy (''Creating tracking worktree for origin/'' @ branch @ ''...'' @ [CHR 0x0A])) (\<lambda>_.
         return [''--track'', ''-b'', branch, path_string worktree, ''origin/'' @ branch])
       else
         bind (resolve_default_branch sy git bare) (\<lambda>default_branch.
         bind (sy_print sy (''Creating worktree from '' @ default_branch @ ''...'' @ [CHR 0x0A])) (\<lambda>_.
         return [''-b'', branch, path_string worktree, default_branch]))))))))"

definition create_worktree :: "'w system \<Rightarrow> string \<Rightarrow> path \<Rightarrow> string \<Rightarrow> path \<Rightarrow> ('w, unit) action" where
  "create_worktree sy git bare branch worktree =
     bind (creation_arguments sy git bare branch worktree) (\<lambda>arguments.
     bind (run_command sy (git_command git bare ([''worktree'', ''add''] @ arguments))) (\<lambda>(exit, _).
     bind (guard (exit = 0) (Runtime_error (''git worktree add failed with exit code '' @ to_string exit))) (\<lambda>_.
     bind (query (\<lambda>w. sy_is_directory sy worktree w = Some True \<and> sy_exists sy (path_append worktree ''.git'') w = Some True)) (\<lambda>valid.
     guard valid (Runtime_error ''git worktree add succeeded without creating a valid worktree'')))))"

section \<open>Provisioning\<close>

text \<open>Everything before the worktree is adopted or created: the paths, and the registry to be saved.\<close>

definition prepare_provision :: "'w system \<Rightarrow> provision_request \<Rightarrow> ('w, path \<times> path \<times> path \<times> registry) action" where
  "prepare_provision sy request' =
     bind (lift (validate_branch (pv_branch request'))) (\<lambda>_.
     bind (resolve_path sy (pv_root request') ''repository root'') (\<lambda>root.
     bind (query (sy_is_directory sy (path_append root ''.bare''))) (\<lambda>bare_directory.
     bind (guard (bare_directory = Some True)
       (Invalid_argument ''Selected repository does not contain a .bare directory'')) (\<lambda>_.
     bind (validated_worktree_path sy request' root) (\<lambda>worktree.
     bind (registry_store sy (pv_registry request')) (\<lambda>store.
     bind (registry_load sy store) (\<lambda>g.
     bind (lift (registered_repository g (path_string root))) (\<lambda>_.
     bind (lift (register_worktree (path_string root) (path_string worktree) g)) (\<lambda>g'.
     return (root, worktree, store, g'))))))))))"

definition provision :: "'w system \<Rightarrow> string \<Rightarrow> provision_request \<Rightarrow> ('w, provision_result) action" where
  "provision sy git request' =
     bind (guard (git \<noteq> []) (Invalid_argument ''Git executable must not be empty'')) (\<lambda>_.
     bind (prepare_provision sy request') (\<lambda>(root, worktree, store, g).
     bind (path_exists sy ''inspect worktree path'' worktree) (\<lambda>exists.
     if exists then
       bind (validate_existing_worktree sy worktree root (pv_branch request')) (\<lambda>_.
       bind (registry_save sy store g) (\<lambda>_.
       bind (sy_print sy (''Worktree registered: '' @ path_string worktree @ [CHR 0x0A])) (\<lambda>_.
       return \<lparr>vr_worktree = worktree, vr_kind = Provision_ADOPTED\<rparr>)))
     else
       bind (create_worktree sy git (path_append root ''.bare'') (pv_branch request') worktree) (\<lambda>_.
       bind (explained True ''worktree was created but registry update failed: '' (registry_save sy store g)) (\<lambda>_.
       bind (sy_print sy (''Worktree created: '' @ path_string worktree @ [CHR 0x0A])) (\<lambda>_.
       return \<lparr>vr_worktree = worktree, vr_kind = Provision_CREATED\<rparr>))))))"

end
