(* ===== verification/Worktree_Registrar.thy ===== *)
theory Worktree_Registrar
  imports Worktree_Remover Worktree_Provisioner
begin

text \<open>
  Registering a repository
  (src/src/parent/worktree/registration/worktree_repository_registrar.cc): what a repository root
  may be, cloning into an empty one, the checks on the bare repository, and the worktrees Git
  knows. And the two helper commands of the parent executable
  (src/src/parent/worktree/worktree_helper_commands.cc) that register and provision.
\<close>

section \<open>Repository roots\<close>

definition GIT_POINTER_CONTENT :: string where "GIT_POINTER_CONTENT = ''gitdir: ./.bare''"
definition REMOTE_FETCH_REFSPEC :: string where "REMOTE_FETCH_REFSPEC = ''+refs/heads/*:refs/remotes/origin/*''"

definition require_success :: "int \<Rightarrow> string \<Rightarrow> ('w, unit) action" where
  "require_success exit action_name =
     guard (exit = 0) (Runtime_error (action_name @ '' failed with exit code '' @ to_string exit))"

definition registrar_path :: "'w system \<Rightarrow> path \<Rightarrow> string \<Rightarrow> ('w, path) action" where
  "registrar_path sy p description =
     bind (guard (is_absolute p) (Invalid_argument (description @ '' must be an absolute path''))) (\<lambda>_.
     bind (checked (Invalid_argument (''failed to normalize '' @ description @ '': '' @ path_string p))
       (sy_weakly_canonical sy p)) (\<lambda>normalized.
     return (without_trailing normalized)))"

definition directory_is_empty :: "'w system \<Rightarrow> path \<Rightarrow> ('w, bool) action" where
  "directory_is_empty sy p = checked (filesystem_error sy ''inspect repository root'' p) (sy_is_empty sy p)"

text \<open>Reading stops silently when the file cannot be read to its end; then nothing is taken to be read.\<close>

definition read_git_pointer :: "'w system \<Rightarrow> path \<Rightarrow> ('w, string) action" where
  "read_git_pointer sy p =
     bind (checked (Runtime_error (''failed to read repository .git pointer: '' @ path_string p)) (sy_read_file sy p)) (\<lambda>contents.
     return (case contents of None \<Rightarrow> [] | Some bytes \<Rightarrow> bytes))"

definition write_git_pointer :: "'w system \<Rightarrow> path \<Rightarrow> ('w, unit) action" where
  "write_git_pointer sy root =
     bind (sy_write_file sy (path_append root ''.git'') (GIT_POINTER_CONTENT @ [CHR 0x0A])) (\<lambda>written.
     guard written (Runtime_error (''failed to write repository .git pointer: '' @ path_string (path_append root ''.git''))))"

definition inspect_repository_root :: "'w system \<Rightarrow> path \<Rightarrow> ('w, repository_root_state) action" where
  "inspect_repository_root sy repository_root =
     bind (registrar_path sy repository_root ''repository root'') (\<lambda>root.
     bind (checked (filesystem_error sy ''inspect repository root'' root) (sy_exists sy root)) (\<lambda>exists.
     if \<not> exists then return Root_EMPTY
     else
       bind (query (sy_is_directory sy root)) (\<lambda>directory.
       bind (guard (directory = Some True)
         (Invalid_argument (''repository root must be a directory: '' @ path_string root))) (\<lambda>_.
       bind (directory_is_empty sy root) (\<lambda>empty.
       if empty then return Root_EMPTY
       else
         bind (query (sy_is_directory sy (path_append root ''.bare''))) (\<lambda>bare.
         bind (guard (bare = Some True)
           (Invalid_argument (''repository root must be empty or contain a .bare directory: '' @ path_string root))) (\<lambda>_.
         let pointer_path = path_append root ''.git'' in
         bind (checked (filesystem_error sy ''inspect repository .git pointer'' pointer_path) (sy_exists sy pointer_path)) (\<lambda>pointer.
         if \<not> pointer then return Root_RECOVERABLE_BARE_ROOT
         else
           bind (query (sy_is_regular sy pointer_path)) (\<lambda>regular.
           bind (if regular = Some True then bind (read_git_pointer sy pointer_path) (\<lambda>contents.
               return (trim_ascii_whitespace contents = GIT_POINTER_CONTENT)) else return False) (\<lambda>valid.
           bind (guard valid (Invalid_argument (''repository .git must point to ./.bare: '' @ path_string pointer_path))) (\<lambda>_.
           return Root_BARE_ROOT)))))))))))"

section \<open>The registry\<close>

text \<open>The worktrees of the repository, those it had and those discovered, once each and in order.\<close>

fun update_first :: "string \<Rightarrow> string list \<Rightarrow> repository list \<Rightarrow> repository list" where
  "update_first root worktrees [] = []"
| "update_first root worktrees (r # rs) =
     (if rp_root r = root then r\<lparr>rp_worktrees := sort (remdups (rp_worktrees r @ worktrees))\<rparr> # rs
      else r # update_first root worktrees rs)"

definition merge_repository :: "path \<Rightarrow> path list \<Rightarrow> registry \<Rightarrow> registry" where
  "merge_repository repository_root discovered g =
     (let root = path_string repository_root;
          rs = (if list_ex (\<lambda>r. rp_root r = root) (wr_repositories g) then wr_repositories g
                else wr_repositories g @ [\<lparr>rp_root = root, rp_worktrees = []\<rparr>]) in
      g\<lparr>wr_repositories := update_first root (map path_string discovered) rs\<rparr>)"

section \<open>Registration\<close>

record registration_request =
  rq_root :: path
  rq_clone_url :: "string option"
  rq_registry :: path

text \<open>An action whose errors are ignored.\<close>

definition ignoring :: "('w, 'a) action \<Rightarrow> ('w, unit) action" where
  "ignoring a = (\<lambda>w. (Inr (), snd (a w)))"

definition line :: "string \<Rightarrow> string" where
  "line s = s @ [CHR 0x0A]"

text \<open>Cloning a bare repository into the root, which is created when it is not there.\<close>

definition clone_repository :: "'w system \<Rightarrow> string \<Rightarrow> path \<Rightarrow> string option \<Rightarrow> ('w, unit) action" where
  "clone_repository sy git root clone_url =
     (let url = (case clone_url of None \<Rightarrow> [] | Some u \<Rightarrow> trim_ascii_whitespace u); bare = path_append root ''.bare'' in
      bind (guard (url \<noteq> []) (Invalid_argument ''clone URL is required for a new repository root'')) (\<lambda>_.
      bind (checked (filesystem_error sy ''status'' root) (sy_exists sy root)) (\<lambda>exists.
      bind (if exists then return ()
        else bind (sy_create_directories sy root) (\<lambda>created. guard created (filesystem_error sy ''create repository root'' root))) (\<lambda>_.
      bind (sy_print sy (line ''Cloning bare repository...'')) (\<lambda>_.
      bind (run_command sy [git, ''clone'', ''--bare'', url, path_string bare]) (\<lambda>(exit, _).
      if exit = 0 then return ()
      else
        bind (ignoring (sy_remove_all sy bare)) (\<lambda>_.
        bind (if exists then return () else ignoring (sy_remove sy root)) (\<lambda>_.
        throw (Runtime_error (''git clone --bare failed with exit code '' @ to_string exit))))))))))"

definition validate_bare_repository :: "'w system \<Rightarrow> string \<Rightarrow> path \<Rightarrow> ('w, unit) action" where
  "validate_bare_repository sy git bare =
     bind (run_command sy (git_command git bare [''rev-parse'', ''--is-bare-repository''])) (\<lambda>(exit, output).
     bind (require_success exit ''validate bare repository'') (\<lambda>_.
     guard (trim_ascii_whitespace output = ''true'') (Runtime_error ''repository .bare directory is not a bare Git repository'')))"

definition configure_remote :: "'w system \<Rightarrow> string \<Rightarrow> path \<Rightarrow> ('w, unit) action" where
  "configure_remote sy git bare =
     bind (sy_print sy (line ''Configuring remote branches...'')) (\<lambda>_.
     bind (run_command sy (git_command git bare [''config'', ''remote.origin.fetch'', REMOTE_FETCH_REFSPEC])) (\<lambda>(exit, _).
     bind (require_success exit ''configure remote fetch'') (\<lambda>_.
     bind (sy_print sy (line ''Fetching remote branches...'')) (\<lambda>_.
     bind (run_command sy (git_command git bare [''fetch'', ''origin''])) (\<lambda>(exit, _).
     require_success exit ''fetch remote branches'')))))"

definition check_default_branch :: "'w system \<Rightarrow> string \<Rightarrow> path \<Rightarrow> ('w, unit) action" where
  "check_default_branch sy git bare =
     bind (run_command sy (git_command git bare [''symbolic-ref'', ''--quiet'', ''HEAD''])) (\<lambda>(exit, output).
     bind (require_success exit ''resolve default branch'') (\<lambda>_.
     let reference = trim_ascii_whitespace output in
     bind (guard (starts_with ''refs/heads/'' reference) (Runtime_error ''repository does not expose a default branch'')) (\<lambda>_.
     bind (verify_commit sy git bare reference) (\<lambda>(exit, output).
     bind (require_success exit ''resolve default branch commit'') (\<lambda>_.
     guard (trim_ascii_whitespace output \<noteq> []) (Runtime_error ''repository default branch does not resolve to a commit''))))))"

definition discover_worktrees :: "'w system \<Rightarrow> string \<Rightarrow> path \<Rightarrow> ('w, path list) action" where
  "discover_worktrees sy git bare =
     bind (run_command sy (worktree_list_command git bare)) (\<lambda>(exit, output).
     bind (require_success exit ''list repository worktrees'') (\<lambda>_.
     available_git_worktree_paths sy output))"

definition prepare_repository :: "'w system \<Rightarrow> string \<Rightarrow> path \<Rightarrow> string option \<Rightarrow> ('w, bool \<times> path list) action" where
  "prepare_repository sy git root clone_url =
     (let bare = path_append root ''.bare'' in
      bind (inspect_repository_root sy root) (\<lambda>state.
      bind (if state = Root_EMPTY then clone_repository sy git root clone_url else return ()) (\<lambda>_.
      bind (if state \<noteq> Root_BARE_ROOT then write_git_pointer sy root else return ()) (\<lambda>_.
      bind (validate_bare_repository sy git bare) (\<lambda>_.
      bind (if state \<noteq> Root_BARE_ROOT then configure_remote sy git bare else return ()) (\<lambda>_.
      bind (check_default_branch sy git bare) (\<lambda>_.
      bind (discover_worktrees sy git bare) (\<lambda>discovered.
      return (state = Root_EMPTY, discovered)))))))))"

definition register_repository :: "'w system \<Rightarrow> string \<Rightarrow> registration_request \<Rightarrow> ('w, unit) action" where
  "register_repository sy git request' =
     bind (guard (git \<noteq> []) (Invalid_argument ''git executable must not be empty'')) (\<lambda>_.
     bind (registrar_path sy (rq_root request') ''repository root'') (\<lambda>root.
     bind (registry_store sy (rq_registry request')) (\<lambda>store.
     bind (registry_load sy store) (\<lambda>g.
     bind (prepare_repository sy git root (rq_clone_url request')) (\<lambda>(cloned, discovered).
     bind (explained cloned ''repository was created but registry update failed: ''
       (registry_save sy store (merge_repository root discovered g))) (\<lambda>_.
     sy_print sy (line (''Repository registered: '' @ path_string root))))))))"

section \<open>The helper commands\<close>

definition configured_git_executable :: "'w system \<Rightarrow> string" where
  "configured_git_executable sy = (case sy_environment sy ''MOE_GIT_EXECUTABLE'' of
     None \<Rightarrow> ''git'' | Some executable \<Rightarrow> if executable = [] then ''git'' else executable)"

definition attempted :: "'w system \<Rightarrow> string \<Rightarrow> ('w, 'a) action \<Rightarrow> ('w, int) action" where
  "attempted sy failure a =
     handle (bind a (\<lambda>_. return 0)) (\<lambda>m. bind (sy_print_error sy (line (failure @ m))) (\<lambda>_. return 1))"

definition run_registration_command :: "'w system \<Rightarrow> string list \<Rightarrow> ('w, int) action" where
  "run_registration_command sy arguments =
     (if length arguments \<noteq> 4 \<and> length arguments \<noteq> 5 then
        bind (sy_print_error sy (line ''usage: workspace_parent --register-worktree-repository <registry-path> <repository-root> [clone-url]''))
          (\<lambda>_. return 2)
      else attempted sy ''Repository registration failed: ''
        (register_repository sy (configured_git_executable sy)
          \<lparr>rq_root = path_of_string (arguments ! 3),
           rq_clone_url = (if length arguments = 5 then Some (arguments ! 4) else None),
           rq_registry = path_of_string (arguments ! 2)\<rparr>))"

definition run_provision_command :: "'w system \<Rightarrow> string list \<Rightarrow> ('w, int) action" where
  "run_provision_command sy arguments =
     (if length arguments \<noteq> 6 then
        bind (sy_print_error sy (line ''usage: workspace_parent --provision-worktree <registry-path> <repository-root> <branch> <worktree-path>''))
          (\<lambda>_. return 2)
      else attempted sy ''Worktree operation failed: ''
        (provision sy (configured_git_executable sy)
          \<lparr>pv_root = path_of_string (arguments ! 3), pv_branch = arguments ! 4,
           pv_worktree = path_of_string (arguments ! 5), pv_registry = path_of_string (arguments ! 2)\<rparr>))"

end
