(* ===== verification/Removal_Correct.thy ===== *)
theory Removal_Correct
  imports Worktree_Remover
begin

text \<open>
  What the removal of a worktree guarantees: the protected worktree and a worktree that is not
  tracked are left alone, the registry forgets exactly the removed worktree, and whatever fails,
  the registry stays readable.
\<close>

section \<open>The registry without a worktree\<close>

definition tracked_paths :: "registry \<Rightarrow> string list" where
  "tracked_paths g = concat (map rp_worktrees (wr_repositories g))"

lemma position_Some: "position P xs = Some i \<Longrightarrow> i < length xs \<and> P (xs ! i)"
  by (induction xs arbitrary: i) (auto split: if_splits)

lemma position_None: "position P xs = None \<longleftrightarrow> (\<forall>x \<in> set xs. \<not> P x)"
  by (induction xs) auto

lemma find_tracked_Some:
  "find_tracked i rs s = Some t \<Longrightarrow> \<exists>k < length rs. tw_repository t = i + k
     \<and> tw_worktree t < length (rp_worktrees (rs ! k)) \<and> rp_worktrees (rs ! k) ! tw_worktree t = s
     \<and> tw_root t = path_of_string (rp_root (rs ! k))"
proof (induction i rs s rule: find_tracked.induct)
  case (2 i r rs s)
  show ?case
  proof (cases "position ((=) s) (rp_worktrees r)")
    case None
    then obtain k where "k < length rs" "tw_repository t = i + 1 + k"
      "tw_worktree t < length (rp_worktrees (rs ! k))" "rp_worktrees (rs ! k) ! tw_worktree t = s"
      "tw_root t = path_of_string (rp_root (rs ! k))" using 2 by auto
    then show ?thesis by (intro exI [of _ "Suc k"]) simp
  next
    case (Some j)
    then show ?thesis using 2(2) position_Some [OF Some] by (intro exI [of _ 0]) auto
  qed
qed simp

lemma find_tracked_None: "find_tracked i rs s = None \<longleftrightarrow> s \<notin> set (concat (map rp_worktrees rs))"
  by (induction i rs s rule: find_tracked.induct) (auto simp: position_None split: option.splits dest!: position_Some)

lemma without_worktree_correct:
  assumes normal: "registry_normal g" and settled: "all_settled canonical g"
    and t: "find_tracked 0 (wr_repositories g) s = Some t"
  shows "registry_normal (without_worktree t g)" "all_settled canonical (without_worktree t g)"
    "map rp_root (wr_repositories (without_worktree t g)) = map rp_root (wr_repositories g)"
    "set (tracked_paths (without_worktree t g)) = set (tracked_paths g) - {s}"
proof -
  from find_tracked_Some [OF t] obtain k where k: "k < length (wr_repositories g)" "tw_repository t = k"
    and j: "tw_worktree t < length (rp_worktrees (wr_repositories g ! k))" "rp_worktrees (wr_repositories g ! k) ! tw_worktree t = s"
    by auto
  define r where "r = wr_repositories g ! k"
  define A B where "A = take k (wr_repositories g)" and "B = drop (Suc k) (wr_repositories g)"
  define u v where "u = take (tw_worktree t) (rp_worktrees r)" and "v = drop (Suc (tw_worktree t)) (rp_worktrees r)"
  have rs: "wr_repositories g = A @ r # B" using id_take_nth_drop [OF k(1)] by (simp add: A_def B_def r_def)
  have ws: "rp_worktrees r = u @ s # v" using id_take_nth_drop [OF j(1)] j(2) by (simp add: u_def v_def r_def)
  have g': "without_worktree t g = g\<lparr>wr_repositories := A @ r\<lparr>rp_worktrees := u @ v\<rparr> # B\<rparr>"
    using k upd_conv_take_nth_drop [OF k(1)] by (simp add: without_worktree_def Let_def A_def B_def u_def v_def r_def)
  show "registry_normal (without_worktree t g)"
    using normal unfolding registry_normal_def g' by (auto simp: rs ws sorted_append)
  show "all_settled canonical (without_worktree t g)"
    using settled unfolding all_settled_def g' by (auto simp: rs ws)
  show "map rp_root (wr_repositories (without_worktree t g)) = map rp_root (wr_repositories g)"
    unfolding g' by (simp add: rs)
  show "set (tracked_paths (without_worktree t g)) = set (tracked_paths g) - {s}"
    using normal unfolding registry_normal_def g' tracked_paths_def by (auto simp: rs ws)
qed

section \<open>What is left alone\<close>

lemma keeps_simple [intro]:
  "keeps sy P (return x)" "keeps sy P (throw e)" "keeps sy P (lift r)" "keeps sy P (query f)" "keeps sy P (guard c e)"
  "keeps sy P (checked e q)"
  by (auto intro!: keeps_still simp: action_simps)

lemma keeps_load [intro]: "keeps sy P (registry_load sy p)"
  by (intro keeps_still load_reads_only)

lemma keeps_if [intro]: "keeps sy P a \<Longrightarrow> keeps sy P b \<Longrightarrow> keeps sy P (if c then a else b)"
  by simp

lemma keeps_case_option [intro]:
  "keeps sy P a \<Longrightarrow> (\<And>x. keeps sy P (b x)) \<Longrightarrow> keeps sy P (case o' of None \<Rightarrow> a | Some x \<Rightarrow> b x)"
  by (simp split: option.split)

lemma keeps_case_prod [intro]: "(\<And>x y. keeps sy P (f x y)) \<Longrightarrow> keeps sy P (case z of (x, y) \<Rightarrow> f x y)"
  by (cases z) simp

lemma keeps_Let [intro]: "(\<And>x. keeps sy P (f x)) \<Longrightarrow> keeps sy P (let x = y in f x)"
  by simp

lemmas keeping = keeps_bind keeps_simple keeps_load keeps_if keeps_case_option keeps_case_prod keeps_Let

text \<open>The commands that are run change neither the file of the registry nor links.\<close>

definition commands_oblige :: "'w system \<Rightarrow> path \<Rightarrow> bool" where
  "commands_oblige sy store \<longleftrightarrow> (\<forall>command. keeps sy (\<lambda>p. p = store) (sy_run sy command))"

lemma run_keeps:
  assumes "commands_oblige sy store"
  shows "keeps sy (\<lambda>p. p = store) (run_command sy command)"
  using assms unfolding run_command_def commands_oblige_def by (intro keeping) blast

lemma find_entry_keeps: "keeps sy P (find_entry sy worktree es)"
  by (induction es) (auto simp: normalized_path_def intro!: keeping)

lemma find_git_keeps: "commands_oblige sy store \<Longrightarrow> keeps sy (\<lambda>p. p = store) (find_git_worktree sy git bare worktree)"
  unfolding find_git_worktree_def by (intro keeping run_keeps find_entry_keeps)

lemma purge_keeps: "commands_oblige sy store \<Longrightarrow> keeps sy (\<lambda>p. p = store) (purge_git_worktree sy git bare worktree)"
  unfolding purge_git_worktree_def prune_missing_def delete_branch_def path_exists_def
  by (intro keeping run_keeps find_git_keeps)

lemma prepare_removal_keeps:
  "commands_oblige sy store \<Longrightarrow> keeps sy (\<lambda>p. p = store) (prepare_removal sy git request')"
  unfolding prepare_removal_def normalized_path_def registry_store_def path_exists_def
  by (intro keeping purge_keeps)

section \<open>The outcome\<close>

lemma prepare_removal_result:
  assumes "prepare_removal sy git request' w = (Inr (store, g', owned), w1)"
  shows "\<exists>p g t. registry_store sy (rr_registry request') w = (Inr store, w)
     \<and> sy_weakly_canonical sy (rr_worktree request') w = Some p \<and> sy_weakly_canonical sy (rr_protected request') w \<noteq> Some p
     \<and> registry_load sy store w = (Inr g, w) \<and> find_tracked 0 (wr_repositories g) (path_string p) = Some t
     \<and> g' = without_worktree t g"
proof -
  have load: "registry_load sy s w' = (Inr x, w'') \<longleftrightarrow> fst (registry_load sy s w') = Inr x \<and> w'' = w'" for s w' x w''
    using load_reads_only [of sy s w'] by (cases "registry_load sy s w'") auto
  have store: "registry_store sy s w' = (Inr x, w'') \<longleftrightarrow> fst (registry_store sy s w') = Inr x \<and> w'' = w'" for s w' x w''
    by (auto simp: registry_store_def bind_Inr action_simps result_simps split: sum.splits option.splits)
  show ?thesis using assms
    unfolding prepare_removal_def normalized_path_def bind_Inr Let_def find_tracked_worktree_def
    by (auto simp: run_results result_simps load store path_exists_def)
qed

lemma load_normal:
  assumes c: "canonical_obliges (\<lambda>q. sy_weakly_canonical sy q w)" and r: "registry_load sy p w = (Inr g, w')"
  shows "registry_normal g" "all_settled (\<lambda>q. sy_weakly_canonical sy q w) g"
proof -
  let ?normalize = "normalize_registry (\<lambda>q. sy_weakly_canonical sy q w)"
  from r obtain exists where "(if \<not> exists then return empty_registry
      else bind (checked (Runtime_error (''failed to open worktree registry: '' @ path_string p)) (sy_read_file sy p)) (\<lambda>contents.
        bind (lift (require (Runtime_error (''failed to read worktree registry: '' @ path_string p)) contents)) (\<lambda>bytes.
        bind (lift (require (Runtime_error (''failed to parse worktree registry: '' @ path_string p)) (sy_parse sy bytes))) (\<lambda>parsed.
        \<lambda>w. (case normalize_registry (\<lambda>p. sy_weakly_canonical sy p w) parsed of
           Inl (Invalid_argument m) \<Rightarrow> (Inl (Runtime_error (''invalid worktree registry '' @ path_string p @ '': '' @ m)), w)
         | x \<Rightarrow> (x, w)))))) w = (Inr g, w')"
    unfolding registry_load_def bind_Inr [of "path_exists _ _ _"] by (auto simp: path_exists_def checked_run)
  then consider "g = empty_registry" | parsed where "(case ?normalize parsed of
      Inl (Invalid_argument m) \<Rightarrow> (Inl (Runtime_error (''invalid worktree registry '' @ path_string p @ '': '' @ m)), w)
    | x \<Rightarrow> (x, w)) = (Inr g, w')"
    by (auto simp: bind_Inr run_simps checked_run split: if_splits)
  then have "g = empty_registry \<or> (\<exists>parsed. ?normalize parsed = Inr g)"
  proof cases
    case (2 parsed)
    then show ?thesis by (cases "?normalize parsed") (auto split: cpp_error.splits)
  qed simp
  then show "registry_normal g" "all_settled (\<lambda>q. sy_weakly_canonical sy q w) g"
    using normalize_registry_result [OF c] by (auto simp: empty_registry_def registry_normal_def all_settled_def)
qed

text \<open>
  A removal that succeeds has found the worktree tracked and not the protected one, and the
  registry that is loaded afterwards has the same repositories and the same worktrees but that
  one; a removal that fails leaves the file of the registry as it was, or whole.
\<close>

lemma removal_correct:
  assumes sy: "store_obliges sy" and c: "canonical_obliges (\<lambda>q. sy_weakly_canonical sy q w)"
    and run: "commands_oblige sy store" and store: "registry_store sy (rr_registry request') w = (Inr store, w)"
    and p: "store \<noteq> []" "store \<noteq> root_directory" and r: "remove_worktree sy git request' w = (r, w')"
  shows "(r = Inr () \<longrightarrow> (\<exists>p g g'. sy_weakly_canonical sy (rr_worktree request') w = Some p
       \<and> sy_weakly_canonical sy (rr_protected request') w \<noteq> Some p
       \<and> registry_load sy store w = (Inr g, w) \<and> path_string p \<in> set (tracked_paths g)
       \<and> registry_load sy store w' = (Inr g', w') \<and> map rp_root (wr_repositories g') = map rp_root (wr_repositories g)
       \<and> set (tracked_paths g') = set (tracked_paths g) - {path_string p}))
     \<and> (\<forall>e. r = Inl e \<longrightarrow> file_at sy store w' = file_at sy store w
       \<or> (\<exists>g b. sy_serialize sy g = Some b \<and> file_at sy store w' = (Some True, Some (Some b))))"
proof -
  obtain prepared w1 where w1: "prepare_removal sy git request' w = (prepared, w1)" by fastforce
  have same: "file_at sy store w1 = file_at sy store w" "\<And>q. sy_weakly_canonical sy q w1 = sy_weakly_canonical sy q w"
    using keeps_result [OF prepare_removal_keeps [OF run] _ w1] by simp_all
  show ?thesis
  proof (cases prepared)
    case (Inl e)
    then have "r = Inl e" "w' = w1" using r w1 by (simp_all add: remove_worktree_def bind_run)
    then show ?thesis using same(1) by simp
  next
    case (Inr z)
    obtain s g' owned where z: "z = (s, g', owned)" by (cases z)
    from prepare_removal_result [OF w1 [unfolded Inr z]] store obtain wt g t where
      found: "s = store" "sy_weakly_canonical sy (rr_worktree request') w = Some wt"
      "sy_weakly_canonical sy (rr_protected request') w \<noteq> Some wt" "registry_load sy store w = (Inr g, w)"
      "find_tracked 0 (wr_repositories g) (path_string wt) = Some t" "g' = without_worktree t g" by auto
    note normal = load_normal [OF c found(4)]
    note g' = without_worktree_correct [OF normal found(5)]
    obtain saved w2 where saved: "registry_save sy store g' w1 = (saved, w2)" by fastforce
    have w': "w' = w2" "r = Inr () \<longleftrightarrow> saved = Inr ()"
      using r w1 Inr z found(1) saved by (auto simp: remove_worktree_def explained_def bind_run split: sum.splits if_splits option.splits)
    have fixed: "normalize_registry (\<lambda>q. sy_weakly_canonical sy q w1) g' = Inr g'"
      unfolding same(2) using normalize_registry_fixed g'(1,2) found(6) by blast
    show ?thesis
    proof (cases saved)
      case (Inl e)
      have "file_at sy store w2 = file_at sy store w1 \<or> (\<exists>g b. sy_serialize sy g = Some b \<and> file_at sy store w2 = (Some True, Some (Some b)))"
        using save_outcome(3) [OF sy p saved Inl] by blast
      then show ?thesis using w' same(1) Inl by simp
    next
      case (Inr u)
      then have s': "registry_save sy store g' w1 = (Inr (), w2)" using saved by simp
      have c1: "canonical_obliges (\<lambda>q. sy_weakly_canonical sy q w1)" using c unfolding same(2) .
      have "registry_load sy store w2 = (Inr g', w2)" using saved_is_loaded [OF sy c1 p s'] fixed by simp
      moreover have "path_string wt \<in> set (tracked_paths g)"
        using found(5) find_tracked_None [of 0 "wr_repositories g" "path_string wt"] by (simp add: tracked_paths_def)
      ultimately show ?thesis using found g'(3,4) w' Inr by auto
    qed
  qed
qed

text \<open>
  The protected worktree, and one that is not tracked, are left alone: no command is run and
  nothing is written.
\<close>

lemma removal_refused:
  assumes "sy_weakly_canonical sy (rr_worktree request') w = Some p"
    "sy_weakly_canonical sy (rr_protected request') w = Some p
     \<or> (\<forall>store g. registry_store sy (rr_registry request') w = (Inr store, w) \<longrightarrow>
          registry_load sy store w = (Inr g, w) \<longrightarrow> path_string p \<notin> set (tracked_paths g))"
  shows "\<exists>e. remove_worktree sy git request' w = (Inl e, w)"
proof -
  have load: "\<exists>x. registry_load sy s w = (x, w)" for s using load_reads_only [of sy s w] by (cases "registry_load sy s w") auto
  have store: "\<exists>x. registry_store sy s w = (x, w)" for s by (simp add: registry_store_def action_simps split: sum.split option.split)
  obtain st where st: "registry_store sy (rr_registry request') w = (st, w)" using store by blast
  have "\<exists>e. prepare_removal sy git request' w = (Inl e, w)"
  proof (cases st)
    case (Inl e)
    then show ?thesis using st
      by (cases "git = []"; cases "is_absolute (rr_worktree request')"; cases "is_absolute (rr_protected request')";
          cases "sy_weakly_canonical sy (rr_protected request') w")
        (simp_all add: prepare_removal_def normalized_path_def action_simps assms(1))
  next
    case (Inr s)
    obtain ld where ld: "registry_load sy s w = (ld, w)" using load by blast
    have "\<exists>e. bind (registry_load sy s) (\<lambda>g. bind (lift (find_tracked_worktree g p)) (rest g)) w = (Inl e, w)"
      if "sy_weakly_canonical sy (rr_protected request') w \<noteq> Some p"
      for rest :: "registry \<Rightarrow> tracked_worktree \<Rightarrow> ('a, path \<times> registry \<times> bool) action"
    proof (cases ld)
      case (Inl e)
      then show ?thesis using ld by (simp add: action_simps)
    next
      case (Inr g)
      then have "find_tracked 0 (wr_repositories g) (path_string p) = None"
        using assms(2) that st \<open>st = Inr s\<close> ld unfolding find_tracked_None tracked_paths_def by blast
      then show ?thesis using ld Inr by (simp add: action_simps find_tracked_worktree_def)
    qed
    then show ?thesis using st Inr
      by (cases "git = []"; cases "is_absolute (rr_worktree request')"; cases "is_absolute (rr_protected request')";
          cases "sy_weakly_canonical sy (rr_protected request') w"; cases "sy_weakly_canonical sy (rr_protected request') w = Some p")
        (simp_all add: prepare_removal_def normalized_path_def bind_run [of "guard _ _"] bind_run [of "checked _ _"]
          bind_run [of "\<lambda>w. bind _ _ w"] bind_run [of "registry_store _ _"] run_simps checked_run assms(1))
  qed
  then show ?thesis by (auto simp: remove_worktree_def bind_run)
qed

end
