(* ===== verification/Provision_Correct.thy ===== *)
theory Provision_Correct
  imports Worktree_Provisioner Removal_Correct
begin

text \<open>
  What provisioning guarantees: which branch names are accepted, that the path derived from one is
  always a child of the repository root, and what the registry tracks afterwards.
\<close>

section \<open>Names\<close>

lemma check_components_spec:
  "CHR ''/'' \<notin> set component \<Longrightarrow> check_components component s \<longleftrightarrow>
     list_all (\<lambda>c. \<not> forbidden_byte c) s
     \<and> (case split_at_char (CHR ''/'') s of p # ps \<Rightarrow> component_ok (component @ p) \<and> list_all component_ok ps)"
proof (induction component s rule: check_components.induct)
  case (2 component c cs)
  obtain p ps where split: "split_at_char (CHR ''/'') cs = p # ps"
    using split_at_char_nonempty by (metis neq_Nil_conv)
  show ?case using 2 by (auto simp: split)
qed simp

lemma split_head: "s \<noteq> [] \<Longrightarrow> hd s = c \<Longrightarrow> hd (split_at_char c s) = []"
  by (cases s) simp_all

lemma split_snoc: "split_at_char c (s @ [c]) = split_at_char c s @ [[]]"
proof (induction s)
  case (Cons d s)
  obtain p ps where "split_at_char c s = p # ps" using split_at_char_nonempty by (metis neq_Nil_conv)
  then show ?case using Cons by simp
qed simp

lemma split_last: "s \<noteq> [] \<Longrightarrow> last s = c \<Longrightarrow> last (split_at_char c s) = []"
  using split_snoc [of c "butlast s"] append_butlast_last_id [of s] by simp

lemma split_double: "contains s [c, c] \<Longrightarrow> [] \<in> set (tl (split_at_char c s))"
proof (induction c s rule: split_at_char.induct)
  case (2 c d ds)
  obtain p ps where split: "split_at_char c ds = p # ps" using split_at_char_nonempty by (metis neq_Nil_conv)
  show ?case
  proof (cases "starts_with [c, c] (d # ds)")
    case True
    then obtain es where "d = c" "ds = c # es" by (cases ds) auto
    then show ?thesis by simp
  next
    case False
    then have more: "contains ds [c, c]" using 2(3) by (auto simp: contains_def split: if_splits)
    show ?thesis
    proof (cases "d = c")
      case True
      then show ?thesis using 2(1) more split by (auto simp: contains_def)
    next
      case False
      then show ?thesis using 2(2) more split by simp
    qed
  qed
qed (simp add: contains_def)

text \<open>The loop accepts just the names whose bytes and components are all acceptable.\<close>

definition git_branch_name :: "string \<Rightarrow> bool" where
  "git_branch_name branch \<longleftrightarrow> branch \<noteq> ''@'' \<and> \<not> contains branch ''..'' \<and> \<not> contains branch [CHR ''@'', CHR ''{'']
     \<and> (\<forall>c \<in> set branch. \<not> forbidden_byte c) \<and> (\<forall>component \<in> set (split_at_char (CHR ''/'') branch). component_ok component)"

lemma branch_names:
  "validate_branch branch = Inr () \<longleftrightarrow> git_branch_name branch"
proof -
  obtain p ps where split: "split_at_char (CHR ''/'') branch = p # ps" using split_at_char_nonempty by (metis neq_Nil_conv)
  have loop: "check_components [] branch \<longleftrightarrow> (\<forall>c \<in> set branch. \<not> forbidden_byte c) \<and> (\<forall>component \<in> set (p # ps). component_ok component)"
    using check_components_spec [of "[]" branch] by (simp add: split list_all_iff)
  have empty: "\<not> component_ok []" by (simp add: component_ok_def)
  have "hd branch \<noteq> CHR ''/''" "last branch \<noteq> CHR ''/''" "\<not> contains branch ''//''" "branch \<noteq> []"
    if all: "\<forall>component \<in> set (p # ps). component_ok component"
  proof -
    show ne: "branch \<noteq> []" using all empty split by auto
    show "hd branch \<noteq> CHR ''/''" using split_head [OF ne] all empty split by fastforce
    show "last branch \<noteq> CHR ''/''"
    proof
      assume "last branch = CHR ''/''"
      then have "last (p # ps) = []" using split_last [OF ne] split by simp
      then show False using all empty last_in_set [of "p # ps"] by (metis list.distinct(1))
    qed
    show "\<not> contains branch ''//''" using split_double [of branch "CHR ''/''"] all empty split by auto
  qed
  then show ?thesis unfolding validate_branch_def git_branch_name_def split invalid_branch_def
    using loop by (auto simp: throw_if_def)
qed

section \<open>Paths\<close>

text \<open>An absolute path in normal form: no dots and no trailing separator.\<close>

definition normal_path :: "path \<Rightarrow> bool" where
  "normal_path p \<longleftrightarrow> (\<exists>es. p = ''/'' # es \<and> (\<forall>e \<in> set es. element_ok e \<and> e \<noteq> ''.'' \<and> e \<noteq> ''..''))"

lemma mismatch_split: "mismatch p q = (a, b) \<Longrightarrow> \<exists>c. p = c @ a \<and> q = c @ b \<and> (a = [] \<or> b = [] \<or> hd a \<noteq> hd b)"
proof (induction p q rule: mismatch.induct)
  case (1 x xs y ys)
  show ?case
  proof (cases "x = y")
    case True
    then obtain c where "xs = c @ a" "ys = c @ b" "a = [] \<or> b = [] \<or> hd a \<noteq> hd b" using 1 by auto
    then show ?thesis using True by (intro exI [of _ "x # c"]) simp
  next
    case False
    then show ?thesis using 1(2) by auto
  qed
qed auto

lemma steps_up_normal: "\<forall>e \<in> set es. element_ok e \<and> e \<noteq> ''.'' \<and> e \<noteq> ''..'' \<Longrightarrow> steps_up es = int (length es)"
  by (induction es) (auto simp: steps_up_def element_ok_def)

lemma strict_descendant_iff:
  assumes "normal_path p" "normal_path r"
  shows "is_strict_descendant p r \<longleftrightarrow> strict_prefix r p"
proof -
  from assms obtain es fs where es: "p = ''/'' # es" "\<forall>e \<in> set es. element_ok e \<and> e \<noteq> ''.'' \<and> e \<noteq> ''..''"
    and fs: "r = ''/'' # fs" "\<forall>e \<in> set fs. element_ok e \<and> e \<noteq> ''.'' \<and> e \<noteq> ''..''" by (auto simp: normal_path_def)
  obtain a b where ab: "mismatch es fs = (a, b)" by fastforce
  then obtain c where c: "es = c @ a" "fs = c @ b" "a = [] \<or> b = [] \<or> hd a \<noteq> hd b" using mismatch_split by blast
  have steps: "steps_up b = int (length b)" using steps_up_normal [of b] fs(2) c(2) by auto
  have rel: "lexically_relative p r = (if a = [] \<and> b = [] then [''.''] else if b = [] \<and> (a = [] \<or> hd a = []) then [''.'']
      else replicate (length b) ''..'' @ a)"
    using ab steps by (cases "b = []") (simp_all add: lexically_relative_def es(1) fs(1) is_absolute_def steps_up_def)
  have plain: "\<forall>e \<in> set a. e \<noteq> [] \<and> e \<noteq> ''.'' \<and> e \<noteq> ''..''" using es(2) c(1) by (auto simp: element_ok_def)
  show ?thesis
  proof (cases "b = []")
    case True
    have "is_strict_descendant p r \<longleftrightarrow> a \<noteq> []"
      using plain True rel by (cases a) (auto simp: is_strict_descendant_def list_all_iff)
    then show ?thesis using True c es(1) fs(1) by (auto simp: strict_prefix_def prefix_def)
  next
    case False
    then have "\<not> is_strict_descendant p r" using rel by (cases b) (auto simp: is_strict_descendant_def)
    moreover have "\<not> prefix fs es"
    proof
      assume "prefix fs es"
      then obtain d where "a = b @ d" unfolding c(1,2) prefix_def by auto
      then show False using False c(3) by (cases b) auto
    qed
    ultimately show ?thesis using es(1) fs(1) by (auto simp: strict_prefix_def)
  qed
qed

lemma derived_path_accepted:
  assumes b: "validate_branch branch = Inr ()" and r: "is_absolute r" "sy_weakly_canonical sy r w = Some root" "normal_path root"
  shows "\<exists>name. derived_worktree_path sy r branch w = (Inr (root @ [name]), w)
     \<and> length name = length branch \<and> element_ok name \<and> hd name \<noteq> CHR ''.''
     \<and> (sy_weakly_canonical sy (root @ [name]) w = Some (root @ [name]) \<longrightarrow>
          validated_worktree_path sy (request'\<lparr>pv_worktree := root @ [name]\<rparr>) root w = (Inr (root @ [name]), w))"
proof -
  define name where "name = map (\<lambda>c. if c = CHR ''/'' then CHR ''-'' else c) branch"
  from b have ok: "git_branch_name branch" by (simp add: branch_names)
  obtain p ps where split: "split_at_char (CHR ''/'') branch = p # ps" using split_at_char_nonempty by (metis neq_Nil_conv)
  have p: "component_ok p" using ok split by (simp add: git_branch_name_def)
  have branch: "branch \<noteq> [] \<and> hd branch = hd p"
  proof (cases branch)
    case Nil
    then show ?thesis using split p by (simp add: component_ok_def)
  next
    case (Cons c cs)
    then show ?thesis using split p by (cases "c = CHR ''/''") (auto simp: component_ok_def split: list.splits)
  qed
  have name: "element_ok name" "hd name \<noteq> CHR ''.''"
    using branch p by (auto simp: name_def element_ok_def component_ok_def hd_map)
  from r(3) obtain es where es: "root = ''/'' # es" "\<forall>e \<in> set es. element_ok e \<and> e \<noteq> ''.'' \<and> e \<noteq> ''..''"
    by (auto simp: normal_path_def)
  have append: "path_append root e = root @ [e]" for e
    using es by (auto simp: path_append_def element_ok_def dest: last_in_set split: if_splits)
  have child: "normal_path (root @ [e])" if "element_ok e" "e \<noteq> ''.''" "e \<noteq> ''..''" for e
    unfolding normal_path_def using es that by (intro exI [of _ "es @ [e]"]) simp
  have "name \<noteq> ''.''" "name \<noteq> ''..''" using name(2) by auto
  then have normal: "normal_path (root @ [name])" "normal_path (root @ [''.bare''])"
    using child name(1) by (simp_all add: element_ok_def)
  have "is_strict_descendant (root @ [name]) root" "\<not> is_strict_descendant (root @ [name]) (root @ [''.bare''])"
    "root @ [name] \<noteq> root @ [''.bare'']"
    unfolding strict_descendant_iff [OF normal(1) r(3)] strict_descendant_iff [OF normal]
    using name(2) by (auto simp: strict_prefix_def dest: prefix_length_le)
  moreover have absolute: "is_absolute (root @ [name])" by (simp add: es(1) is_absolute_def)
  ultimately have "validated_worktree_path sy (request'\<lparr>pv_worktree := root @ [name]\<rparr>) root w = (Inr (root @ [name]), w)"
    if "sy_weakly_canonical sy (root @ [name]) w = Some (root @ [name])"
    using that absolute by (simp add: validated_worktree_path_def resolve_path_def action_simps append)
  moreover have "derived_worktree_path sy r branch w = (Inr (root @ [name]), w)"
    using b r by (simp add: derived_worktree_path_def resolve_path_def action_simps append name_def)
  moreover have "length name = length branch" by (simp add: name_def)
  ultimately show ?thesis using name by blast
qed

section \<open>The registry\<close>

lemma settled_resolved: "settled canonical s \<Longrightarrow> resolved canonical s = s"
  using absolute_path_string by (metis settled_def)

lemma tracked_image:
  "f ` set (tracked_paths g) = (\<Union>r \<in> set_mset (tracked f g). set_mset (snd r))"
  "f ` set (map rp_root (wr_repositories g)) = fst ` set_mset (tracked f g)"
  by (auto simp: tracked_paths_def tracked_def image_image)

lemma normalized_tracks:
  assumes c: "canonical_obliges canonical" and r: "normalize_registry canonical g = Inr g'"
  shows "set (tracked_paths g') = resolved canonical ` set (tracked_paths g)"
    "set (map rp_root (wr_repositories g')) = resolved canonical ` set (map rp_root (wr_repositories g))"
  using normalize_registry_result(3) [OF c r] tracked_image [of id g'] tracked_image [of "resolved canonical" g] by simp_all

lemma settled_tracks:
  assumes "all_settled canonical g"
  shows "resolved canonical ` set (tracked_paths g) = set (tracked_paths g)"
    "resolved canonical ` set (map rp_root (wr_repositories g)) = set (map rp_root (wr_repositories g))"
  using assms by (force simp: all_settled_def tracked_paths_def settled_resolved)+

lemma add_worktree_tracks:
  "list_ex (\<lambda>r. rp_root r = root) rs \<Longrightarrow>
     set (concat (map rp_worktrees (add_worktree root s rs))) = insert s (set (concat (map rp_worktrees rs)))"
  "map rp_root (add_worktree root s rs) = map rp_root rs"
  by (induction rs) auto

text \<open>
  Registering adds just the worktree, and refuses a repository that is not registered or a
  worktree of another one.
\<close>

lemma register_correct:
  assumes "registered_repository g root = Inr ()" "register_worktree root s g = Inr g'"
  shows "set (tracked_paths g') = insert s (set (tracked_paths g))"
    "map rp_root (wr_repositories g') = map rp_root (wr_repositories g)"
proof -
  have reg: "list_ex (\<lambda>r. rp_root r = root) (wr_repositories g)"
    using assms(1) by (simp add: registered_repository_def result_simps)
  show "set (tracked_paths g') = insert s (set (tracked_paths g))"
  proof (cases "find (\<lambda>r. s \<in> set (rp_worktrees r)) (wr_repositories g)")
    case None
    then have "g' = g\<lparr>wr_repositories := add_worktree root s (wr_repositories g)\<rparr>"
      using assms(2) by (simp add: register_worktree_def)
    then show ?thesis using add_worktree_tracks(1) [OF reg] by (simp add: tracked_paths_def)
  next
    case (Some r)
    then show ?thesis using assms(2) find_SomeD [OF Some] by (auto simp: register_worktree_def result_simps tracked_paths_def)
  qed
  show "map rp_root (wr_repositories g') = map rp_root (wr_repositories g)"
    using assms(2) by (auto simp: register_worktree_def result_simps add_worktree_tracks(2) split: option.splits)
qed

section \<open>The outcome\<close>

definition printing_obliges :: "'w system \<Rightarrow> path \<Rightarrow> bool" where
  "printing_obliges sy store \<longleftrightarrow> (\<forall>s. keeps sy (\<lambda>p. p = store) (sy_print sy s))"

lemma print_keeps: "printing_obliges sy store \<Longrightarrow> keeps sy (\<lambda>p. p = store) (sy_print sy s)"
  by (simp add: printing_obliges_def)

lemma create_keeps:
  assumes "commands_oblige sy store" "printing_obliges sy store"
  shows "keeps sy (\<lambda>p. p = store) (create_worktree sy git bare branch worktree)"
  unfolding create_worktree_def creation_arguments_def resolves_to_commit_def resolve_default_branch_def verify_commit_def
  by (intro keeping run_keeps [OF assms(1)] print_keeps [OF assms(2)])

lemma existing_keeps: "keeps sy P (validate_existing_worktree sy worktree root branch)"
  unfolding validate_existing_worktree_def read_text_def resolve_path_def by (intro keeping)

lemma prepare_provision_result:
  assumes "prepare_provision sy request' w = (Inr (root, worktree, store, g'), w1)"
  shows "w1 = w \<and> validate_branch (pv_branch request') = Inr () \<and> sy_weakly_canonical sy (pv_root request') w = Some root
     \<and> sy_weakly_canonical sy (pv_worktree request') w = Some worktree \<and> is_strict_descendant worktree root
     \<and> \<not> is_strict_descendant worktree (path_append root ''.bare'') \<and> worktree \<noteq> path_append root ''.bare''
     \<and> registry_store sy (pv_registry request') w = (Inr store, w)
     \<and> (\<exists>g. registry_load sy store w = (Inr g, w) \<and> registered_repository g (path_string root) = Inr ()
          \<and> register_worktree (path_string root) (path_string worktree) g = Inr g')"
proof -
  have load: "registry_load sy s w' = (Inr x, w'') \<longleftrightarrow> fst (registry_load sy s w') = Inr x \<and> w'' = w'" for s w' x w''
    using load_reads_only [of sy s w'] by (cases "registry_load sy s w'") auto
  have store: "registry_store sy s w' = (Inr x, w'') \<longleftrightarrow> fst (registry_store sy s w') = Inr x \<and> w'' = w'" for s w' x w''
    by (auto simp: registry_store_def bind_Inr action_simps result_simps split: sum.splits option.splits)
  show ?thesis using assms
    unfolding prepare_provision_def validated_worktree_path_def resolve_path_def bind_Inr
    by (auto simp: run_results load store)
qed

text \<open>
  A success leaves a worktree strictly below the repository root and outside its \<open>.bare\<close>
  directory tracked: the registry loaded afterwards has the same repositories, and the same
  worktrees and that one.
\<close>

lemma provision_correct:
  assumes sy: "store_obliges sy" and c: "canonical_obliges (\<lambda>q. sy_weakly_canonical sy q w)"
    and run: "commands_oblige sy store" and print: "printing_obliges sy store"
    and store: "registry_store sy (pv_registry request') w = (Inr store, w)" "store \<noteq> []" "store \<noteq> root_directory"
    and r: "provision sy git request' w = (Inr result, w')"
  shows "\<exists>root g g'. sy_weakly_canonical sy (pv_root request') w = Some root
     \<and> sy_weakly_canonical sy (pv_worktree request') w = Some (vr_worktree result)
     \<and> is_strict_descendant (vr_worktree result) root
     \<and> \<not> is_strict_descendant (vr_worktree result) (path_append root ''.bare'')
     \<and> registry_load sy store w = (Inr g, w) \<and> path_string root \<in> set (map rp_root (wr_repositories g))
     \<and> registry_load sy store w' = (Inr g', w')
     \<and> set (map rp_root (wr_repositories g')) = set (map rp_root (wr_repositories g))
     \<and> set (tracked_paths g') = insert (resolved (\<lambda>q. sy_weakly_canonical sy q w) (path_string (vr_worktree result)))
          (set (tracked_paths g))"
proof -
  let ?resolved = "resolved (\<lambda>q. sy_weakly_canonical sy q w)"
  from r obtain root worktree s g1 w1 exists w2 where prep: "prepare_provision sy request' w = (Inr (root, worktree, s, g1), w1)"
    and ex: "path_exists sy ''inspect worktree path'' worktree w1 = (Inr exists, w2)"
    and rest: "(if exists then
        bind (validate_existing_worktree sy worktree root (pv_branch request')) (\<lambda>_.
        bind (registry_save sy s g1) (\<lambda>_.
        bind (sy_print sy (''Worktree registered: '' @ path_string worktree @ [CHR 0x0A])) (\<lambda>_.
        return \<lparr>vr_worktree = worktree, vr_kind = Provision_ADOPTED\<rparr>)))
      else
        bind (create_worktree sy git (path_append root ''.bare'') (pv_branch request') worktree) (\<lambda>_.
        bind (explained True ''worktree was created but registry update failed: '' (registry_save sy s g1)) (\<lambda>_.
        bind (sy_print sy (''Worktree created: '' @ path_string worktree @ [CHR 0x0A])) (\<lambda>_.
        return \<lparr>vr_worktree = worktree, vr_kind = Provision_CREATED\<rparr>)))) w2 = (Inr result, w')"
    unfolding provision_def by (auto simp: bind_Inr run_results)
  note found = prepare_provision_result [OF prep]
  have w2: "w2 = w" "s = store" using ex found store(1) by (auto simp: path_exists_def run_results)
  from found obtain g where g: "registry_load sy store w = (Inr g, w)" "registered_repository g (path_string root) = Inr ()"
    "register_worktree (path_string root) (path_string worktree) g = Inr g1" using w2 by blast
  have saved_ok: "explained b m a v = (Inr x, v') \<longleftrightarrow> a v = (Inr x, v')" for b m v x v' and a :: "'a \<Rightarrow> unit result \<times> 'a"
    by (auto simp: explained_def split: prod.splits sum.splits option.splits if_splits)
  obtain w3 w4 where before: "file_at sy store w3 = file_at sy store w" "\<And>q. sy_weakly_canonical sy q w3 = sy_weakly_canonical sy q w"
    and save: "registry_save sy store g1 w3 = (Inr (), w4)"
    and after: "file_at sy store w' = file_at sy store w4" "\<And>q. sy_weakly_canonical sy q w' = sy_weakly_canonical sy q w4"
    and result: "vr_worktree result = worktree"
  proof (cases exists)
    case True
    with rest obtain u w3 w4 u' where e: "validate_existing_worktree sy worktree root (pv_branch request') w2 = (Inr u, w3)"
      and sv: "registry_save sy store g1 w3 = (Inr (), w4)"
      and p: "sy_print sy (''Worktree registered: '' @ path_string worktree @ [CHR 0x0A]) w4 = (Inr u', w')"
      and res: "vr_worktree result = worktree"
      unfolding w2(2) by (auto simp: bind_Inr run_results)
    note k = keeps_result [where P = "\<lambda>_. True", OF existing_keeps _ e] and k' = keeps_result [OF print_keeps [OF print] _ p]
    show thesis using k k' w2(1) by (intro that [OF _ _ sv _ _ res]) simp_all
  next
    case False
    with rest obtain u w3 w4 u' where e: "create_worktree sy git (path_append root ''.bare'') (pv_branch request') worktree w2 = (Inr u, w3)"
      and sv: "registry_save sy store g1 w3 = (Inr (), w4)"
      and p: "sy_print sy (''Worktree created: '' @ path_string worktree @ [CHR 0x0A]) w4 = (Inr u', w')"
      and res: "vr_worktree result = worktree"
      unfolding w2(2) by (auto simp: bind_Inr run_results saved_ok)
    note k = keeps_result [OF create_keeps [OF run print] _ e] and k' = keeps_result [OF print_keeps [OF print] _ p]
    show thesis using k k' w2(1) by (intro that [OF _ _ sv _ _ res]) simp_all
  qed
  from loaded_after_save [OF sy c store(2,3) save before(2) after] obtain g' where
    g': "normalize_registry (\<lambda>q. sy_weakly_canonical sy q w) g1 = Inr g'" and loaded: "registry_load sy store w' = (Inr g', w')"
    by blast
  note normal = load_normal [OF c g(1)]
  have paths: "set (tracked_paths g') = insert (?resolved (path_string worktree)) (set (tracked_paths g))"
    using normalized_tracks(1) [OF c g'] register_correct(1) [OF g(2,3)] settled_tracks(1) [OF normal(2)] by simp
  have roots: "set (map rp_root (wr_repositories g')) = set (map rp_root (wr_repositories g))"
    using normalized_tracks(2) [OF c g'] register_correct(2) [OF g(2,3)] settled_tracks(2) [OF normal(2)] by metis
  have "path_string root \<in> set (map rp_root (wr_repositories g))"
    using g(2) by (auto simp: registered_repository_def result_simps list_ex_iff intro: rev_image_eqI)
  then show ?thesis using found g(1) loaded paths roots result by blast
qed

text \<open>
  A request that is refused, for its branch, its paths or the registry, runs no command and writes
  nothing.
\<close>

lemma provision_refused:
  assumes "\<not> git_branch_name (pv_branch request')
     \<or> (\<forall>root p. sy_weakly_canonical sy (pv_root request') w = Some root \<longrightarrow>
          sy_weakly_canonical sy (pv_worktree request') w = Some p \<longrightarrow> \<not> is_strict_descendant p root)
     \<or> (\<forall>root store g. sy_weakly_canonical sy (pv_root request') w = Some root \<longrightarrow>
          registry_store sy (pv_registry request') w = (Inr store, w) \<longrightarrow> registry_load sy store w = (Inr g, w) \<longrightarrow>
          path_string root \<notin> set (map rp_root (wr_repositories g)))"
  shows "\<exists>e. provision sy git request' w = (Inl e, w)"
proof -
  have "still (registry_load sy s)" for s by (simp add: still_def load_reads_only)
  then have st: "still (prepare_provision sy request')"
    unfolding prepare_provision_def validated_worktree_path_def resolve_path_def registry_store_def by (intro stillness)
  define prep where "prep = fst (prepare_provision sy request' w)"
  have prep: "prepare_provision sy request' w = (prep, w)" unfolding prep_def by (rule stillD [OF st])
  show ?thesis
  proof (cases prep)
    case (Inl e)
    then show ?thesis using prep by (cases "git = []") (simp_all add: provision_def bind_run run_simps)
  next
    case (Inr z)
    obtain root worktree store g' where z: "z = (root, worktree, store, g')" by (cases z)
    note found = prepare_provision_result [OF prep [unfolded Inr z]]
    have name: "git_branch_name (pv_branch request')" using found by (simp add: branch_names)
    have paths: "sy_weakly_canonical sy (pv_root request') w = Some root" "sy_weakly_canonical sy (pv_worktree request') w = Some worktree"
      "is_strict_descendant worktree root" "registry_store sy (pv_registry request') w = (Inr store, w)" using found by simp_all
    obtain g where g: "registry_load sy store w = (Inr g, w)" "registered_repository g (path_string root) = Inr ()"
      using found by blast
    have listed: "path_string root \<in> set (map rp_root (wr_repositories g))"
      using g(2) by (auto simp: registered_repository_def result_simps list_ex_iff intro: rev_image_eqI)
    from assms show ?thesis
    proof (elim disjE)
      assume "\<not> git_branch_name (pv_branch request')"
      then show ?thesis using name by simp
    next
      assume "\<forall>root p. sy_weakly_canonical sy (pv_root request') w = Some root \<longrightarrow>
          sy_weakly_canonical sy (pv_worktree request') w = Some p \<longrightarrow> \<not> is_strict_descendant p root"
      then show ?thesis using paths(1-3) by metis
    next
      assume "\<forall>root store g. sy_weakly_canonical sy (pv_root request') w = Some root \<longrightarrow>
          registry_store sy (pv_registry request') w = (Inr store, w) \<longrightarrow> registry_load sy store w = (Inr g, w) \<longrightarrow>
          path_string root \<notin> set (map rp_root (wr_repositories g))"
      then show ?thesis using paths(1,4) g(1) listed by metis
    qed
  qed
qed

end
