(* ===== verification/Registration_Correct.thy ===== *)
theory Registration_Correct
  imports Worktree_Registrar Provision_Correct
begin

text \<open>
  What registering a repository guarantees: the registry loses nothing and gains the repository
  with the worktrees Git knows; a new root without a clone URL is refused before anything is done.
\<close>

section \<open>Merging\<close>

lemma update_first_tracks:
  "list_ex (\<lambda>r. rp_root r = root) rs \<Longrightarrow>
     set (concat (map rp_worktrees (update_first root ws rs))) = set ws \<union> set (concat (map rp_worktrees rs))"
  "map rp_root (update_first root ws rs) = map rp_root rs"
  by (induction rs) auto

lemma merge_tracks:
  "set (tracked_paths (merge_repository p discovered g)) = path_string ` set discovered \<union> set (tracked_paths g)"
  "set (map rp_root (wr_repositories (merge_repository p discovered g))) = insert (path_string p) (set (map rp_root (wr_repositories g)))"
proof -
  let ?rs = "if list_ex (\<lambda>r. rp_root r = path_string p) (wr_repositories g) then wr_repositories g
    else wr_repositories g @ [\<lparr>rp_root = path_string p, rp_worktrees = []\<rparr>]"
  have ex: "list_ex (\<lambda>r. rp_root r = path_string p) ?rs" by simp
  show "set (tracked_paths (merge_repository p discovered g)) = path_string ` set discovered \<union> set (tracked_paths g)"
    using update_first_tracks(1) [OF ex, of "map path_string discovered"]
    by (simp add: merge_repository_def Let_def tracked_paths_def split: if_splits)
  show "set (map rp_root (wr_repositories (merge_repository p discovered g))) = insert (path_string p) (set (map rp_root (wr_repositories g)))"
    by (auto simp: merge_repository_def Let_def update_first_tracks(2) list_ex_iff intro: rev_image_eqI)
qed

section \<open>The outcome\<close>

text \<open>What is done to the repository changes neither the file of the registry nor links.\<close>

definition repository_obliges :: "'w system \<Rightarrow> path \<Rightarrow> path \<Rightarrow> bool" where
  "repository_obliges sy root store \<longleftrightarrow> keeps sy (\<lambda>p. p = store) (sy_create_directories sy root)
     \<and> (\<forall>b. keeps sy (\<lambda>p. p = store) (sy_write_file sy (path_append root ''.git'') b))
     \<and> keeps sy (\<lambda>p. p = store) (sy_remove_all sy (path_append root ''.bare'')) \<and> keeps sy (\<lambda>p. p = store) (sy_remove sy root)"

lemma keeps_ignoring: "keeps sy P a \<Longrightarrow> keeps sy P (ignoring a)"
  by (simp add: keeps_def ignoring_def)

lemma available_keeps: "keeps sy P (available_git_worktree_paths sy output)"
proof -
  have "keeps sy P (fold_action (available_worktree sy) es paths)" for es paths
    by (induction es arbitrary: paths)
      (simp_all add: keeps_simple, intro keeping, simp_all add: available_worktree_def normalized_worktree_path_def, intro conjI impI keeping)
  then show ?thesis unfolding available_git_worktree_paths_def by (intro keeping)
qed

lemma prepare_repository_keeps:
  assumes "commands_oblige sy store" "printing_obliges sy store" "repository_obliges sy root store"
  shows "keeps sy (\<lambda>p. p = store) (prepare_repository sy git root clone_url)"
proof -
  note basic = run_keeps [OF assms(1)] print_keeps [OF assms(2)]
  have root: "keeps sy (\<lambda>p. p = store) (sy_create_directories sy root)"
    "\<And>b. keeps sy (\<lambda>p. p = store) (sy_write_file sy (path_append root ''.git'') b)"
    "keeps sy (\<lambda>p. p = store) (sy_remove_all sy (path_append root ''.bare''))" "keeps sy (\<lambda>p. p = store) (sy_remove sy root)"
    using assms(3) by (simp_all add: repository_obliges_def)
  show ?thesis
    unfolding prepare_repository_def inspect_repository_root_def registrar_path_def directory_is_empty_def read_git_pointer_def
      clone_repository_def write_git_pointer_def validate_bare_repository_def require_success_def configure_remote_def
      check_default_branch_def verify_commit_def discover_worktrees_def Let_def
    by (intro keeping basic root keeps_ignoring available_keeps)
qed

text \<open>
  A success leaves the registry with all it tracked, the repository under its resolved root, and
  the worktrees Git knows in it; the loaded registry has nothing else.
\<close>

lemma registration_correct:
  assumes sy: "store_obliges sy" and c: "canonical_obliges (\<lambda>q. sy_weakly_canonical sy q w)"
    and oblige: "commands_oblige sy store" "printing_obliges sy store" "repository_obliges sy root store"
    and root: "registrar_path sy (rq_root request') ''repository root'' w = (Inr root, w)"
    and store: "registry_store sy (rq_registry request') w = (Inr store, w)" "store \<noteq> []" "store \<noteq> root_directory"
    and r: "register_repository sy git request' w = (Inr (), w')"
  shows "\<exists>g g' cloned live w1. registry_load sy store w = (Inr g, w)
     \<and> prepare_repository sy git root (rq_clone_url request') w = (Inr (cloned, live), w1)
     \<and> registry_load sy store w' = (Inr g', w')
     \<and> set (map rp_root (wr_repositories g'))
         = insert (resolved (\<lambda>q. sy_weakly_canonical sy q w) (path_string root)) (set (map rp_root (wr_repositories g)))
     \<and> set (tracked_paths g')
         = (\<lambda>p. resolved (\<lambda>q. sy_weakly_canonical sy q w) (path_string p)) ` set live \<union> set (tracked_paths g)"
proof -
  have saved_ok: "explained b m a v = (Inr x, v') \<longleftrightarrow> a v = (Inr x, v')" for b m v x v' and a :: "'a \<Rightarrow> unit result \<times> 'a"
    by (auto simp: explained_def split: prod.splits sum.splits option.splits if_splits)
  have load: "registry_load sy store w = (Inr x, w'') \<longleftrightarrow> fst (registry_load sy store w) = Inr x \<and> w'' = w" for x w''
    using load_reads_only [of sy store w] by (cases "registry_load sy store w") auto
  from r obtain g cloned live w1 w2 where g: "registry_load sy store w = (Inr g, w)"
    and prep: "prepare_repository sy git root (rq_clone_url request') w = (Inr (cloned, live), w1)"
    and save: "registry_save sy store (merge_repository root live g) w1 = (Inr (), w2)"
    and p: "sy_print sy (line (''Repository registered: '' @ path_string root)) w2 = (Inr (), w')"
    unfolding register_repository_def by (auto simp: bind_Inr run_results root store(1) load saved_ok)
  note before = keeps_result [OF prepare_repository_keeps [OF oblige] refl prep] and after = keeps_result [OF print_keeps [OF oblige(2)] refl p]
  from loaded_after_save [OF sy c store(2,3) save before(2) after] obtain g' where
    g': "normalize_registry (\<lambda>q. sy_weakly_canonical sy q w) (merge_repository root live g) = Inr g'"
    and loaded: "registry_load sy store w' = (Inr g', w')" by blast
  note normal = load_normal [OF c g]
  have "set (tracked_paths g') = (\<lambda>p. resolved (\<lambda>q. sy_weakly_canonical sy q w) (path_string p)) ` set live \<union> set (tracked_paths g)"
    using normalized_tracks(1) [OF c g'] settled_tracks(1) [OF normal(2)] by (simp add: merge_tracks image_Un image_image)
  moreover have "set (map rp_root (wr_repositories g'))
      = insert (resolved (\<lambda>q. sy_weakly_canonical sy q w) (path_string root)) (set (map rp_root (wr_repositories g)))"
    unfolding normalized_tracks(2) [OF c g'] merge_tracks(2) image_insert settled_tracks(2) [OF normal(2)] ..
  ultimately show ?thesis using g prep loaded by blast
qed

text \<open>The exit code of a helper tells whether it did its work.\<close>

lemma helper_exit_code:
  assumes "attempted sy failure a w = (Inr code, w')"
  shows "code = 0 \<and> (\<exists>x. a w = (Inr x, w')) \<or> code = 1 \<and> (\<exists>e m w1. a w = (Inl e, w1) \<and> what e = Some m)"
  using assms by (auto simp: attempted_def handle_def bind_run run_simps split: prod.splits sum.splits option.splits)

end
