(* ===== verification/Worktree_Witness.thy ===== *)
theory Worktree_Witness
  imports Registration_Correct
begin

text \<open>
  The guarantees of the registry and of the operations on worktrees, and a small system in which
  they apply: files and directories in a list, commands that answer from a script.
\<close>

section \<open>A small system\<close>

type_synonym demo = "(path \<times> string option) list"

definition demo_canonical :: "path \<Rightarrow> path option" where
  "demo_canonical p = (if is_absolute p \<and> list_all element_ok (tl p) then Some p else None)"

definition demo_system :: "registry list \<Rightarrow> (string list \<Rightarrow> 32 word \<times> string) \<Rightarrow> demo system" where
  "demo_system registries script = \<lparr>
     sy_absolute = (\<lambda>p w. Some p),
     sy_weakly_canonical = (\<lambda>p w. demo_canonical p),
     sy_exists = (\<lambda>p w. Some (map_of w p \<noteq> None)),
     sy_is_directory = (\<lambda>p w. Some (map_of w p = Some None)),
     sy_is_regular = (\<lambda>p w. Some (map_of w p \<noteq> None \<and> map_of w p \<noteq> Some None)),
     sy_is_empty = (\<lambda>p w. Some False),
     sy_read_file = (\<lambda>p w. map_of w p),
     sy_write_file = (\<lambda>p s w. (Inr True, (p, Some s) # w)),
     sy_create_directories = (\<lambda>p w. (Inr True, w)),
     sy_remove = (\<lambda>p w. (Inr (), filter (\<lambda>e. fst e \<noteq> p) w)),
     sy_remove_all = (\<lambda>p w. (Inr (), filter (\<lambda>e. fst e \<noteq> p) w)),
     sy_open_directory = (\<lambda>p w. (Inr (), w)),
     sy_make_temporary = (\<lambda>p w. (Inr p, (p, Some []) # w)),
     sy_write_all = (\<lambda>p s w. (Inr (), (p, Some s) # w)),
     sy_sync = (\<lambda>p w. (Inr (), w)),
     sy_rename = (\<lambda>q p w. case map_of w q of
         None \<Rightarrow> (Inl (Runtime_error ''rename''), w)
       | Some c \<Rightarrow> (Inr (), (p, c) # filter (\<lambda>e. fst e \<noteq> q) w)),
     sy_run = (\<lambda>command w. (Inr (script command), w)),
     sy_print = (\<lambda>s w. (Inr (), w)),
     sy_print_error = (\<lambda>s w. (Inr (), w)),
     sy_environment = (\<lambda>name. None),
     sy_error_text = (\<lambda>operation p. operation),
     sy_parse = (\<lambda>b. if length b < length registries \<and> b = replicate (length b) (CHR ''x'')
       then Some (registries ! length b) else None),
     sy_serialize = (\<lambda>g. map_option (\<lambda>i. replicate i (CHR ''x'')) (position ((=) g) registries))\<rparr>"

lemma without_trailing_ok: "list_all element_ok es \<Longrightarrow> without_trailing (''/'' # es) = ''/'' # es"
  by (subst without_trailing.simps) (auto simp: root_path_def root_directory_def list_all_iff element_ok_def dest: last_in_set)

lemma demo_canonical_obliges: "canonical_obliges demo_canonical"
proof -
  have "path_ok (''/'' # es)" if "list_all element_ok es" for es
    using that by (auto simp: path_ok_def list_all_iff)
  then show ?thesis
    by (auto simp: canonical_obliges_def demo_canonical_def is_absolute_def neq_Nil_conv without_trailing_ok split: if_splits)
qed

lemma demo_canonical_at: "(\<lambda>q. sy_weakly_canonical (demo_system registries script) q w) = demo_canonical"
  by (simp add: demo_system_def)

lemma filter_lookup: "p \<noteq> q \<Longrightarrow> map_of (filter (\<lambda>e. fst e \<noteq> q) w) p = map_of w p"
  by (induction w) auto

lemma demo_store_obliges: "store_obliges (demo_system registries script)"
  by (auto simp: store_obliges_def reads_back_def temporary_obliges_def write_obliges_def rename_obliges_def keeps_def
      file_at_def demo_system_def filter_lookup split: option.splits dest: position_Some)

lemma demo_obliges:
  "commands_oblige (demo_system registries script) store" "printing_obliges (demo_system registries script) store"
  by (simp_all add: commands_oblige_def printing_obliges_def keeps_def file_at_def demo_system_def)

lemma demo_repository_obliges:
  "store \<noteq> root \<Longrightarrow> store \<noteq> path_append root ''.git'' \<Longrightarrow> store \<noteq> path_append root ''.bare'' \<Longrightarrow>
     repository_obliges (demo_system registries script) root store"
  by (simp add: repository_obliges_def keeps_def file_at_def demo_system_def filter_lookup)

lemma demo_store: "is_absolute p \<Longrightarrow> lexically_normal p = p \<Longrightarrow> registry_store (demo_system registries script) p w = (Inr p, w)"
  by (auto simp: registry_store_def action_simps demo_system_def is_absolute_def)

definition demo_store_path :: path where "demo_store_path = [''/'', ''s'', ''registry'']"
definition demo_root :: path where "demo_root = [''/'', ''r'']"

definition demo_registries :: "registry list" where
  "demo_registries =
     [\<lparr>wr_version = 1, wr_repositories = [\<lparr>rp_root = ''/r'', rp_worktrees = [''/r/a'', ''/r/b'']\<rparr>]\<rparr>,
      \<lparr>wr_version = 1, wr_repositories = [\<lparr>rp_root = ''/r'', rp_worktrees = [''/r/b'']\<rparr>]\<rparr>,
      \<lparr>wr_version = 1, wr_repositories = [\<lparr>rp_root = ''/r'', rp_worktrees = [''/r/a'', ''/r/b'', ''/r/c'']\<rparr>]\<rparr>]"

definition demo_list :: string where
  "demo_list = porcelain [([''HEAD 0''], \<lparr>gw_path = [''/'', ''r'', ''a''], gw_branch = Some ''a'', gw_bare = False, gw_prunable = False\<rparr>),
     ([], \<lparr>gw_path = [''/'', ''r'', ''c''], gw_branch = None, gw_bare = False, gw_prunable = False\<rparr>)]"

definition demo_script :: "string list \<Rightarrow> 32 word \<times> string" where
  "demo_script command =
     (if ''list'' \<in> set command then (0, demo_list)
      else if ''--is-bare-repository'' \<in> set command then (0, ''true'')
      else if ''symbolic-ref'' \<in> set command then (0, ''refs/heads/main'')
      else (0, ''0''))"

definition demo_world :: demo where
  "demo_world = [(demo_store_path, Some []), (demo_root, None), (demo_root @ [''.bare''], None),
     (demo_root @ [''.git''], Some ''gitdir: ./.bare''),
     (demo_root @ [''a''], None), (demo_root @ [''c''], None), (demo_root @ [''c'', ''.git''], Some ''gitdir: /r/.bare/worktrees/c''),
     (demo_root @ [''.bare'', ''worktrees'', ''c'', ''HEAD''], Some ''ref: refs/heads/c'')]"

abbreviation "demo \<equiv> demo_system demo_registries demo_script"

lemma demo_paths: "is_absolute demo_store_path" "lexically_normal demo_store_path = demo_store_path" "demo_store_path \<noteq> []"
  "demo_store_path \<noteq> root_directory"
  by code_simp+

lemmas demo_laws = demo_store_obliges [of demo_registries demo_script] demo_obliges [of demo_registries demo_script demo_store_path]
  demo_paths(3,4) demo_store [OF demo_paths(1,2), of demo_registries demo_script]

lemma demo_canonical_laws: "canonical_obliges (\<lambda>q. sy_weakly_canonical demo q w)"
  by (simp add: demo_canonical_at demo_canonical_obliges)

lemma run_fst: "fst z = x \<Longrightarrow> z = (x, snd z)"
  by (metis prod.collapse)

section \<open>The registry\<close>

text \<open>
  Normalising a registry that is accepted keeps what it tracks, up to the resolution of its paths,
  puts it in order without repetition, and is idempotent.
\<close>



text \<open>
  A registry that is saved is loaded again in normal form. A save that fails leaves the file as it
  was or, when only the last step failed, whole: it is never torn.
\<close>



section \<open>Removal\<close>


definition demo_removal :: removal_request where
  "demo_removal = \<lparr>rr_registry = demo_store_path, rr_worktree = demo_root @ [''a''], rr_protected = [''/'', ''x'']\<rparr>"


text \<open>
  C29: Removing the worktree that runs the editor, or one that is not tracked, fails before
  any command is run or any file is changed.
\<close>

lemma protected_worktree_untouched:
  assumes "sy_weakly_canonical sy (rr_worktree request') w = Some p"
    "sy_weakly_canonical sy (rr_protected request') w = Some p
     \<or> (\<forall>store g. registry_store sy (rr_registry request') w = (Inr store, w) \<longrightarrow>
          registry_load sy store w = (Inr g, w) \<longrightarrow> path_string p \<notin> set (tracked_paths g))"
  shows "\<exists>e. remove_worktree sy git request' w = (Inl e, w)"
  by (rule removal_refused [OF assms])

lemma protected_worktree_untouched_witness:
  "\<exists>e. remove_worktree demo ''git'' (demo_removal\<lparr>rr_protected := demo_root @ [''a'']\<rparr>) demo_world = (Inl e, demo_world)"
proof -
  have "sy_weakly_canonical demo (rr_worktree (demo_removal\<lparr>rr_protected := demo_root @ [''a'']\<rparr>)) demo_world = Some (demo_root @ [''a''])"
    "sy_weakly_canonical demo (rr_protected (demo_removal\<lparr>rr_protected := demo_root @ [''a'']\<rparr>)) demo_world = Some (demo_root @ [''a''])"
    by code_simp+
  then show ?thesis by (rule protected_worktree_untouched [OF _ disjI1])
qed

section \<open>Provisioning\<close>


lemma derived_path_below_root:
  assumes "validate_branch branch = Inr ()" "is_absolute r" "sy_weakly_canonical sy r w = Some root" "normal_path root"
  shows "\<exists>name. derived_worktree_path sy r branch w = (Inr (root @ [name]), w)
     \<and> length name = length branch \<and> element_ok name \<and> hd name \<noteq> CHR ''.''
     \<and> (sy_weakly_canonical sy (root @ [name]) w = Some (root @ [name]) \<longrightarrow>
          validated_worktree_path sy (request'\<lparr>pv_worktree := root @ [name]\<rparr>) root w = (Inr (root @ [name]), w))"
  by (rule derived_path_accepted [OF assms])

lemma derived_path_below_root_witness:
  "\<exists>name. derived_worktree_path demo demo_root ''fix/typo'' demo_world = (Inr (demo_root @ [name]), demo_world) \<and> hd name \<noteq> CHR ''.''"
proof -
  have accepted: "validate_branch ''fix/typo'' = Inr ()" "is_absolute demo_root" "sy_weakly_canonical demo demo_root demo_world = Some demo_root"
    by code_simp+
  have "normal_path demo_root" by (simp add: normal_path_def demo_root_def element_ok_def)
  from derived_path_below_root [OF accepted this] show ?thesis by blast
qed


definition demo_provision :: provision_request where
  "demo_provision = \<lparr>pv_root = demo_root, pv_branch = ''c'', pv_worktree = demo_root @ [''c''], pv_registry = demo_store_path\<rparr>"


lemma refused_request_does_nothing:
  assumes "\<not> git_branch_name (pv_branch request')
     \<or> (\<forall>root p. sy_weakly_canonical sy (pv_root request') w = Some root \<longrightarrow>
          sy_weakly_canonical sy (pv_worktree request') w = Some p \<longrightarrow> \<not> is_strict_descendant p root)
     \<or> (\<forall>root store g. sy_weakly_canonical sy (pv_root request') w = Some root \<longrightarrow>
          registry_store sy (pv_registry request') w = (Inr store, w) \<longrightarrow> registry_load sy store w = (Inr g, w) \<longrightarrow>
          path_string root \<notin> set (map rp_root (wr_repositories g)))"
  shows "\<exists>e. provision sy git request' w = (Inl e, w)"
  by (rule provision_refused [OF assms])

lemma refused_request_does_nothing_witness:
  "\<exists>e. provision demo ''git'' (demo_provision\<lparr>pv_branch := ''a..b''\<rparr>) demo_world = (Inl e, demo_world)"
proof -
  have "\<not> git_branch_name (pv_branch (demo_provision\<lparr>pv_branch := ''a..b''\<rparr>))" by code_simp
  from refused_request_does_nothing [OF disjI1 [OF this]] show ?thesis .
qed

section \<open>Registration\<close>


definition demo_registration :: registration_request where
  "demo_registration = \<lparr>rq_root = demo_root, rq_clone_url = None, rq_registry = demo_store_path\<rparr>"


section \<open>Git's list\<close>

text \<open>
  C33: A list of worktrees printed in Git's porcelain format, with other attributes among its
  fields, is read back exactly.
\<close>

lemma git_list_read_back:
  assumes "\<forall>(attributes, e) \<in> set records. entry_ok e \<and> (\<forall>a \<in> set attributes. ignored_attribute a)"
  shows "parse_git_worktree_list (porcelain records) = map snd records"
  by (rule porcelain_parsed [OF assms])

lemma git_list_read_back_witness:
  "parse_git_worktree_list (porcelain [([''HEAD 0''], \<lparr>gw_path = [''/'', ''r'', ''a''], gw_branch = Some ''a'', gw_bare = False, gw_prunable = True\<rparr>)])
     = [\<lparr>gw_path = [''/'', ''r'', ''a''], gw_branch = Some ''a'', gw_bare = False, gw_prunable = True\<rparr>]"
proof -
  have "path_ok [''/'', ''r'', ''a'']" 
    unfolding path_ok_def by (intro exI [of _ "[''r'', ''a'']"]) (simp add: element_ok_def)
  moreover have "ignored_attribute ''HEAD 0''" "path_string [''/'', ''r'', ''a''] = ''/r/a''" by code_simp+
  ultimately show ?thesis
    using git_list_read_back [of "[([''HEAD 0''], \<lparr>gw_path = [''/'', ''r'', ''a''], gw_branch = Some ''a'', gw_bare = False, gw_prunable = True\<rparr>)]"]
    by (simp add: entry_ok_def)
qed

end
