(* ===== verification/Big_Endian.thy ===== *)
theory Big_Endian
  imports "HOL-Library.Word"
begin

text \<open>
  Words as bytes, the most significant first: \<open>static_cast<char>((value >> shift) & 0xFF)\<close> for
  every shift, and \<open>value = (value << 8) | byte\<close> over the bytes. Reading what was written gives
  the word again.
\<close>

unbundle bit_operations_syntax

definition byte_of :: "'a::len word \<Rightarrow> char" where
  "byte_of w = char_of (unat (w AND 0xFF))"

definition byte_value :: "char \<Rightarrow> 'a::len word" where
  "byte_value c = word_of_nat (of_char c)"

definition written_bytes :: "nat list \<Rightarrow> 'a::len word \<Rightarrow> string" where
  "written_bytes shifts w = map (\<lambda>shift. byte_of (drop_bit shift w)) shifts"

definition read_bytes :: "string \<Rightarrow> 'a::len word" where
  "read_bytes bytes = foldl (\<lambda>v c. push_bit 8 v OR byte_value c) 0 bytes"

lemma mask_255: "(w::'a::len word) AND 0xFF = take_bit 8 w"
  by (simp add: take_bit_eq_mask mask_numeral)

lemma byte_value_byte_of [simp]: "byte_value (byte_of (w::'a::len word)) = (take_bit 8 (ucast w) :: 'b::len word)"
proof -
  have "of_char (char_of (take_bit 8 (unat w)) :: char) = take_bit 8 (unat w)"
    by (simp add: take_bit_eq_mod)
  then have "byte_value (byte_of w) = (word_of_nat (take_bit 8 (unat w)) :: 'b word)"
    by (simp add: byte_value_def byte_of_def mask_255 unsigned_take_bit_eq)
  also have "\<dots> = take_bit 8 (word_of_nat (unat w))"
    by (rule take_bit_of_nat [symmetric])
  finally show ?thesis by (simp add: unsigned_eq_0_iff)
qed

lemma byte_of_value [simp]:
  assumes "8 \<le> LENGTH('a)"
  shows "byte_of (byte_value c :: 'a::len word) = c"
proof -
  have "(256::nat) \<le> 2 ^ LENGTH('a)" using power_increasing [OF assms, of "2::nat"] by simp
  then have "of_char c < (2::nat) ^ LENGTH('a)" using nat_of_char_less_256 [of c] by linarith
  then have "unat (byte_value c :: 'a word) = of_char c"
    by (simp add: byte_value_def unsigned_of_nat take_bit_nat_eq_self)
  then show ?thesis by (simp add: byte_of_def mask_255 unsigned_take_bit_eq) (simp add: take_bit_eq_mod)
qed

text \<open>A byte more is a shift less.\<close>

lemma join_byte: "push_bit 8 (drop_bit (8 + s) w) OR take_bit 8 (drop_bit s w) = drop_bit s (w :: 'a::len word)"
proof (rule bit_word_eqI)
  fix n
  show "bit (push_bit 8 (drop_bit (8 + s) w) OR take_bit 8 (drop_bit s w)) n \<longleftrightarrow> bit (drop_bit s w) n"
    if "n < LENGTH('a)"
    using that by (cases "8 \<le> n") (simp_all add: bit_simps)
qed

text \<open>Two bytes read into a wider word.\<close>

lemma read_written_wide: "read_bytes (written_bytes [8, 0] (w :: 16 word)) = (ucast w :: 64 word)"
proof (rule bit_word_eqI)
  fix n
  show "bit (read_bytes (written_bytes [8, 0] w) :: 64 word) n \<longleftrightarrow> bit (ucast w :: 64 word) n"
    by (cases "n < 8"; cases "n < 16") (auto simp: read_bytes_def written_bytes_def bit_simps dest: bit_imp_le_length)
qed

lemma drop_all: "LENGTH('a) \<le> s \<Longrightarrow> drop_bit s (w :: 'a::len word) = 0"
  by (rule bit_word_eqI) (auto simp: bit_simps dest: bit_imp_le_length)

lemma read_written:
  "read_bytes (written_bytes [8, 0] (a :: 16 word)) = a"
  "read_bytes (written_bytes [24, 16, 8, 0] (b :: 32 word)) = b"
  "read_bytes (written_bytes [56, 48, 40, 32, 24, 16, 8, 0] (c :: 64 word)) = c"
  using join_byte [of 8 a] join_byte [of 0 a] drop_all [of 16 a]
    join_byte [of 24 b] join_byte [of 16 b] join_byte [of 8 b] join_byte [of 0 b] drop_all [of 32 b]
    join_byte [of 56 c] join_byte [of 48 c] join_byte [of 40 c] join_byte [of 32 c]
    join_byte [of 24 c] join_byte [of 16 c] join_byte [of 8 c] join_byte [of 0 c] drop_all [of 64 c]
  by (simp_all add: read_bytes_def written_bytes_def)

lemma take_bit_8 [simp]: "take_bit 8 (w :: 8 word) = w"
  using take_bit_length_eq [of w] by simp

lemma length_written [simp]: "length (written_bytes shifts w) = length shifts"
  by (simp add: written_bytes_def)

end
