(* ===== verification/Sha1.thy ===== *)
theory Sha1
  imports Big_Endian Text
begin

text \<open>
  The digest and the encoding that the websocket handshake needs
  (src/src/bridge/websocket_protocol.cc): SHA-1 as the code computes it, loop by loop, against the
  definition of the standard, and base64 with a decoder that undoes it.
\<close>

section \<open>SHA-1 as the code computes it\<close>

definition rotate_left :: "32 word \<Rightarrow> nat \<Rightarrow> 32 word" where
  "rotate_left value' shift = push_bit shift value' OR drop_bit (32 - shift) value'"

definition append_big_endian_32 :: "string \<Rightarrow> 32 word \<Rightarrow> string" where
  "append_big_endian_32 buffer w = buffer @ written_bytes [24, 16, 8, 0] w"

definition append_big_endian_64 :: "string \<Rightarrow> 64 word \<Rightarrow> string" where
  "append_big_endian_64 buffer w = buffer @ written_bytes [56, 48, 40, 32, 24, 16, 8, 0] w"

text \<open>Zeros are appended until eight bytes are missing to a whole block.\<close>

function pad_zeros :: "string \<Rightarrow> string" where
  "pad_zeros padded = (if length padded mod 64 \<noteq> 56 then pad_zeros (padded @ [CHR 0x00]) else padded)"
  by pat_completeness auto
termination
proof (relation "measure (\<lambda>padded. (120 - length padded mod 64) mod 64)", goal_cases)
  case (2 padded)
  define m where "m = length padded mod 64"
  have m: "m < 64" "m \<noteq> 56" using 2 by (simp_all add: m_def)
  have v: "(120 - k) mod 64 = (if k \<le> 56 then 56 - k else 120 - k)" if "k < 64" for k :: nat
    using that by (cases "k \<le> 56") (simp_all add: mod_if)
  have "length (padded @ [CHR 0x00]) mod 64 = (if m = 63 then 0 else m + 1)" by (simp add: mod_Suc m_def)
  then show ?case using m by (auto simp: v m_def [symmetric])
qed simp

declare pad_zeros.simps [simp del]

definition sha1_padding :: "string \<Rightarrow> string" where
  "sha1_padding message =
     append_big_endian_64 (pad_zeros (message @ [CHR 0x80])) (word_of_nat (length message) * 8)"

definition block_word :: "string \<Rightarrow> nat \<Rightarrow> 32 word" where
  "block_word block index =
     push_bit 24 (byte_value (block ! (4 * index))) OR push_bit 16 (byte_value (block ! (4 * index + 1)))
       OR push_bit 8 (byte_value (block ! (4 * index + 2))) OR byte_value (block ! (4 * index + 3))"

definition extend_words :: "32 word list \<Rightarrow> nat \<Rightarrow> 32 word list" where
  "extend_words words index =
     words @ [rotate_left (words ! (index - 3) XOR words ! (index - 8) XOR words ! (index - 14) XOR words ! (index - 16)) 1]"

definition message_schedule :: "string \<Rightarrow> 32 word list" where
  "message_schedule block = foldl extend_words (map (block_word block) [0..<16]) [16..<80]"

type_synonym sha1_state = "32 word \<times> 32 word \<times> 32 word \<times> 32 word \<times> 32 word"

definition sha1_round :: "32 word list \<Rightarrow> sha1_state \<Rightarrow> nat \<Rightarrow> sha1_state" where
  "sha1_round words state index =
     (let (a, b, c, d, e) = state;
          (function', constant) =
            (if index < 20 then ((b AND c) OR (NOT b AND d), 0x5A827999)
             else if index < 40 then (b XOR c XOR d, 0x6ED9EBA1)
             else if index < 60 then ((b AND c) OR (b AND d) OR (c AND d), 0x8F1BBCDC)
             else (b XOR c XOR d, 0xCA62C1D6)) in
      (rotate_left a 5 + function' + e + constant + words ! index, a, rotate_left b 30, c, d))"

definition sha1_block :: "sha1_state \<Rightarrow> string \<Rightarrow> sha1_state" where
  "sha1_block hash block =
     (let (h0, h1, h2, h3, h4) = hash;
          (a, b, c, d, e) = foldl (sha1_round (message_schedule block)) hash [0..<80] in
      (h0 + a, h1 + b, h2 + c, h3 + d, h4 + e))"

definition chunk_starts :: "string \<Rightarrow> nat list" where
  "chunk_starts padded = map ((*) 64) [0..<(length padded + 63) div 64]"

definition sha1_initial :: sha1_state where
  "sha1_initial = (0x67452301, 0xEFCDAB89, 0x98BADCFE, 0x10325476, 0xC3D2E1F0)"

definition sha1_digest :: "string \<Rightarrow> string" where
  "sha1_digest message =
     (let padded = sha1_padding message;
          (h0, h1, h2, h3, h4) = foldl (\<lambda>hash chunk_start. sha1_block hash (take 64 (drop chunk_start padded)))
            sha1_initial (chunk_starts padded) in
      fold (\<lambda>h digest. append_big_endian_32 digest h) [h0, h1, h2, h3, h4] [])"

section \<open>Base64\<close>

definition BASE64_ALPHABET :: string where
  "BASE64_ALPHABET = ''ABCDEFGHIJKLMNOPQRSTUVWXYZabcdefghijklmnopqrstuvwxyz0123456789+/''"

definition sextet :: "32 word \<Rightarrow> nat \<Rightarrow> char" where
  "sextet triple shift = BASE64_ALPHABET ! unat (drop_bit shift triple AND 0x3F)"

fun base64_encode :: "string \<Rightarrow> string" where
  "base64_encode [] = []"
| "base64_encode (x # bytes) =
     (let second = (case bytes of [] \<Rightarrow> 0 | y # _ \<Rightarrow> byte_value y);
          third = (case bytes of _ # z # _ \<Rightarrow> byte_value z | _ \<Rightarrow> 0);
          triple = push_bit 16 (byte_value x) OR push_bit 8 second OR third in
      [sextet triple 18, sextet triple 12,
       if bytes \<noteq> [] then sextet triple 6 else CHR ''='',
       if tl bytes \<noteq> [] then sextet triple 0 else CHR ''='']
      @ base64_encode (drop 2 bytes))"

definition WEBSOCKET_GUID :: string where
  "WEBSOCKET_GUID = ''258EAFA5-E914-47DA-95CA-C5AB0DC85B11''"

definition websocket_accept_key :: "string \<Rightarrow> string" where
  "websocket_accept_key client_key = base64_encode (sha1_digest (client_key @ WEBSOCKET_GUID))"

section \<open>SHA-1 as the standard defines it\<close>

fun scheduled :: "(nat \<Rightarrow> 32 word) \<Rightarrow> nat \<Rightarrow> 32 word" where
  "scheduled M t =
     (if t < 16 then M t
      else word_rotl 1 (scheduled M (t - 3) XOR scheduled M (t - 8) XOR scheduled M (t - 14) XOR scheduled M (t - 16)))"

declare scheduled.simps [simp del]

definition round_function :: "nat \<Rightarrow> 32 word \<Rightarrow> 32 word \<Rightarrow> 32 word \<Rightarrow> 32 word" where
  "round_function t x y z =
     (if t < 20 then (x AND y) XOR (NOT x AND z)
      else if 40 \<le> t \<and> t < 60 then (x AND y) XOR (x AND z) XOR (y AND z)
      else x XOR y XOR z)"

definition round_constant :: "nat \<Rightarrow> 32 word" where
  "round_constant t = [0x5A827999, 0x6ED9EBA1, 0x8F1BBCDC, 0xCA62C1D6] ! (t div 20)"

primrec working_variables :: "(nat \<Rightarrow> 32 word) \<Rightarrow> sha1_state \<Rightarrow> nat \<Rightarrow> sha1_state" where
  "working_variables M H 0 = H"
| "working_variables M H (Suc t) =
     (case working_variables M H t of (a, b, c, d, e) \<Rightarrow>
       (word_rotl 5 a + round_function t b c d + e + round_constant t + scheduled M t, a, word_rotl 30 b, c, d))"

definition standard_block :: "sha1_state \<Rightarrow> string \<Rightarrow> sha1_state" where
  "standard_block H block =
     (case (H, working_variables (\<lambda>t. read_bytes (take 4 (drop (4 * t) block))) H 80) of
       ((h0, h1, h2, h3, h4), (a, b, c, d, e)) \<Rightarrow> (h0 + a, h1 + b, h2 + c, h3 + d, h4 + e))"

fun blocks :: "string \<Rightarrow> string list" where
  "blocks s = (if s = [] then [] else take 64 s # blocks (drop 64 s))"

declare blocks.simps [simp del]

definition standard_padding :: "string \<Rightarrow> string" where
  "standard_padding message =
     message @ [CHR 0x80] @ replicate (nat ((55 - int (length message)) mod 64)) (CHR 0x00)
       @ written_bytes [56, 48, 40, 32, 24, 16, 8, 0] (word_of_nat (8 * length message) :: 64 word)"

definition standard_sha1 :: "string \<Rightarrow> string" where
  "standard_sha1 message =
     (case foldl standard_block sha1_initial (blocks (standard_padding message)) of
       (h0, h1, h2, h3, h4) \<Rightarrow> concat (map (written_bytes [24, 16, 8, 0]) [h0, h1, h2, h3, h4]))"

section \<open>They agree\<close>

lemma rotate_left_rotl: "0 < n \<Longrightarrow> n < 32 \<Longrightarrow> rotate_left w n = word_rotl n w"
proof (rule bit_word_eqI)
  fix k
  assume n: "0 < n" "n < 32" and "k < LENGTH(32)"
  then have k: "k < 32" by simp
  have "(k + (32 - n)) mod 32 = (if n \<le> k then k - n else k + (32 - n))"
    using n k by (cases "n \<le> k") (simp_all add: mod_if)
  moreover have "k + 32 - n = 32 + k - n" by simp
  ultimately show "bit (rotate_left w n) k \<longleftrightarrow> bit (word_rotl n w) k"
    using n k by (auto simp: rotate_left_def bit_simps bit_word_rotl_iff dest: bit_imp_le_length)
qed

lemma round_function_eq:
  "(b AND c) OR (NOT b AND d) = (b AND c) XOR (NOT b AND (d :: 32 word))"
  "(b AND c) OR (b AND d) OR (c AND d) = (b AND c) XOR (b AND d) XOR (c AND (d :: 32 word))"
  by (rule bit_word_eqI; auto simp: bit_simps)+

lemma schedule:
  assumes "16 \<le> n"
  shows "length (foldl extend_words (map M [0..<16]) [16..<n]) = n
     \<and> (\<forall>t<n. foldl extend_words (map M [0..<16]) [16..<n] ! t = scheduled M t)"
  using assms
proof (induction n rule: dec_induct)
  case base
  then show ?case by (simp add: scheduled.simps)
next
  case (step n)
  let ?ws = "foldl extend_words (map M [0..<16]) [16..<n]"
  have ws: "length ?ws = n" "\<And>t. t < n \<Longrightarrow> ?ws ! t = scheduled M t" using step.IH by auto
  have "foldl extend_words (map M [0..<16]) [16..<Suc n] = ?ws @ [scheduled M n]"
    using step.hyps ws by (subst scheduled.simps) (simp add: extend_words_def rotate_left_rotl)
  then show ?case using ws by (auto simp: nth_append less_Suc_eq)
qed

lemma schedule_nth: "t < 80 \<Longrightarrow> message_schedule block ! t = scheduled (block_word block) t"
  using schedule [of 80 "block_word block"] by (simp add: message_schedule_def)

lemma rounds:
  "n \<le> 80 \<Longrightarrow> foldl (sha1_round (message_schedule block)) H [0..<n] = working_variables (block_word block) H n"
proof (induction n)
  case (Suc n)
  then have n: "n < 80" by simp
  obtain a b c d e where s: "working_variables (block_word block) H n = (a, b, c, d, e)" by (metis prod_cases5)
  have "round_constant n = (if n < 20 then 0x5A827999 else if n < 40 then 0x6ED9EBA1 else if n < 60 then 0x8F1BBCDC else 0xCA62C1D6)"
  proof -
    have "n div 20 = 0 \<or> n div 20 = 1 \<or> n div 20 = 2 \<or> n div 20 = 3" using n by linarith
    then show ?thesis by (auto simp: round_constant_def)
  qed
  then show ?case using Suc n
    by (auto simp: s sha1_round_def round_function_def round_function_eq rotate_left_rotl schedule_nth Let_def)
qed simp

lemma block_word_read:
  assumes "4 * t + 4 \<le> length block"
  shows "block_word block t = read_bytes (take 4 (drop (4 * t) block))"
proof -
  have "take 4 (drop (4 * t) block) = [block ! (4 * t), block ! (4 * t + 1), block ! (4 * t + 2), block ! (4 * t + 3)]"
    using assms by (intro nth_equalityI) (auto simp: nth_Cons' less_Suc_eq eval_nat_numeral)
  then show ?thesis
    by (simp add: block_word_def read_bytes_def push_bit_or push_bit_push_bit ac_simps)
qed

lemma scheduled_cong: "(\<And>t. t < 16 \<Longrightarrow> M t = M' t) \<Longrightarrow> scheduled M t = scheduled M' t"
proof (induction M t rule: scheduled.induct)
  case (1 M t)
  show ?case
  proof (cases "t < 16")
    case True
    then show ?thesis using 1(5) by (simp add: scheduled.simps)
  next
    case False
    then show ?thesis using 1(1-4) [OF False 1(5)] by (subst (1 2) scheduled.simps) simp
  qed
qed

lemma working_cong:
  assumes "\<And>t. t < 16 \<Longrightarrow> M t = M' t"
  shows "working_variables M H n = working_variables M' H n"
  by (induction n) (simp_all add: scheduled_cong [OF assms])

lemma sha1_block_standard: "length block = 64 \<Longrightarrow> sha1_block H block = standard_block H block"
proof -
  assume "length block = 64"
  then have "block_word block t = read_bytes (take 4 (drop (4 * t) block))" if "t < 16" for t
    using that by (intro block_word_read) simp
  then have "working_variables (block_word block) H 80 = working_variables (\<lambda>t. read_bytes (take 4 (drop (4 * t) block))) H 80"
    by (rule working_cong)
  then show ?thesis unfolding sha1_block_def standard_block_def using rounds [of 80 block H]
    by (auto split: prod.splits)
qed

lemma zeros_needed:
  "nat ((56 - int n) mod 64) = (if n mod 64 \<le> 56 then 56 - n mod 64 else 120 - n mod 64)"
proof -
  have "(56 - int n) mod 64 = (56 - int (n mod 64)) mod 64" by (simp add: zmod_int mod_diff_right_eq)
  also have "\<dots> = (if n mod 64 \<le> 56 then 56 - int (n mod 64) else 120 - int (n mod 64))"
  proof (cases "n mod 64 \<le> 56")
    case False
    have "(56 - int (n mod 64)) mod 64 = (120 - int (n mod 64)) mod 64"
      using mod_add_self2 [of "56 - int (n mod 64)" 64] by (simp add: algebra_simps)
    moreover have "n mod 64 < 64" by simp
    ultimately show ?thesis using False by (simp add: mod_pos_pos_trivial)
  qed (simp add: mod_pos_pos_trivial)
  finally show ?thesis by (simp add: nat_diff_distrib')
qed

lemma pad_zeros_eq: "pad_zeros s = s @ replicate (nat ((56 - int (length s)) mod 64)) (CHR 0x00)"
proof (induction s rule: pad_zeros.induct)
  case (1 s)
  show ?case
  proof (cases "length s mod 64 = 56")
    case True
    then have "nat ((56 - int (length s)) mod 64) = 0" unfolding zeros_needed by simp
    then show ?thesis using True by (subst pad_zeros.simps) simp
  next
    case False
    then have "nat ((56 - int (length s)) mod 64) = Suc (nat ((56 - int (length (s @ [CHR 0x00]))) mod 64))"
    proof -
      have "length (s @ [CHR 0x00]) mod 64 = (if length s mod 64 = 63 then 0 else length s mod 64 + 1)" by (simp add: mod_Suc)
      moreover have "length s mod 64 < 64" by simp
      ultimately show ?thesis using False unfolding zeros_needed by auto
    qed
    then show ?thesis using False 1 [OF False] by (subst pad_zeros.simps) (simp add: replicate_app_Cons_same)
  qed
qed

lemma sha1_padding_standard: "sha1_padding message = standard_padding message"
proof -
  have "56 - int (length (message @ [CHR 0x80])) = 55 - int (length message)" by simp
  then show ?thesis
    unfolding sha1_padding_def standard_padding_def append_big_endian_64_def pad_zeros_eq by (simp add: mult.commute)
qed

lemma padding_blocks: "64 dvd length (standard_padding message)"
proof -
  have "length (pad_zeros s) mod 64 = 56" for s
  proof (induction s rule: pad_zeros.induct)
    case (1 s)
    then show ?case by (cases "length s mod 64 = 56") (simp_all add: pad_zeros.simps [of s])
  qed
  then have "(length (pad_zeros (message @ [CHR 0x80])) + 8) mod 64 = (56 + 8) mod 64" by (metis mod_add_left_eq)
  then have "length (sha1_padding message) mod 64 = 0" by (simp add: sha1_padding_def append_big_endian_64_def add.commute)
  then show ?thesis by (simp add: sha1_padding_standard dvd_eq_mod_eq_0)
qed

lemma blocks_eq:
  "64 dvd length s \<Longrightarrow> map (\<lambda>i. take 64 (drop (64 * i) s)) [0..<length s div 64] = blocks s \<and> (\<forall>b \<in> set (blocks s). length b = 64)"
proof (induction s rule: blocks.induct)
  case (1 s)
  show ?case
  proof (cases "s = []")
    case True
    then show ?thesis by (simp add: blocks.simps)
  next
    case False
    then have len: "64 \<le> length s" using 1(2) by (simp add: dvd_imp_le)
    then have dvd: "64 dvd length (drop 64 s)" using 1(2) by (simp add: dvd_diff_nat)
    have "length s div 64 = Suc (length (drop 64 s) div 64)" using len by (simp add: div_if)
    moreover have "[0..<Suc k] = 0 # map Suc [0..<k]" for k by (simp add: map_Suc_upt upt_conv_Cons del: upt_Suc)
    ultimately have upt: "[0..<length s div 64] = 0 # map Suc [0..<length (drop 64 s) div 64]" by simp
    have bs: "blocks s = take 64 s # blocks (drop 64 s)" using False by (simp add: blocks.simps [of s])
    have ih: "map (\<lambda>i. take 64 (drop (64 * i) (drop 64 s))) [0..<length (drop 64 s) div 64] = blocks (drop 64 s)"
      "\<forall>b \<in> set (blocks (drop 64 s)). length b = 64" using 1(1) [OF False dvd] by blast+
    have "take 64 (drop (64 * Suc i) s) = take 64 (drop (64 * i) (drop 64 s))" for i by (simp add: add.commute)
    then have "map (\<lambda>i. take 64 (drop (64 * i) s)) [0..<length s div 64] = take 64 s # blocks (drop 64 s)"
      unfolding upt ih(1) [symmetric] by (simp only: list.map map_map comp_def mult_0_right drop_0)
    moreover have "length (take 64 s) = 64" using len by simp
    then have "\<forall>b \<in> set (take 64 s # blocks (drop 64 s)). length b = 64" using ih(2) by (metis set_ConsD)
    ultimately show ?thesis unfolding bs by (rule conjI)
  qed
qed

lemma foldl_cong_blocks:
  "(\<And>H b. b \<in> set bs \<Longrightarrow> f H b = g H b) \<Longrightarrow> foldl f H bs = foldl g H bs"
  by (induction bs arbitrary: H) auto

text \<open>The code computes the digest of the standard.\<close>

lemma sha1_standard: "sha1_digest message = standard_sha1 message"
proof -
  let ?p = "standard_padding message"
  have n: "(length ?p + 63) div 64 = length ?p div 64" using padding_blocks [of message] by auto
  have bs: "blocks ?p = map (\<lambda>i. take 64 (drop i ?p)) (chunk_starts ?p)"
    using blocks_eq [OF padding_blocks, of message] by (simp add: chunk_starts_def n comp_def)
  have "foldl (\<lambda>hash chunk_start. sha1_block hash (take 64 (drop chunk_start ?p))) sha1_initial (chunk_starts ?p)
      = foldl sha1_block sha1_initial (blocks ?p)" unfolding bs foldl_map by (rule refl)
  also have "\<dots> = foldl standard_block sha1_initial (blocks ?p)"
    using blocks_eq [OF padding_blocks, of message] by (intro foldl_cong_blocks sha1_block_standard) auto
  finally show ?thesis
    by (auto simp: sha1_digest_def standard_sha1_def sha1_padding_standard append_big_endian_32_def split: prod.splits)
qed

lemma length_sha1: "length (sha1_digest message) = 20"
  by (auto simp: sha1_digest_def append_big_endian_32_def Let_def split: prod.splits)

section \<open>Base64 read back\<close>

definition sextet_value :: "char \<Rightarrow> 32 word" where
  "sextet_value c = (if c = CHR ''='' then 0 else word_of_nat (length (takeWhile (\<lambda>d. d \<noteq> c) BASE64_ALPHABET)))"

fun base64_decode :: "string \<Rightarrow> string" where
  "base64_decode (a # b # c # d # rest) =
     (let triple = push_bit 18 (sextet_value a) OR push_bit 12 (sextet_value b) OR push_bit 6 (sextet_value c) OR sextet_value d in
      take (if c = CHR ''='' then 1 else if d = CHR ''='' then 2 else 3) (written_bytes [16, 8, 0] triple)
      @ base64_decode rest)"
| "base64_decode _ = []"

lemma alphabet: "length BASE64_ALPHABET = 64" "distinct BASE64_ALPHABET" "CHR ''='' \<notin> set BASE64_ALPHABET"
  by code_simp+

lemma position_nth: "distinct xs \<Longrightarrow> i < length xs \<Longrightarrow> length (takeWhile (\<lambda>d. d \<noteq> xs ! i) xs) = i"
proof (induction xs arbitrary: i)
  case (Cons x xs)
  show ?case
  proof (cases i)
    case (Suc k)
    then have "xs ! k \<noteq> x" using Cons.prems nth_mem [of k xs] by auto
    then show ?thesis using Cons Suc by simp
  qed simp
qed simp

lemma mask_63: "(w :: 32 word) AND 0x3F = take_bit 6 w"
  by (simp add: take_bit_eq_mask mask_numeral)

lemma sextet_decoded: "sextet_value (sextet w k) = take_bit 6 (drop_bit k w)" "sextet w k \<noteq> CHR ''=''"
proof -
  define i where "i = unat (take_bit 6 (drop_bit k w))"
  have "i < 64" by (simp add: i_def unsigned_take_bit_eq take_bit_nat_less_exp [of 6, simplified])
  then have i: "i < length BASE64_ALPHABET" using alphabet(1) by simp
  have s: "sextet w k = BASE64_ALPHABET ! i" by (simp add: sextet_def mask_63 i_def)
  show "sextet w k \<noteq> CHR ''=''" using nth_mem [OF i] alphabet(3) unfolding s by metis
  moreover have "length (takeWhile (\<lambda>d. d \<noteq> sextet w k) BASE64_ALPHABET) = i"
    unfolding s by (rule position_nth [OF alphabet(2) i])
  ultimately show "sextet_value (sextet w k) = take_bit 6 (drop_bit k w)"
    by (simp add: sextet_value_def i_def)
qed

lemma sextets_joined:
  assumes "take_bit 24 w = (w :: 32 word)"
  shows "push_bit 18 (take_bit 6 (drop_bit 18 w)) OR push_bit 12 (take_bit 6 (drop_bit 12 w))
    OR push_bit 6 (take_bit 6 (drop_bit 6 w)) OR take_bit 6 w = w"
proof (rule bit_word_eqI)
  fix n
  have w: "bit w n \<Longrightarrow> n < 24" using assms by (metis bit_take_bit_iff)
  show "bit (push_bit 18 (take_bit 6 (drop_bit 18 w)) OR push_bit 12 (take_bit 6 (drop_bit 12 w))
    OR push_bit 6 (take_bit 6 (drop_bit 6 w)) OR take_bit 6 w) n \<longleftrightarrow> bit w n"
    if "n < LENGTH(32)"
    using that w by (cases "n < 6"; cases "n < 12"; cases "n < 18"; cases "n < 24") (auto simp: bit_simps)
qed

definition byte_word :: "32 word \<Rightarrow> bool" where
  "byte_word w \<longleftrightarrow> take_bit 8 w = w"

lemma byte_word_value [simp]: "byte_word (byte_value c)" "byte_word 0"
  by (simp_all add: byte_word_def byte_value_def take_bit_of_nat) (simp add: take_bit_eq_mod)

lemma byte_of_mask: "byte_of w = byte_of (take_bit 8 w)"
  by (simp add: byte_of_def mask_255)

lemma triple_parts:
  assumes "byte_word x" "byte_word y" "byte_word z" and t: "t = push_bit 16 x OR push_bit 8 y OR z"
  shows "take_bit 24 t = t" "take_bit 8 (drop_bit 16 t) = x" "take_bit 8 (drop_bit 8 t) = y" "take_bit 8 t = z"
    "z = 0 \<Longrightarrow> take_bit 6 t = 0" "y = 0 \<Longrightarrow> z = 0 \<Longrightarrow> take_bit 6 (drop_bit 6 t) = 0"
proof -
  have b: "bit x n \<Longrightarrow> n < 8" "bit y n \<Longrightarrow> n < 8" "bit z n \<Longrightarrow> n < 8" for n
    using assms(1-3) unfolding byte_word_def by (metis bit_take_bit_iff)+
  show "take_bit 24 t = t" by (rule bit_word_eqI) (auto simp: t bit_simps dest: b)
  show "take_bit 8 (drop_bit 16 t) = x" by (rule bit_word_eqI) (auto simp: t bit_simps dest: b)
  show "take_bit 8 (drop_bit 8 t) = y" by (rule bit_word_eqI) (auto simp: t bit_simps dest: b)
  show "take_bit 8 t = z" by (rule bit_word_eqI) (auto simp: t bit_simps dest: b)
  show "z = 0 \<Longrightarrow> take_bit 6 t = 0" by (rule bit_word_eqI) (auto simp: t bit_simps)
  show "y = 0 \<Longrightarrow> z = 0 \<Longrightarrow> take_bit 6 (drop_bit 6 t) = 0" by (rule bit_word_eqI) (auto simp: t bit_simps)
qed

lemma base64_roundtrip: "base64_decode (base64_encode bytes) = bytes"
proof (induction bytes rule: base64_encode.induct)
  case (2 x bytes)
  define y z :: "32 word" where "y = (case bytes of [] \<Rightarrow> 0 | y # _ \<Rightarrow> byte_value y)"
    and "z = (case bytes of _ # z # _ \<Rightarrow> byte_value z | _ \<Rightarrow> 0)"
  define t where "t = push_bit 16 (byte_value x) OR push_bit 8 y OR z"
  have yz: "byte_word y" "byte_word z" by (auto simp: y_def z_def split: list.split)
  note parts = triple_parts [OF byte_word_value(1) yz t_def]
  have enc: "base64_encode (x # bytes) =
      [sextet t 18, sextet t 12, if bytes \<noteq> [] then sextet t 6 else CHR ''='', if tl bytes \<noteq> [] then sextet t 0 else CHR ''='']
      @ base64_encode (drop 2 bytes)"
    by (simp add: Let_def y_def z_def t_def)
  have ih: "base64_decode (base64_encode (drop 2 bytes)) = drop 2 bytes"
    by (rule 2) (auto simp: y_def z_def t_def)
  have six: "(if bytes \<noteq> [] then take_bit 6 (drop_bit 6 t) else 0) = take_bit 6 (drop_bit 6 t)"
    "(if tl bytes \<noteq> [] then take_bit 6 t else 0) = take_bit 6 t"
    using parts(5,6) by (cases bytes; cases "tl bytes"; simp add: y_def z_def)+
  have joined: "push_bit 18 (take_bit 6 (drop_bit 18 t)) OR push_bit 12 (take_bit 6 (drop_bit 12 t))
      OR push_bit 6 (take_bit 6 (drop_bit 6 t)) OR take_bit 6 t = t" by (rule sextets_joined [OF parts(1)])
  have bytes: "written_bytes [16, 8, 0] t = [x, byte_of y, byte_of z]"
    by (simp add: written_bytes_def byte_of_mask [of "drop_bit 16 t"] byte_of_mask [of "drop_bit 8 t"] byte_of_mask [of t] parts)
  show ?case
  proof (cases bytes)
    case Nil
    then show ?thesis using ih six joined bytes unfolding enc by (simp add: sextet_decoded sextet_value_def [of "CHR ''=''"] Let_def)
  next
    case (Cons b bs)
    show ?thesis
    proof (cases bs)
      case Nil
      then show ?thesis using Cons ih six joined bytes unfolding enc
        by (simp add: sextet_decoded sextet_value_def [of "CHR ''=''"] Let_def y_def)
    next
      case (Cons c cs)
      then show ?thesis using \<open>bytes = b # bs\<close> ih six joined bytes unfolding enc
        by (simp add: sextet_decoded Let_def y_def z_def)
    qed
  qed
qed simp

lemma length_base64: "length (base64_encode bytes) = 4 * ((length bytes + 2) div 3)"
proof (induction bytes rule: base64_encode.induct)
  case (2 x bytes)
  have "length (base64_encode (drop 2 bytes)) = 4 * ((length (drop 2 bytes) + 2) div 3)" by (rule 2) simp_all
  moreover have "(length (x # bytes) + 2) div 3 = Suc ((length (drop 2 bytes) + 2) div 3)"
    by (cases bytes; cases "tl bytes") (auto simp: div_if)
  ultimately show ?case by (simp add: Let_def)
qed simp

end
