(* ===== verification/Socket_Io.thy ===== *)
theory Socket_Io
  imports Effects
begin

text \<open>
  Reading and writing a whole number of bytes on a socket (src/src/bridge/socket_io.h and .cc). A
  socket is what its calls will meet: the pieces that arrive and the failures between them, how
  much each \<open>send\<close> takes, and what has been sent. When nothing more arrives the peer has closed
  the connection. Reading \<open>n\<close> bytes yields the first \<open>n\<close> bytes of the stream, however it is cut.
\<close>

section \<open>Sockets\<close>

datatype arrival = Arrived string | Recv_interrupted | Recv_reset | Recv_failed string

datatype acceptance = Accepted nat | Send_interrupted | Send_failed string

record socket =
  so_arrivals :: "arrival list"
  so_acceptances :: "acceptance list"
  so_sent :: string

text \<open>\<open>::recv\<close> of at most \<open>n\<close> bytes.\<close>

definition recv :: "nat \<Rightarrow> socket \<Rightarrow> arrival \<times> socket" where
  "recv n s = (case so_arrivals s of
     [] \<Rightarrow> (Arrived [], s)
   | Arrived b # rest \<Rightarrow>
       (Arrived (take n b), s\<lparr>so_arrivals := (if length b \<le> n then rest else Arrived (drop n b) # rest)\<rparr>)
   | e # rest \<Rightarrow> (e, s\<lparr>so_arrivals := rest\<rparr>))"

text \<open>\<open>::send\<close>: how many of the bytes are taken.\<close>

definition send :: "string \<Rightarrow> socket \<Rightarrow> acceptance \<times> socket" where
  "send bytes s = (case so_acceptances s of
     [] \<Rightarrow> (Accepted (length bytes), s\<lparr>so_sent := so_sent s @ bytes\<rparr>)
   | Accepted n # rest \<Rightarrow>
       (Accepted (min n (length bytes)), s\<lparr>so_acceptances := rest, so_sent := so_sent s @ take n bytes\<rparr>)
   | e # rest \<Rightarrow> (e, s\<lparr>so_acceptances := rest\<rparr>))"

fun arrival_size :: "arrival \<Rightarrow> nat" where
  "arrival_size (Arrived b) = length b + 1"
| "arrival_size e = 1"

definition pending_size :: "socket \<Rightarrow> nat" where
  "pending_size s = sum_list (map arrival_size (so_arrivals s))"

lemma recv_pending:
  assumes "recv n s = (e, s')" "0 < n" "e \<noteq> Arrived []"
  shows "pending_size s' < pending_size s"
  using assms by (auto simp: recv_def pending_size_def split: list.splits arrival.splits if_splits)

section \<open>Whole messages\<close>

text \<open>The loops of \<open>send_all\<close> here and of the writes to the parent's terminal differ in their message only.\<close>

function write_all :: "string \<Rightarrow> string \<Rightarrow> (socket, unit) action" where
  "write_all failure bytes s =
     (if bytes = [] then (Inr (), s)
      else case send bytes s of
        (Accepted n, s') \<Rightarrow> write_all failure (drop n bytes) s'
      | (Send_interrupted, s') \<Rightarrow> write_all failure bytes s'
      | (Send_failed m, s') \<Rightarrow> (Inl (Runtime_error (failure @ '': '' @ m)), s'))"
  by pat_completeness auto
termination
  by (relation "measure (\<lambda>(failure, bytes, s). length bytes + length (so_acceptances s))")
    (auto simp: send_def split: list.splits acceptance.splits)

declare write_all.simps [simp del]

definition send_all :: "string \<Rightarrow> (socket, unit) action" where
  "send_all bytes = write_all ''send failed'' bytes"

function read_up_to :: "nat \<Rightarrow> string \<Rightarrow> (socket, string option) action" where
  "read_up_to byte_count buffer s =
     (if byte_count \<le> length buffer then (Inr (Some buffer), s)
      else case recv (byte_count - length buffer) s of
        (Arrived b, s') \<Rightarrow> if b = [] then (Inr None, s') else read_up_to byte_count (buffer @ b) s'
      | (Recv_interrupted, s') \<Rightarrow> read_up_to byte_count buffer s'
      | (Recv_reset, s') \<Rightarrow> (Inr None, s')
      | (Recv_failed m, s') \<Rightarrow> (Inl (Runtime_error (''recv failed: '' @ m)), s'))"
  by pat_completeness auto
termination
proof (relation "measure (\<lambda>(byte_count, buffer, s). pending_size s)", goal_cases)
  case (2 byte_count buffer s e s' b)
  then show ?case using recv_pending [of "byte_count - length buffer" s "Arrived b" s'] by simp
next
  case (3 byte_count buffer s e s')
  then show ?case using recv_pending [of "byte_count - length buffer" s Recv_interrupted s'] by simp
qed simp

declare read_up_to.simps [simp del]

definition read_exact_or_closed :: "nat \<Rightarrow> (socket, string option) action" where
  "read_exact_or_closed byte_count = read_up_to byte_count []"

section \<open>Streams\<close>

text \<open>A socket without failures, and the bytes that arrive on it.\<close>

fun calm_arrival :: "arrival \<Rightarrow> bool" where
  "calm_arrival (Arrived b) = (b \<noteq> [])"
| "calm_arrival Recv_interrupted = True"
| "calm_arrival Recv_reset = False"
| "calm_arrival (Recv_failed m) = False"

fun arrival_bytes :: "arrival \<Rightarrow> string" where
  "arrival_bytes (Arrived b) = b"
| "arrival_bytes e = []"

definition incoming :: "socket \<Rightarrow> string" where
  "incoming s = concat (map arrival_bytes (so_arrivals s))"

definition calm :: "socket \<Rightarrow> bool" where
  "calm s \<longleftrightarrow> (\<forall>a \<in> set (so_arrivals s). calm_arrival a) \<and> (\<forall>a \<in> set (so_acceptances s). \<forall>m. a \<noteq> Send_failed m)"

lemma read_up_to_calm:
  assumes "calm s"
  shows "\<exists>s'. calm s' \<and> so_sent s' = so_sent s \<and> so_acceptances s' = so_acceptances s
     \<and> (length buffer \<le> n \<longrightarrow> n \<le> length buffer + length (incoming s) \<longrightarrow>
          read_up_to n buffer s = (Inr (Some (buffer @ take (n - length buffer) (incoming s))), s')
          \<and> incoming s' = drop (n - length buffer) (incoming s))
     \<and> (length buffer + length (incoming s) < n \<longrightarrow> read_up_to n buffer s = (Inr None, s'))"
  using assms
proof (induction n buffer s rule: read_up_to.induct)
  case (1 n buffer s)
  show ?case
  proof (cases "n \<le> length buffer")
    case True
    then show ?thesis using 1(3) by (intro exI [of _ s]) (subst read_up_to.simps, simp)
  next
    case False
    show ?thesis
    proof (cases "so_arrivals s")
      case Nil
      then show ?thesis using False 1(3)
        by (intro exI [of _ s]) (subst (1 2) read_up_to.simps, simp add: recv_def incoming_def)
    next
      case (Cons a rest)
      show ?thesis
      proof (cases a)
        case (Arrived b)
        define s1 where "s1 = s\<lparr>so_arrivals := (if length b \<le> n - length buffer then rest else Arrived (drop (n - length buffer) b) # rest)\<rparr>"
        have r: "recv (n - length buffer) s = (Arrived (take (n - length buffer) b), s1)"
          using Cons Arrived by (simp add: recv_def s1_def)
        have b: "b \<noteq> []" using 1(3) Cons Arrived by (simp add: calm_def)
        have calm: "calm s1" using 1(3) Cons Arrived False by (simp add: calm_def s1_def)
        define t where "t = take (n - length buffer) b"
        have inc: "incoming s1 = drop (length t) (incoming s)" "t = take (length t) (incoming s)" "length t \<le> n - length buffer"
          "length t \<le> length (incoming s)"
          using Cons Arrived by (cases "length b \<le> n - length buffer"; simp add: incoming_def s1_def t_def)+
        have step: "read_up_to n buffer s = read_up_to n (buffer @ t) s1"
          using False b by (subst read_up_to.simps) (simp add: r t_def)
        have ne: "t \<noteq> []" using False b by (simp add: t_def)
        have k: "n - length buffer = length t + (n - length (buffer @ t))" using inc(3) by simp
        have add: "take (n - length buffer) (incoming s) = t @ take (n - length (buffer @ t)) (incoming s1)"
          "drop (n - length buffer) (incoming s) = drop (n - length (buffer @ t)) (incoming s1)"
          unfolding k inc(1) take_add using inc(2) by (simp_all add: add.commute)
        from 1(1) [OF False r [folded t_def, symmetric] refl ne calm] obtain s' where s': "calm s'" "so_sent s' = so_sent s1"
          "so_acceptances s' = so_acceptances s1"
          "length (buffer @ t) \<le> n \<longrightarrow> n \<le> length (buffer @ t) + length (incoming s1) \<longrightarrow>
             read_up_to n (buffer @ t) s1 = (Inr (Some ((buffer @ t) @ take (n - length (buffer @ t)) (incoming s1))), s')
             \<and> incoming s' = drop (n - length (buffer @ t)) (incoming s1)"
          "length (buffer @ t) + length (incoming s1) < n \<longrightarrow> read_up_to n (buffer @ t) s1 = (Inr None, s')" by blast
        have len: "length (buffer @ t) + length (incoming s1) = length buffer + length (incoming s)" "length (buffer @ t) \<le> n"
          using inc False by simp_all
        show ?thesis
        proof (intro exI [of _ s'] conjI impI)
          show "calm s'" "so_sent s' = so_sent s" "so_acceptances s' = so_acceptances s" using s' by (simp_all add: s1_def)
          assume "n \<le> length buffer + length (incoming s)"
          then show "read_up_to n buffer s = (Inr (Some (buffer @ take (n - length buffer) (incoming s))), s')"
            "incoming s' = drop (n - length buffer) (incoming s)"
            using s'(4) len by (simp_all only: step add append_assoc simp_thms)
        next
          assume "length buffer + length (incoming s) < n"
          then show "read_up_to n buffer s = (Inr None, s')" using s'(5) len by (simp only: step simp_thms)
        qed
      next
        case Recv_interrupted
        define s1 where "s1 = s\<lparr>so_arrivals := rest\<rparr>"
        have r: "recv (n - length buffer) s = (Recv_interrupted, s1)" using Cons Recv_interrupted by (simp add: recv_def s1_def)
        have calm: "calm s1" using 1(3) Cons by (simp add: calm_def s1_def)
        have inc: "incoming s1 = incoming s" using Cons Recv_interrupted by (simp add: incoming_def s1_def)
        have step: "read_up_to n buffer s = read_up_to n buffer s1" using False by (subst read_up_to.simps) (simp add: r)
        from 1(2) [OF False r [symmetric] refl calm] show ?thesis unfolding step inc by (simp add: s1_def)
      qed (use 1(3) Cons in \<open>simp_all add: calm_def\<close>)
    qed
  qed
qed

text \<open>The stream decides what is read.\<close>

lemma read_exact_calm:
  assumes "calm s"
  obtains s' where "calm s'" "so_sent s' = so_sent s" "so_acceptances s' = so_acceptances s"
    "n \<le> length (incoming s) \<Longrightarrow> read_exact_or_closed n s = (Inr (Some (take n (incoming s))), s') \<and> incoming s' = drop n (incoming s)"
    "length (incoming s) < n \<Longrightarrow> read_exact_or_closed n s = (Inr None, s')"
  using read_up_to_calm [OF assms, of "[]" n] by (auto simp: read_exact_or_closed_def)

lemma write_all_calm:
  assumes "calm s"
  obtains s' where "write_all failure bytes s = (Inr (), s')" "calm s'" "so_sent s' = so_sent s @ bytes" "so_arrivals s' = so_arrivals s"
proof -
  have "\<exists>s'. write_all failure bytes s = (Inr (), s') \<and> calm s' \<and> so_sent s' = so_sent s @ bytes \<and> so_arrivals s' = so_arrivals s"
    using assms
  proof (induction failure bytes s rule: write_all.induct)
    case (1 failure bytes s)
    show ?case
    proof (cases "bytes = []")
      case True
      then show ?thesis using 1(3) by (subst write_all.simps) simp
    next
      case False
      show ?thesis
      proof (cases "so_acceptances s")
        case Nil
        define s1 where "s1 = s\<lparr>so_sent := so_sent s @ bytes\<rparr>"
        have r: "send bytes s = (Accepted (length bytes), s1)" using Nil by (simp add: send_def s1_def)
        have calm: "calm s1" using 1(3) by (simp add: calm_def s1_def)
        have "write_all failure bytes s = (Inr (), s1)"
          using False by (subst write_all.simps) (simp add: r, subst write_all.simps, simp)
        then show ?thesis using calm by (simp add: s1_def)
      next
        case (Cons a rest)
        show ?thesis
        proof (cases a)
          case (Accepted n)
          define s1 where "s1 = s\<lparr>so_acceptances := rest, so_sent := so_sent s @ take n bytes\<rparr>"
          have r: "send bytes s = (Accepted (min n (length bytes)), s1)" using Cons Accepted by (simp add: send_def s1_def)
          have calm: "calm s1" using 1(3) Cons by (simp add: calm_def s1_def)
          have step: "write_all failure bytes s = write_all failure (drop (min n (length bytes)) bytes) s1"
            using False by (subst write_all.simps) (simp add: r)
          have bytes: "take n bytes @ drop (min n (length bytes)) bytes = bytes" by (simp add: min_def)
          from 1(1) [OF False r [symmetric] refl calm] show ?thesis unfolding step
            by (simp add: s1_def bytes)
        next
          case Send_interrupted
          define s1 where "s1 = s\<lparr>so_acceptances := rest\<rparr>"
          have r: "send bytes s = (Send_interrupted, s1)" using Cons Send_interrupted by (simp add: send_def s1_def)
          have calm: "calm s1" using 1(3) Cons by (simp add: calm_def s1_def)
          have step: "write_all failure bytes s = write_all failure bytes s1" using False by (subst write_all.simps) (simp add: r)
          from 1(2) [OF False r [symmetric] refl calm] show ?thesis unfolding step by (simp add: s1_def)
        qed (use 1(3) Cons in \<open>simp add: calm_def\<close>)
      qed
    qed
  qed
  then show ?thesis using that by blast
qed

end
