(* ===== verification/Byte_Scan.thy ===== *)
theory Byte_Scan
  imports Byte_Search
begin

text \<open>
  Scanning byte strings for the bridge: \<open>find\<close> from a position on, and \<open>std::from_chars\<close> on an
  \<open>int\<close>, which reads a minus sign and digits and rejects what does not fit 32 bits.
\<close>

definition find_from :: "string \<Rightarrow> nat \<Rightarrow> string \<Rightarrow> nat option" where
  "find_from p i s = map_option ((+) i) (find_string p (drop i s))"

lemma find_from_append: "find_from p (length u) (u @ v) = map_option ((+) (length u)) (find_string p v)"
  by (simp add: find_from_def)

lemma find_char: "c \<notin> set u \<Longrightarrow> find_string [c] (u @ c # v) = Some (length u)"
  by (induction u) auto

text \<open>Bytes among which the first one sought does not occur.\<close>

lemma find_past:
  assumes "c \<notin> set u"
  shows "find_string (c # p) (u @ v) = map_option ((+) (length u)) (find_string (c # p) v)"
proof (rule find_string_skip)
  fix j
  assume j: "j < length u"
  then have "drop j (u @ v) = u ! j # drop (Suc j) (u @ v)"
    by (metis Cons_nth_drop_Suc length_append nth_append trans_less_add1)
  then show "\<not> starts_with (c # p) (drop j (u @ v))" using assms j nth_mem [OF j] by auto
qed simp

text \<open>The number and the bytes after it.\<close>

definition from_chars :: "string \<Rightarrow> (int \<times> string) option" where
  "from_chars s =
     (let negative = (s \<noteq> [] \<and> hd s = CHR ''-''); body = (if negative then tl s else s);
          digits = takeWhile is_digit body;
          value' = (if negative then - int (decimal_value digits) else int (decimal_value digits)) in
      if digits = [] \<or> value' < INT32_MIN \<or> INT32_MAX < value' then None
      else Some (value', dropWhile is_digit body))"

lemma from_chars_to_string:
  assumes "INT32_MIN \<le> i" "i \<le> INT32_MAX" "rest = [] \<or> \<not> is_digit (hd rest)"
  shows "from_chars (to_string i @ rest) = Some (i, rest)"
proof -
  have d: "takeWhile is_digit (decimal n @ rest) = decimal n" "dropWhile is_digit (decimal n @ rest) = rest" for n
    using decimal_digits [of n] assms(3) by (cases rest; simp add: takeWhile_append dropWhile_append)+
  have hd: "hd (decimal n @ rest) \<noteq> CHR ''-''" for n
    using decimal_digits [of n] minus_not_digit by (cases "decimal n") auto
  show ?thesis
  proof (cases "i < 0")
    case True
    then show ?thesis using assms(1,2) by (simp add: to_string_def from_chars_def d Let_def)
  next
    case False
    then show ?thesis using assms(1,2) hd [of "nat i"] by (simp add: to_string_def from_chars_def d Let_def)
  qed
qed

end
