(* ===== verification/Http_Protocol.thy ===== *)
theory Http_Protocol
  imports Socket_Io Byte_Scan
begin

text \<open>
  The requests and responses of HTTP (src/src/bridge/http_protocol.h and .cc). Looking up a header
  finds the first one of that name, in any case of letters; reading a request stops at the empty
  line, at 16384 bytes or when the connection closes.
\<close>

definition CRLF :: string where "CRLF = [CHR 0x0D, CHR 0x0A]"

section \<open>Header names\<close>

definition ascii_lower :: "char \<Rightarrow> char" where
  "ascii_lower c = (if 65 \<le> (of_char c :: nat) \<and> (of_char c :: nat) \<le> 90 then char_of (of_char c + (97 - 65) :: nat) else c)"

definition header_names_equal :: "string \<Rightarrow> string \<Rightarrow> bool" where
  "header_names_equal left right \<longleftrightarrow>
     length left = length right \<and> list_all (\<lambda>(l, r). ascii_lower l = ascii_lower r) (zip left right)"

section \<open>Requests\<close>

record http_request =
  hr_method :: string
  hr_path :: string
  hr_raw_headers :: string

function receive_request :: "string \<Rightarrow> (socket, string) action" where
  "receive_request request' s =
     (if contains request' (CRLF @ CRLF) then (Inr request', s)
      else case recv 4096 s of
        (Arrived b, s') \<Rightarrow>
          if b = [] then (Inl (Runtime_error ''connection closed while reading HTTP request''), s')
          else if length (request' @ b) > 16384 then (Inl (Runtime_error ''HTTP request headers too large''), s')
          else receive_request (request' @ b) s'
      | (e, s') \<Rightarrow> (Inl (Runtime_error ''connection closed while reading HTTP request''), s'))"
  by pat_completeness auto
termination
proof (relation "measure (\<lambda>(request', s). pending_size s)", goal_cases)
  case (2 request' s e s' b)
  then show ?case using recv_pending [of 4096 s "Arrived b" s'] by simp
qed simp

declare receive_request.simps [simp del]

text \<open>The method and the path; a space that is not found leaves \<open>npos\<close>, and the next search starts at 0.\<close>

definition parse_request_line :: "string \<Rightarrow> http_request result" where
  "parse_request_line request' =
     (let method_end = find_from '' '' 0 request';
          path_start = (case method_end of None \<Rightarrow> 0 | Some i \<Rightarrow> i + 1);
          path_end = find_from '' '' path_start request' in
      case (method_end, path_end) of
        (Some i, Some j) \<Rightarrow>
          let target = take (j - i - 1) (drop (i + 1) request');
              path = (case find_string ''?'' target of None \<Rightarrow> target | Some k \<Rightarrow> take k target) in
          Inr \<lparr>hr_method = take i request', hr_path = path, hr_raw_headers = request'\<rparr>
      | _ \<Rightarrow> Inl (Runtime_error ''malformed HTTP request line''))"

definition read_http_request :: "(socket, http_request) action" where
  "read_http_request = bind (receive_request []) (\<lambda>request'. lift (parse_request_line request'))"

section \<open>Headers\<close>

definition header_blank :: "char \<Rightarrow> bool" where
  "header_blank c \<longleftrightarrow> c = CHR '' '' \<or> c = CHR 0x09"

function header_value_from :: "string \<Rightarrow> string \<Rightarrow> nat \<Rightarrow> string option" where
  "header_value_from raw name line_start =
     (if length raw \<le> line_start then None
      else case find_from CRLF line_start raw of
        None \<Rightarrow> None
      | Some line_end \<Rightarrow>
          if line_end = line_start then None
          else
            (case find_from '':'' line_start raw of
               Some separator \<Rightarrow>
                 if separator < line_end
                    \<and> header_names_equal (take (separator - line_start) (drop line_start raw)) name
                 then Some (dropWhile header_blank (take (line_end - (separator + 1)) (drop (separator + 1) raw)))
                 else header_value_from raw name (line_end + 2)
             | None \<Rightarrow> header_value_from raw name (line_end + 2)))"
  by pat_completeness auto
termination
  by (relation "measure (\<lambda>(raw, name, line_start). length raw - line_start)") (auto simp: find_from_def)

declare header_value_from.simps [simp del]

definition header_value :: "http_request \<Rightarrow> string \<Rightarrow> string option" where
  "header_value request' name = (case find_string CRLF (hr_raw_headers request') of
     None \<Rightarrow> None
   | Some i \<Rightarrow> header_value_from (hr_raw_headers request') name (i + 2))"

section \<open>Responses\<close>

definition http_response :: "string \<Rightarrow> string \<Rightarrow> string \<Rightarrow> string" where
  "http_response status content_type body =
     ''HTTP/1.1 '' @ status @ CRLF @ ''Content-Type: '' @ content_type @ CRLF @ ''Content-Length: '' @ decimal (length body)
       @ CRLF @ ''Connection: close'' @ CRLF @ CRLF @ body"

definition send_http_response :: "string \<Rightarrow> string \<Rightarrow> string \<Rightarrow> (socket, unit) action" where
  "send_http_response status content_type body = send_all (http_response status content_type body)"

section \<open>Lookup\<close>

text \<open>A request as a client prints it: a line, headers, and an empty line.\<close>

definition printed_header :: "string \<times> string \<Rightarrow> string" where
  "printed_header h = fst h @ '': '' @ snd h @ CRLF"

definition printed_request :: "string \<Rightarrow> (string \<times> string) list \<Rightarrow> string \<Rightarrow> string" where
  "printed_request first_line headers rest = first_line @ CRLF @ concat (map printed_header headers) @ CRLF @ rest"

definition header_ok :: "string \<times> string \<Rightarrow> bool" where
  "header_ok h \<longleftrightarrow> CHR 0x0D \<notin> set (fst h) \<and> CHR '':'' \<notin> set (fst h) \<and> CHR 0x0D \<notin> set (snd h)
     \<and> (snd h \<noteq> [] \<longrightarrow> \<not> header_blank (hd (snd h)))"

lemma starts_with_simps [simp]:
  "starts_with CRLF (c # s) \<longleftrightarrow> c = CHR 0x0D \<and> starts_with [CHR 0x0A] s" "\<not> starts_with CRLF []"
  by (auto simp: CRLF_def)

lemma find_line_end: "CHR 0x0D \<notin> set u \<Longrightarrow> find_string CRLF (u @ CRLF @ v) = Some (length u)"
  by (induction u) (auto simp: CRLF_def)

lemma header_lookup:
  assumes "\<forall>h \<in> set headers. header_ok h"
  shows "header_value_from (before @ concat (map printed_header headers) @ CRLF @ rest) name (length before)
    = map_option snd (find (\<lambda>h. header_names_equal (fst h) name) headers)"
  using assms
proof (induction headers arbitrary: before)
  case Nil
  then show ?case
    using find_line_end [of "[]" rest]
    by (subst header_value_from.simps) (simp add: find_from_append CRLF_def)
next
  case (Cons h headers)
  define line where "line = fst h @ '': '' @ snd h"
  define more where "more = concat (map printed_header headers) @ CRLF @ rest"
  have h: "header_ok h" using Cons.prems by simp
  have raw: "before @ concat (map printed_header (h # headers)) @ CRLF @ rest = before @ line @ CRLF @ more"
    by (simp add: printed_header_def line_def more_def)
  have line: "CHR 0x0D \<notin> set line" "line \<noteq> []" using h by (auto simp: line_def header_ok_def)
  have eol: "find_from CRLF (length before) (before @ line @ CRLF @ more) = Some (length before + length line)"
    using find_line_end [OF line(1), of more] by (simp add: find_from_append)
  have "find_string '':'' (line @ CRLF @ more) = Some (length (fst h))"
    using find_char [of "CHR '':''" "fst h" "'' '' @ snd h @ CRLF @ more"] h by (simp add: line_def header_ok_def)
  then have sep: "find_from '':'' (length before) (before @ line @ CRLF @ more) = Some (length before + length (fst h))"
    by (simp add: find_from_append)
  have less: "length (fst h) < length line" by (simp add: line_def)
  define R where "R = before @ line @ CRLF @ more"
  have name: "take (length (fst h)) (drop (length before) R) = fst h"
    "take (length line - Suc (length (fst h))) (drop (Suc (length before + length (fst h))) R) = CHR '' '' # snd h"
    by (simp_all add: R_def line_def)
  have len: "length before < length R" using line by (simp add: R_def CRLF_def)
  have blank: "dropWhile header_blank (snd h) = snd h" "header_blank (CHR '' '')"
    using h by (cases "snd h"; auto simp: header_ok_def header_blank_def)+
  have next_line: "header_value_from (before @ line @ CRLF @ more) name (length before + length line + 2)
      = map_option snd (find (\<lambda>h. header_names_equal (fst h) name) headers)"
    using Cons.IH [of "before @ line @ CRLF"] Cons.prems by (simp add: more_def CRLF_def add.assoc)
  have "header_value_from (before @ line @ CRLF @ more) name (length before)
      = (if header_names_equal (fst h) name then Some (snd h)
         else header_value_from (before @ line @ CRLF @ more) name (length before + length line + 2))"
    using line(2) less len unfolding R_def [symmetric]
    by (subst header_value_from.simps) (simp add: eol [folded R_def] sep [folded R_def] name blank)
  then show ?case unfolding raw next_line by simp
qed

lemma header_value_printed:
  assumes "CHR 0x0D \<notin> set first_line" "\<forall>h \<in> set headers. header_ok h" "hr_raw_headers request' = printed_request first_line headers rest"
  shows "header_value request' name = map_option snd (find (\<lambda>h. header_names_equal (fst h) name) headers)"
  using header_lookup [OF assms(2), of "first_line @ CRLF" rest name] find_line_end [OF assms(1)]
  by (simp add: header_value_def assms(3) printed_request_def CRLF_def)

section \<open>Whole requests\<close>

text \<open>The empty line that ends the headers is the first place where two line ends meet.\<close>

definition printed_lines :: "string list \<Rightarrow> string" where
  "printed_lines ls = concat (map (\<lambda>l. l @ CRLF) ls)"

definition line_ok :: "string \<Rightarrow> bool" where
  "line_ok l \<longleftrightarrow> l \<noteq> [] \<and> CHR 0x0D \<notin> set l"

lemma skip_plain:
  assumes "CHR 0x0D \<notin> set u"
  shows "find_string (CRLF @ CRLF) (u @ v) = map_option ((+) (length u)) (find_string (CRLF @ CRLF) v)"
  using find_past [OF assms, of "[CHR 0x0A] @ CRLF" v] by (simp add: CRLF_def)

lemma find_header_end:
  assumes "\<forall>l \<in> set ls. line_ok l" "ls \<noteq> []"
  shows "find_string (CRLF @ CRLF) (printed_lines ls @ CRLF @ v) = Some (length (printed_lines ls) - 2)"
  using assms
proof (induction ls)
  case (Cons l ls)
  have l: "CHR 0x0D \<notin> set l" using Cons.prems by (simp add: line_ok_def)
  show ?case
  proof (cases ls)
    case Nil
    then show ?thesis using skip_plain [OF l, of "CRLF @ CRLF @ v"]
      by (simp add: printed_lines_def) (simp add: CRLF_def)
  next
    case (Cons l2 ls2)
    have l2: "l2 \<noteq> []" "CHR 0x0D \<notin> set l2" using Cons.prems Cons by (simp_all add: line_ok_def)
    then obtain c cs where c: "l2 = c # cs" "c \<noteq> CHR 0x0D" by (cases l2) auto
    have "find_string (CRLF @ CRLF) (CRLF @ printed_lines ls @ CRLF @ v)
        = map_option ((+) 2) (find_string (CRLF @ CRLF) (printed_lines ls @ CRLF @ v))"
      using c by (simp add: CRLF_def Cons printed_lines_def option.map_comp comp_def)
    moreover have "find_string (CRLF @ CRLF) (printed_lines ls @ CRLF @ v) = Some (length (printed_lines ls) - 2)"
      using Cons.IH Cons.prems Cons by simp
    moreover have "2 \<le> length (printed_lines ls)" by (simp add: Cons printed_lines_def CRLF_def)
    ultimately show ?thesis using skip_plain [OF l, of "CRLF @ printed_lines ls @ CRLF @ v"]
      by (simp add: printed_lines_def) (simp add: CRLF_def)
  qed
qed simp

lemma whole_headers:
  assumes ls: "\<forall>l \<in> set ls. line_ok l" "ls \<noteq> []" and p: "printed_lines ls @ CRLF @ v = P @ Q" "contains P (CRLF @ CRLF)"
  obtains v' where "P = printed_lines ls @ CRLF @ v'"
proof -
  from p(2) obtain i where i: "find_string (CRLF @ CRLF) P = Some i" by (auto simp: contains_def)
  have "find_string (CRLF @ CRLF) (P @ Q) = Some i" by (rule find_string_append [OF i])
  then have "i = length (printed_lines ls) - 2" using find_header_end [OF ls, of v] p(1) by simp
  moreover have "2 \<le> length (printed_lines ls)" using ls(2) by (cases ls) (simp_all add: printed_lines_def CRLF_def)
  ultimately have "length (printed_lines ls @ CRLF) \<le> length P"
    using find_string_bound [OF i] by (simp add: CRLF_def)
  then have "take (length (printed_lines ls @ CRLF)) P = printed_lines ls @ CRLF"
    using p(1) by (metis append_eq_append_conv_if append_assoc)
  then have "P = printed_lines ls @ CRLF @ drop (length (printed_lines ls @ CRLF)) P"
    by (metis append_take_drop_id append_assoc)
  then show ?thesis by (rule that)
qed

text \<open>An interrupted \<open>recv\<close> counts as a closed connection here, so the socket must be free of those too.\<close>

definition steady :: "socket \<Rightarrow> bool" where
  "steady s \<longleftrightarrow> calm s \<and> Recv_interrupted \<notin> set (so_arrivals s)"

lemma receive_request_steady:
  assumes "steady s" "length (got @ incoming s) \<le> 16384" "contains (got @ incoming s) (CRLF @ CRLF)"
  shows "\<exists>P Q s'. receive_request got s = (Inr P, s') \<and> got @ incoming s = P @ Q \<and> contains P (CRLF @ CRLF)
     \<and> steady s' \<and> incoming s' = Q \<and> so_sent s' = so_sent s"
  using assms
proof (induction got s rule: receive_request.induct)
  case (1 got s)
  show ?case
  proof (cases "contains got (CRLF @ CRLF)")
    case True
    then show ?thesis using 1(2) by (subst receive_request.simps) auto
  next
    case False
    then obtain a rest where Cons: "so_arrivals s = a # rest" using 1(4) by (cases "so_arrivals s") (auto simp: incoming_def)
    have "calm_arrival a" "a \<noteq> Recv_interrupted" using 1(2) Cons by (auto simp: steady_def calm_def)
    then obtain b where b: "a = Arrived b" "b \<noteq> []" by (cases a) auto
    define s1 where "s1 = s\<lparr>so_arrivals := (if length b \<le> 4096 then rest else Arrived (drop 4096 b) # rest)\<rparr>"
    have r: "recv 4096 s = (Arrived (take 4096 b), s1)" using Cons b by (simp add: recv_def s1_def)
    have inc: "take 4096 b @ incoming s1 = incoming s" using Cons b by (simp add: incoming_def s1_def)
    have s1: "steady s1" "so_sent s1 = so_sent s" using 1(2) Cons b by (auto simp: steady_def calm_def s1_def)
    have short: "\<not> length (got @ take 4096 b) > 16384" using 1(3) unfolding inc [symmetric] by simp
    have "receive_request got s = receive_request (got @ take 4096 b) s1"
      using False b short by (subst receive_request.simps) (simp add: r)
    then show ?thesis
      using 1(1) [OF False r [symmetric] refl _ short s1(1)] 1(3,4) b s1(2) unfolding inc [symmetric] by simp
  qed
qed

lemma first_char: "c \<notin> set u \<Longrightarrow> find_from [c] (length w) (w @ u @ c # v) = Some (length w + length u)"
  by (simp add: find_from_append find_char)

lemma path_of_target:
  "(case find_string ''?'' t of None \<Rightarrow> t | Some k \<Rightarrow> take k t) = takeWhile (\<lambda>c. c \<noteq> CHR ''?'') t"
proof (induction t)
  case (Cons c t)
  then show ?case by (cases "find_string ''?'' t") auto
qed simp

text \<open>However it is cut, a request that arrives is read with its method, path and headers.\<close>

lemma request_read:
  assumes s: "steady s" "incoming s = printed_request (meth @ '' '' @ target @ '' '' @ version) headers rest"
      "length (incoming s) \<le> 16384"
    and line: "CHR '' '' \<notin> set meth" "CHR '' '' \<notin> set target" "CHR 0x0D \<notin> set (meth @ target @ version)"
    and headers: "\<forall>h \<in> set headers. header_ok h"
  shows "\<exists>request' s'. read_http_request s = (Inr request', s') \<and> steady s' \<and> so_sent s' = so_sent s
     \<and> hr_method request' = meth \<and> hr_path request' = takeWhile (\<lambda>c. c \<noteq> CHR ''?'') target
     \<and> (\<forall>name. header_value request' name = map_option snd (find (\<lambda>h. header_names_equal (fst h) name) headers))"
proof -
  let ?first = "meth @ '' '' @ target @ '' '' @ version"
  define ls where "ls = ?first # map (\<lambda>h. fst h @ '': '' @ snd h) headers"
  have ls: "\<forall>l \<in> set ls. line_ok l" "ls \<noteq> []" using line headers by (auto simp: ls_def line_ok_def header_ok_def)
  have printed: "printed_request ?first headers v = printed_lines ls @ CRLF @ v" for v
    by (simp add: printed_request_def printed_lines_def ls_def printed_header_def [abs_def] comp_def)
  have "contains ([] @ incoming s) (CRLF @ CRLF)"
    using find_header_end [OF ls, of rest] unfolding contains_def s(2) printed append_Nil by simp
  from receive_request_steady [OF s(1) _ this] s(3) obtain P Q s' where P: "receive_request [] s = (Inr P, s')"
    "incoming s = P @ Q" "contains P (CRLF @ CRLF)" "steady s'" "so_sent s' = so_sent s" by auto
  from whole_headers [OF ls _ P(3), of rest Q] P(2) obtain v where v: "P = printed_lines ls @ CRLF @ v"
    unfolding s(2) printed by blast
  have raw: "P = printed_request ?first headers v" unfolding printed v by (rule refl)
  define u where "u = version @ CRLF @ concat (map printed_header headers) @ CRLF @ v"
  have Pu: "P = meth @ '' '' @ target @ '' '' @ u" by (simp add: raw printed_request_def u_def)
  have i: "find_from '' '' 0 P = Some (length meth)" using first_char [OF line(1), of "[]" "target @ '' '' @ u"] by (simp add: Pu)
  have j: "find_from '' '' (length meth + 1) P = Some (length meth + 1 + length target)"
    using first_char [OF line(2), of "meth @ '' ''" u] by (simp add: Pu)
  have t: "take (length target) (drop (length meth + 1) P) = target" by (simp add: Pu)
  have "parse_request_line P = Inr \<lparr>hr_method = meth, hr_path = takeWhile (\<lambda>c. c \<noteq> CHR ''?'') target, hr_raw_headers = P\<rparr>"
    using t by (simp add: parse_request_line_def i j [simplified] Let_def path_of_target) (simp add: Pu)
  moreover have "header_value \<lparr>hr_method = meth, hr_path = p, hr_raw_headers = P\<rparr> name
      = map_option snd (find (\<lambda>h. header_names_equal (fst h) name) headers)" for p name
    using line(3) headers raw by (intro header_value_printed [of ?first _ _ v]) auto
  ultimately show ?thesis by (simp add: read_http_request_def bind_run P lift_def)
qed

end
