(* ===== verification/Websocket_Protocol.thy ===== *)
theory Websocket_Protocol
  imports Sha1 Http_Protocol
begin

text \<open>
  Websocket frames and the opening handshake (src/src/bridge/websocket_protocol.h and .cc). A frame
  that arrives, masked or not and cut in any way, is read with its opcode and payload, and the
  bytes after it stay; what the bridge sends is such a frame.
\<close>

section \<open>Frames\<close>

type_synonym opcode = "8 word"

definition TEXT_OPCODE :: opcode where "TEXT_OPCODE = 0x1"
definition BINARY_OPCODE :: opcode where "BINARY_OPCODE = 0x2"
definition CLOSE_OPCODE :: opcode where "CLOSE_OPCODE = 0x8"

record websocket_frame =
  wf_opcode :: opcode
  wf_payload :: string

definition MAX_WEBSOCKET_FRAME_SIZE :: nat where "MAX_WEBSOCKET_FRAME_SIZE = 1024 * 1024"

definition server_frame :: "opcode \<Rightarrow> string \<Rightarrow> string" where
  "server_frame opcode payload =
     (let n = length payload; size = (word_of_nat n :: 64 word); frame = [byte_of (0x80 OR opcode)] in
      (if n < 126 then frame @ [byte_of size]
       else if n \<le> 65535 then frame @ [byte_of (126 :: 64 word), byte_of (drop_bit 8 size), byte_of size]
       else append_big_endian_64 (frame @ [byte_of (127 :: 64 word)]) size) @ payload)"

definition send_websocket_frame :: "opcode \<Rightarrow> string \<Rightarrow> (socket, unit) action" where
  "send_websocket_frame opcode payload = send_all (server_frame opcode payload)"

text \<open>An optional that is empty ends the reading of the frame.\<close>

definition bind_some :: "('w, 'a option) action \<Rightarrow> ('a \<Rightarrow> ('w, 'b option) action) \<Rightarrow> ('w, 'b option) action" where
  "bind_some f g = bind f (\<lambda>x. case x of None \<Rightarrow> return None | Some y \<Rightarrow> g y)"

definition read_payload_length :: "64 word \<Rightarrow> (socket, 64 word option) action" where
  "read_payload_length short =
     (if short = 126 then bind_some (read_exact_or_closed 2) (\<lambda>extended. return (Some (read_bytes extended)))
      else if short = 127 then bind_some (read_exact_or_closed 8) (\<lambda>extended. return (Some (read_bytes extended)))
      else return (Some short))"

definition unmask :: "string \<Rightarrow> string \<Rightarrow> string" where
  "unmask masking payload =
     map (\<lambda>i. byte_of (byte_value (payload ! i) XOR byte_value (masking ! (i mod 4)) :: 8 word)) [0..<length payload]"

definition read_websocket_frame :: "(socket, websocket_frame option) action" where
  "read_websocket_frame =
     bind_some (read_exact_or_closed 2) (\<lambda>header.
     let first_byte = (byte_value (header ! 0) :: 8 word); second_byte = (byte_value (header ! 1) :: 8 word);
         masked = (second_byte AND 0x80 \<noteq> 0) in
     bind_some (read_payload_length (ucast (second_byte AND 0x7F))) (\<lambda>payload_length.
     bind (guard (unat payload_length \<le> MAX_WEBSOCKET_FRAME_SIZE) (Runtime_error ''websocket frame too large'')) (\<lambda>_.
     bind_some (if masked then read_exact_or_closed 4 else return (Some [])) (\<lambda>masking.
     bind_some (read_exact_or_closed (unat payload_length)) (\<lambda>payload.
     return (Some \<lparr>wf_opcode = first_byte AND 0x0F,
       wf_payload = (if masked then unmask masking payload else payload)\<rparr>))))))"

section \<open>The handshake\<close>

definition handshake_response :: "string \<Rightarrow> string" where
  "handshake_response client_key =
     ''HTTP/1.1 101 Switching Protocols'' @ CRLF @ ''Upgrade: websocket'' @ CRLF @ ''Connection: Upgrade'' @ CRLF
       @ ''Sec-WebSocket-Accept: '' @ websocket_accept_key client_key @ CRLF
       @ ''Sec-WebSocket-Protocol: workspace-pty'' @ CRLF @ CRLF"

definition send_websocket_handshake :: "http_request \<Rightarrow> (socket, bool) action" where
  "send_websocket_handshake request' = (case header_value request' ''Sec-WebSocket-Key'' of
     None \<Rightarrow> bind (send_http_response ''400 Bad Request'' ''text/plain'' (''missing websocket key'' @ [CHR 0x0A])) (\<lambda>_. return False)
   | Some client_key \<Rightarrow> bind (send_all (handshake_response client_key)) (\<lambda>_. return True))"

section \<open>Reading what a client sends\<close>

text \<open>A frame with any mask, in the shortest form of its length, as the standard prescribes.\<close>

definition length_bytes :: "nat \<Rightarrow> nat \<Rightarrow> string" where
  "length_bytes mask_bit n =
     (if n < 126 then [char_of (mask_bit + n)]
      else if n < 2 ^ 16 then char_of (mask_bit + 126) # written_bytes [8, 0] (word_of_nat n :: 16 word)
      else char_of (mask_bit + 127) # written_bytes [56, 48, 40, 32, 24, 16, 8, 0] (word_of_nat n :: 64 word))"

definition sent_frame :: "opcode \<Rightarrow> string option \<Rightarrow> string \<Rightarrow> string" where
  "sent_frame opcode masking payload =
     byte_of (0x80 OR opcode) # (case masking of
        None \<Rightarrow> length_bytes 0 (length payload) @ payload
      | Some m \<Rightarrow> length_bytes 128 (length payload) @ m @ unmask m payload)"

lemma bind_some_run:
  "f s = (Inr (Some x), s') \<Longrightarrow> bind_some f g s = g x s'" "f s = (Inr None, s') \<Longrightarrow> bind_some f g s = (Inr None, s')"
  by (simp_all add: bind_some_def bind_run return_def)

lemma bind_run_Inr: "f s = (Inr x, s') \<Longrightarrow> bind f g s = g x s'"
  by (simp add: bind_run)

text \<open>Reading the bytes at the front of the stream.\<close>

lemma read_front:
  assumes "calm s" "incoming s = u @ v"
  obtains s' where "read_exact_or_closed (length u) s = (Inr (Some u), s')" "calm s'" "incoming s' = v"
    "so_sent s' = so_sent s" "so_acceptances s' = so_acceptances s"
proof -
  have n: "length u \<le> length (incoming s)" "take (length u) (incoming s) = u" "drop (length u) (incoming s) = v"
    using assms(2) by simp_all
  from read_exact_calm [OF assms(1), of "length u"] n that show ?thesis by metis
qed

lemma unmask_twice: "length m = 4 \<Longrightarrow> unmask m (unmask m payload) = payload"
  by (rule nth_equalityI) (simp_all add: unmask_def xor.assoc)

lemma second_byte:
  assumes "n < 128" "b = 0 \<or> b = 128"
  shows "(byte_value (char_of (b + n)) :: 8 word) AND 0x7F = word_of_nat n"
    "(byte_value (char_of (b + n)) :: 8 word) AND 0x80 \<noteq> 0 \<longleftrightarrow> b = 128"
proof -
  have v: "(byte_value (char_of (b + n)) :: 8 word) = word_of_nat (b + n)"
    using assms by (auto simp: byte_value_def)
  have "(word_of_nat (b + n) :: 8 word) AND 0x7F = take_bit 7 (word_of_nat (b + n))"
    by (simp add: take_bit_eq_mask mask_numeral)
  also have "\<dots> = word_of_nat (take_bit 7 (b + n))" by (rule take_bit_of_nat)
  also have "take_bit 7 (b + n) = n" using assms by (auto simp: take_bit_eq_mod)
  finally show "(byte_value (char_of (b + n)) :: 8 word) AND 0x7F = word_of_nat n" unfolding v .
  have "(word_of_nat (b + n) :: 8 word) AND 2 ^ 7 \<noteq> 0 \<longleftrightarrow> bit (word_of_nat (b + n) :: 8 word) 7"
    by (simp only: and_exp_eq_0_iff_not_bit not_not)
  also have "\<dots> \<longleftrightarrow> bit (b + n) 7" by (simp add: bit_of_nat_iff del: of_nat_add)
  also have "\<dots> \<longleftrightarrow> odd ((b + n) div 2 ^ 7)" by (rule bit_iff_odd)
  also have "(b + n) div 2 ^ 7 = (if b = 128 then 1 else 0)" using assms by (elim disjE) simp_all
  also have "odd (if b = 128 then 1 else 0 :: nat) \<longleftrightarrow> b = 128" by simp
  finally show "(byte_value (char_of (b + n)) :: 8 word) AND 0x80 \<noteq> 0 \<longleftrightarrow> b = 128" unfolding v by simp
qed

lemma payload_length_read:
  assumes n: "n \<le> 2 ^ 20" and s: "calm s" "incoming s = tl (length_bytes b n) @ v" and b: "b = 0 \<or> b = 128"
  obtains c s' where "hd (length_bytes b n) = c" "(byte_value c :: 8 word) AND 0x80 \<noteq> 0 \<longleftrightarrow> b = 128"
    "read_payload_length (ucast ((byte_value c :: 8 word) AND 0x7F)) s = (Inr (Some (word_of_nat n)), s')"
    "calm s'" "incoming s' = v" "so_sent s' = so_sent s" "so_acceptances s' = so_acceptances s"
proof -
  have cast: "(ucast (word_of_nat k :: 8 word) :: 64 word) = word_of_nat k" if "k < 128" for k
    using that by (simp add: unsigned_of_nat take_bit_nat_eq_self)
  consider "n < 126" | "126 \<le> n" "n < 2 ^ 16" | "2 ^ 16 \<le> n" by linarith
  then show ?thesis
  proof cases
    case 1
    have ne: "(word_of_nat n :: 64 word) \<noteq> 126" "(word_of_nat n :: 64 word) \<noteq> 127"
      using 1 by (auto dest!: arg_cong [of _ _ unat] simp: unsigned_of_nat take_bit_nat_eq_self)
    show ?thesis using 1 s that [of "char_of (b + n)" s] second_byte [of n b] b
      by (simp add: length_bytes_def read_payload_length_def cast ne return_def)
  next
    case 2
    let ?u = "written_bytes [8, 0] (word_of_nat n :: 16 word)"
    have inc: "incoming s = ?u @ v" using s 2 by (simp add: length_bytes_def)
    from read_front [OF s(1) inc] obtain s' where s': "read_exact_or_closed (length ?u) s = (Inr (Some ?u), s')" "calm s'"
      "incoming s' = v" "so_sent s' = so_sent s" "so_acceptances s' = so_acceptances s" by blast
    have len: "length ?u = 2" by simp
    have "read_bytes ?u = (word_of_nat n :: 64 word)"
      using 2 by (simp add: read_written_wide unsigned_of_nat take_bit_nat_eq_self)
    then have "read_payload_length 126 s = (Inr (Some (word_of_nat n)), s')"
      using s'(1) [unfolded len] by (simp add: read_payload_length_def bind_some_run(1) return_def)
    then show ?thesis using 2 s' that [of "char_of (b + 126)" s'] second_byte [of 126 b] b by (simp add: length_bytes_def)
  next
    case 3
    let ?u = "written_bytes [56, 48, 40, 32, 24, 16, 8, 0] (word_of_nat n :: 64 word)"
    have inc: "incoming s = ?u @ v" using s 3 by (simp add: length_bytes_def)
    from read_front [OF s(1) inc] obtain s' where s': "read_exact_or_closed (length ?u) s = (Inr (Some ?u), s')" "calm s'"
      "incoming s' = v" "so_sent s' = so_sent s" "so_acceptances s' = so_acceptances s" by blast
    have len: "length ?u = 8" by simp
    have "read_payload_length 127 s = (Inr (Some (word_of_nat n)), s')"
      using s'(1) [unfolded len] by (simp add: read_payload_length_def bind_some_run(1) return_def read_written)
    then show ?thesis using 3 s' that [of "char_of (b + 127)" s'] second_byte [of 127 b] b by (simp add: length_bytes_def)
  qed
qed

lemma first_byte:
  "take_bit 4 opcode = opcode \<Longrightarrow> (byte_value (byte_of (0x80 OR opcode)) :: 8 word) AND 0x0F = (opcode :: 8 word)"
proof -
  assume op: "take_bit 4 opcode = opcode"
  have "(0x80 OR opcode) AND 0x0F = take_bit 4 (0x80 OR opcode)" by (simp add: take_bit_eq_mask mask_numeral)
  also have "\<dots> = opcode" using op by (simp add: take_bit_or)
  finally show ?thesis by simp
qed

text \<open>A frame is read back, unmasked, and what follows it is left.\<close>

lemma read_sent_frame:
  assumes s: "calm s" "incoming s = sent_frame opcode masking payload @ rest"
    and ok: "take_bit 4 opcode = opcode" "length payload \<le> MAX_WEBSOCKET_FRAME_SIZE" "\<forall>m. masking = Some m \<longrightarrow> length m = 4"
  obtains s' where "read_websocket_frame s = (Inr (Some \<lparr>wf_opcode = opcode, wf_payload = payload\<rparr>), s')" "calm s'"
    "incoming s' = rest" "so_sent s' = so_sent s" "so_acceptances s' = so_acceptances s"
proof -
  define b :: nat where "b = (if masking = None then 0 else 128)"
  define m where "m = (case masking of None \<Rightarrow> [] | Some m \<Rightarrow> m)"
  define body where "body = (if masking = None then payload else unmask m payload)"
  let ?h = "length_bytes b (length payload)"
  have n: "length payload \<le> 2 ^ 20" using ok(2) by (simp add: MAX_WEBSOCKET_FRAME_SIZE_def)
  have h: "?h = hd ?h # tl ?h" by (simp add: length_bytes_def)
  have inc: "incoming s = [byte_of (0x80 OR opcode), hd ?h] @ (tl ?h @ m @ body @ rest)"
    using s(2) h by (cases masking) (simp_all add: sent_frame_def b_def m_def body_def)
  have b: "b = 0 \<or> b = 128" "b = 128 \<longleftrightarrow> masking \<noteq> None" by (simp_all add: b_def)
  let ?header = "[byte_of (0x80 OR opcode), hd ?h]"
  have two: "length ?header = 2" by simp
  from read_front [OF s(1) inc] obtain s1 where s1: "read_exact_or_closed 2 s = (Inr (Some ?header), s1)" "calm s1"
    "incoming s1 = tl ?h @ m @ body @ rest" "so_sent s1 = so_sent s" "so_acceptances s1 = so_acceptances s"
    unfolding two by blast
  from payload_length_read [OF n s1(2,3) b(1)] obtain s2 where s2:
    "(byte_value (hd ?h) :: 8 word) AND 0x80 \<noteq> 0 \<longleftrightarrow> b = 128"
    "read_payload_length (ucast ((byte_value (hd ?h) :: 8 word) AND 0x7F)) s1 = (Inr (Some (word_of_nat (length payload))), s2)"
    "calm s2" "incoming s2 = m @ body @ rest" "so_sent s2 = so_sent s1" "so_acceptances s2 = so_acceptances s1" by metis
  have size: "unat (word_of_nat (length payload) :: 64 word) = length payload"
    using n by (simp add: unsigned_of_nat take_bit_nat_eq_self)
  obtain s3 where s3: "(if b = 128 then read_exact_or_closed 4 else return (Some [])) s2 = (Inr (Some m), s3)" "calm s3"
    "incoming s3 = body @ rest" "so_sent s3 = so_sent s2" "so_acceptances s3 = so_acceptances s2"
  proof (cases masking)
    case None
    then show ?thesis using that [of s2] s2 b by (simp add: m_def return_def)
  next
    case (Some k)
    then have four: "length m = 4" using ok(3) by (simp add: m_def)
    from read_front [OF s2(3,4)] obtain s' where s': "read_exact_or_closed (length m) s2 = (Inr (Some m), s')" "calm s'"
      "incoming s' = body @ rest" "so_sent s' = so_sent s2" "so_acceptances s' = so_acceptances s2" by blast
    show ?thesis by (rule that [of s']) (use s' four Some b in simp_all)
  qed
  have body: "length body = length payload" by (simp add: body_def unmask_def)
  from read_front [OF s3(2,3)] obtain s4 where s4: "read_exact_or_closed (length payload) s3 = (Inr (Some body), s4)" "calm s4"
    "incoming s4 = rest" "so_sent s4 = so_sent s3" "so_acceptances s4 = so_acceptances s3" unfolding body by blast
  have unmasked: "(if b = 128 then unmask m body else body) = payload"
    using unmask_twice [of m payload] ok(3) by (auto simp: body_def m_def b_def)
  have guard: "guard (length payload \<le> MAX_WEBSOCKET_FRAME_SIZE) e s2 = (Inr (), s2)" for e
    using ok(2) by (simp add: guard_def return_def)
  have "read_websocket_frame s = (Inr (Some \<lparr>wf_opcode = opcode, wf_payload = payload\<rparr>), s4)"
    unfolding read_websocket_frame_def Let_def bind_some_run(1) [where f = "read_exact_or_closed 2", OF s1(1)] nth_Cons_0 nth_Cons_Suc One_nat_def
      bind_some_run(1) [where f = "read_payload_length _", OF s2(2)] s2(1) size
      bind_run_Inr [where f = "guard _ _", OF guard]
      bind_some_run(1) [where f = "if _ then _ else _", OF s3(1)]
      bind_some_run(1) [where f = "read_exact_or_closed (length payload)", OF s4(1)]
      first_byte [OF ok(1)] unmasked
    by (simp add: return_def)
  then show ?thesis using that s4 s3 s2 s1 by metis
qed

text \<open>What the bridge sends is a frame without a mask.\<close>

lemma server_frame_sent:
  assumes "length payload < 2 ^ 64"
  shows "server_frame opcode payload = sent_frame opcode None payload"
proof -
  let ?n = "length payload"
  have small: "byte_of (word_of_nat ?n :: 64 word) = char_of ?n" if "?n < 126"
    using that by (simp add: byte_of_def mask_255 take_bit_of_nat unsigned_of_nat take_bit_nat_eq_self)
  have "byte_of (drop_bit 8 (word_of_nat ?n :: 64 word)) = byte_of (drop_bit 8 (word_of_nat ?n :: 16 word))"
    "byte_of (word_of_nat ?n :: 64 word) = byte_of (word_of_nat ?n :: 16 word)" if "?n < 2 ^ 16"
    using that by (simp_all add: byte_of_def mask_255 unsigned_take_bit_eq unsigned_drop_bit_eq unsigned_of_nat take_bit_nat_eq_self)
  moreover have "byte_of (126 :: 64 word) = char_of (126 :: nat)" "byte_of (127 :: 64 word) = char_of (127 :: nat)" by code_simp+
  ultimately show ?thesis using small assms
    by (auto simp: server_frame_def sent_frame_def length_bytes_def Let_def append_big_endian_64_def written_bytes_def)
qed

end
