(* ===== verification/Pane_View.thy ===== *)
theory Pane_View
  imports Big_Endian Pane_Geometry
begin

text \<open>
  What the parent and the bridge say to each other about single panes
  (src/src/parent/view/pane_view_protocol.h and .cc): the output of a pane and its new size, in
  frames with a length in front. Every message that can be encoded is decoded again from its
  frame, whatever follows it, and no shorter piece of the frame is mistaken for one.
\<close>

section \<open>Messages\<close>

record pane_view_output =
  vo_tray_key :: string
  vo_pane_id :: pane_id
  vo_bytes :: string

record pane_view_resize =
  vz_tray_key :: string
  vz_pane_id :: pane_id
  vz_size :: terminal_size

datatype pane_view_message = View_output pane_view_output | View_resize pane_view_resize

definition OUTPUT_MESSAGE :: "8 word" where "OUTPUT_MESSAGE = 0"
definition RESIZE_MESSAGE :: "8 word" where "RESIZE_MESSAGE = 1"
definition FRAME_HEADER_SIZE :: nat where "FRAME_HEADER_SIZE = 4"
definition IDENTITY_SIZE_WITHOUT_TRAY :: nat where "IDENTITY_SIZE_WITHOUT_TRAY = 2 + 8"
definition RESIZE_PAYLOAD_SIZE :: nat where "RESIZE_PAYLOAD_SIZE = 8"
definition MAX_FRAME_SIZE :: nat where "MAX_FRAME_SIZE = 1024 * 1024"

section \<open>Words in byte strings\<close>

definition append_u16 :: "string \<Rightarrow> 16 word \<Rightarrow> string" where
  "append_u16 output v = output @ written_bytes [8, 0] v"

definition append_u32 :: "string \<Rightarrow> 32 word \<Rightarrow> string" where
  "append_u32 output v = output @ written_bytes [24, 16, 8, 0] v"

definition append_u64 :: "string \<Rightarrow> 64 word \<Rightarrow> string" where
  "append_u64 output v = output @ written_bytes [56, 48, 40, 32, 24, 16, 8, 0] v"

text \<open>Reading with \<open>at\<close>, which checks the index.\<close>

definition bytes_at :: "nat \<Rightarrow> string \<Rightarrow> nat \<Rightarrow> string result" where
  "bytes_at n s offset =
     throw_if (length s < offset + n) (Out_of_range ''basic_string_view::at'') (Inr (take n (drop offset s)))"

definition read_u16 :: "string \<Rightarrow> nat \<Rightarrow> 16 word result" where
  "read_u16 input offset = and_then (bytes_at 2 input offset) (\<lambda>b. Inr (read_bytes b))"

definition read_u32 :: "string \<Rightarrow> nat \<Rightarrow> 32 word result" where
  "read_u32 input offset = and_then (bytes_at 4 input offset) (\<lambda>b. Inr (read_bytes b))"

definition read_u64 :: "string \<Rightarrow> nat \<Rightarrow> 64 word result" where
  "read_u64 input offset = and_then (bytes_at 8 input offset) (\<lambda>b. Inr (read_bytes b))"

section \<open>Identities\<close>

definition append_identity :: "string \<Rightarrow> string \<Rightarrow> pane_id \<Rightarrow> string result" where
  "append_identity output tray_key pane =
     throw_if (length tray_key > 65535) (Invalid_argument ''pane view tray key is too long'')
       (Inr (append_u64 (append_u16 output (word_of_nat (length tray_key)) @ tray_key) (word_of_nat pane)))"

record decoded_identity =
  di_tray_key :: string
  di_pane_id :: pane_id
  di_next_offset :: nat

definition decode_identity :: "string \<Rightarrow> decoded_identity option result" where
  "decode_identity payload =
     (if length payload < IDENTITY_SIZE_WITHOUT_TRAY then Inr None
      else
        and_then (read_u16 payload 0) (\<lambda>size.
        let tray_length = unat size; pane_offset = 2 + tray_length in
        if length payload < pane_offset + 8 then Inr None
        else
          and_then (read_u64 payload pane_offset) (\<lambda>v.
          case pane_id_from_value (unat v) of
            None \<Rightarrow> Inr None
          | Some pane \<Rightarrow> Inr (Some \<lparr>di_tray_key = take tray_length (drop 2 payload), di_pane_id = pane,
              di_next_offset = pane_offset + 8\<rparr>))))"

section \<open>Encoding\<close>

definition encode_pane_output_payload :: "pane_view_output \<Rightarrow> string result" where
  "encode_pane_output_payload out =
     and_then (append_identity [] (vo_tray_key out) (vo_pane_id out)) (\<lambda>payload. Inr (payload @ vo_bytes out))"

fun frame_body :: "pane_view_message \<Rightarrow> string result" where
  "frame_body (View_output out) =
     and_then (encode_pane_output_payload out) (\<lambda>payload. Inr (byte_of OUTPUT_MESSAGE # payload))"
| "frame_body (View_resize z) =
     throw_if (ts_rows (vz_size z) \<le> 0 \<or> ts_cols (vz_size z) \<le> 0)
       (Invalid_argument ''pane view resize must be positive'')
       (and_then (append_identity [byte_of RESIZE_MESSAGE] (vz_tray_key z) (vz_pane_id z)) (\<lambda>body.
        Inr (append_u32 (append_u32 body (word_of_int (ts_rows (vz_size z)))) (word_of_int (ts_cols (vz_size z))))))"

definition encode_pane_view_frame :: "pane_view_message \<Rightarrow> string result" where
  "encode_pane_view_frame message =
     and_then (frame_body message) (\<lambda>body.
     throw_if (length body > MAX_FRAME_SIZE) (Invalid_argument ''pane view message is too large'')
       (Inr (append_u32 [] (word_of_nat (length body)) @ body)))"

section \<open>Decoding\<close>

definition decode_pane_resize_payload :: "string \<Rightarrow> pane_view_resize option result" where
  "decode_pane_resize_payload payload =
     and_then (decode_identity payload) (\<lambda>decoded.
     case decoded of
       None \<Rightarrow> Inr None
     | Some identity' \<Rightarrow>
         if length payload \<noteq> di_next_offset identity' + RESIZE_PAYLOAD_SIZE then Inr None
         else
           and_then (read_u32 payload (di_next_offset identity')) (\<lambda>rows.
           and_then (read_u32 payload (di_next_offset identity' + 4)) (\<lambda>cols.
           if rows = 0 \<or> cols = 0 \<or> uint rows > INT32_MAX \<or> uint cols > INT32_MAX then Inr None
           else Inr (Some \<lparr>vz_tray_key = di_tray_key identity', vz_pane_id = di_pane_id identity',
                  vz_size = \<lparr>ts_rows = uint rows, ts_cols = uint cols\<rparr>\<rparr>))))"

definition decode_body :: "string \<Rightarrow> pane_view_message result" where
  "decode_body body =
     (let payload = tl body; type = (byte_value (hd body) :: 8 word) in
      if type = OUTPUT_MESSAGE then
        and_then (decode_identity payload) (\<lambda>decoded.
        and_then (require (Runtime_error ''invalid pane output identity'') decoded) (\<lambda>identity'.
        Inr (View_output \<lparr>vo_tray_key = di_tray_key identity', vo_pane_id = di_pane_id identity',
               vo_bytes = drop (di_next_offset identity') payload\<rparr>)))
      else if type = RESIZE_MESSAGE then
        and_then (decode_pane_resize_payload payload) (\<lambda>decoded.
        and_then (require (Runtime_error ''invalid pane resize payload'') decoded) (\<lambda>z. Inr (View_resize z)))
      else Inl (Runtime_error ''invalid pane view message type''))"

text \<open>The message at the front of the buffer, and the buffer without it.\<close>

definition decode_pane_view_frame :: "string \<Rightarrow> (pane_view_message option \<times> string) result" where
  "decode_pane_view_frame buffer =
     (if length buffer < FRAME_HEADER_SIZE then Inr (None, buffer)
      else
        and_then (read_u32 buffer 0) (\<lambda>size.
        let body_size = unat size in
        throw_if (body_size = 0 \<or> body_size > MAX_FRAME_SIZE) (Runtime_error ''invalid pane view frame size'')
          (if length buffer < FRAME_HEADER_SIZE + body_size then Inr (None, buffer)
           else
             and_then (decode_body (take body_size (drop FRAME_HEADER_SIZE buffer))) (\<lambda>message.
             Inr (Some message, drop (FRAME_HEADER_SIZE + body_size) buffer)))))"

section \<open>Round trips\<close>

text \<open>The messages that fit: a tray key of 16 bits, a pane of 64, a size of 31 and a body of a megabyte.\<close>

fun view_message_ok :: "pane_view_message \<Rightarrow> bool" where
  "view_message_ok (View_output out) \<longleftrightarrow> 0 < vo_pane_id out \<and> vo_pane_id out < 2 ^ 64 \<and> length (vo_tray_key out) < 2 ^ 16
     \<and> length (vo_tray_key out) + length (vo_bytes out) + 11 \<le> MAX_FRAME_SIZE"
| "view_message_ok (View_resize z) \<longleftrightarrow> 0 < vz_pane_id z \<and> vz_pane_id z < 2 ^ 64 \<and> length (vz_tray_key z) < 2 ^ 16
     \<and> 0 < ts_rows (vz_size z) \<and> ts_rows (vz_size z) \<le> INT32_MAX \<and> 0 < ts_cols (vz_size z) \<and> ts_cols (vz_size z) \<le> INT32_MAX"

definition identity_bytes :: "string \<Rightarrow> pane_id \<Rightarrow> string" where
  "identity_bytes key pane = written_bytes [8, 0] (word_of_nat (length key) :: 16 word) @ key
     @ written_bytes [56, 48, 40, 32, 24, 16, 8, 0] (word_of_nat pane :: 64 word)"

lemma append_identity_bytes: "length key < 2 ^ 16 \<Longrightarrow> append_identity out key pane = Inr (out @ identity_bytes key pane)"
  by (simp add: append_identity_def append_u16_def append_u64_def identity_bytes_def)

lemma length_identity [simp]: "length (identity_bytes key pane) = length key + 10"
  by (simp add: identity_bytes_def)

lemma decode_identity_bytes:
  assumes "0 < pane" "pane < 2 ^ 64" "length key < 2 ^ 16"
  shows "decode_identity (identity_bytes key pane @ rest)
    = Inr (Some \<lparr>di_tray_key = key, di_pane_id = pane, di_next_offset = length key + 10\<rparr>)"
proof -
  have size: "read_u16 (identity_bytes key pane @ rest) 0 = Inr (word_of_nat (length key))"
    by (simp add: read_u16_def bytes_at_def identity_bytes_def read_written)
  have id: "read_u64 (identity_bytes key pane @ rest) (2 + length key) = Inr (word_of_nat pane)"
    by (simp add: read_u64_def bytes_at_def identity_bytes_def read_written)
  have unat: "unat (word_of_nat (length key) :: 16 word) = length key" "unat (word_of_nat pane :: 64 word) = pane"
    using assms by (simp_all add: unsigned_of_nat take_bit_nat_eq_self)
  have key: "take (length key) (drop 2 (identity_bytes key pane)) = key"
    by (simp add: identity_bytes_def)
  show ?thesis using assms unfolding decode_identity_def size and_then.simps Let_def unat id
    by (simp add: IDENTITY_SIZE_WITHOUT_TRAY_def pane_id_from_value_def key)
qed

lemma read_u32_written:
  "read_u32 (u @ written_bytes [24, 16, 8, 0] w @ v) (length u) = Inr w"
  by (simp add: read_u32_def bytes_at_def read_written)

lemma frame_body_size:
  assumes "view_message_ok m" "frame_body m = Inr body"
  shows "0 < length body" "length body \<le> MAX_FRAME_SIZE"
  using assms
  by (cases m; simp add: encode_pane_output_payload_def append_identity_bytes append_u32_def MAX_FRAME_SIZE_def; force)+

lemma frame_body_total: "view_message_ok m \<Longrightarrow> \<exists>body. frame_body m = Inr body"
  by (cases m) (simp_all add: encode_pane_output_payload_def append_identity_bytes)

lemma size_word: "0 < i \<Longrightarrow> i \<le> INT32_MAX \<Longrightarrow> uint (word_of_int i :: 32 word) = i \<and> (word_of_int i :: 32 word) \<noteq> 0"
  by (auto simp: INT32_MAX_def unsigned_of_int take_bit_int_eq_self_iff word_of_int_eq_0_iff dest: zdvd_imp_le)

lemma decode_resize_bytes:
  assumes "view_message_ok (View_resize z)"
  shows "decode_pane_resize_payload (identity_bytes (vz_tray_key z) (vz_pane_id z)
      @ written_bytes [24, 16, 8, 0] (word_of_int (ts_rows (vz_size z)) :: 32 word)
      @ written_bytes [24, 16, 8, 0] (word_of_int (ts_cols (vz_size z)) :: 32 word)) = Inr (Some z)"
proof -
  let ?i = "identity_bytes (vz_tray_key z) (vz_pane_id z)"
  let ?r = "written_bytes [24, 16, 8, 0] (word_of_int (ts_rows (vz_size z)) :: 32 word)"
  let ?c = "written_bytes [24, 16, 8, 0] (word_of_int (ts_cols (vz_size z)) :: 32 word)"
  have "read_u32 (?i @ ?r @ ?c) (length (vz_tray_key z) + 10) = Inr (word_of_int (ts_rows (vz_size z)))"
    using read_u32_written [of ?i _ ?c] by simp
  moreover have "read_u32 (?i @ ?r @ ?c) (14 + length (vz_tray_key z)) = Inr (word_of_int (ts_cols (vz_size z)))"
    using read_u32_written [of "?i @ ?r" _ "[]"] by (simp add: add.commute)
  moreover have "decode_identity (?i @ ?r @ ?c)
      = Inr (Some \<lparr>di_tray_key = vz_tray_key z, di_pane_id = vz_pane_id z, di_next_offset = length (vz_tray_key z) + 10\<rparr>)"
    using assms by (intro decode_identity_bytes) simp_all
  ultimately show ?thesis using assms
    by (simp add: decode_pane_resize_payload_def RESIZE_PAYLOAD_SIZE_def size_word)
qed

lemma decode_frame_body:
  assumes ok: "view_message_ok m" and body: "frame_body m = Inr body"
  shows "decode_body body = Inr m"
proof (cases m)
  case (View_output out)
  have key: "length (vo_tray_key out) < 2 ^ 16" using ok View_output by simp
  from body View_output have "body = byte_of OUTPUT_MESSAGE # identity_bytes (vo_tray_key out) (vo_pane_id out) @ vo_bytes out"
    by (simp add: encode_pane_output_payload_def append_identity_bytes [OF key])
  moreover have "decode_identity (identity_bytes (vo_tray_key out) (vo_pane_id out) @ vo_bytes out)
      = Inr (Some \<lparr>di_tray_key = vo_tray_key out, di_pane_id = vo_pane_id out, di_next_offset = length (vo_tray_key out) + 10\<rparr>)"
    using ok View_output by (intro decode_identity_bytes) simp_all
  ultimately show ?thesis using View_output by (simp add: decode_body_def)
next
  case (View_resize z)
  have type: "RESIZE_MESSAGE \<noteq> OUTPUT_MESSAGE" by (simp add: RESIZE_MESSAGE_def OUTPUT_MESSAGE_def)
  have key: "length (vz_tray_key z) < 2 ^ 16" using ok View_resize by simp
  from body ok View_resize have "body = byte_of RESIZE_MESSAGE # identity_bytes (vz_tray_key z) (vz_pane_id z)
      @ written_bytes [24, 16, 8, 0] (word_of_int (ts_rows (vz_size z)) :: 32 word)
      @ written_bytes [24, 16, 8, 0] (word_of_int (ts_cols (vz_size z)) :: 32 word)"
    by (simp add: append_identity_bytes [OF key] append_u32_def)
  then show ?thesis using decode_resize_bytes [of z] ok View_resize by (simp add: decode_body_def type)
qed

lemma decode_encoded_frame:
  assumes ok: "view_message_ok m" and f: "encode_pane_view_frame m = Inr frame"
  shows "decode_pane_view_frame (frame @ rest) = Inr (Some m, rest)"
    and "n < length frame \<Longrightarrow> decode_pane_view_frame (take n frame) = Inr (None, take n frame)"
proof -
  from f obtain body where body: "frame_body m = Inr body"
    and frame: "frame = written_bytes [24, 16, 8, 0] (word_of_nat (length body) :: 32 word) @ body"
    by (auto simp: encode_pane_view_frame_def append_u32_def result_simps)
  note size = frame_body_size [OF ok body]
  have len: "unat (word_of_nat (length body) :: 32 word) = length body"
    using size by (simp add: unsigned_of_nat take_bit_nat_eq_self MAX_FRAME_SIZE_def)
  have read: "read_u32 (frame @ rest) 0 = Inr (word_of_nat (length body))" for rest
    using read_u32_written [of "[]" _ "body @ rest"] by (simp add: frame)
  show "decode_pane_view_frame (frame @ rest) = Inr (Some m, rest)"
  proof -
    have "take (length body) (drop 4 (frame @ rest)) = body" "drop (4 + length body) (frame @ rest) = rest"
      "length frame = 4 + length body" by (simp_all add: frame)
    then show ?thesis using size decode_frame_body [OF ok body]
      by (simp add: decode_pane_view_frame_def read len FRAME_HEADER_SIZE_def Let_def del: drop_append take_append)
  qed
  assume n: "n < length frame"
  show "decode_pane_view_frame (take n frame) = Inr (None, take n frame)"
  proof (cases "n < 4")
    case False
    have cut: "take n frame = written_bytes [24, 16, 8, 0] (word_of_nat (length body) :: 32 word) @ take (n - 4) body"
      using False by (simp add: frame eval_nat_numeral)
    have read: "read_u32 (take n frame) 0 = Inr (word_of_nat (length body))"
      using read_u32_written [of "[]" _ "take (n - 4) body"] by (simp only: cut append_Nil list.size)
    have "length (take n frame) < 4 + length body" "\<not> length (take n frame) < 4" using n False frame by simp_all
    then show ?thesis using size unfolding decode_pane_view_frame_def FRAME_HEADER_SIZE_def
      by (simp add: read len del: length_take)
  next
    case True
    then have "length (take n frame) < 4" by simp
    then show ?thesis by (simp add: decode_pane_view_frame_def FRAME_HEADER_SIZE_def del: length_take)
  qed
qed

lemma encode_total: "view_message_ok m \<Longrightarrow> \<exists>frame. encode_pane_view_frame m = Inr frame"
  using frame_body_total frame_body_size by (fastforce simp: encode_pane_view_frame_def throw_if_def)

end
