(* ===== verification/Browser_Messages.thy ===== *)
theory Browser_Messages
  imports Input_Protocol Pane_View Byte_Scan
begin

text \<open>
  The messages of the browser (src/src/bridge/protocol): one byte that says what follows
  (application_message_codec.cc), and what each kind means to the parent
  (browser_application_message_parser.cc). Every command of the parent has a message that is
  parsed to it.
\<close>

section \<open>Kinds of messages\<close>

datatype to_bridge_type =
    To_bridge_TERMINAL_INPUT | To_bridge_RESIZE | To_bridge_SWITCH_ANONYMOUS_TRAY
  | To_bridge_TOGGLE_WORKTREE_OVERLAY | To_bridge_TOGGLE_COMMAND_MODE | To_bridge_WORKTREE_PICKER_ACTION
  | To_bridge_OVERLAY_NAVIGATION | To_bridge_PANE_ACTION | To_bridge_PANE_RESIZE

record to_bridge_message =
  tb_type :: to_bridge_type
  tb_payload :: string

datatype to_browser_type = To_browser_TERMINAL_OUTPUT | To_browser_PARENT_STATUS | To_browser_PANE_OUTPUT

definition type_of_discriminator :: "char \<Rightarrow> to_bridge_type option" where
  "type_of_discriminator c =
     (if c = CHR ''0'' then Some To_bridge_TERMINAL_INPUT
      else if c = CHR ''1'' then Some To_bridge_RESIZE
      else if c = CHR ''2'' then Some To_bridge_SWITCH_ANONYMOUS_TRAY
      else if c = CHR ''3'' then Some To_bridge_TOGGLE_WORKTREE_OVERLAY
      else if c = CHR ''5'' then Some To_bridge_TOGGLE_COMMAND_MODE
      else if c = CHR ''6'' then Some To_bridge_WORKTREE_PICKER_ACTION
      else if c = CHR ''7'' then Some To_bridge_OVERLAY_NAVIGATION
      else if c = CHR ''8'' then Some To_bridge_PANE_ACTION
      else if c = CHR ''9'' then Some To_bridge_PANE_RESIZE
      else None)"

definition decode_browser_to_bridge_message :: "string \<Rightarrow> to_bridge_message option" where
  "decode_browser_to_bridge_message message = (case message of
     [] \<Rightarrow> None
   | c # payload \<Rightarrow> map_option (\<lambda>type. \<lparr>tb_type = type, tb_payload = payload\<rparr>) (type_of_discriminator c))"

fun discriminator_for_bridge_message :: "to_browser_type \<Rightarrow> char" where
  "discriminator_for_bridge_message To_browser_TERMINAL_OUTPUT = CHR ''0''"
| "discriminator_for_bridge_message To_browser_PARENT_STATUS = CHR ''1''"
| "discriminator_for_bridge_message To_browser_PANE_OUTPUT = CHR ''2''"

definition encode_bridge_to_browser_message :: "to_browser_type \<Rightarrow> string \<Rightarrow> string" where
  "encode_bridge_to_browser_message type payload = [discriminator_for_bridge_message type] @ payload"

section \<open>Payloads\<close>

definition parse_json_int :: "string \<Rightarrow> string \<Rightarrow> int option" where
  "parse_json_int json key =
     (let quoted_key = [CHR 0x22] @ key @ [CHR 0x22] in
      case find_string quoted_key json of
        None \<Rightarrow> None
      | Some key_position \<Rightarrow>
          (case find_from '':'' (key_position + length quoted_key) json of
             None \<Rightarrow> None
           | Some colon_position \<Rightarrow>
               map_option fst (from_chars (dropWhile (\<lambda>c. c = CHR '' '') (drop (colon_position + 1) json)))))"

definition parse_resize :: "string \<Rightarrow> terminal_size result" where
  "parse_resize payload =
     (case (parse_json_int payload ''columns'', parse_json_int payload ''rows'') of
        (Some columns, Some rows) \<Rightarrow> Inr \<lparr>ts_rows = rows, ts_cols = columns\<rparr>
      | _ \<Rightarrow> Inl (Runtime_error ''resize payload requires columns and rows''))"

definition parse_anonymous_tray_switch :: "string \<Rightarrow> parent_input_command result" where
  "parse_anonymous_tray_switch payload =
     (case Option.bind (parse_json_int payload ''tray'') tray_number_from_int of
        None \<Rightarrow> Inl (Runtime_error ''tray switch payload requires tray 1 through 9'')
      | Some n \<Rightarrow> Inr (Switch_anonymous_tray n))"

definition parse_worktree_picker_action :: "string \<Rightarrow> parent_input_command result" where
  "parse_worktree_picker_action action =
     (if action = ''c'' then Inr (Begin_tray_action Intent_CLEAR)
      else if action = ''r'' then Inr (Begin_tray_action Intent_REMOVE)
      else if action = ''y'' then Inr (Resolve_tray_action Decision_CONFIRM)
      else if action = ''n'' then Inr (Resolve_tray_action Decision_CANCEL)
      else Inl (Runtime_error ''worktree picker command requires c, r, y, or n''))"

definition NAVIGATION_NAMES :: "(string \<times> overlay_navigation) list" where
  "NAVIGATION_NAMES =
     [(''up'', Navigation_UP), (''down'', Navigation_DOWN), (''right'', Navigation_RIGHT), (''left'', Navigation_LEFT),
      (''tab'', Navigation_TAB), (''backtab'', Navigation_BACKTAB), (''enter'', Navigation_ENTER)]"

definition parse_overlay_navigation :: "string \<Rightarrow> parent_input_command result" where
  "parse_overlay_navigation navigation =
     and_then (require (Runtime_error ''worktree overlay navigation is invalid'') (map_of NAVIGATION_NAMES navigation))
       (\<lambda>n. Inr (Navigate_overlay n))"

definition PANE_ACTION_NAMES :: "(string \<times> pane_command_action) list" where
  "PANE_ACTION_NAMES =
     [(''up'', Action_UP), (''down'', Action_DOWN), (''left'', Action_LEFT), (''right'', Action_RIGHT),
      (''splitLeftToRight'', Action_SPLIT_LEFT_TO_RIGHT), (''splitAboveBelow'', Action_SPLIT_ABOVE_BELOW),
      (''toggleSelectionOrSwap'', Action_TOGGLE_SELECTION_OR_SWAP), (''promote'', Action_PROMOTE),
      (''descend'', Action_DESCEND), (''grow'', Action_GROW), (''shrink'', Action_SHRINK), (''equalize'', Action_EQUALIZE),
      (''toggleMove'', Action_TOGGLE_MOVE), (''confirmMove'', Action_CONFIRM_MOVE), (''rotate'', Action_ROTATE),
      (''toggleMaximize'', Action_TOGGLE_MAXIMIZE), (''close'', Action_CLOSE)]"

definition parse_pane_action :: "string \<Rightarrow> parent_input_command result" where
  "parse_pane_action action =
     and_then (require (Runtime_error ''pane action is invalid'') (map_of PANE_ACTION_NAMES action)) (\<lambda>a. Inr (Pane_command a))"

section \<open>Messages\<close>

datatype browser_application_message =
    Browser_terminal_input string
  | Browser_terminal_resize terminal_size
  | Browser_pane_resize pane_view_resize
  | Browser_command parent_input_command

definition parse_browser_application_message :: "string \<Rightarrow> browser_application_message option result" where
  "parse_browser_application_message message =
     (case decode_browser_to_bridge_message message of
        None \<Rightarrow> Inr None
      | Some decoded \<Rightarrow>
          let payload = tb_payload decoded; command = (\<lambda>r. and_then r (\<lambda>c. Inr (Some (Browser_command c)))) in
          (case tb_type decoded of
             To_bridge_TERMINAL_INPUT \<Rightarrow> Inr (Some (Browser_terminal_input payload))
           | To_bridge_RESIZE \<Rightarrow> and_then (parse_resize payload) (\<lambda>size. Inr (Some (Browser_terminal_resize size)))
           | To_bridge_SWITCH_ANONYMOUS_TRAY \<Rightarrow> command (parse_anonymous_tray_switch payload)
           | To_bridge_TOGGLE_WORKTREE_OVERLAY \<Rightarrow> Inr (Some (Browser_command Toggle_worktree_overlay))
           | To_bridge_TOGGLE_COMMAND_MODE \<Rightarrow> Inr (Some (Browser_command Toggle_command_mode))
           | To_bridge_WORKTREE_PICKER_ACTION \<Rightarrow> command (parse_worktree_picker_action payload)
           | To_bridge_OVERLAY_NAVIGATION \<Rightarrow> command (parse_overlay_navigation payload)
           | To_bridge_PANE_ACTION \<Rightarrow> command (parse_pane_action payload)
           | To_bridge_PANE_RESIZE \<Rightarrow>
               and_then (decode_pane_resize_payload payload) (\<lambda>resize.
               and_then (require (Runtime_error ''pane resize payload is invalid'') resize) (\<lambda>z.
               Inr (Some (Browser_pane_resize z))))))"

section \<open>What the browser sends\<close>

text \<open>Objects of numbers, as \<open>JSON.stringify\<close> prints them, and the message of each command.\<close>

definition json_field :: "string \<Rightarrow> int \<Rightarrow> string" where
  "json_field name value' = [CHR 0x22] @ name @ [CHR 0x22, CHR '':''] @ to_string value'"

definition resize_message :: "terminal_size \<Rightarrow> string" where
  "resize_message sz =
     ''1{'' @ json_field ''columns'' (ts_cols sz) @ '','' @ json_field ''rows'' (ts_rows sz) @ ''}''"

fun name_of :: "(string \<times> 'a) list \<Rightarrow> 'a \<Rightarrow> string" where
  "name_of [] x = []"
| "name_of ((s, y) # names) x = (if x = y then s else name_of names x)"

fun command_message :: "parent_input_command \<Rightarrow> string" where
  "command_message Toggle_command_mode = ''5''"
| "command_message (Switch_anonymous_tray n) = ''2{'' @ json_field ''tray'' n @ ''}''"
| "command_message Toggle_worktree_overlay = ''3''"
| "command_message (Begin_tray_action Intent_CLEAR) = ''6c''"
| "command_message (Begin_tray_action Intent_REMOVE) = ''6r''"
| "command_message (Resolve_tray_action Decision_CONFIRM) = ''6y''"
| "command_message (Resolve_tray_action Decision_CANCEL) = ''6n''"
| "command_message (Navigate_overlay n) = ''7'' @ name_of NAVIGATION_NAMES n"
| "command_message (Pane_command a) = ''8'' @ name_of PANE_ACTION_NAMES a"

lemma to_string_chars: "c \<in> set (to_string i) \<Longrightarrow> is_digit c \<or> c = CHR ''-''"
  using decimal_digits [of "nat i"] decimal_digits [of "nat (- i)"] by (auto simp: to_string_def split: if_splits)

lemma to_string_no_quote: "CHR 0x22 \<notin> set (to_string i)"
  using to_string_chars [of "CHR 0x22" i] by (auto simp: is_digit_def)

lemma to_string_no_blank: "dropWhile (\<lambda>c. c = CHR '' '') (to_string i @ s) = to_string i @ s"
proof (cases "to_string i")
  case Nil
  then show ?thesis by (simp add: to_string_def split: if_splits)
next
  case (Cons c cs)
  then have "c \<noteq> CHR '' ''" using to_string_chars [of c i] by (auto simp: is_digit_def)
  then show ?thesis using Cons by simp
qed

lemma drop_past: "drop (length a + 1) (a @ c # w) = w"
  by simp

lemma parse_field:
  assumes "find_string ([CHR 0x22] @ name @ [CHR 0x22]) (u @ json_field name i @ v) = Some (length u)"
    and "INT32_MIN \<le> i" "i \<le> INT32_MAX" "v \<noteq> []" "\<not> is_digit (hd v)"
  shows "parse_json_int (u @ json_field name i @ v) name = Some i"
proof -
  let ?q = "[CHR 0x22] @ name @ [CHR 0x22]"
  have s: "u @ json_field name i @ v = (u @ ?q) @ '':'' @ (to_string i @ v)" by (simp add: json_field_def)
  have n: "length u + length ?q = length (u @ ?q)" by simp
  have colon: "find_from '':'' (length u + length ?q) (u @ json_field name i @ v) = Some (length (u @ ?q))"
    unfolding s n find_from_append by simp
  have rest: "drop (length (u @ ?q) + 1) (u @ json_field name i @ v) = to_string i @ v"
    unfolding s using drop_past [of "u @ ?q" "CHR '':''" "to_string i @ v"] by simp
  have "from_chars (to_string i @ v) = Some (i, v)" using assms(2-5) by (intro from_chars_to_string) simp_all
  then show ?thesis
    unfolding parse_json_int_def Let_def assms(1) option.case colon rest to_string_no_blank by simp
qed

lemma parse_resize_message:
  assumes "INT32_MIN \<le> ts_rows sz" "ts_rows sz \<le> INT32_MAX" "INT32_MIN \<le> ts_cols sz" "ts_cols sz \<le> INT32_MAX"
  shows "parse_browser_application_message (resize_message sz) = Inr (Some (Browser_terminal_resize sz))"
proof -
  let ?c = "json_field ''columns'' (ts_cols sz)" and ?r = "json_field ''rows'' (ts_rows sz)"
  have "parse_json_int (''{'' @ ?c @ '','' @ ?r @ ''}'') ''columns'' = Some (ts_cols sz)"
    using assms by (intro parse_field) (simp_all add: json_field_def is_digit_def)
  moreover have "find_string ([CHR 0x22] @ ''rows'' @ [CHR 0x22]) ((''{'' @ ?c @ '','') @ ?r @ ''}'') = Some (length (''{'' @ ?c @ '',''))"
    using find_past [OF to_string_no_quote, of "''rows'' @ [CHR 0x22]" "ts_cols sz" "'','' @ ?r @ ''}''"]
    by (simp add: json_field_def)
  then have "parse_json_int ((''{'' @ ?c @ '','') @ ?r @ ''}'') ''rows'' = Some (ts_rows sz)"
    using assms by (intro parse_field) (simp_all add: is_digit_def)
  ultimately show ?thesis
    by (simp add: resize_message_def parse_browser_application_message_def decode_browser_to_bridge_message_def
        type_of_discriminator_def parse_resize_def)
qed

lemma parse_named:
  "map_of NAVIGATION_NAMES (name_of NAVIGATION_NAMES n) = Some n" "map_of PANE_ACTION_NAMES (name_of PANE_ACTION_NAMES a) = Some a"
  by (cases n; simp add: NAVIGATION_NAMES_def) (cases a; simp add: PANE_ACTION_NAMES_def)

text \<open>Every command has a message, and only commands with a tray of their own are parsed.\<close>

lemma parse_command_message:
  assumes "command_ok c"
  shows "parse_browser_application_message (command_message c) = Inr (Some (Browser_command c))"
proof (cases c)
  case (Switch_anonymous_tray n)
  then have n: "tray_number_from_int n = Some n" using assms by (simp add: command_ok_def)
  then have "INT32_MIN \<le> n" "n \<le> INT32_MAX"
    by (auto simp: tray_number_from_int_def TRAY_MIN_VALUE_def TRAY_MAX_VALUE_def INT32_MIN_def INT32_MAX_def split: if_splits)
  then have "parse_json_int (''{'' @ json_field ''tray'' n @ ''}'') ''tray'' = Some n"
    by (intro parse_field) (simp_all add: json_field_def is_digit_def)
  then show ?thesis using Switch_anonymous_tray n
    by (simp add: parse_browser_application_message_def decode_browser_to_bridge_message_def type_of_discriminator_def
        parse_anonymous_tray_switch_def)
next
  case (Begin_tray_action a)
  then show ?thesis
    by (cases a) (simp_all add: parse_browser_application_message_def decode_browser_to_bridge_message_def
        type_of_discriminator_def parse_worktree_picker_action_def)
next
  case (Resolve_tray_action d)
  then show ?thesis
    by (cases d) (simp_all add: parse_browser_application_message_def decode_browser_to_bridge_message_def
        type_of_discriminator_def parse_worktree_picker_action_def)
qed (simp_all add: parse_browser_application_message_def decode_browser_to_bridge_message_def type_of_discriminator_def
    parse_overlay_navigation_def parse_pane_action_def parse_named)

lemma parsed_command_ok:
  assumes "parse_browser_application_message m = Inr (Some (Browser_command c))"
  shows "command_ok c"
  using assms
  by (auto simp: parse_browser_application_message_def command_ok_def parse_anonymous_tray_switch_def parse_worktree_picker_action_def
      parse_overlay_navigation_def parse_pane_action_def tray_number_from_int_def result_simps Let_def bind_eq_Some_conv
      split: option.splits to_bridge_type.splits if_splits)

end
