(* ===== verification/Bridge_Hub.thy ===== *)
theory Bridge_Hub
  imports Websocket_Protocol Browser_Messages
begin

text \<open>
  The bridge between browsers and the parent (src/src/bridge/server/pty_websocket_hub.h and .cc,
  websocket_client_connection.cc): what the parent prints is kept for browsers that come later
  and sent to those that are there; what a browser sends goes to the parent. The hub's methods
  run under its locks, so that each is one step of the model.
\<close>

section \<open>The hub\<close>

text \<open>A client is named by a number; the sockets are shared with the threads that serve them.\<close>

record hub =
  hb_sockets :: "nat \<Rightarrow> socket"
  hb_clients :: "nat list"
  hb_terminal_backlog :: string
  hb_latest_parent_status :: string
  hb_parent_status_buffer :: string
  hb_pane_view_buffer :: string
  hb_pane_output_backlog :: "string list"
  hb_pane_output_backlog_size :: nat

definition MAX_TERMINAL_BACKLOG :: nat where "MAX_TERMINAL_BACKLOG = 64 * 1024"
definition MAX_PANE_OUTPUT_BACKLOG :: nat where "MAX_PANE_OUTPUT_BACKLOG = 256 * 1024"
definition MAX_PARENT_STATUS_BUFFER :: nat where "MAX_PARENT_STATUS_BUFFER = 64 * 1024"

definition initial_hub :: "(nat \<Rightarrow> socket) \<Rightarrow> hub" where
  "initial_hub sockets = \<lparr>hb_sockets = sockets, hb_clients = [], hb_terminal_backlog = [], hb_latest_parent_status = [],
     hb_parent_status_buffer = [], hb_pane_view_buffer = [], hb_pane_output_backlog = [], hb_pane_output_backlog_size = 0\<rparr>"

text \<open>\<open>send_binary\<close>: whether the frame could be sent.\<close>

definition send_binary :: "string \<Rightarrow> nat \<Rightarrow> hub \<Rightarrow> bool \<times> hub" where
  "send_binary payload client h =
     (let (r, s) = send_websocket_frame BINARY_OPCODE payload (hb_sockets h client) in
      (case r of Inr _ \<Rightarrow> True | Inl _ \<Rightarrow> False, h\<lparr>hb_sockets := (hb_sockets h)(client := s)\<rparr>))"

fun send_to_each :: "string \<Rightarrow> nat list \<Rightarrow> hub \<Rightarrow> nat list \<times> hub" where
  "send_to_each payload [] h = ([], h)"
| "send_to_each payload (client # clients) h =
     (let (sent, h1) = send_binary payload client h; (kept, h2) = send_to_each payload clients h1 in
      (if sent then client # kept else kept, h2))"

definition send_to_clients :: "string \<Rightarrow> hub \<Rightarrow> hub" where
  "send_to_clients payload h = (let (kept, h') = send_to_each payload (hb_clients h) h in h'\<lparr>hb_clients := kept\<rparr>)"

definition add_client :: "nat \<Rightarrow> hub \<Rightarrow> hub" where
  "add_client client h =
     (let h1 = h\<lparr>hb_clients := hb_clients h @ [client]\<rparr>;
          send = (\<lambda>payload h. snd (send_binary payload client h));
          h2 = (if hb_terminal_backlog h1 = [] then h1
                else send (encode_bridge_to_browser_message To_browser_TERMINAL_OUTPUT (hb_terminal_backlog h1)) h1);
          h3 = (if hb_latest_parent_status h2 = [] then h2
                else send (encode_bridge_to_browser_message To_browser_PARENT_STATUS (hb_latest_parent_status h2)) h2) in
      fold send (hb_pane_output_backlog h3) h3)"

definition remove_client :: "nat \<Rightarrow> hub \<Rightarrow> hub" where
  "remove_client client h = h\<lparr>hb_clients := filter (\<lambda>c. c \<noteq> client) (hb_clients h)\<rparr>"

definition broadcast_terminal_output :: "string \<Rightarrow> hub \<Rightarrow> hub" where
  "broadcast_terminal_output out h =
     (let backlog = hb_terminal_backlog h @ out;
          kept = (if length backlog > MAX_TERMINAL_BACKLOG then drop (length backlog - MAX_TERMINAL_BACKLOG) backlog else backlog) in
      send_to_clients (encode_bridge_to_browser_message To_browser_TERMINAL_OUTPUT out) (h\<lparr>hb_terminal_backlog := kept\<rparr>))"

definition broadcast_parent_status :: "string \<Rightarrow> hub \<Rightarrow> hub" where
  "broadcast_parent_status status h =
     send_to_clients (encode_bridge_to_browser_message To_browser_PARENT_STATUS status) (h\<lparr>hb_latest_parent_status := status\<rparr>)"

text \<open>The oldest output goes while there is too much and more than one piece.\<close>

fun trim_pane_backlog :: "nat \<Rightarrow> string list \<Rightarrow> nat \<times> string list" where
  "trim_pane_backlog n (x # y # rest) =
     (if n > MAX_PANE_OUTPUT_BACKLOG then trim_pane_backlog (n - length x) (y # rest) else (n, x # y # rest))"
| "trim_pane_backlog n backlog = (n, backlog)"

definition broadcast_pane_output :: "string \<Rightarrow> hub \<Rightarrow> hub" where
  "broadcast_pane_output out h =
     (let payload = encode_bridge_to_browser_message To_browser_PANE_OUTPUT out;
          (n, backlog) = trim_pane_backlog (hb_pane_output_backlog_size h + length payload) (hb_pane_output_backlog h @ [payload]) in
      send_to_clients payload (h\<lparr>hb_pane_output_backlog := backlog, hb_pane_output_backlog_size := n\<rparr>))"

section \<open>Reading from the parent\<close>

text \<open>What one \<open>read\<close> returned; nothing when it failed or the parent is gone.\<close>

definition read_terminal_output :: "string \<Rightarrow> hub \<Rightarrow> hub" where
  "read_terminal_output bytes h = (if bytes = [] then h else broadcast_terminal_output bytes h)"

function status_lines :: "hub \<Rightarrow> hub" where
  "status_lines h = (case find_string [CHR 0x0A] (hb_parent_status_buffer h) of
     None \<Rightarrow> h
   | Some newline \<Rightarrow>
       let status = take newline (hb_parent_status_buffer h);
           h1 = h\<lparr>hb_parent_status_buffer := drop (newline + 1) (hb_parent_status_buffer h)\<rparr> in
       status_lines (if status = [] then h1 else broadcast_parent_status status h1))"
  by pat_completeness auto

lemma send_binary_frame: "\<exists>s. snd (send_binary payload client h) = h\<lparr>hb_sockets := s\<rparr>"
  by (simp add: send_binary_def split: prod.split) blast

lemma send_to_each_frame: "\<exists>s. snd (send_to_each payload clients h) = h\<lparr>hb_sockets := s\<rparr>"
proof (induction clients arbitrary: h)
  case Nil
  have "h = h\<lparr>hb_sockets := hb_sockets h\<rparr>" by simp
  then show ?case by (metis send_to_each.simps(1) snd_conv)
next
  case (Cons client clients)
  obtain sent h1 where h1: "send_binary payload client h = (sent, h1)" by fastforce
  obtain kept h2 where h2: "send_to_each payload clients h1 = (kept, h2)" by fastforce
  obtain s1 where "h1 = h\<lparr>hb_sockets := s1\<rparr>" using send_binary_frame [of payload client h] h1 by auto
  moreover obtain s2 where "h2 = h1\<lparr>hb_sockets := s2\<rparr>" using Cons.IH [of h1] h2 by auto
  ultimately have "h2 = h\<lparr>hb_sockets := s2\<rparr>" by simp
  then show ?case by (auto simp: h1 h2)
qed

lemma send_to_clients_frame: "\<exists>s c. send_to_clients payload h = h\<lparr>hb_sockets := s, hb_clients := c\<rparr>"
proof -
  obtain kept h' where h': "send_to_each payload (hb_clients h) h = (kept, h')" by fastforce
  obtain s where "h' = h\<lparr>hb_sockets := s\<rparr>" using send_to_each_frame [of payload "hb_clients h" h] h' by auto
  then show ?thesis by (auto simp: send_to_clients_def h')
qed

text \<open>Sending changes the sockets and drops clients; nothing else.\<close>

lemma send_to_clients_fields [simp]:
  "hb_terminal_backlog (send_to_clients payload h) = hb_terminal_backlog h"
  "hb_latest_parent_status (send_to_clients payload h) = hb_latest_parent_status h"
  "hb_parent_status_buffer (send_to_clients payload h) = hb_parent_status_buffer h"
  "hb_pane_view_buffer (send_to_clients payload h) = hb_pane_view_buffer h"
  "hb_pane_output_backlog (send_to_clients payload h) = hb_pane_output_backlog h"
  "hb_pane_output_backlog_size (send_to_clients payload h) = hb_pane_output_backlog_size h"
  using send_to_clients_frame [of payload h] by auto

termination status_lines
  by (relation "measure (\<lambda>h. length (hb_parent_status_buffer h))")
    (auto simp: broadcast_parent_status_def dest: find_string_bound)

declare status_lines.simps [simp del]

definition read_parent_status :: "string \<Rightarrow> hub \<Rightarrow> hub" where
  "read_parent_status bytes h =
     (if bytes = [] then h
      else
        let h1 = status_lines (h\<lparr>hb_parent_status_buffer := hb_parent_status_buffer h @ bytes\<rparr>) in
        if length (hb_parent_status_buffer h1) > MAX_PARENT_STATUS_BUFFER then h1\<lparr>hb_parent_status_buffer := []\<rparr> else h1)"

lemma broadcast_fields [simp]:
  "hb_pane_view_buffer (broadcast_pane_output out h) = hb_pane_view_buffer h"
  "hb_terminal_backlog (broadcast_pane_output out h) = hb_terminal_backlog h"
  "hb_latest_parent_status (broadcast_pane_output out h) = hb_latest_parent_status h"
  "hb_parent_status_buffer (broadcast_pane_output out h) = hb_parent_status_buffer h"
  "hb_terminal_backlog (broadcast_parent_status status h) = hb_terminal_backlog h"
  "hb_latest_parent_status (broadcast_parent_status status h) = status"
  "hb_parent_status_buffer (broadcast_parent_status status h) = hb_parent_status_buffer h"
  "hb_pane_view_buffer (broadcast_parent_status status h) = hb_pane_view_buffer h"
  "hb_pane_output_backlog (broadcast_parent_status status h) = hb_pane_output_backlog h"
  "hb_pane_output_backlog_size (broadcast_parent_status status h) = hb_pane_output_backlog_size h"
  "hb_latest_parent_status (broadcast_terminal_output out h) = hb_latest_parent_status h"
  "hb_parent_status_buffer (broadcast_terminal_output out h) = hb_parent_status_buffer h"
  "hb_pane_view_buffer (broadcast_terminal_output out h) = hb_pane_view_buffer h"
  "hb_pane_output_backlog (broadcast_terminal_output out h) = hb_pane_output_backlog h"
  "hb_pane_output_backlog_size (broadcast_terminal_output out h) = hb_pane_output_backlog_size h"
  by (simp_all add: broadcast_pane_output_def broadcast_parent_status_def broadcast_terminal_output_def Let_def split: prod.split)

lemma decode_frame_shorter: "decode_pane_view_frame buffer = Inr (Some m, rest) \<Longrightarrow> length rest < length buffer"
  by (auto simp: decode_pane_view_frame_def FRAME_HEADER_SIZE_def Let_def result_simps split: if_splits)

text \<open>An invalid frame throws; nothing catches that in the reading thread.\<close>

function view_frames :: "hub \<Rightarrow> hub result" where
  "view_frames h = (case decode_pane_view_frame (hb_pane_view_buffer h) of
     Inl e \<Rightarrow> Inl e
   | Inr (None, buffer) \<Rightarrow> Inr (h\<lparr>hb_pane_view_buffer := buffer\<rparr>)
   | Inr (Some (View_output out), buffer) \<Rightarrow>
       and_then (encode_pane_output_payload out) (\<lambda>payload.
       view_frames (broadcast_pane_output payload (h\<lparr>hb_pane_view_buffer := buffer\<rparr>)))
   | Inr (Some (View_resize z), buffer) \<Rightarrow> view_frames (h\<lparr>hb_pane_view_buffer := buffer\<rparr>))"
  by pat_completeness auto
termination
  by (relation "measure (\<lambda>h. length (hb_pane_view_buffer h))")
    (auto dest: decode_frame_shorter)

declare view_frames.simps [simp del]

definition read_pane_view :: "string \<Rightarrow> hub \<Rightarrow> hub result" where
  "read_pane_view bytes h =
     (if bytes = [] then Inr h else view_frames (h\<lparr>hb_pane_view_buffer := hb_pane_view_buffer h @ bytes\<rparr>))"

text \<open>
  One turn of the reading thread (\<open>read_pty_loop\<close>): what \<open>poll\<close> reported, with the bytes read from
  each of the three descriptors that has input, and whether the loop goes on.
\<close>

datatype pty_poll =
    Pty_failed
  | Pty_interrupted
  | Pty_timeout
  | Pty_events "string option" "string option" "string option"

fun read_pty_turn :: "pty_poll \<Rightarrow> hub \<Rightarrow> (bool \<times> hub) result" where
  "read_pty_turn Pty_failed h = Inr (False, h)"
| "read_pty_turn Pty_interrupted h = Inr (True, h)"
| "read_pty_turn Pty_timeout h = Inr (True, h)"
| "read_pty_turn (Pty_events terminal status view) h =
     (let h1 = (case terminal of None \<Rightarrow> h | Some bytes \<Rightarrow> read_terminal_output bytes h);
          h2 = (case status of None \<Rightarrow> h1 | Some bytes \<Rightarrow> read_parent_status bytes h1) in
      and_then (case view of None \<Rightarrow> Inr h2 | Some bytes \<Rightarrow> read_pane_view bytes h2) (\<lambda>h3. Inr (True, h3)))"

section \<open>What is kept\<close>

text \<open>The last bytes of what the terminal printed.\<close>

definition last_bytes :: "nat \<Rightarrow> string \<Rightarrow> string" where
  "last_bytes n s = drop (length s - n) s"

lemma last_bytes_append: "last_bytes n (last_bytes n s @ t) = last_bytes n (s @ t)"
proof (cases "length s \<le> n")
  case False
  have "s @ t = take (length s - n) s @ last_bytes n s @ t" by (simp add: last_bytes_def)
  moreover have "length (last_bytes n s) = n" using False by (simp add: last_bytes_def)
  ultimately show ?thesis using False unfolding last_bytes_def by (auto simp: drop_append add.commute)
qed (simp add: last_bytes_def)

lemma terminal_backlog_last:
  "hb_terminal_backlog (broadcast_terminal_output out h) = last_bytes MAX_TERMINAL_BACKLOG (hb_terminal_backlog h @ out)"
  by (simp add: broadcast_terminal_output_def last_bytes_def Let_def)

text \<open>The recorded size is the size, and one piece alone may exceed the limit.\<close>

definition stored_ok :: "hub \<Rightarrow> bool" where
  "stored_ok h \<longleftrightarrow> length (hb_terminal_backlog h) \<le> MAX_TERMINAL_BACKLOG
     \<and> hb_pane_output_backlog_size h = sum_list (map length (hb_pane_output_backlog h))
     \<and> (hb_pane_output_backlog_size h \<le> MAX_PANE_OUTPUT_BACKLOG \<or> length (hb_pane_output_backlog h) = 1)
     \<and> distinct (hb_clients h)"

definition hub_ok :: "hub \<Rightarrow> bool" where
  "hub_ok h \<longleftrightarrow> stored_ok h \<and> length (hb_parent_status_buffer h) \<le> MAX_PARENT_STATUS_BUFFER
     \<and> CHR 0x0A \<notin> set (hb_parent_status_buffer h)"

lemma stored_ok_frame [simp]:
  "stored_ok (h\<lparr>hb_parent_status_buffer := b\<rparr>) \<longleftrightarrow> stored_ok h" "stored_ok (h\<lparr>hb_pane_view_buffer := b\<rparr>) \<longleftrightarrow> stored_ok h"
  "stored_ok (h\<lparr>hb_sockets := s\<rparr>) \<longleftrightarrow> stored_ok h"
  by (simp_all add: stored_ok_def)

lemma trim_pane_backlog_ok:
  assumes "trim_pane_backlog n backlog = (n', backlog')" "n = sum_list (map length backlog)" "backlog \<noteq> []"
  shows "n' = sum_list (map length backlog') \<and> (n' \<le> MAX_PANE_OUTPUT_BACKLOG \<or> length backlog' = 1)
     \<and> last backlog' = last backlog \<and> backlog' \<noteq> []"
  using assms by (induction n backlog rule: trim_pane_backlog.induct) (auto split: if_splits)

lemma send_to_each_subset: "set (fst (send_to_each payload clients h)) \<subseteq> set clients"
  "distinct clients \<Longrightarrow> distinct (fst (send_to_each payload clients h))"
proof -
  show sub: "set (fst (send_to_each payload clients h)) \<subseteq> set clients" for clients h
  proof (induction clients arbitrary: h)
    case (Cons c clients)
    obtain sent h1 where h1: "send_binary payload c h = (sent, h1)" by fastforce
    obtain kept h2 where h2: "send_to_each payload clients h1 = (kept, h2)" by fastforce
    show ?case using Cons.IH [of h1] by (auto simp: h1 h2)
  qed simp
  show "distinct clients \<Longrightarrow> distinct (fst (send_to_each payload clients h))"
  proof (induction clients arbitrary: h)
    case (Cons c clients)
    obtain sent h1 where h1: "send_binary payload c h = (sent, h1)" by fastforce
    obtain kept h2 where h2: "send_to_each payload clients h1 = (kept, h2)" by fastforce
    show ?case using Cons.IH [of h1] Cons.prems sub [of clients h1] by (auto simp: h1 h2)
  qed simp
qed

lemma send_to_clients_distinct: "distinct (hb_clients h) \<Longrightarrow> distinct (hb_clients (send_to_clients payload h))"
  using send_to_each_subset(2) [of "hb_clients h" payload h] by (auto simp: send_to_clients_def split: prod.splits)

text \<open>Sending may drop browsers but adds none.\<close>

lemma send_to_clients_subset: "set (hb_clients (send_to_clients payload h)) \<subseteq> set (hb_clients h)"
  using send_to_each_subset(1) [of payload "hb_clients h" h] by (auto simp: send_to_clients_def split: prod.splits)

lemma broadcast_clients:
  "set (hb_clients (broadcast_terminal_output out h)) \<subseteq> set (hb_clients h)"
  "set (hb_clients (broadcast_parent_status status h)) \<subseteq> set (hb_clients h)"
  "set (hb_clients (broadcast_pane_output out h)) \<subseteq> set (hb_clients h)"
proof -
  have sub: "hb_clients k = hb_clients h \<Longrightarrow> set (hb_clients (send_to_clients payload k)) \<subseteq> set (hb_clients h)" for payload k
    using send_to_clients_subset [of payload k] by simp
  show "set (hb_clients (broadcast_terminal_output out h)) \<subseteq> set (hb_clients h)"
    "set (hb_clients (broadcast_parent_status status h)) \<subseteq> set (hb_clients h)"
    "set (hb_clients (broadcast_pane_output out h)) \<subseteq> set (hb_clients h)"
    by (simp_all add: broadcast_terminal_output_def broadcast_parent_status_def broadcast_pane_output_def Let_def sub split: prod.split)
qed

lemma broadcast_ok:
  assumes "stored_ok h"
  shows "stored_ok (broadcast_terminal_output out h)" "stored_ok (broadcast_parent_status status h)" "stored_ok (broadcast_pane_output out h)"
proof -
  show "stored_ok (broadcast_terminal_output out h)"
    using assms by (auto simp: stored_ok_def terminal_backlog_last last_bytes_def)
       (auto simp: broadcast_terminal_output_def Let_def intro!: send_to_clients_distinct)
  show "stored_ok (broadcast_parent_status status h)"
    using assms by (auto simp: stored_ok_def) (auto simp: broadcast_parent_status_def intro!: send_to_clients_distinct)
  obtain n backlog where t: "trim_pane_backlog (hb_pane_output_backlog_size h + length (encode_bridge_to_browser_message To_browser_PANE_OUTPUT out))
      (hb_pane_output_backlog h @ [encode_bridge_to_browser_message To_browser_PANE_OUTPUT out]) = (n, backlog)" by fastforce
  have eq: "broadcast_pane_output out h = send_to_clients (encode_bridge_to_browser_message To_browser_PANE_OUTPUT out)
      (h\<lparr>hb_pane_output_backlog := backlog, hb_pane_output_backlog_size := n\<rparr>)"
    unfolding broadcast_pane_output_def Let_def t by simp
  have "hb_pane_output_backlog_size h + length p = sum_list (map length (hb_pane_output_backlog h @ [p]))" for p
    using assms by (simp add: stored_ok_def)
  from trim_pane_backlog_ok [OF t this] show "stored_ok (broadcast_pane_output out h)"
    using assms unfolding eq by (auto simp: stored_ok_def intro!: send_to_clients_distinct)
qed

lemma status_lines_ok:
  assumes "stored_ok h"
  shows "stored_ok (status_lines h) \<and> CHR 0x0A \<notin> set (hb_parent_status_buffer (status_lines h))
    \<and> hb_terminal_backlog (status_lines h) = hb_terminal_backlog h \<and> set (hb_clients (status_lines h)) \<subseteq> set (hb_clients h)"
  using assms
proof (induction h rule: status_lines.induct)
  case (1 h)
  show ?case
  proof (cases "find_string [CHR 0x0A] (hb_parent_status_buffer h)")
    case None
    have "CHR 0x0A \<notin> set (hb_parent_status_buffer h)"
    proof
      assume "CHR 0x0A \<in> set (hb_parent_status_buffer h)"
      then obtain u v where "hb_parent_status_buffer h = u @ CHR 0x0A # v" "CHR 0x0A \<notin> set u" by (metis split_list_first)
      then show False using None find_char [of "CHR 0x0A" u v] by simp
    qed
    then show ?thesis using 1(2) None by (simp add: status_lines.simps [of h])
  next
    case (Some i)
    define h1 where "h1 = h\<lparr>hb_parent_status_buffer := drop (i + 1) (hb_parent_status_buffer h)\<rparr>"
    define status where "status = take i (hb_parent_status_buffer h)"
    define h2 where "h2 = (if status = [] then h1 else broadcast_parent_status status h1)"
    have step: "status_lines h = status_lines h2"
      using Some by (simp add: status_lines.simps [of h] h2_def h1_def status_def Let_def)
    have h1: "stored_ok h1" "hb_terminal_backlog h1 = hb_terminal_backlog h" "hb_clients h1 = hb_clients h"
      using 1(2) by (simp_all add: h1_def)
    then have "stored_ok h2" "hb_terminal_backlog h2 = hb_terminal_backlog h" using broadcast_ok(2) by (auto simp: h2_def)
    moreover have "set (hb_clients h2) \<subseteq> set (hb_clients h)" using h1(3) broadcast_clients(2) [of status h1] by (simp add: h2_def)
    ultimately show ?thesis using 1(1) [OF Some refl refl] unfolding step status_def [symmetric] h1_def [symmetric] h2_def [symmetric] by auto
  qed
qed

lemma view_frames_ok:
  assumes "stored_ok h" "view_frames h = Inr h'"
  shows "stored_ok h' \<and> hb_terminal_backlog h' = hb_terminal_backlog h \<and> hb_parent_status_buffer h' = hb_parent_status_buffer h
    \<and> set (hb_clients h') \<subseteq> set (hb_clients h)"
  using assms
proof (induction h rule: view_frames.induct)
  case (1 h)
  have keep: "stored_ok (h\<lparr>hb_pane_view_buffer := b\<rparr>)" for b using 1(3) by simp
  from 1(4) obtain m b where d: "decode_pane_view_frame (hb_pane_view_buffer h) = Inr (m, b)"
    by (subst (asm) view_frames.simps) (auto split: sum.splits)
  show ?case
  proof (cases m)
    case None
    then show ?thesis using 1(4) d keep by (auto simp: view_frames.simps [of h])
  next
    case (Some message)
    show ?thesis
    proof (cases message)
      case (View_output out)
      from 1(4) d Some View_output obtain payload where p: "encode_pane_output_payload out = Inr payload"
        "view_frames (broadcast_pane_output payload (h\<lparr>hb_pane_view_buffer := b\<rparr>)) = Inr h'"
        by (auto simp: view_frames.simps [of h] result_simps)
      from 1(1) [OF d refl Some View_output broadcast_ok(3) [OF keep] p(2)]
        broadcast_clients(3) [of payload "h\<lparr>hb_pane_view_buffer := b\<rparr>"] show ?thesis by auto
    next
      case (View_resize z)
      then have "view_frames (h\<lparr>hb_pane_view_buffer := b\<rparr>) = Inr h'" using 1(4) d Some by (simp add: view_frames.simps [of h])
      from 1(2) [OF d refl Some View_resize keep this] show ?thesis by simp
    qed
  qed
qed

section \<open>Whatever happens\<close>

text \<open>The steps of the hub: bytes from the parent, and browsers that come and go.\<close>

datatype hub_event =
    Terminal_read string
  | Status_read string
  | View_read string
  | Client_came nat
  | Client_left nat

fun hub_step :: "hub_event \<Rightarrow> hub \<Rightarrow> hub result" where
  "hub_step (Terminal_read bytes) h = Inr (read_terminal_output bytes h)"
| "hub_step (Status_read bytes) h = Inr (read_parent_status bytes h)"
| "hub_step (View_read bytes) h = read_pane_view bytes h"
| "hub_step (Client_came client) h = Inr (if client \<in> set (hb_clients h) then h else add_client client h)"
| "hub_step (Client_left client) h = Inr (remove_client client h)"

fun printed_bytes :: "hub_event \<Rightarrow> string" where
  "printed_bytes (Terminal_read bytes) = bytes"
| "printed_bytes e = []"

text \<open>What a new browser is sent.\<close>

definition kept_payloads :: "hub \<Rightarrow> string list" where
  "kept_payloads h =
     (if hb_terminal_backlog h = [] then [] else [encode_bridge_to_browser_message To_browser_TERMINAL_OUTPUT (hb_terminal_backlog h)])
   @ (if hb_latest_parent_status h = [] then []
      else [encode_bridge_to_browser_message To_browser_PARENT_STATUS (hb_latest_parent_status h)])
   @ hb_pane_output_backlog h"

lemma add_client_kept:
  "add_client client h = fold (\<lambda>payload h. snd (send_binary payload client h)) (kept_payloads h)
     (h\<lparr>hb_clients := hb_clients h @ [client]\<rparr>)"
proof -
  have same: "hb_latest_parent_status (snd (send_binary p client k)) = hb_latest_parent_status k"
    "hb_pane_output_backlog (snd (send_binary p client k)) = hb_pane_output_backlog k" for p k
    using send_binary_frame [of p client k] by auto
  show ?thesis by (simp add: add_client_def kept_payloads_def Let_def same)
qed

lemma add_client_fields:
  "hb_clients (add_client client h) = hb_clients h @ [client]"
  "\<exists>s. add_client client h = h\<lparr>hb_sockets := s, hb_clients := hb_clients h @ [client]\<rparr>"
proof -
  have send: "\<exists>s. fold (\<lambda>payload h. snd (send_binary payload client h)) payloads h = h\<lparr>hb_sockets := s\<rparr>" for payloads h
  proof (induction payloads arbitrary: h)
    case Nil
    have "h = h\<lparr>hb_sockets := hb_sockets h\<rparr>" by simp
    then show ?case by (metis fold_simps(1))
  next
    case (Cons p ps)
    obtain s1 where "snd (send_binary p client h) = h\<lparr>hb_sockets := s1\<rparr>" using send_binary_frame by blast
    moreover obtain s2 where "fold (\<lambda>payload h. snd (send_binary payload client h)) ps (h\<lparr>hb_sockets := s1\<rparr>)
        = h\<lparr>hb_sockets := s1\<rparr>\<lparr>hb_sockets := s2\<rparr>" using Cons.IH by blast
    ultimately show ?case by auto
  qed
  from send [of "kept_payloads h" "h\<lparr>hb_clients := hb_clients h @ [client]\<rparr>"] obtain s where
    "add_client client h = h\<lparr>hb_clients := hb_clients h @ [client]\<rparr>\<lparr>hb_sockets := s\<rparr>" unfolding add_client_kept by (elim exE)
  then have fields: "add_client client h = h\<lparr>hb_sockets := s, hb_clients := hb_clients h @ [client]\<rparr>" by simp
  then show "\<exists>s. add_client client h = h\<lparr>hb_sockets := s, hb_clients := hb_clients h @ [client]\<rparr>" by blast
  from fields show "hb_clients (add_client client h) = hb_clients h @ [client]" by simp
qed

lemma hub_step_ok:
  assumes "hub_ok h" "hub_step e h = Inr h'"
  shows "hub_ok h' \<and> hb_terminal_backlog h' = last_bytes MAX_TERMINAL_BACKLOG (hb_terminal_backlog h @ printed_bytes e)"
proof -
  have same: "last_bytes MAX_TERMINAL_BACKLOG (hb_terminal_backlog h) = hb_terminal_backlog h"
    using assms(1) by (simp add: hub_ok_def stored_ok_def last_bytes_def)
  have stored: "stored_ok h" and buffer: "length (hb_parent_status_buffer h) \<le> MAX_PARENT_STATUS_BUFFER"
    "CHR 0x0A \<notin> set (hb_parent_status_buffer h)" using assms(1) by (simp_all add: hub_ok_def)
  show ?thesis
  proof (cases e)
    case (Terminal_read bytes)
    then show ?thesis using assms stored buffer same broadcast_ok(1) [OF stored, of bytes]
      by (auto simp: read_terminal_output_def hub_ok_def terminal_backlog_last split: if_splits)
  next
    case (Status_read bytes)
    have "stored_ok (h\<lparr>hb_parent_status_buffer := hb_parent_status_buffer h @ bytes\<rparr>)" using stored by simp
    from status_lines_ok [OF this] show ?thesis using assms Status_read same
      by (auto simp: read_parent_status_def Let_def hub_ok_def split: if_splits)
  next
    case (View_read bytes)
    have "stored_ok (h\<lparr>hb_pane_view_buffer := hb_pane_view_buffer h @ bytes\<rparr>)" using stored by simp
    from view_frames_ok [OF this, of h'] show ?thesis using assms View_read same buffer
      by (auto simp: read_pane_view_def hub_ok_def split: if_splits)
  next
    case (Client_came client)
    obtain s where "add_client client h = h\<lparr>hb_sockets := s, hb_clients := hb_clients h @ [client]\<rparr>"
      using add_client_fields(2) by blast
    then show ?thesis using assms Client_came same by (auto simp: hub_ok_def stored_ok_def split: if_splits)
  next
    case (Client_left client)
    then show ?thesis using assms same by (auto simp: remove_client_def hub_ok_def stored_ok_def)
  qed
qed

text \<open>The browsers of the hub are those that came.\<close>

fun newcomers :: "hub_event \<Rightarrow> nat set" where
  "newcomers (Client_came client) = {client}"
| "newcomers e = {}"

lemma hub_step_clients:
  assumes "hub_ok h" "hub_step e h = Inr h'"
  shows "set (hb_clients h') \<subseteq> set (hb_clients h) \<union> newcomers e"
proof -
  have stored: "stored_ok (h\<lparr>hb_parent_status_buffer := s\<rparr>)" "stored_ok (h\<lparr>hb_pane_view_buffer := s\<rparr>)" for s
    using assms(1) by (simp_all add: hub_ok_def)
  show ?thesis
  proof (cases e)
    case (Terminal_read bytes)
    then show ?thesis using assms(2) broadcast_clients(1) [of bytes h] by (auto simp: read_terminal_output_def split: if_splits)
  next
    case (Status_read bytes)
    then show ?thesis using assms(2) status_lines_ok [OF stored(1) [of "hb_parent_status_buffer h @ bytes"]]
      by (auto simp: read_parent_status_def Let_def split: if_splits)
  next
    case (View_read bytes)
    then show ?thesis using assms(2) view_frames_ok [OF stored(2) [of "hb_pane_view_buffer h @ bytes"], of h']
      by (auto simp: read_pane_view_def split: if_splits)
  next
    case (Client_came client)
    then show ?thesis using assms(2) by (auto simp: add_client_fields(1) split: if_splits)
  next
    case (Client_left client)
    then show ?thesis using assms(2) by (auto simp: remove_client_def)
  qed
qed

lemma hub_run_ok:
  assumes "hub_ok h" "fold_result hub_step events h = Inr h'"
  shows "hub_ok h' \<and> hb_terminal_backlog h' = last_bytes MAX_TERMINAL_BACKLOG (hb_terminal_backlog h @ concat (map printed_bytes events))"
  using assms
proof (induction events arbitrary: h)
  case Nil
  then show ?case by (auto simp: hub_ok_def stored_ok_def last_bytes_def)
next
  case (Cons e events)
  from Cons.prems(2) obtain h1 where h1: "hub_step e h = Inr h1" "fold_result hub_step events h1 = Inr h'"
    by (auto simp: result_simps)
  show ?case using hub_step_ok [OF Cons.prems(1) h1(1)] Cons.IH [OF _ h1(2)] last_bytes_append by simp
qed

text \<open>A turn of the reading thread is made of such steps.\<close>

definition optional :: "(string \<Rightarrow> hub_event) \<Rightarrow> string option \<Rightarrow> hub_event list" where
  "optional e bytes = (case bytes of None \<Rightarrow> [] | Some b \<Rightarrow> [e b])"

lemma read_pty_turn_steps:
  "read_pty_turn (Pty_events terminal status view) h
    = and_then (fold_result hub_step (optional Terminal_read terminal @ optional Status_read status @ optional View_read view) h)
        (\<lambda>h'. Inr (True, h'))"
proof -
  have stop: "and_then r (fold_result hub_step []) = r" for r by (cases r) simp_all
  show ?thesis by (cases terminal; cases status; cases view) (simp_all add: optional_def stop)
qed

lemma initial_hub_ok: "hub_ok (initial_hub sockets)"
  by (simp add: hub_ok_def stored_ok_def initial_hub_def)

end
