(* ===== verification/Bridge_Server.thy ===== *)
theory Bridge_Server
  imports Bridge_Hub
begin

text \<open>
  The bridge's server (src/src/bridge/parent_ws_server.cc), the parent's terminal as it writes to it
  (src/src/bridge/parent_pty_session.cc) and the loop that serves one browser
  (\<open>PtyWebsocketHub::serve_client\<close>). Each turn of a browser's thread, each reading of the parent's
  descriptors and each new connection is one step, in any order.
\<close>

section \<open>The parent's terminal\<close>

record winsize =
  ws_row :: "16 word"
  ws_col :: "16 word"

text \<open>The terminal, the view socket, the size of the window and what \<open>TIOCSWINSZ\<close> reports.\<close>

record pty_session =
  pt_master :: socket
  pt_view :: socket
  pt_window :: winsize
  pt_resize_failure :: "string option"
  pt_child_pid :: int

definition on_master :: "(socket, 'a) action \<Rightarrow> (pty_session, 'a) action" where
  "on_master a p = (let (r, s) = a (pt_master p) in (r, p\<lparr>pt_master := s\<rparr>))"

definition on_view :: "(socket, 'a) action \<Rightarrow> (pty_session, 'a) action" where
  "on_view a p = (let (r, s) = a (pt_view p) in (r, p\<lparr>pt_view := s\<rparr>))"

definition session_write :: "string \<Rightarrow> (pty_session, unit) action" where
  "session_write bytes = on_master (write_all ''write to pty failed'' bytes)"

definition session_write_view :: "string \<Rightarrow> (pty_session, unit) action" where
  "session_write_view bytes = on_view (write_all ''write to parent view socket failed'' bytes)"

definition MAX_WINDOW_SIZE :: int where "MAX_WINDOW_SIZE = 65535"

definition validate_size :: "terminal_size \<Rightarrow> unit result" where
  "validate_size sz =
     throw_if (ts_rows sz \<le> 0 \<or> ts_cols sz \<le> 0 \<or> ts_rows sz > MAX_WINDOW_SIZE \<or> ts_cols sz > MAX_WINDOW_SIZE)
       (Invalid_argument (''pty size rows/cols must be within [1, '' @ to_string MAX_WINDOW_SIZE @ '']; actual rows=''
          @ to_string (ts_rows sz) @ '' cols='' @ to_string (ts_cols sz)))
       (Inr ())"

definition to_winsize :: "terminal_size \<Rightarrow> winsize result" where
  "to_winsize sz = and_then (validate_size sz)
     (\<lambda>_. Inr \<lparr>ws_row = word_of_int (ts_rows sz), ws_col = word_of_int (ts_cols sz)\<rparr>)"

definition session_resize :: "terminal_size \<Rightarrow> (pty_session, unit) action" where
  "session_resize sz =
     bind (lift (to_winsize sz)) (\<lambda>window p.
     case pt_resize_failure p of
       Some m \<Rightarrow> (Inl (Runtime_error (''resize pty failed: '' @ m)), p)
     | None \<Rightarrow> (Inr (), p\<lparr>pt_window := window\<rparr>))"

section \<open>What a browser asks for\<close>

definition send_parent_input_command :: "parent_input_command \<Rightarrow> (pty_session, unit) action" where
  "send_parent_input_command command = session_write (encode_parent_input_command command)"

definition handle_websocket_payload :: "string \<Rightarrow> (pty_session, unit) action" where
  "handle_websocket_payload payload =
     bind (lift (parse_browser_application_message payload)) (\<lambda>message.
     case message of
       None \<Rightarrow> return ()
     | Some (Browser_terminal_input bytes) \<Rightarrow> session_write bytes
     | Some (Browser_terminal_resize sz) \<Rightarrow> session_resize sz
     | Some (Browser_pane_resize z) \<Rightarrow> bind (lift (encode_pane_view_frame (View_resize z))) session_write_view
     | Some (Browser_command command) \<Rightarrow> send_parent_input_command command)"

section \<open>The bridge\<close>

text \<open>
  Browsers are numbered in the order in which they connect. \<open>br_serving\<close> are those whose thread is
  in the loop of \<open>serve_client\<close>, \<open>br_log\<close> what the threads print when an exception ends them.
\<close>

record bridge =
  br_hub :: hub
  br_session :: pty_session
  br_accepted :: nat
  br_serving :: "nat list"
  br_log :: "string list"

text \<open>The pages that the bridge serves; their text is a parameter.\<close>

record assets =
  as_html :: string
  as_client_js :: string
  as_css :: string

definition on_client :: "nat \<Rightarrow> (socket, 'a) action \<Rightarrow> (bridge, 'a) action" where
  "on_client client a b =
     (let h = br_hub b; (r, s) = a (hb_sockets h client) in
      (r, b\<lparr>br_hub := h\<lparr>hb_sockets := (hb_sockets h)(client := s)\<rparr>\<rparr>))"

definition on_pty :: "(pty_session, 'a) action \<Rightarrow> (bridge, 'a) action" where
  "on_pty a b = (let (r, p) = a (br_session b) in (r, b\<lparr>br_session := p\<rparr>))"

definition health_body :: "int \<Rightarrow> string" where
  "health_body pid = [CHR ''{'', CHR 0x22] @ ''ok'' @ [CHR 0x22] @ '':true,'' @ [CHR 0x22] @ ''parentPid'' @ [CHR 0x22, CHR '':'']
     @ to_string pid @ [CHR ''}'', CHR 0x0A]"

text \<open>Answering a request: whether the browser is then served.\<close>

definition answer_request :: "assets \<Rightarrow> nat \<Rightarrow> (bridge, bool) action" where
  "answer_request page client =
     bind (on_client client read_http_request) (\<lambda>request' b.
     let respond = (\<lambda>status type body. bind (on_client client (send_http_response status type body)) (\<lambda>_. return False) b) in
     if hr_path request' = ''/'' then respond ''200 OK'' ''text/html; charset=utf-8'' (as_html page)
     else if hr_path request' = ''/client.js'' then respond ''200 OK'' ''application/javascript; charset=utf-8'' (as_client_js page)
     else if hr_path request' = ''/style.css'' then respond ''200 OK'' ''text/css; charset=utf-8'' (as_css page)
     else if hr_path request' = ''/health'' then respond ''200 OK'' ''application/json'' (health_body (pt_child_pid (br_session b)))
     else if hr_path request' \<noteq> ''/ws'' then respond ''404 Not Found'' ''text/plain'' (''not found'' @ [CHR 0x0A])
     else on_client client (send_websocket_handshake request') b)"

definition begin_service :: "nat \<Rightarrow> bridge \<Rightarrow> bridge" where
  "begin_service client b = b\<lparr>br_hub := add_client client (br_hub b), br_serving := br_serving b @ [client]\<rparr>"

definition end_service :: "nat \<Rightarrow> bridge \<Rightarrow> bridge" where
  "end_service client b = b\<lparr>br_serving := filter (\<lambda>c. c \<noteq> client) (br_serving b)\<rparr>"

text \<open>The exception that leaves a browser's thread is printed; undefined behaviour is not caught.\<close>

definition thread_failed :: "cpp_error \<Rightarrow> bridge \<Rightarrow> bridge result" where
  "thread_failed e b = (case what e of
     None \<Rightarrow> Inl e
   | Some m \<Rightarrow> Inr (b\<lparr>br_log := br_log b @ [''client error: '' @ m]\<rparr>))"

definition accept_browser :: "assets \<Rightarrow> socket \<Rightarrow> bridge \<Rightarrow> bridge result" where
  "accept_browser page connection b =
     (let client = br_accepted b; h = br_hub b;
          b1 = b\<lparr>br_accepted := client + 1, br_hub := h\<lparr>hb_sockets := (hb_sockets h)(client := connection)\<rparr>\<rparr> in
      case answer_request page client b1 of
        (Inl e, b2) \<Rightarrow> thread_failed e b2
      | (Inr served, b2) \<Rightarrow> Inr (if served then begin_service client b2 else b2))"

section \<open>Serving a browser\<close>

datatype poll_outcome = Poll_failed string | Poll_interrupted | Poll_timeout | Poll_ready | Poll_other

text \<open>One turn of the loop: whether there is another one.\<close>

definition serve_turn :: "nat \<Rightarrow> poll_outcome \<Rightarrow> (bridge, bool) action" where
  "serve_turn client poll = (case poll of
     Poll_failed m \<Rightarrow> throw (Runtime_error (''poll websocket client failed: '' @ m))
   | Poll_interrupted \<Rightarrow> return True
   | Poll_timeout \<Rightarrow> return True
   | Poll_other \<Rightarrow> return True
   | Poll_ready \<Rightarrow>
       bind (on_client client read_websocket_frame) (\<lambda>frame.
       case frame of
         None \<Rightarrow> return False
       | Some f \<Rightarrow>
           if wf_opcode f = CLOSE_OPCODE then return False
           else if wf_opcode f = BINARY_OPCODE \<or> wf_opcode f = TEXT_OPCODE
             then bind (on_pty (handle_websocket_payload (wf_payload f))) (\<lambda>_. return True)
           else return True))"

definition leave_loop :: "nat \<Rightarrow> bridge \<Rightarrow> bridge" where
  "leave_loop client b = end_service client (b\<lparr>br_hub := remove_client client (br_hub b)\<rparr>)"

definition serve_client_step :: "nat \<Rightarrow> bool \<Rightarrow> poll_outcome \<Rightarrow> bridge \<Rightarrow> bridge result" where
  "serve_client_step client keep_running poll b =
     (if client \<notin> set (br_serving b) then Inr b
      else if \<not> keep_running then Inr (leave_loop client b)
      else case serve_turn client poll b of
        (Inr True, b') \<Rightarrow> Inr b'
      | (Inr False, b') \<Rightarrow> Inr (leave_loop client b')
      | (Inl e, b') \<Rightarrow> thread_failed e (end_service client b'))"

section \<open>The steps of the bridge\<close>

datatype bridge_event =
    Browser_connects socket
  | Browser_turn nat bool poll_outcome
  | Parent_prints string
  | Parent_reports string
  | Parent_shows string

definition on_hub :: "(hub \<Rightarrow> hub result) \<Rightarrow> bridge \<Rightarrow> bridge result" where
  "on_hub f b = and_then (f (br_hub b)) (\<lambda>h. Inr (b\<lparr>br_hub := h\<rparr>))"

fun bridge_step :: "assets \<Rightarrow> bridge_event \<Rightarrow> bridge \<Rightarrow> bridge result" where
  "bridge_step page (Browser_connects connection) b = accept_browser page connection b"
| "bridge_step page (Browser_turn client keep_running poll) b = serve_client_step client keep_running poll b"
| "bridge_step page (Parent_prints bytes) b = on_hub (hub_step (Terminal_read bytes)) b"
| "bridge_step page (Parent_reports bytes) b = on_hub (hub_step (Status_read bytes)) b"
| "bridge_step page (Parent_shows bytes) b = on_hub (hub_step (View_read bytes)) b"

section \<open>Starting\<close>

record server_config =
  sc_interface :: string
  sc_port :: "16 word"
  sc_parent_binary :: string
  sc_working_directory :: string
  sc_state_directory :: string

definition network_port_from_int :: "int \<Rightarrow> 16 word option" where
  "network_port_from_int raw = (if raw < 0 \<or> raw > 65535 then None else Some (word_of_int raw))"

definition default_config :: "string \<Rightarrow> server_config" where
  "default_config current_path =
     \<lparr>sc_interface = ''127.0.0.1'', sc_port = 7682, sc_parent_binary = [], sc_working_directory = current_path,
      sc_state_directory = []\<rparr>"

definition parse_port :: "string \<Rightarrow> 16 word result" where
  "parse_port digits = require (Runtime_error (''invalid port: '' @ digits)) (case from_chars digits of
     Some (raw, []) \<Rightarrow> network_port_from_int raw
   | _ \<Rightarrow> None)"

text \<open>The options in their order; no configuration when the usage was asked for and the program exits.\<close>

fun parse_args :: "string list \<Rightarrow> server_config \<Rightarrow> server_config option result" where
  "parse_args [] config = Inr (Some config)"
| "parse_args (arg # args) config =
     (let missing = Inl (Runtime_error (''missing value for '' @ arg)) in
      if arg = ''--parent'' then
        (case args of [] \<Rightarrow> missing | value' # rest \<Rightarrow> parse_args rest (config\<lparr>sc_parent_binary := value'\<rparr>))
      else if arg = ''--cwd'' then
        (case args of [] \<Rightarrow> missing | value' # rest \<Rightarrow> parse_args rest (config\<lparr>sc_working_directory := value'\<rparr>))
      else if arg = ''--state-directory'' then
        (case args of [] \<Rightarrow> missing | value' # rest \<Rightarrow> parse_args rest (config\<lparr>sc_state_directory := value'\<rparr>))
      else if arg = ''--interface'' then
        (case args of [] \<Rightarrow> missing | value' # rest \<Rightarrow> parse_args rest (config\<lparr>sc_interface := value'\<rparr>))
      else if arg = ''--port'' then
        (case args of [] \<Rightarrow> missing
         | value' # rest \<Rightarrow> and_then (parse_port value') (\<lambda>port. parse_args rest (config\<lparr>sc_port := port\<rparr>)))
      else if arg = ''--help'' \<or> arg = ''-h'' then Inr None
      else Inl (Runtime_error (''unknown argument: '' @ arg)))"

definition is_loopback_interface :: "string \<Rightarrow> bool" where
  "is_loopback_interface interface \<longleftrightarrow> interface = ''127.0.0.1'' \<or> starts_with ''127.'' interface"

text \<open>The checks with which \<open>run_server\<close> begins.\<close>

definition check_config :: "server_config \<Rightarrow> unit result" where
  "check_config config =
     throw_if (sc_parent_binary config = []) (Runtime_error ''--parent is required'')
    (throw_if (sc_state_directory config = []) (Runtime_error ''--state-directory is required'')
    (throw_if (\<not> native_absolute (sc_state_directory config)) (Runtime_error ''--state-directory must be absolute'')
    (throw_if (\<not> is_loopback_interface (sc_interface config)) (Runtime_error ''--interface must be a loopback IPv4 address'')
    (Inr ()))))"

definition initial_bridge :: "pty_session \<Rightarrow> (nat \<Rightarrow> socket) \<Rightarrow> bridge" where
  "initial_bridge session sockets =
     \<lparr>br_hub = initial_hub sockets, br_session = session, br_accepted = 0, br_serving = [], br_log = []\<rparr>"

end
