(* ===== verification/Bridge_Correct.thy ===== *)
theory Bridge_Correct
  imports Bridge_Server
begin

text \<open>
  What the bridge does as a whole: a browser that connects gets the handshake and what was kept for
  it, its messages reach the parent in their order, an exception ends its thread but leaves it
  registered, and every sequence of steps keeps the stored output in its bounds.
\<close>

section \<open>Messages on their way to the parent\<close>

text \<open>What a browser types and asks, as the payloads it sends and as what the parent decodes.\<close>

datatype browser_message = Typed string | Asked parent_input_command

fun message_payload :: "browser_message \<Rightarrow> string" where
  "message_payload (Typed s) = CHR ''0'' # s"
| "message_payload (Asked c) = command_message c"

fun parent_bytes :: "browser_message \<Rightarrow> string" where
  "parent_bytes (Typed s) = s"
| "parent_bytes (Asked c) = encode_parent_input_command c"

fun message_tokens :: "browser_message \<Rightarrow> (char + parent_input_command) list" where
  "message_tokens (Typed s) = map Inl s"
| "message_tokens (Asked c) = [Inr c]"

fun message_ok :: "browser_message \<Rightarrow> bool" where
  "message_ok (Typed s) \<longleftrightarrow> PARENT_INPUT_COMMAND_PREFIX \<notin> set s"
| "message_ok (Asked c) \<longleftrightarrow> command_ok c"

text \<open>A message in its frame: text or binary, masked.\<close>

record framed_message =
  fm_opcode :: opcode
  fm_masking :: string
  fm_message :: browser_message

definition framed :: "framed_message \<Rightarrow> string" where
  "framed f = sent_frame (fm_opcode f) (Some (fm_masking f)) (message_payload (fm_message f))"

definition frame_ok :: "framed_message \<Rightarrow> bool" where
  "frame_ok f \<longleftrightarrow> (fm_opcode f = TEXT_OPCODE \<or> fm_opcode f = BINARY_OPCODE) \<and> length (fm_masking f) = 4
     \<and> message_ok (fm_message f) \<and> length (message_payload (fm_message f)) \<le> MAX_WEBSOCKET_FRAME_SIZE"

lemma opcode_facts:
  "take_bit 4 TEXT_OPCODE = TEXT_OPCODE" "take_bit 4 BINARY_OPCODE = BINARY_OPCODE" "take_bit 4 CLOSE_OPCODE = CLOSE_OPCODE"
  "TEXT_OPCODE \<noteq> CLOSE_OPCODE" "BINARY_OPCODE \<noteq> CLOSE_OPCODE"
  unfolding TEXT_OPCODE_def BINARY_OPCODE_def CLOSE_OPCODE_def take_bit_eq_mask by (simp_all add: mask_numeral)

lemma session_write_calm:
  assumes "calm (pt_master p)"
  obtains s where "session_write bytes p = (Inr (), p\<lparr>pt_master := s\<rparr>)" "calm s" "so_sent s = so_sent (pt_master p) @ bytes"
proof -
  from write_all_calm [OF assms, of "''write to pty failed''" bytes] obtain s where
    s: "write_all ''write to pty failed'' bytes (pt_master p) = (Inr (), s)" "calm s" "so_sent s = so_sent (pt_master p) @ bytes" by metis
  then have "session_write bytes p = (Inr (), p\<lparr>pt_master := s\<rparr>)" by (simp add: session_write_def on_master_def)
  from that [OF this s(2,3)] show ?thesis .
qed

lemma handle_message:
  assumes "message_ok m" "calm (pt_master p)"
  obtains s where "handle_websocket_payload (message_payload m) p = (Inr (), p\<lparr>pt_master := s\<rparr>)" "calm s"
    "so_sent s = so_sent (pt_master p) @ parent_bytes m"
proof -
  from session_write_calm [OF assms(2), of "parent_bytes m"] obtain s where
    s: "session_write (parent_bytes m) p = (Inr (), p\<lparr>pt_master := s\<rparr>)" "calm s"
    "so_sent s = so_sent (pt_master p) @ parent_bytes m" by blast
  have "handle_websocket_payload (message_payload m) p = session_write (parent_bytes m) p"
  proof (cases m)
    case (Typed t)
    then show ?thesis by (simp add: handle_websocket_payload_def bind_run lift_def parse_browser_application_message_def
        decode_browser_to_bridge_message_def type_of_discriminator_def)
  next
    case (Asked c)
    then show ?thesis using assms(1) parse_command_message [of c]
      by (simp add: handle_websocket_payload_def bind_run lift_def send_parent_input_command_def)
  qed
  with s that show ?thesis by simp
qed

text \<open>A served browser's turn with a frame of text or bytes at the front of its stream.\<close>

lemma payload_turn:
  assumes serving: "client \<in> set (br_serving b)"
    and stream: "calm (hb_sockets (br_hub b) client)" "incoming (hb_sockets (br_hub b) client) = sent_frame opcode (Some masking) payload @ rest"
    and frame: "opcode = TEXT_OPCODE \<or> opcode = BINARY_OPCODE" "length masking = 4" "length payload \<le> MAX_WEBSOCKET_FRAME_SIZE"
  obtains s where "calm s" "incoming s = rest" "so_sent s = so_sent (hb_sockets (br_hub b) client)"
    "serve_turn client Poll_ready b
       = bind (on_pty (handle_websocket_payload payload)) (\<lambda>_. return True)
           (b\<lparr>br_hub := (br_hub b)\<lparr>hb_sockets := (hb_sockets (br_hub b))(client := s)\<rparr>\<rparr>)"
proof -
  have op: "take_bit 4 opcode = opcode" "opcode \<noteq> CLOSE_OPCODE" "opcode = BINARY_OPCODE \<or> opcode = TEXT_OPCODE"
    using frame(1) opcode_facts by auto
  have "\<forall>m. Some masking = Some m \<longrightarrow> length m = 4" using frame(2) by simp
  from read_sent_frame [OF stream op(1) frame(3) this] obtain s where s:
    "read_websocket_frame (hb_sockets (br_hub b) client) = (Inr (Some \<lparr>wf_opcode = opcode, wf_payload = payload\<rparr>), s)" "calm s"
    "incoming s = rest" "so_sent s = so_sent (hb_sockets (br_hub b) client)" by metis
  have "serve_turn client Poll_ready b
      = bind (on_pty (handle_websocket_payload payload)) (\<lambda>_. return True)
           (b\<lparr>br_hub := (br_hub b)\<lparr>hb_sockets := (hb_sockets (br_hub b))(client := s)\<rparr>\<rparr>)"
    using s(1) op(2,3) by (simp add: serve_turn_def bind_run [of "on_client _ _"] on_client_def Let_def)
  with s that show ?thesis by blast
qed

lemma message_turn:
  assumes "client \<in> set (br_serving b)" "calm (hb_sockets (br_hub b) client)"
    "incoming (hb_sockets (br_hub b) client) = framed f @ rest" "frame_ok f" "calm (pt_master (br_session b))"
  obtains b' where "bridge_step page (Browser_turn client True Poll_ready) b = Inr b'" "br_serving b' = br_serving b"
    "calm (hb_sockets (br_hub b') client)" "incoming (hb_sockets (br_hub b') client) = rest" "calm (pt_master (br_session b'))"
    "so_sent (pt_master (br_session b')) = so_sent (pt_master (br_session b)) @ parent_bytes (fm_message f)"
proof -
  have f: "fm_opcode f = TEXT_OPCODE \<or> fm_opcode f = BINARY_OPCODE" "length (fm_masking f) = 4"
    "length (message_payload (fm_message f)) \<le> MAX_WEBSOCKET_FRAME_SIZE" "message_ok (fm_message f)"
    using assms(4) by (simp_all add: frame_ok_def)
  from payload_turn [OF assms(1,2) assms(3) [unfolded framed_def] f(1-3)] obtain s where s: "calm s" "incoming s = rest"
    "serve_turn client Poll_ready b
       = bind (on_pty (handle_websocket_payload (message_payload (fm_message f)))) (\<lambda>_. return True)
           (b\<lparr>br_hub := (br_hub b)\<lparr>hb_sockets := (hb_sockets (br_hub b))(client := s)\<rparr>\<rparr>)" by metis
  from handle_message [OF f(4) assms(5)] obtain t where t:
    "handle_websocket_payload (message_payload (fm_message f)) (br_session b) = (Inr (), (br_session b)\<lparr>pt_master := t\<rparr>)" "calm t"
    "so_sent t = so_sent (pt_master (br_session b)) @ parent_bytes (fm_message f)" by blast
  define b' where "b' = b\<lparr>br_hub := (br_hub b)\<lparr>hb_sockets := (hb_sockets (br_hub b))(client := s)\<rparr>,
    br_session := (br_session b)\<lparr>pt_master := t\<rparr>\<rparr>"
  have "serve_turn client Poll_ready b = (Inr True, b')"
    unfolding s(3) by (simp add: bind_run on_pty_def t(1) return_def b'_def)
  then have "bridge_step page (Browser_turn client True Poll_ready) b = Inr b'"
    using assms(1) by (simp add: serve_client_step_def)
  then show ?thesis using that [of b'] s(1,2) t(2,3) by (simp add: b'_def)
qed

lemma messages_in_order:
  assumes "client \<in> set (br_serving b)" "calm (hb_sockets (br_hub b) client)"
    "incoming (hb_sockets (br_hub b) client) = concat (map framed fs) @ rest" "\<forall>f \<in> set fs. frame_ok f"
    "calm (pt_master (br_session b))"
  shows "\<exists>b'. fold_result (bridge_step page) (replicate (length fs) (Browser_turn client True Poll_ready)) b = Inr b'
    \<and> br_serving b' = br_serving b \<and> incoming (hb_sockets (br_hub b') client) = rest
    \<and> so_sent (pt_master (br_session b'))
      = so_sent (pt_master (br_session b)) @ concat (map (\<lambda>f. parent_bytes (fm_message f)) fs)"
  using assms
proof (induction fs arbitrary: b)
  case (Cons f fs)
  have inc: "incoming (hb_sockets (br_hub b) client) = framed f @ (concat (map framed fs) @ rest)" using Cons.prems(3) by simp
  have ok: "frame_ok f" "\<forall>f \<in> set fs. frame_ok f" using Cons.prems(4) by simp_all
  from message_turn [OF Cons.prems(1,2) inc ok(1) Cons.prems(5)] obtain b1 where b1:
    "bridge_step page (Browser_turn client True Poll_ready) b = Inr b1" "br_serving b1 = br_serving b"
    "calm (hb_sockets (br_hub b1) client)" "incoming (hb_sockets (br_hub b1) client) = concat (map framed fs) @ rest"
    "calm (pt_master (br_session b1))"
    "so_sent (pt_master (br_session b1)) = so_sent (pt_master (br_session b)) @ parent_bytes (fm_message f)" by blast
  have "client \<in> set (br_serving b1)" using b1(2) Cons.prems(1) by simp
  from Cons.IH [OF this b1(3,4) ok(2) b1(5)] show ?case by (simp add: b1 del: bridge_step.simps)
qed simp

text \<open>The parent decodes what was typed and asked.\<close>

lemma decode_typed:
  "PARENT_INPUT_COMMAND_PREFIX \<notin> set s \<Longrightarrow> dc_state D = Literal_input_state \<Longrightarrow> decode_stream s D = (map Inl s, D)"
  by (induction s) (auto simp: decode_byte_def)

lemma decode_message:
  assumes "message_ok m" "dc_state D = Literal_input_state"
  obtains D' where "decode_stream (parent_bytes m) D = (message_tokens m, D')" "dc_state D' = Literal_input_state"
proof (cases m)
  case (Typed s)
  then show ?thesis using that decode_typed assms by simp
next
  case (Asked c)
  then show ?thesis using that decode_command_byte [of c] assms
    by (simp add: encode_parent_input_command_def decode_byte_def)
qed

lemma decode_messages:
  assumes "\<forall>m \<in> set ms. message_ok m"
  shows "tokens (fst (consume initial_decoder (concat (map parent_bytes ms)))) = concat (map message_tokens ms)"
proof -
  have "fst (decode_stream (concat (map parent_bytes ms)) D) = concat (map message_tokens ms)"
    if "dc_state D = Literal_input_state" for D
    using that assms
  proof (induction ms arbitrary: D)
    case (Cons m ms)
    have m: "message_ok m" using Cons.prems(2) by simp
    from decode_message [OF m Cons.prems(1)] obtain D' where
      "decode_stream (parent_bytes m) D = (message_tokens m, D')" "dc_state D' = Literal_input_state" by blast
    then show ?case using Cons.IH [of D'] Cons.prems(2) by (auto simp: decode_stream_append Let_def split: prod.splits)
  qed simp
  from this [of initial_decoder] show ?thesis by (simp add: consume_stream initial_decoder_def)
qed

section \<open>How a browser's service ends\<close>

text \<open>An exception of the handler ends the thread before the browser is taken from the hub.\<close>

lemma failed_turn:
  assumes "client \<in> set (br_serving b)" "calm (hb_sockets (br_hub b) client)"
    "incoming (hb_sockets (br_hub b) client) = sent_frame opcode (Some masking) payload @ rest"
    "opcode = TEXT_OPCODE \<or> opcode = BINARY_OPCODE" "length masking = 4" "length payload \<le> MAX_WEBSOCKET_FRAME_SIZE"
    "handle_websocket_payload payload (br_session b) = (Inl e, p)" "what e = Some m"
  shows "\<exists>b'. bridge_step page (Browser_turn client True Poll_ready) b = Inr b' \<and> client \<notin> set (br_serving b')
    \<and> hb_clients (br_hub b') = hb_clients (br_hub b) \<and> br_log b' = br_log b @ [''client error: '' @ m]"
proof -
  from payload_turn [OF assms(1-6)] obtain s where
    "serve_turn client Poll_ready b
       = bind (on_pty (handle_websocket_payload payload)) (\<lambda>_. return True)
           (b\<lparr>br_hub := (br_hub b)\<lparr>hb_sockets := (hb_sockets (br_hub b))(client := s)\<rparr>\<rparr>)" by metis
  then show ?thesis using assms(1,7,8)
    by (simp add: serve_client_step_def bind_run on_pty_def thread_failed_def end_service_def)
qed

text \<open>A browser that closes, or whose connection is gone, is taken from the hub.\<close>

lemma closed_turn:
  assumes "client \<in> set (br_serving b)" "calm (hb_sockets (br_hub b) client)"
    "incoming (hb_sockets (br_hub b) client) = [] \<or> (\<exists>masking payload rest. length masking = 4
      \<and> incoming (hb_sockets (br_hub b) client) = sent_frame CLOSE_OPCODE (Some masking) payload @ rest
      \<and> length payload \<le> MAX_WEBSOCKET_FRAME_SIZE)"
  shows "\<exists>b'. bridge_step page (Browser_turn client True Poll_ready) b = Inr b' \<and> client \<notin> set (br_serving b')
    \<and> hb_clients (br_hub b') = filter (\<lambda>c. c \<noteq> client) (hb_clients (br_hub b)) \<and> br_log b' = br_log b"
proof -
  let ?s = "hb_sockets (br_hub b) client"
  have "\<exists>s f. read_websocket_frame ?s = (Inr f, s) \<and> (f = None \<or> (\<exists>p. f = Some \<lparr>wf_opcode = CLOSE_OPCODE, wf_payload = p\<rparr>))"
  proof (cases "incoming ?s = []")
    case True
    then have "length (incoming ?s) < 2" by simp
    with read_exact_calm [OF assms(2), of 2] obtain s where "read_exact_or_closed 2 ?s = (Inr None, s)" by metis
    then show ?thesis by (auto simp: read_websocket_frame_def bind_some_run(2))
  next
    case False
    with assms(3) obtain masking payload rest where m: "length masking = 4"
      "incoming ?s = sent_frame CLOSE_OPCODE (Some masking) payload @ rest" "length payload \<le> MAX_WEBSOCKET_FRAME_SIZE" by blast
    have "\<forall>k. Some masking = Some k \<longrightarrow> length k = 4" using m(1) by simp
    from read_sent_frame [OF assms(2) m(2) opcode_facts(3) m(3) this] show ?thesis by metis
  qed
  then obtain s f where f: "read_websocket_frame ?s = (Inr f, s)"
    "f = None \<or> (\<exists>p. f = Some \<lparr>wf_opcode = CLOSE_OPCODE, wf_payload = p\<rparr>)" by blast
  have "serve_turn client Poll_ready b = (Inr False, b\<lparr>br_hub := (br_hub b)\<lparr>hb_sockets := (hb_sockets (br_hub b))(client := s)\<rparr>\<rparr>)"
    using f(2) by (auto simp: serve_turn_def bind_run on_client_def Let_def f(1) return_def)
  then show ?thesis using assms(1)
    by (simp add: serve_client_step_def leave_loop_def end_service_def remove_client_def)
qed

section \<open>A browser that connects\<close>

lemma send_binary_calm:
  assumes "calm (hb_sockets h client)"
  shows "\<exists>s. send_binary payload client h = (True, h\<lparr>hb_sockets := (hb_sockets h)(client := s)\<rparr>) \<and> calm s
    \<and> so_sent s = so_sent (hb_sockets h client) @ server_frame BINARY_OPCODE payload"
proof -
  from write_all_calm [OF assms, of "''send failed''" "server_frame BINARY_OPCODE payload"] obtain s where
    "write_all ''send failed'' (server_frame BINARY_OPCODE payload) (hb_sockets h client) = (Inr (), s)" "calm s"
    "so_sent s = so_sent (hb_sockets h client) @ server_frame BINARY_OPCODE payload" by metis
  then show ?thesis by (auto simp: send_binary_def send_websocket_frame_def send_all_def)
qed

lemma send_payloads_calm:
  assumes "calm (hb_sockets h client)"
  shows "so_sent (hb_sockets (fold (\<lambda>payload h. snd (send_binary payload client h)) payloads h) client)
    = so_sent (hb_sockets h client) @ concat (map (server_frame BINARY_OPCODE) payloads)"
  using assms
proof (induction payloads arbitrary: h)
  case (Cons p ps)
  from send_binary_calm [OF Cons.prems, of p] obtain s where
    s: "send_binary p client h = (True, h\<lparr>hb_sockets := (hb_sockets h)(client := s)\<rparr>)" "calm s"
    "so_sent s = so_sent (hb_sockets h client) @ server_frame BINARY_OPCODE p" by blast
  then show ?case using Cons.IH [of "h\<lparr>hb_sockets := (hb_sockets h)(client := s)\<rparr>"] by simp
qed simp

text \<open>The handshake, then what the hub has kept.\<close>

lemma browser_connected:
  assumes s: "steady connection" "incoming connection = printed_request (meth @ '' '' @ target @ '' '' @ version) headers rest"
      "length (incoming connection) \<le> 16384"
    and line: "CHR '' '' \<notin> set meth" "CHR '' '' \<notin> set target" "CHR 0x0D \<notin> set (meth @ target @ version)"
    and headers: "\<forall>h \<in> set headers. header_ok h"
    and route: "takeWhile (\<lambda>c. c \<noteq> CHR ''?'') target = ''/ws''"
    and key: "find (\<lambda>h. header_names_equal (fst h) ''Sec-WebSocket-Key'') headers = Some (name, key)"
  shows "\<exists>b'. bridge_step page (Browser_connects connection) b = Inr b' \<and> br_serving b' = br_serving b @ [br_accepted b]
    \<and> hb_clients (br_hub b') = hb_clients (br_hub b) @ [br_accepted b]
    \<and> so_sent (hb_sockets (br_hub b') (br_accepted b))
      = so_sent connection @ handshake_response key @ concat (map (server_frame BINARY_OPCODE) (kept_payloads (br_hub b)))"
proof -
  let ?c = "br_accepted b"
  from request_read [OF s line headers] obtain r s1 where r: "read_http_request connection = (Inr r, s1)" "steady s1"
    "so_sent s1 = so_sent connection" "hr_path r = ''/ws''"
    "header_value r ''Sec-WebSocket-Key'' = Some key" using route key by auto
  have "calm s1" using r(2) by (simp add: steady_def)
  from write_all_calm [OF this, of "''send failed''" "handshake_response key"] obtain s2 where
    s2: "write_all ''send failed'' (handshake_response key) s1 = (Inr (), s2)" "calm s2"
    "so_sent s2 = so_sent s1 @ handshake_response key" by metis
  have shake: "send_websocket_handshake r s1 = (Inr True, s2)"
    by (simp add: send_websocket_handshake_def r(5) send_all_def bind_run s2(1) return_def)
  define b1 where "b1 = b\<lparr>br_accepted := ?c + 1, br_hub := (br_hub b)\<lparr>hb_sockets := (hb_sockets (br_hub b))(?c := connection)\<rparr>\<rparr>"
  define b2 where "b2 = b\<lparr>br_accepted := ?c + 1, br_hub := (br_hub b)\<lparr>hb_sockets := (hb_sockets (br_hub b))(?c := s2)\<rparr>\<rparr>"
  have "on_client ?c read_http_request b1 = (Inr r, b\<lparr>br_accepted := ?c + 1, br_hub := (br_hub b)\<lparr>hb_sockets := (hb_sockets (br_hub b))(?c := s1)\<rparr>\<rparr>)"
    by (simp add: on_client_def b1_def Let_def r(1))
  then have "answer_request page ?c b1 = (Inr True, b2)"
    by (simp add: answer_request_def bind_run Let_def r(4) b2_def) (simp add: on_client_def Let_def shake)
  then have step: "bridge_step page (Browser_connects connection) b = Inr (begin_service ?c b2)"
    unfolding bridge_step.simps accept_browser_def Let_def b1_def [symmetric] by simp
  have kept: "kept_payloads (br_hub b2) = kept_payloads (br_hub b)" by (simp add: b2_def kept_payloads_def)
  have "so_sent (hb_sockets (add_client ?c (br_hub b2)) ?c)
      = so_sent s2 @ concat (map (server_frame BINARY_OPCODE) (kept_payloads (br_hub b)))"
    unfolding add_client_kept kept
    using s2(2) send_payloads_calm [of "(br_hub b2)\<lparr>hb_clients := hb_clients (br_hub b2) @ [?c]\<rparr>" ?c] by (simp add: b2_def)
  then show ?thesis unfolding step by (simp add: begin_service_def add_client_fields(1) s2(3) r(3)) (simp add: b2_def)
qed

end
