(* ===== verification/Bridge_Reachable.thy ===== *)
theory Bridge_Reachable
  imports Bridge_Server
begin

text \<open>
  Every sequence of the bridge's steps (src/src/bridge/parent_ws_server.cc and
  server/pty_websocket_hub.cc), whatever browsers send and however their sockets fail: the hub
  stays well formed and the stored terminal output is the end of what the parent printed.
\<close>

section \<open>What a thread changes\<close>

definition only_sockets :: "bridge \<Rightarrow> bridge \<Rightarrow> bool" where
  "only_sockets b b' \<longleftrightarrow> (\<exists>s p. b' = b\<lparr>br_hub := (br_hub b)\<lparr>hb_sockets := s\<rparr>, br_session := p\<rparr>)"

lemma only_sockets_refl: "only_sockets b b"
proof -
  have "b = b\<lparr>br_hub := (br_hub b)\<lparr>hb_sockets := hb_sockets (br_hub b)\<rparr>, br_session := br_session b\<rparr>" by simp
  then show ?thesis unfolding only_sockets_def by blast
qed

lemma only_sockets_trans: "only_sockets a b \<Longrightarrow> only_sockets b c \<Longrightarrow> only_sockets a c"
  unfolding only_sockets_def by force

lemma only_sockets_fields:
  assumes "only_sockets b b'"
  shows "br_accepted b' = br_accepted b" "br_serving b' = br_serving b" "br_log b' = br_log b"
    "hb_clients (br_hub b') = hb_clients (br_hub b)" "hb_terminal_backlog (br_hub b') = hb_terminal_backlog (br_hub b)"
    "\<exists>s. br_hub b' = (br_hub b)\<lparr>hb_sockets := s\<rparr>"
  using assms by (auto simp: only_sockets_def)

definition quiet :: "(bridge, 'a) action \<Rightarrow> bool" where
  "quiet a \<longleftrightarrow> (\<forall>b. only_sockets b (snd (a b)))"

lemma quiet_client: "quiet (on_client client a)"
proof -
  have "only_sockets b (b\<lparr>br_hub := (br_hub b)\<lparr>hb_sockets := s\<rparr>\<rparr>)" for b s
  proof -
    have "b\<lparr>br_hub := (br_hub b)\<lparr>hb_sockets := s\<rparr>\<rparr> = b\<lparr>br_hub := (br_hub b)\<lparr>hb_sockets := s\<rparr>, br_session := br_session b\<rparr>" by simp
    then show ?thesis unfolding only_sockets_def by blast
  qed
  then show ?thesis by (simp add: quiet_def on_client_def Let_def split: prod.split)
qed

lemma quiet_session: "quiet (on_pty a)"
proof -
  have "only_sockets b (b\<lparr>br_session := p\<rparr>)" for b p
  proof -
    have "b\<lparr>br_session := p\<rparr> = b\<lparr>br_hub := (br_hub b)\<lparr>hb_sockets := hb_sockets (br_hub b)\<rparr>, br_session := p\<rparr>" by simp
    then show ?thesis unfolding only_sockets_def by blast
  qed
  then show ?thesis by (simp add: quiet_def on_pty_def split: prod.split)
qed

lemma quiet_simple: "quiet (return x)" "quiet (throw e)"
  by (simp_all add: quiet_def return_def throw_def only_sockets_refl)

lemma quiet_bind:
  assumes "quiet a" "\<And>x. quiet (f x)"
  shows "quiet (bind a f)"
  unfolding quiet_def
proof
  fix b
  obtain r b1 where r: "a b = (r, b1)" by fastforce
  then have b1: "only_sockets b b1" using assms(1) unfolding quiet_def by (metis snd_conv)
  show "only_sockets b (snd (bind a f b))"
  proof (cases r)
    case (Inr x)
    have "only_sockets b1 (snd (f x b1))" using assms(2) [of x] by (simp add: quiet_def)
    then show ?thesis using only_sockets_trans [OF b1] by (simp add: bind_def r Inr)
  qed (use b1 in \<open>simp add: bind_def r\<close>)
qed

lemma quiet_look: "(\<And>x. quiet (f x)) \<Longrightarrow> quiet (\<lambda>b. f (g b) b)"
  by (simp add: quiet_def)

lemma quiet_if: "quiet a \<Longrightarrow> quiet a' \<Longrightarrow> quiet (if c then a else a')"
  by simp

lemmas quietness = quiet_bind quiet_client quiet_session quiet_simple quiet_if

lemma quiet_answer: "quiet (answer_request page client)"
proof -
  have "quiet (\<lambda>b.
     let respond = (\<lambda>status type body. bind (on_client client (send_http_response status type body)) (\<lambda>_. return False) b) in
     if hr_path r = ''/'' then respond ''200 OK'' ''text/html; charset=utf-8'' (as_html page)
     else if hr_path r = ''/client.js'' then respond ''200 OK'' ''application/javascript; charset=utf-8'' (as_client_js page)
     else if hr_path r = ''/style.css'' then respond ''200 OK'' ''text/css; charset=utf-8'' (as_css page)
     else if hr_path r = ''/health'' then respond ''200 OK'' ''application/json'' (health_body (pt_child_pid (br_session b)))
     else if hr_path r \<noteq> ''/ws'' then respond ''404 Not Found'' ''text/plain'' (''not found'' @ [CHR 0x0A])
     else on_client client (send_websocket_handshake r) b)" for r
  proof -
    have respond: "quiet (bind (on_client client (send_http_response status type body)) (\<lambda>_. return False))" for status type body
      by (intro quietness)
    show ?thesis unfolding quiet_def Let_def
      using respond quiet_client [of client "send_websocket_handshake r"] by (auto simp: quiet_def)
  qed
  then show ?thesis unfolding answer_request_def by (intro quietness)
qed

lemma quiet_turn: "quiet (serve_turn client poll)"
proof -
  have "quiet (case frame of
       None \<Rightarrow> return False
     | Some f \<Rightarrow> if wf_opcode f = CLOSE_OPCODE then return False
         else if wf_opcode f = BINARY_OPCODE \<or> wf_opcode f = TEXT_OPCODE
           then bind (on_pty (handle_websocket_payload (wf_payload f))) (\<lambda>_. return True)
         else return True)" for frame
    by (cases frame) (simp_all add: quietness)
  note ready = quiet_bind [OF quiet_client this]
  show ?thesis
  proof (cases poll)
    case Poll_ready
    show ?thesis unfolding serve_turn_def Poll_ready poll_outcome.case by (rule ready)
  qed (simp_all add: serve_turn_def quietness)
qed

section \<open>Every sequence of steps\<close>

definition bridge_ok :: "bridge \<Rightarrow> bool" where
  "bridge_ok b \<longleftrightarrow> hub_ok (br_hub b) \<and> distinct (br_serving b)
     \<and> (\<forall>c \<in> set (hb_clients (br_hub b)) \<union> set (br_serving b). c < br_accepted b)"

fun parent_printed :: "bridge_event \<Rightarrow> string" where
  "parent_printed (Parent_prints bytes) = bytes"
| "parent_printed e = []"

lemma hub_ok_sockets [simp]: "hub_ok (h\<lparr>hb_sockets := s\<rparr>) = hub_ok h"
  by (simp add: hub_ok_def)

lemma only_sockets_ok: "only_sockets b b' \<Longrightarrow> bridge_ok b' = bridge_ok b"
  by (auto simp: only_sockets_def bridge_ok_def)

lemma on_hub_ok:
  assumes "bridge_ok b" "on_hub (hub_step e) b = Inr b'" "newcomers e = {}"
  shows "bridge_ok b' \<and> hb_terminal_backlog (br_hub b')
    = last_bytes MAX_TERMINAL_BACKLOG (hb_terminal_backlog (br_hub b) @ printed_bytes e)"
proof -
  from assms(2) obtain h where h: "hub_step e (br_hub b) = Inr h" "b' = b\<lparr>br_hub := h\<rparr>" by (auto simp: on_hub_def result_simps)
  have ok: "hub_ok (br_hub b)" using assms(1) by (simp add: bridge_ok_def)
  from hub_step_clients [OF ok h(1)] hub_step_ok [OF ok h(1)] assms(1,3) show ?thesis
    by (auto simp: bridge_ok_def h(2))
qed

lemma kept_backlog: "bridge_ok b \<Longrightarrow> last_bytes MAX_TERMINAL_BACKLOG (hb_terminal_backlog (br_hub b)) = hb_terminal_backlog (br_hub b)"
  by (simp add: bridge_ok_def hub_ok_def stored_ok_def last_bytes_def)

lemma thread_failed_ok: "thread_failed e b = Inr b' \<Longrightarrow> bridge_ok b \<Longrightarrow> bridge_ok b' \<and> br_hub b' = br_hub b"
  by (auto simp: thread_failed_def bridge_ok_def split: option.splits)

lemma end_service_ok: "bridge_ok b \<Longrightarrow> bridge_ok (end_service client b)"
  by (auto simp: end_service_def bridge_ok_def)

lemma leave_loop_ok:
  "bridge_ok b \<Longrightarrow> bridge_ok (leave_loop client b) \<and> hb_terminal_backlog (br_hub (leave_loop client b)) = hb_terminal_backlog (br_hub b)"
  by (auto simp: leave_loop_def end_service_def bridge_ok_def hub_ok_def stored_ok_def remove_client_def)

lemma serve_step_ok:
  assumes "bridge_ok b" "serve_client_step client keep_running poll b = Inr b'"
  shows "bridge_ok b' \<and> hb_terminal_backlog (br_hub b') = hb_terminal_backlog (br_hub b)"
proof -
  obtain r b1 where r: "serve_turn client poll b = (r, b1)" by fastforce
  then have same: "only_sockets b b1" using quiet_turn [of client poll] unfolding quiet_def by (metis snd_conv)
  have b1: "bridge_ok b1" "hb_terminal_backlog (br_hub b1) = hb_terminal_backlog (br_hub b)"
    using only_sockets_ok [OF same] only_sockets_fields(5) [OF same] assms(1) by simp_all
  have "b' = b \<or> b' = leave_loop client b \<or> b' = b1 \<or> b' = leave_loop client b1 \<or> (\<exists>e. thread_failed e (end_service client b1) = Inr b')"
  proof (cases r)
    case (Inl e)
    then show ?thesis using assms(2) by (auto simp: serve_client_step_def r split: if_splits)
  next
    case (Inr continue)
    then show ?thesis using assms(2) by (cases continue) (auto simp: serve_client_step_def r split: if_splits)
  qed
  then consider "b' = b" | "b' = leave_loop client b" | "b' = b1" | "b' = leave_loop client b1"
    | e where "thread_failed e (end_service client b1) = Inr b'" by blast
  then show ?thesis
  proof cases
    case (5 e)
    then show ?thesis using thread_failed_ok [OF 5 end_service_ok [OF b1(1)]] b1(2) by (simp add: end_service_def)
  qed (use assms(1) b1 leave_loop_ok in auto)
qed

lemma begin_service_ok:
  assumes "hub_ok (br_hub b)" "distinct (br_serving b)" "client \<notin> set (hb_clients (br_hub b)) \<union> set (br_serving b)"
    "\<forall>c \<in> set (hb_clients (br_hub b)) \<union> set (br_serving b) \<union> {client}. c < br_accepted b"
  shows "bridge_ok (begin_service client b) \<and> hb_terminal_backlog (br_hub (begin_service client b)) = hb_terminal_backlog (br_hub b)"
proof -
  obtain s where s: "add_client client (br_hub b) = (br_hub b)\<lparr>hb_sockets := s, hb_clients := hb_clients (br_hub b) @ [client]\<rparr>"
    using add_client_fields(2) by blast
  then show ?thesis using assms by (auto simp: begin_service_def bridge_ok_def hub_ok_def stored_ok_def)
qed

lemma accept_ok:
  assumes "bridge_ok b" "accept_browser page connection b = Inr b'"
  shows "bridge_ok b' \<and> hb_terminal_backlog (br_hub b') = hb_terminal_backlog (br_hub b)"
proof -
  define b1 where "b1 = b\<lparr>br_accepted := br_accepted b + 1,
    br_hub := (br_hub b)\<lparr>hb_sockets := (hb_sockets (br_hub b))(br_accepted b := connection)\<rparr>\<rparr>"
  obtain r b2 where r: "answer_request page (br_accepted b) b1 = (r, b2)" by fastforce
  then have same: "only_sockets b1 b2" using quiet_answer [of page "br_accepted b"] unfolding quiet_def by (metis snd_conv)
  note same_fields = only_sockets_fields [OF same]
  have old: "\<forall>c \<in> set (hb_clients (br_hub b)) \<union> set (br_serving b). c < br_accepted b"
    using assms(1) by (simp add: bridge_ok_def)
  then have "\<forall>c \<in> set (hb_clients (br_hub b)) \<union> set (br_serving b). c < br_accepted b + 1"
    unfolding Suc_eq_plus1 [symmetric] by (blast intro: less_SucI)
  then have b1: "bridge_ok b1" using assms(1) by (simp add: b1_def bridge_ok_def)
  have b2: "bridge_ok b2" "hb_terminal_backlog (br_hub b2) = hb_terminal_backlog (br_hub b)"
    using only_sockets_ok [OF same] b1 same_fields(5) by (simp_all add: b1_def)
  have step: "accept_browser page connection b = (case (r, b2) of
      (Inl e, b2) \<Rightarrow> thread_failed e b2
    | (Inr served, b2) \<Rightarrow> Inr (if served then begin_service (br_accepted b) b2 else b2))"
    unfolding accept_browser_def Let_def b1_def [symmetric] r by (rule refl)
  have "b' = b2 \<or> (\<exists>e. thread_failed e b2 = Inr b') \<or> b' = begin_service (br_accepted b) b2"
    using assms(2) unfolding step by (cases r) (auto split: if_splits)
  then consider "b' = b2" | e where "thread_failed e b2 = Inr b'" | "b' = begin_service (br_accepted b) b2" by blast
  then show ?thesis
  proof cases
    case (2 e)
    then show ?thesis using thread_failed_ok [OF 2 b2(1)] b2(2) by simp
  next
    case 3
    have f: "br_accepted b2 = br_accepted b + 1" "hb_clients (br_hub b2) = hb_clients (br_hub b)" "br_serving b2 = br_serving b"
      using same_fields by (simp_all add: b1_def)
    have ok: "hub_ok (br_hub b2)" "distinct (br_serving b2)" using b2(1) by (simp_all add: bridge_ok_def)
    have new_one: "br_accepted b \<notin> set (hb_clients (br_hub b2)) \<union> set (br_serving b2)" using old unfolding f by blast
    have "\<forall>c \<in> set (hb_clients (br_hub b2)) \<union> set (br_serving b2) \<union> {br_accepted b}. c < br_accepted b2"
      using old unfolding f Suc_eq_plus1 [symmetric] by (blast intro: less_SucI)
    from begin_service_ok [OF ok new_one this] show ?thesis unfolding 3 b2(2) .
  qed (use b2 in simp)
qed

lemma bridge_step_ok:
  assumes "bridge_ok b" "bridge_step page e b = Inr b'"
  shows "bridge_ok b' \<and> hb_terminal_backlog (br_hub b')
    = last_bytes MAX_TERMINAL_BACKLOG (hb_terminal_backlog (br_hub b) @ parent_printed e)"
proof (cases e)
  case (Browser_connects connection)
  then show ?thesis using accept_ok [OF assms(1)] assms(2) kept_backlog [OF assms(1)] by auto
next
  case (Browser_turn client keep_running poll)
  then show ?thesis using serve_step_ok [OF assms(1)] assms(2) kept_backlog [OF assms(1)] by auto
qed (use on_hub_ok [OF assms(1)] assms(2) in auto)

lemma bridge_run_ok:
  assumes "bridge_ok b" "fold_result (bridge_step page) events b = Inr b'"
  shows "bridge_ok b' \<and> hb_terminal_backlog (br_hub b')
    = last_bytes MAX_TERMINAL_BACKLOG (hb_terminal_backlog (br_hub b) @ concat (map parent_printed events))"
  using assms
proof (induction events arbitrary: b)
  case Nil
  then show ?case using kept_backlog by auto
next
  case (Cons e events)
  from Cons.prems(2) obtain b1 where b1: "bridge_step page e b = Inr b1" "fold_result (bridge_step page) events b1 = Inr b'"
    by (auto simp: result_simps simp del: bridge_step.simps)
  show ?case using bridge_step_ok [OF Cons.prems(1) b1(1)] Cons.IH [OF _ b1(2)] last_bytes_append by simp
qed

lemma initial_bridge_ok: "bridge_ok (initial_bridge session sockets)"
  using initial_hub_ok by (simp add: bridge_ok_def initial_bridge_def) (simp add: initial_hub_def)

end
