(* ===== verification/Bridge_Views.thy ===== *)
theory Bridge_Views
  imports Bridge_Hub
begin

text \<open>
  What the parent shows in its panes (\<open>PtyWebsocketHub::read_pane_view\<close> of
  src/src/bridge/server/pty_websocket_hub.cc over src/src/parent/view/pane_view_protocol.cc): in
  whatever pieces its frames are read, every output is broadcast once, in order, and nothing stays
  in the buffer.
\<close>

section \<open>Broadcasting does not look at the buffer\<close>

lemma send_binary_buffer:
  "send_binary payload client (h\<lparr>hb_pane_view_buffer := b\<rparr>)
    = apsnd (\<lambda>h. h\<lparr>hb_pane_view_buffer := b\<rparr>) (send_binary payload client h)"
  by (simp add: send_binary_def split: prod.split)

lemma send_to_each_buffer:
  "send_to_each payload clients (h\<lparr>hb_pane_view_buffer := b\<rparr>)
    = apsnd (\<lambda>h. h\<lparr>hb_pane_view_buffer := b\<rparr>) (send_to_each payload clients h)"
  by (induction clients arbitrary: h) (simp_all add: send_binary_buffer Let_def split: prod.split)

lemma send_to_clients_buffer:
  "send_to_clients payload (h\<lparr>hb_pane_view_buffer := b\<rparr>) = (send_to_clients payload h)\<lparr>hb_pane_view_buffer := b\<rparr>"
  by (simp add: send_to_clients_def send_to_each_buffer split: prod.split)

lemma broadcast_pane_output_buffer:
  "broadcast_pane_output out (h\<lparr>hb_pane_view_buffer := b\<rparr>) = (broadcast_pane_output out h)\<lparr>hb_pane_view_buffer := b\<rparr>"
proof -
  have "send_to_clients p (h\<lparr>hb_pane_view_buffer := b, hb_pane_output_backlog := l, hb_pane_output_backlog_size := n\<rparr>)
      = (send_to_clients p (h\<lparr>hb_pane_output_backlog := l, hb_pane_output_backlog_size := n\<rparr>))\<lparr>hb_pane_view_buffer := b\<rparr>" for p l n
  proof -
    have "h\<lparr>hb_pane_view_buffer := b, hb_pane_output_backlog := l, hb_pane_output_backlog_size := n\<rparr>
        = h\<lparr>hb_pane_output_backlog := l, hb_pane_output_backlog_size := n\<rparr>\<lparr>hb_pane_view_buffer := b\<rparr>" by (cases h) simp
    then show ?thesis using send_to_clients_buffer by metis
  qed
  then show ?thesis by (simp add: broadcast_pane_output_def Let_def split: prod.split)
qed

section \<open>The stream of frames\<close>

definition frame_of :: "pane_view_message \<Rightarrow> string" where
  "frame_of m = (case encode_pane_view_frame m of Inr frame \<Rightarrow> frame | Inl e \<Rightarrow> [])"

definition view_stream :: "pane_view_message list \<Rightarrow> string" where
  "view_stream ms = concat (map frame_of ms)"

text \<open>What a message does to the hub.\<close>

fun show_message :: "pane_view_message \<Rightarrow> hub \<Rightarrow> hub" where
  "show_message (View_output out) h = (case encode_pane_output_payload out of
     Inr payload \<Rightarrow> broadcast_pane_output payload h
   | Inl e \<Rightarrow> h)"
| "show_message (View_resize z) h = h"

lemma show_message_buffer:
  "show_message m (h\<lparr>hb_pane_view_buffer := b\<rparr>) = (show_message m h)\<lparr>hb_pane_view_buffer := b\<rparr>"
  by (cases m) (simp_all add: broadcast_pane_output_buffer split: sum.split)

lemma show_messages_buffer:
  "fold show_message ms (h\<lparr>hb_pane_view_buffer := b\<rparr>) = (fold show_message ms h)\<lparr>hb_pane_view_buffer := b\<rparr>"
  by (induction ms arbitrary: h) (simp_all add: show_message_buffer)

lemma frame_of_decode:
  assumes "view_message_ok m"
  shows "decode_pane_view_frame (frame_of m @ rest) = Inr (Some m, rest)"
    "n < length (frame_of m) \<Longrightarrow> decode_pane_view_frame (take n (frame_of m)) = Inr (None, take n (frame_of m))"
proof -
  from encode_total [OF assms] obtain frame where f: "encode_pane_view_frame m = Inr frame" by blast
  then have "frame_of m = frame" by (simp add: frame_of_def)
  with decode_encoded_frame [OF assms f] show "decode_pane_view_frame (frame_of m @ rest) = Inr (Some m, rest)"
    "n < length (frame_of m) \<Longrightarrow> decode_pane_view_frame (take n (frame_of m)) = Inr (None, take n (frame_of m))" by simp_all
qed

lemma output_payload: "view_message_ok (View_output out) \<Longrightarrow> \<exists>payload. encode_pane_output_payload out = Inr payload"
  by (simp add: encode_pane_output_payload_def append_identity_bytes)

text \<open>Whole frames at the front of the buffer are shown; what follows them stays.\<close>

lemma view_frames_stream:
  assumes "\<forall>m \<in> set ms. view_message_ok m" "decode_pane_view_frame q = Inr (None, q)"
  shows "view_frames (h\<lparr>hb_pane_view_buffer := view_stream ms @ q\<rparr>) = Inr (fold show_message ms (h\<lparr>hb_pane_view_buffer := q\<rparr>))"
  using assms(1)
proof (induction ms arbitrary: h)
  case Nil
  then show ?case using assms(2) by (simp add: view_frames.simps [of "h\<lparr>hb_pane_view_buffer := _\<rparr>"] view_stream_def)
next
  case (Cons m ms)
  have ok: "view_message_ok m" "\<forall>m \<in> set ms. view_message_ok m" using Cons.prems by simp_all
  have stream: "view_stream (m # ms) @ q = frame_of m @ (view_stream ms @ q)" by (simp add: view_stream_def)
  have "view_frames (h\<lparr>hb_pane_view_buffer := view_stream (m # ms) @ q\<rparr>)
      = view_frames (show_message m h\<lparr>hb_pane_view_buffer := view_stream ms @ q\<rparr>)"
  proof (cases m)
    case (View_output out)
    with ok(1) output_payload obtain payload where "encode_pane_output_payload out = Inr payload" by blast
    then show ?thesis unfolding stream unfolding View_output
      by (subst view_frames.simps) (simp add: frame_of_decode(1) [OF ok(1) [unfolded View_output]] broadcast_pane_output_buffer)
  next
    case (View_resize z)
    show ?thesis unfolding stream unfolding View_resize
      by (subst view_frames.simps) (simp add: frame_of_decode(1) [OF ok(1) [unfolded View_resize]])
  qed
  then show ?case using Cons.IH [OF ok(2), of "show_message m h"] by (simp add: show_message_buffer)
qed

text \<open>The front of a stream is some whole frames and a piece that is not yet a frame.\<close>

lemma front_of_stream:
  assumes "P @ R = view_stream ms" "\<forall>m \<in> set ms. view_message_ok m"
  shows "\<exists>ms1 ms2 q. ms = ms1 @ ms2 \<and> P = view_stream ms1 @ q \<and> q @ R = view_stream ms2
    \<and> decode_pane_view_frame q = Inr (None, q)"
  using assms
proof (induction ms arbitrary: P)
  case Nil
  have "decode_pane_view_frame [] = Inr (None, [])" by (simp add: decode_pane_view_frame_def FRAME_HEADER_SIZE_def)
  then show ?case using Nil by (intro exI [of _ "[]"]) (simp add: view_stream_def)
next
  case (Cons m ms)
  have ok: "view_message_ok m" "\<forall>m \<in> set ms. view_message_ok m" using Cons.prems by simp_all
  have stream: "P @ R = frame_of m @ view_stream ms" using Cons.prems(1) by (simp add: view_stream_def)
  show ?case
  proof (cases "length P < length (frame_of m)")
    case True
    then have "take (length P) (frame_of m) = P" using stream by (metis append_eq_append_conv_if less_imp_le)
    then have "decode_pane_view_frame P = Inr (None, P)" using frame_of_decode(2) [OF ok(1) True] by simp
    then show ?thesis using Cons.prems(1)
      by (intro exI [of _ "[]"] exI [of _ "m # ms"] exI [of _ P]) (simp add: view_stream_def)
  next
    case False
    then obtain P' where P': "P = frame_of m @ P'" "P' @ R = view_stream ms"
      using stream by (metis append_eq_append_conv2 append_eq_append_conv_if append_take_drop_id linorder_not_less append_assoc same_append_eq)
    from Cons.IH [OF P'(2) ok(2)] obtain ms1 ms2 q where "ms = ms1 @ ms2" "P' = view_stream ms1 @ q" "q @ R = view_stream ms2"
      "decode_pane_view_frame q = Inr (None, q)" by blast
    then show ?thesis by (intro exI [of _ "m # ms1"] exI [of _ ms2] exI [of _ q]) (simp add: P' view_stream_def)
  qed
qed

lemma views_in_pieces:
  assumes "q @ concat chunks = view_stream ms" "\<forall>m \<in> set ms. view_message_ok m" "decode_pane_view_frame q = Inr (None, q)"
  shows "fold_result read_pane_view chunks (h\<lparr>hb_pane_view_buffer := q\<rparr>)
    = Inr (fold show_message ms (h\<lparr>hb_pane_view_buffer := []\<rparr>))"
  using assms
proof (induction chunks arbitrary: q ms h)
  case Nil
  show ?case
  proof (cases ms)
    case Nil
    then show ?thesis using Nil.prems(1) by (simp add: view_stream_def)
  next
    case (Cons m ms')
    then have "q = frame_of m @ view_stream ms'" using Nil.prems(1) by (simp add: view_stream_def)
    then show ?thesis using Nil.prems(2,3) frame_of_decode(1) [of m "view_stream ms'"] Cons by simp
  qed
next
  case (Cons c cs)
  show ?case
  proof (cases "c = []")
    case True
    then show ?thesis using Cons.IH [of q ms h] Cons.prems by (simp add: read_pane_view_def)
  next
    case False
    have "(q @ c) @ concat cs = view_stream ms" using Cons.prems(1) by simp
    from front_of_stream [OF this Cons.prems(2)] obtain ms1 ms2 q2 where s: "ms = ms1 @ ms2" "q @ c = view_stream ms1 @ q2"
      "q2 @ concat cs = view_stream ms2" "decode_pane_view_frame q2 = Inr (None, q2)" by blast
    have ok: "\<forall>m \<in> set ms1. view_message_ok m" "\<forall>m \<in> set ms2. view_message_ok m" using Cons.prems(2) s(1) by simp_all
    have "read_pane_view c (h\<lparr>hb_pane_view_buffer := q\<rparr>) = Inr ((fold show_message ms1 h)\<lparr>hb_pane_view_buffer := q2\<rparr>)"
      using False view_frames_stream [OF ok(1) s(4), of h] by (simp add: read_pane_view_def s(2) show_messages_buffer)
    then show ?thesis using Cons.IH [OF s(3) ok(2) s(4), of "fold show_message ms1 h"]
      by (simp add: s(1) show_messages_buffer)
  qed
qed

end
