(* ===== verification/Bridge_Witness.thy ===== *)
theory Bridge_Witness
  imports Bridge_Correct Bridge_Reachable Bridge_Views
begin

text \<open>
  The guarantees of the bridge, and the sockets and states in which they apply.
\<close>

section \<open>Small states\<close>

definition demo_socket :: "string list \<Rightarrow> socket" where
  "demo_socket pieces = \<lparr>so_arrivals = map Arrived pieces, so_acceptances = [], so_sent = []\<rparr>"

definition demo_session :: pty_session where
  "demo_session = \<lparr>pt_master = demo_socket [], pt_view = demo_socket [], pt_window = \<lparr>ws_row = 24, ws_col = 80\<rparr>,
     pt_resize_failure = None, pt_child_pid = 7\<rparr>"

definition demo_bridge :: "socket \<Rightarrow> bridge" where
  "demo_bridge s = (initial_bridge demo_session (\<lambda>_. s))\<lparr>br_accepted := 1, br_serving := [0],
     br_hub := (initial_hub (\<lambda>_. s))\<lparr>hb_clients := [0]\<rparr>\<rparr>"

definition demo_page :: assets where
  "demo_page = \<lparr>as_html = [], as_client_js = [], as_css = []\<rparr>"

lemma demo_socket_stream: "incoming (demo_socket pieces) = concat pieces" "[] \<notin> set pieces \<Longrightarrow> calm (demo_socket pieces)"
  "[] \<notin> set pieces \<Longrightarrow> steady (demo_socket pieces)"
  by (induction pieces) (auto simp: demo_socket_def incoming_def calm_def steady_def)

lemma demo_bridge_fields:
  "br_serving (demo_bridge s) = [0]" "hb_sockets (br_hub (demo_bridge s)) 0 = s" "br_session (demo_bridge s) = demo_session"
  "calm (pt_master demo_session)"
  by (simp_all add: demo_bridge_def initial_bridge_def initial_hub_def demo_session_def demo_socket_stream)

lemma sent_frame_nonempty: "sent_frame opcode masking payload \<noteq> []" "[] \<noteq> sent_frame opcode masking payload"
  by (simp_all add: sent_frame_def)

section \<open>The protocols\<close>



text \<open>
  C35: The key that accepts a websocket is the base64 form of the SHA-1 digest, as the
  standard defines it, of the client key and the GUID: decoding it gives the digest, and it
  has 28 characters.
\<close>

lemma accept_key_standard:
  "websocket_accept_key key = base64_encode (standard_sha1 (key @ WEBSOCKET_GUID))
   \<and> base64_decode (websocket_accept_key key) = standard_sha1 (key @ WEBSOCKET_GUID)
   \<and> length (websocket_accept_key key) = 28"
  by (simp add: websocket_accept_key_def sha1_standard base64_roundtrip length_base64 length_sha1 [unfolded sha1_standard])

section \<open>Browsers\<close>

text \<open>
  C36: A browser whose request for /ws arrives, in any pieces, with a key under that header
  name in any case, is served: it is sent the handshake, then the kept terminal output, the
  latest status and the kept pane outputs, in that order.
\<close>

lemma browser_connects:
  assumes "steady connection" "incoming connection = printed_request (meth @ '' '' @ target @ '' '' @ version) headers rest"
    and "length (incoming connection) \<le> 16384"
    and "CHR '' '' \<notin> set meth" "CHR '' '' \<notin> set target" "CHR 0x0D \<notin> set (meth @ target @ version)"
    and "\<forall>h \<in> set headers. header_ok h" "takeWhile (\<lambda>c. c \<noteq> CHR ''?'') target = ''/ws''"
    and "find (\<lambda>h. header_names_equal (fst h) ''Sec-WebSocket-Key'') headers = Some (name, key)"
  shows "\<exists>b'. bridge_step page (Browser_connects connection) b = Inr b' \<and> br_serving b' = br_serving b @ [br_accepted b]
    \<and> hb_clients (br_hub b') = hb_clients (br_hub b) @ [br_accepted b]
    \<and> so_sent (hb_sockets (br_hub b') (br_accepted b))
      = so_sent connection @ handshake_response key @ concat (map (server_frame BINARY_OPCODE) (kept_payloads (br_hub b)))"
  by (rule browser_connected [OF assms])

definition demo_request :: string where
  "demo_request = printed_request (''GET'' @ '' '' @ ''/ws?v=1'' @ '' '' @ ''HTTP/1.1'')
     [(''Host'', ''localhost''), (''sec-websocket-key'', ''dGhlIHNhbXBsZSBub25jZQ=='')] []"

lemma demo_request_length: "demo_request \<noteq> []" "length demo_request \<le> 16384"
  by (simp_all add: demo_request_def printed_request_def printed_header_def CRLF_def)

lemma browser_connects_witness:
  "\<exists>b'. bridge_step demo_page (Browser_connects (demo_socket [demo_request])) (initial_bridge demo_session (\<lambda>_. demo_socket [])) = Inr b'
    \<and> br_serving b' = [0] \<and> hb_clients (br_hub b') = [0]
    \<and> so_sent (hb_sockets (br_hub b') 0) = handshake_response ''dGhlIHNhbXBsZSBub25jZQ==''"
proof -
  let ?b = "initial_bridge demo_session (\<lambda>_. demo_socket [])"
  have names: "\<not> header_names_equal ''Host'' ''Sec-WebSocket-Key''" "header_names_equal ''sec-websocket-key'' ''Sec-WebSocket-Key''"
    by code_simp+
  have s: "steady (demo_socket [demo_request])" "length (incoming (demo_socket [demo_request])) \<le> 16384"
    "incoming (demo_socket [demo_request]) = printed_request (''GET'' @ '' '' @ ''/ws?v=1'' @ '' '' @ ''HTTP/1.1'')
      [(''Host'', ''localhost''), (''sec-websocket-key'', ''dGhlIHNhbXBsZSBub25jZQ=='')] []"
    using demo_request_length by (simp_all add: demo_socket_stream demo_request_def)
  have state: "br_serving ?b = []" "br_accepted ?b = 0" "hb_clients (br_hub ?b) = []" "kept_payloads (br_hub ?b) = []"
    "so_sent (demo_socket [demo_request]) = []"
    by (simp_all add: initial_bridge_def initial_hub_def kept_payloads_def demo_socket_def)
  have "\<exists>b'. bridge_step demo_page (Browser_connects (demo_socket [demo_request])) ?b = Inr b'
    \<and> br_serving b' = br_serving ?b @ [br_accepted ?b] \<and> hb_clients (br_hub b') = hb_clients (br_hub ?b) @ [br_accepted ?b]
    \<and> so_sent (hb_sockets (br_hub b') (br_accepted ?b)) = so_sent (demo_socket [demo_request])
      @ handshake_response ''dGhlIHNhbXBsZSBub25jZQ=='' @ concat (map (server_frame BINARY_OPCODE) (kept_payloads (br_hub ?b)))"
    by (rule browser_connects [OF s(1,3,2), where name = "''sec-websocket-key''"])
      (simp_all add: names header_ok_def header_blank_def)
  then show ?thesis unfolding state by simp
qed

text \<open>Messages reach the parent in their order.\<close>


definition demo_messages :: "framed_message list" where
  "demo_messages =
     [\<lparr>fm_opcode = BINARY_OPCODE, fm_masking = ''mask'', fm_message = Typed ''ls''\<rparr>,
      \<lparr>fm_opcode = TEXT_OPCODE, fm_masking = ''MASK'', fm_message = Asked (Pane_command Action_CLOSE)\<rparr>]"


text \<open>A message that cannot be carried out.\<close>

text \<open>
  C38: When a message of a browser cannot be carried out, for instance a resize without rows,
  its thread ends with the exception while the browser stays registered in the hub: it is sent
  output, but nothing it sends is read any more.
\<close>

lemma failed_payload_leaves_browser:
  assumes "client \<in> set (br_serving b)" "calm (hb_sockets (br_hub b) client)"
    and "incoming (hb_sockets (br_hub b) client) = sent_frame opcode (Some masking) payload @ rest"
    and "opcode = TEXT_OPCODE \<or> opcode = BINARY_OPCODE" "length masking = 4" "length payload \<le> MAX_WEBSOCKET_FRAME_SIZE"
    and "handle_websocket_payload payload (br_session b) = (Inl e, p)" "what e = Some m"
  shows "\<exists>b'. bridge_step page (Browser_turn client True Poll_ready) b = Inr b' \<and> client \<notin> set (br_serving b')
    \<and> hb_clients (br_hub b') = hb_clients (br_hub b) \<and> br_log b' = br_log b @ [''client error: '' @ m]
    \<and> (\<forall>keep_running poll. bridge_step page (Browser_turn client keep_running poll) b' = Inr b')"
  using failed_turn [OF assms] by (fastforce simp: serve_client_step_def)

lemma failed_payload_leaves_browser_witness:
  "\<exists>b'. bridge_step demo_page (Browser_turn 0 True Poll_ready)
       (demo_bridge (demo_socket [sent_frame TEXT_OPCODE (Some ''mask'') ''1{}''])) = Inr b'
    \<and> 0 \<notin> set (br_serving b') \<and> hb_clients (br_hub b') = [0]"
proof -
  let ?b = "demo_bridge (demo_socket [sent_frame TEXT_OPCODE (Some ''mask'') ''1{}''])"
  have bad: "handle_websocket_payload ''1{}'' demo_session
      = (Inl (Runtime_error ''resize payload requires columns and rows''), demo_session)"
    by (simp add: handle_websocket_payload_def bind_run lift_def parse_browser_application_message_def
        decode_browser_to_bridge_message_def type_of_discriminator_def parse_resize_def parse_json_int_def)
  have "\<exists>b'. bridge_step demo_page (Browser_turn 0 True Poll_ready) ?b = Inr b' \<and> 0 \<notin> set (br_serving b')
    \<and> hb_clients (br_hub b') = hb_clients (br_hub ?b)
    \<and> br_log b' = br_log ?b @ [''client error: '' @ ''resize payload requires columns and rows'']
    \<and> (\<forall>keep_running poll. bridge_step demo_page (Browser_turn 0 keep_running poll) b' = Inr b')"
    by (rule failed_payload_leaves_browser [where opcode = TEXT_OPCODE and masking = "''mask''" and payload = "''1{}''" and rest = "[]"])
      (auto simp: demo_bridge_fields demo_socket_stream sent_frame_nonempty MAX_WEBSOCKET_FRAME_SIZE_def bad)
  moreover have "hb_clients (br_hub ?b) = [0]" by (simp add: demo_bridge_def)
  ultimately show ?thesis by metis
qed

section \<open>What the parent prints and shows\<close>


lemma closed_connection: "\<exists>b'. bridge_step page (Browser_connects (demo_socket [])) b = Inr b'"
proof -
  have "read_http_request (demo_socket []) = (Inl (Runtime_error ''connection closed while reading HTTP request''), demo_socket [])"
    by (simp add: read_http_request_def bind_run receive_request.simps [of "[]"] recv_def demo_socket_def contains_def CRLF_def)
  then show ?thesis by (simp add: accept_browser_def answer_request_def bind_run on_client_def Let_def thread_failed_def)
qed


text \<open>
  C40: The frames of pane messages, read from the parent in any pieces, have the effect of
  broadcasting every output once, in order, and leave nothing in the buffer.
\<close>

lemma pane_views_in_pieces:
  assumes "\<forall>m \<in> set ms. view_message_ok m" "concat chunks = view_stream ms" "hb_pane_view_buffer h = []"
  shows "fold_result read_pane_view chunks h = Inr (fold show_message ms h)"
proof -
  have "decode_pane_view_frame [] = Inr (None, [])" by (simp add: decode_pane_view_frame_def FRAME_HEADER_SIZE_def)
  moreover have "h = h\<lparr>hb_pane_view_buffer := []\<rparr>" using assms(3) by simp
  ultimately show ?thesis using views_in_pieces [of "[]" chunks ms h] assms(1,2) by simp
qed

definition demo_view :: pane_view_message where
  "demo_view = View_output \<lparr>vo_tray_key = ''t'', vo_pane_id = 3, vo_bytes = ''hello''\<rparr>"

lemma pane_views_in_pieces_witness:
  "fold_result read_pane_view [take 5 (view_stream [demo_view]), drop 5 (view_stream [demo_view])] (initial_hub (\<lambda>_. demo_socket []))
    = Inr (show_message demo_view (initial_hub (\<lambda>_. demo_socket [])))"
proof -
  have ok: "\<forall>m \<in> set [demo_view]. view_message_ok m" by (simp add: demo_view_def MAX_FRAME_SIZE_def)
  have cut: "concat [take 5 (view_stream [demo_view]), drop 5 (view_stream [demo_view])] = view_stream [demo_view]" by simp
  show ?thesis using pane_views_in_pieces [OF ok cut, of "initial_hub (\<lambda>_. demo_socket [])"] by (simp add: initial_hub_def)
qed

end
