(* ===== verification/Spec2Isabelle.thy ===== *)
theory Spec2Isabelle
  imports Pane_Split Pane_Move_Correct Pane_Swap_Correct Pane_Resize Pane_Rotate Tray_Render Tray_Manager_Properties Input_Protocol
    Dispatcher_Witness Worktree_Witness Bridge_Witness
begin

text \<open>
  A verification library for the workspace editor (\<open>my-opiniated-editor\<close>), the C++ program
  under src/src. The program is a daemon: a parent process keeps trays of terminal panes,
  routes input to them and draws them; a bridge serves a browser; helper processes register
  and provision git worktrees.

  \<^bold>\<open>The parts and their theories\<close>

  \<^item> Panes in a tree (src/src/parent/pane): \<open>Pane_Percentage\<close> (pane_percentage.cc), \<open>Pane_Layout\<close> and
    \<open>Pane_Tree\<close>, \<open>Pane_Represent\<close>, \<open>Pane_Split\<close>, \<open>Pane_Remove\<close>, \<open>Pane_Regroup\<close>, \<open>Pane_Restructure\<close>
    (pane_layout.cc), \<open>Pane_Geometry\<close> (pane_geometry.cc), \<open>Pane_Navigation\<close> (pane_navigation.cc),
    \<open>Pane_Selection\<close> (pane_selection.cc), \<open>Pane_Move\<close>, \<open>Pane_Ancestry\<close>, \<open>Pane_Extract\<close>, \<open>Pane_Insert\<close>,
    \<open>Pane_Move_Correct\<close>, \<open>Pane_Swap\<close>, \<open>Pane_Swap_Correct\<close> (pane_move.cc), \<open>Pane_Resize\<close>
    (pane_resize.cc), \<open>Pane_Rotate\<close> (pane_rotate.cc), \<open>Pane_Move_Session\<close> (pane_move_session.cc).
    The layout is the code's map from node ids to nodes; \<open>layout_inv L t\<close> says that it represents
    the abstract tree \<open>t\<close>, and every operation is proved against the tree.
  \<^item> Trays (src/src/parent/tray): \<open>Pane_Process\<close> (pane.cc), \<open>Tray_Id\<close> (tray_id.cc, tray_number.cc),
    \<open>Tray\<close> (tray.cc), \<open>Tray_Invariant\<close>, \<open>Tray_Correct\<close>, \<open>Tray_Requests\<close>, \<open>Tray_Reachable\<close>,
    \<open>Tray_Frame\<close> (its invariant, requests and reachable states), \<open>Tray_Render\<close> (what it draws),
    \<open>Tray_Preview\<close> (tray_preview_renderer.cc), \<open>Tray_Manager\<close>, \<open>Tray_Manager_Correct\<close>,
    \<open>Tray_Manager_Reachable\<close>, \<open>Tray_Manager_Properties\<close> (tray_manager.cc).
  \<^item> Input (src/src/parent/input): \<open>Input_Protocol\<close> (parent_input_protocol.cc,
    parent_input_decoder.cc).
  \<^item> The worktree dialog (src/src/parent/worktree/overlay, src/src/parent/overlay):
    \<open>Overlay_Workflow\<close> (terminal_text_field.cc, worktree_overlay_workflow_state.cc),
    \<open>Overlay_Process\<close> (worktree_overlay_process.cc), \<open>Path_Picker\<close> (path_picker_process.cc,
    path_picker_overlay.cc, overlay_footer.cc), \<open>Worktree_Overlay\<close>, \<open>Overlay_Render\<close>,
    \<open>Overlay_Correct\<close>, \<open>Overlay_Reachable\<close> (worktree_management_overlay.cc).
  \<^item> Commands (src/src/parent/runtime): \<open>Command_Dispatcher\<close>, \<open>Dispatcher_Correct\<close>,
    \<open>Dispatcher_Witness\<close> (parent_command_dispatcher.cc).
  \<^item> Worktrees (src/src/parent/worktree): \<open>Worktree_Registry\<close>, \<open>Registry_Store\<close>
    (worktree_registry_store.cc), \<open>Git_Worktree_List\<close> (git_worktree_list.cc), \<open>Worktree_Remover\<close>,
    \<open>Removal_Correct\<close> (worktree_candidate_finder.cc, worktree_remover.cc),
    \<open>Worktree_Provisioner\<close>, \<open>Provision_Correct\<close> (worktree_provisioner.cc),
    \<open>Worktree_Registrar\<close>, \<open>Registration_Correct\<close> (worktree_repository_registrar.cc,
    worktree_helper_commands.cc), \<open>Worktree_Witness\<close> (what they guarantee, and a system in which
    they do).
  \<^item> The bridge (src/src/bridge): \<open>Socket_Io\<close> (socket_io.cc), \<open>Http_Protocol\<close> (http_protocol.cc),
    \<open>Sha1\<close> and \<open>Websocket_Protocol\<close> (websocket_protocol.cc), \<open>Pane_View\<close>
    (src/src/parent/view/pane_view_protocol.cc), \<open>Browser_Messages\<close> (protocol/), \<open>Bridge_Hub\<close>
    (server/pty_websocket_hub.cc), \<open>Bridge_Server\<close> (parent_ws_server.cc, parent_pty_session.cc),
    \<open>Bridge_Correct\<close>, \<open>Bridge_Reachable\<close>, \<open>Bridge_Views\<close>, \<open>Bridge_Witness\<close> (what a browser, a
    sequence of steps and the frames of the parent do, and states in which the guarantees apply).
    A hub method runs under its lock and is one step; a turn of a browser's thread, a new
    connection and a reading of the parent's descriptors are steps in any order.
  \<^item> Shared: \<open>Prelude\<close> (exceptions as values, \<open>std::map\<close>), \<open>Text\<close> (decimal numbers and escape
    sequences), \<open>Path\<close> (file-system paths), \<open>Byte_Search\<close>, \<open>Byte_Scan\<close> and \<open>Byte_Stream\<close> (searching
    byte strings, parsers fed in chunks), \<open>Big_Endian\<close> (words as bytes), \<open>Effects\<close> (computations
    that change the world).

  \<^bold>\<open>State and operations\<close>

  A class is a record, a method a function from the object to its result and the new object. A
  method that may throw returns \<open>'a result\<close>: the exception, or the value. A thrown exception
  loses the state, except where the modelled code catches it and goes on: there the operation
  returns the outcome beside the changed object.
  Signed 32-bit arithmetic of the geometry is checked (\<open>checked_int\<close>): overflow is an error of
  its own, shown not to happen on regions of up to \<open>INT32_MAX / 100\<close> rows and columns. The
  recursions over the node graph carry a depth bound, the number of nodes plus one
  (\<open>layout_depth_bound\<close>), shown to suffice for every represented layout.

  Code outside src/ and the operating system are arguments: the pseudo terminals and terminal
  screens of panes (\<open>pane_runtime\<close>), the picker process (\<open>picker_system\<close>), the file system
  (\<open>file_system\<close>), the overlay a tray may show (\<open>overlay_view\<close>), what the dialog asks of the
  registry and Git (\<open>dialog_world\<close>), and for the operations on worktrees the files, the commands
  that are run, the standard streams and the protobuf encoding (\<open>system\<close>). What the theorems need of them is named (\<open>runtime_obliges\<close>,
  \<open>overlay_updates\<close>, \<open>dialog_obliges\<close>, \<open>world_obliges\<close>; for the system \<open>store_obliges\<close>: reading back what was written,
  and a rename that replaces one file; \<open>canonical_obliges\<close>; \<open>commands_oblige\<close>, \<open>printing_obliges\<close> and
  \<open>repository_obliges\<close>: commands, output and the preparation of a repository leave the registry's
  file alone) and shown to hold of concrete ones (\<open>calm_runtime\<close>, \<open>calm_view\<close>, \<open>demo_system\<close>).
  A socket is what its calls will meet (\<open>arrival\<close>, \<open>acceptance\<close>); theorems about what is read and
  sent ask that it does not fail (\<open>calm\<close>, and \<open>steady\<close> where the code takes an interruption for
  a closed connection).

  \<^bold>\<open>What is shown\<close>

  The layout operations keep the representation and normal form and act on the panes in
  reading order as on a list; geometries tile their region; directional search equals its
  specification; a move session stays consistent and its preview is what confirming commits. A
  tray and the tray manager, as state machines, keep their invariants in every reachable state,
  and each request is answered. So does the worktree dialog, which never throws in a reachable
  state; the dispatcher keeps the trays' invariant under every command and never removes the
  protected worktree. The input decoder loses no byte and does not depend on how the
  bytes are cut. The registry of worktrees is loaded as it was saved and its file is never torn;
  removing, provisioning and registering change what it tracks by exactly one worktree or
  repository, and requests that are refused change nothing. What browsers send reaches the parent in order, what
  the parent prints and shows reaches the hub however it is cut, and every sequence of steps keeps
  the stored output within its limits; the handshake's digest is the standard's. The exceptions are
  stated as theorems: a move can nest splits of one axis, after which swapping or redrawing throws;
  a message that cannot be carried out leaves its browser registered but unread.

  \<^bold>\<open>Not modelled\<close>

  The event loop of the parent and the starting of processes and listeners (workspace_parent.cc,
  listen_on and the accept loop of parent_ws_server.cc, \<open>ParentPtySession::start\<close>, src/src/process,
  src/src/base), which are calls into the operating system; the JavaScript the browser runs; the
  terminal emulator (libvterm) behind the terminal screen.
\<close>

end
